(* ===== verification/Prelude.thy ===== *)
theory Prelude
  imports Main "HOL-Library.Word"
begin

text \<open>
  What every component theory of the development shares: the machine integer types of the C
  sources, results that may be a fault of the program, loops that stop at the first fault,
  byte arrays read and written through a circular index, and power-of-two masks.
\<close>

unbundle bit_operations_syntax

type_synonym byte = "8 word"
type_synonym u8 = "8 word"
type_synonym u32 = "32 word"

named_theorems res_simps "rewriting of results, binds and fault-stopping loops"
named_theorems ring_simps "circular byte arrays"

section \<open>Faults and results\<close>

text \<open>
  The C code stops in one of a few ways: a failed \<open>assert\<close>, a failed \<open>check\<close> or \<open>pcheck\<close> of
  the Cell library, the \<open>unreached()\<close> marker, or an access that C leaves undefined (outside an
  array, through a null pointer, a signed overflow, a division by zero, a bad shift, a second
  \<open>free\<close>), or a read of an empty hardware mailbox, which never returns (\<open>Stalled\<close>).
  \<open>OutOfFuel\<close> is not a behaviour of the code: it marks that a bounded run of a loop was cut short.
\<close>

datatype fault =
    AssertFail
  | CheckFail
  | Unreached
  | OutOfBounds
  | NullPointer
  | SignedOverflow
  | DivideByZero
  | DoubleFree
  | Stalled
  | OutOfFuel

type_synonym 'a res = "fault + 'a"

definition rbind :: "'a res \<Rightarrow> ('a \<Rightarrow> 'b res) \<Rightarrow> 'b res" where
  "rbind m f = (case m of Inl e \<Rightarrow> Inl e | Inr x \<Rightarrow> f x)"

definition ensure :: "fault \<Rightarrow> bool \<Rightarrow> 'a res \<Rightarrow> 'a res" where
  "ensure e c m = (if c then m else Inl e)"

definition deref :: "'a option \<Rightarrow> 'a res" where
  "deref p = (case p of None \<Rightarrow> Inl NullPointer | Some x \<Rightarrow> Inr x)"

definition index_res :: "'a list \<Rightarrow> nat \<Rightarrow> 'a res" where
  "index_res xs i = (if i < length xs then Inr (xs ! i) else Inl OutOfBounds)"

lemma rbind_simps [simp, res_simps]:
  "rbind (Inl e) f = Inl e" "rbind (Inr x) f = f x"
  by (simp_all add: rbind_def)

lemma rbind_Inr [simp]: "rbind m Inr = m"
  by (cases m) simp_all

lemma rbind_assoc: "rbind (rbind m f) g = rbind m (\<lambda>x. rbind (f x) g)"
  by (cases m) simp_all

lemma rbind_eq_Inr [res_simps]: "rbind m f = Inr y \<longleftrightarrow> (\<exists>x. m = Inr x \<and> f x = Inr y)"
  by (cases m) simp_all

lemma ensure_simps [simp, res_simps]: "ensure e True m = m" "ensure e False m = Inl e"
  by (simp_all add: ensure_def)

lemma ensure_eq_Inr [res_simps]: "ensure e c m = Inr y \<longleftrightarrow> c \<and> m = Inr y"
  by (simp add: ensure_def)

lemma deref_simps [simp, res_simps]: "deref None = Inl NullPointer" "deref (Some x) = Inr x"
  by (simp_all add: deref_def)

lemma deref_eq_Inr [res_simps]: "deref p = Inr x \<longleftrightarrow> p = Some x"
  by (cases p) simp_all

lemma index_res_eq_Inr [res_simps]: "index_res xs i = Inr x \<longleftrightarrow> i < length xs \<and> xs ! i = x"
  by (auto simp: index_res_def)

lemma index_res_in [simp]: "i < length xs \<Longrightarrow> index_res xs i = Inr (xs ! i)"
  by (simp add: index_res_def)

section \<open>Loops that stop at the first fault\<close>

fun rfold :: "('a \<Rightarrow> 's \<Rightarrow> 's res) \<Rightarrow> 'a list \<Rightarrow> 's \<Rightarrow> 's res" where
  "rfold f [] s = Inr s"
| "rfold f (x # xs) s = rbind (f x s) (rfold f xs)"

lemma rfold_Nil_fun [simp]: "rfold f [] = Inr"
  by (rule ext) simp

lemma rfold_append [res_simps]: "rfold f (xs @ ys) s = rbind (rfold f xs s) (rfold f ys)"
proof (induction xs arbitrary: s)
  case Nil
  then show ?case by simp
next
  case (Cons x xs)
  have "rbind (f x s) (rfold f (xs @ ys)) = rbind (f x s) (\<lambda>t. rbind (rfold f xs t) (rfold f ys))"
    using Cons.IH by (simp add: rbind_def split: sum.split)
  then show ?case by (simp add: rbind_assoc)
qed

lemma rfold_cong [fundef_cong]:
  "xs = ys \<Longrightarrow> s = t \<Longrightarrow> (\<And>x u. x \<in> set ys \<Longrightarrow> f x u = g x u) \<Longrightarrow> rfold f xs s = rfold g ys t"
proof (induction xs arbitrary: ys s t)
  case Nil
  then show ?case by auto
next
  case (Cons x xs)
  then show ?case by (auto simp: rbind_def split: sum.split)
qed

lemma rfold_invariant:
  assumes "rfold f xs s = Inr t" and "P s"
    and "\<And>x u v. x \<in> set xs \<Longrightarrow> P u \<Longrightarrow> f x u = Inr v \<Longrightarrow> P v"
  shows "P t"
  using assms
proof (induction xs arbitrary: s)
  case Nil
  then show ?case by simp
next
  case (Cons x xs)
  from Cons.prems(1) obtain u where u: "f x s = Inr u" "rfold f xs u = Inr t"
    by (auto simp: res_simps)
  have "P u" using Cons.prems(2,3) u(1) by (meson list.set_intros(1))
  with u(2) show ?case
    using Cons.IH Cons.prems(3) by (meson list.set_intros(2))
qed

lemma rfold_total:
  assumes "P s" and "\<And>x u. x \<in> set xs \<Longrightarrow> P u \<Longrightarrow> \<exists>v. f x u = Inr v \<and> P v"
  shows "\<exists>t. rfold f xs s = Inr t \<and> P t"
  using assms
proof (induction xs arbitrary: s)
  case Nil
  then show ?case by simp
next
  case (Cons x xs)
  obtain v where v: "f x s = Inr v" "P v"
    using Cons.prems by (meson list.set_intros(1))
  then show ?case
    using Cons.IH [OF v(2)] Cons.prems(2) by simp
qed

text \<open>Two loops that agree on the states an invariant allows.\<close>

lemma rfold_eq_invariant:
  assumes "P s" and "\<And>x u. x \<in> set xs \<Longrightarrow> P u \<Longrightarrow> f x u = g x u \<and> (\<forall>v. f x u = Inr v \<longrightarrow> P v)"
  shows "rfold f xs s = rfold g xs s \<and> (\<forall>t. rfold f xs s = Inr t \<longrightarrow> P t)"
  using assms
proof (induction xs arbitrary: s)
  case Nil
  then show ?case by simp
next
  case (Cons x xs)
  have x: "f x s = g x s" "\<forall>v. f x s = Inr v \<longrightarrow> P v"
    using Cons.prems by (meson list.set_intros(1))+
  show ?case
  proof (cases "f x s")
    case (Inl e)
    then show ?thesis using x(1) by simp
  next
    case (Inr v)
    then have v: "P v" "g x s = Inr v" using x by auto
    have "rfold f xs v = rfold g xs v \<and> (\<forall>t. rfold f xs v = Inr t \<longrightarrow> P t)"
      by (rule Cons.IH [OF v(1)], rule Cons.prems(2)) simp_all
    then show ?thesis using v(2) Inr by simp
  qed
qed

lemma rfold_concat: "rfold f (concat xss) s = rfold (\<lambda>xs. rfold f xs) xss s"
proof (induction xss arbitrary: s)
  case Nil
  then show ?case by simp
next
  case (Cons xs xss)
  then show ?case by (simp add: rfold_append rbind_def split: sum.split)
qed

lemma rfold_map: "rfold f (map h xs) s = rfold (\<lambda>x. f (h x)) xs s"
  by (induction xs arbitrary: s) (simp_all add: rbind_def split: sum.split)

lemma rfold_const: "length xs = length ys \<Longrightarrow> rfold (\<lambda>_. f) xs s = rfold (\<lambda>_. f) ys s"
  by (induction xs ys arbitrary: s rule: list_induct2) (simp_all add: rbind_def split: sum.split)

lemma rfold_upt_nth: "rfold (\<lambda>i. f (xs ! i)) [0..<length xs] s = rfold f xs s"
  using rfold_map [of f "\<lambda>i. xs ! i" "[0..<length xs]" s] by (simp add: map_nth)

end
