(* ===== verification/Ring_Bytes.thy ===== *)
theory Ring_Bytes
  imports Prelude
begin

text \<open>
  Byte arrays of the C code.  The flat accesses (\<open>load_bytes\<close>, \<open>store_bytes\<close>, \<open>memcpy_res\<close>) fault
  outside the array, where C is undefined.  The circular accesses (\<open>ring_read\<close>, \<open>ring_write\<close>) are
  the reference the masked index arithmetic of the tapes and buffers is compared with; an item
  sequence \<open>ring_items\<close> is what a first-in first-out queue kept in such an array holds.
\<close>

section \<open>Flat accesses\<close>

definition load_bytes :: "byte list \<Rightarrow> int \<Rightarrow> int \<Rightarrow> byte list res" where
  "load_bytes xs p n =
     (if 0 \<le> p \<and> 0 \<le> n \<and> p + n \<le> int (length xs)
      then Inr (take (nat n) (drop (nat p) xs)) else Inl OutOfBounds)"

definition store_bytes :: "byte list \<Rightarrow> int \<Rightarrow> byte list \<Rightarrow> byte list res" where
  "store_bytes xs p bs =
     (if 0 \<le> p \<and> p + int (length bs) \<le> int (length xs)
      then Inr (take (nat p) xs @ bs @ drop (nat p + length bs) xs) else Inl OutOfBounds)"

definition memcpy_res :: "byte list \<Rightarrow> int \<Rightarrow> byte list \<Rightarrow> int \<Rightarrow> int \<Rightarrow> byte list res" where
  "memcpy_res d dp s sp n = rbind (load_bytes s sp n) (store_bytes d dp)"

section \<open>Circular accesses\<close>

definition ring_read :: "byte list \<Rightarrow> nat \<Rightarrow> nat \<Rightarrow> byte list" where
  "ring_read xs p n = map (\<lambda>i. xs ! ((p + i) mod length xs)) [0..<n]"

fun ring_write :: "byte list \<Rightarrow> nat \<Rightarrow> byte list \<Rightarrow> byte list" where
  "ring_write xs p [] = xs"
| "ring_write xs p (b # bs) = ring_write (xs[p mod length xs := b]) (Suc p) bs"

definition ring_items :: "byte list \<Rightarrow> nat \<Rightarrow> nat \<Rightarrow> nat \<Rightarrow> byte list list" where
  "ring_items xs p sz n = map (\<lambda>i. ring_read xs (p + i * sz) sz) [0..<n]"

lemma length_ring_read [simp]: "length (ring_read xs p n) = n"
  by (simp add: ring_read_def)

lemma length_ring_write [simp]: "length (ring_write xs p bs) = length xs"
  by (induction xs p bs rule: ring_write.induct) simp_all

lemma length_ring_items [simp]: "length (ring_items xs p sz n) = n"
  by (simp add: ring_items_def)

lemma ring_read_0 [simp]: "ring_read xs p 0 = []"
  by (simp add: ring_read_def)

lemma ring_read_nth: "i < n \<Longrightarrow> ring_read xs p n ! i = xs ! ((p + i) mod length xs)"
  by (simp add: ring_read_def)

lemma ring_read_append [ring_simps]:
  "ring_read xs p (m + n) = ring_read xs p m @ ring_read xs (p + m) n"
  by (rule nth_equalityI) (auto simp: ring_read_nth nth_append add.assoc)

lemma ring_write_append [ring_simps]:
  "ring_write xs p (as @ bs) = ring_write (ring_write xs p as) (p + length as) bs"
  by (induction xs p as rule: ring_write.induct) simp_all

lemma ring_read_mod: "ring_read xs (p mod length xs) n = ring_read xs p n"
  by (simp add: ring_read_def mod_add_left_eq)

lemma ring_write_mod: "ring_write xs (p mod length xs) bs = ring_write xs p bs"
proof (induction bs arbitrary: xs p)
  case Nil
  then show ?case by simp
next
  case (Cons b bs)
  let ?ys = "xs[p mod length xs := b]"
  have "ring_write ?ys (Suc (p mod length xs)) bs
      = ring_write ?ys (Suc (p mod length xs) mod length ?ys) bs"
    by (rule Cons.IH [symmetric])
  also have "\<dots> = ring_write ?ys (Suc p mod length ?ys) bs"
    by (simp add: mod_Suc_eq)
  also have "\<dots> = ring_write ?ys (Suc p) bs"
    by (rule Cons.IH)
  finally show ?case by simp
qed

lemma ring_read_cong_mod:
  "p mod length xs = q mod length xs \<Longrightarrow> ring_read xs p n = ring_read xs q n"
  using ring_read_mod [of xs p n] ring_read_mod [of xs q n] by simp

lemma ring_write_cong_mod:
  "p mod length xs = q mod length xs \<Longrightarrow> ring_write xs p bs = ring_write xs q bs"
  using ring_write_mod [of xs p bs] ring_write_mod [of xs q bs] by simp

lemma ring_read_flat: "p + n \<le> length xs \<Longrightarrow> ring_read xs p n = take n (drop p xs)"
  by (rule nth_equalityI) (auto simp: ring_read_nth)

lemma ring_write_flat:
  "p + length bs \<le> length xs \<Longrightarrow> ring_write xs p bs = take p xs @ bs @ drop (p + length bs) xs"
proof (induction xs p bs rule: ring_write.induct)
  case (1 xs p)
  then show ?case by simp
next
  case (2 xs p b bs)
  then have p: "p < length xs" by simp
  with 2 show ?case
    by (simp add: take_Suc_conv_app_nth)
qed

text \<open>Positions below one turn of the ring: two distinct offsets never share a cell.\<close>

lemma ring_pos_inj_le:
  assumes "i \<le> j" "j < (L::nat)" "(p + j) mod L = (p + i) mod L"
  shows "i = j"
proof -
  have "L dvd (p + j) - (p + i)"
    using assms by (subst mod_eq_dvd_iff_nat [symmetric]) auto
  then have "L dvd j - i" by simp
  then show ?thesis
    using assms(1,2) by (cases "j - i") (auto dest: dvd_imp_le)
qed

lemma ring_pos_inj:
  "i < (L::nat) \<Longrightarrow> j < L \<Longrightarrow> (p + i) mod L = (p + j) mod L \<Longrightarrow> i = j"
  using ring_pos_inj_le [of i j L p] ring_pos_inj_le [of j i L p] by (cases "i \<le> j") auto

text \<open>What a circular write leaves at each offset from its start.\<close>

lemma ring_write_nth:
  assumes "i < length xs" "length bs \<le> length xs"
  shows "ring_write xs p bs ! ((p + i) mod length xs)
    = (if i < length bs then bs ! i else xs ! ((p + i) mod length xs))"
  using assms
proof (induction bs arbitrary: xs p i)
  case Nil
  then show ?case by simp
next
  case (Cons b bs)
  let ?L = "length xs"
  let ?ys = "xs[p mod ?L := b]"
  have L: "0 < ?L" using Cons.prems by auto
  show ?case
  proof (cases i)
    case 0
    have "Suc p + (?L - 1) = p + ?L" using L by simp
    then have pos: "(p + 0) mod ?L = (Suc p + (?L - 1)) mod ?L" by (simp only: mod_add_self2 add_0_right)
    have "ring_write ?ys (Suc p) bs ! ((Suc p + (?L - 1)) mod length ?ys)
        = (if ?L - 1 < length bs then bs ! (?L - 1) else ?ys ! ((Suc p + (?L - 1)) mod ?L))"
      using Cons.IH [of "?L - 1" ?ys "Suc p"] Cons.prems L by simp
    moreover have "\<not> ?L - 1 < length bs" using Cons.prems by simp
    ultimately show ?thesis using 0 L pos by simp
  next
    case (Suc j)
    have ne: "(p + Suc j) mod ?L \<noteq> p mod ?L"
      using ring_pos_inj [of "Suc j" ?L 0 p] Cons.prems Suc L by (metis add_0_right nat.simps(3))
    have "ring_write ?ys (Suc p) bs ! ((Suc p + j) mod length ?ys)
        = (if j < length bs then bs ! j else ?ys ! ((Suc p + j) mod ?L))"
      using Cons.IH [of j ?ys "Suc p"] Cons.prems Suc by simp
    then show ?thesis using Suc ne by simp
  qed
qed

lemma ring_read_write_same:
  "length bs \<le> length xs \<Longrightarrow> ring_read (ring_write xs p bs) p (length bs) = bs"
  by (rule nth_equalityI) (auto simp: ring_read_nth ring_write_nth)

lemma ring_read_write_before:
  assumes "n + length bs \<le> length xs"
  shows "ring_read (ring_write xs (p + n) bs) p n = ring_read xs p n"
proof (rule nth_equalityI)
  fix i assume "i < length (ring_read (ring_write xs (p + n) bs) p n)"
  then have i: "i < n" by simp
  let ?L = "length xs"
  have "p + n + (?L - n + i) = p + i + ?L" using assms by simp
  then have pos: "(p + i) mod ?L = (p + n + (?L - n + i)) mod ?L"
    by (simp only: mod_add_self2)
  have "ring_write xs (p + n) bs ! ((p + n + (?L - n + i)) mod ?L)
      = xs ! ((p + n + (?L - n + i)) mod ?L)"
    by (subst ring_write_nth) (use i assms in auto)
  then show "ring_read (ring_write xs (p + n) bs) p n ! i = ring_read xs p n ! i"
    using i pos by (simp add: ring_read_nth)
qed simp

section \<open>Item sequences\<close>

lemma ring_items_0 [simp]: "ring_items xs p sz 0 = []"
  by (simp add: ring_items_def)

lemma ring_items_Suc:
  "ring_items xs p sz (Suc n) = ring_read xs p sz # ring_items xs (p + sz) sz n"
  unfolding ring_items_def by (subst map_upt_Suc) (simp add: add.assoc)

lemma ring_items_mod: "ring_items xs (p mod length xs) sz n = ring_items xs p sz n"
  unfolding ring_items_def
  by (rule map_cong [OF refl], rule ring_read_cong_mod) (simp add: mod_add_left_eq)

lemma ring_items_cong_mod:
  "p mod length xs = q mod length xs \<Longrightarrow> ring_items xs p sz n = ring_items xs q sz n"
  using ring_items_mod [of xs p sz n] ring_items_mod [of xs q sz n] by simp

lemma ring_items_snoc:
  assumes "n * sz + length b \<le> length xs" "length b = sz"
  shows "ring_items (ring_write xs (p + n * sz) b) p sz (Suc n) = ring_items xs p sz n @ [b]"
proof -
  let ?ys = "ring_write xs (p + n * sz) b"
  have last: "ring_read ?ys (p + n * sz) sz = b"
    using ring_read_write_same [of b xs "p + n * sz"] assms by simp
  have "ring_read ?ys (p + i * sz) sz = ring_read xs (p + i * sz) sz" if "i < n" for i
  proof -
    have le: "Suc i * sz \<le> n * sz" using that by (metis Suc_leI mult_le_mono1)
    have "ring_read ?ys p (n * sz) = ring_read xs p (n * sz)"
      using ring_read_write_before [of "n * sz" b xs p] assms by simp
    moreover have split: "ring_read zs p (n * sz)
        = ring_read zs p (i * sz) @ ring_read zs (p + i * sz) sz
          @ ring_read zs (p + i * sz + sz) (n * sz - Suc i * sz)" for zs
    proof -
      have "n * sz = i * sz + (sz + (n * sz - Suc i * sz))" using le by simp
      then show ?thesis by (metis ring_read_append)
    qed
    ultimately show ?thesis by (metis append_eq_append_conv length_ring_read)
  qed
  then show ?thesis using last by (simp add: ring_items_def)
qed

section \<open>Masked positions\<close>

lemma int_and_mask: "(x::int) AND (2 ^ k - 1) = x mod 2 ^ k"
  by (metis mask_eq_exp_minus_1 take_bit_eq_mask take_bit_eq_mod)

lemma word_and_mask: "(x::'a::len word) AND (2 ^ k - 1) = take_bit k x"
  by (metis mask_eq_exp_minus_1 take_bit_eq_mask)

lemma unat_and_mask: "unat ((x::'a::len word) AND (2 ^ k - 1)) = unat x mod 2 ^ k"
  by (metis word_and_mask unsigned_take_bit_eq take_bit_eq_mod)

end
