(* ===== verification/Queue_Store.thy ===== *)
theory Queue_Store
  imports Prelude
begin

text \<open>
  The interface between the streams and the queues that connect them, and the stream operators
  written against it.  The templates \<open>rrsplitter.h\<close> and \<open>rrjoiner.h\<close> of the Cell library are
  written over \<open>push\<close> and \<open>pop\<close> macros that are bound to a buffer type later, so their models
  take the two operations as arguments.  A store holds several queues, named by identifiers;
  the locale \<open>queue_store\<close> states what a provider of \<open>put\<close> and \<open>get\<close> promises for a set of
  queues that do not share memory, and the operators are proved correct once inside it.
\<close>

section \<open>The operators\<close>

definition qs_move :: "('i \<Rightarrow> 's \<Rightarrow> ('x \<times> 's) res) \<Rightarrow> ('i \<Rightarrow> 'x \<Rightarrow> 's \<Rightarrow> 's res)
    \<Rightarrow> 'i \<Rightarrow> 'i \<Rightarrow> 's \<Rightarrow> 's res" where
  "qs_move get put i j s = rbind (get i s) (\<lambda>(x, s'). put j x s')"

definition rr_split_round :: "('i \<Rightarrow> 's \<Rightarrow> ('x \<times> 's) res) \<Rightarrow> ('i \<Rightarrow> 'x \<Rightarrow> 's \<Rightarrow> 's res)
    \<Rightarrow> nat list \<Rightarrow> 'i \<Rightarrow> 'i list \<Rightarrow> 's \<Rightarrow> 's res" where
  "rr_split_round get put rates inp outs =
     rfold (\<lambda>i s. rbind (index_res rates i) (\<lambda>r.
       rfold (\<lambda>j s. rbind (index_res outs i) (\<lambda>out. qs_move get put inp out s)) [0..<r] s))
       [0..<length outs]"

definition rr_splitter :: "('i \<Rightarrow> 's \<Rightarrow> ('x \<times> 's) res) \<Rightarrow> ('i \<Rightarrow> 'x \<Rightarrow> 's \<Rightarrow> 's res)
    \<Rightarrow> nat \<Rightarrow> nat list \<Rightarrow> 'i \<Rightarrow> 'i list \<Rightarrow> 's \<Rightarrow> 's res" where
  "rr_splitter get put scale rates inp outs =
     rfold (\<lambda>k. rr_split_round get put rates inp outs) [0..<scale]"

definition rr_join_round :: "('i \<Rightarrow> 's \<Rightarrow> ('x \<times> 's) res) \<Rightarrow> ('i \<Rightarrow> 'x \<Rightarrow> 's \<Rightarrow> 's res)
    \<Rightarrow> nat list \<Rightarrow> 'i list \<Rightarrow> 'i \<Rightarrow> 's \<Rightarrow> 's res" where
  "rr_join_round get put rates inps out =
     rfold (\<lambda>i s. rbind (index_res rates i) (\<lambda>r.
       rfold (\<lambda>j s. rbind (index_res inps i) (\<lambda>inp. qs_move get put inp out s)) [0..<r] s))
       [0..<length inps]"

definition rr_joiner :: "('i \<Rightarrow> 's \<Rightarrow> ('x \<times> 's) res) \<Rightarrow> ('i \<Rightarrow> 'x \<Rightarrow> 's \<Rightarrow> 's res)
    \<Rightarrow> nat \<Rightarrow> nat list \<Rightarrow> 'i list \<Rightarrow> 'i \<Rightarrow> 's \<Rightarrow> 's res" where
  "rr_joiner get put scale rates inps out =
     rfold (\<lambda>k. rr_join_round get put rates inps out) [0..<scale]"

text \<open>One item read once and written to every output, as a duplicate splitter does.\<close>

definition dup_split :: "('i \<Rightarrow> 's \<Rightarrow> ('x \<times> 's) res) \<Rightarrow> ('i \<Rightarrow> 'x \<Rightarrow> 's \<Rightarrow> 's res)
    \<Rightarrow> 'i \<Rightarrow> 'i list \<Rightarrow> 's \<Rightarrow> 's res" where
  "dup_split get put inp outs s = rbind (get inp s) (\<lambda>(x, s'). rfold (\<lambda>out. put out x) outs s')"

text \<open>
  The work function of a filter (\<open>BEGIN_WORK_FUNC\<close> and \<open>END_WORK_FUNC\<close>) runs its body in a
  \<open>do ... while (--_iters != 0)\<close> loop over an unsigned 32-bit count, so a count of 0 wraps and
  runs the body \<open>2 ^ 32\<close> times.
\<close>

definition work_func_loop :: "('s \<Rightarrow> 's res) \<Rightarrow> u32 \<Rightarrow> 's \<Rightarrow> 's res" where
  "work_func_loop body iters =
     rfold (\<lambda>_. body) [0..<(if iters = 0 then 2 ^ 32 else unat iters)]"

section \<open>Which items of a stream go to which branch\<close>

definition branch_start :: "nat list \<Rightarrow> nat \<Rightarrow> nat" where
  "branch_start rates i = sum_list (take i rates)"

definition branch_slice :: "nat list \<Rightarrow> 'x list \<Rightarrow> nat \<Rightarrow> 'x list" where
  "branch_slice rates xs i = take (rates ! i) (drop (branch_start rates i) xs)"

lemma branch_start_0 [simp]: "branch_start rates 0 = 0"
  by (simp add: branch_start_def)

lemma branch_start_Suc: "i < length rates \<Longrightarrow> branch_start rates (Suc i) = branch_start rates i + rates ! i"
  by (simp add: branch_start_def take_Suc_conv_app_nth)

lemma branch_start_mono: "i \<le> j \<Longrightarrow> branch_start rates i \<le> branch_start rates j"
proof -
  assume "i \<le> j"
  then have "take j rates = take i rates @ take (j - i) (drop i rates)"
    by (metis le_add_diff_inverse take_add)
  then show ?thesis by (simp add: branch_start_def)
qed

lemma branch_slices_concat:
  "m \<le> length rates \<Longrightarrow> concat (map (branch_slice rates xs) [0..<m]) = take (branch_start rates m) xs"
  by (induction m) (simp_all add: branch_slice_def branch_start_Suc take_add)

section \<open>The contract of a queue store\<close>

locale queue_store =
  fixes qinv :: "'s \<Rightarrow> 'i set \<Rightarrow> bool"
    and items :: "'s \<Rightarrow> 'i \<Rightarrow> 'x list"
    and room :: "'s \<Rightarrow> 'i \<Rightarrow> nat"
    and fits :: "'s \<Rightarrow> 'i \<Rightarrow> 'x \<Rightarrow> bool"
    and get :: "'i \<Rightarrow> 's \<Rightarrow> ('x \<times> 's) res"
    and put :: "'i \<Rightarrow> 'x \<Rightarrow> 's \<Rightarrow> 's res"
  assumes get_law: "qinv s I \<Longrightarrow> i \<in> I \<Longrightarrow> items s i = x # xs \<Longrightarrow>
      \<exists>s'. get i s = Inr (x, s') \<and> qinv s' I \<and>
        (\<forall>j\<in>I. items s' j = (if j = i then xs else items s j) \<and>
               room s' j = (if j = i then Suc (room s i) else room s j) \<and>
               fits s' j = fits s j)"
    and put_law: "qinv s I \<Longrightarrow> i \<in> I \<Longrightarrow> 0 < room s i \<Longrightarrow> fits s i x \<Longrightarrow>
      \<exists>s'. put i x s = Inr s' \<and> qinv s' I \<and>
        (\<forall>j\<in>I. items s' j = (if j = i then items s i @ [x] else items s j) \<and>
               room s' j = (if j = i then room s i - 1 else room s j) \<and>
               fits s' j = fits s j)"
begin

lemma move_law:
  assumes "qinv s I" "i \<in> I" "j \<in> I" "i \<noteq> j" "items s i = x # xs" "0 < room s j" "fits s j x"
  shows "\<exists>s'. qs_move get put i j s = Inr s' \<and> qinv s' I \<and>
    (\<forall>k\<in>I. items s' k = (if k = i then xs else if k = j then items s j @ [x] else items s k) \<and>
           room s' k = (if k = i then Suc (room s i) else if k = j then room s j - 1 else room s k) \<and>
           fits s' k = fits s k)"
proof -
  obtain s1 where s1: "get i s = Inr (x, s1)" "qinv s1 I"
    "\<forall>j\<in>I. items s1 j = (if j = i then xs else items s j) \<and>
        room s1 j = (if j = i then Suc (room s i) else room s j) \<and> fits s1 j = fits s j"
    using get_law [OF assms(1,2,5)] by blast
  with assms have "0 < room s1 j" "fits s1 j x" by auto
  then obtain s2 where "put j x s1 = Inr s2" "qinv s2 I"
    "\<forall>k\<in>I. items s2 k = (if k = j then items s1 j @ [x] else items s1 k) \<and>
        room s2 k = (if k = j then room s1 j - 1 else room s1 k) \<and> fits s2 k = fits s1 k"
    using put_law [OF s1(2) assms(3)] by blast
  with s1 assms(2-4) show ?thesis by (auto simp: qs_move_def)
qed

text \<open>A run of \<open>n\<close> moves takes the first \<open>n\<close> items over in order.\<close>

lemma moves_law:
  assumes "qinv s I" "i \<in> I" "j \<in> I" "i \<noteq> j" "length js = n" "n \<le> length (items s i)" "n \<le> room s j"
    "\<forall>x \<in> set (items s i). fits s j x"
  shows "\<exists>s'. rfold (\<lambda>_. qs_move get put i j) js s = Inr s' \<and> qinv s' I \<and>
    (\<forall>k\<in>I. items s' k = (if k = i then drop n (items s i)
                           else if k = j then items s j @ take n (items s i) else items s k) \<and>
           room s' k = (if k = i then room s i + n else if k = j then room s j - n else room s k) \<and>
           fits s' k = fits s k)"
  using assms
proof (induction js arbitrary: s n)
  case Nil
  then show ?case by auto
next
  case (Cons a js)
  from Cons.prems obtain x xs where xs: "items s i = x # xs" by (cases "items s i") auto
  obtain s1 where s1: "qs_move get put i j s = Inr s1" "qinv s1 I"
    "\<forall>k\<in>I. items s1 k = (if k = i then xs else if k = j then items s j @ [x] else items s k) \<and>
       room s1 k = (if k = i then Suc (room s i) else if k = j then room s j - 1 else room s k) \<and>
       fits s1 k = fits s k"
    using move_law [OF Cons.prems(1-4) xs] Cons.prems xs by auto
  from Cons.prems obtain m where m: "n = Suc m" "length js = m" by auto
  have "m \<le> length (items s1 i)" "m \<le> room s1 j" "\<forall>x \<in> set (items s1 i). fits s1 j x"
    using s1(3) Cons.prems xs m by auto
  then obtain s2 where s2: "rfold (\<lambda>_. qs_move get put i j) js s1 = Inr s2" "qinv s2 I"
    "\<forall>k\<in>I. items s2 k = (if k = i then drop m (items s1 i)
         else if k = j then items s1 j @ take m (items s1 i) else items s1 k) \<and>
       room s2 k = (if k = i then room s1 i + m else if k = j then room s1 j - m else room s1 k) \<and>
       fits s2 k = fits s1 k"
    using Cons.IH [OF s1(2) Cons.prems(2-4) m(2)] by blast
  have "rfold (\<lambda>_. qs_move get put i j) (a # js) s = Inr s2"
    using s1(1) s2(1) by simp
  moreover have "\<forall>k\<in>I. items s2 k = (if k = i then drop n (items s i)
      else if k = j then items s j @ take n (items s i) else items s k) \<and>
    room s2 k = (if k = i then room s i + n else if k = j then room s j - n else room s k) \<and>
    fits s2 k = fits s k"
    using s1(3) s2(3) m xs Cons.prems(2-4) by simp
  ultimately show ?case using s2(2) by blast
qed

text \<open>
  One round of the splitter, up to branch \<open>m\<close>: branch \<open>i\<close> has received its slice of the input,
  the rest of the input is untouched.
\<close>

definition split_pre :: "'s \<Rightarrow> 'i set \<Rightarrow> nat list \<Rightarrow> 'i \<Rightarrow> 'i list \<Rightarrow> bool" where
  "split_pre s I rates inp outs \<longleftrightarrow>
     qinv s I \<and> inp \<in> I \<and> set outs \<subseteq> I \<and> distinct outs \<and> inp \<notin> set outs \<and>
     length rates = length outs \<and> sum_list rates \<le> length (items s inp) \<and>
     (\<forall>i < length outs. rates ! i \<le> room s (outs ! i)) \<and>
     (\<forall>out \<in> set outs. \<forall>x \<in> set (items s inp). fits s out x)"

definition split_upto :: "'s \<Rightarrow> 's \<Rightarrow> 'i set \<Rightarrow> nat list \<Rightarrow> 'i \<Rightarrow> 'i list \<Rightarrow> nat \<Rightarrow> bool" where
  "split_upto s t I rates inp outs m \<longleftrightarrow> qinv t I \<and>
     items t inp = drop (branch_start rates m) (items s inp) \<and>
     room t inp = room s inp + branch_start rates m \<and>
     (\<forall>i < length outs. items t (outs ! i) = items s (outs ! i) @
         (if i < m then branch_slice rates (items s inp) i else []) \<and>
         room t (outs ! i) = room s (outs ! i) - (if i < m then rates ! i else 0)) \<and>
     (\<forall>k\<in>I. fits t k = fits s k) \<and>
     (\<forall>k\<in>I. k \<noteq> inp \<longrightarrow> k \<notin> set outs \<longrightarrow> items t k = items s k \<and> room t k = room s k)"

lemma split_round_step:
  assumes pre: "split_pre s I rates inp outs" and up: "split_upto s t I rates inp outs m"
    and m: "m < length outs"
  shows "\<exists>u. rfold (\<lambda>j. qs_move get put inp (outs ! m)) [0..<rates ! m] t = Inr u
    \<and> split_upto s u I rates inp outs (Suc m)"
proof -
  have len: "length rates = length outs" using pre by (simp add: split_pre_def)
  have "branch_start rates (Suc m) \<le> sum_list rates"
    using branch_start_mono [of "Suc m" "length rates" rates] m len
    by (simp add: branch_start_def)
  then have "branch_start rates m + rates ! m \<le> length (items s inp)"
    using pre m len by (simp add: split_pre_def branch_start_Suc)
  then have le: "rates ! m \<le> length (items t inp)"
    using up by (simp add: split_upto_def)
  have q: "qinv t I" "inp \<in> I" "outs ! m \<in> I" "inp \<noteq> outs ! m"
    using pre up m by (auto simp: split_pre_def split_upto_def)
  have rm: "rates ! m \<le> room t (outs ! m)"
    using pre up m by (simp add: split_pre_def split_upto_def)
  have ft: "\<forall>x \<in> set (items t inp). fits t (outs ! m) x"
    using pre up m q(3) by (auto simp: split_pre_def split_upto_def dest: in_set_dropD)
  obtain u where u: "rfold (\<lambda>j. qs_move get put inp (outs ! m)) [0..<rates ! m] t = Inr u"
    "qinv u I"
    "\<forall>k\<in>I. items u k = (if k = inp then drop (rates ! m) (items t inp)
        else if k = outs ! m then items t (outs ! m) @ take (rates ! m) (items t inp) else items t k) \<and>
      room u k = (if k = inp then room t inp + rates ! m
        else if k = outs ! m then room t (outs ! m) - rates ! m else room t k) \<and>
      fits u k = fits t k"
    using moves_law [OF q _ le rm ft, of "[0..<rates ! m]"] by auto
  have outs: "outs ! i \<in> I" "outs ! i \<noteq> inp" "(outs ! i = outs ! m) = (i = m)"
    if "i < length outs" for i
    using pre that m by (auto simp: split_pre_def nth_eq_iff_index_eq)
  have "split_upto s u I rates inp outs (Suc m)"
    using up u(2,3) q(2) m len pre outs
    by (auto simp: split_upto_def split_pre_def branch_start_Suc branch_slice_def add.commute
        less_Suc_eq)
  with u(1) show ?thesis by blast
qed

lemma split_round_law:
  assumes pre: "split_pre s I rates inp outs"
  shows "\<exists>t. rr_split_round get put rates inp outs s = Inr t
    \<and> split_upto s t I rates inp outs (length outs)"
proof -
  have len: "length rates = length outs" using pre by (simp add: split_pre_def)
  let ?f = "\<lambda>i s. rbind (index_res rates i) (\<lambda>r.
      rfold (\<lambda>j s. rbind (index_res outs i) (\<lambda>out. qs_move get put inp out s)) [0..<r] s)"
  have "\<exists>t. rfold ?f [0..<m] s = Inr t \<and> split_upto s t I rates inp outs m" if "m \<le> length outs" for m
    using that
  proof (induction m)
    case 0
    then show ?case using pre by (simp add: split_upto_def split_pre_def)
  next
    case (Suc m)
    then obtain t where t: "rfold ?f [0..<m] s = Inr t" "split_upto s t I rates inp outs m" by auto
    have "?f m t = rfold (\<lambda>j. qs_move get put inp (outs ! m)) [0..<rates ! m] t"
      using Suc.prems len by simp
    with split_round_step [OF pre t(2)] t(1) Suc.prems show ?case
      by (simp add: res_simps)
  qed
  then show ?thesis by (auto simp: rr_split_round_def)
qed

text \<open>
  \<open>n\<close> rounds of the splitter: branch \<open>i\<close> receives its slice of each consecutive block of
  \<open>sum_list rates\<close> items.
\<close>

definition split_rounds_pre :: "'s \<Rightarrow> 'i set \<Rightarrow> nat \<Rightarrow> nat list \<Rightarrow> 'i \<Rightarrow> 'i list \<Rightarrow> bool" where
  "split_rounds_pre s I n rates inp outs \<longleftrightarrow>
     qinv s I \<and> inp \<in> I \<and> set outs \<subseteq> I \<and> distinct outs \<and> inp \<notin> set outs \<and>
     length rates = length outs \<and> n * sum_list rates \<le> length (items s inp) \<and>
     (\<forall>i < length outs. n * rates ! i \<le> room s (outs ! i)) \<and>
     (\<forall>out \<in> set outs. \<forall>x \<in> set (items s inp). fits s out x)"

lemma split_rounds_law:
  assumes "split_rounds_pre s I n rates inp outs" "length ks = n"
  shows "\<exists>t. rfold (\<lambda>k. rr_split_round get put rates inp outs) ks s = Inr t \<and> qinv t I \<and>
     items t inp = drop (n * sum_list rates) (items s inp) \<and>
     (\<forall>i < length outs. items t (outs ! i) = items s (outs ! i) @
        concat (map (\<lambda>k. branch_slice rates (drop (k * sum_list rates) (items s inp)) i) [0..<n]))"
  using assms
proof (induction ks arbitrary: s n)
  case Nil
  then show ?case by (simp add: split_rounds_pre_def)
next
  case (Cons a ks)
  from Cons.prems obtain m where m: "n = Suc m" "length ks = m" by auto
  let ?S = "sum_list rates"
  have len: "length rates = length outs" using Cons.prems(1) by (simp add: split_rounds_pre_def)
  have bs: "branch_start rates (length outs) = ?S" using len by (simp add: branch_start_def)
  have "split_pre s I rates inp outs"
    using Cons.prems(1) m by (auto simp: split_rounds_pre_def split_pre_def)
  then obtain u where u: "rr_split_round get put rates inp outs s = Inr u"
    "split_upto s u I rates inp outs (length outs)"
    using split_round_law by blast
  have out: "outs ! i \<in> I" if "i < length outs" for i
    using Cons.prems(1) that by (auto simp: split_rounds_pre_def)
  have "split_rounds_pre u I m rates inp outs"
    using Cons.prems(1) u(2) m bs
    by (auto simp: split_rounds_pre_def split_upto_def subset_iff dest: in_set_dropD)
  then obtain t where t: "rfold (\<lambda>k. rr_split_round get put rates inp outs) ks u = Inr t" "qinv t I"
    "items t inp = drop (m * ?S) (items u inp)"
    "\<forall>i < length outs. items t (outs ! i) = items u (outs ! i) @
        concat (map (\<lambda>k. branch_slice rates (drop (k * ?S) (items u inp)) i) [0..<m])"
    using Cons.IH m(2) by blast
  have ui: "items u inp = drop ?S (items s inp)"
    using u(2) bs by (simp add: split_upto_def)
  have "items t (outs ! i) = items s (outs ! i) @
      concat (map (\<lambda>k. branch_slice rates (drop (k * ?S) (items s inp)) i) [0..<n])"
    if i: "i < length outs" for i
    unfolding m(1) map_upt_Suc using i t(4) u(2) ui by (simp add: split_upto_def add.commute)
  then show ?case using u(1) t(1-3) ui m by (auto simp: add.commute)
qed

section \<open>The joiner\<close>

definition join_pre :: "'s \<Rightarrow> 'i set \<Rightarrow> nat list \<Rightarrow> 'i list \<Rightarrow> 'i \<Rightarrow> bool" where
  "join_pre s I rates inps out \<longleftrightarrow>
     qinv s I \<and> out \<in> I \<and> set inps \<subseteq> I \<and> distinct inps \<and> out \<notin> set inps \<and>
     length rates = length inps \<and> sum_list rates \<le> room s out \<and>
     (\<forall>i < length inps. rates ! i \<le> length (items s (inps ! i))) \<and>
     (\<forall>inp \<in> set inps. \<forall>x \<in> set (items s inp). fits s out x)"

definition join_upto :: "'s \<Rightarrow> 's \<Rightarrow> 'i set \<Rightarrow> nat list \<Rightarrow> 'i list \<Rightarrow> 'i \<Rightarrow> nat \<Rightarrow> bool" where
  "join_upto s t I rates inps out m \<longleftrightarrow> qinv t I \<and>
     items t out = items s out @ concat (map (\<lambda>i. take (rates ! i) (items s (inps ! i))) [0..<m]) \<and>
     room t out = room s out - branch_start rates m \<and>
     (\<forall>i < length inps. items t (inps ! i) = drop (if i < m then rates ! i else 0) (items s (inps ! i)) \<and>
         room t (inps ! i) = room s (inps ! i) + (if i < m then rates ! i else 0)) \<and>
     (\<forall>k\<in>I. fits t k = fits s k) \<and>
     (\<forall>k\<in>I. k \<noteq> out \<longrightarrow> k \<notin> set inps \<longrightarrow> items t k = items s k \<and> room t k = room s k)"

lemma join_round_step:
  assumes pre: "join_pre s I rates inps out" and up: "join_upto s t I rates inps out m"
    and m: "m < length inps"
  shows "\<exists>u. rfold (\<lambda>j. qs_move get put (inps ! m) out) [0..<rates ! m] t = Inr u
    \<and> join_upto s u I rates inps out (Suc m)"
proof -
  have len: "length rates = length inps" using pre by (simp add: join_pre_def)
  have "branch_start rates (Suc m) \<le> sum_list rates"
    using branch_start_mono [of "Suc m" "length rates" rates] m len
    by (simp add: branch_start_def)
  then have "branch_start rates m + rates ! m \<le> room s out"
    using pre m len by (simp add: join_pre_def branch_start_Suc)
  then have rm: "rates ! m \<le> room t out"
    using up by (simp add: join_upto_def)
  have q: "qinv t I" "inps ! m \<in> I" "out \<in> I" "inps ! m \<noteq> out"
    using pre up m by (auto simp: join_pre_def join_upto_def)
  have it: "items t (inps ! m) = items s (inps ! m)"
    using up m by (simp add: join_upto_def)
  have le: "rates ! m \<le> length (items t (inps ! m))"
    using pre m it by (simp add: join_pre_def)
  have ft: "\<forall>x \<in> set (items t (inps ! m)). fits t out x"
    using pre up m it by (auto simp: join_pre_def join_upto_def)
  obtain u where u: "rfold (\<lambda>j. qs_move get put (inps ! m) out) [0..<rates ! m] t = Inr u"
    "qinv u I"
    "\<forall>k\<in>I. items u k = (if k = inps ! m then drop (rates ! m) (items t (inps ! m))
        else if k = out then items t out @ take (rates ! m) (items t (inps ! m)) else items t k) \<and>
      room u k = (if k = inps ! m then room t (inps ! m) + rates ! m
        else if k = out then room t out - rates ! m else room t k) \<and>
      fits u k = fits t k"
    using moves_law [OF q _ le rm ft, of "[0..<rates ! m]"] by auto
  have inps: "inps ! i \<in> I" "inps ! i \<noteq> out" "(inps ! i = inps ! m) = (i = m)"
    if "i < length inps" for i
    using pre that m by (auto simp: join_pre_def nth_eq_iff_index_eq)
  have "join_upto s u I rates inps out (Suc m)"
    using up u(2,3) q(2-4) m len pre inps it
    by (auto simp: join_upto_def join_pre_def branch_start_Suc less_Suc_eq)
  with u(1) show ?thesis by blast
qed

lemma join_round_law:
  assumes pre: "join_pre s I rates inps out"
  shows "\<exists>t. rr_join_round get put rates inps out s = Inr t
    \<and> join_upto s t I rates inps out (length inps)"
proof -
  have len: "length rates = length inps" using pre by (simp add: join_pre_def)
  let ?f = "\<lambda>i s. rbind (index_res rates i) (\<lambda>r.
      rfold (\<lambda>j s. rbind (index_res inps i) (\<lambda>inp. qs_move get put inp out s)) [0..<r] s)"
  have "\<exists>t. rfold ?f [0..<m] s = Inr t \<and> join_upto s t I rates inps out m" if "m \<le> length inps" for m
    using that
  proof (induction m)
    case 0
    then show ?case using pre by (simp add: join_upto_def join_pre_def)
  next
    case (Suc m)
    then obtain t where t: "rfold ?f [0..<m] s = Inr t" "join_upto s t I rates inps out m" by auto
    have "?f m t = rfold (\<lambda>j. qs_move get put (inps ! m) out) [0..<rates ! m] t"
      using Suc.prems len by simp
    with join_round_step [OF pre t(2)] t(1) Suc.prems show ?case
      by (simp add: res_simps)
  qed
  then show ?thesis by (auto simp: rr_join_round_def)
qed

text \<open>
  A splitter followed by a joiner with the same rates, over branches that start empty, passes
  its input on unchanged and leaves the branches empty again.
\<close>

lemma split_join_identity:
  assumes pre: "split_pre s I rates inp mids" and out: "out \<in> I" "out \<notin> set mids" "out \<noteq> inp"
    and empty: "\<forall>mid \<in> set mids. items s mid = []"
    and roomy: "sum_list rates \<le> room s out" and ft: "\<forall>x \<in> set (items s inp). fits s out x"
  shows "\<exists>t. rbind (rr_split_round get put rates inp mids s) (rr_join_round get put rates mids out) = Inr t
    \<and> qinv t I \<and> items t out = items s out @ take (sum_list rates) (items s inp)
    \<and> items t inp = drop (sum_list rates) (items s inp) \<and> (\<forall>mid \<in> set mids. items t mid = [])"
proof -
  have len: "length rates = length mids" using pre by (simp add: split_pre_def)
  have bs: "branch_start rates (length mids) = sum_list rates" using len by (simp add: branch_start_def)
  obtain u where u: "rr_split_round get put rates inp mids s = Inr u"
    "split_upto s u I rates inp mids (length mids)"
    using split_round_law [OF pre] by blast
  have mid: "items u (mids ! i) = branch_slice rates (items s inp) i" if "i < length mids" for i
    using u(2) empty that by (simp add: split_upto_def)
  have slice: "length (branch_slice rates (items s inp) i) = rates ! i" if "i < length mids" for i
  proof -
    have "branch_start rates (Suc i) \<le> branch_start rates (length mids)"
      using that by (intro branch_start_mono) simp
    then have "branch_start rates i + rates ! i \<le> length (items s inp)"
      using pre that len bs by (simp add: branch_start_Suc split_pre_def)
    then show ?thesis by (simp add: branch_slice_def)
  qed
  have sub: "set (branch_slice rates (items s inp) i) \<subseteq> set (items s inp)" for i
    unfolding branch_slice_def by (meson in_set_dropD in_set_takeD subsetI)
  have ro: "room u out = room s out" and fo: "fits u out = fits s out"
    using u(2) out by (auto simp: split_upto_def)
  have fit: "fits u out x" if m: "m \<in> set mids" "x \<in> set (items u m)" for m x
  proof -
    obtain i where "i < length mids" "m = mids ! i" using m(1) by (auto simp: in_set_conv_nth)
    then have "x \<in> set (items s inp)" using m(2) mid sub by auto
    then show ?thesis using ft fo by simp
  qed
  have "join_pre u I rates mids out"
    unfolding join_pre_def
    using pre u(2) out roomy len mid slice ro fit by (simp add: split_pre_def split_upto_def)
  then obtain t where t: "rr_join_round get put rates mids out u = Inr t"
    "join_upto u t I rates mids out (length mids)"
    using join_round_law by blast
  have eq: "map (\<lambda>i. take (rates ! i) (items u (mids ! i))) [0..<length mids]
      = map (branch_slice rates (items s inp)) [0..<length mids]"
    using mid slice by (auto intro: map_cong)
  have uo: "items u out = items s out" using u(2) out by (auto simp: split_upto_def)
  have "items t out = items u out @ concat (map (\<lambda>i. take (rates ! i) (items u (mids ! i))) [0..<length mids])"
    using t(2) by (simp add: join_upto_def)
  then have "items t out = items s out @ take (sum_list rates) (items s inp)"
    using branch_slices_concat [of "length mids" rates "items s inp"] len bs uo eq by simp
  moreover have "items t inp = drop (sum_list rates) (items s inp)"
    using t(2) u(2) pre out bs by (simp add: join_upto_def split_upto_def split_pre_def)
  moreover have "\<forall>mid \<in> set mids. items t mid = []"
    using t(2) mid slice by (auto simp: join_upto_def in_set_conv_nth)
  ultimately show ?thesis using u(1) t by (auto simp: join_upto_def)
qed

section \<open>The duplicate splitter\<close>

lemma dup_puts_law:
  assumes "qinv s I" "set outs \<subseteq> I" "distinct outs" "\<forall>out\<in>set outs. 0 < room s out \<and> fits s out x"
  shows "\<exists>t. rfold (\<lambda>out. put out x) outs s = Inr t \<and> qinv t I \<and>
    (\<forall>k\<in>I. items t k = (if k \<in> set outs then items s k @ [x] else items s k) \<and>
           room t k = (if k \<in> set outs then room s k - 1 else room s k) \<and> fits t k = fits s k)"
  using assms
proof (induction outs arbitrary: s)
  case Nil
  then show ?case by auto
next
  case (Cons a outs)
  obtain s1 where s1: "put a x s = Inr s1" "qinv s1 I"
    "\<forall>k\<in>I. items s1 k = (if k = a then items s a @ [x] else items s k) \<and>
       room s1 k = (if k = a then room s a - 1 else room s k) \<and> fits s1 k = fits s k"
    using put_law [of s I a x] Cons.prems by auto
  have sub: "set outs \<subseteq> I" "distinct outs" and a: "a \<notin> set outs" using Cons.prems by auto
  have "\<forall>out\<in>set outs. 0 < room s1 out \<and> fits s1 out x"
    using Cons.prems s1(3) sub a by (metis list.set_intros(2) subsetD)
  from Cons.IH [OF s1(2) sub this] obtain t where
    t: "rfold (\<lambda>out. put out x) outs s1 = Inr t" "qinv t I"
    "\<forall>k\<in>I. items t k = (if k \<in> set outs then items s1 k @ [x] else items s1 k) \<and>
       room t k = (if k \<in> set outs then room s1 k - 1 else room s1 k) \<and> fits t k = fits s1 k"
    by blast
  have "rfold (\<lambda>out. put out x) (a # outs) s = Inr t" using s1(1) t(1) by simp
  moreover have "\<forall>k\<in>I. items t k = (if k \<in> set (a # outs) then items s k @ [x] else items s k) \<and>
       room t k = (if k \<in> set (a # outs) then room s k - 1 else room s k) \<and> fits t k = fits s k"
    using s1(3) t(3) a by auto
  ultimately show ?case using t(2) by blast
qed

lemma dup_split_law:
  assumes "qinv s I" "inp \<in> I" "set outs \<subseteq> I" "distinct outs" "inp \<notin> set outs"
    "items s inp = x # xs" "\<forall>out\<in>set outs. 0 < room s out \<and> fits s out x"
  shows "\<exists>t. dup_split get put inp outs s = Inr t \<and> qinv t I \<and> items t inp = xs \<and>
    (\<forall>out\<in>set outs. items t out = items s out @ [x])"
proof -
  obtain s1 where s1: "get inp s = Inr (x, s1)" "qinv s1 I"
    "\<forall>j\<in>I. items s1 j = (if j = inp then xs else items s j) \<and>
       room s1 j = (if j = inp then Suc (room s inp) else room s j) \<and> fits s1 j = fits s j"
    using get_law [OF assms(1,2,6)] by blast
  have sub: "\<And>k. k \<in> set outs \<Longrightarrow> k \<in> I \<and> k \<noteq> inp" using assms(3,5) by auto
  then have "\<forall>out\<in>set outs. 0 < room s1 out \<and> fits s1 out x" using s1(3) assms(7) by simp
  then obtain t where t: "rfold (\<lambda>out. put out x) outs s1 = Inr t" "qinv t I"
    "\<forall>k\<in>I. items t k = (if k \<in> set outs then items s1 k @ [x] else items s1 k) \<and>
       room t k = (if k \<in> set outs then room s1 k - 1 else room s1 k) \<and> fits t k = fits s1 k"
    using dup_puts_law [OF s1(2) assms(3,4)] by blast
  have "dup_split get put inp outs s = Inr t"
    using s1(1) t(1) by (simp add: dup_split_def)
  moreover have "items t inp = xs" using t(3) s1(3) assms(2,5) by simp
  moreover have "\<forall>out\<in>set outs. items t out = items s out @ [x]" using t(3) s1(3) sub by simp
  ultimately show ?thesis using t(2) by blast
qed

end

end
