(* ===== verification/Tape.thy ===== *)
theory Tape
  imports Ring_Bytes Queue_Store
begin

text \<open>
  The tape of the C library (\<open>library/c/streamit.h\<close>, \<open>library/c/streamit_tape.c\<close>): a circular byte
  array with a read and a write position, the access macros, and \<open>create_tape_internal\<close>.  Tapes
  are shared through pointers, so the operations that touch two tapes work on a tape store, a
  map from pointers to tapes.  A tape holds a sequence of items (\<open>tape_items\<close>); the access macros
  are interpreted as a \<open>queue_store\<close>.  Positions are C \<open>int\<close>s that never leave the range of the
  mask, so they are mathematical integers here; the one product that can overflow, the size
  computed in \<open>create_tape_internal\<close>, faults when it does.
\<close>

section \<open>Tapes and the access macros\<close>

record tape =
  t_data :: "byte list"
  read_pos :: int
  write_pos :: int
  t_size :: int
  t_mask :: int

type_synonym tape_ptr = "nat option"
type_synonym tape_store = "nat \<Rightarrow> tape option"

definition incr_tape_localb :: "int \<Rightarrow> int \<Rightarrow> int \<Rightarrow> int" where
  "incr_tape_localb p m n = (p + n) AND m"

definition push_tape_localb :: "byte list \<Rightarrow> int \<Rightarrow> int \<Rightarrow> byte list \<Rightarrow> (byte list \<times> int) res" where
  "push_tape_localb d p m v =
     (let p' = incr_tape_localb p m (int (length v))
      in rbind (store_bytes d p' v) (\<lambda>d'. Inr (d', p')))"

definition pop_tape_localb :: "byte list \<Rightarrow> int \<Rightarrow> int \<Rightarrow> int \<Rightarrow> (byte list \<times> int) res" where
  "pop_tape_localb d p m sz =
     (let p' = incr_tape_localb p m sz in rbind (load_bytes d p' sz) (\<lambda>v. Inr (v, p')))"

definition peek_tape_localb :: "byte list \<Rightarrow> int \<Rightarrow> int \<Rightarrow> int \<Rightarrow> int \<Rightarrow> byte list res" where
  "peek_tape_localb d p m sz n = load_bytes d ((p + (n + 1) * sz) AND m) sz"

definition incr_tape_write :: "int \<Rightarrow> tape \<Rightarrow> tape" where
  "incr_tape_write sz t = t\<lparr>write_pos := incr_tape_localb (write_pos t) (t_mask t) sz\<rparr>"

definition incr_tape_read :: "int \<Rightarrow> tape \<Rightarrow> tape" where
  "incr_tape_read sz t = t\<lparr>read_pos := incr_tape_localb (read_pos t) (t_mask t) sz\<rparr>"

definition push_tape :: "byte list \<Rightarrow> tape \<Rightarrow> tape res" where
  "push_tape v t =
     (let t' = incr_tape_write (int (length v)) t
      in rbind (store_bytes (t_data t') (write_pos t') v) (\<lambda>d. Inr (t'\<lparr>t_data := d\<rparr>)))"

definition pop_tape :: "int \<Rightarrow> tape \<Rightarrow> (byte list \<times> tape) res" where
  "pop_tape sz t =
     (let t' = incr_tape_read sz t
      in rbind (load_bytes (t_data t') (read_pos t') sz) (\<lambda>v. Inr (v, t')))"

text \<open>The macro \<open>PEEK_TAPE\<close> masks \<open>(n + 1) * sizeof(type)\<close> alone: the read position is not in it.\<close>

definition peek_tape :: "int \<Rightarrow> int \<Rightarrow> tape \<Rightarrow> byte list res" where
  "peek_tape sz n t = load_bytes (t_data t) (((n + 1) * sz) AND (t_mask t)) sz"

definition copy_tape_item :: "nat \<Rightarrow> nat \<Rightarrow> tape_store \<Rightarrow> tape_store res" where
  "copy_tape_item s d T =
     rbind (deref (T s)) (\<lambda>ts. rbind (deref (T d)) (\<lambda>td.
       rbind (memcpy_res (t_data td) (write_pos td) (t_data ts) (read_pos ts) (t_size td)) (\<lambda>x.
         Inr (T(d \<mapsto> td\<lparr>t_data := x\<rparr>)))))"

text \<open>Updating a tape through its pointer.\<close>

definition upd_tape :: "nat \<Rightarrow> (tape \<Rightarrow> tape) \<Rightarrow> tape_store \<Rightarrow> tape_store res" where
  "upd_tape i f T = rbind (deref (T i)) (\<lambda>t. Inr (T(i \<mapsto> f t)))"

section \<open>Creation\<close>

definition int32_mult :: "int \<Rightarrow> int \<Rightarrow> int res" where
  "int32_mult a b = (if - (2 ^ 31) \<le> a * b \<and> a * b < 2 ^ 31 then Inr (a * b) else Inl SignedOverflow)"

text \<open>\<open>fill\<close> is what the freshly allocated bytes happen to hold.\<close>

definition create_tape_internal :: "(nat \<Rightarrow> byte) \<Rightarrow> int \<Rightarrow> int \<Rightarrow> tape res" where
  "create_tape_internal fill data_size tape_length =
     rbind (int32_mult data_size tape_length) (\<lambda>total_size.
       ensure AssertFail (0 < total_size \<and> total_size AND (total_size - 1) = 0)
         (Inr \<lparr>t_data = map fill [0..<nat total_size], read_pos = 0, write_pos = 0,
               t_size = data_size, t_mask = total_size - 1\<rparr>))"

section \<open>What a tape holds\<close>

definition tape_ok :: "tape \<Rightarrow> bool" where
  "tape_ok t \<longleftrightarrow> (let L = int (length (t_data t)) in
     0 < L \<and> L < 2 ^ 31 \<and> L AND (L - 1) = 0 \<and> t_mask t = L - 1 \<and> 0 < t_size t \<and> t_size t dvd L \<and>
     0 \<le> read_pos t \<and> read_pos t < L \<and> t_size t dvd read_pos t \<and>
     0 \<le> write_pos t \<and> write_pos t < L \<and> t_size t dvd write_pos t)"

definition tape_used :: "tape \<Rightarrow> nat" where
  "tape_used t = nat (((write_pos t - read_pos t) mod int (length (t_data t))) div t_size t)"

definition tape_items :: "tape \<Rightarrow> byte list list" where
  "tape_items t = ring_items (t_data t) (nat (read_pos t + t_size t)) (nat (t_size t)) (tape_used t)"

definition tape_room :: "tape \<Rightarrow> nat" where
  "tape_room t = nat (int (length (t_data t)) div t_size t) - 1 - tape_used t"

lemma pow2_int_induct:
  "0 < (n::int) \<Longrightarrow> n AND (n - 1) = 0 \<Longrightarrow> \<exists>k. n = 2 ^ k"
proof (induction "nat n" arbitrary: n rule: less_induct)
  case less
  have rec: "n AND (n - 1) = of_bool (odd n \<and> odd (n - 1)) + 2 * ((n div 2) AND ((n - 1) div 2))"
    by (rule and_rec)
  show ?case
  proof (cases "even n")
    case True
    then obtain m where m: "n = 2 * m" by auto
    then have "(n - 1) div 2 = m - 1" by simp
    with rec less.prems m have "m AND (m - 1) = 0" by simp
    moreover have "0 < m" "nat m < nat n" using less.prems m by auto
    ultimately obtain k where "m = 2 ^ k" using less.hyps by blast
    then have "n = 2 ^ Suc k" using m by simp
    then show ?thesis by blast
  next
    case False
    then obtain m where m: "n = 2 * m + 1" by (auto elim: oddE)
    with rec less.prems have "m = 0" by simp
    with m have "n = 2 ^ 0" by simp
    then show ?thesis by blast
  qed
qed

lemma pow2_mask_mod:
  assumes "0 < (L::int)" "L AND (L - 1) = 0"
  shows "x AND (L - 1) = x mod L"
  using pow2_int_induct [OF assms] int_and_mask by auto

lemma tape_okD:
  assumes "tape_ok t"
  shows "0 < int (length (t_data t))" "int (length (t_data t)) < 2 ^ 31" "t_mask t = int (length (t_data t)) - 1"
    "x AND t_mask t = x mod int (length (t_data t))" "0 < t_size t" "t_size t dvd int (length (t_data t))"
    "0 \<le> read_pos t" "read_pos t < int (length (t_data t))" "t_size t dvd read_pos t"
    "0 \<le> write_pos t" "write_pos t < int (length (t_data t))" "t_size t dvd write_pos t"
  using assms pow2_mask_mod by (auto simp: tape_ok_def Let_def)

text \<open>
  A well-formed tape in units of items: \<open>M\<close> slots of \<open>sz\<close> bytes, the last item read in slot
  \<open>a\<close>, the last item written \<open>u\<close> slots after it.
\<close>

definition tape_shape :: "tape \<Rightarrow> nat \<Rightarrow> nat \<Rightarrow> nat \<Rightarrow> nat \<Rightarrow> bool" where
  "tape_shape t sz M a u \<longleftrightarrow> 0 < sz \<and> length (t_data t) = M * sz \<and> int (M * sz) < 2 ^ 31 \<and> a < M \<and> u < M \<and>
     t_size t = int sz \<and> t_mask t = int (M * sz) - 1 \<and> int (M * sz) AND (int (M * sz) - 1) = 0 \<and>
     read_pos t = int (a * sz) \<and> write_pos t = int (((a + u) mod M) * sz)"

lemma tape_shape_used:
  assumes "tape_shape t sz M a u"
  shows "tape_used t = u"
proof -
  have sz: "0 < sz" and u: "u < M" using assms by (auto simp: tape_shape_def)
  have "int (((a + u) mod M) * sz) - int (a * sz) = (int ((a + u) mod M) - int a) * int sz"
    by (simp add: left_diff_distrib)
  then have "(int (((a + u) mod M) * sz) - int (a * sz)) mod int (M * sz)
      = ((int ((a + u) mod M) - int a) mod int M) * int sz"
    by (simp only: of_nat_mult mult_mod_left)
  also have "(int ((a + u) mod M) - int a) mod int M = int u"
    using u by (simp add: of_nat_mod mod_diff_left_eq)
  finally show ?thesis
    using assms sz by (simp add: tape_used_def tape_shape_def)
qed

lemma tape_shape_ok: "tape_shape t sz M a u \<Longrightarrow> tape_ok t"
  unfolding tape_shape_def tape_ok_def Let_def
  by (auto simp: mult_less_cancel2 simp flip: of_nat_mult)

lemma tape_ok_shape:
  assumes "tape_ok t"
  shows "\<exists>sz M a. tape_shape t sz M a (tape_used t)"
proof -
  let ?L = "int (length (t_data t))"
  note ok = tape_okD [OF assms]
  define sz where "sz = nat (t_size t)"
  have sz: "t_size t = int sz" "0 < sz" using ok(5) by (auto simp: sz_def)
  obtain M where M: "length (t_data t) = M * sz"
    using ok(6) sz by (metis dvdE int_dvd_int_iff mult.commute)
  obtain a where a: "read_pos t = int (a * sz)"
    using ok(7,9) sz by (metis dvdE int_dvd_int_iff mult.commute nonneg_int_cases)
  obtain b where b: "write_pos t = int (b * sz)"
    using ok(10,12) sz by (metis dvdE int_dvd_int_iff mult.commute nonneg_int_cases)
  have ab: "a < M" "b < M" using ok(8,11) a b M sz by (auto simp: mult_less_cancel2 simp flip: of_nat_mult)
  define u where "u = (b + (M - a)) mod M"
  have "(a + u) mod M = (a + (b + (M - a))) mod M" by (simp add: u_def mod_add_right_eq)
  also have "a + (b + (M - a)) = b + M" using ab by simp
  finally have "(a + u) mod M = b" using ab by simp
  then have "tape_shape t sz M a u"
    using assms sz M a b ab by (auto simp: tape_shape_def u_def tape_ok_def Let_def)
  then show ?thesis using tape_shape_used by blast
qed

lemma tape_shape_items:
  "tape_shape t sz M a u \<Longrightarrow> tape_items t = ring_items (t_data t) (a * sz + sz) sz u"
  using tape_shape_used [of t sz M a u]
  by (simp add: tape_items_def tape_shape_def nat_add_distrib flip: of_nat_mult)

lemma tape_shape_room: "tape_shape t sz M a u \<Longrightarrow> tape_room t = M - 1 - u"
  using tape_shape_used [of t sz M a u] by (simp add: tape_room_def tape_shape_def)

lemma tape_shape_incr:
  assumes "tape_shape t sz M a u"
  shows "incr_tape_localb (int (b mod M * sz)) (t_mask t) (int sz) = int (Suc b mod M * sz)"
proof -
  have "incr_tape_localb (int (b mod M * sz)) (t_mask t) (int sz)
      = (int (b mod M * sz) + int sz) mod int (M * sz)"
    using assms tape_okD(4) [OF tape_shape_ok [OF assms]]
    by (simp add: incr_tape_localb_def tape_shape_def)
  also have "\<dots> = int ((Suc (b mod M) * sz) mod (M * sz))"
    by (simp add: of_nat_mod add.commute)
  also have "(Suc (b mod M) * sz) mod (M * sz) = Suc b mod M * sz"
    by (simp only: mult_mod_left [symmetric] mod_Suc_eq)
  finally show ?thesis .
qed

lemma tape_slot_fits:
  assumes "tape_shape t sz M a u"
  shows "b mod M * sz + sz \<le> length (t_data t)"
proof -
  have "Suc (b mod M) \<le> M" using assms by (simp add: tape_shape_def Suc_leI)
  then have "Suc (b mod M) * sz \<le> M * sz" by (rule mult_le_mono1)
  then show ?thesis using assms by (simp add: tape_shape_def add.commute)
qed

lemma tape_slot_mod:
  "tape_shape t sz M a u \<Longrightarrow> (b mod M * sz) mod length (t_data t) = (b * sz) mod length (t_data t)"
  by (simp add: tape_shape_def mult_mod_left [symmetric])

lemma push_tape_law:
  assumes ok: "tape_ok t" and len: "int (length v) = t_size t" and room: "0 < tape_room t"
  shows "\<exists>t'. push_tape v t = Inr t' \<and> tape_ok t' \<and> tape_items t' = tape_items t @ [v] \<and>
    tape_room t' = tape_room t - 1 \<and> t_size t' = t_size t"
proof -
  obtain sz M a where sh: "tape_shape t sz M a (tape_used t)" using tape_ok_shape [OF ok] by blast
  let ?u = "tape_used t"
  let ?w = "Suc (a + ?u) mod M * sz"
  have lv: "length v = sz" using sh len by (simp add: tape_shape_def)
  have u: "Suc ?u < M" using room tape_shape_room [OF sh] by simp
  have fit: "?w + length v \<le> length (t_data t)" using tape_slot_fits [OF sh] lv by simp
  define d where "d = ring_write (t_data t) ?w v"
  have w: "write_pos (incr_tape_write (int (length v)) t) = int ?w"
    using tape_shape_incr [OF sh, of "a + ?u"] sh lv by (simp add: incr_tape_write_def tape_shape_def)
  define t' where "t' = t\<lparr>write_pos := int ?w, t_data := d\<rparr>"
  have "push_tape v t = Inr t'"
    using w fit ring_write_flat [OF fit]
    by (simp add: push_tape_def store_bytes_def incr_tape_write_def t'_def d_def Let_def
        del: of_nat_mult flip: of_nat_add)
  moreover have sh': "tape_shape t' sz M a (Suc ?u)"
    using sh u by (simp add: tape_shape_def t'_def d_def)
  moreover have "tape_items t' = tape_items t @ [v]"
  proof -
    have "ring_write (t_data t) ?w v = ring_write (t_data t) (a * sz + sz + ?u * sz) v"
      using tape_slot_mod [OF sh, of "Suc (a + ?u)"]
      by (intro ring_write_cong_mod) (simp add: algebra_simps)
    moreover have "?u * sz + length v \<le> length (t_data t)"
      using sh lv u mult_le_mono1 [of "Suc ?u" M sz] by (simp add: tape_shape_def)
    ultimately show ?thesis
      using ring_items_snoc [of ?u sz v "t_data t" "a * sz + sz"] lv
      unfolding tape_shape_items [OF sh] tape_shape_items [OF sh'] by (simp add: t'_def d_def)
  qed
  ultimately show ?thesis
    using tape_shape_ok [OF sh'] tape_shape_room [OF sh] tape_shape_room [OF sh'] by (auto simp: t'_def)
qed

lemma pop_tape_law:
  assumes ok: "tape_ok t" and it: "tape_items t = x # xs"
  shows "\<exists>t'. pop_tape (t_size t) t = Inr (x, t') \<and> tape_ok t' \<and> tape_items t' = xs \<and>
    tape_room t' = Suc (tape_room t) \<and> t_size t' = t_size t \<and> int (length x) = t_size t"
proof -
  obtain sz M a where sh: "tape_shape t sz M a (tape_used t)" using tape_ok_shape [OF ok] by blast
  let ?u = "tape_used t"
  have "?u \<noteq> 0" using it tape_shape_items [OF sh] by (cases ?u) auto
  then obtain v where v: "?u = Suc v" by (cases ?u) auto
  let ?r = "Suc a mod M * sz"
  have aM: "a mod M = a" using sh by (simp add: tape_shape_def)
  have fit: "?r + sz \<le> length (t_data t)" using tape_slot_fits [OF sh] by simp
  have r: "read_pos (incr_tape_read (t_size t) t) = int ?r"
    using tape_shape_incr [OF sh, of a] sh aM by (simp add: incr_tape_read_def tape_shape_def)
  define t' where "t' = t\<lparr>read_pos := int ?r\<rparr>"
  have x: "ring_read (t_data t) ?r sz = x" and xs: "ring_items (t_data t) (a * sz + sz + sz) sz v = xs"
    using it v tape_shape_items [OF sh] tape_slot_mod [OF sh, of "Suc a"]
    by (auto simp: ring_items_Suc add.commute intro: ring_read_cong_mod)
  have "pop_tape (t_size t) t = Inr (x, t')"
    using r fit x sh ring_read_flat [OF fit]
    by (simp add: pop_tape_def load_bytes_def incr_tape_read_def t'_def tape_shape_def Let_def
        del: of_nat_mult flip: of_nat_add)
  moreover have sh': "tape_shape t' sz M (Suc a mod M) v"
    using sh v by (simp add: tape_shape_def t'_def mod_add_left_eq)
  moreover have "tape_items t' = xs"
  proof -
    have "ring_items (t_data t) (?r + sz) sz v = ring_items (t_data t) (a * sz + sz + sz) sz v"
      using tape_slot_mod [OF sh, of "Suc a"]
      by (intro ring_items_cong_mod) (metis mod_add_left_eq add.commute mult_Suc)
    then show ?thesis using xs unfolding tape_shape_items [OF sh'] by (simp add: t'_def)
  qed
  moreover have "length x = sz" using x by auto
  ultimately show ?thesis
    using tape_shape_ok [OF sh'] tape_shape_room [OF sh] tape_shape_room [OF sh'] sh v
    by (auto simp: t'_def tape_shape_def)
qed

text \<open>A tape that was just created is empty and has room for all but one of its slots.\<close>

lemma create_tape_law:
  assumes c: "create_tape_internal fill ds n = Inr t" and pos: "0 < ds" "0 < n"
  shows "tape_ok t \<and> tape_items t = [] \<and> tape_room t = nat n - 1 \<and> t_size t = ds"
proof -
  have t: "t = \<lparr>t_data = map fill [0..<nat (ds * n)], read_pos = 0, write_pos = 0,
      t_size = ds, t_mask = ds * n - 1\<rparr>" and p: "0 < ds * n" "ds * n < 2 ^ 31" "ds * n AND (ds * n - 1) = 0"
    using c by (auto simp: create_tape_internal_def int32_mult_def ensure_def rbind_def
        split: if_splits)
  have "tape_shape t (nat ds) (nat n) 0 0"
    using t p pos by (simp add: tape_shape_def nat_mult_distrib mult.commute)
  then show ?thesis
    using tape_shape_ok tape_shape_items tape_shape_room t by fastforce
qed

section \<open>The tape store as a queue store\<close>

definition tape_get :: "nat \<Rightarrow> tape_store \<Rightarrow> (byte list \<times> tape_store) res" where
  "tape_get i T = rbind (deref (T i)) (\<lambda>t. rbind (pop_tape (t_size t) t) (\<lambda>(v, t'). Inr (v, T(i \<mapsto> t'))))"

definition tape_put :: "nat \<Rightarrow> byte list \<Rightarrow> tape_store \<Rightarrow> tape_store res" where
  "tape_put i v T = rbind (deref (T i)) (\<lambda>t. rbind (push_tape v t) (\<lambda>t'. Inr (T(i \<mapsto> t'))))"

definition tapes_ok :: "tape_store \<Rightarrow> nat set \<Rightarrow> bool" where
  "tapes_ok T I \<longleftrightarrow> (\<forall>i\<in>I. \<exists>t. T i = Some t \<and> tape_ok t)"

definition tape_items_at :: "tape_store \<Rightarrow> nat \<Rightarrow> byte list list" where
  "tape_items_at T i = (case T i of None \<Rightarrow> [] | Some t \<Rightarrow> tape_items t)"

definition tape_room_at :: "tape_store \<Rightarrow> nat \<Rightarrow> nat" where
  "tape_room_at T i = (case T i of None \<Rightarrow> 0 | Some t \<Rightarrow> tape_room t)"

definition tape_fits_at :: "tape_store \<Rightarrow> nat \<Rightarrow> byte list \<Rightarrow> bool" where
  "tape_fits_at T i v = (case T i of None \<Rightarrow> False | Some t \<Rightarrow> int (length v) = t_size t)"

lemmas tape_at_defs = tapes_ok_def tape_items_at_def tape_room_at_def tape_fits_at_def

interpretation tq: queue_store tapes_ok tape_items_at tape_room_at tape_fits_at tape_get tape_put
proof (unfold_locales, goal_cases)
  case (1 T I i x xs)
  then obtain t where t: "T i = Some t" "tape_ok t" "tape_items t = x # xs"
    by (auto simp: tape_at_defs)
  obtain t' where t': "pop_tape (t_size t) t = Inr (x, t')" "tape_ok t'" "tape_items t' = xs"
    "tape_room t' = Suc (tape_room t)" "t_size t' = t_size t"
    using pop_tape_law [OF t(2,3)] by blast
  have "tape_get i T = Inr (x, T(i \<mapsto> t'))" using t t' by (simp add: tape_get_def)
  with 1 t t' show ?case
    by (intro exI [of _ "T(i \<mapsto> t')"] conjI ballI ext) (auto simp: tape_at_defs)
next
  case (2 T I i v)
  then obtain t where t: "T i = Some t" "tape_ok t" "0 < tape_room t" "int (length v) = t_size t"
    by (auto simp: tape_at_defs)
  obtain t' where t': "push_tape v t = Inr t'" "tape_ok t'" "tape_items t' = tape_items t @ [v]"
    "tape_room t' = tape_room t - 1" "t_size t' = t_size t"
    using push_tape_law [OF t(2,4,3)] by blast
  have "tape_put i v T = Inr (T(i \<mapsto> t'))" using t t' by (simp add: tape_put_def)
  with 2 t t' show ?case
    by (intro exI [of _ "T(i \<mapsto> t')"] conjI ballI ext) (auto simp: tape_at_defs)
qed

text \<open>
  The sequence the splitters and joiners use for one item, \<open>INCR_TAPE_READ\<close>, \<open>INCR_TAPE_WRITE\<close>,
  \<open>COPY_TAPE_ITEM\<close>, moves it from one queue to the other.
\<close>

definition move_tape_item :: "nat \<Rightarrow> nat \<Rightarrow> tape_store \<Rightarrow> tape_store res" where
  "move_tape_item s d T =
     rbind (deref (T s)) (\<lambda>ts. rbind (upd_tape s (incr_tape_read (t_size ts)) T) (\<lambda>T.
     rbind (deref (T d)) (\<lambda>td. rbind (upd_tape d (incr_tape_write (t_size td)) T) (\<lambda>T.
     copy_tape_item s d T))))"

lemma move_tape_item_eq:
  assumes "T s = Some ts" "T d = Some td" "s \<noteq> d" "t_size td = t_size ts"
  shows "move_tape_item s d T = qs_move tape_get tape_put s d T"
proof (cases "load_bytes (t_data ts) (read_pos (incr_tape_read (t_size ts) ts)) (t_size ts)")
  case (Inl e)
  then show ?thesis
    using assms by (simp add: move_tape_item_def qs_move_def upd_tape_def copy_tape_item_def
        memcpy_res_def tape_get_def pop_tape_def Let_def incr_tape_read_def incr_tape_write_def)
next
  case (Inr v)
  then have v: "int (length v) = t_size ts"
    by (auto simp: load_bytes_def incr_tape_read_def split: if_splits)
  have comm: "T(d \<mapsto> x, s \<mapsto> y) = T(s \<mapsto> y, d \<mapsto> x)" for x y
    using assms(3) by (simp add: fun_upd_twist)
  show ?thesis
    using assms Inr v by (simp add: move_tape_item_def qs_move_def upd_tape_def copy_tape_item_def
        memcpy_res_def tape_get_def tape_put_def pop_tape_def push_tape_def Let_def
        incr_tape_read_def incr_tape_write_def rbind_def split: sum.split)
qed

end
