(* ===== verification/Stream_Context.thy ===== *)
theory Stream_Context
  imports Tape
begin

text \<open>
  The stream graph of the C library: stream contexts, their child lists, splitter and joiner
  descriptions and the tapes between them (\<open>library/c/stream_context.c\<close>, \<open>streamit_tape.c\<close>, the
  set-up functions of \<open>streamit_splitjoin.c\<close>, \<open>connect_tapes\<close> of \<open>streamit_run.c\<close>).  All objects
  live in a store addressed by numbers, so that sharing is explicit; a null pointer is \<open>None\<close>.
  The small allocations (contexts, list cells, tapes) are taken to succeed and return an address
  that was never used before.
\<close>

section \<open>Types\<close>

datatype stream_type = INVALID_STREAM_TYPE | FILTER | PIPELINE | SPLIT_JOIN | FEEDBACK_LOOP

datatype splitjoin_type = ROUND_ROBIN | WEIGHTED_ROUND_ROBIN | DUPLICATE | COMBINE | NULL_SJ

datatype split_or_join = SPLITTER | JOINER

datatype in_or_out = INPUT | OUTPUT

text \<open>The code compares stream types by their enumeration values.\<close>

fun stream_type_val :: "stream_type \<Rightarrow> nat" where
  "stream_type_val INVALID_STREAM_TYPE = 0"
| "stream_type_val FILTER = 1"
| "stream_type_val PIPELINE = 2"
| "stream_type_val SPLIT_JOIN = 3"
| "stream_type_val FEEDBACK_LOOP = 4"

instantiation stream_type :: linorder
begin

definition less_eq_stream_type :: "stream_type \<Rightarrow> stream_type \<Rightarrow> bool" where
  "less_eq_stream_type a b \<longleftrightarrow> stream_type_val a \<le> stream_type_val b"

definition less_stream_type :: "stream_type \<Rightarrow> stream_type \<Rightarrow> bool" where
  "less_stream_type a b \<longleftrightarrow> stream_type_val a < stream_type_val b"

instance
proof
  fix x y z :: stream_type
  show "x < y \<longleftrightarrow> x \<le> y \<and> \<not> y \<le> x"
    by (auto simp: less_stream_type_def less_eq_stream_type_def)
  show "x \<le> x" by (simp add: less_eq_stream_type_def)
  show "x \<le> y \<Longrightarrow> y \<le> z \<Longrightarrow> x \<le> z" by (simp add: less_eq_stream_type_def)
  show "x \<le> y \<or> y \<le> x" by (auto simp: less_eq_stream_type_def)
  show "x \<le> y \<Longrightarrow> y \<le> x \<Longrightarrow> x = y"
    by (cases x; cases y) (simp_all add: less_eq_stream_type_def)
qed

end

record one_to_many =
  om_type :: splitjoin_type
  fan :: int
  ratio :: "int list option"
  slots :: int
  one_tape :: tape_ptr
  om_tape :: "tape_ptr list"
  tcache :: "tape_ptr list option"

record type_data =
  first_child :: "nat option"
  last_child :: "nat option"
  splitter :: one_to_many
  joiner :: one_to_many

record stream_context =
  stream_data :: nat
  c_type :: stream_type
  peek_size :: int
  pop_size :: int
  push_size :: int
  work_function :: "nat option"
  c_parent :: "nat option"
  input_tape :: tape_ptr
  output_tape :: tape_ptr
  c_data :: type_data

record context_cell =
  cell_context :: nat
  cell_next :: "nat option"

record lib_store =
  ctxs :: "nat \<Rightarrow> stream_context option"
  tapes :: tape_store
  cells :: "nat \<Rightarrow> context_cell option"
  next_id :: nat

definition empty_store :: lib_store where
  "empty_store = \<lparr>ctxs = (\<lambda>_. None), tapes = (\<lambda>_. None), cells = (\<lambda>_. None), next_id = 0\<rparr>"

section \<open>Contexts\<close>

text \<open>Every entry point starts with \<open>assert(c)\<close> and then follows the pointer.\<close>

definition ctx_at :: "nat option \<Rightarrow> lib_store \<Rightarrow> stream_context res" where
  "ctx_at c s = (case c of None \<Rightarrow> Inl AssertFail | Some i \<Rightarrow> deref (ctxs s i))"

definition upd_ctx :: "nat option \<Rightarrow> (stream_context \<Rightarrow> stream_context) \<Rightarrow> lib_store \<Rightarrow> lib_store res" where
  "upd_ctx c f s = rbind (ctx_at c s) (\<lambda>cx. Inr (s\<lparr>ctxs := (ctxs s)(the c \<mapsto> f cx)\<rparr>))"

text \<open>\<open>junk\<close> is the uninitialised type data of a fresh context.\<close>

definition create_context :: "type_data \<Rightarrow> nat \<Rightarrow> lib_store \<Rightarrow> nat \<times> lib_store" where
  "create_context junk p s =
     (let c = next_id s in
      (c, s\<lparr>ctxs := (ctxs s)(c \<mapsto> \<lparr>stream_data = p, c_type = INVALID_STREAM_TYPE, peek_size = -1,
              pop_size = -1, push_size = -1, work_function = None, c_parent = None,
              input_tape = None, output_tape = None, c_data = junk\<rparr>),
            next_id := Suc c\<rparr>))"

definition set_work :: "nat option \<Rightarrow> nat option \<Rightarrow> lib_store \<Rightarrow> lib_store res" where
  "set_work c f s = rbind (ctx_at c s) (\<lambda>_. ensure AssertFail (f \<noteq> None)
     (upd_ctx c (\<lambda>cx. cx\<lparr>work_function := f\<rparr>) s))"

definition set_peek :: "nat option \<Rightarrow> int \<Rightarrow> lib_store \<Rightarrow> lib_store res" where
  "set_peek c peeks s = rbind (ctx_at c s) (\<lambda>_. ensure AssertFail (0 \<le> peeks)
     (upd_ctx c (\<lambda>cx. cx\<lparr>peek_size := peeks\<rparr>) s))"

definition set_pop :: "nat option \<Rightarrow> int \<Rightarrow> lib_store \<Rightarrow> lib_store res" where
  "set_pop c pops s = rbind (ctx_at c s) (\<lambda>_. ensure AssertFail (0 \<le> pops)
     (upd_ctx c (\<lambda>cx. cx\<lparr>pop_size := pops\<rparr>) s))"

definition set_push :: "nat option \<Rightarrow> int \<Rightarrow> lib_store \<Rightarrow> lib_store res" where
  "set_push c pushes s = rbind (ctx_at c s) (\<lambda>_. ensure AssertFail (0 \<le> pushes)
     (upd_ctx c (\<lambda>cx. cx\<lparr>push_size := pushes\<rparr>) s))"

definition set_stream_type :: "nat option \<Rightarrow> stream_type \<Rightarrow> lib_store \<Rightarrow> lib_store res" where
  "set_stream_type c ty s = rbind (ctx_at c s) (\<lambda>_.
     ensure AssertFail (FILTER \<le> ty \<and> ty \<le> FEEDBACK_LOOP)
       (rbind (upd_ctx c (\<lambda>cx. cx\<lparr>c_type := ty\<rparr>) s) (\<lambda>s.
          case ty of
            FILTER \<Rightarrow> Inr s
          | PIPELINE \<Rightarrow> upd_ctx c (\<lambda>cx. cx\<lparr>c_data := (c_data cx)\<lparr>first_child := None, last_child := None\<rparr>\<rparr>) s
          | SPLIT_JOIN \<Rightarrow> upd_ctx c (\<lambda>cx. cx\<lparr>c_data := (c_data cx)\<lparr>first_child := None, last_child := None\<rparr>\<rparr>) s
          | FEEDBACK_LOOP \<Rightarrow> upd_ctx c (\<lambda>cx. cx\<lparr>c_data := (c_data cx)\<lparr>first_child := None, last_child := None\<rparr>\<rparr>) s
          | INVALID_STREAM_TYPE \<Rightarrow> Inl AssertFail)))"

definition add_child_to_list ::
    "nat \<Rightarrow> nat option \<times> nat option \<Rightarrow> lib_store \<Rightarrow> ((nat option \<times> nat option) \<times> lib_store) res" where
  "add_child_to_list child fl s =
     (let new = next_id s;
          s1 = s\<lparr>cells := (cells s)(new \<mapsto> \<lparr>cell_context = child, cell_next = None\<rparr>), next_id := Suc new\<rparr>
      in case snd fl of
           Some l \<Rightarrow> ensure AssertFail (fst fl \<noteq> None)
             (rbind (deref (cells s1 l)) (\<lambda>k.
                Inr ((fst fl, Some new), s1\<lparr>cells := (cells s1)(l \<mapsto> k\<lparr>cell_next := Some new\<rparr>)\<rparr>)))
         | None \<Rightarrow> Inr ((Some new, Some new), s1))"

definition register_child :: "nat option \<Rightarrow> nat option \<Rightarrow> lib_store \<Rightarrow> lib_store res" where
  "register_child c child s =
     rbind (ctx_at c s) (\<lambda>_. rbind (ctx_at child s) (\<lambda>_.
     rbind (upd_ctx child (\<lambda>cx. cx\<lparr>c_parent := c\<rparr>) s) (\<lambda>s.
     rbind (ctx_at c s) (\<lambda>cx.
       if c_type cx \<in> {PIPELINE, SPLIT_JOIN, FEEDBACK_LOOP}
       then rbind (add_child_to_list (the child) (first_child (c_data cx), last_child (c_data cx)) s)
              (\<lambda>(fl, s). upd_ctx c (\<lambda>cx. cx\<lparr>c_data := (c_data cx)\<lparr>first_child := fst fl, last_child := snd fl\<rparr>\<rparr>) s)
       else Inl AssertFail))))"

section \<open>Tapes between contexts\<close>

definition new_tape :: "tape \<Rightarrow> lib_store \<Rightarrow> nat \<times> lib_store" where
  "new_tape t s = (next_id s, s\<lparr>tapes := (tapes s)(next_id s \<mapsto> t), next_id := Suc (next_id s)\<rparr>)"

definition create_tape ::
    "(nat \<Rightarrow> byte) \<Rightarrow> nat option \<Rightarrow> nat option \<Rightarrow> int \<Rightarrow> int \<Rightarrow> lib_store \<Rightarrow> lib_store res" where
  "create_tape fill src dst data_size tape_length s =
     rbind (ctx_at src s) (\<lambda>_. rbind (ctx_at dst s) (\<lambda>_.
     ensure AssertFail (0 < data_size) (ensure AssertFail (0 < tape_length)
       (rbind (create_tape_internal fill data_size tape_length) (\<lambda>t.
          let (i, s) = new_tape t s
          in rbind (upd_ctx src (\<lambda>cx. cx\<lparr>output_tape := Some i\<rparr>) s)
               (upd_ctx dst (\<lambda>cx. cx\<lparr>input_tape := Some i\<rparr>)))))))"

text \<open>\<open>junk\<close> is the uninitialised pointer array, \<open>args\<close> the variable arguments.\<close>

definition set_splitjoin :: "(nat \<Rightarrow> tape_ptr) \<Rightarrow> splitjoin_type \<Rightarrow> int \<Rightarrow> one_to_many res" where
  "set_splitjoin junk ty n =
     ensure AssertFail (0 < n)
       (Inr \<lparr>om_type = ty, fan = n, ratio = None, slots = 0, one_tape = None,
             om_tape = map junk [0..<nat n], tcache = None\<rparr>)"

definition set_splitjoin_rr :: "int list \<Rightarrow> one_to_many \<Rightarrow> one_to_many res" where
  "set_splitjoin_rr args p =
     (if int (length args) < fan p then Inl OutOfBounds
      else Inr (p\<lparr>ratio := Some (take (nat (fan p)) args), slots := sum_list (take (nat (fan p)) args)\<rparr>))"

definition set_one_to_many ::
    "(nat \<Rightarrow> tape_ptr) \<Rightarrow> splitjoin_type \<Rightarrow> int \<Rightarrow> int list \<Rightarrow> one_to_many res" where
  "set_one_to_many junk ty n args =
     rbind (set_splitjoin junk ty n) (\<lambda>p.
       if ty = WEIGHTED_ROUND_ROBIN then set_splitjoin_rr args p else Inr p)"

definition set_splitter ::
    "(nat \<Rightarrow> tape_ptr) \<Rightarrow> nat option \<Rightarrow> splitjoin_type \<Rightarrow> int \<Rightarrow> int list \<Rightarrow> lib_store \<Rightarrow> lib_store res" where
  "set_splitter junk c ty n args s = rbind (ctx_at c s) (\<lambda>cx.
     ensure AssertFail (c_type cx = SPLIT_JOIN \<or> c_type cx = FEEDBACK_LOOP)
       (rbind (set_one_to_many junk ty n args) (\<lambda>p.
          upd_ctx c (\<lambda>cx. cx\<lparr>c_data := (c_data cx)\<lparr>splitter := p\<rparr>\<rparr>) s)))"

definition set_joiner ::
    "(nat \<Rightarrow> tape_ptr) \<Rightarrow> nat option \<Rightarrow> splitjoin_type \<Rightarrow> int \<Rightarrow> int list \<Rightarrow> lib_store \<Rightarrow> lib_store res" where
  "set_joiner junk c ty n args s = rbind (ctx_at c s) (\<lambda>cx.
     ensure AssertFail (c_type cx = SPLIT_JOIN \<or> c_type cx = FEEDBACK_LOOP)
       (rbind (set_one_to_many junk ty n args) (\<lambda>p.
          upd_ctx c (\<lambda>cx. cx\<lparr>c_data := (c_data cx)\<lparr>joiner := p\<rparr>\<rparr>) s)))"

definition get_om :: "split_or_join \<Rightarrow> stream_context \<Rightarrow> one_to_many" where
  "get_om sj cx = (case sj of SPLITTER \<Rightarrow> splitter (c_data cx) | JOINER \<Rightarrow> joiner (c_data cx))"

definition put_om :: "split_or_join \<Rightarrow> one_to_many \<Rightarrow> stream_context \<Rightarrow> stream_context" where
  "put_om sj p cx = (case sj of
      SPLITTER \<Rightarrow> cx\<lparr>c_data := (c_data cx)\<lparr>splitter := p\<rparr>\<rparr>
    | JOINER \<Rightarrow> cx\<lparr>c_data := (c_data cx)\<lparr>joiner := p\<rparr>\<rparr>)"

definition create_splitjoin_tape ::
    "(nat \<Rightarrow> byte) \<Rightarrow> nat option \<Rightarrow> split_or_join \<Rightarrow> in_or_out \<Rightarrow> int \<Rightarrow> nat option \<Rightarrow> int \<Rightarrow> int
      \<Rightarrow> lib_store \<Rightarrow> lib_store res" where
  "create_splitjoin_tape fill container sj io slot other data_size tape_length s =
     rbind (ctx_at container s) (\<lambda>cx.
     ensure AssertFail (c_type cx = SPLIT_JOIN \<or> c_type cx = FEEDBACK_LOOP)
     (rbind (ctx_at other s) (\<lambda>_.
     ensure AssertFail (\<not> (c_type cx = SPLIT_JOIN \<and> sj = SPLITTER \<and> io = INPUT))
     (ensure AssertFail (\<not> (c_type cx = SPLIT_JOIN \<and> sj = JOINER \<and> io = OUTPUT))
     (ensure AssertFail (\<not> (c_type cx = FEEDBACK_LOOP \<and> sj = JOINER \<and> io = INPUT \<and> slot = 0))
     (ensure AssertFail (\<not> (c_type cx = FEEDBACK_LOOP \<and> sj = SPLITTER \<and> io = OUTPUT \<and> slot = 0))
     (rbind (create_tape_internal fill data_size tape_length) (\<lambda>t.
      let om = get_om sj cx; (i, s) = new_tape t s in
      rbind (if sj = SPLITTER \<and> io = INPUT \<or> sj = JOINER \<and> io = OUTPUT
             then Inr (om\<lparr>one_tape := Some i\<rparr>)
             else ensure AssertFail (0 \<le> slot \<and> slot < fan om)
               (if slot < int (length (om_tape om))
                then Inr (om\<lparr>om_tape := (om_tape om)[nat slot := Some i]\<rparr>) else Inl OutOfBounds)) (\<lambda>om.
      rbind (upd_ctx container (put_om sj om) s)
        (upd_ctx other (\<lambda>cx. if io = INPUT then cx\<lparr>output_tape := Some i\<rparr>
                              else cx\<lparr>input_tape := Some i\<rparr>)))))))))))"

section \<open>Child lists\<close>

primrec cell_path :: "(nat \<Rightarrow> context_cell option) \<Rightarrow> nat option \<Rightarrow> nat list \<Rightarrow> nat option \<Rightarrow> bool" where
  "cell_path cs p [] q \<longleftrightarrow> p = q"
| "cell_path cs p (a # as) q \<longleftrightarrow> p = Some a \<and> (\<exists>k. cs a = Some k \<and> cell_path cs (cell_next k) as q)"

definition child_list :: "lib_store \<Rightarrow> type_data \<Rightarrow> nat list \<Rightarrow> bool" where
  "child_list s td as \<longleftrightarrow> distinct as \<and> cell_path (cells s) (first_child td) as None \<and>
     last_child td = (if as = [] then None else Some (last as))"

definition children :: "lib_store \<Rightarrow> nat list \<Rightarrow> nat list" where
  "children s as = map (\<lambda>a. cell_context (the (cells s a))) as"

text \<open>Addresses from \<open>next_id\<close> on have never been handed out.\<close>

definition fresh_ok :: "lib_store \<Rightarrow> bool" where
  "fresh_ok s \<longleftrightarrow> (\<forall>i \<ge> next_id s. ctxs s i = None \<and> tapes s i = None \<and> cells s i = None)"

lemma cell_path_append:
  "cell_path cs p (as @ bs) q \<longleftrightarrow> (\<exists>r. cell_path cs p as r \<and> cell_path cs r bs q)"
  by (induction as arbitrary: p) auto

lemma cell_path_upd [simp]: "a \<notin> set as \<Longrightarrow> cell_path (cs(a := v)) p as q = cell_path cs p as q"
  by (induction as arbitrary: p) auto

lemma cell_path_dom: "cell_path cs p as q \<Longrightarrow> a \<in> set as \<Longrightarrow> \<exists>k. cs a = Some k"
  by (induction as arbitrary: p) auto

lemma upd_ctx_eq_Inr [res_simps]:
  "upd_ctx c f s = Inr s' \<longleftrightarrow>
     (\<exists>i cx. c = Some i \<and> ctxs s i = Some cx \<and> s' = s\<lparr>ctxs := (ctxs s)(i \<mapsto> f cx)\<rparr>)"
  by (cases c) (auto simp: upd_ctx_def ctx_at_def res_simps)

lemma ctx_at_eq_Inr [res_simps]: "ctx_at c s = Inr cx \<longleftrightarrow> (\<exists>i. c = Some i \<and> ctxs s i = Some cx)"
  by (cases c) (auto simp: ctx_at_def res_simps)

lemma ctx_at_Some [simp]: "ctxs s i = Some cx \<Longrightarrow> ctx_at (Some i) s = Inr cx"
  by (simp add: ctx_at_def)

lemma upd_ctx_Some [simp]:
  "ctxs s i = Some cx \<Longrightarrow> upd_ctx (Some i) f s = Inr (s\<lparr>ctxs := (ctxs s)(i \<mapsto> f cx)\<rparr>)"
  by (simp add: upd_ctx_def)

text \<open>Appending a cell keeps the list well formed and adds the child at its end.\<close>

lemma add_child_law:
  assumes fr: "fresh_ok s" and cl: "child_list s td as"
  shows "\<exists>fl s'. add_child_to_list child (first_child td, last_child td) s = Inr (fl, s') \<and>
    ctxs s' = ctxs s \<and> tapes s' = tapes s \<and> fresh_ok s' \<and>
    child_list s' (td\<lparr>first_child := fst fl, last_child := snd fl\<rparr>) (as @ [next_id s]) \<and>
    children s' (as @ [next_id s]) = children s as @ [child]"
proof -
  let ?n = "next_id s"
  have none: "cells s ?n = None" using fr by (simp add: fresh_ok_def)
  then have new: "?n \<notin> set as"
    using cl cell_path_dom by (fastforce simp: child_list_def)
  show ?thesis
  proof (cases as rule: rev_cases)
    case Nil
    then show ?thesis
      using cl fr by (auto simp: add_child_to_list_def child_list_def children_def fresh_ok_def Let_def)
  next
    case (snoc bs b)
    then obtain k where k: "cells s b = Some k" "cell_next k = None"
      "cell_path (cells s) (first_child td) bs (Some b)"
      using cl by (auto simp: child_list_def cell_path_append)
    have ne: "first_child td \<noteq> None" using k(3) by (cases bs) auto
    let ?s1 = "s\<lparr>cells := (cells s)(?n \<mapsto> \<lparr>cell_context = child, cell_next = None\<rparr>,
        b \<mapsto> k\<lparr>cell_next := Some ?n\<rparr>), next_id := Suc ?n\<rparr>"
    have b: "b \<noteq> ?n" "b \<notin> set bs" "?n \<notin> set bs" using snoc new cl by (auto simp: child_list_def)
    have "add_child_to_list child (first_child td, last_child td) s
        = Inr ((first_child td, Some ?n), ?s1)"
      using cl snoc ne k(1) b by (simp add: add_child_to_list_def child_list_def Let_def)
    moreover have "fresh_ok ?s1"
      using fr k(1) by (auto simp: fresh_ok_def)
    moreover have "child_list ?s1 (td\<lparr>first_child := first_child td, last_child := Some ?n\<rparr>) (as @ [?n])"
      using cl snoc b k by (auto simp: child_list_def cell_path_append)
    moreover have "children ?s1 (as @ [?n]) = children s as @ [child]"
      using snoc b new k(1) by (auto simp: children_def)
    ultimately show ?thesis by auto
  qed
qed

text \<open>C25: registering a child with a composite stream appends it to the stream's child list (the
  list of its children is the old one with the new child at the end), records the parent in the
  child, and keeps the list and the allocator well formed.\<close>

theorem register_child_appends:
  assumes "fresh_ok s" and c: "ctxs s c = Some cx" and ch: "ctxs s ch = Some kx"
    and ty: "c_type cx \<in> {PIPELINE, SPLIT_JOIN, FEEDBACK_LOOP}" and cl: "child_list s (c_data cx) as"
  shows "\<exists>s' cx' kx'. register_child (Some c) (Some ch) s = Inr s' \<and> fresh_ok s' \<and>
    ctxs s' c = Some cx' \<and> child_list s' (c_data cx') (as @ [next_id s]) \<and>
    children s' (as @ [next_id s]) = children s as @ [ch] \<and>
    ctxs s' ch = Some kx' \<and> c_parent kx' = Some c"
proof -
  define s1 where "s1 = s\<lparr>ctxs := (ctxs s)(ch \<mapsto> kx\<lparr>c_parent := Some c\<rparr>)\<rparr>"
  obtain cx1 where cx1: "ctxs s1 c = Some cx1" "c_type cx1 = c_type cx" "c_data cx1 = c_data cx"
    using c ch by (cases "c = ch") (auto simp: s1_def)
  have pre: "fresh_ok s1" "child_list s1 (c_data cx1) as" "next_id s1 = next_id s"
    "children s1 as = children s as"
    using assms cx1(3) by (auto simp: fresh_ok_def child_list_def children_def s1_def)
  obtain fl s2 where s2: "add_child_to_list ch (first_child (c_data cx1), last_child (c_data cx1)) s1
      = Inr (fl, s2)" "ctxs s2 = ctxs s1" "fresh_ok s2"
    "child_list s2 ((c_data cx1)\<lparr>first_child := fst fl, last_child := snd fl\<rparr>) (as @ [next_id s])"
    "children s2 (as @ [next_id s]) = children s as @ [ch]"
    using add_child_law [OF pre(1,2), of ch] pre(3,4) by auto
  define cx2 where "cx2 = cx1\<lparr>c_data := (c_data cx1)\<lparr>first_child := fst fl, last_child := snd fl\<rparr>\<rparr>"
  define s3 where "s3 = s2\<lparr>ctxs := (ctxs s2)(c \<mapsto> cx2)\<rparr>"
  have steps: "ctx_at (Some c) s = Inr cx" "ctx_at (Some ch) s = Inr kx"
    "upd_ctx (Some ch) (\<lambda>cx. cx\<lparr>c_parent := Some c\<rparr>) s = Inr s1" "ctx_at (Some c) s1 = Inr cx1"
    using c ch cx1 by (simp_all add: s1_def)
  have "upd_ctx (Some c) (\<lambda>cx. cx\<lparr>c_data := (c_data cx)\<lparr>first_child := fst fl, last_child := snd fl\<rparr>\<rparr>) s2
      = Inr s3"
    using cx1(1) s2(2) by (simp add: s3_def cx2_def)
  then have "register_child (Some c) (Some ch) s = Inr s3"
    using ty cx1(2) s2(1) by (simp add: register_child_def steps)
  moreover have "fresh_ok s3"
    using s2(2,3) cx1(1) by (auto simp: fresh_ok_def s3_def)
  moreover have "ctxs s3 c = Some cx2" "child_list s3 (c_data cx2) (as @ [next_id s])"
    "children s3 (as @ [next_id s]) = children s as @ [ch]"
    using s2(4,5) by (auto simp: child_list_def children_def s3_def cx2_def)
  moreover have "\<exists>kx'. ctxs s3 ch = Some kx' \<and> c_parent kx' = Some c"
    using s2(2) cx1(1) by (cases "c = ch") (auto simp: s3_def cx2_def s1_def)
  ultimately show ?thesis by blast
qed

text \<open>A pipeline with one child; a second filter is registered with it.\<close>

definition sample_child_ctx :: "stream_type \<Rightarrow> nat option \<Rightarrow> stream_context" where
  "sample_child_ctx ty f =
     (let om = \<lparr>om_type = NULL_SJ, fan = 1, ratio = None, slots = 0, one_tape = None, om_tape = [None], tcache = None\<rparr>
      in \<lparr>stream_data = 0, c_type = ty, peek_size = 1, pop_size = 1, push_size = 1, work_function = None,
        c_parent = None, input_tape = None, output_tape = None,
        c_data = \<lparr>first_child = f, last_child = f, splitter = om, joiner = om\<rparr>\<rparr>)"

definition sample_children :: lib_store where
  "sample_children = \<lparr>ctxs = [0 \<mapsto> sample_child_ctx PIPELINE (Some 10), 1 \<mapsto> sample_child_ctx FILTER None,
       2 \<mapsto> sample_child_ctx FILTER None], tapes = (\<lambda>_. None),
     cells = [10 \<mapsto> \<lparr>cell_context = 1, cell_next = None\<rparr>], next_id = 20\<rparr>"

lemma register_child_appends_witness:
  "\<exists>s' cx' kx'. register_child (Some 0) (Some 2) sample_children = Inr s' \<and>
    ctxs s' 0 = Some cx' \<and> child_list s' (c_data cx') [10, 20] \<and> children s' [10, 20] = [1, 2] \<and>
    ctxs s' 2 = Some kx' \<and> c_parent kx' = Some 0"
proof -
  have "fresh_ok sample_children" by (simp add: fresh_ok_def sample_children_def)
  moreover have "child_list sample_children (c_data (sample_child_ctx PIPELINE (Some 10))) [10]"
    by (simp add: child_list_def sample_children_def sample_child_ctx_def Let_def)
  ultimately show ?thesis
    using register_child_appends [of sample_children 0 "sample_child_ctx PIPELINE (Some 10)" 2
        "sample_child_ctx FILTER None" "[10]"]
    by (simp add: sample_children_def sample_child_ctx_def Let_def children_def) blast
qed

end
