(* ===== verification/Library_IO.thy ===== *)
theory Library_IO
  imports Stream_Context
begin

text \<open>
  The built-in filters of the C library (\<open>library/c/streamit_io.c\<close>): the file reader, the file
  writer and the identity filter.  An open file is the bytes still to be read, or the bytes
  written so far; it is named by the filter's data object, as each has one file of its own.
\<close>

section \<open>Files\<close>

record io_world =
  io_lib :: lib_store
  to_read :: "nat \<Rightarrow> byte list option"
  written :: "nat \<Rightarrow> byte list option"

text \<open>
  \<open>fread(p, size, 1, f)\<close> into a tape: it copies as many of the \<open>size\<close> bytes as the file still has.
  The callers ignore its result, so at the end of the file the rest of the item stays as it was.
\<close>

definition fread_item :: "byte list \<Rightarrow> int \<Rightarrow> int \<Rightarrow> byte list \<Rightarrow> (byte list \<times> byte list) res" where
  "fread_item d p sz f =
     rbind (load_bytes d p sz) (\<lambda>_. rbind (store_bytes d p (take (nat sz) f)) (\<lambda>d. Inr (d, drop (nat sz) f)))"

definition read_work :: "nat \<Rightarrow> nat \<Rightarrow> tape_store \<times> (nat \<Rightarrow> byte list option)
    \<Rightarrow> (tape_store \<times> (nat \<Rightarrow> byte list option)) res" where
  "read_work frd out st = (case st of (T, files) \<Rightarrow>
     rbind (deref (T out)) (\<lambda>t. rbind (upd_tape out (incr_tape_write (t_size t)) T) (\<lambda>T.
     rbind (deref (T out)) (\<lambda>t. rbind (deref (files frd)) (\<lambda>f.
     rbind (fread_item (t_data t) (write_pos t) (t_size t) f) (\<lambda>(d, f).
       Inr (T(out \<mapsto> t\<lparr>t_data := d\<rparr>), files(frd \<mapsto> f))))))))"

definition write_work :: "nat \<Rightarrow> nat \<Rightarrow> tape_store \<times> (nat \<Rightarrow> byte list option)
    \<Rightarrow> (tape_store \<times> (nat \<Rightarrow> byte list option)) res" where
  "write_work frd inp st = (case st of (T, files) \<Rightarrow>
     rbind (deref (T inp)) (\<lambda>t. rbind (upd_tape inp (incr_tape_read (t_size t)) T) (\<lambda>T.
     rbind (deref (T inp)) (\<lambda>t. rbind (deref (files frd)) (\<lambda>f.
     rbind (load_bytes (t_data t) (read_pos t) (t_size t)) (\<lambda>v. Inr (T, files(frd \<mapsto> f @ v))))))))"

section \<open>The filters\<close>

text \<open>
  Setting a filter up.  \<open>data\<close> is the address of its data object, \<open>file\<close> what \<open>fopen\<close> gives
  (\<open>None\<close> when it fails), \<open>work\<close> the identifier of its work function.
\<close>

definition filter_create :: "type_data \<Rightarrow> nat \<Rightarrow> int \<Rightarrow> int \<Rightarrow> int \<Rightarrow> nat \<Rightarrow> bool \<Rightarrow> lib_store \<Rightarrow> (nat \<times> lib_store) res" where
  "filter_create junk data pushes peeks pops work opened s =
     (let (c, s) = create_context junk data s in
      ensure AssertFail opened
        (rbind (set_stream_type (Some c) FILTER s) (\<lambda>s. rbind (set_push (Some c) pushes s) (\<lambda>s.
         rbind (set_peek (Some c) peeks s) (\<lambda>s. rbind (set_pop (Some c) pops s) (\<lambda>s.
         rbind (set_work (Some c) (Some work) s) (\<lambda>s. Inr (c, s))))))))"

definition filereader_create :: "type_data \<Rightarrow> nat \<Rightarrow> nat \<Rightarrow> byte list option \<Rightarrow> io_world \<Rightarrow> (nat \<times> io_world) res" where
  "filereader_create junk frd work file w =
     rbind (filter_create junk frd 1 0 0 work (file \<noteq> None) (io_lib w)) (\<lambda>(c, s).
       Inr (c, w\<lparr>io_lib := s, to_read := (to_read w)(frd := file)\<rparr>))"

definition filewriter_create :: "type_data \<Rightarrow> nat \<Rightarrow> nat \<Rightarrow> bool \<Rightarrow> io_world \<Rightarrow> (nat \<times> io_world) res" where
  "filewriter_create junk frd work opened w =
     rbind (filter_create junk frd 0 0 1 work opened (io_lib w)) (\<lambda>(c, s).
       Inr (c, w\<lparr>io_lib := s, written := (written w)(frd \<mapsto> [])\<rparr>))"

definition identity_create :: "type_data \<Rightarrow> nat \<Rightarrow> lib_store \<Rightarrow> (nat \<times> lib_store) res" where
  "identity_create junk work s = filter_create junk 0 1 1 1 work True s"

definition filereader_work :: "nat option \<Rightarrow> io_world \<Rightarrow> io_world res" where
  "filereader_work c w = rbind (ctx_at c (io_lib w)) (\<lambda>cx. rbind (deref (output_tape cx)) (\<lambda>out.
     rbind (read_work (stream_data cx) out (tapes (io_lib w), to_read w)) (\<lambda>(T, fs).
       Inr (w\<lparr>io_lib := (io_lib w)\<lparr>tapes := T\<rparr>, to_read := fs\<rparr>))))"

definition filewriter_work :: "nat option \<Rightarrow> io_world \<Rightarrow> io_world res" where
  "filewriter_work c w = rbind (ctx_at c (io_lib w)) (\<lambda>cx. rbind (deref (input_tape cx)) (\<lambda>inp.
     rbind (write_work (stream_data cx) inp (tapes (io_lib w), written w)) (\<lambda>(T, fs).
       Inr (w\<lparr>io_lib := (io_lib w)\<lparr>tapes := T\<rparr>, written := fs\<rparr>))))"

text \<open>
  The identity filter copies the positions into locals, moves one item, and writes the positions
  back to the tapes.
\<close>

definition identity_move :: "nat \<Rightarrow> nat \<Rightarrow> tape_store \<Rightarrow> tape_store res" where
  "identity_move inp out T =
     rbind (deref (T inp)) (\<lambda>rt. rbind (deref (T out)) (\<lambda>wt.
     let s = t_size rt;
         wp = incr_tape_localb (write_pos wt) (t_mask wt) s;
         rp = incr_tape_localb (read_pos rt) (t_mask rt) s in
     rbind (memcpy_res (t_data wt) wp (t_data rt) rp s) (\<lambda>d.
     rbind (upd_tape out (\<lambda>t. t\<lparr>t_data := d\<rparr>) T) (\<lambda>T.
     rbind (upd_tape inp (\<lambda>t. t\<lparr>read_pos := rp\<rparr>) T) (\<lambda>T.
       upd_tape out (\<lambda>t. t\<lparr>write_pos := wp\<rparr>) T)))))"

definition identity_work :: "nat option \<Rightarrow> lib_store \<Rightarrow> lib_store res" where
  "identity_work c s = rbind (ctx_at c s) (\<lambda>cx. rbind (deref (input_tape cx)) (\<lambda>inp.
     rbind (deref (output_tape cx)) (\<lambda>out.
     rbind (identity_move inp out (tapes s)) (\<lambda>T. Inr (s\<lparr>tapes := T\<rparr>)))))"

section \<open>Moving items\<close>

lemma read_work_put:
  assumes "T out = Some t" "files frd = Some (v @ f)" "0 \<le> t_size t" "int (length v) = t_size t"
  shows "read_work frd out (T, files)
    = rbind (tape_put out v T) (\<lambda>T. Inr (T, files(frd \<mapsto> f)))"
proof (cases "store_bytes (t_data t) (write_pos (incr_tape_write (t_size t) t)) v")
  case (Inl e)
  then show ?thesis
    using assms by (auto simp: read_work_def fread_item_def upd_tape_def tape_put_def push_tape_def
        incr_tape_write_def Let_def load_bytes_def store_bytes_def split: if_splits)
next
  case (Inr d)
  then show ?thesis
    using assms by (auto simp: read_work_def fread_item_def upd_tape_def tape_put_def push_tape_def
        incr_tape_write_def Let_def load_bytes_def store_bytes_def split: if_splits)
qed

lemma write_work_get:
  assumes "files frd = Some f"
  shows "write_work frd inp (T, files)
    = rbind (tape_get inp T) (\<lambda>(v, T). Inr (T, files(frd \<mapsto> f @ v)))"
  using assms
  by (cases "T inp") (simp_all add: write_work_def upd_tape_def tape_get_def pop_tape_def Let_def
      rbind_def incr_tape_read_def split: sum.split)

lemma identity_move_eq:
  assumes "T i = Some ti" "T j = Some tj" "i \<noteq> j" "t_size tj = t_size ti"
  shows "identity_move i j T = qs_move tape_get tape_put i j T"
proof (cases "load_bytes (t_data ti) (incr_tape_localb (read_pos ti) (t_mask ti) (t_size ti)) (t_size ti)")
  case (Inl e)
  then show ?thesis
    using assms by (simp add: identity_move_def memcpy_res_def qs_move_def tape_get_def pop_tape_def
        incr_tape_read_def Let_def)
next
  case (Inr v)
  then have "int (length v) = t_size ti" by (auto simp: load_bytes_def split: if_splits)
  moreover have "(T(j \<mapsto> x, i \<mapsto> y))(j \<mapsto> z) = T(i \<mapsto> y, j \<mapsto> z)" for x y z
    using assms(3) by (auto simp: fun_upd_def)
  moreover have comm: "tj\<lparr>t_data := b, write_pos := a\<rparr> = tj\<lparr>write_pos := a, t_data := b\<rparr>" for a b by simp
  ultimately show ?thesis
    using assms Inr by (simp add: identity_move_def memcpy_res_def qs_move_def tape_get_def pop_tape_def
        tape_put_def push_tape_def incr_tape_read_def incr_tape_write_def Let_def upd_tape_def
        comm rbind_def split: sum.split)
qed

lemma reader_writer_fold:
  assumes "tape_ok t" "tape_items t = []" "0 < tape_room t" "int (length v) = t_size t"
    "files frd = Some (v @ f)" "T i = Some t"
  shows "\<exists>T' t'. read_work frd i (T, files) = Inr (T', files(frd \<mapsto> f)) \<and> T' i = Some t' \<and>
    tape_ok t' \<and> tape_items t' = [v] \<and> t_size t' = t_size t \<and> tape_room t' = tape_room t - 1"
proof -
  obtain t' where t': "push_tape v t = Inr t'" "tape_ok t'" "tape_items t' = tape_items t @ [v]"
    "tape_room t' = tape_room t - 1" "t_size t' = t_size t"
    using push_tape_law [OF assms(1,4,3)] by blast
  have "0 \<le> t_size t" using assms(4) by linarith
  then have "read_work frd i (T, files) = Inr (T(i \<mapsto> t'), files(frd \<mapsto> f))"
    using read_work_put [of T i t files frd v f, OF assms(6,5) _ assms(4)] t'(1) assms(6) by (simp add: tape_put_def)
  then show ?thesis using t' assms(2) by auto
qed

text \<open>
  A file reader connected to a file writer by a tape, run in turns.  The two keep their files in
  separate tables.
\<close>

fun copy_items :: "nat \<Rightarrow> nat \<Rightarrow> nat \<Rightarrow> nat \<Rightarrow> tape_store \<times> (nat \<Rightarrow> byte list option) \<times> (nat \<Rightarrow> byte list option)
    \<Rightarrow> (tape_store \<times> (nat \<Rightarrow> byte list option) \<times> (nat \<Rightarrow> byte list option)) res" where
  "copy_items 0 frd fwd i st = Inr st"
| "copy_items (Suc n) frd fwd i (T, ins, outs) =
     rbind (read_work frd i (T, ins)) (\<lambda>(T, ins). rbind (write_work fwd i (T, outs)) (\<lambda>(T, outs).
       copy_items n frd fwd i (T, ins, outs)))"

text \<open>C32: a file reader and a file writer that share a tape copy the file: \<open>n\<close> turns write exactly
  the \<open>n\<close> items the file starts with, leave the rest of it to be read, and the tape empty.\<close>

theorem reader_writer_copy:
  assumes "T i = Some t" "tape_ok t" "tape_items t = []" "0 < tape_room t"
    "\<forall>v\<in>set vs. int (length v) = t_size t" "ins frd = Some (concat vs @ rest)" "outs fwd = Some g"
  shows "\<exists>T' t'. copy_items (length vs) frd fwd i (T, ins, outs)
      = Inr (T', ins(frd \<mapsto> rest), outs(fwd \<mapsto> g @ concat vs)) \<and> T' i = Some t' \<and> tape_items t' = []"
  using assms
proof (induction vs arbitrary: T t ins outs g)
  case Nil
  then show ?case by (auto simp: fun_upd_idem)
next
  case (Cons v vs)
  have len: "int (length v) = t_size t" and f: "ins frd = Some (v @ concat vs @ rest)"
    using Cons.prems by auto
  obtain T1 t1 where t1: "read_work frd i (T, ins) = Inr (T1, ins(frd \<mapsto> concat vs @ rest))" "T1 i = Some t1"
    "tape_ok t1" "tape_items t1 = [v]" "t_size t1 = t_size t" "tape_room t1 = tape_room t - 1"
    using reader_writer_fold [of t v ins frd _ T i, OF Cons.prems(2-4) len f Cons.prems(1)] by blast
  obtain t2 where t2: "pop_tape (t_size t1) t1 = Inr (v, t2)" "tape_ok t2" "tape_items t2 = []"
    "tape_room t2 = Suc (tape_room t1)" "t_size t2 = t_size t1"
    using pop_tape_law [OF t1(3,4)] by blast
  have w: "write_work fwd i (T1, outs) = Inr (T1(i \<mapsto> t2), outs(fwd \<mapsto> g @ v))"
    using write_work_get [of outs fwd g i T1, OF Cons.prems(7)] t1(2) t2(1) by (simp add: tape_get_def)
  have pos: "0 < tape_room t2" "\<forall>v\<in>set vs. int (length v) = t_size t2"
    using t2(4,5) t1(5) Cons.prems(5) by auto
  obtain T' t' where r: "copy_items (length vs) frd fwd i
      (T1(i \<mapsto> t2), ins(frd \<mapsto> concat vs @ rest), outs(fwd \<mapsto> g @ v))
    = Inr (T', (ins(frd \<mapsto> concat vs @ rest))(frd \<mapsto> rest),
        (outs(fwd \<mapsto> g @ v))(fwd \<mapsto> (g @ v) @ concat vs)) \<and> T' i = Some t' \<and> tape_items t' = []"
    using Cons.IH [of "T1(i \<mapsto> t2)" t2 "ins(frd \<mapsto> concat vs @ rest)" "outs(fwd \<mapsto> g @ v)" "g @ v",
        OF _ t2(2,3) pos] by fastforce
  then show ?case using t1(1) w by auto
qed

definition rw_tape :: tape where
  "rw_tape = \<lparr>t_data = [0, 0, 0, 0], read_pos = 2, write_pos = 2, t_size = 2, t_mask = 3\<rparr>"

lemma reader_writer_copy_witness:
  "\<exists>T' t'. copy_items (length [[1, 2], [3, 4::byte]]) 0 1 5 ([5 \<mapsto> rw_tape], [0 \<mapsto> [1, 2, 3, 4, 9]], [1 \<mapsto> []])
    = Inr (T', [0 \<mapsto> [9]], [1 \<mapsto> [1, 2, 3, 4]]) \<and> T' 5 = Some t' \<and> tape_items t' = []"
proof -
  have "tape_ok rw_tape" "tape_items rw_tape = []" "0 < tape_room rw_tape" "t_size rw_tape = 2"
    by (simp_all add: rw_tape_def tape_ok_def tape_items_def tape_room_def tape_used_def)
  then show ?thesis
    using reader_writer_copy [of "[5 \<mapsto> rw_tape]" 5 rw_tape "[[1, 2], [3, 4]]" "[0 \<mapsto> [1, 2, 3, 4, 9]]" 0 "[9]"
        "[1 \<mapsto> []]" 1 "[]"]
    by (simp del: copy_items.simps)
qed

text \<open>The identity filter takes one item off its input tape and appends it to its output tape.\<close>

theorem identity_work_moves:
  assumes "ctxs s c = Some cx" "input_tape cx = Some i" "output_tape cx = Some j" "i \<noteq> j"
    "tapes s i = Some ti" "tapes s j = Some tj" "tape_ok ti" "tape_ok tj" "t_size tj = t_size ti"
    "tape_items ti = x # xs" "0 < tape_room tj"
  shows "\<exists>T. identity_work (Some c) s = Inr (s\<lparr>tapes := T\<rparr>) \<and> tape_items_at T i = xs \<and>
    tape_items_at T j = tape_items tj @ [x] \<and> tapes_ok T {i, j}"
proof -
  have q: "tapes_ok (tapes s) {i, j}" using assms(5-8) by (simp add: tapes_ok_def)
  have it: "tape_items_at (tapes s) i = x # xs" "0 < tape_room_at (tapes s) j"
    "tape_items_at (tapes s) j = tape_items tj"
    using assms by (simp_all add: tape_items_at_def tape_room_at_def)
  have "int (length x) = t_size ti" using pop_tape_law [OF assms(7,10)] by blast
  then have "tape_fits_at (tapes s) j x" using assms(6,9) by (simp add: tape_fits_at_def)
  then obtain T where T: "qs_move tape_get tape_put i j (tapes s) = Inr T" "tapes_ok T {i, j}"
    "\<forall>k\<in>{i, j}. tape_items_at T k = (if k = i then xs else if k = j then tape_items_at (tapes s) j @ [x]
        else tape_items_at (tapes s) k)"
    using tq.move_law [OF q _ _ assms(4) it(1,2)] by blast
  have "identity_move i j (tapes s) = Inr T"
    using identity_move_eq [OF assms(5,6,4,9)] T(1) by simp
  then show ?thesis using assms(1-4) T(2,3) it(3) by (auto simp: identity_work_def)
qed

definition id_in_tape :: tape where
  "id_in_tape = \<lparr>t_data = [1, 2, 3, 4], read_pos = 2, write_pos = 1, t_size = 1, t_mask = 3\<rparr>"

definition id_out_tape :: tape where
  "id_out_tape = \<lparr>t_data = [0, 0], read_pos = 1, write_pos = 1, t_size = 1, t_mask = 1\<rparr>"

definition id_ctx :: "type_data \<Rightarrow> stream_context" where
  "id_ctx junk = \<lparr>stream_data = 0, c_type = FILTER, peek_size = 1, pop_size = 1,
       push_size = 1, work_function = Some 1, c_parent = None, input_tape = Some 5, output_tape = Some 6,
       c_data = junk\<rparr>"

definition id_store :: "type_data \<Rightarrow> lib_store" where
  "id_store junk = \<lparr>ctxs = [0 \<mapsto> id_ctx junk], tapes = [5 \<mapsto> id_in_tape, 6 \<mapsto> id_out_tape],
     cells = (\<lambda>_. None), next_id = 9\<rparr>"

lemma identity_work_moves_witness:
  "\<forall>junk. \<exists>T. identity_work (Some 0) (id_store junk) = Inr ((id_store junk)\<lparr>tapes := T\<rparr>) \<and>
    tape_items_at T 5 = [[1], [2]] \<and> tape_items_at T 6 = [[4]] \<and> tapes_ok T {5, 6}"
proof
  fix junk
  have t: "tape_ok id_in_tape" "tape_ok id_out_tape" "tape_items id_in_tape = [4] # [[1], [2]]"
    "tape_items id_out_tape = []" "0 < tape_room id_out_tape"
    by (simp_all add: id_in_tape_def id_out_tape_def tape_ok_def tape_items_def tape_room_def tape_used_def
        ring_items_def ring_read_def upt_rec)
  show "\<exists>T. identity_work (Some 0) (id_store junk) = Inr ((id_store junk)\<lparr>tapes := T\<rparr>) \<and>
    tape_items_at T 5 = [[1], [2]] \<and> tape_items_at T 6 = [[4]] \<and> tapes_ok T {5, 6}"
    using identity_work_moves [of "id_store junk" 0 "id_ctx junk" 5 6, OF _ _ _ _ _ _ t(1,2) _ t(3,5)] t(4)
    by (simp add: id_store_def id_ctx_def id_in_tape_def id_out_tape_def)
qed

end
