(* ===== verification/Stream_Connect.thy ===== *)
theory Stream_Connect
  imports Stream_Context
begin

text \<open>
  \<open>connect_tapes\<close> of \<open>library/c/streamit_run.c\<close>: the recursive descent that gives the first and
  last child of a pipeline, and the outer sides of a splitter or joiner, the tapes of the stream
  they belong to.  For contexts that form a tree it ends, changes nothing but tape pointers, and
  leaves every composite stream of the tree wired.
\<close>

section \<open>Connecting the tapes of a whole graph\<close>

text \<open>
  \<open>connect_tapes\<close> and its loop over the child list recurse along pointers, so they take fuel; the
  lemmas below show how much is enough when the contexts form a tree.
\<close>

fun connect_tapes :: "nat \<Rightarrow> nat option \<Rightarrow> lib_store \<Rightarrow> lib_store res"
and connect_children :: "nat \<Rightarrow> nat option \<Rightarrow> lib_store \<Rightarrow> lib_store res" where
  "connect_tapes 0 c s = Inl OutOfFuel"
| "connect_tapes (Suc n) c s = rbind (ctx_at c s) (\<lambda>cx.
     case c_type cx of
       FILTER \<Rightarrow> Inr s
     | PIPELINE \<Rightarrow>
        (if first_child (c_data cx) = None then Inr s
         else rbind (deref (first_child (c_data cx))) (\<lambda>a. rbind (deref (cells s a)) (\<lambda>fk.
              rbind (upd_ctx (Some (cell_context fk)) (\<lambda>k. k\<lparr>input_tape := input_tape cx\<rparr>) s) (\<lambda>s.
              rbind (ctx_at c s) (\<lambda>cx. rbind (deref (last_child (c_data cx))) (\<lambda>b.
              rbind (deref (cells s b)) (\<lambda>lk.
              rbind (upd_ctx (Some (cell_context lk)) (\<lambda>k. k\<lparr>output_tape := output_tape cx\<rparr>) s) (\<lambda>s.
              rbind (ctx_at c s) (\<lambda>cx. connect_children n (first_child (c_data cx)) s)))))))))
     | SPLIT_JOIN \<Rightarrow>
        rbind (upd_ctx c (\<lambda>cx. put_om JOINER ((get_om JOINER cx)\<lparr>one_tape := output_tape cx\<rparr>)
                            (put_om SPLITTER ((get_om SPLITTER cx)\<lparr>one_tape := input_tape cx\<rparr>) cx)) s) (\<lambda>s.
        rbind (ctx_at c s) (\<lambda>cx. connect_children n (first_child (c_data cx)) s))
     | FEEDBACK_LOOP \<Rightarrow>
        (if om_tape (joiner (c_data cx)) = [] \<or> om_tape (splitter (c_data cx)) = [] then Inl OutOfBounds
         else
         rbind (upd_ctx c (\<lambda>cx. put_om SPLITTER ((get_om SPLITTER cx)
                               \<lparr>om_tape := (om_tape (get_om SPLITTER cx))[0 := output_tape cx]\<rparr>)
                            (put_om JOINER ((get_om JOINER cx)
                               \<lparr>om_tape := (om_tape (get_om JOINER cx))[0 := input_tape cx]\<rparr>) cx)) s) (\<lambda>s.
         rbind (ctx_at c s) (\<lambda>cx. connect_children n (first_child (c_data cx)) s)))
     | INVALID_STREAM_TYPE \<Rightarrow> Inl AssertFail)"
| "connect_children 0 p s = Inl OutOfFuel"
| "connect_children (Suc n) p s =
     (case p of None \<Rightarrow> Inr s
      | Some a \<Rightarrow> rbind (deref (cells s a)) (\<lambda>k.
          rbind (connect_tapes n (Some (cell_context k)) s) (\<lambda>s'.
          rbind (deref (cells s' a)) (\<lambda>k'. connect_children n (cell_next k') s'))))"

section \<open>Trees of contexts\<close>

datatype stree = SNode nat "stree list"

primrec root :: "stree \<Rightarrow> nat" where
  "root (SNode i ts) = i"

primrec ids :: "stree \<Rightarrow> nat list" where
  "ids (SNode i ts) = i # concat (map ids ts)"

primrec tree_fuel :: "stree \<Rightarrow> nat" where
  "tree_fuel (SNode i ts) = Suc (Suc (sum_list (map (\<lambda>t. Suc (tree_fuel t)) ts)))"

fun ctx_tree :: "lib_store \<Rightarrow> stree \<Rightarrow> bool" where
  "ctx_tree s (SNode i ts) \<longleftrightarrow> (\<exists>cx. ctxs s i = Some cx \<and> c_type cx \<noteq> INVALID_STREAM_TYPE \<and>
     (c_type cx = FILTER \<longrightarrow> ts = []) \<and>
     (c_type cx \<noteq> FILTER \<longrightarrow> (\<exists>as. child_list s (c_data cx) as \<and> (\<forall>a\<in>set as. cells s a \<noteq> None) \<and>
        children s as = map root ts)) \<and>
     (c_type cx = FEEDBACK_LOOP \<longrightarrow> om_tape (joiner (c_data cx)) \<noteq> [] \<and> om_tape (splitter (c_data cx)) \<noteq> []) \<and>
     (\<forall>t\<in>set ts. ctx_tree s t))"

declare ctx_tree.simps [simp del]

definition wired_at :: "lib_store \<Rightarrow> stream_context \<Rightarrow> nat list \<Rightarrow> bool" where
  "wired_at s cx kids = (case c_type cx of
      PIPELINE \<Rightarrow> kids \<noteq> [] \<longrightarrow>
        map_option input_tape (ctxs s (hd kids)) = Some (input_tape cx) \<and>
        map_option output_tape (ctxs s (last kids)) = Some (output_tape cx)
    | SPLIT_JOIN \<Rightarrow> one_tape (splitter (c_data cx)) = input_tape cx \<and>
        one_tape (joiner (c_data cx)) = output_tape cx
    | FEEDBACK_LOOP \<Rightarrow> index_res (om_tape (joiner (c_data cx))) 0 = Inr (input_tape cx) \<and>
        index_res (om_tape (splitter (c_data cx))) 0 = Inr (output_tape cx)
    | _ \<Rightarrow> True)"

fun wired :: "lib_store \<Rightarrow> stree \<Rightarrow> bool" where
  "wired s (SNode i ts) \<longleftrightarrow>
     (case ctxs s i of None \<Rightarrow> False | Some cx \<Rightarrow> wired_at s cx (map root ts)) \<and> (\<forall>t\<in>set ts. wired s t)"

declare wired.simps [simp del]

definition ctx_shape :: "stream_context \<Rightarrow> stream_type \<times> nat option \<times> nat option \<times> bool \<times> bool" where
  "ctx_shape cx = (c_type cx, first_child (c_data cx), last_child (c_data cx),
     om_tape (joiner (c_data cx)) = [], om_tape (splitter (c_data cx)) = [])"

definition same_shape :: "lib_store \<Rightarrow> lib_store \<Rightarrow> bool" where
  "same_shape s s' \<longleftrightarrow> cells s' = cells s \<and> tapes s' = tapes s \<and>
     (\<forall>i. map_option ctx_shape (ctxs s' i) = map_option ctx_shape (ctxs s i))"

definition io_tapes :: "lib_store \<Rightarrow> nat \<Rightarrow> (tape_ptr \<times> tape_ptr) option" where
  "io_tapes s i = map_option (\<lambda>cx. (input_tape cx, output_tape cx)) (ctxs s i)"

definition connected :: "lib_store \<Rightarrow> lib_store \<Rightarrow> stree list \<Rightarrow> bool" where
  "connected s s' ts \<longleftrightarrow> same_shape s s' \<and>
     (\<forall>i. i \<notin> set (concat (map ids ts)) \<longrightarrow> ctxs s' i = ctxs s i) \<and>
     (\<forall>t\<in>set ts. io_tapes s' (root t) = io_tapes s (root t) \<and> wired s' t)"

lemma root_in_ids [simp]: "root t \<in> set (ids t)"
  by (cases t) simp

lemma same_shape_refl [simp]: "same_shape s s"
  by (simp add: same_shape_def)

lemma same_shape_trans: "same_shape s t \<Longrightarrow> same_shape t u \<Longrightarrow> same_shape s u"
  by (simp add: same_shape_def)

lemma same_shape_upd:
  "ctxs s i = Some cx \<Longrightarrow> ctx_shape cx' = ctx_shape cx \<Longrightarrow> same_shape s (s\<lparr>ctxs := (ctxs s)(i \<mapsto> cx')\<rparr>)"
  by (simp add: same_shape_def)

lemma same_shape_child_list: "same_shape s s' \<Longrightarrow> child_list s' td as = child_list s td as"
  by (simp add: same_shape_def child_list_def)

lemma same_shape_children: "same_shape s s' \<Longrightarrow> children s' as = children s as"
  by (simp add: same_shape_def children_def)

lemma ctx_tree_mono: "same_shape s s' \<Longrightarrow> ctx_tree s t \<Longrightarrow> ctx_tree s' t"
proof (induction s t rule: ctx_tree.induct)
  case (1 s i ts)
  obtain cx where cx: "ctxs s i = Some cx" using 1(3) by (auto simp: ctx_tree.simps)
  have "map_option ctx_shape (ctxs s' i) = Some (ctx_shape cx)"
    using 1(2) cx by (simp add: same_shape_def)
  then obtain cx' where cx': "ctxs s' i = Some cx'" "ctx_shape cx' = ctx_shape cx" by auto
  have "cells s' = cells s" using 1(2) by (simp add: same_shape_def)
  with 1 cx cx' show ?case
    by (auto simp: ctx_tree.simps [of _ i ts] ctx_shape_def child_list_def children_def)
qed

lemma wired_at_frame:
  "(\<And>i. i \<in> set kids \<Longrightarrow> ctxs s' i = ctxs s i) \<Longrightarrow> wired_at s' cx kids = wired_at s cx kids"
  by (simp add: wired_at_def split: stream_type.split)

lemma wired_frame: "(\<And>i. i \<in> set (ids t) \<Longrightarrow> ctxs s' i = ctxs s i) \<Longrightarrow> wired s' t = wired s t"
proof (induction s t rule: wired.induct)
  case (1 s i ts)
  have "wired_at s' cx (map root ts) = wired_at s cx (map root ts)" for cx
  proof (rule wired_at_frame)
    fix j assume "j \<in> set (map root ts)"
    then obtain t where "t \<in> set ts" "j = root t" by auto
    then have "j \<in> set (ids (SNode i ts))" using root_in_ids [of t] by (force simp del: root_in_ids)
    then show "ctxs s' j = ctxs s j" by (rule "1.prems")
  qed
  moreover have "wired s' t = wired s t" if "t \<in> set ts" for t
    using "1.IH" [OF that] "1.prems" that by auto
  ultimately show ?case
    using "1.prems" [of i] by (simp add: wired.simps split: option.split)
qed

section \<open>The descent over a tree\<close>

lemma ctx_tree_ctx: "ctx_tree s t \<Longrightarrow> \<exists>cx. ctxs s (root t) = Some cx"
  by (cases t) (auto simp: ctx_tree.simps)

lemma ctx_shape_simps [simp]:
  "ctx_shape (k\<lparr>input_tape := x\<rparr>) = ctx_shape k" "ctx_shape (k\<lparr>output_tape := x\<rparr>) = ctx_shape k"
  by (simp_all add: ctx_shape_def)

text \<open>The loop over the children, given the law for each child.\<close>

lemma connect_children_law:
  assumes "\<And>t s n. t \<in> set ts \<Longrightarrow> ctx_tree s t \<Longrightarrow> tree_fuel t \<le> n \<Longrightarrow>
      \<exists>s'. connect_tapes n (Some (root t)) s = Inr s' \<and> connected s s' [t]"
    and "cell_path (cells s) p as None" "children s as = map root ts" "\<forall>a\<in>set as. cells s a \<noteq> None"
    and "\<forall>t\<in>set ts. ctx_tree s t" "distinct (concat (map ids ts))"
    and "Suc (sum_list (map (\<lambda>t. Suc (tree_fuel t)) ts)) \<le> n"
  shows "\<exists>s'. connect_children n p s = Inr s' \<and> connected s s' ts"
  using assms
proof (induction ts arbitrary: s p as n)
  case Nil
  then obtain m where "n = Suc m" by (cases n) auto
  with Nil show ?case by (auto simp: children_def connected_def)
next
  case (Cons t ts)
  obtain m where n: "n = Suc m" using Cons.prems(7) by (cases n) auto
  obtain a as' where as: "as = a # as'" using Cons.prems(3) by (cases as) (auto simp: children_def)
  obtain k where k: "p = Some a" "cells s a = Some k" "cell_path (cells s) (cell_next k) as' None"
    "cell_context k = root t"
    using Cons.prems(2,3) as by (auto simp: children_def)
  have "ctx_tree s t" "tree_fuel t \<le> m" using Cons.prems(5,7) n by auto
  then obtain s1 where s1: "connect_tapes m (Some (root t)) s = Inr s1" "connected s s1 [t]"
    using Cons.prems(1) [of t s m] by auto
  have sh: "same_shape s s1" and cs: "cells s1 = cells s"
    using s1(2) by (auto simp: connected_def same_shape_def)
  have "\<exists>s2. connect_children m (cell_next k) s1 = Inr s2 \<and> connected s1 s2 ts"
  proof (rule Cons.IH)
    show "\<exists>s'. connect_tapes n (Some (root t')) s = Inr s' \<and> connected s s' [t']"
      if "t' \<in> set ts" "ctx_tree s t'" "tree_fuel t' \<le> n" for t' s n
      using Cons.prems(1) [of t' s n] that by simp
    show "cell_path (cells s1) (cell_next k) as' None" using k(3) cs by simp
    show "children s1 as' = map root ts" using Cons.prems(3) as cs by (simp add: children_def)
    show "\<forall>a\<in>set as'. cells s1 a \<noteq> None" using Cons.prems(4) as cs by simp
    show "\<forall>t\<in>set ts. ctx_tree s1 t" using Cons.prems(5) ctx_tree_mono [OF sh] by simp
    show "distinct (concat (map ids ts))" using Cons.prems(6) by simp
    show "Suc (sum_list (map (\<lambda>t. Suc (tree_fuel t)) ts)) \<le> m" using Cons.prems(7) n by simp
  qed
  then obtain s2 where s2: "connect_children m (cell_next k) s1 = Inr s2" "connected s1 s2 ts" by blast
  have "connect_children n p s = Inr s2"
    using n k s1(1) s2(1) cs by simp
  moreover have "connected s s2 (t # ts)"
  proof -
    have apart: "i \<notin> set (concat (map ids ts))" if "i \<in> set (ids t)" for i
      using Cons.prems(6) that by auto
    have frame2: "ctxs s2 i = ctxs s1 i" if "i \<in> set (ids t)" for i
      using s2(2) apart [OF that] unfolding connected_def by blast
    then have w: "wired s2 t"
      using wired_frame [of t s2 s1] s1(2) by (simp add: connected_def)
    have io: "io_tapes s2 (root t) = io_tapes s (root t)"
      using frame2 [of "root t"] s1(2) by (simp add: connected_def io_tapes_def)
    have "root t' \<notin> set (ids t)" if "t' \<in> set ts" for t'
      using apart that by (metis UN_I root_in_ids set_concat set_map image_eqI)
    then have "io_tapes s1 (root t') = io_tapes s (root t')" if "t' \<in> set ts" for t'
      using s1(2) that by (simp add: connected_def io_tapes_def)
    then show ?thesis
      using s1(2) s2(2) w io same_shape_trans [of s s1 s2] by (auto simp: connected_def)
  qed
  ultimately show ?case by blast
qed

text \<open>
  What one stream does before it descends: the contexts it writes are itself and its first and
  last child, and only tape pointers change.
\<close>

lemma descend_law:
  assumes ch: "\<exists>s'. connect_children n p s = Inr s' \<and> connected s s' ts"
    and sh: "same_shape s0 s"
    and fr: "\<And>j. j \<notin> insert i (root ` set ts) \<Longrightarrow> ctxs s j = ctxs s0 j"
    and i: "ctxs s i = Some cx" "i \<notin> set (concat (map ids ts))" "io_tapes s i = io_tapes s0 i"
    and w: "\<And>s'. connected s s' ts \<Longrightarrow> wired_at s' cx (map root ts)"
  shows "\<exists>s'. connect_children n p s = Inr s' \<and> connected s0 s' [SNode i ts]"
proof -
  obtain s' where s': "connect_children n p s = Inr s'" "connected s s' ts" using ch by blast
  have self: "ctxs s' i = ctxs s i" using s'(2) i(2) unfolding connected_def by blast
  have "wired s' (SNode i ts)"
    using self i(1) w [OF s'(2)] s'(2) by (simp add: wired.simps connected_def)
  moreover have "io_tapes s' i = io_tapes s0 i" using self i(3) by (simp add: io_tapes_def)
  moreover have "ctxs s' j = ctxs s0 j" if "j \<notin> set (ids (SNode i ts))" for j
  proof -
    have "j \<notin> set (concat (map ids ts))" using that by simp
    then have "ctxs s' j = ctxs s j" using s'(2) unfolding connected_def by blast
    moreover have "j \<notin> insert i (root ` set ts)" using that root_in_ids by auto
    ultimately show ?thesis using fr by simp
  qed
  moreover have "same_shape s0 s'"
    using sh s'(2) same_shape_trans by (auto simp: connected_def)
  ultimately show ?thesis using s'(1) by (auto simp: connected_def)
qed

lemma put_om_sel [simp]:
  "c_type (put_om sj p cx) = c_type cx" "input_tape (put_om sj p cx) = input_tape cx"
  "output_tape (put_om sj p cx) = output_tape cx"
  "first_child (c_data (put_om sj p cx)) = first_child (c_data cx)"
  "last_child (c_data (put_om sj p cx)) = last_child (c_data cx)"
  "splitter (c_data (put_om SPLITTER p cx)) = p" "joiner (c_data (put_om JOINER p cx)) = p"
  "splitter (c_data (put_om JOINER p cx)) = splitter (c_data cx)"
  "joiner (c_data (put_om SPLITTER p cx)) = joiner (c_data cx)"
  "get_om JOINER cx = joiner (c_data cx)" "get_om SPLITTER cx = splitter (c_data cx)"
  by (cases sj; simp add: put_om_def get_om_def)+

lemma connect_tapes_tree:
  "ctx_tree s t \<Longrightarrow> distinct (ids t) \<Longrightarrow> tree_fuel t \<le> n \<Longrightarrow>
     \<exists>s'. connect_tapes n (Some (root t)) s = Inr s' \<and> connected s s' [t]"
proof (induction t arbitrary: s n)
  case (SNode i ts)
  obtain m where n: "n = Suc m" "Suc (sum_list (map (\<lambda>t. Suc (tree_fuel t)) ts)) \<le> m"
    using SNode.prems(3) by (cases n) auto
  obtain cx where cx: "ctxs s i = Some cx" using SNode.prems(1) by (auto simp: ctx_tree.simps)
  have dis: "distinct (concat (map ids ts))" "i \<notin> set (concat (map ids ts))"
    using SNode.prems(2) by auto
  have dt: "distinct (ids t)" if "t \<in> set ts" for t
    using dis(1) that by (simp add: distinct_concat_iff)
  have trees: "\<forall>t\<in>set ts. ctx_tree s t" using SNode.prems(1) unfolding ctx_tree.simps by blast
  have step: "\<exists>s2. connect_children m (first_child (c_data cx)) s1 = Inr s2 \<and> connected s1 s2 ts"
    if sh: "same_shape s s1" and ty: "c_type cx \<noteq> FILTER" for s1
  proof -
    obtain as where as: "child_list s (c_data cx) as" "\<forall>a\<in>set as. cells s a \<noteq> None"
      "children s as = map root ts"
      using SNode.prems(1) cx ty by (auto simp: ctx_tree.simps)
    have cs: "cells s1 = cells s" using sh by (simp add: same_shape_def)
    show ?thesis
    proof (rule connect_children_law [where as = as])
      show "\<exists>s'. connect_tapes n (Some (root t)) s = Inr s' \<and> connected s s' [t]"
        if "t \<in> set ts" "ctx_tree s t" "tree_fuel t \<le> n" for t s n
        using SNode.IH that dt by blast
      show "cell_path (cells s1) (first_child (c_data cx)) as None"
        using as(1) cs by (simp add: child_list_def)
      show "children s1 as = map root ts" using as(3) same_shape_children [OF sh] by simp
      show "\<forall>a\<in>set as. cells s1 a \<noteq> None" using as(2) cs by simp
      show "\<forall>t\<in>set ts. ctx_tree s1 t" using trees ctx_tree_mono [OF sh] by blast
    qed (use dis n(2) in auto)
  qed
  have desc: "\<exists>s2. connect_children m (first_child (c_data cx)) s1 = Inr s2 \<and> connected s s2 [SNode i ts]"
    if "same_shape s s1" "c_type cx \<noteq> FILTER" "ctxs s1 i = Some cx'"
      "\<And>j. j \<notin> insert i (root ` set ts) \<Longrightarrow> ctxs s1 j = ctxs s j" "io_tapes s1 i = io_tapes s i"
      "\<And>s'. connected s1 s' ts \<Longrightarrow> wired_at s' cx' (map root ts)" for s1 cx'
    using descend_law [OF step [OF that(1,2)] that(1,4,3) dis(2) that(5,6)] by blast
  show ?case
  proof (cases "c_type cx")
    case INVALID_STREAM_TYPE
    then show ?thesis using SNode.prems(1) cx by (simp add: ctx_tree.simps)
  next
    case FILTER
    then show ?thesis
      using SNode.prems(1) cx n(1)
      by (auto simp: ctx_tree.simps connected_def wired.simps wired_at_def)
  next
    case SPLIT_JOIN
    define cx' where "cx' = put_om JOINER ((joiner (c_data cx))\<lparr>one_tape := output_tape cx\<rparr>)
        (put_om SPLITTER ((splitter (c_data cx))\<lparr>one_tape := input_tape cx\<rparr>) cx)"
    define s1 where "s1 = s\<lparr>ctxs := (ctxs s)(i \<mapsto> cx')\<rparr>"
    have "\<exists>s2. connect_children m (first_child (c_data cx)) s1 = Inr s2 \<and> connected s s2 [SNode i ts]"
    proof (rule desc)
      show "same_shape s s1" using cx by (simp add: s1_def same_shape_def ctx_shape_def cx'_def)
      show "ctxs s1 i = Some cx'" by (simp add: s1_def)
      show "io_tapes s1 i = io_tapes s i" using cx by (simp add: io_tapes_def s1_def cx'_def)
      show "wired_at s' cx' (map root ts)" for s'
        using SPLIT_JOIN by (simp add: wired_at_def cx'_def)
    qed (use SPLIT_JOIN in \<open>auto simp: s1_def\<close>)
    moreover have "connect_tapes n (Some i) s = connect_children m (first_child (c_data cx)) s1"
      using n(1) cx SPLIT_JOIN by (simp add: s1_def cx'_def)
    ultimately show ?thesis by simp
  next
    case FEEDBACK_LOOP
    define cx' where "cx' = put_om SPLITTER ((splitter (c_data cx))
          \<lparr>om_tape := (om_tape (splitter (c_data cx)))[0 := output_tape cx]\<rparr>)
        (put_om JOINER ((joiner (c_data cx))\<lparr>om_tape := (om_tape (joiner (c_data cx)))[0 := input_tape cx]\<rparr>) cx)"
    define s1 where "s1 = s\<lparr>ctxs := (ctxs s)(i \<mapsto> cx')\<rparr>"
    have ne: "om_tape (joiner (c_data cx)) \<noteq> []" "om_tape (splitter (c_data cx)) \<noteq> []"
      using SNode.prems(1) cx FEEDBACK_LOOP by (auto simp: ctx_tree.simps)
    have "\<exists>s2. connect_children m (first_child (c_data cx)) s1 = Inr s2 \<and> connected s s2 [SNode i ts]"
    proof (rule desc)
      show "same_shape s s1" using cx by (simp add: s1_def same_shape_def ctx_shape_def cx'_def)
      show "ctxs s1 i = Some cx'" by (simp add: s1_def)
      show "io_tapes s1 i = io_tapes s i" using cx by (simp add: io_tapes_def s1_def cx'_def)
      show "wired_at s' cx' (map root ts)" for s'
        using FEEDBACK_LOOP ne by (simp add: wired_at_def cx'_def index_res_def)
    qed (use FEEDBACK_LOOP in \<open>auto simp: s1_def\<close>)
    moreover have "connect_tapes n (Some i) s = connect_children m (first_child (c_data cx)) s1"
      using n(1) cx FEEDBACK_LOOP ne by (simp add: s1_def cx'_def)
    ultimately show ?thesis by simp
  next
    case PIPELINE
    then obtain as where as: "child_list s (c_data cx) as" "\<forall>a\<in>set as. cells s a \<noteq> None"
      "children s as = map root ts"
      using SNode.prems(1) cx by (auto simp: ctx_tree.simps)
    show ?thesis
    proof (cases "ts = []")
      case True
      then have "as = []" using as(3) by (simp add: children_def)
      then have "first_child (c_data cx) = None" using as(1) by (simp add: child_list_def)
      then have "connect_tapes n (Some i) s = Inr s" using n(1) cx PIPELINE by simp
      then show ?thesis
        using True cx PIPELINE by (auto simp: connected_def wired.simps wired_at_def)
    next
      case False
      define kid where "kid = root (hd ts)"
      define lid where "lid = root (last ts)"
      have mem: "hd ts \<in> set ts" "last ts \<in> set ts" using False by auto
      have nin: "kid \<noteq> i" "lid \<noteq> i" using dis(2) mem root_in_ids by (auto simp: kid_def lid_def)
      obtain kx where kx: "ctxs s kid = Some kx" using trees mem(1) ctx_tree_ctx kid_def by blast
      obtain lx0 where lx0: "ctxs s lid = Some lx0" using trees mem(2) ctx_tree_ctx lid_def by blast
      have ne: "as \<noteq> []" using as(3) False by (auto simp: children_def)
      obtain fk where fk: "first_child (c_data cx) = Some (hd as)" "cells s (hd as) = Some fk"
        "cell_context fk = kid"
        using as ne False by (cases as; cases ts) (auto simp: child_list_def children_def kid_def)
      obtain lk where lk: "last_child (c_data cx) = Some (last as)" "cells s (last as) = Some lk"
        "cell_context lk = lid"
      proof -
        have "\<exists>lk. cells s (last as) = Some lk" using as(2) ne by auto
        moreover have "cell_context (the (cells s (last as))) = lid"
          using arg_cong [OF as(3), of last] ne False by (simp add: children_def last_map lid_def)
        ultimately show ?thesis using that as(1) ne by (auto simp: child_list_def)
      qed
      define sA where "sA = s\<lparr>ctxs := (ctxs s)(kid \<mapsto> kx\<lparr>input_tape := input_tape cx\<rparr>)\<rparr>"
      obtain lx where lx: "ctxs sA lid = Some lx" "ctx_shape lx = ctx_shape lx0"
        using lx0 kx by (cases "lid = kid") (auto simp: sA_def)
      define s1 where "s1 = sA\<lparr>ctxs := (ctxs sA)(lid \<mapsto> lx\<lparr>output_tape := output_tape cx\<rparr>)\<rparr>"
      have iA: "ctxs sA i = Some cx" and i1: "ctxs s1 i = Some cx"
        using cx nin by (simp_all add: sA_def s1_def)
      have "connect_tapes n (Some i) s = connect_children m (first_child (c_data cx)) s1"
        using n(1) cx PIPELINE fk lk kx lx(1) iA i1 by (simp add: sA_def s1_def)
      moreover have "\<exists>s2. connect_children m (first_child (c_data cx)) s1 = Inr s2 \<and> connected s s2 [SNode i ts]"
      proof (rule desc)
        have "same_shape s sA" unfolding sA_def by (rule same_shape_upd [OF kx]) simp
        moreover have "same_shape sA s1" unfolding s1_def by (rule same_shape_upd [OF lx(1)]) simp
        ultimately show "same_shape s s1" by (rule same_shape_trans)
        show "ctxs s1 i = Some cx" by (rule i1)
        show "io_tapes s1 i = io_tapes s i" using cx i1 by (simp add: io_tapes_def)
        show "ctxs s1 j = ctxs s j" if "j \<notin> insert i (root ` set ts)" for j
        proof -
          have "j \<noteq> kid" "j \<noteq> lid" using that mem by (auto simp: kid_def lid_def)
          then show ?thesis by (simp add: s1_def sA_def)
        qed
        show "wired_at s' cx (map root ts)" if "connected s1 s' ts" for s'
        proof -
          have "io_tapes s' kid = io_tapes s1 kid" "io_tapes s' lid = io_tapes s1 lid"
            using that mem by (auto simp: connected_def kid_def lid_def)
          moreover have "map_option input_tape (ctxs s1 kid) = Some (input_tape cx)"
            using lx(1) by (cases "lid = kid") (auto simp: s1_def sA_def)
          moreover have "map_option output_tape (ctxs s1 lid) = Some (output_tape cx)"
            by (simp add: s1_def)
          ultimately have "map_option input_tape (ctxs s' kid) = Some (input_tape cx)"
            "map_option output_tape (ctxs s' lid) = Some (output_tape cx)"
            by (auto simp: io_tapes_def)
          then show ?thesis
            using PIPELINE False
            by (simp add: wired_at_def hd_map last_map kid_def [symmetric] lid_def [symmetric])
        qed
      qed (use PIPELINE in simp)
      ultimately show ?thesis by simp
    qed
  qed
qed

text \<open>C24: connecting the tapes of a stream graph that is a tree of contexts ends within the stated
  number of calls; it changes no cell, no tape object, no context outside the tree and not the
  external tapes of the root, and afterwards every composite stream of the tree is wired: a
  pipeline's first and last child, a split/join's splitter and joiner and a feedback loop's
  slot 0 hold the tapes of the stream they belong to.\<close>

theorem connect_tapes_wires_tree:
  assumes "ctx_tree s t" and "distinct (ids t)" and "tree_fuel t \<le> n"
  shows "\<exists>s'. connect_tapes n (Some (root t)) s = Inr s' \<and> cells s' = cells s \<and> tapes s' = tapes s \<and>
    (\<forall>i. i \<notin> set (ids t) \<longrightarrow> ctxs s' i = ctxs s i) \<and>
    io_tapes s' (root t) = io_tapes s (root t) \<and> wired s' t"
proof -
  obtain s' where "connect_tapes n (Some (root t)) s = Inr s'" "connected s s' [t]"
    using connect_tapes_tree [OF assms] by blast
  then show ?thesis by (auto simp: connected_def same_shape_def)
qed

text \<open>A pipeline of two filters inside a pipeline, the outer one with tapes 7 and 8.\<close>

definition sample_om :: one_to_many where
  "sample_om = \<lparr>om_type = NULL_SJ, fan = 1, ratio = None, slots = 0, one_tape = None,
     om_tape = [None], tcache = None\<rparr>"

definition sample_ctx :: "stream_type \<Rightarrow> nat option \<Rightarrow> nat option \<Rightarrow> tape_ptr \<Rightarrow> tape_ptr \<Rightarrow> stream_context" where
  "sample_ctx ty f l i x = \<lparr>stream_data = 0, c_type = ty, peek_size = 1, pop_size = 1, push_size = 1,
     work_function = None, c_parent = None, input_tape = i, output_tape = x,
     c_data = \<lparr>first_child = f, last_child = l, splitter = sample_om, joiner = sample_om\<rparr>\<rparr>"

definition sample_graph :: lib_store where
  "sample_graph = \<lparr>ctxs = [0 \<mapsto> sample_ctx PIPELINE (Some 10) (Some 10) (Some 7) (Some 8),
       1 \<mapsto> sample_ctx PIPELINE (Some 11) (Some 12) None None,
       2 \<mapsto> sample_ctx FILTER None None None (Some 9), 3 \<mapsto> sample_ctx FILTER None None (Some 9) None],
     tapes = (\<lambda>_. None),
     cells = [10 \<mapsto> \<lparr>cell_context = 1, cell_next = None\<rparr>, 11 \<mapsto> \<lparr>cell_context = 2, cell_next = Some 12\<rparr>,
       12 \<mapsto> \<lparr>cell_context = 3, cell_next = None\<rparr>], next_id = 20\<rparr>"

definition sample_tree :: stree where
  "sample_tree = SNode 0 [SNode 1 [SNode 2 [], SNode 3 []]]"

lemma sample_graph_tree: "ctx_tree sample_graph sample_tree"
proof -
  have "ctx_tree sample_graph (SNode 1 [SNode 2 [], SNode 3 []])"
    by (simp add: ctx_tree.simps sample_graph_def sample_ctx_def)
      (intro exI [of _ "[11, 12]"], simp add: child_list_def children_def)
  then show ?thesis
    unfolding sample_tree_def ctx_tree.simps [of _ 0]
    by (simp add: sample_graph_def sample_ctx_def)
      (intro exI [of _ "[10]"], simp add: child_list_def children_def)
qed

lemma connect_tapes_wires_tree_witness:
  "\<exists>s'. connect_tapes 20 (Some 0) sample_graph = Inr s' \<and> cells s' = cells sample_graph \<and>
    tapes s' = tapes sample_graph \<and>
    (\<forall>i. i \<notin> set (ids sample_tree) \<longrightarrow> ctxs s' i = ctxs sample_graph i) \<and>
    io_tapes s' 0 = io_tapes sample_graph 0 \<and> wired s' sample_tree"
  using connect_tapes_wires_tree [OF sample_graph_tree, of 20] by (simp add: sample_tree_def)

end
