(* ===== verification/Message.thy ===== *)
theory Message
  imports Stream_Connect
begin

text \<open>
  Messages between streams (\<open>library/c/streamit_message.c\<close>): portals with their receivers, the
  queue of sent messages and its dispatch between steady-state executions.  The heap blocks of
  message parameters are kept as the set of live ones, because \<open>dispatch_messages\<close> frees them.
  Handlers are code of the application and so an argument of the model: a handler may change the
  whole world, send messages included.
\<close>

section \<open>Portals and the queue\<close>

record queued_message =
  qm_context :: nat
  qm_fn :: nat
  qm_params :: "nat option"

record portal_receiver =
  rc_context :: nat
  rc_vtbl :: "nat list"

text \<open>The queue is the list from \<open>msg_queue\<close> on; a portal is the list of its receivers.\<close>

record 'u lib_world =
  lib :: lib_store
  user :: 'u
  msg_queue :: "queued_message list"
  live_params :: "nat set"

type_synonym portal = "portal_receiver list"
type_synonym 'u handlers = "nat \<Rightarrow> nat \<Rightarrow> nat option \<Rightarrow> 'u lib_world \<Rightarrow> 'u lib_world res"

definition create_portal :: portal where
  "create_portal = []"

definition register_receiver :: "portal \<Rightarrow> nat \<Rightarrow> nat list \<Rightarrow> portal" where
  "register_receiver p receiver vtbl = \<lparr>rc_context = receiver, rc_vtbl = vtbl\<rparr> # p"

fun send_message :: "portal \<Rightarrow> nat \<Rightarrow> nat option \<Rightarrow> 'u lib_world \<Rightarrow> 'u lib_world res" where
  "send_message [] msgid params w = Inr w"
| "send_message (r # rs) msgid params w = rbind (index_res (rc_vtbl r) msgid) (\<lambda>f.
     send_message rs msgid params
       (w\<lparr>msg_queue := \<lparr>qm_context = rc_context r, qm_fn = f, qm_params = params\<rparr> # msg_queue w\<rparr>))"

text \<open>\<open>free\<close> of a null pointer does nothing; of a block that is not live it is undefined.\<close>

definition free_params :: "nat option \<Rightarrow> 'u lib_world \<Rightarrow> 'u lib_world res" where
  "free_params p w = (case p of None \<Rightarrow> Inr w
     | Some a \<Rightarrow> ensure DoubleFree (a \<in> live_params w) (Inr (w\<lparr>live_params := live_params w - {a}\<rparr>)))"

text \<open>
  The loop of \<open>dispatch_messages\<close> ends an iteration by setting \<open>msg_queue\<close> to the successor that
  the dispatched message had when it was queued, so it runs down that list.
\<close>

fun dispatch_from :: "'u handlers \<Rightarrow> queued_message list \<Rightarrow> 'u lib_world \<Rightarrow> 'u lib_world res" where
  "dispatch_from fns [] w = Inr w"
| "dispatch_from fns (q # rest) w =
     rbind (ctx_at (Some (qm_context q)) (lib w)) (\<lambda>cx.
     rbind (fns (qm_fn q) (stream_data cx) (qm_params q) w) (\<lambda>w.
     rbind (free_params (qm_params q) (w\<lparr>msg_queue := rest\<rparr>)) (dispatch_from fns rest)))"

definition dispatch_messages :: "'u handlers \<Rightarrow> 'u lib_world \<Rightarrow> 'u lib_world res" where
  "dispatch_messages fns w = dispatch_from fns (msg_queue w) w"

section \<open>What sending queues\<close>

definition messages_to :: "portal \<Rightarrow> nat \<Rightarrow> nat option \<Rightarrow> queued_message list" where
  "messages_to p msgid params =
     rev (map (\<lambda>r. \<lparr>qm_context = rc_context r, qm_fn = rc_vtbl r ! msgid, qm_params = params\<rparr>) p)"

definition register_all :: "(nat \<times> nat list) list \<Rightarrow> portal" where
  "register_all rs = foldl (\<lambda>p (c, v). register_receiver p c v) create_portal rs"

lemma register_all_eq: "register_all rs = rev (map (\<lambda>(c, v). \<lparr>rc_context = c, rc_vtbl = v\<rparr>) rs)"
proof (induction rs rule: rev_induct)
  case Nil
  then show ?case by (simp add: register_all_def create_portal_def)
next
  case (snoc x rs)
  then show ?case by (simp add: register_all_def register_receiver_def split: prod.split)
qed

lemma send_message_queue:
  "\<forall>r\<in>set p. msgid < length (rc_vtbl r) \<Longrightarrow>
     send_message p msgid params w = Inr (w\<lparr>msg_queue := messages_to p msgid params @ msg_queue w\<rparr>)"
proof (induction p arbitrary: w)
  case Nil
  then show ?case by (simp add: messages_to_def)
next
  case (Cons r p)
  then show ?case by (simp add: messages_to_def)
qed

section \<open>What dispatching does\<close>

text \<open>
  A handler that updates its own data by \<open>h\<close> and sends the messages \<open>ms\<close>, which its
  \<open>send_message\<close> calls put at the front of the queue.
\<close>

definition sending_handlers :: "(nat \<Rightarrow> nat \<Rightarrow> nat option \<Rightarrow> 'u \<Rightarrow> 'u)
    \<Rightarrow> (nat \<Rightarrow> nat \<Rightarrow> nat option \<Rightarrow> 'u \<Rightarrow> queued_message list) \<Rightarrow> 'u handlers" where
  "sending_handlers h ms = (\<lambda>f d p w.
     Inr (w\<lparr>user := h f d p (user w), msg_queue := ms f d p (user w) @ msg_queue w\<rparr>))"

definition data_of :: "lib_store \<Rightarrow> nat \<Rightarrow> nat" where
  "data_of s c = (case ctxs s c of None \<Rightarrow> 0 | Some cx \<Rightarrow> stream_data cx)"

definition deliver :: "(nat \<Rightarrow> nat \<Rightarrow> nat option \<Rightarrow> 'u \<Rightarrow> 'u) \<Rightarrow> lib_store \<Rightarrow> queued_message list \<Rightarrow> 'u \<Rightarrow> 'u" where
  "deliver h s qs u = fold (\<lambda>q. h (qm_fn q) (data_of s (qm_context q)) (qm_params q)) qs u"

definition queue_params :: "queued_message list \<Rightarrow> nat list" where
  "queue_params qs = concat (map (\<lambda>q. case qm_params q of None \<Rightarrow> [] | Some a \<Rightarrow> [a]) qs)"

lemma dispatch_from_law:
  assumes "\<forall>q\<in>set qs. ctxs (lib w) (qm_context q) \<noteq> None"
    "distinct (queue_params qs)" "set (queue_params qs) \<subseteq> live_params w"
  shows "\<exists>w'. dispatch_from (sending_handlers h ms) qs w = Inr w' \<and> lib w' = lib w \<and>
    user w' = deliver h (lib w) qs (user w) \<and> (qs \<noteq> [] \<longrightarrow> msg_queue w' = []) \<and>
    (qs = [] \<longrightarrow> w' = w) \<and> live_params w' = live_params w - set (queue_params qs)"
  using assms
proof (induction qs arbitrary: w)
  case Nil
  then show ?case by (simp add: queue_params_def deliver_def)
next
  case (Cons q qs)
  obtain cx where cx: "ctxs (lib w) (qm_context q) = Some cx" using Cons.prems(1) by auto
  define w2 where "w2 = w\<lparr>user := h (qm_fn q) (stream_data cx) (qm_params q) (user w), msg_queue := qs,
      live_params := live_params w - set_option (qm_params q)\<rparr>"
  have fr: "free_params (qm_params q)
      (w\<lparr>user := h (qm_fn q) (stream_data cx) (qm_params q) (user w), msg_queue := qs\<rparr>) = Inr w2"
    using Cons.prems(3)
    by (cases "qm_params q") (auto simp: free_params_def w2_def queue_params_def)
  have step: "dispatch_from (sending_handlers h ms) (q # qs) w = dispatch_from (sending_handlers h ms) qs w2"
    using cx fr by (simp add: sending_handlers_def)
  have "\<exists>w'. dispatch_from (sending_handlers h ms) qs w2 = Inr w' \<and> lib w' = lib w2 \<and>
      user w' = deliver h (lib w2) qs (user w2) \<and> (qs \<noteq> [] \<longrightarrow> msg_queue w' = []) \<and>
      (qs = [] \<longrightarrow> w' = w2) \<and> live_params w' = live_params w2 - set (queue_params qs)"
    using Cons.prems
    by (intro Cons.IH) (auto simp: w2_def queue_params_def split: option.splits)
  then show ?case
    unfolding step using cx
    by (cases "qs = []") (auto simp: w2_def queue_params_def deliver_def data_of_def split: option.splits)
qed

text \<open>C27: dispatching runs the handler of every message that was in the queue when it started, once
  and in queue order, frees each parameter block and leaves the queue empty: the messages the
  handlers send while it runs, whatever they are, are dropped.\<close>

theorem dispatch_runs_queued_only:
  assumes "\<forall>q\<in>set (msg_queue w). ctxs (lib w) (qm_context q) \<noteq> None"
    "distinct (queue_params (msg_queue w))" "set (queue_params (msg_queue w)) \<subseteq> live_params w"
  shows "\<exists>w'. dispatch_messages (sending_handlers h ms) w = Inr w' \<and> msg_queue w' = [] \<and>
    user w' = deliver h (lib w) (msg_queue w) (user w) \<and>
    live_params w' = live_params w - set (queue_params (msg_queue w))"
proof -
  obtain w' where "dispatch_from (sending_handlers h ms) (msg_queue w) w = Inr w'"
    "user w' = deliver h (lib w) (msg_queue w) (user w)" "msg_queue w \<noteq> [] \<longrightarrow> msg_queue w' = []"
    "msg_queue w = [] \<longrightarrow> w' = w" "live_params w' = live_params w - set (queue_params (msg_queue w))"
    using dispatch_from_law [OF assms] by blast
  then show ?thesis by (cases "msg_queue w = []") (auto simp: dispatch_messages_def)
qed

text \<open>C28: a message without parameters sent through a portal is handled, at the next dispatch, once
  by every receiver, in the order in which the receivers were registered.\<close>

theorem send_then_dispatch_delivers:
  assumes "msg_queue w = []" "\<forall>(c, v)\<in>set rs. ctxs (lib w) c \<noteq> None \<and> msgid < length v"
  shows "\<exists>w'. rbind (send_message (register_all rs) msgid None w) (dispatch_messages (sending_handlers h ms)) = Inr w' \<and>
    msg_queue w' = [] \<and>
    user w' = fold (\<lambda>(c, v). h (v ! msgid) (data_of (lib w) c) None) rs (user w)"
proof -
  define w1 where "w1 = w\<lparr>msg_queue := messages_to (register_all rs) msgid None\<rparr>"
  have s: "send_message (register_all rs) msgid None w = Inr w1"
    using send_message_queue [of "register_all rs" msgid None w] assms
    by (auto simp: register_all_eq w1_def case_prod_unfold)
  have qs: "msg_queue w1 = map (\<lambda>(c, v). \<lparr>qm_context = c, qm_fn = v ! msgid, qm_params = None\<rparr>) rs"
    by (simp add: w1_def messages_to_def register_all_eq rev_map case_prod_unfold)
  have none: "queue_params (msg_queue w1) = []"
    unfolding qs by (auto simp: queue_params_def)
  have "\<forall>q\<in>set (msg_queue w1). ctxs (lib w1) (qm_context q) \<noteq> None"
    unfolding qs using assms(2) by (auto simp: w1_def)
  then obtain w' where "dispatch_from (sending_handlers h ms) (msg_queue w1) w1 = Inr w'"
    "user w' = deliver h (lib w1) (msg_queue w1) (user w1)" "msg_queue w1 \<noteq> [] \<longrightarrow> msg_queue w' = []"
    "msg_queue w1 = [] \<longrightarrow> w' = w1"
    using dispatch_from_law [of "msg_queue w1" w1 h ms] none by auto
  moreover have "deliver h (lib w1) (msg_queue w1) (user w1)
      = fold (\<lambda>(c, v). h (v ! msgid) (data_of (lib w) c) None) rs (user w)"
    unfolding qs deliver_def fold_map by (intro fold_cong) (auto simp: w1_def)
  ultimately show ?thesis using s by (cases "msg_queue w1 = []") (auto simp: dispatch_messages_def)
qed

text \<open>C29: one parameter block sent through a portal with two receivers is freed twice: the dispatch
  that follows runs into the second \<open>free\<close>.\<close>

theorem shared_params_double_free:
  assumes "msg_queue w = []" "rs = [(c1, v1), (c2, v2)]"
    "\<forall>(c, v)\<in>set rs. ctxs (lib w) c \<noteq> None \<and> msgid < length v" "a \<in> live_params w"
  shows "rbind (send_message (register_all rs) msgid (Some a) w) (dispatch_messages (sending_handlers h ms))
    = Inl DoubleFree"
  using assms
  by (auto simp: register_all_def register_receiver_def create_portal_def dispatch_messages_def
      sending_handlers_def free_params_def)

section \<open>An instance\<close>

definition sample_world :: "(nat list) lib_world" where
  "sample_world = \<lparr>lib = sample_graph, user = [], msg_queue = [], live_params = {5}\<rparr>"

definition log_call :: "nat \<Rightarrow> nat \<Rightarrow> nat option \<Rightarrow> nat list \<Rightarrow> nat list" where
  "log_call f d p u = u @ [f]"

definition echo_message :: "nat \<Rightarrow> nat \<Rightarrow> nat option \<Rightarrow> nat list \<Rightarrow> queued_message list" where
  "echo_message f d p u = [\<lparr>qm_context = 2, qm_fn = f, qm_params = None\<rparr>]"

lemma dispatch_runs_queued_only_witness:
  "\<exists>w'. dispatch_messages (sending_handlers log_call echo_message)
      (sample_world\<lparr>msg_queue := [\<lparr>qm_context = 2, qm_fn = 31, qm_params = Some 5\<rparr>,
         \<lparr>qm_context = 3, qm_fn = 32, qm_params = None\<rparr>]\<rparr>) = Inr w' \<and>
    msg_queue w' = [] \<and> user w' = [31, 32] \<and> live_params w' = {}"
  using dispatch_runs_queued_only [of "sample_world\<lparr>msg_queue := [\<lparr>qm_context = 2, qm_fn = 31, qm_params = Some 5\<rparr>,
         \<lparr>qm_context = 3, qm_fn = 32, qm_params = None\<rparr>]\<rparr>" log_call echo_message]
  by (auto simp: sample_world_def sample_graph_def queue_params_def deliver_def log_call_def)

lemma send_then_dispatch_delivers_witness:
  "\<exists>w'. rbind (send_message (register_all [(2, [30, 31]), (3, [40, 41])]) 1 None sample_world)
      (dispatch_messages (sending_handlers log_call echo_message)) = Inr w' \<and>
    msg_queue w' = [] \<and> user w' = [31, 41]"
  using send_then_dispatch_delivers [of sample_world "[(2, [30, 31]), (3, [40, 41])]" 1 log_call echo_message]
  by (auto simp: sample_world_def sample_graph_def log_call_def)

lemma shared_params_double_free_witness:
  "rbind (send_message (register_all [(2, [30, 31]), (3, [40, 41])]) 1 (Some 5) sample_world)
      (dispatch_messages (sending_handlers log_call echo_message)) = Inl DoubleFree"
  using shared_params_double_free [of sample_world "[(2, [30, 31]), (3, [40, 41])]"]
  by (simp add: sample_world_def sample_graph_def)

end
