(* ===== verification/Run.thy ===== *)
theory Run
  imports Message
begin

text \<open>
  The main loop of the C library (\<open>streamit_run\<close> of \<open>library/c/streamit_run.c\<close>): options,
  connecting the tapes, one work function call and one dispatch per iteration, the iteration
  counts, the way out through a signal, and the elapsed time it reports.  The work functions are
  code of the application, and an argument of the model.
\<close>

section \<open>Options\<close>

text \<open>
  What the successive calls of \<open>getopt\<close> return before \<open>-1\<close>; an \<open>OptI\<close> carries the \<open>int\<close> that
  \<open>atoi(optarg)\<close> returned.
\<close>

datatype run_option = OptI u32 | OptT | OptUnknown

fun parse_options :: "run_option list \<Rightarrow> int \<times> bool \<Rightarrow> (int \<times> bool) option" where
  "parse_options [] st = Some st"
| "parse_options (OptI n # os) (niters, do_time) = parse_options os (sint n, do_time)"
| "parse_options (OptT # os) (niters, do_time) = parse_options os (niters, True)"
| "parse_options (OptUnknown # os) st = None"

section \<open>The loop\<close>

type_synonym 'u works = "nat \<Rightarrow> nat \<Rightarrow> 'u lib_world \<Rightarrow> 'u lib_world res"

definition run_iteration :: "'u works \<Rightarrow> 'u handlers \<Rightarrow> nat option \<Rightarrow> 'u lib_world \<Rightarrow> 'u lib_world res" where
  "run_iteration works fns c w =
     rbind (ctx_at c (lib w)) (\<lambda>cx. rbind (deref (work_function cx)) (\<lambda>f.
     rbind (works f (stream_data cx) w) (dispatch_messages fns)))"

text \<open>
  \<open>sig k\<close> is the world at the moment a signal is handled during iteration \<open>k\<close>, counted from 0, if
  one is: the handler jumps out of the loop.  \<open>iters_run\<close> is a C \<open>int\<close>: an increment beyond
  \<open>2 ^ 31 - 1\<close> is undefined, and the fault \<open>SignedOverflow\<close>.
\<close>

partial_function (option) main_loop ::
    "('u lib_world \<Rightarrow> 'u lib_world res) \<Rightarrow> (nat \<Rightarrow> 'u lib_world option) \<Rightarrow> int \<Rightarrow> nat \<Rightarrow> int \<Rightarrow> 'u lib_world
      \<Rightarrow> (int \<times> 'u lib_world) res option" where
  "main_loop step sig niters k iters_run w =
     (if niters = 0 then Some (Inr (iters_run, w))
      else case sig k of Some w' \<Rightarrow> Some (Inr (iters_run, w'))
      | None \<Rightarrow> (case step w of Inl e \<Rightarrow> Some (Inl e)
        | Inr w' \<Rightarrow>
            if iters_run = 2147483647 then Some (Inl SignedOverflow)
            else main_loop step sig (if 0 < niters then niters - 1 else niters) (Suc k) (iters_run + 1) w'))"

text \<open>\<open>fuel\<close> bounds the recursion of \<open>connect_tapes\<close>; the result \<open>None\<close> is a run that never returns.\<close>

definition streamit_run :: "nat \<Rightarrow> 'u works \<Rightarrow> 'u handlers \<Rightarrow> (nat \<Rightarrow> 'u lib_world option) \<Rightarrow> run_option list
    \<Rightarrow> nat option \<Rightarrow> 'u lib_world \<Rightarrow> (int \<times> 'u lib_world) res option" where
  "streamit_run fuel works fns sig opts c w =
     (case parse_options opts (-1, False) of
        None \<Rightarrow> Some (Inr (0, w))
      | Some (niters, do_time) \<Rightarrow>
          (case connect_tapes fuel c (lib w) of
             Inl e \<Rightarrow> Some (Inl e)
           | Inr s \<Rightarrow> main_loop (run_iteration works fns c) sig niters 0 0 (w\<lparr>lib := s\<rparr>)))"

text \<open>The elapsed time: seconds and microseconds, with a borrow.\<close>

definition time_diff :: "int \<times> int \<Rightarrow> int \<times> int \<Rightarrow> int \<times> int" where
  "time_diff start now =
     (let sec = fst now - fst start; usec = snd now - snd start
      in if usec < 0 then (sec - 1, usec + 1000000) else (sec, usec))"

section \<open>How a run ends\<close>

fun run_steps :: "('w \<Rightarrow> 'w res) \<Rightarrow> nat \<Rightarrow> 'w \<Rightarrow> 'w res" where
  "run_steps step 0 w = Inr w"
| "run_steps step (Suc n) w = rbind (step w) (run_steps step n)"

lemma parse_options_int:
  "parse_options os (n, b) = Some (m, tm) \<Longrightarrow> n < 2147483648 \<Longrightarrow> m < 2147483648"
proof (induction os "(n, b)" arbitrary: n b rule: parse_options.induct)
  case (2 x os niters do_time)
  have "sint x < 2147483648" using sint_lt [of x] by simp
  then show ?case using 2 by simp
qed auto

lemma main_loop_counted:
  assumes "run_steps step n w = Inr w'" "\<forall>i<n. sig (k + i) = None" "r + int n < 2147483648"
  shows "main_loop step sig (int n) k r w = Some (Inr (r + int n, w'))"
  using assms
proof (induction n arbitrary: w k r)
  case 0
  then show ?case by (subst main_loop.simps) simp
next
  case (Suc n)
  obtain v where v: "step w = Inr v" "run_steps step n v = Inr w'" using Suc.prems(1) by (auto simp: res_simps)
  have "sig k = None" using Suc.prems(2) by (metis add_0_right zero_less_Suc)
  then have "main_loop step sig (int (Suc n)) k r w = main_loop step sig (int n) (Suc k) (r + 1) v"
    using v(1) Suc.prems(3) by (subst main_loop.simps) simp
  also have "\<dots> = Some (Inr (r + 1 + int n, w'))"
    using Suc.IH [OF v(2), of "Suc k" "r + 1"] Suc.prems(2,3) by (metis Suc_less_eq add_Suc_shift add.assoc of_nat_Suc)
  finally show ?case by (simp add: add.assoc)
qed

lemma main_loop_signal:
  assumes "run_steps step n w = Inr w'" "\<forall>i<n. sig (k + i) = None" "sig (k + n) = Some v"
    "niters < 0" "r + int n < 2147483648"
  shows "main_loop step sig niters k r w = Some (Inr (r + int n, v))"
  using assms
proof (induction n arbitrary: w k r)
  case 0
  then show ?case by (subst main_loop.simps) auto
next
  case (Suc n)
  obtain u where u: "step w = Inr u" "run_steps step n u = Inr w'" using Suc.prems(1) by (auto simp: res_simps)
  have "sig k = None" using Suc.prems(2) by (metis add_0_right zero_less_Suc)
  then have "main_loop step sig niters k r w = main_loop step sig niters (Suc k) (r + 1) u"
    using u(1) Suc.prems(4,5) by (subst main_loop.simps) auto
  also have "\<dots> = Some (Inr (r + 1 + int n, v))"
  proof (rule Suc.IH [OF u(2)])
    show "\<forall>i<n. sig (Suc k + i) = None" using Suc.prems(2) by (metis Suc_less_eq add_Suc_shift)
  qed (use Suc.prems in simp_all)
  finally show ?case by (simp add: add.assoc)
qed

lemma main_loop_overflow:
  assumes "run_steps step (Suc n) w = Inr w'" "\<forall>i\<le>n. sig (k + i) = None" "niters < 0" "r + int n = 2147483647"
  shows "main_loop step sig niters k r w = Some (Inl SignedOverflow)"
  using assms
proof (induction n arbitrary: w k r)
  case 0
  then show ?case by (subst main_loop.simps) (auto simp: res_simps)
next
  case (Suc n)
  obtain u where u: "step w = Inr u" "run_steps step (Suc n) u = Inr w'" using Suc.prems(1) by (auto simp: res_simps)
  have "sig k = None" using Suc.prems(2) by (metis add_0_right zero_le)
  then have "main_loop step sig niters k r w = main_loop step sig niters (Suc k) (r + 1) u"
    using u(1) Suc.prems(3,4) by (subst main_loop.simps) auto
  also have "\<dots> = Some (Inl SignedOverflow)"
  proof (rule Suc.IH [OF u(2)])
    show "\<forall>i\<le>n. sig (Suc k + i) = None" using Suc.prems(2) by (metis Suc_le_mono add_Suc_shift)
  qed (use Suc.prems in simp_all)
  finally show ?case .
qed

lemma run_steps_kept:
  "\<lbrakk>\<forall>w. Q w \<longrightarrow> (\<exists>w'. step w = Inr w' \<and> Q w'); Q w\<rbrakk> \<Longrightarrow> \<exists>u. run_steps step n w = Inr u"
  by (induction n arbitrary: w) fastforce+

text \<open>C30: with \<open>-i n\<close> the library runs the work function and the dispatch exactly \<open>n\<close> times, over
  the stream graph that \<open>connect_tapes\<close> leaves, and returns with that count.\<close>

theorem run_counted_iterations:
  assumes "parse_options opts (-1, False) = Some (int n, tm)" "connect_tapes fuel c (lib w) = Inr s"
    "run_steps (run_iteration works fns c) n (w\<lparr>lib := s\<rparr>) = Inr w'" "\<forall>i<n. sig i = None"
  shows "streamit_run fuel works fns sig opts c w = Some (Inr (int n, w'))"
  using assms main_loop_counted [of "run_iteration works fns c" n "w\<lparr>lib := s\<rparr>" w' sig 0 0]
    parse_options_int [OF assms(1)]
  by (simp add: streamit_run_def)

text \<open>C31: with a negative count, which is the default, and iterations that never fault (some
  property \<open>Q\<close> of the world keeps them going), a signal in iteration \<open>n\<close>, counted from 0 and below
  \<open>2 ^ 31\<close>, ends the run with the count \<open>n\<close>, in the world of the signal; and a run that no signal
  interrupts in its first \<open>2 ^ 31\<close> iterations increments \<open>iters_run\<close> past the largest \<open>int\<close>, which
  is undefined in C.\<close>

theorem run_default_until_signal:
  assumes "parse_options opts (-1, False) = Some (niters, tm)" "niters < 0" "connect_tapes fuel c (lib w) = Inr s"
    "\<forall>w. Q w \<longrightarrow> (\<exists>w'. run_iteration works fns c w = Inr w' \<and> Q w')" "Q (w\<lparr>lib := s\<rparr>)"
  shows "(n < 2147483648 \<and> (\<forall>i<n. sig i = None) \<and> sig n = Some v \<longrightarrow>
      streamit_run fuel works fns sig opts c w = Some (Inr (int n, v))) \<and>
    ((\<forall>i<2147483648. sig i = None) \<longrightarrow>
      streamit_run fuel works fns sig opts c w = Some (Inl SignedOverflow))"
proof -
  let ?step = "run_iteration works fns c" and ?w = "w\<lparr>lib := s\<rparr>"
  obtain u where u: "run_steps ?step n ?w = Inr u" using run_steps_kept [OF assms(4,5)] by blast
  obtain x where x: "run_steps ?step (Suc 2147483647) ?w = Inr x" using run_steps_kept [OF assms(4,5)] by blast
  have "n < 2147483648 \<and> (\<forall>i<n. sig i = None) \<and> sig n = Some v \<longrightarrow>
      main_loop ?step sig niters 0 0 ?w = Some (Inr (int n, v))"
    using main_loop_signal [OF u, of sig 0 v niters 0] assms(2) by simp
  moreover have "(\<forall>i<2147483648. sig i = None) \<longrightarrow> main_loop ?step sig niters 0 0 ?w = Some (Inl SignedOverflow)"
    using main_loop_overflow [OF x, of sig 0 niters 0] assms(2) by simp
  ultimately show ?thesis using assms(1,3) by (simp add: streamit_run_def)
qed

lemma time_diff_law:
  assumes "0 \<le> snd start" "snd start < 1000000" "0 \<le> snd now" "snd now < 1000000" "time_diff start now = (sec, usec)"
  shows "0 \<le> usec" "usec < 1000000"
    "sec * 1000000 + usec = (fst now * 1000000 + snd now) - (fst start * 1000000 + snd start)"
  using assms by (auto simp: time_diff_def Let_def split: if_splits)

section \<open>An instance\<close>

definition work_ctx :: lib_store where
  "work_ctx = \<lparr>ctxs = [0 \<mapsto> (sample_ctx FILTER None None None None)\<lparr>work_function := Some 4\<rparr>],
     tapes = (\<lambda>_. None), cells = (\<lambda>_. None), next_id = 1\<rparr>"

definition work_world :: "(nat list) lib_world" where
  "work_world = \<lparr>lib = work_ctx, user = [], msg_queue = [], live_params = {}\<rparr>"

definition log_work :: "(nat list) works" where
  "log_work f d w = Inr (w\<lparr>user := user w @ [f], msg_queue := [], lib := work_ctx\<rparr>)"

lemma log_work_step:
  "lib w = work_ctx \<Longrightarrow> run_iteration log_work fns (Some 0) w
     = Inr (w\<lparr>user := user w @ [4], msg_queue := [], lib := work_ctx\<rparr>)"
  by (simp add: run_iteration_def log_work_def dispatch_messages_def)
    (simp add: work_ctx_def sample_ctx_def)

lemma run_counted_iterations_witness:
  "streamit_run 1 log_work (sending_handlers log_call echo_message) (\<lambda>_. None) [OptT, OptI 2] (Some 0) work_world
     = Some (Inr (2, work_world\<lparr>user := [4, 4]\<rparr>))"
proof -
  have lib: "lib work_world = work_ctx" by (simp add: work_world_def)
  have "connect_tapes 1 (Some 0) (lib work_world) = Inr work_ctx"
    by (simp add: lib) (simp add: work_ctx_def sample_ctx_def)
  moreover have "run_steps (run_iteration log_work (sending_handlers log_call echo_message) (Some 0)) 2 (work_world\<lparr>lib := work_ctx\<rparr>)
      = Inr (work_world\<lparr>user := [4, 4]\<rparr>)"
    by (simp add: numeral_2_eq_2 log_work_step) (simp add: work_world_def)
  ultimately show ?thesis
    using run_counted_iterations [of "[OptT, OptI 2]" 2 True 1 "Some 0" work_world work_ctx log_work "sending_handlers log_call echo_message"]
    by simp
qed

lemma run_default_until_signal_witness:
  "streamit_run 1 log_work (sending_handlers log_call echo_message) [7 \<mapsto> work_world] [OptT] (Some 0) work_world = Some (Inr (7, work_world)) \<and>
    streamit_run 1 log_work (sending_handlers log_call echo_message) (\<lambda>_. None) [OptT] (Some 0) work_world = Some (Inl SignedOverflow)"
proof -
  have lib: "lib work_world = work_ctx" by (simp add: work_world_def)
  have conn: "connect_tapes 1 (Some 0) (lib work_world) = Inr work_ctx"
    by (simp add: lib) (simp add: work_ctx_def sample_ctx_def)
  have Q: "\<forall>w. lib w = work_ctx \<longrightarrow> (\<exists>w'. run_iteration log_work (sending_handlers log_call echo_message) (Some 0) w = Inr w' \<and> lib w' = work_ctx)"
    by (simp add: log_work_step)
  note r = run_default_until_signal [of "[OptT]" "-1" True, OF _ _ conn Q, of _ _ work_world]
  show ?thesis using r [of 7 "[7 \<mapsto> work_world]"] r [of 0 "\<lambda>_. None"] by simp
qed

end
