(* ===== verification/SplitJoin.thy ===== *)
theory SplitJoin
  imports Stream_Context
begin

text \<open>
  The splitters and joiners of the C library (\<open>library/c/streamit_splitjoin.c\<close>): the tape cache of
  a weighted joiner, and \<open>run_splitter\<close> and \<open>run_joiner\<close> with the block copies of the weighted
  splitter.  The lemmas show that the block copy is the item-by-item loop, that the tape cache
  lists each tape as often as its weight says, and so that both operations are the rounds of
  \<open>Queue_Store\<close> over tapes.
\<close>

section \<open>The tape cache\<close>

text \<open>The inner \<open>while\<close> of \<open>build_tape_cache\<close>: skip the branches whose weight is used up.\<close>

function skip_branches :: "int list \<Rightarrow> nat \<Rightarrow> int \<Rightarrow> (nat \<times> int) res" where
  "skip_branches rs i j =
     (if i < length rs then (if rs ! i \<le> j then skip_branches rs (Suc i) 0 else Inr (i, j))
      else Inl OutOfBounds)"
  by auto
termination
  by (relation "measure (\<lambda>(rs, i, j). length rs - i)") auto

declare skip_branches.simps [simp del]

definition tape_cache_step ::
    "int list \<Rightarrow> tape_ptr list \<Rightarrow> nat \<times> int \<times> tape_ptr list \<Rightarrow> (nat \<times> int \<times> tape_ptr list) res" where
  "tape_cache_step rs ts st = (case st of (i, j, tc) \<Rightarrow>
     rbind (skip_branches rs i j) (\<lambda>(i, j). rbind (index_res ts i) (\<lambda>t. Inr (i, j + 1, tc @ [t]))))"

definition build_tape_cache :: "one_to_many \<Rightarrow> one_to_many res" where
  "build_tape_cache p =
     ensure AssertFail (om_type p = WEIGHTED_ROUND_ROBIN) (ensure AssertFail (tcache p = None)
       (if slots p \<le> 0 then Inr (p\<lparr>tcache := Some []\<rparr>)
        else rbind (deref (ratio p)) (\<lambda>rs.
          rbind (rfold (\<lambda>_. tape_cache_step rs (om_tape p)) [0..<nat (slots p)] (0, 0, []))
            (\<lambda>(i, j, tc). Inr (p\<lparr>tcache := Some tc\<rparr>)))))"

text \<open>The two entry points make the cache valid before they use it.\<close>

definition fill_tape_cache :: "split_or_join \<Rightarrow> nat option \<Rightarrow> lib_store \<Rightarrow> lib_store res" where
  "fill_tape_cache sj c s = rbind (ctx_at c s) (\<lambda>cx.
     if om_type (get_om sj cx) = WEIGHTED_ROUND_ROBIN \<and> tcache (get_om sj cx) = None
     then rbind (build_tape_cache (get_om sj cx)) (\<lambda>p. upd_ctx c (put_om sj p) s)
     else Inr s)"

section \<open>Moving one item, moving a block\<close>

definition move_item_sized :: "int \<Rightarrow> nat \<Rightarrow> nat \<Rightarrow> tape_store \<Rightarrow> tape_store res" where
  "move_item_sized sz s d T =
     rbind (upd_tape s (incr_tape_read sz) T) (\<lambda>T. rbind (upd_tape d (incr_tape_write sz) T)
       (copy_tape_item s d))"

definition tape_memcpy :: "nat \<Rightarrow> int \<Rightarrow> nat \<Rightarrow> int \<Rightarrow> int \<Rightarrow> tape_store \<Rightarrow> tape_store res" where
  "tape_memcpy d dp s sp n T =
     rbind (deref (T s)) (\<lambda>ts. rbind (deref (T d)) (\<lambda>td.
       rbind (memcpy_res (t_data td) dp (t_data ts) sp n) (\<lambda>x. Inr (T(d \<mapsto> td\<lparr>t_data := x\<rparr>)))))"

definition set_positions :: "nat \<Rightarrow> int \<Rightarrow> nat \<Rightarrow> int \<Rightarrow> tape_store \<Rightarrow> tape_store res" where
  "set_positions s rp d wp T =
     rbind (upd_tape s (\<lambda>t. t\<lparr>read_pos := rp\<rparr>) T) (upd_tape d (\<lambda>t. t\<lparr>write_pos := wp\<rparr>))"

definition int32_add :: "int \<Rightarrow> int \<Rightarrow> int res" where
  "int32_add a b = (if - (2 ^ 31) \<le> a + b \<and> a + b < 2 ^ 31 then Inr (a + b) else Inl SignedOverflow)"

text \<open>
  The block copy for weights of three and more: the read tape, the write tape, both or neither
  wrap around in the middle of the block, and when both do either may come first.
\<close>

definition wrr_block :: "int \<Rightarrow> int \<Rightarrow> nat \<Rightarrow> nat \<Rightarrow> tape_store \<Rightarrow> tape_store res" where
  "wrr_block sz rt s d T =
     rbind (deref (T s)) (\<lambda>inp. rbind (deref (T d)) (\<lambda>out.
     let read_mask = t_mask inp; write_mask = t_mask out;
         rp = (read_pos inp + sz) AND read_mask; wp = (write_pos out + sz) AND write_mask;
         read_max = read_mask + 1; write_max = write_mask + 1 in
     rbind (int32_mult rt sz) (\<lambda>data_size.
     rbind (int32_add rp data_size) (\<lambda>read_end. rbind (int32_add wp data_size) (\<lambda>write_end.
     if read_end \<le> read_max then
       if write_end \<le> write_max then
         rbind (tape_memcpy d wp s rp data_size T)
           (set_positions s (rp + data_size - sz) d (wp + data_size - sz))
       else let copy_first = write_max - wp in
         rbind (tape_memcpy d wp s rp copy_first T) (\<lambda>T.
         rbind (tape_memcpy d 0 s (rp + copy_first) (data_size - copy_first) T)
           (set_positions s (rp + data_size - sz) d (data_size - copy_first - sz)))
     else if write_end \<le> write_max then
       let copy_first = read_max - rp in
         rbind (tape_memcpy d wp s rp copy_first T) (\<lambda>T.
         rbind (tape_memcpy d (wp + copy_first) s 0 (data_size - copy_first) T)
           (set_positions s (data_size - copy_first - sz) d (wp + data_size - sz)))
     else if write_max - wp > read_max - rp then
       let copy_first = read_max - rp; copy_second = write_max - wp - copy_first;
           copy_third = data_size - copy_second - copy_first in
         rbind (tape_memcpy d wp s rp copy_first T) (\<lambda>T.
         rbind (tape_memcpy d (wp + copy_first) s 0 copy_second T) (\<lambda>T.
         rbind (tape_memcpy d 0 s copy_second copy_third T)
           (set_positions s (copy_second + copy_third - sz) d (copy_third - sz))))
     else
       let copy_first = write_max - wp; copy_second = read_max - rp - copy_first;
           copy_third = data_size - copy_first - copy_second in
         rbind (tape_memcpy d wp s rp copy_first T) (\<lambda>T.
         rbind (tape_memcpy d 0 s (rp + copy_first) copy_second T) (\<lambda>T.
         rbind (tape_memcpy d copy_second s 0 copy_third T)
           (set_positions s (copy_third - sz) d (copy_second + copy_third - sz)))))))))"

definition wrr_branch :: "int \<Rightarrow> int \<Rightarrow> nat \<Rightarrow> tape_ptr \<Rightarrow> tape_store \<Rightarrow> tape_store res" where
  "wrr_branch sz rt s out T =
     (if rt < 3 then
        if rt = 2 then rbind (deref out) (\<lambda>d.
          rbind (move_item_sized sz s d T) (move_item_sized sz s d))
        else if rt = 1 then rbind (deref out) (\<lambda>d. move_item_sized sz s d T)
        else Inr T
      else rbind (deref out) (\<lambda>d. wrr_block sz rt s d T))"

section \<open>Running a splitter, running a joiner\<close>

definition split_duplicate :: "one_to_many \<Rightarrow> nat \<Rightarrow> tape_store \<Rightarrow> tape_store res" where
  "split_duplicate p s T =
     rbind (deref (T s)) (\<lambda>ts. rbind (upd_tape s (incr_tape_read (t_size ts)) T)
       (rfold (\<lambda>slot T. rbind (index_res (om_tape p) slot) (\<lambda>out. rbind (deref out) (\<lambda>d.
          rbind (deref (T d)) (\<lambda>td. rbind (upd_tape d (incr_tape_write (t_size td)) T)
            (copy_tape_item s d))))) [0..<nat (fan p)]))"

definition split_round_robin :: "one_to_many \<Rightarrow> nat \<Rightarrow> tape_store \<Rightarrow> tape_store res" where
  "split_round_robin p s =
     rfold (\<lambda>slot T. rbind (index_res (om_tape p) slot) (\<lambda>out. rbind (deref out) (\<lambda>d.
       move_tape_item s d T))) [0..<nat (fan p)]"

definition split_weighted :: "one_to_many \<Rightarrow> nat \<Rightarrow> tape_store \<Rightarrow> tape_store res" where
  "split_weighted p s T =
     rbind (deref (T s)) (\<lambda>ts.
       rfold (\<lambda>i T. rbind (deref (ratio p)) (\<lambda>rs. rbind (index_res rs i) (\<lambda>r.
         rbind (index_res (om_tape p) i) (\<lambda>out. wrr_branch (t_size ts) r s out T))))
         [0..<nat (fan p)] T)"

definition on_tapes :: "(tape_store \<Rightarrow> tape_store res) \<Rightarrow> lib_store \<Rightarrow> lib_store res" where
  "on_tapes f s = rbind (f (tapes s)) (\<lambda>T. Inr (s\<lparr>tapes := T\<rparr>))"

definition run_splitter :: "nat option \<Rightarrow> lib_store \<Rightarrow> lib_store res" where
  "run_splitter c s = rbind (ctx_at c s) (\<lambda>cx.
     ensure AssertFail (c_type cx = SPLIT_JOIN \<or> c_type cx = FEEDBACK_LOOP)
     (rbind (fill_tape_cache SPLITTER c s) (\<lambda>s. rbind (ctx_at c s) (\<lambda>cx.
      let p = splitter (c_data cx) in
      case om_type p of
        NULL_SJ \<Rightarrow> Inr s
      | DUPLICATE \<Rightarrow> rbind (deref (one_tape p)) (\<lambda>i. on_tapes (split_duplicate p i) s)
      | ROUND_ROBIN \<Rightarrow> if nat (fan p) = 0 then Inr s
          else rbind (deref (one_tape p)) (\<lambda>i. on_tapes (split_round_robin p i) s)
      | WEIGHTED_ROUND_ROBIN \<Rightarrow> rbind (deref (one_tape p)) (\<lambda>i. on_tapes (split_weighted p i) s)
      | COMBINE \<Rightarrow> Inl AssertFail))))"

definition join_round_robin :: "one_to_many \<Rightarrow> nat \<Rightarrow> tape_store \<Rightarrow> tape_store res" where
  "join_round_robin p d =
     rfold (\<lambda>slot T. rbind (index_res (om_tape p) slot) (\<lambda>inp. rbind (deref inp) (\<lambda>s.
       move_tape_item s d T))) [0..<nat (fan p)]"

definition join_weighted :: "one_to_many \<Rightarrow> nat \<Rightarrow> tape_store \<Rightarrow> tape_store res" where
  "join_weighted p d =
     rfold (\<lambda>slot T. rbind (deref (tcache p)) (\<lambda>tc. rbind (index_res tc slot) (\<lambda>inp.
       rbind (deref inp) (\<lambda>s. move_tape_item s d T)))) [0..<nat (slots p)]"

definition run_joiner :: "nat option \<Rightarrow> lib_store \<Rightarrow> lib_store res" where
  "run_joiner c s = rbind (ctx_at c s) (\<lambda>cx.
     ensure AssertFail (c_type cx = SPLIT_JOIN \<or> c_type cx = FEEDBACK_LOOP)
     (rbind (fill_tape_cache JOINER c s) (\<lambda>s. rbind (ctx_at c s) (\<lambda>cx.
      let p = joiner (c_data cx) in
      case om_type p of
        NULL_SJ \<Rightarrow> Inr s
      | ROUND_ROBIN \<Rightarrow> if nat (fan p) = 0 then Inr s
          else rbind (deref (one_tape p)) (\<lambda>d. on_tapes (join_round_robin p d) s)
      | WEIGHTED_ROUND_ROBIN \<Rightarrow> if nat (slots p) = 0 then Inr s
          else rbind (deref (one_tape p)) (\<lambda>d. on_tapes (join_weighted p d) s)
      | DUPLICATE \<Rightarrow> Inl AssertFail
      | COMBINE \<Rightarrow> Inl AssertFail))))"

section \<open>A block is a run of items\<close>

lemma memcpy_ring:
  "dp + n \<le> length d \<Longrightarrow> sp + n \<le> length s \<Longrightarrow>
     memcpy_res d (int dp) s (int sp) (int n) = Inr (ring_write d dp (ring_read s sp n))"
  using ring_read_flat [of sp n s] ring_write_flat [of dp "ring_read s sp n" d]
  by (simp add: memcpy_res_def load_bytes_def store_bytes_def flip: of_nat_add)

lemma fun_upd_pair:
  "s \<noteq> d \<Longrightarrow> (T(s \<mapsto> x, d \<mapsto> y))(s \<mapsto> x') = T(s \<mapsto> x', d \<mapsto> y)"
  by (auto simp: fun_upd_def)

text \<open>
  The state after \<open>n\<close> items were moved between two tapes: the positions have advanced by \<open>n\<close>
  slots and the bytes of the read ring are in the write ring.
\<close>

definition moved :: "tape_store \<Rightarrow> nat \<Rightarrow> tape \<Rightarrow> nat \<Rightarrow> nat \<Rightarrow> nat \<Rightarrow> tape \<Rightarrow> nat \<Rightarrow> nat \<Rightarrow> nat \<Rightarrow> nat
    \<Rightarrow> tape_store" where
  "moved T s ts Ms a d td Md b sz n =
     T(s \<mapsto> ts\<lparr>read_pos := int ((a + n) mod Ms * sz)\<rparr>,
       d \<mapsto> td\<lparr>write_pos := int ((b + n) mod Md * sz),
            t_data := ring_write (t_data td) (Suc b * sz) (ring_read (t_data ts) (Suc a * sz) (n * sz))\<rparr>)"

definition tape_pair :: "tape_store \<Rightarrow> nat \<Rightarrow> tape \<Rightarrow> nat \<Rightarrow> nat \<Rightarrow> nat \<Rightarrow> tape \<Rightarrow> nat \<Rightarrow> nat \<Rightarrow> nat \<Rightarrow> bool" where
  "tape_pair T s ts Ms a d td Md b sz \<longleftrightarrow> T s = Some ts \<and> T d = Some td \<and> s \<noteq> d \<and>
     (\<exists>us. tape_shape ts sz Ms a us) \<and> (\<exists>a2 ud. tape_shape td sz Md a2 ud \<and> b = a2 + ud)"

lemma moved_0:
  assumes "tape_pair T s ts Ms a d td Md b sz"
  shows "moved T s ts Ms a d td Md b sz 0 = T"
proof -
  have "ts\<lparr>read_pos := int (a mod Ms * sz)\<rparr> = ts" "td\<lparr>write_pos := int (b mod Md * sz), t_data := t_data td\<rparr> = td"
    using assms by (auto simp: tape_pair_def tape_shape_def)
  then show ?thesis using assms by (simp add: moved_def tape_pair_def fun_upd_idem)
qed

lemma moved_Suc:
  assumes pair: "tape_pair T s ts Ms a d td Md b sz"
  shows "move_item_sized (int sz) s d (moved T s ts Ms a d td Md b sz n)
     = Inr (moved T s ts Ms a d td Md b sz (Suc n))"
proof -
  obtain us a2 ud where shs: "tape_shape ts sz Ms a us" and shd: "tape_shape td sz Md a2 ud"
    and apart: "s \<noteq> d" using pair by (auto simp: tape_pair_def)
  let ?D = "ring_write (t_data td) (Suc b * sz) (ring_read (t_data ts) (Suc a * sz) (n * sz))"
  let ?r = "Suc (a + n) mod Ms * sz" and ?w = "Suc (b + n) mod Md * sz"
  have r: "incr_tape_localb (int ((a + n) mod Ms * sz)) (t_mask ts) (int sz) = int ?r"
    using tape_shape_incr [OF shs] by simp
  have w: "incr_tape_localb (int ((b + n) mod Md * sz)) (t_mask td) (int sz) = int ?w"
    using tape_shape_incr [OF shd] by simp
  have fit: "?w + sz \<le> length ?D" "?r + sz \<le> length (t_data ts)"
    using tape_slot_fits [OF shd] tape_slot_fits [OF shs] by simp_all
  have "t_size td = int sz" using shd by (simp add: tape_shape_def)
  then have "move_item_sized (int sz) s d (moved T s ts Ms a d td Md b sz n)
      = Inr (T(s \<mapsto> ts\<lparr>read_pos := int ?r\<rparr>,
          d \<mapsto> td\<lparr>write_pos := int ?w, t_data := ring_write ?D ?w (ring_read (t_data ts) ?r sz)\<rparr>))"
    using apart memcpy_ring [OF fit] r w
    by (simp add: moved_def move_item_sized_def upd_tape_def copy_tape_item_def incr_tape_read_def
        incr_tape_write_def fun_upd_pair del: of_nat_mult)
  moreover have "ring_write ?D ?w (ring_read (t_data ts) ?r sz)
      = ring_write (t_data td) (Suc b * sz) (ring_read (t_data ts) (Suc a * sz) (Suc n * sz))"
  proof -
    have "ring_read (t_data ts) ?r sz = ring_read (t_data ts) (Suc a * sz + n * sz) sz"
      using tape_slot_mod [OF shs, of "Suc (a + n)"]
      by (intro ring_read_cong_mod) (simp add: algebra_simps)
    moreover have "ring_write ?D ?w x = ring_write ?D (Suc b * sz + n * sz) x" for x
      using tape_slot_mod [OF shd, of "Suc (b + n)"]
      by (intro ring_write_cong_mod) (simp add: algebra_simps)
    ultimately show ?thesis
      by (simp add: ring_read_append [of _ _ "n * sz" sz, symmetric] add.commute [of sz]
          flip: ring_write_append) (simp add: ring_read_append ring_write_append)
  qed
  ultimately show ?thesis by (simp add: moved_def)
qed

lemma moves_closed:
  assumes pair: "tape_pair T s ts Ms a d td Md b sz"
  shows "rfold (\<lambda>_. move_item_sized (int sz) s d) js T = Inr (moved T s ts Ms a d td Md b sz (length js))"
proof -
  have "rfold (\<lambda>_. move_item_sized (int sz) s d) js (moved T s ts Ms a d td Md b sz n)
      = Inr (moved T s ts Ms a d td Md b sz (n + length js))" for n
  proof (induction js arbitrary: n)
    case Nil
    then show ?case by simp
  next
    case (Cons j js)
    then show ?case by (simp add: moved_Suc [OF pair])
  qed
  from this [of 0] show ?thesis by (simp add: moved_0 [OF pair])
qed

text \<open>Splitting a copy between two rings in two, with both positions taken modulo the rings.\<close>

lemma ring_copy_split:
  assumes "w' mod length D = (w + n1) mod length D" "r' mod length S = (r + n1) mod length S"
  shows "ring_write (ring_write D w (ring_read S r n1)) w' (ring_read S r' n2)
    = ring_write D w (ring_read S r (n1 + n2))"
proof -
  have "ring_read S r' n2 = ring_read S (r + n1) n2" by (rule ring_read_cong_mod [OF assms(2)])
  moreover have "ring_write (ring_write D w (ring_read S r n1)) w' x
      = ring_write (ring_write D w (ring_read S r n1)) (w + n1) x" for x
    by (rule ring_write_cong_mod) (simp add: assms(1))
  ultimately show ?thesis by (simp add: ring_read_append ring_write_append)
qed

lemma tape_memcpy_ring:
  assumes "T s = Some ts" "s \<noteq> d" "dp + n \<le> length D" "sp + n \<le> length (t_data ts)"
  shows "tape_memcpy d (int dp) s (int sp) (int n) (T(d \<mapsto> td\<lparr>t_data := D\<rparr>))
    = Inr (T(d \<mapsto> td\<lparr>t_data := ring_write D dp (ring_read (t_data ts) sp n)\<rparr>))"
  using assms memcpy_ring [OF assms(3,4)] by (simp add: tape_memcpy_def)

lemma set_positions_closed:
  assumes "T s = Some ts" "s \<noteq> d"
  shows "set_positions s rp d wp (T(d \<mapsto> td\<lparr>t_data := D\<rparr>))
    = Inr (T(s \<mapsto> ts\<lparr>read_pos := rp\<rparr>, d \<mapsto> td\<lparr>write_pos := wp, t_data := D\<rparr>))"
proof -
  have eq: "td\<lparr>write_pos := wp, t_data := D\<rparr> = td\<lparr>t_data := D, write_pos := wp\<rparr>" by simp
  show ?thesis
    unfolding eq using assms by (simp add: set_positions_def upd_tape_def fun_upd_twist)
qed

lemma ring_slot_advance:
  fixes a rt M :: nat
  assumes "1 \<le> rt" "rt \<le> M"
  shows "(a + rt) mod M = (if Suc a mod M + rt \<le> M then Suc a mod M + rt - 1 else Suc a mod M + rt - 1 - M)"
proof -
  let ?k = "Suc a mod M"
  have "(a + rt) mod M = (Suc a + (rt - 1)) mod M" using assms by simp
  also have "\<dots> = (?k + (rt - 1)) mod M" by (simp only: mod_add_left_eq)
  also have "\<dots> = (if ?k + rt \<le> M then ?k + rt - 1 else ?k + rt - 1 - M)"
  proof -
    obtain k where k: "?k = k" "k < M" using assms by simp
    have "k + rt - 1 - M < M" using k(2) assms by linarith
    then show ?thesis using assms k(2) unfolding k(1) by (auto simp: le_mod_geq)
  qed
  finally show ?thesis .
qed

lemma tape_length_bound:
  assumes "tape_shape t sz M a u"
  shows "int (M * sz) \<le> 2 ^ 30"
proof -
  have pos: "0 < int (M * sz)" and lt: "int (M * sz) < 2 ^ 31" and m: "int (M * sz) AND (int (M * sz) - 1) = 0"
    using assms by (auto simp: tape_shape_def)
  obtain k where k: "int (M * sz) = 2 ^ k" using pow2_int_induct [OF pos m] by blast
  then have "(2::int) ^ k < 2 ^ 31" using lt by simp
  then have "k \<le> 30" by (simp del: power_numeral)
  then have "(2::int) ^ k \<le> 2 ^ 30" by (intro power_increasing) auto
  then show ?thesis using k by simp
qed

text \<open>The block copy of \<open>rt\<close> items ends in the state that moving them one by one ends in.\<close>

lemma wrr_block_closed:
  assumes pair: "tape_pair T s ts Ms a d td Md b sz" and rt: "1 \<le> rt" "rt \<le> Ms" "rt \<le> Md"
  shows "wrr_block (int sz) (int rt) s d T = Inr (moved T s ts Ms a d td Md b sz rt)"
proof -
  obtain us a2 ud where shs: "tape_shape ts sz Ms a us" and shd: "tape_shape td sz Md a2 ud"
    and bb: "b = a2 + ud" and T: "T s = Some ts" "T d = Some td" "s \<noteq> d"
    using pair by (auto simp: tape_pair_def)
  define S where "S = t_data ts"
  define D where "D = t_data td"
  define k where "k = Suc a mod Ms"
  define l where "l = Suc b mod Md"
  define N where "N = rt * sz"
  define X where "X = (Ms - k) * sz"
  define Y where "Y = (Md - l) * sz"
  have sz: "0 < sz" and LS: "length S = Ms * sz" and LD: "length D = Md * sz"
    and max: "t_mask ts + 1 = int (Ms * sz)" "t_mask td + 1 = int (Md * sz)"
    using shs shd by (auto simp: tape_shape_def S_def D_def)
  have lim: "int (Ms * sz) \<le> 2 ^ 30" "int (Md * sz) \<le> 2 ^ 30"
    using tape_length_bound shs shd by blast+
  have kl: "k < Ms" "l < Md" using rt by (auto simp: k_def l_def)
  have rp: "(read_pos ts + int sz) AND t_mask ts = int (k * sz)"
    using tape_shape_incr [OF shs, of a] shs by (simp add: incr_tape_localb_def tape_shape_def k_def)
  have wp: "(write_pos td + int sz) AND t_mask td = int (l * sz)"
    using tape_shape_incr [OF shd, of b] shd by (simp add: incr_tape_localb_def tape_shape_def l_def bb)
  have kX: "k * sz + X = Ms * sz" "l * sz + Y = Md * sz"
    using kl by (simp_all add: X_def Y_def flip: distrib_right)
  have NM: "N \<le> Ms * sz" "N \<le> Md * sz" using rt by (simp_all add: N_def)
  have ge: "k + rt \<le> Ms \<longleftrightarrow> N \<le> X" "l + rt \<le> Md \<longleftrightarrow> N \<le> Y"
    using sz kl by (auto simp: N_def X_def Y_def)
  have ends: "int32_mult (int rt) (int sz) = Inr (int N)"
    "int32_add (int (k * sz)) (int N) = Inr (int (k * sz) + int N)"
    "int32_add (int (l * sz)) (int N) = Inr (int (l * sz) + int N)"
  proof -
    have le: "int (k * sz) < int (Ms * sz)" "int (l * sz) < int (Md * sz)"
      "int N \<le> int (Ms * sz)" "int N \<le> int (Md * sz)"
      using kl NM sz by (simp_all del: of_nat_mult)
    have "int rt * int sz = int N" by (simp add: N_def)
    moreover have "0 \<le> int N" "0 \<le> int (k * sz)" "0 \<le> int (l * sz)" by simp_all
    moreover have "int N < 2 ^ 31" "int (k * sz) + int N < 2 ^ 31" "int (l * sz) + int N < 2 ^ 31"
      using le lim zero_le_power [of "2::int" 30] power_Suc [of "2::int" 30] by simp_all
    ultimately show "int32_mult (int rt) (int sz) = Inr (int N)"
      "int32_add (int (k * sz)) (int N) = Inr (int (k * sz) + int N)"
      "int32_add (int (l * sz)) (int N) = Inr (int (l * sz) + int N)"
      unfolding int32_mult_def int32_add_def by (simp_all del: of_nat_mult of_nat_0_le_iff)
  qed
  define fin where "fin = ring_write D (l * sz) (ring_read S (k * sz) N)"
  have moved: "moved T s ts Ms a d td Md b sz rt = T(s \<mapsto> ts\<lparr>read_pos := int ((a + rt) mod Ms * sz)\<rparr>,
      d \<mapsto> td\<lparr>write_pos := int ((b + rt) mod Md * sz), t_data := fin\<rparr>)"
  proof -
    have "ring_read S (k * sz) N = ring_read S (Suc a * sz) N"
      using tape_slot_mod [OF shs, of "Suc a"] by (intro ring_read_cong_mod) (simp add: k_def S_def)
    moreover have "ring_write D (l * sz) x = ring_write D (Suc b * sz) x" for x
      using tape_slot_mod [OF shd, of "Suc b"] by (intro ring_write_cong_mod) (simp add: l_def D_def)
    ultimately show ?thesis by (simp add: moved_def fin_def S_def D_def N_def)
  qed
  have T0: "T = T(d \<mapsto> td\<lparr>t_data := D\<rparr>)" using T by (simp add: D_def fun_upd_idem)
  note cp = tape_memcpy_ring [where T = T and s = s and ts = ts and d = d and td = td, OF T(1,3), folded S_def]
  have fit: "k * sz + n \<le> length S" if "n \<le> X" for n using that kX LS by linarith
  have fit': "l * sz + n \<le> length D" if "n \<le> Y" for n using that kX LD by linarith
  have rpos: "(a + rt) mod Ms * sz = (if N \<le> X then k * sz + N - sz else N - X - sz)"
    using ring_slot_advance [OF rt(1,2), of a] ge(1) kX(1)
    by (auto simp: k_def [symmetric] N_def diff_mult_distrib distrib_right X_def)
  have wpos: "(b + rt) mod Md * sz = (if N \<le> Y then l * sz + N - sz else N - Y - sz)"
    using ring_slot_advance [OF rt(1,3), of b] ge(2) kX(2)
    by (auto simp: l_def [symmetric] N_def diff_mult_distrib distrib_right Y_def)
  have dif: "int (Ms * sz) - int (k * sz) = int X" "int (Md * sz) - int (l * sz) = int Y"
    and cond: "int (k * sz) + int N \<le> int (Ms * sz) \<longleftrightarrow> N \<le> X"
      "int (l * sz) + int N \<le> int (Md * sz) \<longleftrightarrow> N \<le> Y"
    using kX by linarith+
  have "sz \<le> N" using rt(1) by (simp add: N_def)
  have gap: "sz \<le> N - m * sz" if "m * sz < N" for m
  proof -
    have "1 \<le> rt - m" using that unfolding N_def mult_less_cancel2 by linarith
    then have "1 * sz \<le> (rt - m) * sz" by (rule mult_le_mono1)
    then show ?thesis by (simp add: N_def diff_mult_distrib)
  qed
  note blk = wrr_block_def [of "int sz" "int rt" s d T] T rp wp max ends dif cond Let_def
  have run: "wrr_block (int sz) (int rt) s d T = Inr (moved T s ts Ms a d td Md b sz rt)"
    if "wrr_block (int sz) (int rt) s d T
      = set_positions s x d y (T(d \<mapsto> td\<lparr>t_data := fin\<rparr>))"
      "x = int ((a + rt) mod Ms * sz)" "y = int ((b + rt) mod Md * sz)" for x y
    using that set_positions_closed [where T = T and s = s and ts = ts and d = d and td = td, OF T(1,3)] moved by simp
  consider (none) "N \<le> X" "N \<le> Y" | (out) "N \<le> X" "Y < N" | (inp) "X < N" "N \<le> Y"
    | (both_in) "X < N" "Y < N" "X < Y" | (both_out) "X < N" "Y < N" "Y \<le> X" by linarith
  then show ?thesis
  proof cases
    case none
    have m1: "tape_memcpy d (int (l * sz)) s (int (k * sz)) (int N) T = Inr (T(d \<mapsto> td\<lparr>t_data := fin\<rparr>))"
      using cp [of "l * sz" N D "k * sz"] fit [of N] fit' [of N] none T0 by (simp add: fin_def)
    show ?thesis
      by (rule run [where x = "int (k * sz) + int N - int sz" and y = "int (l * sz) + int N - int sz"])
        (use none m1 rpos wpos \<open>sz \<le> N\<close> in \<open>simp_all add: blk del: of_nat_mult\<close>)
  next
    case out
    define D1 where "D1 = ring_write D (l * sz) (ring_read S (k * sz) Y)"
    have m1: "tape_memcpy d (int (l * sz)) s (int (k * sz)) (int Y) T = Inr (T(d \<mapsto> td\<lparr>t_data := D1\<rparr>))"
      using cp [of "l * sz" Y D "k * sz"] fit [of Y] fit' [of Y] out T0 by (simp add: D1_def)
    have "fin = ring_write D1 0 (ring_read S (k * sz + Y) (N - Y))"
      using ring_copy_split [of 0 D "l * sz" Y "k * sz + Y" S "k * sz" "N - Y"] out kX LD
      by (simp add: D1_def fin_def)
    then have m2: "tape_memcpy d 0 s (int (k * sz) + int Y) (int N - int Y) (T(d \<mapsto> td\<lparr>t_data := D1\<rparr>))
        = Inr (T(d \<mapsto> td\<lparr>t_data := fin\<rparr>))"
      using cp [of 0 "N - Y" D1 "k * sz + Y"] fit [of N] NM out LD
      by (simp add: D1_def of_nat_diff)
    have "sz \<le> N - Y" using gap out by (simp add: Y_def)
    then show ?thesis
      by (intro run [where x = "int (k * sz) + int N - int sz" and y = "int N - int Y - int sz"])
        (use out m1 m2 rpos wpos \<open>sz \<le> N\<close> in \<open>simp_all add: blk of_nat_diff del: of_nat_mult\<close>)
  next
    case inp
    define D1 where "D1 = ring_write D (l * sz) (ring_read S (k * sz) X)"
    have m1: "tape_memcpy d (int (l * sz)) s (int (k * sz)) (int X) T = Inr (T(d \<mapsto> td\<lparr>t_data := D1\<rparr>))"
      using cp [of "l * sz" X D "k * sz"] fit [of X] fit' [of X] inp T0 by (simp add: D1_def)
    have "fin = ring_write D1 (l * sz + X) (ring_read S 0 (N - X))"
      using ring_copy_split [of "l * sz + X" D "l * sz" X 0 S "k * sz" "N - X"] inp kX LS
      by (simp add: D1_def fin_def)
    then have m2: "tape_memcpy d (int (l * sz) + int X) s 0 (int N - int X) (T(d \<mapsto> td\<lparr>t_data := D1\<rparr>))
        = Inr (T(d \<mapsto> td\<lparr>t_data := fin\<rparr>))"
      using cp [of "l * sz + X" "N - X" D1 0] fit' [of N] NM inp LS
      by (simp add: D1_def of_nat_diff)
    have "sz \<le> N - X" using gap inp by (simp add: X_def)
    then show ?thesis
      by (intro run [where x = "int N - int X - int sz" and y = "int (l * sz) + int N - int sz"])
        (use inp m1 m2 rpos wpos \<open>sz \<le> N\<close> in \<open>simp_all add: blk of_nat_diff del: of_nat_mult\<close>)
  next
    case both_in
    define D1 where "D1 = ring_write D (l * sz) (ring_read S (k * sz) X)"
    define D2 where "D2 = ring_write D1 (l * sz + X) (ring_read S 0 (Y - X))"
    have m1: "tape_memcpy d (int (l * sz)) s (int (k * sz)) (int X) T = Inr (T(d \<mapsto> td\<lparr>t_data := D1\<rparr>))"
      using cp [of "l * sz" X D "k * sz"] fit [of X] fit' [of X] both_in T0 by (simp add: D1_def)
    have D2: "D2 = ring_write D (l * sz) (ring_read S (k * sz) Y)"
      using ring_copy_split [of "l * sz + X" D "l * sz" X 0 S "k * sz" "Y - X"] both_in kX LS
      by (simp add: D1_def D2_def)
    have m2: "tape_memcpy d (int (l * sz) + int X) s 0 (int Y - int X) (T(d \<mapsto> td\<lparr>t_data := D1\<rparr>))
        = Inr (T(d \<mapsto> td\<lparr>t_data := D2\<rparr>))"
      using cp [of "l * sz + X" "Y - X" D1 0] fit' [of Y] NM both_in LS
      by (simp add: D1_def D2_def of_nat_diff)
    have "fin = ring_write D2 0 (ring_read S (Y - X) (N - Y))"
    proof -
      have "k * sz + Y = Y - X + length S" using kX LS both_in by linarith
      then have "(Y - X) mod length S = (k * sz + Y) mod length S" by (simp only: mod_add_self2)
      then show ?thesis
        using ring_copy_split [of 0 D "l * sz" Y "Y - X" S "k * sz" "N - Y"] both_in kX LD
        by (simp add: D2 fin_def)
    qed
    then have m3: "tape_memcpy d 0 s (int Y - int X) (int N - int Y) (T(d \<mapsto> td\<lparr>t_data := D2\<rparr>))
        = Inr (T(d \<mapsto> td\<lparr>t_data := fin\<rparr>))"
      using cp [of 0 "N - Y" D2 "Y - X"] NM both_in LS LD
      by (simp add: D2 of_nat_diff)
    have "sz \<le> N - X" "sz \<le> N - Y" using gap both_in by (simp_all add: X_def Y_def)
    then show ?thesis
      by (intro run [where x = "int N - int X - int sz" and y = "int N - int Y - int sz"])
        (use both_in m1 m2 m3 rpos wpos \<open>sz \<le> N\<close> in \<open>simp_all add: blk of_nat_diff del: of_nat_mult\<close>)
  next
    case both_out
    define D1 where "D1 = ring_write D (l * sz) (ring_read S (k * sz) Y)"
    define D2 where "D2 = ring_write D1 0 (ring_read S (k * sz + Y) (X - Y))"
    have m1: "tape_memcpy d (int (l * sz)) s (int (k * sz)) (int Y) T = Inr (T(d \<mapsto> td\<lparr>t_data := D1\<rparr>))"
      using cp [of "l * sz" Y D "k * sz"] fit [of Y] fit' [of Y] both_out T0 by (simp add: D1_def)
    have D2: "D2 = ring_write D (l * sz) (ring_read S (k * sz) X)"
      using ring_copy_split [of 0 D "l * sz" Y "k * sz + Y" S "k * sz" "X - Y"] both_out kX LD
      by (simp add: D1_def D2_def)
    have m2: "tape_memcpy d 0 s (int (k * sz) + int Y) (int X - int Y) (T(d \<mapsto> td\<lparr>t_data := D1\<rparr>))
        = Inr (T(d \<mapsto> td\<lparr>t_data := D2\<rparr>))"
      using cp [of 0 "X - Y" D1 "k * sz + Y"] fit [of X] NM both_out LD
      by (simp add: D1_def D2_def of_nat_diff)
    have "fin = ring_write D2 (X - Y) (ring_read S 0 (N - X))"
    proof -
      have "l * sz + X = X - Y + length D" using kX LD both_out by linarith
      then have "(X - Y) mod length D = (l * sz + X) mod length D" by (simp only: mod_add_self2)
      then show ?thesis
        using ring_copy_split [of "X - Y" D "l * sz" X 0 S "k * sz" "N - X"] both_out kX LS
        by (simp add: D2 fin_def)
    qed
    then have m3: "tape_memcpy d (int X - int Y) s 0 (int N - int X) (T(d \<mapsto> td\<lparr>t_data := D2\<rparr>))
        = Inr (T(d \<mapsto> td\<lparr>t_data := fin\<rparr>))"
      using cp [of "X - Y" "N - X" D2 0] NM both_out LS LD
      by (simp add: D2 of_nat_diff)
    have "sz \<le> N - X" "sz \<le> N - Y" using gap both_out by (simp_all add: X_def Y_def)
    then show ?thesis
      by (intro run [where x = "int N - int X - int sz" and y = "int N - int Y - int sz"])
        (use both_out m1 m2 m3 rpos wpos \<open>sz \<le> N\<close> in \<open>simp_all add: blk of_nat_diff del: of_nat_mult\<close>)
  qed
qed

section \<open>What the tape cache holds\<close>

definition tape_slots :: "nat list \<Rightarrow> 'i list \<Rightarrow> 'i list" where
  "tape_slots rates many = concat (map (\<lambda>i. replicate (rates ! i) (many ! i)) [0..<length rates])"

lemma tape_slots_Cons: "tape_slots (r # rs) (m # ms) = replicate r m @ tape_slots rs ms"
  unfolding tape_slots_def by (simp add: map_upt_Suc del: upt_Suc)

lemma length_tape_slots: "length (tape_slots rates many) = sum_list rates"
  by (simp add: tape_slots_def length_concat o_def map_nth)

lemma tape_slots_nth:
  assumes "length many = length rates" "i < length rates" "branch_start rates i \<le> n"
    "n < branch_start rates i + rates ! i"
  shows "tape_slots rates many ! n = many ! i"
  using assms
proof (induction rates arbitrary: many i n)
  case Nil
  then show ?case by simp
next
  case (Cons r rs)
  then obtain m ms where many: "many = m # ms" by (cases many) auto
  show ?case
  proof (cases i)
    case 0
    then show ?thesis using Cons.prems many by (simp add: tape_slots_Cons nth_append)
  next
    case (Suc j)
    then have "r \<le> n" "branch_start rs j \<le> n - r" "n - r < branch_start rs j + rs ! j"
      using Cons.prems by (auto simp: branch_start_def)
    then show ?thesis
      using Cons.IH [of ms j "n - r"] Cons.prems Suc many by (simp add: tape_slots_Cons nth_append)
  qed
qed

lemma skip_branches_law:
  assumes "i < length rates" "0 \<le> j" "j \<le> int (rates ! i)"
    "branch_start rates i + nat j = n" "n < sum_list rates"
  shows "\<exists>i' j'. skip_branches (map int rates) i j = Inr (i', j') \<and> i' < length rates \<and> 0 \<le> j' \<and>
    j' < int (rates ! i') \<and> branch_start rates i' + nat j' = n"
  using assms
proof (induction "map int rates" i j rule: skip_branches.induct)
  case (1 i j)
  show ?case
  proof (cases "int (rates ! i) \<le> j")
    case False
    then show ?thesis using "1.prems" by (simp add: skip_branches.simps)
  next
    case True
    then have "j = int (rates ! i)" using "1.prems" by simp
    then have n: "branch_start rates (Suc i) = n"
      using "1.prems" by (simp add: branch_start_Suc)
    have "Suc i < length rates"
    proof (rule ccontr)
      assume "\<not> Suc i < length rates"
      then have "Suc i = length rates" using "1.prems" by simp
      then show False using n "1.prems" by (simp add: branch_start_def)
    qed
    then have "\<exists>i' j'. skip_branches (map int rates) (Suc i) 0 = Inr (i', j') \<and> i' < length rates \<and>
        0 \<le> j' \<and> j' < int (rates ! i') \<and> branch_start rates i' + nat j' = n"
      using "1.hyps" "1.prems" True n by simp
    moreover have "skip_branches (map int rates) i j = skip_branches (map int rates) (Suc i) 0"
      using True "1.prems" by (subst skip_branches.simps) simp
    ultimately show ?thesis by simp
  qed
qed

lemma build_tape_cache_law:
  assumes "om_type p = WEIGHTED_ROUND_ROBIN" "tcache p = None" "ratio p = Some (map int rates)"
    "slots p = int (sum_list rates)" "om_tape p = map Some many" "length many = length rates"
  shows "build_tape_cache p = Inr (p\<lparr>tcache := Some (map Some (tape_slots rates many))\<rparr>)"
proof -
  let ?S = "sum_list rates"
  let ?f = "\<lambda>_::nat. tape_cache_step (map int rates) (map Some many)"
  let ?inv = "\<lambda>n (i, j, tc). tc = map Some (take n (tape_slots rates many)) \<and>
      (n < ?S \<longrightarrow> i < length rates) \<and> 0 \<le> j \<and> (n < ?S \<longrightarrow> j \<le> int (rates ! i)) \<and>
      (n < ?S \<longrightarrow> branch_start rates i + nat j = n)"
  have step: "\<exists>st. rfold ?f [0..<n] (0, 0, []) = Inr st \<and> ?inv n st" if "n \<le> ?S" for n
    using that
  proof (induction n)
    case 0
    have "0 < ?S \<Longrightarrow> 0 < length rates" by (cases rates) auto
    then show ?case by simp
  next
    case (Suc n)
    then obtain i j where st: "rfold ?f [0..<n] (0, 0, []) = Inr (i, j, map Some (take n (tape_slots rates many)))"
      "i < length rates" "0 \<le> j" "j \<le> int (rates ! i)" "branch_start rates i + nat j = n"
      by auto
    obtain i' j' where sk: "skip_branches (map int rates) i j = Inr (i', j')" "i' < length rates" "0 \<le> j'"
      "j' < int (rates ! i')" "branch_start rates i' + nat j' = n"
      using skip_branches_law [OF st(2-5)] Suc.prems by auto
    have "tape_slots rates many ! n = many ! i'"
      using sk assms(6) by (intro tape_slots_nth) auto
    then have tk: "take (Suc n) (tape_slots rates many) = take n (tape_slots rates many) @ [many ! i']"
      using Suc.prems length_tape_slots [of rates many] by (simp add: take_Suc_conv_app_nth)
    have "?f n (i, j, map Some (take n (tape_slots rates many)))
        = Inr (i', j' + 1, map Some (take (Suc n) (tape_slots rates many)))"
      using sk assms(6) tk by (simp add: tape_cache_step_def)
    moreover have "nat (j' + 1) = Suc (nat j')" using sk(3) by simp
    ultimately show ?case using st(1) sk by (simp add: rfold_append)
  qed
  show ?thesis
  proof (cases "?S = 0")
    case True
    then have "tape_slots rates many = []" by (metis length_0_conv length_tape_slots)
    then show ?thesis using assms True by (simp add: build_tape_cache_def)
  next
    case False
    obtain i j tc where "rfold ?f [0..<?S] (0, 0, []) = Inr (i, j, tc)" "tc = map Some (tape_slots rates many)"
      using step [of ?S] length_tape_slots [of rates many] by (auto split: prod.splits)
    then show ?thesis using assms False by (auto simp: build_tape_cache_def)
  qed
qed

section \<open>Families of tapes with one item size\<close>

definition tape_family :: "tape_store \<Rightarrow> nat set \<Rightarrow> nat \<Rightarrow> (nat \<Rightarrow> nat) \<Rightarrow> bool" where
  "tape_family T I sz len \<longleftrightarrow>
     (\<forall>i\<in>I. \<exists>t. T i = Some t \<and> tape_ok t \<and> t_size t = int sz \<and> length (t_data t) = len i * sz)"

lemma tape_family_ok: "tape_family T I sz len \<Longrightarrow> tapes_ok T I"
  by (auto simp: tape_family_def tapes_ok_def)

lemma tape_family_fits:
  assumes "tape_family T I sz len" "i \<in> I" "j \<in> I" "x \<in> set (tape_items_at T i)"
  shows "tape_fits_at T j x"
proof -
  obtain t where t: "T i = Some t" "t_size t = int sz" using assms(1,2) by (auto simp: tape_family_def)
  obtain u where u: "T j = Some u" "t_size u = int sz" using assms(1,3) by (auto simp: tape_family_def)
  have "length x = sz" using assms(4) t by (auto simp: tape_items_at_def tape_items_def ring_items_def)
  then show ?thesis using u by (simp add: tape_fits_at_def)
qed

lemma tape_family_pair:
  assumes "tape_family T I sz len" "s \<in> I" "d \<in> I" "s \<noteq> d"
  shows "\<exists>ts a td b. tape_pair T s ts (len s) a d td (len d) b sz"
proof -
  obtain ts where ts: "T s = Some ts" "tape_ok ts" "t_size ts = int sz" "length (t_data ts) = len s * sz"
    using assms(1,2) by (auto simp: tape_family_def)
  obtain td where td: "T d = Some td" "tape_ok td" "t_size td = int sz" "length (t_data td) = len d * sz"
    using assms(1,3) by (auto simp: tape_family_def)
  obtain sz1 M1 a1 where sh1: "tape_shape ts sz1 M1 a1 (tape_used ts)" using tape_ok_shape [OF ts(2)] by blast
  obtain sz2 M2 a2 where sh2: "tape_shape td sz2 M2 a2 (tape_used td)" using tape_ok_shape [OF td(2)] by blast
  have "sz1 = sz" "M1 = len s" using sh1 ts(3,4) by (auto simp: tape_shape_def)
  moreover have "sz2 = sz" "M2 = len d" using sh2 td(3,4) by (auto simp: tape_shape_def)
  ultimately have "tape_pair T s ts (len s) a1 d td (len d) (a2 + tape_used td) sz"
    using sh1 sh2 ts(1) td(1) assms(4) by (auto simp: tape_pair_def)
  then show ?thesis by blast
qed

lemma moved_family:
  assumes fam: "tape_family T I sz len" and pair: "tape_pair T s ts (len s) a d td (len d) b sz"
    and mem: "s \<in> I" "d \<in> I"
  shows "tape_family (moved T s ts (len s) a d td (len d) b sz n) I sz len"
proof -
  have pos: "int (k mod M * sz) < int (length (t_data t)) \<and> t_size t dvd int (k mod M * sz)"
    if "tape_ok t" "t_size t = int sz" "length (t_data t) = M * sz" for k M t
  proof -
    have "0 < M * sz" using tape_okD(1) [OF that(1)] unfolding that(3) of_nat_0_less_iff .
    then have "k mod M * sz < M * sz" by simp
    then show ?thesis using that by simp
  qed
  have t: "tape_ok ts" "t_size ts = int sz" "length (t_data ts) = len s * sz" "tape_ok td"
    "t_size td = int sz" "length (t_data td) = len d * sz" "s \<noteq> d"
    using fam mem pair by (auto simp: tape_family_def tape_pair_def)
  have "tape_ok (ts\<lparr>read_pos := int ((a + n) mod len s * sz)\<rparr>)"
    using t(1) pos [OF t(1-3), of "a + n"] by (simp add: tape_ok_def Let_def)
  moreover have "tape_ok (td\<lparr>write_pos := int ((b + n) mod len d * sz), t_data := D\<rparr>)"
    if "length D = length (t_data td)" for D
    using t(4) pos [OF t(4-6), of "b + n"] that by (simp add: tape_ok_def Let_def)
  ultimately show ?thesis
    using fam t by (auto simp: tape_family_def moved_def)
qed

text \<open>Over a family, \<open>n\<close> moves of the code, of either form, are \<open>n\<close> moves of the queue store.\<close>

lemma family_move_eq:
  assumes fam: "tape_family T I sz len" and mem: "s \<in> I" "d \<in> I" "s \<noteq> d"
  shows "move_item_sized (int sz) s d T = qs_move tape_get tape_put s d T"
    "move_tape_item s d T = qs_move tape_get tape_put s d T"
    "\<exists>T'. qs_move tape_get tape_put s d T = Inr T' \<and> tape_family T' I sz len"
proof -
  obtain ts a td b where pair: "tape_pair T s ts (len s) a d td (len d) b sz"
    using tape_family_pair [OF fam mem] by blast
  then have t: "T s = Some ts" "T d = Some td" "t_size ts = int sz" "t_size td = int sz"
    by (auto simp: tape_pair_def tape_shape_def)
  show mv: "move_tape_item s d T = qs_move tape_get tape_put s d T"
    using move_tape_item_eq t mem(3) by simp
  have "move_item_sized (int sz) s d T = move_tape_item s d T"
    using t mem(3) by (simp add: move_item_sized_def move_tape_item_def upd_tape_def)
  then show ms: "move_item_sized (int sz) s d T = qs_move tape_get tape_put s d T" using mv by simp
  have "move_item_sized (int sz) s d T = Inr (moved T s ts (len s) a d td (len d) b sz 1)"
    using moves_closed [OF pair, of "[()]"] by simp
  then show "\<exists>T'. qs_move tape_get tape_put s d T = Inr T' \<and> tape_family T' I sz len"
    using ms moved_family [OF fam pair mem(1,2)] by simp
qed

lemma family_moves_eq:
  assumes fam: "tape_family T I sz len" and mem: "s \<in> I" "d \<in> I" "s \<noteq> d"
  shows "rfold (\<lambda>_. move_item_sized (int sz) s d) js T = rfold (\<lambda>_. qs_move tape_get tape_put s d) js T \<and>
    (\<forall>T'. rfold (\<lambda>_. move_item_sized (int sz) s d) js T = Inr T' \<longrightarrow> tape_family T' I sz len)"
  by (rule rfold_eq_invariant [where P = "\<lambda>T. tape_family T I sz len", OF fam])
    (use family_move_eq mem in fastforce)

lemma wrr_branch_eq:
  assumes fam: "tape_family T I sz len" and mem: "s \<in> I" "d \<in> I" "s \<noteq> d" and r: "r \<le> len s" "r \<le> len d"
  shows "wrr_branch (int sz) (int r) s (Some d) T = rfold (\<lambda>_. qs_move tape_get tape_put s d) [0..<r] T"
    "wrr_branch (int sz) (int r) s (Some d) T = Inr T' \<Longrightarrow> tape_family T' I sz len"
proof -
  have "wrr_branch (int sz) (int r) s (Some d) T = rfold (\<lambda>_. move_item_sized (int sz) s d) [0..<r] T"
  proof -
    consider "r = 0" | "r = 1" | "r = 2" | "3 \<le> r" by linarith
    then show ?thesis
    proof cases
      case 4
      obtain ts a td b where pair: "tape_pair T s ts (len s) a d td (len d) b sz"
        using tape_family_pair [OF fam mem] by blast
      show ?thesis
        using wrr_block_closed [OF pair _ r] moves_closed [OF pair, of "[0..<r]"] 4
        by (simp add: wrr_branch_def)
    qed (simp_all add: wrr_branch_def numeral_2_eq_2 rbind_def split: sum.split)
  qed
  then show "wrr_branch (int sz) (int r) s (Some d) T = rfold (\<lambda>_. qs_move tape_get tape_put s d) [0..<r] T"
    "wrr_branch (int sz) (int r) s (Some d) T = Inr T' \<Longrightarrow> tape_family T' I sz len"
    using family_moves_eq [OF fam mem, of "[0..<r]"] by simp_all
qed

section \<open>A splitter or joiner set up for its tapes\<close>

text \<open>
  \<open>om_plan\<close>: the one side is tape \<open>one\<close>, the many side \<open>many\<close>, and branch \<open>i\<close> takes part with
  \<open>rates ! i\<close> items per round; the cache of a weighted one is empty or right.
\<close>

definition om_plan :: "one_to_many \<Rightarrow> nat list \<Rightarrow> nat \<Rightarrow> nat list \<Rightarrow> bool" where
  "om_plan p rates one many \<longleftrightarrow> one_tape p = Some one \<and> om_tape p = map Some many \<and>
     fan p = int (length many) \<and> length rates = length many \<and> many \<noteq> [] \<and>
     (om_type p = ROUND_ROBIN \<and> rates = replicate (length many) 1 \<or>
      om_type p = WEIGHTED_ROUND_ROBIN \<and> ratio p = Some (map int rates) \<and>
      slots p = int (sum_list rates) \<and>
      (tcache p = None \<or> tcache p = Some (map Some (tape_slots rates many))))"

definition sj_ready :: "lib_store \<Rightarrow> nat \<Rightarrow> split_or_join \<Rightarrow> nat list \<Rightarrow> nat \<Rightarrow> nat list \<Rightarrow> bool" where
  "sj_ready s c sj rates one many \<longleftrightarrow> (\<exists>cx. ctxs s c = Some cx \<and>
     (c_type cx = SPLIT_JOIN \<or> c_type cx = FEEDBACK_LOOP) \<and> om_plan (get_om sj cx) rates one many)"

lemma fill_tape_cache_law:
  assumes "sj_ready s c sj rates one many"
  shows "\<exists>s' cx'. fill_tape_cache sj (Some c) s = Inr s' \<and> tapes s' = tapes s \<and> ctxs s' c = Some cx' \<and>
    (c_type cx' = SPLIT_JOIN \<or> c_type cx' = FEEDBACK_LOOP) \<and>
    om_plan (get_om sj cx') rates one many \<and>
    (om_type (get_om sj cx') = WEIGHTED_ROUND_ROBIN \<longrightarrow>
       tcache (get_om sj cx') = Some (map Some (tape_slots rates many))) \<and>
    (\<forall>sj' r o' m. sj' \<noteq> sj \<longrightarrow> sj_ready s c sj' r o' m \<longrightarrow> sj_ready s' c sj' r o' m) \<and>
    (\<forall>cx. ctxs s c = Some cx \<longrightarrow> om_type (get_om sj cx') = om_type (get_om sj cx))"
proof -
  obtain cx where cx: "ctxs s c = Some cx" "c_type cx = SPLIT_JOIN \<or> c_type cx = FEEDBACK_LOOP"
    "om_plan (get_om sj cx) rates one many"
    using assms by (auto simp: sj_ready_def)
  let ?p = "get_om sj cx"
  show ?thesis
  proof (cases "om_type ?p = WEIGHTED_ROUND_ROBIN \<and> tcache ?p = None")
    case False
    then have "fill_tape_cache sj (Some c) s = Inr s" using cx(1) by (auto simp: fill_tape_cache_def)
    then show ?thesis using False cx by (auto simp: om_plan_def)
  next
    case True
    let ?q = "?p\<lparr>tcache := Some (map Some (tape_slots rates many))\<rparr>"
    define cx' where "cx' = put_om sj ?q cx"
    have "build_tape_cache ?p = Inr ?q"
      using True cx(3) by (intro build_tape_cache_law) (auto simp: om_plan_def)
    then have f: "fill_tape_cache sj (Some c) s = Inr (s\<lparr>ctxs := (ctxs s)(c \<mapsto> cx')\<rparr>)"
      using True cx(1) by (simp add: fill_tape_cache_def cx'_def)
    have g: "get_om sj cx' = ?q" "c_type cx' = c_type cx" "sj' \<noteq> sj \<Longrightarrow> get_om sj' cx' = get_om sj' cx" for sj'
      by (cases sj; cases sj'; simp add: cx'_def put_om_def get_om_def)+
    have "om_plan ?q rates one many" using cx(3) True by (simp add: om_plan_def)
    then show ?thesis
      using f g cx(1,2) by (auto simp: sj_ready_def)
  qed
qed

lemma family_round_eq:
  assumes "tape_family T I sz len" and "\<And>i T. i \<in> set is \<Longrightarrow> tape_family T I sz len \<Longrightarrow>
      f i T = g i T \<and> (\<forall>T'. f i T = Inr T' \<longrightarrow> tape_family T' I sz len)"
  shows "rfold f is T = rfold g is T \<and> (\<forall>T'. rfold f is T = Inr T' \<longrightarrow> tape_family T' I sz len)"
  by (rule rfold_eq_invariant [where P = "\<lambda>T. tape_family T I sz len", OF assms(1)]) (rule assms(2))

lemma family_run_eq:
  assumes "tape_family T I sz len" "s \<in> I" "d \<in> I" "s \<noteq> d"
  shows "rfold (\<lambda>_. move_tape_item s d) js T = rfold (\<lambda>_. qs_move tape_get tape_put s d) js T \<and>
    (\<forall>T'. rfold (\<lambda>_. move_tape_item s d) js T = Inr T' \<longrightarrow> tape_family T' I sz len)"
  by (rule family_round_eq [OF assms(1)]) (use family_move_eq assms(2-4) in fastforce)

definition sj_tapes :: "tape_store \<Rightarrow> nat set \<Rightarrow> nat \<Rightarrow> nat list \<Rightarrow> nat \<Rightarrow> (nat \<Rightarrow> nat) \<Rightarrow> bool" where
  "sj_tapes T I one many sz len \<longleftrightarrow>
     tape_family T I sz len \<and> one \<in> I \<and> set many \<subseteq> I \<and> one \<notin> set many \<and> distinct many"

lemma split_weighted_eq:
  assumes plan: "om_plan p rates one many" "om_type p = WEIGHTED_ROUND_ROBIN"
    and fam: "sj_tapes T I one many sz len" and r: "\<forall>i<length many. rates ! i \<le> len one \<and> rates ! i \<le> len (many ! i)"
  shows "split_weighted p one T = rr_split_round tape_get tape_put rates one many T \<and>
    (\<forall>T'. split_weighted p one T = Inr T' \<longrightarrow> tape_family T' I sz len)"
proof -
  let ?f = "\<lambda>i T. rbind (deref (ratio p)) (\<lambda>rs. rbind (index_res rs i) (\<lambda>r.
         rbind (index_res (om_tape p) i) (\<lambda>out. wrr_branch (int sz) r one out T)))"
  let ?g = "\<lambda>i s. rbind (index_res rates i) (\<lambda>r.
       rfold (\<lambda>j s. rbind (index_res many i) (\<lambda>out. qs_move tape_get tape_put one out s)) [0..<r] s)"
  have f: "tape_family T I sz len" and one: "one \<in> I" using fam by (auto simp: sj_tapes_def)
  obtain t where t: "T one = Some t" "t_size t = int sz" using f one by (auto simp: tape_family_def)
  have n: "nat (fan p) = length many" "length rates = length many" using plan by (auto simp: om_plan_def)
  have "rfold ?f [0..<length many] T = rfold ?g [0..<length many] T \<and>
      (\<forall>T'. rfold ?f [0..<length many] T = Inr T' \<longrightarrow> tape_family T' I sz len)"
  proof (rule family_round_eq [OF f])
    fix i T assume i: "i \<in> set [0..<length many]" and f: "tape_family T I sz len"
    have "?f i T = wrr_branch (int sz) (int (rates ! i)) one (Some (many ! i)) T"
      using plan i n by (simp add: om_plan_def)
    moreover have "?g i T = rfold (\<lambda>_. qs_move tape_get tape_put one (many ! i)) [0..<rates ! i] T"
      using i n by simp
    moreover have "many ! i \<in> I" "one \<noteq> many ! i" using fam i by (auto simp: sj_tapes_def)
    ultimately show "?f i T = ?g i T \<and> (\<forall>T'. ?f i T = Inr T' \<longrightarrow> tape_family T' I sz len)"
      using wrr_branch_eq [OF f one, of "many ! i" "rates ! i"] r i by simp
  qed
  then show ?thesis using t n by (simp add: split_weighted_def rr_split_round_def)
qed

lemma split_round_robin_eq:
  assumes plan: "om_plan p rates one many" "om_type p = ROUND_ROBIN" and fam: "sj_tapes T I one many sz len"
  shows "split_round_robin p one T = rr_split_round tape_get tape_put rates one many T \<and>
    (\<forall>T'. split_round_robin p one T = Inr T' \<longrightarrow> tape_family T' I sz len)"
proof -
  have f: "tape_family T I sz len" and one: "one \<in> I" using fam by (auto simp: sj_tapes_def)
  have p: "nat (fan p) = length many" "rates = replicate (length many) 1" "om_tape p = map Some many"
    using plan by (auto simp: om_plan_def)
  show ?thesis
    unfolding split_round_robin_def rr_split_round_def p(1)
  proof (rule family_round_eq [OF f])
    fix i T assume i: "i \<in> set [0..<length many]" and f: "tape_family T I sz len"
    have "many ! i \<in> I" "one \<noteq> many ! i" using fam i by (auto simp: sj_tapes_def)
    note family_move_eq [OF f one this]
    then show "rbind (index_res (om_tape p) i) (\<lambda>out. rbind (deref out) (\<lambda>d. move_tape_item one d T))
        = rbind (index_res rates i) (\<lambda>r. rfold (\<lambda>j s. rbind (index_res many i)
            (\<lambda>out. qs_move tape_get tape_put one out s)) [0..<r] T) \<and>
      (\<forall>T'. rbind (index_res (om_tape p) i) (\<lambda>out. rbind (deref out) (\<lambda>d. move_tape_item one d T)) = Inr T'
         \<longrightarrow> tape_family T' I sz len)"
      using i p by auto
  qed
qed

lemma join_round_robin_eq:
  assumes plan: "om_plan p rates one many" "om_type p = ROUND_ROBIN" and fam: "sj_tapes T I one many sz len"
  shows "join_round_robin p one T = rr_join_round tape_get tape_put rates many one T \<and>
    (\<forall>T'. join_round_robin p one T = Inr T' \<longrightarrow> tape_family T' I sz len)"
proof -
  have f: "tape_family T I sz len" and one: "one \<in> I" using fam by (auto simp: sj_tapes_def)
  have p: "nat (fan p) = length many" "rates = replicate (length many) 1" "om_tape p = map Some many"
    using plan by (auto simp: om_plan_def)
  show ?thesis
    unfolding join_round_robin_def rr_join_round_def p(1)
  proof (rule family_round_eq [OF f])
    fix i T assume i: "i \<in> set [0..<length many]" and f: "tape_family T I sz len"
    have m: "many ! i \<in> I" "many ! i \<noteq> one" using fam i by (auto simp: sj_tapes_def)
    note family_move_eq [OF f m(1) one m(2)]
    then show "rbind (index_res (om_tape p) i) (\<lambda>inp. rbind (deref inp) (\<lambda>s. move_tape_item s one T))
        = rbind (index_res rates i) (\<lambda>r. rfold (\<lambda>j s. rbind (index_res many i)
            (\<lambda>inp. qs_move tape_get tape_put inp one s)) [0..<r] T) \<and>
      (\<forall>T'. rbind (index_res (om_tape p) i) (\<lambda>inp. rbind (deref inp) (\<lambda>s. move_tape_item s one T)) = Inr T'
         \<longrightarrow> tape_family T' I sz len)"
      using i p by auto
  qed
qed

lemma join_weighted_eq:
  assumes plan: "om_plan p rates one many" and tc: "tcache p = Some (map Some (tape_slots rates many))"
    and sl: "slots p = int (sum_list rates)" and fam: "sj_tapes T I one many sz len"
  shows "join_weighted p one T = rr_join_round tape_get tape_put rates many one T \<and>
    (\<forall>T'. join_weighted p one T = Inr T' \<longrightarrow> tape_family T' I sz len)"
proof -
  let ?F = "tape_slots rates many"
  let ?mv = "\<lambda>m. qs_move tape_get tape_put m one"
  have f: "tape_family T I sz len" and one: "one \<in> I" using fam by (auto simp: sj_tapes_def)
  have n: "length rates = length many" using plan by (simp add: om_plan_def)
  have sub: "set ?F \<subseteq> set many" using n by (auto simp: tape_slots_def)
  have "rfold (\<lambda>m. move_tape_item m one) ?F T = rfold ?mv ?F T \<and>
      (\<forall>T'. rfold (\<lambda>m. move_tape_item m one) ?F T = Inr T' \<longrightarrow> tape_family T' I sz len)"
  proof (rule family_round_eq [OF f])
    fix m T assume m: "m \<in> set ?F" and f: "tape_family T I sz len"
    have "m \<in> I" "m \<noteq> one" using fam sub m by (auto simp: sj_tapes_def)
    then show "move_tape_item m one T = ?mv m T \<and>
        (\<forall>T'. move_tape_item m one T = Inr T' \<longrightarrow> tape_family T' I sz len)"
      using family_move_eq [OF f _ one] by fastforce
  qed
  moreover have "join_weighted p one T = rfold (\<lambda>m. move_tape_item m one) ?F T"
  proof -
    have "rfold (\<lambda>slot T. rbind (deref (tcache p)) (\<lambda>tc. rbind (index_res tc slot) (\<lambda>inp.
        rbind (deref inp) (\<lambda>s. move_tape_item s one T)))) [0..<length ?F] T
      = rfold (\<lambda>i. move_tape_item (?F ! i) one) [0..<length ?F] T"
      by (rule rfold_cong) (simp_all add: tc)
    then show ?thesis
      using sl rfold_upt_nth [of "\<lambda>m. move_tape_item m one" ?F T]
      by (simp add: join_weighted_def length_tape_slots)
  qed
  moreover have "rfold ?mv ?F T = rr_join_round tape_get tape_put rates many one T"
  proof -
    have rep: "rfold ?mv (replicate r m) u = rfold (\<lambda>_. ?mv m) [0..<r] u" for r m u
      using rfold_map [of ?mv "\<lambda>_. m" "[0..<r]" u] by (simp add: map_replicate_const)
    show ?thesis
      unfolding tape_slots_def rfold_concat rfold_map rep rr_join_round_def n
      by (rule rfold_cong) (auto simp: n)
  qed
  ultimately show ?thesis by simp
qed

section \<open>The two operations\<close>

lemma run_splitter_eq:
  assumes "sj_ready s c SPLITTER rates one many" and fam: "sj_tapes (tapes s) I one many sz len"
    and r: "\<forall>i<length many. rates ! i \<le> len one \<and> rates ! i \<le> len (many ! i)"
    and T: "rr_split_round tape_get tape_put rates one many (tapes s) = Inr T"
  shows "\<exists>s'. run_splitter (Some c) s = Inr s' \<and> tapes s' = T \<and> tape_family T I sz len \<and>
    (\<forall>r o' m. sj_ready s c JOINER r o' m \<longrightarrow> sj_ready s' c JOINER r o' m)"
proof -
  obtain cx where cx: "ctxs s c = Some cx" "c_type cx = SPLIT_JOIN \<or> c_type cx = FEEDBACK_LOOP"
    using assms(1) by (auto simp: sj_ready_def)
  obtain s1 cx1 where s1: "fill_tape_cache SPLITTER (Some c) s = Inr s1" "tapes s1 = tapes s"
    "ctxs s1 c = Some cx1" "om_plan (get_om SPLITTER cx1) rates one many"
    "\<And>r o' m. sj_ready s c JOINER r o' m \<Longrightarrow> sj_ready s1 c JOINER r o' m"
    using fill_tape_cache_law [OF assms(1)] by (metis split_or_join.distinct(1))
  let ?p = "splitter (c_data cx1)"
  have plan: "om_plan ?p rates one many" using s1(4) by (simp add: get_om_def)
  have one: "one_tape ?p = Some one" "nat (fan ?p) \<noteq> 0" using plan by (auto simp: om_plan_def)
  have ready: "sj_ready (s1\<lparr>tapes := T\<rparr>) c JOINER r o' m" if "sj_ready s c JOINER r o' m" for r o' m
    using s1(5) [OF that] by (auto simp: sj_ready_def)
  have "run_splitter (Some c) s = Inr (s1\<lparr>tapes := T\<rparr>) \<and> tape_family T I sz len"
  proof (cases "om_type ?p = WEIGHTED_ROUND_ROBIN")
    case True
    then show ?thesis
      using split_weighted_eq [OF plan True fam r] T cx s1(1-3) one
      by (simp add: run_splitter_def on_tapes_def)
  next
    case False
    then have ty: "om_type ?p = ROUND_ROBIN" using plan by (auto simp: om_plan_def)
    then show ?thesis
      using split_round_robin_eq [OF plan ty fam] T cx s1(1-3) one
      by (simp add: run_splitter_def on_tapes_def)
  qed
  then show ?thesis using ready by (intro exI [of _ "s1\<lparr>tapes := T\<rparr>"]) simp
qed

lemma run_joiner_eq:
  assumes "sj_ready s c JOINER rates one many" and fam: "sj_tapes (tapes s) I one many sz len"
    and T: "rr_join_round tape_get tape_put rates many one (tapes s) = Inr T"
  shows "\<exists>s' cx. run_joiner (Some c) s = Inr s' \<and> tapes s' = T \<and> tape_family T I sz len \<and> ctxs s' c = Some cx \<and>
    sj_ready s' c JOINER rates one many \<and>
    (\<forall>cx0. ctxs s c = Some cx0 \<longrightarrow> om_type (joiner (c_data cx)) = om_type (joiner (c_data cx0))) \<and>
    (om_type (joiner (c_data cx)) = WEIGHTED_ROUND_ROBIN \<longrightarrow>
      tcache (joiner (c_data cx)) = Some (map Some (tape_slots rates many)))"
proof -
  obtain cx where cx: "ctxs s c = Some cx" "c_type cx = SPLIT_JOIN \<or> c_type cx = FEEDBACK_LOOP"
    using assms(1) by (auto simp: sj_ready_def)
  obtain s1 cx1 where s1: "fill_tape_cache JOINER (Some c) s = Inr s1" "tapes s1 = tapes s"
    "ctxs s1 c = Some cx1" "om_plan (get_om JOINER cx1) rates one many"
    "om_type (get_om JOINER cx1) = WEIGHTED_ROUND_ROBIN \<longrightarrow>
       tcache (get_om JOINER cx1) = Some (map Some (tape_slots rates many))"
    "c_type cx1 = SPLIT_JOIN \<or> c_type cx1 = FEEDBACK_LOOP"
    "\<forall>cx. ctxs s c = Some cx \<longrightarrow> om_type (get_om JOINER cx1) = om_type (get_om JOINER cx)"
    using fill_tape_cache_law [OF assms(1)] by blast
  let ?p = "joiner (c_data cx1)"
  have plan: "om_plan ?p rates one many" using s1(4) by (simp add: get_om_def)
  have one: "one_tape ?p = Some one" "nat (fan ?p) \<noteq> 0" using plan by (auto simp: om_plan_def)
  have "run_joiner (Some c) s = Inr (s1\<lparr>tapes := T\<rparr>) \<and> tape_family T I sz len"
  proof (cases "om_type ?p = WEIGHTED_ROUND_ROBIN")
    case True
    then have sl: "slots ?p = int (sum_list rates)" and tc: "tcache ?p = Some (map Some (tape_slots rates many))"
      using plan s1(5) by (auto simp: om_plan_def get_om_def)
    note eq = join_weighted_eq [OF plan tc sl fam]
    show ?thesis
    proof (cases "nat (slots ?p) = 0")
      case False
      then show ?thesis
        using eq T cx s1(1-3) one True by (simp add: run_joiner_def on_tapes_def)
    next
      case z: True
      then have "join_weighted ?p one (tapes s) = Inr (tapes s)" by (simp add: join_weighted_def)
      then have "T = tapes s" "tape_family T I sz len" using eq T by auto
      then show ?thesis
        using z cx s1(1-3) one True by (simp add: run_joiner_def)
    qed
  next
    case False
    then have ty: "om_type ?p = ROUND_ROBIN" using plan by (auto simp: om_plan_def)
    then show ?thesis
      using join_round_robin_eq [OF plan ty fam] T cx s1(1-3) one
      by (simp add: run_joiner_def on_tapes_def)
  qed
  then show ?thesis using s1(3-7)
    by (intro exI [of _ "s1\<lparr>tapes := T\<rparr>"] exI [of _ cx1]) (simp add: sj_ready_def get_om_def)
qed

lemma family_counts:
  assumes "tape_family T I sz len" "i \<in> I"
  shows "length (tape_items_at T i) + tape_room_at T i + 1 = len i"
proof -
  obtain t where t: "T i = Some t" "tape_ok t" "t_size t = int sz" "length (t_data t) = len i * sz"
    using assms by (auto simp: tape_family_def)
  obtain sz1 M a where sh: "tape_shape t sz1 M a (tape_used t)" using tape_ok_shape [OF t(2)] by blast
  have "sz1 = sz" "M = len i" "tape_used t < M" using sh t(3,4) by (auto simp: tape_shape_def)
  then show ?thesis
    using t(1) tape_shape_items [OF sh] tape_shape_room [OF sh]
    by (simp add: tape_items_at_def tape_room_at_def)
qed

lemma sj_split_pre:
  assumes "sj_ready s c SPLITTER rates inp outs" "sj_tapes (tapes s) I inp outs sz len"
    "sum_list rates \<le> length (tape_items_at (tapes s) inp)"
    "\<forall>i<length outs. rates ! i \<le> tape_room_at (tapes s) (outs ! i)"
  shows "tq.split_pre (tapes s) I rates inp outs"
    "\<forall>i<length outs. rates ! i \<le> len inp \<and> rates ! i \<le> len (outs ! i)"
proof -
  have fam: "tape_family (tapes s) I sz len" and mem: "inp \<in> I" "set outs \<subseteq> I"
    using assms(2) by (auto simp: sj_tapes_def)
  have len: "length rates = length outs" using assms(1) by (auto simp: sj_ready_def om_plan_def)
  show "tq.split_pre (tapes s) I rates inp outs"
    using assms len tape_family_ok [OF fam] tape_family_fits [OF fam mem(1)]
    by (auto simp: tq.split_pre_def sj_tapes_def subset_iff)
  show "\<forall>i<length outs. rates ! i \<le> len inp \<and> rates ! i \<le> len (outs ! i)"
  proof (intro allI impI)
    fix i assume i: "i < length outs"
    have "rates ! i \<le> sum_list rates" using i len by (simp add: elem_le_sum_list)
    moreover have "outs ! i \<in> I" using i mem by auto
    ultimately show "rates ! i \<le> len inp \<and> rates ! i \<le> len (outs ! i)"
      using family_counts [OF fam mem(1)] family_counts [OF fam, of "outs ! i"] assms(3,4) i
      by fastforce
  qed
qed

lemma sj_join_pre:
  assumes "sj_ready s c JOINER rates out inps" "sj_tapes (tapes s) I out inps sz len"
    "sum_list rates \<le> tape_room_at (tapes s) out"
    "\<forall>i<length inps. rates ! i \<le> length (tape_items_at (tapes s) (inps ! i))"
  shows "tq.join_pre (tapes s) I rates inps out"
proof -
  have fam: "tape_family (tapes s) I sz len" and mem: "out \<in> I" "set inps \<subseteq> I"
    using assms(2) by (auto simp: sj_tapes_def)
  have len: "length rates = length inps" using assms(1) by (auto simp: sj_ready_def om_plan_def)
  show ?thesis
    using assms len tape_family_ok [OF fam] tape_family_fits [OF fam _ mem(1)]
    by (auto simp: tq.join_pre_def sj_tapes_def subset_iff)
qed

section \<open>The duplicate splitter\<close>

lemma dup_copy_put:
  assumes "T s = Some ts" "T d = Some td" "s \<noteq> d" "t_size td = int (length x)"
    "load_bytes (t_data ts) (read_pos ts) (int (length x)) = Inr x"
  shows "rbind (upd_tape d (incr_tape_write (t_size td)) T) (copy_tape_item s d) = tape_put d x T"
  using assms by (simp add: upd_tape_def copy_tape_item_def memcpy_res_def tape_put_def push_tape_def
      incr_tape_write_def Let_def rbind_def split: sum.split)

lemma tape_get_load:
  assumes "tape_get s T = Inr (x, T')" "T s = Some t"
  shows "upd_tape s (incr_tape_read (t_size t)) T = Inr T' \<and> T' s = Some (incr_tape_read (t_size t) t) \<and>
    load_bytes (t_data t) (read_pos (incr_tape_read (t_size t) t)) (t_size t) = Inr x \<and>
    t_size t = int (length x)"
  using assms by (auto simp: tape_get_def pop_tape_def Let_def res_simps upd_tape_def incr_tape_read_def
      load_bytes_def split: if_splits)

lemma tape_put_frame: "tape_put d x T = Inr T' \<Longrightarrow> i \<noteq> d \<Longrightarrow> T' i = T i"
  by (auto simp: tape_put_def res_simps)

lemma tape_put_size:
  "tape_put d x T = Inr T' \<Longrightarrow> map_option t_size (T' i) = map_option t_size (T i)"
  by (auto simp: tape_put_def push_tape_def incr_tape_write_def Let_def res_simps)

lemma split_duplicate_eq:
  assumes plan: "om_tape p = map Some outs" "fan p = int (length outs)" and inp: "inp \<notin> set outs"
    and sz: "\<forall>i\<in>insert inp (set outs). map_option t_size (T i) = Some (int sz)"
    and get: "tape_get inp T = Inr (x, T')"
  shows "split_duplicate p inp T = dup_split tape_get tape_put inp outs T"
proof -
  obtain t where t: "T inp = Some t" "t_size t = int sz" using sz by auto
  note g = tape_get_load [OF get t(1)]
  define t' where "t' = incr_tape_read (t_size t) t"
  let ?f = "\<lambda>slot T. rbind (index_res (om_tape p) slot) (\<lambda>out. rbind (deref out) (\<lambda>d.
          rbind (deref (T d)) (\<lambda>td. rbind (upd_tape d (incr_tape_write (t_size td)) T) (copy_tape_item inp d))))"
  let ?P = "\<lambda>T. T inp = Some t' \<and> (\<forall>i\<in>set outs. map_option t_size (T i) = Some (int sz))"
  have "T' = T(inp \<mapsto> t')" using g t by (auto simp: upd_tape_def t'_def)
  then have P0: "?P T'" using sz inp by auto
  have "rfold ?f [0..<length outs] T' = rfold (\<lambda>i. tape_put (outs ! i) x) [0..<length outs] T' \<and>
      (\<forall>U. rfold ?f [0..<length outs] T' = Inr U \<longrightarrow> ?P U)"
  proof (rule rfold_eq_invariant [where P = ?P, OF P0])
    fix i u assume i: "i \<in> set [0..<length outs]" and P: "?P u"
    then have o: "outs ! i \<in> set outs" by simp
    then obtain td where td: "u (outs ! i) = Some td" "t_size td = int sz" using P by fastforce
    have "outs ! i \<noteq> inp" using o inp by auto
    then have "?f i u = tape_put (outs ! i) x u"
      using dup_copy_put [of u inp t' "outs ! i" td x] P td i g t plan(1)
      by (auto simp: t'_def incr_tape_read_def)
    moreover have "?P v" if "tape_put (outs ! i) x u = Inr v" for v
      using tape_put_frame [OF that, of inp] tape_put_size [OF that] P \<open>outs ! i \<noteq> inp\<close> by simp
    ultimately show "?f i u = tape_put (outs ! i) x u \<and> (\<forall>v. ?f i u = Inr v \<longrightarrow> ?P v)" by simp
  qed
  moreover have "upd_tape inp (incr_tape_read (t_size t)) T = Inr T'" using g by blast
  ultimately show ?thesis
    using rfold_upt_nth [of "\<lambda>d. tape_put d x" outs T']
    by (simp add: split_duplicate_def dup_split_def t(1) get plan(2))
qed

section \<open>Properties\<close>

text \<open>C20: the block copy of the weighted splitter, whichever of the two rings wraps around, leaves
  the same tapes as reading and writing the items one at a time.\<close>

theorem wrr_block_is_item_loop:
  assumes "tape_family T I sz len" "s \<in> I" "d \<in> I" "s \<noteq> d" "1 \<le> n" "n \<le> len s" "n \<le> len d"
  shows "wrr_block (int sz) (int n) s d T = rfold (\<lambda>_. move_tape_item s d) [0..<n] T"
proof -
  obtain ts a td b where pair: "tape_pair T s ts (len s) a d td (len d) b sz"
    using tape_family_pair [OF assms(1-4)] by blast
  have "wrr_block (int sz) (int n) s d T = rfold (\<lambda>_. move_item_sized (int sz) s d) [0..<n] T"
    using wrr_block_closed [OF pair assms(5-7)] moves_closed [OF pair, of "[0..<n]"] by simp
  also have "\<dots> = rfold (\<lambda>_. qs_move tape_get tape_put s d) [0..<n] T"
    using family_moves_eq [OF assms(1-4)] by blast
  also have "\<dots> = rfold (\<lambda>_. move_tape_item s d) [0..<n] T"
    using family_run_eq [OF assms(1-4), of "[0..<n]"] by simp
  finally show ?thesis .
qed

text \<open>C21: one run of a round-robin or weighted round-robin splitter takes the first
  \<open>sum_list rates\<close> items off its input and appends to branch \<open>i\<close>, in order, its slice of
  \<open>rates ! i\<close> of them; every other tape of the family \<open>I\<close> holds the items it held.\<close>

theorem run_splitter_distributes:
  assumes "sj_ready s c SPLITTER rates inp outs" "sj_tapes (tapes s) I inp outs sz len"
    "sum_list rates \<le> length (tape_items_at (tapes s) inp)"
    "\<forall>i<length outs. rates ! i \<le> tape_room_at (tapes s) (outs ! i)"
  shows "\<exists>s'. run_splitter (Some c) s = Inr s' \<and> tape_family (tapes s') I sz len \<and>
    tape_items_at (tapes s') inp = drop (sum_list rates) (tape_items_at (tapes s) inp) \<and>
    (\<forall>i<length outs. tape_items_at (tapes s') (outs ! i)
       = tape_items_at (tapes s) (outs ! i) @ branch_slice rates (tape_items_at (tapes s) inp) i) \<and>
    (\<forall>k\<in>I. k \<noteq> inp \<longrightarrow> k \<notin> set outs \<longrightarrow> tape_items_at (tapes s') k = tape_items_at (tapes s) k)"
proof -
  obtain T where T: "rr_split_round tape_get tape_put rates inp outs (tapes s) = Inr T"
    "tq.split_upto (tapes s) T I rates inp outs (length outs)"
    using tq.split_round_law [OF sj_split_pre(1) [OF assms]] by blast
  obtain s' where s': "run_splitter (Some c) s = Inr s'" "tapes s' = T" "tape_family T I sz len"
    using run_splitter_eq [OF assms(1,2) sj_split_pre(2) [OF assms] T(1)] by blast
  have "length rates = length outs" using assms(1) by (auto simp: sj_ready_def om_plan_def)
  then have "branch_start rates (length outs) = sum_list rates" by (simp add: branch_start_def)
  then show ?thesis using s' T(2) by (auto simp: tq.split_upto_def)
qed

text \<open>C22: one run of a round-robin or weighted joiner appends to its output, branch after branch,
  \<open>rates ! i\<close> items of branch \<open>i\<close>, and takes them off the branches; every other tape of the
  family \<open>I\<close> holds the items it held.  After the run the tape cache of a weighted joiner is filled, slot
  after slot with the branch whose turn it is, and the joiner is ready for its next run.\<close>

theorem run_joiner_collects:
  assumes "sj_ready s c JOINER rates out inps" "sj_tapes (tapes s) I out inps sz len"
    "sum_list rates \<le> tape_room_at (tapes s) out"
    "\<forall>i<length inps. rates ! i \<le> length (tape_items_at (tapes s) (inps ! i))"
  shows "\<exists>s' cx. run_joiner (Some c) s = Inr s' \<and> tape_family (tapes s') I sz len \<and>
    tape_items_at (tapes s') out = tape_items_at (tapes s) out @
      concat (map (\<lambda>i. take (rates ! i) (tape_items_at (tapes s) (inps ! i))) [0..<length inps]) \<and>
    (\<forall>i<length inps. tape_items_at (tapes s') (inps ! i)
       = drop (rates ! i) (tape_items_at (tapes s) (inps ! i))) \<and>
    (\<forall>k\<in>I. k \<noteq> out \<longrightarrow> k \<notin> set inps \<longrightarrow> tape_items_at (tapes s') k = tape_items_at (tapes s) k) \<and>
    sj_ready s' c JOINER rates out inps \<and> ctxs s' c = Some cx \<and>
    (\<forall>cx0. ctxs s c = Some cx0 \<longrightarrow> om_type (joiner (c_data cx)) = om_type (joiner (c_data cx0))) \<and>
    (om_type (joiner (c_data cx)) = WEIGHTED_ROUND_ROBIN \<longrightarrow>
      tcache (joiner (c_data cx)) = Some (map Some (concat (map (\<lambda>i. replicate (rates ! i) (inps ! i)) [0..<length inps]))))"
proof -
  obtain T where T: "rr_join_round tape_get tape_put rates inps out (tapes s) = Inr T"
    "tq.join_upto (tapes s) T I rates inps out (length inps)"
    using tq.join_round_law [OF sj_join_pre [OF assms]] by blast
  obtain s' cx where s': "run_joiner (Some c) s = Inr s'" "tapes s' = T" "tape_family T I sz len" "ctxs s' c = Some cx"
    "sj_ready s' c JOINER rates out inps"
    "\<forall>cx0. ctxs s c = Some cx0 \<longrightarrow> om_type (joiner (c_data cx)) = om_type (joiner (c_data cx0))"
    "om_type (joiner (c_data cx)) = WEIGHTED_ROUND_ROBIN \<longrightarrow>
      tcache (joiner (c_data cx)) = Some (map Some (tape_slots rates inps))"
    using run_joiner_eq [OF assms(1,2) T(1)] by blast
  have "length rates = length inps" using assms(1) by (auto simp: sj_ready_def om_plan_def)
  then show ?thesis using s' T(2)
    by (intro exI [of _ s'] exI [of _ cx]) (auto simp: tq.join_upto_def tape_slots_def)
qed

text \<open>C23: a split/join whose splitter and joiner have the same weights and whose branches are the
  tapes themselves passes a round of items on in order: running the splitter and then the joiner
  moves the first \<open>sum_list rates\<close> items from input to output and leaves the branches empty.\<close>

theorem split_then_join_is_identity:
  assumes "sj_ready s c SPLITTER rates inp mids" "sj_ready s c JOINER rates out mids"
    "sj_tapes (tapes s) I inp mids sz len" "out \<in> I" "out \<notin> set mids" "out \<noteq> inp"
    "\<forall>m\<in>set mids. tape_items_at (tapes s) m = []"
    "sum_list rates \<le> length (tape_items_at (tapes s) inp)" "sum_list rates \<le> tape_room_at (tapes s) out"
    "\<forall>i<length mids. rates ! i \<le> tape_room_at (tapes s) (mids ! i)"
  shows "\<exists>s'. rbind (run_splitter (Some c) s) (run_joiner (Some c)) = Inr s' \<and>
    tape_items_at (tapes s') out
      = tape_items_at (tapes s) out @ take (sum_list rates) (tape_items_at (tapes s) inp) \<and>
    tape_items_at (tapes s') inp = drop (sum_list rates) (tape_items_at (tapes s) inp) \<and>
    (\<forall>m\<in>set mids. tape_items_at (tapes s') m = [])"
proof -
  note pre = sj_split_pre [OF assms(1,3,8,10)]
  have fam: "tape_family (tapes s) I sz len" "inp \<in> I" using assms(3) by (auto simp: sj_tapes_def)
  obtain T where T: "rbind (rr_split_round tape_get tape_put rates inp mids (tapes s))
      (rr_join_round tape_get tape_put rates mids out) = Inr T"
    "tape_items_at T out = tape_items_at (tapes s) out @ take (sum_list rates) (tape_items_at (tapes s) inp)"
    "tape_items_at T inp = drop (sum_list rates) (tape_items_at (tapes s) inp)"
    "\<forall>m\<in>set mids. tape_items_at T m = []"
    using tq.split_join_identity [OF pre(1) assms(4-7,9)] tape_family_fits [OF fam assms(4)] by blast
  obtain U where U: "rr_split_round tape_get tape_put rates inp mids (tapes s) = Inr U"
    "rr_join_round tape_get tape_put rates mids out U = Inr T"
    using T(1) by (auto simp: res_simps)
  obtain s1 where s1: "run_splitter (Some c) s = Inr s1" "tapes s1 = U" "tape_family U I sz len"
    "sj_ready s1 c JOINER rates out mids"
    using run_splitter_eq [OF assms(1,3) pre(2) U(1)] assms(2) by blast
  have "sj_tapes (tapes s1) I out mids sz len" using s1(2,3) assms(3-6) by (auto simp: sj_tapes_def)
  then obtain s2 where "run_joiner (Some c) s1 = Inr s2" "tapes s2 = T"
    using run_joiner_eq [OF s1(4)] U(2) s1(2) by blast
  then show ?thesis using s1(1) T(2-4) by auto
qed

text \<open>C26: a duplicate splitter takes one item off its input and appends a copy of it to every branch.\<close>

theorem run_splitter_duplicates:
  assumes "ctxs s c = Some cx" "c_type cx = SPLIT_JOIN \<or> c_type cx = FEEDBACK_LOOP"
    "om_type (splitter (c_data cx)) = DUPLICATE" "one_tape (splitter (c_data cx)) = Some inp"
    "om_tape (splitter (c_data cx)) = map Some outs" "fan (splitter (c_data cx)) = int (length outs)"
    "sj_tapes (tapes s) I inp outs sz len" "tape_items_at (tapes s) inp = x # xs"
    "\<forall>out\<in>set outs. 0 < tape_room_at (tapes s) out"
  shows "\<exists>T. run_splitter (Some c) s = Inr (s\<lparr>tapes := T\<rparr>) \<and> tape_items_at T inp = xs \<and>
    (\<forall>out\<in>set outs. tape_items_at T out = tape_items_at (tapes s) out @ [x])"
proof -
  have fam: "tape_family (tapes s) I sz len" and mem: "inp \<in> I" "set outs \<subseteq> I" "inp \<notin> set outs"
    "distinct outs" using assms(7) by (auto simp: sj_tapes_def)
  have q: "tapes_ok (tapes s) I" by (rule tape_family_ok [OF fam])
  have fits: "\<forall>out\<in>set outs. 0 < tape_room_at (tapes s) out \<and> tape_fits_at (tapes s) out x"
    using assms(8,9) mem tape_family_fits [OF fam mem(1), of _ x] by auto
  obtain T1 where get: "tape_get inp (tapes s) = Inr (x, T1)"
    using tq.get_law [OF q mem(1) assms(8)] by blast
  have "\<forall>i\<in>insert inp (set outs). map_option t_size (tapes s i) = Some (int sz)"
    using fam mem by (fastforce simp: tape_family_def)
  then have "split_duplicate (splitter (c_data cx)) inp (tapes s)
      = dup_split tape_get tape_put inp outs (tapes s)"
    using split_duplicate_eq [OF assms(5,6) mem(3) _ get] by blast
  moreover obtain T where "dup_split tape_get tape_put inp outs (tapes s) = Inr T" "tape_items_at T inp = xs"
    "\<forall>out\<in>set outs. tape_items_at T out = tape_items_at (tapes s) out @ [x]"
    using tq.dup_split_law [OF q mem(1,2,4,3) assms(8) fits] by blast
  ultimately show ?thesis
    using assms(1-4)
    by (intro exI [of _ T]) (auto simp: run_splitter_def fill_tape_cache_def get_om_def on_tapes_def)
qed

section \<open>An instance\<close>

text \<open>
  A split/join with weights 1 and 4 over tapes of eight one-byte items, whose input holds five
  items that wrap around the end of the ring.
\<close>

definition sample_ring :: "byte list \<Rightarrow> int \<Rightarrow> int \<Rightarrow> tape" where
  "sample_ring bs r w = \<lparr>t_data = bs, read_pos = r, write_pos = w, t_size = 1, t_mask = 7\<rparr>"

definition sample_tapes :: tape_store where
  "sample_tapes = [2 \<mapsto> sample_ring [0, 0, 0, 0, 0, 0, 0, 0] 0 0, 3 \<mapsto> sample_ring [0, 0, 0, 0, 0, 0, 0, 0] 5 5,
     4 \<mapsto> sample_ring [0, 0, 0, 0, 0, 0, 0, 0] 6 6, 5 \<mapsto> sample_ring [20, 21, 22, 23, 24, 25, 26, 27] 0 2,
     6 \<mapsto> sample_ring [10, 11, 12, 13, 14, 15, 16, 17] 6 3]"

definition sample_plan :: "splitjoin_type \<Rightarrow> nat \<Rightarrow> nat list \<Rightarrow> one_to_many" where
  "sample_plan ty one many = \<lparr>om_type = ty, fan = 2, ratio = Some [1, 4], slots = 5,
     one_tape = Some one, om_tape = map Some many, tcache = None\<rparr>"

definition sample_sj :: "splitjoin_type \<Rightarrow> nat list \<Rightarrow> lib_store" where
  "sample_sj ty inps = \<lparr>ctxs = [0 \<mapsto> \<lparr>stream_data = 0, c_type = SPLIT_JOIN, peek_size = 0, pop_size = 0,
       push_size = 0, work_function = None, c_parent = None, input_tape = None, output_tape = None,
       c_data = \<lparr>first_child = None, last_child = None, splitter = sample_plan ty 6 [2, 3],
                 joiner = sample_plan WEIGHTED_ROUND_ROBIN 4 inps\<rparr>\<rparr>],
     tapes = sample_tapes, cells = (\<lambda>_. None), next_id = 9\<rparr>"

lemma sample_tapes_family: "I \<subseteq> {2, 3, 4, 5, 6} \<Longrightarrow> tape_family sample_tapes I 1 (\<lambda>_. 8)"
  by (auto simp: tape_family_def sample_tapes_def sample_ring_def tape_ok_def)

lemma sample_items:
  "tape_items_at sample_tapes 6 = [[17], [10], [11], [12], [13]]"
  "tape_items_at sample_tapes 2 = []" "tape_room_at sample_tapes 2 = 7"
  "tape_items_at sample_tapes 3 = []" "tape_room_at sample_tapes 3 = 7"
  "tape_items_at sample_tapes 4 = []" "tape_room_at sample_tapes 4 = 7"
  "tape_items_at sample_tapes 5 = [[21], [22]]"
  by (simp_all add: tape_items_at_def tape_room_at_def sample_tapes_def sample_ring_def tape_items_def
      tape_room_def tape_used_def ring_items_def ring_read_def upt_rec)

lemma sample_sj_ready:
  "sj_ready (sample_sj WEIGHTED_ROUND_ROBIN inps) 0 SPLITTER [1, 4] 6 [2, 3]"
  "length inps = 2 \<Longrightarrow> sj_ready (sample_sj ty inps) 0 JOINER [1, 4] 4 inps"
  by (auto simp: sj_ready_def sample_sj_def sample_plan_def get_om_def om_plan_def)

lemma sample_sj_tapes [simp]: "tapes (sample_sj ty inps) = sample_tapes"
  by (simp add: sample_sj_def)

lemma sample_sj_family:
  "one \<in> {2, 3, 4, 5, 6} \<Longrightarrow> set many \<subseteq> {2, 3, 4, 5, 6} \<Longrightarrow> one \<notin> set many \<Longrightarrow> distinct many \<Longrightarrow>
     sj_tapes (tapes (sample_sj ty inps)) {2, 3, 4, 5, 6} one many 1 (\<lambda>_. 8)"
  using sample_tapes_family by (auto simp: sj_tapes_def)

lemma wrr_block_is_item_loop_witness:
  "wrr_block 1 4 6 3 sample_tapes = rfold (\<lambda>_. move_tape_item 6 3) [0..<4] sample_tapes"
  using wrr_block_is_item_loop [OF sample_tapes_family [of "{3, 6}"], of 6 3 4] by simp

lemma run_splitter_distributes_witness:
  "\<exists>s'. run_splitter (Some 0) (sample_sj WEIGHTED_ROUND_ROBIN [2, 3]) = Inr s' \<and>
    tape_items_at (tapes s') 6 = [] \<and> tape_items_at (tapes s') 2 = [[17]] \<and>
    tape_items_at (tapes s') 3 = [[10], [11], [12], [13]]"
  using run_splitter_distributes [OF sample_sj_ready(1) [of "[2, 3]"] sample_sj_family [of 6 "[2, 3]"]]
  by (auto simp: sample_items less_Suc_eq all_conj_distrib branch_slice_def branch_start_def)

lemma run_joiner_collects_witness:
  "\<exists>s' cx. run_joiner (Some 0) (sample_sj NULL_SJ [5, 6]) = Inr s' \<and>
    tape_items_at (tapes s') 4 = [[21], [17], [10], [11], [12]] \<and>
    tape_items_at (tapes s') 5 = [[22]] \<and> tape_items_at (tapes s') 6 = [[13]] \<and>
    ctxs s' 0 = Some cx \<and> tcache (joiner (c_data cx)) = Some [Some 5, Some 6, Some 6, Some 6, Some 6]"
  using run_joiner_collects [OF sample_sj_ready(2) [of "[5, 6]" NULL_SJ] sample_sj_family [of 4 "[5, 6]"]]
  by (auto simp: sample_items less_Suc_eq all_conj_distrib upt_rec)
    (auto simp: sample_sj_def sample_plan_def numeral_eq_Suc)

lemma split_then_join_is_identity_witness:
  "\<exists>s'. rbind (run_splitter (Some 0) (sample_sj WEIGHTED_ROUND_ROBIN [2, 3])) (run_joiner (Some 0)) = Inr s' \<and>
    tape_items_at (tapes s') 4 = [[17], [10], [11], [12], [13]] \<and> tape_items_at (tapes s') 6 = []"
  using split_then_join_is_identity [OF sample_sj_ready(1) [of "[2, 3]"] sample_sj_ready(2) [of "[2, 3]"]
      sample_sj_family [of 6 "[2, 3]"]]
  by (auto simp: sample_items less_Suc_eq)

lemma run_splitter_duplicates_witness:
  "\<exists>T. run_splitter (Some 0) (sample_sj DUPLICATE [2, 3]) = Inr ((sample_sj DUPLICATE [2, 3])\<lparr>tapes := T\<rparr>) \<and>
    tape_items_at T 6 = [[10], [11], [12], [13]] \<and> tape_items_at T 2 = [[17]] \<and> tape_items_at T 3 = [[17]]"
  using run_splitter_duplicates [of "sample_sj DUPLICATE [2, 3]" 0 _ 6 "[2, 3]",
      OF _ _ _ _ _ _ sample_sj_family [of 6 "[2, 3]"]]
  by (auto simp: sample_items sample_sj_def sample_plan_def)

end
