(* ===== verification/Cell_Buffer.thy ===== *)
theory Cell_Buffer
  imports Ring_Bytes Queue_Store
begin

text \<open>
  The circular buffers of the Cell library (\<open>library/cell/src/buffer.h\<close>, \<open>src/ppu/buffer.c\<close>,
  \<open>src/spu/buffer.c\<close>) and the \<open>peek\<close>, \<open>pop\<close>, \<open>popn\<close> and \<open>push\<close> of \<open>include/beginfilter.h\<close>.
  Head, tail and mask are 32-bit words and the arithmetic wraps around.  A buffer is a control
  block and a data area; areas are shared by \<open>duplicate_buffer\<close>, so they live in a store of their
  own.  The checks compiled in by \<open>CHECK\<close> and \<open>CHECK_PARAMS\<close> fault with \<open>CheckFail\<close>.
\<close>

section \<open>Control blocks\<close>

record in_dtcb =
  dtcb_head :: u32
  dtcb_tail :: u32
  dtcb_ack :: u32

record buffer_cb =
  ihead :: u32
  otail :: u32
  front_action :: u8
  back_action :: u8
  dt_active :: u8
  b_mask :: u32
  b_head :: u32
  b_tail :: u32
  b_data :: nat
  in_back_buffered_bytes :: u32
  out_front_buffered_bytes :: u32
  front_in_dtcb :: in_dtcb
  back_in_dtcb :: in_dtcb

record buf_store =
  bufs :: "nat \<Rightarrow> buffer_cb option"
  datas :: "nat \<Rightarrow> byte list option"

abbreviation BUFFER_ACTION_NONE :: u8 where "BUFFER_ACTION_NONE \<equiv> 0"
abbreviation BUFFER_ACTION_IN :: u8 where "BUFFER_ACTION_IN \<equiv> 1"
abbreviation BUFFER_ACTION_OUT :: u8 where "BUFFER_ACTION_OUT \<equiv> 2"
abbreviation BUFFER_ACTION_RUN :: u8 where "BUFFER_ACTION_RUN \<equiv> 3"

definition CACHE_SIZE :: u32 where "CACHE_SIZE = 128"
definition CACHE_MASK :: u32 where "CACHE_MASK = 127"

definition buf_bytes_used :: "buffer_cb \<Rightarrow> u32" where
  "buf_bytes_used b = (b_tail b - b_head b) AND b_mask b"

definition buf_set_head :: "u32 \<Rightarrow> buffer_cb \<Rightarrow> buffer_cb" where
  "buf_set_head h b = b\<lparr>b_head := h, ihead := h\<rparr>"

definition buf_set_tail :: "u32 \<Rightarrow> buffer_cb \<Rightarrow> buffer_cb" where
  "buf_set_tail t b = b\<lparr>b_tail := t, otail := t\<rparr>"

definition buf_inc_head :: "u32 \<Rightarrow> buffer_cb \<Rightarrow> buffer_cb" where
  "buf_inc_head n b = (let h = (b_head b + n) AND b_mask b in b\<lparr>b_head := h, ihead := h\<rparr>)"

definition buf_inc_tail :: "u32 \<Rightarrow> buffer_cb \<Rightarrow> buffer_cb" where
  "buf_inc_tail n b = (let t = (b_tail b + n) AND b_mask b in b\<lparr>b_tail := t, otail := t\<rparr>)"

section \<open>Set-up\<close>

text \<open>\<open>count_ls_zeros\<close> is the number of trailing zeros; the compiler's builtin is undefined at 0.\<close>

definition count_ls_zeros :: "u32 \<Rightarrow> nat res" where
  "count_ls_zeros a = (if a = 0 then Inl OutOfBounds else Inr (length (takeWhile (\<lambda>i. \<not> bit a i) [0..<32])))"

definition size_ok :: "u32 \<Rightarrow> bool \<Rightarrow> u32 \<Rightarrow> bool res" where
  "size_ok sz circular data_offset =
     (if \<not> circular then Inr (data_offset < sz)
      else if CACHE_SIZE \<le> sz then rbind (count_ls_zeros sz) (\<lambda>z. Inr (sz = push_bit z 1 \<and> data_offset < sz))
      else Inr False)"

text \<open>
  \<open>init_buffer\<close>: a null data pointer asks \<open>malloc_data\<close>, another must be aligned on a cache line
  of 128 bytes; \<open>junk\<close> is what the uninitialised control block holds.
\<close>

definition init_buffer :: "(u32 \<Rightarrow> nat option) \<Rightarrow> buffer_cb \<Rightarrow> nat option \<Rightarrow> u32 \<Rightarrow> bool \<Rightarrow> u32 \<Rightarrow> buffer_cb res" where
  "init_buffer malloc_data junk buf_data sz circular data_offset =
     rbind (size_ok sz circular data_offset) (\<lambda>ok. ensure CheckFail ok
       (rbind (case buf_data of
            None \<Rightarrow> (case malloc_data sz of None \<Rightarrow> Inl CheckFail | Some p \<Rightarrow> Inr p)
          | Some p \<Rightarrow> ensure CheckFail (p mod 128 = 0) (Inr p)) (\<lambda>data.
        Inr (junk\<lparr>b_data := data, b_mask := (if circular then sz - 1 else 0x7fffffff),
              b_head := data_offset, b_tail := data_offset, ihead := data_offset, otail := data_offset,
              front_action := 0, back_action := 0, dt_active := 0\<rparr>))))"

definition align_buffer :: "u32 \<Rightarrow> buffer_cb \<Rightarrow> buffer_cb res" where
  "align_buffer data_offset b =
     ensure CheckFail (data_offset \<le> b_mask b)
     (ensure CheckFail (b_head b = b_tail b \<and> front_action b = BUFFER_ACTION_NONE \<and>
        back_action b = BUFFER_ACTION_NONE)
     (Inr (b\<lparr>b_head := data_offset, b_tail := data_offset, ihead := data_offset, otail := data_offset\<rparr>)))"

definition duplicate_buffer :: "buffer_cb \<Rightarrow> buffer_cb \<Rightarrow> buffer_cb" where
  "duplicate_buffer dest src = dest\<lparr>b_data := b_data src, b_mask := b_mask src, b_head := b_head src,
     b_tail := b_tail src, ihead := b_head src, otail := b_tail src,
     front_action := 0, back_action := 0, dt_active := 0\<rparr>"

definition dealloc_check :: "buffer_cb \<Rightarrow> unit res" where
  "dealloc_check b = ensure CheckFail (front_action b = BUFFER_ACTION_NONE \<and> back_action b = BUFFER_ACTION_NONE)
     (Inr ())"

text \<open>The SPU command handlers, without the completion of the command; \<open>addr\<close> is the data address.\<close>

definition run_buffer_alloc :: "u32 \<Rightarrow> u32 \<Rightarrow> u32 \<Rightarrow> buffer_cb \<Rightarrow> buffer_cb res" where
  "run_buffer_alloc addr msk data_offset b =
     ensure CheckFail (addr AND CACHE_MASK = 0 \<and> data_offset \<le> msk)
     (Inr (b\<lparr>b_mask := msk, b_head := data_offset, b_tail := data_offset, ihead := data_offset,
        otail := data_offset, front_action := 0, back_action := 0, dt_active := 0,
        in_back_buffered_bytes := 0, out_front_buffered_bytes := 0,
        front_in_dtcb := \<lparr>dtcb_head = 0, dtcb_tail = 0, dtcb_ack = 0\<rparr>,
        back_in_dtcb := \<lparr>dtcb_head = 0, dtcb_tail = 0, dtcb_ack = 0\<rparr>\<rparr>))"

definition run_buffer_align :: "u32 \<Rightarrow> u32 \<Rightarrow> buffer_cb \<Rightarrow> buffer_cb res" where
  "run_buffer_align addr data_offset b =
     ensure CheckFail (addr AND CACHE_MASK = 0) (align_buffer data_offset b)"

section \<open>Filter access\<close>

text \<open>
  The item size is a parameter of the filter; \<open>nomod\<close> stands for \<open>PEEK_NO_MOD\<close>, \<open>POP_NO_MOD\<close> and
  \<open>PUSH_NO_MOD\<close>, which leave the masking out.
\<close>

definition mod_pos :: "bool \<Rightarrow> buffer_cb \<Rightarrow> u32 \<Rightarrow> u32" where
  "mod_pos nomod b p = (if nomod then p else p AND b_mask b)"

definition buf_at :: "nat \<Rightarrow> buf_store \<Rightarrow> (buffer_cb \<times> byte list) res" where
  "buf_at i S = rbind (deref (bufs S i)) (\<lambda>b. rbind (deref (datas S (b_data b))) (\<lambda>d. Inr (b, d)))"

definition buf_peek :: "bool \<Rightarrow> nat \<Rightarrow> nat \<Rightarrow> u32 \<Rightarrow> buf_store \<Rightarrow> byte list res" where
  "buf_peek nomod sz i n S = rbind (buf_at i S) (\<lambda>(b, d).
     ensure CheckFail ((n + 1) * of_nat sz \<le> (b_tail b - b_head b) AND b_mask b)
       (load_bytes d (uint (mod_pos nomod b (b_head b + n * of_nat sz))) (int sz)))"

definition buf_pop :: "bool \<Rightarrow> nat \<Rightarrow> nat \<Rightarrow> buf_store \<Rightarrow> (byte list \<times> buf_store) res" where
  "buf_pop nomod sz i S = rbind (buf_at i S) (\<lambda>(b, d).
     ensure CheckFail (of_nat sz \<le> (b_tail b - b_head b) AND b_mask b)
       (rbind (load_bytes d (uint (b_head b)) (int sz)) (\<lambda>item.
          Inr (item, S\<lparr>bufs := (bufs S)(i \<mapsto> b\<lparr>b_head := mod_pos nomod b (b_head b + of_nat sz)\<rparr>)\<rparr>))))"

definition buf_popn :: "bool \<Rightarrow> nat \<Rightarrow> nat \<Rightarrow> u32 \<Rightarrow> buf_store \<Rightarrow> (byte list \<times> buf_store) res" where
  "buf_popn nomod sz i n S = rbind (buf_at i S) (\<lambda>(b, d).
     ensure CheckFail (n \<noteq> 0 \<and> n * of_nat sz \<le> (b_tail b - b_head b) AND b_mask b)
       (rbind (load_bytes d (uint (mod_pos nomod b (b_head b + (n - 1) * of_nat sz))) (int sz)) (\<lambda>item.
          Inr (item, S\<lparr>bufs := (bufs S)(i \<mapsto> b\<lparr>b_head := mod_pos nomod b (b_head b + n * of_nat sz)\<rparr>)\<rparr>))))"

definition buf_push :: "bool \<Rightarrow> nat \<Rightarrow> nat \<Rightarrow> byte list \<Rightarrow> buf_store \<Rightarrow> buf_store res" where
  "buf_push nomod sz i item S = rbind (buf_at i S) (\<lambda>(b, d).
     ensure CheckFail (of_nat sz \<le> (b_head b - b_tail b - 1) AND b_mask b)
       (rbind (store_bytes d (uint (b_tail b)) item) (\<lambda>d'.
          Inr (S\<lparr>bufs := (bufs S)(i \<mapsto> b\<lparr>b_tail := mod_pos nomod b (b_tail b + of_nat sz)\<rparr>),
                datas := (datas S)(b_data b \<mapsto> d')\<rparr>))))"

definition buf_advance_head :: "u32 \<Rightarrow> buffer_cb \<Rightarrow> buffer_cb res" where
  "buf_advance_head n b = ensure CheckFail (n \<le> (b_tail b - b_head b) AND b_mask b)
     (Inr (b\<lparr>b_head := (b_head b + n) AND b_mask b\<rparr>))"

definition buf_advance_tail :: "u32 \<Rightarrow> buffer_cb \<Rightarrow> buffer_cb res" where
  "buf_advance_tail n b = ensure CheckFail (n \<le> (b_head b - b_tail b - 1) AND b_mask b)
     (Inr (b\<lparr>b_tail := (b_tail b + n) AND b_mask b\<rparr>))"

section \<open>Allocation\<close>

text \<open>
  The layout of an aligned block: \<open>mem\<close> is what \<open>malloc\<close> returned for \<open>alignment + size\<close> bytes;
  the pointer to it is stored in front of the data.
\<close>

definition SIZEOF_PTR :: int where "SIZEOF_PTR = 4"
definition SIZEOF_BUFFER_CB :: int where "SIZEOF_BUFFER_CB = 96"

definition malloc_aligned :: "int option \<Rightarrow> u32 \<Rightarrow> (int \<times> int) option res" where
  "malloc_aligned mem alignment = rbind (count_ls_zeros alignment) (\<lambda>z.
     ensure CheckFail (SIZEOF_PTR \<le> uint alignment \<and> alignment = push_bit z 1)
       (case mem of None \<Rightarrow> Inr None
        | Some m \<Rightarrow> let data = m + (uint alignment - (m AND (uint alignment - 1)))
            in Inr (Some (data, data - SIZEOF_PTR))))"

definition alloc_buffer_layout :: "int \<Rightarrow> int \<times> int \<times> int" where
  "alloc_buffer_layout mem =
     (let mem_ptr = mem + (((128 - (SIZEOF_PTR + SIZEOF_BUFFER_CB)) - mem) AND 127);
          buf = mem_ptr + SIZEOF_PTR
      in (mem_ptr, buf, buf + SIZEOF_BUFFER_CB))"

text \<open>\<open>touch_pages\<close> writes a word at the start of the data and of every page that starts inside it.\<close>

function touch_loop :: "nat \<Rightarrow> nat \<Rightarrow> nat list" where
  "touch_loop page end_page = (if page < end_page then page # touch_loop (page + 4096) end_page else [])"
  by auto
termination by (relation "measure (\<lambda>(p, e). e - p)") auto

declare touch_loop.simps [simp del]

definition round_up :: "nat \<Rightarrow> nat \<Rightarrow> nat" where
  "round_up a n = (a + (n - 1)) div n * n"

definition touch_pages :: "nat \<Rightarrow> nat \<Rightarrow> nat list" where
  "touch_pages data sz = data # touch_loop (round_up data 4096) (round_up (data + sz) 4096)"

section \<open>Word arithmetic modulo the ring\<close>

lemma uint_and_mask_int:
  assumes "k \<le> LENGTH('a::len)"
  shows "uint ((of_int x :: 'a word) AND (2 ^ k - 1)) = x mod 2 ^ k"
proof -
  have "uint ((of_int x :: 'a word) AND (2 ^ k - 1)) = take_bit k (take_bit LENGTH('a) x)"
    by (simp add: word_and_mask unsigned_take_bit_eq unsigned_of_int)
  also have "\<dots> = take_bit k x" using assms by simp
  finally show ?thesis by (simp add: take_bit_eq_mod)
qed

lemma uint_sub_mask:
  "k \<le> LENGTH('a::len) \<Longrightarrow> uint (((x::'a word) - y) AND (2 ^ k - 1)) = (uint x - uint y) mod 2 ^ k"
  using uint_and_mask_int [of k "uint x - uint y", where 'a = 'a] by simp

lemma uint_add_mask:
  "k \<le> LENGTH('a::len) \<Longrightarrow> uint (((x::'a word) + y) AND (2 ^ k - 1)) = (uint x + uint y) mod 2 ^ k"
  using uint_and_mask_int [of k "uint x + uint y", where 'a = 'a] by simp

lemma unat_add_mask:
  assumes "k \<le> LENGTH('a::len)"
  shows "unat (((x::'a word) + of_nat n) AND (2 ^ k - 1)) = (unat x + n) mod 2 ^ k"
proof -
  have "uint ((of_int (uint x + int n) :: 'a word) AND (2 ^ k - 1)) = (uint x + int n) mod 2 ^ k"
    by (rule uint_and_mask_int [OF assms])
  then have "int (unat ((x + of_nat n) AND (2 ^ k - 1))) = int ((unat x + n) mod 2 ^ k)"
    by (simp add: of_nat_mod zmod_int)
  then show ?thesis by (simp only: of_nat_eq_iff)
qed

section \<open>What a circular buffer holds\<close>

text \<open>
  A circular buffer in units of items of \<open>sz\<close> bytes: \<open>M\<close> slots, the next item read in slot \<open>a\<close>,
  \<open>u\<close> items in it.
\<close>

definition buf_shape :: "buffer_cb \<Rightarrow> byte list \<Rightarrow> nat \<Rightarrow> nat \<Rightarrow> nat \<Rightarrow> nat \<Rightarrow> bool" where
  "buf_shape b d sz M a u \<longleftrightarrow> 0 < sz \<and> length d = M * sz \<and> a < M \<and> u < M \<and>
     (\<exists>k\<le>31. M * sz = 2 ^ k \<and> b_mask b = 2 ^ k - 1) \<and>
     unat (b_head b) = a * sz \<and> unat (b_tail b) = (a + u) mod M * sz"

definition buf_ok :: "nat \<Rightarrow> buffer_cb \<Rightarrow> byte list \<Rightarrow> bool" where
  "buf_ok sz b d \<longleftrightarrow> 0 < sz \<and> sz dvd length d \<and> (\<exists>k\<le>31. length d = 2 ^ k \<and> b_mask b = 2 ^ k - 1) \<and>
     unat (b_head b) < length d \<and> sz dvd unat (b_head b) \<and> unat (b_tail b) < length d \<and> sz dvd unat (b_tail b)"

definition buf_used :: "nat \<Rightarrow> buffer_cb \<Rightarrow> nat" where
  "buf_used sz b = unat (buf_bytes_used b) div sz"

definition buf_items :: "nat \<Rightarrow> buffer_cb \<Rightarrow> byte list \<Rightarrow> byte list list" where
  "buf_items sz b d = ring_items d (unat (b_head b)) sz (buf_used sz b)"

definition buf_room :: "nat \<Rightarrow> buffer_cb \<Rightarrow> byte list \<Rightarrow> nat" where
  "buf_room sz b d = length d div sz - 1 - buf_used sz b"

lemma buf_shape_bytes:
  assumes "buf_shape b d sz M a u"
  shows "unat ((b_tail b - b_head b) AND b_mask b) = u * sz"
    "unat ((b_head b - b_tail b - 1) AND b_mask b) = (M - u) * sz - 1"
proof -
  obtain k where k: "k \<le> 31" "M * sz = 2 ^ k" "b_mask b = 2 ^ k - 1"
    using assms by (auto simp: buf_shape_def)
  have kl: "k \<le> LENGTH(32)" using k(1) by simp
  have sz: "0 < sz" "u < M" and hn: "unat (b_head b) = a * sz"
    and tn: "unat (b_tail b) = ((a + u) * sz) mod 2 ^ k"
    using assms k(2) by (auto simp: buf_shape_def mult_mod_left)
  have h: "uint (b_head b) = int (a * sz)" and t: "uint (b_tail b) = int (((a + u) * sz) mod 2 ^ k)"
    unfolding uint_nat hn tn by simp_all
  have tm: "uint (b_tail b) mod 2 ^ k = int ((a + u) * sz) mod 2 ^ k" by (simp add: t zmod_int)
  have uM: "u * sz < 2 ^ k" using sz k(2) by (metis mult_less_cancel2)
  have "uint ((b_tail b - b_head b) AND b_mask b) = (uint (b_tail b) - uint (b_head b)) mod 2 ^ k"
    unfolding k(3) by (rule uint_sub_mask [OF kl])
  also have "\<dots> = (int ((a + u) * sz) - int (a * sz)) mod 2 ^ k" unfolding h by (rule mod_diff_cong [OF tm refl])
  also have "\<dots> = int (u * sz) mod 2 ^ k" by (simp add: distrib_right)
  also have "\<dots> = int (u * sz)" using uM by (metis of_nat_mod mod_less of_nat_numeral of_nat_power)
  finally show "unat ((b_tail b - b_head b) AND b_mask b) = u * sz"
    by (simp only: uint_nat of_nat_eq_iff)
  have "uint ((b_head b - b_tail b - 1) AND b_mask b) = uint ((of_int (uint (b_head b) - uint (b_tail b) - 1) :: u32) AND (2 ^ k - 1))"
    unfolding k(3) by simp
  also have "\<dots> = (uint (b_head b) - uint (b_tail b) - 1) mod 2 ^ k"
    by (rule uint_and_mask_int [OF kl])
  also have "\<dots> = (int (a * sz) - int ((a + u) * sz) - 1) mod 2 ^ k"
    unfolding h by (rule mod_diff_cong [OF mod_diff_cong [OF refl tm] refl])
  also have "int (a * sz) - int ((a + u) * sz) - 1 = - int (u * sz) - 1" by (simp add: distrib_right)
  also have "(- int (u * sz) - 1) mod 2 ^ k = (2 ^ k - int (u * sz) - 1) mod 2 ^ k"
  proof -
    have "2 ^ k - int (u * sz) - 1 = (- int (u * sz) - 1) + 2 ^ k" by simp
    then show ?thesis by (simp only: mod_add_self2)
  qed
  also have "\<dots> = 2 ^ k - int (u * sz) - 1"
  proof (rule mod_pos_pos_trivial)
    have "int (u * sz) < 2 ^ k" using uM by (metis of_nat_less_iff of_nat_numeral of_nat_power)
    then show "0 \<le> 2 ^ k - int (u * sz) - 1" by linarith
    have "0 \<le> int (u * sz)" by simp
    then show "2 ^ k - int (u * sz) - 1 < 2 ^ k" by linarith
  qed
  also have "\<dots> = int ((M - u) * sz - 1)"
    using uM k(2) by (simp add: diff_mult_distrib of_nat_diff)
  finally show "unat ((b_head b - b_tail b - 1) AND b_mask b) = (M - u) * sz - 1"
    by (simp only: uint_nat of_nat_eq_iff)
qed

lemma buf_shape_used: "buf_shape b d sz M a u \<Longrightarrow> buf_used sz b = u"
  using buf_shape_bytes(1) [of b d sz M a u] by (auto simp: buf_used_def buf_bytes_used_def buf_shape_def)

lemma buf_shape_ok: "buf_shape b d sz M a u \<Longrightarrow> buf_ok sz b d"
  unfolding buf_shape_def buf_ok_def by auto

lemma buf_ok_shape:
  assumes "buf_ok sz b d"
  shows "\<exists>M a. buf_shape b d sz M a (buf_used sz b)"
proof -
  obtain k where k: "k \<le> 31" "length d = 2 ^ k" "b_mask b = 2 ^ k - 1" using assms by (auto simp: buf_ok_def)
  obtain M where M: "length d = M * sz" using assms by (auto simp: buf_ok_def elim!: dvdE)
  obtain a where a: "unat (b_head b) = a * sz" using assms by (auto simp: buf_ok_def elim!: dvdE)
  obtain t where t: "unat (b_tail b) = t * sz" using assms by (auto simp: buf_ok_def elim!: dvdE)
  have sz: "0 < sz" and ab: "a < M" "t < M" using assms a t M by (auto simp: buf_ok_def)
  define u where "u = (t + (M - a)) mod M"
  have "(a + u) mod M = (a + (t + (M - a))) mod M" by (simp add: u_def mod_add_right_eq)
  also have "a + (t + (M - a)) = t + M" using ab by simp
  finally have "(a + u) mod M = t" using ab by simp
  then have "buf_shape b d sz M a u"
    using sz M a t ab k by (auto simp: buf_shape_def u_def)
  then show ?thesis using buf_shape_used by blast
qed

lemma buf_shape_items: "buf_shape b d sz M a u \<Longrightarrow> buf_items sz b d = ring_items d (a * sz) sz u"
  using buf_shape_used [of b d sz M a u] by (simp add: buf_items_def buf_shape_def)

lemma buf_shape_room: "buf_shape b d sz M a u \<Longrightarrow> buf_room sz b d = M - 1 - u"
  using buf_shape_used [of b d sz M a u] by (simp add: buf_room_def buf_shape_def)

text \<open>Advancing a position by \<open>n\<close> items.\<close>

lemma buf_shape_advance:
  assumes "buf_shape b d sz M a u" "unat p = c mod M * sz"
  shows "unat ((p + of_nat (n * sz)) AND b_mask b) = (c + n) mod M * sz"
proof -
  obtain k where k: "k \<le> 31" "M * sz = 2 ^ k" "b_mask b = 2 ^ k - 1"
    using assms(1) by (auto simp: buf_shape_def)
  have "unat ((p + of_nat (n * sz)) AND b_mask b) = (c mod M * sz + n * sz) mod 2 ^ k"
    unfolding k(3) by (subst unat_add_mask) (use k(1) assms(2) in simp_all)
  also have "\<dots> = ((c mod M + n) mod M) * sz"
    unfolding k(2) [symmetric] by (simp add: mult_mod_left distrib_right)
  finally show ?thesis by (simp add: mod_add_left_eq)
qed

lemma buf_slot_fits:
  assumes "buf_shape b d sz M a u"
  shows "c mod M * sz + sz \<le> length d"
proof -
  have "Suc (c mod M) * sz \<le> M * sz" using assms by (intro mult_le_mono1) (simp add: buf_shape_def Suc_leI)
  then show ?thesis using assms by (simp add: buf_shape_def)
qed

lemma buf_slot_mod: "buf_shape b d sz M a u \<Longrightarrow> (c mod M * sz) mod length d = (c * sz) mod length d"
  by (simp add: buf_shape_def mult_mod_left [symmetric])

lemma buf_item_word: "buf_shape b d sz M a u \<Longrightarrow> n \<le> M \<Longrightarrow> unat (of_nat (n * sz) :: u32) = n * sz"
proof -
  assume sh: "buf_shape b d sz M a u" and n: "n \<le> M"
  obtain k where k: "k \<le> 31" "M * sz = 2 ^ k" using sh by (auto simp: buf_shape_def)
  have "n * sz \<le> 2 ^ k" using n k(2) by (metis mult_le_mono1)
  also have "(2::nat) ^ k \<le> 2 ^ 31" using k(1) by (rule power_increasing) simp
  also have "(2::nat) ^ 31 < 2 ^ 32" by simp
  finally have "n * sz < 2 ^ LENGTH(32)" by simp
  then show ?thesis by (rule of_nat_inverse [OF refl, THEN sym, symmetric])
qed

section \<open>The laws of pop and push\<close>

definition pop_cb :: "nat \<Rightarrow> nat \<Rightarrow> buffer_cb \<Rightarrow> buffer_cb" where
  "pop_cb sz n b = b\<lparr>b_head := (b_head b + of_nat (n * sz)) AND b_mask b\<rparr>"

definition push_cb :: "nat \<Rightarrow> nat \<Rightarrow> buffer_cb \<Rightarrow> buffer_cb" where
  "push_cb sz n b = b\<lparr>b_tail := (b_tail b + of_nat (n * sz)) AND b_mask b\<rparr>"

lemma pop_cb_shape:
  assumes "buf_shape b d sz M a u" "n \<le> u"
  shows "buf_shape (pop_cb sz n b) d sz M ((a + n) mod M) (u - n)"
proof -
  have "((a + n) mod M + (u - n)) mod M = (a + n + (u - n)) mod M" by (rule mod_add_left_eq)
  then have "((a + n) mod M + (u - n)) mod M = (a + u) mod M" using assms(2) by simp
  moreover have "unat (b_head b) = a mod M * sz" using assms(1) by (simp add: buf_shape_def)
  ultimately show ?thesis
    using assms buf_shape_advance [OF assms(1), of "b_head b" a n]
    by (auto simp: pop_cb_def buf_shape_def)
qed

lemma push_cb_shape:
  assumes "buf_shape b d sz M a u" "u + n < M" "length d' = length d"
  shows "buf_shape (push_cb sz n b) d' sz M a (u + n)"
proof -
  have "unat (b_tail b) = (a + u) mod M * sz" using assms(1) by (simp add: buf_shape_def)
  then show ?thesis
    using assms buf_shape_advance [OF assms(1), of "b_tail b" "a + u" n]
    by (auto simp: push_cb_def buf_shape_def add.assoc)
qed

lemma ring_items_drop: "n \<le> m \<Longrightarrow> drop n (ring_items d p sz m) = ring_items d (p + n * sz) sz (m - n)"
  by (rule nth_equalityI) (auto simp: ring_items_def algebra_simps)

lemma ring_items_nth: "i < m \<Longrightarrow> ring_items d p sz m ! i = ring_read d (p + i * sz) sz"
  by (simp add: ring_items_def)

lemma pop_cb_items:
  assumes "buf_shape b d sz M a u" "n \<le> u"
  shows "buf_items sz (pop_cb sz n b) d = drop n (buf_items sz b d)"
proof -
  have "ring_items d ((a + n) mod M * sz) sz (u - n) = ring_items d ((a + n) * sz) sz (u - n)"
    by (rule ring_items_cong_mod) (rule buf_slot_mod [OF assms(1)])
  then show ?thesis
    using assms(2) unfolding buf_shape_items [OF pop_cb_shape [OF assms]] buf_shape_items [OF assms(1)]
    by (simp add: ring_items_drop distrib_right)
qed

lemma buf_load_item:
  assumes "buf_shape b d sz M a u" "i < u" "unat p = (a + i) mod M * sz"
  shows "load_bytes d (uint p) (int sz) = Inr (buf_items sz b d ! i)"
proof -
  have fit: "(a + i) mod M * sz + sz \<le> length d" by (rule buf_slot_fits [OF assms(1)])
  have "ring_read d ((a + i) mod M * sz) sz = ring_read d ((a + i) * sz) sz"
    by (rule ring_read_cong_mod) (rule buf_slot_mod [OF assms(1)])
  then have "ring_read d ((a + i) mod M * sz) sz = buf_items sz b d ! i"
    using assms(2) unfolding buf_shape_items [OF assms(1)] by (simp add: ring_items_nth distrib_right)
  then show ?thesis
    using fit ring_read_flat [OF fit] unfolding load_bytes_def uint_nat assms(3)
    by (simp flip: of_nat_add of_nat_mult)
qed

lemma word_le_bytes: "(x::u32) \<le> y \<longleftrightarrow> unat x \<le> unat y"
  by (rule word_le_nat_alt)

lemma buf_popn_law:
  assumes at: "bufs S i = Some b" "datas S (b_data b) = Some d" and sh: "buf_shape b d sz M a u"
    and n: "0 < n" "n \<le> u"
  shows "buf_popn False sz i (of_nat n) S
    = Inr (buf_items sz b d ! (n - 1), S\<lparr>bufs := (bufs S)(i \<mapsto> pop_cb sz n b)\<rparr>)"
proof -
  have uM: "u < M" and sz: "0 < sz" using sh by (auto simp: buf_shape_def)
  have nw: "unat (of_nat (n * sz) :: u32) = n * sz" using buf_item_word [OF sh, of n] n uM by simp
  have "n * sz \<noteq> 0" using n sz by simp
  then have n0: "(of_nat n :: u32) \<noteq> 0" using nw by (metis mult_zero_left of_nat_mult unat_0)
  have "(of_nat n :: u32) - 1 = of_nat (n - 1)" using n by (simp add: of_nat_diff)
  then have pos: "((of_nat n :: u32) - 1) * of_nat sz = of_nat ((n - 1) * sz)" by simp
  have "unat (b_head b) = a mod M * sz" using sh by (simp add: buf_shape_def)
  then have "unat ((b_head b + of_nat ((n - 1) * sz)) AND b_mask b) = (a + (n - 1)) mod M * sz"
    by (rule buf_shape_advance [OF sh])
  then have ld: "load_bytes d (uint ((b_head b + of_nat ((n - 1) * sz)) AND b_mask b)) (int sz)
      = Inr (buf_items sz b d ! (n - 1))"
    using n by (intro buf_load_item [OF sh]) auto
  have "(of_nat (n * sz) :: u32) \<le> (b_tail b - b_head b) AND b_mask b"
    unfolding word_le_bytes nw buf_shape_bytes(1) [OF sh] using n by simp
  then show ?thesis
    using at n0 ld unfolding buf_popn_def buf_at_def mod_pos_def pos
    by (simp add: pop_cb_def)
qed

lemma buf_pop_law:
  assumes at: "bufs S i = Some b" "datas S (b_data b) = Some d" and sh: "buf_shape b d sz M a u"
    and u: "0 < u"
  shows "buf_pop False sz i S = Inr (buf_items sz b d ! 0, S\<lparr>bufs := (bufs S)(i \<mapsto> pop_cb sz 1 b)\<rparr>)"
proof -
  have nw: "unat (of_nat sz :: u32) = sz"
    using buf_item_word [OF sh, of 1] sh by (simp add: buf_shape_def)
  have "unat (b_head b) = (a + 0) mod M * sz" using sh by (simp add: buf_shape_def)
  note ld = buf_load_item [OF sh u this]
  have "(of_nat sz :: u32) \<le> (b_tail b - b_head b) AND b_mask b"
    unfolding word_le_bytes nw buf_shape_bytes(1) [OF sh] using u by simp
  then show ?thesis
    using at ld unfolding buf_pop_def buf_at_def mod_pos_def by (simp add: pop_cb_def)
qed

lemma buf_peek_law:
  assumes at: "bufs S i = Some b" "datas S (b_data b) = Some d" and sh: "buf_shape b d sz M a u"
    and n: "n < u"
  shows "buf_peek False sz i (of_nat n) S = Inr (buf_items sz b d ! n)"
proof -
  have uM: "u < M" using sh by (simp add: buf_shape_def)
  have nw: "unat (of_nat (Suc n * sz) :: u32) = Suc n * sz"
    using buf_item_word [OF sh, of "Suc n"] n uM by simp
  have suc: "((of_nat n :: u32) + 1) * of_nat sz = of_nat (Suc n * sz)" by (simp add: algebra_simps)
  have mul: "(of_nat n :: u32) * of_nat sz = of_nat (n * sz)" by simp
  have "unat (b_head b) = a mod M * sz" using sh by (simp add: buf_shape_def)
  then have "unat ((b_head b + of_nat (n * sz)) AND b_mask b) = (a + n) mod M * sz"
    by (rule buf_shape_advance [OF sh])
  note ld = buf_load_item [OF sh n this]
  have "(of_nat (Suc n * sz) :: u32) \<le> (b_tail b - b_head b) AND b_mask b"
    unfolding word_le_bytes nw buf_shape_bytes(1) [OF sh] using n by (simp add: Suc_leI mult_le_mono1 del: mult_Suc)
  then show ?thesis
    using at ld unfolding buf_peek_def buf_at_def mod_pos_def suc mul by simp
qed

lemma buf_push_law:
  assumes at: "bufs S i = Some b" "datas S (b_data b) = Some d" and sh: "buf_shape b d sz M a u"
    and room: "Suc u < M" and len: "length x = sz"
  shows "\<exists>d'. buf_push False sz i x S = Inr (S\<lparr>bufs := (bufs S)(i \<mapsto> push_cb sz 1 b), datas := (datas S)(b_data b \<mapsto> d')\<rparr>) \<and>
    buf_shape (push_cb sz 1 b) d' sz M a (Suc u) \<and>
    buf_items sz (push_cb sz 1 b) d' = buf_items sz b d @ [x]"
proof -
  let ?w = "(a + u) mod M * sz"
  have sz: "0 < sz" using sh by (simp add: buf_shape_def)
  have fit: "?w + length x \<le> length d" using buf_slot_fits [OF sh] len by simp
  define d' where "d' = ring_write d ?w x"
  have t: "uint (b_tail b) = int ?w" unfolding uint_nat using sh by (simp add: buf_shape_def)
  have st: "store_bytes d (uint (b_tail b)) x = Inr d'"
    using fit ring_write_flat [OF fit] unfolding t store_bytes_def d'_def by (simp flip: of_nat_add of_nat_mult)
  have nw: "unat (of_nat sz :: u32) = sz" using buf_item_word [OF sh, of 1] room by simp
  have "2 * sz \<le> (M - u) * sz" using room by (intro mult_le_mono1) simp
  then have "sz \<le> (M - u) * sz - 1" using sz by linarith
  then have "(of_nat sz :: u32) \<le> (b_head b - b_tail b - 1) AND b_mask b"
    unfolding word_le_bytes nw buf_shape_bytes(2) [OF sh] .
  then have "buf_push False sz i x S
      = Inr (S\<lparr>bufs := (bufs S)(i \<mapsto> push_cb sz 1 b), datas := (datas S)(b_data b \<mapsto> d')\<rparr>)"
    using at st by (simp add: buf_push_def buf_at_def mod_pos_def push_cb_def)
  moreover have sh': "buf_shape (push_cb sz 1 b) d' sz M a (Suc u)"
    using push_cb_shape [OF sh, of 1 d'] room by (simp add: d'_def)
  moreover have "buf_items sz (push_cb sz 1 b) d' = buf_items sz b d @ [x]"
  proof -
    have "ring_write d ?w x = ring_write d (a * sz + u * sz) x"
      by (rule ring_write_cong_mod) (simp add: buf_slot_mod [OF sh] distrib_right)
    moreover have "u * sz + length x \<le> length d"
      using sh len room mult_le_mono1 [of "Suc u" M sz] by (simp add: buf_shape_def)
    ultimately show ?thesis
      using ring_items_snoc [of u sz x d "a * sz"] len
      unfolding buf_shape_items [OF sh] buf_shape_items [OF sh'] by (simp add: d'_def)
  qed
  ultimately show ?thesis by blast
qed

section \<open>The buffer store as a queue store\<close>

definition buf_view :: "buf_store \<Rightarrow> nat \<Rightarrow> (buffer_cb \<times> byte list) option" where
  "buf_view S i = (case bufs S i of None \<Rightarrow> None
     | Some b \<Rightarrow> (case datas S (b_data b) of None \<Rightarrow> None | Some d \<Rightarrow> Some (b, d)))"

definition bufs_ok :: "nat \<Rightarrow> buf_store \<Rightarrow> nat set \<Rightarrow> bool" where
  "bufs_ok sz S I \<longleftrightarrow> (\<forall>i\<in>I. \<exists>b d. buf_view S i = Some (b, d) \<and> buf_ok sz b d) \<and>
     (\<forall>i\<in>I. \<forall>j\<in>I. i \<noteq> j \<longrightarrow> map_option b_data (bufs S i) \<noteq> map_option b_data (bufs S j))"

definition buf_items_at :: "nat \<Rightarrow> buf_store \<Rightarrow> nat \<Rightarrow> byte list list" where
  "buf_items_at sz S i = (case buf_view S i of None \<Rightarrow> [] | Some (b, d) \<Rightarrow> buf_items sz b d)"

definition buf_room_at :: "nat \<Rightarrow> buf_store \<Rightarrow> nat \<Rightarrow> nat" where
  "buf_room_at sz S i = (case buf_view S i of None \<Rightarrow> 0 | Some (b, d) \<Rightarrow> buf_room sz b d)"

definition buf_fits_at :: "nat \<Rightarrow> buf_store \<Rightarrow> nat \<Rightarrow> byte list \<Rightarrow> bool" where
  "buf_fits_at sz S i x \<longleftrightarrow> length x = sz"

lemma buf_view_SomeD: "buf_view S i = Some (b, d) \<Longrightarrow> bufs S i = Some b \<and> datas S (b_data b) = Some d"
  by (auto simp: buf_view_def split: option.splits)

text \<open>Changing one buffer of a set that does not share data leaves the others alone.\<close>

lemma bufs_update:
  assumes ok: "bufs_ok sz S I" and i: "i \<in> I" "bufs S i = Some b"
    and b': "b_data b' = b_data b" "buf_ok sz b' d'"
  defines "S' \<equiv> S\<lparr>bufs := (bufs S)(i \<mapsto> b'), datas := (datas S)(b_data b \<mapsto> d')\<rparr>"
  shows "bufs_ok sz S' I" "j \<in> I \<Longrightarrow> buf_view S' j = (if j = i then Some (b', d') else buf_view S j)"
proof -
  have v: "buf_view S' j = (if j = i then Some (b', d') else buf_view S j)" if "j \<in> I" for j
  proof (cases "j = i")
    case True
    then show ?thesis using b' by (simp add: S'_def buf_view_def)
  next
    case False
    then have "map_option b_data (bufs S j) \<noteq> map_option b_data (bufs S i)"
      using ok that i(1) by (auto simp: bufs_ok_def)
    then show ?thesis using False i(2) by (auto simp: S'_def buf_view_def split: option.split)
  qed
  then show "j \<in> I \<Longrightarrow> buf_view S' j = (if j = i then Some (b', d') else buf_view S j)" .
  have "map_option b_data (bufs S' j) = map_option b_data (bufs S j)" for j
    using i(2) b'(1) by (simp add: S'_def)
  then show "bufs_ok sz S' I"
    using ok v b'(2) by (auto simp: bufs_ok_def)
qed

interpretation bq: queue_store "bufs_ok sz" "buf_items_at sz" "buf_room_at sz" "buf_fits_at sz"
    "buf_pop False sz" "buf_push False sz" for sz
proof (unfold_locales, goal_cases)
  case (1 S I i x xs)
  then obtain b d where v: "buf_view S i = Some (b, d)" "buf_ok sz b d"
    by (auto simp: bufs_ok_def)
  note at = buf_view_SomeD [OF v(1)]
  obtain M a where sh: "buf_shape b d sz M a (buf_used sz b)" using buf_ok_shape [OF v(2)] by blast
  have it: "buf_items sz b d = x # xs" using 1(3) v(1) by (simp add: buf_items_at_def)
  then have u: "0 < buf_used sz b" using buf_shape_items [OF sh] by (cases "buf_used sz b") auto
  let ?b = "pop_cb sz 1 b"
  have sh': "buf_shape ?b d sz M ((a + 1) mod M) (buf_used sz b - 1)" using pop_cb_shape [OF sh, of 1] u by simp
  define S1 where "S1 = S\<lparr>bufs := (bufs S)(i \<mapsto> ?b), datas := (datas S)(b_data b \<mapsto> d)\<rparr>"
  have S1: "S\<lparr>bufs := (bufs S)(i \<mapsto> ?b)\<rparr> = S1" using at by (simp add: S1_def fun_upd_idem)
  have up: "bufs_ok sz S1 I" "\<And>j. j \<in> I \<Longrightarrow> buf_view S1 j = (if j = i then Some (?b, d) else buf_view S j)"
    unfolding S1_def using bufs_update [OF 1(1,2), of b ?b d] at buf_shape_ok [OF sh']
    by (simp_all add: pop_cb_def)
  have "buf_items sz ?b d = xs" using pop_cb_items [OF sh, of 1] u it by simp
  moreover have "buf_room sz ?b d = Suc (buf_room sz b d)"
  proof -
    have "buf_used sz b < M" using sh by (simp add: buf_shape_def)
    then show ?thesis using buf_shape_room [OF sh] buf_shape_room [OF sh'] u by simp
  qed
  ultimately show ?case
    using buf_pop_law [OF _ _ sh u, of S i] at up it v(1) unfolding S1
    by (intro exI [of _ S1] conjI ballI ext)
      (auto simp: buf_items_at_def buf_room_at_def buf_fits_at_def)
next
  case (2 S I i x)
  then obtain b d where v: "buf_view S i = Some (b, d)" "buf_ok sz b d"
    by (auto simp: bufs_ok_def)
  note at = buf_view_SomeD [OF v(1)]
  obtain M a where sh: "buf_shape b d sz M a (buf_used sz b)" using buf_ok_shape [OF v(2)] by blast
  have room: "Suc (buf_used sz b) < M"
    using 2(3) v(1) buf_shape_room [OF sh] by (simp add: buf_room_at_def)
  have len: "length x = sz" using 2(4) by (simp add: buf_fits_at_def)
  obtain d' where d': "buf_push False sz i x S
      = Inr (S\<lparr>bufs := (bufs S)(i \<mapsto> push_cb sz 1 b), datas := (datas S)(b_data b \<mapsto> d')\<rparr>)"
    "buf_shape (push_cb sz 1 b) d' sz M a (Suc (buf_used sz b))"
    "buf_items sz (push_cb sz 1 b) d' = buf_items sz b d @ [x]"
    using buf_push_law [OF _ _ sh room len] at by blast
  have up: "bufs_ok sz (S\<lparr>bufs := (bufs S)(i \<mapsto> push_cb sz 1 b), datas := (datas S)(b_data b \<mapsto> d')\<rparr>) I"
    "\<And>j. j \<in> I \<Longrightarrow> buf_view (S\<lparr>bufs := (bufs S)(i \<mapsto> push_cb sz 1 b), datas := (datas S)(b_data b \<mapsto> d')\<rparr>) j
      = (if j = i then Some (push_cb sz 1 b, d') else buf_view S j)"
    using bufs_update [OF 2(1,2), of b "push_cb sz 1 b" d'] at buf_shape_ok [OF d'(2)]
    by (simp_all add: push_cb_def)
  have "buf_room sz (push_cb sz 1 b) d' = buf_room sz b d - 1"
    using buf_shape_room [OF sh] buf_shape_room [OF d'(2)] by simp
  then show ?case
    using d'(1,3) up v(1)
    by (intro exI [of _ "S\<lparr>bufs := (bufs S)(i \<mapsto> push_cb sz 1 b), datas := (datas S)(b_data b \<mapsto> d')\<rparr>"] conjI ballI ext)
      (auto simp: buf_items_at_def buf_room_at_def buf_fits_at_def)
qed

section \<open>Properties\<close>

lemma push_bit_one_word:
  assumes "(w::u32) = push_bit z 1" "w \<noteq> 0"
  shows "z \<le> 31 \<and> w = 2 ^ z \<and> unat w = 2 ^ z"
proof -
  have "z < 32"
  proof (rule ccontr)
    assume "\<not> z < 32"
    then have "(push_bit z 1 :: u32) = 0" by (intro bit_word_eqI) (simp add: bit_simps)
    then have "w = 0" using assms(1) by (simp only:)
    then show False using assms(2) by simp
  qed
  moreover have "of_nat (2 ^ z) = w" using assms(1) by simp
  moreover have "(2::nat) ^ z < 2 ^ LENGTH(32)" using \<open>z < 32\<close> by (intro power_strict_increasing) simp_all
  ultimately have "unat w = 2 ^ z" by (intro of_nat_inverse)
  then show ?thesis using \<open>z < 32\<close> assms(1) by simp
qed

lemma size_ok_circular:
  assumes "size_ok sz True off = Inr True"
  shows "\<exists>k\<le>31. sz = 2 ^ k \<and> off < sz \<and> unat sz = 2 ^ k"
proof -
  obtain z where z: "sz = push_bit z 1" "off < sz"
    using assms by (auto simp: size_ok_def res_simps simp del: push_bit_of_1 split: if_splits)
  have "unat off < unat sz" using z(2) by (simp only: word_less_nat_alt)
  then have "sz \<noteq> 0" by auto
  then show ?thesis using push_bit_one_word [OF z(1)] z(2) by blast
qed

text \<open>A circular buffer that \<open>init_buffer\<close> accepts, over a data area of its size, is well formed
  for every item size that divides the size and the initial offset, is empty, and has room for
  all but one of its items.\<close>

theorem init_buffer_empty:
  assumes "init_buffer malloc_data junk buf_data nbytes True off = Inr b" "length d = unat nbytes" "0 < sz" "sz dvd unat nbytes"
    "sz dvd unat off"
  shows "buf_ok sz b d \<and> buf_items sz b d = [] \<and> buf_room sz b d = unat nbytes div sz - 1 \<and>
    front_action b = BUFFER_ACTION_NONE \<and> back_action b = BUFFER_ACTION_NONE"
proof -
  have "size_ok nbytes True off = Inr True"
    using assms(1) by (auto simp: init_buffer_def res_simps)
  then obtain k where k: "k \<le> 31" "nbytes = 2 ^ k" "off < nbytes" "unat nbytes = 2 ^ k"
    using size_ok_circular by blast
  obtain p where b: "b = junk\<lparr>b_data := p, b_mask := nbytes - 1, b_head := off, b_tail := off, ihead := off, otail := off,
      front_action := 0, back_action := 0, dt_active := 0\<rparr>"
    using assms(1) by (auto simp: init_buffer_def res_simps)
  have "unat off < unat nbytes" using k(3) by (simp add: word_less_nat_alt)
  then show ?thesis
    using assms(2-5) k by (auto simp: b buf_ok_def buf_items_def buf_room_def buf_used_def buf_bytes_used_def)
qed

fun pop_times :: "nat \<Rightarrow> nat \<Rightarrow> nat \<Rightarrow> buf_store \<Rightarrow> (byte list list \<times> buf_store) res" where
  "pop_times sz i 0 S = Inr ([], S)"
| "pop_times sz i (Suc n) S = rbind (buf_pop False sz i S) (\<lambda>(x, S).
     rbind (pop_times sz i n S) (\<lambda>(xs, S). Inr (x # xs, S)))"

lemma pop_cb_add:
  assumes "buf_ok sz b d"
  shows "pop_cb sz m (pop_cb sz 1 b) = pop_cb sz (Suc m) b"
proof -
  obtain k where k: "k \<le> 31" "b_mask b = 2 ^ k - 1" using assms by (auto simp: buf_ok_def)
  have "((b_head b + of_nat sz) AND (2 ^ k - 1)) + of_nat (m * sz) AND (2 ^ k - 1)
      = (b_head b + of_nat (Suc m * sz)) AND (2 ^ k - 1)"
  proof -
    have "unat (((b_head b + of_nat sz) AND (2 ^ k - 1)) + of_nat (m * sz) AND (2 ^ k - 1))
        = ((unat (b_head b) + sz) mod 2 ^ k + m * sz) mod 2 ^ k"
      using k(1) by (simp only: unat_add_mask len_of_numeral_defs)
    also have "\<dots> = (unat (b_head b) + Suc m * sz) mod 2 ^ k"
      by (simp add: mod_add_left_eq add.assoc)
    also have "\<dots> = unat ((b_head b + of_nat (Suc m * sz)) AND (2 ^ k - 1))"
      using k(1) by (subst unat_add_mask) simp_all
    finally show ?thesis by (simp only: word_unat_eq_iff)
  qed
  then show ?thesis by (simp add: pop_cb_def k(2))
qed

lemma pop_times_law:
  assumes "bufs S i = Some b" "datas S (b_data b) = Some d" "buf_shape b d sz M a u" "n \<le> u"
  shows "pop_times sz i n S = Inr (take n (buf_items sz b d), S\<lparr>bufs := (bufs S)(i \<mapsto> pop_cb sz n b)\<rparr>)"
  using assms
proof (induction n arbitrary: S b a u)
  case 0
  have "b_head b AND b_mask b = b_head b"
  proof -
    have "unat ((b_head b + of_nat (0 * sz)) AND b_mask b) = (a + 0) mod M * sz"
      using 0 by (intro buf_shape_advance [OF "0"(3)]) (simp add: buf_shape_def)
    then show ?thesis using 0(3) by (simp add: buf_shape_def word_unat_eq_iff)
  qed
  then show ?case using 0 by (simp add: pop_cb_def fun_upd_idem)
next
  case (Suc n)
  let ?b = "pop_cb sz 1 b" and ?S = "S\<lparr>bufs := (bufs S)(i \<mapsto> pop_cb sz 1 b)\<rparr>"
  have u: "1 \<le> u" "n \<le> u - 1" using Suc.prems(4) by auto
  have sh: "buf_shape ?b d sz M ((a + 1) mod M) (u - 1)" by (rule pop_cb_shape [OF Suc.prems(3) u(1)])
  have dt: "b_data ?b = b_data b" by (simp add: pop_cb_def)
  have it: "buf_items sz ?b d = drop 1 (buf_items sz b d)" by (rule pop_cb_items [OF Suc.prems(3) u(1)])
  have len: "length (buf_items sz b d) = u" using buf_shape_items [OF Suc.prems(3)] by simp
  have ih: "pop_times sz i n ?S = Inr (take n (buf_items sz ?b d), ?S\<lparr>bufs := (bufs ?S)(i \<mapsto> pop_cb sz n ?b)\<rparr>)"
    by (rule Suc.IH [OF _ _ sh u(2)]) (use Suc.prems(2) dt in simp_all)
  have pc: "pop_cb sz n ?b = pop_cb sz (Suc n) b" by (rule pop_cb_add [OF buf_shape_ok [OF Suc.prems(3)]])
  have "take (Suc n) (buf_items sz b d) = buf_items sz b d ! 0 # take n (drop 1 (buf_items sz b d))"
    using len u(1) by (cases "buf_items sz b d") auto
  moreover have "buf_pop False sz i S = Inr (buf_items sz b d ! 0, ?S)"
    using buf_pop_law [OF Suc.prems(1-3)] u(1) by simp
  ultimately have "pop_times sz i (Suc n) S = Inr (take (Suc n) (buf_items sz b d),
      ?S\<lparr>bufs := (bufs ?S)(i \<mapsto> pop_cb sz (Suc n) b)\<rparr>)"
    using ih unfolding it pc by (simp del: take_Suc_Cons)
  moreover have "?S\<lparr>bufs := (bufs ?S)(i \<mapsto> pop_cb sz (Suc n) b)\<rparr> = S\<lparr>bufs := (bufs S)(i \<mapsto> pop_cb sz (Suc n) b)\<rparr>"
    by simp
  ultimately show ?case by (simp only:)
qed

text \<open>C33: \<open>popn(n)\<close> leaves the buffer that \<open>n\<close> calls of \<open>pop\<close> leave and returns the last of the
  items they return; \<open>peek(k)\<close> returns the \<open>k\<close>-th of the items still to be read.\<close>

theorem popn_is_n_pops:
  assumes "buf_view S i = Some (b, d)" "buf_ok sz b d" "0 < n" "n \<le> buf_used sz b"
  shows "\<exists>xs S'. pop_times sz i n S = Inr (xs, S') \<and> buf_popn False sz i (of_nat n) S = Inr (last xs, S') \<and>
    xs = take n (buf_items sz b d) \<and> (\<forall>k<n. buf_peek False sz i (of_nat k) S = Inr (xs ! k))"
proof -
  note at = buf_view_SomeD [OF assms(1)]
  obtain M a where sh: "buf_shape b d sz M a (buf_used sz b)" using buf_ok_shape [OF assms(2)] by blast
  have len: "length (buf_items sz b d) = buf_used sz b" using buf_shape_items [OF sh] by simp
  have "last (take n (buf_items sz b d)) = buf_items sz b d ! (n - 1)"
    using assms(3,4) len by (subst last_conv_nth) auto
  moreover have "buf_peek False sz i (of_nat k) S = Inr (buf_items sz b d ! k)" if "k < n" for k
    using buf_peek_law [OF _ _ sh, of S i k] at that assms(4) by simp
  ultimately show ?thesis
    using pop_times_law [OF _ _ sh assms(4), of S i] buf_popn_law [OF _ _ sh assms(3,4), of S i] at by simp
qed

text \<open>C34: the round-robin splitter filter over Cell buffers, run with scale \<open>n\<close>, moves the items of
  its input out in rounds: branch \<open>i\<close> receives its slice of each consecutive block of
  \<open>sum_list rates\<close> items, in order, and the rest of the input stays.\<close>

theorem rr_splitter_on_buffers:
  assumes "bufs_ok sz S I" "inp \<in> I" "set outs \<subseteq> I" "distinct outs" "inp \<notin> set outs"
    "length rates = length outs" "n * sum_list rates \<le> length (buf_items_at sz S inp)"
    "\<forall>i<length outs. n * rates ! i \<le> buf_room_at sz S (outs ! i)"
  shows "\<exists>S'. rr_splitter (buf_pop False sz) (buf_push False sz) n rates inp outs S = Inr S' \<and> bufs_ok sz S' I \<and>
    buf_items_at sz S' inp = drop (n * sum_list rates) (buf_items_at sz S inp) \<and>
    (\<forall>i<length outs. buf_items_at sz S' (outs ! i) = buf_items_at sz S (outs ! i) @
       concat (map (\<lambda>k. branch_slice rates (drop (k * sum_list rates) (buf_items_at sz S inp)) i) [0..<n]))"
proof -
  have "length x = sz" if "x \<in> set (buf_items_at sz S inp)" for x
    using that by (auto simp: buf_items_at_def buf_items_def ring_items_def split: option.splits)
  then have "bq.split_rounds_pre sz S I n rates inp outs"
    using assms by (auto simp: bq.split_rounds_pre_def buf_fits_at_def)
  from bq.split_rounds_law [OF this, of "[0..<n]"] show ?thesis by (auto simp: rr_splitter_def)
qed

text \<open>The block that \<open>malloc_aligned\<close> hands out is aligned, and it and the pointer stored in front
  of it lie inside the \<open>alignment + size\<close> bytes that were allocated; so does the whole layout of
  \<open>alloc_buffer\<close>, whose data is aligned to a cache line.\<close>

theorem aligned_blocks_fit:
  assumes "malloc_aligned (Some mem) alignment = Inr (Some (data, ptr))" "4 dvd mem" "0 \<le> mem"
    "alloc_buffer_layout mem = (mem_ptr, buf, buf_data)"
  shows "uint alignment dvd data \<and> mem \<le> ptr \<and> ptr + SIZEOF_PTR = data \<and>
    data + bytes \<le> mem + (uint alignment + bytes) \<and>
    128 dvd buf_data \<and> mem \<le> mem_ptr \<and> buf_data = buf + SIZEOF_BUFFER_CB \<and>
    buf_data + bytes \<le> mem + (128 + SIZEOF_BUFFER_CB + bytes)"
proof -
  obtain z where z: "alignment = push_bit z 1" "SIZEOF_PTR \<le> uint alignment"
    and d: "data = mem + (uint alignment - (mem AND (uint alignment - 1)))" "ptr = data - SIZEOF_PTR"
  proof -
    obtain z where "SIZEOF_PTR \<le> uint alignment \<and> alignment = push_bit z 1"
      "Inr (Some (mem + (uint alignment - (mem AND (uint alignment - 1))),
          mem + (uint alignment - (mem AND (uint alignment - 1))) - SIZEOF_PTR))
        = (Inr (Some (data, ptr)) :: (int \<times> int) option res)"
      using assms(1) unfolding malloc_aligned_def rbind_eq_Inr ensure_eq_Inr option.case Let_def
      by (elim exE conjE) (rule that, rule conjI)
    then show ?thesis unfolding sum.inject option.inject prod.inject by (elim conjE) (rule that, simp_all only:)
  qed
  have z4: "4 \<le> uint alignment" using z(2) by (simp only: SIZEOF_PTR_def)
  then have "alignment \<noteq> 0" by auto
  then have un: "unat alignment = 2 ^ z" using push_bit_one_word [OF z(1)] by blast
  have a: "uint alignment = 2 ^ z" unfolding uint_nat un by simp
  have z2: "2 \<le> z"
  proof (rule ccontr)
    assume "\<not> 2 \<le> z"
    then have "z = 0 \<or> z = 1" by auto
    then show False using z4 a by auto
  qed
  then have four: "4 dvd (2::int) ^ z" using le_imp_power_dvd [of 2 z "2::int"] by simp
  have m: "mem AND (uint alignment - 1) = mem mod 2 ^ z" unfolding a by (rule int_and_mask)
  have "4 dvd mem mod 2 ^ z" using assms(2) four by (simp add: dvd_mod)
  then obtain p where p: "mem mod 2 ^ z = 4 * p" by (rule dvdE)
  obtain q :: int where q: "2 ^ z = 4 * q" using four by (rule dvdE)
  have lt: "0 \<le> mem mod 2 ^ z" "mem mod 2 ^ z < 2 ^ z" by simp_all
  then have "p + 1 \<le> q" using p q by linarith
  then have le: "mem mod 2 ^ z \<le> 2 ^ z - 4" using p q by linarith
  have "data = (mem - mem mod 2 ^ z) + 2 ^ z" using d(1) m a by simp
  then have "uint alignment dvd data" unfolding a by (simp add: minus_mod_eq_mult_div)
  moreover have "mem \<le> ptr" "data + bytes \<le> mem + (uint alignment + bytes)"
    using d le m a lt(1) by (auto simp: SIZEOF_PTR_def)
  moreover have "ptr + SIZEOF_PTR = data" using d(2) by simp
  moreover
  have l: "mem_ptr = mem + (28 - mem) mod 128" "buf = mem_ptr + 4" "buf_data = buf + 96"
    using assms(4) int_and_mask [of "28 - mem" 7]
    by (auto simp: alloc_buffer_layout_def Let_def SIZEOF_PTR_def SIZEOF_BUFFER_CB_def)
  have "128 dvd buf_data \<and> mem \<le> mem_ptr \<and> buf_data \<le> mem + 224"
  proof -
    have "4 dvd (28 - mem) mod 128" using assms(2) by (simp add: dvd_mod)
    then obtain r where r: "(28 - mem) mod 128 = 4 * r" by (rule dvdE)
    have "(28 - mem) mod 128 < 128" by simp
    then have "(28 - mem) mod 128 \<le> 124" "0 \<le> (28 - mem) mod 128" using r by simp_all
    moreover have "mem + (28 - mem) mod 128 + 100 = 128 * (1 - (28 - mem) div 128)"
      using minus_mult_div_eq_mod [of "28 - mem" 128] by simp
    then have "128 dvd mem + (28 - mem) mod 128 + 100" by (rule dvdI)
    ultimately show ?thesis using l by (simp add: add.commute [of 100])
  qed
  ultimately show ?thesis using l by (simp add: SIZEOF_BUFFER_CB_def)
qed

section \<open>An instance\<close>

text \<open>Buffers of 128 bytes with items of 32 bytes: four slots, three of them usable.\<close>

definition sample_cb :: "nat \<Rightarrow> u32 \<Rightarrow> u32 \<Rightarrow> buffer_cb" where
  "sample_cb p h t = \<lparr>ihead = h, otail = t, front_action = 0, back_action = 0, dt_active = 0, b_mask = 127,
     b_head = h, b_tail = t, b_data = p, in_back_buffered_bytes = 0, out_front_buffered_bytes = 0,
     front_in_dtcb = \<lparr>dtcb_head = 0, dtcb_tail = 0, dtcb_ack = 0\<rparr>,
     back_in_dtcb = \<lparr>dtcb_head = 0, dtcb_tail = 0, dtcb_ack = 0\<rparr>\<rparr>"

definition sample_bytes :: "byte \<Rightarrow> byte list" where
  "sample_bytes x = concat (map (\<lambda>i. replicate 32 (x + i)) [0, 1, 2, 3])"

definition sample_bufs :: buf_store where
  "sample_bufs = \<lparr>bufs = [2 \<mapsto> sample_cb 12 96 32, 3 \<mapsto> sample_cb 13 0 0, 4 \<mapsto> sample_cb 14 64 64],
     datas = [12 \<mapsto> sample_bytes 10, 13 \<mapsto> sample_bytes 0, 14 \<mapsto> sample_bytes 0]\<rparr>"

lemma sample_cb_ok:
  "buf_ok 32 (sample_cb p 96 32) (sample_bytes x)" "buf_ok 32 (sample_cb p 0 0) (sample_bytes x)"
  "buf_ok 32 (sample_cb p 64 64) (sample_bytes x)"
  by (auto simp: buf_ok_def sample_cb_def sample_bytes_def intro: exI [of _ 7])

lemma sample_bufs_ok: "bufs_ok 32 sample_bufs {2, 3, 4}"
  using sample_cb_ok by (auto simp: bufs_ok_def buf_view_def sample_bufs_def) (auto simp: sample_cb_def)

lemma sample_buf_views:
  "buf_view sample_bufs 2 = Some (sample_cb 12 96 32, sample_bytes 10)"
  "buf_view sample_bufs 3 = Some (sample_cb 13 0 0, sample_bytes 0)"
  "buf_view sample_bufs 4 = Some (sample_cb 14 64 64, sample_bytes 0)"
  by (simp_all add: buf_view_def sample_bufs_def sample_cb_def)

lemma sample_used:
  "buf_used 32 (sample_cb p 96 32) = 2" "buf_used 32 (sample_cb p 0 0) = 0" "buf_used 32 (sample_cb p 64 64) = 0"
  by (simp_all add: buf_used_def buf_bytes_used_def sample_cb_def)

lemma count_128: "count_ls_zeros 128 = Inr 7"
  by (simp add: count_ls_zeros_def upt_rec bit_numeral_rec)

lemma init_buffer_empty_witness:
  "\<exists>b. init_buffer (\<lambda>_. None) (sample_cb 12 0 0) (Some 256) 128 True 32 = Inr b \<and> buf_ok 32 b (sample_bytes 0) \<and>
    buf_items 32 b (sample_bytes 0) = [] \<and> buf_room 32 b (sample_bytes 0) = 3"
proof -
  obtain b where b: "init_buffer (\<lambda>_. None) (sample_cb 12 0 0) (Some 256) 128 True 32 = Inr b"
    by (simp add: init_buffer_def size_ok_def CACHE_SIZE_def count_128)
  show ?thesis using init_buffer_empty [OF b, of "sample_bytes 0" 32] b by (simp add: sample_bytes_def)
qed

lemma popn_is_n_pops_witness:
  "\<exists>xs S'. pop_times 32 2 2 sample_bufs = Inr (xs, S') \<and> buf_popn False 32 2 2 sample_bufs = Inr (last xs, S') \<and>
    length xs = 2"
proof -
  obtain M a where sh: "buf_shape (sample_cb 12 96 32) (sample_bytes 10) 32 M a (buf_used 32 (sample_cb 12 96 32))"
    using buf_ok_shape sample_cb_ok(1) by blast
  obtain xs S' where r: "pop_times 32 2 2 sample_bufs = Inr (xs, S')"
    "buf_popn False 32 2 (of_nat 2) sample_bufs = Inr (last xs, S')"
    "xs = take 2 (buf_items 32 (sample_cb 12 96 32) (sample_bytes 10))"
    using popn_is_n_pops [OF sample_buf_views(1) sample_cb_ok(1), of 2] sample_used(1) by auto
  have "length xs = 2" using r(3) buf_shape_items [OF sh] sample_used(1) by simp
  then show ?thesis using r(1,2) by simp
qed

lemma rr_splitter_on_buffers_witness:
  "\<exists>S'. rr_splitter (buf_pop False 32) (buf_push False 32) 1 [1, 1] 2 [3, 4] sample_bufs = Inr S' \<and>
    buf_items_at 32 S' 2 = [] \<and> buf_items_at 32 S' 3 = [replicate 32 13] \<and> buf_items_at 32 S' 4 = [replicate 32 10]"
proof -
  have it: "buf_items_at 32 sample_bufs 2 = [replicate 32 13, replicate 32 10]"
    "buf_items_at 32 sample_bufs 3 = []" "buf_items_at 32 sample_bufs 4 = []"
  proof -
    have "length (sample_bytes 10) = 128" by (simp add: sample_bytes_def)
    moreover have "drop 96 (sample_bytes 10) = replicate 32 13" "take 32 (sample_bytes 10) = replicate 32 10"
      by (simp_all add: sample_bytes_def)
    ultimately have "ring_read (sample_bytes 10) 96 32 = replicate 32 13"
      "ring_read (sample_bytes 10) 128 32 = replicate 32 10"
      using ring_read_flat [of 96 32 "sample_bytes 10"] ring_read_flat [of 0 32 "sample_bytes 10"]
        ring_read_cong_mod [of 128 "sample_bytes 10" 0 32] by simp_all
    then show "buf_items_at 32 sample_bufs 2 = [replicate 32 13, replicate 32 10]"
      "buf_items_at 32 sample_bufs 3 = []" "buf_items_at 32 sample_bufs 4 = []"
      by (simp_all add: buf_items_at_def sample_buf_views buf_items_def sample_used ring_items_def)
        (simp add: sample_cb_def upt_rec)
  qed
  have room: "buf_room_at 32 sample_bufs 3 = 3" "buf_room_at 32 sample_bufs 4 = 3"
    by (simp_all add: buf_room_at_def sample_buf_views buf_room_def sample_used sample_bytes_def)
  show ?thesis
    using rr_splitter_on_buffers [OF sample_bufs_ok, of 2 "[3, 4]" "[1, 1]" 1] it room
    by (auto simp: less_Suc_eq all_conj_distrib branch_slice_def branch_start_def)
qed

lemma aligned_blocks_fit_witness:
  "malloc_aligned (Some 1004) 128 = Inr (Some (1024, 1020)) \<and> alloc_buffer_layout 1004 = (1052, 1056, 1152) \<and>
    (128::int) dvd 1152"
proof -
  have m: "malloc_aligned (Some 1004) 128 = Inr (Some (1024, 1020))"
    by (simp add: malloc_aligned_def count_128 SIZEOF_PTR_def)
  have l: "alloc_buffer_layout 1004 = (1052, 1056, 1152)"
    by (simp add: alloc_buffer_layout_def SIZEOF_PTR_def SIZEOF_BUFFER_CB_def)
  show ?thesis using aligned_blocks_fit [OF m _ _ l] m l by simp
qed

end
