(* ===== verification/Command.thy ===== *)
theory Command
  imports Ring_Bytes Cell_Buffer
begin

text \<open>
  The commands of the Cell library (\<open>library/cell/src/spucommand.h\<close>, \<open>spucommand.c\<close>) and the stubs
  that build groups of them on the PPU (\<open>src/ppu/spucmdstub.c\<close>): command types and sizes, the
  header with its dependencies, the parameters of each command, the packed request that announces
  a group to an SPU, and the walk over a group in memory.  A command is its header and a body
  with the parameters of its type; bytes and nibbles of a request are 32-bit words.
\<close>

section \<open>Command types and sizes\<close>

definition SPU_CMD_LOAD_DATA :: nat where "SPU_CMD_LOAD_DATA = 0"
definition SPU_CMD_FILTER_LOAD :: nat where "SPU_CMD_FILTER_LOAD = 1"
definition SPU_CMD_FILTER_UNLOAD :: nat where "SPU_CMD_FILTER_UNLOAD = 2"
definition SPU_CMD_FILTER_ATTACH_INPUT :: nat where "SPU_CMD_FILTER_ATTACH_INPUT = 3"
definition SPU_CMD_FILTER_ATTACH_OUTPUT :: nat where "SPU_CMD_FILTER_ATTACH_OUTPUT = 4"
definition SPU_CMD_FILTER_RUN :: nat where "SPU_CMD_FILTER_RUN = 5"
definition SPU_CMD_BUFFER_ALLOC :: nat where "SPU_CMD_BUFFER_ALLOC = 6"
definition SPU_CMD_BUFFER_ALIGN :: nat where "SPU_CMD_BUFFER_ALIGN = 7"
definition SPU_CMD_DT_OUT_FRONT :: nat where "SPU_CMD_DT_OUT_FRONT = 8"
definition SPU_CMD_DT_OUT_FRONT_PPU :: nat where "SPU_CMD_DT_OUT_FRONT_PPU = 9"
definition SPU_CMD_DT_IN_BACK :: nat where "SPU_CMD_DT_IN_BACK = 10"
definition SPU_CMD_NULL :: nat where "SPU_CMD_NULL = 14"
definition SPU_CMD_CALL_FUNC :: nat where "SPU_CMD_CALL_FUNC = 15"
definition SPU_CMD_STATS_PRINT :: nat where "SPU_CMD_STATS_PRINT = 16"
definition SPU_CMD_STATS_UPDATE :: nat where "SPU_CMD_STATS_UPDATE = 17"
definition SPU_NUM_CMD_TYPES :: nat where "SPU_NUM_CMD_TYPES = 18"

lemmas cmd_type_defs = SPU_CMD_LOAD_DATA_def SPU_CMD_FILTER_LOAD_def SPU_CMD_FILTER_UNLOAD_def
  SPU_CMD_FILTER_ATTACH_INPUT_def SPU_CMD_FILTER_ATTACH_OUTPUT_def SPU_CMD_FILTER_RUN_def
  SPU_CMD_BUFFER_ALLOC_def SPU_CMD_BUFFER_ALIGN_def SPU_CMD_DT_OUT_FRONT_def
  SPU_CMD_DT_OUT_FRONT_PPU_def SPU_CMD_DT_IN_BACK_def SPU_CMD_NULL_def SPU_CMD_CALL_FUNC_def
  SPU_CMD_STATS_PRINT_def SPU_CMD_STATS_UPDATE_def SPU_NUM_CMD_TYPES_def

text \<open>The sizes of the command structures with \<open>CHECK\<close> on.\<close>

definition spu_cmd_size :: "nat list" where
  "spu_cmd_size = [32, 64, 32, 32, 32, 48, 32, 32, 48, 48, 64, 48, 48, 64, 32, 16, 16, 16]"

definition cmd_get_size :: "nat \<Rightarrow> nat res" where
  "cmd_get_size ty = index_res spu_cmd_size ty"

definition SPU_MAX_COMMANDS :: nat where "SPU_MAX_COMMANDS = 32"
definition SPU_CMD_MAX_DEPS :: nat where "SPU_CMD_MAX_DEPS = 7"
definition SPU_CMD_MAX_DEPS_LARGE :: nat where "SPU_CMD_MAX_DEPS_LARGE = 15"

definition large_header :: "nat \<Rightarrow> bool" where
  "large_header ty \<longleftrightarrow> ty \<in> {SPU_CMD_NULL, SPU_CMD_FILTER_LOAD, SPU_CMD_FILTER_RUN}"

definition max_deps :: "nat \<Rightarrow> nat" where
  "max_deps ty = (if large_header ty then SPU_CMD_MAX_DEPS_LARGE else SPU_CMD_MAX_DEPS)"

section \<open>Commands\<close>

record filter_desc =
  work_func :: u32
  fparam :: u32
  state_size :: u32
  state_addr :: u32
  num_inputs :: u8
  num_outputs :: u8

record load_data_cmd =
  ld_dest_lsa :: u32
  ld_src_addr :: u32
  ld_num_bytes :: u32
  ld_state :: nat
  ld_tag :: nat

record filter_load_cmd =
  fl_filt :: u32
  fl_state :: nat
  fl_tag :: nat
  fl_state_lsa :: u32
  fl_desc :: filter_desc

record filter_unload_cmd =
  fu_filt :: u32
  fu_state :: nat
  fu_tag :: nat
  fu_detach_only :: bool

record filter_attach_cmd =
  fa_filt :: u32
  fa_tape_id :: u8
  fa_buf_data :: u32

record filter_run_cmd =
  fr_filt :: u32
  fr_iters :: u32
  fr_loop_iters :: u32
  fr_state :: nat

record buffer_alloc_cmd =
  ba_buf_data :: u32
  ba_mask :: u32
  ba_data_offset :: u32

record buffer_align_cmd =
  bl_buf_data :: u32
  bl_data_offset :: u32

record dt_out_cmd =
  do_buf_data :: u32
  do_dest_buf_data :: u32
  do_num_bytes :: u32
  do_state :: nat
  do_tag :: nat
  do_out_head :: u32
  do_out_tail :: u32

record dt_in_cmd =
  di_buf_data :: u32
  di_src_buf_data :: u32
  di_src_buf :: "u32 option"
  di_src_buf_mask :: u32
  di_num_bytes :: u32
  di_state :: nat
  di_tag :: nat
  di_copy_bytes :: u32
  di_src_head :: u32
  di_ua_bytes :: u32

record dt_out_ppu_cmd =
  dp_buf_data :: u32
  dp_dest_buf_data :: u32
  dp_dest_buf :: u32
  dp_dest_buf_mask :: u32
  dp_num_bytes :: u32
  dp_tail_overlaps :: bool
  dp_state :: nat
  dp_tag :: nat
  dp_dest_tail :: u32
  dp_copy_bytes :: u32
  dp_tail_ua_bytes :: u32

datatype cmd_body =
    Load_Data load_data_cmd
  | Filter_Load filter_load_cmd
  | Filter_Unload filter_unload_cmd
  | Filter_Attach filter_attach_cmd
  | Filter_Run filter_run_cmd
  | Buffer_Alloc buffer_alloc_cmd
  | Buffer_Align buffer_align_cmd
  | Dt_Out dt_out_cmd
  | Dt_Out_Ppu dt_out_ppu_cmd
  | Dt_In dt_in_cmd
  | Call_Func u32
  | No_Params

record spu_cmd =
  c_type :: nat
  c_id :: nat
  num_back_deps :: nat
  num_forward_deps :: nat
  c_next :: nat
  c_deps :: "nat list"
  c_body :: cmd_body

definition spu_cmd_get_size :: "spu_cmd \<Rightarrow> nat res" where
  "spu_cmd_get_size c = cmd_get_size (c_type c)"

section \<open>The size of a filter control block\<close>

definition cmd_get_filt_cb_size :: "u8 \<Rightarrow> u8 \<Rightarrow> u32 \<Rightarrow> u32 res" where
  "cmd_get_filt_cb_size n_in n_out st_size =
     ensure CheckFail (st_size AND 15 = 0)
       (Inr (((48 + (ucast n_in + ucast n_out) * 4 + 15) AND NOT 15) + st_size))"

section \<open>Requests\<close>

definition spu_cmd_compose_req :: "u32 \<Rightarrow> u32 \<Rightarrow> u32 \<Rightarrow> u32 res" where
  "spu_cmd_compose_req lsa entry sz =
     ensure CheckFail (lsa AND 15 = 0)
     (ensure AssertFail (entry < 40 \<and> sz \<le> 2048 \<and> sz AND 15 = 0)
       (Inr (drop_bit 4 lsa OR push_bit 14 entry OR push_bit (20 - 4) sz)))"

definition cmd_get_req_lsa :: "u32 \<Rightarrow> u32" where
  "cmd_get_req_lsa req = push_bit 4 (req AND (2 ^ 14 - 1))"

definition cmd_get_req_entry :: "u32 \<Rightarrow> u32" where
  "cmd_get_req_entry req = drop_bit 14 req AND (2 ^ 6 - 1)"

definition cmd_get_req_size :: "u32 \<Rightarrow> u32" where
  "cmd_get_req_size req = push_bit 4 (drop_bit 20 req)"

section \<open>Building groups\<close>

record cmd_group =
  g_spu_id :: nat
  g_gid :: nat
  g_size :: u32
  g_cmds :: "spu_cmd list"

text \<open>\<open>old\<close> is what the header memory held: only the first \<open>num_deps\<close> dependency slots are written.\<close>

definition spu_init_header :: "spu_cmd \<Rightarrow> nat \<Rightarrow> nat \<Rightarrow> nat list \<Rightarrow> spu_cmd res" where
  "spu_init_header old ty i deps =
     ensure CheckFail (i < SPU_MAX_COMMANDS \<and>
        (length deps \<le> SPU_CMD_MAX_DEPS \<or> length deps \<le> SPU_CMD_MAX_DEPS_LARGE \<and> large_header ty))
     (ensure CheckFail (\<forall>d\<in>set deps. d < SPU_MAX_COMMANDS)
       (Inr (old\<lparr>c_type := ty, c_id := i, num_back_deps := length deps, num_forward_deps := 0,
          c_deps := deps @ drop (length deps) (c_deps old)\<rparr>)))"

definition spu_done_command :: "cmd_group \<Rightarrow> spu_cmd \<Rightarrow> cmd_group res" where
  "spu_done_command g c = rbind (spu_cmd_get_size c) (\<lambda>n.
     let sz = g_size g + of_nat n in
     ensure CheckFail (sz \<le> 2048) (Inr (g\<lparr>g_size := sz, g_cmds := g_cmds g @ [c]\<rparr>)))"

definition spu_command :: "nat \<Rightarrow> cmd_body \<Rightarrow> spu_cmd \<Rightarrow> cmd_group \<Rightarrow> nat \<Rightarrow> nat list \<Rightarrow> cmd_group res" where
  "spu_command ty body old g i deps =
     rbind (spu_init_header old ty i deps) (\<lambda>c. spu_done_command g (c\<lparr>c_body := body\<rparr>))"

text \<open>
  The stubs.  A data address is turned into a local store address by adding the start of the
  SPU's data region (\<open>spu_lsa\<close>); \<open>junk\<close> stands for the fields a stub leaves unset.
\<close>

definition spu_load_data :: "(nat \<Rightarrow> u32) \<Rightarrow> nat \<Rightarrow> u32 \<Rightarrow> u32 \<Rightarrow> u32 \<Rightarrow> spu_cmd \<Rightarrow> cmd_group \<Rightarrow> nat \<Rightarrow> nat list
    \<Rightarrow> cmd_group res" where
  "spu_load_data start junk dest_da src num_bytes old g = spu_command SPU_CMD_LOAD_DATA
     (Load_Data \<lparr>ld_dest_lsa = start (g_spu_id g) + dest_da, ld_src_addr = src, ld_num_bytes = num_bytes,
        ld_state = 0, ld_tag = junk\<rparr>) old g"

definition spu_filter_load :: "(nat \<Rightarrow> u32) \<Rightarrow> nat \<Rightarrow> u32 \<Rightarrow> u32 \<Rightarrow> filter_desc \<Rightarrow> spu_cmd \<Rightarrow> cmd_group \<Rightarrow> nat
    \<Rightarrow> nat list \<Rightarrow> cmd_group res" where
  "spu_filter_load start junk junk_lsa filt desc old g = spu_command SPU_CMD_FILTER_LOAD
     (Filter_Load \<lparr>fl_filt = start (g_spu_id g) + filt, fl_state = 0, fl_tag = junk, fl_state_lsa = junk_lsa,
        fl_desc = desc\<rparr>) old g"

definition spu_filter_unload :: "(nat \<Rightarrow> u32) \<Rightarrow> nat \<Rightarrow> u32 \<Rightarrow> spu_cmd \<Rightarrow> cmd_group \<Rightarrow> nat \<Rightarrow> nat list \<Rightarrow> cmd_group res" where
  "spu_filter_unload start junk filt old g = spu_command SPU_CMD_FILTER_UNLOAD
     (Filter_Unload \<lparr>fu_filt = start (g_spu_id g) + filt, fu_state = 0, fu_tag = junk, fu_detach_only = False\<rparr>) old g"

definition spu_filter_detach_all :: "(nat \<Rightarrow> u32) \<Rightarrow> nat \<Rightarrow> u32 \<Rightarrow> spu_cmd \<Rightarrow> cmd_group \<Rightarrow> nat \<Rightarrow> nat list \<Rightarrow> cmd_group res" where
  "spu_filter_detach_all start junk filt old g = spu_command SPU_CMD_FILTER_UNLOAD
     (Filter_Unload \<lparr>fu_filt = start (g_spu_id g) + filt, fu_state = 0, fu_tag = junk, fu_detach_only = True\<rparr>) old g"

definition spu_filter_attach_input :: "(nat \<Rightarrow> u32) \<Rightarrow> u32 \<Rightarrow> u32 \<Rightarrow> u32 \<Rightarrow> spu_cmd \<Rightarrow> cmd_group \<Rightarrow> nat \<Rightarrow> nat list
    \<Rightarrow> cmd_group res" where
  "spu_filter_attach_input start filt tape buf old g = spu_command SPU_CMD_FILTER_ATTACH_INPUT
     (Filter_Attach \<lparr>fa_filt = start (g_spu_id g) + filt, fa_tape_id = ucast tape,
        fa_buf_data = start (g_spu_id g) + buf\<rparr>) old g"

definition spu_filter_attach_output :: "(nat \<Rightarrow> u32) \<Rightarrow> u32 \<Rightarrow> u32 \<Rightarrow> u32 \<Rightarrow> spu_cmd \<Rightarrow> cmd_group \<Rightarrow> nat \<Rightarrow> nat list
    \<Rightarrow> cmd_group res" where
  "spu_filter_attach_output start filt tape buf old g = spu_command SPU_CMD_FILTER_ATTACH_OUTPUT
     (Filter_Attach \<lparr>fa_filt = start (g_spu_id g) + filt, fa_tape_id = ucast tape,
        fa_buf_data = start (g_spu_id g) + buf\<rparr>) old g"

definition spu_filter_run :: "(nat \<Rightarrow> u32) \<Rightarrow> u32 \<Rightarrow> u32 \<Rightarrow> u32 \<Rightarrow> spu_cmd \<Rightarrow> cmd_group \<Rightarrow> nat \<Rightarrow> nat list \<Rightarrow> cmd_group res" where
  "spu_filter_run start filt iters loop_iters old g = spu_command SPU_CMD_FILTER_RUN
     (Filter_Run \<lparr>fr_filt = start (g_spu_id g) + filt, fr_iters = iters, fr_loop_iters = loop_iters, fr_state = 0\<rparr>) old g"

definition spu_buffer_alloc :: "(nat \<Rightarrow> u32) \<Rightarrow> u32 \<Rightarrow> u32 \<Rightarrow> u32 \<Rightarrow> spu_cmd \<Rightarrow> cmd_group \<Rightarrow> nat \<Rightarrow> nat list \<Rightarrow> cmd_group res" where
  "spu_buffer_alloc start buf sz off old g = spu_command SPU_CMD_BUFFER_ALLOC
     (Buffer_Alloc \<lparr>ba_buf_data = start (g_spu_id g) + buf, ba_mask = sz - 1, ba_data_offset = off\<rparr>) old g"

definition spu_buffer_align :: "(nat \<Rightarrow> u32) \<Rightarrow> u32 \<Rightarrow> u32 \<Rightarrow> spu_cmd \<Rightarrow> cmd_group \<Rightarrow> nat \<Rightarrow> nat list \<Rightarrow> cmd_group res" where
  "spu_buffer_align start buf off old g = spu_command SPU_CMD_BUFFER_ALIGN
     (Buffer_Align \<lparr>bl_buf_data = start (g_spu_id g) + buf, bl_data_offset = off\<rparr>) old g"

definition spu_dt_out_front :: "(nat \<Rightarrow> u32) \<Rightarrow> dt_out_cmd \<Rightarrow> u32 \<Rightarrow> u32 \<Rightarrow> u32 \<Rightarrow> spu_cmd \<Rightarrow> cmd_group \<Rightarrow> nat \<Rightarrow> nat list
    \<Rightarrow> cmd_group res" where
  "spu_dt_out_front start junk buf dest num_bytes old g = spu_command SPU_CMD_DT_OUT_FRONT
     (Dt_Out (junk\<lparr>do_buf_data := start (g_spu_id g) + buf, do_dest_buf_data := dest, do_num_bytes := num_bytes,
        do_state := 0\<rparr>)) old g"

definition spu_dt_out_front_ppu_ex :: "(nat \<Rightarrow> u32) \<Rightarrow> dt_out_ppu_cmd \<Rightarrow> u32 \<Rightarrow> u32 \<Rightarrow> buffer_cb \<Rightarrow> u32 \<Rightarrow> bool
    \<Rightarrow> spu_cmd \<Rightarrow> cmd_group \<Rightarrow> nat \<Rightarrow> nat list \<Rightarrow> cmd_group res" where
  "spu_dt_out_front_ppu_ex start junk buf dest_buf b num_bytes overlaps old g = spu_command SPU_CMD_DT_OUT_FRONT_PPU
     (Dt_Out_Ppu (junk\<lparr>dp_buf_data := start (g_spu_id g) + buf, dp_dest_buf_data := of_nat (b_data b),
        dp_dest_buf := dest_buf, dp_dest_buf_mask := b_mask b, dp_num_bytes := num_bytes,
        dp_tail_overlaps := overlaps, dp_tail_ua_bytes := 0, dp_state := 255\<rparr>)) old g"

definition spu_dt_in_back :: "(nat \<Rightarrow> u32) \<Rightarrow> dt_in_cmd \<Rightarrow> u32 \<Rightarrow> u32 \<Rightarrow> u32 \<Rightarrow> u32 \<Rightarrow> spu_cmd \<Rightarrow> cmd_group \<Rightarrow> nat
    \<Rightarrow> nat list \<Rightarrow> cmd_group res" where
  "spu_dt_in_back start junk buf src src_size num_bytes old g = spu_command SPU_CMD_DT_IN_BACK
     (Dt_In (junk\<lparr>di_buf_data := start (g_spu_id g) + buf, di_src_buf_data := src, di_src_buf := Some (src - 96),
        di_src_buf_mask := src_size - 1, di_num_bytes := num_bytes, di_state := 0\<rparr>)) old g"

definition spu_dt_in_back_ppu :: "(nat \<Rightarrow> u32) \<Rightarrow> dt_in_cmd \<Rightarrow> u32 \<Rightarrow> buffer_cb \<Rightarrow> u32 \<Rightarrow> spu_cmd \<Rightarrow> cmd_group \<Rightarrow> nat
    \<Rightarrow> nat list \<Rightarrow> cmd_group res" where
  "spu_dt_in_back_ppu start junk buf b num_bytes old g = spu_command SPU_CMD_DT_IN_BACK
     (Dt_In (junk\<lparr>di_buf_data := start (g_spu_id g) + buf, di_src_buf_data := of_nat (b_data b), di_src_buf := None,
        di_src_buf_mask := b_mask b, di_num_bytes := num_bytes, di_state := 0\<rparr>)) old g"

definition spu_null :: "spu_cmd \<Rightarrow> cmd_group \<Rightarrow> nat \<Rightarrow> nat list \<Rightarrow> cmd_group res" where
  "spu_null old g = spu_command SPU_CMD_NULL No_Params old g"

definition spu_call_func :: "u32 \<Rightarrow> spu_cmd \<Rightarrow> cmd_group \<Rightarrow> nat \<Rightarrow> nat list \<Rightarrow> cmd_group res" where
  "spu_call_func func old g = spu_command SPU_CMD_CALL_FUNC (Call_Func func) old g"

definition spu_stats_print :: "spu_cmd \<Rightarrow> cmd_group \<Rightarrow> nat \<Rightarrow> nat list \<Rightarrow> cmd_group res" where
  "spu_stats_print old g = spu_command SPU_CMD_STATS_PRINT No_Params old g"

definition spu_stats_update :: "spu_cmd \<Rightarrow> cmd_group \<Rightarrow> nat \<Rightarrow> nat list \<Rightarrow> cmd_group res" where
  "spu_stats_update old g = spu_command SPU_CMD_STATS_UPDATE No_Params old g"

section \<open>Walking over a group\<close>

text \<open>
  A group in memory, and the loop that runs over it: \<open>bytes_left\<close> counts down by the size of each
  command, and the action \<open>f\<close> is what is done with a command.
\<close>

definition size_of :: "spu_cmd \<Rightarrow> nat" where
  "size_of c = spu_cmd_size ! c_type c"

fun layout :: "spu_cmd list \<Rightarrow> nat \<Rightarrow> nat \<Rightarrow> spu_cmd option" where
  "layout [] base = Map.empty"
| "layout (c # cs) base = (layout cs (base + size_of c))(base \<mapsto> c)"

lemma spu_cmd_size_bounds: "ty < 18 \<Longrightarrow> 16 \<le> spu_cmd_size ! ty \<and> spu_cmd_size ! ty \<le> 64 \<and> 16 dvd spu_cmd_size ! ty"
proof -
  have "\<forall>n\<in>set spu_cmd_size. 16 \<le> n \<and> n \<le> 64 \<and> 16 dvd n" by (simp add: spu_cmd_size_def)
  moreover have "length spu_cmd_size = 18" by (simp add: spu_cmd_size_def)
  ultimately show "ty < 18 \<Longrightarrow> 16 \<le> spu_cmd_size ! ty \<and> spu_cmd_size ! ty \<le> 64 \<and> 16 dvd spu_cmd_size ! ty"
    by simp
qed

lemma spu_cmd_get_size_eq:
  "spu_cmd_get_size c = (if c_type c < 18 then Inr (size_of c) else Inl OutOfBounds)"
  by (simp add: spu_cmd_get_size_def cmd_get_size_def index_res_def size_of_def)
    (simp add: spu_cmd_size_def)

lemma spu_cmd_get_size_pos: "spu_cmd_get_size c = Inr n \<Longrightarrow> 0 < n"
  using spu_cmd_size_bounds [of "c_type c"] by (auto simp: spu_cmd_get_size_eq size_of_def split: if_splits)

function walk_group :: "(spu_cmd \<Rightarrow> 's \<Rightarrow> 's res) \<Rightarrow> (nat \<Rightarrow> spu_cmd option) \<Rightarrow> nat \<Rightarrow> nat \<Rightarrow> 's \<Rightarrow> 's res" where
  "walk_group f ls addr bytes_left s =
     (if bytes_left = 0 then Inr s
      else case ls addr of None \<Rightarrow> Inl OutOfBounds
        | Some c \<Rightarrow> (case spu_cmd_get_size c of Inl e \<Rightarrow> Inl e
            | Inr n \<Rightarrow> if bytes_left < n then Inl AssertFail
                else (case f c s of Inl e \<Rightarrow> Inl e | Inr s \<Rightarrow> walk_group f ls (addr + n) (bytes_left - n) s)))"
  by auto
termination
proof (relation "measure (\<lambda>(f, ls, addr, bytes_left, s). bytes_left)", simp)
  fix f :: "spu_cmd \<Rightarrow> 's \<Rightarrow> 's res" and ls :: "nat \<Rightarrow> spu_cmd option" and addr left n :: nat and s s' c
  assume "left \<noteq> 0" "spu_cmd_get_size c = Inr n"
  then show "((f, ls, addr + n, left - n, s'), f, ls, addr, left, s) \<in> measure (\<lambda>(f, ls, addr, left, s). left)"
    using spu_cmd_get_size_pos [of c n] by simp
qed

declare walk_group.simps [simp del]

definition group_ok :: "cmd_group \<Rightarrow> bool" where
  "group_ok g \<longleftrightarrow> (\<forall>c\<in>set (g_cmds g). c_type c < 18) \<and> unat (g_size g) = sum_list (map size_of (g_cmds g)) \<and>
     unat (g_size g) \<le> 2048"

lemma layout_below: "a < base \<Longrightarrow> layout cs base a = None"
  by (induction cs arbitrary: base) auto

lemma walk_layout:
  assumes "\<forall>c\<in>set cs. c_type c < 18" "\<And>a. base \<le> a \<Longrightarrow> ls a = layout cs base a"
  shows "walk_group f ls base (sum_list (map size_of cs)) s = rfold f cs s"
  using assms
proof (induction cs arbitrary: base s)
  case Nil
  then show ?case by (simp add: walk_group.simps)
next
  case (Cons c cs)
  have sz: "spu_cmd_get_size c = Inr (size_of c)" using Cons.prems(1) by (simp add: spu_cmd_get_size_eq)
  have pos: "0 < size_of c" by (rule spu_cmd_get_size_pos [OF sz])
  have c: "ls base = Some c" using Cons.prems(2) [of base] by simp
  have rest: "walk_group f ls (base + size_of c) (sum_list (map size_of cs)) s' = rfold f cs s'" for s'
  proof (rule Cons.IH)
    show "\<forall>c\<in>set cs. c_type c < 18" using Cons.prems(1) by simp
    show "ls a = layout cs (base + size_of c) a" if "base + size_of c \<le> a" for a
      using Cons.prems(2) [of a] that pos by simp
  qed
  show ?case
    by (subst walk_group.simps) (use pos in \<open>simp add: c sz rest rbind_def split: sum.split\<close>)
qed

text \<open>What a stub's call does to a group: it appends one command, which carries the header it was
  given, and keeps the group's size the sum of its commands' sizes.\<close>

definition command_of :: "nat \<times> cmd_body \<times> nat \<times> nat list \<Rightarrow> spu_cmd \<Rightarrow> bool" where
  "command_of = (\<lambda>(ty, body, i, deps) c. c_type c = ty \<and> c_id c = i \<and> i < SPU_MAX_COMMANDS \<and>
     num_back_deps c = length deps \<and> length deps \<le> max_deps ty \<and> num_forward_deps c = 0 \<and>
     take (length deps) (c_deps c) = deps \<and> (\<forall>d\<in>set deps. d < SPU_MAX_COMMANDS) \<and> c_body c = body)"

lemma spu_command_appends:
  assumes "spu_command ty body old g i deps = Inr g'" "group_ok g"
  shows "group_ok g' \<and> (\<exists>c. g_cmds g' = g_cmds g @ [c] \<and> command_of (ty, body, i, deps) c)"
proof -
  let ?c = "old\<lparr>c_type := ty, c_id := i, num_back_deps := length deps, num_forward_deps := 0,
      c_deps := deps @ drop (length deps) (c_deps old), c_body := body\<rparr>"
  let ?n = "size_of ?c"
  have ty: "ty < 18" and le: "g_size g + of_nat ?n \<le> 2048"
    and g': "g' = g\<lparr>g_size := g_size g + of_nat ?n, g_cmds := g_cmds g @ [?c]\<rparr>"
    and hd: "i < SPU_MAX_COMMANDS" "length deps \<le> max_deps ty" "\<forall>d\<in>set deps. d < SPU_MAX_COMMANDS"
    using assms(1)
    by (auto simp: spu_command_def spu_init_header_def spu_done_command_def res_simps spu_cmd_get_size_eq
        Let_def size_of_def max_deps_def SPU_CMD_MAX_DEPS_def SPU_CMD_MAX_DEPS_LARGE_def split: if_splits)
  have n: "?n \<le> 64" using spu_cmd_size_bounds [OF ty] by (simp add: size_of_def)
  have ok: "\<forall>c\<in>set (g_cmds g). c_type c < 18" "unat (g_size g) = sum_list (map size_of (g_cmds g))"
    "unat (g_size g) \<le> 2048" using assms(2) by (simp_all add: group_ok_def)
  have "unat (g_size g + of_nat ?n) = unat (g_size g) + ?n"
    using n ok(3) by (simp add: unat_word_ariths unat_of_nat)
  moreover have "unat (g_size g + of_nat ?n) \<le> 2048"
    using le by (simp add: word_le_nat_alt)
  ultimately have "group_ok g'" using ok ty by (simp add: group_ok_def g')
  moreover have "g_cmds g' = g_cmds g @ [?c]" by (simp add: g')
  moreover have "command_of (ty, body, i, deps) ?c" using hd by (simp add: command_of_def)
  ultimately show ?thesis by blast
qed

lemma spu_commands_append:
  assumes "rfold (\<lambda>((ty, body, i, deps), old) g. spu_command ty body old g i deps) rs g = Inr g'" "group_ok g"
  shows "group_ok g' \<and> (\<exists>cs. g_cmds g' = g_cmds g @ cs \<and> list_all2 command_of (map fst rs) cs)"
  using assms
proof (induction rs arbitrary: g)
  case Nil
  then show ?case by simp
next
  case (Cons r rs)
  obtain ty body i deps old where r: "r = ((ty, body, i, deps), old)" by (metis surj_pair)
  obtain h where h: "spu_command ty body old g i deps = Inr h"
    and rest: "rfold (\<lambda>((ty, body, i, deps), old) g. spu_command ty body old g i deps) rs h = Inr g'"
    using Cons.prems(1) by (auto simp: r res_simps)
  obtain c where c: "group_ok h" "g_cmds h = g_cmds g @ [c]" "command_of (ty, body, i, deps) c"
    using spu_command_appends [OF h Cons.prems(2)] by blast
  obtain cs where "group_ok g'" "g_cmds g' = g_cmds h @ cs" "list_all2 command_of (map fst rs) cs"
    using Cons.IH [OF rest c(1)] by blast
  then show ?case using c by (intro conjI exI [of _ "c # cs"]) (simp_all add: r)
qed

lemma group_walk:
  assumes "group_ok g"
  shows "walk_group f (layout (g_cmds g) base) base (unat (g_size g)) s = rfold f (g_cmds g) s"
  using walk_layout [of "g_cmds g" base "layout (g_cmds g) base" f s] assms by (simp add: group_ok_def)

lemma request_fields:
  assumes "spu_cmd_compose_req lsa entry sz = Inr req" "lsa < 2 ^ 18"
  shows "cmd_get_req_lsa req = lsa \<and> cmd_get_req_entry req = entry \<and> cmd_get_req_size req = sz"
proof -
  have req: "req = drop_bit 4 lsa OR push_bit 14 entry OR push_bit 16 sz" and a: "lsa AND 15 = 0"
    and e: "entry < 40" and n: "sz \<le> 2048" "sz AND 15 = 0"
    using assms(1) by (auto simp: spu_cmd_compose_req_def res_simps)
  have low: "\<not> bit w i" if "w AND 15 = 0" "i < 4" for w :: u32 and i
  proof -
    have "\<not> bit (w AND 15) i" using that(1) by simp
    moreover have "bit (15::u32) i" using that(2) by (auto simp: less_Suc_eq numeral_eq_Suc)
    ultimately show ?thesis by (simp add: bit_and_iff)
  qed
  have high: "\<not> bit w i" if "uint w < 2 ^ k" "k \<le> i" for w :: u32 and i k
  proof -
    have "take_bit k (uint w) = uint w" using that(1) by (simp add: take_bit_int_eq_self)
    then have "bit (uint w) i \<longleftrightarrow> bit (take_bit k (uint w)) i" by simp
    then show ?thesis using that(2) by (auto simp: bit_take_bit_iff bit_uint_iff dest: bit_imp_le_length)
  qed
  have l: "uint lsa < 2 ^ 18" and e6: "uint entry < 2 ^ 6" and n12: "uint sz < 2 ^ 12"
    using assms(2) e n(1) by (simp_all add: word_less_def word_le_def)
  have get: "cmd_get_req_lsa r = push_bit 4 (take_bit 14 r)" "cmd_get_req_entry r = take_bit 6 (drop_bit 14 r)" for r
    unfolding cmd_get_req_lsa_def cmd_get_req_entry_def take_bit_eq_mask mask_eq_exp_minus_1 by (rule refl)+
  note bits = bit_take_bit_iff bit_or_iff bit_and_iff bit_push_bit_iff bit_drop_bit_eq bit_mask_iff
  have A: "cmd_get_req_lsa req = lsa"
  proof (rule bit_word_eqI)
    fix i assume "i < LENGTH(32)"
    then show "bit (cmd_get_req_lsa req) i = bit lsa i"
      using low [OF a, of i] high [OF l, of i]
      by (cases "i < 4"; cases "i < 18") (auto simp: get req bits less_diff_conv2 le_diff_conv2)
  qed
  have B: "cmd_get_req_entry req = entry"
  proof (rule bit_word_eqI)
    fix i assume "i < LENGTH(32)"
    then show "bit (cmd_get_req_entry req) i = bit entry i"
      using low [OF n(2), of "i - 2"] high [OF l, of "i + 18"] high [OF e6, of i]
      by (cases "i < 6") (auto simp: get req bits add.commute numeral_2_eq_2)
  qed
  have C: "cmd_get_req_size req = sz"
  proof (rule bit_word_eqI)
    fix i assume "i < LENGTH(32)"
    then show "bit (cmd_get_req_size req) i = bit sz i"
      using low [OF n(2), of i] high [OF n12, of i] high [OF l, of "i + 20"] high [OF e6, of "i + 2"]
      by (cases "i < 4"; cases "i < 12") (auto simp: cmd_get_req_size_def req bits add.commute)
  qed
  show ?thesis using A B C by simp
qed

section \<open>Properties\<close>

text \<open>C35: a request that \<open>spu_cmd_compose_req\<close> accepts, for an address inside the local store, is
  taken apart by the SPU into the address, the table entry and the size it was composed of.\<close>

theorem request_round_trip:
  assumes "spu_cmd_compose_req lsa entry sz = Inr req" "lsa < 2 ^ 18"
  shows "cmd_get_req_lsa req = lsa \<and> cmd_get_req_entry req = entry \<and> cmd_get_req_size req = sz"
  by (rule request_fields [OF assms])

theorem request_round_trip_witness:
  "\<exists>req. spu_cmd_compose_req 0x3ab50 17 640 = Inr req \<and>
     cmd_get_req_lsa req = 0x3ab50 \<and> cmd_get_req_entry req = 17 \<and> cmd_get_req_size req = 640"
proof -
  have "spu_cmd_compose_req 0x3ab50 17 640 = Inr (drop_bit 4 0x3ab50 OR push_bit 14 17 OR push_bit (20 - 4) 640)"
    by (simp add: spu_cmd_compose_req_def)
  from request_round_trip [OF this] show ?thesis using \<open>spu_cmd_compose_req _ _ _ = _\<close> by simp
qed

text \<open>C38: a group that a sequence of stub calls builds from a well-formed one holds one command
  per call, with the type, ID, dependencies and parameters of the call and no forward dependency
  yet; its size stays the sum of the command sizes, at most 2048; and the SPU's loop over the
  group's bytes visits exactly those commands, in order, ending where the bytes end.\<close>

theorem built_group_is_walked:
  assumes "rfold (\<lambda>((ty, body, i, deps), old) g. spu_command ty body old g i deps) rs g = Inr g'" "group_ok g"
  shows "group_ok g' \<and> (\<exists>cs. g_cmds g' = g_cmds g @ cs \<and> list_all2 command_of (map fst rs) cs) \<and>
    walk_group f (layout (g_cmds g') base) base (unat (g_size g')) s = rfold f (g_cmds g') s"
  using spu_commands_append [OF assms] by (simp add: group_walk)

theorem built_group_is_walked_witness:
  "let old = \<lparr>c_type = 99, c_id = 99, num_back_deps = 9, num_forward_deps = 9, c_next = 99,
       c_deps = replicate 15 77, c_body = No_Params\<rparr>;
     g = \<lparr>g_spu_id = 0, g_gid = 3, g_size = 0, g_cmds = []\<rparr>;
     rs = [((SPU_CMD_CALL_FUNC, Call_Func 5, 4, []), old), ((SPU_CMD_NULL, No_Params, 6, [4, 2]), old)]
   in \<exists>g'. rfold (\<lambda>((ty, body, i, deps), old) g. spu_command ty body old g i deps) rs g = Inr g' \<and>
     group_ok g' \<and>
     walk_group (\<lambda>c ids. Inr (ids @ [c_id c])) (layout (g_cmds g') 1000) 1000 (unat (g_size g')) [] = Inr [4, 6]"
proof -
  let ?old = "\<lparr>c_type = 99, c_id = 99, num_back_deps = 9, num_forward_deps = 9, c_next = 99,
       c_deps = replicate 15 77, c_body = No_Params\<rparr> :: spu_cmd"
  let ?g = "\<lparr>g_spu_id = 0, g_gid = 3, g_size = 0, g_cmds = []\<rparr>"
  let ?rs = "[((SPU_CMD_CALL_FUNC, Call_Func 5, 4, []), ?old), ((SPU_CMD_NULL, No_Params, 6, [4, 2]), ?old)]"
  let ?c1 = "?old\<lparr>c_type := 15, c_id := 4, num_back_deps := 0, num_forward_deps := 0, c_body := Call_Func 5\<rparr>"
  let ?c2 = "?old\<lparr>c_type := 14, c_id := 6, num_back_deps := 2, num_forward_deps := 0,
      c_deps := [4, 2] @ replicate 13 77, c_body := No_Params\<rparr>"
  let ?g' = "\<lparr>g_spu_id = 0, g_gid = 3, g_size = 48, g_cmds = [?c1, ?c2]\<rparr>"
  have run: "rfold (\<lambda>((ty, body, i, deps), old) g. spu_command ty body old g i deps) ?rs ?g = Inr ?g'"
    by code_simp
  have "group_ok ?g" by (simp add: group_ok_def)
  from built_group_is_walked [OF run this, of "\<lambda>c ids. Inr (ids @ [c_id c])" 1000 "[]"]
  have "group_ok ?g'" "walk_group (\<lambda>c ids. Inr (ids @ [c_id c])) (layout (g_cmds ?g') 1000) 1000 (unat (g_size ?g')) []
      = rfold (\<lambda>c ids. Inr (ids @ [c_id c])) (g_cmds ?g') []" by blast+
  with run show ?thesis unfolding Let_def by (intro exI [of _ ?g']) simp
qed

end
