(* ===== verification/Depend.thy ===== *)
theory Depend
  imports Command
begin

text \<open>
  The command scheduler of an SPU (\<open>library/cell/src/spu/depend.c\<close>, \<open>depend.h\<close>) and its DMA tags
  (\<open>src/spu/dma.c\<close>, \<open>dma.h\<close>).  Commands run round robin along a circular list that is threaded
  through their headers; a command leaves the list when it completes or waits for a DMA transfer,
  and a command with unfinished dependencies is not on it.  Two commands are internal: the worker,
  which handles DMA completions and notifies the PPU, and the request handler, which copies in
  groups of commands.  The command table maps an ID to its command; a pointer into the list is the
  \<open>next\<close> field of a command, named by its ID, or the head of the list of commands that wait for an
  MFC slot.  The mailboxes, the MFC's queue and the completed tags are fields that the hardware
  changes between two steps.
\<close>

section \<open>State\<close>

datatype next_ptr = NextOf nat | WaitHead

datatype mfc_op = Mfc_Get nat u32 u32 u32 | Mfc_Put nat u32 u32 u32

record dep_state =
  commands :: "nat \<Rightarrow> spu_cmd option"
  dep_cur_id :: nat
  dep_cur_ptr :: next_ptr
  dep_next_ptr :: next_ptr
  dep_dequeued :: bool
  cmd_group_table :: u32
  dep_completed_mask :: u32
  req_state :: nat
  req_tag :: nat
  req_lsa :: u32
  req_bytes :: u32
  dma_free_tags :: u32
  dma_active_tags :: u32
  dma_waiting :: "nat list"
  dma_waiting_avail :: nat
  dma_waiting_avail_ptr :: next_ptr
  out_mbox :: "u32 option"
  in_mbox :: "u32 list"
  mfc_slots :: nat
  mfc_log :: "mfc_op list"
  tag_status :: u32
  ls_commands :: "nat \<Rightarrow> spu_cmd option"

definition CMD_WORKER_ID :: nat where "CMD_WORKER_ID = 32"
definition CMD_REQ_HANDLER_ID :: nat where "CMD_REQ_HANDLER_ID = 33"
definition CMD_WORKER :: nat where "CMD_WORKER = 18"
definition CMD_REQ_HANDLER :: nat where "CMD_REQ_HANDLER = 19"
definition INVALID_COMMAND_ID :: nat where "INVALID_COMMAND_ID = 255"
definition DMA_NUM_TAGS :: nat where "DMA_NUM_TAGS = 32"
definition MAX_DMA_SIZE :: u32 where "MAX_DMA_SIZE = 16384"

lemmas id_defs = CMD_WORKER_ID_def CMD_REQ_HANDLER_ID_def INVALID_COMMAND_ID_def SPU_MAX_COMMANDS_def DMA_NUM_TAGS_def

definition get_command :: "nat \<Rightarrow> 'a dep_state_scheme \<Rightarrow> spu_cmd res" where
  "get_command i s = ensure OutOfBounds (i < 34) (deref (commands s i))"

definition put_command :: "nat \<Rightarrow> spu_cmd \<Rightarrow> 'a dep_state_scheme \<Rightarrow> 'a dep_state_scheme" where
  "put_command i c s = s\<lparr>commands := (commands s)(i \<mapsto> c)\<rparr>"

text \<open>Reading and writing through a pointer into a list.\<close>

fun load_next :: "next_ptr \<Rightarrow> 'a dep_state_scheme \<Rightarrow> nat res" where
  "load_next (NextOf i) s = rbind (get_command i s) (\<lambda>c. Inr (c_next c))"
| "load_next WaitHead s = Inr (dma_waiting_avail s)"

fun store_next :: "next_ptr \<Rightarrow> nat \<Rightarrow> 'a dep_state_scheme \<Rightarrow> 'a dep_state_scheme res" where
  "store_next (NextOf i) v s = rbind (get_command i s) (\<lambda>c. Inr (put_command i (c\<lparr>c_next := v\<rparr>) s))"
| "store_next WaitHead v s = Inr (s\<lparr>dma_waiting_avail := v\<rparr>)"

definition tag_bit :: "nat \<Rightarrow> u32" where
  "tag_bit i = push_bit i 1"

section \<open>DMA tags\<close>

definition tag_valid :: "nat \<Rightarrow> 'a dep_state_scheme \<Rightarrow> bool" where
  "tag_valid tag s \<longleftrightarrow> tag < DMA_NUM_TAGS \<and> dma_free_tags s AND tag_bit tag = 0 \<and>
     tag < length (dma_waiting s) \<and> dma_waiting s ! tag = INVALID_COMMAND_ID"

definition dma_reserve_tag :: "'a dep_state_scheme \<Rightarrow> (nat \<times> 'a dep_state_scheme) res" where
  "dma_reserve_tag s = ensure CheckFail (dma_free_tags s \<noteq> 0)
     (rbind (count_ls_zeros (dma_free_tags s)) (\<lambda>free_tag.
        Inr (free_tag, s\<lparr>dma_free_tags := dma_free_tags s AND NOT (tag_bit free_tag)\<rparr>)))"

definition dma_query_complete :: "nat \<Rightarrow> 'a dep_state_scheme \<Rightarrow> bool res" where
  "dma_query_complete tag s = ensure AssertFail (tag_valid tag s) (Inr (dma_active_tags s AND tag_bit tag = 0))"

definition dma_release_tag :: "nat \<Rightarrow> 'a dep_state_scheme \<Rightarrow> 'a dep_state_scheme res" where
  "dma_release_tag tag s = rbind (dma_query_complete tag s) (\<lambda>done.
     ensure AssertFail done (Inr (s\<lparr>dma_free_tags := dma_free_tags s OR tag_bit tag\<rparr>)))"

definition dma_query_avail :: "nat \<Rightarrow> 'a dep_state_scheme \<Rightarrow> bool" where
  "dma_query_avail num_slots s \<longleftrightarrow> num_slots \<le> mfc_slots s"

text \<open>Starting a transfer takes a slot of the MFC's queue; the tag's transfers are no longer done.\<close>

definition mfc_start :: "nat \<Rightarrow> mfc_op \<Rightarrow> 'a dep_state_scheme \<Rightarrow> 'a dep_state_scheme" where
  "mfc_start tag oper s = s\<lparr>mfc_slots := mfc_slots s - 1, mfc_log := mfc_log s @ [oper],
     tag_status := tag_status s AND NOT (tag_bit tag)\<rparr>"

definition dma_start :: "nat \<Rightarrow> mfc_op \<Rightarrow> 'a dep_state_scheme \<Rightarrow> 'a dep_state_scheme res" where
  "dma_start tag oper s = ensure AssertFail (tag_valid tag s) (ensure AssertFail (dma_query_avail 1 s)
     (Inr (mfc_start tag oper (s\<lparr>dma_active_tags := dma_active_tags s OR tag_bit tag\<rparr>))))"

definition dma_get :: "nat \<Rightarrow> u32 \<Rightarrow> u32 \<Rightarrow> u32 \<Rightarrow> 'a dep_state_scheme \<Rightarrow> 'a dep_state_scheme res" where
  "dma_get tag dest_lsa src_addr num_bytes = dma_start tag (Mfc_Get tag dest_lsa src_addr num_bytes)"

definition dma_put :: "nat \<Rightarrow> u32 \<Rightarrow> u32 \<Rightarrow> u32 \<Rightarrow> 'a dep_state_scheme \<Rightarrow> 'a dep_state_scheme res" where
  "dma_put tag dest_addr src_lsa num_bytes = dma_start tag (Mfc_Put tag src_lsa dest_addr num_bytes)"

text \<open>Suspending the current command.\<close>

definition dma_wait_complete :: "nat \<Rightarrow> 'a dep_state_scheme \<Rightarrow> 'a dep_state_scheme res" where
  "dma_wait_complete tag s = rbind (dma_query_complete tag s) (\<lambda>done.
     if done then Inr s
     else ensure AssertFail (\<not> dep_dequeued s)
       (rbind (load_next (dep_next_ptr s) (s\<lparr>dep_dequeued := True\<rparr>)) (\<lambda>next_id.
        rbind (store_next (dep_cur_ptr s) next_id (s\<lparr>dep_dequeued := True\<rparr>)) (\<lambda>s.
          Inr (s\<lparr>dep_next_ptr := dep_cur_ptr s, dma_waiting := (dma_waiting s)[tag := dep_cur_id s]\<rparr>)))))"

definition dma_wait_avail :: "'a dep_state_scheme \<Rightarrow> 'a dep_state_scheme res" where
  "dma_wait_avail s = ensure AssertFail (\<not> dep_dequeued s)
     (rbind (load_next (dep_next_ptr s) (s\<lparr>dep_dequeued := True\<rparr>)) (\<lambda>next_id.
      rbind (store_next (dep_cur_ptr s) next_id (s\<lparr>dep_dequeued := True\<rparr>)) (\<lambda>s.
      rbind (store_next (dep_next_ptr s) INVALID_COMMAND_ID s) (\<lambda>s.
      rbind (store_next (dma_waiting_avail_ptr s) (dep_cur_id s) s) (\<lambda>s.
        Inr (s\<lparr>dma_waiting_avail_ptr := dep_next_ptr s, dep_next_ptr := dep_cur_ptr s\<rparr>))))))"

section \<open>Completing a command\<close>

text \<open>The PPU is told of completed commands when the outbound mailbox has room.\<close>

definition notify_ppu :: "'a dep_state_scheme \<Rightarrow> 'a dep_state_scheme" where
  "notify_ppu s = (if out_mbox s = None
     then s\<lparr>out_mbox := Some (dep_completed_mask s), dep_completed_mask := 0\<rparr> else s)"

definition release_dep :: "nat \<Rightarrow> nat \<times> 'a dep_state_scheme \<Rightarrow> (nat \<times> 'a dep_state_scheme) res" where
  "release_dep dep_id = (\<lambda>(next_id, s). ensure OutOfBounds (dep_id < 34) (case commands s dep_id of
       None \<Rightarrow> Inl AssertFail
     | Some dep \<Rightarrow> ensure AssertFail (num_back_deps dep \<noteq> 0)
         (if num_back_deps dep = 1
          then Inr (dep_id, put_command dep_id (dep\<lparr>num_back_deps := 0, c_next := next_id\<rparr>) s)
          else Inr (next_id, put_command dep_id (dep\<lparr>num_back_deps := num_back_deps dep - 1\<rparr>) s))))"

definition dep_complete_command :: "'a dep_state_scheme \<Rightarrow> 'a dep_state_scheme res" where
  "dep_complete_command s =
     rbind (load_next (dep_next_ptr s) s) (\<lambda>next_id.
     ensure AssertFail (dep_cur_id s < SPU_MAX_COMMANDS \<and> \<not> dep_dequeued s)
     (rbind (get_command (dep_cur_id s) s) (\<lambda>cmd.
      rbind (rfold (\<lambda>i st. rbind (index_res (c_deps cmd) i) (\<lambda>dep_id. release_dep dep_id st))
         [0..<num_forward_deps cmd] (next_id, s\<lparr>dep_dequeued := True\<rparr>)) (\<lambda>(next_id, s).
      rbind (store_next (dep_cur_ptr s) next_id s) (\<lambda>s.
        Inr (notify_ppu (s\<lparr>dep_next_ptr := dep_cur_ptr s, commands := (commands s)(dep_cur_id s := None),
          dep_completed_mask := dep_completed_mask s OR tag_bit (dep_cur_id s)\<rparr>)))))))"

section \<open>Adding a command\<close>

text \<open>A backward dependency of the new command becomes a forward dependency of a pending one.\<close>

definition add_back_dep :: "nat \<Rightarrow> nat \<Rightarrow> 'a dep_state_scheme \<Rightarrow> 'a dep_state_scheme res" where
  "add_back_dep cmd_id i s = rbind (get_command cmd_id s) (\<lambda>cmd. rbind (index_res (c_deps cmd) i) (\<lambda>d.
     ensure CheckFail (d < SPU_MAX_COMMANDS) (case commands s d of
         None \<Rightarrow> Inr (put_command cmd_id (cmd\<lparr>num_back_deps := num_back_deps cmd - 1\<rparr>) s)
       | Some dep \<Rightarrow>
           ensure CheckFail (num_forward_deps dep < SPU_CMD_MAX_DEPS \<or>
             num_forward_deps dep < SPU_CMD_MAX_DEPS_LARGE \<and> large_header (c_type dep))
           (ensure OutOfBounds (num_forward_deps dep < length (c_deps dep))
             (Inr (put_command d (dep\<lparr>c_deps := (c_deps dep)[num_forward_deps dep := cmd_id],
                num_forward_deps := num_forward_deps dep + 1\<rparr>) s))))))"

definition dep_add_command :: "spu_cmd \<Rightarrow> 'a dep_state_scheme \<Rightarrow> 'a dep_state_scheme res" where
  "dep_add_command cmd s =
     (let cmd_id = c_id cmd in
     ensure AssertFail (c_type cmd < SPU_NUM_CMD_TYPES \<and> cmd_id < SPU_MAX_COMMANDS \<and>
        (num_back_deps cmd \<le> SPU_CMD_MAX_DEPS \<or>
         num_back_deps cmd \<le> SPU_CMD_MAX_DEPS_LARGE \<and> large_header (c_type cmd)) \<and> num_forward_deps cmd = 0)
     (ensure AssertFail (commands s cmd_id = None \<and> dep_completed_mask s AND tag_bit cmd_id = 0)
     (rbind (rfold (add_back_dep cmd_id) [0..<num_back_deps cmd] (put_command cmd_id cmd s)) (\<lambda>s.
      rbind (get_command cmd_id s) (\<lambda>cmd.
        if num_back_deps cmd = 0
        then rbind (load_next (dep_next_ptr s) s) (\<lambda>next_id.
             rbind (store_next (dep_next_ptr s) cmd_id (put_command cmd_id (cmd\<lparr>c_next := next_id\<rparr>) s)) (\<lambda>s.
               Inr (s\<lparr>dep_next_ptr := NextOf cmd_id\<rparr>)))
        else Inr s)))))"

section \<open>The worker\<close>

text \<open>The loop over the completed tags, lowest first, and the two lists it empties.\<close>

definition wake_tag :: "nat \<Rightarrow> nat \<times> 'a dep_state_scheme \<Rightarrow> (nat \<times> 'a dep_state_scheme) res" where
  "wake_tag tag = (\<lambda>(next_id, s). rbind (index_res (dma_waiting s) tag) (\<lambda>waiting_id.
     if waiting_id \<noteq> INVALID_COMMAND_ID
     then rbind (store_next (NextOf waiting_id) next_id
            (s\<lparr>dma_waiting := (dma_waiting s)[tag := INVALID_COMMAND_ID]\<rparr>)) (\<lambda>s. Inr (waiting_id, s))
     else Inr (next_id, s)))"

lemma bit_tag_bit: "bit (tag_bit t) i \<longleftrightarrow> i = t \<and> t < 32"
  by (auto simp: tag_bit_def bit_exp_iff)

lemma and_tag_bit: "w AND tag_bit t = 0 \<longleftrightarrow> \<not> bit w t" for w :: u32
proof
  assume "w AND tag_bit t = 0"
  then have "\<not> bit (w AND tag_bit t) t" by simp
  then show "\<not> bit w t" by (auto simp: bit_and_iff bit_tag_bit dest: bit_imp_le_length)
next
  assume "\<not> bit w t"
  then show "w AND tag_bit t = 0" by (intro bit_word_eqI) (auto simp: bit_and_iff bit_tag_bit)
qed

lemma count_ls_zeros_bit:
  assumes "count_ls_zeros w = Inr t"
  shows "bit w t \<and> t < 32 \<and> (\<forall>i<t. \<not> bit w i)"
proof -
  have w: "w \<noteq> 0" and t: "t = length (takeWhile (\<lambda>i. \<not> bit w i) [0..<32])"
    using assms by (auto simp: count_ls_zeros_def split: if_splits)
  obtain j where j: "j < 32" "bit w j"
  proof (rule ccontr)
    assume "\<not> thesis"
    then have "\<forall>j<32. \<not> bit w j" using that by blast
    then have "w = 0" by (intro bit_word_eqI) simp
    then show False using w by simp
  qed
  have len: "t < length [0..<32]"
  proof (rule ccontr)
    assume "\<not> t < length [0..<32]"
    then have "takeWhile (\<lambda>i. \<not> bit w i) [0..<32] = [0..<32]"
      using t length_takeWhile_le [of "\<lambda>i. \<not> bit w i" "[0..<32]"]
      by (metis le_antisym not_less takeWhile_eq_take take_all)
    then have "\<forall>i\<in>set [0..<32]. \<not> bit w i" by (metis set_takeWhileD)
    then show False using j by simp
  qed
  have "bit w ([0..<32] ! t)" using nth_length_takeWhile [OF len [unfolded t]] t by simp
  moreover have "\<not> bit w ([0..<32] ! i)" if "i < t" for i
    using that t by (metis nth_mem set_takeWhileD takeWhile_nth)
  ultimately show ?thesis using len by auto
qed

lemma clear_bit_less:
  assumes "bit w t"
  shows "unat (w AND NOT (tag_bit t)) < unat (w::u32)"
proof -
  have "(w AND NOT (tag_bit t)) AND tag_bit t = 0"
    by (simp add: and_tag_bit bit_and_iff bit_not_iff bit_tag_bit)
  moreover have "w AND NOT (tag_bit t) \<noteq> w"
    using assms calculation by (metis and_tag_bit)
  moreover have "w AND NOT (tag_bit t) \<le> w" by (rule word_and_le2)
  ultimately have "w AND NOT (tag_bit t) < w" by simp
  then show ?thesis by (simp only: word_less_nat_alt)
qed

function wake_tags :: "u32 \<Rightarrow> nat \<times> 'a dep_state_scheme \<Rightarrow> (nat \<times> 'a dep_state_scheme) res" where
  "wake_tags completed st = (case count_ls_zeros completed of
       Inl _ \<Rightarrow> Inr st
     | Inr tag \<Rightarrow> (case wake_tag tag st of Inl e \<Rightarrow> Inl e | Inr st \<Rightarrow> wake_tags (completed AND NOT (tag_bit tag)) st))"
  by auto
termination
  by (relation "measure (\<lambda>(completed, st). unat completed)") (auto dest: count_ls_zeros_bit intro: clear_bit_less)

declare wake_tags.simps [simp del]

definition wake_avail :: "nat \<times> 'a dep_state_scheme \<Rightarrow> (nat \<times> 'a dep_state_scheme) res" where
  "wake_avail = (\<lambda>(next_id, s).
     if dma_waiting_avail s \<noteq> INVALID_COMMAND_ID
     then rbind (store_next (dma_waiting_avail_ptr s) next_id s) (\<lambda>s.
       Inr (dma_waiting_avail s, s\<lparr>dma_waiting_avail := INVALID_COMMAND_ID, dma_waiting_avail_ptr := WaitHead\<rparr>))
     else Inr (next_id, s))"

definition dma_completions :: "'a dep_state_scheme \<Rightarrow> 'a dep_state_scheme res" where
  "dma_completions s =
     (let completed_tags = tag_status s AND dma_active_tags s in
     if completed_tags = 0 then Inr s
     else rbind (load_next (dep_next_ptr s) s) (\<lambda>next_id.
       rbind (wake_tags completed_tags (next_id, s\<lparr>dma_active_tags := dma_active_tags s AND NOT completed_tags\<rparr>)) (\<lambda>st.
       rbind (wake_avail st) (\<lambda>(next_id, s). store_next (dep_next_ptr s) next_id s))))"

definition run_worker :: "'a dep_state_scheme \<Rightarrow> 'a dep_state_scheme res" where
  "run_worker s =
     (let s = (if dep_completed_mask s \<noteq> 0 then notify_ppu s else s) in
     if dma_active_tags s \<noteq> 0 then dma_completions s else Inr s)"

section \<open>The request handler\<close>

definition dep_get_cmd_group_addr :: "u32 \<Rightarrow> 'a dep_state_scheme \<Rightarrow> u32" where
  "dep_get_cmd_group_addr entry s = cmd_group_table s + push_bit 11 entry"

text \<open>State 1: the request is read and its group's transfer started, if the MFC has a slot.\<close>

definition req_start :: "'a dep_state_scheme \<Rightarrow> 'a dep_state_scheme res" where
  "req_start s =
     (if \<not> dma_query_avail 1 s then dma_wait_avail s
      else case in_mbox s of [] \<Rightarrow> Inl Stalled
        | req # rest \<Rightarrow>
            (let s = s\<lparr>in_mbox := rest, req_lsa := cmd_get_req_lsa req, req_bytes := cmd_get_req_size req\<rparr> in
            rbind (dma_get (req_tag s) (req_lsa s) (dep_get_cmd_group_addr (cmd_get_req_entry req) s) (req_bytes s) s) (\<lambda>s.
            rbind (dma_wait_complete (req_tag s) s) (\<lambda>s. Inr (s\<lparr>req_state := 2\<rparr>)))))"

definition req_poll :: "'a dep_state_scheme \<Rightarrow> 'a dep_state_scheme res" where
  "req_poll s = (if in_mbox s = [] then Inr s else req_start (s\<lparr>req_state := 1\<rparr>))"

definition req_add_group :: "'a dep_state_scheme \<Rightarrow> 'a dep_state_scheme res" where
  "req_add_group s = rbind (walk_group dep_add_command (ls_commands s) (unat (req_lsa s)) (unat (req_bytes s)) s) (\<lambda>s.
     Inr (s\<lparr>dep_next_ptr := NextOf CMD_REQ_HANDLER_ID, req_state := 0\<rparr>))"

definition run_req_handler :: "'a dep_state_scheme \<Rightarrow> 'a dep_state_scheme res" where
  "run_req_handler s =
     (if req_state s = 0 then req_poll s
      else if req_state s = 1 then req_start s
      else if req_state s = 2 then rbind (req_add_group s) req_poll
      else Inl Unreached)"

section \<open>Starting up and dispatching\<close>

text \<open>\<open>dep_init\<close>: \<open>params\<close> gives the group table of the parameters the PPU sent the address of.\<close>

definition dep_init :: "(u32 \<Rightarrow> u32) \<Rightarrow> spu_cmd \<Rightarrow> 'a dep_state_scheme \<Rightarrow> 'a dep_state_scheme res" where
  "dep_init params zero s = (case in_mbox s of [] \<Rightarrow> Inl Stalled
     | param_addr # rest \<Rightarrow>
        (let s = put_command CMD_WORKER_ID (zero\<lparr>c_type := CMD_WORKER, c_id := CMD_WORKER_ID, c_next := CMD_REQ_HANDLER_ID\<rparr>)
           (put_command CMD_REQ_HANDLER_ID (zero\<lparr>c_type := CMD_REQ_HANDLER, c_id := CMD_REQ_HANDLER_ID, c_next := CMD_WORKER_ID\<rparr>)
             (s\<lparr>in_mbox := rest, dep_next_ptr := NextOf CMD_REQ_HANDLER_ID, req_state := 0\<rparr>))
        in rbind (dma_reserve_tag s) (\<lambda>(tag, s).
           if out_mbox s = None then Inr (s\<lparr>req_tag := tag, cmd_group_table := params param_addr, out_mbox := Some 0\<rparr>)
           else Inl Stalled)))"

text \<open>
  One turn of the loop of \<open>dep_execute\<close>: the next command becomes the current one and its handler
  runs.  \<open>run\<close> is the handler of the commands of other components.
\<close>

definition dep_fetch :: "'a dep_state_scheme \<Rightarrow> 'a dep_state_scheme res" where
  "dep_fetch s = rbind (load_next (dep_next_ptr s) s) (\<lambda>i. ensure OutOfBounds (i < 34)
     (ensure AssertFail (commands s i \<noteq> None)
       (Inr (s\<lparr>dep_cur_ptr := dep_next_ptr s, dep_cur_id := i, dep_next_ptr := NextOf i, dep_dequeued := False\<rparr>))))"

definition handled_types :: "nat set" where
  "handled_types = {SPU_CMD_LOAD_DATA, SPU_CMD_FILTER_LOAD, SPU_CMD_FILTER_UNLOAD, SPU_CMD_FILTER_ATTACH_INPUT,
     SPU_CMD_FILTER_ATTACH_OUTPUT, SPU_CMD_FILTER_RUN, SPU_CMD_BUFFER_ALLOC, SPU_CMD_BUFFER_ALIGN,
     SPU_CMD_DT_OUT_FRONT, SPU_CMD_DT_OUT_FRONT_PPU, SPU_CMD_DT_IN_BACK, SPU_CMD_CALL_FUNC,
     SPU_CMD_STATS_PRINT, SPU_CMD_STATS_UPDATE}"

definition dep_dispatch :: "(spu_cmd \<Rightarrow> 'a dep_state_scheme \<Rightarrow> 'a dep_state_scheme res) \<Rightarrow> 'a dep_state_scheme \<Rightarrow> 'a dep_state_scheme res" where
  "dep_dispatch run s = rbind (get_command (dep_cur_id s) s) (\<lambda>cmd.
     if c_type cmd = CMD_WORKER then run_worker s
     else if c_type cmd = CMD_REQ_HANDLER then run_req_handler s
     else if c_type cmd = SPU_CMD_NULL then dep_complete_command s
     else if c_type cmd \<in> handled_types then run cmd s
     else Inl Unreached)"

definition dep_step :: "(spu_cmd \<Rightarrow> 'a dep_state_scheme \<Rightarrow> 'a dep_state_scheme res) \<Rightarrow> 'a dep_state_scheme \<Rightarrow> 'a dep_state_scheme res" where
  "dep_step run s = rbind (dep_fetch s) (dep_dispatch run)"

section \<open>Views of the command table\<close>

text \<open>The fields of a pending command that the scheduler works with.\<close>

type_synonym cmd_table = "nat \<Rightarrow> spu_cmd option"

definition nx :: "cmd_table \<Rightarrow> nat \<Rightarrow> nat" where
  "nx m i = (case m i of None \<Rightarrow> INVALID_COMMAND_ID | Some c \<Rightarrow> c_next c)"

definition backs :: "cmd_table \<Rightarrow> nat \<Rightarrow> nat" where
  "backs m i = (case m i of None \<Rightarrow> 0 | Some c \<Rightarrow> num_back_deps c)"

definition fwds :: "cmd_table \<Rightarrow> nat \<Rightarrow> nat list" where
  "fwds m i = (case m i of None \<Rightarrow> [] | Some c \<Rightarrow> take (num_forward_deps c) (c_deps c))"

definition kind :: "cmd_table \<Rightarrow> nat \<Rightarrow> (nat \<times> nat \<times> cmd_body) option" where
  "kind m i = map_option (\<lambda>c. (c_type c, c_id c, c_body c)) (m i)"

text \<open>\<open>fits\<close>: the forward dependencies of a command lie inside its array.\<close>

definition fits :: "cmd_table \<Rightarrow> nat \<Rightarrow> bool" where
  "fits m i = (case m i of None \<Rightarrow> True
     | Some c \<Rightarrow> num_forward_deps c \<le> length (c_deps c) \<and> length (c_deps c) = max_deps (c_type c))"

lemmas view_defs = nx_def backs_def fwds_def kind_def fits_def

text \<open>A path along the \<open>next\<close> fields.\<close>

fun npath :: "(nat \<Rightarrow> nat) \<Rightarrow> nat \<Rightarrow> nat list \<Rightarrow> bool" where
  "npath f a [] \<longleftrightarrow> True"
| "npath f a (x # xs) \<longleftrightarrow> f a = x \<and> npath f x xs"

lemma npath_append: "npath f a (xs @ ys) \<longleftrightarrow> npath f a xs \<and> npath f (last (a # xs)) ys"
  by (induction xs arbitrary: a) auto

lemma npath_cong: "(\<And>i. i \<in> set (butlast (a # xs)) \<Longrightarrow> f i = g i) \<Longrightarrow> npath f a xs = npath g a xs"
  by (induction xs arbitrary: a) (auto split: if_splits)

lemma npath_upd: "b \<notin> set (butlast (a # xs)) \<Longrightarrow> npath (f(b := v)) a xs = npath f a xs"
  by (rule npath_cong) auto

lemma npath_rotate: "npath f (last (x # xs)) (x # xs) \<Longrightarrow> npath f x (xs @ [x])"
  by (auto simp: npath_append split: if_splits)

lemma view_put:
  "nx (m(i \<mapsto> c)) = (nx m)(i := c_next c)" "backs (m(i \<mapsto> c)) = (backs m)(i := num_back_deps c)"
  "fwds (m(i \<mapsto> c)) = (fwds m)(i := take (num_forward_deps c) (c_deps c))"
  "kind (m(i \<mapsto> c)) = (kind m)(i := Some (c_type c, c_id c, c_body c))"
  "fits (m(i \<mapsto> c)) = (fits m)(i := (num_forward_deps c \<le> length (c_deps c) \<and> length (c_deps c) = max_deps (c_type c)))"
  by (simp_all add: view_defs fun_eq_iff)

lemma kind_None: "kind m i = None \<longleftrightarrow> m i = None"
  by (simp add: kind_def)

text \<open>Storing into a \<open>next\<close> field changes that field and nothing else.\<close>

definition set_next :: "nat \<Rightarrow> nat \<Rightarrow> cmd_table \<Rightarrow> cmd_table" where
  "set_next i v m = m(i := map_option (c_next_update (\<lambda>_. v)) (m i))"

lemma store_next_NextOf:
  "i < 34 \<Longrightarrow> commands s i \<noteq> None \<Longrightarrow> store_next (NextOf i) v s = Inr (s\<lparr>commands := set_next i v (commands s)\<rparr>)"
  by (auto simp: get_command_def set_next_def put_command_def)

lemma load_next_NextOf: "i < 34 \<Longrightarrow> commands s i \<noteq> None \<Longrightarrow> load_next (NextOf i) s = Inr (nx (commands s) i)"
  by (auto simp: get_command_def nx_def)

lemma set_next_views [simp]:
  "backs (set_next i v m) = backs m" "fwds (set_next i v m) = fwds m" "kind (set_next i v m) = kind m"
  "fits (set_next i v m) = fits m"
  by (auto simp: set_next_def view_defs fun_eq_iff option.map_comp comp_def split: option.split)

lemma nx_set_next [simp]: "m i \<noteq> None \<Longrightarrow> nx (set_next i v m) = (nx m)(i := v)"
  by (auto simp: set_next_def view_defs fun_eq_iff split: option.split)

lemma set_next_None [simp]: "set_next i v m j = None \<longleftrightarrow> m j = None"
  by (simp add: set_next_def)

section \<open>The scheduler's invariant\<close>

text \<open>
  \<open>queue\<close> lists the commands on the circular list from the next one to run, \<open>aw\<close> the commands that
  wait for an MFC slot, and \<open>waits\<close> the commands that wait for a tag.  The commands without
  unfinished dependencies are exactly those, each once.
\<close>

definition waits :: "nat list \<Rightarrow> nat list" where
  "waits = filter (\<lambda>i. i \<noteq> INVALID_COMMAND_ID)"

definition avail_ok :: "(nat \<Rightarrow> nat) \<Rightarrow> nat \<Rightarrow> next_ptr \<Rightarrow> nat list \<Rightarrow> bool" where
  "avail_ok f a p aw \<longleftrightarrow> (if aw = [] then a = INVALID_COMMAND_ID \<and> p = WaitHead
     else a = hd aw \<and> p = NextOf (last aw) \<and> npath f (hd aw) (tl aw))"

definition ready :: "cmd_table \<Rightarrow> nat set" where
  "ready m = {i. m i \<noteq> None \<and> backs m i = 0}"

definition kinds_ok :: "cmd_table \<Rightarrow> bool" where
  "kinds_ok m \<longleftrightarrow> (\<exists>b. kind m CMD_WORKER_ID = Some (CMD_WORKER, CMD_WORKER_ID, b)) \<and>
     (\<exists>b. kind m CMD_REQ_HANDLER_ID = Some (CMD_REQ_HANDLER, CMD_REQ_HANDLER_ID, b)) \<and>
     (\<forall>i ty j b. kind m i = Some (ty, j, b) \<longrightarrow> j = i \<and> i < 34 \<and> (i < 32 \<longrightarrow> ty < 18))"

text \<open>Each count of backward dependencies is the number of forward dependencies on the command.\<close>

definition graph_ok :: "cmd_table \<Rightarrow> bool" where
  "graph_ok m \<longleftrightarrow> (\<forall>i<34. backs m i = (\<Sum>j<32. count_list (fwds m j) i)) \<and>
     (\<forall>i<32. fits m i) \<and> (\<forall>i<32. \<forall>d\<in>set (fwds m i). d < 32 \<and> m d \<noteq> None)"

definition tags_ok :: "nat list \<Rightarrow> u32 \<Rightarrow> u32 \<Rightarrow> nat \<Rightarrow> bool" where
  "tags_ok w active free rt \<longleftrightarrow> length w = 32 \<and>
     (\<forall>t<32. w ! t \<noteq> INVALID_COMMAND_ID \<longrightarrow> bit active t \<and> \<not> bit free t) \<and>
     rt < 32 \<and> \<not> bit free rt \<and> w ! rt \<in> {INVALID_COMMAND_ID, CMD_REQ_HANDLER_ID}"

definition core :: "'a dep_state_scheme \<Rightarrow> nat list \<Rightarrow> nat list \<Rightarrow> bool" where
  "core s queue aw \<longleftrightarrow> distinct (queue @ aw @ waits (dma_waiting s)) \<and>
     set (queue @ aw @ waits (dma_waiting s)) = ready (commands s) \<and> CMD_WORKER_ID \<in> set queue \<and>
     avail_ok (nx (commands s)) (dma_waiting_avail s) (dma_waiting_avail_ptr s) aw \<and>
     kinds_ok (commands s) \<and> graph_ok (commands s) \<and>
     tags_ok (dma_waiting s) (dma_active_tags s) (dma_free_tags s) (req_tag s) \<and>
     req_state s \<le> 2 \<and>
     (\<forall>i<32. bit (dep_completed_mask s) i \<longrightarrow> commands s i = None)"

definition ring :: "(nat \<Rightarrow> nat) \<Rightarrow> nat list \<Rightarrow> bool" where
  "ring f queue \<longleftrightarrow> queue \<noteq> [] \<and> npath f (last queue) queue"

text \<open>Between two turns, and while the handler of \<open>x\<close> runs.\<close>

definition sched :: "'a dep_state_scheme \<Rightarrow> nat list \<Rightarrow> nat list \<Rightarrow> bool" where
  "sched s queue aw \<longleftrightarrow> core s queue aw \<and> ring (nx (commands s)) queue \<and> dep_next_ptr s = NextOf (last queue)"

definition running :: "'a dep_state_scheme \<Rightarrow> nat \<Rightarrow> nat list \<Rightarrow> nat list \<Rightarrow> bool" where
  "running s x rest aw \<longleftrightarrow> core s (x # rest) aw \<and> ring (nx (commands s)) (x # rest) \<and> dep_cur_id s = x \<and>
     dep_cur_ptr s = NextOf (last (x # rest)) \<and> dep_next_ptr s = NextOf x \<and> \<not> dep_dequeued s"

lemma core_queued: "core s queue aw \<Longrightarrow> i \<in> set (queue @ aw @ waits (dma_waiting s)) \<Longrightarrow>
    commands s i \<noteq> None \<and> backs (commands s) i = 0 \<and> i < 34"
proof -
  assume c: "core s queue aw" and i: "i \<in> set (queue @ aw @ waits (dma_waiting s))"
  then have r: "commands s i \<noteq> None \<and> backs (commands s) i = 0" by (auto simp: core_def ready_def)
  then obtain ty j b where "kind (commands s) i = Some (ty, j, b)" by (auto simp: kind_def)
  then have "i < 34" using c by (auto simp: core_def kinds_ok_def)
  then show ?thesis using r by simp
qed

text \<open>Taking the next command, and leaving it on the list.\<close>

lemma fetch_running:
  assumes "sched s (x # rest) aw"
  shows "dep_fetch s = Inr (s\<lparr>dep_cur_ptr := NextOf (last (x # rest)), dep_cur_id := x, dep_next_ptr := NextOf x,
      dep_dequeued := False\<rparr>)" (is "_ = Inr ?s")
    "running (s\<lparr>dep_cur_ptr := NextOf (last (x # rest)), dep_cur_id := x, dep_next_ptr := NextOf x,
      dep_dequeued := False\<rparr>) x rest aw"
proof -
  have core: "core s (x # rest) aw" and path: "npath (nx (commands s)) (last (x # rest)) (x # rest)"
    and ptr: "dep_next_ptr s = NextOf (last (x # rest))"
    using assms by (simp_all add: sched_def ring_def)
  have l: "commands s (last (x # rest)) \<noteq> None" "last (x # rest) < 34"
    using core_queued [OF core, of "last (x # rest)"] by (metis Un_iff last_in_set list.distinct(1) set_append)+
  have x: "commands s x \<noteq> None" "x < 34" using core_queued [OF core, of x] by simp_all
  show "dep_fetch s = Inr ?s"
    unfolding dep_fetch_def ptr load_next_NextOf [OF l(2,1)] using path x by simp
  show "running ?s x rest aw"
    using core path by (simp add: running_def core_def ring_def)
qed

lemma running_sched:
  assumes "running s x rest aw"
  shows "sched s (rest @ [x]) aw"
proof -
  have "core s (x # rest) aw" "npath (nx (commands s)) (last (x # rest)) (x # rest)" "dep_next_ptr s = NextOf x"
    using assms by (auto simp: running_def ring_def)
  then show ?thesis
    using npath_rotate [of "nx (commands s)" x rest] by (auto simp: sched_def core_def ring_def)
qed

section \<open>Suspending a command\<close>

lemma ring_relink:
  assumes "rest \<noteq> []" "npath f x rest" "npath g (last rest) (ns @ [hd rest])" "\<And>i. i \<in> set (butlast rest) \<Longrightarrow> g i = f i"
  shows "ring g (ns @ rest)"
proof -
  obtain y ys where r: "rest = y # ys" using assms(1) by (cases rest) auto
  have "npath g y ys"
    using assms(2,4) npath_cong [of y ys f g] by (simp add: r)
  then show ?thesis using assms(3) by (simp add: r ring_def npath_append)
qed

lemma running_rest:
  assumes "running s x rest aw" "x \<noteq> CMD_WORKER_ID"
  shows "rest \<noteq> []" "last (x # rest) = last rest" "dep_cur_ptr s = NextOf (last rest)"
    "npath (nx (commands s)) x rest" "nx (commands s) x = hd rest" "x \<notin> set rest" "distinct rest"
    "commands s (last rest) \<noteq> None" "last rest < 34" "commands s x \<noteq> None" "x < 34" "last rest \<noteq> x"
proof -
  have core: "core s (x # rest) aw" and path: "npath (nx (commands s)) (last (x # rest)) (x # rest)"
    and ptr: "dep_cur_ptr s = NextOf (last (x # rest))"
    using assms(1) by (simp_all add: running_def ring_def)
  show ne: "rest \<noteq> []" using core assms(2) by (auto simp: core_def)
  then show "last (x # rest) = last rest" by simp
  with ptr show "dep_cur_ptr s = NextOf (last rest)" by simp
  show "npath (nx (commands s)) x rest" using path by simp
  then show "nx (commands s) x = hd rest" using ne by (cases rest) auto
  show "x \<notin> set rest" "distinct rest" using core by (auto simp: core_def)
  show "commands s (last rest) \<noteq> None" "last rest < 34" "commands s x \<noteq> None" "x < 34"
    using core_queued [OF core, of "last rest"] core_queued [OF core, of x] ne by auto
  show "last rest \<noteq> x" using \<open>x \<notin> set rest\<close> ne last_in_set by blast
qed

lemma last_notin_butlast:
  assumes "distinct xs" "xs \<noteq> []"
  shows "last xs \<notin> set (butlast xs)"
proof -
  have "distinct (butlast xs @ [last xs])" using assms by simp
  then show ?thesis by (simp only: distinct_append) simp
qed

lemma ring_unlink:
  assumes "running s x rest aw" "x \<noteq> CMD_WORKER_ID" "\<And>i. i \<in> set rest \<Longrightarrow> g i = ((nx (commands s))(last rest := hd rest)) i"
  shows "ring g rest"
proof -
  note r = running_rest [OF assms(1,2)]
  have "ring g ([] @ rest)"
  proof (rule ring_relink [OF r(1,4)])
    show "npath g (last rest) ([] @ [hd rest])" using assms(3) [of "last rest"] r(1) by simp
    fix i assume i: "i \<in> set (butlast rest)"
    then have "i \<in> set rest" "i \<noteq> last rest"
      using in_set_butlastD [OF i] last_notin_butlast [OF r(7,1)] by auto
    then show "g i = nx (commands s) i" using assms(3) by simp
  qed
  then show ?thesis by simp
qed

lemma avail_ok_cong: "(\<And>i. i \<in> set aw \<Longrightarrow> f i = g i) \<Longrightarrow> avail_ok f a p aw = avail_ok g a p aw"
proof (cases aw)
  case (Cons y ys)
  assume eq: "\<And>i. i \<in> set aw \<Longrightarrow> f i = g i"
  have "npath f y ys = npath g y ys"
  proof (rule npath_cong)
    fix i assume "i \<in> set (butlast (y # ys))"
    then have "i \<in> set aw" unfolding Cons by (rule in_set_butlastD)
    then show "f i = g i" by (rule eq)
  qed
  then show ?thesis by (auto simp: avail_ok_def Cons)
qed (simp add: avail_ok_def)

lemma waits_upd:
  assumes "t < length w" "w ! t = INVALID_COMMAND_ID" "x \<noteq> INVALID_COMMAND_ID"
  shows "\<exists>us vs. waits w = us @ vs \<and> waits (w[t := x]) = us @ x # vs"
proof -
  have "waits w = waits (take t w @ w ! t # drop (Suc t) w)"
    by (rule arg_cong [of _ _ waits], rule id_take_nth_drop [OF assms(1)])
  also have "\<dots> = waits (take t w) @ waits (drop (Suc t) w)" using assms(2) by (simp add: waits_def)
  finally have "waits w = waits (take t w) @ waits (drop (Suc t) w)" .
  moreover have "waits (w[t := x]) = waits (take t w) @ x # waits (drop (Suc t) w)"
    using assms(1,3) by (simp add: upd_conv_take_nth_drop waits_def)
  ultimately show ?thesis by blast
qed

lemma ready_set_next [simp]: "ready (set_next i v m) = ready m"
  by (simp add: ready_def)

lemma kinds_set_next [simp]: "kinds_ok (set_next i v m) = kinds_ok m"
  by (simp add: kinds_ok_def)

lemma graph_set_next [simp]: "graph_ok (set_next i v m) = graph_ok m"
  by (simp add: graph_ok_def)

lemma wait_complete_done:
  "tag_valid tag s \<Longrightarrow> \<not> bit (dma_active_tags s) tag \<Longrightarrow> dma_wait_complete tag s = Inr s"
  by (simp add: dma_wait_complete_def dma_query_complete_def and_tag_bit)

lemma wait_complete_sched:
  assumes run: "running s x rest aw" "x \<noteq> CMD_WORKER_ID"
    and tag: "tag_valid tag s" "bit (dma_active_tags s) tag" "tag = req_tag s \<Longrightarrow> x = CMD_REQ_HANDLER_ID"
  shows "\<exists>s'. dma_wait_complete tag s = Inr s' \<and> sched s' rest aw \<and>
    s' = s\<lparr>dep_dequeued := True, commands := set_next (last rest) (hd rest) (commands s),
        dep_next_ptr := NextOf (last rest), dma_waiting := (dma_waiting s)[tag := x]\<rparr>"
proof -
  let ?m = "set_next (last rest) (hd rest) (commands s)"
  let ?s = "s\<lparr>dep_dequeued := True, commands := ?m, dep_next_ptr := NextOf (last rest),
      dma_waiting := (dma_waiting s)[tag := x]\<rparr>"
  note r = running_rest [OF run]
  have core: "core s (x # rest) aw" and ptr: "dep_next_ptr s = NextOf x" "dep_cur_id s = x" "\<not> dep_dequeued s"
    using run(1) by (simp_all add: running_def)
  have eq: "dma_wait_complete tag s = Inr ?s"
    using tag(1,2) ptr r by (simp add: dma_wait_complete_def dma_query_complete_def and_tag_bit load_next_NextOf
        store_next_NextOf del: load_next.simps store_next.simps)
  have x: "x \<noteq> INVALID_COMMAND_ID" using r(11) by (simp add: id_defs)
  have t: "tag < 32" "tag < length (dma_waiting s)" "dma_waiting s ! tag = INVALID_COMMAND_ID" "\<not> bit (dma_free_tags s) tag"
    using tag(1) by (simp_all add: tag_valid_def id_defs and_tag_bit)
  obtain us vs where w: "waits (dma_waiting s) = us @ vs" "waits ((dma_waiting s)[tag := x]) = us @ x # vs"
    using waits_upd [OF t(2,3) x] by blast
  have nx: "nx ?m = (nx (commands s))(last rest := hd rest)" using r(8) by simp
  have dis: "set aw \<inter> set rest = {}" using core by (auto simp: core_def)
  have "avail_ok (nx ?m) (dma_waiting_avail s) (dma_waiting_avail_ptr s) aw"
  proof -
    have "avail_ok (nx (commands s)) (dma_waiting_avail s) (dma_waiting_avail_ptr s) aw"
      using core by (simp add: core_def)
    moreover have "last rest \<notin> set aw" using dis r(1) last_in_set by blast
    ultimately show ?thesis unfolding nx
      by (metis avail_ok_cong fun_upd_other)
  qed
  moreover have "tags_ok ((dma_waiting s)[tag := x]) (dma_active_tags s) (dma_free_tags s) (req_tag s)"
    using core t tag(2,3) by (auto simp: core_def tags_ok_def nth_list_update)
  ultimately have "core ?s rest aw"
    using core w run(2) by (auto simp: core_def)
  moreover have "ring (nx ?m) rest" by (rule ring_unlink [OF run]) (simp add: nx)
  ultimately have "sched ?s rest aw" by (simp add: sched_def)
  with eq show ?thesis by blast
qed

lemma wait_avail_sched:
  assumes run: "running s x rest aw" "x \<noteq> CMD_WORKER_ID"
  shows "\<exists>m s'. dma_wait_avail s = Inr s' \<and> sched s' rest (aw @ [x]) \<and>
    s' = s\<lparr>dep_dequeued := True, commands := m, dma_waiting_avail := hd (aw @ [x]),
      dma_waiting_avail_ptr := NextOf x, dep_next_ptr := NextOf (last rest)\<rparr>"
proof -
  let ?m1 = "set_next x INVALID_COMMAND_ID (set_next (last rest) (hd rest) (commands s))"
  let ?m = "if aw = [] then ?m1 else set_next (last aw) x ?m1"
  let ?s = "s\<lparr>dep_dequeued := True, commands := ?m, dma_waiting_avail := hd (aw @ [x]),
      dma_waiting_avail_ptr := NextOf x, dep_next_ptr := NextOf (last rest)\<rparr>"
  note r = running_rest [OF run]
  have core: "core s (x # rest) aw" and ptr: "dep_next_ptr s = NextOf x" "dep_cur_id s = x" "\<not> dep_dequeued s"
    using run(1) by (simp_all add: running_def)
  have dis: "set aw \<inter> set rest = {}" "x \<notin> set aw" "distinct aw" using core by (auto simp: core_def)
  have aok: "avail_ok (nx (commands s)) (dma_waiting_avail s) (dma_waiting_avail_ptr s) aw" using core by (simp add: core_def)
  have al: "commands s (last aw) \<noteq> None \<and> last aw < 34" if "aw \<noteq> []"
    using core_queued [OF core, of "last aw"] that by simp
  have eq: "dma_wait_avail s = Inr ?s"
  proof (cases "aw = []")
    case True
    then have p: "dma_waiting_avail_ptr s = WaitHead" using aok by (simp add: avail_ok_def)
    show ?thesis using ptr r True p by (simp add: dma_wait_avail_def load_next_NextOf store_next_NextOf
        del: load_next.simps(1) store_next.simps(1))
  next
    case False
    then have p: "dma_waiting_avail_ptr s = NextOf (last aw)" "dma_waiting_avail s = hd aw"
      using aok by (simp_all add: avail_ok_def)
    show ?thesis using ptr r False p al by (simp add: dma_wait_avail_def load_next_NextOf store_next_NextOf
        del: load_next.simps(1) store_next.simps(1))
  qed
  have nx1: "nx ?m1 = (nx (commands s))(last rest := hd rest, x := INVALID_COMMAND_ID)" using r by simp
  have nx: "nx ?m = (if aw = [] then nx ?m1 else (nx ?m1)(last aw := x))" using al by simp
  have lr: "last rest \<notin> set aw" "last aw \<notin> set rest \<or> aw = []" using dis(1) r(1) last_in_set by blast+
  have "avail_ok (nx ?m) (hd (aw @ [x])) (NextOf x) (aw @ [x])"
  proof (cases aw)
    case (Cons y ys)
    have "npath (nx (commands s)) y ys" using aok by (simp add: avail_ok_def Cons split: if_splits)
    moreover have "npath (nx ?m) y ys = npath (nx (commands s)) y ys"
    proof (rule npath_cong)
      fix i assume i: "i \<in> set (butlast (y # ys))"
      then have "i \<in> set aw" unfolding Cons by (rule in_set_butlastD)
      moreover have "i \<noteq> last aw" using i last_notin_butlast [OF dis(3)] by (auto simp: Cons)
      ultimately show "nx ?m i = nx (commands s) i"
        unfolding nx nx1 using lr dis(2) by auto
    qed
    moreover have "nx ?m (last aw) = x" unfolding nx by (simp add: Cons)
    ultimately show ?thesis by (simp add: avail_ok_def Cons npath_append)
  qed (simp add: avail_ok_def)
  moreover have "ready ?m = ready (commands s)" "kinds_ok ?m = kinds_ok (commands s)" "graph_ok ?m = graph_ok (commands s)"
    "?m i = None \<longleftrightarrow> commands s i = None" for i by simp_all
  moreover define m where "m = ?m"
  ultimately have "core (s\<lparr>dep_dequeued := True, commands := m, dma_waiting_avail := hd (aw @ [x]),
      dma_waiting_avail_ptr := NextOf x, dep_next_ptr := NextOf (last rest)\<rparr>) rest (aw @ [x])"
    using core run(2) by (auto simp: core_def simp del: hd_append2)
  then have "core ?s rest (aw @ [x])" unfolding m_def .
  moreover have "ring (nx ?m) rest"
  proof (rule ring_unlink [OF run])
    fix i assume "i \<in> set rest"
    then have "i \<noteq> x" "aw = [] \<or> i \<noteq> last aw" using lr(2) r(6) by auto
    then show "nx ?m i = ((nx (commands s))(last rest := hd rest)) i" unfolding nx nx1 by auto
  qed
  ultimately have "sched ?s rest (aw @ [x])" by (simp add: sched_def)
  with eq show ?thesis by blast
qed

section \<open>Completing a command: lemmas\<close>

text \<open>The commands that a list of forward dependencies makes ready, in the order in which they do.\<close>

definition freed :: "cmd_table \<Rightarrow> nat list \<Rightarrow> nat list" where
  "freed m D = filter (\<lambda>d. backs m d = count_list D d) (remdups D)"

fun lpath :: "(nat \<Rightarrow> nat) \<Rightarrow> nat list \<Rightarrow> bool" where
  "lpath f [] \<longleftrightarrow> True"
| "lpath f (x # xs) \<longleftrightarrow> npath f x xs"

lemma lpath_append: "xs \<noteq> [] \<Longrightarrow> ys \<noteq> [] \<Longrightarrow> lpath f (xs @ ys) \<longleftrightarrow> lpath f xs \<and> f (last xs) = hd ys \<and> lpath f ys"
  by (cases xs; cases ys) (auto simp: npath_append)

lemma npath_lpath: "xs \<noteq> [] \<Longrightarrow> npath f a xs \<longleftrightarrow> f a = hd xs \<and> lpath f xs"
  by (cases xs) auto

lemma lpath_cong: "(\<And>i. i \<in> set (butlast xs) \<Longrightarrow> f i = g i) \<Longrightarrow> lpath f xs = lpath g xs"
  by (cases xs) (auto intro!: npath_cong simp del: butlast.simps)

definition same_but_next :: "cmd_table \<Rightarrow> cmd_table \<Rightarrow> bool" where
  "same_but_next m m' \<longleftrightarrow> fwds m' = fwds m \<and> kind m' = kind m \<and> fits m' = fits m"

lemma release_dep_eq:
  assumes "d < 34" "commands s d = Some c" "0 < num_back_deps c"
  shows "release_dep d (nid, s) = (if num_back_deps c = 1
      then Inr (d, s\<lparr>commands := (commands s)(d \<mapsto> c\<lparr>num_back_deps := 0, c_next := nid\<rparr>)\<rparr>)
      else Inr (nid, s\<lparr>commands := (commands s)(d \<mapsto> c\<lparr>num_back_deps := num_back_deps c - 1\<rparr>)\<rparr>))"
  using assms by (simp add: release_dep_def put_command_def)

lemma freed_Cons:
  assumes "backs m d = 1 + b" "count_list D d \<le> b" "backs m1 = (backs m)(d := b)"
  shows "freed m (d # D) = (if b = 0 then d # freed m1 D else freed m1 D)"
proof -
  have "filter (\<lambda>e. backs m e = count_list (d # D) e) (remdups D) = filter (\<lambda>e. backs m1 e = count_list D e) (remdups D)"
    by (rule filter_cong) (auto simp: assms(1,3))
  moreover have "d \<notin> set D \<longleftrightarrow> count_list D d = 0" by (simp add: count_list_0_iff)
  ultimately show ?thesis using assms by (auto simp: freed_def)
qed

lemma release_loop:
  assumes "\<forall>d\<in>set D. d < 34 \<and> commands s d \<noteq> None \<and> count_list D d \<le> backs (commands s) d"
  shows "\<exists>m. rfold release_dep D (nid, s) = Inr (hd (rev (freed (commands s) D) @ [nid]), s\<lparr>commands := m\<rparr>) \<and>
    same_but_next (commands s) m \<and> (\<forall>i. backs m i = backs (commands s) i - count_list D i) \<and>
    (\<forall>i. i \<notin> set (freed (commands s) D) \<longrightarrow> nx m i = nx (commands s) i) \<and>
    lpath (nx m) (rev (freed (commands s) D) @ [nid])"
  using assms
proof (induction D arbitrary: nid s)
  case Nil
  show ?case by (intro exI [of _ "commands s"]) (simp add: freed_def same_but_next_def)
next
  case (Cons d D)
  obtain c where c: "commands s d = Some c" "d < 34" and cnt: "Suc (count_list D d) \<le> num_back_deps c"
    using Cons.prems by (fastforce simp: backs_def)
  define b where "b = num_back_deps c - 1"
  have nb: "num_back_deps c = 1 + b" "backs (commands s) d = 1 + b" "count_list D d \<le> b"
    using cnt c by (simp_all add: b_def backs_def)
  define c1 where "c1 = (if b = 0 then c\<lparr>num_back_deps := 0, c_next := nid\<rparr> else c\<lparr>num_back_deps := b\<rparr>)"
  define nid1 where "nid1 = (if b = 0 then d else nid)"
  define s1 where "s1 = s\<lparr>commands := (commands s)(d \<mapsto> c1)\<rparr>"
  have step: "release_dep d (nid, s) = Inr (nid1, s1)"
    using nb by (simp add: release_dep_eq [OF c(2,1)] s1_def nid1_def c1_def)
  have backs1: "backs (commands s1) = (backs (commands s))(d := b)"
    by (simp add: s1_def view_put c1_def)
  have same1: "same_but_next (commands s) (commands s1)"
    by (auto simp: same_but_next_def s1_def view_put c1_def fun_eq_iff) (use c in \<open>auto simp: view_defs\<close>)
  have nx1: "nx (commands s1) = (if b = 0 then (nx (commands s))(d := nid) else nx (commands s))"
    using c by (auto simp: s1_def view_put c1_def nx_def)
  have pre: "\<forall>e\<in>set D. e < 34 \<and> commands s1 e \<noteq> None \<and> count_list D e \<le> backs (commands s1) e"
  proof
    fix e assume "e \<in> set D"
    then have e: "e < 34" "commands s e \<noteq> None" "count_list (d # D) e \<le> backs (commands s) e"
      using Cons.prems by (meson list.set_intros(2))+
    then have "count_list D e \<le> backs (commands s1) e" using nb by (auto simp: backs1 split: if_splits)
    with e show "e < 34 \<and> commands s1 e \<noteq> None \<and> count_list D e \<le> backs (commands s1) e"
      by (simp add: s1_def)
  qed
  let ?R1 = "freed (commands s1) D"
  obtain m where m: "rfold release_dep D (nid1, s1) = Inr (hd (rev ?R1 @ [nid1]), s1\<lparr>commands := m\<rparr>)"
    "same_but_next (commands s1) m" "\<forall>i. backs m i = backs (commands s1) i - count_list D i"
    "\<forall>i. i \<notin> set ?R1 \<longrightarrow> nx m i = nx (commands s1) i" "lpath (nx m) (rev ?R1 @ [nid1])"
    using Cons.IH [OF pre, of nid1] by blast
  have R: "freed (commands s) (d # D) = (if b = 0 then d # ?R1 else ?R1)"
    by (rule freed_Cons [OF nb(2,3) backs1])
  have dR: "d \<notin> set ?R1" if "b = 0"
    using that nb(3) count_list_0_iff [of D d] by (simp add: freed_def)
  have "hd (rev (freed (commands s) (d # D)) @ [nid]) = hd (rev ?R1 @ [nid1])"
    by (simp add: R nid1_def hd_append)
  moreover have "lpath (nx m) (rev (freed (commands s) (d # D)) @ [nid])"
  proof (cases "b = 0")
    case True
    then have "nx m d = nid" using m(4) dR nx1 by simp
    then show ?thesis using m(5) True lpath_append [of "rev ?R1 @ [d]" "[nid]" "nx m"] by (simp add: R nid1_def)
  qed (use m(5) in \<open>simp add: R nid1_def\<close>)
  moreover have "backs m i = backs (commands s) i - count_list (d # D) i" for i
    using m(3) nb(2) by (auto simp: backs1)
  moreover have "nx m i = nx (commands s) i" if "i \<notin> set (freed (commands s) (d # D))" for i
    using m(4) that by (auto simp: R nx1 split: if_splits)
  moreover have "same_but_next (commands s) m" using same1 m(2) by (simp add: same_but_next_def)
  ultimately show ?case
    using step m(1) by (intro exI [of _ m]) (simp add: s1_def)
qed

lemma core_notify: "core s queue aw \<Longrightarrow> core (notify_ppu s) queue aw"
  by (auto simp: core_def notify_ppu_def)

lemma notify_fields [simp]: "commands (notify_ppu s) = commands s" "dep_next_ptr (notify_ppu s) = dep_next_ptr s"
  by (simp_all add: notify_ppu_def)

lemma graph_remove:
  assumes g: "graph_ok m" and x: "x < 32" "backs m x = 0" and ok: "same_but_next m m'"
    and b: "\<And>i. backs m' i = backs m i - count_list (fwds m x) i"
  shows "graph_ok (m'(x := None))"
proof -
  let ?n = "m'(x := None)"
  have deps: "\<And>i d. i < 32 \<Longrightarrow> d \<in> set (fwds m i) \<Longrightarrow> d < 32 \<and> m d \<noteq> None" using g by (auto simp: graph_ok_def)
  have bsum: "backs m i = (\<Sum>j<32. count_list (fwds m j) i)" if "i < 34" for i using g that by (auto simp: graph_ok_def)
  have fw: "fwds ?n = (fwds m)(x := [])" using ok by (auto simp: same_but_next_def fwds_def fun_eq_iff split: option.split)
  have no: "x \<notin> set (fwds m j)" if "j < 32" for j
  proof -
    have "(\<Sum>j<32. count_list (fwds m j) x) = 0" using bsum [of x] x by simp
    then show ?thesis using that count_list_0_iff by fastforce
  qed
  have sum: "(\<Sum>j<32. count_list (fwds m j) i) = count_list (fwds m x) i + (\<Sum>j<32. count_list (fwds ?n j) i)" for i
  proof -
    have "(\<Sum>j<32. count_list (fwds m j) i) = count_list (fwds m x) i + (\<Sum>j\<in>{..<32}-{x}. count_list (fwds m j) i)"
      using x(1) by (intro sum.remove) auto
    moreover have "(\<Sum>j<32. count_list (fwds ?n j) i) = count_list (fwds ?n x) i + (\<Sum>j\<in>{..<32}-{x}. count_list (fwds ?n j) i)"
      using x(1) by (intro sum.remove) auto
    moreover have "(\<Sum>j\<in>{..<32}-{x}. count_list (fwds ?n j) i) = (\<Sum>j\<in>{..<32}-{x}. count_list (fwds m j) i)"
      by (rule sum.cong) (auto simp: fw)
    ultimately show ?thesis by (simp add: fw)
  qed
  have bn: "backs ?n i = (if i = x then 0 else backs m' i)" for i by (simp add: backs_def)
  have "backs ?n i = (\<Sum>j<32. count_list (fwds ?n j) i)" if i: "i < 34" for i
  proof (cases "i = x")
    case True
    then show ?thesis using sum [of x] bsum [of x] x bn by simp
  next
    case False
    then show ?thesis using sum [of i] bsum [OF i] b bn by simp
  qed
  moreover have "fits ?n i" if "i < 32" for i
  proof -
    have "fits ?n i \<longleftrightarrow> i = x \<or> fits m' i" by (simp add: fits_def)
    then show ?thesis using g ok that by (simp add: graph_ok_def same_but_next_def)
  qed
  moreover have "d < 32 \<and> ?n d \<noteq> None" if "i < 32" "d \<in> set (fwds ?n i)" for i d
  proof -
    have d: "d \<in> set (fwds m i)" using that by (auto simp: fw split: if_splits)
    then have "d \<noteq> x" using no that(1) by blast
    moreover have "m' d \<noteq> None" using deps [OF that(1) d] ok by (metis kind_None same_but_next_def)
    ultimately show ?thesis using deps [OF that(1) d] by simp
  qed
  ultimately show ?thesis by (simp add: graph_ok_def)
qed

lemma waits_set [simp]: "i \<in> set (waits w) \<longleftrightarrow> i \<in> set w \<and> i \<noteq> INVALID_COMMAND_ID"
  by (simp add: waits_def)

lemma remove_views:
  "nx (m(x := None)) = (nx m)(x := INVALID_COMMAND_ID)" "kind (m(x := None)) = (kind m)(x := None)"
  "backs (m(x := None)) = (backs m)(x := 0)"
  by (simp_all add: view_defs fun_eq_iff)

lemma ready_remove: "ready (m(x := None)) = ready m - {x}"
  by (auto simp: ready_def remove_views)

lemma ready_after:
  assumes "\<forall>i. backs m' i = backs m i - count_list D i" "\<forall>d\<in>set D. count_list D d \<le> backs m d \<and> m d \<noteq> None"
    "same_but_next m m'"
  shows "ready m' = ready m \<union> set (freed m D)" "ready m \<inter> set (freed m D) = {}"
proof -
  have none: "m' i = None \<longleftrightarrow> m i = None" for i using assms(3) by (metis kind_None same_but_next_def)
  show "ready m' = ready m \<union> set (freed m D)"
  proof (rule set_eqI)
    fix i
    show "i \<in> ready m' \<longleftrightarrow> i \<in> ready m \<union> set (freed m D)"
      using assms(1,2) none by (cases "i \<in> set D") (auto simp: ready_def freed_def)
  qed
  show "ready m \<inter> set (freed m D) = {}"
    by (auto simp: ready_def freed_def count_list_0_iff)
qed

lemma complete_sched:
  assumes run: "running s x rest aw" and x: "x < 32"
  defines "D \<equiv> fwds (commands s) x"
  defines "new \<equiv> rev (freed (commands s) D)"
  shows "\<exists>m. dep_complete_command s = Inr (notify_ppu (s\<lparr>dep_dequeued := True, dep_next_ptr := NextOf (last rest),
      commands := m(x := None), dep_completed_mask := dep_completed_mask s OR tag_bit x\<rparr>)) \<and>
    sched (notify_ppu (s\<lparr>dep_dequeued := True, dep_next_ptr := NextOf (last rest),
      commands := m(x := None), dep_completed_mask := dep_completed_mask s OR tag_bit x\<rparr>)) (new @ rest) aw \<and>
    same_but_next (commands s) m \<and> (\<forall>i. backs m i = backs (commands s) i - count_list D i)"
proof -
  have xw: "x \<noteq> CMD_WORKER_ID" using x by (simp add: id_defs)
  note r = running_rest [OF run xw]
  have core: "core s (x # rest) aw" and ptr: "dep_next_ptr s = NextOf x" "dep_cur_id s = x" "\<not> dep_dequeued s"
    using run by (simp_all add: running_def)
  let ?m0 = "commands s"
  have graph: "graph_ok ?m0" and rd: "set ((x # rest) @ aw @ waits (dma_waiting s)) = ready ?m0" using core by (simp_all add: core_def)
  have bx: "backs ?m0 x = 0" using core_queued [OF core, of x] by simp
  have D: "d < 32 \<and> ?m0 d \<noteq> None \<and> count_list D d \<le> backs ?m0 d" if "d \<in> set D" for d
  proof -
    have d: "d < 32" "?m0 d \<noteq> None" using graph x that by (auto simp: graph_ok_def D_def)
    have "backs ?m0 d = (\<Sum>j<32. count_list (fwds ?m0 j) d)" using graph d(1) by (simp add: graph_ok_def)
    moreover have "count_list D d \<le> (\<Sum>j<32. count_list (fwds ?m0 j) d)"
      unfolding D_def using x by (intro member_le_sum) auto
    ultimately show ?thesis using d by simp
  qed
  have Dx: "x \<notin> set D" using D [of x] bx count_list_0_iff [of D x] by auto
  obtain cmd where cmd: "?m0 x = Some cmd" using r(10) by auto
  have fit: "num_forward_deps cmd \<le> length (c_deps cmd)" and Dc: "D = take (num_forward_deps cmd) (c_deps cmd)"
    using graph x cmd by (auto simp: graph_ok_def fits_def D_def fwds_def dest!: spec [of _ x])
  let ?s1 = "s\<lparr>dep_dequeued := True\<rparr>"
  have loop: "rfold (\<lambda>i st. rbind (index_res (c_deps cmd) i) (\<lambda>d. release_dep d st)) [0..<num_forward_deps cmd] st
      = rfold release_dep D st" for st :: "nat \<times> 'a dep_state_scheme"
  proof -
    have n: "num_forward_deps cmd = length D" using fit Dc by simp
    have "rfold (\<lambda>i st. rbind (index_res (c_deps cmd) i) (\<lambda>d. release_dep d st)) [0..<length D] st
        = rfold (\<lambda>i. release_dep (D ! i)) [0..<length D] st"
      by (rule rfold_cong) (use fit in \<open>auto simp: Dc\<close>)
    then show ?thesis by (simp add: n rfold_upt_nth)
  qed
  have pre: "\<forall>d\<in>set D. d < 34 \<and> commands ?s1 d \<noteq> None \<and> count_list D d \<le> backs (commands ?s1) d"
    using D by force
  obtain m where m: "rfold release_dep D (hd rest, ?s1) = Inr (hd (new @ [hd rest]), ?s1\<lparr>commands := m\<rparr>)"
    "same_but_next ?m0 m" "\<forall>i. backs m i = backs ?m0 i - count_list D i"
    "\<forall>i. i \<notin> set new \<longrightarrow> nx m i = nx ?m0 i" "lpath (nx m) (new @ [hd rest])"
    using release_loop [OF pre, of "hd rest"] unfolding new_def by auto
  have none: "m i = None \<longleftrightarrow> ?m0 i = None" for i using m(2) by (metis kind_None same_but_next_def)
  let ?m1 = "set_next (last rest) (hd (new @ [hd rest])) m"
  let ?s2 = "s\<lparr>dep_dequeued := True, dep_next_ptr := NextOf (last rest),
      commands := ?m1(x := None), dep_completed_mask := dep_completed_mask s OR tag_bit x\<rparr>"
  have eq: "dep_complete_command s = Inr (notify_ppu ?s2)"
    unfolding dep_complete_command_def ptr(1) load_next_NextOf [OF r(11,10)]
    using r ptr x cmd m(1) none
    by (simp add: get_command_def loop SPU_MAX_COMMANDS_def store_next_NextOf del: load_next.simps store_next.simps)
  have same: "same_but_next ?m0 ?m1" "\<forall>i. backs ?m1 i = backs ?m0 i - count_list D i"
    using m(2,3) by (simp_all add: same_but_next_def)
  have rm: "ready m = ready ?m0 \<union> set new" "ready ?m0 \<inter> set new = {}"
    using ready_after [OF m(3) _ m(2)] D by (auto simp: new_def)
  have g: "graph_ok (?m1(x := None))"
    by (rule graph_remove [OF graph x bx same(1)]) (use same(2) in \<open>simp add: D_def\<close>)
  have nx: "nx (?m1(x := None)) i = nx ?m0 i" if "i \<notin> set new" "i \<noteq> last rest" "i \<noteq> x" for i
    using that m(4) none r(8) by (simp add: remove_views)
  have old: "set rest \<inter> set new = {}" "set aw \<inter> set new = {}" "set aw \<inter> set rest = {}" "x \<notin> set aw" "x \<notin> set new"
    "set (waits (dma_waiting s)) \<inter> set new = {}"
    using rm(2) rd core by (auto simp: core_def simp del: waits_set)
  have ring: "ring (nx (?m1(x := None))) (new @ rest)"
  proof (rule ring_relink [OF r(1,4)])
    have "lpath (nx (?m1(x := None))) (new @ [hd rest]) = lpath (nx m) (new @ [hd rest])"
    proof (rule lpath_cong)
      fix i assume "i \<in> set (butlast (new @ [hd rest]))"
      then have "i \<in> set new" by simp
      then have "i \<noteq> last rest" "i \<noteq> x" using old(1,5) r(1) last_in_set by blast+
      then show "nx (?m1(x := None)) i = nx m i" using none r(8) by (simp add: remove_views)
    qed
    moreover have "nx (?m1(x := None)) (last rest) = hd (new @ [hd rest])"
      using r(8,12) none by (simp add: remove_views)
    ultimately show "npath (nx (?m1(x := None))) (last rest) (new @ [hd rest])"
      using m(5) by (simp add: npath_lpath)
    fix i assume i: "i \<in> set (butlast rest)"
    then have "i \<in> set rest" "i \<noteq> last rest" using in_set_butlastD [OF i] last_notin_butlast [OF r(7,1)] by auto
    then show "nx (?m1(x := None)) i = nx ?m0 i" using old(1) r(6) by (intro nx) auto
  qed
  have av: "avail_ok (nx (?m1(x := None))) (dma_waiting_avail s) (dma_waiting_avail_ptr s) aw"
  proof -
    have "nx (?m1(x := None)) i = nx ?m0 i" if "i \<in> set aw" for i
      using that old r(1) last_in_set [of rest] by (intro nx) auto
    then have "avail_ok (nx (?m1(x := None))) a p aw = avail_ok (nx ?m0) a p aw" for a p by (rule avail_ok_cong)
    then show ?thesis using core by (simp add: core_def)
  qed
  have ready: "ready (?m1(x := None)) = (ready ?m0 - {x}) \<union> set new"
    using rm(1) old(5) by (auto simp: ready_remove)
  have kinds: "kinds_ok (?m1(x := None))"
    using core m(2) x by (auto simp: core_def kinds_ok_def same_but_next_def remove_views id_defs)
  have "distinct new" by (simp add: new_def freed_def)
  then have dist: "distinct ((new @ rest) @ aw @ waits (dma_waiting s))" "CMD_WORKER_ID \<in> set (new @ rest)"
    using old core xw by (auto simp: core_def simp del: waits_set)
  have "x \<notin> set (waits (dma_waiting s))" using core by (auto simp: core_def simp del: waits_set)
  then have set: "set ((new @ rest) @ aw @ waits (dma_waiting s)) = ready (?m1(x := None))"
    using ready rd r(6) old(4) by (auto simp del: waits_set)
  have "core ?s2 (new @ rest) aw"
    using core dist set g av kinds x none
    by (auto simp: core_def bit_or_iff bit_tag_bit simp del: distinct_append set_append)
  then have "core (notify_ppu ?s2) (new @ rest) aw" by (rule core_notify)
  then have "sched (notify_ppu ?s2) (new @ rest) aw" using ring r(1) by (simp add: sched_def)
  then show ?thesis using eq same by blast
qed

section \<open>The worker: lemmas\<close>

definition tags_of :: "u32 \<Rightarrow> nat list" where
  "tags_of w = filter (bit w) [0..<32]"

lemma tags_of_next:
  assumes "count_ls_zeros w = Inr t"
  shows "tags_of w = t # tags_of (w AND NOT (tag_bit t))"
proof -
  have t: "bit w t" "t < 32" "\<forall>i<t. \<not> bit w i" using count_ls_zeros_bit [OF assms] by auto
  have u: "[0..<32] = [0..<t] @ t # [Suc t..<32]"
    using t(2) by (metis upt_conv_Cons upt_add_eq_append le0 le_add_diff_inverse less_imp_le)
  have "filter (bit w) [0..<t] = []" "filter (bit (w AND NOT (tag_bit t))) [0..<t] = []"
    using t(3) by (auto simp: filter_empty_conv bit_and_iff)
  moreover have "filter (bit (w AND NOT (tag_bit t))) [Suc t..<32] = filter (bit w) [Suc t..<32]"
    by (rule filter_cong) (auto simp: bit_and_iff bit_not_iff bit_tag_bit)
  moreover have "\<not> bit (w AND NOT (tag_bit t)) t" using t(2) by (simp add: bit_and_iff bit_not_iff bit_tag_bit)
  ultimately show ?thesis using t(1) by (simp add: tags_of_def u)
qed

lemma wake_tags_rfold: "wake_tags w st = rfold wake_tag (tags_of w) st"
proof (induction w st rule: wake_tags.induct)
  case (1 w st)
  show ?case
  proof (cases "count_ls_zeros w")
    case (Inl e)
    then have "w = 0" by (simp add: count_ls_zeros_def split: if_splits)
    then have "tags_of w = []" by (simp add: tags_of_def)
    then show ?thesis using Inl by (subst wake_tags.simps) simp
  next
    case (Inr t)
    show ?thesis
    proof (cases "wake_tag t st")
      case (Inl e)
      then show ?thesis using Inr tags_of_next [OF Inr] by (simp add: wake_tags.simps [of w])
    next
      case (Inr st')
      then show ?thesis using \<open>count_ls_zeros w = Inr t\<close> tags_of_next [OF \<open>count_ls_zeros w = Inr t\<close>]
          "1.IH" [OF \<open>count_ls_zeros w = Inr t\<close> Inr] by (simp add: wake_tags.simps [of w])
    qed
  qed
qed

lemma filter_as_nth: "filter P xs = map ((!) xs) (filter (\<lambda>i. P (xs ! i)) [0..<length xs])"
  by (metis (no_types, lifting) filter_map map_nth comp_def filter_cong)

lemma distinct_filter_iff: "distinct (filter P xs) \<longleftrightarrow>
    (\<forall>i<length xs. \<forall>j<length xs. P (xs ! i) \<longrightarrow> xs ! i = xs ! j \<longrightarrow> i = j)"
  by (subst filter_as_nth) (auto simp: distinct_map inj_on_def)

definition woken :: "nat list \<Rightarrow> nat list \<Rightarrow> nat list" where
  "woken w T = filter (\<lambda>i. i \<noteq> INVALID_COMMAND_ID) (map ((!) w) T)"

definition cleared :: "nat list \<Rightarrow> nat list \<Rightarrow> nat list" where
  "cleared w T = map (\<lambda>t. if t \<in> set T then INVALID_COMMAND_ID else w ! t) [0..<length w]"

lemma cleared_nth [simp]: "t < length w \<Longrightarrow> cleared w T ! t = (if t \<in> set T then INVALID_COMMAND_ID else w ! t)"
  by (simp add: cleared_def)

lemma cleared_length [simp]: "length (cleared w T) = length w"
  by (simp add: cleared_def)

lemma cleared_Cons: "t < length w \<Longrightarrow> cleared (w[t := INVALID_COMMAND_ID]) T = cleared w (t # T)"
  by (rule nth_equalityI) auto

lemma cleared_skip: "t < length w \<Longrightarrow> w ! t = INVALID_COMMAND_ID \<Longrightarrow> cleared w (t # T) = cleared w T"
  by (rule nth_equalityI) auto

lemma woken_upd: "t \<notin> set T \<Longrightarrow> woken (w[t := v]) T = woken w T"
proof -
  assume "t \<notin> set T"
  then have "map ((!) (w[t := v])) T = map ((!) w) T"
    by (intro map_cong) (auto intro: nth_list_update_neq)
  then show ?thesis by (simp only: woken_def)
qed

lemma woken_waits:
  assumes "distinct (waits w)" "distinct T" "\<forall>t\<in>set T. t < length w"
  shows "distinct (woken w T)" "distinct (waits (cleared w T))"
    "set (waits w) = set (woken w T) \<union> set (waits (cleared w T))" "set (woken w T) \<inter> set (waits (cleared w T)) = {}"
proof -
  have inj: "i = j" if "i < length w" "j < length w" "w ! i \<noteq> INVALID_COMMAND_ID" "w ! i = w ! j" for i j
    using assms(1) that by (auto simp: waits_def distinct_filter_iff)
  show "distinct (woken w T)"
    unfolding woken_def distinct_filter_iff
  proof (intro allI impI)
    fix i j assume "i < length (map ((!) w) T)" "j < length (map ((!) w) T)"
      and "map ((!) w) T ! i \<noteq> INVALID_COMMAND_ID" "map ((!) w) T ! i = map ((!) w) T ! j"
    then have "i < length T" "j < length T" "T ! i = T ! j" using inj assms(3) by simp_all
    then show "i = j" using assms(2) by (simp add: nth_eq_iff_index_eq)
  qed
  show "distinct (waits (cleared w T))"
    unfolding waits_def distinct_filter_iff using inj by (auto split: if_splits)
  have W: "i \<in> set (waits w) \<longleftrightarrow> (\<exists>t<length w. i = w ! t \<and> i \<noteq> INVALID_COMMAND_ID)" for i
    by (auto simp: waits_def in_set_conv_nth)
  have K: "i \<in> set (woken w T) \<longleftrightarrow> (\<exists>t\<in>set T. i = w ! t \<and> i \<noteq> INVALID_COMMAND_ID)" for i
    by (auto simp: woken_def)
  have C: "i \<in> set (waits (cleared w T)) \<longleftrightarrow> (\<exists>t<length w. t \<notin> set T \<and> i = w ! t \<and> i \<noteq> INVALID_COMMAND_ID)" for i
    by (auto simp: waits_def in_set_conv_nth split: if_splits)
  show "set (waits w) = set (woken w T) \<union> set (waits (cleared w T))"
    unfolding set_eq_iff Un_iff W K C using assms(3) by blast
  show "set (woken w T) \<inter> set (waits (cleared w T)) = {}"
    unfolding disjoint_iff K C using assms(3) inj by metis
qed

lemma wake_loop:
  assumes "distinct T" "\<forall>t\<in>set T. t < length (dma_waiting s)" "distinct (woken (dma_waiting s) T)"
    "\<forall>i\<in>set (woken (dma_waiting s) T). i < 34 \<and> commands s i \<noteq> None"
  shows "\<exists>m. rfold wake_tag T (nid, s) = Inr (hd (rev (woken (dma_waiting s) T) @ [nid]),
      s\<lparr>dma_waiting := cleared (dma_waiting s) T, commands := m\<rparr>) \<and>
    same_but_next (commands s) m \<and> backs m = backs (commands s) \<and>
    (\<forall>i. i \<notin> set (woken (dma_waiting s) T) \<longrightarrow> nx m i = nx (commands s) i) \<and>
    lpath (nx m) (rev (woken (dma_waiting s) T) @ [nid])"
  using assms
proof (induction T arbitrary: nid s)
  case Nil
  have "cleared (dma_waiting s) [] = dma_waiting s" by (rule nth_equalityI) auto
  then show ?case by (intro exI [of _ "commands s"]) (simp add: woken_def same_but_next_def)
next
  case (Cons t T)
  let ?w = "dma_waiting s"
  have t: "t < length ?w" "t \<notin> set T" using Cons.prems by auto
  show ?case
  proof (cases "?w ! t = INVALID_COMMAND_ID")
    case True
    then have "woken ?w (t # T) = woken ?w T" by (simp add: woken_def)
    moreover have "wake_tag t (nid, s) = Inr (nid, s)" using t True by (simp add: wake_tag_def)
    ultimately show ?thesis
      using Cons.IH [of s nid] Cons.prems cleared_skip [OF t(1) True] by simp
  next
    case False
    define i where "i = ?w ! t"
    have wk: "woken ?w (t # T) = i # woken ?w T" using False by (simp add: woken_def i_def)
    have i: "i < 34" "commands s i \<noteq> None" "i \<noteq> INVALID_COMMAND_ID" "i \<notin> set (woken ?w T)"
      using Cons.prems(3,4) False by (simp_all add: wk) (simp add: i_def)
    let ?s = "s\<lparr>dma_waiting := ?w[t := INVALID_COMMAND_ID], commands := set_next i nid (commands s)\<rparr>"
    have step: "wake_tag t (nid, s) = Inr (i, ?s)"
      using t i by (simp add: wake_tag_def store_next_NextOf flip: i_def del: store_next.simps)
    have w': "woken (dma_waiting ?s) T = woken ?w T" using woken_upd [OF t(2)] by simp
    obtain m where m: "rfold wake_tag T (i, ?s) = Inr (hd (rev (woken ?w T) @ [i]),
        ?s\<lparr>dma_waiting := cleared (dma_waiting ?s) T, commands := m\<rparr>)"
      "same_but_next (commands ?s) m" "backs m = backs (commands ?s)"
      "\<forall>j. j \<notin> set (woken ?w T) \<longrightarrow> nx m j = nx (commands ?s) j" "lpath (nx m) (rev (woken ?w T) @ [i])"
    proof -
      have "\<exists>m. rfold wake_tag T (i, ?s) = Inr (hd (rev (woken (dma_waiting ?s) T) @ [i]),
          ?s\<lparr>dma_waiting := cleared (dma_waiting ?s) T, commands := m\<rparr>) \<and>
        same_but_next (commands ?s) m \<and> backs m = backs (commands ?s) \<and>
        (\<forall>j. j \<notin> set (woken (dma_waiting ?s) T) \<longrightarrow> nx m j = nx (commands ?s) j) \<and>
        lpath (nx m) (rev (woken (dma_waiting ?s) T) @ [i])"
        by (rule Cons.IH) (use Cons.prems in \<open>simp_all add: woken_upd [OF t(2)] wk\<close>)
      then show thesis using that unfolding w' by blast
    qed
    have "nx m i = nid" using m(4) i by simp
    then have "lpath (nx m) (rev (woken ?w (t # T)) @ [nid])"
      using m(5) lpath_append [of "rev (woken ?w T) @ [i]" "[nid]" "nx m"] by (simp add: wk)
    moreover have "nx m j = nx (commands s) j" if "j \<notin> set (woken ?w (t # T))" for j
      using that m(4) i by (simp add: wk)
    moreover have "same_but_next (commands s) m" "backs m = backs (commands s)"
      using m(2,3) by (simp_all add: same_but_next_def)
    moreover have "rfold wake_tag (t # T) (nid, s) = Inr (hd (rev (woken ?w (t # T)) @ [nid]),
        s\<lparr>dma_waiting := cleared ?w (t # T), commands := m\<rparr>)"
      using step m(1) cleared_Cons [OF t(1), of T] by (simp add: wk hd_append)
    ultimately show ?thesis by blast
  qed
qed

lemma same_table:
  assumes "same_but_next m m'" "backs m' = backs m"
  shows "ready m' = ready m" "kinds_ok m' = kinds_ok m" "graph_ok m' = graph_ok m" "m' i = None \<longleftrightarrow> m i = None"
proof -
  show none: "m' i = None \<longleftrightarrow> m i = None" for i using assms(1) by (metis kind_None same_but_next_def)
  show "ready m' = ready m" "kinds_ok m' = kinds_ok m" "graph_ok m' = graph_ok m"
    using assms none by (simp_all add: ready_def kinds_ok_def graph_ok_def same_but_next_def)
qed

lemma wake_avail_eq:
  assumes "avail_ok (nx m0) (dma_waiting_avail s) (dma_waiting_avail_ptr s) aw"
    "\<forall>i\<in>set aw. commands s i \<noteq> None \<and> i < 34"
  shows "wake_avail (n, s) = Inr (hd (aw @ [n]), s\<lparr>commands := (if aw = [] then commands s else set_next (last aw) n (commands s)),
    dma_waiting_avail := INVALID_COMMAND_ID, dma_waiting_avail_ptr := WaitHead\<rparr>)"
proof (cases "aw = []")
  case True
  then show ?thesis using assms(1) by (simp add: avail_ok_def wake_avail_def)
next
  case False
  then have "last aw < 34" "commands s (last aw) \<noteq> None" "hd aw < 34" using assms(2) by auto
  then show ?thesis using assms(1) False
    by (simp add: avail_ok_def wake_avail_def store_next_NextOf INVALID_COMMAND_ID_def del: store_next.simps)
qed

lemma tags_after:
  assumes "tags_ok w active free rt"
  shows "tags_ok (cleared w (tags_of c)) (active AND NOT c) free rt"
proof -
  have "bit (active AND NOT c) t \<and> \<not> bit free t"
    if "t < 32" "cleared w (tags_of c) ! t \<noteq> INVALID_COMMAND_ID" for t
    using assms that by (auto simp: tags_ok_def tags_of_def bit_and_iff bit_not_iff split: if_splits)
  then show ?thesis using assms by (auto simp: tags_ok_def)
qed

lemma completions_sched:
  assumes run: "running s CMD_WORKER_ID rest aw" and c: "tag_status s AND dma_active_tags s = c" "c \<noteq> 0"
  defines "ids \<equiv> woken (dma_waiting s) (tags_of c)"
  shows "\<exists>m. dma_completions s = Inr (s\<lparr>dma_active_tags := dma_active_tags s AND NOT c,
      dma_waiting := cleared (dma_waiting s) (tags_of c), dma_waiting_avail := INVALID_COMMAND_ID,
      dma_waiting_avail_ptr := WaitHead, commands := m\<rparr>) \<and>
    sched (s\<lparr>dma_active_tags := dma_active_tags s AND NOT c,
      dma_waiting := cleared (dma_waiting s) (tags_of c), dma_waiting_avail := INVALID_COMMAND_ID,
      dma_waiting_avail_ptr := WaitHead, commands := m\<rparr>) (aw @ rev ids @ rest @ [CMD_WORKER_ID]) [] \<and>
    same_but_next (commands s) m \<and> backs m = backs (commands s)"
proof -
  let ?x = CMD_WORKER_ID and ?w = "dma_waiting s" and ?T = "tags_of c" and ?n0 = "hd (rest @ [CMD_WORKER_ID])"
  let ?w' = "cleared ?w ?T"
  have core: "core s (?x # rest) aw" and path: "npath (nx (commands s)) ?x (rest @ [?x])" and ptr: "dep_next_ptr s = NextOf ?x"
    using run npath_rotate [of "nx (commands s)" ?x rest] by (auto simp: running_def ring_def)
  have tags: "tags_ok ?w (dma_active_tags s) (dma_free_tags s) (req_tag s)" and
    av: "avail_ok (nx (commands s)) (dma_waiting_avail s) (dma_waiting_avail_ptr s) aw" and
    rd: "set ((?x # rest) @ aw @ waits ?w) = ready (commands s)" and dist: "distinct ((?x # rest) @ aw @ waits ?w)"
    using core by (simp_all add: core_def del: set_append distinct_append)
  have T: "distinct ?T" "\<forall>t\<in>set ?T. t < length ?w" using tags by (auto simp: tags_of_def tags_ok_def)
  have dw: "distinct (waits ?w)" using dist by simp
  note W = woken_waits [OF dw T, folded ids_def]
  have q: "i < 34 \<and> commands s i \<noteq> None" if "i \<in> set (?x # rest) \<union> set aw \<union> set ids" for i
    using core_queued [OF core, of i] that W(3) by auto
  have x: "commands s ?x \<noteq> None" "?x < 34" using q by simp_all
  have n0: "nx (commands s) ?x = ?n0" using path by (cases "rest @ [?x]") auto
  let ?s1 = "s\<lparr>dma_active_tags := dma_active_tags s AND NOT c\<rparr>"
  obtain m where m: "rfold wake_tag ?T (?n0, ?s1) = Inr (hd (rev ids @ [?n0]), ?s1\<lparr>dma_waiting := ?w', commands := m\<rparr>)"
    "same_but_next (commands s) m" "backs m = backs (commands s)"
    "\<forall>i. i \<notin> set ids \<longrightarrow> nx m i = nx (commands s) i" "lpath (nx m) (rev ids @ [?n0])"
    using wake_loop [of ?T ?s1 ?n0] T W(1) q unfolding ids_def by auto
  let ?n1 = "hd (rev ids @ [?n0])"
  let ?m2 = "if aw = [] then m else set_next (last aw) ?n1 m"
  let ?m3 = "set_next ?x (hd (aw @ [?n1])) ?m2"
  let ?s = "s\<lparr>dma_active_tags := dma_active_tags s AND NOT c, dma_waiting := ?w', dma_waiting_avail := INVALID_COMMAND_ID,
      dma_waiting_avail_ptr := WaitHead, commands := ?m3\<rparr>"
  note st = same_table [OF m(2,3)]
  have none2: "?m2 i = None \<longleftrightarrow> commands s i = None" for i using st(4) by simp
  let ?s2 = "?s1\<lparr>dma_waiting := ?w', commands := m\<rparr>"
  have aw_ok: "\<forall>i\<in>set aw. commands ?s2 i \<noteq> None \<and> i < 34" using q st(4) by simp
  have wa: "wake_avail (?n1, ?s2) = Inr (hd (aw @ [?n1]), ?s2\<lparr>commands := ?m2, dma_waiting_avail := INVALID_COMMAND_ID,
      dma_waiting_avail_ptr := WaitHead\<rparr>)"
    using wake_avail_eq [of "commands s" ?s2 aw ?n1] av aw_ok by simp
  have eq: "dma_completions s = Inr ?s"
    unfolding dma_completions_def Let_def c(1) ptr load_next_NextOf [OF x(2,1)] n0 wake_tags_rfold
    using c(2) m(1) wa x none2 ptr
    by (simp add: store_next_NextOf del: store_next.simps load_next.simps)
  have dj: "?x \<notin> set aw" "set aw \<inter> set ids = {}" "set rest \<inter> set ids = {}" "?x \<notin> set ids" "set aw \<inter> set rest = {}" "?x \<notin> set rest"
    "distinct aw"
    using dist W(3) by auto
  have nx3: "nx ?m3 i = (if i = ?x then hd (aw @ [?n1]) else if aw \<noteq> [] \<and> i = last aw then ?n1 else nx m i)" for i
  proof -
    have "?m2 ?x \<noteq> None" unfolding none2 by (rule x(1))
    then have "nx ?m3 = (nx ?m2)(?x := hd (aw @ [?n1]))" by (rule nx_set_next)
    moreover have "nx ?m2 = (if aw = [] then nx m else (nx m)(last aw := ?n1))" using q st(4) by simp
    ultimately show ?thesis by auto
  qed
  have "npath (nx ?m3) ?x (aw @ rev ids @ [?n0])"
  proof -
    have "lpath (nx ?m3) (rev ids @ [?n0]) = lpath (nx m) (rev ids @ [?n0])"
    proof (rule lpath_cong)
      fix i assume "i \<in> set (butlast (rev ids @ [?n0]))"
      then have "i \<in> set ids" by simp
      then have "i \<noteq> ?x" "aw = [] \<or> i \<noteq> last aw" using dj(2,4) last_in_set by blast+
      then show "nx ?m3 i = nx m i" unfolding nx3 by auto
    qed
    then have tail: "lpath (nx ?m3) (rev ids @ [?n0])" using m(5) by simp
    show ?thesis
    proof (cases "aw = []")
      case True
      then show ?thesis using tail nx3 [of ?x] by (simp add: npath_lpath)
    next
      case False
      have "lpath (nx (commands s)) aw" using av False by (cases aw) (simp_all add: avail_ok_def)
      moreover have "lpath (nx ?m3) aw = lpath (nx (commands s)) aw"
      proof (rule lpath_cong)
        fix i assume i: "i \<in> set (butlast aw)"
        then have "i \<in> set aw" "i \<noteq> last aw" using in_set_butlastD [OF i] last_notin_butlast [OF dj(7) False] by auto
        then have "i \<noteq> ?x" "i \<notin> set ids" using dj(1,2) by auto
        then show "nx ?m3 i = nx (commands s) i" unfolding nx3 using \<open>i \<noteq> last aw\<close> m(4) by simp
      qed
      moreover have "nx ?m3 (last aw) = ?n1"
      proof -
        have "last aw \<noteq> ?x" using dj(1) last_in_set [OF False] by metis
        then show ?thesis unfolding nx3 using False by simp
      qed
      ultimately have "lpath (nx ?m3) (aw @ rev ids @ [?n0])" using tail False by (simp add: lpath_append)
      moreover have "nx ?m3 ?x = hd (aw @ rev ids @ [?n0])" unfolding nx3 using False by simp
      ultimately show ?thesis by (simp add: npath_lpath)
    qed
  qed
  then have "ring (nx ?m3) ((aw @ rev ids) @ rest @ [?x])"
  proof (intro ring_relink [OF _ path])
    fix i assume "i \<in> set (butlast (rest @ [?x]))"
    then have "i \<in> set rest" by simp
    then have "i \<noteq> ?x" "i \<notin> set ids" "aw = [] \<or> i \<noteq> last aw" using dj(3,5,6) last_in_set by blast+
    then show "nx ?m3 i = nx (commands s) i" unfolding nx3 using m(4) by auto
  qed simp_all
  moreover have "core ?s (aw @ rev ids @ rest @ [?x]) []"
  proof -
    have "distinct ((aw @ rev ids @ rest @ [?x]) @ [] @ waits ?w')"
      using dist W(1,2,3,4) by (auto simp del: waits_set)
    moreover have "set ((aw @ rev ids @ rest @ [?x]) @ [] @ waits ?w') = ready ?m3"
      using rd W(3) st(1) by (auto simp del: waits_set)
    moreover have "graph_ok ?m3" "kinds_ok ?m3" using core st(2,3) by (auto simp: core_def)
    moreover have "?m3 i = None \<longleftrightarrow> commands s i = None" for i using none2 by simp
    moreover have "req_state s \<le> 2"
      "\<forall>i<32. bit (dep_completed_mask s) i \<longrightarrow> commands s i = None" using core by (auto simp: core_def)
    moreover have "?x \<in> set (aw @ rev ids @ rest @ [?x])" by simp
    ultimately show ?thesis using tags_after [OF tags, of c]
      by (simp add: core_def avail_ok_def del: distinct_append set_append)
  qed
  ultimately have "sched ?s (aw @ rev ids @ rest @ [?x]) []" using ptr by (simp add: sched_def)
  moreover have "same_but_next (commands s) ?m3" "backs ?m3 = backs (commands s)" using m(2,3) by (simp_all add: same_but_next_def)
  ultimately show ?thesis using eq by blast
qed

text \<open>One turn of the worker: the commands that waited for an MFC slot run next, then those whose
  tags completed, the last tag first, then the rest of the list.\<close>

lemma core_mask: "core s queue aw \<Longrightarrow> core (s\<lparr>dep_completed_mask := 0, out_mbox := b\<rparr>) queue aw"
  by (simp add: core_def)

lemma running_notify: "running s x rest aw \<Longrightarrow> running (notify_ppu s) x rest aw"
  by (auto simp: running_def notify_ppu_def core_def)

lemma notify_dma [simp]: "dma_active_tags (notify_ppu s) = dma_active_tags s" "tag_status (notify_ppu s) = tag_status s"
  "dma_waiting (notify_ppu s) = dma_waiting s"
  by (simp_all add: notify_ppu_def)

lemma worker_sched:
  assumes run: "running s CMD_WORKER_ID rest aw"
  defines "c \<equiv> tag_status s AND dma_active_tags s"
  shows "\<exists>s'. run_worker s = Inr s' \<and>
    sched s' (if c = 0 then rest @ [CMD_WORKER_ID] else aw @ rev (woken (dma_waiting s) (tags_of c)) @ rest @ [CMD_WORKER_ID])
      (if c = 0 then aw else []) \<and>
    same_but_next (commands s) (commands s') \<and> backs (commands s') = backs (commands s) \<and>
    dma_active_tags s' = dma_active_tags s AND NOT c"
proof -
  define s1 where "s1 = (if dep_completed_mask s \<noteq> 0 then notify_ppu s else s)"
  have s1: "running s1 CMD_WORKER_ID rest aw" "dma_active_tags s1 = dma_active_tags s" "tag_status s1 = tag_status s"
    "dma_waiting s1 = dma_waiting s" "commands s1 = commands s"
    using running_notify [OF run] run by (simp_all add: s1_def)
  have w: "run_worker s = (if dma_active_tags s1 \<noteq> 0 then dma_completions s1 else Inr s1)"
    by (simp add: run_worker_def s1_def Let_def)
  show ?thesis
  proof (cases "c = 0")
    case True
    then have "run_worker s = Inr s1" using w s1 by (simp add: dma_completions_def c_def)
    then show ?thesis using running_sched [OF s1(1)] True s1(2,5) by (simp add: same_but_next_def)
  next
    case False
    then have "run_worker s = dma_completions s1" using w s1(2) by (auto simp: c_def)
    then show ?thesis using completions_sched [OF s1(1), of c] False s1 by (auto simp: c_def)
  qed
qed

section \<open>Adding commands: lemmas\<close>

text \<open>The loop over the backward dependencies of a new command, after \<open>k\<close> turns, against the table
  \<open>m\<close> in which it was entered.\<close>

definition cmd_shape :: "spu_cmd \<Rightarrow> bool" where
  "cmd_shape c \<longleftrightarrow> length (c_deps c) = max_deps (c_type c)"

definition pending :: "cmd_table \<Rightarrow> nat list \<Rightarrow> nat list" where
  "pending m D = filter (\<lambda>d. m d \<noteq> None) D"

definition back_loop :: "cmd_table \<Rightarrow> spu_cmd \<Rightarrow> nat \<Rightarrow> cmd_table \<Rightarrow> bool" where
  "back_loop m c k m' \<longleftrightarrow> (let D = take k (c_deps c); i = c_id c in
     nx m' = nx m \<and> kind m' = kind m \<and> (\<forall>d. fits m d \<longrightarrow> fits m' d) \<and>
     backs m' = (backs m)(i := num_back_deps c - length (filter (\<lambda>d. m d = None) D)) \<and>
     (\<forall>d. fwds m' d = fwds m d @ (if m d = None then [] else replicate (count_list D d) i)) \<and>
     (\<forall>c'. m' i = Some c' \<longrightarrow> length (c_deps c') = length (c_deps c) \<and> num_forward_deps c' \<le> k \<and>
        (\<forall>j. k \<le> j \<longrightarrow> c_deps c' ! j = c_deps c ! j)) \<and> (\<forall>d\<in>set D. d < 32))"

lemma take_update_end: "n < length xs \<Longrightarrow> take (Suc n) (xs[n := v]) = take n xs @ [v]"
  by (simp add: take_Suc_conv_app_nth)

lemma max_deps_bound: "n < SPU_CMD_MAX_DEPS \<or> n < SPU_CMD_MAX_DEPS_LARGE \<and> large_header ty \<Longrightarrow> n < max_deps ty"
  by (auto simp: max_deps_def SPU_CMD_MAX_DEPS_def SPU_CMD_MAX_DEPS_LARGE_def)

lemma back_loop_step:
  assumes loop: "back_loop m c k (commands s)" and new: "m (c_id c) = Some c" "num_forward_deps c = 0" "\<forall>d<32. fits m d"
    and i: "c_id c < 34" and k: "k < num_back_deps c" "num_back_deps c \<le> length (c_deps c)"
    and step: "add_back_dep (c_id c) k s = Inr s'"
  shows "back_loop m c (Suc k) (commands s') \<and> s' = s\<lparr>commands := commands s'\<rparr>"
proof -
  let ?i = "c_id c" and ?m = "commands s" and ?d = "c_deps c ! k"
  have L: "nx ?m = nx m" "kind ?m = kind m" "\<forall>d. fits m d \<longrightarrow> fits ?m d"
    "backs ?m = (backs m)(?i := num_back_deps c - length (filter (\<lambda>d. m d = None) (take k (c_deps c))))"
    "\<forall>d. fwds ?m d = fwds m d @ (if m d = None then [] else replicate (count_list (take k (c_deps c)) d) ?i)"
    "\<forall>d\<in>set (take k (c_deps c)). d < 32"
    using loop by (simp_all add: back_loop_def Let_def)
  have none: "?m d = None \<longleftrightarrow> m d = None" for d using L(2) by (metis kind_None)
  obtain c' where c': "?m ?i = Some c'" using none [of ?i] new(1) by auto
  have tl: "length (c_deps c') = length (c_deps c)" "num_forward_deps c' \<le> k" "\<And>j. k \<le> j \<Longrightarrow> c_deps c' ! j = c_deps c ! j"
    using loop c' by (simp_all add: back_loop_def Let_def)
  have tk: "take (Suc k) (c_deps c) = take k (c_deps c) @ [?d]" using k by (simp add: take_Suc_conv_app_nth)
  have cnt: "count_list (take (Suc k) (c_deps c)) e = count_list (take k (c_deps c)) e + (if e = ?d then 1 else 0)" for e
    unfolding tk by simp
  have d32: "?d < 32" and sets: "\<forall>d\<in>set (take (Suc k) (c_deps c)). d < 32"
  proof -
    show "?d < 32" using step c' i k tl
      by (auto simp: add_back_dep_def get_command_def res_simps index_res_def SPU_MAX_COMMANDS_def split: if_splits)
    then show "\<forall>d\<in>set (take (Suc k) (c_deps c)). d < 32" unfolding tk using L(6) by simp
  qed
  show ?thesis
  proof (cases "m ?d = None")
    case True
    let ?c = "c'\<lparr>num_back_deps := num_back_deps c' - 1\<rparr>"
    have s': "s' = s\<lparr>commands := ?m(?i \<mapsto> ?c)\<rparr>"
      using step c' i k tl True none [of ?d]
      by (auto simp: add_back_dep_def get_command_def put_command_def res_simps index_res_def split: if_splits)
    have "backs ?m ?i = num_back_deps c'" "fwds ?m ?i = take (num_forward_deps c') (c_deps c')"
      "nx ?m ?i = c_next c'" "kind ?m ?i = Some (c_type c', c_id c', c_body c')"
      "fits ?m ?i = (num_forward_deps c' \<le> length (c_deps c') \<and> length (c_deps c') = max_deps (c_type c'))"
      using c' by (simp_all add: view_defs)
    then have "backs (commands s') = (backs ?m)(?i := backs ?m ?i - 1)" "fwds (commands s') = fwds ?m"
      "nx (commands s') = nx ?m" "kind (commands s') = kind ?m" "fits (commands s') = fits ?m"
      by (auto simp: s' view_put fun_eq_iff)
    then show ?thesis
      using L tl sets True new(1) cnt by (auto simp: back_loop_def Let_def s' tk fun_eq_iff)
  next
    case False
    obtain e where e: "?m ?d = Some e" using False none [of ?d] by auto
    let ?e = "e\<lparr>c_deps := (c_deps e)[num_forward_deps e := ?i], num_forward_deps := num_forward_deps e + 1\<rparr>"
    have s': "s' = s\<lparr>commands := ?m(?d \<mapsto> ?e)\<rparr>" and nf: "num_forward_deps e < length (c_deps e)"
      using step c' i k tl e
      by (auto simp: add_back_dep_def get_command_def put_command_def res_simps index_res_def split: if_splits)
    have "backs ?m ?d = num_back_deps e" "fwds ?m ?d = take (num_forward_deps e) (c_deps e)"
      "nx ?m ?d = c_next e" "kind ?m ?d = Some (c_type e, c_id e, c_body e)" "fits ?m ?d \<longrightarrow> length (c_deps e) = max_deps (c_type e)"
      using e by (simp_all add: view_defs)
    then have v: "backs (commands s') = backs ?m" "fwds (commands s') = (fwds ?m)(?d := fwds ?m ?d @ [?i])"
      "nx (commands s') = nx ?m" "kind (commands s') = kind ?m" "\<forall>d. fits ?m d \<longrightarrow> fits (commands s') d"
      using nf by (auto simp: s' view_put fun_eq_iff take_update_end)
    have "fwds (commands s') b = fwds m b @ (if m b = None then [] else replicate (count_list (take (Suc k) (c_deps c)) b) ?i)" for b
      unfolding v(2) cnt using L(5) False by (auto simp: replicate_append_same)
    moreover have "length (c_deps c'') = length (c_deps c) \<and> num_forward_deps c'' \<le> Suc k \<and>
        (\<forall>j. Suc k \<le> j \<longrightarrow> c_deps c'' ! j = c_deps c ! j)" if "commands s' ?i = Some c''" for c''
    proof (cases "?d = ?i")
      case True
      then have "e = c'" using e c' by simp
      then show ?thesis using that tl True by (auto simp: s')
    next
      case False
      then show ?thesis using that tl c' by (auto simp: s')
    qed
    moreover have "filter (\<lambda>d. m d = None) (take (Suc k) (c_deps c)) = filter (\<lambda>d. m d = None) (take k (c_deps c))"
      using False by (simp add: tk)
    moreover have "s' = s\<lparr>commands := commands s'\<rparr>" by (simp add: s')
    ultimately show ?thesis
      using L(1-4) v(1,3-5) sets unfolding back_loop_def Let_def by simp
  qed
qed

lemma back_loop_all:
  assumes new: "commands s (c_id c) = Some c" "num_forward_deps c = 0" "\<forall>d<32. fits (commands s) d" "c_id c < 34"
    and n: "n \<le> num_back_deps c" "num_back_deps c \<le> length (c_deps c)"
    and run: "rfold (add_back_dep (c_id c)) [0..<n] s = Inr s'"
  shows "back_loop (commands s) c n (commands s') \<and> s' = s\<lparr>commands := commands s'\<rparr>"
  using n(1) run
proof (induction n arbitrary: s')
  case 0
  then have "s' = s" by simp
  moreover have "backs (commands s) (c_id c) = num_back_deps c" using new(1) by (simp add: backs_def)
  ultimately show ?case using new(1,2) by (auto simp: back_loop_def Let_def fun_eq_iff)
next
  case (Suc n)
  obtain t where t: "rfold (add_back_dep (c_id c)) [0..<n] s = Inr t" "add_back_dep (c_id c) n t = Inr s'"
    using Suc.prems(2) by (auto simp: rfold_append res_simps)
  have IH: "back_loop (commands s) c n (commands t)" "t = s\<lparr>commands := commands t\<rparr>"
    using Suc.IH [OF _ t(1)] Suc.prems(1) by auto
  have "back_loop (commands s) c (Suc n) (commands s') \<and> s' = t\<lparr>commands := commands s'\<rparr>"
    by (rule back_loop_step [OF IH(1) new(1,2,3,4) _ n(2) t(2)]) (use Suc.prems(1) in simp)
  moreover have "t\<lparr>commands := commands s'\<rparr> = s\<lparr>commands := commands s'\<rparr>"
  proof -
    have "t\<lparr>commands := commands s'\<rparr> = (s\<lparr>commands := commands t\<rparr>)\<lparr>commands := commands s'\<rparr>"
      using IH(2) by (rule arg_cong)
    then show ?thesis by simp
  qed
  ultimately show ?case by simp
qed

lemma count_filter: "count_list (filter P xs) x = (if P x then count_list xs x else 0)"
  by (induction xs) auto

lemma count_replicate [simp]: "count_list (replicate n x) y = (if x = y then n else 0)"
  by (induction n) auto

text \<open>The graph after the loop.\<close>

lemma back_loop_graph:
  fixes m :: cmd_table
  defines "m0 \<equiv> \<lambda>c. m(c_id c \<mapsto> c)" and "D \<equiv> \<lambda>c. take (num_back_deps c) (c_deps c)"
  assumes loop: "back_loop (m0 c) c (num_back_deps c) m'"
    and g: "graph_ok m" "m (c_id c) = None" "c_id c < 32" "num_forward_deps c = 0" "cmd_shape c"
    and n: "num_back_deps c \<le> length (c_deps c)"
  shows "graph_ok m'" "backs m' = (backs m)(c_id c := length (pending (m0 c) (D c)))"
    "kind m' = (kind m)(c_id c \<mapsto> (c_type c, c_id c, c_body c))" "nx m' = (nx m)(c_id c := c_next c)"
    "fwds m' d = fwds m d @ replicate (count_list (pending (m0 c) (D c)) d) (c_id c)"
proof -
  let ?i = "c_id c" and ?D = "D c" and ?P = "pending (m0 c) (D c)"
  have L: "nx m' = nx (m0 c)" "kind m' = kind (m0 c)" "\<forall>d. fits (m0 c) d \<longrightarrow> fits m' d"
    "backs m' = (backs (m0 c))(?i := num_back_deps c - length (filter (\<lambda>d. m0 c d = None) ?D))"
    "\<And>d. fwds m' d = fwds (m0 c) d @ (if m0 c d = None then [] else replicate (count_list ?D d) ?i)"
    "\<forall>d\<in>set ?D. d < 32"
    using loop by (simp_all add: back_loop_def Let_def D_def)
  have len: "length ?D = num_back_deps c" using n by (simp add: D_def)
  have lp: "num_back_deps c - length (filter (\<lambda>d. m0 c d = None) ?D) = length ?P"
    using sum_length_filter_compl [of "\<lambda>d. m0 c d = None" ?D] len by (simp add: pending_def)
  show b: "backs m' = (backs m)(?i := length ?P)" unfolding L(4) lp by (simp add: m0_def view_put)
  show k: "kind m' = (kind m)(?i \<mapsto> (c_type c, ?i, c_body c))" "nx m' = (nx m)(?i := c_next c)"
    by (simp_all add: L(1,2) m0_def view_put)
  have f0: "fwds (m0 c) = fwds m" using g(2,4) by (auto simp: m0_def view_put fun_eq_iff fwds_def)
  have cp: "count_list ?P d = (if m0 c d = None then 0 else count_list ?D d)" for d
    by (simp add: pending_def count_filter)
  show f: "fwds m' d = fwds m d @ replicate (count_list ?P d) ?i" for d
    unfolding L(5) f0 cp by simp
  have none: "m' d = None \<longleftrightarrow> m0 c d = None" for d using L(2) by (metis kind_None)
  have old: "d < 32 \<and> m d \<noteq> None" if "j < 32" "d \<in> set (fwds m j)" for j d using g(1) that by (auto simp: graph_ok_def)
  have "backs m' e = (\<Sum>j<32. count_list (fwds m' j) e)" if "e < 34" for e
  proof (cases "e = ?i")
    case True
    have "count_list (fwds m' j) ?i = count_list ?P j" if "j < 32" for j
      using old [OF that, of ?i] g(2) count_list_0_iff [of "fwds m j" ?i] by (auto simp: f)
    moreover have "(\<Sum>j<32. count_list ?P j) = length ?P"
      using L(6) by (intro sum_count_set) (auto simp: pending_def)
    ultimately show ?thesis using True by (simp add: b)
  next
    case False
    then have "count_list (fwds m' j) e = count_list (fwds m j) e" for j by (simp add: f)
    then show ?thesis using g(1) that False by (simp add: graph_ok_def b)
  qed
  moreover have "fits m' d" if "d < 32" for d
  proof -
    have "fits (m0 c) d" using g that by (auto simp: m0_def view_put cmd_shape_def graph_ok_def)
    then show ?thesis using L(3) by simp
  qed
  moreover have "d < 32 \<and> m' d \<noteq> None" if "j < 32" "d \<in> set (fwds m' j)" for j d
    using that old [of j d] g(3) none [of d] by (auto simp: f m0_def split: if_splits)
  ultimately show "graph_ok m'" by (simp add: graph_ok_def)
qed

lemma ring_insert:
  assumes r: "ring f (A @ B)" "A \<noteq> []" "B \<noteq> []" "distinct (A @ B)" "i \<notin> set (A @ B)"
    and g: "g = (f'(i := f (last A)))(last A := i)" "\<And>j. j \<noteq> i \<Longrightarrow> f' j = f j"
  shows "ring g (A @ i # B)"
proof -
  obtain b bs where B: "B = b # bs" using r(3) by (cases B) auto
  have p: "npath f (last B) A" "f (last A) = b" "npath f b bs"
    using r(1-3) by (auto simp: ring_def npath_append B)
  have la: "last A \<in> set A" using r(2) by simp
  then have l: "last A \<notin> set B" "last A \<noteq> i" "last A \<in> set A" using r(4,5) by auto
  have "npath g (last B) A = npath f (last B) A"
  proof (rule npath_cong)
    fix j assume j: "j \<in> set (butlast (last B # A))"
    have "j = last B \<or> j \<in> set A \<and> j \<noteq> last A"
      using j r(2) in_set_butlastD [of j A] last_notin_butlast [of A] r(4) by (auto split: if_splits)
    then have "j \<noteq> last A" "j \<noteq> i" using l r(3,5) last_in_set [of B] by auto
    then show "g j = f j" using g by simp
  qed
  moreover have "npath g b bs = npath f b bs"
  proof (rule npath_cong)
    fix j assume "j \<in> set (butlast (b # bs))"
    then have "j \<in> set B" unfolding B by (rule in_set_butlastD)
    then have "j \<noteq> last A" "j \<noteq> i" using l(1) r(5) by auto
    then show "g j = f j" using g by simp
  qed
  moreover have "g (last A) = i" "g i = b" using g l p(2) by auto
  ultimately show ?thesis using p r(2,3) by (simp add: ring_def npath_append B)
qed

text \<open>While the request handler adds a group: \<open>new\<close> lists the commands put behind it so far.\<close>

definition inserting :: "'a dep_state_scheme \<Rightarrow> nat list \<Rightarrow> nat list \<Rightarrow> nat list \<Rightarrow> bool" where
  "inserting s new rest aw \<longleftrightarrow> core s (CMD_REQ_HANDLER_ID # new @ rest) aw \<and>
     ring (nx (commands s)) (CMD_REQ_HANDLER_ID # new @ rest) \<and> rest \<noteq> [] \<and>
     dep_next_ptr s = NextOf (last (CMD_REQ_HANDLER_ID # new)) \<and> CMD_WORKER_ID \<in> set rest"

definition added :: "cmd_table \<Rightarrow> spu_cmd \<Rightarrow> cmd_table \<Rightarrow> bool" where
  "added m c m' \<longleftrightarrow> (let P = pending (m(c_id c \<mapsto> c)) (take (num_back_deps c) (c_deps c)) in
     kind m' = (kind m)(c_id c \<mapsto> (c_type c, c_id c, c_body c)) \<and> backs m' = (backs m)(c_id c := length P) \<and>
     (\<forall>d. fwds m' d = fwds m d @ replicate (count_list P d) (c_id c)))"

lemma add_command_inserting:
  assumes ins: "inserting s new rest aw" and add: "dep_add_command c s = Inr s'" and shape: "cmd_shape c"
  shows "\<exists>m. s' = s\<lparr>commands := m, dep_next_ptr := dep_next_ptr s'\<rparr> \<and> added (commands s) c m \<and>
    commands s (c_id c) = None \<and> inserting s' (new @ (if backs m (c_id c) = 0 then [c_id c] else [])) rest aw"
proof -
  let ?i = "c_id c" and ?q = "last (CMD_REQ_HANDLER_ID # new)" and ?Q = "CMD_REQ_HANDLER_ID # new @ rest"
  let ?m0 = "(commands s)(c_id c \<mapsto> c)"
  let ?s0 = "put_command (c_id c) c s"
  have core: "core s ?Q aw" and ring: "ring (nx (commands s)) ?Q" and rest: "rest \<noteq> []" and ptr: "dep_next_ptr s = NextOf ?q"
    using ins by (simp_all add: inserting_def)
  have c: "c_type c < 18" "?i < 32" "num_back_deps c \<le> max_deps (c_type c)" "num_forward_deps c = 0"
    "commands s ?i = None" "\<not> bit (dep_completed_mask s) ?i"
    using add by (auto simp: dep_add_command_def Let_def res_simps SPU_NUM_CMD_TYPES_def SPU_MAX_COMMANDS_def
        max_deps_def SPU_CMD_MAX_DEPS_def SPU_CMD_MAX_DEPS_LARGE_def and_tag_bit split: if_splits)
  have n: "num_back_deps c \<le> length (c_deps c)" using c(3) shape by (simp add: cmd_shape_def)
  obtain t where t: "rfold (add_back_dep ?i) [0..<num_back_deps c] ?s0 = Inr t"
    using add by (auto simp: dep_add_command_def Let_def res_simps)
  have g: "graph_ok (commands s)" using core by (simp add: core_def)
  have fits0: "\<forall>d<32. fits ?m0 d" using g c(4) shape by (auto simp: view_put graph_ok_def cmd_shape_def)
  have B: "back_loop ?m0 c (num_back_deps c) (commands t)" "t = ?s0\<lparr>commands := commands t\<rparr>"
    using back_loop_all [of ?s0 c "num_back_deps c" t] t c n fits0 by (auto simp: put_command_def)
  note G = back_loop_graph [OF B(1) g c(5,2,4) shape n]
  let ?P = "pending ?m0 (take (num_back_deps c) (c_deps c))"
  let ?m = "commands t"
  have teq: "t = s\<lparr>commands := ?m\<rparr>"
  proof -
    have "t = (s\<lparr>commands := ?m0\<rparr>)\<lparr>commands := ?m\<rparr>" using B(2) by (simp add: put_command_def)
    then show ?thesis by simp
  qed
  have none: "?m d = None \<longleftrightarrow> d \<noteq> ?i \<and> commands s d = None" for d
    using G(3) by (metis kind_None fun_upd_apply option.distinct(1))
  obtain c' where c': "?m ?i = Some c'" using none [of ?i] by auto
  have bc: "num_back_deps c' = length ?P" using G(2) c' by (auto simp: backs_def dest: fun_cong [of _ _ ?i])
  have q: "commands s ?q \<noteq> None" "?q < 34" "?q \<in> set ?Q" using core_queued [OF core, of ?q] by (auto split: if_splits)
  have iQ: "?i \<notin> set ?Q" "?i \<notin> set aw" "?i \<notin> set (waits (dma_waiting s))"
    using core_queued [OF core, of ?i] c(5) by (auto simp del: waits_set)
  have dist: "distinct ?Q" using core by (auto simp: core_def simp del: waits_set)
  define m2 where "m2 = set_next ?q ?i (?m(?i \<mapsto> c'\<lparr>c_next := nx ?m ?q\<rparr>))"
  have iq: "?i \<noteq> ?q" using iQ(1) q(3) by metis
  have s': "s' = (if ?P = [] then s\<lparr>commands := m2, dep_next_ptr := NextOf ?i\<rparr> else s\<lparr>commands := ?m\<rparr>)"
  proof -
    obtain mm where mm: "t = s\<lparr>commands := mm\<rparr>" using teq by blast
    have "mm ?q \<noteq> None" "mm ?i = Some c'" using none [of ?q] q(1) c' mm by simp_all
    then show ?thesis
      using add c(1,2,4,5) t ptr q iq bc mm
      by (auto simp: dep_add_command_def Let_def res_simps get_command_def load_next_NextOf store_next_NextOf put_command_def
          m2_def simp del: load_next.simps store_next.simps split: if_splits)
  qed
  have u: "backs (?m(?i \<mapsto> c'\<lparr>c_next := v\<rparr>)) = backs ?m" "kind (?m(?i \<mapsto> c'\<lparr>c_next := v\<rparr>)) = kind ?m"
    "fwds (?m(?i \<mapsto> c'\<lparr>c_next := v\<rparr>)) = fwds ?m" "fits (?m(?i \<mapsto> c'\<lparr>c_next := v\<rparr>)) = fits ?m" for v
    using c' by (auto simp: view_defs fun_eq_iff)
  have m2: "backs m2 = backs ?m" "kind m2 = kind ?m" "fwds m2 = fwds ?m" "fits m2 = fits ?m"
    by (simp_all add: m2_def u)
  have nxm2: "nx m2 = ((nx ?m)(?i := nx (commands s) ?q))(?q := ?i)"
    using none [of ?q] q(1) iq by (simp add: m2_def view_put G(4))
  have none2: "m2 d = None \<longleftrightarrow> ?m d = None" for d using m2(2) by (metis kind_None)
  define m' where "m' = (if ?P = [] then m2 else ?m)"
  have M: "backs m' = backs ?m" "kind m' = kind ?m" "fwds m' = fwds ?m" "fits m' = fits ?m"
    "m' d = None \<longleftrightarrow> d \<noteq> ?i \<and> commands s d = None" for d
    using m2 none2 none by (simp_all add: m'_def)
  have S: "s' = s\<lparr>commands := m', dep_next_ptr := dep_next_ptr s'\<rparr>" "dep_next_ptr s' = NextOf (last (CMD_REQ_HANDLER_ID # new @
      (if ?P = [] then [?i] else [])))"
    using s' ptr by (auto simp: m'_def)
  have add: "added (commands s) c m'" using G(2,3,5) M by (simp add: added_def)
  have bi: "backs m' ?i = 0 \<longleftrightarrow> ?P = []" using M(1) G(2) by simp
  let ?new = "new @ (if ?P = [] then [?i] else [])"
  have nx': "nx m' j = nx (commands s) j" if "j \<noteq> ?i" "j \<noteq> ?q \<or> ?P \<noteq> []" for j
    using that by (simp add: m'_def nxm2 G(4))
  have ring': "ring (nx m') (CMD_REQ_HANDLER_ID # ?new @ rest)"
  proof (cases "?P = []")
    case True
    have "ring (nx m2) ((CMD_REQ_HANDLER_ID # new) @ ?i # rest)"
      by (rule ring_insert [of "nx (commands s)" _ _ _ _ "nx ?m"]) (use ring rest dist iQ(1) nxm2 G(4) in auto)
    then show ?thesis using True by (simp add: m'_def)
  next
    case False
    have "npath (nx m') (last ?Q) ?Q = npath (nx (commands s)) (last ?Q) ?Q"
    proof (rule npath_cong)
      fix j assume j: "j \<in> set (butlast (last ?Q # ?Q))"
      have "last ?Q \<in> set ?Q" by (rule last_in_set) simp
      then have "j \<in> set ?Q" using in_set_butlastD [OF j] by auto
      then show "nx m' j = nx (commands s) j" using nx' [of j] False iQ(1) by metis
    qed
    then show ?thesis using ring False by (simp add: ring_def)
  qed
  have av: "avail_ok (nx m') (dma_waiting_avail s) (dma_waiting_avail_ptr s) aw"
  proof -
    have "nx m' j = nx (commands s) j" if "j \<in> set aw" for j
    proof (rule nx')
      show "j \<noteq> ?i" using that iQ(2) by blast
      have "set ?Q \<inter> set aw = {}" using core by (auto simp: core_def simp del: waits_set)
      then have "?q \<notin> set aw" using q(3) by (metis disjoint_iff)
      then show "j \<noteq> ?q \<or> ?P \<noteq> []" using that by blast
    qed
    then show ?thesis using core avail_ok_cong [of aw "nx m'" "nx (commands s)"] by (simp add: core_def)
  qed
  have rd: "ready m' = ready (commands s) \<union> (if ?P = [] then {?i} else {})"
  proof (rule set_eqI)
    fix d
    have "backs m' d = (if d = ?i then length ?P else backs (commands s) d)" using M(1) G(2) by simp
    then show "d \<in> ready m' \<longleftrightarrow> d \<in> ready (commands s) \<union> (if ?P = [] then {?i} else {})"
      unfolding ready_def mem_Collect_eq M(5) using c(5) by (cases "d = ?i"; cases "?P = []") simp_all
  qed
  have kinds: "kinds_ok m'" using core c(1,2) by (auto simp: M(2) G(3) core_def kinds_ok_def id_defs)
  have graph: "graph_ok m'" using G(1) M by (auto simp: graph_ok_def none)
  have "core s' (CMD_REQ_HANDLER_ID # ?new @ rest) aw"
  proof -
    have "distinct ((CMD_REQ_HANDLER_ID # ?new @ rest) @ aw @ waits (dma_waiting s))"
      using core iQ by (auto simp: core_def simp del: waits_set)
    moreover have "set ((CMD_REQ_HANDLER_ID # ?new @ rest) @ aw @ waits (dma_waiting s)) = ready m'"
      using core rd by (auto simp: core_def simp del: waits_set)
    moreover have "CMD_WORKER_ID \<in> set (CMD_REQ_HANDLER_ID # ?new @ rest)" using core by (auto simp: core_def)
    moreover have "\<forall>j<32. bit (dep_completed_mask s) j \<longrightarrow> m' j = None" using core c(6) M(5) by (auto simp: core_def)
    ultimately show ?thesis using core av kinds graph
      by (subst S(1)) (simp add: core_def del: distinct_append set_append distinct.simps list.set)
  qed
  moreover have "commands s' = m'" by (subst S(1)) simp
  ultimately have "inserting s' ?new rest aw"
    using ring' rest S(2) ins by (simp add: inserting_def)
  then show ?thesis using S(1) add c(5) bi by auto
qed

section \<open>The request handler: lemmas\<close>

definition from_group :: "(nat \<Rightarrow> spu_cmd option) \<Rightarrow> cmd_table \<Rightarrow> cmd_table \<Rightarrow> bool" where
  "from_group ls m m' \<longleftrightarrow> (\<forall>i. kind m' i = kind m i \<or>
     (\<exists>a c. ls a = Some c \<and> kind m' i = Some (c_type c, c_id c, c_body c)))"

lemma from_group_refl: "from_group ls m m"
  by (simp add: from_group_def)

lemma from_group_added: "added m c m1 \<Longrightarrow> ls a = Some c \<Longrightarrow> from_group ls m1 m2 \<Longrightarrow> from_group ls m m2"
  by (auto simp: from_group_def added_def Let_def fun_upd_def split: if_splits)

lemma walk_inserting:
  assumes "inserting s new rest aw" "walk_group dep_add_command ls addr n s = Inr s'" "\<forall>a c. ls a = Some c \<longrightarrow> cmd_shape c"
  shows "\<exists>new' m p. inserting s' new' rest aw \<and> s' = s\<lparr>commands := m, dep_next_ptr := p\<rparr> \<and> from_group ls (commands s) m"
  using assms
proof (induction "dep_add_command :: spu_cmd \<Rightarrow> 'a dep_state_scheme \<Rightarrow> 'a dep_state_scheme res" ls addr n s
    arbitrary: new rule: walk_group.induct)
  case (1 ls addr n s)
  show ?case
  proof (cases "n = 0")
    case True
    then have "s' = s" using "1.prems"(2) by (simp add: walk_group.simps)
    then show ?thesis using "1.prems"(1) by (intro exI [of _ new] exI [of _ "commands s"] exI [of _ "dep_next_ptr s"])
        (simp add: from_group_refl)
  next
    case False
    obtain c k t where c: "ls addr = Some c" "spu_cmd_get_size c = Inr k" "\<not> n < k" "dep_add_command c s = Inr t"
      "walk_group dep_add_command ls (addr + k) (n - k) t = Inr s'"
      using "1.prems"(2) False by (subst (asm) walk_group.simps) (auto split: option.splits sum.splits if_splits)
    obtain new1 m1 p1 where new1: "inserting t new1 rest aw" "t = s\<lparr>commands := m1, dep_next_ptr := p1\<rparr>" "added (commands s) c m1"
      using add_command_inserting [OF "1.prems"(1) c(4)] "1.prems"(3) c(1) by blast
    obtain new' m p where "inserting s' new' rest aw" "s' = t\<lparr>commands := m, dep_next_ptr := p\<rparr>"
        "from_group ls (commands t) m"
      using "1.hyps" [OF False c(1,2,3,4) new1(1) c(5) "1.prems"(3)] by blast
    moreover have "t\<lparr>commands := m, dep_next_ptr := p\<rparr> = s\<lparr>commands := m, dep_next_ptr := p\<rparr>"
      using new1(2) by simp
    moreover have "from_group ls (commands s) m" if "from_group ls (commands t) m" for m
      using from_group_added [OF new1(3), of ls addr] c(1) that new1(2) by simp
    ultimately show ?thesis by metis
  qed
qed

lemma add_group_running:
  assumes run: "running s CMD_REQ_HANDLER_ID rest aw" and add: "req_add_group s = Inr s'"
    and shape: "\<forall>a c. ls_commands s a = Some c \<longrightarrow> cmd_shape c"
  shows "\<exists>new. running s' CMD_REQ_HANDLER_ID (new @ rest) aw \<and> (\<exists>m p. s' = s\<lparr>commands := m, dep_next_ptr := p, req_state := 0\<rparr> \<and>
    from_group (ls_commands s) (commands s) m)"
proof -
  have ne: "CMD_REQ_HANDLER_ID \<noteq> CMD_WORKER_ID" by (simp add: id_defs)
  note r = running_rest [OF run ne]
  have "CMD_WORKER_ID \<in> set rest" using run ne by (auto simp: running_def core_def)
  then have ins: "inserting s [] rest aw" using run r(1) by (simp add: running_def inserting_def)
  obtain t where t: "walk_group dep_add_command (ls_commands s) (unat (req_lsa s)) (unat (req_bytes s)) s = Inr t"
    "s' = t\<lparr>dep_next_ptr := NextOf CMD_REQ_HANDLER_ID, req_state := 0\<rparr>"
    using add by (auto simp: req_add_group_def res_simps)
  obtain new m p where new: "inserting t new rest aw" "t = s\<lparr>commands := m, dep_next_ptr := p\<rparr>"
    "from_group (ls_commands s) (commands s) m"
    using walk_inserting [OF ins t(1) shape] by blast
  have "running s' CMD_REQ_HANDLER_ID (new @ rest) aw"
    using new run r(1) by (auto simp: running_def inserting_def t(2) core_def)
  moreover have "s' = s\<lparr>commands := m, dep_next_ptr := NextOf CMD_REQ_HANDLER_ID, req_state := 0\<rparr>"
    by (simp add: t(2) new(2))
  ultimately show ?thesis using new(3) by blast
qed

lemma req_tag_valid: "running s CMD_REQ_HANDLER_ID rest aw \<Longrightarrow> tag_valid (req_tag s) s"
proof -
  assume run: "running s CMD_REQ_HANDLER_ID rest aw"
  then have c: "CMD_REQ_HANDLER_ID \<notin> set (waits (dma_waiting s))"
    "tags_ok (dma_waiting s) (dma_active_tags s) (dma_free_tags s) (req_tag s)"
    by (auto simp: running_def core_def simp del: waits_set)
  then have "dma_waiting s ! req_tag s \<in> set (dma_waiting s)" by (simp add: tags_ok_def)
  moreover have "CMD_REQ_HANDLER_ID \<notin> set (dma_waiting s)" using c(1) by (simp add: id_defs)
  ultimately have "dma_waiting s ! req_tag s \<noteq> CMD_REQ_HANDLER_ID" by metis
  then show ?thesis using c(2) by (auto simp: tags_ok_def tag_valid_def and_tag_bit id_defs)
qed

lemma req_start_sched:
  assumes run: "running s CMD_REQ_HANDLER_ID rest aw" and st: "req_state s = 1" "in_mbox s \<noteq> []"
  shows "\<exists>s' aw'. req_start s = Inr s' \<and> sched s' rest aw' \<and> (req_state s' = 1 \<longrightarrow> in_mbox s' \<noteq> [])"
proof (cases "dma_query_avail 1 s")
  case False
  obtain m s' where "dma_wait_avail s = Inr s'" "sched s' rest (aw @ [CMD_REQ_HANDLER_ID])"
    "s' = s\<lparr>dep_dequeued := True, commands := m, dma_waiting_avail := hd (aw @ [CMD_REQ_HANDLER_ID]),
      dma_waiting_avail_ptr := NextOf CMD_REQ_HANDLER_ID, dep_next_ptr := NextOf (last rest)\<rparr>"
    using wait_avail_sched [OF run] by (auto simp: id_defs)
  then show ?thesis using False st by (auto simp: req_start_def)
next
  case True
  obtain req reqs where box: "in_mbox s = req # reqs" using st(2) by (cases "in_mbox s") auto
  define s1 where "s1 = s\<lparr>in_mbox := reqs, req_lsa := cmd_get_req_lsa req, req_bytes := cmd_get_req_size req\<rparr>"
  define s2 where "s2 = mfc_start (req_tag s) (Mfc_Get (req_tag s) (cmd_get_req_lsa req)
      (dep_get_cmd_group_addr (cmd_get_req_entry req) s1) (cmd_get_req_size req))
      (s1\<lparr>dma_active_tags := dma_active_tags s OR tag_bit (req_tag s)\<rparr>)"
  have tv: "tag_valid (req_tag s) s" by (rule req_tag_valid [OF run])
  then have get: "dma_get (req_tag s) (cmd_get_req_lsa req) (dep_get_cmd_group_addr (cmd_get_req_entry req) s1)
      (cmd_get_req_size req) s1 = Inr s2"
    using True by (simp add: dma_get_def dma_start_def s1_def s2_def tag_valid_def dma_query_avail_def)
  have t: "req_tag s < 32" using tv by (simp add: tag_valid_def id_defs)
  have run2: "running s2 CMD_REQ_HANDLER_ID rest aw"
    using run by (auto simp: running_def core_def s2_def s1_def mfc_start_def tags_ok_def bit_or_iff)
  have bit: "bit (dma_active_tags s2) (req_tag s)" "tag_valid (req_tag s) s2" "req_tag s2 = req_tag s"
    using t tv by (simp_all add: s2_def s1_def mfc_start_def bit_or_iff bit_tag_bit tag_valid_def)
  obtain s3 where s3: "dma_wait_complete (req_tag s) s2 = Inr s3" "sched s3 rest aw" "req_tag s3 = req_tag s2"
    using wait_complete_sched [OF run2 _ bit(2,1)] by (auto simp: id_defs)
  have "req_start s = Inr (s3\<lparr>req_state := 2\<rparr>)"
    using True box get s3 bit(3) by (simp add: req_start_def Let_def flip: s1_def)
  moreover have "sched (s3\<lparr>req_state := 2\<rparr>) rest aw" using s3(2) by (simp add: sched_def core_def)
  ultimately show ?thesis by auto
qed

lemma req_poll_sched:
  assumes run: "running s CMD_REQ_HANDLER_ID rest aw" and "req_state s = 0"
  shows "\<exists>s' q aw'. req_poll s = Inr s' \<and> sched s' q aw' \<and> (req_state s' = 1 \<longrightarrow> in_mbox s' \<noteq> [])"
proof (cases "in_mbox s = []")
  case True
  then show ?thesis using running_sched [OF run] assms(2) by (auto simp: req_poll_def)
next
  case False
  have "running (s\<lparr>req_state := 1\<rparr>) CMD_REQ_HANDLER_ID rest aw" using run by (simp add: running_def core_def)
  from req_start_sched [OF this] False
  obtain s' aw' where "req_start (s\<lparr>req_state := 1\<rparr>) = Inr s'" "sched s' rest aw'" "req_state s' = 1 \<longrightarrow> in_mbox s' \<noteq> []"
    by auto
  then show ?thesis using False by (auto simp: req_poll_def)
qed

lemma req_handler_sched:
  assumes run: "running s CMD_REQ_HANDLER_ID rest aw" and ok: "req_state s = 1 \<longrightarrow> in_mbox s \<noteq> []"
    and shape: "\<forall>a c. ls_commands s a = Some c \<longrightarrow> cmd_shape c" and res: "run_req_handler s = Inr s'"
  shows "\<exists>q aw'. sched s' q aw' \<and> (req_state s' = 1 \<longrightarrow> in_mbox s' \<noteq> [])"
proof -
  have "req_state s \<le> 2" using run by (simp add: running_def core_def)
  then consider "req_state s = 0" | "req_state s = 1" | "req_state s = 2" by linarith
  then show ?thesis
  proof cases
    case 1
    then show ?thesis using req_poll_sched [OF run 1] res by (auto simp: run_req_handler_def)
  next
    case 2
    then show ?thesis using req_start_sched [OF run 2] ok res by (auto simp: run_req_handler_def)
  next
    case 3
    then obtain t where t: "req_add_group s = Inr t" "req_poll t = Inr s'"
      using res by (auto simp: run_req_handler_def res_simps)
    obtain new where "running t CMD_REQ_HANDLER_ID (new @ rest) aw" "req_state t = 0"
      using add_group_running [OF run t(1) shape] by auto
    from req_poll_sched [OF this] show ?thesis using t(2) by auto
  qed
qed

end
