(* ===== verification/Scheduler.thy ===== *)
theory Scheduler
  imports Depend
begin

text \<open>
  What the scheduler of an SPU promises, for any set of command handlers that keep its contract:
  who owns which DMA tag, the contract as a locale, the step relation of an SPU together with its
  environment (the PPU, the MFC), and the abstract specification of the dependency graph that
  \<open>dep_complete_command\<close> and \<open>dep_add_command\<close> implement.
\<close>

section \<open>Ownership of DMA tags\<close>

text \<open>A command owns the tag it reserved in the states between reserving and releasing it.\<close>

fun owned :: "cmd_body \<Rightarrow> nat option" where
  "owned (Load_Data c) = (if ld_state c \<in> {1, 2} then Some (ld_tag c) else None)"
| "owned (Filter_Load c) = (if fl_state c \<in> {1, 2} then Some (fl_tag c) else None)"
| "owned (Filter_Unload c) = (if fu_state c \<in> {1, 2} then Some (fu_tag c) else None)"
| "owned (Dt_Out c) = (if do_state c \<in> {1, 2} then Some (do_tag c) else None)"
| "owned (Dt_Out_Ppu c) = (if dp_state c \<in> {1, 2} then Some (dp_tag c) else None)"
| "owned (Dt_In c) = (if di_state c \<in> {1, 2, 3, 4} then Some (di_tag c) else None)"
| "owned (Filter_Attach c) = None" | "owned (Filter_Run c) = None" | "owned (Buffer_Alloc c) = None"
| "owned (Buffer_Align c) = None" | "owned (Call_Func f) = None" | "owned No_Params = None"

definition holder :: "cmd_table \<Rightarrow> nat \<Rightarrow> nat option" where
  "holder m i = (case kind m i of None \<Rightarrow> None | Some (ty, j, b) \<Rightarrow> if i < 32 then owned b else None)"

text \<open>
  A held tag is not free and not the request handler's, only its owner waits for it, and outside
  the owner's handler (\<open>busy\<close> is the owner that is in its handler) a transfer under it is waited for.
\<close>

definition tags_sep :: "(nat \<Rightarrow> nat option) \<Rightarrow> nat list \<Rightarrow> u32 \<Rightarrow> u32 \<Rightarrow> nat \<Rightarrow> nat option \<Rightarrow> bool" where
  "tags_sep H w active free rt busy \<longleftrightarrow> (\<forall>i t. H i = Some t \<longrightarrow>
       t < 32 \<and> \<not> bit free t \<and> t \<noteq> rt \<and> w ! t \<in> {INVALID_COMMAND_ID, i} \<and> (bit active t \<longrightarrow> w ! t = i \<or> busy = Some i)) \<and>
     (\<forall>i j t. H i = Some t \<longrightarrow> H j = Some t \<longrightarrow> i = j) \<and> (\<forall>t. bit free t \<longrightarrow> \<not> bit active t)"

definition tags_held :: "'a dep_state_scheme \<Rightarrow> nat option \<Rightarrow> bool" where
  "tags_held s = tags_sep (holder (commands s)) (dma_waiting s) (dma_active_tags s) (dma_free_tags s) (req_tag s)"

lemma holder_kind: "kind m' = kind m \<Longrightarrow> holder m' = holder m"
  by (simp add: holder_def fun_eq_iff)

lemma holder_set_next [simp]: "holder (set_next i v m) = holder m"
  by (rule holder_kind) simp

lemma holder_bound: "holder m i = Some t \<Longrightarrow> i < 32"
  by (simp add: holder_def split: option.splits prod.splits if_splits)

lemma tags_sepD:
  assumes "tags_sep H w active free rt busy" "H i = Some t"
  shows "t < 32" "\<not> bit free t" "t \<noteq> rt" "w ! t \<in> {INVALID_COMMAND_ID, i}" "bit active t \<Longrightarrow> w ! t = i \<or> busy = Some i"
    "\<And>j. H j = Some t \<Longrightarrow> i = j"
  using assms by (auto simp: tags_sep_def)

lemma tags_sep_busy: "tags_sep H w active free rt None \<Longrightarrow> tags_sep H w active free rt b"
  by (auto simp: tags_sep_def)

text \<open>The changes a handler and the scheduler make to the tags.\<close>

lemma tags_sepI:
  assumes "\<And>i t. H i = Some t \<Longrightarrow> t < 32 \<and> \<not> bit free t \<and> t \<noteq> rt \<and> w ! t \<in> {INVALID_COMMAND_ID, i}"
    and "\<And>i t. H i = Some t \<Longrightarrow> bit active t \<Longrightarrow> w ! t = i \<or> busy = Some i"
    and "\<And>i j t. H i = Some t \<Longrightarrow> H j = Some t \<Longrightarrow> i = j" and "\<And>t. bit free t \<Longrightarrow> \<not> bit active t"
  shows "tags_sep H w active free rt busy"
  unfolding tags_sep_def using assms by blast

lemma tags_sep_free: "tags_sep H w active free rt b \<Longrightarrow> bit free t \<Longrightarrow> \<not> bit active t"
  by (simp add: tags_sep_def)

lemma tags_sep_drop:
  assumes "tags_sep H w active free rt b" "\<And>i t. H' i = Some t \<Longrightarrow> H i = Some t"
  shows "tags_sep H' w active free rt b"
proof (rule tags_sepI)
  fix i t assume "H' i = Some t"
  note t = tags_sepD [OF assms(1) assms(2) [OF this]]
  then show "t < 32 \<and> \<not> bit free t \<and> t \<noteq> rt \<and> w ! t \<in> {INVALID_COMMAND_ID, i}" by blast
  show "w ! t = i \<or> b = Some i" if "bit active t" using t(5) [OF that] .
  show "i = j" if "H' j = Some t" for j using t(6) [OF assms(2) [OF that]] .
qed (rule tags_sep_free [OF assms(1)])

lemma tags_sep_start:
  assumes "tags_sep H w active free rt b" "H x = Some t" "b = None \<or> b = Some x"
  shows "tags_sep H w (active OR tag_bit t) free rt (Some x)"
proof -
  note t = tags_sepD [OF assms(1,2)]
  have b: "bit (active OR tag_bit t) u \<longleftrightarrow> bit active u \<or> u = t" for u
    using t(1) by (auto simp: bit_or_iff bit_tag_bit)
  show ?thesis
  proof (rule tags_sepI)
    fix i u assume u: "H i = Some u"
    note d = tags_sepD [OF assms(1) u]
    show "u < 32 \<and> \<not> bit free u \<and> u \<noteq> rt \<and> w ! u \<in> {INVALID_COMMAND_ID, i}" using d by blast
    show "w ! u = i \<or> Some x = Some i" if "bit (active OR tag_bit t) u"
    proof (cases "u = t")
      case True
      then show ?thesis using u assms(2) t(6) by blast
    next
      case False
      then show ?thesis using that b d(5) assms(3) by auto
    qed
    show "i = j" if "H j = Some u" for j using d(6) [OF that] .
  next
    fix u assume "bit free u"
    then show "\<not> bit (active OR tag_bit t) u" using b tags_sep_free [OF assms(1)] t(2) by auto
  qed
qed

lemma tags_sep_wait:
  assumes "tags_sep H w active free rt b" "H x = Some t" "b = None \<or> b = Some x" "length w = 32"
  shows "tags_sep H (w[t := x]) active free rt None"
proof -
  note t = tags_sepD [OF assms(1,2)]
  have n: "w[t := x] ! u = (if u = t then x else w ! u)" for u using t(1) assms(4) by (simp add: nth_list_update)
  show ?thesis
  proof (rule tags_sepI)
    fix i u assume u: "H i = Some u"
    note d = tags_sepD [OF assms(1) u]
    have e: "u = t \<longleftrightarrow> i = x" using u t(6) [of i] assms(2) by fastforce
    show "u < 32 \<and> \<not> bit free u \<and> u \<noteq> rt \<and> w[t := x] ! u \<in> {INVALID_COMMAND_ID, i}"
      using d(1-4) e n by (cases "u = t") simp_all
    show "w[t := x] ! u = i \<or> None = Some i" if "bit active u" using d(5) [OF that] assms(3) e n by (cases "u = t") auto
    show "i = j" if "H j = Some u" for j using d(6) [OF that] .
  qed (rule tags_sep_free [OF assms(1)])
qed

lemma tags_sep_finish:
  assumes "tags_sep H w active free rt b" "b = None \<or> b = Some x"
  shows "tags_sep (H(x := None)) w active free rt None"
proof (rule tags_sepI)
  fix i t assume "(H(x := None)) i = Some t"
  then have i: "H i = Some t" "i \<noteq> x" by (auto split: if_splits)
  note d = tags_sepD [OF assms(1) i(1)]
  show "t < 32 \<and> \<not> bit free t \<and> t \<noteq> rt \<and> w ! t \<in> {INVALID_COMMAND_ID, i}" using d by blast
  show "w ! t = i \<or> None = Some i" if "bit active t" using d(5) [OF that] assms(2) i(2) by auto
  show "i = j" if "(H(x := None)) j = Some t" for j using d(6) that by (auto split: if_splits)
qed (rule tags_sep_free [OF assms(1)])

lemma tags_sep_reserve:
  assumes "tags_sep H w active free rt None" "bit free t" "t < 32" "t \<noteq> rt" "w ! t = INVALID_COMMAND_ID"
  shows "tags_sep (H(x := Some t)) w active (free AND NOT (tag_bit t)) rt None"
proof -
  have b: "bit (free AND NOT (tag_bit t)) u \<longleftrightarrow> bit free u \<and> u \<noteq> t" for u
    using assms(3) by (auto simp: bit_and_iff bit_not_iff bit_tag_bit dest: bit_imp_le_length)
  have t: "\<not> bit active t" "H i \<noteq> Some t" for i
    using tags_sep_free [OF assms(1)] tags_sepD(2) [OF assms(1)] assms(2) by blast+
  show ?thesis
  proof (rule tags_sepI)
    fix i u assume u: "(H(x := Some t)) i = Some u"
    show "u < 32 \<and> \<not> bit (free AND NOT (tag_bit t)) u \<and> u \<noteq> rt \<and> w ! u \<in> {INVALID_COMMAND_ID, i}"
    proof (cases "i = x")
      case True
      then show ?thesis using u assms b by auto
    next
      case False
      then have "H i = Some u" using u by simp
      from tags_sepD [OF assms(1) this] show ?thesis using b by blast
    qed
    show "w ! u = i \<or> None = Some i" if "bit active u"
      using u that t(1) tags_sepD(5) [OF assms(1), of i u] by (auto split: if_splits)
    show "i = j" if "(H(x := Some t)) j = Some u" for j
      using u that t(2) tags_sepD(6) [OF assms(1), of i u j] by (auto split: if_splits)
  next
    fix u assume "bit (free AND NOT (tag_bit t)) u"
    then show "\<not> bit active u" using b tags_sep_free [OF assms(1)] by blast
  qed
qed

lemma tags_sep_release:
  assumes "tags_sep H w active free rt None" "H x = Some t" "\<not> bit active t"
  shows "tags_sep (H(x := None)) w active (free OR tag_bit t) rt None"
proof -
  note t = tags_sepD [OF assms(1,2)]
  have b: "bit (free OR tag_bit t) u \<longleftrightarrow> bit free u \<or> u = t" for u
    using t(1) by (auto simp: bit_or_iff bit_tag_bit)
  show ?thesis
  proof (rule tags_sepI)
    fix i u assume "(H(x := None)) i = Some u"
    then have i: "H i = Some u" "i \<noteq> x" by (auto split: if_splits)
    note d = tags_sepD [OF assms(1) i(1)]
    have "u \<noteq> t" using i t(6) by blast
    then show "u < 32 \<and> \<not> bit (free OR tag_bit t) u \<and> u \<noteq> rt \<and> w ! u \<in> {INVALID_COMMAND_ID, i}" using d b by blast
    show "w ! u = i \<or> None = Some i" if "bit active u" using d(5) [OF that] .
    show "i = j" if "(H(x := None)) j = Some u" for j using d(6) that by (auto split: if_splits)
  next
    fix u assume "bit (free OR tag_bit t) u"
    then show "\<not> bit active u" using b tags_sep_free [OF assms(1)] assms(3) by blast
  qed
qed

lemma tags_sep_request:
  assumes "tags_sep H w active free rt None" "rt < 32" "\<not> bit free rt" "length w = 32"
  shows "tags_sep H (w[rt := v]) (active OR tag_bit rt) free rt None"
proof -
  have b: "bit (active OR tag_bit rt) u \<longleftrightarrow> bit active u \<or> u = rt" for u
    using assms(2) by (auto simp: bit_or_iff bit_tag_bit)
  show ?thesis
  proof (rule tags_sepI)
    fix i u assume u: "H i = Some u"
    note d = tags_sepD [OF assms(1) u]
    have n: "w[rt := v] ! u = w ! u" using d(3) by (metis nth_list_update_neq)
    show "u < 32 \<and> \<not> bit free u \<and> u \<noteq> rt \<and> w[rt := v] ! u \<in> {INVALID_COMMAND_ID, i}"
      unfolding n using d by blast
    show "w[rt := v] ! u = i \<or> None = Some i" if "bit (active OR tag_bit rt) u" using d(3,5) that b n by auto
    show "i = j" if "H j = Some u" for j using d(6) [OF that] .
  next
    fix u assume "bit free u"
    then show "\<not> bit (active OR tag_bit rt) u" using b tags_sep_free [OF assms(1)] assms(3) by blast
  qed
qed

lemma tags_sep_worker:
  assumes "tags_sep H w active free rt None" "length w = 32"
  shows "tags_sep H (cleared w (tags_of c)) (active AND NOT c) free rt None"
proof -
  have b: "bit (active AND NOT c) u \<longleftrightarrow> bit active u \<and> \<not> bit c u" for u
    by (auto simp: bit_and_iff bit_not_iff dest: bit_imp_le_length)
  have n: "cleared w (tags_of c) ! u = (if bit c u then INVALID_COMMAND_ID else w ! u)" if "u < 32" for u
    using that assms(2) by (simp add: tags_of_def)
  show ?thesis
  proof (rule tags_sepI)
    fix i u assume u: "H i = Some u"
    note d = tags_sepD [OF assms(1) u]
    show "u < 32 \<and> \<not> bit free u \<and> u \<noteq> rt \<and> cleared w (tags_of c) ! u \<in> {INVALID_COMMAND_ID, i}"
      using d n [OF d(1)] by auto
    show "cleared w (tags_of c) ! u = i \<or> None = Some i" if "bit (active AND NOT c) u"
      using d(5) that b n [OF d(1)] by auto
    show "i = j" if "H j = Some u" for j using d(6) [OF that] .
  next
    fix u assume "bit free u"
    then show "\<not> bit (active AND NOT c) u" using b tags_sep_free [OF assms(1)] by blast
  qed
qed

section \<open>What the parts of a step leave alone\<close>

lemma store_next_frame:
  assumes "store_next p v s = Inr s'"
  shows "\<exists>m a. s' = s\<lparr>commands := m, dma_waiting_avail := a\<rparr> \<and> same_but_next (commands s) m \<and> backs m = backs (commands s)"
proof (cases p)
  case WaitHead
  then show ?thesis using assms
    by (intro exI [of _ "commands s"] exI [of _ v]) (simp add: same_but_next_def)
next
  case (NextOf i)
  then obtain c where c: "i < 34" "commands s i = Some c"
    using assms by (auto simp: get_command_def res_simps)
  then have "store_next p v s = Inr (s\<lparr>commands := set_next i v (commands s)\<rparr>)"
    using NextOf by (simp only: store_next_NextOf option.distinct not_False_eq_True)
  then show ?thesis using assms
    by (intro exI [of _ "set_next i v (commands s)"] exI [of _ "dma_waiting_avail s"]) (auto simp: same_but_next_def)
qed

section \<open>The rules for a handler\<close>

text \<open>A handler stores the parameters of its command, which are its own state.\<close>

definition set_body :: "nat \<Rightarrow> cmd_body \<Rightarrow> 'a dep_state_scheme \<Rightarrow> 'a dep_state_scheme" where
  "set_body i b s = s\<lparr>commands := (commands s)(i := map_option (c_body_update (\<lambda>_. b)) (commands s i))\<rparr>"

definition body_table :: "nat \<Rightarrow> cmd_body \<Rightarrow> cmd_table \<Rightarrow> cmd_table" where
  "body_table i b m = m(i := map_option (c_body_update (\<lambda>_. b)) (m i))"

lemma set_body_eq: "set_body i b s = s\<lparr>commands := body_table i b (commands s)\<rparr>"
  by (simp add: set_body_def body_table_def)

lemma body_views [simp]:
  "nx (body_table i b m) = nx m" "backs (body_table i b m) = backs m" "fwds (body_table i b m) = fwds m"
  "fits (body_table i b m) = fits m" "body_table i b m j = None \<longleftrightarrow> m j = None"
  by (auto simp: body_table_def view_defs fun_eq_iff option.map_comp comp_def split: option.split)

lemma kind_body: "kind (body_table i b m) = (kind m)(i := map_option (\<lambda>(ty, j, _). (ty, j, b)) (kind m i))"
  by (auto simp: body_table_def kind_def fun_eq_iff option.map_comp comp_def)

lemma body_tables [simp]:
  "ready (body_table i b m) = ready m" "kinds_ok (body_table i b m) = kinds_ok m" "graph_ok (body_table i b m) = graph_ok m"
proof -
  show "ready (body_table i b m) = ready m" "graph_ok (body_table i b m) = graph_ok m"
    by (simp_all add: ready_def graph_ok_def)
  have "(\<exists>c. kind (body_table i b m) j = Some (ty, k, c)) \<longleftrightarrow> (\<exists>c. kind m j = Some (ty, k, c))" for j ty k
    by (auto simp: kind_body split: option.splits)
  then show "kinds_ok (body_table i b m) = kinds_ok m" unfolding kinds_ok_def by blast
qed

lemma holder_body: "i < 32 \<Longrightarrow> m i \<noteq> None \<Longrightarrow> holder (body_table i b m) = (holder m)(i := owned b)"
  by (auto simp: holder_def kind_body fun_eq_iff kind_None split: option.splits)

definition same_env :: "'a dep_state_scheme \<Rightarrow> 'b dep_state_scheme \<Rightarrow> bool" where
  "same_env s s' \<longleftrightarrow> req_state s' = req_state s \<and> in_mbox s' = in_mbox s \<and> ls_commands s' = ls_commands s \<and> req_tag s' = req_tag s"

text \<open>\<open>s\<close> is a state inside the handler of command \<open>x\<close>, which was entered in \<open>s0\<close>.\<close>

definition handling :: "'a dep_state_scheme \<Rightarrow> 'a dep_state_scheme \<Rightarrow> nat \<Rightarrow> nat list \<Rightarrow> nat list \<Rightarrow> nat option \<Rightarrow> bool" where
  "handling s0 s x rest aw busy \<longleftrightarrow> running s x rest aw \<and> x < 32 \<and> tags_held s busy \<and> same_env s0 s \<and> commands s x \<noteq> None"

definition left :: "'a dep_state_scheme \<Rightarrow> 'a dep_state_scheme \<Rightarrow> bool" where
  "left s0 s \<longleftrightarrow> (\<exists>queue aw. sched s queue aw) \<and> tags_held s None \<and> same_env s0 s"

definition ends_in :: "fault set \<Rightarrow> 'a dep_state_scheme \<Rightarrow> 'a dep_state_scheme res \<Rightarrow> bool" where
  "ends_in E s0 r \<longleftrightarrow> (case r of Inl e \<Rightarrow> e \<in> E | Inr s' \<Rightarrow> left s0 s')"

definition holds :: "'a dep_state_scheme \<Rightarrow> nat \<Rightarrow> nat \<Rightarrow> bool" where
  "holds s x t \<longleftrightarrow> holder (commands s) x = Some t"

lemma holds_owned: "commands s x = Some c \<Longrightarrow> x < 32 \<Longrightarrow> holds s x t \<longleftrightarrow> owned (c_body c) = Some t"
  by (simp add: holds_def holder_def kind_def)

lemma core_body [simp]: "core (set_body i b s) queue aw = core s queue aw"
  by (simp add: set_body_eq core_def)

lemma running_body [simp]: "running (set_body i b s) x rest aw = running s x rest aw"
  by (simp add: running_def) (simp add: set_body_eq)

lemma sched_body [simp]: "sched (set_body i b s) queue aw = sched s queue aw"
  by (simp add: sched_def) (simp add: set_body_eq)

lemma set_body_fields [simp]:
  "dma_waiting (set_body i b s) = dma_waiting s" "dma_active_tags (set_body i b s) = dma_active_tags s"
  "dma_free_tags (set_body i b s) = dma_free_tags s" "req_tag (set_body i b s) = req_tag s"
  "mfc_slots (set_body i b s) = mfc_slots s" "dep_cur_id (set_body i b s) = dep_cur_id s"
  "commands (set_body i b s) j = None \<longleftrightarrow> commands s j = None" "tag_valid t (set_body i b s) = tag_valid t s"
  "same_env s0 (set_body i b s) = same_env s0 s" "dma_query_avail n (set_body i b s) = dma_query_avail n s"
  by (simp_all add: set_body_eq tag_valid_def same_env_def dma_query_avail_def)

lemma tags_held_body: "i < 32 \<Longrightarrow> commands s i \<noteq> None \<Longrightarrow> tags_held (set_body i b s) busy =
    tags_sep ((holder (commands s))(i := owned b)) (dma_waiting s) (dma_active_tags s) (dma_free_tags s) (req_tag s) busy"
  by (simp add: tags_held_def) (simp add: set_body_eq holder_body)

text \<open>Storing parameters that own the same tag.\<close>

lemma handling_body:
  assumes "handling s0 s x rest aw busy" "owned b = holder (commands s) x"
  shows "handling s0 (set_body x b s) x rest aw busy"
proof -
  have "(holder (commands s))(x := owned b) = holder (commands s)" using assms(2) by (simp add: fun_eq_iff)
  then show ?thesis using assms(1) by (simp add: handling_def tags_held_body) (simp add: tags_held_def)
qed

lemma handling_return: "handling s0 s x rest aw None \<Longrightarrow> left s0 s"
  unfolding handling_def left_def using running_sched by blast

lemma handling_start: "running s x rest aw \<Longrightarrow> x < 32 \<Longrightarrow> tags_held s None \<Longrightarrow> commands s x \<noteq> None \<Longrightarrow> handling s s x rest aw None"
  by (simp add: handling_def same_env_def)

text \<open>A tag that the command in its handler holds can be used: no command waits for it.\<close>

lemma held_tag:
  assumes h: "handling s0 s x rest aw busy" and t: "holds s x t"
  shows "tag_valid t s" "t < 32" "t \<noteq> req_tag s" "dma_waiting s ! t = INVALID_COMMAND_ID" "\<not> bit (dma_free_tags s) t"
    "length (dma_waiting s) = 32" "busy = None \<Longrightarrow> \<not> bit (dma_active_tags s) t"
proof -
  have sep: "tags_sep (holder (commands s)) (dma_waiting s) (dma_active_tags s) (dma_free_tags s) (req_tag s) busy"
    using h by (simp add: handling_def tags_held_def)
  note d = tags_sepD [OF sep t [unfolded holds_def]]
  have core: "core s (x # rest) aw" "x < 32" using h by (simp_all add: handling_def running_def)
  then have len: "length (dma_waiting s) = 32" by (simp add: core_def tags_ok_def)
  have "x \<notin> set (waits (dma_waiting s))" using core(1) by (auto simp: core_def simp del: waits_set)
  then have "x \<notin> set (dma_waiting s)" using core(2) by (simp add: id_defs)
  moreover have "dma_waiting s ! t \<in> set (dma_waiting s)" using d(1) len by simp
  ultimately have nx: "dma_waiting s ! t \<noteq> x" by metis
  show "t < 32" "t \<noteq> req_tag s" "\<not> bit (dma_free_tags s) t" "length (dma_waiting s) = 32" using d len by simp_all
  show w: "dma_waiting s ! t = INVALID_COMMAND_ID" using d(4) nx by simp
  then show "tag_valid t s" using d len by (simp add: tag_valid_def and_tag_bit id_defs)
  show "\<not> bit (dma_active_tags s) t" if "busy = None" using that d(5) nx by auto
qed

lemma dma_start_handling:
  assumes h: "handling s0 s x rest aw busy" and t: "holds s x t" and b: "busy = None \<or> busy = Some x" and av: "dma_query_avail 1 s"
  shows "\<exists>s'. dma_start t oper s = Inr s' \<and> handling s0 s' x rest aw (Some x) \<and> bit (dma_active_tags s') t \<and>
    s' = mfc_start t oper (s\<lparr>dma_active_tags := dma_active_tags s OR tag_bit t\<rparr>)"
proof -
  note d = held_tag [OF h t]
  let ?s = "mfc_start t oper (s\<lparr>dma_active_tags := dma_active_tags s OR tag_bit t\<rparr>)"
  have sep: "tags_sep (holder (commands s)) (dma_waiting s) (dma_active_tags s) (dma_free_tags s) (req_tag s) busy"
    using h by (simp add: handling_def tags_held_def)
  have "running ?s x rest aw"
    using h by (auto simp: handling_def running_def core_def mfc_start_def tags_ok_def bit_or_iff)
  moreover have "tags_held ?s (Some x)"
    using tags_sep_start [OF sep t [unfolded holds_def] b] by (simp add: tags_held_def mfc_start_def)
  ultimately have "handling s0 ?s x rest aw (Some x)" using h by (simp add: handling_def mfc_start_def same_env_def)
  moreover have "dma_start t oper s = Inr ?s" using d(1) av by (simp add: dma_start_def)
  moreover have "bit (dma_active_tags ?s) t" using d(2) by (simp add: mfc_start_def bit_or_iff bit_tag_bit)
  ultimately show ?thesis by blast
qed

lemma wait_complete_left:
  assumes h: "handling s0 s x rest aw (Some x)" and t: "holds s x t" "bit (dma_active_tags s) t"
  shows "\<exists>s'. dma_wait_complete t s = Inr s' \<and> left s0 s' \<and> dep_cur_id s' = x \<and> holder (commands s') = holder (commands s) \<and>
     s' = s\<lparr>dep_dequeued := True, commands := set_next (last rest) (hd rest) (commands s),
        dep_next_ptr := NextOf (last rest), dma_waiting := (dma_waiting s)[t := x]\<rparr>"
proof -
  note d = held_tag [OF h t(1)]
  have run: "running s x rest aw" "x < 32" using h by (simp_all add: handling_def)
  have x: "x \<noteq> CMD_WORKER_ID" using run(2) by (simp add: id_defs)
  obtain s' where s': "dma_wait_complete t s = Inr s'" "sched s' rest aw"
    "s' = s\<lparr>dep_dequeued := True, commands := set_next (last rest) (hd rest) (commands s),
        dep_next_ptr := NextOf (last rest), dma_waiting := (dma_waiting s)[t := x]\<rparr>"
    using wait_complete_sched [OF run(1) x d(1) t(2)] d(3) by blast
  have sep: "tags_sep (holder (commands s)) (dma_waiting s) (dma_active_tags s) (dma_free_tags s) (req_tag s) (Some x)"
    using h by (simp add: handling_def tags_held_def)
  have "tags_held s' None"
    using tags_sep_wait [OF sep t(1) [unfolded holds_def] _ d(6)] by (simp add: s'(3) tags_held_def)
  then have "left s0 s'" using s'(2,3) h by (auto simp: left_def handling_def same_env_def)
  moreover have "dep_cur_id s' = x" using run(1) by (simp add: s'(3) running_def)
  ultimately show ?thesis using s'(1,3) by (simp add: s'(3))
qed

lemma wait_avail_kept:
  assumes h: "handling s0 s x rest aw None"
  shows "\<exists>s' m a p q. dma_wait_avail s = Inr s' \<and> left s0 s' \<and> same_but_next (commands s) m \<and>
    s' = s\<lparr>dep_dequeued := True, commands := m, dma_waiting_avail := a, dma_waiting_avail_ptr := p, dep_next_ptr := q\<rparr>"
proof -
  have run: "running s x rest aw" "x \<noteq> CMD_WORKER_ID" using h by (auto simp: handling_def id_defs)
  obtain m s' where s': "dma_wait_avail s = Inr s'" "sched s' rest (aw @ [x])"
    "s' = s\<lparr>dep_dequeued := True, commands := m, dma_waiting_avail := hd (aw @ [x]),
      dma_waiting_avail_ptr := NextOf x, dep_next_ptr := NextOf (last rest)\<rparr>"
    using wait_avail_sched [OF run] by blast
  obtain n1 t where n1: "store_next (dep_cur_ptr s) n1 (s\<lparr>dep_dequeued := True\<rparr>) = Inr t"
    and rest: "rbind (store_next (dep_next_ptr t) INVALID_COMMAND_ID t) (\<lambda>s.
      rbind (store_next (dma_waiting_avail_ptr s) (dep_cur_id s) s) (\<lambda>s.
        Inr (s\<lparr>dma_waiting_avail_ptr := dep_next_ptr s, dep_next_ptr := dep_cur_ptr s\<rparr>))) = Inr s'"
    using s'(1) by (auto simp: dma_wait_avail_def res_simps)
  then obtain u v where u: "store_next (dep_next_ptr t) INVALID_COMMAND_ID t = Inr u"
    "store_next (dma_waiting_avail_ptr u) (dep_cur_id u) u = Inr v" "commands s' = commands v"
    by (auto simp: res_simps)
  have m: "same_but_next (commands s) (commands s')"
    using store_next_frame [OF n1] store_next_frame [OF u(1)] store_next_frame [OF u(2)] u(3)
    by (auto simp: same_but_next_def)
  have "holder (commands s') = holder (commands s)" using m by (intro holder_kind) (simp add: same_but_next_def)
  then have "tags_held s' None" using h by (simp add: handling_def tags_held_def s'(3))
  then have "left s0 s'" using s' h by (auto simp: left_def handling_def same_env_def)
  moreover have "commands s' = m" by (simp add: s'(3))
  ultimately show ?thesis using s'(1,3) m by blast
qed

lemma wait_avail_left: "handling s0 s x rest aw None \<Longrightarrow> \<exists>s'. dma_wait_avail s = Inr s' \<and> left s0 s'"
  using wait_avail_kept by blast

lemma reserve_handling:
  assumes h: "handling s0 s x rest aw None" and r: "dma_reserve_tag s = Inr (t, s')" and b: "owned b = Some t"
  shows "handling s0 (set_body x b s') x rest aw None" "holds (set_body x b s') x t"
    "s' = s\<lparr>dma_free_tags := dma_free_tags s AND NOT (tag_bit t)\<rparr>" "handling s0 s' x rest aw None"
proof -
  have run: "running s x rest aw" "x < 32" "commands s x \<noteq> None" using h by (simp_all add: handling_def)
  have z: "count_ls_zeros (dma_free_tags s) = Inr t" and
    s': "s' = s\<lparr>dma_free_tags := dma_free_tags s AND NOT (tag_bit t)\<rparr>"
    using r by (auto simp: dma_reserve_tag_def res_simps)
  have t: "bit (dma_free_tags s) t" "t < 32" using count_ls_zeros_bit [OF z] by simp_all
  have ok: "tags_ok (dma_waiting s) (dma_active_tags s) (dma_free_tags s) (req_tag s)"
    using run(1) by (simp add: running_def core_def)
  have w: "dma_waiting s ! t = INVALID_COMMAND_ID" "t \<noteq> req_tag s" using ok t by (auto simp: tags_ok_def)
  have sep: "tags_sep (holder (commands s)) (dma_waiting s) (dma_active_tags s) (dma_free_tags s) (req_tag s) None"
    using h by (simp add: handling_def tags_held_def)
  have run': "running s' x rest aw"
    using run(1) by (auto simp: s' running_def core_def tags_ok_def bit_and_iff)
  have "tags_held (set_body x b s') None"
    using tags_sep_reserve [OF sep t(1,2) w(2,1)] run(2,3) b by (simp add: tags_held_body s')
  then show "handling s0 (set_body x b s') x rest aw None" using h run' by (simp add: handling_def s') (simp add: same_env_def)
  show "holds (set_body x b s') x t" using run(2,3) b by (simp add: holds_def s' set_body_eq holder_body)
  show "s' = s\<lparr>dma_free_tags := dma_free_tags s AND NOT (tag_bit t)\<rparr>" by (rule s')
  have "tags_held s' None" using sep by (auto simp: tags_held_def s' tags_sep_def bit_and_iff)
  then show "handling s0 s' x rest aw None" using h run' by (simp add: handling_def s' same_env_def)
qed

lemma reserve_fault: "handling s0 s x rest aw None \<Longrightarrow> dma_reserve_tag s = Inl e \<Longrightarrow> e = CheckFail"
proof -
  assume "dma_reserve_tag s = Inl e"
  then have "\<exists>t. count_ls_zeros (dma_free_tags s) = Inr t \<or> e = CheckFail"
    by (auto simp: dma_reserve_tag_def count_ls_zeros_def ensure_def split: if_splits)
  then show ?thesis using \<open>dma_reserve_tag s = Inl e\<close> by (auto simp: dma_reserve_tag_def ensure_def split: if_splits)
qed

lemma complete_left_sep:
  assumes run: "running s x rest aw" "x < 32" and env: "same_env s0 s"
    and sep: "tags_sep ((holder (commands s))(x := None)) (dma_waiting s) (dma_active_tags s) (dma_free_tags s) (req_tag s) None"
  shows "\<exists>s'. dep_complete_command s = Inr s' \<and> left s0 s' \<and> commands s' x = None"
proof -
  obtain m where m: "dep_complete_command s = Inr (notify_ppu (s\<lparr>dep_dequeued := True, dep_next_ptr := NextOf (last rest),
      commands := m(x := None), dep_completed_mask := dep_completed_mask s OR tag_bit x\<rparr>))" (is "_ = Inr ?s")
    "sched (notify_ppu (s\<lparr>dep_dequeued := True, dep_next_ptr := NextOf (last rest),
      commands := m(x := None), dep_completed_mask := dep_completed_mask s OR tag_bit x\<rparr>))
      (rev (freed (commands s) (fwds (commands s) x)) @ rest) aw" "same_but_next (commands s) m"
    using complete_sched [OF run] by blast
  have k: "holder (m(x := None)) = (holder (commands s))(x := None)"
    using m(3) by (simp add: holder_def same_but_next_def remove_views fun_eq_iff)
  have f: "tags_held (notify_ppu t) b = tags_held t b" "same_env s0 (notify_ppu t) = same_env s0 t" for t :: "'a dep_state_scheme" and b
    by (simp_all add: notify_ppu_def tags_held_def same_env_def)
  have "tags_held ?s None" unfolding f using sep by (simp add: tags_held_def k)
  moreover have "same_env s0 ?s" unfolding f using env by (simp add: same_env_def)
  ultimately have "left s0 ?s" using m(2) unfolding left_def by blast
  moreover have "commands ?s x = None" by simp
  ultimately show ?thesis using m(1) by blast
qed

lemma complete_left:
  assumes h: "handling s0 s x rest aw busy" and b: "busy = None \<or> busy = Some x"
  shows "\<exists>s'. dep_complete_command s = Inr s' \<and> left s0 s' \<and> commands s' x = None"
proof -
  have "running s x rest aw" "x < 32" "same_env s0 s"
    "tags_sep (holder (commands s)) (dma_waiting s) (dma_active_tags s) (dma_free_tags s) (req_tag s) busy"
    using h by (simp_all add: handling_def tags_held_def)
  from complete_left_sep [OF this(1,2,3) tags_sep_finish [OF this(4) b]] show ?thesis .
qed

text \<open>Releasing the held tag, when no transfer under it is on its way, before the command's end or
  before its state changes to one that owns no tag.\<close>

lemma release_handling:
  assumes h: "handling s0 s x rest aw None" and t: "holds s x t" and b: "owned b = None"
  shows "\<exists>s'. dma_release_tag t s = Inr s' \<and> handling s0 (set_body x b s') x rest aw None \<and>
    s' = s\<lparr>dma_free_tags := dma_free_tags s OR tag_bit t\<rparr>"
proof -
  note d = held_tag [OF h t]
  let ?s = "s\<lparr>dma_free_tags := dma_free_tags s OR tag_bit t\<rparr>"
  have run: "running s x rest aw" "x < 32" "commands s x \<noteq> None" using h by (simp_all add: handling_def)
  have rel: "dma_release_tag t s = Inr ?s"
    using d(1,7) by (simp add: dma_release_tag_def dma_query_complete_def and_tag_bit)
  have bits: "bit (dma_free_tags s OR tag_bit t) u \<longleftrightarrow> bit (dma_free_tags s) u \<or> u = t" for u
    using d(2) by (auto simp: bit_or_iff bit_tag_bit)
  have ok: "tags_ok (dma_waiting s) (dma_active_tags s) (dma_free_tags s) (req_tag s)"
    using run(1) by (simp add: running_def core_def)
  have "tags_ok (dma_waiting s) (dma_active_tags s) (dma_free_tags s OR tag_bit t) (req_tag s)"
    using ok d(3,4) by (simp add: tags_ok_def bits) metis
  then have run': "running ?s x rest aw" using run(1) by (simp add: running_def core_def)
  have sep: "tags_sep (holder (commands s)) (dma_waiting s) (dma_active_tags s) (dma_free_tags s) (req_tag s) None"
    using h by (simp add: handling_def tags_held_def)
  have "tags_held (set_body x b ?s) None"
    using tags_sep_release [OF sep t [unfolded holds_def] d(7)] run(2,3) b by (simp add: tags_held_body)
  then have "handling s0 (set_body x b ?s) x rest aw None" using h run' by (simp add: handling_def) (simp add: same_env_def)
  then show ?thesis using rel by blast
qed

lemma release_complete_left:
  assumes h: "handling s0 s x rest aw None" and t: "holds s x t"
  shows "\<exists>s'. rbind (dma_release_tag t s) dep_complete_command = Inr s' \<and> left s0 s' \<and> commands s' x = None"
proof -
  note d = held_tag [OF h t]
  obtain s1 where s1: "dma_release_tag t s = Inr s1" "handling s0 (set_body x No_Params s1) x rest aw None"
    using release_handling [OF h t, of No_Params] by auto
  then have "running s1 x rest aw" "x < 32" "commands s1 x \<noteq> None" "same_env s0 s1"
    "tags_sep ((holder (commands s1))(x := None)) (dma_waiting s1) (dma_active_tags s1) (dma_free_tags s1) (req_tag s1) None"
    by (auto simp: handling_def tags_held_body)
  from complete_left_sep [OF this(1,2,4,5)] show ?thesis using s1(1) by simp
qed

section \<open>The internal commands and the tags\<close>

lemma wait_avail_frame:
  assumes "dma_wait_avail s = Inr s'"
  shows "same_but_next (commands s) (commands s') \<and> dma_waiting s' = dma_waiting s \<and> dma_active_tags s' = dma_active_tags s \<and>
    dma_free_tags s' = dma_free_tags s \<and> req_tag s' = req_tag s \<and> ls_commands s' = ls_commands s"
proof -
  obtain n1 t u v where "store_next (dep_cur_ptr s) n1 (s\<lparr>dep_dequeued := True\<rparr>) = Inr t"
    "store_next (dep_next_ptr t) INVALID_COMMAND_ID t = Inr u" "store_next (dma_waiting_avail_ptr u) (dep_cur_id u) u = Inr v"
    "s' = v\<lparr>dma_waiting_avail_ptr := dep_next_ptr v, dep_next_ptr := dep_cur_ptr v\<rparr>"
    using assms by (auto simp: dma_wait_avail_def res_simps)
  then show ?thesis
    using store_next_frame [of "dep_cur_ptr s" n1 "s\<lparr>dep_dequeued := True\<rparr>" t] store_next_frame [of "dep_next_ptr t" INVALID_COMMAND_ID t u]
      store_next_frame [of "dma_waiting_avail_ptr u" "dep_cur_id u" u v]
    by (auto simp: same_but_next_def)
qed

lemma wait_complete_frame:
  assumes "dma_wait_complete t s = Inr s'"
  shows "same_but_next (commands s) (commands s') \<and> (dma_waiting s' = dma_waiting s \<or> dma_waiting s' = (dma_waiting s)[t := dep_cur_id s]) \<and>
    dma_active_tags s' = dma_active_tags s \<and> dma_free_tags s' = dma_free_tags s \<and> req_tag s' = req_tag s \<and> ls_commands s' = ls_commands s"
proof (cases "s' = s")
  case True
  then show ?thesis by (simp add: same_but_next_def)
next
  case False
  then obtain n1 u where "store_next (dep_cur_ptr s) n1 (s\<lparr>dep_dequeued := True\<rparr>) = Inr u"
    "s' = u\<lparr>dep_next_ptr := dep_cur_ptr u, dma_waiting := (dma_waiting u)[t := dep_cur_id u]\<rparr>"
    using assms by (auto simp: dma_wait_complete_def res_simps split: if_splits)
  then show ?thesis using store_next_frame [of "dep_cur_ptr s" n1 "s\<lparr>dep_dequeued := True\<rparr>" u] by auto
qed

lemma tags_held_same:
  assumes "same_but_next (commands s) (commands s')" "dma_waiting s' = dma_waiting s" "dma_active_tags s' = dma_active_tags s"
    "dma_free_tags s' = dma_free_tags s" "req_tag s' = req_tag s"
  shows "tags_held s' b = tags_held s b"
proof -
  have "holder (commands s') = holder (commands s)" using assms(1) by (intro holder_kind) (simp add: same_but_next_def)
  then show ?thesis using assms by (simp add: tags_held_def)
qed

lemma req_start_held:
  assumes run: "running s CMD_REQ_HANDLER_ID rest aw" and held: "tags_held s None" and res: "req_start s = Inr s'"
  shows "tags_held s' None \<and> ls_commands s' = ls_commands s"
proof (cases "dma_query_avail 1 s")
  case False
  then have "dma_wait_avail s = Inr s'" using res by (simp add: req_start_def)
  from wait_avail_frame [OF this] show ?thesis using held tags_held_same by metis
next
  case True
  obtain req reqs where box: "in_mbox s = req # reqs"
    using res True by (cases "in_mbox s") (auto simp: req_start_def)
  let ?s1 = "s\<lparr>in_mbox := reqs, req_lsa := cmd_get_req_lsa req, req_bytes := cmd_get_req_size req\<rparr>"
  obtain s2 s3 where get: "dma_get (req_tag s) (cmd_get_req_lsa req) (dep_get_cmd_group_addr (cmd_get_req_entry req) ?s1)
      (cmd_get_req_size req) ?s1 = Inr s2" and wait: "dma_wait_complete (req_tag s2) s2 = Inr s3"
    and s': "s' = s3\<lparr>req_state := 2\<rparr>"
    using res True box by (auto simp: req_start_def Let_def res_simps)
  have s2: "commands s2 = commands s" "dma_waiting s2 = dma_waiting s" "dma_active_tags s2 = dma_active_tags s OR tag_bit (req_tag s)"
    "dma_free_tags s2 = dma_free_tags s" "req_tag s2 = req_tag s" "ls_commands s2 = ls_commands s"
    using get by (auto simp: dma_get_def dma_start_def mfc_start_def res_simps)
  have ok: "req_tag s < 32" "\<not> bit (dma_free_tags s) (req_tag s)" "length (dma_waiting s) = 32"
    using run by (simp_all add: running_def core_def tags_ok_def)
  have sep: "tags_sep (holder (commands s)) (dma_waiting s) (dma_active_tags s) (dma_free_tags s) (req_tag s) None"
    using held by (simp add: tags_held_def)
  note f = wait_complete_frame [OF wait]
  have "holder (commands s3) = holder (commands s)"
    using f s2(1) by (intro holder_kind) (simp add: same_but_next_def)
  moreover have "tags_sep (holder (commands s)) (dma_waiting s3) (dma_active_tags s OR tag_bit (req_tag s)) (dma_free_tags s) (req_tag s) None"
    using f tags_sep_request [OF sep ok, of "dep_cur_id s2"] tags_sep_request [OF sep ok, of "dma_waiting s ! req_tag s"]
    by (auto simp: s2)
  ultimately show ?thesis using f by (simp add: s' tags_held_def s2)
qed

lemma req_poll_held:
  assumes "running s CMD_REQ_HANDLER_ID rest aw" "tags_held s None" "req_poll s = Inr s'"
  shows "tags_held s' None \<and> ls_commands s' = ls_commands s"
proof (cases "in_mbox s = []")
  case True
  then show ?thesis using assms by (simp add: req_poll_def)
next
  case False
  have "running (s\<lparr>req_state := 1\<rparr>) CMD_REQ_HANDLER_ID rest aw" "tags_held (s\<lparr>req_state := 1\<rparr>) None"
    using assms by (simp_all add: running_def core_def tags_held_def)
  from req_start_held [OF this] show ?thesis using assms(3) False by (simp add: req_poll_def)
qed

text \<open>The commands of a group own no tag.\<close>

definition group_shape :: "(nat \<Rightarrow> spu_cmd option) \<Rightarrow> bool" where
  "group_shape ls \<longleftrightarrow> (\<forall>a c. ls a = Some c \<longrightarrow> cmd_shape c \<and> owned (c_body c) = None)"

lemma holder_from_group: "from_group ls m m' \<Longrightarrow> group_shape ls \<Longrightarrow> holder m' i = Some t \<Longrightarrow> holder m i = Some t"
proof -
  assume f: "from_group ls m m'" and g: "group_shape ls" and h: "holder m' i = Some t"
  consider "kind m' i = kind m i" | a c where "ls a = Some c" "kind m' i = Some (c_type c, c_id c, c_body c)"
    using f unfolding from_group_def by blast
  then show ?thesis
  proof cases
    case 1
    then show ?thesis using h by (simp add: holder_def)
  next
    case 2
    then show ?thesis using h g by (auto simp: holder_def group_shape_def split: if_splits)
  qed
qed

lemma req_handler_held:
  assumes run: "running s CMD_REQ_HANDLER_ID rest aw" and held: "tags_held s None" and shape: "group_shape (ls_commands s)"
    and res: "run_req_handler s = Inr s'"
  shows "tags_held s' None \<and> ls_commands s' = ls_commands s"
proof -
  consider "req_state s = 0" | "req_state s = 1" | "req_state s = 2" "req_state s \<noteq> 0" "req_state s \<noteq> 1"
  proof -
    have "req_state s \<le> 2" using run by (simp add: running_def core_def)
    then show thesis using that by linarith
  qed
  then show ?thesis
  proof cases
    case 1
    then show ?thesis using req_poll_held [OF run held] res by (simp add: run_req_handler_def)
  next
    case 2
    then show ?thesis using req_start_held [OF run held] res by (simp add: run_req_handler_def)
  next
    case 3
    then obtain t where t: "req_add_group s = Inr t" "req_poll t = Inr s'"
      using res by (auto simp: run_req_handler_def res_simps)
    obtain new m p where new: "running t CMD_REQ_HANDLER_ID (new @ rest) aw"
      "t = s\<lparr>commands := m, dep_next_ptr := p, req_state := 0\<rparr>" "from_group (ls_commands s) (commands s) m"
      using add_group_running [OF run t(1)] shape by (auto simp: group_shape_def)
    have "tags_held t None" unfolding tags_held_def
      using tags_sep_drop [of "holder (commands s)" _ _ _ _ _ "holder m"] held holder_from_group [OF new(3) shape]
      by (simp add: new(2) tags_held_def)
    then show ?thesis using req_poll_held [OF new(1) _ t(2)] new(2) by simp
  qed
qed

lemma worker_left:
  assumes run: "running s CMD_WORKER_ID rest aw" and held: "tags_held s None" and res: "run_worker s = Inr s'"
  shows "left s s'"
proof -
  let ?s = "if dep_completed_mask s \<noteq> 0 then notify_ppu s else s"
  have r: "running ?s CMD_WORKER_ID rest aw" using run running_notify by auto
  have f: "tags_held ?s None" "same_env s ?s" using held by (auto simp: notify_ppu_def tags_held_def same_env_def)
  obtain q aw' where q: "sched s' q aw'" using worker_sched [OF run] res by auto
  show ?thesis
  proof (cases "tag_status ?s AND dma_active_tags ?s = 0")
    case True
    then have "s' = ?s" using res by (auto simp: run_worker_def dma_completions_def Let_def split: if_splits)
    then show ?thesis using q f unfolding left_def by blast
  next
    case False
    define c where "c = tag_status ?s AND dma_active_tags ?s"
    have "dma_active_tags ?s \<noteq> 0" using False by auto
    then have s': "dma_completions ?s = Inr s'" using res by (simp add: run_worker_def Let_def)
    obtain m where m: "s' = ?s\<lparr>dma_active_tags := dma_active_tags ?s AND NOT c,
        dma_waiting := cleared (dma_waiting ?s) (tags_of c), dma_waiting_avail := INVALID_COMMAND_ID,
        dma_waiting_avail_ptr := WaitHead, commands := m\<rparr>" "same_but_next (commands ?s) m"
      using completions_sched [OF r c_def [symmetric]] False s' unfolding c_def by auto
    have len: "length (dma_waiting ?s) = 32" using r by (simp add: running_def core_def tags_ok_def)
    have "holder m = holder (commands ?s)" using m(2) by (intro holder_kind) (simp add: same_but_next_def)
    then have "tags_held s' None"
      using tags_sep_worker [OF f(1) [unfolded tags_held_def] len, of c] by (simp add: m(1) tags_held_def del: notify_fields notify_dma)
    moreover have "same_env s s'" using f(2) by (simp add: m(1) same_env_def)
    ultimately show ?thesis using q unfolding left_def by blast
  qed
qed

section \<open>Handlers that keep the contract\<close>

definition sched_ok :: "'a dep_state_scheme \<Rightarrow> bool" where
  "sched_ok s \<longleftrightarrow> (\<exists>queue aw. sched s queue aw) \<and> tags_held s None \<and> (req_state s = 1 \<longrightarrow> in_mbox s \<noteq> []) \<and>
     group_shape (ls_commands s)"

text \<open>
  The contract of the handlers: entered as the scheduler enters them, they return with the lists
  and the tags in order, whether they completed their command, suspended it or left it to be run again.
\<close>

locale command_handler =
  fixes run :: "spu_cmd \<Rightarrow> 'a dep_state_scheme \<Rightarrow> 'a dep_state_scheme res"
  assumes run_left: "handling s s x rest aw None \<Longrightarrow> commands s x = Some c \<Longrightarrow> c_type c \<in> handled_types \<Longrightarrow>
    run c s = Inr s' \<Longrightarrow> left s s'"
begin

lemma step_keeps:
  assumes ok: "sched_ok s" and step: "dep_step run s = Inr s'"
  shows "sched_ok s'"
proof -
  obtain queue aw where q: "sched s queue aw" using ok by (auto simp: sched_ok_def)
  then obtain x rest where x: "queue = x # rest" by (cases queue) (auto simp: sched_def ring_def)
  define t where "t = s\<lparr>dep_cur_ptr := NextOf (last (x # rest)), dep_cur_id := x, dep_next_ptr := NextOf x,
      dep_dequeued := False\<rparr>"
  have fetch: "dep_fetch s = Inr t" and run_t: "running t x rest aw"
    using fetch_running [OF q [unfolded x]] by (simp_all add: t_def)
  have held: "tags_held t None" using ok by (simp add: sched_ok_def t_def tags_held_def)
  have shape: "group_shape (ls_commands t)" "req_state t = 1 \<longrightarrow> in_mbox t \<noteq> []"
    using ok by (simp_all add: sched_ok_def t_def)
  have core: "core t (x # rest) aw" "dep_cur_id t = x" using run_t by (simp_all add: running_def)
  have "commands t x \<noteq> None \<and> backs (commands t) x = 0 \<and> x < 34" by (rule core_queued [OF core(1)]) simp
  then obtain c where c: "commands t x = Some c" "x < 34" by auto
  have disp: "dep_dispatch run t = Inr s'" using step by (simp add: dep_step_def fetch)
  have k: "kinds_ok (commands t)" using core(1) by (simp add: core_def)
  have fin: "sched_ok s'" if "left t s'"
    using that shape unfolding left_def sched_ok_def same_env_def by metis
  consider "x = CMD_WORKER_ID" | "x = CMD_REQ_HANDLER_ID" | "x < 32"
    using c(2) unfolding id_defs by linarith
  then show ?thesis
  proof cases
    case 1
    obtain b where "kind (commands t) CMD_WORKER_ID = Some (CMD_WORKER, CMD_WORKER_ID, b)"
      using k unfolding kinds_ok_def by blast
    then have "kind (commands t) x = Some (CMD_WORKER, CMD_WORKER_ID, b)" by (simp only: 1)
    then have "c_type c = CMD_WORKER" unfolding kind_def c(1) by simp
    then have "run_worker t = Inr s'" using disp c core(2) by (simp add: dep_dispatch_def get_command_def)
    then show ?thesis using worker_left [of t rest aw] run_t held 1 fin by simp
  next
    case 2
    obtain b where "kind (commands t) CMD_REQ_HANDLER_ID = Some (CMD_REQ_HANDLER, CMD_REQ_HANDLER_ID, b)"
      using k unfolding kinds_ok_def by blast
    then have "kind (commands t) x = Some (CMD_REQ_HANDLER, CMD_REQ_HANDLER_ID, b)" by (simp only: 2)
    then have "c_type c = CMD_REQ_HANDLER" unfolding kind_def c(1) by simp
    then have r: "run_req_handler t = Inr s'"
      using disp c core(2) by (simp add: dep_dispatch_def get_command_def CMD_REQ_HANDLER_def CMD_WORKER_def)
    obtain q' aw' where "sched s' q' aw'" "req_state s' = 1 \<longrightarrow> in_mbox s' \<noteq> []"
      using req_handler_sched [OF run_t [unfolded 2] shape(2) _ r] shape(1) by (auto simp: group_shape_def)
    moreover have "tags_held s' None" "ls_commands s' = ls_commands t"
      using req_handler_held [OF run_t [unfolded 2] held shape(1) r] by simp_all
    ultimately show ?thesis using shape(1) unfolding sched_ok_def by auto
  next
    case 3
    have h: "handling t t x rest aw None" using handling_start [OF run_t 3 held] c(1) by simp
    have "kind (commands t) x = Some (c_type c, c_id c, c_body c)" using c(1) by (simp add: kind_def)
    then have ty: "c_type c < 18" using k 3 unfolding kinds_ok_def by blast
    then have d: "dep_dispatch run t = (if c_type c = SPU_CMD_NULL then dep_complete_command t
        else if c_type c \<in> handled_types then run c t else Inl Unreached)"
      using c core(2) by (simp add: dep_dispatch_def get_command_def CMD_REQ_HANDLER_def CMD_WORKER_def)
    show ?thesis
    proof (cases "c_type c = SPU_CMD_NULL")
      case True
      then show ?thesis using d disp complete_left [OF h] fin by auto
    next
      case False
      then have "c_type c \<in> handled_types" "run c t = Inr s'" using d disp by (auto split: if_splits)
      then show ?thesis using run_left [OF h c(1)] fin by blast
    qed
  qed
qed

end

section \<open>An SPU and its environment\<close>

text \<open>
  Between two steps the PPU takes a completion mask and sends a request, and the MFC frees slots of
  its queue, completes transfers and puts the bytes of a group into the local store.
\<close>

inductive env_step :: "'a dep_state_scheme \<Rightarrow> 'a dep_state_scheme \<Rightarrow> bool" where
  ppu_reads: "env_step s (s\<lparr>out_mbox := None\<rparr>)"
| ppu_requests: "env_step s (s\<lparr>in_mbox := in_mbox s @ [r]\<rparr>)"
| mfc_drains: "mfc_slots s \<le> n \<Longrightarrow> n \<le> 16 \<Longrightarrow> env_step s (s\<lparr>mfc_slots := n\<rparr>)"
| mfc_completes: "env_step s (s\<lparr>tag_status := tag_status s OR w\<rparr>)"
| mfc_stores: "group_shape ls \<Longrightarrow> env_step s (s\<lparr>ls_commands := ls\<rparr>)"

inductive spu_reachable :: "(spu_cmd \<Rightarrow> 'a dep_state_scheme \<Rightarrow> 'a dep_state_scheme res) \<Rightarrow> 'a dep_state_scheme \<Rightarrow> 'a dep_state_scheme \<Rightarrow> bool"
  for run :: "spu_cmd \<Rightarrow> 'a dep_state_scheme \<Rightarrow> 'a dep_state_scheme res" and s0 :: "'a dep_state_scheme" where
  start: "spu_reachable run s0 s0"
| turn: "spu_reachable run s0 s \<Longrightarrow> dep_step run s = Inr s' \<Longrightarrow> spu_reachable run s0 s'"
| env: "spu_reachable run s0 s \<Longrightarrow> env_step s s' \<Longrightarrow> spu_reachable run s0 s'"

inductive_cases env_stepE: "env_step s s'"

lemma env_step_keeps: "env_step s s' \<Longrightarrow> sched_ok s \<Longrightarrow> sched_ok s'"
  by (erule env_stepE)
    (auto simp: sched_ok_def sched_def core_def tags_held_def)

context command_handler
begin

lemma reachable_ok: "spu_reachable run s0 s \<Longrightarrow> sched_ok s0 \<Longrightarrow> sched_ok s"
  by (induction rule: spu_reachable.induct) (auto intro: step_keeps env_step_keeps)

end

text \<open>A fresh SPU: nothing is queued, every tag is free and no transfer was started.\<close>

definition fresh :: "'a dep_state_scheme \<Rightarrow> bool" where
  "fresh s \<longleftrightarrow> commands s = Map.empty \<and> dma_free_tags s = NOT 0 \<and> dma_active_tags s = 0 \<and>
     dma_waiting s = replicate 32 INVALID_COMMAND_ID \<and> dma_waiting_avail s = INVALID_COMMAND_ID \<and>
     dma_waiting_avail_ptr s = WaitHead \<and> dep_completed_mask s = 0 \<and> group_shape (ls_commands s)"

lemma reserve_first: "dma_free_tags s = NOT 0 \<Longrightarrow> dma_reserve_tag s = Inr (0, s\<lparr>dma_free_tags := NOT 1\<rparr>)"
  by (simp add: dma_reserve_tag_def count_ls_zeros_def upt_conv_Cons bit_simps tag_bit_def)

lemma init_ok:
  assumes init: "dep_init params zero s = Inr s'" and fresh: "fresh s" and z: "num_back_deps zero = 0"
  shows "sched_ok s'"
proof -
  let ?w = "zero\<lparr>c_type := CMD_WORKER, c_id := CMD_WORKER_ID, c_next := CMD_REQ_HANDLER_ID\<rparr>"
  let ?r = "zero\<lparr>c_type := CMD_REQ_HANDLER, c_id := CMD_REQ_HANDLER_ID, c_next := CMD_WORKER_ID\<rparr>"
  obtain p rest where s': "s' = s\<lparr>in_mbox := rest, dep_next_ptr := NextOf CMD_REQ_HANDLER_ID, req_state := 0,
      commands := [CMD_REQ_HANDLER_ID \<mapsto> ?r, CMD_WORKER_ID \<mapsto> ?w], dma_free_tags := NOT 1, req_tag := 0,
      cmd_group_table := params p, out_mbox := Some 0\<rparr>"
    using init fresh by (auto simp: dep_init_def fresh_def put_command_def reserve_first Let_def res_simps split: list.splits if_splits)
  let ?m = "[CMD_REQ_HANDLER_ID \<mapsto> ?r, CMD_WORKER_ID \<mapsto> ?w] :: cmd_table"
  have m: "commands s' = ?m" by (simp add: s')
  have v: "backs ?m i = 0" "j < 32 \<Longrightarrow> fwds ?m j = []" "j < 32 \<Longrightarrow> fits ?m j" for i j
    using z by (auto simp: view_defs id_defs)
  have g: "graph_ok ?m" by (simp add: graph_ok_def v)
  have k: "kinds_ok ?m" by (auto simp: kinds_ok_def kind_def id_defs split: if_splits)
  have r: "ready ?m = {CMD_REQ_HANDLER_ID, CMD_WORKER_ID}" by (auto simp: ready_def v)
  have w: "waits (dma_waiting s') = []" using fresh by (simp add: s' fresh_def waits_def del: waits_set)
  have b: "\<not> bit (NOT 1 :: u32) 0" by (simp add: bit_not_iff)
  have t: "tags_ok (dma_waiting s') (dma_active_tags s') (dma_free_tags s') (req_tag s')"
    using fresh b by (simp add: tags_ok_def s' fresh_def)
  have "core s' [CMD_WORKER_ID, CMD_REQ_HANDLER_ID] []"
    unfolding core_def w m r using g k t fresh
    by (auto simp: id_defs avail_ok_def s' fresh_def)
  moreover have "ring (nx ?m) [CMD_WORKER_ID, CMD_REQ_HANDLER_ID]" by (simp add: ring_def nx_def id_defs)
  ultimately have "sched s' [CMD_WORKER_ID, CMD_REQ_HANDLER_ID] []" by (simp add: sched_def m) (simp add: s')
  moreover have "holder ?m i = None" for i by (auto simp: holder_def kind_def id_defs)
  then have "tags_held s' None" using fresh by (auto simp: tags_held_def m tags_sep_def s' fresh_def)
  ultimately show ?thesis using fresh unfolding sched_ok_def by (auto simp: s' fresh_def)
qed

section \<open>The dependency graph as a specification\<close>

text \<open>
  What the counts and arrays of dependencies stand for: the set of pending commands and, for each,
  the pending commands it must wait for.
\<close>

record dep_spec =
  pend :: "nat set"
  preds :: "nat \<Rightarrow> nat set"

definition spec_of :: "cmd_table \<Rightarrow> dep_spec" where
  "spec_of m = \<lparr>pend = {i. i < 32 \<and> m i \<noteq> None}, preds = (\<lambda>i. {j. j < 32 \<and> i \<in> set (fwds m j)})\<rparr>"

definition spec_complete :: "nat \<Rightarrow> dep_spec \<Rightarrow> dep_spec" where
  "spec_complete x S = \<lparr>pend = pend S - {x}, preds = (\<lambda>i. preds S i - {x})\<rparr>"

definition spec_add :: "nat \<Rightarrow> nat set \<Rightarrow> dep_spec \<Rightarrow> dep_spec" where
  "spec_add i D S = \<lparr>pend = insert i (pend S), preds = (preds S)(i := D \<inter> insert i (pend S))\<rparr>"

lemma count_zero: "count_list xs i = 0 \<longleftrightarrow> i \<notin> set xs"
  by (simp add: count_list_0_iff)

lemma backs_preds: "graph_ok m \<Longrightarrow> i < 34 \<Longrightarrow> backs m i = 0 \<longleftrightarrow> preds (spec_of m) i = {}"
  by (auto simp: graph_ok_def spec_of_def count_zero)

lemma freed_preds:
  assumes g: "graph_ok m" and x: "x < 32"
  shows "set (freed m (fwds m x)) = {i \<in> pend (spec_of m). preds (spec_of m) i = {x}}"
proof -
  have d: "d < 32" "m d \<noteq> None" if "d \<in> set (fwds m x)" for d using g x that by (auto simp: graph_ok_def)
  have eq: "backs m d = count_list (fwds m x) d \<longleftrightarrow> (\<forall>j<32. j \<noteq> x \<longrightarrow> d \<notin> set (fwds m j))" if "d < 32" for d
  proof -
    have "backs m d = (\<Sum>j<32. count_list (fwds m j) d)" using g that by (simp add: graph_ok_def)
    also have "\<dots> = count_list (fwds m x) d + (\<Sum>j\<in>{..<32} - {x}. count_list (fwds m j) d)"
      using x by (simp add: sum.remove)
    finally have "backs m d = count_list (fwds m x) d \<longleftrightarrow> (\<Sum>j\<in>{..<32} - {x}. count_list (fwds m j) d) = 0" by simp
    then show ?thesis by (auto simp: count_zero)
  qed
  show ?thesis
  proof (intro equalityI subsetI)
    fix i assume i: "i \<in> set (freed m (fwds m x))"
    then have "i \<in> set (fwds m x)" "backs m i = count_list (fwds m x) i" by (auto simp: freed_def)
    then show "i \<in> {i \<in> pend (spec_of m). preds (spec_of m) i = {x}}"
      using d [of i] eq [of i] x by (auto simp: spec_of_def)
  next
    fix i assume i: "i \<in> {i \<in> pend (spec_of m). preds (spec_of m) i = {x}}"
    then have "i < 32" "i \<in> set (fwds m x)" "\<forall>j<32. j \<noteq> x \<longrightarrow> i \<notin> set (fwds m j)" by (auto simp: spec_of_def)
    then show "i \<in> set (freed m (fwds m x))" using eq [of i] by (simp add: freed_def)
  qed
qed

lemma spec_added:
  assumes g: "graph_ok m" and a: "added m c m'" and i: "c_id c < 32" "m (c_id c) = None"
  shows "spec_of m' = spec_add (c_id c) (set (take (num_back_deps c) (c_deps c))) (spec_of m)"
proof -
  define P where "P = pending (m(c_id c \<mapsto> c)) (take (num_back_deps c) (c_deps c))"
  have a': "kind m' = (kind m)(c_id c \<mapsto> (c_type c, c_id c, c_body c))"
      "fwds m' d = fwds m d @ replicate (count_list P d) (c_id c)" for d
    using a by (simp_all add: added_def P_def Let_def)
  have none: "m' d = None \<longleftrightarrow> m d = None \<and> d \<noteq> c_id c" for d
    using a'(1) by (metis (no_types, lifting) fun_upd_apply kind_None option.distinct(1))
  have old: "c_id c \<notin> set (fwds m j)" if "j < 32" for j
  proof -
    have "\<forall>d\<in>set (fwds m j). m d \<noteq> None" using g that by (auto simp: graph_ok_def)
    then show ?thesis using i(2) by metis
  qed
  have f: "d \<in> set (fwds m' j) \<longleftrightarrow> d \<in> set (fwds m j) \<or> d = c_id c \<and> j \<in> set P" for d j
    unfolding a'(2) using count_zero [of P j] by auto
  have P: "j \<in> set P \<longleftrightarrow> j \<in> set (take (num_back_deps c) (c_deps c)) \<and> (j = c_id c \<or> m j \<noteq> None)" for j
    by (auto simp: P_def pending_def)
  have "{j. j < 32 \<and> d \<in> set (fwds m' j)} = (if d = c_id c
      then set (take (num_back_deps c) (c_deps c)) \<inter> insert (c_id c) {i. i < 32 \<and> m i \<noteq> None}
      else {j. j < 32 \<and> d \<in> set (fwds m j)})" for d
    using old i(1) by (auto simp: f P)
  moreover have "{j. j < 32 \<and> m' j \<noteq> None} = insert (c_id c) {i. i < 32 \<and> m i \<noteq> None}" using i(1) none by auto
  ultimately show ?thesis by (simp add: spec_of_def spec_add_def fun_eq_iff)
qed

lemma complete_spec:
  assumes run: "running s x rest aw" "x < 32"
  shows "\<exists>s' new. dep_complete_command s = Inr s' \<and> sched s' (new @ rest) aw \<and>
    spec_of (commands s') = spec_complete x (spec_of (commands s)) \<and>
    set new = {i \<in> pend (spec_of (commands s)). preds (spec_of (commands s)) i = {x}}"
proof -
  obtain m where m: "dep_complete_command s = Inr (notify_ppu (s\<lparr>dep_dequeued := True, dep_next_ptr := NextOf (last rest),
      commands := m(x := None), dep_completed_mask := dep_completed_mask s OR tag_bit x\<rparr>))" (is "_ = Inr ?s")
    "sched (notify_ppu (s\<lparr>dep_dequeued := True, dep_next_ptr := NextOf (last rest),
      commands := m(x := None), dep_completed_mask := dep_completed_mask s OR tag_bit x\<rparr>))
      (rev (freed (commands s) (fwds (commands s) x)) @ rest) aw" "same_but_next (commands s) m"
    using complete_sched [OF run] by blast
  have g: "graph_ok (commands s)" using run(1) by (simp add: running_def core_def)
  have "(\<exists>y. m d = Some y) \<longleftrightarrow> (\<exists>y. commands s d = Some y)" for d
    using m(3) by (metis kind_None not_None_eq same_but_next_def)
  moreover have "fwds (m(x := None)) = (fwds (commands s))(x := [])"
    using m(3) by (auto simp: same_but_next_def fwds_def fun_eq_iff)
  ultimately have "spec_of (commands ?s) = spec_complete x (spec_of (commands s))"
    by (auto simp: spec_of_def spec_complete_def fun_eq_iff)
  then show ?thesis using m(1,2) freed_preds [OF g run(2)]
    by (intro exI [of _ ?s] exI [of _ "rev (freed (commands s) (fwds (commands s) x))"]) auto
qed

lemma spec_add_other:
  "i \<notin> c_id ` set cs \<Longrightarrow>
    preds (fold (\<lambda>c. spec_add (c_id c) (set (take (num_back_deps c) (c_deps c)))) cs S) i = preds S i"
  by (induction cs arbitrary: S) (auto simp: spec_add_def)

lemma adds_spec:
  assumes "inserting s new rest aw" "rfold dep_add_command cs s = Inr s'" "\<forall>c\<in>set cs. cmd_shape c"
  shows "\<exists>new' m p. inserting s' (new @ new') rest aw \<and> s' = s\<lparr>commands := m, dep_next_ptr := p\<rparr> \<and>
    spec_of m = fold (\<lambda>c. spec_add (c_id c) (set (take (num_back_deps c) (c_deps c)))) cs (spec_of (commands s)) \<and>
    distinct (map c_id cs) \<and> (\<forall>c\<in>set cs. c_id c \<notin> pend (spec_of (commands s))) \<and>
    set new' = {i \<in> c_id ` set cs. preds (spec_of m) i = {}}"
  using assms
proof (induction cs arbitrary: s new)
  case Nil
  then show ?case by (intro exI [of _ "[]"] exI [of _ "commands s"] exI [of _ "dep_next_ptr s"]) simp
next
  case (Cons c cs)
  obtain t where t: "dep_add_command c s = Inr t" "rfold dep_add_command cs t = Inr s'"
    using Cons.prems(2) by (auto simp: res_simps)
  obtain m where m: "t = s\<lparr>commands := m, dep_next_ptr := dep_next_ptr t\<rparr>" "added (commands s) c m" "commands s (c_id c) = None"
    "inserting t (new @ (if backs m (c_id c) = 0 then [c_id c] else [])) rest aw"
    using add_command_inserting [OF Cons.prems(1) t(1)] Cons.prems(3) by auto
  have g: "graph_ok (commands s)" using Cons.prems(1) by (simp add: inserting_def core_def)
  have i: "c_id c < 32" using t(1) by (auto simp: dep_add_command_def Let_def res_simps id_defs)
  have sp: "spec_of (commands t) = spec_add (c_id c) (set (take (num_back_deps c) (c_deps c))) (spec_of (commands s))"
  proof -
    have "commands t = m" by (subst m(1)) simp
    then show ?thesis using spec_added [OF g m(2) i m(3)] by simp
  qed
  obtain new' m' p where IH: "inserting s' ((new @ (if backs m (c_id c) = 0 then [c_id c] else [])) @ new') rest aw"
    "s' = t\<lparr>commands := m', dep_next_ptr := p\<rparr>"
    "spec_of m' = fold (\<lambda>c. spec_add (c_id c) (set (take (num_back_deps c) (c_deps c)))) cs (spec_of (commands t))"
    "distinct (map c_id cs)" "\<forall>d\<in>set cs. c_id d \<notin> pend (spec_of (commands t))"
    "set new' = {i \<in> c_id ` set cs. preds (spec_of m') i = {}}"
    using Cons.IH [OF m(4) t(2)] Cons.prems(3) by auto
  have "s' = s\<lparr>commands := m', dep_next_ptr := p\<rparr>" unfolding IH(2) by (subst m(1)) simp
  moreover have "c_id c \<notin> pend (spec_of (commands s))" using m(3) by (simp add: spec_of_def)
  moreover have "c_id c \<notin> c_id ` set cs" "\<forall>d\<in>set cs. c_id d \<notin> pend (spec_of (commands s))"
    using IH(5) by (auto simp: sp spec_add_def)
  moreover have "backs m (c_id c) = 0 \<longleftrightarrow> preds (spec_of m') (c_id c) = {}"
  proof -
    have "commands t = m" by (subst m(1)) simp
    moreover have "graph_ok (commands t)" using m(4) by (simp add: inserting_def core_def)
    ultimately have "backs m (c_id c) = 0 \<longleftrightarrow> preds (spec_of (commands t)) (c_id c) = {}"
      using backs_preds [of m "c_id c"] i by simp
    then show ?thesis using spec_add_other [OF \<open>c_id c \<notin> c_id ` set cs\<close>] IH(3) by simp
  qed
  ultimately show ?case using IH(1,3,4,6) sp
    by (intro exI [of _ "(if backs m (c_id c) = 0 then [c_id c] else []) @ new'"] exI [of _ m'] exI [of _ p])
      auto
qed

text \<open>A small SPU: command 1 waits for command 0, and the request handler and the worker are queued.\<close>

definition small_table :: cmd_table where
  "small_table = (\<lambda>i. if i = 0 then Some \<lparr>c_type = SPU_CMD_CALL_FUNC, c_id = 0, num_back_deps = 0, num_forward_deps = 1, c_next = 32,
       c_deps = [1, 9, 9, 9, 9, 9, 9], c_body = Call_Func 4096\<rparr>
     else if i = 1 then Some \<lparr>c_type = SPU_CMD_CALL_FUNC, c_id = 1, num_back_deps = 1, num_forward_deps = 0, c_next = 255,
       c_deps = [0, 9, 9, 9, 9, 9, 9], c_body = Call_Func 4096\<rparr>
     else if i = 32 then Some \<lparr>c_type = CMD_WORKER, c_id = 32, num_back_deps = 0, num_forward_deps = 0, c_next = 33, c_deps = [], c_body = No_Params\<rparr>
     else if i = 33 then Some \<lparr>c_type = CMD_REQ_HANDLER, c_id = 33, num_back_deps = 0, num_forward_deps = 0, c_next = 0, c_deps = [], c_body = No_Params\<rparr>
     else None)"

definition small_spu :: dep_state where
  "small_spu = \<lparr>commands = small_table, dep_cur_id = 0, dep_cur_ptr = NextOf 33, dep_next_ptr = NextOf 0, dep_dequeued = False,
     cmd_group_table = 0, dep_completed_mask = 0, req_state = 0, req_tag = 0, req_lsa = 0, req_bytes = 0,
     dma_free_tags = NOT 1, dma_active_tags = 0, dma_waiting = replicate 32 255, dma_waiting_avail = 255,
     dma_waiting_avail_ptr = WaitHead, out_mbox = None, in_mbox = [], mfc_slots = 16, mfc_log = [], tag_status = 0,
     ls_commands = Map.empty\<rparr>"

lemma small_views:
  "nx small_table i = (if i = 0 then 32 else if i = 1 then 255 else if i = 32 then 33 else if i = 33 then 0 else 255)"
  "backs small_table i = (if i = 1 then 1 else 0)" "fwds small_table i = (if i = 0 then [1] else [])"
  "ready small_table = {0, 32, 33}"
  by (auto simp: small_table_def view_defs ready_def id_defs)

lemma small_running: "running small_spu 0 [32, 33] []"
proof -
  have g: "graph_ok small_table"
  proof -
    have "(\<Sum>j<32. count_list (fwds small_table j) i) = (if i = 1 then 1 else 0)" for i
    proof -
      have "(\<Sum>j<32. count_list (fwds small_table j) i) = (\<Sum>j<(32::nat). if j = 0 then (if i = 1 then 1 else 0) else 0)"
        by (rule sum.cong) (auto simp: small_views)
      then show ?thesis by simp
    qed
    moreover have "fits small_table i" if "i < 32" for i
      using that by (auto simp: fits_def small_table_def max_deps_def large_header_def cmd_type_defs SPU_CMD_MAX_DEPS_def)
    moreover have "small_table 1 \<noteq> None" by (simp add: small_table_def)
    ultimately show ?thesis by (auto simp: graph_ok_def small_views)
  qed
  have k: "kinds_ok small_table"
    by (auto simp: kinds_ok_def kind_def small_table_def id_defs cmd_type_defs split: if_splits)
  have w: "waits (replicate 32 (255::nat)) = []" by (simp add: waits_def id_defs del: waits_set)
  have "core small_spu [0, 32, 33] []"
    using g k by (auto simp: core_def small_spu_def w small_views avail_ok_def id_defs tags_ok_def bit_not_iff)
  then show ?thesis by (simp add: running_def small_spu_def ring_def small_views)
qed

lemma small_held: "tags_held small_spu None"
  by (auto simp: tags_held_def tags_sep_def holder_def kind_def small_spu_def small_table_def split: option.splits if_splits)

section \<open>Properties\<close>

text \<open>C1: completing a command implements the specification of the dependency graph: the command is
  no longer pending and nothing waits for it any more; the commands that waited for it alone, and
  only those, are queued, ahead of the commands already queued; and its completion is in the mask
  that is sent to the PPU or kept to be sent.\<close>

theorem complete_implements_spec:
  assumes "running s x rest aw" "x < 32"
  shows "\<exists>s' new. dep_complete_command s = Inr s' \<and> sched s' (new @ rest) aw \<and>
    spec_of (commands s') = spec_complete x (spec_of (commands s)) \<and>
    set new = {i \<in> pend (spec_of (commands s)). preds (spec_of (commands s)) i = {x}} \<and>
    (bit (dep_completed_mask s') x \<or> (\<exists>w. out_mbox s' = Some w \<and> bit w x))"
proof -
  obtain s' new where s': "dep_complete_command s = Inr s'" "sched s' (new @ rest) aw"
    "spec_of (commands s') = spec_complete x (spec_of (commands s))"
    "set new = {i \<in> pend (spec_of (commands s)). preds (spec_of (commands s)) i = {x}}"
    using complete_spec [OF assms] by blast
  obtain m where "s' = notify_ppu (s\<lparr>dep_dequeued := True, dep_next_ptr := NextOf (last rest),
      commands := m(x := None), dep_completed_mask := dep_completed_mask s OR tag_bit x\<rparr>)"
    using complete_sched [OF assms] s'(1) by auto
  then have "bit (dep_completed_mask s') x \<or> (\<exists>w. out_mbox s' = Some w \<and> bit w x)"
    using assms(2) by (cases "out_mbox s") (simp_all add: notify_ppu_def bit_or_iff bit_tag_bit)
  then show ?thesis using s' by blast
qed

theorem complete_implements_spec_witness:
  "\<exists>s' new. dep_complete_command small_spu = Inr s' \<and> sched s' (new @ [32, 33]) [] \<and> set new = {1} \<and>
    pend (spec_of (commands s')) = {1} \<and> preds (spec_of (commands s')) 1 = {}"
proof -
  have p: "pend (spec_of small_table) = {0, 1}" "preds (spec_of small_table) i = (if i = 1 then {0} else {})" for i
    by (auto simp: spec_of_def small_views) (auto simp: small_table_def split: if_splits)
  have c: "commands small_spu = small_table" by (simp add: small_spu_def)
  have "{i \<in> {0, 1::nat}. (if i = 1 then {0} else {}) = {0::nat}} = {1}" by auto
  moreover have "{0, 1::nat} - {0} = {1}" by auto
  ultimately show ?thesis using complete_implements_spec [OF small_running] by (auto simp: c p spec_complete_def)
qed

text \<open>C4: the scheduler runs a command of the PPU only when it is pending and no pending command is
  left that it must wait for.\<close>

theorem dispatch_only_ready:
  assumes "sched_ok s" "dep_fetch s = Inr t" "dep_cur_id t < 32"
  shows "dep_cur_id t \<in> pend (spec_of (commands s)) \<and> preds (spec_of (commands s)) (dep_cur_id t) = {}"
proof -
  obtain queue aw where q: "sched s queue aw" using assms(1) by (auto simp: sched_ok_def)
  then obtain x rest where x: "queue = x # rest" by (cases queue) (auto simp: sched_def ring_def)
  have "dep_cur_id t = x" using fetch_running(1) [OF q [unfolded x]] assms(2) by auto
  moreover have c: "core s (x # rest) aw" using q x by (simp add: sched_def)
  have "commands s x \<noteq> None \<and> backs (commands s) x = 0 \<and> x < 34" by (rule core_queued [OF c]) simp
  moreover have "graph_ok (commands s)" using c by (simp add: core_def)
  ultimately show ?thesis using backs_preds assms(3) by (auto simp: spec_of_def)
qed

theorem dispatch_only_ready_witness:
  "\<exists>t. dep_fetch (small_spu\<lparr>dep_next_ptr := NextOf 33\<rparr>) = Inr t \<and> dep_cur_id t = 0 \<and>
    preds (spec_of (commands small_spu)) 0 = {} \<and> preds (spec_of (commands small_spu)) 1 = {0}"
proof -
  let ?s = "small_spu\<lparr>dep_next_ptr := NextOf 33\<rparr>"
  have "sched ?s [0, 32, 33] []" using small_running by (simp add: running_def sched_def core_def)
  moreover have "tags_held ?s None" using small_held by (simp add: tags_held_def)
  ultimately have ok: "sched_ok ?s" unfolding sched_ok_def by (auto simp: small_spu_def group_shape_def)
  have f: "\<exists>t. dep_fetch ?s = Inr t \<and> dep_cur_id t = 0"
    by (simp add: dep_fetch_def get_command_def small_spu_def small_table_def)
  then obtain t where t: "dep_fetch ?s = Inr t" "dep_cur_id t = 0" by blast
  have "preds (spec_of (commands small_spu)) 1 = {0}" by (auto simp: spec_of_def small_views small_spu_def)
  then show ?thesis using dispatch_only_ready [OF ok t(1)] t by auto
qed

text \<open>C3: adding a group of commands, when the code accepts it, adds its commands to the dependency
  graph one after the other, each waiting for those of its dependencies that are pending then
  (a dependency that is not is taken as done); the IDs of the group are distinct and none was
  pending; and the commands of the group that wait for nothing, and only they, run next, before
  the commands already queued.\<close>

theorem group_implements_spec:
  assumes "running s CMD_REQ_HANDLER_ID rest aw" "req_add_group s = Inr s'"
    and "ls_commands s = layout cs (unat (req_lsa s))" "unat (req_bytes s) = sum_list (map size_of cs)"
    and "\<forall>c\<in>set cs. cmd_shape c \<and> c_type c < 18"
  shows "\<exists>new. running s' CMD_REQ_HANDLER_ID (new @ rest) aw \<and> req_state s' = 0 \<and>
    spec_of (commands s') = fold (\<lambda>c. spec_add (c_id c) (set (take (num_back_deps c) (c_deps c)))) cs (spec_of (commands s)) \<and>
    distinct (map c_id cs) \<and> (\<forall>c\<in>set cs. c_id c \<notin> pend (spec_of (commands s))) \<and>
    set new = {i \<in> c_id ` set cs. preds (spec_of (commands s')) i = {}}"
proof -
  have ne: "CMD_REQ_HANDLER_ID \<noteq> CMD_WORKER_ID" by (simp add: id_defs)
  note r = running_rest [OF assms(1) ne]
  have "CMD_WORKER_ID \<in> set rest" using assms(1) ne by (auto simp: running_def core_def)
  then have ins: "inserting s [] rest aw" using assms(1) r(1) by (simp add: running_def inserting_def)
  obtain t where t: "walk_group dep_add_command (ls_commands s) (unat (req_lsa s)) (unat (req_bytes s)) s = Inr t"
    "s' = t\<lparr>dep_next_ptr := NextOf CMD_REQ_HANDLER_ID, req_state := 0\<rparr>"
    using assms(2) by (auto simp: req_add_group_def res_simps)
  have "rfold dep_add_command cs s = Inr t"
    using t(1) walk_layout [of cs "unat (req_lsa s)" "ls_commands s" dep_add_command s] assms(3-5) by auto
  moreover have "\<forall>c\<in>set cs. cmd_shape c" using assms(5) by blast
  ultimately obtain new m p where new: "inserting t new rest aw" "t = s\<lparr>commands := m, dep_next_ptr := p\<rparr>"
    "spec_of m = fold (\<lambda>c. spec_add (c_id c) (set (take (num_back_deps c) (c_deps c)))) cs (spec_of (commands s))"
    "distinct (map c_id cs)" "\<forall>c\<in>set cs. c_id c \<notin> pend (spec_of (commands s))"
    "set new = {i \<in> c_id ` set cs. preds (spec_of m) i = {}}"
    using adds_spec [OF ins, of cs t] by auto
  have "running s' CMD_REQ_HANDLER_ID (new @ rest) aw"
    using new(1,2) assms(1) r(1) by (auto simp: running_def inserting_def t(2) core_def)
  moreover have "commands s' = m" by (simp add: t(2) new(2))
  moreover have "req_state s' = 0" by (simp add: t(2))
  ultimately show ?thesis using new(3-6) by blast
qed

definition small_group :: "spu_cmd list" where
  "small_group = [\<lparr>c_type = SPU_CMD_NULL, c_id = 5, num_back_deps = 2, num_forward_deps = 0, c_next = 0,
      c_deps = [1, 7] @ replicate 13 9, c_body = No_Params\<rparr>,
    \<lparr>c_type = SPU_CMD_CALL_FUNC, c_id = 6, num_back_deps = 1, num_forward_deps = 0, c_next = 0,
      c_deps = [3, 9, 9, 9, 9, 9, 9], c_body = Call_Func 64\<rparr>]"

lemma core_perm:
  assumes "core s queue aw" "set queue' = set queue" "distinct queue'"
  shows "core s queue' aw"
proof -
  have "distinct (queue' @ aw @ waits (dma_waiting s))" using assms unfolding core_def by (simp del: waits_set)
  moreover have "set (queue' @ aw @ waits (dma_waiting s)) = set (queue @ aw @ waits (dma_waiting s))"
    using assms(2) by simp
  ultimately show ?thesis using assms(1,2) unfolding core_def by metis
qed

theorem group_implements_spec_witness:
  "\<exists>(s :: dep_state) s' new. ls_commands s = layout small_group 0 \<and> commands s = small_table \<and> req_add_group s = Inr s' \<and>
    set new = {6} \<and> running s' CMD_REQ_HANDLER_ID (new @ [0, 32]) [] \<and> preds (spec_of (commands s')) 5 = {1}"
proof -
  let ?s = "small_spu\<lparr>dep_cur_id := 33, dep_cur_ptr := NextOf 32, dep_next_ptr := NextOf 33, req_state := 2,
     req_lsa := 0, req_bytes := 48, ls_commands := layout small_group 0\<rparr>"
  have sz: "map size_of small_group = [32, 16]" by (simp add: small_group_def size_of_def spu_cmd_size_def cmd_type_defs)
  have sh: "\<forall>c\<in>set small_group. cmd_shape c \<and> c_type c < 18"
    by (simp add: small_group_def cmd_shape_def max_deps_def large_header_def cmd_type_defs SPU_CMD_MAX_DEPS_def SPU_CMD_MAX_DEPS_LARGE_def)
  have run: "running ?s CMD_REQ_HANDLER_ID [0, 32] []"
  proof -
    have c: "core small_spu [0, 32, 33] []" using small_running by (simp add: running_def)
    have "core small_spu [33, 0, 32] []" by (rule core_perm [OF c]) auto
    then have "core ?s [33, 0, 32] []" by (simp add: core_def small_spu_def)
    then show ?thesis by (simp add: running_def id_defs) (simp add: ring_def small_spu_def small_views)
  qed
  have "\<exists>s'. rfold dep_add_command small_group ?s = Inr s'"
    by (simp add: small_group_def dep_add_command_def cmd_type_defs id_defs SPU_CMD_MAX_DEPS_def SPU_CMD_MAX_DEPS_LARGE_def
        large_header_def small_spu_def put_command_def get_command_def add_back_dep_def small_table_def Let_def upt_conv_Cons index_res_def)
  then obtain s' where s': "req_add_group ?s = Inr s'"
    using walk_layout [of small_group 0 "layout small_group 0" dep_add_command ?s] sh sz
    by (auto simp: req_add_group_def)
  have c: "commands ?s = small_table" by (simp add: small_spu_def)
  have cond: "ls_commands ?s = layout small_group (unat (req_lsa ?s))" "unat (req_bytes ?s) = sum_list (map size_of small_group)"
    by (simp_all add: sz)
  obtain new where new: "running s' CMD_REQ_HANDLER_ID (new @ [0, 32]) []"
    "spec_of (commands s') = fold (\<lambda>c. spec_add (c_id c) (set (take (num_back_deps c) (c_deps c)))) small_group (spec_of small_table)"
    "set new = {i \<in> c_id ` set small_group. preds (spec_of (commands s')) i = {}}"
    using group_implements_spec [OF run s' cond sh] unfolding c by blast
  have p: "pend (spec_of small_table) = {0, 1}"
    by (auto simp: spec_of_def) (auto simp: small_table_def split: if_splits)
  have "preds (spec_of (commands s')) 5 = {1}" "preds (spec_of (commands s')) 6 = {}"
    by (simp_all add: new(2) small_group_def spec_add_def p)
  then have "set new = {6}" unfolding new(3) by (auto simp: small_group_def)
  then show ?thesis using new(1) s' c \<open>preds (spec_of (commands s')) 5 = {1}\<close>
    by (intro exI [of _ ?s] exI [of _ s'] exI [of _ new]) simp
qed

text \<open>C19: when transfers have completed, the worker clears their tags and puts on the queue every
  command that waits for an MFC slot, in the order they suspended, then the commands that wait for
  a completed tag, highest tag first, before the commands that were queued; it goes last itself,
  and commands that wait for other tags go on waiting.  The dependency graph does not change.\<close>

theorem worker_resumes_waiters:
  assumes "running s CMD_WORKER_ID rest aw" "tag_status s AND dma_active_tags s = c" "c \<noteq> 0"
  shows "\<exists>s'. run_worker s = Inr s' \<and> dma_active_tags s' = dma_active_tags s AND NOT c \<and>
    sched s' (aw @ rev (woken (dma_waiting s) (tags_of c)) @ rest @ [CMD_WORKER_ID]) [] \<and>
    (\<forall>t<32. dma_waiting s' ! t = (if bit c t then INVALID_COMMAND_ID else dma_waiting s ! t)) \<and>
    spec_of (commands s') = spec_of (commands s)"
proof -
  let ?s = "if dep_completed_mask s \<noteq> 0 then notify_ppu s else s"
  have r: "running ?s CMD_WORKER_ID rest aw" using assms(1) running_notify by auto
  have f: "tag_status ?s = tag_status s" "dma_active_tags ?s = dma_active_tags s" "dma_waiting ?s = dma_waiting s"
    "commands ?s = commands s" by simp_all
  have c: "tag_status ?s AND dma_active_tags ?s = c" unfolding f by (rule assms(2))
  have len: "length (dma_waiting s) = 32" using assms(1) by (simp add: running_def core_def tags_ok_def)
  obtain m s' where m: "dma_completions ?s = Inr s'" "s' = ?s\<lparr>dma_active_tags := dma_active_tags ?s AND NOT c,
        dma_waiting := cleared (dma_waiting ?s) (tags_of c), dma_waiting_avail := INVALID_COMMAND_ID,
        dma_waiting_avail_ptr := WaitHead, commands := m\<rparr>"
    "sched s' (aw @ rev (woken (dma_waiting ?s) (tags_of c)) @ rest @ [CMD_WORKER_ID]) []" "same_but_next (commands ?s) m"
    using completions_sched [OF r c assms(3)] by metis
  have "dma_active_tags ?s \<noteq> 0" unfolding f using assms(2,3) by auto
  then have "run_worker s = Inr s'" using m(1) by (simp add: run_worker_def Let_def)
  moreover have "spec_of (commands s') = spec_of (commands s)"
  proof -
    have "m d = None \<longleftrightarrow> commands s d = None" for d using m(4) f(4) by (metis kind_None same_but_next_def)
    moreover have "fwds m = fwds (commands s)" using m(4) f(4) by (simp add: same_but_next_def)
    ultimately show ?thesis by (simp add: m(2) spec_of_def)
  qed
  moreover have "\<forall>t<32. dma_waiting s' ! t = (if bit c t then INVALID_COMMAND_ID else dma_waiting s ! t)"
  proof (intro allI impI)
    fix t :: nat assume t: "t < 32"
    have "t \<in> set (tags_of c) \<longleftrightarrow> bit c t" using t by (simp add: tags_of_def)
    then show "dma_waiting s' ! t = (if bit c t then INVALID_COMMAND_ID else dma_waiting s ! t)"
      using t len by (simp add: m(2))
  qed
  moreover have "dma_active_tags s' = dma_active_tags s AND NOT c" by (simp add: m(2))
  ultimately show ?thesis using m(3) unfolding f(3) by blast
qed

text \<open>An SPU whose commands 0 and 1 wait for tags 3 and 7, both completed.\<close>

definition waiting_spu :: dep_state where
  "waiting_spu = small_spu\<lparr>commands := small_table(0 \<mapsto> (the (small_table 0))\<lparr>num_forward_deps := 0\<rparr>,
       1 \<mapsto> (the (small_table 1))\<lparr>num_back_deps := 0\<rparr>, 33 \<mapsto> (the (small_table 33))\<lparr>c_next := 32\<rparr>),
     dep_cur_id := 32, dep_cur_ptr := NextOf 33, dep_next_ptr := NextOf 32, dma_free_tags := NOT 0x89,
     dma_active_tags := 0x88, tag_status := 0x88, dma_waiting := (replicate 32 255)[3 := 0, 7 := 1]\<rparr>"

theorem worker_resumes_waiters_witness:
  "\<exists>s'. run_worker waiting_spu = Inr s' \<and> dma_active_tags s' = 0 \<and> sched s' [1, 0, 33, 32] [] \<and>
    dma_waiting s' ! 3 = INVALID_COMMAND_ID"
proof -
  let ?m = "commands waiting_spu"
  have w: "replicate 32 (255::nat) = map (\<lambda>_. 255) [0..<32]" by (simp add: map_replicate_const)
  have v: "nx ?m i = (if i = 0 then 32 else if i = 1 then 255 else if i = 32 then 33 else if i = 33 then 32 else 255)"
    "backs ?m i = 0" "fwds ?m i = []" "ready ?m = {0, 1, 32, 33}" for i
    by (auto simp: waiting_spu_def small_table_def view_defs ready_def id_defs)
  have g: "graph_ok ?m"
  proof -
    have "fits ?m i" if "i < 32" for i
      using that by (auto simp: fits_def waiting_spu_def small_table_def max_deps_def large_header_def cmd_type_defs SPU_CMD_MAX_DEPS_def)
    then show ?thesis by (simp add: graph_ok_def v)
  qed
  have k: "kinds_ok ?m"
    by (auto simp: kinds_ok_def kind_def waiting_spu_def small_table_def id_defs cmd_type_defs split: if_splits)
  have ws: "waits (dma_waiting waiting_spu) = [0, 1]"
    by (simp add: waiting_spu_def waits_def id_defs w upt_conv_Cons del: waits_set)
  have bits: "\<forall>t<32. bit (0x88 :: u32) t \<longleftrightarrow> t = 3 \<or> t = 7" "\<forall>t<32. bit (NOT 0x89 :: u32) t \<longleftrightarrow> \<not> (t = 0 \<or> t = 3 \<or> t = 7)"
  proof -
    have "\<forall>t\<in>set [0..<32]. bit (0x88 :: u32) t = (t = 3 \<or> t = 7) \<and> bit (NOT 0x89 :: u32) t = (\<not> (t = 0 \<or> t = 3 \<or> t = 7))"
      by code_simp
    then show "\<forall>t<32. bit (0x88 :: u32) t \<longleftrightarrow> t = 3 \<or> t = 7" "\<forall>t<32. bit (NOT 0x89 :: u32) t \<longleftrightarrow> \<not> (t = 0 \<or> t = 3 \<or> t = 7)"
      by simp_all
  qed
  have n: "dma_waiting waiting_spu ! t = (if t = 3 then 0 else if t = 7 then 1 else 255)" if "t < 32" for t
    using that by (simp add: waiting_spu_def nth_list_update)
  have t: "tags_ok (dma_waiting waiting_spu) (dma_active_tags waiting_spu) (dma_free_tags waiting_spu) (req_tag waiting_spu)"
    unfolding tags_ok_def using bits n by (auto simp: waiting_spu_def small_spu_def id_defs)
  have "core waiting_spu [32, 33] []"
    unfolding core_def ws v using g k t by (auto simp: waiting_spu_def small_spu_def avail_ok_def id_defs)
  then have run: "running waiting_spu CMD_WORKER_ID [33] []"
    by (simp add: running_def id_defs ring_def v) (simp add: waiting_spu_def small_spu_def)
  have c: "tag_status waiting_spu AND dma_active_tags waiting_spu = 0x88" by (simp add: waiting_spu_def small_spu_def)
  have tg: "tags_of 0x88 = [3, 7]" by code_simp
  have wk: "rev (woken (dma_waiting waiting_spu) (tags_of 0x88)) = [1, 0]" by (simp add: tg woken_def n id_defs)
  have "dma_active_tags waiting_spu AND NOT 0x88 = 0" by (simp add: waiting_spu_def small_spu_def)
  then show ?thesis using worker_resumes_waiters [OF run c] wk bits(1) by (auto simp: id_defs)
qed

end
