(* ===== verification/Spu_Filter.thy ===== *)
theory Spu_Filter
  imports Scheduler
begin

text \<open>
  The filter and buffer commands of an SPU (\<open>library/cell/src/spu/filter.c\<close>, \<open>filter.h\<close> and the
  completion of the handlers of \<open>spu/buffer.c\<close>).  The state of the scheduler is extended by the local store:
  filter control blocks by address, buffer control blocks by the address of their data, and bytes.
  A tape pointer of a filter is the data address of the attached buffer, 0 when none is attached.
  A handler gets the ID of its command and the parameters, which it stores back before every call
  that may return to the scheduler.  Work functions and functions called by a command are not the
  library's code: they are parameters, which may change buffers and bytes.  Statistics counters are
  left out.
\<close>

section \<open>State\<close>

record filter_cb =
  f_desc :: filter_desc
  f_state :: u32
  f_inputs :: "u32 list"
  f_outputs :: "u32 list"
  f_busy :: bool
  attached_inputs :: u8
  attached_outputs :: u8

type_synonym local_mem = "(u32 \<Rightarrow> buffer_cb option) \<times> (u32 \<Rightarrow> byte)"

record spu_state = dep_state +
  filters :: "u32 \<Rightarrow> filter_cb option"
  spu_bufs :: "u32 \<Rightarrow> buffer_cb option"
  ls_data :: "u32 \<Rightarrow> byte"
  cmd_lsa :: "nat \<Rightarrow> u32"
  cmd_ua_data :: "nat \<Rightarrow> nat \<Rightarrow> byte"

text \<open>The code of the program's filters: a work function by its address, with the parameter, the
  address of the filter's state, the tapes and the number of iterations, and a plain function.\<close>

record spu_code =
  work_code :: "u32 \<Rightarrow> u32 \<Rightarrow> u32 \<Rightarrow> u32 list \<Rightarrow> u32 list \<Rightarrow> u32 \<Rightarrow> local_mem \<Rightarrow> local_mem"
  func_code :: "u32 \<Rightarrow> local_mem \<Rightarrow> local_mem"

definition SPU_FILTER_CB_SIZE :: u32 where "SPU_FILTER_CB_SIZE = 48"

definition get_filter :: "u32 \<Rightarrow> spu_state \<Rightarrow> filter_cb res" where
  "get_filter a s = deref (filters s a)"

definition put_filter :: "u32 \<Rightarrow> filter_cb \<Rightarrow> spu_state \<Rightarrow> spu_state" where
  "put_filter a f s = s\<lparr>filters := (filters s)(a \<mapsto> f)\<rparr>"

definition get_buf :: "u32 \<Rightarrow> spu_state \<Rightarrow> buffer_cb res" where
  "get_buf a s = deref (spu_bufs s a)"

definition put_buf :: "u32 \<Rightarrow> buffer_cb \<Rightarrow> spu_state \<Rightarrow> spu_state" where
  "put_buf a b s = s\<lparr>spu_bufs := (spu_bufs s)(a \<mapsto> b)\<rparr>"

definition on_mem :: "(local_mem \<Rightarrow> local_mem) \<Rightarrow> spu_state \<Rightarrow> spu_state" where
  "on_mem f s = (let (b, d) = f (spu_bufs s, ls_data s) in s\<lparr>spu_bufs := b, ls_data := d\<rparr>)"

section \<open>Function calls and loading data\<close>

definition run_call_func :: "spu_code \<Rightarrow> u32 \<Rightarrow> spu_state \<Rightarrow> spu_state res" where
  "run_call_func code func s = dep_complete_command (on_mem (func_code code func) s)"

text \<open>The size of the next piece of a transfer, and the state after it.\<close>

definition next_piece :: "u32 \<Rightarrow> nat \<Rightarrow> nat \<Rightarrow> u32 \<times> nat" where
  "next_piece num_bytes st last_st = (if num_bytes \<le> MAX_DMA_SIZE then (num_bytes, last_st) else (MAX_DMA_SIZE, st))"

definition load_data_piece :: "nat \<Rightarrow> load_data_cmd \<Rightarrow> spu_state \<Rightarrow> spu_state res" where
  "load_data_piece i c s =
     (if \<not> dma_query_avail 1 s then dma_wait_avail s
      else let (copy_bytes, st) = next_piece (ld_num_bytes c) (ld_state c) 2 in
        rbind (dma_get (ld_tag c) (ld_dest_lsa c) (ld_src_addr c) (ld_num_bytes c) s) (\<lambda>s.
          dma_wait_complete (ld_tag c) (set_body i (Load_Data (c\<lparr>ld_dest_lsa := ld_dest_lsa c + copy_bytes,
            ld_src_addr := ld_src_addr c + copy_bytes, ld_num_bytes := ld_num_bytes c - copy_bytes, ld_state := st\<rparr>)) s)))"

definition run_load_data :: "nat \<Rightarrow> load_data_cmd \<Rightarrow> spu_state \<Rightarrow> spu_state res" where
  "run_load_data i c s =
     (if ld_state c = 0 then
        ensure CheckFail (ld_dest_lsa c AND 15 = 0 \<and> ld_src_addr c AND 15 = 0 \<and> ld_num_bytes c AND 15 = 0)
        (rbind (dma_reserve_tag s) (\<lambda>(tag, s).
           let c = c\<lparr>ld_state := 1, ld_tag := tag\<rparr> in load_data_piece i c (set_body i (Load_Data c) s)))
      else if ld_state c = 1 then load_data_piece i c s
      else if ld_state c = 2 then rbind (dma_release_tag (ld_tag c) s) dep_complete_command
      else Inl Unreached)"

section \<open>Loading and unloading a filter\<close>

definition round_up_qword :: "u32 \<Rightarrow> u32" where
  "round_up_qword n = (n + 15) AND NOT 15"

definition filter_load_piece :: "nat \<Rightarrow> filter_load_cmd \<Rightarrow> spu_state \<Rightarrow> spu_state res" where
  "filter_load_piece i c s =
     (if \<not> dma_query_avail 1 s then dma_wait_avail s
      else let d = fl_desc c; (copy_bytes, st) = next_piece (state_size d) (fl_state c) 2 in
        rbind (dma_get (fl_tag c) (fl_state_lsa c) (state_addr d) copy_bytes s) (\<lambda>s.
          dma_wait_complete (fl_tag c) (set_body i (Filter_Load (c\<lparr>fl_state := st, fl_state_lsa := fl_state_lsa c + copy_bytes,
            fl_desc := d\<lparr>state_size := state_size d - copy_bytes, state_addr := state_addr d + copy_bytes\<rparr>\<rparr>)) s)))"

definition filter_of_desc :: "u32 \<Rightarrow> filter_desc \<Rightarrow> filter_cb" where
  "filter_of_desc addr d = \<lparr>f_desc = d,
     f_state = addr + SPU_FILTER_CB_SIZE + round_up_qword ((ucast (num_inputs d) + ucast (num_outputs d)) * 4),
     f_inputs = replicate (unat (num_inputs d)) 0, f_outputs = replicate (unat (num_outputs d)) 0,
     f_busy = False, attached_inputs = 0, attached_outputs = 0\<rparr>"

definition filter_load_init :: "nat \<Rightarrow> filter_load_cmd \<Rightarrow> spu_state \<Rightarrow> spu_state res" where
  "filter_load_init i c s =
     (let d = fl_desc c; filt = filter_of_desc (fl_filt c) d in
     ensure CheckFail (fl_filt c AND 15 = 0 \<and> (state_size d = 0 \<or> state_size d AND 15 = 0 \<and> state_addr d AND 15 = 0))
     (if state_size d = 0 then dep_complete_command (put_filter (fl_filt c) filt s)
      else rbind (dma_reserve_tag (put_filter (fl_filt c) (filt\<lparr>f_busy := True\<rparr>) s)) (\<lambda>(tag, s).
        let c = c\<lparr>fl_state := 1, fl_tag := tag, fl_state_lsa := f_state filt\<rparr>
        in filter_load_piece i c (set_body i (Filter_Load c) s))))"

definition run_filter_load :: "nat \<Rightarrow> filter_load_cmd \<Rightarrow> spu_state \<Rightarrow> spu_state res" where
  "run_filter_load i c s =
     (if fl_state c = 0 then filter_load_init i c s
      else if fl_state c = 1 then filter_load_piece i c s
      else if fl_state c = 2 then rbind (dma_release_tag (fl_tag c) s) (\<lambda>s.
        rbind (get_filter (fl_filt c) s) (\<lambda>filt. dep_complete_command (put_filter (fl_filt c) (filt\<lparr>f_busy := False\<rparr>) s)))
      else Inl Unreached)"

definition filter_unload_piece :: "nat \<Rightarrow> filter_unload_cmd \<Rightarrow> spu_state \<Rightarrow> spu_state res" where
  "filter_unload_piece i c s = (if \<not> dma_query_avail 1 s then dma_wait_avail s
     else rbind (get_filter (fu_filt c) s) (\<lambda>filt.
       let d = f_desc filt; (copy_bytes, st) = next_piece (state_size d) (fu_state c) 2 in
       rbind (dma_put (fu_tag c) (state_addr d) (f_state filt) copy_bytes s) (\<lambda>s.
         dma_wait_complete (fu_tag c) (set_body i (Filter_Unload (c\<lparr>fu_state := st\<rparr>)) (put_filter (fu_filt c)
           (filt\<lparr>f_state := f_state filt + copy_bytes,
              f_desc := d\<lparr>state_size := state_size d - copy_bytes, state_addr := state_addr d + copy_bytes\<rparr>\<rparr>) s)))))"

definition filter_unload_init :: "nat \<Rightarrow> filter_unload_cmd \<Rightarrow> spu_state \<Rightarrow> spu_state res" where
  "filter_unload_init i c s = ensure CheckFail (fu_filt c AND 15 = 0) (rbind (get_filter (fu_filt c) s) (\<lambda>filt.
     ensure CheckFail (\<not> f_busy filt)
     (if fu_detach_only c
      then dep_complete_command (put_filter (fu_filt c) (filt\<lparr>attached_inputs := 0, attached_outputs := 0,
        f_inputs := replicate (length (f_inputs filt)) 0, f_outputs := replicate (length (f_outputs filt)) 0\<rparr>) s)
      else let s = put_filter (fu_filt c) (filt\<lparr>f_busy := True\<rparr>) s in
        if state_size (f_desc filt) = 0 then dep_complete_command s
        else rbind (dma_reserve_tag s) (\<lambda>(tag, s).
          let c = c\<lparr>fu_state := 1, fu_tag := tag\<rparr> in filter_unload_piece i c (set_body i (Filter_Unload c) s)))))"

definition run_filter_unload :: "nat \<Rightarrow> filter_unload_cmd \<Rightarrow> spu_state \<Rightarrow> spu_state res" where
  "run_filter_unload i c s =
     (if fu_state c = 0 then filter_unload_init i c s
      else if fu_state c = 1 then filter_unload_piece i c s
      else if fu_state c = 2 then rbind (dma_release_tag (fu_tag c) s) dep_complete_command
      else Inl Unreached)"

section \<open>Attaching tapes\<close>

definition run_filter_attach_input :: "filter_attach_cmd \<Rightarrow> spu_state \<Rightarrow> spu_state res" where
  "run_filter_attach_input c s = ensure CheckFail (fa_filt c AND 15 = 0) (rbind (get_filter (fa_filt c) s) (\<lambda>filt.
     ensure CheckFail (fa_tape_id c < num_inputs (f_desc filt) \<and> fa_buf_data c AND 15 = 0)
     (ensure CheckFail (\<not> f_busy filt) (rbind (index_res (f_inputs filt) (unat (fa_tape_id c))) (\<lambda>old.
        let n = attached_inputs filt + (if old = 0 then 1 else 0) - (if fa_buf_data c = 0 then 1 else 0) in
        dep_complete_command (put_filter (fa_filt c) (filt\<lparr>attached_inputs := n,
          f_inputs := (f_inputs filt)[unat (fa_tape_id c) := fa_buf_data c]\<rparr>) s))))))"

definition run_filter_attach_output :: "filter_attach_cmd \<Rightarrow> spu_state \<Rightarrow> spu_state res" where
  "run_filter_attach_output c s = ensure CheckFail (fa_filt c AND 15 = 0) (rbind (get_filter (fa_filt c) s) (\<lambda>filt.
     ensure CheckFail (fa_tape_id c < num_outputs (f_desc filt) \<and> fa_buf_data c AND 15 = 0)
     (ensure CheckFail (\<not> f_busy filt) (rbind (index_res (f_outputs filt) (unat (fa_tape_id c))) (\<lambda>old.
        let n = attached_outputs filt + (if old = 0 then 1 else 0) - (if fa_buf_data c = 0 then 1 else 0) in
        dep_complete_command (put_filter (fa_filt c) (filt\<lparr>attached_outputs := n,
          f_outputs := (f_outputs filt)[unat (fa_tape_id c) := fa_buf_data c]\<rparr>) s))))))"

section \<open>Running a filter\<close>

definition each_tape :: "(buffer_cb \<Rightarrow> buffer_cb res) \<Rightarrow> u32 list \<Rightarrow> spu_state \<Rightarrow> spu_state res" where
  "each_tape f = rfold (\<lambda>a s. rbind (get_buf a s) (\<lambda>b. rbind (f b) (\<lambda>b. Inr (put_buf a b s))))"

text \<open>The first turn marks the filter and the ends of its buffers as running.\<close>

definition filter_run_init :: "nat \<Rightarrow> filter_run_cmd \<Rightarrow> spu_state \<Rightarrow> spu_state res" where
  "filter_run_init i c s = ensure CheckFail (fr_filt c AND 15 = 0 \<and> fr_loop_iters c \<noteq> 0) (rbind (get_filter (fr_filt c) s) (\<lambda>filt.
     ensure CheckFail (\<not> f_busy filt)
     (ensure CheckFail (attached_inputs filt = num_inputs (f_desc filt) \<and> attached_outputs filt = num_outputs (f_desc filt))
     (rbind (each_tape (\<lambda>b. ensure CheckFail (front_action b = BUFFER_ACTION_NONE) (Inr (b\<lparr>front_action := BUFFER_ACTION_RUN\<rparr>)))
          (f_inputs filt) (put_filter (fr_filt c) (filt\<lparr>f_busy := True\<rparr>) s)) (\<lambda>s.
      rbind (each_tape (\<lambda>b. ensure CheckFail (back_action b = BUFFER_ACTION_NONE) (Inr (b\<lparr>back_action := BUFFER_ACTION_RUN\<rparr>)))
          (f_outputs filt) s) (\<lambda>s. Inr (set_body i (Filter_Run (c\<lparr>fr_state := 1\<rparr>)) s)))))))"

text \<open>Every turn runs at most \<open>loop_iters\<close> iterations; the last one completes the command.\<close>

definition filter_run_loop :: "spu_code \<Rightarrow> nat \<Rightarrow> filter_run_cmd \<Rightarrow> spu_state \<Rightarrow> spu_state res" where
  "filter_run_loop code i c s = rbind (get_filter (fr_filt c) s) (\<lambda>filt.
     let loop_iters = (if fr_loop_iters c \<le> fr_iters c then fr_loop_iters c else fr_iters c);
       c = c\<lparr>fr_iters := fr_iters c - loop_iters\<rparr>; d = f_desc filt;
       s = on_mem (work_code code (work_func d) (fparam d) (f_state filt) (f_inputs filt) (f_outputs filt) loop_iters)
         (set_body i (Filter_Run c) s) in
     rbind (each_tape (\<lambda>b. Inr (b\<lparr>ihead := b_head b\<rparr>)) (f_inputs filt) s) (\<lambda>s.
     rbind (each_tape (\<lambda>b. Inr (b\<lparr>otail := b_tail b\<rparr>)) (f_outputs filt) s) (\<lambda>s.
       if fr_iters c = 0
       then rbind (each_tape (\<lambda>b. Inr (b\<lparr>front_action := BUFFER_ACTION_NONE\<rparr>)) (f_inputs filt)
              (put_filter (fr_filt c) (filt\<lparr>f_busy := False\<rparr>) s)) (\<lambda>s.
            rbind (each_tape (\<lambda>b. Inr (b\<lparr>back_action := BUFFER_ACTION_NONE\<rparr>)) (f_outputs filt) s) dep_complete_command)
       else Inr s)))"

definition run_filter_run :: "spu_code \<Rightarrow> nat \<Rightarrow> filter_run_cmd \<Rightarrow> spu_state \<Rightarrow> spu_state res" where
  "run_filter_run code i c s =
     (if fr_state c = 0 then rbind (filter_run_init i c s) (filter_run_loop code i (c\<lparr>fr_state := 1\<rparr>))
      else filter_run_loop code i c s)"

section \<open>Buffers\<close>

text \<open>Memory that holds no control block yet; \<open>buffer_alloc\<close> sets every field the SPU has.\<close>

definition blank_buffer :: buffer_cb where
  "blank_buffer = \<lparr>ihead = 0, otail = 0, front_action = 0, back_action = 0, dt_active = 0, b_mask = 0, b_head = 0,
     b_tail = 0, b_data = 0, in_back_buffered_bytes = 0, out_front_buffered_bytes = 0,
     front_in_dtcb = \<lparr>dtcb_head = 0, dtcb_tail = 0, dtcb_ack = 0\<rparr>,
     back_in_dtcb = \<lparr>dtcb_head = 0, dtcb_tail = 0, dtcb_ack = 0\<rparr>\<rparr>"

definition run_buffer_alloc_cmd :: "buffer_alloc_cmd \<Rightarrow> spu_state \<Rightarrow> spu_state res" where
  "run_buffer_alloc_cmd c s =
     rbind (run_buffer_alloc (ba_buf_data c) (ba_mask c) (ba_data_offset c)
       (case spu_bufs s (ba_buf_data c) of None \<Rightarrow> blank_buffer | Some b \<Rightarrow> b)) (\<lambda>b.
       dep_complete_command (put_buf (ba_buf_data c) b s))"

definition run_buffer_align_cmd :: "buffer_align_cmd \<Rightarrow> spu_state \<Rightarrow> spu_state res" where
  "run_buffer_align_cmd c s = rbind (get_buf (bl_buf_data c) s) (\<lambda>b.
     rbind (run_buffer_align (bl_buf_data c) (bl_data_offset c) b) (\<lambda>b.
       dep_complete_command (put_buf (bl_buf_data c) b s)))"

section \<open>The handlers keep the scheduler's contract\<close>

lemma handling_store [simp]:
  "handling s0 (put_filter a f s) x rest aw b = handling s0 s x rest aw b"
  "handling s0 (put_buf a d s) x rest aw b = handling s0 s x rest aw b"
  "handling s0 (on_mem g s) x rest aw b = handling s0 s x rest aw b"
  "handling s0 (s\<lparr>ls_data := m\<rparr>) x rest aw b = handling s0 s x rest aw b"
  by (simp_all add: put_filter_def put_buf_def on_mem_def handling_def running_def core_def tags_held_def same_env_def
      split: prod.split)

lemma holds_store [simp]:
  "holds (put_filter a f s) x t = holds s x t" "holds (put_buf a d s) x t = holds s x t" "holds (on_mem g s) x t = holds s x t"
  "dma_query_avail n (put_filter a f s) = dma_query_avail n s" "dma_query_avail n (put_buf a d s) = dma_query_avail n s"
  "dma_active_tags (put_filter a f s) = dma_active_tags s" "dma_active_tags (put_buf a d s) = dma_active_tags s"
  "commands (put_filter a f s) = commands s" "commands (put_buf a d s) = commands s" "commands (on_mem g s) = commands s"
  "dma_free_tags (put_filter a f s) = dma_free_tags s"
  by (simp_all add: put_filter_def put_buf_def on_mem_def holds_def dma_query_avail_def split: prod.split)

named_theorems ends "how a handler may end"

lemma ends_avail: "handling s0 s x rest aw None \<Longrightarrow> ends_in E s0 (dma_wait_avail s)"
  using wait_avail_left by (fastforce simp: ends_in_def)

lemma ends_complete: "handling s0 s x rest aw b \<Longrightarrow> b = None \<or> b = Some x \<Longrightarrow> ends_in E s0 (dep_complete_command s)"
  using complete_left by (fastforce simp: ends_in_def)

lemma ends_return: "handling s0 s x rest aw None \<Longrightarrow> ends_in E s0 (Inr s)"
  using handling_return by (fastforce simp: ends_in_def)

lemma ends_release: "handling s0 s x rest aw None \<Longrightarrow> holds s x t \<Longrightarrow>
    ends_in E s0 (rbind (dma_release_tag t s) dep_complete_command)"
  using release_complete_left by (fastforce simp: ends_in_def)

lemma ends_ensure [ends]: "e \<in> E \<Longrightarrow> (c \<Longrightarrow> ends_in E s0 m) \<Longrightarrow> ends_in E s0 (ensure e c m)"
  by (simp add: ends_in_def ensure_def)

lemma ends_rbind:
  assumes "\<And>e. m = Inl e \<Longrightarrow> e \<in> E" "\<And>v. m = Inr v \<Longrightarrow> ends_in E s0 (f v)"
  shows "ends_in E s0 (rbind m f)"
  using assms by (cases m) (simp_all add: ends_in_def)

lemma ends_get_filter [ends]:
  "NullPointer \<in> E \<Longrightarrow> (\<And>f. filters s a = Some f \<Longrightarrow> ends_in E s0 (k f)) \<Longrightarrow> ends_in E s0 (rbind (get_filter a s) k)"
  by (rule ends_rbind) (auto simp: get_filter_def deref_def split: option.splits)

lemma ends_get_buf [ends]:
  "NullPointer \<in> E \<Longrightarrow> (\<And>b. spu_bufs s a = Some b \<Longrightarrow> ends_in E s0 (k b)) \<Longrightarrow> ends_in E s0 (rbind (get_buf a s) k)"
  by (rule ends_rbind) (auto simp: get_buf_def deref_def split: option.splits)

text \<open>A tag that is reserved is stored in the parameters at once.\<close>

lemma ends_reserve_frame:
  assumes "handling s0 s x rest aw None" "dma_free_tags s = 0 \<Longrightarrow> CheckFail \<in> E"
    and "\<And>t s'. handling s0 s' x rest aw None \<Longrightarrow>
      (\<And>b. owned b = Some t \<Longrightarrow> handling s0 (set_body x b s') x rest aw None \<and> holds (set_body x b s') x t) \<Longrightarrow>
      s' = s\<lparr>dma_free_tags := dma_free_tags s AND NOT (tag_bit t)\<rparr> \<Longrightarrow> ends_in E s0 (k (t, s'))"
  shows "ends_in E s0 (rbind (dma_reserve_tag s) k)"
proof (rule ends_rbind)
  show "e \<in> E" if e: "dma_reserve_tag s = Inl e" for e
  proof -
    have "dma_free_tags s = 0" using e by (cases "dma_free_tags s = 0") (simp_all add: dma_reserve_tag_def count_ls_zeros_def)
    then show ?thesis using reserve_fault [OF assms(1) e] assms(2) by simp
  qed
next
  fix v assume v: "dma_reserve_tag s = Inr v"
  obtain t s' where ts: "v = (t, s')" by (cases v)
  have r: "dma_reserve_tag s = Inr (t, s')" using v ts by simp
  let ?b = "Load_Data \<lparr>ld_dest_lsa = 0, ld_src_addr = 0, ld_num_bytes = 0, ld_state = 1, ld_tag = t\<rparr>"
  have "handling s0 s' x rest aw None" "s' = s\<lparr>dma_free_tags := dma_free_tags s AND NOT (tag_bit t)\<rparr>"
    using reserve_handling(3,4) [OF assms(1) r, of ?b] by simp_all
  moreover have "handling s0 (set_body x b s') x rest aw None \<and> holds (set_body x b s') x t" if "owned b = Some t" for b
    using reserve_handling(1,2) [OF assms(1) r that] by blast
  ultimately show "ends_in E s0 (k v)" unfolding ts by (intro assms(3))
qed

lemma ends_reserve:
  assumes "handling s0 s x rest aw None" "dma_free_tags s = 0 \<Longrightarrow> CheckFail \<in> E"
    and "\<And>t s'. handling s0 s' x rest aw None \<Longrightarrow>
      (\<And>b. owned b = Some t \<Longrightarrow> handling s0 (set_body x b s') x rest aw None \<and> holds (set_body x b s') x t) \<Longrightarrow>
      mfc_slots s' = mfc_slots s \<Longrightarrow> ends_in E s0 (k (t, s'))"
  shows "ends_in E s0 (rbind (dma_reserve_tag s) k)"
  by (rule ends_reserve_frame [OF assms(1,2)], assumption, rule assms(3)) simp_all

text \<open>A transfer under the command's tag.\<close>

lemma ends_start:
  assumes "handling s0 s x rest aw b" "holds s x t" "b = None \<or> b = Some x" "dma_query_avail 1 s"
    and "\<And>s'. handling s0 s' x rest aw (Some x) \<Longrightarrow> holds s' x t \<Longrightarrow> bit (dma_active_tags s') t \<Longrightarrow>
      s' = mfc_start t oper (s\<lparr>dma_active_tags := dma_active_tags s OR tag_bit t\<rparr>) \<Longrightarrow> ends_in E s0 (k s')"
  shows "ends_in E s0 (rbind (dma_start t oper s) k)"
proof -
  obtain s' where s': "dma_start t oper s = Inr s'" "handling s0 s' x rest aw (Some x)" "bit (dma_active_tags s') t"
    "s' = mfc_start t oper (s\<lparr>dma_active_tags := dma_active_tags s OR tag_bit t\<rparr>)"
    using dma_start_handling [OF assms(1-4)] by blast
  have "holds s' x t" using assms(2) by (simp add: s'(4) mfc_start_def holds_def)
  then show ?thesis using assms(5) s' by simp
qed

lemma handling_same_tag:
  "handling s0 s x rest aw b \<Longrightarrow> holds s x t \<Longrightarrow> owned d = Some t \<Longrightarrow> handling s0 (set_body x d s) x rest aw b \<and> holds (set_body x d s) x t"
proof -
  assume h: "handling s0 s x rest aw b" and t: "holds s x t" and d: "owned d = Some t"
  have "handling s0 (set_body x d s) x rest aw b" using handling_body [OF h] t d by (simp add: holds_def)
  moreover have "x < 32" "commands s x \<noteq> None" using h by (simp_all add: handling_def)
  then have "holds (set_body x d s) x t" using d by (simp add: holds_def set_body_eq holder_body)
  ultimately show ?thesis ..
qed

lemma ends_wait: "handling s0 s x rest aw (Some x) \<Longrightarrow> holds s x t \<Longrightarrow> bit (dma_active_tags s) t \<Longrightarrow> owned d = Some t \<Longrightarrow>
    ends_in E s0 (dma_wait_complete t (set_body x d s))"
  using wait_complete_left [of s0 "set_body x d s" x rest aw t] handling_same_tag [of s0 s x rest aw "Some x" t d]
  by (fastforce simp: ends_in_def)

lemmas dma_defs = dma_get_def dma_put_def

text \<open>No fault of the scheduler's or the DMA layer's own assertions.\<close>

abbreviation filter_faults :: "fault set" where
  "filter_faults \<equiv> {CheckFail, NullPointer, OutOfBounds}"

text \<open>
  The faults with which a turn of each command can end, from its own checks, a tag it needs, and the
  pointers it follows.  A command that owns its tag already meets none but a missing filter.
\<close>

definition load_data_faults :: "spu_state \<Rightarrow> load_data_cmd \<Rightarrow> fault set" where
  "load_data_faults s c =
     (if ld_state c = 0
      then if ld_dest_lsa c AND 15 = 0 \<and> ld_src_addr c AND 15 = 0 \<and> ld_num_bytes c AND 15 = 0 \<and> dma_free_tags s \<noteq> 0 then {} else {CheckFail}
      else if ld_state c \<le> 2 then {} else {Unreached})"

definition filter_load_faults :: "spu_state \<Rightarrow> filter_load_cmd \<Rightarrow> fault set" where
  "filter_load_faults s c =
     (if fl_state c = 0
      then if fl_filt c AND 15 = 0 \<and> (state_size (fl_desc c) = 0 \<or>
          state_size (fl_desc c) AND 15 = 0 \<and> state_addr (fl_desc c) AND 15 = 0 \<and> dma_free_tags s \<noteq> 0) then {} else {CheckFail}
      else if fl_state c = 1 then {}
      else if fl_state c = 2 then if filters s (fl_filt c) = None then {NullPointer} else {}
      else {Unreached})"

definition filter_unload_faults :: "spu_state \<Rightarrow> filter_unload_cmd \<Rightarrow> fault set" where
  "filter_unload_faults s c =
     (if fu_state c = 0
      then if fu_filt c AND 15 \<noteq> 0 then {CheckFail} else (case filters s (fu_filt c) of None \<Rightarrow> {NullPointer}
        | Some f \<Rightarrow> if f_busy f \<or> \<not> fu_detach_only c \<and> state_size (f_desc f) \<noteq> 0 \<and> dma_free_tags s = 0 then {CheckFail} else {})
      else if fu_state c = 1 then if filters s (fu_filt c) = None then {NullPointer} else {}
      else if fu_state c = 2 then {} else {Unreached})"

definition attach_faults :: "(filter_desc \<Rightarrow> u8) \<Rightarrow> (filter_cb \<Rightarrow> u32 list) \<Rightarrow> spu_state \<Rightarrow> filter_attach_cmd \<Rightarrow> fault set" where
  "attach_faults num tapes s c =
     (if fa_filt c AND 15 \<noteq> 0 then {CheckFail} else (case filters s (fa_filt c) of None \<Rightarrow> {NullPointer}
      | Some f \<Rightarrow> if \<not> fa_tape_id c < num (f_desc f) \<or> fa_buf_data c AND 15 \<noteq> 0 \<or> f_busy f then {CheckFail}
          else if unat (fa_tape_id c) < length (tapes f) then {} else {OutOfBounds}))"

definition filter_run_faults :: "filter_run_cmd \<Rightarrow> fault set" where
  "filter_run_faults c = (if fr_state c = 0 then {CheckFail, NullPointer} else {NullPointer})"

definition buffer_align_faults :: "spu_state \<Rightarrow> buffer_align_cmd \<Rightarrow> fault set" where
  "buffer_align_faults s c = (if spu_bufs s (bl_buf_data c) = None then {NullPointer} else {CheckFail})"

lemma next_piece_state: "next_piece n 1 2 = (k, st) \<Longrightarrow> st = 1 \<or> st = 2"
  by (auto simp: next_piece_def split: if_splits)

lemma load_data_piece_ends:
  assumes "handling s0 s x rest aw None" "holds s x (ld_tag c)" "ld_state c = 1"
  shows "ends_in E s0 (load_data_piece x c s)"
proof -
  obtain n st where n: "next_piece (ld_num_bytes c) 1 2 = (n, st)" by (cases "next_piece (ld_num_bytes c) 1 2")
  show ?thesis
    using assms next_piece_state [OF n]
    by (auto simp: load_data_piece_def n [simplified] dma_defs intro!: ends_avail ends_start ends_wait)
qed

lemma ends_in_fault: "ends_in E s0 (Inl e) \<longleftrightarrow> e \<in> E"
  by (simp add: ends_in_def)

lemma load_data_ends:
  assumes h: "handling s0 s x rest aw None" and c: "commands s x = Some cmd" "c_body cmd = Load_Data c"
    and E: "load_data_faults s c \<subseteq> E"
  shows "ends_in E s0 (run_load_data x c s)"
proof -
  have x: "x < 32" using h by (simp add: handling_def)
  consider "ld_state c = 0" | "ld_state c = 1" | "ld_state c = 2" | "ld_state c > 2" by linarith
  then show ?thesis
  proof cases
    case 1
    show ?thesis unfolding run_load_data_def using 1 E
      by (auto simp: load_data_faults_def Let_def ensure_def ends_in_fault split: if_splits
          intro!: ends_reserve [OF h] load_data_piece_ends [where rest = rest and aw = aw])
  next
    case 2
    have "holds s x (ld_tag c)" using c 2 x by (simp add: holds_owned)
    then show ?thesis using 2 load_data_piece_ends [OF h] by (simp add: run_load_data_def)
  next
    case 3
    have "holds s x (ld_tag c)" using c 3 x by (simp add: holds_owned)
    then show ?thesis using 3 ends_release [OF h] by (simp add: run_load_data_def)
  next
    case 4
    then show ?thesis using E by (auto simp: run_load_data_def load_data_faults_def ends_in_def)
  qed
qed

lemma filter_load_piece_ends:
  assumes "handling s0 s x rest aw None" "holds s x (fl_tag c)" "fl_state c = 1"
  shows "ends_in E s0 (filter_load_piece x c s)"
proof -
  obtain n st where n: "next_piece (state_size (fl_desc c)) 1 2 = (n, st)" by (cases "next_piece (state_size (fl_desc c)) 1 2")
  show ?thesis
    using assms next_piece_state [OF n]
    by (auto simp: filter_load_piece_def n [simplified] dma_defs Let_def intro!: ends_avail ends_start ends_wait)
qed

lemma ends_complete_store:
  "handling s0 s x rest aw None \<Longrightarrow> ends_in E s0 (dep_complete_command (put_filter a f s))"
  "handling s0 s x rest aw None \<Longrightarrow> ends_in E s0 (dep_complete_command (put_buf a b s))"
  "handling s0 s x rest aw None \<Longrightarrow> ends_in E s0 (dep_complete_command (on_mem g s))"
  by (rule ends_complete [of _ _ x rest aw None]; simp)+

lemma release_fields: "dma_release_tag t s = Inr s' \<Longrightarrow> s' = s\<lparr>dma_free_tags := dma_free_tags s OR tag_bit t\<rparr>"
  by (auto simp: dma_release_tag_def res_simps)

lemma dep_complete_congruence:
  "dma_release_tag t (put_filter a f s) = rbind (dma_release_tag t s) (\<lambda>s. Inr (put_filter a f s))"
  by (simp add: dma_release_tag_def dma_query_complete_def tag_valid_def put_filter_def ensure_def rbind_def)

lemma filter_load_ends:
  assumes h: "handling s0 s x rest aw None" and c: "commands s x = Some cmd" "c_body cmd = Filter_Load c"
    and E: "filter_load_faults s c \<subseteq> E"
  shows "ends_in E s0 (run_filter_load x c s)"
proof -
  have x: "x < 32" using h by (simp add: handling_def)
  consider "fl_state c = 0" | "fl_state c = 1" | "fl_state c = 2" | "fl_state c > 2" by linarith
  then show ?thesis
  proof cases
    case 1
    have h': "handling s0 (put_filter a f s) x rest aw None" for a f using h by simp
    show ?thesis unfolding run_filter_load_def filter_load_init_def using 1 E
      by (auto simp: filter_load_faults_def Let_def ensure_def ends_in_fault split: if_splits
          intro!: ends_reserve [OF h'] filter_load_piece_ends [where rest = rest and aw = aw] ends_complete_store [OF h])
  next
    case 2
    have "holds s x (fl_tag c)" using c 2 x by (simp add: holds_owned)
    then show ?thesis using 2 filter_load_piece_ends [OF h] by (simp add: run_filter_load_def)
  next
    case 3
    have t: "holds s x (fl_tag c)" using c 3 x by (simp add: holds_owned)
    show ?thesis
    proof (cases "filters s (fl_filt c)")
      case None
      obtain s' where "dma_release_tag (fl_tag c) s = Inr s'" "s' = s\<lparr>dma_free_tags := dma_free_tags s OR tag_bit (fl_tag c)\<rparr>"
        using release_handling [OF h t, of No_Params] by auto
      then show ?thesis using 3 None E by (simp add: run_filter_load_def filter_load_faults_def get_filter_def ends_in_def)
    next
      case (Some f)
      let ?s = "put_filter (fl_filt c) (f\<lparr>f_busy := False\<rparr>) s"
      have "run_filter_load x c s = rbind (dma_release_tag (fl_tag c) ?s) dep_complete_command"
        using 3 Some by (auto simp: run_filter_load_def dep_complete_congruence get_filter_def rbind_def
            dest!: release_fields split: sum.splits)
      moreover have "handling s0 ?s x rest aw None" "holds ?s x (fl_tag c)" using h t by simp_all
      ultimately show ?thesis using ends_release by metis
    qed
  next
    case 4
    then show ?thesis using E by (auto simp: run_filter_load_def filter_load_faults_def ends_in_def)
  qed
qed

lemma filter_unload_piece_ends:
  assumes "handling s0 s x rest aw None" "holds s x (fu_tag c)" "fu_state c = 1"
    and E: "filters s (fu_filt c) = None \<Longrightarrow> NullPointer \<in> E"
  shows "ends_in E s0 (filter_unload_piece x c s)"
proof (cases "dma_query_avail 1 s")
  case False
  then show ?thesis using ends_avail [OF assms(1)] by (simp add: filter_unload_piece_def)
next
  case True
  have "ends_in E s0 (rbind (get_filter (fu_filt c) s) k)" if "\<And>f. ends_in E s0 (k f)" for k
    using that E by (cases "filters s (fu_filt c)") (simp_all add: get_filter_def ends_in_fault)
  moreover have "ends_in E s0 (let d = f_desc filt; (copy_bytes, st) = next_piece (state_size d) (fu_state c) 2 in
       rbind (dma_put (fu_tag c) (state_addr d) (f_state filt) copy_bytes s) (\<lambda>s.
         dma_wait_complete (fu_tag c) (set_body x (Filter_Unload (c\<lparr>fu_state := st\<rparr>)) (put_filter (fu_filt c)
           (filt\<lparr>f_state := f_state filt + copy_bytes,
              f_desc := d\<lparr>state_size := state_size d - copy_bytes, state_addr := state_addr d + copy_bytes\<rparr>\<rparr>) s))))" for filt
  proof -
    obtain n st where n: "next_piece (state_size (f_desc filt)) 1 2 = (n, st)" by (cases "next_piece (state_size (f_desc filt)) 1 2")
    show ?thesis using next_piece_state [OF n]
      by (auto simp: n [simplified] assms(3) dma_defs Let_def intro!: ends_start [OF assms(1,2) _ True] ends_wait)
  qed
  ultimately show ?thesis using True by (simp add: filter_unload_piece_def)
qed

lemma filter_unload_ends:
  assumes h: "handling s0 s x rest aw None" and c: "commands s x = Some cmd" "c_body cmd = Filter_Unload c"
    and E: "filter_unload_faults s c \<subseteq> E"
  shows "ends_in E s0 (run_filter_unload x c s)"
proof -
  have x: "x < 32" using h by (simp add: handling_def)
  consider "fu_state c = 0" | "fu_state c = 1" | "fu_state c = 2" | "fu_state c > 2" by linarith
  then show ?thesis
  proof cases
    case 1
    have h': "handling s0 (put_filter a f s) x rest aw None" for a f using h by simp
    show ?thesis
    proof (cases "filters s (fu_filt c)")
      case None
      then show ?thesis using 1 E
        by (auto simp: run_filter_unload_def filter_unload_init_def filter_unload_faults_def get_filter_def ensure_def ends_in_fault split: if_splits)
    next
      case (Some f)
      have p: "ends_in E s0 (filter_unload_piece x d s')"
        if "handling s0 s' x rest aw None" "holds s' x (fu_tag d)" "fu_state d = 1" "filters s' (fu_filt d) \<noteq> None" for d and s' :: spu_state
        by (rule filter_unload_piece_ends [OF that(1-3)]) (use that(4) in simp)
      show ?thesis unfolding run_filter_unload_def filter_unload_init_def using 1 E Some
        by (auto simp: filter_unload_faults_def get_filter_def Let_def ensure_def ends_in_fault split: if_splits
            intro!: ends_reserve_frame [OF h'] ends_complete_store [OF h] p) (simp_all add: set_body_def put_filter_def)
    qed
  next
    case 2
    have "holds s x (fu_tag c)" using c 2 x by (simp add: holds_owned)
    moreover have "filters s (fu_filt c) = None \<Longrightarrow> NullPointer \<in> E" using 2 E by (simp add: filter_unload_faults_def)
    ultimately show ?thesis using 2 filter_unload_piece_ends [OF h, of c E] by (simp add: run_filter_unload_def)
  next
    case 3
    have "holds s x (fu_tag c)" using c 3 x by (simp add: holds_owned)
    then show ?thesis using 3 ends_release [OF h] by (simp add: run_filter_unload_def)
  next
    case 4
    then show ?thesis using E by (auto simp: run_filter_unload_def filter_unload_faults_def ends_in_def)
  qed
qed

lemma each_tape_frame: "each_tape f xs s = Inr s' \<Longrightarrow> \<exists>B. s' = s\<lparr>spu_bufs := B\<rparr>"
proof (induction xs arbitrary: s)
  case Nil
  then show ?case by (intro exI [of _ "spu_bufs s"]) (simp add: each_tape_def)
next
  case (Cons a xs)
  then obtain b b' where "each_tape f xs (put_buf a b' s) = Inr s'"
    by (auto simp: each_tape_def res_simps)
  from Cons.IH [OF this] show ?case by (auto simp: put_buf_def)
qed

lemma each_tape_fault:
  "each_tape f xs s = Inl e \<Longrightarrow> e = NullPointer \<or> (\<exists>b. f b = Inl e)"
proof (induction xs arbitrary: s)
  case Nil
  then show ?case by (simp add: each_tape_def)
next
  case (Cons a xs)
  show ?case
  proof (cases "spu_bufs s a")
    case None
    then show ?thesis using Cons.prems by (simp add: each_tape_def get_buf_def)
  next
    case (Some b)
    show ?thesis
    proof (cases "f b")
      case (Inl e')
      then have "e' = e" using Cons.prems Some by (simp add: each_tape_def get_buf_def)
      then show ?thesis using Inl by blast
    next
      case (Inr b')
      then have "each_tape f xs (put_buf a b' s) = Inl e" using Cons.prems Some by (simp add: each_tape_def get_buf_def)
      then show ?thesis by (rule Cons.IH)
    qed
  qed
qed

lemma handling_bufs: "handling s0 (s\<lparr>spu_bufs := B\<rparr>) x rest aw b = handling s0 s x rest aw b"
  by (simp add: handling_def running_def core_def tags_held_def same_env_def)

lemma ends_tapes:
  assumes "handling s0 s x rest aw b" "NullPointer \<in> E" "\<And>b e. f b = Inl e \<Longrightarrow> e \<in> E"
    and "\<And>s'. handling s0 s' x rest aw b \<Longrightarrow> commands s' = commands s \<Longrightarrow> ends_in E s0 (k s')"
  shows "ends_in E s0 (rbind (each_tape f xs s) k)"
proof (rule ends_rbind)
  show "e \<in> E" if "each_tape f xs s = Inl e" for e using each_tape_fault [OF that] assms(2,3) by blast
next
  fix v assume v: "each_tape f xs s = Inr v"
  obtain B where B: "v = s\<lparr>spu_bufs := B\<rparr>" using each_tape_frame [OF v] by blast
  show "ends_in E s0 (k v)" using assms(1) by (intro assms(4)) (simp_all add: B handling_bufs)
qed

lemma ends_index [ends]:
  "OutOfBounds \<in> E \<Longrightarrow> (\<And>v. ends_in E s0 (k v)) \<Longrightarrow> ends_in E s0 (rbind (index_res xs i) k)"
  by (rule ends_rbind) (auto simp: index_res_def split: if_splits)

lemma attach_ends:
  assumes "handling s0 s x rest aw None"
  shows "attach_faults num_inputs f_inputs s c \<subseteq> E \<Longrightarrow> ends_in E s0 (run_filter_attach_input c s)"
    "attach_faults num_outputs f_outputs s c \<subseteq> E \<Longrightarrow> ends_in E s0 (run_filter_attach_output c s)"
  unfolding run_filter_attach_input_def run_filter_attach_output_def attach_faults_def
  by (cases "filters s (fa_filt c)"; auto simp: get_filter_def index_res_def Let_def ensure_def ends_in_fault split: if_splits
      intro!: ends_complete_store [OF assms(1)])+

lemma filter_run_loop_ends:
  assumes h: "handling s0 s x rest aw None" and c: "holder (commands s) x = None" and E: "NullPointer \<in> E"
  shows "ends_in E s0 (filter_run_loop code x c s)"
proof -
  have b: "handling s0 (set_body x (Filter_Run d) s) x rest aw None" for d using handling_body [OF h] c by simp
  have h1: "handling s0 (on_mem g (set_body x (Filter_Run d) s)) x rest aw None" for d g using b by simp
  have h2: "handling s0 (put_filter a f t) x rest aw None" if "handling s0 t x rest aw None" for a f t using that by simp
  show ?thesis unfolding filter_run_loop_def Let_def
    by (rule ends_get_filter [OF E], rule ends_tapes [OF h1 E], simp, rule ends_tapes [OF _ E], assumption, simp)
      (auto intro!: ends_return ends_complete [where rest = rest and aw = aw]
        ends_tapes [OF h2 E] ends_tapes [where rest = rest and aw = aw, OF _ E])
qed

lemma rbind_ensure: "rbind (ensure e c m) f = ensure e c (rbind m f)"
  by (simp add: ensure_def)

lemma filter_run_ends:
  assumes h: "handling s0 s x rest aw None" and c: "commands s x = Some cmd" "c_body cmd = Filter_Run c"
    and E: "filter_run_faults c \<subseteq> E"
  shows "ends_in E s0 (run_filter_run code x c s)"
proof (cases "fr_state c = 0")
  case False
  have "holder (commands s) x = None" using c by (simp add: holder_def kind_def)
  then show ?thesis using False filter_run_loop_ends [OF h] E by (simp add: run_filter_run_def filter_run_faults_def)
next
  case True
  have hc: "holder (commands s) x = None" using c by (simp add: holder_def kind_def)
  have N: "NullPointer \<in> E" "CheckFail \<in> E" using E True by (simp_all add: filter_run_faults_def)
  let ?c = "c\<lparr>fr_state := 1\<rparr>"
  have x: "x < 32" "commands s x \<noteq> None" using h by (simp_all add: handling_def)
  have last: "ends_in E s0 (filter_run_loop code x ?c (set_body x (Filter_Run ?c) t))"
    if t: "handling s0 t x rest aw None" "commands t = commands s" for t
  proof (rule filter_run_loop_ends [OF _ _ N(1)])
    show "handling s0 (set_body x (Filter_Run ?c) t) x rest aw None" using handling_body [OF t(1)] hc t(2) by simp
    show "holder (commands (set_body x (Filter_Run ?c) t)) x = None" using x t(2) by (simp add: set_body_eq holder_body)
  qed
  have "run_filter_run code x c s = ensure CheckFail (fr_filt c AND 15 = 0 \<and> fr_loop_iters c \<noteq> 0) (rbind (get_filter (fr_filt c) s) (\<lambda>filt.
     ensure CheckFail (\<not> f_busy filt)
     (ensure CheckFail (attached_inputs filt = num_inputs (f_desc filt) \<and> attached_outputs filt = num_outputs (f_desc filt))
     (rbind (each_tape (\<lambda>b. ensure CheckFail (front_action b = BUFFER_ACTION_NONE) (Inr (b\<lparr>front_action := BUFFER_ACTION_RUN\<rparr>)))
          (f_inputs filt) (put_filter (fr_filt c) (filt\<lparr>f_busy := True\<rparr>) s)) (\<lambda>s.
      rbind (each_tape (\<lambda>b. ensure CheckFail (back_action b = BUFFER_ACTION_NONE) (Inr (b\<lparr>back_action := BUFFER_ACTION_RUN\<rparr>)))
          (f_outputs filt) s) (\<lambda>s. filter_run_loop code x ?c (set_body x (Filter_Run ?c) s)))))))"
    using True by (simp add: run_filter_run_def filter_run_init_def rbind_ensure rbind_assoc)
  also have "ends_in E s0 \<dots>"
  proof (intro ends_ensure [OF N(2)] ends_get_filter [OF N(1)])
    fix filt
    have h1: "handling s0 (put_filter (fr_filt c) (filt\<lparr>f_busy := True\<rparr>) s) x rest aw None" using h by simp
    show "ends_in E s0 (rbind (each_tape (\<lambda>b. ensure CheckFail (front_action b = BUFFER_ACTION_NONE) (Inr (b\<lparr>front_action := BUFFER_ACTION_RUN\<rparr>)))
          (f_inputs filt) (put_filter (fr_filt c) (filt\<lparr>f_busy := True\<rparr>) s)) (\<lambda>s.
      rbind (each_tape (\<lambda>b. ensure CheckFail (back_action b = BUFFER_ACTION_NONE) (Inr (b\<lparr>back_action := BUFFER_ACTION_RUN\<rparr>)))
          (f_outputs filt) s) (\<lambda>s. filter_run_loop code x ?c (set_body x (Filter_Run ?c) s))))"
      by (rule ends_tapes [OF h1 N(1)], use N in \<open>simp add: ensure_def split: if_splits\<close>,
          rule ends_tapes [OF _ N(1)], assumption, use N in \<open>simp add: ensure_def split: if_splits\<close>, rule last) simp_all
  qed
  finally show ?thesis .
qed

lemma buffer_ends:
  assumes h: "handling s0 s x rest aw None"
  shows "CheckFail \<in> E \<Longrightarrow> ends_in E s0 (run_buffer_alloc_cmd c s)" "buffer_align_faults s d \<subseteq> E \<Longrightarrow> ends_in E s0 (run_buffer_align_cmd d s)"
proof -
  have *: "ends_in E s0 (rbind m (\<lambda>b. dep_complete_command (put_buf a b s)))" if "\<And>e. m = Inl e \<Longrightarrow> e = CheckFail" "CheckFail \<in> E" for m a
    by (rule ends_rbind) (use that in \<open>auto intro!: ends_complete_store [OF h]\<close>)
  show "ends_in E s0 (run_buffer_alloc_cmd c s)" if "CheckFail \<in> E" unfolding run_buffer_alloc_cmd_def
    by (rule * [OF _ that]) (simp add: run_buffer_alloc_def ensure_def split: if_splits)
  have "ends_in E s0 (rbind (run_buffer_align (bl_buf_data d) (bl_data_offset d) b)
      (\<lambda>b. dep_complete_command (put_buf (bl_buf_data d) b s)))" if "CheckFail \<in> E" for b
    by (rule * [where m = "run_buffer_align (bl_buf_data d) (bl_data_offset d) b", OF _ that])
      (simp add: run_buffer_align_def align_buffer_def ensure_def split: if_splits)
  then show "ends_in E s0 (run_buffer_align_cmd d s)" if "buffer_align_faults s d \<subseteq> E"
    using that unfolding run_buffer_align_cmd_def
    by (cases "spu_bufs s (bl_buf_data d)") (simp_all add: buffer_align_faults_def get_buf_def ends_in_fault)
qed

lemma call_func_ends: "handling s0 s x rest aw None \<Longrightarrow> ends_in E s0 (run_call_func code f s)"
  unfolding run_call_func_def by (rule ends_complete_store(3))

end
