(* ===== verification/Spu_Dt.thy ===== *)
theory Spu_Dt
  imports Spu_Filter
begin

text \<open>
  The data transfer commands of an SPU (\<open>library/cell/src/spu/dt.c\<close>, with unaligned transfers
  allowed): \<open>dt_out_front\<close> announces data to the destination and waits for its acknowledgement,
  \<open>dt_in_back\<close> copies from the source in pieces, and \<open>dt_out_front_ppu\<close> copies to a buffer in main
  memory.  The control blocks that other processors write into a buffer are fields of it that
  the environment changes; the bytes the MFC brings in are the environment's, except the unaligned
  quadword that the code merges itself.  Each label that the code jumps to is a definition.
\<close>

definition round_down_qword :: "u32 \<Rightarrow> u32" where
  "round_down_qword n = n AND NOT 15"

section \<open>Sending\<close>

text \<open>\<open>back_in_dtcb\<close> of the destination lies 16 bytes before its data; \<open>out_dtcb\<close> is at offset 32.\<close>

definition dt_out_send :: "nat \<Rightarrow> dt_out_cmd \<Rightarrow> spu_state \<Rightarrow> spu_state res" where
  "dt_out_send i c s =
     (if \<not> dma_query_avail 1 s then dma_wait_avail s
      else rbind (dma_put (do_tag c) (do_dest_buf_data c - 16) (cmd_lsa s i + 32) 8 s) (\<lambda>s.
        rbind (dma_wait_complete (do_tag c) s) (\<lambda>s. Inr (set_body i (Dt_Out (c\<lparr>do_state := 2\<rparr>)) s))))"

definition dt_out_init :: "nat \<Rightarrow> dt_out_cmd \<Rightarrow> spu_state \<Rightarrow> spu_state res" where
  "dt_out_init i c s = rbind (get_buf (do_buf_data c) s) (\<lambda>b.
     ensure CheckFail (do_buf_data c AND CACHE_MASK = 0 \<and> do_dest_buf_data c AND CACHE_MASK = 0 \<and> do_num_bytes c \<noteq> 0)
     (ensure AssertFail (ihead b = b_head b)
     (ensure CheckFail (front_action b = BUFFER_ACTION_NONE \<and> back_action b \<noteq> BUFFER_ACTION_OUT)
     (ensure CheckFail (do_num_bytes c \<le> buf_bytes_used b)
     (rbind (dma_reserve_tag s) (\<lambda>(tag, s).
        let t = (b_head b + do_num_bytes c) AND b_mask b;
          b' = b\<lparr>front_action := BUFFER_ACTION_OUT, dt_active := dt_active b + 1,
            front_in_dtcb := (front_in_dtcb b)\<lparr>dtcb_ack := b_head b\<rparr>, ihead := t\<rparr>;
          c = c\<lparr>do_tag := tag, do_out_head := b_head b, do_out_tail := t, do_state := 1\<rparr>
        in dt_out_send i c (set_body i (Dt_Out c) (put_buf (do_buf_data c) b' s))))))))"

definition dt_out_await :: "dt_out_cmd \<Rightarrow> spu_state \<Rightarrow> spu_state res" where
  "dt_out_await c s = rbind (get_buf (do_buf_data c) s) (\<lambda>b.
     let ack = dtcb_ack (front_in_dtcb b) in
     if ack \<noteq> do_out_tail c then Inr s
     else dep_complete_command (put_buf (do_buf_data c)
       (b\<lparr>b_head := ack, dt_active := dt_active b - 1, front_action := BUFFER_ACTION_NONE\<rparr>) s))"

definition run_dt_out_front :: "nat \<Rightarrow> dt_out_cmd \<Rightarrow> spu_state \<Rightarrow> spu_state res" where
  "run_dt_out_front i c s =
     (if do_state c = 0 then dt_out_init i c s
      else if do_state c = 1 then dt_out_send i c s
      else if do_state c = 2 then rbind (dma_release_tag (do_tag c) s) (\<lambda>s.
        let c = c\<lparr>do_state := 3\<rparr> in dt_out_await c (set_body i (Dt_Out c) s))
      else if do_state c = 3 then dt_out_await c s
      else Inl Unreached)"

section \<open>Receiving\<close>

text \<open>The size of the next piece: up to the end of either buffer and of the transfer, at most a DMA.\<close>

definition in_piece :: "dt_in_cmd \<Rightarrow> buffer_cb \<Rightarrow> u32 \<Rightarrow> u32" where
  "in_piece c b buf_tail =
     (let copy_bytes = (di_src_buf_mask c + 1) - di_src_head c;
       copy_bytes = (if copy_bytes > di_num_bytes c then di_num_bytes c else copy_bytes);
       dest_bytes = (b_mask b + 1) - buf_tail;
       copy_bytes = (if copy_bytes > dest_bytes then dest_bytes else copy_bytes)
     in if copy_bytes > MAX_DMA_SIZE then MAX_DMA_SIZE else copy_bytes)"

definition in_copy_next :: "nat \<Rightarrow> dt_in_cmd \<Rightarrow> u32 \<Rightarrow> spu_state \<Rightarrow> spu_state res" where
  "in_copy_next i c buf_tail s = rbind (get_buf (di_buf_data c) s) (\<lambda>b.
     let copy_bytes = in_piece c b buf_tail in
     rbind (dma_get (di_tag c) (di_buf_data c + buf_tail) (di_src_buf_data c + di_src_head c) (round_up_qword copy_bytes) s) (\<lambda>s.
       dma_wait_complete (di_tag c) (set_body i (Dt_In (c\<lparr>di_src_head := (di_src_head c + copy_bytes) AND di_src_buf_mask c,
         di_num_bytes := di_num_bytes c - copy_bytes, di_copy_bytes := copy_bytes\<rparr>)) s)))"

definition in_done :: "dt_in_cmd \<Rightarrow> spu_state \<Rightarrow> spu_state res" where
  "in_done c s = rbind (dma_release_tag (di_tag c) s) (\<lambda>s. rbind (get_buf (di_buf_data c) s) (\<lambda>b.
     ensure AssertFail (b_tail b = otail b)
       (dep_complete_command (put_buf (di_buf_data c)
         (b\<lparr>dt_active := dt_active b - 1, back_action := BUFFER_ACTION_NONE\<rparr>) s))))"

text \<open>\<open>state_dma_complete\<close>; \<open>front_in_ack\<close> is at offset 72 of the source and \<open>out_ack\<close>, which is
  \<open>src_head\<close>, at offset 40 of the command.\<close>

definition in_dma_complete :: "nat \<Rightarrow> dt_in_cmd \<Rightarrow> spu_state \<Rightarrow> spu_state res" where
  "in_dma_complete i c s =
     (if \<not> dma_query_avail 1 s then dma_wait_avail s
      else rbind (get_buf (di_buf_data c) s) (\<lambda>b.
        let buf_tail = (b_tail b + di_copy_bytes c) AND b_mask b; b = b\<lparr>b_tail := buf_tail\<rparr> in
        if di_num_bytes c = 0 then
          let b = b\<lparr>back_in_dtcb := (back_in_dtcb b)\<lparr>dtcb_head := di_src_head c\<rparr>\<rparr>; s = put_buf (di_buf_data c) b s in
          (case di_src_buf c of
             Some src_buf \<Rightarrow>
               if di_src_head c = dtcb_tail (back_in_dtcb b)
               then rbind (dma_put (di_tag c) (src_buf + 72) (cmd_lsa s i + 40) 4 s) (\<lambda>s.
                 dma_wait_complete (di_tag c) (set_body i (Dt_In (c\<lparr>di_state := 3\<rparr>)) s))
               else in_done c s
           | None \<Rightarrow> in_done c s)
        else in_copy_next i c buf_tail (put_buf (di_buf_data c) b s)))"

text \<open>State 1, once the source has announced its data.\<close>

definition in_dt_bytes :: "buffer_cb \<Rightarrow> u32 \<Rightarrow> u32 \<Rightarrow> u32" where
  "in_dt_bytes b num_bytes src_bytes =
     (let dt_bytes = (if num_bytes < CACHE_SIZE then CACHE_SIZE else num_bytes);
       dt_bytes = dt_bytes + ((16 - (b_tail b + dt_bytes)) AND 15)
     in if dt_bytes > src_bytes then src_bytes else dt_bytes)"

definition in_room :: "buffer_cb \<Rightarrow> u32" where
  "in_room b = (b_head b - (if b_head b AND 15 \<noteq> 0 then b_head b AND 15 else 1) - b_tail b) AND b_mask b"

definition in_first_piece :: "nat \<Rightarrow> dt_in_cmd \<Rightarrow> buffer_cb \<Rightarrow> spu_state \<Rightarrow> spu_state res" where
  "in_first_piece i c b s =
     (if b_tail b AND 15 \<noteq> 0 then
        rbind (dma_get (di_tag c) (cmd_lsa s i + 48) (di_src_buf_data c + round_down_qword (di_src_head c)) 16 s) (\<lambda>s.
          let ua_bytes = 16 - (di_src_head c AND 15);
            ua_bytes = (if ua_bytes > di_num_bytes c then di_num_bytes c else ua_bytes);
            c = c\<lparr>di_state := 4, di_src_head := (di_src_head c + ua_bytes) AND di_src_buf_mask c,
              di_num_bytes := di_num_bytes c - ua_bytes, di_ua_bytes := ua_bytes\<rparr> in
          if di_num_bytes c = 0
          then dma_wait_complete (di_tag c) (set_body i (Dt_In (c\<lparr>di_copy_bytes := 0\<rparr>)) s)
          else in_copy_next i c ((b_tail b + ua_bytes) AND b_mask b) s)
      else in_copy_next i (c\<lparr>di_state := 2\<rparr>) (b_tail b) s)"

definition in_begin :: "nat \<Rightarrow> dt_in_cmd \<Rightarrow> spu_state \<Rightarrow> spu_state res" where
  "in_begin i c s =
     (if \<not> dma_query_avail 2 s then dma_wait_avail s
      else rbind (get_buf (di_buf_data c) s) (\<lambda>b.
        let in_dtcb = back_in_dtcb b in
        if dtcb_head in_dtcb = dtcb_tail in_dtcb then Inr s
        else
          let num_bytes = di_num_bytes c - in_back_buffered_bytes b;
            src_bytes = (dtcb_tail in_dtcb - dtcb_head in_dtcb) AND di_src_buf_mask c;
            dt_bytes = in_dt_bytes b num_bytes src_bytes in
          ensure CheckFail (num_bytes \<le> src_bytes)
          (ensure CheckFail (b_tail b AND CACHE_MASK = dtcb_head in_dtcb AND CACHE_MASK)
          (ensure AssertFail (dt_bytes = src_bytes \<or> (b_tail b + dt_bytes) AND 15 = 0)
          (ensure CheckFail (dt_bytes \<le> in_room b)
            (let b = b\<lparr>in_back_buffered_bytes := dt_bytes - num_bytes, otail := (b_tail b + dt_bytes) AND b_mask b,
                dt_active := dt_active b + 1\<rparr>
             in in_first_piece i (c\<lparr>di_num_bytes := dt_bytes, di_src_head := dtcb_head in_dtcb\<rparr>) b
               (put_buf (di_buf_data c) b s)))))))"

definition in_init :: "nat \<Rightarrow> dt_in_cmd \<Rightarrow> spu_state \<Rightarrow> spu_state res" where
  "in_init i c s = rbind (get_buf (di_buf_data c) s) (\<lambda>b.
     ensure CheckFail (di_buf_data c AND CACHE_MASK = 0 \<and> di_src_buf_data c AND CACHE_MASK = 0 \<and> di_num_bytes c \<noteq> 0)
     (ensure AssertFail (otail b = b_tail b)
     (ensure CheckFail (back_action b = BUFFER_ACTION_NONE)
     (if di_num_bytes c \<le> in_back_buffered_bytes b
      then dep_complete_command (put_buf (di_buf_data c)
        (b\<lparr>in_back_buffered_bytes := in_back_buffered_bytes b - di_num_bytes c\<rparr>) s)
      else rbind (dma_reserve_tag (put_buf (di_buf_data c) (b\<lparr>back_action := BUFFER_ACTION_IN\<rparr>) s)) (\<lambda>(tag, s).
        let c = c\<lparr>di_tag := tag, di_state := 1\<rparr> in in_begin i c (set_body i (Dt_In c) s))))))"

text \<open>State 4: the valid bytes of the unaligned quadword go into the buffer.\<close>

definition merge_qword :: "u32 \<Rightarrow> nat \<Rightarrow> (nat \<Rightarrow> byte) \<Rightarrow> (u32 \<Rightarrow> byte) \<Rightarrow> u32 \<Rightarrow> byte" where
  "merge_qword base off q d = (\<lambda>a. let k = unat (a - base) in if off \<le> k \<and> k < 16 then q k else d a)"

definition in_unaligned :: "nat \<Rightarrow> dt_in_cmd \<Rightarrow> spu_state \<Rightarrow> spu_state res" where
  "in_unaligned i c s = rbind (get_buf (di_buf_data c) s) (\<lambda>b.
     let ua_bytes = 16 - (b_tail b AND 15); base = di_buf_data c + round_down_qword (b_tail b);
       s = s\<lparr>ls_data := merge_qword base (unat (16 - ua_bytes)) (cmd_ua_data s i) (ls_data s)\<rparr>;
       s = put_buf (di_buf_data c) (b\<lparr>b_tail := (b_tail b + di_ua_bytes c) AND b_mask b\<rparr>) s;
       c = c\<lparr>di_state := 2\<rparr>
     in in_dma_complete i c (set_body i (Dt_In c) s))"

definition run_dt_in_back :: "nat \<Rightarrow> dt_in_cmd \<Rightarrow> spu_state \<Rightarrow> spu_state res" where
  "run_dt_in_back i c s =
     (if di_state c = 0 then in_init i c s
      else if di_state c = 1 then in_begin i c s
      else if di_state c = 2 then in_dma_complete i c s
      else if di_state c = 3 then in_done c s
      else if di_state c = 4 then in_unaligned i c s
      else Inl Unreached)"

section \<open>Sending to main memory\<close>

definition ppu_piece :: "dt_out_ppu_cmd \<Rightarrow> buffer_cb \<Rightarrow> u32 \<Rightarrow> u32 \<Rightarrow> u32 \<Rightarrow> u32 \<times> nat" where
  "ppu_piece c b buf_head dest_tail num_bytes =
     (let copy_bytes = (b_mask b + 1) - buf_head; dest_bytes = (dp_dest_buf_mask c + 1) - dest_tail;
       copy_bytes = (if copy_bytes > dest_bytes then dest_bytes else copy_bytes);
       copy_bytes = (if copy_bytes > MAX_DMA_SIZE then MAX_DMA_SIZE else copy_bytes)
     in if copy_bytes \<ge> num_bytes then (num_bytes, 2) else (copy_bytes, dp_state c))"

definition ppu_copy_next :: "nat \<Rightarrow> dt_out_ppu_cmd \<Rightarrow> buffer_cb \<Rightarrow> u32 \<Rightarrow> u32 \<Rightarrow> u32 \<Rightarrow> u32 \<Rightarrow> spu_state \<Rightarrow> spu_state res" where
  "ppu_copy_next i c b ua_bytes buf_head dest_tail num_bytes s =
     (let (copy_bytes, st) = ppu_piece c b buf_head dest_tail num_bytes in
      rbind (dma_put (dp_tag c) (dp_dest_buf_data c + dest_tail) (dp_buf_data c + buf_head) (round_up_qword copy_bytes) s) (\<lambda>s.
        dma_wait_complete (dp_tag c) (set_body i (Dt_Out_Ppu (c\<lparr>dp_state := st, dp_copy_bytes := copy_bytes + ua_bytes\<rparr>)) s)))"

text \<open>The last bytes of the transfer are waited for before the state changes.\<close>

definition ppu_last :: "nat \<Rightarrow> dt_out_ppu_cmd \<Rightarrow> spu_state \<Rightarrow> spu_state res" where
  "ppu_last i c s = rbind (dma_wait_complete (dp_tag c) (set_body i (Dt_Out_Ppu c) s)) (\<lambda>s.
     Inr (set_body i (Dt_Out_Ppu (c\<lparr>dp_state := 2\<rparr>)) s))"

text \<open>The unaligned head goes to \<open>back_in_dtcb\<close> (offset 80) of the destination's control block.\<close>

definition ppu_head :: "nat \<Rightarrow> dt_out_ppu_cmd \<Rightarrow> buffer_cb \<Rightarrow> spu_state \<Rightarrow> spu_state res" where
  "ppu_head i c b s =
     (if b_head b AND 15 \<noteq> 0 then
        rbind (dma_put (dp_tag c) (dp_dest_buf c + 80) (dp_buf_data c + round_down_qword (b_head b)) 16 s) (\<lambda>s.
          let ua_bytes = 16 - (b_head b AND 15) in
          if ua_bytes \<ge> dp_num_bytes c then ppu_last i (c\<lparr>dp_copy_bytes := dp_num_bytes c\<rparr>) s
          else ppu_copy_next i c b ua_bytes ((b_head b + ua_bytes) AND b_mask b)
            ((dp_dest_tail c + ua_bytes) AND dp_dest_buf_mask c) (dp_num_bytes c - ua_bytes) s)
      else ppu_copy_next i c b 0 (b_head b) (dp_dest_tail c) (dp_num_bytes c) s)"

text \<open>The unaligned tail goes to \<open>back_in_dtcb_2\<close> (offset 48).\<close>

definition ppu_tail :: "nat \<Rightarrow> dt_out_ppu_cmd \<Rightarrow> buffer_cb \<Rightarrow> u32 \<Rightarrow> u32 \<Rightarrow> spu_state \<Rightarrow> spu_state res" where
  "ppu_tail i c b dest_bytes tail_ua_bytes s =
     (let dt_bytes = dp_num_bytes c in
      if dt_bytes = dest_bytes \<and> dp_tail_overlaps c \<and> tail_ua_bytes \<noteq> 0 \<and> dt_bytes \<ge> tail_ua_bytes then
        rbind (dma_put (dp_tag c) (dp_dest_buf c + 48)
            (dp_buf_data c + ((b_head b + dt_bytes - tail_ua_bytes) AND b_mask b)) 16 s) (\<lambda>s.
          if tail_ua_bytes = dt_bytes then ppu_last i (c\<lparr>dp_copy_bytes := tail_ua_bytes\<rparr>) s
          else ppu_head i (c\<lparr>dp_tail_ua_bytes := tail_ua_bytes, dp_num_bytes := dp_num_bytes c - tail_ua_bytes\<rparr>) b s)
      else ppu_head i c b s)"

text \<open>How much is transferred now: a tail that does not fill a quadword is kept back, and so is a
  transfer of less than a cache line that does not fill the destination (\<open>None\<close>).\<close>

definition ppu_dt_bytes :: "buffer_cb \<Rightarrow> u32 \<Rightarrow> u32 \<Rightarrow> u32 option" where
  "ppu_dt_bytes b num_bytes dest_bytes =
     (if num_bytes \<noteq> dest_bytes then
        let ua_bytes = (b_head b + num_bytes) AND 15 in
        if num_bytes \<le> ua_bytes \<or> num_bytes - ua_bytes < CACHE_SIZE then None else Some (num_bytes - ua_bytes)
      else Some num_bytes)"

definition ppu_begin :: "nat \<Rightarrow> dt_out_ppu_cmd \<Rightarrow> spu_state \<Rightarrow> spu_state res" where
  "ppu_begin i c s =
     (if \<not> dma_query_avail 3 s then dma_wait_avail s
      else rbind (get_buf (dp_buf_data c) s) (\<lambda>b.
        let in_dtcb = front_in_dtcb b in
        if dtcb_head in_dtcb = dtcb_tail in_dtcb then Inr s
        else ensure CheckFail (b_head b AND CACHE_MASK = dtcb_head in_dtcb AND CACHE_MASK)
         (let num_bytes = dp_num_bytes c + out_front_buffered_bytes b;
            dest_bytes = (dtcb_tail in_dtcb - dtcb_head in_dtcb) AND dp_dest_buf_mask c in
          ensure CheckFail (num_bytes \<le> dest_bytes)
          (case ppu_dt_bytes b num_bytes dest_bytes of
             None \<Rightarrow> dep_complete_command (put_buf (dp_buf_data c)
               (b\<lparr>out_front_buffered_bytes := num_bytes, front_action := BUFFER_ACTION_NONE\<rparr>) s)
           | Some dt_bytes \<Rightarrow>
               ensure AssertFail (dt_bytes = dest_bytes \<or> (b_head b + dt_bytes) AND 15 = 0)
               (ensure CheckFail (dt_bytes \<le> buf_bytes_used b)
                 (let b = b\<lparr>out_front_buffered_bytes := num_bytes - dt_bytes,
                     ihead := (b_head b + dt_bytes) AND b_mask b, dt_active := dt_active b + 1\<rparr>
                  in rbind (dma_reserve_tag (put_buf (dp_buf_data c) b s)) (\<lambda>(tag, s).
                    let c = c\<lparr>dp_num_bytes := dt_bytes, dp_tag := tag, dp_dest_tail := dtcb_head in_dtcb, dp_state := 1\<rparr>
                    in ppu_tail i c b dest_bytes (dtcb_tail in_dtcb AND 15) (set_body i (Dt_Out_Ppu c) s))))))))"

definition ppu_init :: "nat \<Rightarrow> dt_out_ppu_cmd \<Rightarrow> spu_state \<Rightarrow> spu_state res" where
  "ppu_init i c s = rbind (get_buf (dp_buf_data c) s) (\<lambda>b.
     ensure CheckFail (dp_buf_data c AND CACHE_MASK = 0 \<and> dp_dest_buf_data c AND CACHE_MASK = 0 \<and> dp_num_bytes c \<noteq> 0)
     (ensure AssertFail (ihead b = b_head b)
     (ensure CheckFail (front_action b = BUFFER_ACTION_NONE \<and> back_action b \<noteq> BUFFER_ACTION_OUT)
       (let c = c\<lparr>dp_state := 0\<rparr> in ppu_begin i c (set_body i (Dt_Out_Ppu c)
         (put_buf (dp_buf_data c) (b\<lparr>front_action := BUFFER_ACTION_OUT\<rparr>) s))))))"

definition ppu_continue :: "nat \<Rightarrow> dt_out_ppu_cmd \<Rightarrow> spu_state \<Rightarrow> spu_state res" where
  "ppu_continue i c s =
     (if \<not> dma_query_avail 1 s then dma_wait_avail s
      else rbind (get_buf (dp_buf_data c) s) (\<lambda>b.
        let h = (b_head b + dp_copy_bytes c) AND b_mask b; b = b\<lparr>b_head := h\<rparr>;
          c = c\<lparr>dp_dest_tail := (dp_dest_tail c + dp_copy_bytes c) AND dp_dest_buf_mask c,
            dp_num_bytes := dp_num_bytes c - dp_copy_bytes c\<rparr>
        in ppu_copy_next i c b 0 h (dp_dest_tail c) (dp_num_bytes c) (put_buf (dp_buf_data c) b s)))"

definition ppu_finish :: "dt_out_ppu_cmd \<Rightarrow> spu_state \<Rightarrow> spu_state res" where
  "ppu_finish c s = rbind (get_buf (dp_buf_data c) s) (\<lambda>b.
     let copy_bytes = dp_copy_bytes c + dp_tail_ua_bytes c;
       b = b\<lparr>b_head := (b_head b + copy_bytes) AND b_mask b,
         front_in_dtcb := (front_in_dtcb b)\<lparr>dtcb_head := (dp_dest_tail c + copy_bytes) AND dp_dest_buf_mask c\<rparr>\<rparr> in
     ensure AssertFail (dtcb_head (front_in_dtcb b) \<noteq> dtcb_tail (front_in_dtcb b) \<or> out_front_buffered_bytes b = 0)
     (rbind (dma_release_tag (dp_tag c) s) (\<lambda>s.
       ensure AssertFail (b_head b = ihead b)
         (dep_complete_command (put_buf (dp_buf_data c)
           (b\<lparr>dt_active := dt_active b - 1, front_action := BUFFER_ACTION_NONE\<rparr>) s)))))"

definition run_dt_out_front_ppu :: "nat \<Rightarrow> dt_out_ppu_cmd \<Rightarrow> spu_state \<Rightarrow> spu_state res" where
  "run_dt_out_front_ppu i c s =
     (if dp_state c = 255 then ppu_init i c s
      else if dp_state c = 0 then ppu_begin i c s
      else if dp_state c = 1 then ppu_continue i c s
      else if dp_state c = 2 then ppu_finish c s
      else Inl Unreached)"

section \<open>The handlers keep the scheduler's contract\<close>

lemma body_put [simp]: "set_body x d (put_buf a b s) = put_buf a b (set_body x d s)"
  by (cases s) (simp add: set_body_def put_buf_def)

lemma left_set_body:
  assumes "left s0 s" "x < 32" "commands s x \<noteq> None" "owned b = holder (commands s) x"
  shows "left s0 (set_body x b s)"
proof -
  have "(holder (commands s))(x := owned b) = holder (commands s)" using assms(4) by (simp add: fun_eq_iff)
  then have "tags_held (set_body x b s) None" using assms by (simp add: left_def tags_held_body) (simp add: tags_held_def)
  then show ?thesis using assms(1) by (simp add: left_def)
qed

lemma ends_wait_body:
  assumes h: "handling s0 s x rest aw (Some x)" and t: "holds s x t" "bit (dma_active_tags s) t" and b: "owned b = Some t"
  shows "ends_in E s0 (rbind (dma_wait_complete t s) (\<lambda>s. Inr (set_body x b s)))"
proof -
  obtain s' where s': "dma_wait_complete t s = Inr s'" "left s0 s'" "holder (commands s') = holder (commands s)"
    "commands s' = set_next (last rest) (hd rest) (commands s)"
    using wait_complete_left [OF h t] by auto
  have "x < 32" "commands s' x \<noteq> None" using h by (auto simp: handling_def s'(4))
  then have "left s0 (set_body x b s')" using left_set_body [OF s'(2)] b t(1) s'(3) by (simp add: holds_def)
  then show ?thesis using s'(1) by (simp add: ends_in_def)
qed

lemma ends_release_k:
  assumes h: "handling s0 s x rest aw None" and t: "holds s x t"
    and k: "\<And>s'. (\<And>a b. ends_in E s0 (dep_complete_command (put_buf a b s'))) \<Longrightarrow> ends_in E s0 (k s')"
  shows "ends_in E s0 (rbind (dma_release_tag t s) k)"
proof -
  obtain s' where s': "dma_release_tag t s = Inr s'" using release_handling [OF h t, of No_Params] by auto
  have "ends_in E s0 (dep_complete_command (put_buf a b s'))" for a b
  proof -
    have "dma_release_tag t (put_buf a b s) = Inr (put_buf a b s')"
      using s' by (auto simp: dma_release_tag_def dma_query_complete_def tag_valid_def put_buf_def res_simps)
    moreover have "ends_in E s0 (rbind (dma_release_tag t (put_buf a b s)) dep_complete_command)"
      by (rule ends_release [of _ _ x rest aw]) (simp_all add: h t)
    ultimately show ?thesis by simp
  qed
  then show ?thesis using k s' by simp
qed

lemma avail_after: "s' = mfc_start t oper (s\<lparr>dma_active_tags := A\<rparr>) \<Longrightarrow> dma_query_avail (Suc n) s \<Longrightarrow> dma_query_avail n s'"
  by (auto simp: mfc_start_def dma_query_avail_def)

lemma avail_mono: "dma_query_avail n s \<Longrightarrow> m \<le> n \<Longrightarrow> dma_query_avail m s"
  by (simp add: dma_query_avail_def)

lemma ends_fault: "e \<in> E \<Longrightarrow> ends_in E s0 (Inl e)"
  by (simp add: ends_in_def)

lemma ends_buf: "(\<And>b. ends_in UNIV s0 (k b)) \<Longrightarrow> ends_in UNIV s0 (rbind (get_buf a s) k)"
  by (rule ends_get_buf) simp_all

lemma ends_check: "(c \<Longrightarrow> ends_in UNIV s0 m) \<Longrightarrow> ends_in UNIV s0 (ensure e c m)"
  by (rule ends_ensure) simp_all

lemma dt_out_send_ends:
  assumes "handling s0 s x rest aw None" "holds s x (do_tag c)"
  shows "ends_in UNIV s0 (dt_out_send x c s)"
proof (cases "dma_query_avail 1 s")
  case False
  then show ?thesis using ends_avail [OF assms(1)] by (simp add: dt_out_send_def)
next
  case True
  then show ?thesis unfolding dt_out_send_def dma_defs
    using ends_start [OF assms _ True] ends_wait_body [of s0 _ x rest aw "do_tag c" "Dt_Out (c\<lparr>do_state := 2\<rparr>)"] by simp
qed

lemma dt_out_await_ends: "handling s0 s x rest aw None \<Longrightarrow> ends_in UNIV s0 (dt_out_await c s)"
  unfolding dt_out_await_def Let_def
  by (rule ends_buf) (auto intro: ends_return ends_complete_store)

lemma dt_out_ends:
  assumes h: "handling s0 s x rest aw None" and c: "commands s x = Some cmd" "c_body cmd = Dt_Out c"
  shows "ends_in UNIV s0 (run_dt_out_front x c s)"
proof -
  have x: "x < 32" using h by (simp add: handling_def)
  consider "do_state c = 0" | "do_state c = 1" | "do_state c = 2" | "do_state c = 3" | "do_state c > 3" by linarith
  then show ?thesis
  proof cases
    case 1
    show ?thesis unfolding run_dt_out_front_def dt_out_init_def using 1
      by (auto simp: Let_def intro!: ends_buf ends_check ends_reserve [OF h] dt_out_send_ends [where rest = rest and aw = aw])
  next
    case 2
    have "holds s x (do_tag c)" using c 2 x by (simp add: holds_owned)
    then show ?thesis using 2 dt_out_send_ends [OF h] by (simp add: run_dt_out_front_def)
  next
    case 3
    have "holds s x (do_tag c)" using c 3 x by (simp add: holds_owned)
    from release_handling [OF h this, of "Dt_Out (c\<lparr>do_state := 3\<rparr>)"]
    show ?thesis using 3 dt_out_await_ends by (auto simp: run_dt_out_front_def Let_def)
  next
    case 4
    then show ?thesis using dt_out_await_ends [OF h] by (simp add: run_dt_out_front_def)
  next
    case 5
    then show ?thesis by (simp add: run_dt_out_front_def ends_fault)
  qed
qed

lemma in_copy_next_ends:
  assumes "handling s0 s x rest aw b" "holds s x (di_tag c)" "b = None \<or> b = Some x" "dma_query_avail 1 s"
    "di_state c \<in> {1, 2, 3, 4}"
  shows "ends_in UNIV s0 (in_copy_next x c t s)"
  unfolding in_copy_next_def Let_def dma_defs
  by (intro ends_buf ends_start [OF assms(1-4)] ends_wait) (use assms(5) in auto)

lemma in_done_ends:
  assumes "handling s0 s x rest aw None" "holds s x (di_tag c)"
  shows "ends_in UNIV s0 (in_done c s)"
  unfolding in_done_def by (rule ends_release_k [OF assms]) (auto intro!: ends_buf ends_check)

lemma in_dma_complete_ends:
  assumes h: "handling s0 s x rest aw None" and t: "holds s x (di_tag c)" and st: "di_state c \<in> {1, 2, 3, 4}"
  shows "ends_in UNIV s0 (in_dma_complete x c s)"
proof (cases "dma_query_avail 1 s")
  case False
  then show ?thesis using ends_avail [OF h] by (simp add: in_dma_complete_def)
next
  case True
  have h': "handling s0 (put_buf a b s) x rest aw None" "holds (put_buf a b s) x (di_tag c)" "dma_query_avail 1 (put_buf a b s)" for a b
    using h t True by simp_all
  have ack: "ends_in UNIV s0 (rbind (dma_start (di_tag c) oper (put_buf a b s))
      (\<lambda>s. dma_wait_complete (di_tag c) (set_body x (Dt_In (c\<lparr>di_state := 3\<rparr>)) s)))" for oper a b
    by (rule ends_start [OF h'(1,2) _ h'(3)], simp) (auto intro!: ends_wait)
  note rules = in_done_ends [OF h'(1,2)] ack in_copy_next_ends [OF h'(1,2) _ h'(3) st]
  show ?thesis unfolding in_dma_complete_def using True
    by (auto simp: Let_def dma_defs intro!: ends_buf rules [simplified] split: option.split)
qed

lemma in_first_piece_ends:
  assumes h: "handling s0 s x rest aw None" and t: "holds s x (di_tag c)" and av: "dma_query_avail 2 s"
  shows "ends_in UNIV s0 (in_first_piece x c b s)"
proof (cases "b_tail b AND 15 = 0")
  case True
  then show ?thesis
    using in_copy_next_ends [OF h, of "c\<lparr>di_state := 2\<rparr>" "b_tail b"] t avail_mono [OF av, of 1]
    by (simp add: in_first_piece_def)
next
  case False
  have "ends_in UNIV s0 (rbind (dma_start (di_tag c) (Mfc_Get (di_tag c) (cmd_lsa s x + 48)
      (di_src_buf_data c + round_down_qword (di_src_head c)) 16) s) (\<lambda>s.
          let ua_bytes = 16 - (di_src_head c AND 15);
            ua_bytes = (if ua_bytes > di_num_bytes c then di_num_bytes c else ua_bytes);
            c = c\<lparr>di_state := 4, di_src_head := (di_src_head c + ua_bytes) AND di_src_buf_mask c,
              di_num_bytes := di_num_bytes c - ua_bytes, di_ua_bytes := ua_bytes\<rparr> in
          if di_num_bytes c = 0
          then dma_wait_complete (di_tag c) (set_body x (Dt_In (c\<lparr>di_copy_bytes := 0\<rparr>)) s)
          else in_copy_next x c ((b_tail b + ua_bytes) AND b_mask b) s))" (is "ends_in _ _ (rbind (dma_start _ ?o _) ?k)")
  proof (rule ends_start [OF h t _ avail_mono [OF av]])
    fix s' assume s': "handling s0 s' x rest aw (Some x)" "holds s' x (di_tag c)" "bit (dma_active_tags s') (di_tag c)"
      "s' = mfc_start (di_tag c) ?o (s\<lparr>dma_active_tags := dma_active_tags s OR tag_bit (di_tag c)\<rparr>)"
    have av': "dma_query_avail 1 s'" using avail_after [OF s'(4)] av by (simp add: numeral_2_eq_2)
    have "ends_in UNIV s0 (in_copy_next x d t s')" if "di_tag d = di_tag c" "di_state d = 4" for d t
      by (rule in_copy_next_ends [OF s'(1) _ _ av']) (use s'(2) that in simp_all)
    moreover have "ends_in UNIV s0 (dma_wait_complete (di_tag c) (set_body x (Dt_In d) s'))"
      if "di_tag d = di_tag c" "di_state d = 4" for d
      by (rule ends_wait [OF s'(1-3)]) (use that in simp)
    ultimately show "ends_in UNIV s0 (?k s')" by (simp add: Let_def)
  qed simp_all
  then show ?thesis using False by (simp add: in_first_piece_def dma_defs)
qed

lemma in_begin_ends:
  assumes h: "handling s0 s x rest aw None" and t: "holds s x (di_tag c)"
  shows "ends_in UNIV s0 (in_begin x c s)"
proof (cases "dma_query_avail 2 s")
  case False
  then show ?thesis using ends_avail [OF h] by (simp add: in_begin_def)
next
  case True
  have "ends_in UNIV s0 (in_first_piece x d b (put_buf a b' s))" if "di_tag d = di_tag c" for a b b' d
    by (rule in_first_piece_ends [of _ _ _ rest aw]) (use h t True that in simp_all)
  then show ?thesis using True ends_return [OF h] unfolding in_begin_def
    by (auto simp: Let_def intro!: ends_buf ends_check)
qed

lemma dt_in_ends:
  assumes h: "handling s0 s x rest aw None" and c: "commands s x = Some cmd" "c_body cmd = Dt_In c"
  shows "ends_in UNIV s0 (run_dt_in_back x c s)"
proof -
  have x: "x < 32" using h by (simp add: handling_def)
  have held: "holds s x (di_tag c)" if "di_state c \<in> {1, 2, 3, 4}" using c that x by (simp add: holds_owned)
  have five: "n = 0 \<or> n = 1 \<or> n = 2 \<or> n = 3 \<or> n = 4 \<or> 4 < (n::nat)" for n by linarith
  consider "di_state c = 0" | "di_state c = 1" | "di_state c = 2" | "di_state c = 3" | "di_state c = 4" | "di_state c > 4"
    using five [of "di_state c"] by (elim disjE)
  then show ?thesis
  proof cases
    case 1
    have h': "handling s0 (put_buf a b s) x rest aw None" for a b using h by simp
    show ?thesis unfolding run_dt_in_back_def in_init_def using 1
      by (auto simp: Let_def intro!: ends_buf ends_check ends_reserve [OF h'] in_begin_ends [where rest = rest and aw = aw]
          ends_complete_store [OF h])
  next
    case 2
    then show ?thesis using in_begin_ends [OF h held] by (simp add: run_dt_in_back_def)
  next
    case 3
    then show ?thesis using in_dma_complete_ends [OF h held] by (simp add: run_dt_in_back_def)
  next
    case 4
    then show ?thesis using in_done_ends [OF h held] by (simp add: run_dt_in_back_def)
  next
    case 5
    have "ends_in UNIV s0 (in_dma_complete x (c\<lparr>di_state := 2\<rparr>) (set_body x (Dt_In (c\<lparr>di_state := 2\<rparr>)) (put_buf a b (s\<lparr>ls_data := m\<rparr>))))" for a b m
    proof -
      let ?t = "put_buf a b (s\<lparr>ls_data := m\<rparr>)"
      have t: "handling s0 ?t x rest aw None" "holds ?t x (di_tag c)"
        using h held 5 by (simp_all add: holds_def)
      from handling_same_tag [OF this, of "Dt_In (c\<lparr>di_state := 2\<rparr>)"]
      have "handling s0 (set_body x (Dt_In (c\<lparr>di_state := 2\<rparr>)) ?t) x rest aw None"
        "holds (set_body x (Dt_In (c\<lparr>di_state := 2\<rparr>)) ?t) x (di_tag c)" by simp_all
      then show ?thesis by (intro in_dma_complete_ends) simp_all
    qed
    then show ?thesis using 5 unfolding run_dt_in_back_def in_unaligned_def
      by (auto simp: Let_def intro!: ends_buf)
  next
    case 6
    then show ?thesis by (simp add: run_dt_in_back_def ends_fault)
  qed
qed

lemma ppu_copy_next_ends:
  assumes "handling s0 s x rest aw b" "holds s x (dp_tag c)" "b = None \<or> b = Some x" "dma_query_avail 1 s" "dp_state c = 1"
  shows "ends_in UNIV s0 (ppu_copy_next x c bf u h t n s)"
proof -
  obtain k st where p: "ppu_piece c bf h t n = (k, st)" by (cases "ppu_piece c bf h t n")
  then have "st = 1 \<or> st = 2" using assms(5) by (auto simp: ppu_piece_def Let_def split: if_splits)
  then show ?thesis unfolding ppu_copy_next_def p dma_defs
    by (auto intro!: ends_start [OF assms(1-4)] ends_wait)
qed

lemma ppu_last_ends:
  assumes "handling s0 s x rest aw (Some x)" "holds s x (dp_tag c)" "bit (dma_active_tags s) (dp_tag c)" "dp_state c = 1"
  shows "ends_in UNIV s0 (ppu_last x c s)"
proof -
  have "handling s0 (set_body x (Dt_Out_Ppu c) s) x rest aw (Some x) \<and> holds (set_body x (Dt_Out_Ppu c) s) x (dp_tag c)"
    by (rule handling_same_tag [OF assms(1,2)]) (simp add: assms(4))
  then show ?thesis unfolding ppu_last_def using assms(3) by (intro ends_wait_body [where rest = rest and aw = aw]) simp_all
qed

lemma ppu_head_ends:
  assumes h: "handling s0 s x rest aw b" and t: "holds s x (dp_tag c)" and b: "b = None \<or> b = Some x"
    and av: "dma_query_avail 2 s" and st: "dp_state c = 1"
  shows "ends_in UNIV s0 (ppu_head x c bf s)"
proof (cases "b_head bf AND 15 = 0")
  case True
  then show ?thesis using ppu_copy_next_ends [OF h t b avail_mono [OF av] st] by (simp add: ppu_head_def)
next
  case False
  then show ?thesis unfolding ppu_head_def dma_defs
  proof (simp only: if_True not_False_eq_True, intro ends_start [OF h t b avail_mono [OF av]])
    fix s' oper assume s': "handling s0 s' x rest aw (Some x)" "holds s' x (dp_tag c)" "bit (dma_active_tags s') (dp_tag c)"
      "s' = mfc_start (dp_tag c) oper (s\<lparr>dma_active_tags := dma_active_tags s OR tag_bit (dp_tag c)\<rparr>)"
    have av': "dma_query_avail 1 s'" using avail_after [OF s'(4)] av by (simp add: numeral_2_eq_2)
    show "ends_in UNIV s0 (let ua_bytes = 16 - (b_head bf AND 15) in
          if ua_bytes \<ge> dp_num_bytes c then ppu_last x (c\<lparr>dp_copy_bytes := dp_num_bytes c\<rparr>) s'
          else ppu_copy_next x c bf ua_bytes ((b_head bf + ua_bytes) AND b_mask bf)
            ((dp_dest_tail c + ua_bytes) AND dp_dest_buf_mask c) (dp_num_bytes c - ua_bytes) s')"
      using ppu_last_ends [OF s'(1), of "c\<lparr>dp_copy_bytes := dp_num_bytes c\<rparr>"]
        ppu_copy_next_ends [OF s'(1,2) _ av' st] s'(2,3) st by (simp add: Let_def)
  qed simp
qed

lemma ppu_tail_ends:
  assumes h: "handling s0 s x rest aw None" and t: "holds s x (dp_tag c)" and av: "dma_query_avail 3 s" and st: "dp_state c = 1"
  shows "ends_in UNIV s0 (ppu_tail x c bf n u s)"
proof (cases "dp_num_bytes c = n \<and> dp_tail_overlaps c \<and> u \<noteq> 0 \<and> dp_num_bytes c \<ge> u")
  case False
  then have "ppu_tail x c bf n u s = ppu_head x c bf s" by (simp only: ppu_tail_def Let_def if_False)
  then show ?thesis using ppu_head_ends [OF h t _ avail_mono [OF av] st] by simp
next
  case True
  have "ends_in UNIV s0 (rbind (dma_start (dp_tag c) oper s) (\<lambda>s. if u = dp_num_bytes c
      then ppu_last x (c\<lparr>dp_copy_bytes := u\<rparr>) s
      else ppu_head x (c\<lparr>dp_tail_ua_bytes := u, dp_num_bytes := dp_num_bytes c - u\<rparr>) bf s))" for oper
  proof (rule ends_start [OF h t _ avail_mono [OF av]])
    fix s' assume s': "handling s0 s' x rest aw (Some x)" "holds s' x (dp_tag c)" "bit (dma_active_tags s') (dp_tag c)"
      "s' = mfc_start (dp_tag c) oper (s\<lparr>dma_active_tags := dma_active_tags s OR tag_bit (dp_tag c)\<rparr>)"
    have av': "dma_query_avail 2 s'" using avail_after [OF s'(4)] av by (simp add: eval_nat_numeral)
    show "ends_in UNIV s0 (if u = dp_num_bytes c then ppu_last x (c\<lparr>dp_copy_bytes := u\<rparr>) s'
      else ppu_head x (c\<lparr>dp_tail_ua_bytes := u, dp_num_bytes := dp_num_bytes c - u\<rparr>) bf s')"
      using ppu_last_ends [OF s'(1), of "c\<lparr>dp_copy_bytes := u\<rparr>"] s'(2,3) st
        ppu_head_ends [OF s'(1), of "c\<lparr>dp_tail_ua_bytes := u, dp_num_bytes := dp_num_bytes c - u\<rparr>" bf] av' by auto
  qed simp_all
  then show ?thesis using True by (auto simp: ppu_tail_def Let_def dma_defs)
qed

lemma ppu_begin_ends:
  assumes h: "handling s0 s x rest aw None"
  shows "ends_in UNIV s0 (ppu_begin x c s)"
proof (cases "dma_query_avail 3 s")
  case False
  then show ?thesis using ends_avail [OF h] by (simp add: ppu_begin_def)
next
  case True
  have h': "handling s0 (put_buf a b s) x rest aw None" for a b using h by simp
  have "ends_in UNIV s0 (rbind (dma_reserve_tag (put_buf a b s)) (\<lambda>(tag, s).
      let c = c\<lparr>dp_num_bytes := n, dp_tag := tag, dp_dest_tail := d, dp_state := 1\<rparr>
      in ppu_tail x c b' m u (set_body x (Dt_Out_Ppu c) s)))" for a b b' n d m u
    by (rule ends_reserve [OF h']) (use True in \<open>auto simp: Let_def dma_query_avail_def put_buf_def intro!: ppu_tail_ends [where rest = rest and aw = aw]\<close>)
  then show ?thesis using True ends_return [OF h] ends_complete_store [OF h] unfolding ppu_begin_def
    by (auto simp: Let_def intro!: ends_buf ends_check split: option.split)
qed

lemma ppu_ends:
  assumes h: "handling s0 s x rest aw None" and c: "commands s x = Some cmd" "c_body cmd = Dt_Out_Ppu c"
  shows "ends_in UNIV s0 (run_dt_out_front_ppu x c s)"
proof -
  have x: "x < 32" using h by (simp add: handling_def)
  have held: "holds s x (dp_tag c)" if "dp_state c \<in> {1, 2}" using c that x by (simp add: holds_owned)
  consider "dp_state c = 255" | "dp_state c = 0" | "dp_state c = 1" | "dp_state c = 2" | "dp_state c \<notin> {255, 0, 1, 2}" by auto
  then show ?thesis
  proof cases
    case 1
    have "holder (commands s) x = None" using c 1 by (simp add: holder_def kind_def)
    then have "handling s0 (put_buf a b (set_body x (Dt_Out_Ppu (c\<lparr>dp_state := 0\<rparr>)) s)) x rest aw None" for a b
      using handling_body [OF h, of "Dt_Out_Ppu (c\<lparr>dp_state := 0\<rparr>)"] by simp
    then show ?thesis using 1 unfolding run_dt_out_front_ppu_def ppu_init_def
      by (auto simp: Let_def intro!: ends_buf ends_check ppu_begin_ends)
  next
    case 2
    then show ?thesis using ppu_begin_ends [OF h] by (simp add: run_dt_out_front_ppu_def)
  next
    case 3
    show ?thesis
    proof (cases "dma_query_avail 1 s")
      case False
      then show ?thesis using 3 ends_avail [OF h] by (simp add: run_dt_out_front_ppu_def ppu_continue_def)
    next
      case True
      have "ends_in UNIV s0 (ppu_copy_next x d b 0 h t n (put_buf a b s))" if "dp_tag d = dp_tag c" "dp_state d = 1" for a b d h t n
        by (rule ppu_copy_next_ends [of _ _ _ rest aw None]) (use \<open>handling s0 s x rest aw None\<close> held 3 True that in simp_all)
      then show ?thesis using 3 True unfolding run_dt_out_front_ppu_def ppu_continue_def
        by (auto simp: Let_def intro!: ends_buf)
    qed
  next
    case 4
    then have t: "holds s x (dp_tag c)" using held by simp
    show ?thesis unfolding run_dt_out_front_ppu_def ppu_finish_def using 4
      by (auto simp: Let_def intro!: ends_buf ends_check ends_release_k [OF h t])
  next
    case 5
    then show ?thesis by (simp add: run_dt_out_front_ppu_def ends_fault)
  qed
qed

end
