(* ===== verification/Filter_Plan.thy ===== *)
theory Filter_Plan
  imports Spu_Filter
begin

text \<open>
  What the filter commands of an SPU do over all their turns: the pieces in which the state of a
  filter is loaded and written back, the iterations a \<open>filter_run\<close> gives its work function, and
  the count of attached tapes.
\<close>

section \<open>Pieces of a transfer\<close>

text \<open>The plan of a transfer: local address, memory address and size of each piece.\<close>

function pieces :: "u32 \<Rightarrow> u32 \<Rightarrow> u32 \<Rightarrow> (u32 \<times> u32 \<times> u32) list" where
  "pieces lsa addr n = (if n \<le> MAX_DMA_SIZE then [(lsa, addr, n)]
     else (lsa, addr, MAX_DMA_SIZE) # pieces (lsa + MAX_DMA_SIZE) (addr + MAX_DMA_SIZE) (n - MAX_DMA_SIZE))"
  by auto
termination
  by (relation "measure (\<lambda>(lsa, addr, n). unat n)")
    (auto simp: MAX_DMA_SIZE_def not_le word_less_nat_alt unat_sub word_le_nat_alt)

declare pieces.simps [simp del]

text \<open>\<open>tiles\<close>: the pieces follow each other and cover exactly \<open>n\<close> bytes, as natural numbers.\<close>

fun tiles :: "(u32 \<times> u32 \<times> u32) list \<Rightarrow> u32 \<Rightarrow> u32 \<Rightarrow> nat \<Rightarrow> bool" where
  "tiles [] lsa addr n \<longleftrightarrow> n = 0"
| "tiles ((l, a, k) # ps) lsa addr n \<longleftrightarrow> l = lsa \<and> a = addr \<and> unat k \<le> n \<and> tiles ps (lsa + k) (addr + k) (n - unat k)"

lemma pieces_tiles: "tiles (pieces lsa addr n) lsa addr (unat n)"
proof (induction lsa addr n rule: pieces.induct)
  case (1 lsa addr n)
  show ?case
  proof (cases "n \<le> MAX_DMA_SIZE")
    case True
    then show ?thesis by (subst pieces.simps) simp
  next
    case False
    then have "MAX_DMA_SIZE \<le> n" by simp
    then have "unat (n - MAX_DMA_SIZE) = unat n - unat MAX_DMA_SIZE" "unat MAX_DMA_SIZE \<le> unat n"
      by (simp_all add: unat_sub word_le_nat_alt)
    then show ?thesis using False 1 [OF False] by (subst pieces.simps) simp
  qed
qed

lemma pieces_size: "(l, a, k) \<in> set (pieces lsa addr n) \<Longrightarrow> k \<le> MAX_DMA_SIZE"
proof (induction lsa addr n rule: pieces.induct)
  case (1 lsa addr n)
  then show ?case by (subst (asm) pieces.simps) (auto split: if_splits)
qed

lemma pieces_nonzero: "n \<noteq> 0 \<Longrightarrow> (l, a, k) \<in> set (pieces lsa addr n) \<Longrightarrow> k \<noteq> 0"
proof (induction lsa addr n rule: pieces.induct)
  case (1 lsa addr n)
  have "(l, a, k) = (lsa, addr, n) \<or> k = MAX_DMA_SIZE \<or> \<not> n \<le> MAX_DMA_SIZE \<and> n - MAX_DMA_SIZE \<noteq> 0 \<and>
      (l, a, k) \<in> set (pieces (lsa + MAX_DMA_SIZE) (addr + MAX_DMA_SIZE) (n - MAX_DMA_SIZE))"
    using 1(3) pieces.simps [of lsa addr n] by (auto split: if_splits)
  then show ?case using 1(1,2) by (auto simp: MAX_DMA_SIZE_def)
qed

lemma and_15_zero: "n AND 15 = 0 \<longleftrightarrow> unat n mod 16 = 0" for n :: u32
proof -
  have "n AND 15 = take_bit 4 n" by (simp add: take_bit_eq_mask mask_eq_exp_minus_1)
  moreover have "unat (take_bit 4 n) = unat n mod 16" by (simp add: take_bit_eq_mod unat_mod)
  moreover have "take_bit 4 n = 0 \<longleftrightarrow> unat (take_bit 4 n) = 0" by (simp only: unat_eq_0)
  ultimately show ?thesis by simp
qed

lemma pieces_aligned: "n AND 15 = 0 \<Longrightarrow> (l, a, k) \<in> set (pieces lsa addr n) \<Longrightarrow> k AND 15 = 0"
proof (induction lsa addr n rule: pieces.induct)
  case (1 lsa addr n)
  have d: "(n - MAX_DMA_SIZE) AND 15 = 0" if "\<not> n \<le> MAX_DMA_SIZE"
  proof -
    have "unat (n - MAX_DMA_SIZE) = unat n - 16384" "16384 \<le> unat n"
      using that by (simp_all add: MAX_DMA_SIZE_def unat_sub word_le_nat_alt)
    moreover have "unat n mod 16 = 0" using 1(2) by (simp add: and_15_zero)
    ultimately show ?thesis unfolding and_15_zero by presburger
  qed
  have "(l, a, k) = (lsa, addr, n) \<or> k = MAX_DMA_SIZE \<or> \<not> n \<le> MAX_DMA_SIZE \<and>
      (l, a, k) \<in> set (pieces (lsa + MAX_DMA_SIZE) (addr + MAX_DMA_SIZE) (n - MAX_DMA_SIZE))"
    using 1(3) pieces.simps [of lsa addr n] by (auto split: if_splits)
  then show ?case using 1(1) 1(2) d by (auto simp: MAX_DMA_SIZE_def)
qed

text \<open>
  The plan of what is left of a load, and of what is left of writing a filter back.  In state 0 the
  command has not begun: a load will start behind the control block and its tape pointers; a filter
  without state has nothing to transfer, nor has an unload that only detaches the tapes.
\<close>

definition load_start :: "filter_load_cmd \<Rightarrow> u32" where
  "load_start c = (if fl_state c = 0 then f_state (filter_of_desc (fl_filt c) (fl_desc c)) else fl_state_lsa c)"

definition load_plan :: "filter_load_cmd \<Rightarrow> (u32 \<times> u32 \<times> u32) list" where
  "load_plan c = (if fl_state c = 2 \<or> fl_state c = 0 \<and> state_size (fl_desc c) = 0 then []
     else pieces (load_start c) (state_addr (fl_desc c)) (state_size (fl_desc c)))"

definition unload_plan :: "filter_unload_cmd \<Rightarrow> filter_cb \<Rightarrow> (u32 \<times> u32 \<times> u32) list" where
  "unload_plan c f = (if fu_state c = 2 \<or> fu_state c = 0 \<and> (fu_detach_only c \<or> state_size (f_desc f) = 0) then []
     else pieces (f_state f) (state_addr (f_desc f)) (state_size (f_desc f)))"

lemma pieces_not_Nil [simp]: "pieces l a n \<noteq> []"
  by (subst pieces.simps) simp

text \<open>
  What a turn that may transfer a piece leaves: with room in the MFC's queue, the transfer in the
  queue and the parameters; without room, everything but the scheduler's queues as it was.
\<close>

lemma transfer_turn:
  fixes s :: spu_state
  assumes h: "handling s0 s x rest aw None" and t: "holds s x t" and av: "dma_query_avail 1 s" and b: "owned b = Some t"
    and g: "g = (\<lambda>s. s) \<or> (\<exists>a f. g = put_filter a f)"
  shows "\<exists>s' cmd. rbind (dma_start t oper s) (\<lambda>s. dma_wait_complete t (set_body x b (g s))) = Inr s' \<and> left s0 s' \<and>
    mfc_log s' = mfc_log s @ [oper] \<and> commands s' x = Some cmd \<and> c_body cmd = b \<and> filters s' = filters (g s) \<and>
    dma_free_tags s' = dma_free_tags s"
proof -
  obtain s1 where s1: "dma_start t oper s = Inr s1" "handling s0 s1 x rest aw (Some x)" "bit (dma_active_tags s1) t"
    "s1 = mfc_start t oper (s\<lparr>dma_active_tags := dma_active_tags s OR tag_bit t\<rparr>)"
    using dma_start_handling [OF h t _ av] by blast
  have "holds s1 x t" using t by (simp add: s1(4) mfc_start_def holds_def)
  then have h2: "handling s0 (g s1) x rest aw (Some x)" "holds (g s1) x t" "bit (dma_active_tags (g s1)) t"
    using s1(2,3) g by auto
  have h3: "handling s0 (set_body x b (g s1)) x rest aw (Some x)" "holds (set_body x b (g s1)) x t"
    using handling_same_tag [OF h2(1,2) b] by simp_all
  obtain s' where s': "dma_wait_complete t (set_body x b (g s1)) = Inr s'" "left s0 s'"
    "s' = (set_body x b (g s1))\<lparr>dep_dequeued := True, commands := set_next (last rest) (hd rest) (commands (set_body x b (g s1))),
        dep_next_ptr := NextOf (last rest), dma_waiting := (dma_waiting (set_body x b (g s1)))[t := x]\<rparr>"
    using wait_complete_left [OF h3] h2(3) by auto
  obtain c where c: "commands s1 x = Some c" using s1(2) by (auto simp: handling_def)
  have "commands (g s1) x = Some c" using c g by auto
  then have "kind (commands s') x = Some (c_type c, c_id c, b)"
    by (simp add: s'(3)) (simp add: set_body_eq kind_body kind_def)
  then obtain cmd where "commands s' x = Some cmd" "c_body cmd = b" by (auto simp: kind_def)
  moreover have "mfc_log s' = mfc_log s @ [oper]" "filters s' = filters (g s)" "dma_free_tags s' = dma_free_tags s"
    using g by (auto simp: s'(3) set_body_eq s1(4) mfc_start_def put_filter_def)
  ultimately show ?thesis using s1(1) s'(1,2) by auto
qed

lemma no_room_turn:
  fixes s :: spu_state
  assumes h: "handling s0 s x rest aw None" and c: "commands s x = Some cmd"
  shows "\<exists>s' cmd'. dma_wait_avail s = Inr s' \<and> left s0 s' \<and> mfc_log s' = mfc_log s \<and> commands s' x = Some cmd' \<and>
    c_body cmd' = c_body cmd \<and> filters s' = filters s \<and> dma_free_tags s' = dma_free_tags s"
proof -
  obtain s' m a p q where s': "dma_wait_avail s = Inr s'" "left s0 s'" "same_but_next (commands s) m"
    "s' = s\<lparr>dep_dequeued := True, commands := m, dma_waiting_avail := a, dma_waiting_avail_ptr := p, dep_next_ptr := q\<rparr>"
    using wait_avail_kept [OF h] by blast
  have "kind m x = kind (commands s) x" using s'(3) by (simp add: same_but_next_def)
  then obtain cmd' where "m x = Some cmd'" "c_body cmd' = c_body cmd" using c by (auto simp: kind_def)
  then show ?thesis using s' by auto
qed

text \<open>Taking a tag from the pool, when one is left.\<close>

lemma reserve_some:
  assumes "dma_free_tags s \<noteq> 0"
  shows "\<exists>t. dma_reserve_tag s = Inr (t, s\<lparr>dma_free_tags := dma_free_tags s AND NOT (tag_bit t)\<rparr>) \<and> bit (dma_free_tags s) t"
proof -
  obtain t where t: "count_ls_zeros (dma_free_tags s) = Inr t" using assms by (simp add: count_ls_zeros_def)
  then show ?thesis using assms count_ls_zeros_bit [OF t] by (auto simp: dma_reserve_tag_def)
qed

lemma reserved_turn:
  fixes s :: spu_state
  assumes h: "handling s0 s x rest aw None" and c: "commands s x = Some cmd" and r: "dma_reserve_tag s = Inr (t, s')" and b: "owned b = Some t"
  shows "handling s0 (set_body x b s') x rest aw None" "commands (set_body x b s') x = Some (cmd\<lparr>c_body := b\<rparr>)"
    "mfc_log (set_body x b s') = mfc_log s" "filters (set_body x b s') = filters s" "dma_free_tags (set_body x b s') = dma_free_tags s'"
    "dma_query_avail 1 (set_body x b s') = dma_query_avail 1 s"
  using reserve_handling(1) [OF h r b] reserve_handling(3) [OF h r b] c
  by (simp_all add: set_body_def dma_query_avail_def)

text \<open>The last turn gives the tag back and completes the command.\<close>

lemma complete_frame:
  fixes s :: spu_state
  assumes "running s x rest aw" "x < 32" "dep_complete_command s = Inr s'"
  shows "filters s' = filters s" "ls_data s' = ls_data s" "spu_bufs s' = spu_bufs s" "mfc_log s' = mfc_log s"
    "dma_free_tags s' = dma_free_tags s"
proof -
  from complete_sched [OF assms(1,2)] assms(3) obtain m where
    "s' = notify_ppu (s\<lparr>dep_dequeued := True, dep_next_ptr := NextOf (last rest),
      commands := m(x := None), dep_completed_mask := dep_completed_mask s OR tag_bit x\<rparr>)" by auto
  then show "filters s' = filters s" "ls_data s' = ls_data s" "spu_bufs s' = spu_bufs s" "mfc_log s' = mfc_log s"
    "dma_free_tags s' = dma_free_tags s" by (simp_all add: notify_ppu_def)
qed

lemma release_turn:
  fixes s :: spu_state
  assumes h: "handling s0 s x rest aw None" and t: "holds s x t"
  shows "\<exists>s'. rbind (dma_release_tag t s) dep_complete_command = Inr s' \<and> left s0 s' \<and> commands s' x = None \<and>
    mfc_log s' = mfc_log s \<and> filters s' = filters s \<and> dma_free_tags s' = dma_free_tags s OR tag_bit t"
proof -
  obtain s1 where s1: "dma_release_tag t s = Inr s1" "handling s0 (set_body x No_Params s1) x rest aw None"
    "s1 = s\<lparr>dma_free_tags := dma_free_tags s OR tag_bit t\<rparr>"
    using release_handling [OF h t, of No_Params] by auto
  obtain s' where s': "rbind (dma_release_tag t s) dep_complete_command = Inr s'" "left s0 s'" "commands s' x = None"
    using release_complete_left [OF h t] by blast
  have "running s1 x rest aw" "x < 32" using s1(2) by (auto simp: handling_def)
  from complete_frame [OF this] s' s1 show ?thesis by auto
qed

lemma complete_store:
  fixes s :: spu_state
  assumes h: "handling s0 s x rest aw None" and c: "dep_complete_command s = Inr s'"
  shows "left s0 s' \<and> commands s' x = None \<and> filters s' = filters s \<and> ls_data s' = ls_data s \<and> spu_bufs s' = spu_bufs s"
proof -
  have "running s x rest aw" "x < 32" using h by (simp_all add: handling_def)
  from complete_frame [OF this c] show ?thesis using complete_left [OF h] c by auto
qed

lemma complete_turn:
  fixes s :: spu_state
  assumes h: "handling s0 s x rest aw None"
  shows "\<exists>s'. dep_complete_command s = Inr s' \<and> left s0 s' \<and> commands s' x = None \<and>
    mfc_log s' = mfc_log s \<and> filters s' = filters s \<and> dma_free_tags s' = dma_free_tags s"
proof -
  have "running s x rest aw" "x < 32" using h by (simp_all add: handling_def)
  from complete_frame [OF this] show ?thesis using complete_left [OF h] by auto
qed

lemma next_piece_plan:
  assumes "next_piece n 1 2 = (k, st)"
  shows "pieces l a n = (l, a, k) # (if st = 2 then [] else pieces (l + k) (a + k) (n - k))" "st = 1 \<or> st = 2"
  using assms pieces.simps [of l a n] by (auto simp: next_piece_def split: if_splits)

section \<open>The iterations of a run\<close>

text \<open>The chunks in which \<open>iters\<close> iterations are run, the last one shorter or empty.\<close>

function run_chunks :: "u32 \<Rightarrow> u32 \<Rightarrow> u32 list" where
  "run_chunks loop_iters iters = (if loop_iters = 0 \<or> iters \<le> loop_iters then [iters] else loop_iters # run_chunks loop_iters (iters - loop_iters))"
  by auto
termination
proof (relation "measure (\<lambda>(l, n). unat n)", simp)
  fix l n :: u32
  assume a: "\<not> (l = 0 \<or> n \<le> l)"
  then have "0 < unat l" by (simp add: unat_gt_0)
  moreover have "unat (n - l) = unat n - unat l" "unat l < unat n"
    using a by (simp_all add: unat_sub word_le_nat_alt not_le word_less_nat_alt)
  ultimately show "((l, n - l), l, n) \<in> measure (\<lambda>(l, n). unat n)" by simp
qed

declare run_chunks.simps [simp del]

lemma run_chunks_sum: "sum_list (map unat (run_chunks l n)) = unat n"
proof (induction l n rule: run_chunks.induct)
  case (1 l n)
  show ?case
  proof (cases "l = 0 \<or> n \<le> l")
    case True
    then show ?thesis by (subst run_chunks.simps) simp
  next
    case False
    then have "unat (n - l) = unat n - unat l" "unat l \<le> unat n" by (simp_all add: unat_sub word_le_nat_alt)
    then show ?thesis using False 1 [OF False] by (subst run_chunks.simps) simp
  qed
qed

lemma run_chunks_le: "l \<noteq> 0 \<Longrightarrow> k \<in> set (run_chunks l n) \<Longrightarrow> k \<le> l"
proof (induction l n rule: run_chunks.induct)
  case (1 l n)
  then show ?case using run_chunks.simps [of l n] by (auto split: if_splits)
qed

section \<open>Attached tapes\<close>

text \<open>The control block of a filter counts its attached tapes.\<close>

definition tapes_counted :: "filter_cb \<Rightarrow> bool" where
  "tapes_counted f \<longleftrightarrow> length (f_inputs f) = unat (num_inputs (f_desc f)) \<and> length (f_outputs f) = unat (num_outputs (f_desc f)) \<and>
     unat (attached_inputs f) = length (filter (\<lambda>a. a \<noteq> 0) (f_inputs f)) \<and>
     unat (attached_outputs f) = length (filter (\<lambda>a. a \<noteq> 0) (f_outputs f))"

lemma count_update:
  fixes xs :: "u32 list"
  assumes "i < length xs"
  shows "int (length (filter (\<lambda>a. a \<noteq> 0) (xs[i := v]))) =
    int (length (filter (\<lambda>a. a \<noteq> 0) xs)) + (if xs ! i = 0 then 1 else 0) - (if v = 0 then 1 else 0)"
proof -
  have c: "int (length (filter (\<lambda>a. a \<noteq> 0) (ys @ a # zs))) =
      int (length (filter (\<lambda>a. a \<noteq> 0) ys)) + int (length (filter (\<lambda>a. a \<noteq> 0) zs)) + (if a = 0 then 0 else 1)"
    for ys zs :: "u32 list" and a by simp
  have "xs = take i xs @ xs ! i # drop (Suc i) xs" using assms by (rule id_take_nth_drop)
  moreover have "xs[i := v] = take i xs @ v # drop (Suc i) xs" using assms by (rule upd_conv_take_nth_drop)
  ultimately show ?thesis using c [of "take i xs" "xs ! i" "drop (Suc i) xs"] c [of "take i xs" v "drop (Suc i) xs"]
    by (auto split: if_splits)
qed

lemma count_word:
  fixes xs :: "u32 list" and n :: u8
  assumes "i < length xs" "length xs < 256" "unat n = length (filter (\<lambda>a. a \<noteq> 0) xs)"
  shows "unat (n + (if xs ! i = 0 then 1 else 0) - (if v = 0 then 1 else 0)) = length (filter (\<lambda>a. a \<noteq> 0) (xs[i := v]))"
proof -
  let ?d = "(if xs ! i = 0 then 1 else 0) - (if v = 0 then 1 else 0) :: int"
  let ?c = "length (filter (\<lambda>a. a \<noteq> 0) (xs[i := v]))"
  have n: "uint n = int (length (filter (\<lambda>a. a \<noteq> 0) xs))" unfolding assms(3) [symmetric] by simp
  have e: "n + (if xs ! i = 0 then 1 else 0) - (if v = 0 then 1 else 0) = word_of_int (uint n + ?d)" by auto
  have "uint n + ?d = int ?c" using count_update [OF assms(1), of v] n by auto
  moreover have "?c < 256" using length_filter_le [of "\<lambda>a. a \<noteq> 0" "xs[i := v]"] assms(2) by simp
  ultimately show ?thesis unfolding e by (simp add: unat_of_nat)
qed

section \<open>An example state\<close>

text \<open>The small SPU with a filter at 4096 and a local store of zeroes.\<close>

definition small_filter :: filter_cb where
  "small_filter = \<lparr>f_desc = \<lparr>work_func = 8, fparam = 0, state_size = 20000, state_addr = 65536, num_inputs = 2, num_outputs = 1\<rparr>,
     f_state = 4160, f_inputs = [8192, 0], f_outputs = [16384], f_busy = False, attached_inputs = 1, attached_outputs = 1\<rparr>"

definition small_full :: spu_state where
  "small_full = dep_state.extend small_spu \<lparr>filters = [4096 \<mapsto> small_filter], spu_bufs = Map.empty, ls_data = (\<lambda>_. 0),
     cmd_lsa = (\<lambda>i. 2048 + of_nat i * 64), cmd_ua_data = (\<lambda>_ _. 0)\<rparr>"

lemma small_full_fields:
  "commands small_full = commands small_spu" "mfc_log small_full = []" "mfc_slots small_full = 16"
  "filters small_full = [4096 \<mapsto> small_filter]" "dma_free_tags small_full = NOT 1" "dep_cur_id small_full = 0"
  "spu_bufs small_full = Map.empty" "ls_data small_full = (\<lambda>_. 0)"
  by (simp_all add: small_full_def dep_state.defs small_spu_def)

lemma small_handling: "handling small_full small_full 0 [32, 33] [] None"
proof -
  have "running small_full 0 [32, 33] []"
    using small_running by (simp add: running_def core_def small_full_def dep_state.defs)
  moreover have "tags_held small_full None"
    using small_held by (simp add: tags_held_def small_full_def dep_state.defs)
  ultimately show ?thesis by (simp add: handling_def same_env_def small_full_fields small_spu_def small_table_def)
qed

text \<open>Command 0 with other parameters, that hold tag 1.\<close>

definition small_with :: "cmd_body \<Rightarrow> spu_state" where
  "small_with b = set_body 0 b (small_full\<lparr>dma_free_tags := NOT 3\<rparr>)"

lemma small_with_handling:
  assumes "owned b = Some 1"
  shows "handling small_full (small_with b) 0 [32, 33] [] None" "\<exists>cmd. commands (small_with b) 0 = Some cmd \<and> c_body cmd = b"
proof -
  have f: "dma_free_tags small_full AND NOT (tag_bit 1) = NOT 3"
    by (simp add: small_full_fields tag_bit_def)
  have "count_ls_zeros (NOT 1) = Inr 1" by code_simp
  then have "count_ls_zeros (dma_free_tags small_full) = Inr 1" by (simp only: small_full_fields)
  moreover have "dma_free_tags small_full \<noteq> 0" by (simp add: small_full_fields)
  ultimately have "dma_reserve_tag small_full = Inr (1, small_full\<lparr>dma_free_tags := NOT 3\<rparr>)"
    unfolding dma_reserve_tag_def f [symmetric] by (simp only: ensure_simps rbind_simps not_False_eq_True)
  from reserve_handling(1) [OF small_handling this assms]
  show "handling small_full (small_with b) 0 [32, 33] [] None" by (simp add: small_with_def)
  show "\<exists>cmd. commands (small_with b) 0 = Some cmd \<and> c_body cmd = b"
    by (simp add: small_with_def set_body_def small_full_fields small_spu_def small_table_def)
qed

lemma small_with_fields:
  "mfc_log (small_with b) = []" "mfc_slots (small_with b) = 16" "filters (small_with b) = [4096 \<mapsto> small_filter]"
  "dma_query_avail 1 (small_with b)" "ls_data (small_with b) = (\<lambda>_. 0)" "spu_bufs (small_with b) = Map.empty"
  by (simp_all add: small_with_def set_body_def small_full_fields dma_query_avail_def)

section \<open>Properties\<close>

text \<open>One turn in state 1: the next piece of the plan, or a wait for room.\<close>

lemma load_piece_turn:
  assumes "handling s0 s x rest aw None" "commands s x = Some cmd" "c_body cmd = Filter_Load c" "fl_state c = 1"
  shows "\<exists>s' cmd' c'. filter_load_piece x c s = Inr s' \<and> left s0 s' \<and> commands s' x = Some cmd' \<and> c_body cmd' = Filter_Load c' \<and>
    fl_tag c' = fl_tag c \<and> dma_free_tags s' = dma_free_tags s \<and> filters s' = filters s \<and>
    (if dma_query_avail 1 s
     then \<exists>l a k. load_plan c = (l, a, k) # load_plan c' \<and> mfc_log s' = mfc_log s @ [Mfc_Get (fl_tag c) l a k] \<and>
       fl_state c' = (if load_plan c' = [] then 2 else 1)
     else load_plan c' = load_plan c \<and> fl_state c' = 1 \<and> mfc_log s' = mfc_log s)"
proof (cases "dma_query_avail 1 s")
  case False
  then show ?thesis using no_room_turn [OF assms(1,2)] assms(3,4) by (auto simp: filter_load_piece_def)
next
  case True
  let ?d = "fl_desc c"
  have "x < 32" using assms(1) by (simp add: handling_def)
  then have t: "holds s x (fl_tag c)" using assms(2-4) by (simp add: holds_owned)
  obtain k st where n: "next_piece (state_size ?d) 1 2 = (k, st)" by (cases "next_piece (state_size ?d) 1 2")
  note p = next_piece_plan(1) [OF n, of "fl_state_lsa c" "state_addr ?d"] next_piece_plan(2) [OF n]
  let ?c = "c\<lparr>fl_state := st, fl_state_lsa := fl_state_lsa c + k,
      fl_desc := ?d\<lparr>state_size := state_size ?d - k, state_addr := state_addr ?d + k\<rparr>\<rparr>"
  have b: "owned (Filter_Load ?c) = Some (fl_tag c)" using p(2) by auto
  obtain s' cmd' where s': "rbind (dma_get (fl_tag c) (fl_state_lsa c) (state_addr ?d) k s)
      (\<lambda>s. dma_wait_complete (fl_tag c) (set_body x (Filter_Load ?c) s)) = Inr s'" "left s0 s'"
    "mfc_log s' = mfc_log s @ [Mfc_Get (fl_tag c) (fl_state_lsa c) (state_addr ?d) k]" "commands s' x = Some cmd'"
    "c_body cmd' = Filter_Load ?c" "filters s' = filters s" "dma_free_tags s' = dma_free_tags s"
    using transfer_turn [OF assms(1) t True b, of "\<lambda>s. s" "Mfc_Get (fl_tag c) (fl_state_lsa c) (state_addr ?d) k"]
    unfolding dma_get_def by blast
  have "filter_load_piece x c s = Inr s'" using s'(1) assms(4) True n by (simp add: filter_load_piece_def Let_def)
  moreover have "load_plan c = (fl_state_lsa c, state_addr ?d, k) # load_plan ?c" "fl_state ?c = (if load_plan ?c = [] then 2 else 1)"
    using p assms(4) by (auto simp: load_plan_def load_start_def)
  ultimately show ?thesis using s'(2-7) True
    by (intro exI [of _ s'] exI [of _ cmd'] exI [of _ ?c]) auto
qed

lemma load_plan_tiles:
  "fl_state c < 2 \<Longrightarrow> tiles (load_plan c) (load_start c) (state_addr (fl_desc c)) (unat (state_size (fl_desc c)))"
  using pieces_tiles by (auto simp: load_plan_def)

lemma load_plan_size: "\<forall>(l, a, k)\<in>set (load_plan c). k \<le> MAX_DMA_SIZE"
  using pieces_size by (auto simp: load_plan_def)

text \<open>C16: every turn of a \<open>filter_load\<close> follows a plan that covers the filter's state exactly, in
  consecutive pieces of at most 16384 bytes.  While the plan is not empty the command stays: its
  first turn sets up the control block, busy, and reserves a free DMA tag, and this and every later turn that
  finds room in the MFC's queue starts the transfer of the plan's next piece under that tag and leaves the rest
  of the plan, while a turn that finds no room leaves the plan as it is.  When the plan is empty the
  turn starts no transfer, gives back the tag if the command holds one, leaves the filter not busy
  and completes the command.\<close>

theorem filter_load_follows_plan:
  assumes "handling s0 s x rest aw None" "commands s x = Some cmd" "c_body cmd = Filter_Load c" "fl_state c \<le> 2"
    and "fl_state c = 0 \<Longrightarrow> fl_filt c AND 15 = 0 \<and> (state_size (fl_desc c) = 0 \<or>
      state_size (fl_desc c) AND 15 = 0 \<and> state_addr (fl_desc c) AND 15 = 0 \<and> dma_free_tags s \<noteq> 0)"
    and "fl_state c = 2 \<Longrightarrow> filters s (fl_filt c) = Some f"
  shows "(fl_state c < 2 \<longrightarrow> tiles (load_plan c) (load_start c) (state_addr (fl_desc c)) (unat (state_size (fl_desc c)))) \<and>
    (\<forall>(l, a, k)\<in>set (load_plan c). k \<le> MAX_DMA_SIZE) \<and>
    (\<exists>s'. run_filter_load x c s = Inr s' \<and> left s0 s' \<and>
      (if load_plan c = []
       then commands s' x = None \<and> mfc_log s' = mfc_log s \<and>
         dma_free_tags s' = (if fl_state c = 2 then dma_free_tags s OR tag_bit (fl_tag c) else dma_free_tags s) \<and>
         filters s' = (filters s)(fl_filt c \<mapsto> if fl_state c = 2 then f\<lparr>f_busy := False\<rparr> else filter_of_desc (fl_filt c) (fl_desc c))
       else \<exists>cmd' c'. commands s' x = Some cmd' \<and> c_body cmd' = Filter_Load c' \<and>
         (if fl_state c = 0
          then bit (dma_free_tags s) (fl_tag c') \<and> dma_free_tags s' = dma_free_tags s AND NOT (tag_bit (fl_tag c')) \<and>
            filters s' = (filters s)(fl_filt c \<mapsto> (filter_of_desc (fl_filt c) (fl_desc c))\<lparr>f_busy := True\<rparr>)
          else fl_tag c' = fl_tag c \<and> dma_free_tags s' = dma_free_tags s \<and> filters s' = filters s) \<and>
         (if dma_query_avail 1 s
          then \<exists>l a k. load_plan c = (l, a, k) # load_plan c' \<and> mfc_log s' = mfc_log s @ [Mfc_Get (fl_tag c') l a k] \<and>
            fl_state c' = (if load_plan c' = [] then 2 else 1)
          else load_plan c' = load_plan c \<and> fl_state c' = 1 \<and> mfc_log s' = mfc_log s)))" (is "_ \<and> _ \<and> (\<exists>s'. _ \<and> _ \<and> ?turn s')")
proof -
  let ?filt = "filter_of_desc (fl_filt c) (fl_desc c)"
  have h: "handling s0 (put_filter (fl_filt c) g s) x rest aw None" for g using assms(1) by simp
  have x: "x < 32" using assms(1) by (simp add: handling_def)
  have "fl_state c < 2 \<longrightarrow> tiles (load_plan c) (load_start c) (state_addr (fl_desc c)) (unat (state_size (fl_desc c)))"
    using load_plan_tiles by blast
  moreover have "\<exists>s'. run_filter_load x c s = Inr s' \<and> left s0 s' \<and> ?turn s'"
  proof -
    consider (first) "fl_state c = 0" "state_size (fl_desc c) \<noteq> 0" | (none) "fl_state c = 0" "state_size (fl_desc c) = 0"
      | (piece) "fl_state c = 1" | (last) "fl_state c = 2" using assms(4) by linarith
    then show ?thesis
    proof cases
      case first
      let ?s = "put_filter (fl_filt c) (?filt\<lparr>f_busy := True\<rparr>) s"
      obtain t s1 where t: "dma_reserve_tag ?s = Inr (t, s1)" "bit (dma_free_tags s) t" "dma_free_tags s1 = dma_free_tags s AND NOT (tag_bit t)"
        using reserve_some [of ?s] assms(5) first by (auto simp: put_filter_def)
      define c1 where "c1 = c\<lparr>fl_state := 1, fl_tag := t, fl_state_lsa := f_state ?filt\<rparr>"
      define s2 where "s2 = set_body x (Filter_Load c1) s1"
      have o: "owned (Filter_Load c1) = Some t" by (simp add: c1_def)
      have c: "commands ?s x = Some cmd" using assms(2) by simp
      note r = reserved_turn [OF h c t(1) o, folded s2_def]
      have run: "run_filter_load x c s = filter_load_piece x c1 s2"
        using first assms(5) t(1) by (simp add: run_filter_load_def filter_load_init_def Let_def c1_def s2_def)
      have p: "load_plan c1 = load_plan c" "load_plan c \<noteq> []" "fl_tag c1 = t" "fl_state c1 = 1"
        using first by (simp_all add: load_plan_def load_start_def c1_def)
      have f: "mfc_log s2 = mfc_log s" "filters s2 = (filters s)(fl_filt c \<mapsto> ?filt\<lparr>f_busy := True\<rparr>)"
        "dma_query_avail 1 s2 = dma_query_avail 1 s" by (simp_all only: r(3,4,6) holds_store) (simp_all add: put_filter_def)
      have "c_body (cmd\<lparr>c_body := Filter_Load c1\<rparr>) = Filter_Load c1" by simp
      from load_piece_turn [OF r(1,2) this p(4)] show ?thesis
        using t(2) unfolding run f r(5) t(3) p(1,3) if_not_P [OF p(2)] if_P [OF first(1)]
        by clarify (intro exI conjI, assumption+)
    next
      case none
      have "run_filter_load x c s = dep_complete_command (put_filter (fl_filt c) ?filt s)"
        using none assms(5) by (simp add: run_filter_load_def filter_load_init_def Let_def)
      moreover have "load_plan c = []" using none by (simp add: load_plan_def)
      ultimately show ?thesis using complete_turn [OF h, of ?filt] none by (auto simp: put_filter_def)
    next
      case piece
      have "load_plan c \<noteq> []" using piece by (simp add: load_plan_def)
      then show ?thesis using load_piece_turn [OF assms(1-3) piece] piece by (fastforce simp: run_filter_load_def)
    next
      case last
      let ?s = "put_filter (fl_filt c) (f\<lparr>f_busy := False\<rparr>) s"
      have t: "holds ?s x (fl_tag c)" using assms(2,3) last x by (simp add: holds_owned)
      have "run_filter_load x c s = rbind (dma_release_tag (fl_tag c) ?s) dep_complete_command"
        using last assms(6) by (auto simp: run_filter_load_def dep_complete_congruence get_filter_def rbind_def
            dest!: release_fields split: sum.splits)
      moreover have "load_plan c = []" using last by (simp add: load_plan_def)
      ultimately show ?thesis using release_turn [OF h t] last by (auto simp: put_filter_def)
    qed
  qed
  ultimately show ?thesis using load_plan_size by blast
qed

lemma small_body:
  assumes "owned b = None"
  shows "handling small_full (set_body 0 b small_full) 0 [32, 33] [] None"
    "\<exists>cmd. commands (set_body 0 b small_full) 0 = Some cmd \<and> c_body cmd = b"
proof -
  have "holder (commands small_full) 0 = None" by (simp add: small_full_fields holder_def kind_def small_spu_def small_table_def)
  then show "handling small_full (set_body 0 b small_full) 0 [32, 33] [] None"
    using assms by (intro handling_body [OF small_handling]) simp_all
  show "\<exists>cmd. commands (set_body 0 b small_full) 0 = Some cmd \<and> c_body cmd = b"
    by (simp add: set_body_def small_full_fields small_spu_def small_table_def)
qed

lemma small_body_fields:
  "mfc_log (set_body 0 b small_full) = []" "filters (set_body 0 b small_full) = [4096 \<mapsto> small_filter]"
  "dma_query_avail 1 (set_body 0 b small_full)" "dma_free_tags (set_body 0 b small_full) = NOT 1"
  by (simp_all add: set_body_def small_full_fields dma_query_avail_def)

theorem filter_load_follows_plan_witness:
  "(\<exists>c s s' c'. fl_state c = 0 \<and> run_filter_load 0 c s = Inr s' \<and> mfc_log s' = [Mfc_Get (fl_tag c') 4160 65536 16384] \<and>
      load_plan c = [(4160, 65536, 16384), (20544, 81920, 3616)] \<and> load_plan c' = [(20544, 81920, 3616)]) \<and>
    (\<exists>c s s'. fl_state c = 2 \<and> run_filter_load 0 c s = Inr s' \<and> commands s' 0 = None \<and> dma_free_tags s = NOT 3 \<and> dma_free_tags s' = NOT 1)"
proof (rule conjI)
  define c where "c = \<lparr>fl_filt = 4096, fl_state = 0, fl_tag = 0, fl_state_lsa = 0, fl_desc = f_desc small_filter\<rparr>"
  define s where "s = set_body 0 (Filter_Load c) small_full"
  have o: "owned (Filter_Load c) = None" by (simp add: c_def)
  note h = small_body(1) [OF o, folded s_def] and fields = small_body_fields [of "Filter_Load c", folded s_def]
  obtain cmd where cmd: "commands s 0 = Some cmd" "c_body cmd = Filter_Load c" using small_body(2) [OF o] by (auto simp: s_def)
  have p: "load_plan c = [(4160, 65536, 16384), (20544, 81920, 3616)]"
    by (simp add: c_def load_plan_def load_start_def filter_of_desc_def SPU_FILTER_CB_SIZE_def round_up_qword_def pieces.simps small_filter_def MAX_DMA_SIZE_def)
  have st: "fl_state c \<le> 2" "fl_state c = 0" "fl_state c \<noteq> 2" by (simp_all add: c_def)
  have "dma_free_tags s \<noteq> 0" unfolding fields by simp
  then have ok: "fl_filt c AND 15 = 0 \<and> (state_size (fl_desc c) = 0 \<or>
      state_size (fl_desc c) AND 15 = 0 \<and> state_addr (fl_desc c) AND 15 = 0 \<and> dma_free_tags s \<noteq> 0)"
    by (simp add: small_filter_def c_def)
  obtain s' c' l a k where "run_filter_load 0 c s = Inr s'" "load_plan c = (l, a, k) # load_plan c'"
    "mfc_log s' = mfc_log s @ [Mfc_Get (fl_tag c') l a k]"
    using filter_load_follows_plan [OF h cmd st(1) ok] st(3) fields(3) by (fastforce simp: p)
  then show "\<exists>c s s' c'. fl_state c = 0 \<and> run_filter_load 0 c s = Inr s' \<and> mfc_log s' = [Mfc_Get (fl_tag c') 4160 65536 16384] \<and>
      load_plan c = [(4160, 65536, 16384), (20544, 81920, 3616)] \<and> load_plan c' = [(20544, 81920, 3616)]"
    using p st(2) fields(1) by (intro exI [of _ c] exI [of _ s] exI [of _ s'] exI [of _ c']) simp
next
  let ?c = "\<lparr>fl_filt = 4096, fl_state = 2, fl_tag = 1, fl_state_lsa = 24160, fl_desc = (f_desc small_filter)\<lparr>state_size := 0\<rparr>\<rparr>"
  let ?s = "small_with (Filter_Load ?c)"
  have o: "owned (Filter_Load ?c) = Some 1" by simp
  obtain cmd where cmd: "commands ?s 0 = Some cmd" "c_body cmd = Filter_Load ?c" using small_with_handling(2) [OF o] by blast
  have p: "load_plan ?c = []" by (simp add: load_plan_def)
  have st: "fl_state ?c \<le> 2" "fl_state ?c \<noteq> 0" "fl_state ?c = 2" by simp_all
  have f: "filters ?s (fl_filt ?c) = Some small_filter" by (simp add: small_with_fields)
  have free: "dma_free_tags ?s = NOT 3" by (simp add: small_with_def set_body_def)
  from filter_load_follows_plan [OF small_with_handling(1) [OF o] cmd st(1) _ f] st(2)
  obtain s' where "run_filter_load 0 ?c ?s = Inr s'" "commands s' 0 = None" "dma_free_tags s' = dma_free_tags ?s OR tag_bit 1"
    using p by auto
  then show "\<exists>c s s'. fl_state c = 2 \<and> run_filter_load 0 c s = Inr s' \<and> commands s' 0 = None \<and> dma_free_tags s = NOT 3 \<and> dma_free_tags s' = NOT 1"
    using free by (intro exI [of _ ?c] exI [of _ ?s] exI [of _ s']) (simp add: tag_bit_def)
qed

lemma unload_piece_turn:
  assumes "handling s0 s x rest aw None" "commands s x = Some cmd" "c_body cmd = Filter_Unload c" "fu_state c = 1"
    and "filters s (fu_filt c) = Some f"
  shows "\<exists>s' cmd' c' f'. filter_unload_piece x c s = Inr s' \<and> left s0 s' \<and> commands s' x = Some cmd' \<and> c_body cmd' = Filter_Unload c' \<and>
    fu_tag c' = fu_tag c \<and> dma_free_tags s' = dma_free_tags s \<and> filters s' = (filters s)(fu_filt c \<mapsto> f') \<and>
    f' = f\<lparr>f_state := f_state f', f_desc := f_desc f'\<rparr> \<and>
    (if dma_query_avail 1 s
     then \<exists>l a k. unload_plan c f = (l, a, k) # unload_plan c' f' \<and> mfc_log s' = mfc_log s @ [Mfc_Put (fu_tag c') l a k] \<and>
       fu_state c' = (if unload_plan c' f' = [] then 2 else 1)
     else unload_plan c' f' = unload_plan c f \<and> fu_state c' = 1 \<and> mfc_log s' = mfc_log s)"
proof (cases "dma_query_avail 1 s")
  case False
  have "(filters s)(fu_filt c \<mapsto> f) = filters s" "f = f\<lparr>f_state := f_state f, f_desc := f_desc f\<rparr>"
    using assms(5) by (simp_all add: fun_upd_idem)
  then show ?thesis using no_room_turn [OF assms(1,2)] assms(3,4) False
    by (fastforce simp: filter_unload_piece_def intro!: exI [of _ c] exI [of _ f])
next
  case True
  let ?d = "f_desc f"
  have "x < 32" using assms(1) by (simp add: handling_def)
  then have t: "holds s x (fu_tag c)" using assms(2-4) by (simp add: holds_owned)
  obtain k st where n: "next_piece (state_size ?d) 1 2 = (k, st)" by (cases "next_piece (state_size ?d) 1 2")
  note p = next_piece_plan(1) [OF n, of "f_state f" "state_addr ?d"] next_piece_plan(2) [OF n]
  let ?c = "c\<lparr>fu_state := st\<rparr>"
  let ?f = "f\<lparr>f_state := f_state f + k, f_desc := ?d\<lparr>state_size := state_size ?d - k, state_addr := state_addr ?d + k\<rparr>\<rparr>"
  have b: "owned (Filter_Unload ?c) = Some (fu_tag c)" using p(2) by auto
  obtain s' cmd' where s': "rbind (dma_put (fu_tag c) (state_addr ?d) (f_state f) k s)
      (\<lambda>s. dma_wait_complete (fu_tag c) (set_body x (Filter_Unload ?c) (put_filter (fu_filt c) ?f s))) = Inr s'" "left s0 s'"
    "mfc_log s' = mfc_log s @ [Mfc_Put (fu_tag c) (f_state f) (state_addr ?d) k]" "commands s' x = Some cmd'"
    "c_body cmd' = Filter_Unload ?c" "filters s' = filters (put_filter (fu_filt c) ?f s)" "dma_free_tags s' = dma_free_tags s"
    using transfer_turn [OF assms(1) t True b, of "put_filter (fu_filt c) ?f" "Mfc_Put (fu_tag c) (f_state f) (state_addr ?d) k"]
    unfolding dma_put_def by blast
  have "filter_unload_piece x c s = Inr s'"
    using s'(1) assms(4,5) True n by (simp add: filter_unload_piece_def get_filter_def Let_def)
  moreover have "unload_plan c f = (f_state f, state_addr ?d, k) # unload_plan ?c ?f"
    "fu_state ?c = (if unload_plan ?c ?f = [] then 2 else 1)"
    using p assms(4) by (auto simp: unload_plan_def)
  moreover have "filters s' = (filters s)(fu_filt c \<mapsto> ?f)" by (simp add: s'(6) put_filter_def)
  ultimately show ?thesis using s'(2-5,7) True
    by (intro exI [of _ s'] exI [of _ cmd'] exI [of _ ?c] exI [of _ ?f]) auto
qed

lemma unload_plan_tiles:
  "fu_state c < 2 \<Longrightarrow> unload_plan c f = [] \<or> tiles (unload_plan c f) (f_state f) (state_addr (f_desc f)) (unat (state_size (f_desc f)))"
  using pieces_tiles by (auto simp: unload_plan_def)

lemma unload_plan_size: "\<forall>(l, a, k)\<in>set (unload_plan c f). k \<le> MAX_DMA_SIZE"
  using pieces_size by (auto simp: unload_plan_def)

text \<open>C17: every turn of a \<open>filter_unload\<close> writes the filter's state back along the plan given by the
  control block, whose state pointer, address and size move on with each piece: the first turn
  marks the filter busy, for good, and reserves a free DMA tag, and this and every later turn
  that finds room in the MFC's queue starts the transfer of the plan's next piece under that tag.
  With an empty plan the turn starts no transfer, gives back the tag if the command holds one and completes the command;
  a first turn that only detaches the tapes clears them instead of marking the filter.\<close>

theorem filter_unload_follows_plan:
  assumes "handling s0 s x rest aw None" "commands s x = Some cmd" "c_body cmd = Filter_Unload c" "fu_state c \<le> 2"
    and "fu_state c = 0 \<Longrightarrow> fu_filt c AND 15 = 0 \<and> \<not> f_busy f \<and> (unload_plan c f = [] \<or> dma_free_tags s \<noteq> 0)"
    and "filters s (fu_filt c) = Some f"
  shows "(fu_state c < 2 \<longrightarrow> unload_plan c f = [] \<or>
      tiles (unload_plan c f) (f_state f) (state_addr (f_desc f)) (unat (state_size (f_desc f)))) \<and>
    (\<forall>(l, a, k)\<in>set (unload_plan c f). k \<le> MAX_DMA_SIZE) \<and>
    (\<exists>s'. run_filter_unload x c s = Inr s' \<and> left s0 s' \<and>
      (if unload_plan c f = []
       then commands s' x = None \<and> mfc_log s' = mfc_log s \<and>
         dma_free_tags s' = (if fu_state c = 2 then dma_free_tags s OR tag_bit (fu_tag c) else dma_free_tags s) \<and>
         filters s' = (filters s)(fu_filt c \<mapsto> if fu_state c = 2 then f
           else if fu_detach_only c then f\<lparr>attached_inputs := 0, attached_outputs := 0,
             f_inputs := replicate (length (f_inputs f)) 0, f_outputs := replicate (length (f_outputs f)) 0\<rparr>
           else f\<lparr>f_busy := True\<rparr>)
       else \<exists>cmd' c' f'. commands s' x = Some cmd' \<and> c_body cmd' = Filter_Unload c' \<and>
         (if fu_state c = 0
          then bit (dma_free_tags s) (fu_tag c') \<and> dma_free_tags s' = dma_free_tags s AND NOT (tag_bit (fu_tag c'))
          else fu_tag c' = fu_tag c \<and> dma_free_tags s' = dma_free_tags s) \<and>
         filters s' = (filters s)(fu_filt c \<mapsto> f') \<and>
         f' = f\<lparr>f_busy := fu_state c = 0 \<or> f_busy f, f_state := f_state f', f_desc := f_desc f'\<rparr> \<and>
         (if dma_query_avail 1 s
          then \<exists>l a k. unload_plan c f = (l, a, k) # unload_plan c' f' \<and> mfc_log s' = mfc_log s @ [Mfc_Put (fu_tag c') l a k] \<and>
            fu_state c' = (if unload_plan c' f' = [] then 2 else 1)
          else unload_plan c' f' = unload_plan c f \<and> fu_state c' = 1 \<and> mfc_log s' = mfc_log s)))"
    (is "_ \<and> _ \<and> (\<exists>s'. _ \<and> _ \<and> ?turn s')")
proof -
  have h: "handling s0 (put_filter (fu_filt c) g s) x rest aw None" for g using assms(1) by simp
  have x: "x < 32" using assms(1) by (simp add: handling_def)
  have "\<exists>s'. run_filter_unload x c s = Inr s' \<and> left s0 s' \<and> ?turn s'"
  proof -
    consider (first) "fu_state c = 0" "unload_plan c f \<noteq> []" | (none) "fu_state c = 0" "unload_plan c f = []"
      | (piece) "fu_state c = 1" | (last) "fu_state c = 2" using assms(4) by linarith
    then show ?thesis
    proof cases
      case first
      let ?f = "f\<lparr>f_busy := True\<rparr>"
      let ?s = "put_filter (fu_filt c) ?f s"
      have z: "\<not> fu_detach_only c" "state_size (f_desc f) \<noteq> 0" using first by (auto simp: unload_plan_def)
      obtain t s1 where t: "dma_reserve_tag ?s = Inr (t, s1)" "bit (dma_free_tags s) t" "dma_free_tags s1 = dma_free_tags s AND NOT (tag_bit t)"
        using reserve_some [of ?s] assms(5) first by (auto simp: put_filter_def)
      define c1 where "c1 = c\<lparr>fu_state := 1, fu_tag := t\<rparr>"
      define s2 where "s2 = set_body x (Filter_Unload c1) s1"
      have o: "owned (Filter_Unload c1) = Some t" by (simp add: c1_def)
      have c: "commands ?s x = Some cmd" using assms(2) by simp
      note r = reserved_turn [OF h c t(1) o, folded s2_def]
      have run: "run_filter_unload x c s = filter_unload_piece x c1 s2"
        using first z assms(5,6) t(1) by (simp add: run_filter_unload_def filter_unload_init_def get_filter_def Let_def c1_def s2_def)
      have p: "unload_plan c1 ?f = unload_plan c f" "fu_tag c1 = t" "fu_state c1 = 1" "fu_filt c1 = fu_filt c"
        using first z by (simp_all add: unload_plan_def c1_def)
      have f: "mfc_log s2 = mfc_log s" "filters s2 = (filters s)(fu_filt c \<mapsto> ?f)"
        "dma_query_avail 1 s2 = dma_query_avail 1 s" by (simp_all only: r(3,4,6) holds_store) (simp_all add: put_filter_def)
      have fs: "c_body (cmd\<lparr>c_body := Filter_Unload c1\<rparr>) = Filter_Unload c1" "filters s2 (fu_filt c1) = Some ?f" by (simp_all add: f p(4))
      have g: "f' = ?f\<lparr>f_state := f_state f', f_desc := f_desc f'\<rparr> \<longleftrightarrow>
          f' = f\<lparr>f_busy := fu_state c = 0 \<or> f_busy f, f_state := f_state f', f_desc := f_desc f'\<rparr>" for f' using first by simp
      from unload_piece_turn [OF r(1,2) fs(1) p(3) fs(2)] show ?thesis
        using t(2) unfolding run f r(5) t(3) p(1,2,4) g if_not_P [OF first(2)] if_P [OF first(1)] fun_upd_upd
        by clarify (intro exI conjI, assumption+)
    next
      case none
      then show ?thesis using assms(5,6) complete_turn [OF h]
        by (cases "fu_detach_only c")
          (fastforce simp: run_filter_unload_def filter_unload_init_def get_filter_def Let_def put_filter_def unload_plan_def)+
    next
      case piece
      have n: "unload_plan c f \<noteq> []" "fu_state c \<noteq> 0" using piece by (simp_all add: unload_plan_def)
      have run: "run_filter_unload x c s = filter_unload_piece x c s" using piece by (simp add: run_filter_unload_def)
      have g: "f' = f\<lparr>f_state := f_state f', f_desc := f_desc f'\<rparr> \<longleftrightarrow>
          f' = f\<lparr>f_busy := fu_state c = 0 \<or> f_busy f, f_state := f_state f', f_desc := f_desc f'\<rparr>" for f' using piece by simp
      from unload_piece_turn [OF assms(1-3) piece assms(6)] show ?thesis
        unfolding run g if_not_P [OF n(1)] if_not_P [OF n(2)] by clarify (intro exI conjI, assumption+)
    next
      case last
      have t: "holds s x (fu_tag c)" using assms(2,3) last x by (simp add: holds_owned)
      have "unload_plan c f = []" "(filters s)(fu_filt c \<mapsto> f) = filters s"
        using last assms(6) by (simp_all add: unload_plan_def fun_upd_idem)
      then show ?thesis using release_turn [OF assms(1) t] last by (auto simp: run_filter_unload_def)
    qed
  qed
  then show ?thesis using unload_plan_size unload_plan_tiles by blast
qed

theorem filter_unload_follows_plan_witness:
  "(\<exists>c s s' c' f'. fu_state c = 0 \<and> run_filter_unload 0 c s = Inr s' \<and> mfc_log s' = [Mfc_Put (fu_tag c') 4160 65536 16384] \<and>
      filters s' 4096 = Some f' \<and> f_busy f' \<and> unload_plan c' f' = [(20544, 81920, 3616)]) \<and>
    (\<exists>c s s'. fu_state c = 2 \<and> run_filter_unload 0 c s = Inr s' \<and> commands s' 0 = None \<and> dma_free_tags s = NOT 3 \<and> dma_free_tags s' = NOT 1)"
proof (rule conjI)
  define c where "c = \<lparr>fu_filt = 4096, fu_state = 0, fu_tag = 0, fu_detach_only = False\<rparr>"
  define s where "s = set_body 0 (Filter_Unload c) small_full"
  have o: "owned (Filter_Unload c) = None" by (simp add: c_def)
  note h = small_body(1) [OF o, folded s_def] and fields = small_body_fields [of "Filter_Unload c", folded s_def]
  obtain cmd where cmd: "commands s 0 = Some cmd" "c_body cmd = Filter_Unload c" using small_body(2) [OF o] by (auto simp: s_def)
  have p: "unload_plan c small_filter = [(4160, 65536, 16384), (20544, 81920, 3616)]"
    by (simp add: c_def unload_plan_def pieces.simps small_filter_def MAX_DMA_SIZE_def)
  have st: "fu_state c \<le> 2" "fu_state c = 0" by (simp_all add: c_def)
  have f: "filters s (fu_filt c) = Some small_filter" by (simp add: fields c_def)
  have "dma_free_tags s \<noteq> 0" unfolding fields by simp
  then have ok: "fu_filt c AND 15 = 0 \<and> \<not> f_busy small_filter \<and> (unload_plan c small_filter = [] \<or> dma_free_tags s \<noteq> 0)"
    by (simp add: small_filter_def c_def)
  obtain s' c' f' l a k where q: "run_filter_unload 0 c s = Inr s'" "unload_plan c small_filter = (l, a, k) # unload_plan c' f'"
    "mfc_log s' = mfc_log s @ [Mfc_Put (fu_tag c') l a k]" "filters s' = (filters s)(fu_filt c \<mapsto> f')"
    "f' = small_filter\<lparr>f_busy := fu_state c = 0 \<or> f_busy small_filter, f_state := f_state f', f_desc := f_desc f'\<rparr>"
    using filter_unload_follows_plan [OF h cmd st(1) ok f] fields(3) by (fastforce simp: p)
  have "f_busy f'" using st(2) by (subst q(5)) simp
  then show "\<exists>c s s' c' f'. fu_state c = 0 \<and> run_filter_unload 0 c s = Inr s' \<and> mfc_log s' = [Mfc_Put (fu_tag c') 4160 65536 16384] \<and>
      filters s' 4096 = Some f' \<and> f_busy f' \<and> unload_plan c' f' = [(20544, 81920, 3616)]"
    using q(1-4) p st(2) fields(1) by (intro exI [of _ c] exI [of _ s] exI [of _ s'] exI [of _ c'] exI [of _ f']) (simp add: c_def)
next
  let ?c = "\<lparr>fu_filt = 4096, fu_state = 2, fu_tag = 1, fu_detach_only = False\<rparr>"
  let ?s = "small_with (Filter_Unload ?c)"
  have o: "owned (Filter_Unload ?c) = Some 1" by simp
  obtain cmd where cmd: "commands ?s 0 = Some cmd" "c_body cmd = Filter_Unload ?c" using small_with_handling(2) [OF o] by blast
  have p: "unload_plan ?c small_filter = []" by (simp add: unload_plan_def)
  have st: "fu_state ?c \<le> 2" "fu_state ?c \<noteq> 0" "fu_state ?c = 2" by simp_all
  have f: "filters ?s (fu_filt ?c) = Some small_filter" by (simp add: small_with_fields)
  have free: "dma_free_tags ?s = NOT 3" by (simp add: small_with_def set_body_def)
  from filter_unload_follows_plan [OF small_with_handling(1) [OF o] cmd st(1) _ f] st(2)
  obtain s' where "run_filter_unload 0 ?c ?s = Inr s'" "commands s' 0 = None" "dma_free_tags s' = dma_free_tags ?s OR tag_bit 1"
    using p by auto
  then show "\<exists>c s s'. fu_state c = 2 \<and> run_filter_unload 0 c s = Inr s' \<and> commands s' 0 = None \<and> dma_free_tags s = NOT 3 \<and> dma_free_tags s' = NOT 1"
    using free by (intro exI [of _ ?c] exI [of _ ?s] exI [of _ s']) (simp add: tag_bit_def)
qed



text \<open>C37: the transfer that a \<open>load_data\<close> starts for a piece has the size of all the data that is left, while
  the addresses move on by the piece: more than 16384 bytes of data go to the MFC in one transfer
  that is larger than it takes.\<close>

theorem load_data_piece_oversized:
  assumes "handling s0 s x rest aw None" "commands s x = Some cmd" "c_body cmd = Load_Data c" "ld_state c = 1"
    and "dma_query_avail 1 s" "ld_num_bytes c > MAX_DMA_SIZE"
  shows "\<exists>s' cmd' c'. run_load_data x c s = Inr s' \<and>
    mfc_log s' = mfc_log s @ [Mfc_Get (ld_tag c) (ld_dest_lsa c) (ld_src_addr c) (ld_num_bytes c)] \<and>
    commands s' x = Some cmd' \<and> c_body cmd' = Load_Data c' \<and> ld_dest_lsa c' = ld_dest_lsa c + MAX_DMA_SIZE \<and>
    ld_num_bytes c' = ld_num_bytes c - MAX_DMA_SIZE"
proof -
  have x: "x < 32" using assms(1) by (simp add: handling_def)
  have t: "holds s x (ld_tag c)" using assms(2-4) x by (simp add: holds_owned)
  let ?c = "c\<lparr>ld_dest_lsa := ld_dest_lsa c + MAX_DMA_SIZE, ld_src_addr := ld_src_addr c + MAX_DMA_SIZE,
      ld_num_bytes := ld_num_bytes c - MAX_DMA_SIZE, ld_state := 1\<rparr>"
  have b: "owned (Load_Data ?c) = Some (ld_tag c)" by simp
  obtain s' cmd' where s': "rbind (dma_get (ld_tag c) (ld_dest_lsa c) (ld_src_addr c) (ld_num_bytes c) s)
      (\<lambda>s. dma_wait_complete (ld_tag c) (set_body x (Load_Data ?c) s)) = Inr s'"
    "mfc_log s' = mfc_log s @ [Mfc_Get (ld_tag c) (ld_dest_lsa c) (ld_src_addr c) (ld_num_bytes c)]"
    "commands s' x = Some cmd'" "c_body cmd' = Load_Data ?c"
    using transfer_turn [OF assms(1) t assms(5) b, of "\<lambda>s. s" "Mfc_Get (ld_tag c) (ld_dest_lsa c) (ld_src_addr c) (ld_num_bytes c)"]
    unfolding dma_get_def by blast
  have "\<not> ld_num_bytes c \<le> MAX_DMA_SIZE" using assms(6) by (simp only: not_le)
  then have "run_load_data x c s = Inr s'"
    using s'(1) assms(4,5) by (simp add: run_load_data_def load_data_piece_def next_piece_def)
  then show ?thesis using s'(2-4) by (intro exI [of _ s'] exI [of _ cmd'] exI [of _ ?c]) simp
qed

theorem load_data_piece_oversized_witness:
  "\<exists>c s s'. run_load_data 0 c s = Inr s' \<and> mfc_log s' = [Mfc_Get 1 4096 65536 32768]"
proof -
  let ?c = "\<lparr>ld_dest_lsa = 4096, ld_src_addr = 65536, ld_num_bytes = 32768, ld_state = 1, ld_tag = 1\<rparr>"
  have o: "owned (Load_Data ?c) = Some 1" by simp
  obtain cmd where cmd: "commands (small_with (Load_Data ?c)) 0 = Some cmd" "c_body cmd = Load_Data ?c"
    using small_with_handling(2) [OF o] by blast
  have "MAX_DMA_SIZE < ld_num_bytes ?c" by (simp add: MAX_DMA_SIZE_def)
  then obtain s' where "run_load_data 0 ?c (small_with (Load_Data ?c)) = Inr s'"
    "mfc_log s' = mfc_log (small_with (Load_Data ?c)) @ [Mfc_Get 1 4096 65536 32768]"
    using load_data_piece_oversized [OF small_with_handling(1) [OF o] cmd _ small_with_fields(4)] by auto
  then show ?thesis
    by (intro exI [of _ ?c] exI [of _ "small_with (Load_Data ?c)"] exI [of _ s']) (simp add: small_with_fields(1))
qed

lemma run_chunks_step:
  assumes "l \<noteq> 0" "k = (if l \<le> n then l else n)"
  shows "run_chunks l n = k # (if n - k = 0 then [] else run_chunks l (n - k))"
  unfolding assms(2) using assms(1) by (subst run_chunks.simps) auto

text \<open>What a walk over the tapes does to the buffers.\<close>

definition on_tapes :: "(buffer_cb \<Rightarrow> buffer_cb) \<Rightarrow> u32 list \<Rightarrow> (u32 \<Rightarrow> buffer_cb option) \<Rightarrow> (u32 \<Rightarrow> buffer_cb option)" where
  "on_tapes g xs B = (\<lambda>a. if a \<in> set xs then map_option g (B a) else B a)"

lemma each_tape_on_tapes:
  assumes "each_tape f xs s = Inr s'" "\<And>b b'. f b = Inr b' \<Longrightarrow> b' = g b" "\<And>b. g (g b) = g b"
  shows "s' = s\<lparr>spu_bufs := on_tapes g xs (spu_bufs s)\<rparr>"
  using assms(1)
proof (induction xs arbitrary: s)
  case Nil
  then show ?case by (simp add: each_tape_def on_tapes_def)
next
  case (Cons a xs)
  then obtain b b' where b: "spu_bufs s a = Some b" "f b = Inr b'" "each_tape f xs (put_buf a b' s) = Inr s'"
    by (auto simp: each_tape_def res_simps get_buf_def)
  have "on_tapes g xs ((spu_bufs s)(a \<mapsto> g b)) = on_tapes g (a # xs) (spu_bufs s)"
    using b(1) by (auto simp: on_tapes_def fun_eq_iff assms(3))
  then show ?case using Cons.IH [OF b(3)] assms(2) [OF b(2)] by (simp add: put_buf_def del: fun_upd_apply)
qed

text \<open>The buffers while a run is on its way, after the work function, and when the run is over.\<close>

definition run_marked :: "filter_cb \<Rightarrow> (u32 \<Rightarrow> buffer_cb option) \<Rightarrow> (u32 \<Rightarrow> buffer_cb option)" where
  "run_marked f B = on_tapes (\<lambda>b. b\<lparr>back_action := BUFFER_ACTION_RUN\<rparr>) (f_outputs f)
     (on_tapes (\<lambda>b. b\<lparr>front_action := BUFFER_ACTION_RUN\<rparr>) (f_inputs f) B)"

definition run_advanced :: "filter_cb \<Rightarrow> (u32 \<Rightarrow> buffer_cb option) \<Rightarrow> (u32 \<Rightarrow> buffer_cb option)" where
  "run_advanced f B = on_tapes (\<lambda>b. b\<lparr>otail := b_tail b\<rparr>) (f_outputs f) (on_tapes (\<lambda>b. b\<lparr>ihead := b_head b\<rparr>) (f_inputs f) B)"

definition run_released :: "filter_cb \<Rightarrow> (u32 \<Rightarrow> buffer_cb option) \<Rightarrow> (u32 \<Rightarrow> buffer_cb option)" where
  "run_released f B = on_tapes (\<lambda>b. b\<lparr>back_action := BUFFER_ACTION_NONE\<rparr>) (f_outputs f)
     (on_tapes (\<lambda>b. b\<lparr>front_action := BUFFER_ACTION_NONE\<rparr>) (f_inputs f) B)"

lemma filter_run_init_eq:
  assumes "filter_run_init x c s = Inr s1" "filters s (fr_filt c) = Some f"
  shows "s1 = set_body x (Filter_Run (c\<lparr>fr_state := 1\<rparr>)) (put_filter (fr_filt c) (f\<lparr>f_busy := True\<rparr>) s\<lparr>spu_bufs := run_marked f (spu_bufs s)\<rparr>)"
    "\<not> f_busy f" "fr_loop_iters c \<noteq> 0" "attached_inputs f = num_inputs (f_desc f)" "attached_outputs f = num_outputs (f_desc f)"
proof -
  obtain s2 s3 where r: "each_tape (\<lambda>b. ensure CheckFail (front_action b = BUFFER_ACTION_NONE) (Inr (b\<lparr>front_action := BUFFER_ACTION_RUN\<rparr>)))
          (f_inputs f) (put_filter (fr_filt c) (f\<lparr>f_busy := True\<rparr>) s) = Inr s2"
    "each_tape (\<lambda>b. ensure CheckFail (back_action b = BUFFER_ACTION_NONE) (Inr (b\<lparr>back_action := BUFFER_ACTION_RUN\<rparr>))) (f_outputs f) s2 = Inr s3"
    "s1 = set_body x (Filter_Run (c\<lparr>fr_state := 1\<rparr>)) s3"
    and z: "\<not> f_busy f" "fr_loop_iters c \<noteq> 0" "attached_inputs f = num_inputs (f_desc f)" "attached_outputs f = num_outputs (f_desc f)"
    using assms by (auto simp: filter_run_init_def get_filter_def res_simps)
  have "s2 = (put_filter (fr_filt c) (f\<lparr>f_busy := True\<rparr>) s)\<lparr>spu_bufs := on_tapes (\<lambda>b. b\<lparr>front_action := BUFFER_ACTION_RUN\<rparr>) (f_inputs f) (spu_bufs s)\<rparr>"
    using each_tape_on_tapes [OF r(1), of "\<lambda>b. b\<lparr>front_action := BUFFER_ACTION_RUN\<rparr>"] by (simp add: res_simps put_filter_def)
  moreover have "s3 = s2\<lparr>spu_bufs := on_tapes (\<lambda>b. b\<lparr>back_action := BUFFER_ACTION_RUN\<rparr>) (f_outputs f) (spu_bufs s2)\<rparr>"
    using each_tape_on_tapes [OF r(2), of "\<lambda>b. b\<lparr>back_action := BUFFER_ACTION_RUN\<rparr>"] by (simp add: res_simps)
  ultimately show "s1 = set_body x (Filter_Run (c\<lparr>fr_state := 1\<rparr>)) (put_filter (fr_filt c) (f\<lparr>f_busy := True\<rparr>) s\<lparr>spu_bufs := run_marked f (spu_bufs s)\<rparr>)"
    using r(3) by (simp add: run_marked_def)
qed (use assms in \<open>auto simp: filter_run_init_def get_filter_def res_simps\<close>)

text \<open>A turn after the first: what the loop does in the state it finds.\<close>

lemma filter_run_loop_turn:
  assumes "handling s0 s x rest aw None" "commands s x = Some cmd" "c_body cmd = Filter_Run c"
    and "filters s (fr_filt c) = Some f" "fr_loop_iters c \<noteq> 0" "filter_run_loop code x c s = Inr s'"
  shows "\<exists>k ks. run_chunks (fr_loop_iters c) (fr_iters c) = k # ks \<and> left s0 s' \<and>
    (\<exists>B. (B, ls_data s') = work_code code (work_func (f_desc f)) (fparam (f_desc f)) (f_state f) (f_inputs f) (f_outputs f) k (spu_bufs s, ls_data s) \<and>
    (if ks = []
     then commands s' x = None \<and> filters s' = (filters s)(fr_filt c \<mapsto> f\<lparr>f_busy := False\<rparr>) \<and> spu_bufs s' = run_released f (run_advanced f B)
     else filters s' = filters s \<and> spu_bufs s' = run_advanced f B \<and>
       (\<exists>cmd' c'. commands s' x = Some cmd' \<and> c_body cmd' = Filter_Run c' \<and> fr_state c' = fr_state c \<and> fr_filt c' = fr_filt c \<and>
         run_chunks (fr_loop_iters c') (fr_iters c') = ks)))"
proof -
  define k where "k = (if fr_loop_iters c \<le> fr_iters c then fr_loop_iters c else fr_iters c)"
  define c' where "c' = c\<lparr>fr_iters := fr_iters c - k\<rparr>"
  define work where "work = work_code code (work_func (f_desc f)) (fparam (f_desc f)) (f_state f) (f_inputs f) (f_outputs f) k"
  define s1 where "s1 = on_mem work (set_body x (Filter_Run c') s)"
  obtain B d where w: "work (spu_bufs s, ls_data s) = (B, d)" by (cases "work (spu_bufs s, ls_data s)")
  have ch: "run_chunks (fr_loop_iters c) (fr_iters c) = k # (if fr_iters c - k = 0 then [] else run_chunks (fr_loop_iters c) (fr_iters c - k))"
    by (rule run_chunks_step [OF assms(5) k_def])
  have own: "holder (commands s) x = None" using assms(2,3) by (simp add: holder_def kind_def)
  have h1: "handling s0 s1 x rest aw None" using handling_body [OF assms(1)] own by (simp add: s1_def)
  have m: "ls_data s1 = d" "spu_bufs s1 = B" "filters s1 = filters s" "commands s1 = body_table x (Filter_Run c') (commands s)"
    by (simp_all add: s1_def on_mem_def set_body_eq w)
  have eq: "filter_run_loop code x c s = rbind (each_tape (\<lambda>b. Inr (b\<lparr>ihead := b_head b\<rparr>)) (f_inputs f) s1) (\<lambda>s.
     rbind (each_tape (\<lambda>b. Inr (b\<lparr>otail := b_tail b\<rparr>)) (f_outputs f) s) (\<lambda>s.
       if fr_iters c' = 0
       then rbind (each_tape (\<lambda>b. Inr (b\<lparr>front_action := BUFFER_ACTION_NONE\<rparr>)) (f_inputs f)
              (put_filter (fr_filt c') (f\<lparr>f_busy := False\<rparr>) s)) (\<lambda>s.
            rbind (each_tape (\<lambda>b. Inr (b\<lparr>back_action := BUFFER_ACTION_NONE\<rparr>)) (f_outputs f) s) dep_complete_command)
       else Inr s))"
    using assms(4) by (simp add: filter_run_loop_def get_filter_def Let_def s1_def work_def c'_def k_def cong: if_cong)
  obtain s2 s3 where s2: "each_tape (\<lambda>b. Inr (b\<lparr>ihead := b_head b\<rparr>)) (f_inputs f) s1 = Inr s2"
    and s3: "each_tape (\<lambda>b. Inr (b\<lparr>otail := b_tail b\<rparr>)) (f_outputs f) s2 = Inr s3"
    and last: "(if fr_iters c' = 0
       then rbind (each_tape (\<lambda>b. Inr (b\<lparr>front_action := BUFFER_ACTION_NONE\<rparr>)) (f_inputs f)
              (put_filter (fr_filt c') (f\<lparr>f_busy := False\<rparr>) s3)) (\<lambda>s.
            rbind (each_tape (\<lambda>b. Inr (b\<lparr>back_action := BUFFER_ACTION_NONE\<rparr>)) (f_outputs f) s) dep_complete_command)
       else Inr s3) = Inr s'"
    using assms(6) unfolding eq by (auto simp only: rbind_eq_Inr)
  have A: "s3 = s1\<lparr>spu_bufs := run_advanced f B\<rparr>"
    using each_tape_on_tapes [OF s2, of "\<lambda>b. b\<lparr>ihead := b_head b\<rparr>"] each_tape_on_tapes [OF s3, of "\<lambda>b. b\<lparr>otail := b_tail b\<rparr>"]
    by (simp add: run_advanced_def m)
  have h3: "handling s0 s3 x rest aw None" using h1 by (simp add: A handling_bufs)
  have it: "fr_iters c' = fr_iters c - k" "fr_filt c' = fr_filt c" by (simp_all add: c'_def)
  have ne: "run_chunks (fr_loop_iters c) (fr_iters c - k) \<noteq> []" by (subst run_chunks.simps) simp
  note wd = w [unfolded work_def]
  show ?thesis
  proof (cases "fr_iters c - k = 0")
    case False
    then have s': "s' = s3" using last it by simp
    have "left s0 s3" by (rule handling_return [OF h3])
    moreover obtain cmd' where "commands s3 x = Some cmd'" "c_body cmd' = Filter_Run c'"
      using assms(2) by (auto simp: A m body_table_def)
    moreover have "fr_loop_iters c' = fr_loop_iters c" "fr_state c' = fr_state c" by (simp_all add: c'_def)
    ultimately show ?thesis using False ch ne it unfolding s'
      by (intro exI [of _ k] exI [of _ "run_chunks (fr_loop_iters c) (fr_iters c - k)"] conjI exI [of _ B])
        (simp_all add: A m wd)
  next
    case True
    then obtain s4 s5 where s4: "each_tape (\<lambda>b. Inr (b\<lparr>front_action := BUFFER_ACTION_NONE\<rparr>)) (f_inputs f)
        (put_filter (fr_filt c) (f\<lparr>f_busy := False\<rparr>) s3) = Inr s4"
      "each_tape (\<lambda>b. Inr (b\<lparr>back_action := BUFFER_ACTION_NONE\<rparr>)) (f_outputs f) s4 = Inr s5" "dep_complete_command s5 = Inr s'"
      using last it by (auto simp: res_simps)
    have C: "s5 = (put_filter (fr_filt c) (f\<lparr>f_busy := False\<rparr>) s3)\<lparr>spu_bufs := run_released f (run_advanced f B)\<rparr>"
      using each_tape_on_tapes [OF s4(1), of "\<lambda>b. b\<lparr>front_action := BUFFER_ACTION_NONE\<rparr>"]
        each_tape_on_tapes [OF s4(2), of "\<lambda>b. b\<lparr>back_action := BUFFER_ACTION_NONE\<rparr>"]
      by (simp add: run_released_def A put_filter_def)
    have "handling s0 s5 x rest aw None" using h3 by (simp add: C handling_bufs)
    from complete_store [OF this s4(3)] show ?thesis using True ch
      by (intro exI [of _ k] exI [of _ "[]"] conjI exI [of _ B]) (simp_all add: C A m put_filter_def wd)
  qed
qed

text \<open>C18: the turns of a \<open>filter_run\<close> give the work function its iterations in chunks of \<open>loop_iters\<close>,
  the last one what is left, which add up to the iterations asked for.  The first turn, which must
  find the filter idle and all its tapes attached, marks the filter busy and the ends of its buffers as running; it and
  every later turn run the next chunk on the buffers and the bytes they find, and move \<open>ihead\<close> and \<open>otail\<close> of the tapes
  up.  The turn of the last chunk takes the marks of the buffers and of the filter back and completes the command, the
  others leave the rest of the chunks for the command's next turn.\<close>

theorem filter_run_turn:
  assumes "handling s0 s x rest aw None" "commands s x = Some cmd" "c_body cmd = Filter_Run c"
    and "filters s (fr_filt c) = Some f" "fr_loop_iters c \<noteq> 0" "run_filter_run code x c s = Inr s'"
  shows "sum_list (map unat (run_chunks (fr_loop_iters c) (fr_iters c))) = unat (fr_iters c) \<and>
    (fr_state c = 0 \<longrightarrow> \<not> f_busy f \<and> attached_inputs f = num_inputs (f_desc f) \<and> attached_outputs f = num_outputs (f_desc f)) \<and>
    (\<exists>k ks. run_chunks (fr_loop_iters c) (fr_iters c) = k # ks \<and> left s0 s' \<and>
    (\<exists>B. (B, ls_data s') = work_code code (work_func (f_desc f)) (fparam (f_desc f)) (f_state f) (f_inputs f) (f_outputs f) k
        (if fr_state c = 0 then run_marked f (spu_bufs s) else spu_bufs s, ls_data s) \<and>
    (if ks = []
     then commands s' x = None \<and> filters s' = (filters s)(fr_filt c \<mapsto> f\<lparr>f_busy := False\<rparr>) \<and> spu_bufs s' = run_released f (run_advanced f B)
     else filters s' = (filters s)(fr_filt c \<mapsto> f\<lparr>f_busy := fr_state c = 0 \<or> f_busy f\<rparr>) \<and> spu_bufs s' = run_advanced f B \<and>
       (\<exists>cmd' c'. commands s' x = Some cmd' \<and> c_body cmd' = Filter_Run c' \<and> fr_state c' \<noteq> 0 \<and> fr_filt c' = fr_filt c \<and>
         run_chunks (fr_loop_iters c') (fr_iters c') = ks))))"
proof (cases "fr_state c = 0")
  case False
  then have run: "filter_run_loop code x c s = Inr s'" using assms(6) by (simp add: run_filter_run_def)
  have "(filters s)(fr_filt c \<mapsto> f\<lparr>f_busy := fr_state c = 0 \<or> f_busy f\<rparr>) = filters s"
    using False assms(4) by (simp add: fun_upd_idem)
  then show ?thesis using filter_run_loop_turn [OF assms(1-5) run] False run_chunks_sum by (auto simp del: fun_upd_apply split: if_splits)
next
  case True
  let ?c = "c\<lparr>fr_state := 1\<rparr>" and ?f = "f\<lparr>f_busy := True\<rparr>"
  obtain s1 where s1: "filter_run_init x c s = Inr s1" "filter_run_loop code x ?c s1 = Inr s'"
    using assms(6) True by (auto simp: run_filter_run_def res_simps)
  note i = filter_run_init_eq [OF s1(1) assms(4)]
  have own: "holder (commands s) x = None" using assms(2,3) by (simp add: holder_def kind_def)
  have h: "handling s0 s1 x rest aw None"
    unfolding i(1) by (rule handling_body) (use assms(1) own in \<open>simp_all add: handling_bufs\<close>)
  have c: "commands s1 x = Some (cmd\<lparr>c_body := Filter_Run ?c\<rparr>)" using assms(2) by (simp add: i(1) set_body_def)
  have f: "filters s1 = (filters s)(fr_filt c \<mapsto> ?f)" "spu_bufs s1 = run_marked f (spu_bufs s)" "ls_data s1 = ls_data s"
    by (simp_all add: i(1) set_body_def put_filter_def)
  have same: "run_released ?f = run_released f" "run_advanced ?f = run_advanced f"
    by (simp_all add: run_released_def run_advanced_def fun_eq_iff)
  have "c_body (cmd\<lparr>c_body := Filter_Run ?c\<rparr>) = Filter_Run ?c" "filters s1 (fr_filt ?c) = Some ?f" "fr_loop_iters ?c \<noteq> 0"
    using assms(5) by (simp_all add: f)
  from filter_run_loop_turn [OF h c this s1(2)] show ?thesis using True i(2-) run_chunks_sum
    by (auto simp: f same simp del: fun_upd_apply split: if_splits)
qed

theorem filter_run_turn_witness:
  "\<exists>s s' c'. filters s 4096 \<noteq> None \<and> (\<exists>cmd code. run_filter_run code 0 \<lparr>fr_filt = 4096, fr_iters = 10, fr_loop_iters = 4, fr_state = 0\<rparr> s = Inr s' \<and>
    commands s' 0 = Some cmd \<and> c_body cmd = Filter_Run c') \<and> ls_data s' 77 = 4 \<and> run_chunks (fr_loop_iters c') (fr_iters c') = [4, 2] \<and>
    map_option front_action (spu_bufs s' 8192) = Some BUFFER_ACTION_RUN"
proof -
  let ?f = "small_filter\<lparr>f_inputs := [8192, 12288], attached_inputs := 2\<rparr>"
  define c where "c = \<lparr>fr_filt = 4096, fr_iters = 10, fr_loop_iters = 4, fr_state = 0\<rparr>"
  define t where "t = small_full\<lparr>filters := [4096 \<mapsto> ?f], spu_bufs := [8192 \<mapsto> blank_buffer, 12288 \<mapsto> blank_buffer, 16384 \<mapsto> blank_buffer]\<rparr>"
  define s where "s = set_body 0 (Filter_Run c) t"
  define code where "code = \<lparr>work_code = \<lambda>_ _ _ _ _ k (b, d). (b, \<lambda>_. ucast k), func_code = \<lambda>_ m. m\<rparr>"
  have "handling small_full t 0 [32, 33] [] None"
    using small_handling by (simp add: t_def handling_def running_def core_def tags_held_def same_env_def)
  moreover have "holder (commands t) 0 = None" by (simp add: t_def small_full_fields holder_def kind_def small_spu_def small_table_def)
  ultimately have h: "handling small_full s 0 [32, 33] [] None" unfolding s_def by (intro handling_body) simp_all
  obtain cmd where cmd: "commands s 0 = Some cmd" "c_body cmd = Filter_Run c"
    by (simp add: s_def t_def set_body_def small_full_fields small_spu_def small_table_def)
  have f: "filters s (fr_filt c) = Some ?f" "spu_bufs s = [8192 \<mapsto> blank_buffer, 12288 \<mapsto> blank_buffer, 16384 \<mapsto> blank_buffer]"
    by (simp_all add: s_def t_def c_def set_body_def)
  have "\<exists>s'. run_filter_run code 0 c s = Inr s'"
    by (simp add: run_filter_run_def filter_run_init_def filter_run_loop_def get_filter_def Let_def set_body_def on_mem_def each_tape_def get_buf_def
        put_buf_def put_filter_def small_filter_def s_def t_def c_def code_def blank_buffer_def)
  then obtain s' where s': "run_filter_run code 0 c s = Inr s'" by blast
  have l: "fr_loop_iters c \<noteq> 0" "fr_state c = 0" by (simp_all add: c_def)
  have ch: "run_chunks (fr_loop_iters c) (fr_iters c) = [4, 4, 2]" by (simp add: c_def run_chunks.simps)
  obtain c' cmd' B where q: "commands s' 0 = Some cmd'" "c_body cmd' = Filter_Run c'" "run_chunks (fr_loop_iters c') (fr_iters c') = [4, 2]"
    "(B, ls_data s') = work_code code (work_func (f_desc ?f)) (fparam (f_desc ?f)) (f_state ?f) (f_inputs ?f) (f_outputs ?f) 4 (run_marked ?f (spu_bufs s), ls_data s)"
    "spu_bufs s' = run_advanced ?f B"
    using filter_run_turn [OF h cmd f(1) l(1) s'] l(2) unfolding ch by auto
  have B: "B = run_marked ?f (spu_bufs s)" "ls_data s' = (\<lambda>_. 4)" using q(4) by (simp_all add: code_def)
  have "map_option front_action (spu_bufs s' 8192) = Some BUFFER_ACTION_RUN"
    unfolding q(5) B(1) by (simp add: run_advanced_def run_marked_def on_tapes_def f(2) small_filter_def)
  then show ?thesis using s' f(1) q(1-3) B(2) by (intro exI [of _ s] exI [of _ s'] exI [of _ c']) (auto simp: c_def)
qed

text \<open>C36: attaching a buffer to an input tape, or detaching it, keeps the count of attached tapes equal to
  the number of tapes that have a buffer, whatever was attached before; so the check of \<open>filter_run\<close> on
  the counts is a check that no tape is left without a buffer.\<close>

theorem attach_counts_tapes:
  assumes "handling s0 s x rest aw None" "filters s (fa_filt c) = Some f" "tapes_counted f"
    and "run_filter_attach_input c s = Inr s'"
  shows "\<exists>f'. filters s' (fa_filt c) = Some f' \<and> tapes_counted f' \<and> f_inputs f' = (f_inputs f)[unat (fa_tape_id c) := fa_buf_data c] \<and>
    f_outputs f' = f_outputs f \<and> (attached_inputs f' = num_inputs (f_desc f') \<longleftrightarrow> 0 \<notin> set (f_inputs f'))"
proof -
  let ?i = "unat (fa_tape_id c)"
  let ?n = "attached_inputs f + (if f_inputs f ! ?i = 0 then 1 else 0) - (if fa_buf_data c = 0 then 1 else 0)"
  let ?f = "f\<lparr>attached_inputs := ?n, f_inputs := (f_inputs f)[?i := fa_buf_data c]\<rparr>"
  have i: "?i < length (f_inputs f)" and d: "dep_complete_command (put_filter (fa_filt c) ?f s) = Inr s'"
    using assms(2,4) by (auto simp: run_filter_attach_input_def get_filter_def Let_def index_res_def res_simps split: if_splits)
  have "handling s0 (put_filter (fa_filt c) ?f s) x rest aw None" using assms(1) by simp
  from complete_store [OF this d] have fs: "filters s' (fa_filt c) = Some ?f" by (simp add: put_filter_def)
  have len: "length (f_inputs f) = unat (num_inputs (f_desc f))" "unat (attached_inputs f) = length (filter (\<lambda>a. a \<noteq> 0) (f_inputs f))"
    using assms(3) by (simp_all add: tapes_counted_def)
  have "length (f_inputs f) < 256" using unsigned_less [of "num_inputs (f_desc f)"] len(1) by simp
  then have n: "unat ?n = length (filter (\<lambda>a. a \<noteq> 0) ((f_inputs f)[?i := fa_buf_data c]))"
    by (rule count_word [OF i _ len(2)])
  have tc: "tapes_counted ?f" using assms(3) n by (simp add: tapes_counted_def)
  have "attached_inputs ?f = num_inputs (f_desc ?f) \<longleftrightarrow> unat ?n = length (f_inputs ?f)"
    using len(1) by (simp add: word_unat_eq_iff)
  also have "\<dots> \<longleftrightarrow> 0 \<notin> set (f_inputs ?f)"
  proof -
    have "length (filter (\<lambda>a. a \<noteq> 0) xs) = length xs \<longleftrightarrow> 0 \<notin> set xs" for xs :: "u32 list"
      by (metis (mono_tags, lifting) filter_True length_filter_less less_irrefl)
    from this [of "f_inputs ?f"] show ?thesis unfolding n by simp
  qed
  finally show ?thesis using fs tc by (intro exI [of _ ?f]) simp
qed

theorem attach_counts_tapes_witness:
  "\<exists>s' f'. run_filter_attach_input \<lparr>fa_filt = 4096, fa_tape_id = 1, fa_buf_data = 12288\<rparr> small_full = Inr s' \<and>
    filters s' 4096 = Some f' \<and> attached_inputs f' = 2 \<and> f_inputs f' = [8192, 12288]"
proof -
  let ?c = "\<lparr>fa_filt = 4096, fa_tape_id = 1, fa_buf_data = 12288\<rparr>"
  have f: "filters small_full (fa_filt ?c) = Some small_filter" by (simp add: small_full_fields)
  have t: "tapes_counted small_filter" by (simp add: tapes_counted_def small_filter_def)
  have "handling small_full (put_filter 4096 g small_full) 0 [32, 33] [] None" for g using small_handling by simp
  from complete_left [OF this] have "\<exists>s'. dep_complete_command (put_filter 4096 g small_full) = Inr s'" for g by blast
  then obtain s' where s': "run_filter_attach_input ?c small_full = Inr s'"
    by (auto simp: run_filter_attach_input_def get_filter_def small_full_fields small_filter_def Let_def)
  from attach_counts_tapes [OF small_handling f t s'] obtain f' where f': "filters s' 4096 = Some f'" "tapes_counted f'"
    "f_inputs f' = [8192, 12288]" by (auto simp: small_filter_def)
  have "unat (attached_inputs f') = 2" using f'(2,3) by (simp add: tapes_counted_def)
  then have "attached_inputs f' = 2" by (simp add: word_unat_eq_iff)
  then show ?thesis using s' f' by blast
qed

end
