(* ===== verification/Spu.thy ===== *)
theory Spu
  imports Spu_Dt Filter_Plan
begin

text \<open>
  The SPU as a whole: the command dispatch of \<open>library/cell/src/spu/depend.c\<close> over the handlers of
  all components, their contract with the scheduler, and what follows for every state that the
  SPU reaches while the PPU and the MFC act on it.
\<close>

text \<open>The body of a command has the type of its header; a mismatch does not arise from the stubs.\<close>

definition spu_run :: "spu_code \<Rightarrow> spu_cmd \<Rightarrow> spu_state \<Rightarrow> spu_state res" where
  "spu_run code cmd s = (let i = dep_cur_id s; ty = c_type cmd in
     case c_body cmd of
       Load_Data c \<Rightarrow> ensure Unreached (ty = SPU_CMD_LOAD_DATA) (run_load_data i c s)
     | Filter_Load c \<Rightarrow> ensure Unreached (ty = SPU_CMD_FILTER_LOAD) (run_filter_load i c s)
     | Filter_Unload c \<Rightarrow> ensure Unreached (ty = SPU_CMD_FILTER_UNLOAD) (run_filter_unload i c s)
     | Filter_Attach c \<Rightarrow>
         if ty = SPU_CMD_FILTER_ATTACH_INPUT then run_filter_attach_input c s
         else ensure Unreached (ty = SPU_CMD_FILTER_ATTACH_OUTPUT) (run_filter_attach_output c s)
     | Filter_Run c \<Rightarrow> ensure Unreached (ty = SPU_CMD_FILTER_RUN) (run_filter_run code i c s)
     | Buffer_Alloc c \<Rightarrow> ensure Unreached (ty = SPU_CMD_BUFFER_ALLOC) (run_buffer_alloc_cmd c s)
     | Buffer_Align c \<Rightarrow> ensure Unreached (ty = SPU_CMD_BUFFER_ALIGN) (run_buffer_align_cmd c s)
     | Dt_Out c \<Rightarrow> ensure Unreached (ty = SPU_CMD_DT_OUT_FRONT) (run_dt_out_front i c s)
     | Dt_Out_Ppu c \<Rightarrow> ensure Unreached (ty = SPU_CMD_DT_OUT_FRONT_PPU) (run_dt_out_front_ppu i c s)
     | Dt_In c \<Rightarrow> ensure Unreached (ty = SPU_CMD_DT_IN_BACK) (run_dt_in_back i c s)
     | Call_Func f \<Rightarrow> ensure Unreached (ty = SPU_CMD_CALL_FUNC) (run_call_func code f s)
     | No_Params \<Rightarrow> ensure Unreached (ty = SPU_CMD_STATS_PRINT \<or> ty = SPU_CMD_STATS_UPDATE) (dep_complete_command s))"



section \<open>Properties\<close>

lemma fetch_handling:
  assumes ok: "sched_ok s" and f: "dep_fetch s = Inr t" and x: "dep_cur_id t < 32"
  shows "\<exists>rest aw. handling t t (dep_cur_id t) rest aw None"
proof -
  obtain queue aw where q: "sched s queue aw" using ok by (auto simp: sched_ok_def)
  then obtain y rest where y: "queue = y # rest" by (cases queue) (auto simp: sched_def ring_def)
  have t: "t = s\<lparr>dep_cur_ptr := NextOf (last (y # rest)), dep_cur_id := y, dep_next_ptr := NextOf y, dep_dequeued := False\<rparr>"
    and run: "running t y rest aw"
    using fetch_running [OF q [unfolded y]] f by auto
  have "dep_cur_id t = y" by (simp add: t)
  moreover have "tags_held t None" using ok by (simp add: sched_ok_def t tags_held_def)
  moreover have "core t (y # rest) aw" using run by (simp add: running_def)
  then have "commands t y \<noteq> None" using core_queued [of t "y # rest" aw y] by simp
  ultimately show ?thesis using handling_start [OF run] x by blast
qed


text \<open>A program whose functions do nothing.\<close>

definition idle_code :: spu_code where
  "idle_code = \<lparr>work_code = \<lambda>_ _ _ _ _ _ m. m, func_code = \<lambda>_ m. m\<rparr>"



text \<open>The commands of \<open>filter.c\<close> and \<open>spu/buffer.c\<close>, a function call and the null command, with the type of their body.\<close>

fun filter_command :: "nat \<Rightarrow> cmd_body \<Rightarrow> bool" where
  "filter_command ty (Load_Data c) \<longleftrightarrow> ty = SPU_CMD_LOAD_DATA"
| "filter_command ty (Filter_Load c) \<longleftrightarrow> ty = SPU_CMD_FILTER_LOAD"
| "filter_command ty (Filter_Unload c) \<longleftrightarrow> ty = SPU_CMD_FILTER_UNLOAD"
| "filter_command ty (Filter_Attach c) \<longleftrightarrow> ty = SPU_CMD_FILTER_ATTACH_INPUT \<or> ty = SPU_CMD_FILTER_ATTACH_OUTPUT"
| "filter_command ty (Filter_Run c) \<longleftrightarrow> ty = SPU_CMD_FILTER_RUN"
| "filter_command ty (Buffer_Alloc c) \<longleftrightarrow> ty = SPU_CMD_BUFFER_ALLOC"
| "filter_command ty (Buffer_Align c) \<longleftrightarrow> ty = SPU_CMD_BUFFER_ALIGN"
| "filter_command ty (Call_Func f) \<longleftrightarrow> ty = SPU_CMD_CALL_FUNC"
| "filter_command ty No_Params \<longleftrightarrow> ty = SPU_CMD_NULL"
| "filter_command ty _ \<longleftrightarrow> False"

text \<open>The faults with which a turn of such a command can end, from its parameters, the pointers and a tag it still needs.\<close>

fun command_faults :: "spu_state \<Rightarrow> nat \<Rightarrow> cmd_body \<Rightarrow> fault set" where
  "command_faults s ty (Load_Data c) = load_data_faults s c"
| "command_faults s ty (Filter_Load c) = filter_load_faults s c"
| "command_faults s ty (Filter_Unload c) = filter_unload_faults s c"
| "command_faults s ty (Filter_Attach c) =
     (if ty = SPU_CMD_FILTER_ATTACH_INPUT then attach_faults num_inputs f_inputs s c else attach_faults num_outputs f_outputs s c)"
| "command_faults s ty (Filter_Run c) = filter_run_faults c"
| "command_faults s ty (Buffer_Alloc c) = {CheckFail}"
| "command_faults s ty (Buffer_Align c) = buffer_align_faults s c"
| "command_faults s ty _ = {}"

lemma command_faults_never: "AssertFail \<notin> command_faults s ty b"
  by (cases b) (auto simp: load_data_faults_def filter_load_faults_def filter_unload_faults_def attach_faults_def filter_run_faults_def
      buffer_align_faults_def split: option.splits if_splits)

text \<open>C13: when the scheduler is in order, the turn of a command of \<open>filter.c\<close> or \<open>spu/buffer.c\<close> leaves it in
  order or ends in one of the faults of \<open>command_faults\<close>, and never in an assertion of the scheduler or of the DMA layer.  A
  \<open>load_data\<close>, \<open>filter_load\<close> or \<open>filter_unload\<close> can fail a check only on its first turn: a check
  of its own parameters, of the filter being busy, or that a DMA tag is left; once it has its tag, no
  later turn fails, but for a pointer to a missing filter or a state that does not exist.  Attaching a tape and allocating or aligning a buffer
  fail only in the checks of their parameters and of the filter or buffer they name, when that is missing, or for a tape outside the filter's array.  A
  run fails a check only on its first turn, and later only for a filter or buffer that is missing.\<close>

theorem filter_commands_never_assert:
  assumes "sched_ok s" "dep_fetch s = Inr t" "commands t (dep_cur_id t) = Some cmd" "filter_command (c_type cmd) (c_body cmd)"
    and "dep_cur_id t < 32"
  shows "AssertFail \<notin> command_faults t (c_type cmd) (c_body cmd) \<and>
    (case dep_step (spu_run code) s of Inl e \<Rightarrow> e \<in> command_faults t (c_type cmd) (c_body cmd) | Inr s' \<Rightarrow> left t s')"
proof (rule conjI [OF command_faults_never])
  obtain rest aw where h: "handling t t (dep_cur_id t) rest aw None" using fetch_handling [OF assms(1,2,5)] by blast
  let ?E = "command_faults t (c_type cmd) (c_body cmd)"
  have x: "c_type cmd \<noteq> CMD_WORKER" "c_type cmd \<noteq> CMD_REQ_HANDLER" "c_type cmd \<in> handled_types \<or> c_type cmd = SPU_CMD_NULL"
    using assms(4) by (cases "c_body cmd"; auto simp: cmd_type_defs CMD_WORKER_def CMD_REQ_HANDLER_def handled_types_def)+
  have st: "dep_step (spu_run code) s = (if c_type cmd = SPU_CMD_NULL then dep_complete_command t else spu_run code cmd t)"
    using assms(2,3,5) x by (auto simp: dep_step_def dep_dispatch_def get_command_def)
  note handler = load_data_ends [OF h assms(3)] filter_load_ends [OF h assms(3)] filter_unload_ends [OF h assms(3)] attach_ends [OF h]
    filter_run_ends [OF h assms(3)] buffer_ends [OF h] call_func_ends [OF h] ends_complete [OF h]
  have "ends_in ?E t (dep_step (spu_run code) s)"
  proof (cases "c_body cmd = No_Params")
    case True
    then show ?thesis using st assms(4) ends_complete [OF h] by simp
  next
    case False
    have "c_type cmd \<noteq> SPU_CMD_NULL" using assms(4) False by (cases "c_body cmd") (auto simp: cmd_type_defs)
    moreover have "ends_in ?E t (spu_run code cmd t)" using assms(4) False
      by (cases "c_body cmd") (auto simp: spu_run_def Let_def ensure_def cmd_type_defs intro!: handler)
    ultimately show ?thesis using st by simp
  qed
  then show "case dep_step (spu_run code) s of Inl e \<Rightarrow> e \<in> ?E | Inr s' \<Rightarrow> left t s'" by (simp add: ends_in_def)
qed

theorem filter_commands_never_assert_witness:
  "\<exists>s t cmd. sched_ok s \<and> dep_fetch s = Inr t \<and> commands t 0 = Some cmd \<and> c_type cmd = SPU_CMD_LOAD_DATA \<and>
    dep_step (spu_run idle_code) s = Inl CheckFail \<and> CheckFail \<in> command_faults t (c_type cmd) (c_body cmd)"
proof -
  let ?b = "Load_Data \<lparr>ld_dest_lsa = 8, ld_src_addr = 0, ld_num_bytes = 16, ld_state = 0, ld_tag = 0\<rparr>"
  define c where "c = (the (small_table 0))\<lparr>c_type := SPU_CMD_LOAD_DATA, c_body := ?b\<rparr>"
  let ?m = "small_table(0 \<mapsto> c)"
  let ?s = "small_full\<lparr>commands := ?m, dep_next_ptr := NextOf 33\<rparr>"
  have v: "nx ?m = nx small_table" "backs ?m = backs small_table" "fwds ?m = fwds small_table" "fits ?m = fits small_table"
    unfolding view_put by (auto simp: fun_eq_iff c_def view_defs small_table_def max_deps_def large_header_def cmd_type_defs)
  have n: "?m i = None \<longleftrightarrow> small_table i = None" for i by (simp add: small_table_def)
  have k: "kinds_ok ?m" by (auto simp: kinds_ok_def kind_def c_def small_table_def id_defs cmd_type_defs split: if_splits)
  have same: "ready ?m = ready small_table" "graph_ok ?m = graph_ok small_table"
    unfolding ready_def graph_ok_def v n by (rule refl)+
  have "running small_full 0 [32, 33] []" using small_handling by (simp add: handling_def)
  then have "core small_full [0, 32, 33] []" "ring (nx small_table) [0, 32, 33]" by (simp_all add: running_def small_full_fields small_spu_def)
  moreover have "dep_completed_mask small_full = 0" by (simp add: small_full_def dep_state.defs small_spu_def)
  ultimately have q: "sched ?s [0, 32, 33] []"
    by (simp add: sched_def core_def k same v) (simp add: small_full_fields small_spu_def)
  have "holder ?m i = None" for i by (auto simp: holder_def kind_def c_def small_table_def)
  then have "tags_held ?s None" by (simp add: tags_held_def tags_sep_def) (simp add: small_full_def dep_state.defs small_spu_def)
  then have ok: "sched_ok ?s" using q unfolding sched_ok_def
    by (auto simp: small_full_def dep_state.defs small_spu_def group_shape_def)
  obtain t where t: "dep_fetch ?s = Inr t" "dep_cur_id t = 0" "commands t = ?m"
    using fetch_running(1) [OF q] by auto
  have c: "commands t (dep_cur_id t) = Some c" by (simp add: t)
  have ty: "c_type c = SPU_CMD_LOAD_DATA" "c_body c = ?b" by (simp_all add: c_def)
  have "dep_step (spu_run idle_code) ?s = run_load_data 0 \<lparr>ld_dest_lsa = 8, ld_src_addr = 0, ld_num_bytes = 16, ld_state = 0, ld_tag = 0\<rparr> t"
    using c ty by (simp add: dep_step_def t dep_dispatch_def get_command_def spu_run_def cmd_type_defs CMD_WORKER_def CMD_REQ_HANDLER_def
        handled_types_def)
  then have e: "dep_step (spu_run idle_code) ?s = Inl CheckFail" by (simp add: run_load_data_def)
  have cond: "filter_command (c_type c) (c_body c)" "dep_cur_id t < 32" by (simp_all add: ty t)
  from filter_commands_never_assert [OF ok t(1) c cond, of idle_code] show ?thesis using ok t c ty e
    by (intro exI [of _ ?s] exI [of _ t] exI [of _ c]) simp
qed

end
