(* ===== verification/Dt_Target.thy ===== *)
theory Dt_Target
  imports Spu_Dt Filter_Plan
begin

text \<open>
  What the data transfer commands of an SPU do over all their turns: the pieces stay inside both
  buffers, a \<open>dt_in_back\<close> moves the tail of its buffer exactly to the place it announced in
  \<open>otail\<close>, and the assertion that checks it never fails.
\<close>

section \<open>Masked arithmetic\<close>

lemma mask_add: "((a AND m) + b) AND m = (a + b) AND m" if "m = 2 ^ k - 1" for a b m :: u32
proof (cases "k \<le> 32")
  case False
  then have "(2::u32) ^ k = 0" by (intro exp_eq_zero_iff [THEN iffD2]) simp
  then have "m = - 1" using that by (simp only: diff_0)
  then show ?thesis by simp
next
  case True
  have d: "n mod 2 ^ 32 mod 2 ^ k = n mod 2 ^ k" for n :: nat using True by (intro mod_mod_cancel le_imp_power_dvd)
  have u: "unat (x + y) = (unat x + unat y) mod 2 ^ 32" for x y :: u32 by (simp add: unat_word_ariths)
  have "unat (((a AND m) + b) AND m) = unat ((a + b) AND m)"
    unfolding that unat_and_mask u d by (simp add: mod_add_left_eq)
  then show ?thesis by (simp only: word_unat_eq_iff)
qed

section \<open>Results with a condition on the state\<close>

definition body_at :: "spu_state \<Rightarrow> nat \<Rightarrow> cmd_body option" where
  "body_at s x = map_option c_body (commands s x)"

definition wp :: "fault set \<Rightarrow> (spu_state \<Rightarrow> bool) \<Rightarrow> spu_state res \<Rightarrow> bool" where
  "wp E Q r \<longleftrightarrow> (case r of Inl e \<Rightarrow> e \<in> E | Inr s' \<Rightarrow> Q s')"

lemma body_kind: "kind m' = kind m \<Longrightarrow> map_option c_body (m' i) = map_option c_body (m i)"
proof -
  assume "kind m' = kind m"
  moreover have "map_option c_body (n i) = map_option (\<lambda>(_, _, b). b) (kind n i)" for n :: cmd_table
    by (simp add: kind_def option.map_comp comp_def)
  ultimately show ?thesis by metis
qed

lemma wp_avail:
  assumes h: "handling s0 s x rest aw None"
    and Q: "\<And>s'. left s0 s' \<Longrightarrow> body_at s' x = body_at s x \<Longrightarrow> spu_bufs s' = spu_bufs s \<Longrightarrow> Q s'"
  shows "wp E Q (dma_wait_avail s)"
proof -
  obtain s' where s': "dma_wait_avail s = Inr s'" "left s0 s'" using wait_avail_left [OF h] by blast
  have "kind (commands s') = kind (commands s)" using wait_avail_frame [OF s'(1)] by (simp add: same_but_next_def)
  then have "body_at s' x = body_at s x" unfolding body_at_def by (rule body_kind)
  moreover obtain n1 t u v where st: "store_next (dep_cur_ptr s) n1 (s\<lparr>dep_dequeued := True\<rparr>) = Inr t"
    "store_next (dep_next_ptr t) INVALID_COMMAND_ID t = Inr u" "store_next (dma_waiting_avail_ptr u) (dep_cur_id u) u = Inr v"
    "s' = v\<lparr>dma_waiting_avail_ptr := dep_next_ptr v, dep_next_ptr := dep_cur_ptr v\<rparr>"
    using s'(1) by (auto simp: dma_wait_avail_def res_simps)
  have "spu_bufs s' = spu_bufs s"
    using store_next_frame [OF st(1)] store_next_frame [OF st(2)] store_next_frame [OF st(3)] by (auto simp: st(4))
  ultimately show ?thesis using s' Q by (simp add: wp_def)
qed

lemma wp_start:
  assumes "handling s0 s x rest aw b" "holds s x t" "b = None \<or> b = Some x" "dma_query_avail 1 s"
    and "\<And>s'. handling s0 s' x rest aw (Some x) \<Longrightarrow> holds s' x t \<Longrightarrow> bit (dma_active_tags s') t \<Longrightarrow>
      s' = mfc_start t oper (s\<lparr>dma_active_tags := dma_active_tags s OR tag_bit t\<rparr>) \<Longrightarrow> spu_bufs s' = spu_bufs s \<Longrightarrow> wp E Q (k s')"
  shows "wp E Q (rbind (dma_start t oper s) k)"
proof -
  obtain s' where s': "dma_start t oper s = Inr s'" "handling s0 s' x rest aw (Some x)" "bit (dma_active_tags s') t"
    "s' = mfc_start t oper (s\<lparr>dma_active_tags := dma_active_tags s OR tag_bit t\<rparr>)"
    using dma_start_handling [OF assms(1-4)] by blast
  have "holds s' x t" using assms(2) by (simp add: s'(4) mfc_start_def holds_def)
  moreover have "spu_bufs s' = spu_bufs s" by (simp add: s'(4) mfc_start_def)
  ultimately show ?thesis using assms(5) s' by simp
qed

lemma wp_wait:
  fixes s :: spu_state
  assumes h: "handling s0 s x rest aw (Some x)" and t: "holds s x t" "bit (dma_active_tags s) t" and d: "owned d = Some t"
    and Q: "\<And>s'. left s0 s' \<Longrightarrow> body_at s' x = Some d \<Longrightarrow> spu_bufs s' = spu_bufs s \<Longrightarrow> Q s'"
  shows "wp E Q (dma_wait_complete t (set_body x d s))"
proof -
  have h': "handling s0 (set_body x d s) x rest aw (Some x)" "holds (set_body x d s) x t"
    using handling_same_tag [OF h t(1) d] by simp_all
  obtain s' where s': "dma_wait_complete t (set_body x d s) = Inr s'" "left s0 s'"
    "s' = (set_body x d s)\<lparr>dep_dequeued := True, commands := set_next (last rest) (hd rest) (commands (set_body x d s)),
        dep_next_ptr := NextOf (last rest), dma_waiting := (dma_waiting (set_body x d s))[t := x]\<rparr>"
    using wait_complete_left [OF h'] t(2) by auto
  obtain c where c: "commands s x = Some c" using h by (auto simp: handling_def)
  have "kind (commands s') x = Some (c_type c, c_id c, d)"
    by (simp add: s'(3)) (simp add: set_body_eq kind_body kind_def c)
  then have "body_at s' x = Some d" by (auto simp: kind_def body_at_def)
  moreover have "spu_bufs s' = spu_bufs s" by (simp add: s'(3) set_body_eq)
  ultimately show ?thesis using s'(1,2) Q by (simp add: wp_def)
qed

lemma wp_release_done:
  fixes s :: spu_state
  assumes h: "handling s0 s x rest aw None" and t: "holds s x t" and b: "spu_bufs s a = Some b"
    and p: "p b" and Q: "\<And>s'. left s0 s' \<Longrightarrow> body_at s' x = None \<Longrightarrow> spu_bufs s' = (spu_bufs s)(a \<mapsto> f b) \<Longrightarrow> Q s'"
  shows "wp E Q (rbind (dma_release_tag t s) (\<lambda>s. rbind (get_buf a s) (\<lambda>b.
    ensure e (p b) (dep_complete_command (put_buf a (f b) s)))))"
proof -
  obtain s1 where s1: "dma_release_tag t s = Inr s1" "handling s0 (set_body x No_Params s1) x rest aw None"
    "s1 = s\<lparr>dma_free_tags := dma_free_tags s OR tag_bit t\<rparr>"
    using release_handling [OF h t, of No_Params] by auto
  have bufs: "spu_bufs s1 = spu_bufs s" by (simp add: s1(3))
  have "dma_release_tag t (put_buf a (f b) s) = Inr (put_buf a (f b) s1)"
    using s1(1) by (auto simp: dma_release_tag_def dma_query_complete_def tag_valid_def put_buf_def res_simps)
  moreover have "\<exists>s'. rbind (dma_release_tag t (put_buf a (f b) s)) dep_complete_command = Inr s' \<and> left s0 s' \<and> commands s' x = None"
    by (rule release_complete_left [of _ _ x rest aw]) (simp_all add: h t)
  ultimately obtain s' where s': "dep_complete_command (put_buf a (f b) s1) = Inr s'" "left s0 s'" "commands s' x = None" by auto
  have run: "running (put_buf a (f b) s1) x rest aw" "x < 32"
    using s1(2) by (simp_all add: handling_def) (simp add: running_def core_def put_buf_def)
  from complete_sched [OF run] s'(1) obtain m where "s' = notify_ppu ((put_buf a (f b) s1)\<lparr>dep_dequeued := True, dep_next_ptr := NextOf (last rest),
      commands := m(x := None), dep_completed_mask := dep_completed_mask (put_buf a (f b) s1) OR tag_bit x\<rparr>)" by auto
  then have "spu_bufs s' = (spu_bufs s)(a \<mapsto> f b)" by (simp add: notify_ppu_def put_buf_def bufs)
  then have "Q s'" using s' Q by (simp add: body_at_def)
  then show ?thesis using s1(1) s'(1) b p by (simp add: wp_def get_buf_def bufs)
qed

section \<open>The tail of the receiving buffer\<close>

text \<open>What is left to be added to the tail once the transfers that were started are done.\<close>

definition in_left :: "dt_in_cmd \<Rightarrow> u32" where
  "in_left c = (if di_state c = 3 then 0
     else (if di_state c = 4 then di_ua_bytes c else 0) + di_copy_bytes c + di_num_bytes c)"

definition in_target :: "dt_in_cmd \<Rightarrow> buffer_cb \<Rightarrow> bool" where
  "in_target c b \<longleftrightarrow> (\<exists>k. b_mask b = 2 ^ k - 1) \<and> b_tail b AND b_mask b = b_tail b \<and>
     (di_state c \<in> {2, 3, 4} \<longrightarrow> (b_tail b + in_left c) AND b_mask b = otail b)"

text \<open>After a turn: the command is still there, its target unchanged, or is done and the tail is there.\<close>

definition in_outcome :: "nat \<Rightarrow> u32 \<Rightarrow> spu_state \<Rightarrow> bool" where
  "in_outcome x a s \<longleftrightarrow> (\<exists>b. spu_bufs s a = Some b \<and>
     (body_at s x = None \<and> b_tail b = otail b \<or>
      (\<exists>c. body_at s x = Some (Dt_In c) \<and> di_buf_data c = a \<and> in_target c b)))"

lemma in_copy_next_wp:
  assumes h: "handling s0 s x rest aw bz" "bz = None \<or> bz = Some x" and t: "holds s x (di_tag c)" and av: "dma_query_avail 1 s"
    and b: "spu_bufs s (di_buf_data c) = Some b" and st: "di_state c \<in> {2, 4}"
    and m: "b_mask b = 2 ^ k - 1" "b_tail b AND b_mask b = b_tail b"
    and tgt: "(b_tail b + (if di_state c = 4 then di_ua_bytes c else 0) + di_num_bytes c) AND b_mask b = otail b"
  shows "wp (- {AssertFail}) (in_outcome x (di_buf_data c)) (in_copy_next x c bt s)"
proof -
  let ?n = "in_piece c b bt"
  let ?c = "c\<lparr>di_src_head := (di_src_head c + ?n) AND di_src_buf_mask c, di_num_bytes := di_num_bytes c - ?n, di_copy_bytes := ?n\<rparr>"
  have o: "owned (Dt_In ?c) = Some (di_tag c)" using st by auto
  have "in_left ?c = (if di_state c = 4 then di_ua_bytes c else 0) + di_num_bytes c" using st by (auto simp: in_left_def)
  then have "in_target ?c b" using m tgt by (auto simp: in_target_def add.assoc)
  then have out: "in_outcome x (di_buf_data c) s'" if "body_at s' x = Some (Dt_In ?c)" "spu_bufs s' = spu_bufs s" for s'
    using that b unfolding in_outcome_def by (intro exI [of _ b]) simp
  have "wp (- {AssertFail}) (in_outcome x (di_buf_data c)) (rbind (dma_start (di_tag c) oper s)
      (\<lambda>s. dma_wait_complete (di_tag c) (set_body x (Dt_In ?c) s)))" for oper
    by (rule wp_start [OF h(1) t h(2) av], rule wp_wait [OF _ _ _ o], assumption+) (use out in simp)
  then show ?thesis by (simp add: in_copy_next_def get_buf_def b dma_get_def Let_def)
qed

lemma in_done_wp:
  assumes h: "handling s0 s x rest aw None" and t: "holds s x (di_tag c)"
    and b: "spu_bufs s (di_buf_data c) = Some b" "b_tail b = otail b"
  shows "wp (- {AssertFail}) (in_outcome x (di_buf_data c)) (in_done c s)"
  unfolding in_done_def
  by (rule wp_release_done [where p = "\<lambda>b. b_tail b = otail b" and f = "\<lambda>b. b\<lparr>dt_active := dt_active b - 1, back_action := BUFFER_ACTION_NONE\<rparr>", OF h t b])
    (use b(2) in \<open>simp add: in_outcome_def\<close>)

lemma in_dma_complete_wp:
  assumes h: "handling s0 s x rest aw None" and t: "holds s x (di_tag c)" and body: "body_at s x = Some (Dt_In c)"
    and b: "spu_bufs s (di_buf_data c) = Some b" and st: "di_state c = 2" and tgt: "in_target c b"
  shows "wp (- {AssertFail}) (in_outcome x (di_buf_data c)) (in_dma_complete x c s)"
proof (cases "dma_query_avail 1 s")
  case False
  have "wp (- {AssertFail}) (in_outcome x (di_buf_data c)) (dma_wait_avail s)"
    by (rule wp_avail [OF h]) (use body b tgt in \<open>simp add: in_outcome_def\<close>)
  then show ?thesis using False by (simp add: in_dma_complete_def)
next
  case True
  define bt where "bt = (b_tail b + di_copy_bytes c) AND b_mask b"
  define b1 where "b1 = b\<lparr>b_tail := bt\<rparr>"
  obtain k where k: "b_mask b = 2 ^ k - 1" using tgt by (auto simp: in_target_def)
  have bt: "bt AND b_mask b = bt" by (simp add: bt_def and.assoc)
  have goal: "(bt + di_num_bytes c) AND b_mask b = otail b"
    using tgt st by (simp add: bt_def mask_add [OF k] in_target_def in_left_def add.assoc)
  have hp: "handling s0 (put_buf a d s) x rest aw None" "holds (put_buf a d s) x (di_tag c)" "dma_query_avail 1 (put_buf a d s)" for a d
    using h t True by simp_all
  show ?thesis
  proof (cases "di_num_bytes c = 0")
    case False
    have "wp (- {AssertFail}) (in_outcome x (di_buf_data c)) (in_copy_next x c bt (put_buf (di_buf_data c) b1 s))"
      by (rule in_copy_next_wp [OF hp(1) _ hp(2,3), where k = k and b = b1])
        (use st k goal bt in \<open>simp_all add: b1_def put_buf_def\<close>)
    then show ?thesis using True False by (simp add: in_dma_complete_def get_buf_def b Let_def bt_def b1_def)
  next
    case z: True
    define b2 where "b2 = b1\<lparr>back_in_dtcb := (back_in_dtcb b1)\<lparr>dtcb_head := di_src_head c\<rparr>\<rparr>"
    have eq: "b_tail b2 = otail b2" using goal z bt by (simp add: b2_def b1_def)
    have fin: "wp (- {AssertFail}) (in_outcome x (di_buf_data c)) (in_done c (put_buf (di_buf_data c) b2 s))"
      by (rule in_done_wp [OF hp(1,2), where b = b2]) (simp_all add: put_buf_def eq)
    let ?c = "c\<lparr>di_state := 3\<rparr>"
    have o: "owned (Dt_In ?c) = Some (di_tag c)" by simp
    have "in_target ?c b2" using k bt eq by (auto simp: in_target_def in_left_def b2_def b1_def)
    then have out: "in_outcome x (di_buf_data c) s'" if "body_at s' x = Some (Dt_In ?c)" "spu_bufs s' = spu_bufs (put_buf (di_buf_data c) b2 s)" for s'
      using that unfolding in_outcome_def by (intro exI [of _ b2]) (simp add: put_buf_def)
    have ack: "wp (- {AssertFail}) (in_outcome x (di_buf_data c)) (rbind (dma_start (di_tag c) oper (put_buf (di_buf_data c) b2 s))
        (\<lambda>s. dma_wait_complete (di_tag c) (set_body x (Dt_In ?c) s)))" for oper
      by (rule wp_start [OF hp(1,2) _ hp(3)], simp, rule wp_wait [OF _ _ _ o], assumption+) (use out in simp)
    have "in_dma_complete x c s = (case di_src_buf c of
        Some src_buf \<Rightarrow> if di_src_head c = dtcb_tail (back_in_dtcb b2)
          then rbind (dma_put (di_tag c) (src_buf + 72) (cmd_lsa (put_buf (di_buf_data c) b2 s) x + 40) 4 (put_buf (di_buf_data c) b2 s)) (\<lambda>s.
            dma_wait_complete (di_tag c) (set_body x (Dt_In ?c) s))
          else in_done c (put_buf (di_buf_data c) b2 s)
      | None \<Rightarrow> in_done c (put_buf (di_buf_data c) b2 s))"
      using True z by (simp add: in_dma_complete_def get_buf_def b Let_def bt_def b1_def b2_def cong: if_cong split: option.split)
    then show ?thesis using fin ack by (auto simp: dma_put_def split: option.split)
  qed
qed

lemma wp_complete:
  fixes s :: spu_state
  assumes h: "handling s0 s x rest aw None"
    and Q: "\<And>s'. left s0 s' \<Longrightarrow> body_at s' x = None \<Longrightarrow> spu_bufs s' = spu_bufs s \<Longrightarrow> Q s'"
  shows "wp E Q (dep_complete_command s)"
proof -
  obtain s' where s': "dep_complete_command s = Inr s'" using complete_left [OF h] by blast
  from complete_store [OF h s'] show ?thesis using s' Q by (simp add: wp_def body_at_def)
qed

lemma wp_reserve:
  fixes s :: spu_state
  assumes h: "handling s0 s x rest aw None" and E: "CheckFail \<in> E"
    and k: "\<And>t s'. handling s0 s' x rest aw None \<Longrightarrow> spu_bufs s' = spu_bufs s \<Longrightarrow>
      (\<And>b. owned b = Some t \<Longrightarrow> handling s0 (set_body x b s') x rest aw None \<and> holds (set_body x b s') x t) \<Longrightarrow> wp E Q (k (t, s'))"
  shows "wp E Q (rbind (dma_reserve_tag s) k)"
proof (cases "dma_reserve_tag s")
  case (Inl e)
  then show ?thesis using reserve_fault [OF h Inl] E by (simp add: wp_def)
next
  case (Inr v)
  obtain t s' where ts: "v = (t, s')" by (cases v)
  have r: "dma_reserve_tag s = Inr (t, s')" using Inr ts by simp
  let ?b = "Load_Data \<lparr>ld_dest_lsa = 0, ld_src_addr = 0, ld_num_bytes = 0, ld_state = 1, ld_tag = t\<rparr>"
  have "handling s0 s' x rest aw None" "spu_bufs s' = spu_bufs s"
    using reserve_handling(3,4) [OF h r, of ?b] by simp_all
  moreover have "handling s0 (set_body x b s') x rest aw None \<and> holds (set_body x b s') x t" if "owned b = Some t" for b
    using reserve_handling(1,2) [OF h r that] by blast
  ultimately show ?thesis using k r by simp
qed

lemma wp_ensure: "e \<in> E \<Longrightarrow> (c \<Longrightarrow> wp E Q m) \<Longrightarrow> wp E Q (ensure e c m)"
  by (simp add: wp_def ensure_def)

lemma in_first_piece_wp:
  assumes h: "handling s0 s x rest aw None" and t: "holds s x (di_tag c)" and av: "dma_query_avail 2 s"
    and b: "spu_bufs s (di_buf_data c) = Some b" and m: "b_mask b = 2 ^ k - 1" "b_tail b AND b_mask b = b_tail b"
    and tgt: "(b_tail b + di_num_bytes c) AND b_mask b = otail b"
  shows "wp (- {AssertFail}) (in_outcome x (di_buf_data c)) (in_first_piece x c b s)"
proof (cases "b_tail b AND 15 = 0")
  case True
  have "wp (- {AssertFail}) (in_outcome x (di_buf_data (c\<lparr>di_state := 2\<rparr>))) (in_copy_next x (c\<lparr>di_state := 2\<rparr>) (b_tail b) s)"
    by (rule in_copy_next_wp [OF h _ _ avail_mono [OF av] _ _ m]) (use t b tgt in simp_all)
  then show ?thesis using True by (simp add: in_first_piece_def)
next
  case False
  define ua where "ua = (if 16 - (di_src_head c AND 15) > di_num_bytes c then di_num_bytes c else 16 - (di_src_head c AND 15))"
  define c' where "c' = c\<lparr>di_state := 4, di_src_head := (di_src_head c + ua) AND di_src_buf_mask c,
      di_num_bytes := di_num_bytes c - ua, di_ua_bytes := ua\<rparr>"
  have c': "di_tag c' = di_tag c" "di_state c' = 4" "di_buf_data c' = di_buf_data c" "di_num_bytes c' = di_num_bytes c - ua" "di_ua_bytes c' = ua"
    by (simp_all add: c'_def)
  let ?o = "Mfc_Get (di_tag c) (cmd_lsa s x + 48) (di_src_buf_data c + round_down_qword (di_src_head c)) 16"
  have "wp (- {AssertFail}) (in_outcome x (di_buf_data c)) (rbind (dma_start (di_tag c) ?o s) (\<lambda>s.
      if di_num_bytes c' = 0 then dma_wait_complete (di_tag c) (set_body x (Dt_In (c'\<lparr>di_copy_bytes := 0\<rparr>)) s)
      else in_copy_next x c' ((b_tail b + ua) AND b_mask b) s))"
  proof (rule wp_start [OF h t _ avail_mono [OF av]])
    fix s' assume s': "handling s0 s' x rest aw (Some x)" "holds s' x (di_tag c)" "bit (dma_active_tags s') (di_tag c)"
      "s' = mfc_start (di_tag c) ?o (s\<lparr>dma_active_tags := dma_active_tags s OR tag_bit (di_tag c)\<rparr>)" "spu_bufs s' = spu_bufs s"
    have av': "dma_query_avail 1 s'" using avail_after [OF s'(4)] av by (simp add: numeral_2_eq_2)
    have tgt': "(b_tail b + ua + di_num_bytes c') AND b_mask b = otail b" using tgt by (simp add: c'(4))
    have "wp (- {AssertFail}) (in_outcome x (di_buf_data c)) (dma_wait_complete (di_tag c) (set_body x (Dt_In (c'\<lparr>di_copy_bytes := 0\<rparr>)) s'))"
    proof (rule wp_wait [OF s'(1-3)])
      have "in_target (c'\<lparr>di_copy_bytes := 0\<rparr>) b" using m tgt' c' by (auto simp: in_target_def in_left_def add.assoc)
      then show "in_outcome x (di_buf_data c) u" if "body_at u x = Some (Dt_In (c'\<lparr>di_copy_bytes := 0\<rparr>))" "spu_bufs u = spu_bufs s'" for u
        using that b s'(5) c'(3) unfolding in_outcome_def by (intro exI [of _ b]) simp
    qed (use c' in simp)
    moreover have "wp (- {AssertFail}) (in_outcome x (di_buf_data c')) (in_copy_next x c' ((b_tail b + ua) AND b_mask b) s')"
      by (rule in_copy_next_wp [OF s'(1) _ _ av' _ _ m]) (use s'(2,5) b c' tgt' in simp_all)
    ultimately show "wp (- {AssertFail}) (in_outcome x (di_buf_data c)) (if di_num_bytes c' = 0
        then dma_wait_complete (di_tag c) (set_body x (Dt_In (c'\<lparr>di_copy_bytes := 0\<rparr>)) s')
        else in_copy_next x c' ((b_tail b + ua) AND b_mask b) s')" using c'(3) by simp
  qed simp_all
  moreover have "in_first_piece x c b s = rbind (dma_start (di_tag c) ?o s) (\<lambda>s.
      if di_num_bytes c' = 0 then dma_wait_complete (di_tag c) (set_body x (Dt_In (c'\<lparr>di_copy_bytes := 0\<rparr>)) s)
      else in_copy_next x c' ((b_tail b + ua) AND b_mask b) s)"
    using False by (simp add: in_first_piece_def dma_get_def Let_def c'_def ua_def cong: if_cong)
  ultimately show ?thesis by simp
qed

lemma round_up_15: "(y + ((16 - y) AND 15)) AND 15 = 0" for y :: u32
proof -
  have "(15::u32) = 2 ^ 4 - 1" by simp
  from mask_add [OF this, of "16 - y" y] show ?thesis by (simp add: add.commute)
qed

lemma dt_bytes_aligned: "in_dt_bytes b n src = src \<or> (b_tail b + in_dt_bytes b n src) AND 15 = 0"
proof -
  let ?d = "if n < CACHE_SIZE then CACHE_SIZE else n"
  have "(b_tail b + (?d + ((16 - (b_tail b + ?d)) AND 15))) AND 15 = 0"
    using round_up_15 [of "b_tail b + ?d"] by (simp only: add.assoc)
  then show ?thesis unfolding in_dt_bytes_def Let_def by simp
qed

lemma in_begin_wp:
  assumes h: "handling s0 s x rest aw None" and t: "holds s x (di_tag c)" and body: "body_at s x = Some (Dt_In c)"
    and b: "spu_bufs s (di_buf_data c) = Some b" and st: "di_state c = 1" and tgt: "in_target c b"
  shows "wp (- {AssertFail}) (in_outcome x (di_buf_data c)) (in_begin x c s)"
proof -
  have stay: "in_outcome x (di_buf_data c) s'" if "body_at s' x = body_at s x" "spu_bufs s' = spu_bufs s" for s'
    using that body b tgt unfolding in_outcome_def by (intro exI [of _ b]) simp
  show ?thesis
  proof (cases "dma_query_avail 2 s")
    case False
    then show ?thesis using wp_avail [OF h stay] by (simp add: in_begin_def)
  next
    case True
    let ?i = "back_in_dtcb b"
    let ?n = "di_num_bytes c - in_back_buffered_bytes b"
    let ?src = "(dtcb_tail ?i - dtcb_head ?i) AND di_src_buf_mask c"
    let ?d = "in_dt_bytes b ?n ?src"
    let ?b = "b\<lparr>in_back_buffered_bytes := ?d - ?n, otail := (b_tail b + ?d) AND b_mask b, dt_active := dt_active b + 1\<rparr>"
    let ?c = "c\<lparr>di_num_bytes := ?d, di_src_head := dtcb_head ?i\<rparr>"
    have "handling s0 (put_buf (di_buf_data c) ?b s) x rest aw None" using h by simp
    obtain k where k: "b_mask b = 2 ^ k - 1" "b_tail b AND b_mask b = b_tail b" using tgt by (auto simp: in_target_def)
    have first: "wp (- {AssertFail}) (in_outcome x (di_buf_data ?c)) (in_first_piece x ?c ?b (put_buf (di_buf_data c) ?b s))"
      by (rule in_first_piece_wp [of _ _ _ rest aw _ _ k]) (use h t True k in \<open>simp_all add: put_buf_def\<close>,
          simp_all add: handling_bufs holds_def dma_query_avail_def)
    have "in_begin x c s = (if dtcb_head ?i = dtcb_tail ?i then Inr s
        else ensure CheckFail (?n \<le> ?src) (ensure CheckFail (b_tail b AND CACHE_MASK = dtcb_head ?i AND CACHE_MASK)
          (ensure AssertFail (?d = ?src \<or> (b_tail b + ?d) AND 15 = 0) (ensure CheckFail (?d \<le> in_room b)
            (in_first_piece x ?c ?b (put_buf (di_buf_data c) ?b s))))))"
      using True by (simp add: in_begin_def get_buf_def b Let_def)
    moreover have "wp (- {AssertFail}) (in_outcome x (di_buf_data c)) (Inr s)" using stay by (simp add: wp_def)
    ultimately show ?thesis using first dt_bytes_aligned [of b ?n ?src] by (auto intro!: wp_ensure simp del: One_nat_def)
  qed
qed

lemma in_unaligned_wp:
  assumes h: "handling s0 s x rest aw None" and t: "holds s x (di_tag c)"
    and b: "spu_bufs s (di_buf_data c) = Some b" and st: "di_state c = 4" and tgt: "in_target c b"
  shows "wp (- {AssertFail}) (in_outcome x (di_buf_data c)) (in_unaligned x c s)"
proof -
  let ?b = "b\<lparr>b_tail := (b_tail b + di_ua_bytes c) AND b_mask b\<rparr>"
  let ?c = "c\<lparr>di_state := 2\<rparr>"
  obtain k where k: "b_mask b = 2 ^ k - 1" using tgt by (auto simp: in_target_def)
  have "in_target ?c ?b" using tgt st mask_add [OF k]
    by (auto simp: in_target_def in_left_def and.assoc add.assoc)
  then have "wp (- {AssertFail}) (in_outcome x (di_buf_data ?c)) (in_dma_complete x ?c (set_body x (Dt_In ?c) (put_buf (di_buf_data c) ?b (s\<lparr>ls_data := d\<rparr>))))" for d
  proof (rule in_dma_complete_wp [rotated -1])
    have "handling s0 (put_buf (di_buf_data c) ?b (s\<lparr>ls_data := d\<rparr>)) x rest aw None" "holds (put_buf (di_buf_data c) ?b (s\<lparr>ls_data := d\<rparr>)) x (di_tag c)"
      using h t by (simp_all add: holds_def)
    from handling_same_tag [OF this, of "Dt_In ?c"]
    show "handling s0 (set_body x (Dt_In ?c) (put_buf (di_buf_data c) ?b (s\<lparr>ls_data := d\<rparr>))) x rest aw None"
      "holds (set_body x (Dt_In ?c) (put_buf (di_buf_data c) ?b (s\<lparr>ls_data := d\<rparr>))) x (di_tag ?c)" by simp_all
    show "body_at (set_body x (Dt_In ?c) (put_buf (di_buf_data c) ?b (s\<lparr>ls_data := d\<rparr>))) x = Some (Dt_In ?c)"
      using h by (auto simp: body_at_def set_body_def put_buf_def handling_def)
    show "spu_bufs (set_body x (Dt_In ?c) (put_buf (di_buf_data c) ?b (s\<lparr>ls_data := d\<rparr>))) (di_buf_data ?c) = Some ?b"
      by (simp add: put_buf_def set_body_def)
  qed simp_all
  then show ?thesis by (simp add: in_unaligned_def get_buf_def b Let_def)
qed

section \<open>Properties\<close>

text \<open>C15: once a \<open>dt_in_back\<close> has its tag, every turn of it keeps the place where the tail of its buffer
  will end: the tail plus the pieces under way and the bytes left is \<open>otail\<close>, the place announced when the
  transfer was accepted, also around the end of the buffer and with an unaligned first piece; when
  the command completes the tail is there, and no assertion on the way fails.\<close>

theorem dt_in_back_hits_target:
  assumes "handling s0 s x rest aw None" "body_at s x = Some (Dt_In c)" "di_state c \<in> {1, 2, 3, 4}"
    and "spu_bufs s (di_buf_data c) = Some b" "in_target c b"
  shows "wp (- {AssertFail}) (in_outcome x (di_buf_data c)) (run_dt_in_back x c s)"
proof -
  obtain cmd where cmd: "commands s x = Some cmd" "c_body cmd = Dt_In c" using assms(2) by (auto simp: body_at_def)
  have x: "x < 32" using assms(1) by (simp add: handling_def)
  have t: "holds s x (di_tag c)" using cmd assms(3) x by (simp add: holds_owned)
  consider "di_state c = 1" | "di_state c = 2" | "di_state c = 3" | "di_state c = 4" using assms(3) by auto
  then show ?thesis
  proof cases
    case 1
    then show ?thesis using in_begin_wp [OF assms(1) t assms(2,4) 1 assms(5)] by (simp add: run_dt_in_back_def)
  next
    case 2
    then show ?thesis using in_dma_complete_wp [OF assms(1) t assms(2,4) 2 assms(5)] by (simp add: run_dt_in_back_def)
  next
    case 3
    then have "b_tail b = otail b" using assms(5) by (auto simp: in_target_def in_left_def)
    then show ?thesis using 3 in_done_wp [OF assms(1) t assms(4)] by (simp add: run_dt_in_back_def)
  next
    case 4
    then show ?thesis using in_unaligned_wp [OF assms(1) t assms(4) 4 assms(5)] by (simp add: run_dt_in_back_def)
  qed
qed

theorem dt_in_back_hits_target_witness:
  "\<exists>s s' c. run_dt_in_back 0 c s = Inr s' \<and> di_num_bytes c = 300 \<and> in_outcome 0 8192 s'"
proof -
  let ?c = "\<lparr>di_buf_data = 8192, di_src_buf_data = 65536, di_src_buf = Some 65440, di_src_buf_mask = 1023, di_num_bytes = 300,
     di_state = 2, di_tag = 1, di_copy_bytes = 64, di_src_head = 128, di_ua_bytes = 0\<rparr>"
  let ?b = "blank_buffer\<lparr>b_mask := 511, b_tail := 196, b_head := 190, otail := 48\<rparr>"
  let ?s = "(small_with (Dt_In ?c))\<lparr>spu_bufs := [8192 \<mapsto> ?b]\<rparr>"
  have o: "owned (Dt_In ?c) = Some 1" by simp
  have h: "handling small_full ?s 0 [32, 33] [] None" using small_with_handling(1) [OF o] by (simp add: handling_bufs)
  have body: "body_at ?s 0 = Some (Dt_In ?c)" using small_with_handling(2) [OF o] by (auto simp: body_at_def)
  have buf: "spu_bufs ?s (di_buf_data ?c) = Some ?b" by simp
  have "b_mask ?b = 2 ^ 9 - 1" by simp
  then have "\<exists>k. b_mask ?b = 2 ^ k - 1" by (rule exI)
  then have tgt: "in_target ?c ?b" by (simp add: in_target_def in_left_def)
  have w: "wp (- {AssertFail}) (in_outcome 0 8192) (run_dt_in_back 0 ?c ?s)"
    using dt_in_back_hits_target [OF h body _ buf tgt] by simp
  have tv: "dma_waiting ?s ! 1 = 255" by (simp add: small_with_def small_full_def dep_state.defs small_spu_def set_body_def)
  have "\<exists>s'. run_dt_in_back 0 ?c ?s = Inr s'"
    by (simp add: run_dt_in_back_def in_dma_complete_def get_buf_def in_copy_next_def Let_def put_buf_def dma_get_def dma_start_def
        mfc_start_def dma_wait_complete_def dma_query_complete_def tag_valid_def and_tag_bit bit_or_iff bit_tag_bit
        small_with_def small_full_def dep_state.defs small_spu_def set_body_def dma_query_avail_def id_defs get_command_def
        put_command_def small_table_def bit_simps)
  then obtain s' where s': "run_dt_in_back 0 ?c ?s = Inr s'" by blast
  then have "in_outcome 0 8192 s'" using w by (simp add: wp_def)
  then show ?thesis using s' by (intro exI [of _ ?c] exI [of _ ?s] exI [of _ s']) simp
qed

text \<open>A piece that \<open>dt_in_back\<close> copies is at most what is left and one DMA transfer, and ends neither beyond the
  source buffer nor beyond the receiving one, whose sizes are the masks plus one; and while something
  is left it is not empty, so that the transfer goes on.\<close>

theorem in_piece_fits:
  assumes "di_src_head c \<le> di_src_buf_mask c" "di_src_buf_mask c < 2 ^ 32 - 1" "bt \<le> b_mask b" "b_mask b < 2 ^ 32 - 1"
  shows "in_piece c b bt \<le> di_num_bytes c \<and> in_piece c b bt \<le> MAX_DMA_SIZE \<and>
    unat (di_src_head c) + unat (in_piece c b bt) \<le> unat (di_src_buf_mask c) + 1 \<and>
    unat bt + unat (in_piece c b bt) \<le> unat (b_mask b) + 1 \<and>
    (di_num_bytes c \<noteq> 0 \<longrightarrow> in_piece c b bt \<noteq> 0)"
proof -
  have room: "unat ((m + 1) - h) = unat m + 1 - unat h" "unat h \<le> unat m" if "h \<le> m" "m < 2 ^ 32 - 1" for h m :: u32
  proof -
    have "unat (m + 1) = unat m + 1" using that(2) by (simp add: word_less_nat_alt unat_word_ariths)
    moreover show "unat h \<le> unat m" using that(1) by (simp add: word_le_nat_alt)
    ultimately show "unat ((m + 1) - h) = unat m + 1 - unat h" by (simp add: unat_sub word_le_nat_alt)
  qed
  note s = room [OF assms(1,2)] and d = room [OF assms(3,4)]
  have le: "x \<le> y \<longleftrightarrow> unat x \<le> unat y" "x > y \<longleftrightarrow> unat x > unat y" for x y :: u32
    by (simp_all add: word_le_nat_alt word_less_nat_alt)
  define p where "p = in_piece c b bt"
  have "unat p = min (min (min (unat (di_src_buf_mask c + 1 - di_src_head c)) (unat (di_num_bytes c))) (unat (b_mask b + 1 - bt))) 16384"
    unfolding p_def in_piece_def Let_def le MAX_DMA_SIZE_def by (auto simp: min_def)
  then have p: "unat p = min (min (min (unat (di_src_buf_mask c) + 1 - unat (di_src_head c)) (unat (di_num_bytes c))) (unat (b_mask b) + 1 - unat bt)) 16384"
    using s(1) d(1) by simp
  have z: "x = 0 \<longleftrightarrow> unat x = 0" for x :: u32 by (simp add: unat_eq_0)
  have "unat (16384 :: u32) = 16384" by simp
  then show ?thesis unfolding p_def [symmetric] le z MAX_DMA_SIZE_def using p s(2) d(2) by (intro conjI impI; linarith)
qed

theorem in_piece_fits_witness:
  "in_piece \<lparr>di_buf_data = 8192, di_src_buf_data = 65536, di_src_buf = None, di_src_buf_mask = 1023, di_num_bytes = 300,
     di_state = 2, di_tag = 1, di_copy_bytes = 64, di_src_head = 1000, di_ua_bytes = 0\<rparr> (blank_buffer\<lparr>b_mask := 511\<rparr>) 500 \<noteq> 0 \<and>
   500 + unat (in_piece \<lparr>di_buf_data = 8192, di_src_buf_data = 65536, di_src_buf = None, di_src_buf_mask = 1023, di_num_bytes = 300,
     di_state = 2, di_tag = 1, di_copy_bytes = 64, di_src_head = 1000, di_ua_bytes = 0\<rparr> (blank_buffer\<lparr>b_mask := 511\<rparr>) 500) \<le> 512"
  using in_piece_fits [of "\<lparr>di_buf_data = 8192, di_src_buf_data = 65536, di_src_buf = None, di_src_buf_mask = 1023, di_num_bytes = 300,
     di_state = 2, di_tag = 1, di_copy_bytes = 64, di_src_head = 1000, di_ua_bytes = 0\<rparr>" 500 "blank_buffer\<lparr>b_mask := 511\<rparr>"]
  by simp

end
