(* ===== verification/Spulib.thy ===== *)
theory Spulib
  imports Depend
begin

text \<open>
  The PPU side of the Cell library, first part (\<open>library/cell/src/ppu/spulib.h\<close>, \<open>spulibint.h\<close>,
  \<open>spulib.c\<close>): what the library knows of each SPU, command groups and how they are issued, waiting
  data transfers, and the list of library-handled operations.  An SPU is named by its index in
  \<open>spu_info\<close>, a group by its SPU and its index, an operation and a buffer by an address.  The two
  uses of the \<open>end\<close> field of a group are two fields here: \<open>g_size\<close> and \<open>g_cmds\<close> say where its data
  ends, \<open>i_next_free\<close> is the link of a free internal group.
\<close>

definition NUM_SPU :: nat where "NUM_SPU = 6"
definition SPU_MAX_CMD_GROUPS :: nat where "SPU_MAX_CMD_GROUPS = 32"
definition SPU_INT_CMD_GROUP :: nat where "SPU_INT_CMD_GROUP = 32"
definition SPU_INT_MAX_CMD_GROUPS :: nat where "SPU_INT_MAX_CMD_GROUPS = 40"

lemmas group_count_defs = SPU_MAX_CMD_GROUPS_def SPU_INT_CMD_GROUP_def SPU_INT_MAX_CMD_GROUPS_def

section \<open>State\<close>

record ppu_dt_params =
  pd_type :: nat
  pd_buf :: nat
  pd_bytes :: u32

record ppu_dt_cmd =
  pc_tag :: u32
  pc_params :: ppu_dt_params

text \<open>The mailboxes are those of the control area: requests not yet read, and a completion mask.\<close>

record spu_info =
  i_data_start :: u32
  i_data_size :: u32
  i_data_addr :: u32
  i_groups :: "cmd_group list"
  i_next_free :: "nat \<Rightarrow> nat option"
  i_free_group :: "nat option"
  i_internal :: u32
  i_completed :: u32
  i_issued :: u32
  i_dt_waiting :: "ppu_dt_cmd list"
  i_dt_mask :: u32
  i_complete_cb :: "nat option"
  i_dt_cb :: "nat option"
  i_ops :: "nat option"
  i_in_mbox :: "u32 list"
  i_out_mbox :: "u32 option"

record 'd ext_op =
  op_mask :: u32
  op_handler :: nat
  op_cb :: nat
  op_tag :: u32
  op_next :: "nat option"
  op_data :: 'd

text \<open>
  \<open>pmem\<close> holds the PPU buffers, \<open>ua_head\<close> and \<open>ua_tail\<close> the quadwords \<open>back_in_dtcb.ua_data\<close> and
  \<open>back_in_dtcb_2.ua_data\<close> of each, which SPUs write by DMA.  \<open>front_dtcb\<close> and \<open>back_dtcb\<close> are the
  transfer fields in the local stores that the PPU has written, by SPU and memory address.
  \<open>'c\<close> is the state of the scheduler that uses the library.
\<close>

record ('d, 'c) ppu =
  spus :: "spu_info list"
  op_heap :: "nat \<Rightarrow> 'd ext_op option"
  pmem :: buf_store
  ua_head :: "nat \<Rightarrow> byte list"
  ua_tail :: "nat \<Rightarrow> byte list"
  front_dtcb :: "nat \<Rightarrow> u32 \<Rightarrow> u32 \<times> u32"
  back_dtcb :: "nat \<Rightarrow> u32 \<Rightarrow> u32 \<times> u32"
  next_poll :: nat
  client :: 'c

definition get_spu :: "nat \<Rightarrow> ('d, 'c) ppu \<Rightarrow> spu_info res" where
  "get_spu i s = index_res (spus s) i"

definition put_spu :: "nat \<Rightarrow> spu_info \<Rightarrow> ('d, 'c) ppu \<Rightarrow> ('d, 'c) ppu" where
  "put_spu i u s = s\<lparr>spus := (spus s)[i := u]\<rparr>"

definition upd_spu :: "nat \<Rightarrow> (spu_info \<Rightarrow> spu_info) \<Rightarrow> ('d, 'c) ppu \<Rightarrow> ('d, 'c) ppu res" where
  "upd_spu i f s = rbind (get_spu i s) (\<lambda>u. Inr (put_spu i (f u) s))"

definition spu_lsa :: "spu_info \<Rightarrow> u32 \<Rightarrow> u32" where
  "spu_lsa u da = i_data_start u + da"

definition spu_addr :: "spu_info \<Rightarrow> u32 \<Rightarrow> u32" where
  "spu_addr u da = i_data_addr u + da"

section \<open>Command groups\<close>

definition on_group :: "nat \<Rightarrow> nat \<Rightarrow> (cmd_group \<Rightarrow> cmd_group res) \<Rightarrow> ('d, 'c) ppu \<Rightarrow> ('d, 'c) ppu res" where
  "on_group i gid f s = rbind (get_spu i s) (\<lambda>u. rbind (index_res (i_groups u) gid) (\<lambda>g.
     rbind (f g) (\<lambda>g. Inr (put_spu i (u\<lparr>i_groups := (i_groups u)[gid := g]\<rparr>) s))))"

definition spu_clear_group :: "nat \<Rightarrow> nat \<Rightarrow> ('d, 'c) ppu \<Rightarrow> ('d, 'c) ppu res" where
  "spu_clear_group i gid = on_group i gid (\<lambda>g. Inr (g\<lparr>g_size := 0, g_cmds := []\<rparr>))"

definition spu_new_group :: "nat \<Rightarrow> nat \<Rightarrow> ('d, 'c) ppu \<Rightarrow> ('d, 'c) ppu res" where
  "spu_new_group i gid s = ensure CheckFail (gid < SPU_MAX_CMD_GROUPS)
     (on_group i gid (\<lambda>g. Inr (g\<lparr>g_size := 0, g_cmds := []\<rparr>)) s)"

definition spu_get_group :: "nat \<Rightarrow> nat \<Rightarrow> ('d, 'c) ppu \<Rightarrow> cmd_group res" where
  "spu_get_group i gid s = ensure CheckFail (gid < SPU_MAX_CMD_GROUPS)
     (rbind (get_spu i s) (\<lambda>u. index_res (i_groups u) gid))"

text \<open>The loop over a group marks each command ID as issued; \<open>invalid\<close> are the IDs it must not have.\<close>

definition issue_cmd :: "fault \<Rightarrow> u32 \<Rightarrow> spu_cmd \<Rightarrow> u32 \<Rightarrow> u32 res" where
  "issue_cmd e invalid cmd issued = ensure e ((issued OR invalid) AND tag_bit (c_id cmd) = 0)
     (Inr (issued OR tag_bit (c_id cmd)))"

definition spu_issue_group :: "nat \<Rightarrow> nat \<Rightarrow> u32 \<Rightarrow> ('d, 'c) ppu \<Rightarrow> ('d, 'c) ppu res" where
  "spu_issue_group i gid da s = ensure CheckFail (gid < SPU_INT_MAX_CMD_GROUPS)
     (rbind (get_spu i s) (\<lambda>u. rbind (index_res (i_groups u) gid) (\<lambda>g.
      ensure CheckFail (g_size g \<noteq> 0)
      (rbind (if gid < SPU_MAX_CMD_GROUPS
              then rfold (issue_cmd CheckFail (i_internal u OR i_completed u)) (g_cmds g) (i_issued u)
              else rfold (issue_cmd AssertFail (NOT (i_internal u))) (g_cmds g) (i_issued u)) (\<lambda>issued.
       ensure CheckFail (length (i_in_mbox u) < 4)
       (rbind (spu_cmd_compose_req (spu_lsa u da) (of_nat gid) (g_size g)) (\<lambda>req.
         Inr (put_spu i (u\<lparr>i_issued := issued, i_in_mbox := i_in_mbox u @ [req]\<rparr>) s))))))))"

section \<open>Internal groups\<close>

definition spu_new_int_group :: "nat \<Rightarrow> ('d, 'c) ppu \<Rightarrow> (nat \<times> ('d, 'c) ppu) res" where
  "spu_new_int_group i s = rbind (get_spu i s) (\<lambda>u. case i_free_group u of
       None \<Rightarrow> Inl CheckFail
     | Some g \<Rightarrow> Inr (g, put_spu i (u\<lparr>i_free_group := i_next_free u g\<rparr>) s))"

definition spu_free_int_group :: "nat \<Rightarrow> nat \<Rightarrow> ('d, 'c) ppu \<Rightarrow> ('d, 'c) ppu res" where
  "spu_free_int_group i g = upd_spu i (\<lambda>u. u\<lparr>i_next_free := (i_next_free u)(g := i_free_group u), i_free_group := Some g\<rparr>)"

definition spu_issue_int_group :: "nat \<Rightarrow> nat \<Rightarrow> u32 \<Rightarrow> ('d, 'c) ppu \<Rightarrow> ('d, 'c) ppu res" where
  "spu_issue_int_group i g da = spu_issue_group i g da"

section \<open>Completed commands\<close>

definition spu_get_completed :: "nat \<Rightarrow> ('d, 'c) ppu \<Rightarrow> u32 res" where
  "spu_get_completed i s = rbind (get_spu i s) (\<lambda>u. Inr (i_completed u))"

definition spu_check_completed :: "nat \<Rightarrow> u32 \<Rightarrow> ('d, 'c) ppu \<Rightarrow> bool res" where
  "spu_check_completed i ids s = rbind (get_spu i s) (\<lambda>u. Inr (i_completed u AND ids = ids))"

definition spu_ack_completed :: "nat \<Rightarrow> u32 \<Rightarrow> ('d, 'c) ppu \<Rightarrow> ('d, 'c) ppu res" where
  "spu_ack_completed i ids s = rbind (get_spu i s) (\<lambda>u. ensure CheckFail (i_completed u AND ids = ids)
     (Inr (put_spu i (u\<lparr>i_completed := i_completed u AND NOT ids\<rparr>) s)))"

definition spu_check_and_ack_completed :: "nat \<Rightarrow> u32 \<Rightarrow> ('d, 'c) ppu \<Rightarrow> (bool \<times> ('d, 'c) ppu) res" where
  "spu_check_and_ack_completed i ids s = rbind (spu_check_completed i ids s) (\<lambda>done.
     if done then rbind (upd_spu i (\<lambda>u. u\<lparr>i_completed := i_completed u AND NOT ids\<rparr>) s) (\<lambda>s. Inr (True, s))
     else Inr (False, s))"

section \<open>Waiting data transfers\<close>

text \<open>The caller fills in the parameters through the pointer that \<open>ppu_dt_wait_spu\<close> returns.\<close>

definition ppu_dt_wait_spu :: "nat \<Rightarrow> nat \<Rightarrow> u32 \<Rightarrow> ppu_dt_params \<Rightarrow> ('d, 'c) ppu \<Rightarrow> ('d, 'c) ppu res" where
  "ppu_dt_wait_spu i cmd_id tag params s = rbind (get_spu i s) (\<lambda>u.
     ensure CheckFail (cmd_id < SPU_MAX_COMMANDS) (ensure CheckFail (i_dt_mask u AND tag_bit cmd_id = 0)
       (Inr (put_spu i (u\<lparr>i_dt_waiting := (i_dt_waiting u)[cmd_id := \<lparr>pc_tag = tag, pc_params = params\<rparr>],
          i_dt_mask := i_dt_mask u OR tag_bit cmd_id\<rparr>) s))))"

section \<open>Library-handled operations\<close>

text \<open>\<open>a\<close> is what the allocator returns: a fresh address, or nothing.\<close>

definition spu_new_ext_op :: "nat option \<Rightarrow> nat \<Rightarrow> u32 \<Rightarrow> nat \<Rightarrow> nat \<Rightarrow> u32 \<Rightarrow> 'd \<Rightarrow> ('d, 'c) ppu
    \<Rightarrow> (nat \<times> ('d, 'c) ppu) res" where
  "spu_new_ext_op a i ids handler cb tag d s = rbind (get_spu i s) (\<lambda>u.
     ensure CheckFail ((i_internal u OR i_completed u OR i_issued u) AND ids = 0)
     (case a of None \<Rightarrow> Inl CheckFail
      | Some a \<Rightarrow> Inr (a, (put_spu i (u\<lparr>i_internal := i_internal u OR ids, i_ops := Some a\<rparr>) s)
          \<lparr>op_heap := (op_heap s)(a \<mapsto> \<lparr>op_mask = ids, op_handler = handler, op_cb = cb, op_tag = tag,
             op_next = i_ops u, op_data = d\<rparr>)\<rparr>)))"

text \<open>A pointer to a link of the list: the head in \<open>spu_info\<close>, or the \<open>next\<close> field of an operation.\<close>

datatype op_ref = Ops_Head | Op_Next nat

definition load_op :: "nat \<Rightarrow> op_ref \<Rightarrow> ('d, 'c) ppu \<Rightarrow> nat option res" where
  "load_op i r s = (case r of Ops_Head \<Rightarrow> rbind (get_spu i s) (\<lambda>u. Inr (i_ops u))
     | Op_Next a \<Rightarrow> rbind (deref (op_heap s a)) (\<lambda>q. Inr (op_next q)))"

definition store_op :: "nat \<Rightarrow> op_ref \<Rightarrow> nat option \<Rightarrow> ('d, 'c) ppu \<Rightarrow> ('d, 'c) ppu res" where
  "store_op i r v s = (case r of Ops_Head \<Rightarrow> upd_spu i (\<lambda>u. u\<lparr>i_ops := v\<rparr>) s
     | Op_Next a \<Rightarrow> rbind (deref (op_heap s a)) (\<lambda>q. Inr (s\<lparr>op_heap := (op_heap s)(a \<mapsto> q\<lparr>op_next := v\<rparr>)\<rparr>)))"

section \<open>Access\<close>

lemma get_put_spu [simp]:
  "i < length (spus s) \<Longrightarrow> get_spu i (put_spu i u s) = Inr u"
  "j \<noteq> i \<Longrightarrow> get_spu j (put_spu i u s) = get_spu j s"
  by (simp_all add: get_spu_def put_spu_def index_res_def)

lemma get_spu_length: "get_spu i s = Inr u \<Longrightarrow> i < length (spus s)"
  by (simp add: get_spu_def res_simps)

lemma get_put_same: "get_spu i s = Inr u \<Longrightarrow> get_spu i (put_spu i v s) = Inr v"
  by (simp add: get_spu_length)

lemma put_put_spu [simp]: "put_spu i v (put_spu i u s) = put_spu i v s"
  by (simp add: put_spu_def)

lemma put_spu_fields [simp]:
  "op_heap (put_spu i u s) = op_heap s" "pmem (put_spu i u s) = pmem s" "next_poll (put_spu i u s) = next_poll s"
  "ua_head (put_spu i u s) = ua_head s" "ua_tail (put_spu i u s) = ua_tail s" "client (put_spu i u s) = client s"
  "front_dtcb (put_spu i u s) = front_dtcb s" "back_dtcb (put_spu i u s) = back_dtcb s"
  "length (spus (put_spu i u s)) = length (spus s)"
  by (simp_all add: put_spu_def)

lemma get_spu_updates [simp]:
  "get_spu i (s\<lparr>op_heap := h\<rparr>) = get_spu i s" "get_spu i (s\<lparr>pmem := p\<rparr>) = get_spu i s"
  "get_spu i (s\<lparr>next_poll := k\<rparr>) = get_spu i s" "get_spu i (s\<lparr>client := c\<rparr>) = get_spu i s"
  "get_spu i (s\<lparr>front_dtcb := f\<rparr>) = get_spu i s" "get_spu i (s\<lparr>back_dtcb := f\<rparr>) = get_spu i s"
  by (simp_all add: get_spu_def)

lemma put_spu_updates [simp]:
  "put_spu i u (s\<lparr>op_heap := h\<rparr>) = (put_spu i u s)\<lparr>op_heap := h\<rparr>"
  "put_spu i u (s\<lparr>next_poll := k\<rparr>) = (put_spu i u s)\<lparr>next_poll := k\<rparr>"
  by (simp_all add: put_spu_def)

end
