(* ===== verification/Ppu_Dt.thy ===== *)
theory Ppu_Dt
  imports Spulib
begin

text \<open>
  Data transfers on the PPU (\<open>library/cell/src/ppu/dt.c\<close>): starting the PPU's end of a transfer to
  or from an SPU, and finishing it when the SPU's command has completed.  The vector loads and
  stores are those of the instruction set: they move the bytes of one quadword from or up to an
  address.  Data areas start at a quadword boundary.
\<close>

section \<open>Vector operations\<close>

definition vec_lvlx :: "nat \<Rightarrow> byte list \<Rightarrow> byte list res" where
  "vec_lvlx ea m = rbind (load_bytes m (int ea) (int (16 - ea mod 16))) (\<lambda>v. Inr (v @ replicate (ea mod 16) 0))"

definition vec_lvrx :: "nat \<Rightarrow> byte list \<Rightarrow> byte list res" where
  "vec_lvrx ea m = rbind (load_bytes m (int (ea - ea mod 16)) (int (ea mod 16)))
     (\<lambda>v. Inr (replicate (16 - ea mod 16) 0 @ v))"

definition vec_stvlx :: "byte list \<Rightarrow> nat \<Rightarrow> byte list \<Rightarrow> byte list res" where
  "vec_stvlx v ea m = store_bytes m (int ea) (take (16 - ea mod 16) v)"

definition vec_stvrx :: "byte list \<Rightarrow> nat \<Rightarrow> byte list \<Rightarrow> byte list res" where
  "vec_stvrx v ea m = store_bytes m (int (ea - ea mod 16)) (drop (16 - ea mod 16) v)"

definition vec_lvsr :: "nat \<Rightarrow> nat list" where
  "vec_lvsr sh = map (\<lambda>k. 16 - sh mod 16 + k) [0..<16]"

definition vec_perm :: "byte list \<Rightarrow> byte list \<Rightarrow> nat list \<Rightarrow> byte list" where
  "vec_perm a b ctl = map ((!) (a @ b)) ctl"

section \<open>Buffers\<close>

definition get_pbuf :: "nat \<Rightarrow> ('d, 'c) ppu \<Rightarrow> buffer_cb res" where
  "get_pbuf p s = deref (bufs (pmem s) p)"

definition put_pbuf :: "nat \<Rightarrow> buffer_cb \<Rightarrow> ('d, 'c) ppu \<Rightarrow> ('d, 'c) ppu" where
  "put_pbuf p b s = s\<lparr>pmem := (pmem s)\<lparr>bufs := (bufs (pmem s))(p \<mapsto> b)\<rparr>\<rparr>"

definition on_data :: "nat \<Rightarrow> (byte list \<Rightarrow> byte list res) \<Rightarrow> ('d, 'c) ppu \<Rightarrow> ('d, 'c) ppu res" where
  "on_data a f s = rbind (deref (datas (pmem s) a)) (\<lambda>m. rbind (f m) (\<lambda>m.
     Inr (s\<lparr>pmem := (pmem s)\<lparr>datas := (datas (pmem s))(a \<mapsto> m)\<rparr>\<rparr>)))"

definition write_back_dtcb :: "nat \<Rightarrow> u32 \<Rightarrow> u32 \<times> u32 \<Rightarrow> ('d, 'c) ppu \<Rightarrow> ('d, 'c) ppu res" where
  "write_back_dtcb i da v s = rbind (get_spu i s) (\<lambda>u.
     Inr (s\<lparr>back_dtcb := (back_dtcb s)(i := (back_dtcb s i)(spu_addr u da := v))\<rparr>))"

definition write_front_dtcb :: "nat \<Rightarrow> u32 \<Rightarrow> u32 \<times> u32 \<Rightarrow> ('d, 'c) ppu \<Rightarrow> ('d, 'c) ppu res" where
  "write_front_dtcb i da v s = rbind (get_spu i s) (\<lambda>u.
     Inr (s\<lparr>front_dtcb := (front_dtcb s)(i := (front_dtcb s i)(spu_addr u da := v))\<rparr>))"

definition PPU_CMD_DT_IN_BACK :: nat where "PPU_CMD_DT_IN_BACK = 1"
definition PPU_CMD_DT_OUT_FRONT :: nat where "PPU_CMD_DT_OUT_FRONT = 2"

lemmas ppu_cmd_defs = PPU_CMD_DT_IN_BACK_def PPU_CMD_DT_OUT_FRONT_def

section \<open>Sending from a PPU buffer\<close>

definition dt_out_front :: "nat \<Rightarrow> nat \<Rightarrow> u32 \<Rightarrow> u32 \<Rightarrow> nat \<Rightarrow> u32 \<Rightarrow> ('d, 'c) ppu \<Rightarrow> ('d, 'c) ppu res" where
  "dt_out_front buf dest_spu dest_buf_data num_bytes cmd_id tag s =
     ensure CheckFail (dest_buf_data AND CACHE_MASK = 0 \<and> num_bytes \<noteq> 0)
     (rbind (get_pbuf buf s) (\<lambda>b. ensure AssertFail (ihead b = b_head b)
     (ensure CheckFail (front_action b = BUFFER_ACTION_NONE \<and> back_action b \<noteq> BUFFER_ACTION_OUT)
     (ensure CheckFail ((b_tail b - b_head b) AND b_mask b \<ge> num_bytes)
     (let new_head = (b_head b + num_bytes) AND b_mask b;
        s = put_pbuf buf (b\<lparr>ihead := new_head, front_action := BUFFER_ACTION_OUT\<rparr>) s in
      rbind (ppu_dt_wait_spu dest_spu cmd_id tag \<lparr>pd_type = PPU_CMD_DT_OUT_FRONT, pd_buf = buf, pd_bytes = num_bytes\<rparr> s)
        (write_back_dtcb dest_spu dest_buf_data (b_head b, new_head)))))))"

definition ppu_finish_dt_out_front :: "ppu_dt_params \<Rightarrow> ('d, 'c) ppu \<Rightarrow> ('d, 'c) ppu res" where
  "ppu_finish_dt_out_front cmd s = rbind (get_pbuf (pd_buf cmd) s) (\<lambda>b.
     Inr (put_pbuf (pd_buf cmd) (b\<lparr>front_action := BUFFER_ACTION_NONE, b_head := (b_head b + pd_bytes cmd) AND b_mask b\<rparr>) s))"

definition dt_out_front_ex :: "nat \<Rightarrow> nat \<Rightarrow> u32 \<Rightarrow> u32 \<Rightarrow> ('d, 'c) ppu \<Rightarrow> ('d, 'c) ppu res" where
  "dt_out_front_ex buf dest_spu dest_buf_data num_bytes s =
     ensure CheckFail (dest_buf_data AND CACHE_MASK = 0 \<and> num_bytes \<noteq> 0)
     (rbind (get_pbuf buf s) (\<lambda>b. ensure AssertFail (ihead b = b_head b)
     (ensure CheckFail (front_action b = BUFFER_ACTION_NONE \<and> back_action b \<noteq> BUFFER_ACTION_OUT)
     (ensure CheckFail ((b_tail b - b_head b) AND b_mask b \<ge> num_bytes)
     (let new_head = (b_head b + num_bytes) AND b_mask b in
      write_back_dtcb dest_spu dest_buf_data (b_head b, new_head)
        (put_pbuf buf (b\<lparr>ihead := new_head, b_head := new_head\<rparr>) s))))))"

section \<open>Receiving into a PPU buffer\<close>

text \<open>The room of a buffer: head and tail may not share a quadword unless the head is at its start.\<close>

definition ppu_in_room :: "buffer_cb \<Rightarrow> u32" where
  "ppu_in_room b = (b_head b - (if b_head b AND 15 \<noteq> 0 then b_head b AND 15 else 1) - b_tail b) AND b_mask b"

definition dt_in_back :: "nat \<Rightarrow> nat \<Rightarrow> u32 \<Rightarrow> u32 \<Rightarrow> nat \<Rightarrow> u32 \<Rightarrow> ('d, 'c) ppu \<Rightarrow> ('d, 'c) ppu res" where
  "dt_in_back buf src_spu src_buf_data num_bytes cmd_id tag s =
     ensure CheckFail (src_buf_data AND CACHE_MASK = 0 \<and> num_bytes \<noteq> 0)
     (rbind (get_pbuf buf s) (\<lambda>b. ensure AssertFail (otail b = b_tail b)
     (ensure CheckFail (back_action b = BUFFER_ACTION_NONE)
     (ensure CheckFail (ppu_in_room b \<ge> num_bytes)
     (let new_tail = (b_tail b + num_bytes) AND b_mask b;
        s = put_pbuf buf (b\<lparr>otail := new_tail, back_action := BUFFER_ACTION_IN\<rparr>) s in
      rbind (ppu_dt_wait_spu src_spu cmd_id tag \<lparr>pd_type = PPU_CMD_DT_IN_BACK, pd_buf = buf, pd_bytes = num_bytes\<rparr> s)
        (write_front_dtcb src_spu src_buf_data (b_tail b, new_tail)))))))"

definition store_ua_head :: "nat \<Rightarrow> buffer_cb \<Rightarrow> ('d, 'c) ppu \<Rightarrow> ('d, 'c) ppu res" where
  "store_ua_head buf b s = rbind (vec_lvlx (unat (b_tail b AND 15)) (ua_head s buf)) (\<lambda>v.
     on_data (b_data b) (vec_stvlx v (unat (b_tail b))) s)"

definition ppu_finish_dt_in_back :: "ppu_dt_params \<Rightarrow> ('d, 'c) ppu \<Rightarrow> ('d, 'c) ppu res" where
  "ppu_finish_dt_in_back cmd s = rbind (get_pbuf (pd_buf cmd) s) (\<lambda>b.
     rbind (if b_tail b AND 15 \<noteq> 0 then store_ua_head (pd_buf cmd) b s else Inr s) (\<lambda>s.
       Inr (put_pbuf (pd_buf cmd)
         (b\<lparr>back_action := BUFFER_ACTION_NONE, b_tail := (b_tail b + pd_bytes cmd) AND b_mask b\<rparr>) s)))"

definition dt_in_back_ex :: "nat \<Rightarrow> nat \<Rightarrow> u32 \<Rightarrow> u32 \<Rightarrow> ('d, 'c) ppu \<Rightarrow> ('d, 'c) ppu res" where
  "dt_in_back_ex buf src_spu src_buf_data num_bytes s =
     ensure CheckFail (src_buf_data AND CACHE_MASK = 0 \<and> num_bytes \<noteq> 0)
     (rbind (get_pbuf buf s) (\<lambda>b. ensure AssertFail (otail b = b_tail b)
     (ensure CheckFail (back_action b = BUFFER_ACTION_NONE)
     (ensure CheckFail (ppu_in_room b \<ge> num_bytes)
     (let new_tail = (b_tail b + num_bytes) AND b_mask b in
      write_front_dtcb src_spu src_buf_data (b_tail b, new_tail)
        (put_pbuf buf (b\<lparr>otail := new_tail, back_action := BUFFER_ACTION_IN, in_back_buffered_bytes := num_bytes\<rparr>) s))))))"

definition finish_dt_in_back_ex_head :: "nat \<Rightarrow> bool \<Rightarrow> ('d, 'c) ppu \<Rightarrow> ('d, 'c) ppu res" where
  "finish_dt_in_back_ex_head buf tail_overlaps s = rbind (get_pbuf buf s) (\<lambda>b.
     let num_bytes = in_back_buffered_bytes b; off = b_tail b AND 15; new_tail = b_tail b + num_bytes;
       tail' = (b_tail b + num_bytes) AND b_mask b in
     rbind (if off = 0 then Inr s
       else if tail_overlaps \<and> 16 - off > num_bytes
       then rbind (deref (datas (pmem s) (b_data b))) (\<lambda>m.
            rbind (vec_lvrx (unat (new_tail AND 15)) (ua_head s buf)) (\<lambda>l.
            rbind (vec_lvlx (unat new_tail) m) (\<lambda>r.
              on_data (b_data b) (vec_stvlx (vec_perm l r (vec_lvsr (unat num_bytes))) (unat (b_tail b))) s)))
       else store_ua_head buf b s) (\<lambda>s.
     ensure AssertFail (otail b = tail')
       (Inr (put_pbuf buf (b\<lparr>back_action := (if tail_overlaps then back_action b else BUFFER_ACTION_NONE), b_tail := tail'\<rparr>) s))))"

definition finish_dt_in_back_ex_tail :: "nat \<Rightarrow> ('d, 'c) ppu \<Rightarrow> ('d, 'c) ppu res" where
  "finish_dt_in_back_ex_tail buf s = rbind (get_pbuf buf s) (\<lambda>b.
     ensure CheckFail (back_action b = BUFFER_ACTION_IN)
     (let ua_bytes = b_tail b AND 15 in
      rbind (if ua_bytes \<noteq> 0 \<and> in_back_buffered_bytes b \<ge> ua_bytes
        then rbind (vec_lvrx (unat ua_bytes) (ua_tail s buf)) (\<lambda>v. on_data (b_data b) (vec_stvrx v (unat (b_tail b))) s)
        else Inr s) (\<lambda>s. Inr (put_pbuf buf (b\<lparr>back_action := BUFFER_ACTION_NONE\<rparr>) s))))"

definition ppu_finish_dt :: "ppu_dt_params \<Rightarrow> ('d, 'c) ppu \<Rightarrow> ('d, 'c) ppu res" where
  "ppu_finish_dt cmd s =
     (if pd_type cmd = PPU_CMD_DT_IN_BACK then ppu_finish_dt_in_back cmd s
      else if pd_type cmd = PPU_CMD_DT_OUT_FRONT then ppu_finish_dt_out_front cmd s
      else Inl Unreached)"

end
