(* ===== verification/Completion.thy ===== *)
theory Completion
  imports Ppu_Dt
begin

text \<open>
  The PPU side of the Cell library, second part (\<open>library/cell/src/ppu/spulib.c\<close>): processing a
  completion message of an SPU, polling, waiting, start-up and the statistics entry points.
  Handlers of operations and callbacks of the scheduler are arguments: \<open>lib_code\<close> says what the
  function behind each pointer does.
\<close>

section \<open>Functions behind pointers\<close>

record ('d, 'c) lib_code =
  run_op :: "nat \<Rightarrow> nat \<Rightarrow> u32 \<Rightarrow> ('d, 'c) ppu \<Rightarrow> (bool \<times> ('d, 'c) ppu) res"
  run_generic :: "nat \<Rightarrow> u32 \<Rightarrow> ('d, 'c) ppu \<Rightarrow> ('d, 'c) ppu res"
  run_complete :: "nat \<Rightarrow> nat \<Rightarrow> u32 \<Rightarrow> u32 \<Rightarrow> ('d, 'c) ppu \<Rightarrow> ('d, 'c) ppu res"

section \<open>Completion messages\<close>

text \<open>The loop over the IDs that PPU transfers wait on, lowest first.\<close>

definition finish_waiting :: "('d, 'c) lib_code \<Rightarrow> nat \<Rightarrow> u32 \<Rightarrow> nat \<Rightarrow> ('d, 'c) ppu \<Rightarrow> ('d, 'c) ppu res" where
  "finish_waiting code i internal_ids cmd_id s = rbind (get_spu i s) (\<lambda>u.
     rbind (index_res (i_dt_waiting u) cmd_id) (\<lambda>dt. rbind (ppu_finish_dt (pc_params dt) s) (\<lambda>s.
     rbind (get_spu i s) (\<lambda>u. case i_dt_cb u of
         None \<Rightarrow> Inr s
       | Some cb \<Rightarrow> if internal_ids AND tag_bit cmd_id \<noteq> 0
           then rbind (index_res (i_dt_waiting u) cmd_id) (\<lambda>dt. run_generic code cb (pc_tag dt) s) else Inr s))))"

function finish_all_waiting :: "('d, 'c) lib_code \<Rightarrow> nat \<Rightarrow> u32 \<Rightarrow> u32 \<Rightarrow> ('d, 'c) ppu \<Rightarrow> ('d, 'c) ppu res" where
  "finish_all_waiting code i internal_ids dt_ids s = (case count_ls_zeros dt_ids of
       Inl _ \<Rightarrow> Inr s
     | Inr cmd_id \<Rightarrow> (case finish_waiting code i internal_ids cmd_id s of
           Inl e \<Rightarrow> Inl e
         | Inr s \<Rightarrow> finish_all_waiting code i internal_ids (dt_ids AND NOT (tag_bit cmd_id)) s))"
  by auto
termination
  by (relation "measure (\<lambda>(code, i, internal_ids, dt_ids, s). unat dt_ids)")
    (auto dest: count_ls_zeros_bit intro: clear_bit_less)

declare finish_all_waiting.simps [simp del]

text \<open>
  The loop over the operations of an SPU.  \<open>r\<close> is the link that is followed next; a handler or a
  callback may start operations, which go to the front of the list, so the loop has fuel.
\<close>

fun dispatch_ops :: "('d, 'c) lib_code \<Rightarrow> nat \<Rightarrow> nat \<Rightarrow> op_ref \<Rightarrow> u32 \<Rightarrow> ('d, 'c) ppu \<Rightarrow> (u32 \<times> ('d, 'c) ppu) res" where
  "dispatch_ops code 0 i r ids s = Inl OutOfFuel"
| "dispatch_ops code (Suc n) i r ids s =
     (if ids = 0 then Inr (ids, s)
      else rbind (load_op i r s) (\<lambda>p. case p of
          None \<Rightarrow> Inr (ids, s)
        | Some a \<Rightarrow> rbind (deref (op_heap s a)) (\<lambda>q.
            let op_ids = ids AND op_mask q in
            if op_ids = 0 then dispatch_ops code n i (Op_Next a) ids s
            else rbind (run_op code (op_handler q) a op_ids s) (\<lambda>(finished, s).
              if \<not> finished then dispatch_ops code n i (Op_Next a) (ids AND NOT op_ids) s
              else rbind (deref (op_heap s a)) (\<lambda>q. rbind (store_op i r (op_next q) s) (\<lambda>s.
                rbind (upd_spu i (\<lambda>u. u\<lparr>i_internal := i_internal u AND NOT (op_mask q)\<rparr>) s) (\<lambda>s.
                rbind (run_generic code (op_cb q) (op_tag q) (s\<lparr>op_heap := (op_heap s)(a := None)\<rparr>)) (\<lambda>s.
                  dispatch_ops code n i r (ids AND NOT op_ids) s))))))))"

definition spu_handle_internal_complete :: "('d, 'c) lib_code \<Rightarrow> nat \<Rightarrow> nat \<Rightarrow> u32 \<Rightarrow> ('d, 'c) ppu \<Rightarrow> ('d, 'c) ppu res" where
  "spu_handle_internal_complete code n i ids s = rbind (get_spu i s) (\<lambda>u. ensure AssertFail (i_ops u \<noteq> None)
     (rbind (dispatch_ops code n i Ops_Head ids s) (\<lambda>(ids, s). ensure AssertFail (ids = 0) (Inr s))))"

text \<open>The last two blocks of the handler: operations, then the scheduler's callback.\<close>

definition spu_report_complete :: "('d, 'c) lib_code \<Rightarrow> nat \<Rightarrow> u32 \<Rightarrow> ('d, 'c) ppu \<Rightarrow> ('d, 'c) ppu res" where
  "spu_report_complete code i ids s =
     (if ids = 0 then Inr s
      else rbind (upd_spu i (\<lambda>u. u\<lparr>i_completed := i_completed u OR ids\<rparr>) s) (\<lambda>s. rbind (get_spu i s) (\<lambda>u.
        case i_complete_cb u of None \<Rightarrow> Inr s | Some cb \<Rightarrow> run_complete code cb i ids (i_completed u) s)))"

definition spu_handle_complete :: "('d, 'c) lib_code \<Rightarrow> nat \<Rightarrow> nat \<Rightarrow> u32 \<Rightarrow> ('d, 'c) ppu \<Rightarrow> ('d, 'c) ppu res" where
  "spu_handle_complete code n i ids s = rbind (get_spu i s) (\<lambda>u.
     let internal_ids = ids AND i_internal u; dt_ids = ids AND i_dt_mask u in
     rbind (if dt_ids \<noteq> 0
       then finish_all_waiting code i internal_ids dt_ids (put_spu i (u\<lparr>i_dt_mask := i_dt_mask u AND NOT dt_ids\<rparr>) s)
       else Inr s) (\<lambda>s.
     rbind (upd_spu i (\<lambda>u. u\<lparr>i_issued := i_issued u AND NOT ids\<rparr>) s) (\<lambda>s.
     rbind (if internal_ids \<noteq> 0 then spu_handle_internal_complete code n i internal_ids s else Inr s) (\<lambda>s.
       spu_report_complete code i (ids AND NOT internal_ids) s))))"

section \<open>Polling\<close>

definition next_spu :: "nat \<Rightarrow> nat" where
  "next_spu i = (if i = NUM_SPU - 1 then 0 else i + 1)"

definition read_out_mbox :: "nat \<Rightarrow> ('d, 'c) ppu \<Rightarrow> (u32 \<times> ('d, 'c) ppu) res" where
  "read_out_mbox i s = rbind (get_spu i s) (\<lambda>u. case i_out_mbox u of
     None \<Rightarrow> Inl Stalled | Some m \<Rightarrow> Inr (m, put_spu i (u\<lparr>i_out_mbox := None\<rparr>) s))"

text \<open>\<open>k\<close> bounds the rounds of the \<open>do\<close> loop, which makes at most \<open>NUM_SPU\<close>.\<close>

fun poll_loop :: "('d, 'c) lib_code \<Rightarrow> nat \<Rightarrow> nat \<Rightarrow> nat \<Rightarrow> ('d, 'c) ppu \<Rightarrow> (bool \<times> ('d, 'c) ppu) res" where
  "poll_loop code n 0 i s = Inl OutOfFuel"
| "poll_loop code n (Suc k) i s = rbind (get_spu i s) (\<lambda>u.
     if i_out_mbox u \<noteq> None
     then rbind (read_out_mbox i s) (\<lambda>(ids, s). rbind (spu_handle_complete code n i ids s) (\<lambda>s.
       Inr (True, s\<lparr>next_poll := next_spu i\<rparr>)))
     else if next_spu i = next_poll s then Inr (False, s) else poll_loop code n k (next_spu i) s)"

definition spulib_poll :: "('d, 'c) lib_code \<Rightarrow> nat \<Rightarrow> ('d, 'c) ppu \<Rightarrow> (bool \<times> ('d, 'c) ppu) res" where
  "spulib_poll code n s = poll_loop code n NUM_SPU (next_poll s) s"

text \<open>
  \<open>spulib_wait\<close>: the SPUs run while the PPU polls, so \<open>env t\<close> says what they have done to the
  library's state before poll number \<open>t\<close>.
\<close>

fun wait_loop :: "('d, 'c) lib_code \<Rightarrow> (nat \<Rightarrow> ('d, 'c) ppu \<Rightarrow> ('d, 'c) ppu) \<Rightarrow> nat \<Rightarrow> nat \<Rightarrow> nat \<Rightarrow> nat \<Rightarrow> u32
    \<Rightarrow> ('d, 'c) ppu \<Rightarrow> ('d, 'c) ppu res" where
  "wait_loop code env n 0 t i ids s = Inl OutOfFuel"
| "wait_loop code env n (Suc k) t i ids s = rbind (spulib_poll code n (env t s)) (\<lambda>(polled, s).
     if \<not> polled then wait_loop code env n k (Suc t) i ids s
     else rbind (spu_check_and_ack_completed i ids s) (\<lambda>(done, s).
       if done then Inr s else wait_loop code env n k (Suc t) i ids s))"

definition spulib_wait :: "('d, 'c) lib_code \<Rightarrow> (nat \<Rightarrow> ('d, 'c) ppu \<Rightarrow> ('d, 'c) ppu) \<Rightarrow> nat \<Rightarrow> nat \<Rightarrow> nat \<Rightarrow> nat \<Rightarrow> u32
    \<Rightarrow> ('d, 'c) ppu \<Rightarrow> ('d, 'c) ppu res" where
  "spulib_wait code env n k t i ids s = rbind (spu_check_and_ack_completed i ids s) (\<lambda>(done, s).
     if done then Inr s else wait_loop code env n k t i ids s)"

definition spulib_set_all_spu_complete_cb :: "nat option \<Rightarrow> ('d, 'c) ppu \<Rightarrow> ('d, 'c) ppu res" where
  "spulib_set_all_spu_complete_cb cb = rfold (\<lambda>i. upd_spu i (\<lambda>u. u\<lparr>i_complete_cb := cb\<rparr>)) [0..<NUM_SPU]"

definition spulib_set_all_ppu_dt_complete_cb :: "nat option \<Rightarrow> ('d, 'c) ppu \<Rightarrow> ('d, 'c) ppu res" where
  "spulib_set_all_ppu_dt_complete_cb cb = rfold (\<lambda>i. upd_spu i (\<lambda>u. u\<lparr>i_dt_cb := cb\<rparr>)) [0..<NUM_SPU]"

section \<open>Start-up\<close>

definition LS_SIZE :: u32 where "LS_SIZE = 262144"

definition init_spu_info :: "nat \<Rightarrow> spu_info \<Rightarrow> spu_info" where
  "init_spu_info i u = (let start = (i_data_start u + CACHE_MASK) AND NOT CACHE_MASK in
     u\<lparr>i_data_start := start, i_data_size := LS_SIZE - start,
       i_groups := map (\<lambda>gid. (i_groups u ! gid)\<lparr>g_spu_id := i, g_gid := gid\<rparr>) [0..<SPU_INT_MAX_CMD_GROUPS],
       i_next_free := (\<lambda>g. if SPU_INT_CMD_GROUP \<le> g \<and> g < SPU_INT_MAX_CMD_GROUPS - 1 then Some (g + 1)
          else if g = SPU_INT_MAX_CMD_GROUPS - 1 then None else i_next_free u g),
       i_free_group := Some SPU_INT_CMD_GROUP\<rparr>)"

text \<open>
  The SPE library is a parameter: whether the thread group and each thread could be created, and
  where each local store is mapped.  The second component of the result lists the SPUs whose
  thread handle is passed to \<open>spe_kill\<close>.  The SPU reads the start-up message before it signals that it
  is ready, so the mailboxes end up empty.
\<close>

definition spulib_init :: "bool \<Rightarrow> (nat \<Rightarrow> bool) \<Rightarrow> (nat \<Rightarrow> u32) \<Rightarrow> ('d, 'c) ppu \<Rightarrow> (bool \<times> nat list \<times> ('d, 'c) ppu) res" where
  "spulib_init created thread_ok ls s =
     rbind (rfold (\<lambda>i. upd_spu i (init_spu_info i)) [0..<NUM_SPU] s) (\<lambda>s.
       if \<not> created then Inr (False, [], s)
       else case find (\<lambda>i. \<not> thread_ok i) [0..<NUM_SPU] of
           Some i \<Rightarrow> Inr (False, replicate i i, s)
         | None \<Rightarrow> rbind (rfold (\<lambda>i. upd_spu i (\<lambda>u. u\<lparr>i_data_addr := ls i + i_data_start u\<rparr>)) [0..<NUM_SPU] s)
             (\<lambda>s. Inr (True, [], s)))"

section \<open>Statistics\<close>

text \<open>One command with ID 0 is sent to every SPU while the scheduler's callback is off.\<close>

definition stats_issue :: "(cmd_group \<Rightarrow> nat \<Rightarrow> nat list \<Rightarrow> cmd_group res) \<Rightarrow> nat \<Rightarrow> ('d, 'c) ppu \<Rightarrow> ('d, 'c) ppu res" where
  "stats_issue stub i s = rbind (spu_new_group i 0 s) (\<lambda>s. rbind (on_group i 0 (\<lambda>g. stub g 0 []) s) (spu_issue_group i 0 0))"

definition stats_begin :: "(cmd_group \<Rightarrow> nat \<Rightarrow> nat list \<Rightarrow> cmd_group res) \<Rightarrow> nat \<Rightarrow> nat option list \<times> ('d, 'c) ppu
    \<Rightarrow> (nat option list \<times> ('d, 'c) ppu) res" where
  "stats_begin stub i = (\<lambda>(orig_cb, s). rbind (get_spu i s) (\<lambda>u. ensure CheckFail (i_issued u = 0 \<and> i_ops u = None)
     (rbind (stats_issue stub i (put_spu i (u\<lparr>i_complete_cb := None\<rparr>) s)) (\<lambda>s. Inr (orig_cb @ [i_complete_cb u], s)))))"

definition restore_cb :: "nat option list \<Rightarrow> nat \<Rightarrow> ('d, 'c) ppu \<Rightarrow> ('d, 'c) ppu res" where
  "restore_cb orig_cb i s = rbind (index_res orig_cb i) (\<lambda>cb. upd_spu i (\<lambda>u. u\<lparr>i_complete_cb := cb\<rparr>) s)"

definition spulib_start_stats :: "('d, 'c) lib_code \<Rightarrow> (nat \<Rightarrow> nat \<Rightarrow> ('d, 'c) ppu \<Rightarrow> ('d, 'c) ppu) \<Rightarrow> nat \<Rightarrow> nat \<Rightarrow> spu_cmd
    \<Rightarrow> nat \<Rightarrow> ('d, 'c) ppu \<Rightarrow> ('d, 'c) ppu res" where
  "spulib_start_stats code env n k old num_spu s =
     rbind (rfold (stats_begin (spu_null old)) [0..<num_spu] ([], s)) (\<lambda>(orig_cb, s).
       rfold (\<lambda>i s. rbind (spulib_wait code (env i) n k 0 i 1 s) (restore_cb orig_cb i)) [0..<num_spu] s)"

definition spulib_print_stats :: "('d, 'c) lib_code \<Rightarrow> (nat \<Rightarrow> nat \<Rightarrow> ('d, 'c) ppu \<Rightarrow> ('d, 'c) ppu) \<Rightarrow> nat \<Rightarrow> nat \<Rightarrow> spu_cmd
    \<Rightarrow> nat \<Rightarrow> ('d, 'c) ppu \<Rightarrow> ('d, 'c) ppu res" where
  "spulib_print_stats code env n k old num_spu s =
     rbind (rfold (stats_begin (spu_stats_update old)) [0..<num_spu] ([], s)) (\<lambda>(orig_cb, s).
       rfold (\<lambda>i s. rbind (spulib_wait code (env (2 * i)) n k 0 i 1 s) (\<lambda>s.
         rbind (stats_issue (spu_stats_print old) i s) (\<lambda>s.
         rbind (spulib_wait code (env (2 * i + 1)) n k 0 i 1 s) (restore_cb orig_cb i)))) [0..<num_spu] s)"

end
