(* ===== verification/Ext_Spu.thy ===== *)
theory Ext_Spu
  imports Completion
begin

text \<open>
  The input-run-output operation of the Cell library (\<open>library/cell/src/ppu/extspu.c\<close>,
  \<open>extspuint.h\<close>, \<open>ext.h\<close>): \<open>iters\<close> rounds of reading input into an SPU, running a filter and
  writing its output, double-buffered over six command IDs and two command groups.  The
  operation-specific data is the record \<open>ext_spu_data\<close>, kept in the operation's heap cell.
\<close>

section \<open>Layout, rates and state of an operation\<close>

text \<open>The flag \<open>remote_in_buf_ppu\<close> and the union it selects from are one value.\<close>

datatype remote_buf = On_Ppu nat | On_Spu u32

fun on_ppu :: "remote_buf \<Rightarrow> bool" where
  "on_ppu (On_Ppu p) = True"
| "on_ppu (On_Spu a) = False"

record ext_spu_layout =
  l_spu_id :: nat
  l_cmd_id :: nat
  l_da :: u32
  l_in :: remote_buf
  l_in_size :: u32
  l_local_in :: u32
  l_filt :: u32
  l_local_out :: u32
  l_out :: remote_buf

record ext_spu_rates =
  r_in :: u32
  r_run :: u32
  r_loop :: u32
  r_out :: u32

record dt_side =
  sd_count :: u32
  sd_waiting :: bool
  sd_slot :: nat
  sd_bit :: u32
  sd_flip :: u32

record ext_spu_data =
  xl :: ext_spu_layout
  xr :: ext_spu_rates
  x_dt_cb :: "nat option"
  x_slots :: "(nat \<times> u32) list"
  x_in :: dt_side
  x_out :: dt_side
  x_steady :: u32
  x_phase :: nat
  x_cur :: nat
  x_waiting :: u32
  x_flip :: u32
  x_completed :: u32

definition PHASE_INIT_0 :: nat where "PHASE_INIT_0 = 0"
definition PHASE_INIT_1 :: nat where "PHASE_INIT_1 = 1"
definition PHASE_STEADY :: nat where "PHASE_STEADY = 2"
definition PHASE_CLEANUP :: nat where "PHASE_CLEANUP = 3"

lemmas phase_defs = PHASE_INIT_0_def PHASE_INIT_1_def PHASE_STEADY_def PHASE_CLEANUP_def

definition EXT_SPU_HANDLER :: nat where "EXT_SPU_HANDLER = 0"

text \<open>The data of other kinds of operations is the other side of the sum.\<close>

type_synonym ('e, 'c) ext_ppu = "(ext_spu_data + 'e, 'c) ppu"

definition get_ext :: "nat \<Rightarrow> ('e, 'c) ext_ppu \<Rightarrow> ext_spu_data res" where
  "get_ext a s = rbind (deref (op_heap s a)) (\<lambda>q. case op_data q of Inl d \<Rightarrow> Inr d | Inr e \<Rightarrow> Inl Unreached)"

definition put_ext :: "nat \<Rightarrow> ext_spu_data \<Rightarrow> ('e, 'c) ext_ppu \<Rightarrow> ('e, 'c) ext_ppu res" where
  "put_ext a d s = rbind (deref (op_heap s a)) (\<lambda>q. Inr (s\<lparr>op_heap := (op_heap s)(a \<mapsto> q\<lparr>op_data := Inl d\<rparr>)\<rparr>))"

section \<open>Transfers on the PPU\<close>

text \<open>A buffer that is not on the PPU is never looked at: its pointer is a local store address.\<close>

definition ppu_buf :: "remote_buf \<Rightarrow> nat res" where
  "ppu_buf r = (case r of On_Ppu p \<Rightarrow> Inr p | On_Spu a \<Rightarrow> Inl NullPointer)"

definition ext_spu_in_buf_has_data :: "ext_spu_data \<Rightarrow> ('e, 'c) ext_ppu \<Rightarrow> bool res" where
  "ext_spu_in_buf_has_data d s = rbind (ppu_buf (l_in (xl d))) (\<lambda>p. rbind (get_pbuf p s) (\<lambda>b.
     Inr (buf_bytes_used b \<ge> r_in (xr d))))"

definition ext_spu_out_buf_has_space :: "ext_spu_data \<Rightarrow> ('e, 'c) ext_ppu \<Rightarrow> bool res" where
  "ext_spu_out_buf_has_space d s = rbind (ppu_buf (l_out (xl d))) (\<lambda>p. rbind (get_pbuf p s) (\<lambda>b.
     Inr (ppu_in_room b \<ge> r_out (xr d))))"

definition ext_spu_start_dt_in :: "ext_spu_data \<Rightarrow> ('e, 'c) ext_ppu \<Rightarrow> ('e, 'c) ext_ppu res" where
  "ext_spu_start_dt_in d s = rbind (ppu_buf (l_in (xl d))) (\<lambda>p.
     dt_out_front p (l_spu_id (xl d)) (l_local_in (xl d)) (r_in (xr d)) (l_cmd_id (xl d) + sd_slot (x_in d) * 3 + 0) 0 s)"

definition ext_spu_start_dt_out :: "ext_spu_data \<Rightarrow> ('e, 'c) ext_ppu \<Rightarrow> ('e, 'c) ext_ppu res" where
  "ext_spu_start_dt_out d s = rbind (ppu_buf (l_out (xl d))) (\<lambda>p.
     dt_in_back p (l_spu_id (xl d)) (l_local_out (xl d)) (r_out (xr d)) (l_cmd_id (xl d) + sd_slot (x_out d) * 3 + 2) 0 s)"

definition ext_spu_notify_input :: "nat \<Rightarrow> ('e, 'c) ext_ppu \<Rightarrow> ('e, 'c) ext_ppu res" where
  "ext_spu_notify_input a s = rbind (get_ext a s) (\<lambda>d. ensure CheckFail (r_in (xr d) \<noteq> 0 \<and> on_ppu (l_in (xl d)))
     (if \<not> sd_waiting (x_in d) then Inr s
      else rbind (ext_spu_in_buf_has_data d s) (\<lambda>has. if \<not> has then Inr s
        else let d = d\<lparr>x_in := (x_in d)\<lparr>sd_waiting := False\<rparr>\<rparr> in rbind (put_ext a d s) (ext_spu_start_dt_in d))))"

definition ext_spu_notify_output :: "nat \<Rightarrow> ('e, 'c) ext_ppu \<Rightarrow> ('e, 'c) ext_ppu res" where
  "ext_spu_notify_output a s = rbind (get_ext a s) (\<lambda>d. ensure CheckFail (r_out (xr d) \<noteq> 0 \<and> on_ppu (l_out (xl d)))
     (if \<not> sd_waiting (x_out d) then Inr s
      else rbind (ext_spu_out_buf_has_space d s) (\<lambda>has. if \<not> has then Inr s
        else let d = d\<lparr>x_out := (x_out d)\<lparr>sd_waiting := False\<rparr>\<rparr> in rbind (put_ext a d s) (ext_spu_start_dt_out d))))"

section \<open>Setting up command groups\<close>

text \<open>What the memory of a command held before its stub ran; see \<open>spu_init_header\<close>.\<close>

record group_mem =
  gm_old :: spu_cmd
  gm_in :: dt_in_cmd
  gm_out :: dt_out_cmd
  gm_out_ppu :: dt_out_ppu_cmd

definition lsa_start :: "('d, 'c) ppu \<Rightarrow> nat \<Rightarrow> u32" where
  "lsa_start s i = (if i < length (spus s) then i_data_start (spus s ! i) else 0)"

definition spu_dt_in_back_proc :: "group_mem \<Rightarrow> ext_spu_data \<Rightarrow> nat \<Rightarrow> nat \<Rightarrow> nat list \<Rightarrow> ('d, 'c) ppu \<Rightarrow> ('d, 'c) ppu res" where
  "spu_dt_in_back_proc gm d gid cmd_id deps s = (let l = xl d; i = l_spu_id l; n = r_in (xr d) in
     case l_in l of
       On_Ppu p \<Rightarrow> rbind (get_pbuf p s) (\<lambda>b. on_group i gid (\<lambda>g.
         spu_dt_in_back_ppu (lsa_start s) (gm_in gm) (l_local_in l) b n (gm_old gm) g cmd_id deps) s)
     | On_Spu a \<Rightarrow> on_group i gid (\<lambda>g.
         spu_dt_in_back (lsa_start s) (gm_in gm) (l_local_in l) a (l_in_size l) n (gm_old gm) g cmd_id deps) s)"

definition spu_dt_out_front_proc :: "group_mem \<Rightarrow> ext_spu_data \<Rightarrow> nat \<Rightarrow> nat \<Rightarrow> nat list \<Rightarrow> ('d, 'c) ppu \<Rightarrow> ('d, 'c) ppu res" where
  "spu_dt_out_front_proc gm d gid cmd_id deps s = (let l = xl d; i = l_spu_id l; n = r_out (xr d) in
     case l_out l of
       On_Ppu p \<Rightarrow> rbind (get_pbuf p s) (\<lambda>b. on_group i gid (\<lambda>g.
         spu_dt_out_front_ppu_ex (lsa_start s) (gm_out_ppu gm) (l_local_out l) (of_nat p) b n False (gm_old gm) g cmd_id deps) s)
     | On_Spu a \<Rightarrow> on_group i gid (\<lambda>g.
         spu_dt_out_front (lsa_start s) (gm_out gm) (l_local_out l) a n (gm_old gm) g cmd_id deps) s)"

definition setup_filter_run :: "group_mem \<Rightarrow> ext_spu_data \<Rightarrow> nat \<Rightarrow> nat \<Rightarrow> nat list \<Rightarrow> ('d, 'c) ppu \<Rightarrow> ('d, 'c) ppu res" where
  "setup_filter_run gm d gid cmd_id deps s = on_group (l_spu_id (xl d)) gid (\<lambda>g.
     spu_filter_run (lsa_start s) (l_filt (xl d)) (r_run (xr d)) (r_loop (xr d)) (gm_old gm) g cmd_id deps) s"

text \<open>The transfers are left out when the operation has no input or no output.\<close>

definition setup_in :: "group_mem \<Rightarrow> ext_spu_data \<Rightarrow> nat \<Rightarrow> nat \<Rightarrow> nat list \<Rightarrow> ('d, 'c) ppu \<Rightarrow> ('d, 'c) ppu res" where
  "setup_in gm d gid cmd_id deps s = (if r_in (xr d) \<noteq> 0 then spu_dt_in_back_proc gm d gid cmd_id deps s else Inr s)"

definition setup_out :: "group_mem \<Rightarrow> ext_spu_data \<Rightarrow> nat \<Rightarrow> nat \<Rightarrow> nat list \<Rightarrow> ('d, 'c) ppu \<Rightarrow> ('d, 'c) ppu res" where
  "setup_out gm d gid cmd_id deps s = (if r_out (xr d) \<noteq> 0 then spu_dt_out_front_proc gm d gid cmd_id deps s else Inr s)"

definition slot_group :: "ext_spu_data \<Rightarrow> nat \<Rightarrow> nat res" where
  "slot_group d k = rbind (index_res (x_slots d) k) (\<lambda>(g, da). Inr g)"

definition ext_spu_setup_init :: "group_mem \<Rightarrow> ext_spu_data \<Rightarrow> ('d, 'c) ppu \<Rightarrow> ('d, 'c) ppu res" where
  "ext_spu_setup_init gm d s = rbind (slot_group d 1) (\<lambda>g. let b = l_cmd_id (xl d) in
     rbind (spu_clear_group (l_spu_id (xl d)) g s) (\<lambda>s.
     rbind (setup_in gm d g (b + 0) [] s) (\<lambda>s.
     rbind (setup_in gm d g (b + 3) [b + 0] s)
       (setup_filter_run gm d g (b + 4) [b + 0]))))"

definition ext_spu_setup_steady :: "group_mem \<Rightarrow> ext_spu_data \<Rightarrow> nat \<Rightarrow> ('d, 'c) ppu \<Rightarrow> ('d, 'c) ppu res" where
  "ext_spu_setup_steady gm d slot s = rbind (slot_group d slot) (\<lambda>g.
     let b = l_cmd_id (xl d) + slot * 3; dep = l_cmd_id (xl d) + (slot XOR 1) * 3 in
     rbind (spu_clear_group (l_spu_id (xl d)) g s) (\<lambda>s.
     rbind (setup_in gm d g (b + 0) [dep + 0, dep + 1] s) (\<lambda>s.
     rbind (setup_filter_run gm d g (b + 1) [dep + 0, dep + 1, dep + 2] s)
       (setup_out gm d g (b + 2) [dep + 1, dep + 2]))))"

definition ext_spu_setup_cleanup_0 :: "group_mem \<Rightarrow> ext_spu_data \<Rightarrow> ('d, 'c) ppu \<Rightarrow> ('d, 'c) ppu res" where
  "ext_spu_setup_cleanup_0 gm d s = rbind (slot_group d (x_cur d)) (\<lambda>g.
     let b = l_cmd_id (xl d) + x_cur d * 3; dep = l_cmd_id (xl d) + (x_cur d XOR 1) * 3 in
     rbind (spu_clear_group (l_spu_id (xl d)) g s) (\<lambda>s.
     rbind (setup_filter_run gm d g (b + 1) [dep + 0, dep + 1, dep + 2] s)
       (setup_out gm d g (b + 2) [dep + 1, dep + 2])))"

definition ext_spu_setup_cleanup_1 :: "group_mem \<Rightarrow> ext_spu_data \<Rightarrow> ('d, 'c) ppu \<Rightarrow> (u32 \<times> ('d, 'c) ppu) res" where
  "ext_spu_setup_cleanup_1 gm d s = rbind (slot_group d (x_cur d)) (\<lambda>g.
     let b = l_cmd_id (xl d) + x_cur d * 3; dep = l_cmd_id (xl d) + (x_cur d XOR 1) * 3 in
     ensure AssertFail (r_out (xr d) \<noteq> 0)
     (rbind (spu_clear_group (l_spu_id (xl d)) g s) (\<lambda>s.
      rbind (spu_dt_out_front_proc gm d g (b + 2) [dep + 1, dep + 2] s) (\<lambda>s.
        Inr (push_bit dep 6 OR push_bit b 4, s)))))"

definition ext_spu_setup_full :: "group_mem \<Rightarrow> ext_spu_data \<Rightarrow> u32 \<Rightarrow> ('d, 'c) ppu \<Rightarrow> (u32 \<times> ('d, 'c) ppu) res" where
  "ext_spu_setup_full gm d iters s = rbind (slot_group d 0) (\<lambda>g.
     let b = l_cmd_id (xl d); has_in = r_in (xr d) \<noteq> 0; has_out = r_out (xr d) \<noteq> 0 in
     ensure AssertFail (iters = 1 \<or> iters = 2)
     (rbind (spu_clear_group (l_spu_id (xl d)) g s) (\<lambda>s.
      rbind (setup_in gm d g (b + 0) [] s) (\<lambda>s.
      rbind (setup_filter_run gm d g (b + 4) [b + 0] s) (\<lambda>s.
      rbind (setup_out gm d g (b + 2) [b + 4] s) (\<lambda>s.
      let m = (if has_in then 0x11 else 0) OR (if has_out then 0x14 else 0) in
      if iters = 2 then
        rbind (setup_in gm d g (b + 3) [b + 0] s) (\<lambda>s.
        rbind (setup_filter_run gm d g (b + 1) [b + 3, b + 4] s) (\<lambda>s.
        rbind (setup_out gm d g (b + 5) [b + 1, b + 2] s) (\<lambda>s.
          let m = m OR (if has_in then 0xa else 0) OR (if has_out then 0x22 else 0) in Inr (push_bit b m, s))))
      else Inr (push_bit b m, s)))))))"

section \<open>Processing completions\<close>

text \<open>
  A finished transfer on the PPU: report it, or start the next one.  \<open>cb\<close> is what the functions
  behind \<open>dt_cb\<close> pointers do; they may use the operation, so its data is stored around the call.
\<close>

definition EXT_SPU_DONE_DT_IN :: nat where "EXT_SPU_DONE_DT_IN = 0"
definition EXT_SPU_DONE_DT_OUT :: nat where "EXT_SPU_DONE_DT_OUT = 1"

definition run_dt_cb :: "(nat \<Rightarrow> nat \<Rightarrow> ('e, 'c) ext_ppu \<Rightarrow> ('e, 'c) ext_ppu res) \<Rightarrow> nat \<Rightarrow> nat \<Rightarrow> nat \<Rightarrow> ext_spu_data
    \<Rightarrow> ('e, 'c) ext_ppu \<Rightarrow> (ext_spu_data \<times> ('e, 'c) ext_ppu) res" where
  "run_dt_cb cb f msg a d s = rbind (put_ext a d s) (\<lambda>s. rbind (cb f msg s) (\<lambda>s. rbind (get_ext a s) (\<lambda>d. Inr (d, s))))"

definition done_dt_in :: "(nat \<Rightarrow> nat \<Rightarrow> ('e, 'c) ext_ppu \<Rightarrow> ('e, 'c) ext_ppu res) \<Rightarrow> nat \<Rightarrow> ext_spu_data
    \<Rightarrow> ('e, 'c) ext_ppu \<Rightarrow> (ext_spu_data \<times> ('e, 'c) ext_ppu) res" where
  "done_dt_in cb a d s = ensure AssertFail (r_in (xr d) \<noteq> 0 \<and> on_ppu (l_in (xl d)) \<and> \<not> sd_waiting (x_in d))
     (let y = x_in d; y = y\<lparr>sd_slot := sd_slot y XOR 1, sd_bit := sd_bit y XOR sd_flip y\<rparr> in
      case x_dt_cb d of
        Some f \<Rightarrow> run_dt_cb cb f EXT_SPU_DONE_DT_IN a (d\<lparr>x_in := y\<rparr>) s
      | None \<Rightarrow>
          let d = d\<lparr>x_in := y\<lparr>sd_count := sd_count y - 1\<rparr>\<rparr> in
          if sd_count (x_in d) = 0 then Inr (d, s)
          else rbind (ext_spu_in_buf_has_data d s) (\<lambda>has.
            if has then rbind (ext_spu_start_dt_in d s) (\<lambda>s. Inr (d, s))
            else Inr (d\<lparr>x_in := (x_in d)\<lparr>sd_waiting := True\<rparr>\<rparr>, s)))"

definition done_dt_out :: "(nat \<Rightarrow> nat \<Rightarrow> ('e, 'c) ext_ppu \<Rightarrow> ('e, 'c) ext_ppu res) \<Rightarrow> nat \<Rightarrow> ext_spu_data
    \<Rightarrow> ('e, 'c) ext_ppu \<Rightarrow> (ext_spu_data \<times> ('e, 'c) ext_ppu) res" where
  "done_dt_out cb a d s = ensure AssertFail (r_out (xr d) \<noteq> 0 \<and> on_ppu (l_out (xl d)) \<and> \<not> sd_waiting (x_out d))
     (let y = x_out d; y = y\<lparr>sd_slot := sd_slot y XOR 1, sd_bit := sd_bit y XOR sd_flip y\<rparr> in
      case x_dt_cb d of
        Some f \<Rightarrow> run_dt_cb cb f EXT_SPU_DONE_DT_OUT a (d\<lparr>x_out := y\<rparr>) s
      | None \<Rightarrow>
          let d = d\<lparr>x_out := y\<lparr>sd_count := sd_count y - 1\<rparr>\<rparr> in
          if sd_count (x_out d) = 0 then Inr (d, s)
          else rbind (ext_spu_out_buf_has_space d s) (\<lambda>has.
            if has then rbind (ext_spu_start_dt_out d s) (\<lambda>s. Inr (d, s))
            else Inr (d\<lparr>x_out := (x_out d)\<lparr>sd_waiting := True\<rparr>\<rparr>, s)))"

text \<open>The end of a round of the loop over completed groups: issue the current slot and flip.\<close>

definition issue_current :: "ext_spu_data \<Rightarrow> ('d, 'c) ppu \<Rightarrow> (bool \<times> ext_spu_data \<times> ('d, 'c) ppu) res" where
  "issue_current d s = rbind (index_res (x_slots d) (x_cur d)) (\<lambda>(g, da).
     rbind (spu_issue_int_group (l_spu_id (xl d)) g da s) (\<lambda>s. Inr (False, d\<lparr>x_cur := x_cur d XOR 1\<rparr>, s)))"

definition phase_init_1 :: "group_mem \<Rightarrow> ext_spu_data \<Rightarrow> ('d, 'c) ppu \<Rightarrow> (bool \<times> ext_spu_data \<times> ('d, 'c) ppu) res" where
  "phase_init_1 gm d s = (let b = l_cmd_id (xl d); d' = d\<lparr>x_phase := PHASE_STEADY, x_waiting := x_flip d AND push_bit b 7\<rparr> in
     if x_steady d = 1
     then rbind (ext_spu_setup_cleanup_0 gm d s) (\<lambda>s.
       if r_out (xr d) = 0 then issue_current (d\<lparr>x_phase := PHASE_CLEANUP, x_waiting := push_bit b 0x13\<rparr>) s
       else issue_current d' s)
     else rbind (ext_spu_setup_steady gm d 1 s) (issue_current d'))"

definition phase_steady :: "group_mem \<Rightarrow> ext_spu_data \<Rightarrow> ('d, 'c) ppu \<Rightarrow> (bool \<times> ext_spu_data \<times> ('d, 'c) ppu) res" where
  "phase_steady gm d s = (let b = l_cmd_id (xl d); d = d\<lparr>x_steady := x_steady d - 1\<rparr> in
     if x_steady d = 0
     then ensure AssertFail (r_out (xr d) \<noteq> 0) (rbind (ext_spu_setup_cleanup_1 gm d s) (\<lambda>(m, s).
       issue_current (d\<lparr>x_phase := PHASE_CLEANUP, x_waiting := m\<rparr>) s))
     else let d = d\<lparr>x_waiting := x_waiting d XOR x_flip d\<rparr> in
       if x_steady d = 1
       then rbind (ext_spu_setup_cleanup_0 gm d s)
         (issue_current (if r_out (xr d) = 0
           then d\<lparr>x_phase := PHASE_CLEANUP, x_waiting := x_waiting d OR push_bit b 0x12\<rparr> else d))
       else issue_current d s)"

definition phase_cleanup :: "ext_spu_data \<Rightarrow> ('d, 'c) ppu \<Rightarrow> (bool \<times> ext_spu_data \<times> ('d, 'c) ppu) res" where
  "phase_cleanup d s = rbind (slot_group d 0) (\<lambda>g0. rbind (spu_free_int_group (l_spu_id (xl d)) g0 s) (\<lambda>s.
     rbind (slot_group d 1) (\<lambda>g1. rbind (spu_free_int_group (l_spu_id (xl d)) g1 s) (\<lambda>s. Inr (True, d, s)))))"

definition phase_step :: "group_mem \<Rightarrow> ext_spu_data \<Rightarrow> ('d, 'c) ppu \<Rightarrow> (bool \<times> ext_spu_data \<times> ('d, 'c) ppu) res" where
  "phase_step gm d s = (let d = d\<lparr>x_completed := x_completed d AND NOT (x_waiting d)\<rparr> in
     if x_phase d = PHASE_INIT_0
     then ensure AssertFail (r_in (xr d) \<noteq> 0)
       (issue_current (d\<lparr>x_phase := PHASE_INIT_1, x_waiting := push_bit (l_cmd_id (xl d)) 0x18\<rparr>) s)
     else if x_phase d = PHASE_INIT_1 then phase_init_1 gm d s
     else if x_phase d = PHASE_STEADY then phase_steady gm d s
     else if x_phase d = PHASE_CLEANUP then phase_cleanup d s
     else Inl Unreached)"

text \<open>The loop; a round clears the bits it waited for, so six IDs allow six rounds.\<close>

fun phase_loop :: "group_mem \<Rightarrow> nat \<Rightarrow> ext_spu_data \<Rightarrow> ('d, 'c) ppu \<Rightarrow> (bool \<times> ext_spu_data \<times> ('d, 'c) ppu) res" where
  "phase_loop gm 0 d s = Inl OutOfFuel"
| "phase_loop gm (Suc n) d s =
     (if x_completed d AND x_waiting d \<noteq> x_waiting d then Inr (False, d, s)
      else rbind (phase_step gm d s) (\<lambda>(finished, d, s). if finished then Inr (True, d, s) else phase_loop gm n d s))"

definition ext_spu_handler :: "group_mem \<Rightarrow> (nat \<Rightarrow> nat \<Rightarrow> ('e, 'c) ext_ppu \<Rightarrow> ('e, 'c) ext_ppu res) \<Rightarrow> nat \<Rightarrow> nat \<Rightarrow> u32
    \<Rightarrow> ('e, 'c) ext_ppu \<Rightarrow> (bool \<times> ('e, 'c) ext_ppu) res" where
  "ext_spu_handler gm cb n a ids s = rbind (get_ext a s) (\<lambda>d.
     rbind (if ids AND sd_bit (x_in d) \<noteq> 0 then done_dt_in cb a d s else Inr (d, s)) (\<lambda>(d, s).
     rbind (if ids AND sd_bit (x_out d) \<noteq> 0 then done_dt_out cb a d s else Inr (d, s)) (\<lambda>(d, s).
     rbind (phase_loop gm n (d\<lparr>x_completed := x_completed d OR ids\<rparr>) s) (\<lambda>(finished, d, s).
     rbind (put_ext a d s) (\<lambda>s. Inr (finished, s))))))"

section \<open>Starting an operation\<close>

definition new_side :: "bool \<Rightarrow> u32 \<Rightarrow> u32 \<Rightarrow> u32 \<Rightarrow> dt_side \<Rightarrow> dt_side" where
  "new_side ppu iters cmd_bit flip y = (if ppu
     then \<lparr>sd_count = iters, sd_waiting = True, sd_slot = 0, sd_bit = cmd_bit, sd_flip = flip\<rparr> else y\<lparr>sd_bit := 0\<rparr>)"

definition new_ext_spu_data :: "ext_spu_layout \<Rightarrow> ext_spu_rates \<Rightarrow> u32 \<Rightarrow> nat option \<Rightarrow> nat \<Rightarrow> nat \<Rightarrow> ext_spu_data \<Rightarrow> ext_spu_data" where
  "new_ext_spu_data l r iters ip g0 g1 d0 = (let b = l_cmd_id l in
     d0\<lparr>xl := l, xr := r, x_dt_cb := ip, x_slots := [(g0, l_da l), (g1, l_da l + 256)],
       x_in := new_side (on_ppu (l_in l)) iters (push_bit b 1) (push_bit b 9) (x_in d0),
       x_out := new_side (on_ppu (l_out l)) iters (push_bit b 4) (push_bit b 0x24) (x_out d0),
       x_cur := 0, x_completed := 0\<rparr>)"

definition issue_slot :: "nat \<Rightarrow> ext_spu_data \<Rightarrow> ('d, 'c) ppu \<Rightarrow> ('d, 'c) ppu res" where
  "issue_slot k d s = rbind (index_res (x_slots d) k) (\<lambda>(g, da). spu_issue_int_group (l_spu_id (xl d)) g da s)"

definition start_short :: "group_mem \<Rightarrow> u32 \<Rightarrow> ext_spu_data \<Rightarrow> ('d, 'c) ppu \<Rightarrow> (ext_spu_data \<times> ('d, 'c) ppu) res" where
  "start_short gm iters d s = rbind (ext_spu_setup_full gm d iters s) (\<lambda>(m, s).
     rbind (issue_slot 0 d s) (\<lambda>s. Inr (d\<lparr>x_phase := PHASE_CLEANUP, x_waiting := m\<rparr>, s)))"

definition start_long :: "group_mem \<Rightarrow> u32 \<Rightarrow> ext_spu_data \<Rightarrow> ('d, 'c) ppu \<Rightarrow> (ext_spu_data \<times> ('d, 'c) ppu) res" where
  "start_long gm iters d s = (let b = l_cmd_id (xl d); d = d\<lparr>x_steady := iters - 2\<rparr> in
     rbind (ext_spu_setup_init gm d s) (\<lambda>s. rbind (ext_spu_setup_steady gm d 0 s) (\<lambda>s. rbind (issue_slot 1 d s) (\<lambda>s.
       if r_in (xr d) = 0
       then rbind (issue_slot 0 d s) (\<lambda>s. Inr (d\<lparr>x_phase := PHASE_INIT_1, x_cur := 1, x_waiting := push_bit b 0x10,
              x_flip := push_bit b 0x36\<rparr>, s))
       else Inr (d\<lparr>x_phase := PHASE_INIT_0, x_waiting := push_bit b 1,
              x_flip := push_bit b (if r_out (xr d) = 0 then 0x1b else 0x3f)\<rparr>, s)))))"

text \<open>\<open>al\<close> is the allocator's answer and \<open>d0\<close> what the memory held.\<close>

definition ext_spu_internal :: "group_mem \<Rightarrow> ext_spu_data \<Rightarrow> nat option \<Rightarrow> ext_spu_layout \<Rightarrow> ext_spu_rates \<Rightarrow> u32
    \<Rightarrow> nat option \<Rightarrow> nat \<Rightarrow> u32 \<Rightarrow> ('e, 'c) ext_ppu \<Rightarrow> (nat \<times> ('e, 'c) ext_ppu) res" where
  "ext_spu_internal gm d0 al l r iters ip cb tag s = (let i = l_spu_id l in
     ensure CheckFail (l_cmd_id l \<le> SPU_MAX_COMMANDS - 6 \<and> l_da l AND CACHE_MASK = 0 \<and> iters \<noteq> 0)
     (ensure CheckFail (r_in r \<noteq> 0 \<or> r_out r \<noteq> 0)
     (rbind (spu_new_ext_op al i (push_bit (l_cmd_id l) 0x3f) EXT_SPU_HANDLER cb tag (Inl d0) s) (\<lambda>(a, s).
      rbind (spu_new_int_group i s) (\<lambda>(g0, s). rbind (spu_new_int_group i s) (\<lambda>(g1, s).
      let d = new_ext_spu_data l r iters ip g0 g1 d0 in
      rbind (if iters \<le> 2 then start_short gm iters d s else start_long gm iters d s) (\<lambda>(d, s).
      case ip of
        Some f \<Rightarrow> rbind (put_ext a (d\<lparr>x_in := (x_in d)\<lparr>sd_waiting := False\<rparr>, x_out := (x_out d)\<lparr>sd_waiting := False\<rparr>\<rparr>) s)
          (\<lambda>s. Inr (a, s))
      | None \<Rightarrow> rbind (put_ext a d s) (\<lambda>s.
          rbind (if r_in r \<noteq> 0 \<and> on_ppu (l_in l) then ext_spu_notify_input a s else Inr s) (\<lambda>s.
          rbind (if r_out r \<noteq> 0 \<and> on_ppu (l_out l) then ext_spu_notify_output a s else Inr s) (\<lambda>s. Inr (a, s)))))))))))"

definition ext_spu :: "group_mem \<Rightarrow> ext_spu_data \<Rightarrow> nat option \<Rightarrow> ext_spu_layout \<Rightarrow> ext_spu_rates \<Rightarrow> u32
    \<Rightarrow> nat \<Rightarrow> u32 \<Rightarrow> ('e, 'c) ext_ppu \<Rightarrow> (nat \<times> ('e, 'c) ext_ppu) res" where
  "ext_spu gm d0 al l r iters cb tag s = ext_spu_internal gm d0 al l r iters None cb tag s"

end
