(* ===== verification/Pipeline.thy ===== *)
theory Pipeline
  imports Scheduler "HOL-Library.Multiset"
begin

text \<open>
  Groups of commands issued one after another to an SPU that runs them by their dependencies: the
  contract behind the double-buffered operations of the Cell library.  A plan says which group is
  issued at which round and which IDs each round waits for; the locale \<open>pipeline\<close> derives from its
  laws that no ID is issued while it is in use, that some command can always run, and that
  everything has run when the last round is over.  The SPU is \<open>dep_spec\<close>, the specification that
  its scheduler refines (theory Scheduler).
\<close>

section \<open>Adding a group to the specification\<close>

text \<open>A command is its ID, its type and the IDs it depends on.\<close>

type_synonym sig = "nat \<times> nat \<times> nat set"

definition ids :: "sig list \<Rightarrow> nat set" where
  "ids cs = fst ` set cs"

definition sig_type :: "sig \<Rightarrow> nat" where
  "sig_type c = fst (snd c)"

lemma ids_simps [simp]: "ids [] = {}" "ids ((x, t, D) # cs) = insert x (ids cs)" "ids (xs @ ys) = ids xs \<union> ids ys"
  by (auto simp: ids_def)

lemma finite_ids [simp]: "finite (ids cs)"
  by (simp add: ids_def)

text \<open>The SPU refuses an ID that is pending, or completed and not yet reported.\<close>

fun add_group_spec :: "sig list \<Rightarrow> nat set \<Rightarrow> dep_spec \<times> (nat \<Rightarrow> nat) \<Rightarrow> (dep_spec \<times> (nat \<Rightarrow> nat)) option" where
  "add_group_spec [] fin SK = Some SK"
| "add_group_spec ((x, t, D) # cs) fin SK =
     (if x \<in> pend (fst SK) \<or> x \<in> fin then None
      else add_group_spec cs fin (spec_add x D (fst SK), (snd SK)(x := t)))"

text \<open>An order in which the pending commands were added: each waits only for earlier ones.\<close>

definition add_order :: "dep_spec \<Rightarrow> nat list \<Rightarrow> bool" where
  "add_order S xs \<longleftrightarrow> distinct xs \<and> set xs = pend S \<and> (\<forall>k<length xs. preds S (xs ! k) \<subseteq> set (take k xs))"

lemma add_order_ready:
  assumes "add_order S xs" "xs \<noteq> []"
  shows "hd xs \<in> pend S \<and> preds S (hd xs) = {}"
proof -
  have "preds S (xs ! 0) \<subseteq> set (take 0 xs)" using assms unfolding add_order_def by blast
  then show ?thesis using assms by (auto simp: add_order_def hd_conv_nth)
qed

lemma add_order_preds: "add_order S xs \<Longrightarrow> x \<in> pend S \<Longrightarrow> preds S x \<subseteq> pend S"
  by (metis add_order_def in_set_conv_nth set_take_subset subset_trans)

lemma add_order_add:
  assumes S: "add_order S xs" and x: "x \<notin> pend S" "x \<notin> D"
  shows "add_order (spec_add x D S) (xs @ [x])"
  unfolding add_order_def
proof (intro conjI allI impI)
  show "distinct (xs @ [x])" "set (xs @ [x]) = pend (spec_add x D S)"
    using S x by (auto simp: add_order_def spec_add_def)
next
  fix k assume k: "k < length (xs @ [x])"
  show "preds (spec_add x D S) ((xs @ [x]) ! k) \<subseteq> set (take k (xs @ [x]))"
  proof (cases "k < length xs")
    case True
    then have "xs ! k \<noteq> x" using S x(1) by (metis add_order_def nth_mem)
    then show ?thesis using S True by (auto simp: add_order_def spec_add_def nth_append)
  next
    case False
    then show ?thesis using S x k by (auto simp: add_order_def spec_add_def nth_append)
  qed
qed

lemma add_order_complete:
  assumes S: "add_order S xs" and x: "x \<in> pend S"
  shows "\<exists>ys. add_order (spec_complete x S) ys"
proof -
  obtain as bs where xs: "xs = as @ x # bs" using S x by (metis add_order_def split_list)
  have d: "distinct (as @ x # bs)" "set (as @ x # bs) = pend S"
    "\<And>k. k < length (as @ x # bs) \<Longrightarrow> preds S ((as @ x # bs) ! k) \<subseteq> set (take k (as @ x # bs))"
    using S unfolding add_order_def xs by blast+
  have "add_order (spec_complete x S) (as @ bs)"
    unfolding add_order_def
  proof (intro conjI allI impI)
    show "distinct (as @ bs)" "set (as @ bs) = pend (spec_complete x S)"
      using d(1,2) by (auto simp: spec_complete_def)
  next
    fix k assume k: "k < length (as @ bs)"
    show "preds (spec_complete x S) ((as @ bs) ! k) \<subseteq> set (take k (as @ bs))"
    proof (cases "k < length as")
      case True
      then show ?thesis using d(3) [of k] by (auto simp: spec_complete_def nth_append)
    next
      case False
      then have "preds S ((as @ x # bs) ! Suc k) \<subseteq> set (take (Suc k) (as @ x # bs))" using k d(3) [of "Suc k"] by simp
      then show ?thesis using False by (auto simp: spec_complete_def nth_append Suc_diff_le)
    qed
  qed
  then show ?thesis by blast
qed

text \<open>Within a group a command depends only on commands before it.\<close>

fun deps_before :: "sig list \<Rightarrow> bool" where
  "deps_before [] \<longleftrightarrow> True"
| "deps_before ((x, t, D) # cs) \<longleftrightarrow> x \<notin> D \<and> D \<inter> ids cs = {} \<and> deps_before cs"

lemma add_group_spec_ok:
  assumes "ids cs \<inter> pend S = {}" "ids cs \<inter> fin = {}" "distinct (map fst cs)" "deps_before cs" "add_order S xs"
  shows "\<exists>S' K'. add_group_spec cs fin (S, K) = Some (S', K') \<and> pend S' = pend S \<union> ids cs \<and>
    (\<exists>ys. add_order S' ys) \<and> (\<forall>x. x \<notin> ids cs \<longrightarrow> K' x = K x \<and> preds S' x = preds S x) \<and>
    (\<forall>(x, t, D)\<in>set cs. K' x = t \<and> preds S' x = D \<inter> pend S')"
  using assms
proof (induction cs arbitrary: S K xs)
  case Nil
  then show ?case by auto
next
  case (Cons c cs)
  obtain x t D where c: "c = (x, t, D)" by (cases c)
  have x: "x \<notin> pend S" "x \<notin> fin" "x \<notin> D" "D \<inter> ids cs = {}" "x \<notin> ids cs"
    using Cons.prems(1-4) unfolding c by (auto simp: ids_def)
  let ?S = "spec_add x D S" and ?K = "K(x := t)"
  have p: "pend ?S = insert x (pend S)" "preds ?S x = D \<inter> insert x (pend S)" by (simp_all add: spec_add_def)
  have "ids cs \<inter> pend ?S = {}" "ids cs \<inter> fin = {}" "distinct (map fst cs)" "deps_before cs"
    using Cons.prems(1-4) x unfolding c p(1) by auto
  from Cons.IH [OF this add_order_add [OF Cons.prems(5) x(1,3)], of ?K]
  obtain S' K' where ih: "add_group_spec cs fin (?S, ?K) = Some (S', K')" "pend S' = pend ?S \<union> ids cs"
    "\<exists>ys. add_order S' ys" "\<And>y. y \<notin> ids cs \<Longrightarrow> K' y = ?K y \<and> preds S' y = preds ?S y"
    "\<forall>(x, t, D)\<in>set cs. K' x = t \<and> preds S' x = D \<inter> pend S'" by blast
  have K: "K' x = t" "preds S' x = D \<inter> pend S'" using ih(4) [OF x(5)] p x(3,4) ih(2) by auto
  obtain ys where ys: "add_order S' ys" using ih(3) by blast
  show ?case
  proof (intro exI conjI)
    show "add_group_spec (c # cs) fin (S, K) = Some (S', K')" using ih(1) x by (simp add: c)
    show "add_order S' ys" by (rule ys)
    show "pend S' = pend S \<union> ids (c # cs)" using ih(2) p(1) by (simp add: c)
    show "\<forall>y. y \<notin> ids (c # cs) \<longrightarrow> K' y = K y \<and> preds S' y = preds S y"
      using ih(4) by (simp add: c spec_add_def)
    show "\<forall>(x, t, D)\<in>set (c # cs). K' x = t \<and> preds S' x = D \<inter> pend S'" using ih(5) K by (simp add: c)
  qed
qed

lemma add_group_spec_pend: "add_group_spec cs fin (S, K) = Some (S', K') \<Longrightarrow> pend S' = pend S \<union> ids cs"
proof (induction cs arbitrary: S K)
  case Nil
  then show ?case by simp
next
  case (Cons c cs)
  obtain x t D where c: "c = (x, t, D)" by (cases c)
  have "add_group_spec cs fin (spec_add x D S, K(x := t)) = Some (S', K')" using Cons.prems by (simp add: c split: if_splits)
  from Cons.IH [OF this] show ?case by (simp add: c spec_add_def)
qed

section \<open>Rounds\<close>

text \<open>
  \<open>rounds\<close> groups have been issued and \<open>fetched\<close> of them read by the SPU; \<open>unreported\<close> commands have
  completed, \<open>posted\<close> ones are in the mailbox and \<open>received\<close> ones are known to the PPU but not
  yet waited for.  \<open>history\<close> lists the types of the completed commands.
\<close>

record pipe =
  rounds :: nat
  fetched :: nat
  spec :: dep_spec
  kind_of :: "nat \<Rightarrow> nat"
  unreported :: "nat set"
  posted :: "nat set"
  received :: "nat set"
  history :: "nat list"

definition sig_types :: "sig list \<Rightarrow> nat multiset" where
  "sig_types cs = mset (map sig_type cs)"

definition pend_types :: "pipe \<Rightarrow> nat multiset" where
  "pend_types p = image_mset (kind_of p) (mset_set (pend (spec p)))"

lemma sig_types_simps [simp]: "sig_types [] = {#}" "sig_types ((x, t, D) # cs) = add_mset t (sig_types cs)"
  "sig_types (xs @ ys) = sig_types xs + sig_types ys"
  by (simp_all add: sig_types_def sig_type_def)

lemma sig_types_ids:
  assumes "distinct (map fst cs)" "\<forall>(x, t, D)\<in>set cs. K x = t"
  shows "sig_types cs = image_mset K (mset_set (ids cs))"
  using assms by (induction cs) (auto simp: ids_def)

locale pipeline =
  fixes grp :: "nat \<Rightarrow> sig list" and W :: "nat \<Rightarrow> nat set" and final :: nat
  assumes final_pos: "0 < final"
    and grp_distinct: "distinct (map fst (grp m))"
    and grp_deps: "deps_before (grp m)"
    and grp_reuse: "0 < m \<Longrightarrow> m < final \<Longrightarrow> ids (grp m) \<inter> ids (grp (m - 1)) \<subseteq> W m"
    and wait_first: "W 1 \<subseteq> ids (grp 0)"
    and wait_next: "0 < m \<Longrightarrow> m < final \<Longrightarrow> W (Suc m) \<subseteq> (ids (grp (m - 1)) - W m) \<union> ids (grp m)"
    and wait_left: "0 < m \<Longrightarrow> m < final \<Longrightarrow> ids (grp (m - 1)) - W m \<subseteq> W (Suc m)"
    and wait_last: "ids (grp (final - 1)) \<subseteq> W final"
    and wait_some: "0 < m \<Longrightarrow> m \<le> final \<Longrightarrow> W m \<noteq> {}"
begin

text \<open>The IDs in use while round \<open>m\<close> is waited for, and the commands not yet read.\<close>

definition live :: "nat \<Rightarrow> nat set" where
  "live m = W m \<union> ids (grp (m - 1))"

definition unfetched :: "pipe \<Rightarrow> sig list" where
  "unfetched p = concat (map grp [fetched p..<rounds p])"

definition outstanding :: "pipe \<Rightarrow> nat set" where
  "outstanding p = ids (unfetched p) \<union> pend (spec p)"

definition ok :: "pipe \<Rightarrow> bool" where
  "ok p \<longleftrightarrow> 0 < rounds p \<and> rounds p \<le> final \<and> fetched p \<le> rounds p \<and>
     ids (unfetched p) \<union> pend (spec p) \<union> unreported p \<union> posted p \<union> received p = live (rounds p) \<and>
     disjnt (ids (unfetched p)) (pend (spec p)) \<and> disjnt (outstanding p) (unreported p) \<and>
     disjnt (outstanding p \<union> unreported p) (posted p) \<and>
     disjnt (outstanding p \<union> unreported p \<union> posted p) (received p) \<and>
     distinct (map fst (unfetched p)) \<and> (\<exists>xs. add_order (spec p) xs) \<and>
     mset (history p) + pend_types p + sig_types (unfetched p) = (\<Sum>j<rounds p. sig_types (grp j))"

text \<open>A command of the newest group that has completed found what it depends on completed.\<close>

definition in_order :: "pipe \<Rightarrow> bool" where
  "in_order p \<longleftrightarrow> (\<forall>(x, t, D)\<in>set (grp (rounds p - 1)).
     (x \<in> pend (spec p) \<longrightarrow> preds (spec p) x = D \<inter> pend (spec p)) \<and>
     (x \<notin> outstanding p \<longrightarrow> D \<inter> outstanding p = {}))"

lemma ok_parts:
  assumes "ok p"
  shows "0 < rounds p" "rounds p \<le> final" "fetched p \<le> rounds p"
    "ids (unfetched p) \<union> pend (spec p) \<union> unreported p \<union> posted p \<union> received p = live (rounds p)"
    "disjnt (ids (unfetched p)) (pend (spec p))" "disjnt (outstanding p) (unreported p)"
    "disjnt (outstanding p \<union> unreported p) (posted p)"
    "disjnt (outstanding p \<union> unreported p \<union> posted p) (received p)"
    "distinct (map fst (unfetched p))" "\<exists>xs. add_order (spec p) xs"
    "mset (history p) + pend_types p + sig_types (unfetched p) = (\<Sum>j<rounds p. sig_types (grp j))"
  using assms unfolding ok_def by blast+

lemma unfetched_Cons:
  "fetched p < rounds p \<Longrightarrow> unfetched p = grp (fetched p) @ unfetched (p\<lparr>fetched := Suc (fetched p)\<rparr>)"
  by (simp add: unfetched_def upt_rec)

lemma newest_unfetched: "fetched p < rounds p \<Longrightarrow> ids (grp (rounds p - 1)) \<subseteq> ids (unfetched p)"
proof -
  assume "fetched p < rounds p"
  then have "rounds p - 1 \<in> set [fetched p..<rounds p]" by auto
  then have "set (grp (rounds p - 1)) \<subseteq> set (unfetched p)" unfolding unfetched_def set_concat set_map by blast
  then show ?thesis unfolding ids_def by (rule image_mono)
qed

lemma finite_pend: "ok p \<Longrightarrow> finite (pend (spec p))"
  using ok_parts(10) by (metis List.finite_set add_order_def)

text \<open>The SPU can always read the next request.\<close>

lemma fetch_ok:
  assumes "ok p" "in_order p" and f: "fetched p < rounds p"
  shows "\<exists>S K. add_group_spec (grp (fetched p)) (unreported p) (spec p, kind_of p) = Some (S, K) \<and>
    ok (p\<lparr>fetched := Suc (fetched p), spec := S, kind_of := K\<rparr>) \<and>
    in_order (p\<lparr>fetched := Suc (fetched p), spec := S, kind_of := K\<rparr>) \<and>
    (\<forall>x. x \<notin> ids (grp (fetched p)) \<longrightarrow> K x = kind_of p x) \<and> (\<forall>(x, t, D)\<in>set (grp (fetched p)). K x = t)"
proof -
  note o = ok_parts [OF assms(1)]
  let ?g = "grp (fetched p)" and ?q = "p\<lparr>fetched := Suc (fetched p)\<rparr>"
  have u: "unfetched p = ?g @ unfetched ?q" by (rule unfetched_Cons [OF f])
  have d: "ids ?g \<inter> pend (spec p) = {}" "ids ?g \<inter> unreported p = {}" "ids ?g \<inter> ids (unfetched ?q) = {}"
    using o(5,6,9) unfolding u outstanding_def disjnt_def by (auto simp: ids_def)
  obtain xs where xs: "add_order (spec p) xs" using o(10) by blast
  from add_group_spec_ok [OF d(1,2) grp_distinct grp_deps xs, of "kind_of p"]
  obtain S K where SK: "add_group_spec ?g (unreported p) (spec p, kind_of p) = Some (S, K)"
    "pend S = pend (spec p) \<union> ids ?g" "\<exists>ys. add_order S ys"
    "\<forall>x. x \<notin> ids ?g \<longrightarrow> K x = kind_of p x \<and> preds S x = preds (spec p) x"
    "\<forall>(x, t, D)\<in>set ?g. K x = t \<and> preds S x = D \<inter> pend S" by blast
  let ?p = "p\<lparr>fetched := Suc (fetched p), spec := S, kind_of := K\<rparr>"
  have uf: "unfetched ?p = unfetched ?q" by (simp add: unfetched_def)
  have out: "outstanding ?p = outstanding p" using SK(2) unfolding outstanding_def uf u by auto
  have types: "pend_types ?p = pend_types p + sig_types ?g"
  proof -
    have "image_mset K (mset_set (pend (spec p))) = pend_types p"
      unfolding pend_types_def using SK(4) d(1) finite_pend [OF assms(1)] by (intro image_mset_cong) auto
    moreover have "image_mset K (mset_set (ids ?g)) = sig_types ?g"
      using SK(5) by (intro sig_types_ids [OF grp_distinct, symmetric]) auto
    ultimately show ?thesis using d(1) finite_pend [OF assms(1)]
      by (simp add: pend_types_def SK(2) mset_set_Union Int_commute)
  qed
  have "ok ?p" unfolding ok_def out
  proof (intro conjI)
    show "ids (unfetched ?p) \<union> pend (spec ?p) \<union> unreported ?p \<union> posted ?p \<union> received ?p = live (rounds ?p)"
      using o(4) SK(2) unfolding uf u by auto
    show "disjnt (ids (unfetched ?p)) (pend (spec ?p))"
      using o(5) d(3) SK(2) unfolding uf u by (auto simp: disjnt_def)
    show "distinct (map fst (unfetched ?p))" using o(9) unfolding uf u by simp
    show "mset (history ?p) + pend_types ?p + sig_types (unfetched ?p) = (\<Sum>j<rounds ?p. sig_types (grp j))"
      using o(11) unfolding types uf u by (simp add: ac_simps)
  qed (use o SK(3) f in auto)
  moreover have "in_order ?p" unfolding in_order_def out
  proof (clarsimp, intro conjI impI)
    fix x t D assume x: "(x, t, D) \<in> set (grp (rounds p - Suc 0))"
    { assume xp: "x \<in> pend S"
      show "preds S x = D \<inter> pend S"
      proof (cases "fetched p = rounds p - 1")
        case True
        then show ?thesis using x SK(5) by auto
      next
        case False
        then have "fetched ?q < rounds ?q" using f by simp
        from newest_unfetched [OF this] have "x \<in> ids (unfetched ?q)" using x by (force simp: ids_def)
        then have False using xp SK(2) d(3) o(5) unfolding u disjnt_def by auto
        then show ?thesis ..
      qed }
    { assume "x \<notin> outstanding p"
      then show "D \<inter> outstanding p = {}" using assms(2) x unfolding in_order_def by auto }
  qed
  ultimately show ?thesis using SK(1,4,5) by (intro exI [of _ S] exI [of _ K]) auto
qed

text \<open>A command of the SPU completes.\<close>

lemma complete_ok:
  assumes "ok p" "in_order p" and x: "x \<in> pend (spec p)" "preds (spec p) x = {}"
  shows "ok (p\<lparr>spec := spec_complete x (spec p), unreported := insert x (unreported p),
      history := history p @ [kind_of p x]\<rparr>)" (is "ok ?p")
    and "in_order (p\<lparr>spec := spec_complete x (spec p), unreported := insert x (unreported p),
      history := history p @ [kind_of p x]\<rparr>)"
proof -
  note o = ok_parts [OF assms(1)]
  obtain xs where "add_order (spec p) xs" using o(10) by blast
  from add_order_complete [OF this x(1)] obtain ys where ys: "add_order (spec_complete x (spec p)) ys" by blast
  have uf: "unfetched ?p = unfetched p" by (simp add: unfetched_def)
  have pe: "pend (spec ?p) = pend (spec p) - {x}" by (simp add: spec_complete_def)
  have nx: "x \<notin> ids (unfetched p)" using o(5) x(1) by (auto simp: disjnt_def)
  have out: "outstanding ?p = outstanding p - {x}" using nx unfolding outstanding_def uf pe by auto
  have types: "pend_types p = add_mset (kind_of p x) (pend_types ?p)"
  proof -
    have "mset_set (pend (spec p)) = add_mset x (mset_set (pend (spec p) - {x}))"
      using finite_pend [OF assms(1)] x(1) by (simp add: mset_set.remove)
    then show ?thesis by (simp add: pend_types_def spec_complete_def)
  qed
  show "ok ?p" unfolding ok_def
  proof (intro conjI)
    show "ids (unfetched ?p) \<union> pend (spec ?p) \<union> unreported ?p \<union> posted ?p \<union> received ?p = live (rounds ?p)"
      using o(4) x(1) unfolding uf pe by auto
    show "disjnt (outstanding ?p) (unreported ?p)" using o(6) unfolding out by (auto simp: disjnt_def)
    show "disjnt (outstanding ?p \<union> unreported ?p) (posted ?p)"
      using o(7) x(1) unfolding out by (auto simp: disjnt_def outstanding_def)
    show "disjnt (outstanding ?p \<union> unreported ?p \<union> posted ?p) (received ?p)"
      using o(8) x(1) unfolding out by (auto simp: disjnt_def outstanding_def)
    show "disjnt (ids (unfetched ?p)) (pend (spec ?p))" using o(5) unfolding uf pe by (auto simp: disjnt_def)
    show "distinct (map fst (unfetched ?p))" using o(9) unfolding uf .
    show "\<exists>xs. add_order (spec ?p) xs" using ys by auto
    show "mset (history ?p) + pend_types ?p + sig_types (unfetched ?p) = (\<Sum>j<rounds ?p. sig_types (grp j))"
      using o(11) unfolding types uf by simp
  qed (use o in auto)
  show "in_order ?p" unfolding in_order_def out
  proof (clarsimp, intro conjI impI)
    fix y t D assume y: "(y, t, D) \<in> set (grp (rounds p - Suc 0))"
    have io: "y \<in> pend (spec p) \<longrightarrow> preds (spec p) y = D \<inter> pend (spec p)"
      "y \<notin> outstanding p \<longrightarrow> D \<inter> outstanding p = {}"
      using assms(2) y unfolding in_order_def by auto
    { assume "y \<in> pend (spec_complete x (spec p))"
      then show "preds (spec_complete x (spec p)) y = D \<inter> pend (spec_complete x (spec p))"
        using io(1) by (auto simp: spec_complete_def) }
    { assume yo: "y \<in> outstanding p \<longrightarrow> y = x"
      show "D \<inter> (outstanding p - {x}) = {}"
      proof (cases "y = x")
        case True
        have "\<not> fetched p < rounds p"
        proof
          assume "fetched p < rounds p"
          from newest_unfetched [OF this] have "y \<in> ids (unfetched p)" using y by (force simp: ids_def)
          then show False using nx True by simp
        qed
        then have "unfetched p = []" by (simp add: unfetched_def)
        then show ?thesis using io(1) x True by (auto simp: outstanding_def)
      next
        case False
        then show ?thesis using io(2) yo by auto
      qed }
  qed
qed

lemma report_ok:
  assumes "ok p" "in_order p" "posted p = {}"
  shows "ok (p\<lparr>unreported := {}, posted := unreported p\<rparr>)" "in_order (p\<lparr>unreported := {}, posted := unreported p\<rparr>)"
  using ok_parts [OF assms(1)] assms(2,3)
  by (auto simp: ok_def in_order_def unfetched_def outstanding_def pend_types_def disjnt_def)

lemma receive_ok:
  assumes "ok p" "in_order p"
  shows "ok (p\<lparr>posted := {}, received := received p \<union> posted p\<rparr>)"
    "in_order (p\<lparr>posted := {}, received := received p \<union> posted p\<rparr>)"
  using ok_parts [OF assms(1)] assms(2)
  by (auto simp: ok_def in_order_def unfetched_def outstanding_def pend_types_def disjnt_def)

text \<open>The next group can be issued as soon as what the round waits for has been received.\<close>

lemma live_Suc: "0 < m \<Longrightarrow> m < final \<Longrightarrow> live (Suc m) = (live m - W m) \<union> ids (grp m)"
  using wait_next [of m] wait_left [of m] by (auto simp: live_def)

lemma round_fresh:
  assumes "ok p" "W (rounds p) \<subseteq> received p" "rounds p < final"
  shows "ids (grp (rounds p)) \<inter> (outstanding p \<union> unreported p \<union> posted p) = {}"
proof -
  have "ids (grp (rounds p)) \<inter> live (rounds p) \<subseteq> received p"
    using grp_reuse [OF ok_parts(1) [OF assms(1)] assms(3)] assms(2) by (auto simp: live_def)
  moreover have "outstanding p \<union> unreported p \<union> posted p \<subseteq> live (rounds p)"
    using ok_parts(4) [OF assms(1)] by (auto simp: outstanding_def)
  ultimately show ?thesis using ok_parts(8) [OF assms(1)] by (auto simp: disjnt_def)
qed

lemma round_ok:
  assumes "ok p" "in_order p" and w: "W (rounds p) \<subseteq> received p" and m: "rounds p < final"
  shows "ok (p\<lparr>rounds := Suc (rounds p), received := received p - W (rounds p)\<rparr>)" (is "ok ?p")
    and "in_order (p\<lparr>rounds := Suc (rounds p), received := received p - W (rounds p)\<rparr>)"
proof -
  note o = ok_parts [OF assms(1)] and fresh = round_fresh [OF assms(1) w m]
  have g: "ids (grp (rounds p)) \<inter> received p \<subseteq> W (rounds p)"
    using grp_reuse [OF o(1) m] o(4) by (auto simp: live_def)
  have uf: "unfetched ?p = unfetched p @ grp (rounds p)" using o(3) by (simp add: unfetched_def)
  have out: "outstanding ?p = outstanding p \<union> ids (grp (rounds p))" unfolding outstanding_def uf by auto
  have rest: "W (rounds p) \<inter> (outstanding p \<union> unreported p \<union> posted p) = {}"
    using o(8) w by (auto simp: disjnt_def)
  show "ok ?p" unfolding ok_def
  proof (intro conjI)
    have "live (rounds ?p) = (live (rounds p) - W (rounds p)) \<union> ids (grp (rounds p))" using live_Suc o(1) m by simp
    moreover have "live (rounds p) - W (rounds p) = outstanding p \<union> unreported p \<union> posted p \<union> (received p - W (rounds p))"
      using o(4) rest unfolding outstanding_def by blast
    ultimately show "ids (unfetched ?p) \<union> pend (spec ?p) \<union> unreported ?p \<union> posted ?p \<union> received ?p = live (rounds ?p)"
      unfolding uf outstanding_def by auto
    show "disjnt (ids (unfetched ?p)) (pend (spec ?p))"
      using o(5) fresh unfolding uf by (auto simp: disjnt_def outstanding_def)
    show "disjnt (outstanding ?p) (unreported ?p)" using o(6) fresh unfolding out by (auto simp: disjnt_def)
    show "disjnt (outstanding ?p \<union> unreported ?p) (posted ?p)" using o(7) fresh unfolding out by (auto simp: disjnt_def)
    show "disjnt (outstanding ?p \<union> unreported ?p \<union> posted ?p) (received ?p)"
      using o(8) g unfolding out by (auto simp: disjnt_def)
    show "distinct (map fst (unfetched ?p))"
      using o(9) grp_distinct [of "rounds p"] fresh unfolding uf by (auto simp: outstanding_def ids_def)
    show "mset (history ?p) + pend_types ?p + sig_types (unfetched ?p) = (\<Sum>j<rounds ?p. sig_types (grp j))"
      using o(11) unfolding uf by (simp add: pend_types_def) (metis add.assoc)
  qed (use o m in auto)
  have "ids (grp (rounds p)) \<subseteq> outstanding ?p" "pend (spec p) \<inter> ids (grp (rounds p)) = {}"
    using fresh unfolding out by (auto simp: outstanding_def)
  then show "in_order ?p" by (force simp: in_order_def ids_def)
qed

lemma finished:
  assumes "ok p" "W (rounds p) \<subseteq> received p" "rounds p = final"
  shows "outstanding p = {}" "unreported p = {}" "posted p = {}"
    "mset (history p) = (\<Sum>j<final. sig_types (grp j))"
proof -
  note o = ok_parts [OF assms(1)]
  have "live (rounds p) \<subseteq> received p" using wait_last assms(2,3) by (auto simp: live_def)
  then show e: "outstanding p = {}" "unreported p = {}" "posted p = {}"
    using o(4,6,7,8) by (auto simp: outstanding_def disjnt_def)
  then have "pend (spec p) = {}" "ids (unfetched p) = {}" by (auto simp: outstanding_def)
  then show "mset (history p) = (\<Sum>j<final. sig_types (grp j))"
    using o(11) assms(3) by (simp add: pend_types_def ids_def)
qed

text \<open>Unless the round is over something can happen: no command waits for ever.\<close>

lemma progress:
  assumes "ok p" "\<not> W (rounds p) \<subseteq> received p"
  shows "fetched p < rounds p \<or> (\<exists>x\<in>pend (spec p). preds (spec p) x = {}) \<or> unreported p \<noteq> {} \<or> posted p \<noteq> {}"
proof (rule ccontr)
  assume n: "\<not> ?thesis"
  note o = ok_parts [OF assms(1)]
  obtain xs where xs: "add_order (spec p) xs" using o(10) by blast
  have "xs = []" using add_order_ready [OF xs] n by blast
  then have "pend (spec p) = {}" using xs by (simp add: add_order_def)
  moreover have "unfetched p = []" using n by (simp add: unfetched_def)
  ultimately have "live (rounds p) = received p" using o(4) n by simp
  then show False using assms(2) by (auto simp: live_def)
qed

lemma start_ok:
  assumes "rounds p = 1" "fetched p = 0" "pend (spec p) = {}" "unreported p = {}" "posted p = {}" "received p = {}"
    "history p = []"
  shows "ok p" "in_order p"
proof -
  have u: "unfetched p = grp 0" using assms(1,2) by (simp add: unfetched_def)
  have "live 1 = ids (grp 0)" using wait_first by (auto simp: live_def)
  moreover have "add_order (spec p) []" using assms(3) by (simp add: add_order_def)
  ultimately show "ok p" using assms final_pos grp_distinct u
    by (auto simp: ok_def outstanding_def pend_types_def disjnt_def)
  show "in_order p" using assms(1,3) u by (force simp: in_order_def outstanding_def ids_def)
qed

lemma not_yet: "ok p \<Longrightarrow> received p = {} \<Longrightarrow> \<not> W (rounds p) \<subseteq> received p"
  using wait_some ok_parts(1,2) by fastforce

end

end
