(* ===== verification/Ext_Plan.thy ===== *)
theory Ext_Plan
  imports Ext_Spu Pipeline
begin

text \<open>
  What the command groups of an input-run-output operation (\<open>library/cell/src/ppu/extspu.c\<close>) hold
  and what each of its rounds waits for, as a plan in the sense of theory Pipeline, whose laws it
  is shown to keep; and words read as sets of bits.
\<close>

section \<open>Words as sets of bits\<close>

definition bs :: "u32 \<Rightarrow> nat set" where
  "bs w = {x. bit w x}"

lemma bs_simps [simp]: "bs (v OR w) = bs v \<union> bs w" "bs (v AND w) = bs v \<inter> bs w" "bs 0 = {}"
  "bs (v XOR w) = (bs v - bs w) \<union> (bs w - bs v)" "bs (v AND NOT w) = bs v - bs w"
  by (auto simp: bs_def bit_or_iff bit_and_iff bit_xor_iff bit_not_iff dest: bit_imp_le_length)

lemma bs_less: "x \<in> bs w \<Longrightarrow> x < 32"
  by (auto simp: bs_def dest: bit_imp_le_length)

lemma bs_NOT [simp]: "bs (NOT w) = {..<32} - bs w"
  by (auto simp: bs_def bit_not_iff dest: bit_imp_le_length)

lemma bs_eq_iff: "v = w \<longleftrightarrow> bs v = bs w"
  by (auto simp: bs_def set_eq_iff intro: bit_eqI)

lemma bs_zero_iff: "w = 0 \<longleftrightarrow> bs w = {}"
  using bs_eq_iff [of w 0] by simp

lemma bs_subset_iff: "v AND w = w \<longleftrightarrow> bs w \<subseteq> bs v"
  unfolding bs_eq_iff by auto

lemma bs_tag_bit: "bs (tag_bit t) = (if t < 32 then {t} else {})"
  by (auto simp: bs_def bit_tag_bit)

lemma finite_bs [simp]: "finite (bs w)"
  by (rule finite_subset [of _ "{..<32}"]) (auto dest: bs_less)

lemma bs_push_bit: "b \<le> 26 \<Longrightarrow> bs c \<subseteq> {..<6} \<Longrightarrow> bs (push_bit b c) = (+) b ` bs c"
proof (intro set_eqI iffI)
  fix x assume "x \<in> bs (push_bit b c)"
  then have "b \<le> x" "bit c (x - b)" by (auto simp: bs_def bit_push_bit_iff)
  then show "x \<in> (+) b ` bs c" by (intro image_eqI [of _ _ "x - b"]) (auto simp: bs_def)
next
  fix x assume b: "b \<le> 26" and c: "bs c \<subseteq> {..<6}" and "x \<in> (+) b ` bs c"
  then obtain k where k: "x = b + k" "bit c k" "k < 6" by (auto simp: bs_def)
  then show "x \<in> bs (push_bit b c)" using b by (auto simp: bs_def bit_push_bit_iff)
qed

lemma bs_filter: "bs w = set (filter (bit w) [0..<32])"
  by (auto simp: bs_def dest: bit_imp_le_length)

lemma bs_numerals:
  "bs 0x3f = {0, 1, 2, 3, 4, 5}" "bs 0x18 = {3, 4}" "bs 7 = {0, 1, 2}" "bs 1 = {0}" "bs 6 = {1, 2}" "bs 4 = {2}"
  "bs 0x15 = {0, 2, 4}" "bs 0x11 = {0, 4}" "bs 0x14 = {2, 4}" "bs 0xa = {1, 3}" "bs 0x22 = {1, 5}"
  by (simp_all add: bs_filter upt_rec bit_numeral_rec) (simp_all add: numeral_eq_Suc insert_commute)

lemma bs_masks:
  assumes "b \<le> 26"
  shows "bs (push_bit b 0x3f) = {b, b + 1, b + 2, b + 3, b + 4, b + 5}" "bs (push_bit b 0x18) = {b + 3, b + 4}"
    "bs (push_bit b 7) = {b, b + 1, b + 2}" "bs (push_bit b 1) = {b}"
  using bs_push_bit [OF assms, where c = 63] bs_push_bit [OF assms, where c = 24] bs_push_bit [OF assms, where c = 7]
    bs_push_bit [OF assms, where c = 1] by (simp_all add: bs_numerals)

section \<open>The plan of an operation\<close>

text \<open>
  What the groups of an operation hold, with \<open>b\<close> the first of its six IDs: iteration \<open>k\<close> reads with
  ID \<open>b\<close> or \<open>b + 3\<close>, runs with \<open>b + 4\<close> or \<open>b + 1\<close> and writes with \<open>b + 2\<close> or \<open>b + 5\<close>.
\<close>

abbreviation IN :: nat where "IN \<equiv> SPU_CMD_DT_IN_BACK"
abbreviation RUN :: nat where "RUN \<equiv> SPU_CMD_FILTER_RUN"
abbreviation OUT :: nat where "OUT \<equiv> SPU_CMD_DT_OUT_FRONT"

definition init_group :: "nat \<Rightarrow> sig list" where
  "init_group b = [(b, IN, {}), (b + 3, IN, {b}), (b + 4, RUN, {b})]"

definition steady_group :: "nat \<Rightarrow> nat \<Rightarrow> sig list" where
  "steady_group b k = (let c = b + 3 * k; d = b + 3 * (1 - k) in
     [(c, IN, {d, d + 1}), (c + 1, RUN, {d, d + 1, d + 2}), (c + 2, OUT, {d + 1, d + 2})])"

definition full_group :: "nat \<Rightarrow> nat \<Rightarrow> sig list" where
  "full_group b n = [(b, IN, {}), (b + 4, RUN, {b}), (b + 2, OUT, {b + 4})] @
     (if n = 2 then [(b + 3, IN, {b}), (b + 1, RUN, {b + 3, b + 4}), (b + 5, OUT, {b + 1, b + 2})] else [])"

definition slot_of :: "nat \<Rightarrow> nat" where
  "slot_of j = (if even j then 1 else 0)"

definition op_group :: "nat \<Rightarrow> nat \<Rightarrow> nat \<Rightarrow> sig list" where
  "op_group b n j = (if n \<le> 2 then full_group b n else if j = 0 then init_group b
     else drop (if j \<le> n - 2 then 0 else if j = n - 1 then 1 else 2) (steady_group b (slot_of j)))"

definition op_wait :: "nat \<Rightarrow> nat \<Rightarrow> nat \<Rightarrow> nat set" where
  "op_wait b n m = (if n \<le> 2 then ids (full_group b n) else if m = 1 then {b} else if m = 2 then {b + 3, b + 4}
     else if m \<le> n then ids (steady_group b (slot_of m)) else ids (op_group b n (n - 1)) \<union> ids (op_group b n n))"

definition op_rounds :: "nat \<Rightarrow> nat" where
  "op_rounds n = (if n \<le> 2 then 1 else n + 1)"

lemmas op_plan_defs = op_group_def op_wait_def op_rounds_def init_group_def steady_group_def full_group_def slot_of_def Let_def

lemma ids_steady [simp]: "ids (steady_group b 0) = {b, b + 1, b + 2}" "ids (steady_group b (Suc 0)) = {b + 3, b + 4, b + 5}"
  by (auto simp: steady_group_def Let_def)

lemma op_group_cases:
  assumes "3 \<le> n"
  shows "op_group b n 0 = init_group b" "0 < j \<Longrightarrow> j \<le> n - 2 \<Longrightarrow> op_group b n j = steady_group b (slot_of j)"
    "op_group b n (n - 1) = tl (steady_group b (slot_of (n - 1)))"
    "op_group b n n = tl (tl (steady_group b (slot_of n)))"
  using assms by (auto simp: op_group_def drop_Suc numeral_2_eq_2)

lemma op_wait_cases:
  assumes "3 \<le> n"
  shows "op_wait b n 1 = {b}" "op_wait b n 2 = {b + 3, b + 4}"
    "3 \<le> m \<Longrightarrow> m \<le> n \<Longrightarrow> op_wait b n m = ids (steady_group b (slot_of m))"
    "op_wait b n (Suc n) = ids (op_group b n (n - 1)) \<union> ids (op_group b n n)"
  using assms by (auto simp: op_wait_def)

lemma slot_of_other: "slot_of (Suc j) = 1 - slot_of j" "slot_of j \<le> 1"
  by (simp_all add: slot_of_def)

lemma steady_disjoint: "k \<le> 1 \<Longrightarrow> ids (steady_group b k) \<inter> ids (steady_group b (1 - k)) = {}"
  by (cases k) auto

lemma ids_drop [simp]: "ids (drop k cs) \<subseteq> ids cs"
  by (auto simp: ids_def dest: in_set_dropD)

lemma op_group_ids: "3 \<le> n \<Longrightarrow> 0 < j \<Longrightarrow> ids (op_group b n j) \<subseteq> ids (steady_group b (slot_of j))"
  by (simp add: op_group_def)

text \<open>In the middle of an operation the group being issued and the one before use different IDs.\<close>

lemma op_group_next:
  assumes "3 \<le> n" "1 < m"
  shows "ids (op_group b n m) \<inter> ids (op_group b n (m - 1)) = {}"
proof -
  have m: "Suc (m - 1) = m" using assms by simp
  have "slot_of m = 1 - slot_of (m - 1)" "slot_of (m - 1) \<le> 1" using slot_of_other [of "m - 1"] unfolding m by blast+
  then have "ids (steady_group b (slot_of (m - 1))) \<inter> ids (steady_group b (slot_of m)) = {}"
    using steady_disjoint by simp
  moreover have "ids (op_group b n m) \<subseteq> ids (steady_group b (slot_of m))" using op_group_ids assms by simp
  moreover have "ids (op_group b n (m - 1)) \<subseteq> ids (steady_group b (slot_of (m - 1)))" using op_group_ids assms by simp
  ultimately show ?thesis by blast
qed

lemma op_wait_steady: "3 \<le> n \<Longrightarrow> 3 \<le> m \<Longrightarrow> m \<le> n \<Longrightarrow> op_wait b n m = ids (op_group b n (m - 2))"
  by (auto simp: op_wait_cases op_group_cases slot_of_def)

lemma op_wait_left: "3 \<le> n \<Longrightarrow> 2 \<le> m \<Longrightarrow> m \<le> n \<Longrightarrow> ids (op_group b n (m - 1)) \<inter> op_wait b n m = {}"
proof -
  assume n: "3 \<le> n" "2 \<le> m" "m \<le> n"
  show ?thesis
  proof (cases "m = 2")
    case True
    then show ?thesis using n op_group_cases(2) [of n 1 b] op_wait_cases(2) [of n b] by (simp add: slot_of_def)
  next
    case False
    then show ?thesis using n op_wait_steady [of n m b] op_group_next [of n "m - 1" b] by (simp add: diff_diff_eq numeral_2_eq_2)
  qed
qed

lemma op_wait_Suc:
  assumes "3 \<le> n" "0 < m" "m \<le> n"
  shows "op_wait b n (Suc m) = ids (op_group b n (m - 1)) - op_wait b n m \<union> (if m = n then ids (op_group b n m) else {})"
proof -
  consider "m = 1" | "2 \<le> m" "m < n" | "2 \<le> m" "m = n" using assms by linarith
  then show ?thesis
  proof cases
    case 1
    then show ?thesis using assms op_wait_cases(1,2) [of n b] by (auto simp: op_group_cases init_group_def numeral_2_eq_2)
  next
    case 2
    then show ?thesis using op_wait_steady [of n "Suc m" b] op_wait_left [of n m b] assms by auto
  next
    case 3
    then show ?thesis using op_wait_left [of n m b] assms by (auto simp: op_wait_cases)
  qed
qed

lemma distinct_drop_steady: "k \<le> 1 \<Longrightarrow> distinct (map fst (drop i (steady_group b k)))"
proof -
  assume "k \<le> 1"
  then have "distinct (map fst (steady_group b k))" by (simp add: steady_group_def Let_def)
  then show ?thesis by (simp add: drop_map [symmetric])
qed

lemma deps_before_drop: "deps_before cs \<Longrightarrow> deps_before (drop i cs)"
  by (induction cs arbitrary: i) (auto simp: drop_Cons split: nat.split)

lemma deps_drop_steady: "k \<le> 1 \<Longrightarrow> deps_before (drop i (steady_group b k))"
  by (rule deps_before_drop) (cases k; simp add: steady_group_def Let_def)

lemma op_plan_long: "3 \<le> n \<Longrightarrow> pipeline (op_group b n) (op_wait b n) (op_rounds n)"
proof
  assume n: "3 \<le> n"
  show "0 < op_rounds n" by (simp add: op_rounds_def)
  show "distinct (map fst (op_group b n m))" "deps_before (op_group b n m)" for m
    using n distinct_drop_steady [OF slot_of_other(2)] deps_drop_steady [OF slot_of_other(2)] by (auto simp: op_group_def init_group_def)
  show "op_wait b n 1 \<subseteq> ids (op_group b n 0)" using n op_wait_cases(1) by (simp add: op_group_cases init_group_def)
  show "ids (op_group b n (op_rounds n - 1)) \<subseteq> op_wait b n (op_rounds n)"
    using n by (simp add: op_rounds_def op_wait_cases)
  fix m :: nat assume m: "0 < m"
  show "op_wait b n m \<noteq> {}" if "m \<le> op_rounds n"
  proof (cases "m = Suc n")
    case True
    then show ?thesis using n by (auto simp: op_wait_cases op_group_cases steady_group_def Let_def)
  next
    case False
    then show ?thesis using that n m by (auto simp: op_wait_def steady_group_def Let_def op_rounds_def)
  qed
  assume "m < op_rounds n"
  then have mn: "m \<le> n" using n by (simp add: op_rounds_def)
  show "ids (op_group b n m) \<inter> ids (op_group b n (m - 1)) \<subseteq> op_wait b n m"
  proof (cases "m = 1")
    case True
    then show ?thesis using n op_group_ids [of n 1 b] op_wait_cases(1) [of n b]
      by (auto simp: op_group_cases init_group_def slot_of_def)
  next
    case False
    then show ?thesis using m mn n op_group_next [of n m b] by auto
  qed
  show "op_wait b n (Suc m) \<subseteq> ids (op_group b n (m - 1)) - op_wait b n m \<union> ids (op_group b n m)"
    "ids (op_group b n (m - 1)) - op_wait b n m \<subseteq> op_wait b n (Suc m)"
    using op_wait_Suc [OF n m mn, of b] by auto
qed

interpretation plan: pipeline "op_group b n" "op_wait b n" "op_rounds n" for b n
proof (cases "n \<le> 2")
  case True
  then show "pipeline (op_group b n) (op_wait b n) (op_rounds n)"
    by unfold_locales (force simp: op_group_def op_wait_def op_rounds_def full_group_def)+
next
  case False
  then show "pipeline (op_group b n) (op_wait b n) (op_rounds n)" by (intro op_plan_long) simp
qed

end
