(* ===== verification/Ext_Groups.thy ===== *)
theory Ext_Groups
  imports Ext_Plan
begin

text \<open>
  The functions of \<open>extspu.c\<close> that set up command groups build the groups of the plan (theory
  Ext_Plan), and issuing a group posts a request for it and marks its IDs as issued.
\<close>

section \<open>Groups\<close>

definition cmd_sig :: "spu_cmd \<Rightarrow> sig" where
  "cmd_sig c = (c_id c, c_type c, set (take (num_back_deps c) (c_deps c)))"

definition grp_is :: "cmd_group \<Rightarrow> sig list \<Rightarrow> bool" where
  "grp_is g cs \<longleftrightarrow> group_ok g \<and> map cmd_sig (g_cmds g) = cs"

lemma command_of_sig: "command_of (ty, body, i, deps) c \<Longrightarrow> cmd_sig c = (i, ty, set deps)"
  by (simp add: command_of_def cmd_sig_def)

lemma size_of_bounds: "c_type c < 18 \<Longrightarrow> 16 \<le> size_of c \<and> size_of c \<le> 64 \<and> 16 dvd size_of c"
  unfolding size_of_def by (rule spu_cmd_size_bounds)

lemma sizes_bounds:
  "\<forall>c\<in>set cs. c_type c < 18 \<Longrightarrow> 16 * length cs \<le> sum_list (map size_of cs) \<and>
     sum_list (map size_of cs) \<le> 64 * length cs \<and> 16 dvd sum_list (map size_of cs)"
proof (induction cs)
  case Nil
  then show ?case by simp
next
  case (Cons c cs)
  then show ?case using size_of_bounds [of c] by auto
qed

lemma grp_is_size:
  assumes "grp_is g cs"
  shows "16 * length cs \<le> unat (g_size g)" "unat (g_size g) \<le> 64 * length cs" "16 dvd unat (g_size g)"
    "unat (g_size g) \<le> 2048"
proof -
  have g: "\<forall>c\<in>set (g_cmds g). c_type c < 18" "unat (g_size g) = sum_list (map size_of (g_cmds g))"
    "length cs = length (g_cmds g)" "unat (g_size g) \<le> 2048"
    using assms by (auto simp: grp_is_def group_ok_def)
  then show "16 * length cs \<le> unat (g_size g)" "unat (g_size g) \<le> 64 * length cs" "16 dvd unat (g_size g)"
    "unat (g_size g) \<le> 2048"
    using sizes_bounds [OF g(1)] by simp_all
qed

lemma and_15: "16 dvd unat w \<Longrightarrow> w AND 15 = 0" for w :: u32
proof -
  assume "16 dvd unat w"
  then have "unat (w mod 16) = 0" by (simp add: unat_mod)
  then have "take_bit 4 w = 0" by (simp add: unat_eq_0 take_bit_eq_mod)
  then show ?thesis by (simp add: take_bit_eq_mask mask_eq_exp_minus_1)
qed

text \<open>A stub adds its command; the largest group of an operation has six.\<close>

lemma spu_command_sig:
  assumes g: "grp_is g cs" "length cs \<le> 6" and ty: "ty < 18" and i: "i < 32" "length deps \<le> 7" "\<forall>d\<in>set deps. d < 32"
  shows "\<exists>g'. spu_command ty body old g i deps = Inr g' \<and> grp_is g' (cs @ [(i, ty, set deps)])"
proof -
  let ?c = "old\<lparr>c_type := ty, c_id := i, num_back_deps := length deps, num_forward_deps := 0,
      c_deps := deps @ drop (length deps) (c_deps old), c_body := body\<rparr>"
  have n: "size_of ?c \<le> 64" using size_of_bounds [of ?c] ty by simp
  have "unat (g_size g + of_nat (size_of ?c)) \<le> 448"
    using grp_is_size(2) [OF g(1)] g(2) n by (simp add: unat_word_ariths unat_of_nat)
  then have "g_size g + of_nat (size_of ?c) \<le> 2048" by (simp add: word_le_nat_alt)
  then have eq: "spu_command ty body old g i deps
      = Inr (g\<lparr>g_size := g_size g + of_nat (size_of ?c), g_cmds := g_cmds g @ [?c]\<rparr>)" (is "_ = Inr ?g")
    using i ty by (simp add: spu_command_def spu_init_header_def spu_done_command_def spu_cmd_get_size_eq Let_def
        SPU_MAX_COMMANDS_def SPU_CMD_MAX_DEPS_def size_of_def)
  obtain c where "group_ok ?g" "g_cmds ?g = g_cmds g @ [c]" "command_of (ty, body, i, deps) c"
    using spu_command_appends [OF eq] g(1) unfolding grp_is_def by blast
  then show ?thesis using eq g(1) command_of_sig unfolding grp_is_def by force
qed

section \<open>Building a group\<close>

definition set_group :: "nat \<Rightarrow> cmd_group \<Rightarrow> spu_info \<Rightarrow> spu_info" where
  "set_group gid g u = u\<lparr>i_groups := (i_groups u)[gid := g]\<rparr>"

lemma set_group_twice [simp]: "set_group gid g (set_group gid g' u) = set_group gid g u"
  by (simp add: set_group_def)

text \<open>\<open>t\<close> is \<open>s\<close> with group \<open>gid\<close> of SPU \<open>i\<close> set up as \<open>cs\<close>.\<close>

definition built :: "nat \<Rightarrow> nat \<Rightarrow> spu_info \<Rightarrow> ('d, 'c) ppu \<Rightarrow> sig list \<Rightarrow> ('d, 'c) ppu \<Rightarrow> bool" where
  "built i gid u s cs t \<longleftrightarrow> get_spu i s = Inr u \<and> gid < length (i_groups u) \<and>
     (\<exists>g. t = put_spu i (set_group gid g u) s \<and> grp_is g cs)"

lemma on_group_eq:
  "get_spu i s = Inr u \<Longrightarrow> gid < length (i_groups u) \<Longrightarrow>
   on_group i gid f s = rbind (f (i_groups u ! gid)) (\<lambda>g. Inr (put_spu i (set_group gid g u) s))"
  by (simp add: on_group_def set_group_def)

lemma built_clear:
  assumes "get_spu i s = Inr u" "gid < length (i_groups u)"
  shows "\<exists>t. spu_clear_group i gid s = Inr t \<and> built i gid u s [] t"
proof -
  let ?g = "(i_groups u ! gid)\<lparr>g_size := 0, g_cmds := []\<rparr>"
  have "grp_is ?g []" by (simp add: grp_is_def group_ok_def)
  then show ?thesis using assms by (auto simp: spu_clear_group_def on_group_eq built_def)
qed

lemma built_command:
  assumes "built i gid u s cs t" "length cs \<le> 6"
    and ty: "ty < 18" and x: "x < 32" "length deps \<le> 7" "\<forall>d\<in>set deps. d < 32"
  shows "\<exists>t'. on_group i gid (\<lambda>g. spu_command ty (body g) old g x deps) t = Inr t' \<and>
    built i gid u s (cs @ [(x, ty, set deps)]) t'"
proof -
  obtain g where g: "get_spu i s = Inr u" "gid < length (i_groups u)" "t = put_spu i (set_group gid g u) s" "grp_is g cs"
    using assms(1) unfolding built_def by blast
  obtain g' where g': "spu_command ty (body g) old g x deps = Inr g'" "grp_is g' (cs @ [(x, ty, set deps)])"
    using spu_command_sig [OF g(4) assms(2) ty x] by blast
  have t: "get_spu i t = Inr (set_group gid g u)" "gid < length (i_groups (set_group gid g u))"
    "i_groups (set_group gid g u) ! gid = g"
    using g(1-3) get_put_same by (auto simp: set_group_def)
  have "on_group i gid (\<lambda>g. spu_command ty (body g) old g x deps) t = Inr (put_spu i (set_group gid g' u) s)"
    unfolding on_group_eq [OF t(1,2)] t(3) using g'(1) by (simp add: g(3))
  then show ?thesis using g g'(2) unfolding built_def by blast
qed

section \<open>The groups of an operation\<close>

text \<open>
  An operation with layout \<open>l\<close>, rates \<open>r\<close> and internal groups \<open>g0\<close> and \<open>g1\<close>, whose remote buffers are
  both on SPUs and which both reads and writes.
\<close>

definition spu_to_spu :: "ext_spu_layout \<Rightarrow> ext_spu_rates \<Rightarrow> bool" where
  "spu_to_spu l r \<longleftrightarrow> (\<exists>a. l_in l = On_Spu a) \<and> (\<exists>a. l_out l = On_Spu a) \<and> l_cmd_id l \<le> 26 \<and> r_in r \<noteq> 0 \<and> r_out r \<noteq> 0"

definition op_static :: "ext_spu_layout \<Rightarrow> ext_spu_rates \<Rightarrow> nat \<Rightarrow> nat \<Rightarrow> ext_spu_data \<Rightarrow> bool" where
  "op_static l r g0 g1 d \<longleftrightarrow> spu_to_spu l r \<and> xl d = l \<and> xr d = r \<and> x_slots d = [(g0, l_da l), (g1, l_da l + 256)] \<and>
     sd_bit (x_in d) = 0 \<and> sd_bit (x_out d) = 0"

definition slot_gid :: "nat \<Rightarrow> nat \<Rightarrow> nat \<Rightarrow> nat" where
  "slot_gid g0 g1 k = (if k = 0 then g0 else g1)"

lemma slot_group_eq: "op_static l r g0 g1 d \<Longrightarrow> k \<le> 1 \<Longrightarrow> slot_group d k = Inr (slot_gid g0 g1 k)"
  by (cases k) (auto simp: slot_group_def op_static_def slot_gid_def)

lemma built_run:
  assumes "op_static l r g0 g1 d" "built (l_spu_id l) gid u s cs t" "length cs \<le> 6"
    "x < 32" "length deps \<le> 7" "\<forall>d\<in>set deps. d < 32"
  shows "\<exists>t'. setup_filter_run gm d gid x deps t = Inr t' \<and> built (l_spu_id l) gid u s (cs @ [(x, RUN, set deps)]) t'"
  unfolding setup_filter_run_def spu_filter_run_def
  using built_command [OF assms(2,3) _ assms(4-6), of SPU_CMD_FILTER_RUN] assms(1)
  by (simp add: op_static_def SPU_CMD_FILTER_RUN_def)

lemma built_in:
  assumes "op_static l r g0 g1 d" "built (l_spu_id l) gid u s cs t" "length cs \<le> 6"
    "x < 32" "length deps \<le> 7" "\<forall>d\<in>set deps. d < 32"
  shows "\<exists>t'. setup_in gm d gid x deps t = Inr t' \<and> built (l_spu_id l) gid u s (cs @ [(x, IN, set deps)]) t'"
proof -
  obtain a where a: "l_in l = On_Spu a" using assms(1) by (auto simp: op_static_def spu_to_spu_def)
  show ?thesis
    unfolding setup_in_def spu_dt_in_back_proc_def spu_dt_in_back_def
    using built_command [OF assms(2,3) _ assms(4-6), of SPU_CMD_DT_IN_BACK] assms(1) a
    by (simp add: op_static_def spu_to_spu_def SPU_CMD_DT_IN_BACK_def)
qed

lemma built_out_proc:
  assumes "op_static l r g0 g1 d" "built (l_spu_id l) gid u s cs t" "length cs \<le> 6"
    "x < 32" "length deps \<le> 7" "\<forall>d\<in>set deps. d < 32"
  shows "\<exists>t'. spu_dt_out_front_proc gm d gid x deps t = Inr t' \<and> built (l_spu_id l) gid u s (cs @ [(x, OUT, set deps)]) t'"
proof -
  obtain a where a: "l_out l = On_Spu a" using assms(1) by (auto simp: op_static_def spu_to_spu_def)
  show ?thesis
    unfolding spu_dt_out_front_proc_def spu_dt_out_front_def
    using built_command [OF assms(2,3) _ assms(4-6), of SPU_CMD_DT_OUT_FRONT] assms(1) a
    by (simp add: op_static_def SPU_CMD_DT_OUT_FRONT_def)
qed

lemma setup_out_eq: "op_static l r g0 g1 d \<Longrightarrow> setup_out gm d gid x deps = spu_dt_out_front_proc gm d gid x deps"
  by (rule ext) (simp add: setup_out_def op_static_def spu_to_spu_def)

text \<open>One command after another: the rest of a function runs on the group with the command added.\<close>

definition builds :: "nat \<Rightarrow> nat \<Rightarrow> (('d, 'c) ppu \<Rightarrow> ('d, 'c) ppu res) \<Rightarrow> sig list \<Rightarrow> sig list \<Rightarrow> bool" where
  "builds i gid F cs cs' \<longleftrightarrow> (\<forall>u s t. built i gid u s cs t \<longrightarrow> (\<exists>t'. F t = Inr t' \<and> built i gid u s cs' t'))"

lemma builds_bind: "builds i gid F cs cs' \<Longrightarrow> builds i gid G cs' cs'' \<Longrightarrow> builds i gid (\<lambda>s. rbind (F s) G) cs cs''"
  unfolding builds_def by (metis rbind_simps(2))

lemma builds_run:
  "op_static l r g0 g1 d \<Longrightarrow> length cs \<le> 6 \<Longrightarrow> x < 32 \<Longrightarrow> length deps \<le> 7 \<Longrightarrow> \<forall>d\<in>set deps. d < 32 \<Longrightarrow>
   cs' = cs @ [(x, RUN, set deps)] \<Longrightarrow> builds (l_spu_id l) gid (setup_filter_run gm d gid x deps) cs cs'"
  unfolding builds_def using built_run by metis

lemma builds_in:
  "op_static l r g0 g1 d \<Longrightarrow> length cs \<le> 6 \<Longrightarrow> x < 32 \<Longrightarrow> length deps \<le> 7 \<Longrightarrow> \<forall>d\<in>set deps. d < 32 \<Longrightarrow>
   cs' = cs @ [(x, IN, set deps)] \<Longrightarrow> builds (l_spu_id l) gid (setup_in gm d gid x deps) cs cs'"
  unfolding builds_def using built_in by metis

lemma builds_out:
  "op_static l r g0 g1 d \<Longrightarrow> length cs \<le> 6 \<Longrightarrow> x < 32 \<Longrightarrow> length deps \<le> 7 \<Longrightarrow> \<forall>d\<in>set deps. d < 32 \<Longrightarrow>
   cs' = cs @ [(x, OUT, set deps)] \<Longrightarrow> builds (l_spu_id l) gid (spu_dt_out_front_proc gm d gid x deps) cs cs'"
  unfolding builds_def using built_out_proc by metis

lemma clear_then:
  assumes "get_spu i s = Inr u" "gid < length (i_groups u)" "builds i gid F [] cs"
  shows "\<exists>t. rbind (spu_clear_group i gid s) F = Inr t \<and> built i gid u s cs t"
proof -
  obtain t where "spu_clear_group i gid s = Inr t" "built i gid u s [] t" using built_clear [OF assms(1,2)] by blast
  then show ?thesis using assms(3) unfolding builds_def by auto
qed

lemma op_static_dest:
  assumes "op_static l r g0 g1 d"
  shows "xl d = l" "xr d = r" "l_cmd_id l \<le> 26" "r_in r \<noteq> 0" "r_out r \<noteq> 0" "sd_bit (x_in d) = 0" "sd_bit (x_out d) = 0"
    "x_slots d = [(g0, l_da l), (g1, l_da l + 256)]"
  using assms by (simp_all add: op_static_def spu_to_spu_def)

lemma flip_slot: "k \<le> 1 \<Longrightarrow> k XOR 1 = 1 - (k::nat)"
  by (cases k) auto

lemma bs_push_bit3:
  assumes "a + 2 < 32" "bs c \<subseteq> {..<3}"
  shows "bs (push_bit a c) = (+) a ` bs c"
proof (intro set_eqI iffI)
  fix x assume "x \<in> bs (push_bit a c)"
  then have "a \<le> x" "bit c (x - a)" by (auto simp: bs_def bit_push_bit_iff)
  then show "x \<in> (+) a ` bs c" by (intro image_eqI [of _ _ "x - a"]) (auto simp: bs_def)
next
  fix x assume "x \<in> (+) a ` bs c"
  then obtain k where k: "x = a + k" "bit c k" "k < 3" using assms(2) by (auto simp: bs_def)
  then show "x \<in> bs (push_bit a c)" using assms(1) by (auto simp: bs_def bit_push_bit_iff)
qed

lemma built_init:
  assumes d: "op_static l r g0 g1 d" and s: "get_spu (l_spu_id l) s = Inr u" "g1 < length (i_groups u)"
  shows "\<exists>t. ext_spu_setup_init gm d s = Inr t \<and> built (l_spu_id l) g1 u s (init_group (l_cmd_id l)) t"
proof -
  note e = op_static_dest [OF d]
  let ?b = "l_cmd_id l"
  have "builds (l_spu_id l) g1 (\<lambda>s. rbind (setup_in gm d g1 ?b [] s) (\<lambda>s. rbind (setup_in gm d g1 (?b + 3) [?b] s)
      (setup_filter_run gm d g1 (?b + 4) [?b]))) [] (init_group ?b)"
    by (intro builds_bind; (rule builds_in [OF d] builds_run [OF d])?) (use e(3) in \<open>auto simp: init_group_def\<close>)
  from clear_then [OF s this] show ?thesis
    unfolding ext_spu_setup_init_def slot_group_eq [OF d order_refl] by (simp add: slot_gid_def e Let_def)
qed

lemma built_steady:
  assumes d: "op_static l r g0 g1 d" and s: "get_spu (l_spu_id l) s = Inr u" "slot_gid g0 g1 k < length (i_groups u)" and k: "k \<le> 1"
  shows "\<exists>t. ext_spu_setup_steady gm d k s = Inr t \<and> built (l_spu_id l) (slot_gid g0 g1 k) u s (steady_group (l_cmd_id l) k) t"
proof -
  note e = op_static_dest [OF d]
  let ?c = "l_cmd_id l + 3 * k" and ?e = "l_cmd_id l + 3 * (1 - k)" and ?g = "slot_gid g0 g1 k"
  have b: "?c + 2 < 32" "?e + 2 < 32" using e(3) k by simp_all
  have "builds (l_spu_id l) ?g (\<lambda>s. rbind (setup_in gm d ?g ?c [?e, ?e + 1] s)
      (\<lambda>s. rbind (setup_filter_run gm d ?g (?c + 1) [?e, ?e + 1, ?e + 2] s)
      (spu_dt_out_front_proc gm d ?g (?c + 2) [?e + 1, ?e + 2]))) [] (steady_group (l_cmd_id l) k)"
    by (intro builds_bind; (rule builds_in [OF d] builds_run [OF d] builds_out [OF d])?)
      (use b in \<open>simp_all add: steady_group_def Let_def\<close>)
  from clear_then [OF s this] show ?thesis
    unfolding ext_spu_setup_steady_def slot_group_eq [OF d k] flip_slot [OF k] setup_out_eq [OF d]
    by (simp add: e mult.commute Let_def)
qed

lemma built_cleanup_0:
  assumes d: "op_static l r g0 g1 d" and s: "get_spu (l_spu_id l) s = Inr u" "slot_gid g0 g1 k < length (i_groups u)"
    and k: "k \<le> 1" "x_cur d = k"
  shows "\<exists>t. ext_spu_setup_cleanup_0 gm d s = Inr t \<and>
    built (l_spu_id l) (slot_gid g0 g1 k) u s (tl (steady_group (l_cmd_id l) k)) t"
proof -
  note e = op_static_dest [OF d]
  let ?c = "l_cmd_id l + 3 * k" and ?e = "l_cmd_id l + 3 * (1 - k)" and ?g = "slot_gid g0 g1 k"
  have b: "?c + 2 < 32" "?e + 2 < 32" using e(3) k by simp_all
  have "builds (l_spu_id l) ?g (\<lambda>s. rbind (setup_filter_run gm d ?g (?c + 1) [?e, ?e + 1, ?e + 2] s)
      (spu_dt_out_front_proc gm d ?g (?c + 2) [?e + 1, ?e + 2])) [] (tl (steady_group (l_cmd_id l) k))"
    by (intro builds_bind; (rule builds_run [OF d] builds_out [OF d])?)
      (use b in \<open>simp_all add: steady_group_def Let_def\<close>)
  from clear_then [OF s this] show ?thesis
    unfolding ext_spu_setup_cleanup_0_def k(2) slot_group_eq [OF d k(1)] flip_slot [OF k(1)] setup_out_eq [OF d]
    by (simp add: e mult.commute Let_def)
qed

lemma built_cleanup_1:
  assumes d: "op_static l r g0 g1 d" and s: "get_spu (l_spu_id l) s = Inr u" "slot_gid g0 g1 k < length (i_groups u)"
    and k: "k \<le> 1" "x_cur d = k"
  shows "\<exists>m t. ext_spu_setup_cleanup_1 gm d s = Inr (m, t) \<and>
    bs m = ids (tl (steady_group (l_cmd_id l) (1 - k))) \<union> ids (tl (tl (steady_group (l_cmd_id l) k))) \<and>
    built (l_spu_id l) (slot_gid g0 g1 k) u s (tl (tl (steady_group (l_cmd_id l) k))) t"
proof -
  note e = op_static_dest [OF d]
  let ?c = "l_cmd_id l + 3 * k" and ?e = "l_cmd_id l + 3 * (1 - k)" and ?g = "slot_gid g0 g1 k"
  have b: "?c + 2 < 32" "?e + 2 < 32" using e(3) k by simp_all
  have "builds (l_spu_id l) ?g (spu_dt_out_front_proc gm d ?g (?c + 2) [?e + 1, ?e + 2]) []
      (tl (tl (steady_group (l_cmd_id l) k)))"
    by (rule builds_out [OF d]) (use b in \<open>simp_all add: steady_group_def Let_def\<close>)
  from clear_then [OF s this] obtain t where t: "rbind (spu_clear_group (l_spu_id l) ?g s)
      (spu_dt_out_front_proc gm d ?g (?c + 2) [?e + 1, ?e + 2]) = Inr t"
    "built (l_spu_id l) ?g u s (tl (tl (steady_group (l_cmd_id l) k))) t" by blast
  have "rbind (spu_clear_group (l_spu_id l) ?g s) (\<lambda>s. rbind (spu_dt_out_front_proc gm d ?g (?c + 2) [?e + 1, ?e + 2] s)
      (\<lambda>s. Inr (push_bit ?e 6 OR push_bit ?c 4, s))) = Inr (push_bit ?e 6 OR push_bit ?c 4 :: u32, t)"
    using t(1) by (simp add: rbind_assoc [symmetric])
  then have eq: "ext_spu_setup_cleanup_1 gm d s = Inr (push_bit ?e 6 OR push_bit ?c 4, t)"
    unfolding ext_spu_setup_cleanup_1_def k(2) slot_group_eq [OF d k(1)] flip_slot [OF k(1)] by (simp add: e mult.commute Let_def)
  have "bs (push_bit ?e 6) = {?e + 1, ?e + 2}" "bs (push_bit ?c 4) = {?c + 2}"
    using b bs_push_bit3 [of ?e 6] bs_push_bit3 [of ?c 4] by (simp_all add: bs_numerals)
  then show ?thesis using eq t(2) by (auto simp: steady_group_def Let_def)
qed


lemma built_full:
  assumes d: "op_static l r g0 g1 d" and s: "get_spu (l_spu_id l) s = Inr u" "g0 < length (i_groups u)"
    and n: "iters = 1 \<and> n = 1 \<or> iters = 2 \<and> n = 2"
  shows "\<exists>m t. ext_spu_setup_full gm d iters s = Inr (m, t) \<and> bs m = ids (full_group (l_cmd_id l) n) \<and>
    built (l_spu_id l) g0 u s (full_group (l_cmd_id l) n) t"
proof -
  note e = op_static_dest [OF d]
  let ?b = "l_cmd_id l" and ?out = "spu_dt_out_front_proc gm d g0"
  let ?first = "\<lambda>s. rbind (setup_in gm d g0 ?b [] s) (\<lambda>s. rbind (setup_filter_run gm d g0 (?b + 4) [?b] s)
      (?out (?b + 2) [?b + 4]))"
  let ?second = "\<lambda>s. rbind (setup_in gm d g0 (?b + 3) [?b] s) (\<lambda>s. rbind (setup_filter_run gm d g0 (?b + 1) [?b + 3, ?b + 4] s)
      (?out (?b + 5) [?b + 1, ?b + 2]))"
  have 1: "builds (l_spu_id l) g0 ?first [] (full_group ?b 1)"
    by (intro builds_bind; (rule builds_in [OF d] builds_run [OF d] builds_out [OF d])?)
      (use e(3) in \<open>simp_all add: full_group_def\<close>)
  have 2: "builds (l_spu_id l) g0 ?second (full_group ?b 1) (full_group ?b 2)"
    by (intro builds_bind; (rule builds_in [OF d] builds_run [OF d] builds_out [OF d])?)
      (use e(3) in \<open>simp_all add: full_group_def\<close>)
  have m: "bs (push_bit ?b 21) = {?b, ?b + 2, ?b + 4}" "bs (push_bit ?b 63) = {?b, ?b + 1, ?b + 2, ?b + 3, ?b + 4, ?b + 5}"
    using bs_push_bit [OF e(3), of 21] bs_masks(1) [OF e(3)] by (simp_all add: bs_numerals)
  show ?thesis
  proof (cases "n = 1")
    case True
    then have it: "iters = 1" using n by auto
    from clear_then [OF s 1] obtain t where t: "rbind (spu_clear_group (l_spu_id l) g0 s) ?first = Inr t"
      "built (l_spu_id l) g0 u s (full_group ?b 1) t" by blast
    have "ext_spu_setup_full gm d iters s
        = rbind (rbind (spu_clear_group (l_spu_id l) g0 s) ?first) (\<lambda>s. Inr (push_bit ?b 21, s))"
      using slot_group_eq [OF d, of 0]
      by (simp add: ext_spu_setup_full_def it e setup_out_eq [OF d] slot_gid_def rbind_assoc Let_def del: push_bit_or)
    then show ?thesis using t m(1) True by (auto simp: full_group_def)
  next
    case False
    then have it: "iters = 2" "n = 2" using n by auto
    from clear_then [OF s builds_bind [OF 1 2]] obtain t
      where t: "rbind (spu_clear_group (l_spu_id l) g0 s) (\<lambda>s. rbind (?first s) ?second) = Inr t"
      "built (l_spu_id l) g0 u s (full_group ?b 2) t" by blast
    have "ext_spu_setup_full gm d iters s
        = rbind (rbind (spu_clear_group (l_spu_id l) g0 s) (\<lambda>s. rbind (?first s) ?second)) (\<lambda>s. Inr (push_bit ?b 63, s))"
      using slot_group_eq [OF d, of 0]
      by (simp add: ext_spu_setup_full_def it e setup_out_eq [OF d] slot_gid_def rbind_assoc Let_def del: push_bit_or)
    then show ?thesis using t m(2) it by (auto simp: full_group_def)
  qed
qed

section \<open>Issuing a group\<close>

lemma issue_cmds:
  assumes "ids (map cmd_sig cs) \<inter> (bs issued \<union> bs invalid) = {}" "distinct (map c_id cs)" "\<forall>c\<in>set cs. c_id c < 32"
  shows "\<exists>w. rfold (issue_cmd e invalid) cs issued = Inr w \<and> bs w = bs issued \<union> ids (map cmd_sig cs)"
  using assms
proof (induction cs arbitrary: issued)
  case Nil
  then show ?case by simp
next
  case (Cons c cs)
  let ?i = "issued OR tag_bit (c_id c)"
  have t: "bs (tag_bit (c_id c)) = {c_id c}" using Cons.prems(3) by (simp add: bs_tag_bit)
  have c: "ids (map cmd_sig (c # cs)) = insert (c_id c) (ids (map cmd_sig cs))" "c_id c \<notin> ids (map cmd_sig cs)"
    using Cons.prems(2) by (auto simp: ids_def cmd_sig_def)
  have "(issued OR invalid) AND tag_bit (c_id c) = 0"
    unfolding bs_zero_iff using Cons.prems(1) t c(1) by auto
  then have 1: "issue_cmd e invalid c issued = Inr ?i" by (simp add: issue_cmd_def)
  have "ids (map cmd_sig cs) \<inter> (bs ?i \<union> bs invalid) = {}" using Cons.prems(1) t c by auto
  then obtain w where "rfold (issue_cmd e invalid) cs ?i = Inr w" "bs w = bs ?i \<union> ids (map cmd_sig cs)"
    using Cons.IH [of ?i] Cons.prems(2,3) by auto
  then show ?case using 1 t c(1) by auto
qed

text \<open>An issue of group \<open>gid\<close>, at address \<open>da\<close>, of an operation that owns the IDs.\<close>

lemma issue_int_group:
  assumes u: "get_spu i s = Inr u" and gid: "32 \<le> gid" "gid < 40" "gid < length (i_groups u)"
    and g: "grp_is (i_groups u ! gid) cs" "cs \<noteq> []" "distinct (map fst cs)"
    and own: "ids cs \<subseteq> bs (i_internal u)" "ids cs \<inter> bs (i_issued u) = {}"
    and mb: "length (i_in_mbox u) < 4"
    and lsa: "spu_lsa u da AND 15 = 0" "spu_lsa u da < 2 ^ 18"
  shows "\<exists>w req. spu_issue_int_group i gid da s
      = Inr (put_spu i (u\<lparr>i_issued := w, i_in_mbox := i_in_mbox u @ [req]\<rparr>) s) \<and>
    bs w = bs (i_issued u) \<union> ids cs \<and> unat (cmd_get_req_entry req) = gid"
proof -
  let ?g = "i_groups u ! gid"
  have cs: "map cmd_sig (g_cmds ?g) = cs" using g(1) by (simp add: grp_is_def)
  have dist: "distinct (map c_id (g_cmds ?g))" using g(3) unfolding cs [symmetric] by (simp add: cmd_sig_def o_def)
  have lt: "\<forall>c\<in>set (g_cmds ?g). c_id c < 32"
    using own(1) bs_less unfolding cs [symmetric] by (force simp: cmd_sig_def ids_def)
  have "ids (map cmd_sig (g_cmds ?g)) \<inter> (bs (i_issued u) \<union> bs (NOT (i_internal u))) = {}"
    unfolding cs using own by auto
  from issue_cmds [OF this dist lt, of AssertFail] obtain w
    where w: "rfold (issue_cmd AssertFail (NOT (i_internal u))) (g_cmds ?g) (i_issued u) = Inr w"
      "bs w = bs (i_issued u) \<union> ids cs" unfolding cs by blast
  note sz = grp_is_size [OF g(1)]
  have nz: "g_size ?g \<noteq> 0" using sz(1) g(2) by (cases cs) (auto simp: unat_eq_0 [symmetric])
  have e: "(of_nat gid :: u32) < 40" using gid(2) by (simp add: word_less_nat_alt unat_of_nat)
  have "g_size ?g \<le> 2048" "g_size ?g AND 15 = 0" using sz(3,4) and_15 by (simp_all add: word_le_nat_alt)
  then obtain req where req: "spu_cmd_compose_req (spu_lsa u da) (of_nat gid) (g_size ?g) = Inr req"
    using lsa(1) e nz by (simp add: spu_cmd_compose_req_def)
  have "unat (cmd_get_req_entry req) = gid"
    using request_fields [OF req lsa(2)] gid(2) by (simp add: unat_of_nat)
  moreover have "spu_issue_int_group i gid da s
      = Inr (put_spu i (u\<lparr>i_issued := w, i_in_mbox := i_in_mbox u @ [req]\<rparr>) s)"
    using gid mb nz w(1) req u by (simp add: spu_issue_int_group_def spu_issue_group_def group_count_defs)
  ultimately show ?thesis using w(2) by blast
qed

end
