(* ===== verification/Ext_Rounds.thy ===== *)
theory Ext_Rounds
  imports Ext_Groups
begin

text \<open>
  The phases of an input-run-output operation (\<open>library/cell/src/ppu/extspu.c\<close>) follow the rounds of
  its plan: each turn of the loop over completed groups that finds the IDs it waits for issues the
  group of the next round, and the turn after the last round returns the groups.
\<close>

section \<open>The operation in round \<open>m\<close>\<close>

definition phase_at :: "nat \<Rightarrow> nat \<Rightarrow> ext_spu_data \<Rightarrow> bool" where
  "phase_at n m d \<longleftrightarrow> (if n \<le> 2 then x_phase d = PHASE_CLEANUP else
     x_phase d = (if m = 1 then PHASE_INIT_0 else if m = 2 then PHASE_INIT_1 else if m \<le> n then PHASE_STEADY else PHASE_CLEANUP) \<and>
     x_flip d = push_bit (l_cmd_id (xl d)) 0x3f \<and>
     (m \<le> n \<longrightarrow> x_cur d = slot_of m \<and> unat (x_steady d) = (if m \<le> 2 then n - 2 else n + 1 - m)))"

text \<open>The slot of the group of round \<open>j\<close>; a short operation has one group, in slot 0.\<close>

definition gid_of :: "nat \<Rightarrow> nat \<Rightarrow> nat \<Rightarrow> nat \<Rightarrow> nat" where
  "gid_of g0 g1 n j = (if n \<le> 2 then g0 else slot_gid g0 g1 (slot_of j))"

definition holds :: "spu_info \<Rightarrow> nat \<Rightarrow> sig list \<Rightarrow> bool" where
  "holds u g cs \<longleftrightarrow> grp_is (i_groups u ! g) cs"

definition groups_ok :: "ext_spu_layout \<Rightarrow> nat \<Rightarrow> nat \<Rightarrow> spu_info \<Rightarrow> bool" where
  "groups_ok l g0 g1 u \<longleftrightarrow> g0 \<noteq> g1 \<and> (\<forall>g\<in>{g0, g1}. 32 \<le> g \<and> g < 40 \<and> g < length (i_groups u)) \<and>
     (\<forall>da\<in>{l_da l, l_da l + 256}. spu_lsa u da AND 15 = 0 \<and> spu_lsa u da < 2 ^ 18) \<and>
     bs (push_bit (l_cmd_id l) 0x3f) \<subseteq> bs (i_internal u)"

text \<open>The groups of the last two rounds are intact, and their requests are in the mailbox until read.\<close>

definition issued_ok :: "nat \<Rightarrow> nat \<Rightarrow> nat \<Rightarrow> nat \<Rightarrow> spu_info \<Rightarrow> pipe \<Rightarrow> bool" where
  "issued_ok b g0 g1 n u p \<longleftrightarrow> rounds p \<le> fetched p + 2 \<and>
     map (\<lambda>req. unat (cmd_get_req_entry req)) (i_in_mbox u) = map (gid_of g0 g1 n) [fetched p..<rounds p] \<and>
     (\<forall>j. rounds p \<le> j + 2 \<and> j < max (rounds p) (if n \<le> 2 then 1 else 2) \<longrightarrow> holds u (gid_of g0 g1 n j) (op_group b n j))"

definition core :: "ext_spu_layout \<Rightarrow> ext_spu_rates \<Rightarrow> nat \<Rightarrow> nat \<Rightarrow> nat \<Rightarrow> spu_info \<Rightarrow> ext_spu_data \<Rightarrow> pipe \<Rightarrow> bool" where
  "core l r g0 g1 n u d p \<longleftrightarrow> op_static l r g0 g1 d \<and> groups_ok l g0 g1 u \<and> issued_ok (l_cmd_id l) g0 g1 n u p \<and>
     phase_at n (rounds p) d \<and> bs (x_completed d) = received p \<and> bs (x_waiting d) = op_wait (l_cmd_id l) n (rounds p) \<and>
     bs (i_issued u) = plan.outstanding (l_cmd_id l) n p \<union> unreported p \<union> posted p \<and>
     plan.ok (l_cmd_id l) n p \<and> plan.in_order (l_cmd_id l) n p"

text \<open>What issuing groups leaves as it is.\<close>

definition same_rest :: "spu_info \<Rightarrow> spu_info \<Rightarrow> bool" where
  "same_rest u v \<longleftrightarrow> (\<exists>gs w mb. v = u\<lparr>i_groups := gs, i_issued := w, i_in_mbox := mb\<rparr>)"

lemma same_rest_refl [simp]: "same_rest u u"
  unfolding same_rest_def by (rule exI [of _ "i_groups u"], rule exI [of _ "i_issued u"], rule exI [of _ "i_in_mbox u"]) simp

lemma same_rest_fields:
  assumes "same_rest u v"
  shows "i_ops v = i_ops u" "i_internal v = i_internal u" "i_dt_mask v = i_dt_mask u" "i_out_mbox v = i_out_mbox u"
    "i_free_group v = i_free_group u" "i_next_free v = i_next_free u" "i_completed v = i_completed u"
    "i_data_start v = i_data_start u" "i_complete_cb v = i_complete_cb u"
  using assms by (auto simp: same_rest_def)

lemma same_rest_trans: "same_rest u v \<Longrightarrow> same_rest v w \<Longrightarrow> same_rest u w"
  unfolding same_rest_def by (elim exE, intro exI) simp

lemma finite_received: "core l r g0 g1 n u d p \<Longrightarrow> finite (received p)"
  by (metis core_def finite_bs)

lemma core_dest:
  assumes "core l r g0 g1 n u d p"
  shows "op_static l r g0 g1 d" "groups_ok l g0 g1 u" "issued_ok (l_cmd_id l) g0 g1 n u p" "phase_at n (rounds p) d"
    "bs (x_completed d) = received p" "bs (x_waiting d) = op_wait (l_cmd_id l) n (rounds p)"
    "bs (i_issued u) = plan.outstanding (l_cmd_id l) n p \<union> unreported p \<union> posted p"
    "plan.ok (l_cmd_id l) n p" "plan.in_order (l_cmd_id l) n p"
  using assms by (simp_all add: core_def)

section \<open>A round is over only after the SPU has read the group before\<close>

lemma wait_meets:
  assumes "3 \<le> n" "2 \<le> m" "m \<le> n"
  shows "op_wait b n m \<inter> ids (op_group b n (m - 2)) \<noteq> {}"
proof (cases "m = 2")
  case True
  then show ?thesis using assms by (simp add: op_wait_cases op_group_cases init_group_def)
next
  case False
  then have m: "3 \<le> m" using assms(2) by simp
  then have "op_wait b n m = ids (steady_group b (slot_of m))" using op_wait_cases(3) assms by blast
  moreover have "slot_of m = 0 \<or> slot_of m = Suc 0" by (simp add: slot_of_def)
  ultimately have "op_wait b n m \<noteq> {}" by auto
  then show ?thesis using op_wait_steady [OF assms(1) m assms(3)] by simp
qed

lemma unfetched_ids: "fetched p \<le> j \<Longrightarrow> j < rounds p \<Longrightarrow> ids (op_group b n j) \<subseteq> plan.outstanding b n p"
proof -
  assume "fetched p \<le> j" "j < rounds p"
  then have "set (op_group b n j) \<subseteq> set (plan.unfetched b n p)" by (auto simp: plan.unfetched_def)
  then show ?thesis by (auto simp: plan.outstanding_def ids_def)
qed

lemma round_over_fetched:
  assumes ok: "plan.ok b n p" and w: "op_wait b n (rounds p) \<subseteq> received p" and n: "3 \<le> n" "rounds p \<le> n"
  shows "rounds p \<le> Suc (fetched p)"
proof (rule ccontr)
  assume c: "\<not> rounds p \<le> Suc (fetched p)"
  then have m: "2 \<le> rounds p" "fetched p \<le> rounds p - 2" "rounds p - 2 < rounds p" by simp_all
  have "ids (op_group b n (rounds p - 2)) \<subseteq> plan.outstanding b n p" by (rule unfetched_ids [OF m(2,3)])
  then show False using wait_meets [OF n(1) m(1) n(2), of b] plan.ok_parts(8) [OF ok] w by (auto simp: disjnt_def)
qed


section \<open>Issuing the group of a round\<close>

definition next_round :: "nat \<Rightarrow> nat \<Rightarrow> pipe \<Rightarrow> pipe" where
  "next_round b n p = p\<lparr>rounds := Suc (rounds p), received := received p - op_wait b n (rounds p)\<rparr>"

lemma op_static_updates [simp]:
  "op_static l r g0 g1 (d\<lparr>x_completed := c\<rparr>) = op_static l r g0 g1 d"
  "op_static l r g0 g1 (d\<lparr>x_waiting := c\<rparr>) = op_static l r g0 g1 d"
  "op_static l r g0 g1 (d\<lparr>x_phase := k\<rparr>) = op_static l r g0 g1 d"
  "op_static l r g0 g1 (d\<lparr>x_cur := k\<rparr>) = op_static l r g0 g1 d"
  "op_static l r g0 g1 (d\<lparr>x_steady := c\<rparr>) = op_static l r g0 g1 d"
  "op_static l r g0 g1 (d\<lparr>x_flip := c\<rparr>) = op_static l r g0 g1 d"
  by (simp_all add: op_static_def)

lemma put_same_spu: "get_spu i s = Inr u \<Longrightarrow> put_spu i u s = s"
  by (auto simp: get_spu_def put_spu_def res_simps)

lemma built_held:
  assumes "get_spu i s = Inr u" "g < length (i_groups u)" "holds u g cs"
  shows "built i g u s cs s"
  unfolding built_def using assms
  by (intro conjI exI [of _ "i_groups u ! g"]) (simp_all add: set_group_def put_same_spu holds_def)

lemma gid_of_cases: "gid_of g0 g1 n j = g0 \<or> gid_of g0 g1 n j = g1"
  by (simp add: gid_of_def slot_gid_def)

lemma gid_of_next: "3 \<le> n \<Longrightarrow> g0 \<noteq> g1 \<Longrightarrow> gid_of g0 g1 n (Suc j) \<noteq> gid_of g0 g1 n j"
  by (simp add: gid_of_def slot_gid_def slot_of_def)

lemma group_okD: "groups_ok l g0 g1 u \<Longrightarrow> g = g0 \<or> g = g1 \<Longrightarrow> 32 \<le> g \<and> g < 40 \<and> g < length (i_groups u)"
  by (auto simp: groups_ok_def)

lemma slot_address: "k \<le> 1 \<Longrightarrow> op_static l r g0 g1 d \<Longrightarrow>
  index_res (x_slots d) k = Inr (slot_gid g0 g1 k, if k = 0 then l_da l else l_da l + 256)"
  by (cases k) (auto simp: op_static_def slot_gid_def)

lemma issue_round:
  assumes c: "core l r g0 g1 n u d0 p" and n: "3 \<le> n" "rounds p \<le> n"
    and w: "op_wait (l_cmd_id l) n (rounds p) \<subseteq> received p"
    and t: "get_spu (l_spu_id l) s = Inr u"
      "built (l_spu_id l) (gid_of g0 g1 n (rounds p)) u s (op_group (l_cmd_id l) n (rounds p)) t"
    and d: "op_static l r g0 g1 d" "x_cur d = slot_of (rounds p)"
      "bs (x_completed d) = received p - op_wait (l_cmd_id l) n (rounds p)"
      "bs (x_waiting d) = op_wait (l_cmd_id l) n (Suc (rounds p))"
      "phase_at n (Suc (rounds p)) (d\<lparr>x_cur := x_cur d XOR 1\<rparr>)"
  shows "\<exists>u'. issue_current d t = Inr (False, d\<lparr>x_cur := x_cur d XOR 1\<rparr>, put_spu (l_spu_id l) u' s) \<and> same_rest u u' \<and>
    core l r g0 g1 n u' (d\<lparr>x_cur := x_cur d XOR 1\<rparr>) (next_round (l_cmd_id l) n p)"
proof -
  note k = core_dest [OF c]
  let ?b = "l_cmd_id l" and ?m = "rounds p" and ?gid = "gid_of g0 g1 n (rounds p)"
  note ok = plan.ok_parts [OF k(8)]
  obtain g where g: "t = put_spu (l_spu_id l) (set_group ?gid g u) s" "grp_is g (op_group ?b n ?m)" "?gid < length (i_groups u)"
    using t(2) unfolding built_def by blast
  let ?v = "set_group ?gid g u"
  have gt: "get_spu (l_spu_id l) t = Inr ?v" using t(1) get_put_same unfolding g(1) by blast
  have gid: "32 \<le> ?gid" "?gid < 40" "?gid < length (i_groups ?v)"
    using group_okD [OF k(2) gid_of_cases] by (simp_all add: set_group_def)
  have vg: "grp_is (i_groups ?v ! ?gid) (op_group ?b n ?m)" using g by (simp add: set_group_def)
  have ne: "op_group ?b n ?m \<noteq> []"
    using n ok(1) by (cases "?m = n - 1"; cases "?m = n") (auto simp: op_group_def steady_group_def Let_def)
  let ?O = "plan.outstanding ?b n p \<union> unreported p \<union> posted p"
  have fresh: "ids (op_group ?b n ?m) \<inter> bs (i_issued ?v) = {}"
    using plan.round_fresh [OF k(8) w] n k(7) by (simp add: set_group_def op_rounds_def)
  have own: "ids (op_group ?b n ?m) \<subseteq> bs (i_internal ?v)"
  proof -
    have "ids (op_group ?b n ?m) \<subseteq> ids (steady_group ?b (slot_of ?m))" using op_group_ids n ok(1) by blast
    also have "\<dots> \<subseteq> bs (push_bit ?b 0x3f)"
      using op_static_dest(3) [OF k(1)] by (auto simp: slot_of_def bs_masks)
    finally show ?thesis using k(2) by (auto simp: groups_ok_def set_group_def)
  qed
  have fe: "?m \<le> Suc (fetched p)" by (rule round_over_fetched [OF k(8) w n])
  have mb: "length (i_in_mbox ?v) < 4"
  proof -
    have "length (i_in_mbox u) = ?m - fetched p" using k(3) unfolding issued_ok_def by (metis length_map length_upt)
    then show ?thesis using fe by (simp add: set_group_def)
  qed
  let ?da = "if x_cur d = 0 then l_da l else l_da l + 256"
  have da: "spu_lsa ?v ?da AND 15 = 0" "spu_lsa ?v ?da < 2 ^ 18"
    using k(2) by (simp_all add: groups_ok_def spu_lsa_def set_group_def)
  obtain w' req where iss: "spu_issue_int_group (l_spu_id l) ?gid ?da t
      = Inr (put_spu (l_spu_id l) (?v\<lparr>i_issued := w', i_in_mbox := i_in_mbox ?v @ [req]\<rparr>) t)"
    "bs w' = bs (i_issued ?v) \<union> ids (op_group ?b n ?m)" "unat (cmd_get_req_entry req) = ?gid"
    using issue_int_group [OF gt gid vg ne plan.grp_distinct own fresh mb da] by blast
  let ?u = "?v\<lparr>i_issued := w', i_in_mbox := i_in_mbox ?v @ [req]\<rparr>"
  have "slot_of ?m \<le> 1" by (simp add: slot_of_def)
  then have "issue_current d t = Inr (False, d\<lparr>x_cur := x_cur d XOR 1\<rparr>, put_spu (l_spu_id l) ?u t)"
    using iss(1) slot_address [OF _ d(1), of "slot_of ?m"] d n by (simp add: issue_current_def op_static_dest [OF d(1)] gid_of_def)
  moreover have "same_rest u ?u" unfolding same_rest_def set_group_def by (intro exI) simp
  moreover have "core l r g0 g1 n ?u (d\<lparr>x_cur := x_cur d XOR 1\<rparr>) (next_round ?b n p)"
    unfolding core_def
  proof (intro conjI)
    show "groups_ok l g0 g1 ?u" using k(2) by (simp add: groups_ok_def set_group_def spu_lsa_def)
    have other: "holds u (gid_of g0 g1 n (?m - 1)) (op_group ?b n (?m - 1))" "gid_of g0 g1 n (?m - 1) \<noteq> ?gid"
      using k(2,3) ok(1) n gid_of_next [of n g0 g1 "?m - 1"] by (auto simp: issued_ok_def groups_ok_def)
    show "issued_ok ?b g0 g1 n ?u (next_round ?b n p)"
      unfolding issued_ok_def
    proof (intro conjI allI impI)
      show "map (\<lambda>req. unat (cmd_get_req_entry req)) (i_in_mbox ?u)
          = map (gid_of g0 g1 n) [fetched (next_round ?b n p)..<rounds (next_round ?b n p)]"
        using k(3) iss(3) ok(3) by (simp add: issued_ok_def next_round_def set_group_def)
    next
      fix j assume "rounds (next_round ?b n p) \<le> j + 2 \<and> j < max (rounds (next_round ?b n p)) (if n \<le> 2 then 1 else 2)"
      then have "j = ?m \<or> j = ?m - 1" using ok(1) n by (auto simp: next_round_def max_def split: if_splits)
      then show "holds ?u (gid_of g0 g1 n j) (op_group ?b n j)"
        using vg other by (auto simp: holds_def set_group_def)
    qed (use fe in \<open>simp add: next_round_def\<close>)
    show "bs (i_issued ?u) = plan.outstanding ?b n (next_round ?b n p) \<union> unreported (next_round ?b n p) \<union> posted (next_round ?b n p)"
      using iss(2) k(7) ok(3)
      by (auto simp: next_round_def plan.outstanding_def plan.unfetched_def set_group_def)
    show "plan.ok ?b n (next_round ?b n p)" "plan.in_order ?b n (next_round ?b n p)"
      unfolding next_round_def using plan.round_ok [OF k(8,9) w] n by (simp_all add: op_rounds_def)
  qed (use d in \<open>simp_all add: next_round_def\<close>)
  ultimately show ?thesis using g(1) by auto
qed


section \<open>Turns of the loop over completed groups\<close>

text \<open>The goal of each phase: the turn issues the group of the next round.\<close>

definition turns :: "group_mem \<Rightarrow> ext_spu_layout \<Rightarrow> ext_spu_rates \<Rightarrow> nat \<Rightarrow> nat \<Rightarrow> nat \<Rightarrow> spu_info \<Rightarrow> ext_spu_data \<Rightarrow> pipe
    \<Rightarrow> ('d, 'c) ppu \<Rightarrow> bool" where
  "turns gm l r g0 g1 n u d p s \<longleftrightarrow> (\<exists>d' u'. phase_step gm d s = Inr (False, d', put_spu (l_spu_id l) u' s) \<and>
     same_rest u u' \<and> core l r g0 g1 n u' d' (next_round (l_cmd_id l) n p))"

lemma bs_waited: "core l r g0 g1 n u d p \<Longrightarrow> bs (x_completed d AND NOT (x_waiting d)) = received p - op_wait (l_cmd_id l) n (rounds p)"
  by (metis bs_simps(5) core_dest(5,6))

lemma turn_init_0:
  assumes c: "core l r g0 g1 n u d p" and n: "3 \<le> n" "rounds p = 1" and s: "get_spu (l_spu_id l) s = Inr u"
    and w: "op_wait (l_cmd_id l) n (rounds p) \<subseteq> received p"
  shows "turns gm l r g0 g1 n u d p s"
proof -
  note k = core_dest [OF c] and e = op_static_dest [OF core_dest(1) [OF c]]
  let ?b = "l_cmd_id l" and ?d = "d\<lparr>x_completed := x_completed d AND NOT (x_waiting d), x_phase := PHASE_INIT_1, x_waiting := push_bit (l_cmd_id l) 0x18\<rparr>"
  have ph: "x_phase d = PHASE_INIT_0" "x_flip d = push_bit ?b 0x3f" "x_cur d = 0" "unat (x_steady d) = n - 2"
    using k(4) n e(1) by (simp_all add: phase_at_def slot_of_def)
  have h: "built (l_spu_id l) (gid_of g0 g1 n (rounds p)) u s (op_group ?b n (rounds p)) s"
    using k(3) n group_okD [OF k(2) gid_of_cases] by (intro built_held [OF s]) (simp_all add: issued_ok_def)
  have "\<exists>u'. issue_current ?d s = Inr (False, ?d\<lparr>x_cur := x_cur ?d XOR 1\<rparr>, put_spu (l_spu_id l) u' s) \<and> same_rest u u' \<and>
      core l r g0 g1 n u' (?d\<lparr>x_cur := x_cur ?d XOR 1\<rparr>) (next_round ?b n p)"
  proof (rule issue_round [OF c n(1) _ w s h])
    show "bs (x_completed ?d) = received p - op_wait ?b n (rounds p)" using bs_waited [OF c] by simp
    show "bs (x_waiting ?d) = op_wait ?b n (Suc (rounds p))"
      using n op_wait_cases(2) [OF n(1), of ?b] bs_masks(2) [OF e(3)] by (simp add: numeral_2_eq_2)
    show "phase_at n (Suc (rounds p)) (?d\<lparr>x_cur := x_cur ?d XOR 1\<rparr>)" using n ph e(1) by (simp add: phase_at_def slot_of_def)
  qed (use k(1) n ph in \<open>simp_all add: slot_of_def\<close>)
  moreover have "phase_step gm d s = issue_current ?d s"
    using ph e by (simp add: phase_step_def Let_def)
  ultimately show ?thesis unfolding turns_def by auto
qed

lemma turn_init_1:
  assumes c: "core l r g0 g1 n u d p" and n: "3 \<le> n" "rounds p = 2" and s: "get_spu (l_spu_id l) s = Inr u"
    and w: "op_wait (l_cmd_id l) n (rounds p) \<subseteq> received p"
  shows "turns gm l r g0 g1 n u d p s"
proof -
  note k = core_dest [OF c] and e = op_static_dest [OF core_dest(1) [OF c]]
  let ?b = "l_cmd_id l" and ?d1 = "d\<lparr>x_completed := x_completed d AND NOT (x_waiting d)\<rparr>"
  let ?d = "?d1\<lparr>x_phase := PHASE_STEADY, x_waiting := x_flip d AND push_bit (l_cmd_id l) 7\<rparr>"
  have ph: "x_phase d = PHASE_INIT_1" "x_flip d = push_bit ?b 0x3f" "x_cur d = 1" "unat (x_steady d) = n - 2"
    using k(4) n e(1) by (simp_all add: phase_at_def slot_of_def)
  have st: "op_static l r g0 g1 ?d1" "x_cur ?d1 = 1" using k(1) ph by simp_all
  have g: "slot_gid g0 g1 1 < length (i_groups u)" "gid_of g0 g1 n (rounds p) = slot_gid g0 g1 1"
    using group_okD [OF k(2), of g1] n by (simp_all add: gid_of_def slot_of_def slot_gid_def)
  have steady: "x_steady d = 1 \<longleftrightarrow> n = 3" using ph(4) n(1) by (auto simp: word_unat_eq_iff)
  have "\<exists>t. phase_step gm d s = issue_current ?d t \<and>
      built (l_spu_id l) (gid_of g0 g1 n (rounds p)) u s (op_group ?b n (rounds p)) t"
  proof (cases "n = 3")
    case True
    obtain t where "ext_spu_setup_cleanup_0 gm ?d1 s = Inr t" "built (l_spu_id l) (slot_gid g0 g1 1) u s (tl (steady_group ?b 1)) t"
      using built_cleanup_0 [OF st(1) s g(1) order_refl st(2)] by blast
    then show ?thesis using ph e n True steady op_group_cases(3) [OF n(1), of ?b] unfolding g(2)
      by (auto simp: phase_step_def phase_init_1_def phase_defs slot_of_def Let_def)
  next
    case False
    obtain t where "ext_spu_setup_steady gm ?d1 1 s = Inr t" "built (l_spu_id l) (slot_gid g0 g1 1) u s (steady_group ?b 1) t"
      using built_steady [OF st(1) s g(1) order_refl] by blast
    then show ?thesis using ph e n False steady op_group_cases(2) [OF n(1), of 2 ?b] unfolding g(2)
      by (auto simp: phase_step_def phase_init_1_def phase_defs slot_of_def Let_def)
  qed
  then obtain t where t: "phase_step gm d s = issue_current ?d t"
    "built (l_spu_id l) (gid_of g0 g1 n (rounds p)) u s (op_group ?b n (rounds p)) t" by blast
  have "\<exists>u'. issue_current ?d t = Inr (False, ?d\<lparr>x_cur := x_cur ?d XOR 1\<rparr>, put_spu (l_spu_id l) u' s) \<and> same_rest u u' \<and>
      core l r g0 g1 n u' (?d\<lparr>x_cur := x_cur ?d XOR 1\<rparr>) (next_round ?b n p)"
  proof (rule issue_round [OF c n(1) _ w s t(2)])
    show "bs (x_completed ?d) = received p - op_wait ?b n (rounds p)" using bs_waited [OF c] by simp
    show "bs (x_waiting ?d) = op_wait ?b n (Suc (rounds p))"
      using n op_wait_cases(3) [OF n(1), of 3 ?b] bs_masks [OF e(3)] ph(2) by (simp add: slot_of_def)
    show "phase_at n (Suc (rounds p)) (?d\<lparr>x_cur := x_cur ?d XOR 1\<rparr>)" using n ph e(1) by (simp add: phase_at_def slot_of_def)
  qed (use k(1) n ph in \<open>simp_all add: slot_of_def\<close>)
  then show ?thesis using t(1) unfolding turns_def by auto
qed


lemma turn_steady:
  assumes c: "core l r g0 g1 n u d p" and n: "3 \<le> n" "3 \<le> rounds p" "rounds p < n" and s: "get_spu (l_spu_id l) s = Inr u"
    and w: "op_wait (l_cmd_id l) n (rounds p) \<subseteq> received p"
  shows "turns gm l r g0 g1 n u d p s"
proof -
  note k = core_dest [OF c] and e = op_static_dest [OF core_dest(1) [OF c]]
  let ?b = "l_cmd_id l" and ?m = "rounds p" and ?k = "slot_of (rounds p)"
  let ?d1 = "d\<lparr>x_completed := x_completed d AND NOT (x_waiting d), x_steady := x_steady d - 1\<rparr>"
  let ?d = "?d1\<lparr>x_waiting := x_waiting d XOR x_flip d\<rparr>"
  have ph: "x_phase d = PHASE_STEADY" "x_flip d = push_bit ?b 0x3f" "x_cur d = ?k" "unat (x_steady d) = n + 1 - ?m"
    using k(4) n e(1) by (simp_all add: phase_at_def)
  have k1: "?k \<le> 1" and g: "slot_gid g0 g1 ?k < length (i_groups u)" "gid_of g0 g1 n ?m = slot_gid g0 g1 ?k"
    using group_okD [OF k(2)] n by (simp_all add: gid_of_def slot_of_def slot_gid_def)
  have st: "unat (x_steady d - 1) = n - ?m"
    using ph(4) n by (simp add: unat_sub word_le_nat_alt)
  then have steady: "x_steady d - 1 \<noteq> 0" "x_steady d - 1 = 1 \<longleftrightarrow> ?m = n - 1"
    using n by (auto simp: word_unat_eq_iff)
  have "\<exists>t. phase_step gm d s = issue_current ?d t \<and>
      built (l_spu_id l) (gid_of g0 g1 n ?m) u s (op_group ?b n ?m) t"
  proof (cases "?m = n - 1")
    case True
    have "op_static l r g0 g1 ?d" "x_cur ?d = ?k" using k(1) ph by simp_all
    from built_cleanup_0 [OF this(1) s g(1) k1 this(2)]
    obtain t where t: "ext_spu_setup_cleanup_0 gm ?d s = Inr t" "built (l_spu_id l) (slot_gid g0 g1 ?k) u s (tl (steady_group ?b ?k)) t"
      by blast
    have "phase_step gm d s = issue_current ?d t"
      using ph e True steady t(1) by (simp add: phase_step_def phase_steady_def phase_defs Let_def)
    then show ?thesis using t(2) True op_group_cases(3) [OF n(1), of ?b] unfolding g(2) by auto
  next
    case False
    have "holds u (gid_of g0 g1 n (?m - 2)) (op_group ?b n (?m - 2))" using k(3) n by (simp add: issued_ok_def)
    moreover have "gid_of g0 g1 n (?m - 2) = gid_of g0 g1 n ?m" "op_group ?b n (?m - 2) = op_group ?b n ?m"
      using n False by (auto simp: gid_of_def op_group_cases slot_of_def)
    ultimately have "built (l_spu_id l) (gid_of g0 g1 n ?m) u s (op_group ?b n ?m) s"
      using built_held [OF s, of "gid_of g0 g1 n ?m"] g by simp
    moreover have "phase_step gm d s = issue_current ?d s"
      using ph e False steady by (simp add: phase_step_def phase_steady_def phase_defs Let_def)
    ultimately show ?thesis by blast
  qed
  then obtain t where t: "phase_step gm d s = issue_current ?d t" "built (l_spu_id l) (gid_of g0 g1 n ?m) u s (op_group ?b n ?m) t"
    by blast
  have "\<exists>u'. issue_current ?d t = Inr (False, ?d\<lparr>x_cur := x_cur ?d XOR 1\<rparr>, put_spu (l_spu_id l) u' s) \<and> same_rest u u' \<and>
      core l r g0 g1 n u' (?d\<lparr>x_cur := x_cur ?d XOR 1\<rparr>) (next_round ?b n p)"
  proof (rule issue_round [OF c n(1) _ w s t(2)])
    show "bs (x_completed ?d) = received p - op_wait ?b n ?m" using bs_waited [OF c] by simp
    have "bs (x_waiting ?d) = bs (push_bit ?b 0x3f) - op_wait ?b n ?m"
      using k(6) op_wait_cases(3) [OF n(1,2), of ?b] n bs_masks(1) [OF e(3)] by (auto simp: ph(2) slot_of_def)
    also have "\<dots> = op_wait ?b n (Suc ?m)"
      using op_wait_cases(3) [OF n(1), of _ ?b] n bs_masks(1) [OF e(3)] by (auto simp: slot_of_def)
    finally show "bs (x_waiting ?d) = op_wait ?b n (Suc ?m)" .
    show "phase_at n (Suc ?m) (?d\<lparr>x_cur := x_cur ?d XOR 1\<rparr>)"
      using n ph e(1) st by (auto simp: phase_at_def slot_of_def)
  qed (use k(1) n ph in \<open>simp_all\<close>)
  then show ?thesis using t(1) unfolding turns_def by auto
qed

lemma turn_cleanup:
  assumes c: "core l r g0 g1 n u d p" and n: "3 \<le> n" "rounds p = n" and s: "get_spu (l_spu_id l) s = Inr u"
    and w: "op_wait (l_cmd_id l) n (rounds p) \<subseteq> received p"
  shows "turns gm l r g0 g1 n u d p s"
proof -
  note k = core_dest [OF c] and e = op_static_dest [OF core_dest(1) [OF c]]
  let ?b = "l_cmd_id l" and ?k = "slot_of n"
  let ?d1 = "d\<lparr>x_completed := x_completed d AND NOT (x_waiting d), x_steady := x_steady d - 1\<rparr>"
  have ph: "x_phase d = PHASE_STEADY" "x_flip d = push_bit ?b 0x3f" "x_cur d = ?k" "unat (x_steady d) = 1"
    using k(4) n e(1) by (simp_all add: phase_at_def)
  have k1: "?k \<le> 1" and g: "slot_gid g0 g1 ?k < length (i_groups u)" "gid_of g0 g1 n n = slot_gid g0 g1 ?k"
    using group_okD [OF k(2)] n by (simp_all add: gid_of_def slot_of_def slot_gid_def)
  have st: "x_steady d = 1" using ph(4) by (simp add: word_unat_eq_iff)
  have "op_static l r g0 g1 ?d1" "x_cur ?d1 = ?k" using k(1) ph by simp_all
  from built_cleanup_1 [OF this(1) s g(1) k1 this(2)] obtain w' t where t: "ext_spu_setup_cleanup_1 gm ?d1 s = Inr (w', t)"
    "bs w' = ids (tl (steady_group ?b (1 - ?k))) \<union> ids (tl (tl (steady_group ?b ?k)))"
    "built (l_spu_id l) (slot_gid g0 g1 ?k) u s (tl (tl (steady_group ?b ?k))) t" by blast
  let ?d = "?d1\<lparr>x_phase := PHASE_CLEANUP, x_waiting := w'\<rparr>"
  have step: "phase_step gm d s = issue_current ?d t"
    using ph e t(1) st by (simp add: phase_step_def phase_steady_def phase_defs Let_def)
  have b: "built (l_spu_id l) (gid_of g0 g1 n (rounds p)) u s (op_group ?b n (rounds p)) t"
    using t(3) op_group_cases(4) [OF n(1), of ?b] n g(2) by simp
  have "\<exists>u'. issue_current ?d t = Inr (False, ?d\<lparr>x_cur := x_cur ?d XOR 1\<rparr>, put_spu (l_spu_id l) u' s) \<and> same_rest u u' \<and>
      core l r g0 g1 n u' (?d\<lparr>x_cur := x_cur ?d XOR 1\<rparr>) (next_round ?b n p)"
  proof (rule issue_round [OF c n(1) _ w s b])
    show "bs (x_completed ?d) = received p - op_wait ?b n (rounds p)" using bs_waited [OF c] by simp
    have "slot_of (n - 1) = 1 - ?k" using n(1) by (auto simp: slot_of_def)
    then show "bs (x_waiting ?d) = op_wait ?b n (Suc (rounds p))"
      using n(2) op_wait_cases(4) [OF n(1), of ?b] op_group_cases(3,4) [OF n(1), of ?b] by (simp add: t(2))
    show "phase_at n (Suc (rounds p)) (?d\<lparr>x_cur := x_cur ?d XOR 1\<rparr>)"
      using n ph e(1) by (simp add: phase_at_def)
  qed (use k(1) n ph in \<open>simp_all\<close>)
  then show ?thesis using step unfolding turns_def by auto
qed

lemma turn:
  assumes c: "core l r g0 g1 n u d p" and m: "rounds p < op_rounds n" and s: "get_spu (l_spu_id l) s = Inr u"
    and w: "op_wait (l_cmd_id l) n (rounds p) \<subseteq> received p"
  shows "turns gm l r g0 g1 n u d p s"
proof -
  have p: "0 < rounds p" using plan.ok_parts(1) core_dest(8) [OF c] by blast
  then have n: "3 \<le> n" "rounds p \<le> n" using m by (simp_all add: op_rounds_def split: if_splits)
  consider "rounds p = 1" | "rounds p = 2" | "3 \<le> rounds p" "rounds p < n" | "rounds p = n"
    using p n(2) by linarith
  then show ?thesis
  proof cases
    case 1
    then show ?thesis using turn_init_0 [OF c n(1) _ s w] by blast
  next
    case 2
    then show ?thesis using turn_init_1 [OF c n(1) _ s w] by blast
  next
    case 3
    then show ?thesis using turn_steady [OF c n(1) _ _ s w] by blast
  next
    case 4
    then show ?thesis using turn_cleanup [OF c n(1) _ s w] by blast
  qed
qed


text \<open>After the last round both groups go back to the list of free ones.\<close>

definition returned :: "nat \<Rightarrow> nat \<Rightarrow> spu_info \<Rightarrow> spu_info" where
  "returned g0 g1 u = u\<lparr>i_next_free := (i_next_free u)(g0 := i_free_group u, g1 := Some g0), i_free_group := Some g1\<rparr>"

lemma last_turn:
  assumes c: "core l r g0 g1 n u d p" and m: "rounds p = op_rounds n" and s: "get_spu (l_spu_id l) s = Inr u"
  shows "\<exists>d'. phase_step gm d s = Inr (True, d', put_spu (l_spu_id l) (returned g0 g1 u) s)"
proof -
  note k = core_dest [OF c] and e = op_static_dest [OF core_dest(1) [OF c]]
  let ?d = "d\<lparr>x_completed := x_completed d AND NOT (x_waiting d)\<rparr>"
  have ph: "x_phase d = PHASE_CLEANUP" using k(4) m by (auto simp: phase_at_def op_rounds_def split: if_splits)
  have sl: "slot_group ?d 0 = Inr g0" "slot_group ?d 1 = Inr g1" using e by (simp_all add: slot_group_def)
  have "phase_cleanup ?d s = Inr (True, ?d, put_spu (l_spu_id l) (returned g0 g1 u) s)"
    using s get_put_same [OF s] sl by (simp add: phase_cleanup_def e(1) spu_free_int_group_def upd_spu_def returned_def)
  then show ?thesis using ph by (auto simp: phase_step_def phase_defs Let_def)
qed

text \<open>The IDs of an operation.\<close>

lemma op_ids_bounds:
  "ids (init_group b) \<subseteq> {b..<b + 6}" "k \<le> 1 \<Longrightarrow> ids (steady_group b k) \<subseteq> {b..<b + 6}" "ids (full_group b n) \<subseteq> {b..<b + 6}"
  by (auto simp: init_group_def steady_group_def full_group_def Let_def)

lemma op_group_bounds: "ids (op_group b n j) \<subseteq> {b..<b + 6}"
proof -
  have "ids (drop k (steady_group b (slot_of j))) \<subseteq> {b..<b + 6}" for k
    by (rule order_trans [OF ids_drop op_ids_bounds(2) [OF slot_of_other(2)]])
  then show ?thesis using op_ids_bounds(1,3) by (simp add: op_group_def)
qed

lemma op_wait_bounds: "op_wait b n m \<subseteq> {b..<b + 6}"
  using op_ids_bounds(2) [OF slot_of_other(2), of b m] op_ids_bounds(3) [of b n] op_group_bounds [of b n]
  by (auto simp: op_wait_def)

lemma op_live_bounds: "plan.live b n m \<subseteq> {b..<b + 6}"
  using op_group_bounds op_wait_bounds by (auto simp: plan.live_def)

lemma op_group_nonempty: "j < op_rounds n \<Longrightarrow> op_group b n j \<noteq> []"
  by (auto simp: op_rounds_def op_group_def full_group_def init_group_def steady_group_def Let_def split: if_splits)

lemma received_bounds: "plan.ok b n p \<Longrightarrow> received p \<subseteq> {b..<b + 6}"
  using plan.ok_parts(4) [of b n p] op_live_bounds [of b n "rounds p"] by blast

lemma core_steps: "core l r g0 g1 n u d p \<Longrightarrow> card (received p) < 7"
proof -
  assume "core l r g0 g1 n u d p"
  then have "card (received p) \<le> card {l_cmd_id l..<l_cmd_id l + 6}"
    using received_bounds [OF core_dest(8)] by (intro card_mono) simp_all
  then show ?thesis by simp
qed

section \<open>The loop over completed groups\<close>

definition advanced :: "pipe \<Rightarrow> pipe \<Rightarrow> bool" where
  "advanced p p' \<longleftrightarrow> fetched p' = fetched p \<and> spec p' = spec p \<and> kind_of p' = kind_of p \<and>
     unreported p' = unreported p \<and> posted p' = posted p \<and> history p' = history p"

text \<open>The loop stops before a round that is not over, or after the last one.\<close>

definition settles :: "ext_spu_layout \<Rightarrow> ext_spu_rates \<Rightarrow> nat \<Rightarrow> nat \<Rightarrow> nat \<Rightarrow> spu_info \<Rightarrow> pipe \<Rightarrow> ('d, 'c) ppu
    \<Rightarrow> (bool \<times> ext_spu_data \<times> ('d, 'c) ppu) res \<Rightarrow> bool" where
  "settles l r g0 g1 n u p s res \<longleftrightarrow> (\<exists>fin d' e u' p'. same_rest u u' \<and> core l r g0 g1 n u' e p' \<and> advanced p p' \<and>
     (if fin then rounds p' = op_rounds n \<and> op_wait (l_cmd_id l) n (rounds p') \<subseteq> received p' \<and>
        res = Inr (True, d', put_spu (l_spu_id l) (returned g0 g1 u') s)
      else \<not> op_wait (l_cmd_id l) n (rounds p') \<subseteq> received p' \<and> e = d' \<and> res = Inr (False, d', put_spu (l_spu_id l) u' s)))"

lemma settles_from:
  assumes "settles l r g0 g1 n v q (put_spu (l_spu_id l) v s) res" "same_rest u v" "\<And>p'. advanced q p' \<Longrightarrow> advanced p p'"
  shows "settles l r g0 g1 n u p s res"
proof -
  obtain fin d' e u' p' where h: "same_rest v u'" "core l r g0 g1 n u' e p'" "advanced q p'"
    "if fin then rounds p' = op_rounds n \<and> op_wait (l_cmd_id l) n (rounds p') \<subseteq> received p' \<and>
        res = Inr (True, d', put_spu (l_spu_id l) (returned g0 g1 u') s)
      else \<not> op_wait (l_cmd_id l) n (rounds p') \<subseteq> received p' \<and> e = d' \<and> res = Inr (False, d', put_spu (l_spu_id l) u' s)"
    using assms(1) unfolding settles_def put_put_spu by blast
  show ?thesis unfolding settles_def
    by (intro exI conjI, rule same_rest_trans [OF assms(2) h(1)], rule h(2), rule assms(3) [OF h(3)], rule h(4))
qed

lemma phase_loop_settles:
  assumes "core l r g0 g1 n u d p" "get_spu (l_spu_id l) s = Inr u" "card (received p) < k"
  shows "settles l r g0 g1 n u p s (phase_loop gm k d s)"
  using assms
proof (induction k arbitrary: u d p s)
  case 0
  then show ?case by simp
next
  case (Suc k)
  let ?W = "op_wait (l_cmd_id l) n (rounds p)" and ?i = "l_spu_id l"
  have over: "x_completed d AND x_waiting d = x_waiting d \<longleftrightarrow> ?W \<subseteq> received p"
    using core_dest(5,6) [OF Suc.prems(1)] by (simp add: bs_subset_iff)
  note ok = core_dest(8) [OF Suc.prems(1)]
  consider "\<not> ?W \<subseteq> received p" | "?W \<subseteq> received p" "rounds p = op_rounds n" | "?W \<subseteq> received p" "rounds p < op_rounds n"
    using plan.ok_parts(2) [OF ok] by linarith
  then show ?case
  proof cases
    case 1
    then have "phase_loop gm (Suc k) d s = Inr (False, d, put_spu ?i u s)" using over put_same_spu [OF Suc.prems(2)] by simp
    then show ?thesis unfolding settles_def using Suc.prems(1) 1
      by (intro exI [of _ False] exI [of _ d] exI [of _ u] exI [of _ p]) (simp add: advanced_def)
  next
    case 2
    obtain d' where "phase_step gm d s = Inr (True, d', put_spu ?i (returned g0 g1 u) s)"
      using last_turn [OF Suc.prems(1) 2(2) Suc.prems(2)] by blast
    then have "phase_loop gm (Suc k) d s = Inr (True, d', put_spu ?i (returned g0 g1 u) s)" using over 2 by simp
    then show ?thesis unfolding settles_def using Suc.prems(1) 2
      by (intro exI [of _ True] exI [of _ d'] exI [of _ d] exI [of _ u] exI [of _ p]) (simp add: advanced_def)
  next
    case 3
    let ?p = "next_round (l_cmd_id l) n p"
    obtain d' u' where t: "phase_step gm d s = Inr (False, d', put_spu ?i u' s)" "same_rest u u'" "core l r g0 g1 n u' d' ?p"
      using turn [OF Suc.prems(1) 3(2) Suc.prems(2) 3(1)] unfolding turns_def by blast
    have "?W \<noteq> {}" using plan.wait_some plan.ok_parts(1,2) [OF ok] by blast
    then have "received p - ?W \<subset> received p" using 3(1) by blast
    then have "card (received p - ?W) < card (received p)"
      by (rule psubset_card_mono [OF finite_received [OF Suc.prems(1)]])
    then have "card (received ?p) < k" using Suc.prems(3) by (simp add: next_round_def)
    from Suc.IH [OF t(3) get_put_same [OF Suc.prems(2)] this]
    have st: "settles l r g0 g1 n u' ?p (put_spu ?i u' s) (phase_loop gm k d' (put_spu ?i u' s))" .
    have loop: "phase_loop gm (Suc k) d s = phase_loop gm k d' (put_spu ?i u' s)" using over 3 t(1) by simp
    show ?thesis unfolding loop
      by (rule settles_from [OF st t(2)]) (simp add: advanced_def next_round_def)
  qed
qed

end
