(* ===== verification/Ext_Run.thy ===== *)
theory Ext_Run
  imports Ext_Rounds
begin

text \<open>
  An input-run-output operation together with the SPU that runs its commands: the PPU issues groups
  and handles completion messages (\<open>library/cell/src/ppu/extspu.c\<close>, \<open>spulib.c\<close>), the SPU reads
  requests, completes commands in an order their dependencies allow and reports them.  The SPU is
  the specification that its scheduler refines (theory Scheduler).
\<close>

section \<open>Handling a completion message\<close>

text \<open>The code behind the pointers: the handler of the operations, with enough fuel for its loop, and
  callbacks that only change the state of the scheduler that uses the library.\<close>

definition runs_ext_spu :: "group_mem \<Rightarrow> (ext_spu_data + 'e, 'c) lib_code \<Rightarrow> bool" where
  "runs_ext_spu gm code \<longleftrightarrow> (\<exists>cb k. 7 \<le> k \<and> (\<forall>a m s. run_op code EXT_SPU_HANDLER a m s = ext_spu_handler gm cb k a m s)) \<and>
     (\<forall>f tag s. \<exists>c. run_generic code f tag s = Inr (s\<lparr>client := c\<rparr>))"

definition the_op :: "ext_spu_layout \<Rightarrow> nat \<Rightarrow> u32 \<Rightarrow> ext_spu_data \<Rightarrow> (ext_spu_data + 'e) ext_op" where
  "the_op l f tag d = \<lparr>op_mask = push_bit (l_cmd_id l) 0x3f, op_handler = EXT_SPU_HANDLER, op_cb = f, op_tag = tag,
     op_next = None, op_data = Inl d\<rparr>"

definition runs_op :: "ext_spu_layout \<Rightarrow> nat \<Rightarrow> nat \<Rightarrow> u32 \<Rightarrow> ext_spu_data \<Rightarrow> spu_info \<Rightarrow> ('e, 'c) ext_ppu \<Rightarrow> bool" where
  "runs_op l a f tag d u s \<longleftrightarrow> get_spu (l_spu_id l) s = Inr u \<and> i_ops u = Some a \<and> i_dt_mask u = 0 \<and>
     op_heap s a = Some (the_op l f tag d)"

lemma core_receive:
  assumes c: "core l r g0 g1 n u d p" and m: "bs m = posted p"
  shows "core l r g0 g1 n (u\<lparr>i_out_mbox := None, i_issued := i_issued u AND NOT m\<rparr>) (d\<lparr>x_completed := x_completed d OR m\<rparr>)
    (p\<lparr>posted := {}, received := received p \<union> posted p\<rparr>)" (is "core l r g0 g1 n ?u ?d ?p")
proof -
  note k = core_dest [OF c]
  have "bs (i_issued u AND NOT m) = plan.outstanding (l_cmd_id l) n p \<union> unreported p"
    using k(7) m plan.ok_parts(7) [OF k(8)] unfolding bs_simps(5) disjnt_def by blast
  then have "bs (i_issued ?u) = plan.outstanding (l_cmd_id l) n ?p \<union> unreported ?p"
    by (simp add: plan.outstanding_def plan.unfetched_def del: bs_simps bs_NOT)
  then show ?thesis unfolding core_def
    using k m plan.receive_ok [OF k(8,9)]
    by (simp add: groups_ok_def issued_ok_def holds_def spu_lsa_def phase_at_def del: bs_NOT bs_simps(2))
qed

lemma posted_own: "core l r g0 g1 n u d p \<Longrightarrow> posted p \<subseteq> bs (push_bit (l_cmd_id l) 0x3f)"
proof -
  assume c: "core l r g0 g1 n u d p"
  have "posted p \<subseteq> {l_cmd_id l..<l_cmd_id l + 6}"
    using plan.ok_parts(4) [OF core_dest(8) [OF c]] op_live_bounds [of "l_cmd_id l" n "rounds p"] by blast
  also have "\<dots> \<subseteq> bs (push_bit (l_cmd_id l) 0x3f)"
    unfolding bs_masks(1) [OF op_static_dest(3) [OF core_dest(1) [OF c]]] by auto
  finally show ?thesis .
qed


lemma get_put_ext:
  "op_heap s a = Some (the_op l f tag d) \<Longrightarrow> get_ext a s = Inr d"
  "op_heap s a = Some (the_op l f tag d) \<Longrightarrow> put_ext a d' s = Inr (s\<lparr>op_heap := (op_heap s)(a \<mapsto> the_op l f tag d')\<rparr>)"
  by (simp_all add: get_ext_def put_ext_def the_op_def)

text \<open>With both buffers on SPUs no transfer of the PPU is looked at.\<close>

lemma handler_is_loop:
  assumes "op_heap s a = Some (the_op l f tag d)" "op_static l r g0 g1 d"
  shows "ext_spu_handler gm cb k a m s = rbind (phase_loop gm k (d\<lparr>x_completed := x_completed d OR m\<rparr>) s)
    (\<lambda>(fin, d, s). rbind (put_ext a d s) (\<lambda>s. Inr (fin, s)))"
  using op_static_dest [OF assms(2)] by (simp add: ext_spu_handler_def get_put_ext [OF assms(1)] case_prod_beta)

definition receive :: "('d, 'c) lib_code \<Rightarrow> nat \<Rightarrow> nat \<Rightarrow> ('d, 'c) ppu \<Rightarrow> ('d, 'c) ppu res" where
  "receive code k i s = rbind (read_out_mbox i s) (\<lambda>(m, s). spu_handle_complete code k i m s)"

definition op_gone :: "ext_spu_layout \<Rightarrow> nat \<Rightarrow> nat \<Rightarrow> nat \<Rightarrow> spu_info \<Rightarrow> ('d, 'c) ppu \<Rightarrow> bool" where
  "op_gone l a g0 g1 u s \<longleftrightarrow> op_heap s a = None \<and> get_spu (l_spu_id l) s
     = Inr ((returned g0 g1 u)\<lparr>i_ops := None, i_internal := i_internal u AND NOT (push_bit (l_cmd_id l) 0x3f)\<rparr>)"

text \<open>What a message of the SPU does to the operation.\<close>

definition handled :: "ext_spu_layout \<Rightarrow> ext_spu_rates \<Rightarrow> nat \<Rightarrow> nat \<Rightarrow> nat \<Rightarrow> nat \<Rightarrow> nat \<Rightarrow> u32 \<Rightarrow> spu_info \<Rightarrow> pipe
    \<Rightarrow> ('e, 'c) ext_ppu \<Rightarrow> bool" where
  "handled l r g0 g1 n a f tag u p s \<longleftrightarrow> (\<exists>d' u' p'. same_rest u u' \<and> core l r g0 g1 n u' d' p' \<and> advanced p p' \<and>
     (if op_wait (l_cmd_id l) n (rounds p') \<subseteq> received p' then rounds p' = op_rounds n \<and> op_gone l a g0 g1 u' s
      else runs_op l a f tag d' u' s))"

lemma dispatch_none: "0 < k \<Longrightarrow> dispatch_ops code k i h 0 s = Inr (0, s)"
  by (cases k) simp_all

lemma dispatch_one:
  assumes "2 \<le> k" "m \<noteq> 0" "op_heap s a = Some (the_op l f tag d)" "bs m \<subseteq> bs (push_bit (l_cmd_id l) 0x3f)"
    and "get_spu i s = Inr u" "i_ops u = Some a"
  shows "dispatch_ops code k i Ops_Head m s = rbind (run_op code EXT_SPU_HANDLER a m s) (\<lambda>(fin, s).
     if \<not> fin then Inr (0, s)
     else rbind (deref (op_heap s a)) (\<lambda>q. rbind (store_op i Ops_Head (op_next q) s) (\<lambda>s.
       rbind (upd_spu i (\<lambda>u. u\<lparr>i_internal := i_internal u AND NOT (op_mask q)\<rparr>) s) (\<lambda>s.
       rbind (run_generic code (op_cb q) (op_tag q) (s\<lparr>op_heap := (op_heap s)(a := None)\<rparr>)) (\<lambda>s. Inr (0, s))))))"
proof -
  obtain k' where k: "k = Suc k'" "0 < k'" using assms(1) by (cases k) auto
  have m: "m AND push_bit (l_cmd_id l) 0x3f = m" using assms(4) unfolding bs_eq_iff by auto
  have z: "m AND (NOT m OR NOT (push_bit (l_cmd_id l) 0x3f)) = 0" using assms(4) unfolding bs_zero_iff by auto
  have none: "dispatch_ops code k' i h 0 = (\<lambda>s. Inr (0, s))" for h by (rule ext) (rule dispatch_none [OF k(2)])
  show ?thesis using assms m z by (simp add: k none load_op_def the_op_def Let_def split_def cong: if_cong)
qed


lemma put_spu_heap: "put_spu i u (s\<lparr>op_heap := h\<rparr>) = (put_spu i u s)\<lparr>op_heap := h\<rparr>"
  by simp

lemma receive_is_dispatch:
  assumes s: "get_spu i s = Inr u" "i_out_mbox u = Some m" "m \<noteq> 0" "i_dt_mask u = 0" "bs m \<subseteq> bs (i_internal u)" "i_ops u = Some a"
  shows "receive code k i s = rbind (dispatch_ops code k i Ops_Head m
      (put_spu i (u\<lparr>i_out_mbox := None, i_issued := i_issued u AND NOT m\<rparr>) s))
    (\<lambda>(m, s). ensure AssertFail (m = 0) (Inr s))"
proof -
  have m: "m AND i_internal u = m" using s(5) unfolding bs_eq_iff by auto
  have z: "m AND (NOT m OR NOT (i_internal u)) = 0" using s(5) unfolding bs_zero_iff by auto
  have e: "rbind (case_prod f x) g = (case x of (y, z) \<Rightarrow> rbind (f y z) g)" for f g and x :: "u32 \<times> ('a, 'b) ppu"
    by (cases x) simp
  show ?thesis
    using s m z get_put_same [OF s(1)]
    by (simp add: receive_def read_out_mbox_def spu_handle_complete_def upd_spu_def spu_handle_internal_complete_def
        spu_report_complete_def Let_def rbind_assoc e cong: if_cong)
qed

lemma finish_op:
  assumes h: "op_heap s a = Some (the_op l f tag d)" and u: "get_spu (l_spu_id l) s = Inr u"
    and c: "\<exists>c. run_generic code f tag ((put_spu (l_spu_id l) (u\<lparr>i_ops := None,
        i_internal := i_internal u AND NOT (push_bit (l_cmd_id l) 0x3f)\<rparr>) s)\<lparr>op_heap := (op_heap s)(a := None)\<rparr>)
      = Inr ((put_spu (l_spu_id l) (u\<lparr>i_ops := None,
        i_internal := i_internal u AND NOT (push_bit (l_cmd_id l) 0x3f)\<rparr>) s)\<lparr>op_heap := (op_heap s)(a := None), client := c\<rparr>)"
  shows "\<exists>s'. rbind (deref (op_heap s a)) (\<lambda>q. rbind (store_op (l_spu_id l) Ops_Head (op_next q) s) (\<lambda>s.
       rbind (upd_spu (l_spu_id l) (\<lambda>u. u\<lparr>i_internal := i_internal u AND NOT (op_mask q)\<rparr>) s) (\<lambda>s.
       rbind (run_generic code (op_cb q) (op_tag q) (s\<lparr>op_heap := (op_heap s)(a := None)\<rparr>)) (\<lambda>s. Inr (0 :: u32, s))))) = Inr (0, s') \<and>
    op_heap s' a = None \<and> get_spu (l_spu_id l) s' = Inr (u\<lparr>i_ops := None,
      i_internal := i_internal u AND NOT (push_bit (l_cmd_id l) 0x3f)\<rparr>)"
  using h u c get_put_same [OF u] by (auto simp: store_op_def upd_spu_def the_op_def)


lemma receive_handled:
  assumes code: "runs_ext_spu gm code" "2 \<le> k" and op: "runs_op l a f tag d u s" and c: "core l r g0 g1 n u d p"
    and m: "i_out_mbox u = Some m" "bs m = posted p" "m \<noteq> 0"
  shows "\<exists>s'. receive code k (l_spu_id l) s = Inr s' \<and>
    handled l r g0 g1 n a f tag (u\<lparr>i_out_mbox := None, i_issued := i_issued u AND NOT m\<rparr>)
      (p\<lparr>posted := {}, received := received p \<union> posted p\<rparr>) s'"
proof -
  let ?i = "l_spu_id l" and ?u = "u\<lparr>i_out_mbox := None, i_issued := i_issued u AND NOT m\<rparr>"
    and ?p = "p\<lparr>posted := {}, received := received p \<union> posted p\<rparr>" and ?d = "d\<lparr>x_completed := x_completed d OR m\<rparr>"
  let ?s = "put_spu ?i ?u s"
  note o = op [unfolded runs_op_def]
  have own: "bs m \<subseteq> bs (push_bit (l_cmd_id l) 0x3f)" using posted_own [OF c] m(2) by simp
  then have int: "bs m \<subseteq> bs (i_internal u)" using core_dest(2) [OF c] unfolding groups_ok_def by blast
  have sp: "get_spu ?i ?s = Inr ?u" "op_heap ?s a = Some (the_op l f tag d)" "i_ops ?u = Some a"
    using o get_put_same by auto
  have c': "core l r g0 g1 n ?u ?d ?p" by (rule core_receive [OF c m(2)])
  obtain cb j where h: "7 \<le> j" "\<And>m s. run_op code EXT_SPU_HANDLER a m s = ext_spu_handler gm cb j a m s"
    using code(1) unfolding runs_ext_spu_def by blast
  have "settles l r g0 g1 n ?u ?p ?s (phase_loop gm j ?d ?s)"
    using phase_loop_settles [OF c' sp(1), of j] core_steps [OF c'] h(1) by simp
  then obtain fin d' e u' p' where st: "same_rest ?u u'" "core l r g0 g1 n u' e p'" "advanced ?p p'"
    "if fin then rounds p' = op_rounds n \<and> op_wait (l_cmd_id l) n (rounds p') \<subseteq> received p' \<and>
        phase_loop gm j ?d ?s = Inr (True, d', put_spu ?i (returned g0 g1 u') s)
      else \<not> op_wait (l_cmd_id l) n (rounds p') \<subseteq> received p' \<and> e = d' \<and> phase_loop gm j ?d ?s = Inr (False, d', put_spu ?i u' s)"
    unfolding settles_def put_put_spu by blast
  let ?v = "if fin then returned g0 g1 u' else u'"
  let ?t = "(put_spu ?i ?v s)\<lparr>op_heap := (op_heap s)(a \<mapsto> the_op l f tag d')\<rparr>"
  have loop: "phase_loop gm j ?d ?s = Inr (fin, d', put_spu ?i ?v s)" using st(4) by (cases fin) simp_all
  have hd: "op_heap (put_spu ?i ?v s) a = Some (the_op l f tag d)" using o by simp
  have run: "run_op code EXT_SPU_HANDLER a m ?s = Inr (fin, ?t)"
    unfolding h(2) handler_is_loop [OF sp(2) core_dest(1) [OF c]] loop
    by (simp only: rbind_simps split_conv get_put_ext(2) [OF hd] put_spu_fields)
  have t: "get_spu ?i ?t = Inr ?v" "op_heap ?t a = Some (the_op l f tag d')"
    using o get_put_same by auto
  note rcv = receive_is_dispatch [where code = code and k = k, OF conjunct1 [OF o] m(1,3) _ int,
    unfolded dispatch_one [OF code(2) m(3) sp(2) own sp(1,3)] run]
  show ?thesis
  proof (cases fin)
    case True
    obtain s' where s': "rbind (deref (op_heap ?t a)) (\<lambda>q. rbind (store_op ?i Ops_Head (op_next q) ?t) (\<lambda>s.
       rbind (upd_spu ?i (\<lambda>u. u\<lparr>i_internal := i_internal u AND NOT (op_mask q)\<rparr>) s) (\<lambda>s.
       rbind (run_generic code (op_cb q) (op_tag q) (s\<lparr>op_heap := (op_heap s)(a := None)\<rparr>)) (\<lambda>s. Inr (0 :: u32, s))))) = Inr (0, s')"
      "op_heap s' a = None" "get_spu ?i s' = Inr (?v\<lparr>i_ops := None, i_internal := i_internal ?v AND NOT (push_bit (l_cmd_id l) 0x3f)\<rparr>)"
      using finish_op [OF t(2,1), where code = code] code(1) unfolding runs_ext_spu_def by blast
    have "receive code k ?i s = Inr s'"
      using rcv o True s'(1) by simp
    moreover have "op_gone l a g0 g1 u' s'"
      using s'(2,3) True by (simp add: op_gone_def returned_def)
    ultimately show ?thesis using st True unfolding handled_def by auto
  next
    case False
    have "receive code k ?i s = Inr ?t" using rcv o False by simp
    moreover have "runs_op l a f tag d' u' ?t"
      using t o False st(1) by (simp add: runs_op_def same_rest_fields)
    ultimately show ?thesis using st False unfolding handled_def by auto
  qed
qed

end
