(* ===== verification/Ext_Start.thy ===== *)
theory Ext_Start
  imports Ext_Run
begin

text \<open>
  Starting an input-run-output operation (\<open>ext_spu_internal\<close> in \<open>library/cell/src/ppu/extspu.c\<close>) on an SPU
  that is idle puts it at the first round of its plan.
\<close>

definition op_ready :: "ext_spu_layout \<Rightarrow> ext_spu_rates \<Rightarrow> nat \<Rightarrow> nat \<Rightarrow> u32 \<Rightarrow> spu_info \<Rightarrow> bool" where
  "op_ready l r g0 g1 iters u \<longleftrightarrow> spu_to_spu l r \<and> iters \<noteq> 0 \<and> l_da l AND CACHE_MASK = 0 \<and>
     g0 \<noteq> g1 \<and> (\<forall>g\<in>{g0, g1}. 32 \<le> g \<and> g < 40 \<and> g < length (i_groups u)) \<and>
     i_free_group u = Some g0 \<and> i_next_free u g0 = Some g1 \<and>
     (\<forall>da\<in>{l_da l, l_da l + 256}. spu_lsa u da AND 15 = 0 \<and> spu_lsa u da < 2 ^ 18) \<and>
     (i_internal u OR i_completed u) AND push_bit (l_cmd_id l) 0x3f = 0 \<and>
     i_issued u = 0 \<and> i_in_mbox u = [] \<and> i_out_mbox u = None \<and> i_ops u = None \<and> i_dt_mask u = 0"

text \<open>What the allocations make of what is known of the SPU.\<close>

definition taken :: "ext_spu_layout \<Rightarrow> nat \<Rightarrow> nat \<Rightarrow> spu_info \<Rightarrow> spu_info" where
  "taken l a g1 u = u\<lparr>i_internal := i_internal u OR push_bit (l_cmd_id l) 0x3f, i_ops := Some a, i_free_group := i_next_free u g1\<rparr>"

lemma taken_groups_ok: "op_ready l r g0 g1 iters u \<Longrightarrow> groups_ok l g0 g1 (taken l a g1 u)"
  by (auto simp: op_ready_def groups_ok_def taken_def spu_lsa_def)

lemma issue_first:
  assumes d: "op_static l r g0 g1 d" "k \<le> 1" and u: "get_spu (l_spu_id l) s = Inr v" "groups_ok l g0 g1 v" "i_issued v = 0" "i_in_mbox v = []"
    and g: "holds v (slot_gid g0 g1 k) cs" "cs \<noteq> []" "distinct (map fst cs)" "ids cs \<subseteq> {l_cmd_id l..<l_cmd_id l + 6}"
  shows "\<exists>w req. issue_slot k d s = Inr (put_spu (l_spu_id l) (v\<lparr>i_issued := w, i_in_mbox := [req]\<rparr>) s) \<and>
    bs w = ids cs \<and> unat (cmd_get_req_entry req) = slot_gid g0 g1 k"
proof -
  let ?g = "slot_gid g0 g1 k" and ?da = "if k = 0 then l_da l else l_da l + 256"
  have gid: "32 \<le> ?g" "?g < 40" "?g < length (i_groups v)" using u(2) by (auto simp: groups_ok_def slot_gid_def)
  have "ids cs \<subseteq> bs (push_bit (l_cmd_id l) 0x3f)"
    using g(4) unfolding bs_masks(1) [OF op_static_dest(3) [OF d(1)]] by force
  then have own: "ids cs \<subseteq> bs (i_internal v)" "ids cs \<inter> bs (i_issued v) = {}" using u(2,3) by (auto simp: groups_ok_def)
  have "length (i_in_mbox v) < 4" "spu_lsa v ?da AND 15 = 0" "spu_lsa v ?da < 2 ^ 18"
    using u(2,4) by (simp_all add: groups_ok_def)
  from issue_int_group [OF u(1) gid g(1) [unfolded holds_def] g(2,3) own this]
  show ?thesis using slot_address [OF d(2,1)] u(3,4) by (auto simp: issue_slot_def op_static_dest(1) [OF d(1)])
qed

definition start_pipe :: "dep_spec \<Rightarrow> (nat \<Rightarrow> nat) \<Rightarrow> pipe" where
  "start_pipe S K = \<lparr>rounds = 1, fetched = 0, spec = S, kind_of = K, unreported = {}, posted = {}, received = {}, history = []\<rparr>"

lemma start_pipe_ok: "pend S = {} \<Longrightarrow> plan.ok b n (start_pipe S K) \<and> plan.in_order b n (start_pipe S K)"
  using plan.start_ok [of "start_pipe S K"] by (simp add: start_pipe_def)

text \<open>An operation of one or two iterations has one group, in slot 0.\<close>

lemma start_core:
  assumes "pend S = {}" "op_static l r g0 g1 d" "groups_ok l g0 g1 v" "phase_at n 1 d" "x_completed d = 0"
    "bs (x_waiting d) = op_wait (l_cmd_id l) n 1" "bs (i_issued v) = ids (op_group (l_cmd_id l) n 0)"
    "map (\<lambda>req. unat (cmd_get_req_entry req)) (i_in_mbox v) = [gid_of g0 g1 n 0]"
    "holds v (gid_of g0 g1 n 0) (op_group (l_cmd_id l) n 0)" "n \<le> 2 \<or> holds v (gid_of g0 g1 n 1) (op_group (l_cmd_id l) n 1)"
  shows "core l r g0 g1 n v d (start_pipe S K)"
proof -
  have "plan.outstanding (l_cmd_id l) n (start_pipe S K) = ids (op_group (l_cmd_id l) n 0)"
    using assms(1) by (simp add: plan.outstanding_def plan.unfetched_def start_pipe_def)
  moreover have "issued_ok (l_cmd_id l) g0 g1 n v (start_pipe S K)"
    using assms(8-10) by (auto simp: issued_ok_def start_pipe_def less_Suc_eq numeral_2_eq_2)
  ultimately show ?thesis using assms start_pipe_ok unfolding core_def by (simp add: start_pipe_def)
qed

lemma short_starts:
  assumes d: "op_static l r g0 g1 d" and v: "get_spu (l_spu_id l) s = Inr v" "groups_ok l g0 g1 v" "i_issued v = 0" "i_in_mbox v = []"
    and n: "unat iters = n" "n = 1 \<or> n = 2" and S: "pend S = {}" "x_completed d = 0"
  shows "\<exists>d' v'. start_short gm iters d s = Inr (d', put_spu (l_spu_id l) v' s) \<and> same_rest v v' \<and>
    core l r g0 g1 n v' d' (start_pipe S K)"
proof -
  let ?b = "l_cmd_id l"
  have it: "iters = 1 \<and> n = 1 \<or> iters = 2 \<and> n = 2" using n by (auto simp: word_unat_eq_iff)
  have g0: "g0 < length (i_groups v)" using v(2) by (simp add: groups_ok_def)
  obtain m t where m: "ext_spu_setup_full gm d iters s = Inr (m, t)" "bs m = ids (full_group ?b n)"
    "built (l_spu_id l) g0 v s (full_group ?b n) t"
    using built_full [OF d v(1) g0 it] by blast
  obtain g where g: "t = put_spu (l_spu_id l) (set_group g0 g v) s" "grp_is g (full_group ?b n)"
    using m(3) unfolding built_def by blast
  let ?v = "set_group g0 g v"
  have t: "get_spu (l_spu_id l) t = Inr ?v" using v(1) get_put_same unfolding g(1) by blast
  have ok: "groups_ok l g0 g1 ?v" using v(2) by (simp add: groups_ok_def set_group_def spu_lsa_def)
  have h: "holds ?v (slot_gid g0 g1 0) (full_group ?b n)" using g(2) g0 by (simp add: holds_def set_group_def slot_gid_def)
  have og: "op_group ?b n 0 = full_group ?b n" using n(2) by (auto simp: op_group_def)
  have dist: "distinct (map fst (full_group ?b n))" using plan.grp_distinct [of ?b n 0] og by simp
  have "full_group ?b n \<noteq> []" by (simp add: full_group_def)
  then obtain w req where iss: "issue_slot 0 d t = Inr (put_spu (l_spu_id l) (?v\<lparr>i_issued := w, i_in_mbox := [req]\<rparr>) t)"
    "bs w = ids (full_group ?b n)" "unat (cmd_get_req_entry req) = slot_gid g0 g1 0"
    using issue_first [OF d _ t ok _ _ h _ dist op_ids_bounds(3)] v(3,4) by (auto simp: set_group_def)
  let ?w = "?v\<lparr>i_issued := w, i_in_mbox := [req]\<rparr>" and ?d = "d\<lparr>x_phase := PHASE_CLEANUP, x_waiting := m\<rparr>"
  have "start_short gm iters d s = Inr (?d, put_spu (l_spu_id l) ?w s)"
    using m(1) iss(1) g(1) by (simp add: start_short_def)
  moreover have "same_rest v ?w" unfolding same_rest_def set_group_def by (intro exI) simp
  moreover have "core l r g0 g1 n ?w ?d (start_pipe S K)"
    using d ok S m(2) iss(2,3) h n(2)
    by (intro start_core) (auto simp: og phase_at_def op_wait_def groups_ok_def spu_lsa_def gid_of_def slot_gid_def holds_def)
  ultimately show ?thesis by blast
qed


lemma long_starts:
  assumes d: "op_static l r g0 g1 d" and v: "get_spu (l_spu_id l) s = Inr v" "groups_ok l g0 g1 v" "i_issued v = 0" "i_in_mbox v = []"
    and n: "unat iters = n" "3 \<le> n" and S: "pend S = {}" "x_completed d = 0" "x_cur d = 0"
  shows "\<exists>d' v'. start_long gm iters d s = Inr (d', put_spu (l_spu_id l) v' s) \<and> same_rest v v' \<and>
    core l r g0 g1 n v' d' (start_pipe S K)"
proof -
  let ?b = "l_cmd_id l" and ?i = "l_spu_id l" and ?d1 = "d\<lparr>x_steady := iters - 2\<rparr>"
  have d1: "op_static l r g0 g1 ?d1" using d by simp
  note e = op_static_dest [OF d]
  have len: "g0 < length (i_groups v)" "g1 < length (i_groups v)" "g0 \<noteq> g1" using v(2) by (simp_all add: groups_ok_def)
  obtain t1 where t1: "ext_spu_setup_init gm ?d1 s = Inr t1" "built ?i g1 v s (init_group ?b) t1"
    using built_init [OF d1 v(1) len(2)] by blast
  obtain h1 where h1: "t1 = put_spu ?i (set_group g1 h1 v) s" "grp_is h1 (init_group ?b)" using t1(2) unfolding built_def by blast
  let ?v1 = "set_group g1 h1 v"
  have v1: "get_spu ?i t1 = Inr ?v1" "slot_gid g0 g1 0 < length (i_groups ?v1)"
    using v(1) get_put_same len(1) unfolding h1(1) by (auto simp: set_group_def slot_gid_def)
  obtain t2 where t2: "ext_spu_setup_steady gm ?d1 0 t1 = Inr t2" "built ?i (slot_gid g0 g1 0) ?v1 t1 (steady_group ?b 0) t2"
    using built_steady [OF d1 v1] by blast
  obtain h0 where h0: "t2 = put_spu ?i (set_group g0 h0 ?v1) t1" "grp_is h0 (steady_group ?b 0)"
    using t2(2) unfolding built_def by (auto simp: slot_gid_def)
  let ?v2 = "set_group g0 h0 ?v1"
  have gv: "get_spu ?i t2 = Inr ?v2" using v1(1) get_put_same unfolding h0(1) by blast
  have ok: "groups_ok l g0 g1 ?v2" using v(2) by (simp add: groups_ok_def set_group_def spu_lsa_def)
  have og: "op_group ?b n 0 = init_group ?b" "op_group ?b n 1 = steady_group ?b 0"
    using n(2) op_group_cases(2) [of n 1 ?b] op_group_cases(1) [of n ?b] by (simp_all add: slot_of_def)
  have holds: "holds ?v2 g1 (init_group ?b)" "holds ?v2 g0 (steady_group ?b 0)"
    using h0(2) h1(2) len by (simp_all add: holds_def set_group_def)
  have "distinct (map fst (init_group ?b))" "init_group ?b \<noteq> []" by (simp_all add: init_group_def)
  then obtain w req where iss: "issue_slot 1 ?d1 t2 = Inr (put_spu ?i (?v2\<lparr>i_issued := w, i_in_mbox := [req]\<rparr>) t2)"
    "bs w = ids (init_group ?b)" "unat (cmd_get_req_entry req) = g1"
    using issue_first [OF d1 order_refl gv ok, of "init_group ?b"] holds(1) op_ids_bounds(1) [of ?b] v(3,4)
    by (auto simp: set_group_def slot_gid_def)
  let ?w = "?v2\<lparr>i_issued := w, i_in_mbox := [req]\<rparr>"
    and ?d = "?d1\<lparr>x_phase := PHASE_INIT_0, x_waiting := push_bit ?b 1, x_flip := push_bit ?b 0x3f\<rparr>"
  have "start_long gm iters d s = Inr (?d, put_spu ?i ?w s)"
    using t1(1) t2(1) iss(1) h0(1) h1(1) e by (simp add: start_long_def Let_def)
  moreover have "same_rest v ?w" unfolding same_rest_def set_group_def by (intro exI) simp
  moreover have "core l r g0 g1 n ?w ?d (start_pipe S K)"
  proof (rule start_core)
    show "phase_at n 1 ?d" using n S(3) e(1) by (simp add: phase_at_def slot_of_def unat_sub word_le_nat_alt)
    show "bs (x_waiting ?d) = op_wait ?b n 1" using op_wait_cases(1) [OF n(2), of ?b] bs_masks(4) [OF e(3)] by simp
  qed (use d ok S iss(2,3) holds n(2) og(2) in \<open>auto simp: og(1) groups_ok_def spu_lsa_def gid_of_def slot_gid_def slot_of_def holds_def\<close>)
  ultimately show ?thesis by blast
qed

lemma new_data:
  assumes "spu_to_spu l r"
  shows "op_static l r g0 g1 (new_ext_spu_data l r iters ip g0 g1 d0)" "x_completed (new_ext_spu_data l r iters ip g0 g1 d0) = 0"
    "x_cur (new_ext_spu_data l r iters ip g0 g1 d0) = 0"
  using assms by (auto simp: op_static_def new_ext_spu_data_def new_side_def spu_to_spu_def Let_def)

text \<open>The operation starts: the calls before the first group is issued succeed and the first round begins.\<close>

lemma op_starts:
  assumes u: "get_spu (l_spu_id l) s = Inr u" and r: "op_ready l r g0 g1 iters u" and S: "pend S = {}"
  shows "\<exists>s' d v. ext_spu gm d0 (Some a) l r iters cb tag s = Inr (a, s') \<and> runs_op l a cb tag d v s' \<and>
    same_rest (taken l a g1 u) v \<and> core l r g0 g1 (unat iters) v d (start_pipe S K)"
proof -
  let ?i = "l_spu_id l" and ?v = "taken l a g1 u" and ?m = "push_bit (l_cmd_id l) (0x3f :: u32)"
    and ?d = "new_ext_spu_data l r iters None g0 g1 d0"
  let ?h = "(op_heap s)(a \<mapsto> the_op l cb tag d0)"
  let ?t = "(put_spu ?i ?v s)\<lparr>op_heap := ?h\<rparr>"
  have st: "spu_to_spu l r" "iters \<noteq> 0" using r by (simp_all add: op_ready_def)
  have len: "?i < length (spus s)" by (rule get_spu_length [OF u])
  have free: "i_free_group u = Some g0" "i_next_free u g0 = Some g1" "i_ops u = None" and
    clear: "(i_internal u OR i_completed u OR i_issued u) AND ?m = 0" using r by (simp_all add: op_ready_def)
  have alloc: "rbind (spu_new_ext_op (Some a) ?i ?m EXT_SPU_HANDLER cb tag (Inl d0) s) (\<lambda>(a, s).
      rbind (spu_new_int_group ?i s) (\<lambda>(g0, s). rbind (spu_new_int_group ?i s) (\<lambda>(g1, s). F a g0 g1 s))) = F a g0 g1 ?t" for F
    using u len free clear by (simp add: spu_new_ext_op_def spu_new_int_group_def taken_def the_op_def)
  have t: "get_spu ?i ?t = Inr ?v" "groups_ok l g0 g1 ?v" "i_issued ?v = 0" "i_in_mbox ?v = []"
    using len r taken_groups_ok [OF r] by (simp_all add: op_ready_def taken_def)
  have n: "unat iters = 1 \<or> unat iters = 2 \<or> 3 \<le> unat iters" "iters \<le> 2 \<longleftrightarrow> unat iters \<le> 2"
  proof -
    have "unat iters \<noteq> 0" using st(2) by (simp add: unat_eq_0)
    then show "unat iters = 1 \<or> unat iters = 2 \<or> 3 \<le> unat iters" by linarith
  qed (simp add: word_le_nat_alt)
  have "\<exists>d' v'. (if iters \<le> 2 then start_short gm iters ?d ?t else start_long gm iters ?d ?t) = Inr (d', put_spu ?i v' ?t) \<and>
      same_rest ?v v' \<and> core l r g0 g1 (unat iters) v' d' (start_pipe S K)"
  proof (cases "iters \<le> 2")
    case True
    then have "unat iters = 1 \<or> unat iters = 2" using n by auto
    from short_starts [OF new_data(1) [OF st(1)] t refl this S new_data(2) [OF st(1)]] True show ?thesis by simp
  next
    case False
    then have "3 \<le> unat iters" using n by auto
    from long_starts [OF new_data(1) [OF st(1)] t refl this S new_data(2,3) [OF st(1)]] False show ?thesis by simp
  qed
  then obtain d' v' where st': "(if iters \<le> 2 then start_short gm iters ?d ?t else start_long gm iters ?d ?t) = Inr (d', put_spu ?i v' ?t)"
    "same_rest ?v v'" "core l r g0 g1 (unat iters) v' d' (start_pipe S K)" by blast
  let ?s' = "(put_spu ?i v' ?t)\<lparr>op_heap := (op_heap s)(a \<mapsto> the_op l cb tag d')\<rparr>"
  have ck: "l_cmd_id l \<le> SPU_MAX_COMMANDS - 6" "l_da l AND CACHE_MASK = 0" "r_in r \<noteq> 0" "r_out r \<noteq> 0"
    "\<not> on_ppu (l_in l)" "\<not> on_ppu (l_out l)"
    using r by (auto simp: op_ready_def spu_to_spu_def SPU_MAX_COMMANDS_def)
  have "put_ext a d' (put_spu ?i v' ?t) = Inr ?s'" by (simp add: get_put_ext(2) [of _ _ l cb tag d0])
  then have "ext_spu gm d0 (Some a) l r iters cb tag s = Inr (a, ?s')"
    using ck st(2) st'(1) by (simp add: ext_spu_def ext_spu_internal_def alloc Let_def del: put_spu_updates)
  moreover have "runs_op l a cb tag d' v' ?s'"
    using st'(2) len r by (simp add: runs_op_def same_rest_fields taken_def op_ready_def)
  ultimately show ?thesis using st'(2,3) by blast
qed

end
