(* ===== verification/Ext_System.thy ===== *)
theory Ext_System
  imports Ext_Start
begin

text \<open>
  The closed system of the PPU, which runs one input-run-output operation, and the SPU that executes
  its commands, and the theorems about it: no check on either side fails, the operation ends after a
  bounded number of steps, and when it ends every iteration has been read, run and written once.
\<close>

section \<open>The system\<close>

text \<open>
  \<open>w_spec\<close> and \<open>w_kind\<close> are the commands the SPU has read and not completed and their types,
  \<open>w_done\<close> the IDs it has completed and not reported, \<open>w_hist\<close> the types of the completed commands.
\<close>

record ('e, 'c) op_world =
  w_ppu :: "('e, 'c) ext_ppu"
  w_spec :: dep_spec
  w_kind :: "nat \<Rightarrow> nat"
  w_done :: u32
  w_hist :: "nat list"

text \<open>The SPU reads the oldest request and adds the commands of the group it names.\<close>

definition read_request :: "nat \<Rightarrow> spu_info \<Rightarrow> u32 \<Rightarrow> u32 list \<Rightarrow> ('e, 'c) op_world \<Rightarrow> ('e, 'c) op_world res" where
  "read_request i u req rest w = rbind (index_res (i_groups u) (unat (cmd_get_req_entry req))) (\<lambda>g.
     case add_group_spec (map cmd_sig (g_cmds g)) (bs (w_done w)) (w_spec w, w_kind w) of
       None \<Rightarrow> Inl CheckFail
     | Some (S, K) \<Rightarrow> Inr (w\<lparr>w_ppu := put_spu i (u\<lparr>i_in_mbox := rest\<rparr>) (w_ppu w), w_spec := S, w_kind := K\<rparr>))"

definition complete_command :: "nat \<Rightarrow> ('e, 'c) op_world \<Rightarrow> ('e, 'c) op_world" where
  "complete_command x w = w\<lparr>w_spec := spec_complete x (w_spec w), w_done := w_done w OR tag_bit x, w_hist := w_hist w @ [w_kind w x]\<rparr>"

definition report_done :: "nat \<Rightarrow> spu_info \<Rightarrow> ('e, 'c) op_world \<Rightarrow> ('e, 'c) op_world" where
  "report_done i u w = w\<lparr>w_ppu := put_spu i (u\<lparr>i_out_mbox := Some (w_done w)\<rparr>) (w_ppu w), w_done := 0\<rparr>"

inductive op_step :: "(ext_spu_data + 'e, 'c) lib_code \<Rightarrow> nat \<Rightarrow> nat \<Rightarrow> ('e, 'c) op_world \<Rightarrow> ('e, 'c) op_world res \<Rightarrow> bool"
  for code k i where
  read: "get_spu i (w_ppu w) = Inr u \<Longrightarrow> i_in_mbox u = req # rest \<Longrightarrow> op_step code k i w (read_request i u req rest w)"
| complete: "x \<in> pend (w_spec w) \<Longrightarrow> preds (w_spec w) x = {} \<Longrightarrow> op_step code k i w (Inr (complete_command x w))"
| report: "get_spu i (w_ppu w) = Inr u \<Longrightarrow> i_out_mbox u = None \<Longrightarrow> w_done w \<noteq> 0 \<Longrightarrow>
    op_step code k i w (Inr (report_done i u w))"
| handle: "get_spu i (w_ppu w) = Inr u \<Longrightarrow> i_out_mbox u \<noteq> None \<Longrightarrow>
    op_step code k i w (rbind (receive code k i (w_ppu w)) (\<lambda>s. Inr (w\<lparr>w_ppu := s\<rparr>)))"

text \<open>\<open>op_run m w w'\<close>: \<open>m\<close> steps lead from \<open>w\<close> to \<open>w'\<close>.\<close>

inductive op_run :: "(ext_spu_data + 'e, 'c) lib_code \<Rightarrow> nat \<Rightarrow> nat \<Rightarrow> nat \<Rightarrow> ('e, 'c) op_world \<Rightarrow> ('e, 'c) op_world \<Rightarrow> bool"
  for code k i where
  start: "op_run code k i 0 w w"
| step: "op_run code k i m w v \<Longrightarrow> op_step code k i v (Inr v') \<Longrightarrow> op_run code k i (Suc m) w v'"

definition op_begins :: "group_mem \<Rightarrow> ext_spu_data \<Rightarrow> nat \<Rightarrow> ext_spu_layout \<Rightarrow> ext_spu_rates \<Rightarrow> u32 \<Rightarrow> nat \<Rightarrow> u32
    \<Rightarrow> ('e, 'c) ext_ppu \<Rightarrow> dep_spec \<Rightarrow> (nat \<Rightarrow> nat) \<Rightarrow> ('e, 'c) op_world res" where
  "op_begins gm d0 a l r iters cb tag s S K = rbind (ext_spu gm d0 (Some a) l r iters cb tag s) (\<lambda>(a, s).
     Inr \<lparr>w_ppu = s, w_spec = S, w_kind = K, w_done = 0, w_hist = []\<rparr>)"

section \<open>How the system follows the plan\<close>

definition op_type :: "nat \<Rightarrow> nat \<Rightarrow> nat" where
  "op_type b x = (if x = b \<or> x = b + 3 then IN else if x = b + 1 \<or> x = b + 4 then RUN else OUT)"

text \<open>\<open>X\<close> and \<open>F\<close> are the internal IDs and the free groups that are not the operation's.\<close>

definition spu_tracks :: "ext_spu_layout \<Rightarrow> u32 \<Rightarrow> nat option \<Rightarrow> spu_info \<Rightarrow> pipe \<Rightarrow> bool" where
  "spu_tracks l X F u p \<longleftrightarrow> (case i_out_mbox u of None \<Rightarrow> posted p = {} | Some m \<Rightarrow> m \<noteq> 0 \<and> bs m = posted p) \<and>
     i_internal u AND NOT (push_bit (l_cmd_id l) 0x3f) = X \<and> i_free_group u = F"

definition world_tracks :: "nat \<Rightarrow> ('e, 'c) op_world \<Rightarrow> pipe \<Rightarrow> bool" where
  "world_tracks b w p \<longleftrightarrow> bs (w_done w) = unreported p \<and> w_spec w = spec p \<and> w_kind w = kind_of p \<and> w_hist w = history p \<and>
     (\<forall>x\<in>pend (spec p). kind_of p x = op_type b x)"

definition tracks :: "ext_spu_layout \<Rightarrow> ext_spu_rates \<Rightarrow> nat \<Rightarrow> nat \<Rightarrow> nat \<Rightarrow> nat \<Rightarrow> nat \<Rightarrow> u32 \<Rightarrow> u32 \<Rightarrow> nat option
    \<Rightarrow> ('e, 'c) op_world \<Rightarrow> pipe \<Rightarrow> bool" where
  "tracks l r g0 g1 n a f tag X F w p \<longleftrightarrow> (\<exists>u d. runs_op l a f tag d u (w_ppu w) \<and> core l r g0 g1 n u d p \<and>
     \<not> op_wait (l_cmd_id l) n (rounds p) \<subseteq> received p \<and> spu_tracks l X F u p \<and> world_tracks (l_cmd_id l) w p)"

definition op_over :: "ext_spu_layout \<Rightarrow> nat \<Rightarrow> nat \<Rightarrow> nat \<Rightarrow> nat \<Rightarrow> u32 \<Rightarrow> nat option \<Rightarrow> ('e, 'c) op_world \<Rightarrow> bool" where
  "op_over l g0 g1 n a X F w \<longleftrightarrow> op_heap (w_ppu w) a = None \<and> w_done w = 0 \<and> pend (w_spec w) = {} \<and>
     mset (w_hist w) = replicate_mset n IN + replicate_mset n RUN + replicate_mset n OUT \<and>
     (\<exists>u. get_spu (l_spu_id l) (w_ppu w) = Inr u \<and> i_ops u = None \<and> i_issued u = 0 \<and> i_in_mbox u = [] \<and> i_out_mbox u = None \<and>
        i_internal u = X \<and> i_free_group u = Some g1 \<and> i_next_free u g1 = Some g0 \<and> i_next_free u g0 = F)"

section \<open>What the groups of an operation hold in all\<close>

lemma op_group_type: "(x, t, D) \<in> set (op_group b n j) \<Longrightarrow> t = op_type b x"
proof -
  have "\<forall>(x, t, D)\<in>set (steady_group b k). t = op_type b x" if "k \<le> 1" for k
    using that by (cases k) (auto simp: steady_group_def op_type_def Let_def)
  moreover have "\<forall>(x, t, D)\<in>set (init_group b). t = op_type b x" "\<forall>(x, t, D)\<in>set (full_group b n). t = op_type b x"
    by (auto simp: init_group_def full_group_def op_type_def)
  moreover assume "(x, t, D) \<in> set (op_group b n j)"
  then have "(x, t, D) \<in> set (steady_group b (slot_of j)) \<or> (x, t, D) \<in> set (init_group b) \<or> (x, t, D) \<in> set (full_group b n)"
    by (auto simp: op_group_def dest: in_set_dropD split: if_splits)
  ultimately show ?thesis using slot_of_other(2) [of j] by blast
qed

lemma steady_types: "sig_types (steady_group b k) = {#IN, RUN, OUT#}"
  by (simp add: steady_group_def Let_def)

lemma all_types:
  assumes "0 < n"
  shows "(\<Sum>j<op_rounds n. sig_types (op_group b n j)) = replicate_mset n IN + replicate_mset n RUN + replicate_mset n OUT"
proof (cases "n \<le> 2")
  case True
  then have "n = 1 \<or> n = 2" using assms by auto
  then show ?thesis by (auto simp: op_rounds_def op_group_def full_group_def numeral_2_eq_2)
next
  case False
  then obtain k where k: "n = Suc (Suc k)" "1 \<le> k" by (cases n; cases "n - 1") auto
  have g: "op_group b n 0 = init_group b" "op_group b n (Suc k) = tl (steady_group b (slot_of (Suc k)))"
    "op_group b n (Suc (Suc k)) = tl (tl (steady_group b (slot_of (Suc (Suc k)))))"
    "j < k \<Longrightarrow> op_group b n (Suc j) = steady_group b (slot_of (Suc j))" for j
    using op_group_cases [of n b] k op_group_cases(2) [of n "Suc j" b] by simp_all
  have "(\<Sum>j<k. sig_types (op_group b n (Suc j))) = (\<Sum>j<k. {#IN, RUN, OUT#})"
    by (rule sum.cong) (simp_all add: g(4) steady_types)
  also have "\<dots> = replicate_mset k IN + replicate_mset k RUN + replicate_mset k OUT"
    by (induction k) simp_all
  finally have m: "(\<Sum>j<k. sig_types (op_group b n (Suc j))) = replicate_mset k IN + replicate_mset k RUN + replicate_mset k OUT" .
  have "op_rounds n = Suc (Suc (Suc k))" using k by (simp add: op_rounds_def)
  then have "(\<Sum>j<op_rounds n. sig_types (op_group b n j)) = sig_types (op_group b n 0)
      + (\<Sum>j<k. sig_types (op_group b n (Suc j))) + sig_types (op_group b n (Suc k)) + sig_types (op_group b n (Suc (Suc k)))"
    using sum.lessThan_Suc_shift [of "\<lambda>j. sig_types (op_group b n j)" k]
    by (simp only: sum.lessThan_Suc [of _ "Suc (Suc k)"] sum.lessThan_Suc [of _ "Suc k"])
  then show ?thesis unfolding m unfolding g by (simp add: init_group_def steady_group_def Let_def k(1))
qed


section \<open>Every step follows the plan\<close>

lemma tracks_read:
  assumes t: "tracks l r g0 g1 n a f tag X F w p" and u: "get_spu (l_spu_id l) (w_ppu w) = Inr u" "i_in_mbox u = req # rest"
  shows "\<exists>w' p'. read_request (l_spu_id l) u req rest w = Inr w' \<and> tracks l r g0 g1 n a f tag X F w' p'"
proof -
  let ?b = "l_cmd_id l" and ?i = "l_spu_id l"
  obtain d where d: "runs_op l a f tag d u (w_ppu w)" "core l r g0 g1 n u d p" "\<not> op_wait ?b n (rounds p) \<subseteq> received p"
    "spu_tracks l X F u p" "world_tracks ?b w p"
    using t u(1) unfolding tracks_def by (auto simp: runs_op_def)
  note k = core_dest [OF d(2)] and wt = d(5) [unfolded world_tracks_def]
  have mb: "map (\<lambda>req. unat (cmd_get_req_entry req)) (req # rest) = map (gid_of g0 g1 n) [fetched p..<rounds p]"
    using k(3) u(2) unfolding issued_ok_def by simp
  then have lt: "fetched p < rounds p" by (cases "fetched p < rounds p") auto
  then have rest: "unat (cmd_get_req_entry req) = gid_of g0 g1 n (fetched p)"
    "map (\<lambda>req. unat (cmd_get_req_entry req)) rest = map (gid_of g0 g1 n) [Suc (fetched p)..<rounds p]"
    using mb by (simp_all add: upt_rec)
  let ?g = "i_groups u ! gid_of g0 g1 n (fetched p)" and ?cs = "op_group ?b n (fetched p)"
  have g: "gid_of g0 g1 n (fetched p) < length (i_groups u)" using group_okD [OF k(2) gid_of_cases] by blast
  have cs: "map cmd_sig (g_cmds ?g) = ?cs"
    using k(3) lt by (auto simp: issued_ok_def holds_def grp_is_def)
  obtain S K where SK: "add_group_spec ?cs (unreported p) (spec p, kind_of p) = Some (S, K)"
    "plan.ok ?b n (p\<lparr>fetched := Suc (fetched p), spec := S, kind_of := K\<rparr>)"
    "plan.in_order ?b n (p\<lparr>fetched := Suc (fetched p), spec := S, kind_of := K\<rparr>)"
    "\<forall>x. x \<notin> ids ?cs \<longrightarrow> K x = kind_of p x" "\<forall>(x, t, D)\<in>set ?cs. K x = t"
    using plan.fetch_ok [OF k(8,9) lt] by blast
  note pS = add_group_spec_pend [OF SK(1)]
  let ?p = "p\<lparr>fetched := Suc (fetched p), spec := S, kind_of := K\<rparr>" and ?u = "u\<lparr>i_in_mbox := rest\<rparr>"
  let ?w = "w\<lparr>w_ppu := put_spu ?i ?u (w_ppu w), w_spec := S, w_kind := K\<rparr>"
  have "read_request ?i u req rest w = Inr ?w"
    using SK(1) g wt by (simp add: read_request_def rest(1) cs)
  moreover have "core l r g0 g1 n ?u d ?p" unfolding core_def
  proof (intro conjI)
    have "plan.outstanding ?b n ?p = plan.outstanding ?b n p"
      using plan.unfetched_Cons [OF lt, of ?b n] pS by (auto simp: plan.outstanding_def plan.unfetched_def)
    then show "bs (i_issued ?u) = plan.outstanding ?b n ?p \<union> unreported ?p \<union> posted ?p" using k(7) by simp
    show "issued_ok ?b g0 g1 n ?u ?p" using k(3) rest(2) by (auto simp: issued_ok_def holds_def)
  qed (use k SK in \<open>simp_all add: groups_ok_def spu_lsa_def phase_at_def\<close>)
  moreover have "world_tracks ?b ?w ?p"
  proof -
    have "K x = op_type ?b x" if "x \<in> pend S" for x
    proof (cases "x \<in> ids ?cs")
      case True
      then obtain t D where "(x, t, D) \<in> set ?cs" by (auto simp: ids_def)
      then show ?thesis using op_group_type SK(5) by blast
    next
      case False
      then show ?thesis using SK(4) pS wt that by auto
    qed
    then show ?thesis using wt by (simp add: world_tracks_def)
  qed
  moreover have "runs_op l a f tag d ?u (w_ppu ?w)"
    using d(1) get_put_same by (auto simp: runs_op_def)
  moreover have "spu_tracks l X F ?u ?p" using d(4) by (simp add: spu_tracks_def cong: option.case_cong)
  ultimately show ?thesis using d(3) unfolding tracks_def by (intro exI [of _ ?w] exI [of _ ?p]) auto
qed

lemma tracks_complete:
  assumes t: "tracks l r g0 g1 n a f tag X F w p" and x: "x \<in> pend (w_spec w)" "preds (w_spec w) x = {}"
  shows "\<exists>p'. tracks l r g0 g1 n a f tag X F (complete_command x w) p' \<and> history p' = history p @ [w_kind w x]"
proof -
  let ?b = "l_cmd_id l"
  obtain u d where d: "runs_op l a f tag d u (w_ppu w)" "core l r g0 g1 n u d p" "\<not> op_wait ?b n (rounds p) \<subseteq> received p"
    "spu_tracks l X F u p" "world_tracks ?b w p"
    using t unfolding tracks_def by blast
  note k = core_dest [OF d(2)] and wt = d(5) [unfolded world_tracks_def]
  have px: "x \<in> pend (spec p)" "preds (spec p) x = {}" using x wt by auto
  let ?p = "p\<lparr>spec := spec_complete x (spec p), unreported := insert x (unreported p), history := history p @ [kind_of p x]\<rparr>"
  note ok = plan.complete_ok [OF k(8,9) px]
  have x32: "x < 32"
  proof -
    have "x \<in> bs (i_issued u)" using k(7) px(1) by (auto simp: plan.outstanding_def)
    then show ?thesis by (rule bs_less)
  qed
  have out: "plan.outstanding ?b n ?p \<union> unreported ?p = plan.outstanding ?b n p \<union> unreported p"
  proof -
    have "x \<notin> ids (plan.unfetched ?b n p)" using plan.ok_parts(5) [OF k(8)] px(1) by (auto simp: disjnt_def)
    then show ?thesis using px(1) by (auto simp: plan.outstanding_def plan.unfetched_def spec_complete_def)
  qed
  have "core l r g0 g1 n u d ?p" unfolding core_def
  proof (intro conjI)
    show "bs (i_issued u) = plan.outstanding ?b n ?p \<union> unreported ?p \<union> posted ?p" unfolding out using k(7) by simp
    show "issued_ok ?b g0 g1 n u ?p" using k(3) by (simp add: issued_ok_def)
  qed (use k ok in simp_all)
  moreover have "world_tracks ?b (complete_command x w) ?p"
    using wt x32 by (auto simp: world_tracks_def complete_command_def bs_tag_bit spec_complete_def)
  moreover have "spu_tracks l X F u ?p" using d(4) by (simp add: spu_tracks_def cong: option.case_cong)
  ultimately show ?thesis using d(1,3) wt unfolding tracks_def
    by (intro exI [of _ ?p] conjI exI [of _ u] exI [of _ d]) (auto simp: complete_command_def)
qed

lemma tracks_report:
  assumes t: "tracks l r g0 g1 n a f tag X F w p" and u: "get_spu (l_spu_id l) (w_ppu w) = Inr u" "i_out_mbox u = None" "w_done w \<noteq> 0"
  shows "\<exists>p'. tracks l r g0 g1 n a f tag X F (report_done (l_spu_id l) u w) p'"
proof -
  let ?b = "l_cmd_id l" and ?i = "l_spu_id l"
  obtain d where d: "runs_op l a f tag d u (w_ppu w)" "core l r g0 g1 n u d p" "\<not> op_wait ?b n (rounds p) \<subseteq> received p"
    "spu_tracks l X F u p" "world_tracks ?b w p"
    using t u(1) unfolding tracks_def by (auto simp: runs_op_def)
  note k = core_dest [OF d(2)] and wt = d(5) [unfolded world_tracks_def]
  have e: "posted p = {}" using d(4) u(2) by (simp add: spu_tracks_def)
  let ?p = "p\<lparr>unreported := {}, posted := unreported p\<rparr>" and ?u = "u\<lparr>i_out_mbox := Some (w_done w)\<rparr>"
  have "core l r g0 g1 n ?u d ?p" unfolding core_def
  proof (intro conjI)
    have "plan.outstanding ?b n ?p = plan.outstanding ?b n p" by (simp add: plan.outstanding_def plan.unfetched_def)
    then show "bs (i_issued ?u) = plan.outstanding ?b n ?p \<union> unreported ?p \<union> posted ?p" using k(7) e by simp
    show "issued_ok ?b g0 g1 n ?u ?p" using k(3) by (simp add: issued_ok_def holds_def)
  qed (use k plan.report_ok [OF k(8,9) e] in \<open>simp_all add: groups_ok_def spu_lsa_def phase_at_def\<close>)
  moreover have "runs_op l a f tag d ?u (w_ppu (report_done ?i u w))"
    using d(1) get_put_same by (auto simp: runs_op_def report_done_def)
  moreover have "spu_tracks l X F ?u ?p" using d(4) u(3) wt by (simp add: spu_tracks_def)
  moreover have "world_tracks ?b (report_done ?i u w) ?p" using wt by (simp add: world_tracks_def report_done_def)
  ultimately show ?thesis using d(3) unfolding tracks_def by (intro exI [of _ ?p] conjI exI [of _ ?u] exI [of _ d]) auto
qed


text \<open>A message is handled: the operation goes on, or it is over.\<close>

lemma unfetched_empty: "plan.ok b n p \<Longrightarrow> plan.outstanding b n p = {} \<Longrightarrow> fetched p = rounds p"
proof (rule ccontr)
  assume p: "plan.ok b n p" "plan.outstanding b n p = {}" "fetched p \<noteq> rounds p"
  then have lt: "fetched p < rounds p" "fetched p < op_rounds n" using plan.ok_parts(2,3) [of b n p] by linarith+
  have "ids (op_group b n (fetched p)) = {}" using unfetched_ids [OF order_refl lt(1), of b n] p(2) by simp
  then show False using op_group_nonempty [OF lt(2), of b] by (simp add: ids_def)
qed

lemma over_when_finished:
  assumes c: "core l r g0 g1 n u d p" "rounds p = op_rounds n" "op_wait (l_cmd_id l) n (rounds p) \<subseteq> received p"
    and g: "op_gone l a g0 g1 u (w_ppu w)" and n: "0 < n"
    and t: "i_out_mbox u = None" "i_internal u AND NOT (push_bit (l_cmd_id l) 0x3f) = X" "i_free_group u = F" "world_tracks (l_cmd_id l) w p"
  shows "op_over l g0 g1 n a X F w"
proof -
  note k = core_dest [OF c(1)] and wt = t(4) [unfolded world_tracks_def]
  note fin = plan.finished [OF k(8) c(3,2)]
  have f: "fetched p = rounds p" by (rule unfetched_empty [OF k(8) fin(1)])
  have "i_issued u = 0" unfolding bs_zero_iff using k(7) fin by simp
  moreover have "i_in_mbox u = []" using k(3) f by (simp add: issued_ok_def)
  moreover have "w_done w = 0" unfolding bs_zero_iff using wt fin(2) by simp
  moreover have "pend (w_spec w) = {}" using wt fin(1) by (simp add: plan.outstanding_def)
  moreover have "mset (w_hist w) = replicate_mset n IN + replicate_mset n RUN + replicate_mset n OUT"
    using wt fin(4) all_types [OF n] by simp
  moreover have "g0 \<noteq> g1" using k(2) by (simp add: groups_ok_def)
  ultimately show ?thesis using g t by (simp add: op_over_def op_gone_def returned_def)
qed

definition in_box :: "nat \<Rightarrow> ('e, 'c) op_world \<Rightarrow> nat" where
  "in_box i w = (case get_spu i (w_ppu w) of Inl e \<Rightarrow> 0 | Inr u \<Rightarrow> length (i_in_mbox u))"

definition out_box :: "nat \<Rightarrow> ('e, 'c) op_world \<Rightarrow> nat" where
  "out_box i w = (case get_spu i (w_ppu w) of Inl e \<Rightarrow> 0 | Inr u \<Rightarrow> if i_out_mbox u = None then 0 else 1)"

lemma tracks_handle:
  assumes code: "runs_ext_spu gm code" "2 \<le> k" and n: "0 < n"
    and t: "tracks l r g0 g1 n a f tag X F w p" and u: "get_spu (l_spu_id l) (w_ppu w) = Inr u" "i_out_mbox u \<noteq> None"
  shows "\<exists>s. receive code k (l_spu_id l) (w_ppu w) = Inr s \<and>
    (op_over l g0 g1 n a X F (w\<lparr>w_ppu := s\<rparr>) \<or> (\<exists>p'. tracks l r g0 g1 n a f tag X F (w\<lparr>w_ppu := s\<rparr>) p')) \<and>
    in_box (l_spu_id l) (w\<lparr>w_ppu := s\<rparr>) \<le> 2 \<and> out_box (l_spu_id l) (w\<lparr>w_ppu := s\<rparr>) = 0"
proof -
  let ?b = "l_cmd_id l"
  obtain d where d: "runs_op l a f tag d u (w_ppu w)" "core l r g0 g1 n u d p" "\<not> op_wait ?b n (rounds p) \<subseteq> received p"
    "spu_tracks l X F u p" "world_tracks ?b w p"
    using t u(1) unfolding tracks_def by (auto simp: runs_op_def)
  obtain m where m: "i_out_mbox u = Some m" "bs m = posted p" "m \<noteq> 0" using d(4) u(2) by (auto simp: spu_tracks_def)
  let ?u = "u\<lparr>i_out_mbox := None, i_issued := i_issued u AND NOT m\<rparr>"
  from receive_handled [OF code d(1,2) m] obtain s d' u' p' where s: "receive code k (l_spu_id l) (w_ppu w) = Inr s"
    "same_rest ?u u'" "core l r g0 g1 n u' d' p'" "advanced (p\<lparr>posted := {}, received := received p \<union> posted p\<rparr>) p'"
    "if op_wait ?b n (rounds p') \<subseteq> received p' then rounds p' = op_rounds n \<and> op_gone l a g0 g1 u' s else runs_op l a f tag d' u' s"
    unfolding handled_def by blast
  let ?w = "w\<lparr>w_ppu := s\<rparr>"
  have st: "i_out_mbox u' = None" "i_internal u' AND NOT (push_bit ?b 0x3f) = X" "i_free_group u' = F" "world_tracks ?b ?w p'" "posted p' = {}"
    using d(4,5) s(2,4) by (auto simp: same_rest_fields spu_tracks_def world_tracks_def advanced_def)
  have mb: "length (i_in_mbox u') \<le> 2"
  proof -
    have "length (i_in_mbox u') = rounds p' - fetched p'"
      using core_dest(3) [OF s(3)] unfolding issued_ok_def by (metis length_map length_upt)
    moreover have "rounds p' \<le> fetched p' + 2" using core_dest(3) [OF s(3)] by (simp add: issued_ok_def)
    ultimately show ?thesis by linarith
  qed
  show ?thesis
  proof (cases "op_wait ?b n (rounds p') \<subseteq> received p'")
    case True
    then have g: "rounds p' = op_rounds n" "op_gone l a g0 g1 u' s" using s(5) by auto
    have "op_over l g0 g1 n a X F ?w"
      using over_when_finished [OF s(3) g(1) True _ n st(1-4)] g(2) by simp
    then show ?thesis using s(1) by (auto simp: op_over_def in_box_def out_box_def)
  next
    case False
    then have r: "runs_op l a f tag d' u' s" using s(5) by simp
    then have "tracks l r g0 g1 n a f tag X F ?w p'"
      unfolding tracks_def using s(3) False st by (intro exI [of _ u'] exI [of _ d']) (simp add: spu_tracks_def)
    moreover have "in_box (l_spu_id l) ?w \<le> 2" "out_box (l_spu_id l) ?w = 0"
      using r mb st(1) by (simp_all add: in_box_def out_box_def runs_op_def)
    ultimately show ?thesis using s(1) by blast
  qed
qed


section \<open>The steps that are left\<close>

definition work_left :: "nat \<Rightarrow> nat \<Rightarrow> ('e, 'c) op_world \<Rightarrow> nat" where
  "work_left n i w = 5 * (3 * n - length (w_hist w)) + (if w_done w = 0 then 0 else 4) + 3 * out_box i w + in_box i w"

lemma size_sum: "size (\<Sum>j<(m::nat). f j) = (\<Sum>j<m. size (f j))" for f :: "nat \<Rightarrow> 'a multiset"
  by (induction m) simp_all

lemma hist_bound:
  assumes "tracks l r g0 g1 n a f tag X F w p" "0 < n"
  shows "length (w_hist w) + card (pend (w_spec w)) \<le> 3 * n"
proof -
  let ?g = "op_group (l_cmd_id l) n"
  have ok: "plan.ok (l_cmd_id l) n p" and w: "w_hist w = history p" "w_spec w = spec p"
    using assms(1) by (auto simp: tracks_def world_tracks_def dest: core_dest(8))
  have "size (mset (history p) + pend_types p) \<le> size (\<Sum>j<rounds p. sig_types (?g j))"
    unfolding plan.ok_parts(11) [OF ok, symmetric] by simp
  also have "\<dots> \<le> size (\<Sum>j<op_rounds n. sig_types (?g j))"
    unfolding size_sum using plan.ok_parts(2) [OF ok] by (intro sum_mono2) auto
  also have "\<dots> = 3 * n" by (simp add: all_types [OF assms(2)])
  finally show ?thesis by (simp add: w pend_types_def)
qed

definition op_inv :: "ext_spu_layout \<Rightarrow> ext_spu_rates \<Rightarrow> nat \<Rightarrow> nat \<Rightarrow> nat \<Rightarrow> nat \<Rightarrow> nat \<Rightarrow> u32 \<Rightarrow> u32 \<Rightarrow> nat option
    \<Rightarrow> ('e, 'c) op_world \<Rightarrow> bool" where
  "op_inv l r g0 g1 n a f tag X F w \<longleftrightarrow> op_over l g0 g1 n a X F w \<or> (\<exists>p. tracks l r g0 g1 n a f tag X F w p)"

lemma over_no_step: "op_over l g0 g1 n a X F w \<Longrightarrow> \<not> op_step code k (l_spu_id l) w res"
  by (auto simp: op_over_def elim!: op_step.cases)

lemma step_ok:
  assumes code: "runs_ext_spu gm code" "2 \<le> k" and n: "0 < n"
    and inv: "op_inv l r g0 g1 n a f tag X F w" and step: "op_step code k (l_spu_id l) w res"
  shows "\<exists>w'. res = Inr w' \<and> op_inv l r g0 g1 n a f tag X F w' \<and> work_left n (l_spu_id l) w' < work_left n (l_spu_id l) w"
proof -
  let ?i = "l_spu_id l"
  obtain p where t: "tracks l r g0 g1 n a f tag X F w p"
    using inv over_no_step step unfolding op_inv_def by blast
  from step show ?thesis
  proof cases
    case (read u req rest)
    obtain w' p' where w': "read_request ?i u req rest w = Inr w'" "tracks l r g0 g1 n a f tag X F w' p'"
      using tracks_read [OF t read(2,3)] by blast
    have "work_left n ?i w' < work_left n ?i w"
      using w'(1) read(2,3) get_put_same [OF read(2)]
      by (auto simp: read_request_def res_simps work_left_def in_box_def out_box_def split: option.splits)
    then show ?thesis using w' read(1) unfolding op_inv_def by blast
  next
    case (complete x)
    obtain p' where p': "tracks l r g0 g1 n a f tag X F (complete_command x w) p'"
      using tracks_complete [OF t complete(2,3)] by blast
    have "finite (pend (w_spec w))"
      using t plan.finite_pend core_dest(8) unfolding tracks_def world_tracks_def by metis
    then have "0 < card (pend (w_spec w))" using complete(2) card_gt_0_iff by blast
    then have lt: "length (w_hist w) < 3 * n" using hist_bound [OF t n] by linarith
    have "work_left n ?i (complete_command x w) < work_left n ?i w"
      using lt by (auto simp: work_left_def complete_command_def in_box_def out_box_def)
    then show ?thesis using p' complete(1) unfolding op_inv_def by blast
  next
    case (report u)
    obtain p' where p': "tracks l r g0 g1 n a f tag X F (report_done ?i u w) p'"
      using tracks_report [OF t report(2-4)] by blast
    have "work_left n ?i (report_done ?i u w) < work_left n ?i w"
      using report(2-4) get_put_same [OF report(2)] by (simp add: work_left_def report_done_def in_box_def out_box_def)
    then show ?thesis using p' report(1) unfolding op_inv_def by blast
  next
    case (handle u)
    obtain s where s: "receive code k ?i (w_ppu w) = Inr s"
      "op_over l g0 g1 n a X F (w\<lparr>w_ppu := s\<rparr>) \<or> (\<exists>p'. tracks l r g0 g1 n a f tag X F (w\<lparr>w_ppu := s\<rparr>) p')"
      "in_box ?i (w\<lparr>w_ppu := s\<rparr>) \<le> 2" "out_box ?i (w\<lparr>w_ppu := s\<rparr>) = 0"
      using tracks_handle [OF code n t handle(2,3)] by blast
    have out: "out_box ?i w = 1" using handle(2,3) by (simp add: out_box_def)
    have "work_left n ?i (w\<lparr>w_ppu := s\<rparr>) < work_left n ?i w"
      using s(3,4) out by (simp add: work_left_def)
    then show ?thesis using s handle(1) unfolding op_inv_def by simp
  qed
qed

lemma run_ok:
  assumes "op_run code k (l_spu_id l) m w w'" "runs_ext_spu gm code" "2 \<le> k" "0 < n" "op_inv l r g0 g1 n a f tag X F w"
  shows "op_inv l r g0 g1 n a f tag X F w' \<and> m + work_left n (l_spu_id l) w' \<le> work_left n (l_spu_id l) w"
  using assms
proof (induction rule: op_run.induct)
  case (start w)
  then show ?case by simp
next
  case (step m w v v')
  have v: "op_inv l r g0 g1 n a f tag X F v" "m + work_left n (l_spu_id l) v \<le> work_left n (l_spu_id l) w"
    using step.IH [OF step.prems] by blast+
  obtain w' where "Inr v' = (Inr w' :: (fault + ('a, 'b) op_world))" "op_inv l r g0 g1 n a f tag X F w'"
    "work_left n (l_spu_id l) w' < work_left n (l_spu_id l) v"
    using step_ok [OF step.prems(1-3) v(1) step.hyps(2)] by blast
  then show ?case using v(2) by simp
qed

text \<open>Unless the operation is over some step is possible.\<close>

lemma some_step:
  assumes t: "tracks l r g0 g1 n a f tag X F w p"
  shows "\<exists>res. op_step code k (l_spu_id l) w res"
proof -
  let ?b = "l_cmd_id l" and ?i = "l_spu_id l"
  obtain u d where d: "runs_op l a f tag d u (w_ppu w)" "core l r g0 g1 n u d p" "\<not> op_wait ?b n (rounds p) \<subseteq> received p"
    "spu_tracks l X F u p" "world_tracks ?b w p"
    using t unfolding tracks_def by blast
  have u: "get_spu ?i (w_ppu w) = Inr u" using d(1) by (simp add: runs_op_def)
  show ?thesis
  proof (cases "i_out_mbox u = None")
    case False
    then show ?thesis using op_step.handle [OF u] by blast
  next
    case True
    then have "posted p = {}" using d(4) by (simp add: spu_tracks_def)
    then consider "fetched p < rounds p" | x where "x \<in> pend (spec p)" "preds (spec p) x = {}" | "unreported p \<noteq> {}"
      using plan.progress [OF core_dest(8) [OF d(2)] d(3)] by blast
    then show ?thesis
    proof cases
      case 1
      then have "i_in_mbox u \<noteq> []" using core_dest(3) [OF d(2)] by (auto simp: issued_ok_def)
      then obtain req rest where "i_in_mbox u = req # rest" by (cases "i_in_mbox u") auto
      then show ?thesis using op_step.read [OF u] by blast
    next
      case 2
      then show ?thesis using op_step.complete d(5) unfolding world_tracks_def by metis
    next
      case 3
      then have "w_done w \<noteq> 0" using d(5) by (auto simp: world_tracks_def)
      then show ?thesis using op_step.report [OF u True] by blast
    qed
  qed
qed


section \<open>The beginning\<close>

lemma begins:
  assumes u: "get_spu (l_spu_id l) s = Inr u" and r: "op_ready l r g0 g1 iters u" and S: "pend S = {}"
  shows "\<exists>w. op_begins gm d0 a l r iters cb tag s S K = Inr w \<and>
    op_inv l r g0 g1 (unat iters) a cb tag (i_internal u) (i_next_free u g1) w \<and> work_left (unat iters) (l_spu_id l) w = 15 * unat iters + 1"
proof -
  let ?b = "l_cmd_id l" and ?i = "l_spu_id l" and ?n = "unat iters"
  obtain s' d v where s': "ext_spu gm d0 (Some a) l r iters cb tag s = Inr (a, s')" "runs_op l a cb tag d v s'"
    "same_rest (taken l a g1 u) v" "core l r g0 g1 ?n v d (start_pipe S K)"
    using op_starts [OF u r S] by blast
  let ?w = "\<lparr>w_ppu = s', w_spec = S, w_kind = K, w_done = 0, w_hist = []\<rparr>"
  have out: "i_out_mbox v = None" using s'(3) r by (simp add: same_rest_fields taken_def op_ready_def)
  have "(i_internal u OR push_bit ?b 0x3f) AND NOT (push_bit ?b 0x3f) = i_internal u"
  proof -
    have "bs (i_internal u) \<inter> bs (push_bit ?b 0x3f) = {}"
      using r by (auto simp: op_ready_def bs_zero_iff)
    then show ?thesis unfolding bs_eq_iff bs_simps(5) bs_simps(1) by blast
  qed
  then have "spu_tracks l (i_internal u) (i_next_free u g1) v (start_pipe S K)"
    using s'(3) out by (simp add: spu_tracks_def same_rest_fields taken_def start_pipe_def)
  moreover have "\<not> op_wait ?b ?n (rounds (start_pipe S K)) \<subseteq> received (start_pipe S K)"
    using plan.not_yet [OF core_dest(8) [OF s'(4)]] by (simp add: start_pipe_def)
  moreover have "world_tracks ?b ?w (start_pipe S K)" using S by (simp add: world_tracks_def start_pipe_def)
  ultimately have "tracks l r g0 g1 ?n a cb tag (i_internal u) (i_next_free u g1) ?w (start_pipe S K)"
    unfolding tracks_def using s'(2,4) by (intro exI [of _ v] exI [of _ d]) simp
  moreover have "length (i_in_mbox v) = 1"
  proof -
    have "map (\<lambda>req. unat (cmd_get_req_entry req)) (i_in_mbox v) = map (gid_of g0 g1 ?n) [0..<1]"
      using core_dest(3) [OF s'(4)] by (simp add: issued_ok_def start_pipe_def)
    then show ?thesis by (metis length_map length_upt diff_zero)
  qed
  then have "work_left ?n ?i ?w = 15 * ?n + 1"
    using s'(2) out by (simp add: work_left_def in_box_def out_box_def runs_op_def)
  ultimately show ?thesis using s'(1) unfolding op_inv_def by (auto simp: op_begins_def)
qed

lemma iters_pos: "op_ready l r g0 g1 iters u \<Longrightarrow> 0 < unat iters"
  by (simp add: op_ready_def unat_gt_0)

section \<open>Properties\<close>

text \<open>C9: on an idle SPU whose IDs and two internal groups are free, an operation between two SPU buffers
  starts, and whatever the order in which the SPU completes commands, reads requests and reports,
  and the PPU handles messages, no step ever fails a check or an assertion of either side: no ID is issued or
  added while it is in use, no group is overwritten before the SPU has read it, no mailbox overflows.\<close>

theorem operation_never_faults:
  assumes "runs_ext_spu gm code" "2 \<le> k" "get_spu (l_spu_id l) s = Inr u" "op_ready l r g0 g1 iters u" "pend S = {}"
  shows "\<exists>w0. op_begins gm d0 a l r iters cb tag s S K = Inr w0 \<and>
    (\<forall>m w res. op_run code k (l_spu_id l) m w0 w \<and> op_step code k (l_spu_id l) w res \<longrightarrow> (\<exists>w'. res = Inr w'))"
proof -
  obtain w0 where w0: "op_begins gm d0 a l r iters cb tag s S K = Inr w0"
    "op_inv l r g0 g1 (unat iters) a cb tag (i_internal u) (i_next_free u g1) w0"
    using begins [OF assms(3-5)] by blast
  show ?thesis
  proof (rule exI [of _ w0], intro conjI w0(1) allI impI, elim conjE)
    fix m w res assume "op_run code k (l_spu_id l) m w0 w" "op_step code k (l_spu_id l) w res"
    then show "\<exists>w'. res = Inr w'"
      using run_ok [OF _ assms(1,2) iters_pos [OF assms(4)] w0(2)] step_ok [OF assms(1,2) iters_pos [OF assms(4)]] by blast
  qed
qed

text \<open>C12: an operation of \<open>n\<close> iterations ends: no run has more than \<open>15 n + 1\<close> steps, and a run that cannot
  go on has retired the operation.\<close>

theorem operation_ends:
  assumes "runs_ext_spu gm code" "2 \<le> k" "get_spu (l_spu_id l) s = Inr u" "op_ready l r g0 g1 iters u" "pend S = {}"
  shows "\<exists>w0. op_begins gm d0 a l r iters cb tag s S K = Inr w0 \<and>
    (\<forall>m w. op_run code k (l_spu_id l) m w0 w \<longrightarrow> m \<le> 15 * unat iters + 1 \<and>
      ((\<forall>res. \<not> op_step code k (l_spu_id l) w res) \<longrightarrow> op_heap (w_ppu w) a = None))"
proof -
  obtain w0 where w0: "op_begins gm d0 a l r iters cb tag s S K = Inr w0"
    "op_inv l r g0 g1 (unat iters) a cb tag (i_internal u) (i_next_free u g1) w0"
    "work_left (unat iters) (l_spu_id l) w0 = 15 * unat iters + 1"
    using begins [OF assms(3-5)] by blast
  show ?thesis
  proof (rule exI [of _ w0], intro conjI w0(1) allI impI)
    fix m w assume "op_run code k (l_spu_id l) m w0 w"
    then have w: "op_inv l r g0 g1 (unat iters) a cb tag (i_internal u) (i_next_free u g1) w" "m + work_left (unat iters) (l_spu_id l) w \<le> 15 * unat iters + 1"
      using run_ok [OF _ assms(1,2) iters_pos [OF assms(4)] w0(2)] w0(3) by auto
    then show "m \<le> 15 * unat iters + 1" by simp
    assume "\<forall>res. \<not> op_step code k (l_spu_id l) w res"
    then have "\<not> tracks l r g0 g1 (unat iters) a cb tag (i_internal u) (i_next_free u g1) w p" for p
      using some_step by blast
    then show "op_heap (w_ppu w) a = None" using w(1) by (auto simp: op_inv_def op_over_def)
  qed
qed

text \<open>C11: once the PPU has retired an operation, the SPU has completed exactly one read, one run and one write
  for each iteration; nothing is issued, pending or on its way any more; and the IDs and both command groups
  are free again, so that the SPU is ready for the next operation.\<close>

theorem operation_result:
  assumes "runs_ext_spu gm code" "2 \<le> k" "get_spu (l_spu_id l) s = Inr u" "op_ready l r g0 g1 iters u" "pend S = {}"
  shows "\<exists>w0. op_begins gm d0 a l r iters cb tag s S K = Inr w0 \<and>
    (\<forall>m w. op_run code k (l_spu_id l) m w0 w \<and> op_heap (w_ppu w) a = None \<longrightarrow>
      count (mset (w_hist w)) IN = unat iters \<and> count (mset (w_hist w)) RUN = unat iters \<and>
      count (mset (w_hist w)) OUT = unat iters \<and> length (w_hist w) = 3 * unat iters \<and>
      w_done w = 0 \<and> pend (w_spec w) = {} \<and>
      (\<exists>v. get_spu (l_spu_id l) (w_ppu w) = Inr v \<and> i_ops v = None \<and> i_issued v = 0 \<and> i_in_mbox v = [] \<and> i_out_mbox v = None \<and>
        i_internal v = i_internal u \<and> i_free_group v = Some g1 \<and> i_next_free v g1 = Some g0 \<and> i_next_free v g0 = i_next_free u g1))"
proof -
  obtain w0 where w0: "op_begins gm d0 a l r iters cb tag s S K = Inr w0"
    "op_inv l r g0 g1 (unat iters) a cb tag (i_internal u) (i_next_free u g1) w0"
    using begins [OF assms(3-5)] by blast
  show ?thesis
  proof (rule exI [of _ w0], rule conjI [OF w0(1)], intro allI impI, elim conjE)
    fix m w assume run: "op_run code k (l_spu_id l) m w0 w" and a: "op_heap (w_ppu w) a = None"
    have "op_inv l r g0 g1 (unat iters) a cb tag (i_internal u) (i_next_free u g1) w"
      using run_ok [OF run assms(1,2) iters_pos [OF assms(4)] w0(2)] by blast
    then have over: "op_over l g0 g1 (unat iters) a (i_internal u) (i_next_free u g1) w"
      using a unfolding op_inv_def tracks_def runs_op_def by auto
    then have h: "mset (w_hist w) = replicate_mset (unat iters) IN + replicate_mset (unat iters) RUN + replicate_mset (unat iters) OUT"
      by (simp add: op_over_def)
    then have "length (w_hist w) = 3 * unat iters" by (simp flip: size_mset)
    moreover have "count (mset (w_hist w)) IN = unat iters" "count (mset (w_hist w)) RUN = unat iters" "count (mset (w_hist w)) OUT = unat iters"
      unfolding h by (simp_all add: SPU_CMD_DT_IN_BACK_def SPU_CMD_FILTER_RUN_def SPU_CMD_DT_OUT_FRONT_def)
    ultimately show "count (mset (w_hist w)) IN = unat iters \<and> count (mset (w_hist w)) RUN = unat iters \<and>
      count (mset (w_hist w)) OUT = unat iters \<and> length (w_hist w) = 3 * unat iters \<and>
      w_done w = 0 \<and> pend (w_spec w) = {} \<and>
      (\<exists>v. get_spu (l_spu_id l) (w_ppu w) = Inr v \<and> i_ops v = None \<and> i_issued v = 0 \<and> i_in_mbox v = [] \<and> i_out_mbox v = None \<and>
        i_internal v = i_internal u \<and> i_free_group v = Some g1 \<and> i_next_free v g1 = Some g0 \<and> i_next_free v g0 = i_next_free u g1)"
      using over unfolding op_over_def by blast
  qed
qed


section \<open>Witnesses\<close>

text \<open>An operation on the only SPU of a small system: the transfers go to and from other local stores.\<close>

definition demo_layout :: ext_spu_layout where
  "demo_layout = \<lparr>l_spu_id = 0, l_cmd_id = 4, l_da = 1024, l_in = On_Spu 0x100000, l_in_size = 512, l_local_in = 0,
     l_filt = 64, l_local_out = 128, l_out = On_Spu 0x200000\<rparr>"

definition demo_rates :: ext_spu_rates where
  "demo_rates = \<lparr>r_in = 32, r_run = 1, r_loop = 1, r_out = 64\<rparr>"

definition demo_info :: spu_info where
  "demo_info = \<lparr>i_data_start = 8192, i_data_size = 0, i_data_addr = 0,
     i_groups = map (\<lambda>g. \<lparr>g_spu_id = 0, g_gid = g, g_size = 0, g_cmds = []\<rparr>) [0..<40],
     i_next_free = (\<lambda>g. if g < 39 then Some (g + 1) else None), i_free_group = Some 32, i_internal = 0, i_completed = 1, i_issued = 0,
     i_dt_waiting = [], i_dt_mask = 0, i_complete_cb = None, i_dt_cb = None, i_ops = None, i_in_mbox = [], i_out_mbox = None\<rparr>"

definition demo_ppu :: "(unit, nat) ext_ppu" where
  "demo_ppu = \<lparr>spus = [demo_info], op_heap = Map.empty, pmem = \<lparr>bufs = Map.empty, datas = Map.empty\<rparr>, ua_head = (\<lambda>_. []), ua_tail = (\<lambda>_. []),
     front_dtcb = (\<lambda>_ _. (0, 0)), back_dtcb = (\<lambda>_ _. (0, 0)), next_poll = 0, client = 0\<rparr>"

definition demo_code :: "group_mem \<Rightarrow> (ext_spu_data + unit, nat) lib_code" where
  "demo_code gm = \<lparr>run_op = (\<lambda>h a m s. ext_spu_handler gm (\<lambda>_ _. Inr) 7 a m s),
     run_generic = (\<lambda>f tag s. Inr (s\<lparr>client := client s + 1\<rparr>)), run_complete = (\<lambda>_ _ _ _. Inr)\<rparr>"

lemma demo_runs: "runs_ext_spu gm (demo_code gm)"
  unfolding runs_ext_spu_def demo_code_def by auto

lemma demo_get: "get_spu (l_spu_id demo_layout) demo_ppu = Inr demo_info"
  by (simp add: get_spu_def demo_ppu_def demo_layout_def)

lemma demo_ready: "iters \<noteq> 0 \<Longrightarrow> op_ready demo_layout demo_rates 32 33 iters demo_info"
  by (simp add: op_ready_def demo_info_def demo_layout_def demo_rates_def spu_to_spu_def spu_lsa_def CACHE_MASK_def)


definition no_commands :: dep_spec where
  "no_commands = \<lparr>pend = {}, preds = (\<lambda>_. {})\<rparr>"

lemma no_commands_pend: "pend no_commands = {}"
  by (simp add: no_commands_def)

theorem operation_never_faults_witness:
  "\<forall>gm d0. \<exists>w0. op_begins gm d0 7 demo_layout demo_rates 3 0 9 demo_ppu no_commands (\<lambda>_. 0) = Inr w0 \<and>
    (\<forall>m w res. op_run (demo_code gm) 2 0 m w0 w \<and> op_step (demo_code gm) 2 0 w res \<longrightarrow> (\<exists>w'. res = Inr w'))"
  using operation_never_faults [OF demo_runs order_refl demo_get demo_ready no_commands_pend, where iters = 3]
  by (simp add: demo_layout_def)

theorem operation_ends_witness:
  "\<forall>gm d0. \<exists>w0. op_begins gm d0 7 demo_layout demo_rates 3 0 9 demo_ppu no_commands (\<lambda>_. 0) = Inr w0 \<and>
    (\<forall>m w. op_run (demo_code gm) 2 0 m w0 w \<longrightarrow> m \<le> 46 \<and>
      ((\<forall>res. \<not> op_step (demo_code gm) 2 0 w res) \<longrightarrow> op_heap (w_ppu w) 7 = None))"
  using operation_ends [OF demo_runs order_refl demo_get demo_ready no_commands_pend, where iters = 3]
  by (simp add: demo_layout_def)

theorem operation_result_witness:
  "\<forall>gm d0. \<exists>w0. op_begins gm d0 7 demo_layout demo_rates 3 0 9 demo_ppu no_commands (\<lambda>_. 0) = Inr w0 \<and>
    (\<forall>m w. op_run (demo_code gm) 2 0 m w0 w \<and> op_heap (w_ppu w) 7 = None \<longrightarrow>
      count (mset (w_hist w)) IN = 3 \<and> count (mset (w_hist w)) RUN = 3 \<and> count (mset (w_hist w)) OUT = 3)"
proof (intro allI)
  fix gm :: group_mem and d0 :: ext_spu_data
  show "\<exists>w0. op_begins gm d0 7 demo_layout demo_rates 3 0 9 demo_ppu no_commands (\<lambda>_. 0) = Inr w0 \<and>
    (\<forall>m w. op_run (demo_code gm) 2 0 m w0 w \<and> op_heap (w_ppu w) 7 = None \<longrightarrow>
      count (mset (w_hist w)) IN = 3 \<and> count (mset (w_hist w)) RUN = 3 \<and> count (mset (w_hist w)) OUT = 3)"
    using operation_result [OF demo_runs order_refl demo_get demo_ready no_commands_pend, where iters = 3 and gm = gm
      and ?d0.0 = d0 and a = 7 and cb = 0 and tag = 9 and K = "\<lambda>_. 0"]
    by (simp add: demo_layout_def) blast
qed

end
