(* ===== verification/Ext_Buffering.thy ===== *)
theory Ext_Buffering
  imports Ext_System
begin

text \<open>
  Double buffering: how far the reads, runs and writes of an input-run-output operation
  (\<open>library/cell/src/ppu/extspu.c\<close>) can be apart, whatever the SPU and the PPU do in between.
\<close>

section \<open>How many commands have completed\<close>

text \<open>What is issued by round \<open>m\<close>, of each type; \<open>left O xs\<close> counts the IDs of \<open>xs\<close> in \<open>O\<close>.\<close>

definition issued_of :: "nat \<Rightarrow> nat \<Rightarrow> nat \<Rightarrow> nat" where
  "issued_of n m t = count (\<Sum>j<m. sig_types (op_group 0 n j)) t"

definition left :: "nat set \<Rightarrow> nat \<Rightarrow> nat \<Rightarrow> nat" where
  "left U x y = of_bool (x \<in> U) + of_bool (y \<in> U)"

lemma sig_types_shift: "sig_types (op_group b n j) = sig_types (op_group 0 n j)"
  by (auto simp: op_group_def init_group_def full_group_def steady_group_def Let_def drop_Cons' sig_types_def sig_type_def)

lemma count_image: "finite A \<Longrightarrow> count (image_mset f (mset_set A)) t = card {x \<in> A. f x = t}"
  by (simp add: count_image_mset vimage_def Int_def conj_commute)

lemma completed_of:
  assumes t: "tracks l r g0 g1 n a f tag X F w p"
  shows "count (mset (w_hist w)) t + card {x \<in> plan.outstanding (l_cmd_id l) n p. op_type (l_cmd_id l) x = t}
    = issued_of n (rounds p) t"
proof -
  let ?b = "l_cmd_id l"
  have ok: "plan.ok ?b n p" and w: "w_hist w = history p" and k: "\<forall>x\<in>pend (spec p). kind_of p x = op_type ?b x"
    using t by (auto simp: tracks_def world_tracks_def dest: core_dest(8))
  note o = plan.ok_parts [OF ok]
  have fin: "finite (pend (spec p))" by (rule plan.finite_pend [OF ok])
  have "\<forall>(x, t, D)\<in>set (plan.unfetched ?b n p). op_type ?b x = t"
    using op_group_type by (fastforce simp: plan.unfetched_def)
  then have u: "sig_types (plan.unfetched ?b n p) = image_mset (op_type ?b) (mset_set (ids (plan.unfetched ?b n p)))"
    by (rule sig_types_ids [OF o(9)])
  have p: "pend_types p = image_mset (op_type ?b) (mset_set (pend (spec p)))"
    unfolding pend_types_def using k fin by (intro image_mset_cong) simp
  have un: "pend_types p + sig_types (plan.unfetched ?b n p) = image_mset (op_type ?b) (mset_set (plan.outstanding ?b n p))"
    unfolding u p plan.outstanding_def using fin o(5)
    by (subst mset_set_Union) (auto simp: disjnt_def union_commute)
  have "mset (history p) + image_mset (op_type ?b) (mset_set (plan.outstanding ?b n p)) = (\<Sum>j<rounds p. sig_types (op_group 0 n j))"
    unfolding un [symmetric] sig_types_shift [of ?b, symmetric] o(11) [symmetric] by (simp add: add.assoc)
  from arg_cong [where f = "\<lambda>M. count M t", OF this]
  have "count (mset (history p)) t + count (image_mset (op_type ?b) (mset_set (plan.outstanding ?b n p))) t = issued_of n (rounds p) t"
    unfolding issued_of_def count_union .
  moreover have "finite (plan.outstanding ?b n p)" using fin by (simp add: plan.outstanding_def)
  ultimately show ?thesis unfolding w by (simp only: count_image)
qed

lemma left_of:
  assumes "U \<subseteq> {b..<b + 6}"
  shows "card {x \<in> U. op_type b x = IN} = left U b (b + 3)" "card {x \<in> U. op_type b x = RUN} = left U (b + 1) (b + 4)"
    "card {x \<in> U. op_type b x = OUT} = left U (b + 2) (b + 5)"
proof -
  have ty: "IN \<noteq> RUN" "IN \<noteq> OUT" "RUN \<noteq> OUT" by (simp_all add: cmd_type_defs)
  have two: "card {x. (x = y \<or> x = z) \<and> x \<in> U} = left U y z" if "y \<noteq> z" for y z
  proof -
    have "{x. (x = y \<or> x = z) \<and> x \<in> U} = (if y \<in> U then {y} else {}) \<union> (if z \<in> U then {z} else {})" by auto
    then show ?thesis using that by (simp add: left_def)
  qed
  have "{x \<in> U. op_type b x = IN} = {x. (x = b \<or> x = b + 3) \<and> x \<in> U}" using ty by (auto simp: op_type_def)
  then show "card {x \<in> U. op_type b x = IN} = left U b (b + 3)" using two [of b "b + 3"] by simp
  have "{x \<in> U. op_type b x = RUN} = {x. (x = b + 1 \<or> x = b + 4) \<and> x \<in> U}" using ty by (auto simp: op_type_def)
  then show "card {x \<in> U. op_type b x = RUN} = left U (b + 1) (b + 4)" using two [of "b + 1" "b + 4"] by simp
  have "{x \<in> U. op_type b x = OUT} = {x. (x = b + 2 \<or> x = b + 5) \<and> x \<in> U}"
  proof -
    have "x = b \<or> x = b + 1 \<or> x = b + 2 \<or> x = b + 3 \<or> x = b + 4 \<or> x = b + 5" if "x \<in> U" for x
      using assms that by force
    then show ?thesis using ty by (auto simp: op_type_def)
  qed
  then show "card {x \<in> U. op_type b x = OUT} = left U (b + 2) (b + 5)" using two [of "b + 2" "b + 5"] by simp
qed

text \<open>The closed forms of what has been issued.\<close>

lemma issued_long:
  assumes "3 \<le> n" "0 < m" "m \<le> n + 1"
  shows "issued_of n m IN = min n (m + 1)" "issued_of n m RUN = min n m" "issued_of n m OUT = m - 1"
proof -
  have ty: "IN \<noteq> RUN" "IN \<noteq> OUT" "RUN \<noteq> OUT" by (simp_all add: cmd_type_defs)
  have more: "issued_of n (Suc m) t = issued_of n m t + count (sig_types (op_group 0 n m)) t" for m t
    by (simp add: issued_of_def)
  have "issued_of n (Suc m) IN = min n (m + 2) \<and> issued_of n (Suc m) RUN = min n (m + 1) \<and> issued_of n (Suc m) OUT = m" if "m \<le> n" for m
    using that
  proof (induction m)
    case 0
    have "issued_of n 1 t = count (sig_types (init_group 0)) t" for t
      using assms(1) by (simp add: issued_of_def op_group_cases)
    then show ?case using assms(1) ty by (simp add: init_group_def)
  next
    case (Suc m)
    let ?k = "slot_of (Suc m)"
    consider "Suc m \<le> n - 2" | "Suc m = n - 1" | "Suc m = n" using Suc.prems by linarith
    then show ?case
    proof cases
      case 1
      then have "op_group 0 n (Suc m) = steady_group 0 ?k" using op_group_cases(2) [OF assms(1)] by simp
      then show ?thesis using Suc.IH 1 ty assms(1) unfolding more [of "Suc m"] by (simp add: steady_types)
    next
      case 2
      then have "op_group 0 n (Suc m) = tl (steady_group 0 ?k)" using op_group_cases(3) [OF assms(1)] by simp
      then show ?thesis using Suc.IH 2 ty assms(1) unfolding more [of "Suc m"] by (simp add: steady_group_def Let_def)
    next
      case 3
      then have "op_group 0 n (Suc m) = tl (tl (steady_group 0 ?k))" using op_group_cases(4) [OF assms(1)] by simp
      then show ?thesis using Suc.IH 3 ty assms(1) unfolding more [of "Suc m"] by (simp add: steady_group_def Let_def)
    qed
  qed
  from this [of "m - 1"] show "issued_of n m IN = min n (m + 1)" "issued_of n m RUN = min n m" "issued_of n m OUT = m - 1"
    using assms(2,3) by (simp_all add: numeral_2_eq_2)
qed


section \<open>Bounds on the counts\<close>

text \<open>Reads are ahead of runs and runs ahead of writes, by at most the two halves of a buffer.\<close>

definition double_buffered :: "nat \<Rightarrow> nat \<Rightarrow> nat \<Rightarrow> nat \<Rightarrow> bool" where
  "double_buffered n ins runs outs \<longleftrightarrow> ins \<le> n \<and> outs \<le> runs \<and> runs \<le> ins \<and> ins \<le> runs + 2 \<and> runs \<le> outs + 2"

lemma long_counts:
  fixes i i' r r' q q' :: nat
  assumes n: "3 \<le> n" "2 \<le> m" "m \<le> n + 1"
    and c: "ins + (i + i') = min n (m + 1)" "runs + (r + r') = min n m" "outs + (q + q') = m - 1"
    and le: "i \<le> 1" "i' \<le> 1" "r \<le> 1" "r' \<le> 1" "q \<le> 1" "q' \<le> 1"
    and d: "m < n \<Longrightarrow> i' \<le> i \<and> r' \<le> i" "m \<le> n \<Longrightarrow> i' \<le> r \<and> r' \<le> r \<and> q' \<le> r" "r' \<le> q \<and> q' \<le> q"
      "m = n \<Longrightarrow> i = 0" "m = n + 1 \<Longrightarrow> i = 0 \<and> i' = 0 \<and> r = 0"
  shows "double_buffered n ins runs outs"
proof -
  consider "m < n" | "m = n" | "m = n + 1" using n by linarith
  then show ?thesis unfolding double_buffered_def
  proof cases
    case 1
    then show "ins \<le> n \<and> outs \<le> runs \<and> runs \<le> ins \<and> ins \<le> runs + 2 \<and> runs \<le> outs + 2"
      using c le d(1-3) n by (intro conjI; linarith)
  next
    case 2
    then show "ins \<le> n \<and> outs \<le> runs \<and> runs \<le> ins \<and> ins \<le> runs + 2 \<and> runs \<le> outs + 2"
      using c le d(2-4) n by (intro conjI; linarith)
  next
    case 3
    then show "ins \<le> n \<and> outs \<le> runs \<and> runs \<le> ins \<and> ins \<le> runs + 2 \<and> runs \<le> outs + 2"
      using c le d(3,5) n by (intro conjI; linarith)
  qed
qed

text \<open>What is outstanding of the newest group holds up what depends on it.\<close>

lemma newest_waits:
  "plan.in_order b n p \<Longrightarrow> (x, t, D) \<in> set (op_group b n (rounds p - 1)) \<Longrightarrow> x \<notin> plan.outstanding b n p \<Longrightarrow>
   D \<inter> plan.outstanding b n p = {}"
  unfolding plan.in_order_def by blast

lemma outstanding_live: "plan.ok b n p \<Longrightarrow> plan.outstanding b n p \<subseteq> plan.live b n (rounds p)"
  using plan.ok_parts(4) by (fastforce simp: plan.outstanding_def)

lemma left_slots:
  assumes "k \<le> 1"
  shows "left U b (b + 3) = of_bool (b + 3 * k \<in> U) + of_bool (b + 3 * (1 - k) \<in> U)"
    "left U (b + 1) (b + 4) = of_bool (b + 3 * k + 1 \<in> U) + of_bool (b + 3 * (1 - k) + 1 \<in> U)"
    "left U (b + 2) (b + 5) = of_bool (b + 3 * k + 2 \<in> U) + of_bool (b + 3 * (1 - k) + 2 \<in> U)"
proof -
  have a: "b + 3 * 1 + 1 = b + 4" "b + 3 * 1 + 2 = b + 5" by simp_all
  consider "k = 0" "1 - k = 1" | "k = 1" "1 - k = 0" using assms by linarith
  then have "left U b (b + 3) = of_bool (b + 3 * k \<in> U) + of_bool (b + 3 * (1 - k) \<in> U) \<and>
    left U (b + 1) (b + 4) = of_bool (b + 3 * k + 1 \<in> U) + of_bool (b + 3 * (1 - k) + 1 \<in> U) \<and>
    left U (b + 2) (b + 5) = of_bool (b + 3 * k + 2 \<in> U) + of_bool (b + 3 * (1 - k) + 2 \<in> U)"
  proof cases
    case 1
    show ?thesis unfolding 1(2) unfolding 1(1) a left_def by simp
  next
    case 2
    show ?thesis unfolding 2(2) unfolding 2(1) a left_def by simp
  qed
  then show "left U b (b + 3) = of_bool (b + 3 * k \<in> U) + of_bool (b + 3 * (1 - k) \<in> U)"
    "left U (b + 1) (b + 4) = of_bool (b + 3 * k + 1 \<in> U) + of_bool (b + 3 * (1 - k) + 1 \<in> U)"
    "left U (b + 2) (b + 5) = of_bool (b + 3 * k + 2 \<in> U) + of_bool (b + 3 * (1 - k) + 2 \<in> U)"
    by blast+
qed

lemma first_round_bounds:
  assumes ok: "plan.ok b n p" "plan.in_order b n p" and n: "3 \<le> n" "rounds p = 1"
    and c: "ins + left (plan.outstanding b n p) b (b + 3) = issued_of n 1 IN"
      "runs + left (plan.outstanding b n p) (b + 1) (b + 4) = issued_of n 1 RUN"
      "outs + left (plan.outstanding b n p) (b + 2) (b + 5) = issued_of n 1 OUT"
  shows "double_buffered n ins runs outs"
proof -
  let ?U = "plan.outstanding b n p"
  have g: "op_group b n (rounds p - 1) = init_group b" using n op_group_cases(1) by simp
  have "?U \<subseteq> ids (init_group b)"
    using outstanding_live [OF ok(1)] n op_wait_cases(1) [OF n(1), of b] g by (auto simp: plan.live_def init_group_def)
  then have "b + 1 \<notin> ?U" "b + 2 \<notin> ?U" "b + 5 \<notin> ?U" by (auto simp: init_group_def)
  moreover have "b \<in> ?U \<longrightarrow> b + 3 \<in> ?U \<and> b + 4 \<in> ?U"
    using newest_waits [OF ok(2), of "b + 3" IN "{b}"] newest_waits [OF ok(2), of "b + 4" RUN "{b}"] unfolding g
    by (auto simp: init_group_def)
  ultimately have "outs = 0" "runs + of_bool (b + 4 \<in> ?U) = 1" "ins + (of_bool (b \<in> ?U) + of_bool (b + 3 \<in> ?U)) = 2"
    "of_bool (b \<in> ?U) \<le> (of_bool (b + 3 \<in> ?U) :: nat)" "of_bool (b \<in> ?U) \<le> (of_bool (b + 4 \<in> ?U) :: nat)"
    using c issued_long [OF n(1), of 1] n(1) by (simp_all add: left_def)
  moreover have "of_bool (b + 3 \<in> ?U) \<le> (1 :: nat)" by simp
  ultimately show ?thesis using n(1) unfolding double_buffered_def by linarith
qed

lemma later_round_bounds:
  assumes ok: "plan.ok b n p" "plan.in_order b n p" and n: "3 \<le> n" "2 \<le> rounds p"
    and c: "ins + left (plan.outstanding b n p) b (b + 3) = issued_of n (rounds p) IN"
      "runs + left (plan.outstanding b n p) (b + 1) (b + 4) = issued_of n (rounds p) RUN"
      "outs + left (plan.outstanding b n p) (b + 2) (b + 5) = issued_of n (rounds p) OUT"
  shows "double_buffered n ins runs outs"
proof -
  let ?U = "plan.outstanding b n p" and ?m = "rounds p" and ?k = "slot_of (rounds p - 1)"
  let ?c = "b + 3 * ?k" and ?e = "b + 3 * (1 - ?k)"
  let ?o = "\<lambda>x. of_bool (x \<in> ?U) :: nat"
  have k: "?k \<le> 1" by (rule slot_of_other)
  have m: "?m \<le> n + 1" "Suc (?m - 1) = ?m" using plan.ok_parts(2) [OF ok(1)] n by (auto simp: op_rounds_def)
  note l = left_slots [OF k, of ?U b]
  have g: "?m < n \<Longrightarrow> op_group b n (?m - 1) = steady_group b ?k" "?m = n \<Longrightarrow> op_group b n (?m - 1) = tl (steady_group b ?k)"
    "?m = n + 1 \<Longrightarrow> op_group b n (?m - 1) = tl (tl (steady_group b ?k))"
    using op_group_cases(2) [OF n(1), of "?m - 1" b] op_group_cases(3,4) [OF n(1), of b] n by auto
  have st: "steady_group b ?k = [(?c, IN, {?e, ?e + 1}), (?c + 1, RUN, {?e, ?e + 1, ?e + 2}), (?c + 2, OUT, {?e + 1, ?e + 2})]"
    by (simp add: steady_group_def Let_def)
  have w: "?o y \<le> ?o x" if "(x, t, D) \<in> set (op_group b n (?m - 1))" "y \<in> D" for x y t D
    using newest_waits [OF ok(2) that(1)] that(2) by (cases "x \<in> ?U") auto
  have d1: "?o ?e \<le> ?o ?c \<and> ?o (?e + 1) \<le> ?o ?c" if "?m < n"
  proof -
    have "(?c, IN, {?e, ?e + 1}) \<in> set (op_group b n (?m - 1))" unfolding g(1) [OF that] st by simp
    from w [OF this, of ?e] w [OF this, of "?e + 1"] show ?thesis by blast
  qed
  have d2: "?o ?e \<le> ?o (?c + 1) \<and> ?o (?e + 1) \<le> ?o (?c + 1) \<and> ?o (?e + 2) \<le> ?o (?c + 1)" if "?m \<le> n"
  proof -
    have "(?c + 1, RUN, {?e, ?e + 1, ?e + 2}) \<in> set (op_group b n (?m - 1))"
      using that g(1,2) st by (cases "?m = n") simp_all
    from w [OF this, of ?e] w [OF this, of "?e + 1"] w [OF this, of "?e + 2"] show ?thesis by blast
  qed
  have d3: "?o (?e + 1) \<le> ?o (?c + 2) \<and> ?o (?e + 2) \<le> ?o (?c + 2)"
  proof -
    have "(?c + 2, OUT, {?e + 1, ?e + 2}) \<in> set (op_group b n (?m - 1))"
      using m(1) g st by (cases "?m < n"; cases "?m = n") simp_all
    from w [OF this, of "?e + 1"] w [OF this, of "?e + 2"] show ?thesis by blast
  qed
  have live: "?U \<subseteq> plan.live b n ?m" by (rule outstanding_live [OF ok(1)])
  have d4: "?o ?c = 0" if "?m = n"
  proof -
    have "slot_of n = 1 - ?k" using that slot_of_other(1) [of "n - 1"] n by simp
    then have "?c \<notin> plan.live b n ?m"
      using that op_wait_cases(3) [OF n(1,1), of b] g(2) st k unfolding plan.live_def
      by (cases ?k) (auto simp: steady_group_def Let_def)
    then show ?thesis using live by auto
  qed
  have d5: "?o ?c = 0 \<and> ?o ?e = 0 \<and> ?o (?c + 1) = 0" if "?m = n + 1"
  proof -
    have "op_group b n (n - 1) = tl (steady_group b (1 - ?k))"
      using that op_group_cases(3) [OF n(1), of b] slot_of_other(1) [of "n - 1"] n by (simp add: slot_of_def)
    then have "?c \<notin> plan.live b n ?m" "?e \<notin> plan.live b n ?m" "?c + 1 \<notin> plan.live b n ?m"
      using that op_wait_cases(4) [OF n(1), of b] g(3) st k unfolding plan.live_def
      by (cases ?k; auto simp: steady_group_def Let_def)+
    then show ?thesis using live by auto
  qed
  show ?thesis
  proof (rule long_counts [OF n m(1), where i = "?o ?c" and i' = "?o ?e" and r = "?o (?c + 1)" and r' = "?o (?e + 1)"
        and q = "?o (?c + 2)" and q' = "?o (?e + 2)"])
    show "ins + (?o ?c + ?o ?e) = min n (?m + 1)" "runs + (?o (?c + 1) + ?o (?e + 1)) = min n ?m"
      "outs + (?o (?c + 2) + ?o (?e + 2)) = ?m - 1"
      using c issued_long [OF n(1) _ m(1)] n unfolding l by simp_all
  qed (use d1 d2 d3 d4 d5 in simp_all)
qed


lemma short_bounds:
  assumes ok: "plan.ok b n p" "plan.in_order b n p" and n: "0 < n" "n \<le> 2"
    and c: "ins + left (plan.outstanding b n p) b (b + 3) = issued_of n (rounds p) IN"
      "runs + left (plan.outstanding b n p) (b + 1) (b + 4) = issued_of n (rounds p) RUN"
      "outs + left (plan.outstanding b n p) (b + 2) (b + 5) = issued_of n (rounds p) OUT"
  shows "double_buffered n ins runs outs"
proof -
  let ?U = "plan.outstanding b n p"
  let ?o = "\<lambda>x. of_bool (x \<in> ?U) :: nat"
  have m: "rounds p = 1" using plan.ok_parts(1,2) [OF ok(1)] n by (simp add: op_rounds_def)
  have g: "op_group b n (rounds p - 1) = full_group b n" "op_group 0 n 0 = full_group 0 n"
    "op_group b n 0 = full_group b n" using n m by (simp_all add: op_group_def)
  have iss: "issued_of n (rounds p) t = count (sig_types (full_group 0 n)) t" for t using g(2) m by (simp add: issued_of_def)
  have ty: "IN \<noteq> RUN" "IN \<noteq> OUT" "RUN \<noteq> OUT" by (simp_all add: cmd_type_defs)
  have w: "?o y \<le> ?o x" if "(x, t, D) \<in> set (full_group b n)" "y \<in> D" for x y t D
    using newest_waits [OF ok(2)] that unfolding g(1) by (cases "x \<in> ?U") auto
  have f: "?o b \<le> ?o (b + 4)" "?o (b + 4) \<le> ?o (b + 2)"
    using w [of "b + 4" RUN "{b}"] w [of "b + 2" OUT "{b + 4}"] by (simp_all add: full_group_def)
  have le: "?o x \<le> 1" for x by simp
  show ?thesis
  proof (cases "n = 1")
    case True
    have "?U \<subseteq> ids (full_group b n)"
      using outstanding_live [OF ok(1)] n m by (auto simp: plan.live_def op_wait_def g(3))
    then have z: "?o (b + 3) = 0" "?o (b + 1) = 0" "?o (b + 5) = 0" using True by (auto simp: full_group_def)
    have "ins + ?o b = 1" "runs + ?o (b + 4) = 1" "outs + ?o (b + 2) = 1"
      using c z ty True unfolding iss left_def by (simp_all add: full_group_def)
    then show ?thesis using f le [of b] le [of "b + 2"] le [of "b + 4"] True unfolding double_buffered_def by linarith
  next
    case False
    then have n2: "n = 2" using n by simp
    have f2: "?o b \<le> ?o (b + 3)" "?o (b + 3) \<le> ?o (b + 1)" "?o (b + 4) \<le> ?o (b + 1)" "?o (b + 1) \<le> ?o (b + 5)" "?o (b + 2) \<le> ?o (b + 5)"
      using n2 by (intro w [of "b + 3" IN "{b}"] w [of "b + 1" RUN "{b + 3, b + 4}"] w [of "b + 5" OUT "{b + 1, b + 2}"];
        simp add: full_group_def)+
    have "ins + (?o b + ?o (b + 3)) = 2" "runs + (?o (b + 1) + ?o (b + 4)) = 2" "outs + (?o (b + 2) + ?o (b + 5)) = 2"
      using c ty n2 unfolding iss left_def by (simp_all add: full_group_def)
    then show ?thesis
      using f f2 le [of b] le [of "b + 1"] le [of "b + 2"] le [of "b + 3"] le [of "b + 4"] le [of "b + 5"] n2
      unfolding double_buffered_def by linarith
  qed
qed

section \<open>Properties\<close>

lemma tracks_buffered:
  assumes t: "tracks l r g0 g1 n a f tag X F w p" and n: "0 < n"
  shows "double_buffered n (count (mset (w_hist w)) IN) (count (mset (w_hist w)) RUN) (count (mset (w_hist w)) OUT)"
proof -
  let ?b = "l_cmd_id l" and ?U = "plan.outstanding (l_cmd_id l) n p"
  have ok: "plan.ok ?b n p" "plan.in_order ?b n p" using t by (auto simp: tracks_def dest: core_dest(8,9))
  have "?U \<subseteq> {?b..<?b + 6}" using outstanding_live [OF ok(1)] op_live_bounds by blast
  note c = completed_of [OF t, of IN, unfolded left_of(1) [OF this]] completed_of [OF t, of RUN, unfolded left_of(2) [OF this]]
    completed_of [OF t, of OUT, unfolded left_of(3) [OF this]]
  consider "n \<le> 2" | "3 \<le> n" "rounds p = 1" | "3 \<le> n" "2 \<le> rounds p" using plan.ok_parts(1) [OF ok(1)] by linarith
  then show ?thesis
  proof cases
    case 1
    then show ?thesis using short_bounds [OF ok n _ c] by simp
  next
    case 2
    then show ?thesis using first_round_bounds [OF ok 2] c by simp
  next
    case 3
    then show ?thesis using later_round_bounds [OF ok 3 c] by simp
  qed
qed

text \<open>C10: at every moment of an operation no more iterations have been run than read, nor written than run;
  reads are at most two iterations ahead of runs and runs at most two ahead of writes: two buffer halves
  suffice on either side, and a half is never filled again before what it held has been used.\<close>

theorem operation_is_double_buffered:
  assumes "runs_ext_spu gm code" "2 \<le> k" "get_spu (l_spu_id l) s = Inr u" "op_ready l r g0 g1 iters u" "pend S = {}"
  shows "\<exists>w0. op_begins gm d0 a l r iters cb tag s S K = Inr w0 \<and>
    (\<forall>m w. op_run code k (l_spu_id l) m w0 w \<longrightarrow>
      (let ins = count (mset (w_hist w)) IN; runs = count (mset (w_hist w)) RUN; outs = count (mset (w_hist w)) OUT in
       outs \<le> runs \<and> runs \<le> ins \<and> ins \<le> unat iters \<and> ins \<le> runs + 2 \<and> runs \<le> outs + 2))"
proof -
  obtain w0 where w0: "op_begins gm d0 a l r iters cb tag s S K = Inr w0"
    "op_inv l r g0 g1 (unat iters) a cb tag (i_internal u) (i_next_free u g1) w0"
    using begins [OF assms(3-5)] by blast
  note n = iters_pos [OF assms(4)]
  have "double_buffered (unat iters) (count (mset (w_hist w)) IN) (count (mset (w_hist w)) RUN) (count (mset (w_hist w)) OUT)"
    if run: "op_run code k (l_spu_id l) m w0 w" for m w
  proof -
    have "op_inv l r g0 g1 (unat iters) a cb tag (i_internal u) (i_next_free u g1) w"
      using run_ok [OF run assms(1,2) n w0(2)] by blast
    moreover have ?thesis if "op_over l g0 g1 (unat iters) a (i_internal u) (i_next_free u g1) w"
      using that by (simp add: op_over_def double_buffered_def cmd_type_defs)
    ultimately show ?thesis using tracks_buffered n unfolding op_inv_def by blast
  qed
  then show ?thesis using w0(1) unfolding double_buffered_def Let_def by blast
qed

theorem operation_is_double_buffered_witness:
  "\<forall>gm d0. \<exists>w0. op_begins gm d0 7 demo_layout demo_rates 3 0 9 demo_ppu no_commands (\<lambda>_. 0) = Inr w0 \<and>
    (\<forall>m w. op_run (demo_code gm) 2 0 m w0 w \<longrightarrow> count (mset (w_hist w)) RUN \<le> count (mset (w_hist w)) IN \<and>
      count (mset (w_hist w)) IN \<le> count (mset (w_hist w)) RUN + 2)"
proof (intro allI)
  fix gm :: group_mem and d0 :: ext_spu_data
  show "\<exists>w0. op_begins gm d0 7 demo_layout demo_rates 3 0 9 demo_ppu no_commands (\<lambda>_. 0) = Inr w0 \<and>
    (\<forall>m w. op_run (demo_code gm) 2 0 m w0 w \<longrightarrow> count (mset (w_hist w)) RUN \<le> count (mset (w_hist w)) IN \<and>
      count (mset (w_hist w)) IN \<le> count (mset (w_hist w)) RUN + 2)"
    using operation_is_double_buffered [OF demo_runs order_refl demo_get demo_ready no_commands_pend, where iters = 3 and gm = gm
      and ?d0.0 = d0 and a = 7 and cb = 0 and tag = 9 and K = "\<lambda>_. 0"]
    by (simp add: demo_layout_def Let_def) blast
qed

end
