(* ===== verification/Ds.thy ===== *)
theory Ds
  imports Completion "HOL-Library.Signed_Division"
begin

text \<open>
  The dynamic scheduler of the Cell library, first part (\<open>library/cell/ds/ds.h\<close>): its data and the
  inline functions.  Filters, channels, SPU states and instances of data-parallel filters are
  elements of arrays and named by their index; \<open>&c->duplicates[i]\<close> is the \<open>i\<close>-th channel after the one
  that \<open>duplicates\<close> points to.  A buffer control block inside a structure is named by its address.
  The scheduler's variables are the \<open>client\<close> part of the state of the PPU library.
\<close>

section \<open>Channels\<close>

record channel =
  ch_out_f :: "nat option"
  ch_push :: u32
  ch_out_size :: u32
  ch_in_f :: "nat option"
  ch_pop :: u32
  ch_peek_extra :: u32
  ch_in_size :: u32
  ch_size :: u32
  ch_non_circular :: bool
  ch_dups :: "nat option"
  ch_num_dups :: u32
  ch_used :: u32
  ch_free :: u32
  ch_source :: nat
  ch_parent :: "nat option"
  ch_waiting :: u32
  ch_buf :: nat

section \<open>Filters\<close>

record ds_filter =
  df_inputs :: "nat list"
  df_outputs :: "nat list"
  df_desc :: filter_desc
  df_data_parallel :: bool
  df_ppu_init :: "nat option"
  df_ppu_prework :: "nat option"
  df_ppu_work :: nat
  df_spu_init :: u32
  df_exclusive :: bool
  df_group_iters :: u32
  df_loop_iters :: u32
  df_out_buffered :: u32
  df_visited :: bool
  df_done_prework :: bool
  df_incomplete :: u32
  df_active :: u32
  df_avail :: u32
  df_in_avail :: u32
  df_out_avail :: u32
  df_instances :: "nat option"
  df_last :: "nat option"

definition n_inputs :: "ds_filter \<Rightarrow> nat" where
  "n_inputs f = unat (num_inputs (df_desc f))"

definition n_outputs :: "ds_filter \<Rightarrow> nat" where
  "n_outputs f = unat (num_outputs (df_desc f))"

record dp_instance =
  dp_in :: u32
  dp_out :: u32
  dp_done :: bool
  dp_next :: "nat option"
  dp_prev :: "nat option"

section \<open>Filters that run on an SPU\<close>

record active_tape =
  at_data :: u32
  at_buf :: nat
  at_instance :: nat

record active =
  a_spu_id :: nat
  a_f :: nat
  a_inputs :: "active_tape list"
  a_outputs :: "active_tape list"
  a_filt_cb :: u32
  a_cmd_data :: u32
  a_cmd_id :: u32
  a_cmd_group :: nat
  a_group_cmds :: u32
  a_group_data :: u32
  a_groups_left :: u32
  a_last_iters :: u32
  a_in_left :: u32
  a_out_left :: u32
  a_done_ua_out :: bool
  a_done_in :: u32
  a_done_out :: u32
  a_out_buffered :: u32
  a_updated :: bool
  a_cur_group :: nat
  a_cmd_mask :: u32
  a_phase :: nat
  a_waiting :: u32
  a_instance :: nat

text \<open>\<open>current\<close> and \<open>next\<close> point to one of the two active filters of the SPU.\<close>

record ds_spu =
  sp_id :: nat
  sp_filters :: "active list"
  sp_current :: "nat option"
  sp_next :: "nat option"
  sp_next_filt :: nat
  sp_buffer_start :: u32
  sp_filter_start :: u32
  sp_cmd_start :: u32
  sp_buf_slot :: u32
  sp_filt_slot :: u32
  sp_cmd_slot :: u32
  sp_id_slot :: u32
  sp_group_slot :: nat
  sp_run_issued :: bool
  sp_run_id :: nat

record ds_state =
  ds_filters :: "ds_filter list"
  ds_channels :: "channel list"
  ds_num_spu :: nat
  ds_incomplete :: u32
  ds_num_free :: u32
  ds_spus :: "ds_spu list"
  ds_dp :: "dp_instance list"
  ds_next_dp :: "nat option"

type_synonym 'd ds_ppu = "('d, ds_state) ppu"

section \<open>Access\<close>

definition upd_client :: "(ds_state \<Rightarrow> ds_state) \<Rightarrow> 'd ds_ppu \<Rightarrow> 'd ds_ppu" where
  "upd_client f s = s\<lparr>client := f (client s)\<rparr>"

definition get_ch :: "nat \<Rightarrow> 'd ds_ppu \<Rightarrow> channel res" where
  "get_ch a s = index_res (ds_channels (client s)) a"

definition put_ch :: "nat \<Rightarrow> channel \<Rightarrow> 'd ds_ppu \<Rightarrow> 'd ds_ppu" where
  "put_ch a c = upd_client (\<lambda>x. x\<lparr>ds_channels := (ds_channels x)[a := c]\<rparr>)"

definition upd_ch :: "nat \<Rightarrow> (channel \<Rightarrow> channel) \<Rightarrow> 'd ds_ppu \<Rightarrow> 'd ds_ppu res" where
  "upd_ch a f s = rbind (get_ch a s) (\<lambda>c. Inr (put_ch a (f c) s))"

definition get_flt :: "nat \<Rightarrow> 'd ds_ppu \<Rightarrow> ds_filter res" where
  "get_flt a s = index_res (ds_filters (client s)) a"

definition put_flt :: "nat \<Rightarrow> ds_filter \<Rightarrow> 'd ds_ppu \<Rightarrow> 'd ds_ppu" where
  "put_flt a f = upd_client (\<lambda>x. x\<lparr>ds_filters := (ds_filters x)[a := f]\<rparr>)"

definition upd_flt :: "nat \<Rightarrow> (ds_filter \<Rightarrow> ds_filter) \<Rightarrow> 'd ds_ppu \<Rightarrow> 'd ds_ppu res" where
  "upd_flt a g s = rbind (get_flt a s) (\<lambda>f. Inr (put_flt a (g f) s))"

definition get_sp :: "nat \<Rightarrow> 'd ds_ppu \<Rightarrow> ds_spu res" where
  "get_sp i s = index_res (ds_spus (client s)) i"

definition put_sp :: "nat \<Rightarrow> ds_spu \<Rightarrow> 'd ds_ppu \<Rightarrow> 'd ds_ppu" where
  "put_sp i u = upd_client (\<lambda>x. x\<lparr>ds_spus := (ds_spus x)[i := u]\<rparr>)"

definition upd_sp :: "nat \<Rightarrow> (ds_spu \<Rightarrow> ds_spu) \<Rightarrow> 'd ds_ppu \<Rightarrow> 'd ds_ppu res" where
  "upd_sp i g s = rbind (get_sp i s) (\<lambda>u. Inr (put_sp i (g u) s))"

text \<open>An active filter is named by its SPU and its index there.\<close>

definition get_af :: "nat \<Rightarrow> nat \<Rightarrow> 'd ds_ppu \<Rightarrow> active res" where
  "get_af i k s = rbind (get_sp i s) (\<lambda>u. index_res (sp_filters u) k)"

definition put_af :: "nat \<Rightarrow> nat \<Rightarrow> active \<Rightarrow> 'd ds_ppu \<Rightarrow> 'd ds_ppu res" where
  "put_af i k a = upd_sp i (\<lambda>u. u\<lparr>sp_filters := (sp_filters u)[k := a]\<rparr>)"

definition get_dp :: "nat \<Rightarrow> 'd ds_ppu \<Rightarrow> dp_instance res" where
  "get_dp a s = index_res (ds_dp (client s)) a"

definition upd_dp :: "nat \<Rightarrow> (dp_instance \<Rightarrow> dp_instance) \<Rightarrow> 'd ds_ppu \<Rightarrow> 'd ds_ppu res" where
  "upd_dp a g s = rbind (get_dp a s) (\<lambda>x. Inr (upd_client (\<lambda>y. y\<lparr>ds_dp := (ds_dp y)[a := g x]\<rparr>) s))"

text \<open>\<open>upd_buf\<close> applies a function to a buffer control block.\<close>

definition upd_buf :: "nat \<Rightarrow> (buffer_cb \<Rightarrow> buffer_cb) \<Rightarrow> ('d, 'c) ppu \<Rightarrow> ('d, 'c) ppu res" where
  "upd_buf p g s = rbind (get_pbuf p s) (\<lambda>b. Inr (put_pbuf p (g b) s))"

section \<open>Arithmetic\<close>

definition safe_dec :: "u32 \<Rightarrow> u32 \<Rightarrow> u32 res" where
  "safe_dec x a = ensure CheckFail (x \<ge> a) (Inr (x - a))"

definition udiv_res :: "u32 \<Rightarrow> u32 \<Rightarrow> u32 res" where
  "udiv_res a b = ensure DivideByZero (b \<noteq> 0) (Inr (a div b))"

text \<open>Signed results outside the range of \<open>int32_t\<close> are undefined.\<close>

definition int32_res :: "int \<Rightarrow> int res" where
  "int32_res v = ensure SignedOverflow (- (2 ^ 31) \<le> v \<and> v < 2 ^ 31) (Inr v)"

definition sdiv_res :: "int \<Rightarrow> int \<Rightarrow> int res" where
  "sdiv_res a b = ensure DivideByZero (b \<noteq> 0) (int32_res (a sdiv b))"

text \<open>The compiler's builtin is undefined at 0, and so is a shift by 32 or more.\<close>

definition count_ms_zeros :: "u32 \<Rightarrow> u32 res" where
  "count_ms_zeros a = ensure OutOfBounds (a \<noteq> 0) (Inr (of_nat (length (takeWhile (\<lambda>i. \<not> bit a i) (rev [0..<32])))))"

definition next_power_2 :: "u32 \<Rightarrow> u32 res" where
  "next_power_2 a = rbind (count_ms_zeros (a - 1)) (\<lambda>z. let sh = z - 1 in
     ensure OutOfBounds (sh < 32) (Inr (drop_bit (unat sh) 0x80000000)))"

section \<open>Instances of data-parallel filters\<close>

definition new_dp_instance :: "'d ds_ppu \<Rightarrow> (nat \<times> 'd ds_ppu) res" where
  "new_dp_instance s = (case ds_next_dp (client s) of
       None \<Rightarrow> Inl CheckFail
     | Some a \<Rightarrow> rbind (get_dp a s) (\<lambda>x. Inr (a, upd_client (\<lambda>y. y\<lparr>ds_next_dp := dp_next x\<rparr>) s)))"

definition free_dp_instance :: "nat \<Rightarrow> 'd ds_ppu \<Rightarrow> 'd ds_ppu res" where
  "free_dp_instance a s = rbind (upd_dp a (\<lambda>x. x\<lparr>dp_next := ds_next_dp (client s)\<rparr>) s) (\<lambda>s.
     Inr (upd_client (\<lambda>y. y\<lparr>ds_next_dp := Some a\<rparr>) s))"

section \<open>Slots in the local store\<close>

definition DS_SPU_BUFFER_SLOT_SIZE :: u32 where "DS_SPU_BUFFER_SLOT_SIZE = 33792"
definition DS_SPU_FILTER_SLOT_SIZE :: u32 where "DS_SPU_FILTER_SLOT_SIZE = 16384"
definition DS_SPU_CMD_DATA_SLOT_SIZE :: u32 where "DS_SPU_CMD_DATA_SLOT_SIZE = 1024"

definition next_buf_slot :: "u32 \<Rightarrow> u32" where
  "next_buf_slot k = (if k = 2 then 0 else k + 1)"

definition get_spu_buffer_slot :: "ds_spu \<Rightarrow> u32 \<times> ds_spu" where
  "get_spu_buffer_slot u = (sp_buffer_start u + sp_buf_slot u * DS_SPU_BUFFER_SLOT_SIZE,
     u\<lparr>sp_buf_slot := next_buf_slot (sp_buf_slot u)\<rparr>)"

definition get_spu_filter_slot :: "ds_spu \<Rightarrow> u32 \<times> ds_spu" where
  "get_spu_filter_slot u = (sp_filter_start u + sp_filt_slot u * DS_SPU_FILTER_SLOT_SIZE,
     u\<lparr>sp_filt_slot := sp_filt_slot u XOR 1\<rparr>)"

definition get_spu_cmd_data_slot :: "ds_spu \<Rightarrow> u32 \<times> ds_spu" where
  "get_spu_cmd_data_slot u = (sp_cmd_start u + sp_cmd_slot u * DS_SPU_CMD_DATA_SLOT_SIZE,
     u\<lparr>sp_cmd_slot := sp_cmd_slot u XOR 1\<rparr>)"

definition get_spu_cmd_id_slot :: "ds_spu \<Rightarrow> u32 \<times> ds_spu" where
  "get_spu_cmd_id_slot u = (0 + sp_id_slot u * 16, u\<lparr>sp_id_slot := sp_id_slot u XOR 1\<rparr>)"

definition get_spu_cmd_group_slot :: "ds_spu \<Rightarrow> nat \<times> ds_spu" where
  "get_spu_cmd_group_slot u = (28 + sp_group_slot u * 2, u\<lparr>sp_group_slot := sp_group_slot u XOR 1\<rparr>)"

end
