(* ===== verification/Ds_Channels.thy ===== *)
theory Ds_Channels
  imports Ds
begin

text \<open>
  The dynamic scheduler of the Cell library, second part (\<open>library/cell/ds/dssched.c\<close>, \<open>ds.c\<close>): how
  reads and writes of channels make iterations of filters available.  A duplicate splitter is a tree
  of channels: bytes written at the root can be read at every leaf, and bytes read at the leaves
  become free at the root when every leaf has read them.  Recursion down a tree has fuel, its depth.
\<close>

section \<open>Available iterations of a filter\<close>

definition set_in_avail :: "u32 \<Rightarrow> ds_filter \<Rightarrow> ds_filter" where
  "set_in_avail n f = f\<lparr>df_in_avail := n, df_avail := min n (df_out_avail f)\<rparr>"

definition set_out_avail :: "u32 \<Rightarrow> ds_filter \<Rightarrow> ds_filter" where
  "set_out_avail n f = f\<lparr>df_out_avail := n, df_avail := min (df_in_avail f) n\<rparr>"

definition used_less_peek :: "channel \<Rightarrow> int res" where
  "used_less_peek c = int32_res (sint (ch_used c) - sint (ch_peek_extra c))"

definition least_input_iters :: "ds_filter \<Rightarrow> 'd ds_ppu \<Rightarrow> int res" where
  "least_input_iters f s = rfold (\<lambda>i m. rbind (index_res (df_inputs f) i) (\<lambda>a. rbind (get_ch a s) (\<lambda>c.
     rbind (used_less_peek c) (\<lambda>d. rbind (sdiv_res d (sint (ch_pop c))) (\<lambda>q. Inr (min m q)))))) [0..<n_inputs f] (2 ^ 31 - 1)"

definition update_filter_input :: "nat \<Rightarrow> 'd ds_ppu \<Rightarrow> 'd ds_ppu res" where
  "update_filter_input a s = rbind (get_flt a s) (\<lambda>f. if n_inputs f = 0 then Inr s
     else rbind (least_input_iters f s) (\<lambda>m. Inr (put_flt a (set_in_avail (word_of_int (max 0 m)) f) s)))"

definition least_output_iters :: "ds_filter \<Rightarrow> 'd ds_ppu \<Rightarrow> u32 res" where
  "least_output_iters f s = rfold (\<lambda>i m. rbind (index_res (df_outputs f) i) (\<lambda>a. rbind (get_ch a s) (\<lambda>c.
     rbind (udiv_res (ch_free c) (ch_push c)) (\<lambda>q. Inr (min m q))))) [0..<n_outputs f] 0xffffffff"

definition update_filter_output :: "nat \<Rightarrow> 'd ds_ppu \<Rightarrow> 'd ds_ppu res" where
  "update_filter_output a s = rbind (get_flt a s) (\<lambda>f. if n_outputs f = 0 then Inr s
     else rbind (least_output_iters f s) (\<lambda>m. Inr (put_flt a (set_out_avail m f) s)))"

definition update_all_filters :: "'d ds_ppu \<Rightarrow> 'd ds_ppu res" where
  "update_all_filters s = rfold (\<lambda>i s. rbind (update_filter_input i s) (update_filter_output i))
     [0..<length (ds_filters (client s))] s"

section \<open>Bytes written to a channel\<close>

text \<open>The filter that reads the channel: a filter with one input needs no minimum.\<close>

definition new_input :: "channel \<Rightarrow> 'd ds_ppu \<Rightarrow> 'd ds_ppu res" where
  "new_input c s = (case ch_in_f c of None \<Rightarrow> Inr s
     | Some a \<Rightarrow> rbind (get_flt a s) (\<lambda>f.
         if n_inputs f = 1
         then rbind (used_less_peek c) (\<lambda>d. rbind (udiv_res (word_of_int (max 0 d)) (ch_pop c)) (\<lambda>n.
           ensure CheckFail (n \<ge> df_in_avail f) (Inr (put_flt a (set_in_avail n f) s))))
         else update_filter_input a s))"

text \<open>A leaf counts the bytes and moves the tail of its own control block if it shares the buffer.\<close>

definition init_leaf_used :: "nat \<Rightarrow> u32 \<Rightarrow> 'd ds_ppu \<Rightarrow> 'd ds_ppu res" where
  "init_leaf_used a n s = rbind (get_ch a s) (\<lambda>c. let s = put_ch a (c\<lparr>ch_used := ch_used c + n\<rparr>) s in
     if ch_parent c \<noteq> None then upd_buf (ch_buf c) (buf_inc_tail n) s else Inr s)"

definition leaf_used :: "nat \<Rightarrow> u32 \<Rightarrow> 'd ds_ppu \<Rightarrow> 'd ds_ppu res" where
  "leaf_used a n s = rbind (init_leaf_used a n s) (\<lambda>s. rbind (get_ch a s) (\<lambda>c. new_input c s))"

fun each_leaf :: "(nat \<Rightarrow> 'd ds_ppu \<Rightarrow> 'd ds_ppu res) \<Rightarrow> nat \<Rightarrow> nat \<Rightarrow> 'd ds_ppu \<Rightarrow> 'd ds_ppu res" where
  "each_leaf g 0 a s = Inl OutOfFuel"
| "each_leaf g (Suc k) a s = rbind (get_ch a s) (\<lambda>c. case ch_dups c of
       None \<Rightarrow> g a s
     | Some d \<Rightarrow> rfold (\<lambda>i. each_leaf g k (d + i)) [0..<unat (ch_num_dups c)] s)"

definition update_down_channel_used :: "nat \<Rightarrow> nat \<Rightarrow> u32 \<Rightarrow> 'd ds_ppu \<Rightarrow> 'd ds_ppu res" where
  "update_down_channel_used k a n = each_leaf (\<lambda>x. leaf_used x n) k a"

definition init_update_down_channel_used :: "nat \<Rightarrow> nat \<Rightarrow> u32 \<Rightarrow> 'd ds_ppu \<Rightarrow> 'd ds_ppu res" where
  "init_update_down_channel_used k a n = each_leaf (\<lambda>x. init_leaf_used x n) k a"

section \<open>Bytes read from a channel\<close>

text \<open>The least free count among the duplicates of a channel, and taking it off each of them.\<close>

definition least_dup_free :: "nat \<Rightarrow> nat \<Rightarrow> 'd ds_ppu \<Rightarrow> u32 res" where
  "least_dup_free d k s = rbind (get_ch d s) (\<lambda>c. rfold (\<lambda>i m. rbind (get_ch (d + i) s) (\<lambda>c. Inr (min m (ch_free c)))) [1..<k] (ch_free c))"

definition take_dup_free :: "nat \<Rightarrow> nat \<Rightarrow> nat \<Rightarrow> u32 \<Rightarrow> 'd ds_ppu \<Rightarrow> 'd ds_ppu res" where
  "take_dup_free p d k m = rfold (\<lambda>i s. rbind (get_ch (d + i) s) (\<lambda>c. let fr = ch_free c - m in
     upd_ch p (\<lambda>x. x\<lparr>ch_waiting := ch_waiting x + (if fr = 0 then 1 else 0)\<rparr>) (put_ch (d + i) (c\<lparr>ch_free := fr\<rparr>) s))) [0..<k]"

text \<open>The loop up the tree: where it stops short, or the root and the bytes that are free there now.\<close>

fun up_loop :: "nat \<Rightarrow> nat \<Rightarrow> u32 \<Rightarrow> 'd ds_ppu \<Rightarrow> ((nat \<times> u32) option \<times> 'd ds_ppu) res" where
  "up_loop 0 a n s = Inl OutOfFuel"
| "up_loop (Suc k) a n s = rbind (get_ch a s) (\<lambda>c. case ch_parent c of
       None \<Rightarrow> Inr (Some (a, n), s)
     | Some p \<Rightarrow> let s = put_ch a (c\<lparr>ch_free := ch_free c + n\<rparr>) s in
         if ch_free c \<noteq> 0 then Inr (None, s)
         else rbind (upd_ch p (\<lambda>x. x\<lparr>ch_waiting := ch_waiting x - 1\<rparr>) s) (\<lambda>s. rbind (get_ch p s) (\<lambda>x.
           if ch_waiting x \<noteq> 0 then Inr (None, s)
           else rbind (deref (ch_dups x)) (\<lambda>d. let k' = unat (ch_num_dups x) in
             rbind (least_dup_free d k' s) (\<lambda>m. rbind (take_dup_free p d k' m s) (up_loop k p m))))))"

definition root_free :: "nat \<Rightarrow> u32 \<Rightarrow> 'd ds_ppu \<Rightarrow> 'd ds_ppu res" where
  "root_free a n s = rbind (get_ch a s) (\<lambda>c. let s = put_ch a (c\<lparr>ch_free := ch_free c + n\<rparr>) s in
     if ch_dups c \<noteq> None then upd_buf (ch_buf c) (buf_inc_head n) s else Inr s)"

definition new_output :: "channel \<Rightarrow> 'd ds_ppu \<Rightarrow> 'd ds_ppu res" where
  "new_output c s = (case ch_out_f c of None \<Rightarrow> Inr s
     | Some a \<Rightarrow> rbind (get_flt a s) (\<lambda>f.
         if n_outputs f = 1
         then rbind (udiv_res (ch_free c) (ch_push c)) (\<lambda>n.
           ensure CheckFail (n \<ge> df_out_avail f) (Inr (put_flt a (set_out_avail n f) s)))
         else update_filter_output a s))"

definition init_update_up_channel_free :: "nat \<Rightarrow> nat \<Rightarrow> u32 \<Rightarrow> 'd ds_ppu \<Rightarrow> 'd ds_ppu res" where
  "init_update_up_channel_free k a n s = rbind (up_loop k a n s) (\<lambda>(r, s). case r of
       None \<Rightarrow> Inr s
     | Some (a, n) \<Rightarrow> root_free a n s)"

definition update_up_channel_free :: "nat \<Rightarrow> nat \<Rightarrow> u32 \<Rightarrow> 'd ds_ppu \<Rightarrow> 'd ds_ppu res" where
  "update_up_channel_free k a n s = rbind (up_loop k a n s) (\<lambda>(r, s). case r of
       None \<Rightarrow> Inr s
     | Some (a, n) \<Rightarrow> rbind (root_free a n s) (\<lambda>s. rbind (get_ch a s) (\<lambda>c. new_output c s)))"

section \<open>Filters that have finished\<close>

text \<open>A filter is done when nothing upstream can give it input any more and it has used what there was.\<close>

fun update_filter_done :: "nat \<Rightarrow> nat \<Rightarrow> 'd ds_ppu \<Rightarrow> 'd ds_ppu res"
  and update_down_filter_incomplete :: "nat \<Rightarrow> nat \<Rightarrow> 'd ds_ppu \<Rightarrow> 'd ds_ppu res" where
  "update_filter_done 0 a s = Inl OutOfFuel"
| "update_filter_done (Suc k) a s = rbind (get_flt a s) (\<lambda>f.
     if df_incomplete f = 0 \<and> df_in_avail f = 0
     then rfold (\<lambda>i s. rbind (index_res (df_outputs f) i) (\<lambda>c. update_down_filter_incomplete k c s)) [0..<n_outputs f]
       (upd_client (\<lambda>x. x\<lparr>ds_incomplete := ds_incomplete x - 1\<rparr>) s)
     else Inr s)"
| "update_down_filter_incomplete 0 a s = Inl OutOfFuel"
| "update_down_filter_incomplete (Suc k) a s = rbind (get_ch a s) (\<lambda>c. case ch_dups c of
       Some d \<Rightarrow> rfold (\<lambda>i. update_down_filter_incomplete k (d + i)) [0..<unat (ch_num_dups c)] s
     | None \<Rightarrow> (case ch_in_f c of None \<Rightarrow> Inr s
         | Some b \<Rightarrow> rbind (get_flt b s) (\<lambda>f. let s = put_flt b (f\<lparr>df_incomplete := df_incomplete f - 1\<rparr>) s in
             if df_active f = 0 then update_filter_done k b s else Inr s)))"

fun init_update_filter_done :: "nat \<Rightarrow> nat \<Rightarrow> 'd ds_ppu \<Rightarrow> 'd ds_ppu res"
  and init_update_down_filter_incomplete :: "nat \<Rightarrow> nat \<Rightarrow> 'd ds_ppu \<Rightarrow> 'd ds_ppu res" where
  "init_update_filter_done 0 a s = Inl OutOfFuel"
| "init_update_filter_done (Suc k) a s = rbind (get_flt a s) (\<lambda>f.
     if \<not> df_visited f \<and> df_incomplete f = 0 \<and> df_in_avail f = 0
     then rfold (\<lambda>i s. rbind (index_res (df_outputs f) i) (\<lambda>c. init_update_down_filter_incomplete k c s)) [0..<n_outputs f]
       (upd_client (\<lambda>x. x\<lparr>ds_incomplete := ds_incomplete x - 1\<rparr>) (put_flt a (f\<lparr>df_visited := True\<rparr>) s))
     else Inr s)"
| "init_update_down_filter_incomplete 0 a s = Inl OutOfFuel"
| "init_update_down_filter_incomplete (Suc k) a s = rbind (get_ch a s) (\<lambda>c. case ch_dups c of
       Some d \<Rightarrow> rfold (\<lambda>i. init_update_down_filter_incomplete k (d + i)) [0..<unat (ch_num_dups c)] s
     | None \<Rightarrow> (case ch_in_f c of None \<Rightarrow> Inr s
         | Some b \<Rightarrow> rbind (get_flt b s) (\<lambda>f.
             init_update_filter_done k b (put_flt b (f\<lparr>df_incomplete := df_incomplete f - 1\<rparr>) s))))"

end
