(* ===== verification/Ds_Avail.thy ===== *)
theory Ds_Avail
  imports Ds_Channels
begin

text \<open>
  The available iterations that the dynamic scheduler keeps for each filter (\<open>library/cell/ds/dssched.c\<close>)
  are always those that its channels allow: what reads and writes of channels change incrementally is
  what a computation from all channels would give.
\<close>

section \<open>Minima\<close>

lemma rfold_min:
  assumes "\<And>i. i \<in> set xs \<Longrightarrow> g i = Inr (q i)"
  shows "rfold (\<lambda>i m. rbind (g i) (\<lambda>v. Inr (min m v))) xs m = Inr (foldl min m (map q xs))"
  using assms by (induction xs arbitrary: m) simp_all

lemma foldl_min: "foldl min m xs = (if xs = [] then m else min m (Min (set xs)))" for m :: "'a :: linorder"
proof (induction xs arbitrary: m)
  case Nil
  then show ?case by simp
next
  case (Cons x xs)
  then show ?case by (cases "xs = []") (simp_all add: min.assoc)
qed

lemma mono_foldl_min: "mono f \<Longrightarrow> f (foldl min m xs) = foldl min (f m) (map f xs)" for f :: "'a :: linorder \<Rightarrow> 'b :: linorder"
  by (induction xs arbitrary: m) (simp_all add: min_of_mono)

section \<open>What a channel allows\<close>

definition in_iters :: "channel \<Rightarrow> nat" where
  "in_iters c = (unat (ch_used c) - unat (ch_peek_extra c)) div unat (ch_pop c)"

definition out_iters :: "channel \<Rightarrow> nat" where
  "out_iters c = unat (ch_free c) div unat (ch_push c)"

definition small :: "u32 \<Rightarrow> bool" where
  "small w \<longleftrightarrow> uint w < 2 ^ 31"

lemma small_sint: "small w \<Longrightarrow> sint w = uint w"
proof -
  have "- (2 ^ 31) \<le> uint w" by (rule order_trans [OF _ uint_ge_0]) simp
  moreover assume "small w"
  ultimately have "signed_take_bit 31 (uint w) = uint w"
    by (intro signed_take_bit_int_eq_self) (simp_all add: small_def)
  then show ?thesis by (simp add: sint_uint)
qed

lemma in_iters_sdiv:
  assumes "small (ch_used c)" "small (ch_peek_extra c)" "small (ch_pop c)" "ch_pop c \<noteq> 0"
  shows "used_less_peek c = Inr (uint (ch_used c) - uint (ch_peek_extra c))"
    "rbind (used_less_peek c) (\<lambda>d. sdiv_res d (sint (ch_pop c))) = Inr ((uint (ch_used c) - uint (ch_peek_extra c)) sdiv uint (ch_pop c))"
    "max 0 ((uint (ch_used c) - uint (ch_peek_extra c)) sdiv uint (ch_pop c)) = int (in_iters c)"
    "int (in_iters c) < 2 ^ 31"
proof -
  let ?u = "uint (ch_used c)" and ?p = "uint (ch_peek_extra c)" and ?d = "uint (ch_pop c)"
  have b: "?u < 2 ^ 31" "?p < 2 ^ 31" "0 < ?d" "0 \<le> ?u" "0 \<le> ?p"
    using assms by (simp_all add: small_def word_neq_0_conv word_less_def)
  show 1: "used_less_peek c = Inr (?u - ?p)"
  proof -
    have "- (2 ^ 31) \<le> ?u - ?p \<and> ?u - ?p < 2 ^ 31" using b by linarith
    then show ?thesis by (simp add: used_less_peek_def int32_res_def small_sint [OF assms(1)] small_sint [OF assms(2)])
  qed
  have q: "\<bar>(?u - ?p) sdiv ?d\<bar> \<le> \<bar>?u - ?p\<bar>"
    using sdiv_int_range [of "?u - ?p" ?d] by auto
  then have r: "- (2 ^ 31) \<le> (?u - ?p) sdiv ?d" "(?u - ?p) sdiv ?d < 2 ^ 31" using b by linarith+
  show "rbind (used_less_peek c) (\<lambda>d. sdiv_res d (sint (ch_pop c))) = Inr ((?u - ?p) sdiv ?d)"
    using r b(3) by (simp add: 1 sdiv_res_def int32_res_def small_sint [OF assms(3)])
  have i: "int (in_iters c) = (if ?p \<le> ?u then (?u - ?p) div ?d else 0)"
  proof (cases "?p \<le> ?u")
    case True
    then have "ch_peek_extra c \<le> ch_used c" by (simp add: word_le_def)
    then have "unat (ch_peek_extra c) \<le> unat (ch_used c)" by (simp add: word_le_nat_alt)
    then show ?thesis using True by (simp add: in_iters_def zdiv_int of_nat_diff)
  next
    case False
    then have "ch_used c \<le> ch_peek_extra c" by (simp add: word_le_def)
    then have "unat (ch_used c) - unat (ch_peek_extra c) = 0" by (simp add: word_le_nat_alt)
    then show ?thesis using False by (simp add: in_iters_def)
  qed
  show m: "max 0 ((?u - ?p) sdiv ?d) = int (in_iters c)"
  proof (cases "?p \<le> ?u")
    case True
    then have "(?u - ?p) sdiv ?d = (?u - ?p) div ?d" "0 \<le> (?u - ?p) div ?d"
      using b(3) by (simp_all add: signed_divide_int_def sgn_if pos_imp_zdiv_nonneg_iff)
    then show ?thesis using i True by simp
  next
    case False
    then have "(?u - ?p) sdiv ?d \<le> 0" using b(3) by (simp add: signed_divide_int_def sgn_if pos_imp_zdiv_nonneg_iff)
    then show ?thesis using i False by simp
  qed
  then show "int (in_iters c) < 2 ^ 31" using r by (simp add: max_def split: if_splits)
qed


section \<open>The stream graph\<close>

text \<open>Filters and channels name each other, and rates are positive.\<close>

definition reads_ok :: "channel list \<Rightarrow> ds_filter list \<Rightarrow> bool" where
  "reads_ok chs fs \<longleftrightarrow>
     (\<forall>a<length fs. n_inputs (fs ! a) \<le> length (df_inputs (fs ! a)) \<and>
        (\<forall>i<n_inputs (fs ! a). df_inputs (fs ! a) ! i < length chs \<and> ch_in_f (chs ! (df_inputs (fs ! a) ! i)) = Some a)) \<and>
     (\<forall>c<length chs. \<forall>a. ch_in_f (chs ! c) = Some a \<longrightarrow> a < length fs \<and> (\<exists>i<n_inputs (fs ! a). df_inputs (fs ! a) ! i = c) \<and>
        small (ch_pop (chs ! c)) \<and> ch_pop (chs ! c) \<noteq> 0 \<and> small (ch_peek_extra (chs ! c)))"

definition writes_ok :: "channel list \<Rightarrow> ds_filter list \<Rightarrow> bool" where
  "writes_ok chs fs \<longleftrightarrow>
     (\<forall>a<length fs. n_outputs (fs ! a) \<le> length (df_outputs (fs ! a)) \<and>
        (\<forall>i<n_outputs (fs ! a). df_outputs (fs ! a) ! i < length chs \<and> ch_out_f (chs ! (df_outputs (fs ! a) ! i)) = Some a)) \<and>
     (\<forall>c<length chs. \<forall>a. ch_out_f (chs ! c) = Some a \<longrightarrow> a < length fs \<and> (\<exists>i<n_outputs (fs ! a). df_outputs (fs ! a) ! i = c) \<and>
        ch_push (chs ! c) \<noteq> 0)"

definition ds_graph_ok :: "ds_state \<Rightarrow> bool" where
  "ds_graph_ok x \<longleftrightarrow> reads_ok (ds_channels x) (ds_filters x) \<and> writes_ok (ds_channels x) (ds_filters x)"

text \<open>What all inputs, and all outputs, of a filter allow.\<close>

definition in_min :: "channel list \<Rightarrow> ds_filter \<Rightarrow> nat" where
  "in_min chs f = Min ((\<lambda>i. in_iters (chs ! (df_inputs f ! i))) ` {..<n_inputs f})"

definition out_min :: "channel list \<Rightarrow> ds_filter \<Rightarrow> nat" where
  "out_min chs f = Min ((\<lambda>i. out_iters (chs ! (df_outputs f ! i))) ` {..<n_outputs f})"

definition avail_exact :: "channel list \<Rightarrow> ds_filter \<Rightarrow> bool" where
  "avail_exact chs f \<longleftrightarrow> (n_inputs f \<noteq> 0 \<longrightarrow> unat (df_in_avail f) = in_min chs f) \<and>
     (n_outputs f \<noteq> 0 \<longrightarrow> unat (df_out_avail f) = out_min chs f) \<and> df_avail f = min (df_in_avail f) (df_out_avail f)"

definition ds_avail_ok :: "ds_state \<Rightarrow> bool" where
  "ds_avail_ok x \<longleftrightarrow> (\<forall>f\<in>set (ds_filters x). avail_exact (ds_channels x) f)"

definition used_small :: "ds_state \<Rightarrow> bool" where
  "used_small x \<longleftrightarrow> (\<forall>c\<in>set (ds_channels x). small (ch_used c))"

lemma Min_lessThan: "n \<noteq> 0 \<Longrightarrow> Min (g ` {..<n}) = Min (set (map g [0..<n]))" for n :: nat
  by (simp add: lessThan_atLeast0)

lemma client_upd [simp]: "client (upd_client f s) = f (client s)" "pmem (upd_client f s) = pmem s"
  by (simp_all add: upd_client_def)

lemma client_put [simp]:
  "client (put_ch a c s) = (client s)\<lparr>ds_channels := (ds_channels (client s))[a := c]\<rparr>" "pmem (put_ch a c s) = pmem s"
  "client (put_flt a f s) = (client s)\<lparr>ds_filters := (ds_filters (client s))[a := f]\<rparr>" "pmem (put_flt a f s) = pmem s"
  by (simp_all add: put_ch_def put_flt_def)

lemma get_ch_in: "a < length (ds_channels (client s)) \<Longrightarrow> get_ch a s = Inr (ds_channels (client s) ! a)"
  by (simp add: get_ch_def)

lemma get_flt_in: "a < length (ds_filters (client s)) \<Longrightarrow> get_flt a s = Inr (ds_filters (client s) ! a)"
  by (simp add: get_flt_def)

lemma reads_channel:
  "reads_ok chs fs \<Longrightarrow> c < length chs \<Longrightarrow> ch_in_f (chs ! c) = Some a \<Longrightarrow>
   a < length fs \<and> (\<exists>i<n_inputs (fs ! a). df_inputs (fs ! a) ! i = c) \<and>
   small (ch_pop (chs ! c)) \<and> ch_pop (chs ! c) \<noteq> 0 \<and> small (ch_peek_extra (chs ! c))"
  unfolding reads_ok_def by blast

lemma reads_filter:
  "reads_ok chs fs \<Longrightarrow> a < length fs \<Longrightarrow> i < n_inputs (fs ! a) \<Longrightarrow>
   i < length (df_inputs (fs ! a)) \<and> df_inputs (fs ! a) ! i < length chs \<and> ch_in_f (chs ! (df_inputs (fs ! a) ! i)) = Some a"
  unfolding reads_ok_def by (meson order_less_le_trans)

lemma writes_channel:
  "writes_ok chs fs \<Longrightarrow> c < length chs \<Longrightarrow> ch_out_f (chs ! c) = Some a \<Longrightarrow>
   a < length fs \<and> (\<exists>i<n_outputs (fs ! a). df_outputs (fs ! a) ! i = c) \<and> ch_push (chs ! c) \<noteq> 0"
  unfolding writes_ok_def by blast

lemma writes_filter:
  "writes_ok chs fs \<Longrightarrow> a < length fs \<Longrightarrow> i < n_outputs (fs ! a) \<Longrightarrow>
   i < length (df_outputs (fs ! a)) \<and> df_outputs (fs ! a) ! i < length chs \<and> ch_out_f (chs ! (df_outputs (fs ! a) ! i)) = Some a"
  unfolding writes_ok_def by (meson order_less_le_trans)

lemma u32_less: "unat w < 2 ^ 32" for w :: u32
  using unsigned_less [of w] by simp

section \<open>Computing the minima\<close>

lemma least_input:
  assumes g: "reads_ok (ds_channels (client s)) (ds_filters (client s))" "used_small (client s)" and a: "a < length (ds_filters (client s))"
    and n: "n_inputs (ds_filters (client s) ! a) \<noteq> 0"
  shows "\<exists>m. least_input_iters (ds_filters (client s) ! a) s = Inr m \<and>
    max 0 m = int (in_min (ds_channels (client s)) (ds_filters (client s) ! a)) \<and> max 0 m < 2 ^ 31"
proof -
  let ?f = "ds_filters (client s) ! a" and ?chs = "ds_channels (client s)"
  let ?c = "\<lambda>i. ?chs ! (df_inputs ?f ! i)"
  let ?q = "\<lambda>i. (uint (ch_used (?c i)) - uint (ch_peek_extra (?c i))) sdiv uint (ch_pop (?c i))"
  have in_ok: "df_inputs ?f ! i < length ?chs" "i < length (df_inputs ?f)" "small (ch_used (?c i))" "small (ch_peek_extra (?c i))"
    "small (ch_pop (?c i))" "ch_pop (?c i) \<noteq> 0" if "i < n_inputs ?f" for i
  proof -
    note r = reads_filter [OF g(1) a that]
    show l: "df_inputs ?f ! i < length ?chs" and "i < length (df_inputs ?f)" using r by blast+
    show "small (ch_peek_extra (?c i))" "small (ch_pop (?c i))" "ch_pop (?c i) \<noteq> 0"
      using reads_channel [OF g(1) l, of a] r by blast+
    show "small (ch_used (?c i))" using g(2) l by (simp add: used_small_def)
  qed
  have "least_input_iters ?f s = rfold (\<lambda>i m. rbind (rbind (used_less_peek (?c i)) (\<lambda>d. sdiv_res d (sint (ch_pop (?c i))))) (\<lambda>v. Inr (min m v)))
      [0..<n_inputs ?f] (2 ^ 31 - 1)"
    unfolding least_input_iters_def by (rule rfold_cong) (simp_all add: in_ok get_ch_in rbind_assoc)
  also have "\<dots> = Inr (foldl min (2 ^ 31 - 1) (map ?q [0..<n_inputs ?f]))"
    by (rule rfold_min) (simp add: in_iters_sdiv(2) [OF in_ok(3-6)])
  finally have eq: "least_input_iters ?f s = Inr (foldl min (2 ^ 31 - 1) (map ?q [0..<n_inputs ?f]))" .
  have max: "map (max 0) (map ?q [0..<n_inputs ?f]) = map int (map (\<lambda>i. in_iters (?c i)) [0..<n_inputs ?f])"
    by (simp add: in_iters_sdiv(3) [OF in_ok(3-6)])
  have "mono (max (0 :: int))" by (auto simp: mono_def max_def)
  then have "max 0 (foldl min (2 ^ 31 - 1) (map ?q [0..<n_inputs ?f])) = foldl min (2 ^ 31 - 1) (map (max 0) (map ?q [0..<n_inputs ?f]))"
    using mono_foldl_min [where f = "max (0 :: int)"] by fastforce
  also have "\<dots> = foldl min (int (2 ^ 31 - 1)) (map int (map (\<lambda>i. in_iters (?c i)) [0..<n_inputs ?f]))" unfolding max by simp
  also have "\<dots> = int (foldl min (2 ^ 31 - 1) (map (\<lambda>i. in_iters (?c i)) [0..<n_inputs ?f]))"
    by (rule mono_foldl_min [symmetric]) (simp add: mono_def)
  also have "foldl min (2 ^ 31 - 1) (map (\<lambda>i. in_iters (?c i)) [0..<n_inputs ?f]) = in_min ?chs ?f"
  proof -
    have "Min (set (map (\<lambda>i. in_iters (?c i)) [0..<n_inputs ?f])) \<le> in_iters (?c 0)"
      using n by (intro Min_le) auto
    moreover have "in_iters (?c 0) \<le> 2 ^ 31 - 1" using in_iters_sdiv(4) [OF in_ok(3-6), of 0] n by simp
    ultimately have "Min (set (map (\<lambda>i. in_iters (?c i)) [0..<n_inputs ?f])) \<le> 2 ^ 31 - 1" by (rule order_trans)
    then show ?thesis unfolding foldl_min in_min_def Min_lessThan [OF n] using n by (simp only: min.absorb2 if_False) simp
  qed
  finally have m: "max 0 (foldl min (2 ^ 31 - 1) (map ?q [0..<n_inputs ?f])) = int (in_min ?chs ?f)" .
  moreover have "foldl min (2 ^ 31 - 1) (map ?q [0..<n_inputs ?f]) \<le> 2 ^ 31 - 1" unfolding foldl_min by simp
  ultimately show ?thesis using eq by auto
qed


lemma least_output:
  assumes g: "writes_ok (ds_channels (client s)) (ds_filters (client s))" and a: "a < length (ds_filters (client s))"
    and n: "n_outputs (ds_filters (client s) ! a) \<noteq> 0"
  shows "\<exists>w. least_output_iters (ds_filters (client s) ! a) s = Inr w \<and>
    unat w = out_min (ds_channels (client s)) (ds_filters (client s) ! a)"
proof -
  let ?f = "ds_filters (client s) ! a" and ?chs = "ds_channels (client s)"
  let ?c = "\<lambda>i. ?chs ! (df_outputs ?f ! i)"
  let ?q = "\<lambda>i. ch_free (?c i) div ch_push (?c i)"
  have ok: "df_outputs ?f ! i < length ?chs" "i < length (df_outputs ?f)" "ch_push (?c i) \<noteq> 0" if "i < n_outputs ?f" for i
  proof -
    note r = writes_filter [OF g(1) a that]
    show l: "df_outputs ?f ! i < length ?chs" and "i < length (df_outputs ?f)" using r by blast+
    show "ch_push (?c i) \<noteq> 0" using writes_channel [OF g(1) l, of a] r by blast
  qed
  have "least_output_iters ?f s = rfold (\<lambda>i m. rbind (udiv_res (ch_free (?c i)) (ch_push (?c i))) (\<lambda>v. Inr (min m v)))
      [0..<n_outputs ?f] 0xffffffff"
    unfolding least_output_iters_def by (rule rfold_cong) (simp_all add: ok get_ch_in)
  also have "\<dots> = Inr (foldl min 0xffffffff (map ?q [0..<n_outputs ?f]))"
    by (rule rfold_min) (simp add: udiv_res_def ok(3))
  finally have eq: "least_output_iters ?f s = Inr (foldl min 0xffffffff (map ?q [0..<n_outputs ?f]))" .
  have "mono (unat :: u32 \<Rightarrow> nat)" by (simp add: mono_def word_le_nat_alt)
  then have "unat (foldl min 0xffffffff (map ?q [0..<n_outputs ?f])) = foldl min (unat (0xffffffff :: u32)) (map unat (map ?q [0..<n_outputs ?f]))"
    by (rule mono_foldl_min)
  also have "map unat (map ?q [0..<n_outputs ?f]) = map (\<lambda>i. out_iters (?c i)) [0..<n_outputs ?f]"
    by (simp add: out_iters_def unat_div)
  also have "foldl min (unat (0xffffffff :: u32)) (map (\<lambda>i. out_iters (?c i)) [0..<n_outputs ?f]) = out_min ?chs ?f"
  proof -
    have "Min (set (map (\<lambda>i. out_iters (?c i)) [0..<n_outputs ?f])) \<le> out_iters (?c 0)"
      using n by (intro Min_le) auto
    moreover have "out_iters (?c 0) \<le> unat (ch_free (?c 0))" by (simp add: out_iters_def)
    moreover have "unat (ch_free (?c 0)) \<le> unat (0xffffffff :: u32)" using u32_less [of "ch_free (?c 0)"] by simp
    ultimately have "Min (set (map (\<lambda>i. out_iters (?c i)) [0..<n_outputs ?f])) \<le> unat (0xffffffff :: u32)" by linarith
    then show ?thesis unfolding foldl_min out_min_def Min_lessThan [OF n] using n by (simp only: min.absorb2 if_False) simp
  qed
  finally show ?thesis using eq by blast
qed

section \<open>Updating one filter\<close>

lemma update_filter_input_eq:
  assumes "reads_ok (ds_channels (client s)) (ds_filters (client s))" "used_small (client s)" "a < length (ds_filters (client s))"
    "n_inputs (ds_filters (client s) ! a) \<noteq> 0"
  shows "\<exists>w. update_filter_input a s = Inr (put_flt a (set_in_avail w (ds_filters (client s) ! a)) s) \<and>
    unat w = in_min (ds_channels (client s)) (ds_filters (client s) ! a)"
proof -
  obtain m where m: "least_input_iters (ds_filters (client s) ! a) s = Inr m"
    "max 0 m = int (in_min (ds_channels (client s)) (ds_filters (client s) ! a))" "max 0 m < 2 ^ 31"
    using least_input [OF assms] by blast
  have "unat (word_of_int (max 0 m) :: u32) = in_min (ds_channels (client s)) (ds_filters (client s) ! a)"
    using m(2,3) by (simp add: unat_of_nat)
  then show ?thesis using m(1) assms(3,4) by (auto simp: update_filter_input_def get_flt_in)
qed

lemma update_filter_output_eq:
  assumes "writes_ok (ds_channels (client s)) (ds_filters (client s))" "a < length (ds_filters (client s))"
    "n_outputs (ds_filters (client s) ! a) \<noteq> 0"
  shows "\<exists>w. update_filter_output a s = Inr (put_flt a (set_out_avail w (ds_filters (client s) ! a)) s) \<and>
    unat w = out_min (ds_channels (client s)) (ds_filters (client s) ! a)"
  using least_output [OF assms] assms by (auto simp: update_filter_output_def get_flt_in)

lemma new_input_eq:
  assumes g: "reads_ok (ds_channels (client s)) (ds_filters (client s))" "used_small (client s)"
    and c: "c < length (ds_channels (client s))" "ch_in_f (ds_channels (client s) ! c) = Some a"
    and le: "unat (df_in_avail (ds_filters (client s) ! a)) \<le> in_min (ds_channels (client s)) (ds_filters (client s) ! a)"
  shows "\<exists>w. new_input (ds_channels (client s) ! c) s = Inr (put_flt a (set_in_avail w (ds_filters (client s) ! a)) s) \<and>
    unat w = in_min (ds_channels (client s)) (ds_filters (client s) ! a)"
proof -
  let ?c = "ds_channels (client s) ! c" and ?f = "ds_filters (client s) ! a"
  obtain i where a: "a < length (ds_filters (client s))" "i < n_inputs ?f" "df_inputs ?f ! i = c"
    and r: "small (ch_pop ?c)" "ch_pop ?c \<noteq> 0" "small (ch_peek_extra ?c)"
    using reads_channel [OF g(1) c] by blast
  have u: "small (ch_used ?c)" using g(2) c(1) by (simp add: used_small_def)
  show ?thesis
  proof (cases "n_inputs ?f = 1")
    case False
    then show ?thesis using update_filter_input_eq [OF g a(1)] a(1,2) c(2) by (auto simp: new_input_def get_flt_in)
  next
    case True
    let ?w = "word_of_int (max 0 (uint (ch_used ?c) - uint (ch_peek_extra ?c))) div ch_pop ?c :: u32"
    have d: "max 0 (uint (ch_used ?c) - uint (ch_peek_extra ?c)) = int (unat (ch_used ?c) - unat (ch_peek_extra ?c))"
    proof -
      have "max 0 (int p - int q) = int (p - q)" for p q :: nat by linarith
      from this [of "unat (ch_used ?c)" "unat (ch_peek_extra ?c)"] show ?thesis by simp
    qed
    have "unat (ch_used ?c) - unat (ch_peek_extra ?c) < 2 ^ 32" using u32_less [of "ch_used ?c"] by simp
    then have w: "unat ?w = in_iters ?c" unfolding d by (simp add: unat_div unat_of_nat in_iters_def)
    have "in_min (ds_channels (client s)) ?f = in_iters ?c"
    proof -
      have "i = 0" using True a(2) by simp
      then have "df_inputs ?f ! 0 = c" using a(3) by simp
      then show ?thesis using True by (simp add: in_min_def lessThan_Suc)
    qed
    then have "?w \<ge> df_in_avail ?f" using le w by (simp add: word_le_nat_alt)
    then show ?thesis
      using True c(2) a(1) r(2) w in_iters_sdiv(1) [OF u r(3,1,2)] \<open>in_min (ds_channels (client s)) ?f = in_iters ?c\<close>
      by (auto simp: new_input_def get_flt_in udiv_res_def)
  qed
qed

lemma new_output_eq:
  assumes g: "writes_ok (ds_channels (client s)) (ds_filters (client s))"
    and c: "c < length (ds_channels (client s))" "ch_out_f (ds_channels (client s) ! c) = Some a"
    and le: "unat (df_out_avail (ds_filters (client s) ! a)) \<le> out_min (ds_channels (client s)) (ds_filters (client s) ! a)"
  shows "\<exists>w. new_output (ds_channels (client s) ! c) s = Inr (put_flt a (set_out_avail w (ds_filters (client s) ! a)) s) \<and>
    unat w = out_min (ds_channels (client s)) (ds_filters (client s) ! a)"
proof -
  let ?c = "ds_channels (client s) ! c" and ?f = "ds_filters (client s) ! a"
  obtain i where a: "a < length (ds_filters (client s))" "i < n_outputs ?f" "df_outputs ?f ! i = c" and r: "ch_push ?c \<noteq> 0"
    using writes_channel [OF g(1) c] by blast
  show ?thesis
  proof (cases "n_outputs ?f = 1")
    case False
    then show ?thesis using update_filter_output_eq [OF g a(1)] a(1,2) c(2) by (auto simp: new_output_def get_flt_in)
  next
    case True
    have m: "out_min (ds_channels (client s)) ?f = out_iters ?c"
    proof -
      have "i = 0" using True a(2) by simp
      then have "df_outputs ?f ! 0 = c" using a(3) by simp
      then show ?thesis using True by (simp add: out_min_def lessThan_Suc)
    qed
    then have "ch_free ?c div ch_push ?c \<ge> df_out_avail ?f" using le by (simp add: word_le_nat_alt unat_div out_iters_def)
    then show ?thesis using True c(2) a(1) r m
      by (auto simp: new_output_def get_flt_in udiv_res_def unat_div out_iters_def)
  qed
qed

end
