(* ===== verification/Ds_Tree.thy ===== *)
theory Ds_Tree
  imports Ds_Avail
begin

text \<open>
  Writing to and reading from channels of the dynamic scheduler (\<open>library/cell/ds/dssched.c\<close>): the tree of
  a duplicate splitter, what reaches its leaves and when bytes become free at its root.
\<close>

section \<open>Trees of channels\<close>

datatype dtree = Leaf nat | Node nat "dtree list"

fun tree_root :: "dtree \<Rightarrow> nat" where
  "tree_root (Leaf a) = a"
| "tree_root (Node a ts) = a"

fun leaves :: "dtree \<Rightarrow> nat list" where
  "leaves (Leaf a) = [a]"
| "leaves (Node a ts) = concat (map leaves ts)"

fun depth :: "dtree \<Rightarrow> nat" where
  "depth (Leaf a) = 1"
| "depth (Node a ts) = Suc (fold max (map depth ts) 0)"

fun tree_at :: "channel list \<Rightarrow> dtree \<Rightarrow> bool" where
  "tree_at chs (Leaf a) \<longleftrightarrow> a < length chs \<and> ch_dups (chs ! a) = None"
| "tree_at chs (Node a ts) \<longleftrightarrow> a < length chs \<and> unat (ch_num_dups (chs ! a)) = length ts \<and>
     (\<exists>d. ch_dups (chs ! a) = Some d \<and> (\<forall>i<length ts. tree_root (ts ! i) = d + i)) \<and> list_all (tree_at chs) ts"

definition ch_shape :: "channel \<Rightarrow> nat option \<times> u32" where
  "ch_shape c = (ch_dups c, ch_num_dups c)"

lemma le_fold_max: "x \<in> set xs \<Longrightarrow> x \<le> fold max xs m" for x :: nat
proof (induction xs arbitrary: m)
  case Nil
  then show ?case by simp
next
  case (Cons y xs)
  have "m \<le> fold max xs m" for m by (induction xs arbitrary: m) (simp_all, meson max.boundedE order_refl)
  then show ?case using Cons by (auto intro: order_trans [OF max.cobounded1])
qed

lemma tree_at_shape:
  assumes "map ch_shape chs' = map ch_shape chs"
  shows "tree_at chs' t \<longleftrightarrow> tree_at chs t"
proof -
  have l: "length chs' = length chs" using assms by (metis length_map)
  then have "ch_dups (chs' ! a) = ch_dups (chs ! a) \<and> ch_num_dups (chs' ! a) = ch_num_dups (chs ! a)" if "a < length chs" for a
    using arg_cong [OF assms, of "\<lambda>xs. xs ! a"] that by (simp add: ch_shape_def)
  then show ?thesis using l by (induction t) (auto simp: list_all_iff)
qed

lemma root_at: "tree_at chs t \<Longrightarrow> tree_root t < length chs"
  by (cases t) auto

text \<open>The recursion down a tree is a loop over its leaves, if what is done there keeps the tree.\<close>

lemma each_leaf_leaves:
  assumes keep: "\<And>x s s'. map ch_shape (ds_channels (client s)) = sh \<Longrightarrow> g x s = Inr s' \<Longrightarrow> map ch_shape (ds_channels (client s')) = sh"
  shows "tree_at (ds_channels (client s)) t \<Longrightarrow> map ch_shape (ds_channels (client s)) = sh \<Longrightarrow> depth t \<le> k \<Longrightarrow>
    each_leaf g k (tree_root t) s = rfold g (leaves t) s"
proof (induction t arbitrary: k s)
  case (Leaf a)
  then show ?case by (cases k) (simp_all add: get_ch_in)
next
  case (Node a ts)
  obtain k' where k: "k = Suc k'" "fold max (map depth ts) 0 \<le> k'" using Node.prems(3) by (cases k) auto
  obtain d where d: "a < length (ds_channels (client s))" "unat (ch_num_dups (ds_channels (client s) ! a)) = length ts"
    "ch_dups (ds_channels (client s) ! a) = Some d" "\<forall>i<length ts. tree_root (ts ! i) = d + i"
    "list_all (tree_at (ds_channels (client s))) ts"
    using Node.prems(1) by auto
  let ?P = "\<lambda>u :: 'a ds_ppu. map ch_shape (ds_channels (client u)) = sh"
  have "each_leaf g k (tree_root (Node a ts)) s = rfold (\<lambda>i. each_leaf g k' (d + i)) [0..<length ts] s"
    using d(1-3) by (simp add: k(1) get_ch_in)
  also have "\<dots> = rfold (\<lambda>i. rfold g (leaves (ts ! i))) [0..<length ts] s"
  proof (rule conjunct1 [OF rfold_eq_invariant [where P = ?P]])
    show "?P s" by (rule Node.prems(2))
  next
    fix i u assume i: "i \<in> set [0..<length ts]" and u: "?P u"
    then have t: "ts ! i \<in> set ts" "tree_root (ts ! i) = d + i" using d(4) by auto
    have "tree_at (ds_channels (client u)) (ts ! i)"
      using tree_at_shape [of "ds_channels (client u)" "ds_channels (client s)"] u Node.prems(2) d(5) t(1) by (simp add: list_all_iff)
    moreover have "depth (ts ! i) \<le> k'"
      using le_fold_max [of "depth (ts ! i)" "map depth ts" 0] k(2) t(1) by fastforce
    ultimately have eq: "each_leaf g k' (d + i) u = rfold g (leaves (ts ! i)) u"
      using Node.IH [OF t(1) _ u] t(2) by simp
    moreover have "?P v" if "rfold g (leaves (ts ! i)) u = Inr v" for v
      by (rule rfold_invariant [where P = ?P, OF that u]) (rule keep)
    ultimately show "each_leaf g k' (d + i) u = rfold g (leaves (ts ! i)) u \<and> (\<forall>v. each_leaf g k' (d + i) u = Inr v \<longrightarrow> ?P v)"
      by simp
  qed
  also have "\<dots> = rfold g (leaves (Node a ts)) s"
    using rfold_upt_nth [of "\<lambda>t. rfold g (leaves t)" ts s] by (simp add: rfold_concat rfold_map)
  finally show ?case .
qed

section \<open>What does not change\<close>

definition ch_static :: "channel \<Rightarrow> nat option \<times> nat option \<times> u32 \<times> u32 \<times> u32 \<times> nat option \<times> u32 \<times> nat option \<times> nat" where
  "ch_static c = (ch_in_f c, ch_out_f c, ch_pop c, ch_peek_extra c, ch_push c, ch_dups c, ch_num_dups c, ch_parent c, ch_buf c)"

definition df_static :: "ds_filter \<Rightarrow> nat list \<times> nat list \<times> filter_desc" where
  "df_static f = (df_inputs f, df_outputs f, df_desc f)"

definition same_graph :: "ds_state \<Rightarrow> ds_state \<Rightarrow> bool" where
  "same_graph x y \<longleftrightarrow> map ch_static (ds_channels x) = map ch_static (ds_channels y) \<and>
     map df_static (ds_filters x) = map df_static (ds_filters y)"

lemma same_graph_refl [simp]: "same_graph x x"
  by (simp add: same_graph_def)

lemma same_graph_trans: "same_graph x y \<Longrightarrow> same_graph y z \<Longrightarrow> same_graph x z"
  by (simp add: same_graph_def)

lemma same_graph_length:
  "same_graph x y \<Longrightarrow> length (ds_channels x) = length (ds_channels y) \<and> length (ds_filters x) = length (ds_filters y)"
  unfolding same_graph_def by (metis length_map)

lemma same_graph_ch:
  assumes "same_graph x y" "a < length (ds_channels y)"
  shows "ch_static (ds_channels x ! a) = ch_static (ds_channels y ! a)"
proof -
  have "map ch_static (ds_channels x) ! a = map ch_static (ds_channels y) ! a" using assms(1) by (simp add: same_graph_def)
  then show ?thesis using assms same_graph_length [OF assms(1)] by simp
qed

lemma same_graph_flt:
  assumes "same_graph x y" "a < length (ds_filters y)"
  shows "df_static (ds_filters x ! a) = df_static (ds_filters y ! a)"
proof -
  have "map df_static (ds_filters x) ! a = map df_static (ds_filters y) ! a" using assms(1) by (simp add: same_graph_def)
  then show ?thesis using assms same_graph_length [OF assms(1)] by simp
qed

lemma df_static_counts: "df_static f = df_static g \<Longrightarrow> n_inputs f = n_inputs g \<and> n_outputs f = n_outputs g \<and>
    df_inputs f = df_inputs g \<and> df_outputs f = df_outputs g"
  by (simp add: df_static_def n_inputs_def n_outputs_def)

lemma same_graph_ok:
  assumes "same_graph x y" "ds_graph_ok y"
  shows "ds_graph_ok x"
proof -
  have l: "length (ds_channels x) = length (ds_channels y)" "length (ds_filters x) = length (ds_filters y)"
    using same_graph_length [OF assms(1)] by simp_all
  have c: "ch_in_f (ds_channels x ! a) = ch_in_f (ds_channels y ! a)" "ch_out_f (ds_channels x ! a) = ch_out_f (ds_channels y ! a)"
    "ch_pop (ds_channels x ! a) = ch_pop (ds_channels y ! a)" "ch_push (ds_channels x ! a) = ch_push (ds_channels y ! a)"
    "ch_peek_extra (ds_channels x ! a) = ch_peek_extra (ds_channels y ! a)" if "a < length (ds_channels y)" for a
    using same_graph_ch [OF assms(1) that] by (simp_all add: ch_static_def)
  have f: "n_inputs (ds_filters x ! a) = n_inputs (ds_filters y ! a)" "n_outputs (ds_filters x ! a) = n_outputs (ds_filters y ! a)"
    "df_inputs (ds_filters x ! a) = df_inputs (ds_filters y ! a)" "df_outputs (ds_filters x ! a) = df_outputs (ds_filters y ! a)"
    if "a < length (ds_filters y)" for a
    using df_static_counts [OF same_graph_flt [OF assms(1) that]] by simp_all
  have "reads_ok (ds_channels x) (ds_filters x)"
    unfolding reads_ok_def l
  proof (intro conjI allI impI)
    fix a assume a: "a < length (ds_filters y)"
    show "n_inputs (ds_filters x ! a) \<le> length (df_inputs (ds_filters x ! a))"
      using assms(2) a f [OF a] by (simp add: ds_graph_ok_def reads_ok_def)
    fix i assume "i < n_inputs (ds_filters x ! a)"
    then have r: "df_inputs (ds_filters y ! a) ! i < length (ds_channels y)" "ch_in_f (ds_channels y ! (df_inputs (ds_filters y ! a) ! i)) = Some a"
      using reads_filter [of "ds_channels y" "ds_filters y" a i] assms(2) a f [OF a] by (simp_all add: ds_graph_ok_def)
    show "df_inputs (ds_filters x ! a) ! i < length (ds_channels y)" using r(1) f [OF a] by simp
    show "ch_in_f (ds_channels x ! (df_inputs (ds_filters x ! a) ! i)) = Some a" using r(2) c(1) [OF r(1)] f [OF a] by simp
  next
    fix b a assume b: "b < length (ds_channels y)" and "ch_in_f (ds_channels x ! b) = Some a"
    then have "a < length (ds_filters y) \<and> (\<exists>i<n_inputs (ds_filters y ! a). df_inputs (ds_filters y ! a) ! i = b) \<and>
      small (ch_pop (ds_channels y ! b)) \<and> ch_pop (ds_channels y ! b) \<noteq> 0 \<and> small (ch_peek_extra (ds_channels y ! b))"
      using reads_channel [of "ds_channels y" "ds_filters y" b a] assms(2) c(1) [OF b] by (simp add: ds_graph_ok_def)
    then show "a < length (ds_filters y)" "\<exists>i<n_inputs (ds_filters x ! a). df_inputs (ds_filters x ! a) ! i = b"
      "small (ch_pop (ds_channels x ! b))" "ch_pop (ds_channels x ! b) \<noteq> 0" "small (ch_peek_extra (ds_channels x ! b))"
      using f [of a] c [OF b] by simp_all
  qed
  moreover have "writes_ok (ds_channels x) (ds_filters x)"
    unfolding writes_ok_def l
  proof (intro conjI allI impI)
    fix a assume a: "a < length (ds_filters y)"
    show "n_outputs (ds_filters x ! a) \<le> length (df_outputs (ds_filters x ! a))"
      using assms(2) a f [OF a] by (simp add: ds_graph_ok_def writes_ok_def)
    fix i assume "i < n_outputs (ds_filters x ! a)"
    then have r: "df_outputs (ds_filters y ! a) ! i < length (ds_channels y)" "ch_out_f (ds_channels y ! (df_outputs (ds_filters y ! a) ! i)) = Some a"
      using writes_filter [of "ds_channels y" "ds_filters y" a i] assms(2) a f [OF a] by (simp_all add: ds_graph_ok_def)
    show "df_outputs (ds_filters x ! a) ! i < length (ds_channels y)" using r(1) f [OF a] by simp
    show "ch_out_f (ds_channels x ! (df_outputs (ds_filters x ! a) ! i)) = Some a" using r(2) c(2) [OF r(1)] f [OF a] by simp
  next
    fix b a assume b: "b < length (ds_channels y)" and "ch_out_f (ds_channels x ! b) = Some a"
    then have "a < length (ds_filters y) \<and> (\<exists>i<n_outputs (ds_filters y ! a). df_outputs (ds_filters y ! a) ! i = b) \<and>
      ch_push (ds_channels y ! b) \<noteq> 0"
      using writes_channel [of "ds_channels y" "ds_filters y" b a] assms(2) c(2) [OF b] by (simp add: ds_graph_ok_def)
    then show "a < length (ds_filters y)" "\<exists>i<n_outputs (ds_filters x ! a). df_outputs (ds_filters x ! a) ! i = b"
      "ch_push (ds_channels x ! b) \<noteq> 0"
      using f [of a] c [OF b] by simp_all
  qed
  ultimately show ?thesis by (simp add: ds_graph_ok_def)
qed

section \<open>Channels with more to read\<close>

definition add_used :: "u32 \<Rightarrow> channel \<Rightarrow> channel" where
  "add_used n c = c\<lparr>ch_used := ch_used c + n\<rparr>"

definition add_used_at :: "u32 \<Rightarrow> nat \<Rightarrow> channel list \<Rightarrow> channel list" where
  "add_used_at n a chs = chs[a := add_used n (chs ! a)]"

definition bufs_there :: "('d, ds_state) ppu \<Rightarrow> bool" where
  "bufs_there s \<longleftrightarrow> (\<forall>c\<in>set (ds_channels (client s)). bufs (pmem s) (ch_buf c) \<noteq> None)"

lemma add_used_static [simp]: "ch_static (add_used n c) = ch_static c"
  by (simp add: add_used_def ch_static_def)

lemma add_used_sel [simp]:
  "ch_used (add_used n c) = ch_used c + n" "ch_in_f (add_used n c) = ch_in_f c" "ch_parent (add_used n c) = ch_parent c"
  "ch_buf (add_used n c) = ch_buf c" "ch_free (add_used n c) = ch_free c" "ch_push (add_used n c) = ch_push c"
  "ch_dups (add_used n c) = ch_dups c" "ch_out_f (add_used n c) = ch_out_f c"
  by (simp_all add: add_used_def)

lemma unat_add_small: "uint a + uint b < 2 ^ 32 \<Longrightarrow> unat (a + b) = unat a + unat b" for a b :: u32
proof -
  assume "uint a + uint b < 2 ^ 32"
  then have "int (unat a + unat b) < int (2 ^ 32)" by simp
  then show ?thesis by (simp add: unat_word_ariths del: of_nat_add)
qed

lemma in_iters_add:
  assumes "uint (ch_used c) + uint n < 2 ^ 31"
  shows "in_iters c \<le> in_iters (add_used n c)"
proof -
  have "unat (ch_used c + n) = unat (ch_used c) + unat n"
    using assms by (intro unat_add_small) simp
  then show ?thesis by (simp add: in_iters_def add_used_def div_le_mono)
qed

lemma in_min_mono:
  assumes "n_inputs f \<noteq> 0" "\<And>i. i < n_inputs f \<Longrightarrow> in_iters (chs ! (df_inputs f ! i)) \<le> in_iters (chs' ! (df_inputs f ! i))"
  shows "in_min chs f \<le> in_min chs' f"
proof -
  have ne: "(\<lambda>i. in_iters (chs' ! (df_inputs f ! i))) ` {..<n_inputs f} \<noteq> {}" using assms(1) by (simp add: lessThan_empty_iff)
  have "in_min chs' f \<in> (\<lambda>i. in_iters (chs' ! (df_inputs f ! i))) ` {..<n_inputs f}"
    unfolding in_min_def by (rule Min_in [OF _ ne]) simp
  then obtain i where i: "i < n_inputs f" "in_min chs' f = in_iters (chs' ! (df_inputs f ! i))" by auto
  have "in_min chs f \<le> in_iters (chs ! (df_inputs f ! i))" unfolding in_min_def using i(1) by (intro Min_le) auto
  then show ?thesis using assms(2) [OF i(1)] i(2) by linarith
qed

lemma min_cong:
  "(\<And>i. i < n_inputs f \<Longrightarrow> in_iters (chs' ! (df_inputs f ! i)) = in_iters (chs ! (df_inputs f ! i))) \<Longrightarrow> in_min chs' f = in_min chs f"
  "(\<And>i. i < n_outputs f \<Longrightarrow> out_iters (chs' ! (df_outputs f ! i)) = out_iters (chs ! (df_outputs f ! i))) \<Longrightarrow> out_min chs' f = out_min chs f"
  unfolding in_min_def out_min_def by (auto intro!: arg_cong [where f = Min] image_cong)

lemma set_avail_exact:
  "avail_exact chs f \<Longrightarrow> unat w = in_min chs (set_in_avail w f) \<Longrightarrow> avail_exact chs (set_in_avail w f)"
  by (simp add: avail_exact_def set_in_avail_def n_inputs_def n_outputs_def out_min_def)

text \<open>What an update of channels and availability leaves alone.\<close>

definition strip :: "ds_state \<Rightarrow> ds_state" where
  "strip x = x\<lparr>ds_channels := map (\<lambda>c. c\<lparr>ch_used := 0, ch_free := 0, ch_waiting := 0\<rparr>) (ds_channels x),
     ds_filters := map (\<lambda>f. f\<lparr>df_avail := 0, df_in_avail := 0, df_out_avail := 0\<rparr>) (ds_filters x)\<rparr>"

definition same_setup :: "ds_state \<Rightarrow> ds_state \<Rightarrow> bool" where
  "same_setup x y \<longleftrightarrow> strip x = strip y"

lemma same_setup_refl [simp]: "same_setup x x"
  by (simp add: same_setup_def)

lemma same_setup_trans: "same_setup x y \<Longrightarrow> same_setup y z \<Longrightarrow> same_setup x z"
  by (simp add: same_setup_def)

lemma same_setup_graph:
  assumes "same_setup x y"
  shows "same_graph x y"
proof -
  have "map ch_static (ds_channels x) = map ch_static (ds_channels (strip x))" "map df_static (ds_filters x) = map df_static (ds_filters (strip x))" for x
    by (simp_all add: strip_def o_def ch_static_def df_static_def)
  then show ?thesis using assms unfolding same_graph_def same_setup_def by metis
qed

lemma strip_channel:
  assumes "a < length (ds_channels x)"
    "c\<lparr>ch_used := 0, ch_free := 0, ch_waiting := 0\<rparr> = (ds_channels x ! a)\<lparr>ch_used := 0, ch_free := 0, ch_waiting := 0\<rparr>"
  shows "same_setup (x\<lparr>ds_channels := (ds_channels x)[a := c]\<rparr>) x"
proof -
  have "map (\<lambda>c. c\<lparr>ch_used := 0, ch_free := 0, ch_waiting := 0\<rparr>) ((ds_channels x)[a := c]) =
      map (\<lambda>c. c\<lparr>ch_used := 0, ch_free := 0, ch_waiting := 0\<rparr>) (ds_channels x)"
    by (rule nth_equalityI) (use assms in \<open>auto simp: nth_list_update\<close>)
  then show ?thesis by (simp add: same_setup_def strip_def)
qed

lemma strip_filter:
  assumes "a < length (ds_filters x)"
    "f\<lparr>df_avail := 0, df_in_avail := 0, df_out_avail := 0\<rparr> = (ds_filters x ! a)\<lparr>df_avail := 0, df_in_avail := 0, df_out_avail := 0\<rparr>"
  shows "same_setup (x\<lparr>ds_filters := (ds_filters x)[a := f]\<rparr>) x"
proof -
  have "map (\<lambda>f. f\<lparr>df_avail := 0, df_in_avail := 0, df_out_avail := 0\<rparr>) ((ds_filters x)[a := f]) =
      map (\<lambda>f. f\<lparr>df_avail := 0, df_in_avail := 0, df_out_avail := 0\<rparr>) (ds_filters x)"
    by (rule nth_equalityI) (use assms in \<open>auto simp: nth_list_update\<close>)
  then show ?thesis by (simp add: same_setup_def strip_def)
qed

lemma set_avail_strip:
  "(set_in_avail w f)\<lparr>df_avail := 0, df_in_avail := 0, df_out_avail := 0\<rparr> = f\<lparr>df_avail := 0, df_in_avail := 0, df_out_avail := 0\<rparr>"
  "(set_out_avail w f)\<lparr>df_avail := 0, df_in_avail := 0, df_out_avail := 0\<rparr> = f\<lparr>df_avail := 0, df_in_avail := 0, df_out_avail := 0\<rparr>"
  by (simp_all add: set_in_avail_def set_out_avail_def)

lemma upd_buf_there:
  assumes "bufs (pmem s) p \<noteq> None" "bufs_there s"
  shows "\<exists>s'. upd_buf p g s = Inr s' \<and> client s' = client s \<and> bufs_there s'"
  using assms by (auto simp: upd_buf_def get_pbuf_def put_pbuf_def bufs_there_def)

lemma init_leaf_used_eq:
  assumes "a < length (ds_channels (client s))" "bufs_there s"
  shows "\<exists>s'. init_leaf_used a n s = Inr s' \<and> client s' = (client s)\<lparr>ds_channels := add_used_at n a (ds_channels (client s))\<rparr> \<and> bufs_there s'"
proof -
  let ?c = "ds_channels (client s) ! a"
  let ?s = "put_ch a (add_used n ?c) s"
  have there: "bufs_there ?s" and p: "bufs (pmem ?s) (ch_buf ?c) \<noteq> None"
    using assms by (auto simp: bufs_there_def dest!: set_update_subset_insert [THEN subsetD])
  have eq: "init_leaf_used a n s = (if ch_parent ?c \<noteq> None then upd_buf (ch_buf ?c) (buf_inc_tail n) ?s else Inr ?s)"
    using assms(1) by (simp add: init_leaf_used_def get_ch_in add_used_def)
  have cl: "client ?s = (client s)\<lparr>ds_channels := add_used_at n a (ds_channels (client s))\<rparr>" by (simp add: add_used_at_def)
  show ?thesis
  proof (cases "ch_parent ?c")
    case None
    then show ?thesis using eq cl there by simp
  next
    case (Some q)
    obtain s' where "upd_buf (ch_buf ?c) (buf_inc_tail n) ?s = Inr s'" "client s' = client ?s" "bufs_there s'"
      using upd_buf_there [OF p there] by blast
    then show ?thesis using eq Some cl by simp
  qed
qed

lemma ds_avail_ok_nth: "ds_avail_ok x \<longleftrightarrow> (\<forall>j<length (ds_filters x). avail_exact (ds_channels x) (ds_filters x ! j))"
  by (auto simp: ds_avail_ok_def all_set_conv_all_nth)

lemma leaf_used_ok:
  assumes g: "ds_graph_ok (client s)" "ds_avail_ok (client s)" "used_small (client s)" "bufs_there s"
    and a: "a < length (ds_channels (client s))" "uint (ch_used (ds_channels (client s) ! a)) + uint n < 2 ^ 31"
  shows "\<exists>s'. leaf_used a n s = Inr s' \<and> ds_channels (client s') = add_used_at n a (ds_channels (client s)) \<and>
    same_setup (client s') (client s) \<and> ds_avail_ok (client s') \<and> used_small (client s') \<and> bufs_there s'"
proof -
  let ?chs = "ds_channels (client s)" and ?fs = "ds_filters (client s)"
  let ?chs' = "add_used_at n a ?chs" and ?c = "ds_channels (client s) ! a"
  obtain s1 where s1: "init_leaf_used a n s = Inr s1" "client s1 = (client s)\<lparr>ds_channels := ?chs'\<rparr>" "bufs_there s1"
    using init_leaf_used_eq [OF a(1) g(4)] by blast
  have len: "length ?chs' = length ?chs" and at: "?chs' ! a = add_used n ?c" and other: "c \<noteq> a \<Longrightarrow> ?chs' ! c = ?chs ! c" for c
    using a(1) by (simp_all add: add_used_at_def)
  have setup1: "same_setup (client s1) (client s)"
    unfolding s1(2) add_used_at_def by (rule strip_channel [OF a(1)]) (simp add: add_used_def)
  have g1: "reads_ok ?chs' ?fs" "writes_ok ?chs' ?fs"
    using same_graph_ok [OF same_setup_graph [OF setup1] g(1)] s1(2) by (simp_all add: ds_graph_ok_def)
  have small1: "used_small (client s1)"
  proof -
    have "small (ch_used ?c + n)"
    proof -
      have "unat (ch_used ?c + n) = unat (ch_used ?c) + unat n" using a(2) by (intro unat_add_small) simp
      then have "int (unat (ch_used ?c + n)) = int (unat (ch_used ?c)) + int (unat n)" by (simp only: of_nat_add)
      then show ?thesis using a(2) by (simp add: small_def)
    qed
    then show ?thesis using g(3) by (auto simp: used_small_def s1(2) add_used_at_def dest!: set_update_subset_insert [THEN subsetD])
  qed
  have it: "in_iters (?chs ! c) \<le> in_iters (?chs' ! c)" "out_iters (?chs' ! c) = out_iters (?chs ! c)" for c
    using in_iters_add [OF a(2)] at other [of c] by (cases "c = a"; simp add: out_iters_def)+
  have exact: "avail_exact ?chs' (?fs ! j)" if j: "j < length ?fs" and n: "ch_in_f ?c \<noteq> Some j" for j
  proof -
    have "in_min ?chs' (?fs ! j) = in_min ?chs (?fs ! j)"
    proof (rule min_cong(1))
      fix i assume "i < n_inputs (?fs ! j)"
      then have "df_inputs (?fs ! j) ! i \<noteq> a" using reads_filter [of ?chs ?fs j i] j n g(1) by (auto simp: ds_graph_ok_def)
      then show "in_iters (?chs' ! (df_inputs (?fs ! j) ! i)) = in_iters (?chs ! (df_inputs (?fs ! j) ! i))" by (simp add: other)
    qed
    moreover have "out_min ?chs' (?fs ! j) = out_min ?chs (?fs ! j)" by (rule min_cong(2)) (rule it(2))
    ultimately show ?thesis using g(2) j by (simp add: ds_avail_ok_nth avail_exact_def)
  qed
  have run: "leaf_used a n s = new_input (?chs' ! a) s1"
    using s1 a(1) len by (simp add: leaf_used_def get_ch_in)
  show ?thesis
  proof (cases "ch_in_f ?c")
    case None
    then have "leaf_used a n s = Inr s1" by (simp add: run at new_input_def)
    moreover have "ds_avail_ok (client s1)" using exact None by (simp add: ds_avail_ok_nth s1(2))
    ultimately show ?thesis using s1 setup1 small1 by simp
  next
    case (Some b)
    have b: "b < length ?fs" using reads_channel [of ?chs ?fs a b] g(1) a(1) Some by (simp add: ds_graph_ok_def)
    have nz: "n_inputs (?fs ! b) \<noteq> 0" using reads_channel [of ?chs ?fs a b] g(1) a(1) Some by (auto simp: ds_graph_ok_def)
    have old: "unat (df_in_avail (?fs ! b)) = in_min ?chs (?fs ! b)" using g(2) b nz by (simp add: ds_avail_ok_nth avail_exact_def)
    have "in_min ?chs (?fs ! b) \<le> in_min ?chs' (?fs ! b)" by (rule in_min_mono [OF nz]) (rule it(1))
    then obtain w where w: "leaf_used a n s = Inr (put_flt b (set_in_avail w (?fs ! b)) s1)" "unat w = in_min ?chs' (?fs ! b)"
      using new_input_eq [of s1 a b] g1(1) small1 a(1) len at Some old unfolding run s1(2) by auto
    have f: "avail_exact ?chs' (set_in_avail w (?fs ! b))"
    proof -
      have "out_min ?chs' (?fs ! b) = out_min ?chs (?fs ! b)" by (rule min_cong(2)) (rule it(2))
      then show ?thesis using g(2) b w(2)
        by (simp add: ds_avail_ok_nth avail_exact_def set_in_avail_def n_inputs_def n_outputs_def in_min_def out_min_def)
    qed
    have "ds_avail_ok (client (put_flt b (set_in_avail w (?fs ! b)) s1))"
      using exact f b Some by (simp add: ds_avail_ok_nth s1(2) nth_list_update)
    moreover have "same_setup (client (put_flt b (set_in_avail w (?fs ! b)) s1)) (client s1)"
      using strip_filter [of b "client s1" "set_in_avail w (?fs ! b)"] b by (simp add: s1(2) set_avail_strip)
    moreover have "used_small (client (put_flt b (set_in_avail w (?fs ! b)) s1))" using small1 by (simp add: used_small_def)
    ultimately show ?thesis using w(1) s1 setup1
      by (auto simp: bufs_there_def intro: same_setup_trans)
  qed
qed

lemma upd_buf_client: "upd_buf p g s = Inr s' \<Longrightarrow> client s' = client s"
  by (auto simp: upd_buf_def put_pbuf_def res_simps)

lemma new_input_channels: "new_input c s = Inr s' \<Longrightarrow> ds_channels (client s') = ds_channels (client s)"
  by (auto simp: new_input_def update_filter_input_def res_simps split: option.splits if_splits)

lemma leaf_used_shape:
  assumes "leaf_used a n s = Inr s'"
  shows "map ch_shape (ds_channels (client s')) = map ch_shape (ds_channels (client s))"
proof -
  obtain s1 c1 where s1: "init_leaf_used a n s = Inr s1" and l: "new_input c1 s1 = Inr s'"
    using assms by (auto simp: leaf_used_def res_simps)
  obtain c where c: "a < length (ds_channels (client s))" "ds_channels (client s) ! a = c"
    "ds_channels (client s1) = (ds_channels (client s))[a := c\<lparr>ch_used := ch_used c + n\<rparr>]"
    using s1 by (auto simp: init_leaf_used_def get_ch_def res_simps Let_def split: if_splits dest!: upd_buf_client)
  have "ch_shape (c\<lparr>ch_used := ch_used c + n\<rparr>) = map ch_shape (ds_channels (client s)) ! a"
    using c(1,2) by (simp add: ch_shape_def)
  then show ?thesis unfolding new_input_channels [OF l] c(3) map_update by (metis list_update_id)
qed

lemma leaves_at: "tree_at chs t \<Longrightarrow> a \<in> set (leaves t) \<Longrightarrow> a < length chs \<and> ch_dups (chs ! a) = None"
  by (induction t) (auto simp: list_all_iff)

definition bump :: "u32 \<Rightarrow> nat list \<Rightarrow> channel list \<Rightarrow> channel list" where
  "bump n xs chs = map (\<lambda>a. if a \<in> set xs then add_used n (chs ! a) else chs ! a) [0..<length chs]"

lemma leaves_used_ok:
  assumes "ds_graph_ok (client s)" "ds_avail_ok (client s)" "used_small (client s)" "bufs_there s" "distinct xs"
    "\<And>a. a \<in> set xs \<Longrightarrow> a < length (ds_channels (client s)) \<and> uint (ch_used (ds_channels (client s) ! a)) + uint n < 2 ^ 31"
  shows "\<exists>s'. rfold (\<lambda>a. leaf_used a n) xs s = Inr s' \<and> ds_channels (client s') = bump n xs (ds_channels (client s)) \<and>
    same_setup (client s') (client s) \<and> ds_avail_ok (client s')"
  using assms
proof (induction xs arbitrary: s)
  case Nil
  then show ?case by (simp add: bump_def map_nth)
next
  case (Cons a xs)
  let ?chs = "ds_channels (client s)"
  have a: "a < length ?chs" "uint (ch_used (?chs ! a)) + uint n < 2 ^ 31" using Cons.prems(6) [of a] by simp_all
  obtain s1 where s1: "leaf_used a n s = Inr s1" "ds_channels (client s1) = add_used_at n a ?chs"
    "same_setup (client s1) (client s)" "ds_avail_ok (client s1)" "used_small (client s1)" "bufs_there s1"
    using leaf_used_ok [OF Cons.prems(1-4) a] by blast
  have "b < length (ds_channels (client s1)) \<and> uint (ch_used (ds_channels (client s1) ! b)) + uint n < 2 ^ 31" if "b \<in> set xs" for b
    using Cons.prems(5) Cons.prems(6) [of b] that a(1) by (auto simp: s1(2) add_used_at_def nth_list_update)
  then obtain s' where s': "rfold (\<lambda>a. leaf_used a n) xs s1 = Inr s'" "ds_channels (client s') = bump n xs (ds_channels (client s1))"
    "same_setup (client s') (client s1)" "ds_avail_ok (client s')"
    using Cons.IH [of s1] Cons.prems(5) same_graph_ok [OF same_setup_graph [OF s1(3)] Cons.prems(1)] s1(4-6) by (meson distinct.simps(2))
  have "bump n xs (add_used_at n a ?chs) = bump n (a # xs) ?chs"
    using Cons.prems(5) a(1) by (auto simp: bump_def add_used_at_def nth_list_update)
  then show ?case using s1 s' same_setup_trans by auto
qed

lemma write_reaches_leaves:
  assumes "ds_graph_ok (client s)" "ds_avail_ok (client s)" "used_small (client s)" "bufs_there s"
    "tree_at (ds_channels (client s)) t" "distinct (leaves t)" "depth t \<le> k"
    "\<And>a. a \<in> set (leaves t) \<Longrightarrow> uint (ch_used (ds_channels (client s) ! a)) + uint n < 2 ^ 31"
  shows "\<exists>s'. update_down_channel_used k (tree_root t) n s = Inr s' \<and> ds_channels (client s') = bump n (leaves t) (ds_channels (client s)) \<and>
    same_setup (client s') (client s) \<and> ds_avail_ok (client s')"
proof -
  have "update_down_channel_used k (tree_root t) n s = rfold (\<lambda>a. leaf_used a n) (leaves t) s"
    unfolding update_down_channel_used_def
    by (rule each_leaf_leaves [OF _ assms(5) refl assms(7)]) (simp add: leaf_used_shape)
  then show ?thesis using leaves_used_ok [OF assms(1-4,6)] assms(8) leaves_at [OF assms(5)] by simp
qed

text \<open>The tails of the leaves' own control blocks.\<close>

definition own_leaves :: "channel list \<Rightarrow> nat list \<Rightarrow> nat \<Rightarrow> nat set" where
  "own_leaves chs xs p = {a \<in> set xs. ch_parent (chs ! a) \<noteq> None \<and> ch_buf (chs ! a) = p}"

lemma new_input_pmem: "new_input c s = Inr s' \<Longrightarrow> pmem s' = pmem s"
  by (auto simp: new_input_def update_filter_input_def put_flt_def upd_client_def res_simps split: option.splits if_splits)

lemma leaf_used_pmem:
  assumes "leaf_used a n s = Inr s'"
  shows "\<exists>c. a < length (ds_channels (client s)) \<and> ds_channels (client s) ! a = c \<and>
    ds_channels (client s') = (ds_channels (client s))[a := c\<lparr>ch_used := ch_used c + n\<rparr>] \<and> datas (pmem s') = datas (pmem s) \<and>
    bufs (pmem s') = (if ch_parent c \<noteq> None
      then (bufs (pmem s))(ch_buf c := map_option (buf_inc_tail n) (bufs (pmem s) (ch_buf c))) else bufs (pmem s))"
proof -
  obtain s1 c1 where s1: "init_leaf_used a n s = Inr s1" and l: "new_input c1 s1 = Inr s'"
    using assms by (auto simp: leaf_used_def res_simps)
  have "\<exists>c. a < length (ds_channels (client s)) \<and> ds_channels (client s) ! a = c \<and>
    ds_channels (client s1) = (ds_channels (client s))[a := c\<lparr>ch_used := ch_used c + n\<rparr>] \<and> datas (pmem s1) = datas (pmem s) \<and>
    bufs (pmem s1) = (if ch_parent c \<noteq> None
      then (bufs (pmem s))(ch_buf c := map_option (buf_inc_tail n) (bufs (pmem s) (ch_buf c))) else bufs (pmem s))"
    using s1 by (auto simp: init_leaf_used_def get_ch_def put_ch_def upd_client_def upd_buf_def get_pbuf_def put_pbuf_def res_simps Let_def split: if_splits)
  then show ?thesis using new_input_channels [OF l] new_input_pmem [OF l] by simp
qed

lemma leaves_used_pmem:
  assumes "rfold (\<lambda>a. leaf_used a n) xs s = Inr s'" "distinct xs"
  shows "datas (pmem s') = datas (pmem s) \<and>
    bufs (pmem s') p = map_option (buf_inc_tail n ^^ card (own_leaves (ds_channels (client s)) xs p)) (bufs (pmem s) p)"
  using assms
proof (induction xs arbitrary: s)
  case Nil
  then show ?case by (simp add: own_leaves_def option.map_ident)
next
  case (Cons a xs)
  let ?chs = "ds_channels (client s)"
  obtain s1 where s1: "leaf_used a n s = Inr s1" "rfold (\<lambda>a. leaf_used a n) xs s1 = Inr s'" using Cons.prems(1) by (auto simp: res_simps)
  note l = leaf_used_pmem [OF s1(1)]
  have "own_leaves (ds_channels (client s1)) xs p = own_leaves ?chs xs p"
    using l Cons.prems(2) by (auto simp: own_leaves_def nth_list_update)
  moreover have "own_leaves ?chs (a # xs) p = (if ch_parent (?chs ! a) \<noteq> None \<and> ch_buf (?chs ! a) = p then {a} else {}) \<union> own_leaves ?chs xs p"
    by (auto simp: own_leaves_def)
  moreover have "a \<notin> own_leaves ?chs xs p" "finite (own_leaves ?chs xs p)" using Cons.prems(2) by (simp_all add: own_leaves_def)
  ultimately show ?case using Cons.IH [OF s1(2)] Cons.prems(2) l
    by (auto simp: option.map_comp comp_def funpow_swap1)
qed

lemma write_moves_tails:
  assumes "tree_at (ds_channels (client s)) t" "distinct (leaves t)" "depth t \<le> k" "update_down_channel_used k (tree_root t) n s = Inr s'"
  shows "datas (pmem s') = datas (pmem s)"
    "bufs (pmem s') p = map_option (buf_inc_tail n ^^ card (own_leaves (ds_channels (client s)) (leaves t) p)) (bufs (pmem s) p)"
proof -
  have "update_down_channel_used k (tree_root t) n s = rfold (\<lambda>a. leaf_used a n) (leaves t) s"
    unfolding update_down_channel_used_def
    by (rule each_leaf_leaves [OF _ assms(1) refl assms(3)]) (simp add: leaf_used_shape)
  then show "datas (pmem s') = datas (pmem s)"
    "bufs (pmem s') p = map_option (buf_inc_tail n ^^ card (own_leaves (ds_channels (client s)) (leaves t) p)) (bufs (pmem s) p)"
    using leaves_used_pmem [of n "leaves t" s s'] assms(2,4) by simp_all
qed

end
