(* ===== verification/Ds_Free.thy ===== *)
theory Ds_Free
  imports Ds_Tree
begin

text \<open>
  Bytes read from a duplicate splitter of the dynamic scheduler (\<open>library/cell/ds/dssched.c\<close>): a byte is
  free at the root when every leaf has read it.  The code keeps, for each duplicate, the bytes it is
  ahead of its siblings, and for each splitter the number of duplicates that are not ahead.
\<close>

section \<open>What has been read\<close>

fun nodes :: "dtree \<Rightarrow> nat list" where
  "nodes (Leaf a) = [a]"
| "nodes (Node a ts) = a # concat (map nodes ts)"

text \<open>\<open>L\<close> is the number of bytes that each leaf has read in all; the root is as far as its slowest leaf.\<close>

fun bytes_freed :: "(nat \<Rightarrow> nat) \<Rightarrow> dtree \<Rightarrow> nat" where
  "bytes_freed L (Leaf a) = L a"
| "bytes_freed L (Node a ts) = Min (set (map (bytes_freed L) ts))"

fun free_ok :: "channel list \<Rightarrow> (nat \<Rightarrow> nat) \<Rightarrow> dtree \<Rightarrow> bool" where
  "free_ok chs L (Leaf a) \<longleftrightarrow> True"
| "free_ok chs L (Node a ts) \<longleftrightarrow> ts \<noteq> [] \<and>
     (\<forall>t\<in>set ts. ch_parent (chs ! tree_root t) = Some a \<and> bytes_freed L (Node a ts) + unat (ch_free (chs ! tree_root t)) = bytes_freed L t) \<and>
     unat (ch_waiting (chs ! a)) = length (filter (\<lambda>t. ch_free (chs ! tree_root t) = 0) ts) \<and> list_all (free_ok chs L) ts"

lemma leaves_nodes: "set (leaves t) \<subseteq> set (nodes t)"
  by (induction t) auto

lemma tree_root_nodes: "tree_root t \<in> set (nodes t)"
  by (cases t) simp_all

lemma freed_cong: "(\<And>x. x \<in> set (leaves t) \<Longrightarrow> L' x = L x) \<Longrightarrow> bytes_freed L' t = bytes_freed L t"
proof (induction t)
  case (Leaf a)
  then show ?case by simp
next
  case (Node a ts)
  have "map (bytes_freed L') ts = map (bytes_freed L) ts" using Node by (intro map_cong) auto
  then show ?case by simp
qed

lemma freed_le: "free_ok chs L t \<Longrightarrow> x \<in> set (leaves t) \<Longrightarrow> bytes_freed L t \<le> L x"
proof (induction t)
  case (Leaf a)
  then show ?case by simp
next
  case (Node a ts)
  then obtain t where t: "t \<in> set ts" "x \<in> set (leaves t)" by auto
  then have "bytes_freed L t \<le> L x" using Node by (auto simp: list_all_iff)
  moreover have "bytes_freed L (Node a ts) \<le> bytes_freed L t" using t(1) by simp
  ultimately show ?case by linarith
qed

lemma free_ok_cong:
  "(\<And>b. b \<in> set (nodes t) \<Longrightarrow> b \<noteq> tree_root t \<Longrightarrow> chs' ! b = chs ! b) \<Longrightarrow> ch_waiting (chs' ! tree_root t) = ch_waiting (chs ! tree_root t) \<Longrightarrow>
   distinct (nodes t) \<Longrightarrow> (\<And>x. x \<in> set (leaves t) \<Longrightarrow> L' x = L x) \<Longrightarrow> free_ok chs' L' t \<longleftrightarrow> free_ok chs L t"
proof (induction t)
  case (Leaf a)
  then show ?case by simp
next
  case (Node a ts)
  have c: "chs' ! b = chs ! b" if "t \<in> set ts" "b \<in> set (nodes t)" for t b
    using Node.prems(1) [of b] Node.prems(3) that by auto
  have r: "chs' ! tree_root t = chs ! tree_root t" if "t \<in> set ts" for t by (rule c [OF that tree_root_nodes])
  have f: "bytes_freed L' t = bytes_freed L t" if "t \<in> set ts" for t
    by (rule freed_cong) (use Node.prems(4) that in auto)
  have F: "bytes_freed L' (Node a ts) = bytes_freed L (Node a ts)" by (rule freed_cong) (rule Node.prems(4))
  have d: "distinct (nodes t)" if "t \<in> set ts" for t
    using Node.prems(3) that by (auto simp: distinct_concat_iff)
  have ih: "free_ok chs' L' t = free_ok chs L t" if "t \<in> set ts" for t
  proof (rule Node.IH [OF that])
    show "chs' ! b = chs ! b" if "b \<in> set (nodes t)" for b by (rule c [OF \<open>t \<in> set ts\<close> that])
    show "ch_waiting (chs' ! tree_root t) = ch_waiting (chs ! tree_root t)" "distinct (nodes t)" using r d that by simp_all
    show "L' x = L x" if "x \<in> set (leaves t)" for x using Node.prems(4) \<open>t \<in> set ts\<close> that by auto
  qed
  have "filter (\<lambda>t. ch_free (chs' ! tree_root t) = 0) ts = filter (\<lambda>t. ch_free (chs ! tree_root t) = 0) ts"
    using r by (intro filter_cong) simp_all
  then show ?case using r f F ih Node.prems(2) by (simp add: list_all_iff del: bytes_freed.simps)
qed

section \<open>The loop up the tree\<close>

definition with_chs :: "channel list \<Rightarrow> 'd ds_ppu \<Rightarrow> 'd ds_ppu" where
  "with_chs chs = upd_client (\<lambda>x. x\<lparr>ds_channels := chs\<rparr>)"

lemma with_chs_simps [simp]:
  "get_ch a (with_chs chs s) = index_res chs a"
  "put_ch a c (with_chs chs s) = with_chs (chs[a := c]) s"
  "with_chs chs (with_chs chs' s) = with_chs chs s"
  "client (with_chs chs s) = (client s)\<lparr>ds_channels := chs\<rparr>" "pmem (with_chs chs s) = pmem s"
  "upd_ch a f (with_chs chs s) = rbind (index_res chs a) (\<lambda>c. Inr (with_chs (chs[a := f c]) s))"
  by (simp_all add: with_chs_def get_ch_def put_ch_def upd_client_def upd_ch_def)

lemma with_own_chs: "with_chs (ds_channels (client s)) s = s"
  by (simp add: with_chs_def upd_client_def)

lemma least_dup_free_eq:
  assumes "d + k \<le> length chs" "k \<noteq> 0"
  shows "\<exists>m. least_dup_free d k (with_chs chs s) = Inr m \<and> unat m = Min (set (map (\<lambda>i. unat (ch_free (chs ! (d + i)))) [0..<k]))"
proof -
  let ?f = "\<lambda>i. ch_free (chs ! (d + i))"
  have eq: "least_dup_free d k (with_chs chs s) = Inr (foldl min (?f 0) (map ?f [1..<k]))"
  proof -
    have "rfold (\<lambda>i m. rbind (get_ch (d + i) (with_chs chs s)) (\<lambda>c. Inr (min m (ch_free c)))) [1..<k] (?f 0) =
        rfold (\<lambda>i m. rbind (Inr (?f i)) (\<lambda>v. Inr (min m v))) [1..<k] (?f 0)"
      by (rule rfold_cong) (use assms in auto)
    also have "\<dots> = Inr (foldl min (?f 0) (map ?f [1..<k]))" by (rule rfold_min) simp
    finally show ?thesis using assms by (simp add: least_dup_free_def)
  qed
  have "mono (unat :: u32 \<Rightarrow> nat)" by (simp add: mono_def word_le_nat_alt)
  then have "unat (foldl min (?f 0) (map ?f [1..<k])) = foldl min (unat (?f 0)) (map unat (map ?f [1..<k]))"
    by (rule mono_foldl_min)
  also have "\<dots> = Min (set (map (\<lambda>i. unat (?f i)) (0 # [1..<k])))"
    by (simp add: foldl_min o_def)
  also have "0 # [1..<k] = [0..<k]" using assms(2) by (simp add: upt_conv_Cons)
  finally show ?thesis using eq by blast
qed

definition dup_taken :: "nat \<Rightarrow> nat \<Rightarrow> nat \<Rightarrow> u32 \<Rightarrow> channel list \<Rightarrow> channel list" where
  "dup_taken p d k m chs = map (\<lambda>b. if d \<le> b \<and> b < d + k then (chs ! b)\<lparr>ch_free := ch_free (chs ! b) - m\<rparr>
     else if b = p then (chs ! p)\<lparr>ch_waiting := ch_waiting (chs ! p) +
       of_nat (length (filter (\<lambda>i. ch_free (chs ! (d + i)) = m) [0..<k]))\<rparr> else chs ! b) [0..<length chs]"

lemma taken_nth:
  "length (dup_taken p d k m chs) = length chs"
  "d \<le> b \<Longrightarrow> b < d + k \<Longrightarrow> b < length chs \<Longrightarrow> dup_taken p d k m chs ! b = (chs ! b)\<lparr>ch_free := ch_free (chs ! b) - m\<rparr>"
  "\<not> (d \<le> p \<and> p < d + k) \<Longrightarrow> p < length chs \<Longrightarrow> dup_taken p d k m chs ! p = (chs ! p)\<lparr>ch_waiting := ch_waiting (chs ! p) +
       of_nat (length (filter (\<lambda>i. ch_free (chs ! (d + i)) = m) [0..<k]))\<rparr>"
  "\<not> (d \<le> b \<and> b < d + k) \<Longrightarrow> b \<noteq> p \<Longrightarrow> b < length chs \<Longrightarrow> dup_taken p d k m chs ! b = chs ! b"
  by (auto simp: dup_taken_def)

lemma take_dup_free_eq:
  assumes "d + k \<le> length chs" "p < length chs" "\<not> (d \<le> p \<and> p < d + k)"
  shows "take_dup_free p d k m (with_chs chs s) = Inr (with_chs (dup_taken p d k m chs) s)"
  using assms
proof (induction k)
  case 0
  have "dup_taken p d 0 m chs = chs" by (rule nth_equalityI) (auto simp: dup_taken_def)
  then show ?case by (simp add: take_dup_free_def)
next
  case (Suc k)
  let ?t = "dup_taken p d k m chs"
  have ih: "take_dup_free p d k m (with_chs chs s) = Inr (with_chs ?t s)" using Suc by auto
  let ?w = "\<lambda>c :: channel. c\<lparr>ch_waiting := ch_waiting c + (if ch_free (chs ! (d + k)) - m = 0 then 1 else 0)\<rparr>"
  have k: "?t ! (d + k) = chs ! (d + k)" using Suc.prems by (intro taken_nth(4)) auto
  have ne: "d + k \<noteq> p" using Suc.prems(3) by auto
  have "take_dup_free p d (Suc k) m (with_chs chs s) =
      Inr (with_chs (?t[d + k := (chs ! (d + k))\<lparr>ch_free := ch_free (chs ! (d + k)) - m\<rparr>, p := ?w (?t ! p)]) s)"
    using ih Suc.prems k ne by (simp add: take_dup_free_def rfold_append taken_nth(1) Let_def)
  also have "?t[d + k := (chs ! (d + k))\<lparr>ch_free := ch_free (chs ! (d + k)) - m\<rparr>, p := ?w (?t ! p)] = dup_taken p d (Suc k) m chs"
  proof (rule nth_equalityI)
    fix b assume "b < length (?t[d + k := (chs ! (d + k))\<lparr>ch_free := ch_free (chs ! (d + k)) - m\<rparr>, p := ?w (?t ! p)])"
    then have b: "b < length chs" by (simp add: taken_nth(1))
    consider "b = p" | "b = d + k" | "b \<noteq> p" "b \<noteq> d + k" by blast
    then show "?t[d + k := (chs ! (d + k))\<lparr>ch_free := ch_free (chs ! (d + k)) - m\<rparr>, p := ?w (?t ! p)] ! b =
        dup_taken p d (Suc k) m chs ! b"
    proof cases
      case 1
      have "\<not> (d \<le> p \<and> p < d + k)" using Suc.prems(3) by auto
      then show ?thesis using 1 Suc.prems(2,3) taken_nth(1) [of p d k m chs] by (simp add: taken_nth(3) add.assoc)
    next
      case 2
      then show ?thesis using b ne by (simp add: taken_nth)
    next
      case 3
      then show ?thesis using b by (auto simp: dup_taken_def)
    qed
  qed (simp add: taken_nth(1))
  finally show ?case .
qed

lemma nth_beyond: "length xs \<le> b \<Longrightarrow> xs ! b = [] ! (b - length xs)"
proof (induction xs arbitrary: b)
  case Nil
  then show ?case by simp
next
  case (Cons x xs)
  then show ?case by (cases b) simp_all
qed

lemma taken_other:
  assumes "\<not> (d \<le> b \<and> b < d + k)" "b \<noteq> p"
  shows "dup_taken p d k m chs ! b = chs ! b"
  using taken_nth(4) [OF assms] nth_beyond [of "dup_taken p d k m chs" b] nth_beyond [of chs b] taken_nth(1)
  by (cases "b < length chs") simp_all

text \<open>What the loop leaves alone in a channel.\<close>

definition ch_core :: "channel \<Rightarrow> channel" where
  "ch_core c = c\<lparr>ch_free := 0, ch_waiting := 0\<rparr>"

lemma ch_core_upd [simp]: "ch_core (c\<lparr>ch_free := x\<rparr>) = ch_core c" "ch_core (c\<lparr>ch_waiting := w\<rparr>) = ch_core c"
  by (simp_all add: ch_core_def)

lemma ch_core_sel:
  assumes "ch_core c = ch_core c'"
  shows "ch_parent c = ch_parent c'" "ch_dups c = ch_dups c'" "ch_num_dups c = ch_num_dups c'" "ch_used c = ch_used c'"
    "ch_out_f c = ch_out_f c'" "ch_in_f c = ch_in_f c'" "ch_buf c = ch_buf c'" "ch_push c = ch_push c'"
    "ch_pop c = ch_pop c'" "ch_peek_extra c = ch_peek_extra c'"
  using arg_cong [OF assms, of ch_parent] arg_cong [OF assms, of ch_dups] arg_cong [OF assms, of ch_num_dups]
    arg_cong [OF assms, of ch_used] arg_cong [OF assms, of ch_out_f] arg_cong [OF assms, of ch_in_f]
    arg_cong [OF assms, of ch_buf] arg_cong [OF assms, of ch_push] arg_cong [OF assms, of ch_pop]
    arg_cong [OF assms, of ch_peek_extra]
  by (simp_all add: ch_core_def)

lemma ch_core_nth: "map ch_core chs' = map ch_core chs \<Longrightarrow> ch_core (chs' ! b) = ch_core (chs ! b) \<or> \<not> b < length chs"
  by (metis length_map nth_map)

lemma ch_core_list_update:
  "map ch_core (chs[b := c]) = map ch_core chs" if "ch_core c = ch_core (chs ! b)"
  using that by (metis list_update_id map_update)

lemma ch_core_taken: "\<not> (d \<le> p \<and> p < d + k) \<Longrightarrow> map ch_core (dup_taken p d k m chs) = map ch_core chs"
  by (rule nth_equalityI) (auto simp: dup_taken_def)

lemma tree_at_core: "map ch_core chs' = map ch_core chs \<Longrightarrow> tree_at chs' t \<longleftrightarrow> tree_at chs t"
proof (rule tree_at_shape)
  assume "map ch_core chs' = map ch_core chs"
  moreover have "map ch_shape cs = map ch_shape (map ch_core cs)" for cs by (simp add: ch_shape_def ch_core_def)
  ultimately show "map ch_shape chs' = map ch_shape chs" by metis
qed

text \<open>The duplicates of a splitter are different trees.\<close>

lemma child_nodes:
  assumes "distinct (nodes (Node a ts))"
  shows "distinct ts" "t \<in> set ts \<Longrightarrow> a \<notin> set (nodes t)" "t \<in> set ts \<Longrightarrow> distinct (nodes t)"
    "t \<in> set ts \<Longrightarrow> u \<in> set ts \<Longrightarrow> t \<noteq> u \<Longrightarrow> set (nodes t) \<inter> set (nodes u) = {}"
    "t \<in> set ts \<Longrightarrow> u \<in> set ts \<Longrightarrow> t \<noteq> u \<Longrightarrow> tree_root t \<noteq> tree_root u"
proof -
  have ne: "nodes t \<noteq> []" for t by (cases t) simp_all
  have "removeAll [] (map nodes ts) = map nodes ts" by (rule removeAll_id) (metis (no_types) imageE list.set_map ne)
  then have d: "distinct (map nodes ts)" "\<And>ys zs. ys \<in> nodes ` set ts \<Longrightarrow> zs \<in> nodes ` set ts \<Longrightarrow> ys \<noteq> zs \<Longrightarrow> set ys \<inter> set zs = {}"
    using assms by (simp_all add: distinct_concat_iff)
  show "distinct ts" using d(1) by (simp add: distinct_map)
  show "t \<in> set ts \<Longrightarrow> a \<notin> set (nodes t)" using assms by auto
  show "t \<in> set ts \<Longrightarrow> distinct (nodes t)" using assms by (simp add: distinct_concat_iff)
  show 1: "set (nodes t) \<inter> set (nodes u) = {}" if "t \<in> set ts" "u \<in> set ts" "t \<noteq> u"
  proof (rule d(2))
    show "nodes t \<noteq> nodes u" using d(1) that by (auto simp: distinct_map dest: inj_onD)
  qed (use that in simp_all)
  show "t \<in> set ts \<Longrightarrow> u \<in> set ts \<Longrightarrow> t \<noteq> u \<Longrightarrow> tree_root t \<noteq> tree_root u"
    using 1 tree_root_nodes [of t] tree_root_nodes [of u] by auto
qed


lemma Min_map_eq:
  assumes "t0 \<in> set ts" "f t0 = m" "\<And>t. t \<in> set ts \<Longrightarrow> m \<le> f t"
  shows "Min (set (map f ts)) = (m :: nat)"
  by (rule Min_eqI) (use assms in auto)

lemma root_child:
  assumes "tree_at chs (Node a ts)" "t \<in> set ts"
  shows "tree_root t < length chs" "a < length chs"
proof -
  have "tree_at chs t" "a < length chs" using assms by (simp_all add: list_all_iff)
  then show "tree_root t < length chs" "a < length chs" using root_at by blast+
qed

lemma node_ok:
  assumes tree: "tree_at chs (Node a ts)" "distinct (nodes (Node a ts))" "free_ok chs L (Node a ts)"
    and old: "\<And>t. t \<in> set ts \<Longrightarrow> free_ok chs1 L' t"
    and same: "\<And>b. b \<notin> insert a (tree_root ` set ts) \<Longrightarrow> chs' ! b = chs1 ! b" "\<And>t. t \<in> set ts \<Longrightarrow> ch_waiting (chs' ! tree_root t) = ch_waiting (chs1 ! tree_root t)"
    and cores: "map ch_core chs' = map ch_core chs"
    and free: "\<And>t. t \<in> set ts \<Longrightarrow> bytes_freed L' (Node a ts) + unat (ch_free (chs' ! tree_root t)) = bytes_freed L' t"
    and waiting: "unat (ch_waiting (chs' ! a)) = length (filter (\<lambda>t. ch_free (chs' ! tree_root t) = 0) ts)"
  shows "free_ok chs' L' (Node a ts)"
proof -
  have "ch_parent (chs' ! tree_root t) = Some a" if t: "t \<in> set ts" for t
  proof -
    have "ch_core (chs' ! tree_root t) = ch_core (chs ! tree_root t)" using ch_core_nth [OF cores] root_child(1) [OF tree(1) t] by blast
    from ch_core_sel(1) [OF this] show ?thesis using tree(3) t by simp
  qed
  moreover have "free_ok chs' L' t" if t: "t \<in> set ts" for t
  proof -
    have "free_ok chs' L' t \<longleftrightarrow> free_ok chs1 L' t"
    proof (rule free_ok_cong)
      fix b assume b: "b \<in> set (nodes t)" "b \<noteq> tree_root t"
      show "chs' ! b = chs1 ! b"
      proof (rule same(1))
        have "b \<noteq> tree_root u" if u: "u \<in> set ts" for u
          using child_nodes(4) [OF tree(2) t u] tree_root_nodes [of u] b by (cases "t = u") auto
        then show "b \<notin> insert a (tree_root ` set ts)" using child_nodes(2) [OF tree(2) t] b by auto
      qed
    qed (use same(2) [OF t] child_nodes(3) [OF tree(2) t] in simp_all)
    then show ?thesis using old [OF t] by simp
  qed
  ultimately show ?thesis using tree(3) free waiting by (simp add: list_all_iff del: bytes_freed.simps)
qed

lemma unat_of_nat_small: "m < 2 ^ 32 \<Longrightarrow> unat (of_nat m :: u32) = m"
  by (simp add: unat_of_nat)

lemma unat_add_nat: "m < 2 ^ 32 \<Longrightarrow> unat x + m < 2 ^ 32 \<Longrightarrow> unat (x + of_nat m) = unat x + m" for x :: u32
  by (simp add: unat_word_ariths unat_of_nat)

text \<open>One turn of the loop, from a duplicate that is \<open>m\<close> bytes further to its splitter.\<close>

lemma up_node:
  assumes tree: "tree_at chs (Node a ts)" "distinct (nodes (Node a ts))" "free_ok chs L (Node a ts)" and c: "c \<in> set ts"
    and cores: "map ch_core chs1 = map ch_core chs" and outs: "\<forall>b. b \<notin> set (nodes c) \<longrightarrow> chs1 ! b = chs ! b"
    and rc: "chs1 ! tree_root c = (chs ! tree_root c)\<lparr>ch_waiting := w\<rparr>" and okc: "free_ok chs1 L' c"
    and Ls: "\<forall>t\<in>set ts. t \<noteq> c \<longrightarrow> (\<forall>x\<in>set (leaves t). L' x = L x)"
    and m: "bytes_freed L' c = bytes_freed L c + m" "0 < m" "bytes_freed L' c < bytes_freed L (Node a ts) + 2 ^ 32"
  shows "\<exists>chs'. map ch_core chs' = map ch_core chs \<and> (\<forall>b. b \<notin> set (nodes (Node a ts)) \<longrightarrow> chs' ! b = chs ! b) \<and>
    (\<exists>w. chs' ! a = (chs ! a)\<lparr>ch_waiting := w\<rparr>) \<and> free_ok chs' L' (Node a ts) \<and>
    (if bytes_freed L' (Node a ts) = bytes_freed L (Node a ts) then (\<forall>k. up_loop (Suc k) (tree_root c) (of_nat m) (with_chs chs1 s) = Inr (None, with_chs chs' s))
     else bytes_freed L (Node a ts) < bytes_freed L' (Node a ts) \<and> (\<forall>k. up_loop (Suc k) (tree_root c) (of_nat m) (with_chs chs1 s) =
       up_loop k a (of_nat (bytes_freed L' (Node a ts) - bytes_freed L (Node a ts))) (with_chs chs' s)))"
proof -
  let ?r = "tree_root c" and ?F = "bytes_freed L (Node a ts)" and ?F' = "bytes_freed L' (Node a ts)"
  let ?f = "ch_free (chs ! tree_root c)"
  note out = outs [rule_format] and L = Ls [rule_format]
  let ?Z = "{t \<in> set ts. ch_free (chs ! tree_root t) = 0}"
  have r: "?r < length chs" "a < length chs" "a \<noteq> ?r" and len: "length chs1 = length chs"
    using root_child [OF tree(1) c] child_nodes(2) [OF tree(2) c] tree_root_nodes [of c] cores by (auto dest: map_eq_imp_length_eq)
  have par: "ch_parent (chs ! ?r) = Some a" "?F + unat ?f = bytes_freed L c" "unat (ch_waiting (chs ! a)) = card ?Z"
    using tree(3) c distinct_length_filter [OF child_nodes(1) [OF tree(2)]]
    by (simp_all add: Int_def conj_commute del: bytes_freed.simps)
  have f2: "unat (?f + of_nat m) = unat ?f + m"
    by (rule unat_add_nat) (use m par(2) in linarith)+
  have fo: "?F + unat (ch_free (chs ! tree_root t)) = bytes_freed L' t" if "t \<in> set ts" "t \<noteq> c" for t
  proof -
    have "bytes_freed L' t = bytes_freed L t" by (rule freed_cong) (use L that in blast)
    then show ?thesis using tree(3) that by (simp del: bytes_freed.simps)
  qed
  have ok1: "free_ok chs1 L' t" if t: "t \<in> set ts" for t
  proof (cases "t = c")
    case False
    have "chs1 ! b = chs ! b" if "b \<in> set (nodes t)" for b
      using out [of b] child_nodes(4) [OF tree(2) t c False] that by blast
    then have "free_ok chs1 L' t \<longleftrightarrow> free_ok chs L t"
      by (intro free_ok_cong) (use tree_root_nodes [of t] child_nodes(3) [OF tree(2) t] L [OF t False] in simp_all)
    then show ?thesis using tree(3) t by (simp add: list_all_iff)
  qed (use okc in simp)
  have sib: "chs1 ! tree_root t = chs ! tree_root t" if "t \<in> set ts" "t \<noteq> c" for t
    using out [of "tree_root t"] child_nodes(4) [OF tree(2) that(1) c that(2)] tree_root_nodes [of t] by blast
  have a1: "chs1 ! a = chs ! a" using out child_nodes(2) [OF tree(2) c] by blast
  let ?f2 = "?f + of_nat m" and ?w = "ch_waiting (chs ! a) - 1"
  define chs2 where "chs2 = chs1[?r := (chs ! ?r)\<lparr>ch_waiting := w, ch_free := ?f2\<rparr>]"
  define chs3 where "chs3 = chs2[a := (chs ! a)\<lparr>ch_waiting := ?w\<rparr>]"
  have core2: "map ch_core chs2 = map ch_core chs"
    unfolding chs2_def cores [symmetric] by (rule ch_core_list_update) (simp add: rc ch_core_def)
  have core3: "map ch_core chs3 = map ch_core chs"
    unfolding chs3_def core2 [symmetric] by (rule ch_core_list_update) (use r a1 in \<open>simp add: chs2_def ch_core_def\<close>)
  have len3: "length chs2 = length chs" "length chs3 = length chs" using core2 core3 by (auto dest: map_eq_imp_length_eq)
  have at2: "chs2 ! a = chs ! a" "b \<notin> insert a (tree_root ` set ts) \<Longrightarrow> chs2 ! b = chs1 ! b" for b
  proof -
    have "?r \<in> tree_root ` set ts" using c by (rule imageI)
    then show "chs2 ! a = chs ! a" "b \<notin> insert a (tree_root ` set ts) \<Longrightarrow> chs2 ! b = chs1 ! b"
      using r a1 unfolding chs2_def by (simp, metis insertCI nth_list_update_neq)
  qed
  have at3: "chs3 ! a = (chs ! a)\<lparr>ch_waiting := ?w\<rparr>" "b \<noteq> a \<Longrightarrow> chs3 ! b = chs2 ! b" for b
    using r len3 by (auto simp: chs3_def)
  have ra: "t \<in> set ts \<Longrightarrow> tree_root t \<noteq> a" for t using child_nodes(2) [OF tree(2), of t] tree_root_nodes [of t] by auto
  have wait2: "ch_waiting (chs2 ! tree_root t) = ch_waiting (chs1 ! tree_root t)" if "t \<in> set ts" for t
    using rc r len child_nodes(5) [OF tree(2) that c] by (cases "t = c") (simp_all add: chs2_def)
  have free2: "?F + unat (ch_free (chs2 ! tree_root t)) = bytes_freed L' t" if t: "t \<in> set ts" for t
  proof (cases "t = c")
    case True
    then show ?thesis using r len f2 par(2) m(1) by (simp add: chs2_def)
  next
    case False
    then show ?thesis using fo [OF t False] sib [OF t False] child_nodes(5) [OF tree(2) t c] by (simp add: chs2_def del: bytes_freed.simps)
  qed
  have stays: "?F' = ?F" if "t0 \<in> set ts" "ch_free (chs2 ! tree_root t0) = 0" for t0
  proof -
    have "Min (set (map (bytes_freed L') ts)) = ?F"
      by (rule Min_map_eq [OF that(1)]) (use free2 that in \<open>force simp del: bytes_freed.simps\<close>)+
    then show ?thesis by simp
  qed
  have out2: "b \<notin> set (nodes (Node a ts)) \<Longrightarrow> chs2 ! b = chs ! b \<and> chs3 ! b = chs ! b" for b
    using out [of b] at2(2) [of b] at3(2) [of b] c tree_root_nodes by auto
  have step: "up_loop (Suc k) ?r (of_nat m) (with_chs chs1 s) = (if ?f \<noteq> 0 then Inr (None, with_chs chs2 s)
      else if ?w \<noteq> 0 then Inr (None, with_chs chs3 s)
      else rbind (deref (ch_dups (chs ! a))) (\<lambda>d. let k' = unat (ch_num_dups (chs ! a)) in
        rbind (least_dup_free d k' (with_chs chs3 s)) (\<lambda>m. rbind (take_dup_free a d k' m (with_chs chs3 s)) (up_loop k a m))))" for k
    using r len len3 rc par(1) at2(1) by (simp add: chs2_def [symmetric] chs3_def [symmetric] Let_def at3(1))
  show ?thesis
  proof (cases "?f = 0")
    case False
    have "?F' = ?F"
    proof -
      have "Min (set (map (bytes_freed L) ts)) \<in> set (map (bytes_freed L) ts)" by (rule Min_in) (use c in auto)
      then obtain t0 where t0: "t0 \<in> set ts" "bytes_freed L t0 = ?F" by auto
      then have "?F + unat (ch_free (chs ! tree_root t0)) = ?F" using tree(3) by (simp del: bytes_freed.simps)
      then have "ch_free (chs ! tree_root t0) = 0" by (simp add: unat_eq_zero del: bytes_freed.simps)
      moreover from this have "t0 \<noteq> c" using False by auto
      ultimately show ?thesis using stays [OF t0(1)] sib [OF t0(1)] child_nodes(5) [OF tree(2) t0(1) c] by (simp add: chs2_def)
    qed
    moreover have "free_ok chs2 L' (Node a ts)"
    proof (rule node_ok [OF tree ok1 at2(2) wait2 core2])
      show "?F' + unat (ch_free (chs2 ! tree_root t)) = bytes_freed L' t" if "t \<in> set ts" for t
        using free2 [OF that] \<open>?F' = ?F\<close> by simp
      have "ch_free (chs2 ! tree_root t) = 0 \<longleftrightarrow> ch_free (chs ! tree_root t) = 0" if t: "t \<in> set ts" for t
      proof (cases "t = c")
        case True
        then show ?thesis using False f2 m(2) r len by (auto simp: chs2_def simp flip: unat_eq_zero)
      next
        case neq: False
        then show ?thesis using sib [OF t neq] child_nodes(5) [OF tree(2) t c neq] by (simp add: chs2_def)
      qed
      then have "filter (\<lambda>t. ch_free (chs2 ! tree_root t) = 0) ts = filter (\<lambda>t. ch_free (chs ! tree_root t) = 0) ts"
        by (rule filter_cong [OF refl])
      then show "unat (ch_waiting (chs2 ! a)) = length (filter (\<lambda>t. ch_free (chs2 ! tree_root t) = 0) ts)"
        using at2(1) tree(3) by simp
    qed
    ultimately show ?thesis using step False core2 at2(1) out2
      by (intro exI [of _ chs2]) (auto simp del: bytes_freed.simps intro: exI [of _ "ch_waiting (chs ! a)"])
  next
    case f0: True
    have root3: "chs3 ! tree_root t = chs2 ! tree_root t" if "t \<in> set ts" for t by (rule at3(2)) (rule ra [OF that])
    have same3: "b \<notin> insert a (tree_root ` set ts) \<Longrightarrow> chs3 ! b = chs1 ! b" for b using at2(2) [of b] at3(2) [of b] by simp
    have zero: "{t \<in> set ts. ch_free (chs3 ! tree_root t) = 0} = ?Z - {c}"
    proof -
      have "ch_free (chs3 ! tree_root t) = 0 \<longleftrightarrow> ch_free (chs ! tree_root t) = 0 \<and> t \<noteq> c" if t: "t \<in> set ts" for t
      proof (cases "t = c")
        case True
        have "unat ?f2 \<noteq> 0" using f2 m(2) by linarith
        then have "?f2 \<noteq> 0" by (metis unat_0)
        then show ?thesis using True root3 [OF t] r len by (simp add: chs2_def)
      next
        case neq: False
        then show ?thesis using sib [OF t neq] child_nodes(5) [OF tree(2) t c neq] root3 [OF t] by (simp add: chs2_def)
      qed
      then show ?thesis by blast
    qed
    have cZ: "c \<in> ?Z" "finite ?Z" using c f0 by auto
    then have "card ?Z \<noteq> 0" using card_0_eq by blast
    then have "ch_waiting (chs ! a) \<noteq> 0" using par(3) by (metis unat_0)
    then have w: "unat ?w = card (?Z - {c})" using par(3) cZ by (simp add: unat_minus_one)
    have count3: "length (filter (\<lambda>t. ch_free (chs3 ! tree_root t) = 0) ts) = card (?Z - {c})"
      using distinct_length_filter [OF child_nodes(1) [OF tree(2)], of "\<lambda>t. ch_free (chs3 ! tree_root t) = 0"] zero
      by (simp add: Int_def conj_commute)
    show ?thesis
    proof (cases "?w = 0")
      case w0: False
      then have "?Z - {c} \<noteq> {}" using w by (metis card.empty unat_eq_zero)
      then obtain t0 where t0: "t0 \<in> set ts" "ch_free (chs3 ! tree_root t0) = 0" using zero by blast
      have F': "?F' = ?F" by (rule stays [OF t0(1)]) (use t0 root3 in simp)
      have "free_ok chs3 L' (Node a ts)"
      proof (rule node_ok [OF tree ok1 same3 _ core3])
        show "ch_waiting (chs3 ! tree_root t) = ch_waiting (chs1 ! tree_root t)" if "t \<in> set ts" for t
          using root3 [OF that] wait2 [OF that] by simp
        show "?F' + unat (ch_free (chs3 ! tree_root t)) = bytes_freed L' t" if "t \<in> set ts" for t
          using free2 [OF that] F' root3 [OF that] by simp
        show "unat (ch_waiting (chs3 ! a)) = length (filter (\<lambda>t. ch_free (chs3 ! tree_root t) = 0) ts)"
          using count3 w at3(1) by simp
      qed
      then show ?thesis using step f0 w0 core3 at3(1) out2 F'
        by (intro exI [of _ chs3]) (auto simp del: bytes_freed.simps)
    next
      case w0: True
      then have "card (?Z - {c}) = 0" using w by simp
      then have "?Z - {c} = {}" using cZ by simp
      then have pos: "0 < unat (ch_free (chs3 ! tree_root t))" if "t \<in> set ts" for t
        using zero that by (auto simp: unat_gt_0)
      let ?n = "length ts"
      obtain d where d: "ch_dups (chs ! a) = Some d" "\<forall>i<?n. tree_root (ts ! i) = d + i" "unat (ch_num_dups (chs ! a)) = ?n"
        using tree(1) by auto
      have n0: "?n \<noteq> 0" using c by auto
      have "tree_root (ts ! (?n - 1)) < length chs" by (rule root_child(1) [OF tree(1)]) (use n0 in simp)
      then have dn: "d + ?n \<le> length chs3" using d(2) n0 len3 by simp
      have da: "\<not> (d \<le> a \<and> a < d + ?n)"
      proof
        assume "d \<le> a \<and> a < d + ?n"
        then have "a - d < ?n" "tree_root (ts ! (a - d)) = a" using d(2) by auto
        then show False using ra [of "ts ! (a - d)"] by simp
      qed
      have idx: "map (\<lambda>i. g (d + i)) [0..<?n] = map (\<lambda>t. g (tree_root t)) ts" for g :: "nat \<Rightarrow> 'b"
        by (rule nth_equalityI) (use d(2) in auto)
      obtain mv where mv: "least_dup_free d ?n (with_chs chs3 s) = Inr mv"
        "unat mv = Min (set (map (\<lambda>t. unat (ch_free (chs3 ! tree_root t))) ts))"
        using least_dup_free_eq [OF dn n0, of s] idx [of "\<lambda>b. unat (ch_free (chs3 ! b))"] by auto
      let ?chs4 = "dup_taken a d ?n mv chs3"
      have le: "mv \<le> ch_free (chs3 ! tree_root t)" if "t \<in> set ts" for t
        unfolding word_le_nat_alt mv(2) by (rule Min_le) (use that in auto)
      have "unat mv \<in> (\<lambda>t. unat (ch_free (chs3 ! tree_root t))) ` set ts"
        unfolding mv(2) set_map by (rule Min_in) (use c in auto)
      then obtain t0 where t0: "t0 \<in> set ts" "unat mv = unat (ch_free (chs3 ! tree_root t0))" by auto
      have F': "?F' = ?F + unat mv"
      proof -
        have "Min (set (map (bytes_freed L') ts)) = ?F + unat mv"
        proof (rule Min_map_eq [OF t0(1)])
          show "bytes_freed L' t0 = ?F + unat mv" using free2 [OF t0(1)] root3 [OF t0(1)] t0(2) by simp
          show "?F + unat mv \<le> bytes_freed L' t" if "t \<in> set ts" for t
            using free2 [OF that] root3 [OF that] le [OF that] by (simp add: word_le_nat_alt del: bytes_freed.simps)
        qed
        then show ?thesis by simp
      qed
      have root4: "?chs4 ! tree_root t = (chs3 ! tree_root t)\<lparr>ch_free := ch_free (chs3 ! tree_root t) - mv\<rparr>" if t: "t \<in> set ts" for t
      proof -
        obtain i where "i < ?n" "t = ts ! i" using t by (auto simp: in_set_conv_nth)
        then show ?thesis using d(2) dn by (simp add: taken_nth(2))
      qed
      have notd: "\<not> (d \<le> b \<and> b < d + ?n)" if "b \<notin> insert a (tree_root ` set ts)" for b
      proof
        assume "d \<le> b \<and> b < d + ?n"
        then have "b - d < ?n" "tree_root (ts ! (b - d)) = b" using d(2) by auto
        then show False using that by (metis imageI insertCI nth_mem)
      qed
      have core4: "map ch_core ?chs4 = map ch_core chs" using ch_core_taken [OF da] core3 by metis
      have a4: "?chs4 ! a = (chs ! a)\<lparr>ch_waiting := of_nat (length (filter (\<lambda>t. ch_free (chs3 ! tree_root t) = mv) ts))\<rparr>"
      proof -
        have "length (filter (\<lambda>i. ch_free (chs3 ! (d + i)) = mv) [0..<?n]) = length (filter (\<lambda>f. f = mv) (map (\<lambda>i. ch_free (chs3 ! (d + i))) [0..<?n]))"
          by (simp add: filter_map o_def)
        also have "\<dots> = length (filter (\<lambda>t. ch_free (chs3 ! tree_root t) = mv) ts)"
          unfolding idx [of "\<lambda>b. ch_free (chs3 ! b)"] by (simp add: filter_map o_def)
        finally show ?thesis using taken_nth(3) [OF da, of chs3 mv] r(2) len3 at3(1) w0 by simp
      qed
      have ok4: "free_ok ?chs4 L' (Node a ts)"
      proof (rule node_ok [OF tree ok1 _ _ core4])
        fix b assume b: "b \<notin> insert a (tree_root ` set ts)"
        then have "\<not> (d \<le> b \<and> b < d + ?n)" by (rule notd)
        then show "?chs4 ! b = chs1 ! b" using b same3 [OF b] by (simp add: taken_other)
      next
        fix t assume t: "t \<in> set ts"
        show "ch_waiting (?chs4 ! tree_root t) = ch_waiting (chs1 ! tree_root t)" using root4 [OF t] root3 [OF t] wait2 [OF t] by simp
        have "unat (ch_free (chs3 ! tree_root t) - mv) = unat (ch_free (chs3 ! tree_root t)) - unat mv"
          using le [OF t] by (simp add: unat_sub)
        then show "?F' + unat (ch_free (?chs4 ! tree_root t)) = bytes_freed L' t"
          using root4 [OF t] root3 [OF t] free2 [OF t] F' le [OF t] by (simp add: word_le_nat_alt del: bytes_freed.simps)
      next
        have "length (filter (\<lambda>t. ch_free (chs3 ! tree_root t) = mv) ts) < 2 ^ 32"
          using length_filter_le [of "\<lambda>t. ch_free (chs3 ! tree_root t) = mv" ts] u32_less [of "ch_num_dups (chs ! a)"] d(3) by linarith
        moreover have "filter (\<lambda>t. ch_free (?chs4 ! tree_root t) = 0) ts = filter (\<lambda>t. ch_free (chs3 ! tree_root t) = mv) ts"
          using root4 by (intro filter_cong) auto
        ultimately show "unat (ch_waiting (?chs4 ! a)) = length (filter (\<lambda>t. ch_free (?chs4 ! tree_root t) = 0) ts)"
          using a4 by (simp add: unat_of_nat)
      qed
      have "up_loop (Suc k) ?r (of_nat m) (with_chs chs1 s) = up_loop k a mv (with_chs ?chs4 s)" for k
        using step f0 w0 d(1,3) mv(1) take_dup_free_eq [OF dn _ da, of mv s] r(2) len3 by (simp add: Let_def)
      moreover have "0 < unat mv" using pos [OF t0(1)] t0(2) by simp
      moreover have "?chs4 ! b = chs ! b" if "b \<notin> set (nodes (Node a ts))" for b
      proof -
        have b: "b \<notin> insert a (tree_root ` set ts)" using that tree_root_nodes by auto
        then have "?chs4 ! b = chs3 ! b" by (intro taken_other notd) simp_all
        then show ?thesis using out2 [OF that] by simp
      qed
      ultimately show ?thesis using core4 a4 ok4 F'
        by (intro exI [of _ ?chs4]) (auto simp del: bytes_freed.simps)
    qed
  qed
qed

text \<open>The loop from a leaf \<open>x\<close> to the root of a tree: it stops where the slowest leaf has not moved.\<close>

definition up_result :: "dtree \<Rightarrow> (nat \<Rightarrow> nat) \<Rightarrow> (nat \<Rightarrow> nat) \<Rightarrow> nat \<Rightarrow> u32 \<Rightarrow> channel list \<Rightarrow> channel list \<Rightarrow> nat \<Rightarrow> 'd ds_ppu \<Rightarrow> bool" where
  "up_result t L L' x n chs chs' d s \<longleftrightarrow> d < depth t \<and> map ch_core chs' = map ch_core chs \<and>
     (\<forall>b. b \<notin> set (nodes t) \<longrightarrow> chs' ! b = chs ! b) \<and> (\<exists>w. chs' ! tree_root t = (chs ! tree_root t)\<lparr>ch_waiting := w\<rparr>) \<and> free_ok chs' L' t \<and>
     (if bytes_freed L' t = bytes_freed L t then (\<forall>k. up_loop (Suc d + k) x n (with_chs chs s) = Inr (None, with_chs chs' s))
      else bytes_freed L t < bytes_freed L' t \<and> (\<forall>k. up_loop (d + k) x n (with_chs chs s) =
        up_loop k (tree_root t) (of_nat (bytes_freed L' t - bytes_freed L t)) (with_chs chs' s)))"

lemma up_tree:
  assumes n: "n \<noteq> 0" and L': "L' = L(x := L x + unat n)"
  shows "tree_at chs t \<Longrightarrow> distinct (nodes t) \<Longrightarrow> free_ok chs L t \<Longrightarrow> x \<in> set (leaves t) \<Longrightarrow>
    L' x < bytes_freed L t + 2 ^ 32 \<Longrightarrow> \<exists>d chs'. up_result t L L' x n chs chs' d s"
proof (induction t)
  case (Leaf a)
  have "0 < unat n" using n by (simp add: unat_gt_0)
  moreover have "x = a" "L' a = L a + unat n" using Leaf.prems(4) L' by simp_all
  ultimately have x: "x = a" "L a < L' a" "L' a - L a = unat n" by simp_all
  have "\<exists>w. chs ! a = (chs ! a)\<lparr>ch_waiting := w\<rparr>" by (rule exI [of _ "ch_waiting (chs ! a)"]) simp
  then have "up_result (Leaf a) L L' a n chs chs 0 s"
    using x(2,3) unfolding up_result_def by (simp del: up_loop.simps)
  then show ?case using x(1) by blast
next
  case (Node a ts)
  obtain c where c: "c \<in> set ts" "x \<in> set (leaves c)" using Node.prems(4) by auto
  have sub: "tree_at chs c" "free_ok chs L c" using Node.prems(1,3) c(1) by (simp_all add: list_all_iff)
  have le: "bytes_freed L (Node a ts) \<le> bytes_freed L c" using c(1) by simp
  obtain d chs1 where "up_result c L L' x n chs chs1 d s"
    using Node.IH [OF c(1) sub(1) child_nodes(3) [OF Node.prems(2) c(1)] sub(2) c(2)] Node.prems(5) le by force
  then obtain w where d: "d < depth c" "map ch_core chs1 = map ch_core chs" "\<forall>b. b \<notin> set (nodes c) \<longrightarrow> chs1 ! b = chs ! b"
    "chs1 ! tree_root c = (chs ! tree_root c)\<lparr>ch_waiting := w\<rparr>" "free_ok chs1 L' c" and
    loop: "if bytes_freed L' c = bytes_freed L c then (\<forall>k. up_loop (Suc d + k) x n (with_chs chs s) = Inr (None, with_chs chs1 s))
      else bytes_freed L c < bytes_freed L' c \<and> (\<forall>k. up_loop (d + k) x n (with_chs chs s) =
        up_loop k (tree_root c) (of_nat (bytes_freed L' c - bytes_freed L c)) (with_chs chs1 s))"
    unfolding up_result_def by blast
  have deep: "Suc d < depth (Node a ts)"
    using d(1) c(1) le_fold_max [of "depth c" "map depth ts" 0] by simp
  have L: "L' y = L y" if "t \<in> set ts" "t \<noteq> c" "y \<in> set (leaves t)" for t y
    using child_nodes(4) [OF Node.prems(2) that(1) c(1) that(2)] leaves_nodes [of t] leaves_nodes [of c] c(2) that(3)
    by (auto simp: L')
  then have Ls: "\<forall>t\<in>set ts. t \<noteq> c \<longrightarrow> (\<forall>x\<in>set (leaves t). L' x = L x)" by blast
  show ?case
  proof (cases "bytes_freed L' c = bytes_freed L c")
    case True
    have same: "bytes_freed L' t = bytes_freed L t" if "t \<in> set ts" for t
      using True freed_cong [of t L' L] L [OF that] by (cases "t = c") auto
    then have F: "bytes_freed L' (Node a ts) = bytes_freed L (Node a ts)" by (simp cong: map_cong image_cong)
    have out: "chs1 ! tree_root t = chs ! tree_root t" if "t \<in> set ts" "t \<noteq> c" for t
      using d(3) child_nodes(4) [OF Node.prems(2) that(1) c(1) that(2)] tree_root_nodes [of t] by blast
    have free: "ch_free (chs1 ! tree_root t) = ch_free (chs ! tree_root t)" if "t \<in> set ts" for t
      using out [OF that] d(4) by (cases "t = c") simp_all
    have a: "a \<notin> set (nodes c)" by (rule child_nodes(2) [OF Node.prems(2) c(1)])
    have ok1: "free_ok chs1 L' t" if t: "t \<in> set ts" for t
    proof (cases "t = c")
      case neq: False
      have "chs1 ! b = chs ! b" if "b \<in> set (nodes t)" for b
        using d(3) child_nodes(4) [OF Node.prems(2) t c(1) neq] that by blast
      then have "free_ok chs1 L' t \<longleftrightarrow> free_ok chs L t"
        by (intro free_ok_cong) (use tree_root_nodes [of t] child_nodes(3) [OF Node.prems(2) t] L [OF t neq] in simp_all)
      then show ?thesis using Node.prems(3) t by (simp add: list_all_iff)
    qed (use d(5) in simp)
    have "free_ok chs1 L' (Node a ts)"
    proof (rule node_ok [OF Node.prems(1-3) ok1 refl refl d(2)])
      show "bytes_freed L' (Node a ts) + unat (ch_free (chs1 ! tree_root t)) = bytes_freed L' t" if "t \<in> set ts" for t
        using Node.prems(3) that F same [OF that] free [OF that] by (simp del: bytes_freed.simps)
      have "filter (\<lambda>t. ch_free (chs1 ! tree_root t) = 0) ts = filter (\<lambda>t. ch_free (chs ! tree_root t) = 0) ts"
        using free by (intro filter_cong) simp_all
      then show "unat (ch_waiting (chs1 ! a)) = length (filter (\<lambda>t. ch_free (chs1 ! tree_root t) = 0) ts)"
        using Node.prems(3) d(3) a by simp
    qed
    moreover have "\<forall>b. b \<notin> set (nodes (Node a ts)) \<longrightarrow> chs1 ! b = chs ! b" using d(3) c(1) by auto
    moreover have "chs1 ! a = chs ! a" using d(3) a by blast
    ultimately have "up_result (Node a ts) L L' x n chs chs1 d s"
      using deep loop True F d(2) unfolding up_result_def
      by (auto simp del: bytes_freed.simps depth.simps intro!: exI [of _ "ch_waiting (chs ! a)"])
    then show ?thesis by blast
  next
    case False
    let ?m = "bytes_freed L' c - bytes_freed L c"
    have m: "bytes_freed L' c = bytes_freed L c + ?m" "0 < ?m" "bytes_freed L' c < bytes_freed L (Node a ts) + 2 ^ 32"
      using loop False freed_le [OF d(5) c(2)] Node.prems(5) by auto
    obtain chs' w' where r: "map ch_core chs' = map ch_core chs" "\<forall>b. b \<notin> set (nodes (Node a ts)) \<longrightarrow> chs' ! b = chs ! b"
      "chs' ! a = (chs ! a)\<lparr>ch_waiting := w'\<rparr>" "free_ok chs' L' (Node a ts)"
      "if bytes_freed L' (Node a ts) = bytes_freed L (Node a ts) then (\<forall>k. up_loop (Suc k) (tree_root c) (of_nat ?m) (with_chs chs1 s) = Inr (None, with_chs chs' s))
       else bytes_freed L (Node a ts) < bytes_freed L' (Node a ts) \<and> (\<forall>k. up_loop (Suc k) (tree_root c) (of_nat ?m) (with_chs chs1 s) =
         up_loop k a (of_nat (bytes_freed L' (Node a ts) - bytes_freed L (Node a ts))) (with_chs chs' s))"
      using up_node [OF Node.prems(1-3) c(1) d(2,3,4,5) Ls m, of s] by blast
    have eq: "up_loop (Suc d + k) x n (with_chs chs s) = up_loop (Suc k) (tree_root c) (of_nat ?m) (with_chs chs1 s)" for k
      using loop False by (metis add_Suc_shift)
    have "up_result (Node a ts) L L' x n chs chs' (if bytes_freed L' (Node a ts) = bytes_freed L (Node a ts) then d else Suc d) s"
      using deep r eq unfolding up_result_def
      by (auto simp del: bytes_freed.simps depth.simps up_loop.simps)
    then show ?thesis by blast
  qed
qed

section \<open>Bytes that become free at the root\<close>

definition dups_ok :: "channel list \<Rightarrow> bool" where
  "dups_ok chs \<longleftrightarrow> (\<forall>c\<in>set chs. ch_parent c \<noteq> None \<longrightarrow> ch_out_f c = None)"

lemma nodes_at: "tree_at chs t \<Longrightarrow> b \<in> set (nodes t) \<Longrightarrow> b < length chs"
  by (induction t) (auto simp: list_all_iff)

lemma nodes_parent: "free_ok chs L t \<Longrightarrow> b \<in> set (nodes t) \<Longrightarrow> b \<noteq> tree_root t \<Longrightarrow> ch_parent (chs ! b) \<noteq> None"
proof (induction t)
  case (Leaf a)
  then show ?case by simp
next
  case (Node a ts)
  then obtain t where t: "t \<in> set ts" "b \<in> set (nodes t)" by auto
  then show ?case using Node by (cases "b = tree_root t") (auto simp: list_all_iff)
qed

lemma out_min_mono:
  assumes "n_outputs f \<noteq> 0" "\<And>i. i < n_outputs f \<Longrightarrow> out_iters (chs ! (df_outputs f ! i)) \<le> out_iters (chs' ! (df_outputs f ! i))"
  shows "out_min chs f \<le> out_min chs' f"
proof -
  have ne: "(\<lambda>i. out_iters (chs' ! (df_outputs f ! i))) ` {..<n_outputs f} \<noteq> {}" using assms(1) by (simp add: lessThan_empty_iff)
  have "out_min chs' f \<in> (\<lambda>i. out_iters (chs' ! (df_outputs f ! i))) ` {..<n_outputs f}"
    unfolding out_min_def by (rule Min_in [OF _ ne]) simp
  then obtain i where i: "i < n_outputs f" "out_min chs' f = out_iters (chs' ! (df_outputs f ! i))" by auto
  have "out_min chs f \<le> out_iters (chs ! (df_outputs f ! i))" unfolding out_min_def using i(1) by (intro Min_le) auto
  then show ?thesis using assms(2) [OF i(1)] i(2) by linarith
qed

text \<open>A change of channels that filters do not write to changes no availability.\<close>

lemma ds_avail_ok_core:
  assumes g: "ds_graph_ok (client s)" "ds_avail_ok (client s)" "dups_ok (ds_channels (client s))"
    and core: "map ch_core chs' = map ch_core (ds_channels (client s))"
    and free: "\<And>b. b < length chs' \<Longrightarrow> ch_parent (ds_channels (client s) ! b) = None \<Longrightarrow> ch_free (chs' ! b) = ch_free (ds_channels (client s) ! b)"
  shows "ds_avail_ok ((client s)\<lparr>ds_channels := chs'\<rparr>)"
proof -
  let ?chs = "ds_channels (client s)" and ?fs = "ds_filters (client s)"
  have len: "length chs' = length ?chs" using core by (rule map_eq_imp_length_eq)
  have sel: "ch_core (chs' ! b) = ch_core (?chs ! b)" if "b < length ?chs" for b using ch_core_nth [OF core] that by blast
  have "avail_exact chs' (?fs ! j)" if j: "j < length ?fs" for j
  proof -
    have "in_min chs' (?fs ! j) = in_min ?chs (?fs ! j)"
    proof (rule min_cong(1))
      fix i assume "i < n_inputs (?fs ! j)"
      then have "df_inputs (?fs ! j) ! i < length ?chs" using reads_filter [of ?chs ?fs j i] j g(1) by (simp add: ds_graph_ok_def)
      note ch_core_sel [OF sel [OF this]]
      then show "in_iters (chs' ! (df_inputs (?fs ! j) ! i)) = in_iters (?chs ! (df_inputs (?fs ! j) ! i))" by (simp add: in_iters_def)
    qed
    moreover have "out_min chs' (?fs ! j) = out_min ?chs (?fs ! j)"
    proof (rule min_cong(2))
      fix i assume i: "i < n_outputs (?fs ! j)"
      then have b: "df_outputs (?fs ! j) ! i < length ?chs" "ch_out_f (?chs ! (df_outputs (?fs ! j) ! i)) = Some j"
        using writes_filter [of ?chs ?fs j i] j g(1) by (simp_all add: ds_graph_ok_def)
      then have "ch_parent (?chs ! (df_outputs (?fs ! j) ! i)) = None" using g(3) by (auto simp: dups_ok_def all_set_conv_all_nth)
      then show "out_iters (chs' ! (df_outputs (?fs ! j) ! i)) = out_iters (?chs ! (df_outputs (?fs ! j) ! i))"
        using free [of "df_outputs (?fs ! j) ! i"] b(1) len ch_core_sel(8) [OF sel [OF b(1)]] by (simp add: out_iters_def)
    qed
    ultimately show ?thesis using g(2) j by (simp add: ds_avail_ok_nth avail_exact_def)
  qed
  then show ?thesis by (simp add: ds_avail_ok_nth)
qed

lemma same_setup_core:
  assumes "map ch_core chs' = map ch_core (ds_channels x)"
  shows "same_setup (x\<lparr>ds_channels := chs'\<rparr>) x"
proof -
  let ?g = "\<lambda>c. c\<lparr>ch_used := 0\<rparr>"
  have "map (\<lambda>c. c\<lparr>ch_used := 0, ch_free := 0, ch_waiting := 0\<rparr>) cs = map ?g (map ch_core cs)" for cs
    by (simp add: ch_core_def)
  from this [of chs'] this [of "ds_channels x"]
  have "map (\<lambda>c. c\<lparr>ch_used := 0, ch_free := 0, ch_waiting := 0\<rparr>) chs' = map (\<lambda>c. c\<lparr>ch_used := 0, ch_free := 0, ch_waiting := 0\<rparr>) (ds_channels x)"
    using assms by (simp only:)
  then show ?thesis by (simp add: same_setup_def strip_def)
qed

text \<open>The end of the walk: the bytes are free at the root, and its writer can go on.\<close>

lemma root_frees:
  assumes g: "ds_graph_ok (client s)" "ds_avail_ok (client s)" "bufs_there s"
    and a: "a < length (ds_channels (client s))" "unat (ch_free (ds_channels (client s) ! a)) + unat n < 2 ^ 32"
  shows "\<exists>s'. rbind (root_free a n s) (\<lambda>s. rbind (get_ch a s) (\<lambda>c. new_output c s)) = Inr s' \<and>
    ds_channels (client s') = (ds_channels (client s))[a := (ds_channels (client s) ! a)\<lparr>ch_free := ch_free (ds_channels (client s) ! a) + n\<rparr>] \<and>
    same_setup (client s') (client s) \<and> ds_avail_ok (client s')"
proof -
  let ?chs = "ds_channels (client s)" and ?fs = "ds_filters (client s)"
  let ?c = "?chs ! a"
  let ?c' = "?c\<lparr>ch_free := ch_free ?c + n\<rparr>"
  let ?chs' = "?chs[a := ?c']"
  have "\<exists>s1. root_free a n s = Inr s1 \<and> client s1 = (client s)\<lparr>ds_channels := ?chs'\<rparr>"
  proof (cases "ch_dups ?c")
    case None
    then show ?thesis using a(1) by (simp add: root_free_def get_ch_in)
  next
    case (Some d)
    have there: "bufs_there (put_ch a ?c' s)" "bufs (pmem (put_ch a ?c' s)) (ch_buf ?c) \<noteq> None"
      using a(1) g(3) by (auto simp: bufs_there_def dest!: set_update_subset_insert [THEN subsetD])
    then show ?thesis using upd_buf_there [OF there(2,1), of "buf_inc_head n"] a(1) Some by (auto simp: root_free_def get_ch_in)
  qed
  then obtain s1 where s1: "root_free a n s = Inr s1" "client s1 = (client s)\<lparr>ds_channels := ?chs'\<rparr>" by blast
  have core: "map ch_core ?chs' = map ch_core ?chs" by (rule ch_core_list_update) simp
  have setup1: "same_setup (client s1) (client s)" unfolding s1(2) by (rule same_setup_core [OF core])
  have g1: "writes_ok ?chs' ?fs" using same_graph_ok [OF same_setup_graph [OF setup1] g(1)] s1(2) by (simp add: ds_graph_ok_def)
  have "unat (ch_free ?c + n) = unat (ch_free ?c) + unat n" using unat_add_nat [of "unat n" "ch_free ?c"] a(2) by simp
  then have "out_iters ?c \<le> out_iters ?c'" "in_iters ?c' = in_iters ?c" by (simp_all add: in_iters_def out_iters_def div_le_mono)
  then have it: "in_iters (?chs' ! b) = in_iters (?chs ! b)" "out_iters (?chs ! b) \<le> out_iters (?chs' ! b)" for b
    using a(1) by (cases "b = a"; simp)+
  have exact: "avail_exact ?chs' (?fs ! j)" if j: "j < length ?fs" and n: "ch_out_f ?c \<noteq> Some j" for j
  proof -
    have "out_min ?chs' (?fs ! j) = out_min ?chs (?fs ! j)"
    proof (rule min_cong(2))
      fix i assume "i < n_outputs (?fs ! j)"
      then have "df_outputs (?fs ! j) ! i \<noteq> a" using writes_filter [of ?chs ?fs j i] j n g(1) by (auto simp: ds_graph_ok_def)
      then show "out_iters (?chs' ! (df_outputs (?fs ! j) ! i)) = out_iters (?chs ! (df_outputs (?fs ! j) ! i))" by simp
    qed
    moreover have "in_min ?chs' (?fs ! j) = in_min ?chs (?fs ! j)" by (rule min_cong(1)) (rule it(1))
    ultimately show ?thesis using g(2) j by (simp add: ds_avail_ok_nth avail_exact_def)
  qed
  have run: "rbind (root_free a n s) (\<lambda>s. rbind (get_ch a s) (\<lambda>c. new_output c s)) = new_output (?chs' ! a) s1"
    using s1 a(1) by (simp add: get_ch_in)
  show ?thesis
  proof (cases "ch_out_f ?c")
    case None
    have "ds_avail_ok (client s1)" using exact None by (simp add: ds_avail_ok_nth s1(2))
    then show ?thesis using run None s1 setup1 a(1) by (simp add: new_output_def)
  next
    case (Some b)
    have b: "b < length ?fs" "n_outputs (?fs ! b) \<noteq> 0" using writes_channel [of ?chs ?fs a b] g(1) a(1) Some by (auto simp: ds_graph_ok_def)
    have old: "unat (df_out_avail (?fs ! b)) = out_min ?chs (?fs ! b)" using g(2) b by (simp add: ds_avail_ok_nth avail_exact_def)
    have "out_min ?chs (?fs ! b) \<le> out_min ?chs' (?fs ! b)" by (rule out_min_mono [OF b(2)]) (rule it(2))
    then obtain w where w: "new_output (?chs' ! a) s1 = Inr (put_flt b (set_out_avail w (?fs ! b)) s1)" "unat w = out_min ?chs' (?fs ! b)"
      using new_output_eq [of s1 a b] g1 a(1) Some old unfolding s1(2) by auto
    have "in_min ?chs' (?fs ! b) = in_min ?chs (?fs ! b)" by (rule min_cong(1)) (rule it(1))
    then have "avail_exact ?chs' (set_out_avail w (?fs ! b))"
      using g(2) b w(2) by (simp add: ds_avail_ok_nth avail_exact_def set_out_avail_def n_inputs_def n_outputs_def in_min_def out_min_def)
    then have "ds_avail_ok (client (put_flt b (set_out_avail w (?fs ! b)) s1))"
      using exact b(1) Some by (simp add: ds_avail_ok_nth s1(2) nth_list_update)
    moreover have "same_setup (client (put_flt b (set_out_avail w (?fs ! b)) s1)) (client s1)"
      using strip_filter [of b "client s1" "set_out_avail w (?fs ! b)"] b(1) by (simp add: s1(2) set_avail_strip)
    ultimately show ?thesis using w(1) s1 setup1 run by (auto intro: same_setup_trans)
  qed
qed

lemma read_frees_root:
  assumes n: "n \<noteq> 0" and L': "L' = L(x := L x + unat n)"
    and g: "ds_graph_ok (client s)" "ds_avail_ok (client s)" "bufs_there s" "dups_ok (ds_channels (client s))"
    and t: "tree_at (ds_channels (client s)) t" "distinct (nodes t)" "free_ok (ds_channels (client s)) L t" "x \<in> set (leaves t)"
      "ch_parent (ds_channels (client s) ! tree_root t) = None" "depth t \<le> k"
    and b: "L' x < bytes_freed L t + 2 ^ 32"
      "unat (ch_free (ds_channels (client s) ! tree_root t)) + (bytes_freed L' t - bytes_freed L t) < 2 ^ 32"
  shows "\<exists>s'. update_up_channel_free k x n s = Inr s' \<and> free_ok (ds_channels (client s')) L' t \<and>
    unat (ch_free (ds_channels (client s') ! tree_root t)) + bytes_freed L t = unat (ch_free (ds_channels (client s) ! tree_root t)) + bytes_freed L' t \<and>
    same_setup (client s') (client s) \<and> ds_avail_ok (client s')"
proof -
  let ?chs = "ds_channels (client s)" and ?r = "tree_root t"
  obtain d chs' where "up_result t L L' x n ?chs chs' d s" using up_tree [OF n L' t(1-4) b(1)] by blast
  then obtain w where d: "d < depth t" "map ch_core chs' = map ch_core ?chs" "\<forall>b. b \<notin> set (nodes t) \<longrightarrow> chs' ! b = ?chs ! b"
    "chs' ! ?r = (?chs ! ?r)\<lparr>ch_waiting := w\<rparr>" "free_ok chs' L' t" and
    loop: "if bytes_freed L' t = bytes_freed L t then (\<forall>k. up_loop (Suc d + k) x n (with_chs ?chs s) = Inr (None, with_chs chs' s))
      else bytes_freed L t < bytes_freed L' t \<and> (\<forall>k. up_loop (d + k) x n (with_chs ?chs s) =
        up_loop k ?r (of_nat (bytes_freed L' t - bytes_freed L t)) (with_chs chs' s))"
    unfolding up_result_def by blast
  obtain j where j: "k = Suc d + j" using d(1) t(6) by (metis Suc_le_eq le_Suc_ex order_less_le_trans)
  have len: "length chs' = length ?chs" using d(2) by (rule map_eq_imp_length_eq)
  have r: "?r < length ?chs" using root_at [OF t(1)] .
  have free: "ch_free (chs' ! b) = ch_free (?chs ! b)" if "ch_parent (?chs ! b) = None" for b
  proof (cases "b = ?r")
    case True
    then show ?thesis using d(4) by simp
  next
    case False
    then have "b \<notin> set (nodes t)" using nodes_parent [OF t(3), of b] that by blast
    then show ?thesis using d(3) by simp
  qed
  let ?s = "with_chs chs' s"
  have ok: "ds_avail_ok (client ?s)" using ds_avail_ok_core [OF g(1,2,4) d(2) free] by simp
  have same: "same_setup (client ?s) (client s)" using same_setup_core [OF d(2)] by simp
  have par: "ch_parent (chs' ! ?r) = None" using d(4) t(5) by simp
  show ?thesis
  proof (cases "bytes_freed L' t = bytes_freed L t")
    case True
    then have "up_loop k x n (with_chs ?chs s) = Inr (None, ?s)" using loop j by simp
    then have "update_up_channel_free k x n s = Inr ?s" by (simp add: update_up_channel_free_def with_own_chs)
    moreover have "ch_free (chs' ! ?r) = ch_free (?chs ! ?r)" by (rule free) (rule t(5))
    ultimately show ?thesis using d(5) True ok same by simp
  next
    case False
    let ?m = "bytes_freed L' t - bytes_freed L t"
    have m: "0 < ?m" "bytes_freed L' t = bytes_freed L t + ?m" using loop False by auto
    have um: "unat (of_nat ?m :: u32) = ?m" by (rule unat_of_nat_small) (use b(2) in linarith)
    have "up_loop k x n (with_chs ?chs s) = up_loop (d + Suc j) x n (with_chs ?chs s)" by (simp add: j)
    also have "\<dots> = up_loop (Suc j) ?r (of_nat ?m) ?s" using loop False by metis
    also have "\<dots> = Inr (Some (?r, of_nat ?m), ?s)" using r len par by (simp only: up_loop.simps with_chs_simps index_res_in rbind_simps option.case)
    finally have run: "update_up_channel_free k x n s = rbind (root_free ?r (of_nat ?m) ?s) (\<lambda>s. rbind (get_ch ?r s) (\<lambda>c. new_output c s))"
      by (simp add: update_up_channel_free_def with_own_chs)
    have "bufs_there ?s"
      unfolding bufs_there_def
    proof
      fix c assume "c \<in> set (ds_channels (client ?s))"
      then obtain i where i: "i < length ?chs" "c = chs' ! i" by (auto simp: in_set_conv_nth len)
      have "ch_core (chs' ! i) = ch_core (?chs ! i)" using ch_core_nth [OF d(2)] i(1) by blast
      from ch_core_sel(7) [OF this] show "bufs (pmem ?s) (ch_buf c) \<noteq> None" using g(3) i by (simp add: bufs_there_def)
    qed
    moreover have "ds_graph_ok (client ?s)" by (rule same_graph_ok [OF same_setup_graph [OF same] g(1)])
    moreover have f: "ch_free (chs' ! ?r) = ch_free (?chs ! ?r)" by (rule free) (rule t(5))
    ultimately obtain s' where s': "update_up_channel_free k x n s = Inr s'"
      "ds_channels (client s') = chs'[?r := (chs' ! ?r)\<lparr>ch_free := ch_free (chs' ! ?r) + of_nat ?m\<rparr>]"
      "same_setup (client s') (client ?s)" "ds_avail_ok (client s')"
      using root_frees [of ?s ?r "of_nat ?m"] ok r len b(2) um unfolding run by auto
    have "unat (ch_free (?chs ! ?r) + of_nat ?m) = unat (ch_free (?chs ! ?r)) + ?m"
      by (rule unat_add_nat) (use b(2) in linarith)+
    then have "unat (ch_free (ds_channels (client s') ! ?r)) + bytes_freed L t = unat (ch_free (?chs ! ?r)) + bytes_freed L' t"
      using r len f m(2) by (simp add: s'(2))
    moreover have "free_ok (ds_channels (client s')) L' t \<longleftrightarrow> free_ok chs' L' t"
      by (rule free_ok_cong [OF _ _ t(2)]) (use r len in \<open>simp_all add: s'(2)\<close>)
    ultimately show ?thesis using s'(1,3,4) d(5) same_setup_trans [OF _ same] by blast
  qed
qed

end
