(* ===== verification/Ds_Sizing.thy ===== *)
theory Ds_Sizing
  imports Ds_Free
begin

text \<open>
  The dynamic scheduler of the Cell library (\<open>library/cell/ds/ds.c\<close>): how many iterations of a filter
  make a group, so that its double-buffered tapes fit the slots in the local store.
\<close>

section \<open>Buffer sizes\<close>

definition QWORD_MASK :: u32 where "QWORD_MASK = 15"
definition DS_MIN_GROUP_ITERS :: u32 where "DS_MIN_GROUP_ITERS = 5"
definition UINT32_MAX :: u32 where "UINT32_MAX = 0xffffffff"

text \<open>What a tape needs besides the data of two groups; \<open>CHECK\<close> is 1.\<close>

definition in_base_size :: "channel \<Rightarrow> buffer_cb \<Rightarrow> u32" where
  "in_base_size c b = ch_peek_extra c +
     (if ((b_head b + ch_peek_extra c) OR ch_pop c) AND QWORD_MASK = 0 then 1 else QWORD_MASK + QWORD_MASK)"

definition out_base_size :: "channel \<Rightarrow> buffer_cb \<Rightarrow> u32" where
  "out_base_size c b = (if (b_tail b OR ch_push c) AND QWORD_MASK = 0 then 0 else QWORD_MASK)"

definition init_tape_sizes :: "ds_filter \<Rightarrow> 'd ds_ppu \<Rightarrow> 'd ds_ppu res" where
  "init_tape_sizes f s =
     rbind (rfold (\<lambda>i s. rbind (index_res (df_inputs f) i) (\<lambda>a. rbind (get_ch a s) (\<lambda>c. rbind (get_pbuf (ch_buf c) s) (\<lambda>b.
       Inr (put_ch a (c\<lparr>ch_in_size := in_base_size c b\<rparr>) s))))) [0..<n_inputs f] s)
     (rfold (\<lambda>i s. rbind (index_res (df_outputs f) i) (\<lambda>a. rbind (get_ch a s) (\<lambda>c. rbind (get_pbuf (ch_buf c) s) (\<lambda>b.
       Inr (put_ch a (c\<lparr>ch_out_size := out_base_size c b\<rparr>) s))))) [0..<n_outputs f])"

definition in_buf_size :: "channel \<Rightarrow> u32 \<Rightarrow> u32 res" where
  "in_buf_size c iters = (let pop_bytes = ch_pop c * iters in
     next_power_2 (ch_in_size c + pop_bytes * 2 + (if pop_bytes \<ge> CACHE_SIZE then 0 else CACHE_MASK)))"

definition out_max_buffered :: "channel \<Rightarrow> u32 \<Rightarrow> u32" where
  "out_max_buffered c iters = ch_out_size c + (if ch_push c * iters \<ge> CACHE_SIZE + QWORD_MASK then 0 else CACHE_MASK)"

definition out_buf_size :: "channel \<Rightarrow> u32 \<Rightarrow> u32 res" where
  "out_buf_size c iters = next_power_2 (ch_push c * iters * 2 + out_max_buffered c iters + 1)"

definition calc_input_buffering :: "ds_filter \<Rightarrow> u32 \<Rightarrow> bool \<Rightarrow> 'd ds_ppu \<Rightarrow> (u32 \<times> 'd ds_ppu) res" where
  "calc_input_buffering f iters actual s = rfold (\<lambda>i (tot, s). rbind (index_res (df_inputs f) i) (\<lambda>a. rbind (get_ch a s) (\<lambda>c.
     rbind (in_buf_size c iters) (\<lambda>n. Inr (tot + n, if actual then put_ch a (c\<lparr>ch_in_size := n\<rparr>) s else s)))))
     [0..<n_inputs f] (0, s)"

definition calc_output_buffering :: "nat \<Rightarrow> ds_filter \<Rightarrow> u32 \<Rightarrow> bool \<Rightarrow> 'd ds_ppu \<Rightarrow> (u32 \<times> 'd ds_ppu) res" where
  "calc_output_buffering fa f iters actual s =
     rbind (rfold (\<lambda>i (tot, buffering, s). rbind (index_res (df_outputs f) i) (\<lambda>a. rbind (get_ch a s) (\<lambda>c.
       rbind (out_buf_size c iters) (\<lambda>n.
         if actual then rbind (udiv_res (out_max_buffered c iters + (ch_push c - 1)) (ch_push c)) (\<lambda>q.
           Inr (tot + n, max buffering q, put_ch a (c\<lparr>ch_out_size := n\<rparr>) s))
         else Inr (tot + n, buffering, s)))))
       [0..<n_outputs f] (0, 0, s))
     (\<lambda>(tot, buffering, s). if actual then rbind (upd_flt fa (\<lambda>f. f\<lparr>df_out_buffered := buffering\<rparr>) s) (\<lambda>s. Inr (tot, s))
       else Inr (tot, s))"

section \<open>The number of iterations\<close>

definition buffering_total :: "nat \<Rightarrow> ds_filter \<Rightarrow> bool \<Rightarrow> bool \<Rightarrow> 'd ds_ppu \<Rightarrow> u32 \<Rightarrow> u32 res" where
  "buffering_total fa f inputs outputs s iters =
     rbind (if inputs then rbind (calc_input_buffering f iters False s) (\<lambda>(t, _). Inr t) else Inr 0) (\<lambda>t1.
     rbind (if outputs then rbind (calc_output_buffering fa f iters False s) (\<lambda>(t, _). Inr t) else Inr 0) (\<lambda>t2. Inr (t1 + t2)))"

text \<open>Doubling until the buffers do not fit, then bisection.\<close>

fun double_loop :: "nat \<Rightarrow> (u32 \<Rightarrow> u32 res) \<Rightarrow> u32 \<Rightarrow> u32 \<Rightarrow> u32 res" where
  "double_loop 0 tot max_size j = Inl OutOfFuel"
| "double_loop (Suc n) tot max_size j = rbind (tot j) (\<lambda>t.
     if t \<le> max_size then double_loop n tot max_size (push_bit 1 j) else Inr j)"

fun bisect_loop :: "nat \<Rightarrow> (u32 \<Rightarrow> u32 res) \<Rightarrow> u32 \<Rightarrow> u32 \<Rightarrow> u32 \<Rightarrow> u32 res" where
  "bisect_loop 0 tot max_size i j = Inl OutOfFuel"
| "bisect_loop (Suc n) tot max_size i j = (if i = j then Inr i
     else let k = drop_bit 1 (i + j + 1) in rbind (tot k) (\<lambda>t.
       if t \<le> max_size then bisect_loop n tot max_size k j else bisect_loop n tot max_size i (k - 1)))"

definition max_iters_loops :: "(u32 \<Rightarrow> u32 res) \<Rightarrow> u32 \<Rightarrow> u32 res" where
  "max_iters_loops tot max_size = rbind (double_loop 33 tot max_size 1) (\<lambda>j.
     if j = 1 then Inr 0 else bisect_loop 33 tot max_size (drop_bit 1 j) (j - 1))"

definition calc_max_iters :: "nat \<Rightarrow> ds_filter \<Rightarrow> bool \<Rightarrow> bool \<Rightarrow> u32 \<Rightarrow> 'd ds_ppu \<Rightarrow> u32 res" where
  "calc_max_iters fa f inputs outputs max_size s =
     (if \<not> outputs \<and> n_inputs f = 0 \<or> \<not> inputs \<and> n_outputs f = 0 then Inr UINT32_MAX
      else max_iters_loops (buffering_total fa f inputs outputs s) max_size)"

text \<open>
  \<open>calc_filter_buffering\<close>: the groups of inputs and of outputs are sized alone, and a filter for which
  the smaller is too small takes the slots of two filters.
\<close>

definition group_iters_of :: "nat \<Rightarrow> ds_filter \<Rightarrow> 'd ds_ppu \<Rightarrow> (bool \<times> u32) res" where
  "group_iters_of fa f s =
     rbind (if df_exclusive f then Inr (True, 0)
       else rbind (calc_max_iters fa f True False 32768 s) (\<lambda>i. Inr (i < DS_MIN_GROUP_ITERS, i))) (\<lambda>(excl, input_iters).
     rbind (if excl then Inr (True, 0)
       else rbind (calc_max_iters fa f False True 32768 s) (\<lambda>i. Inr (i < DS_MIN_GROUP_ITERS, i))) (\<lambda>(excl, output_iters).
     if \<not> excl then Inr (False, min input_iters output_iters)
     else rbind (calc_max_iters fa f True True (32768 * 3) s) (\<lambda>i. ensure CheckFail (i \<noteq> 0) (Inr (True, i)))))"

definition calc_filter_buffering :: "nat \<Rightarrow> 'd ds_ppu \<Rightarrow> 'd ds_ppu res" where
  "calc_filter_buffering fa s = rbind (get_flt fa s) (\<lambda>f. rbind (init_tape_sizes f s) (\<lambda>s.
     rbind (group_iters_of fa f s) (\<lambda>(excl, g).
     rbind (upd_flt fa (\<lambda>f. f\<lparr>df_exclusive := excl, df_group_iters := g\<rparr>) s) (\<lambda>s.
     rbind (calc_input_buffering f g True s) (\<lambda>(_, s).
     rbind (calc_output_buffering fa f g True s) (\<lambda>(_, s).
       upd_flt fa (\<lambda>f. f\<lparr>df_loop_iters := max (g div DS_MIN_GROUP_ITERS) 1\<rparr>) s))))))"

end
