(* ===== verification/Ds_Commands.thy ===== *)
theory Ds_Commands
  imports Ds_Sizing Ext_Spu
begin

text \<open>
  The dynamic scheduler of the Cell library (\<open>library/cell/ds/dsrun.c\<close>): the command groups that run a
  filter on an SPU, the masks of command IDs that are waited for, and putting a filter on an SPU.
  The arguments \<open>a\<close> and \<open>f\<close> are the active filter and its filter.  \<open>gm\<close> is what the memory of a command
  held before its stub ran.
\<close>

section \<open>Phases and masks\<close>

definition DS_WAITING :: nat where "DS_WAITING = 0"
definition DS_ALLOC :: nat where "DS_ALLOC = 1"
definition DS_LOAD :: nat where "DS_LOAD = 2"
definition DS_INIT_A :: nat where "DS_INIT_A = 3"
definition DS_INIT_B :: nat where "DS_INIT_B = 4"
definition DS_STEADY :: nat where "DS_STEADY = 5"
definition DS_CLEANUP_A :: nat where "DS_CLEANUP_A = 6"
definition DS_CLEANUP_B :: nat where "DS_CLEANUP_B = 7"

lemmas ds_phase_defs = DS_WAITING_def DS_ALLOC_def DS_LOAD_def DS_INIT_A_def DS_INIT_B_def DS_STEADY_def
  DS_CLEANUP_A_def DS_CLEANUP_B_def

text \<open>A shift by 32 or more is undefined.\<close>

definition shl :: "u32 \<Rightarrow> nat \<Rightarrow> u32 res" where
  "shl w n = ensure OutOfBounds (n < 32) (Inr (push_bit n w))"

definition get_mask :: "nat \<Rightarrow> u32 res" where
  "get_mask n = rbind (shl 1 n) (\<lambda>w. Inr (w - 1))"

definition mask_at :: "nat \<Rightarrow> nat \<Rightarrow> u32 res" where
  "mask_at n start = rbind (get_mask n) (\<lambda>w. shl w start)"

definition id_start :: "active \<Rightarrow> nat" where
  "id_start a = unat (a_cmd_id a)"

definition group_cmds :: "active \<Rightarrow> nat" where
  "group_cmds a = unat (a_group_cmds a)"

definition get_alloc_mask :: "active \<Rightarrow> ds_filter \<Rightarrow> u32 res" where
  "get_alloc_mask a f = mask_at (n_inputs f) (1 + group_cmds a + id_start a)"

definition get_load_mask :: "active \<Rightarrow> ds_filter \<Rightarrow> u32 res" where
  "get_load_mask a f = mask_at (1 + n_inputs f) (id_start a)"

definition get_init_a_mask :: "active \<Rightarrow> ds_filter \<Rightarrow> u32 res" where
  "get_init_a_mask a f = rbind (mask_at (group_cmds a) (group_cmds a)) (\<lambda>x. rbind (mask_at (n_outputs f) (1 + n_inputs f)) (\<lambda>y.
     shl (x OR y) (id_start a)))"

definition get_init_b_mask :: "active \<Rightarrow> ds_filter \<Rightarrow> u32 res" where
  "get_init_b_mask a f = mask_at (1 + n_inputs f) (id_start a)"

definition get_steady_0_mask :: "active \<Rightarrow> ds_filter \<Rightarrow> u32 res" where
  "get_steady_0_mask a f = mask_at (group_cmds a) (id_start a)"

definition get_cleanup_a_mask :: "active \<Rightarrow> ds_filter \<Rightarrow> nat \<Rightarrow> u32 res" where
  "get_cleanup_a_mask a f slot = rbind (mask_at (n_outputs f) (1 + n_inputs f)) (\<lambda>x.
     shl (1 OR x) (id_start a + slot * group_cmds a))"

text \<open>\<open>SPU_STATS_ENABLE\<close> is 1, so the unload command is always there.\<close>

definition SPU_STATS_ENABLE :: nat where "SPU_STATS_ENABLE = 1"

definition unloads :: "ds_filter \<Rightarrow> bool" where
  "unloads f \<longleftrightarrow> SPU_STATS_ENABLE \<noteq> 0 \<or> state_size (df_desc f) \<noteq> 0 \<and> \<not> df_data_parallel f"

definition get_cleanup_b_mask :: "active \<Rightarrow> ds_filter \<Rightarrow> nat \<Rightarrow> u32 res" where
  "get_cleanup_b_mask a f slot = rbind (mask_at (n_outputs f) (1 + n_inputs f)) (\<lambda>x.
     shl (if unloads f then x OR 1 else x) (id_start a + slot * group_cmds a))"

definition get_short_cleanup_mask :: "active \<Rightarrow> ds_filter \<Rightarrow> u32 res" where
  "get_short_cleanup_mask a f = rbind (shl 1 (id_start a)) (\<lambda>x. rbind (get_cleanup_b_mask a f 1) (\<lambda>y. Inr (x OR y)))"

section \<open>Commands\<close>

definition af_group :: "active \<Rightarrow> nat \<Rightarrow> nat" where
  "af_group a slot = a_cmd_group a + slot"

definition ds_issue_group :: "active \<Rightarrow> nat \<Rightarrow> 'd ds_ppu \<Rightarrow> 'd ds_ppu res" where
  "ds_issue_group a slot s = rbind (spu_get_group (a_spu_id a) (af_group a slot) s) (\<lambda>g.
     if g_size g \<noteq> 0 then spu_issue_group (a_spu_id a) (af_group a slot) (a_cmd_data a + of_nat slot * a_group_data a) s
     else Inr s)"

text \<open>A stub appends its command to a group of the filter's SPU.\<close>

definition af_stub :: "active \<Rightarrow> nat \<Rightarrow> (cmd_group \<Rightarrow> cmd_group res) \<Rightarrow> 'd ds_ppu \<Rightarrow> 'd ds_ppu res" where
  "af_stub a slot stub = on_group (a_spu_id a) (af_group a slot) stub"

text \<open>\<open>setup_run\<close> waits for every command of the other group: the dependencies are filled in afterwards.\<close>

definition set_deps :: "nat list \<Rightarrow> spu_cmd \<Rightarrow> spu_cmd" where
  "set_deps ds c = c\<lparr>num_back_deps := length ds, c_deps := ds @ drop (length ds) (c_deps c)\<rparr>"

definition on_cmd :: "nat \<Rightarrow> (spu_cmd \<Rightarrow> spu_cmd) \<Rightarrow> cmd_group \<Rightarrow> cmd_group res" where
  "on_cmd i g grp = rbind (index_res (g_cmds grp) i) (\<lambda>c. Inr (grp\<lparr>g_cmds := (g_cmds grp)[i := g c]\<rparr>))"

definition ds_setup_run :: "group_mem \<Rightarrow> active \<Rightarrow> ds_filter \<Rightarrow> nat \<Rightarrow> u32 \<Rightarrow> nat \<Rightarrow> nat \<Rightarrow> 'd ds_ppu \<Rightarrow> 'd ds_ppu res" where
  "ds_setup_run gm a f slot iters cmd_id dep_start s = af_stub a slot (\<lambda>g.
     rbind (spu_filter_run (lsa_start s) (a_filt_cb a) iters (df_loop_iters f) (gm_old gm) g cmd_id [])
       (\<lambda>g. on_cmd (length (g_cmds g) - 1) (set_deps (map (\<lambda>i. dep_start + i) [0..<group_cmds a])) g)) s"

definition ds_setup_input :: "group_mem \<Rightarrow> active \<Rightarrow> ds_filter \<Rightarrow> nat \<Rightarrow> u32 \<Rightarrow> nat \<Rightarrow> nat \<Rightarrow> nat \<Rightarrow> 'd ds_ppu \<Rightarrow> 'd ds_ppu res" where
  "ds_setup_input gm a f slot iters cmd_id input_dep run_dep = rfold (\<lambda>i s. rbind (index_res (df_inputs f) i) (\<lambda>x. rbind (get_ch x s) (\<lambda>c.
     rbind (index_res (a_inputs a) i) (\<lambda>t. rbind (get_pbuf (at_buf t) s) (\<lambda>b.
       af_stub a slot (\<lambda>g. spu_dt_in_back_ppu (lsa_start s) (gm_in gm) (at_data t) b (iters * ch_pop c) (gm_old gm) g
         (cmd_id + i) [input_dep + i, run_dep]) s))))) [0..<n_inputs f]"

definition ds_setup_output :: "group_mem \<Rightarrow> active \<Rightarrow> ds_filter \<Rightarrow> nat \<Rightarrow> u32 \<Rightarrow> nat \<Rightarrow> nat \<Rightarrow> nat \<Rightarrow> 'd ds_ppu \<Rightarrow> 'd ds_ppu res" where
  "ds_setup_output gm a f slot iters cmd_id output_dep run_dep = rfold (\<lambda>i s. rbind (index_res (df_outputs f) i) (\<lambda>x. rbind (get_ch x s) (\<lambda>c.
     rbind (index_res (a_outputs a) i) (\<lambda>t. rbind (get_pbuf (at_buf t) s) (\<lambda>b.
       af_stub a slot (\<lambda>g. spu_dt_out_front_ppu_ex (lsa_start s) (gm_out_ppu gm) (at_data t) (of_nat (at_buf t)) b (iters * ch_push c)
         (df_data_parallel f) (gm_old gm) g (cmd_id + i) [output_dep + i, run_dep]) s))))) [0..<n_outputs f]"

definition setup_load :: "group_mem \<Rightarrow> active \<Rightarrow> ds_filter \<Rightarrow> 'd ds_ppu \<Rightarrow> 'd ds_ppu res" where
  "setup_load gm a f s = rbind (spu_new_group (a_spu_id a) (af_group a 0) s) (\<lambda>s.
     let load_id = id_start a; attach_id = load_id + 1; alloc_id = attach_id + group_cmds a in
     rbind (af_stub a 0 (\<lambda>g. spu_filter_load (lsa_start s) 0 0 (a_filt_cb a) (df_desc f) (gm_old gm) g load_id []) s)
       (rfold (\<lambda>i s. rbind (index_res (df_inputs f) i) (\<lambda>x. rbind (get_ch x s) (\<lambda>c. rbind (index_res (a_inputs a) i) (\<lambda>t.
          rbind (get_pbuf (at_buf t) s) (\<lambda>b.
          rbind (af_stub a 0 (\<lambda>g. spu_buffer_alloc (lsa_start s) (at_data t) (ch_in_size c) (b_head b AND CACHE_MASK) (gm_old gm) g
            (alloc_id + i) []) s)
            (af_stub a 0 (\<lambda>g. spu_filter_attach_input (lsa_start s) (a_filt_cb a) (of_nat i) (at_data t) (gm_old gm) g
              (attach_id + i) [load_id, alloc_id + i]))))))) [0..<n_inputs f]))"

definition setup_init_a :: "group_mem \<Rightarrow> active \<Rightarrow> ds_filter \<Rightarrow> 'd ds_ppu \<Rightarrow> 'd ds_ppu res" where
  "setup_init_a gm a f s = rbind (spu_new_group (a_spu_id a) (af_group a 1) s) (\<lambda>s.
     let input_iters = (if a_groups_left a = 1 then a_last_iters a else df_group_iters f);
       load_id = id_start a; null_id = load_id + group_cmds a; input_id = null_id + 1;
       alloc_id = load_id + 1 + n_inputs f; attach_id = alloc_id + group_cmds a in
     rbind (af_stub a 1 (\<lambda>g. spu_null (gm_old gm) g null_id []) s) (\<lambda>s.
     rbind (rfold (\<lambda>i s. rbind (index_res (df_inputs f) i) (\<lambda>x. rbind (get_ch x s) (\<lambda>c. rbind (index_res (a_inputs a) i) (\<lambda>t.
         rbind (get_pbuf (at_buf t) s) (\<lambda>b.
           af_stub a 1 (\<lambda>g. spu_dt_in_back_ppu (lsa_start s) (gm_in gm) (at_data t) b (ch_peek_extra c + input_iters * ch_pop c) (gm_old gm) g
             (input_id + i) []) s))))) [0..<n_inputs f] s)
       (rfold (\<lambda>i s. rbind (index_res (df_outputs f) i) (\<lambda>x. rbind (get_ch x s) (\<lambda>c. rbind (index_res (a_outputs a) i) (\<lambda>t.
         rbind (get_pbuf (at_buf t) s) (\<lambda>b.
         rbind (af_stub a 1 (\<lambda>g. spu_buffer_alloc (lsa_start s) (at_data t) (ch_out_size c) (b_tail b AND CACHE_MASK) (gm_old gm) g
           (alloc_id + i) [null_id]) s)
           (af_stub a 1 (\<lambda>g. spu_filter_attach_output (lsa_start s) (a_filt_cb a) (of_nat i) (at_data t) (gm_old gm) g
             (attach_id + i) [load_id, alloc_id + i]))))))) [0..<n_outputs f])))"

definition setup_init_b :: "group_mem \<Rightarrow> active \<Rightarrow> ds_filter \<Rightarrow> 'd ds_ppu \<Rightarrow> 'd ds_ppu res" where
  "setup_init_b gm a f s = rbind (spu_new_group (a_spu_id a) (af_group a 0) s) (\<lambda>s.
     let ids = id_start a; deps = id_start a + group_cmds a in
     rbind (ds_setup_run gm a f 0 (if a_groups_left a = 1 then a_last_iters a else df_group_iters f) ids deps s) (\<lambda>s.
     if a_groups_left a \<noteq> 1
     then ds_setup_input gm a f 0 (if a_groups_left a = 2 then a_last_iters a else df_group_iters f) (ids + 1) (deps + 1) deps s
     else Inr s))"

text \<open>The second group waits for the first and the other way round.\<close>

definition group_ids :: "active \<Rightarrow> nat \<Rightarrow> nat" where
  "group_ids a slot = id_start a + slot * group_cmds a"

definition group_deps :: "active \<Rightarrow> nat \<Rightarrow> nat" where
  "group_deps a slot = id_start a + (group_cmds a - slot * group_cmds a)"

definition setup_steady :: "group_mem \<Rightarrow> active \<Rightarrow> ds_filter \<Rightarrow> nat \<Rightarrow> 'd ds_ppu \<Rightarrow> 'd ds_ppu res" where
  "setup_steady gm a f slot s = (let ids = group_ids a slot; deps = group_deps a slot in
     rbind (if slot = 0 then rbind (spu_get_group (a_spu_id a) (af_group a 0) s) (\<lambda>_. Inr s)
       else rbind (spu_new_group (a_spu_id a) (af_group a 1) s) (\<lambda>s.
         rbind (ds_setup_run gm a f 1 (df_group_iters f) ids deps s)
           (ds_setup_input gm a f 1 (if a_groups_left a = 3 then a_last_iters a else df_group_iters f) (ids + 1) (deps + 1) deps))) (\<lambda>s.
       ds_setup_output gm a f (if slot = 0 then 0 else 1) (df_group_iters f) (ids + 1 + n_inputs f) (deps + 1 + n_inputs f) deps s))"

definition setup_cleanup_a :: "group_mem \<Rightarrow> active \<Rightarrow> ds_filter \<Rightarrow> nat \<Rightarrow> 'd ds_ppu \<Rightarrow> 'd ds_ppu res" where
  "setup_cleanup_a gm a f slot s = rbind (spu_new_group (a_spu_id a) (af_group a slot) s) (\<lambda>s.
     let ids = group_ids a slot; deps = group_deps a slot in
     rbind (ds_setup_run gm a f slot (a_last_iters a) ids deps s)
       (ds_setup_output gm a f slot (df_group_iters f) (ids + 1 + n_inputs f) (deps + 1 + n_inputs f) deps))"

definition setup_cleanup_b :: "group_mem \<Rightarrow> active \<Rightarrow> ds_filter \<Rightarrow> nat \<Rightarrow> 'd ds_ppu \<Rightarrow> 'd ds_ppu res" where
  "setup_cleanup_b gm a f slot s = rbind (spu_new_group (a_spu_id a) (af_group a slot) s) (\<lambda>s.
     let ids = group_ids a slot; deps = group_deps a slot in
     rbind (if unloads f then af_stub a slot (\<lambda>g. spu_filter_unload (lsa_start s) 0 (a_filt_cb a) (gm_old gm) g ids [deps]) s else Inr s)
       (ds_setup_output gm a f slot (a_last_iters a) (ids + 1 + n_inputs f) (deps + 1 + n_inputs f) deps))"

text \<open>The transfers of the group come right after its run command.\<close>

definition set_in_bytes :: "u32 \<Rightarrow> spu_cmd \<Rightarrow> spu_cmd" where
  "set_in_bytes n c = (case c_body c of Dt_In p \<Rightarrow> c\<lparr>c_body := Dt_In (p\<lparr>di_num_bytes := n\<rparr>)\<rparr> | _ \<Rightarrow> c)"

definition adjust_input :: "active \<Rightarrow> ds_filter \<Rightarrow> nat \<Rightarrow> 'd ds_ppu \<Rightarrow> 'd ds_ppu res" where
  "adjust_input a f slot = rfold (\<lambda>i s. rbind (index_res (df_inputs f) i) (\<lambda>x. rbind (get_ch x s) (\<lambda>c.
     af_stub a slot (on_cmd (1 + i) (set_in_bytes (a_last_iters a * ch_pop c))) s))) [0..<n_inputs f]"

section \<open>Putting a filter on an SPU\<close>

text \<open>The instances of a data-parallel filter are a list in the order they were started.\<close>

definition add_instance :: "nat \<Rightarrow> 'd ds_ppu \<Rightarrow> (nat \<times> 'd ds_ppu) res" where
  "add_instance fa s = rbind (new_dp_instance s) (\<lambda>(p, s). rbind (upd_dp p (\<lambda>x. x\<lparr>dp_next := None\<rparr>) s) (\<lambda>s.
     rbind (get_flt fa s) (\<lambda>f.
     rbind (case df_instances f of
         None \<Rightarrow> rbind (upd_dp p (\<lambda>x. x\<lparr>dp_prev := None\<rparr>) s) (upd_flt fa (\<lambda>f. f\<lparr>df_instances := Some p\<rparr>))
       | Some _ \<Rightarrow> rbind (upd_dp p (\<lambda>x. x\<lparr>dp_prev := df_last f\<rparr>) s) (\<lambda>s. rbind (deref (df_last f)) (\<lambda>l. upd_dp l (\<lambda>x. x\<lparr>dp_next := Some p\<rparr>) s))) (\<lambda>s.
     rbind (upd_flt fa (\<lambda>f. f\<lparr>df_last := Some p\<rparr>) s) (\<lambda>s.
     rbind (upd_dp p (\<lambda>x. x\<lparr>dp_in := 0, dp_out := 0, dp_done := False\<rparr>) s) (\<lambda>s. Inr (p, s)))))))"

text \<open>The bytes of an input are taken from its channel, and a buffer on the SPU is set aside.\<close>

definition take_iters :: "u32 \<Rightarrow> ds_filter \<Rightarrow> ds_filter" where
  "take_iters n f = f\<lparr>df_avail := df_avail f - n, df_in_avail := df_in_avail f - n, df_out_avail := df_out_avail f - n\<rparr>"

definition schedule_input :: "nat \<Rightarrow> nat \<Rightarrow> ds_filter \<Rightarrow> u32 \<Rightarrow> nat \<Rightarrow> u32 \<times> 'd ds_ppu \<Rightarrow> (u32 \<times> 'd ds_ppu) res" where
  "schedule_input i k f iters j = (\<lambda>(start, s). rbind (index_res (df_inputs f) j) (\<lambda>x. rbind (get_ch x s) (\<lambda>c.
     let n = iters * ch_pop c; data = start + CACHE_SIZE in
     rbind (safe_dec (ch_used c) n) (\<lambda>u. let s = put_ch x (c\<lparr>ch_used := u\<rparr>) s in
     rbind (get_af i k s) (\<lambda>a. rbind (index_res (a_inputs a) j) (\<lambda>t.
     rbind (if df_data_parallel f
       then rbind (get_pbuf (ch_buf c) s) (\<lambda>b. rbind (upd_buf (at_instance t) (\<lambda>d. duplicate_buffer d b) s) (\<lambda>s.
         rbind (upd_buf (ch_buf c) (buf_inc_head n) s) (\<lambda>s. Inr (at_instance t, s))))
       else Inr (ch_buf c, s)) (\<lambda>(p, s).
     rbind (put_af i k (a\<lparr>a_inputs := (a_inputs a)[j := t\<lparr>at_data := data, at_buf := p\<rparr>]\<rparr>) s) (\<lambda>s.
       Inr (data + ch_in_size c, s)))))))))"

definition schedule_output :: "nat \<Rightarrow> nat \<Rightarrow> ds_filter \<Rightarrow> u32 \<Rightarrow> nat \<Rightarrow> u32 \<times> 'd ds_ppu \<Rightarrow> (u32 \<times> 'd ds_ppu) res" where
  "schedule_output i k f iters j = (\<lambda>(start, s). rbind (index_res (df_outputs f) j) (\<lambda>x. rbind (get_ch x s) (\<lambda>c.
     let n = iters * ch_push c; data = start + CACHE_SIZE in
     rbind (safe_dec (ch_free c) n) (\<lambda>u. let s = put_ch x (c\<lparr>ch_free := u\<rparr>) s in
     rbind (get_af i k s) (\<lambda>a. rbind (index_res (a_outputs a) j) (\<lambda>t.
     rbind (if df_data_parallel f
       then rbind (get_pbuf (ch_buf c) s) (\<lambda>b. rbind (upd_buf (at_instance t) (\<lambda>d. duplicate_buffer d b) s) (\<lambda>s.
         rbind (upd_buf (ch_buf c) (buf_inc_tail n) s) (\<lambda>s. Inr (at_instance t, s))))
       else Inr (ch_buf c, s)) (\<lambda>(p, s).
     rbind (put_af i k (a\<lparr>a_outputs := (a_outputs a)[j := t\<lparr>at_data := data, at_buf := p\<rparr>]\<rparr>) s) (\<lambda>s.
       Inr (data + ch_out_size c, s)))))))))"

text \<open>Where the filter, its commands and its command data go: two filters share an SPU unless one is exclusive.\<close>

definition place_filter :: "ds_filter \<Rightarrow> u32 \<Rightarrow> ds_spu \<Rightarrow> active \<Rightarrow> (ds_spu \<times> active) res" where
  "place_filter f start u a =
     (if df_exclusive f
      then rbind (cmd_get_filt_cb_size (num_inputs (df_desc f)) (num_outputs (df_desc f)) (state_size (df_desc f))) (\<lambda>n.
        Inr (u, a\<lparr>a_filt_cb := start, a_cmd_data := start + n, a_cmd_id := 0, a_cmd_group := 28\<rparr>))
      else let (filt, u) = get_spu_filter_slot u; (data, u) = get_spu_cmd_data_slot u;
          (cid, u) = get_spu_cmd_id_slot u; (gid, u) = get_spu_cmd_group_slot u in
        Inr (u, a\<lparr>a_filt_cb := filt, a_cmd_data := data, a_cmd_id := cid, a_cmd_group := gid\<rparr>))"

definition start_filter :: "group_mem \<Rightarrow> nat \<Rightarrow> nat \<Rightarrow> 'd ds_ppu \<Rightarrow> 'd ds_ppu res" where
  "start_filter gm i k s = rbind (get_af i k s) (\<lambda>a. rbind (get_flt (a_f a) s) (\<lambda>f. rbind (ds_issue_group a 0 s) (\<lambda>s.
     rbind (setup_init_a gm a f s) (\<lambda>s. rbind (get_alloc_mask a f) (\<lambda>m.
       put_af i k (a\<lparr>a_phase := DS_ALLOC, a_waiting := m\<rparr>) s)))))"

definition next_buffers :: "nat \<Rightarrow> ds_filter \<Rightarrow> u32 \<Rightarrow> 'd ds_ppu \<Rightarrow> (u32 \<times> 'd ds_ppu) res" where
  "next_buffers i f start s = (if df_exclusive f then Inr (start, s)
     else rbind (get_sp i s) (\<lambda>u. let (da, u) = get_spu_buffer_slot u in Inr (da, put_sp i u s)))"

text \<open>The first part: the SPU's current or next filter, and the iterations as groups.\<close>

definition claim_spu :: "nat \<Rightarrow> nat \<Rightarrow> u32 \<Rightarrow> 'd ds_ppu \<Rightarrow> (nat \<times> 'd ds_ppu) res" where
  "claim_spu i fa iters s = rbind (get_sp i s) (\<lambda>u. rbind (get_flt fa s) (\<lambda>f.
     let k = sp_next_filt u; u = u\<lparr>sp_next_filt := k XOR 1\<rparr> in
     ensure CheckFail (sp_next u = None)
     (rbind (if sp_current u = None then Inr (u\<lparr>sp_current := Some k\<rparr>, ds_num_free (client s) - 1)
       else ensure CheckFail (\<not> df_exclusive f) (Inr (u\<lparr>sp_next := Some k\<rparr>, ds_num_free (client s)))) (\<lambda>(u, free).
     ensure CheckFail (df_active f = 0 \<or> df_data_parallel f)
     (ensure CheckFail (df_avail f \<ge> iters)
     (rbind (udiv_res (iters - 1) (df_group_iters f)) (\<lambda>q. rbind (index_res (sp_filters u) k) (\<lambda>a.
       let a = a\<lparr>a_f := fa, a_groups_left := q + 1, a_last_iters := (iters - 1) mod df_group_iters f + 1,
         a_done_in := 0, a_done_out := 0, a_updated := False\<rparr>;
         s = put_sp i (u\<lparr>sp_filters := (sp_filters u)[k := a]\<rparr>) s;
         s = put_flt fa (take_iters iters (f\<lparr>df_active := df_active f + 1\<rparr>)) s in
       Inr (k, upd_client (\<lambda>x. x\<lparr>ds_num_free := free\<rparr>) s)))))))))"

text \<open>The last part: the control block and the commands get their place, and the filter is loaded.\<close>

definition settle_filter :: "group_mem \<Rightarrow> nat \<Rightarrow> nat \<Rightarrow> ds_filter \<Rightarrow> u32 \<Rightarrow> 'd ds_ppu \<Rightarrow> 'd ds_ppu res" where
  "settle_filter gm i k f start s = rbind (get_sp i s) (\<lambda>u. rbind (get_af i k s) (\<lambda>a.
     rbind (place_filter f start u (a\<lparr>a_out_buffered := 0\<rparr>)) (\<lambda>(u, a).
     let cmds = 1 + of_nat (n_inputs f) + of_nat (n_outputs f);
       a = a\<lparr>a_group_cmds := cmds, a_group_data := cmds * 64\<rparr> in
     rbind (put_af i k a (put_sp i u s)) (\<lambda>s.
     rbind (setup_load gm a f s) (\<lambda>s.
     if \<not> df_exclusive f \<or> sp_next u = None then start_filter gm i k s
     else rbind (get_af i k s) (\<lambda>a. put_af i k (a\<lparr>a_phase := DS_WAITING, a_waiting := 0\<rparr>) s))))))"

definition schedule_filter :: "group_mem \<Rightarrow> nat \<Rightarrow> nat \<Rightarrow> u32 \<Rightarrow> 'd ds_ppu \<Rightarrow> 'd ds_ppu res" where
  "schedule_filter gm i fa iters s = rbind (claim_spu i fa iters s) (\<lambda>(k, s).
     rbind (get_flt fa s) (\<lambda>f.
     rbind (if df_data_parallel f then rbind (add_instance fa s) (\<lambda>(p, s). rbind (get_af i k s) (\<lambda>a. put_af i k (a\<lparr>a_instance := p\<rparr>) s))
       else Inr s) (\<lambda>s.
     rbind (next_buffers i f 0 s) (\<lambda>(start, s).
     rbind (rfold (schedule_input i k f iters) [0..<n_inputs f] (start, s)) (\<lambda>(start, s).
     rbind (next_buffers i f start s) (\<lambda>(start, s).
     rbind (rfold (schedule_output i k f iters) [0..<n_outputs f] (start, s)) (\<lambda>(start, s). settle_filter gm i k f start s)))))))"

end
