(* ===== verification/Ext_Psp.thy ===== *)
theory Ext_Psp
  imports Ds_Commands
begin

text \<open>
  The operation of the Cell library that runs a filter with several tapes on an SPU
  (\<open>library/cell/src/ppu/extpsp.c\<close>, \<open>ext.h\<close>): input from PPU buffers, runs of the filter, output to PPU
  buffers, double-buffered in two groups of commands.  The commands are those of the dynamic
  scheduler, which took them over; the masks and the changes to built commands are shared with it.
  The caller's parameters are not copied by the code: the caller is assumed to leave them alone.
\<close>

section \<open>Layout, parameters and state\<close>

record psp_layout =
  pl_spu_id :: nat
  pl_desc :: filter_desc
  pl_filt_cb :: u32
  pl_in_start :: u32
  pl_out_start :: u32
  pl_cmd_data :: u32
  pl_cmd_id :: u32
  pl_load :: bool

record psp_input =
  pi_pop :: u32
  pi_peek_extra :: u32
  pi_size :: u32

record psp_output =
  po_push :: u32
  po_size :: u32

record psp_params =
  pp_inputs :: "psp_input list"
  pp_outputs :: "psp_output list"
  pp_num_inputs :: u32
  pp_num_outputs :: u32
  pp_data_parallel :: bool
  pp_group_iters :: u32
  pp_loop_iters :: u32

record psp_tape =
  pt_data :: u32
  pt_buf :: nat
  pt_instance :: nat

record psp_active =
  p_spu_id :: nat
  p_f :: psp_params
  p_inputs :: "psp_tape list"
  p_outputs :: "psp_tape list"
  p_filt_cb :: u32
  p_cmd_id :: u32
  p_group_cmds :: u32
  p_load :: bool
  p_unload :: bool
  p_groups :: "(nat \<times> u32) list"
  p_groups_left :: u32
  p_last_iters :: u32
  p_cur_group :: nat
  p_cmd_mask :: u32
  p_phase :: nat
  p_waiting :: u32
  p_completed :: u32

definition PSP_ALLOC :: nat where "PSP_ALLOC = 0"
definition PSP_LOAD :: nat where "PSP_LOAD = 1"
definition PSP_INIT_A :: nat where "PSP_INIT_A = 2"
definition PSP_INIT_B :: nat where "PSP_INIT_B = 3"
definition PSP_STEADY :: nat where "PSP_STEADY = 4"
definition PSP_CLEANUP :: nat where "PSP_CLEANUP = 5"

lemmas psp_phase_defs = PSP_ALLOC_def PSP_LOAD_def PSP_INIT_A_def PSP_INIT_B_def PSP_STEADY_def PSP_CLEANUP_def

definition EXT_PSP_MAX_TAPES :: u32 where "EXT_PSP_MAX_TAPES = 15"

definition EXT_PSP_HANDLER :: nat where "EXT_PSP_HANDLER = 1"

type_synonym ('e, 'c) psp_ppu = "(psp_active + 'e, 'c) ext_ppu"

definition get_psp :: "nat \<Rightarrow> ('e, 'c) psp_ppu \<Rightarrow> psp_active res" where
  "get_psp a s = rbind (deref (op_heap s a)) (\<lambda>q. case op_data q of Inr (Inl d) \<Rightarrow> Inr d | _ \<Rightarrow> Inl Unreached)"

definition put_psp :: "nat \<Rightarrow> psp_active \<Rightarrow> ('e, 'c) psp_ppu \<Rightarrow> ('e, 'c) psp_ppu res" where
  "put_psp a d s = rbind (deref (op_heap s a)) (\<lambda>q. Inr (s\<lparr>op_heap := (op_heap s)(a \<mapsto> q\<lparr>op_data := Inr (Inl d)\<rparr>)\<rparr>))"

definition psp_inputs :: "psp_active \<Rightarrow> nat" where "psp_inputs d = unat (pp_num_inputs (p_f d))"
definition psp_outputs :: "psp_active \<Rightarrow> nat" where "psp_outputs d = unat (pp_num_outputs (p_f d))"
definition psp_cmds :: "psp_active \<Rightarrow> nat" where "psp_cmds d = unat (p_group_cmds d)"
definition psp_id :: "psp_active \<Rightarrow> nat" where "psp_id d = unat (p_cmd_id d)"

section \<open>Masks\<close>

definition psp_alloc_mask :: "psp_active \<Rightarrow> u32 res" where
  "psp_alloc_mask d = mask_at (psp_inputs d) (1 + psp_cmds d + psp_id d)"

definition psp_load_mask :: "psp_active \<Rightarrow> u32 res" where
  "psp_load_mask d = rbind (get_mask (psp_cmds d)) (\<lambda>x. rbind (mask_at (psp_outputs d) (1 + psp_inputs d + psp_cmds d)) (\<lambda>y.
     shl ((x XOR (if p_load d then 0 else 1)) OR y) (psp_id d)))"

definition psp_init_a_mask :: "psp_active \<Rightarrow> u32 res" where
  "psp_init_a_mask d = mask_at (psp_inputs d) (1 + psp_cmds d + psp_id d)"

definition psp_init_b_mask :: "psp_active \<Rightarrow> u32 res" where
  "psp_init_b_mask d = mask_at (1 + psp_inputs d) (psp_id d)"

definition psp_steady_0_mask :: "psp_active \<Rightarrow> u32 res" where
  "psp_steady_0_mask d = mask_at (psp_cmds d) (psp_id d)"

definition psp_cleanup_a_mask :: "psp_active \<Rightarrow> nat \<Rightarrow> u32 res" where
  "psp_cleanup_a_mask d slot = rbind (mask_at (psp_outputs d) (1 + psp_inputs d)) (\<lambda>x. shl (1 OR x) (psp_id d + slot * psp_cmds d))"

definition psp_cleanup_b_mask :: "psp_active \<Rightarrow> nat \<Rightarrow> u32 res" where
  "psp_cleanup_b_mask d slot = rbind (mask_at (psp_outputs d) (1 + psp_inputs d)) (\<lambda>x.
     shl (if p_unload d \<or> p_load d then x OR 1 else x) (psp_id d + slot * psp_cmds d))"

definition psp_cleanup_mask :: "psp_active \<Rightarrow> nat \<Rightarrow> u32 res" where
  "psp_cleanup_mask d slot = rbind (psp_cleanup_a_mask d (slot XOR 1)) (\<lambda>x. rbind (psp_cleanup_b_mask d slot) (\<lambda>y. Inr (x OR y)))"

definition psp_short_cleanup_mask :: "psp_active \<Rightarrow> u32 res" where
  "psp_short_cleanup_mask d = rbind (shl 1 (psp_id d)) (\<lambda>x. rbind (psp_cleanup_b_mask d 1) (\<lambda>y. Inr (x OR y)))"

section \<open>Commands\<close>

definition psp_group :: "psp_active \<Rightarrow> nat \<Rightarrow> (nat \<times> u32) res" where
  "psp_group d slot = index_res (p_groups d) slot"

definition psp_stub :: "psp_active \<Rightarrow> nat \<Rightarrow> (cmd_group \<Rightarrow> cmd_group res) \<Rightarrow> ('d, 'c) ppu \<Rightarrow> ('d, 'c) ppu res" where
  "psp_stub d slot stub s = rbind (psp_group d slot) (\<lambda>(g, da). on_group (p_spu_id d) g stub s)"

definition psp_clear :: "psp_active \<Rightarrow> nat \<Rightarrow> ('d, 'c) ppu \<Rightarrow> ('d, 'c) ppu res" where
  "psp_clear d slot s = rbind (psp_group d slot) (\<lambda>(g, da). spu_clear_group (p_spu_id d) g s)"

definition psp_issue_group :: "psp_active \<Rightarrow> nat \<Rightarrow> ('d, 'c) ppu \<Rightarrow> ('d, 'c) ppu res" where
  "psp_issue_group d slot s = rbind (psp_group d slot) (\<lambda>(g, da). rbind (get_spu (p_spu_id d) s) (\<lambda>u. rbind (index_res (i_groups u) g) (\<lambda>grp.
     if g_size grp \<noteq> 0 then spu_issue_int_group (p_spu_id d) g da s else Inr s)))"

text \<open>Every input, and every output, with its parameters, its tape and its buffer on the PPU.\<close>

definition each_input :: "psp_active \<Rightarrow> (nat \<Rightarrow> psp_input \<Rightarrow> psp_tape \<Rightarrow> buffer_cb \<Rightarrow> ('d, 'c) ppu \<Rightarrow> ('d, 'c) ppu res) \<Rightarrow> ('d, 'c) ppu \<Rightarrow> ('d, 'c) ppu res" where
  "each_input d g = rfold (\<lambda>i s. rbind (index_res (pp_inputs (p_f d)) i) (\<lambda>x. rbind (index_res (p_inputs d) i) (\<lambda>t.
     rbind (get_pbuf (pt_buf t) s) (\<lambda>b. g i x t b s)))) [0..<psp_inputs d]"

definition each_output :: "psp_active \<Rightarrow> (nat \<Rightarrow> psp_output \<Rightarrow> psp_tape \<Rightarrow> buffer_cb \<Rightarrow> ('d, 'c) ppu \<Rightarrow> ('d, 'c) ppu res) \<Rightarrow> ('d, 'c) ppu \<Rightarrow> ('d, 'c) ppu res" where
  "each_output d g = rfold (\<lambda>i s. rbind (index_res (pp_outputs (p_f d)) i) (\<lambda>x. rbind (index_res (p_outputs d) i) (\<lambda>t.
     rbind (get_pbuf (pt_buf t) s) (\<lambda>b. g i x t b s)))) [0..<psp_outputs d]"

definition psp_setup_run :: "group_mem \<Rightarrow> psp_active \<Rightarrow> nat \<Rightarrow> u32 \<Rightarrow> nat \<Rightarrow> nat \<Rightarrow> ('d, 'c) ppu \<Rightarrow> ('d, 'c) ppu res" where
  "psp_setup_run gm d slot iters cmd_id dep_start s = psp_stub d slot (\<lambda>g.
     rbind (spu_filter_run (lsa_start s) (p_filt_cb d) iters (pp_loop_iters (p_f d)) (gm_old gm) g cmd_id [])
       (\<lambda>g. on_cmd (length (g_cmds g) - 1) (set_deps (map (\<lambda>i. dep_start + i) [0..<psp_cmds d])) g)) s"

definition psp_setup_input :: "group_mem \<Rightarrow> psp_active \<Rightarrow> nat \<Rightarrow> u32 \<Rightarrow> nat \<Rightarrow> nat \<Rightarrow> nat \<Rightarrow> ('d, 'c) ppu \<Rightarrow> ('d, 'c) ppu res" where
  "psp_setup_input gm d slot iters cmd_id input_dep run_dep = each_input d (\<lambda>i x t b s. psp_stub d slot (\<lambda>g.
     spu_dt_in_back_ppu (lsa_start s) (gm_in gm) (pt_data t) b (iters * pi_pop x) (gm_old gm) g (cmd_id + i) [input_dep + i, run_dep]) s)"

definition psp_setup_output :: "group_mem \<Rightarrow> psp_active \<Rightarrow> nat \<Rightarrow> u32 \<Rightarrow> nat \<Rightarrow> nat \<Rightarrow> nat \<Rightarrow> ('d, 'c) ppu \<Rightarrow> ('d, 'c) ppu res" where
  "psp_setup_output gm d slot iters cmd_id output_dep run_dep = each_output d (\<lambda>i x t b s. psp_stub d slot (\<lambda>g.
     spu_dt_out_front_ppu_ex (lsa_start s) (gm_out_ppu gm) (pt_data t) (of_nat (pt_buf t)) b (iters * po_push x)
       (pp_data_parallel (p_f d)) (gm_old gm) g (cmd_id + i) [output_dep + i, run_dep]) s)"

definition psp_setup_load :: "group_mem \<Rightarrow> psp_active \<Rightarrow> psp_layout \<Rightarrow> ('d, 'c) ppu \<Rightarrow> ('d, 'c) ppu res" where
  "psp_setup_load gm d l s = (let load_id = psp_id d; in_attach = load_id + 1; in_alloc = in_attach + psp_cmds d;
       out_alloc = in_attach + psp_inputs d; out_attach = out_alloc + psp_cmds d in
     rbind (psp_clear d 0 s) (\<lambda>s.
     rbind (if pl_load l then psp_stub d 0 (\<lambda>g. spu_filter_load (lsa_start s) 0 0 (p_filt_cb d) (pl_desc l) (gm_old gm) g load_id []) s
       else Inr s) (\<lambda>s.
     rbind (each_input d (\<lambda>i x t b s.
       rbind (psp_stub d 0 (\<lambda>g. spu_buffer_alloc (lsa_start s) (pt_data t) (pi_size x) (b_head b AND CACHE_MASK) (gm_old gm) g
         (in_alloc + i) []) s)
         (psp_stub d 0 (\<lambda>g. spu_filter_attach_input (lsa_start s) (p_filt_cb d) (of_nat i) (pt_data t) (gm_old gm) g
           (in_attach + i) [load_id, in_alloc + i]))) s)
       (each_output d (\<lambda>i x t b s.
       rbind (psp_stub d 0 (\<lambda>g. spu_buffer_alloc (lsa_start s) (pt_data t) (po_size x) (b_tail b AND CACHE_MASK) (gm_old gm) g
         (out_alloc + i) []) s)
         (psp_stub d 0 (\<lambda>g. spu_filter_attach_output (lsa_start s) (p_filt_cb d) (of_nat i) (pt_data t) (gm_old gm) g
           (out_attach + i) [load_id, out_alloc + i])))))))"

definition psp_setup_init_a :: "group_mem \<Rightarrow> psp_active \<Rightarrow> ('d, 'c) ppu \<Rightarrow> ('d, 'c) ppu res" where
  "psp_setup_init_a gm d s = (let iters = (if p_groups_left d = 1 then p_last_iters d else pp_group_iters (p_f d));
       input_id = psp_id d + psp_cmds d + 1 in
     rbind (psp_clear d 1 s) (each_input d (\<lambda>i x t b s. psp_stub d 1 (\<lambda>g.
       spu_dt_in_back_ppu (lsa_start s) (gm_in gm) (pt_data t) b (pi_peek_extra x + iters * pi_pop x) (gm_old gm) g (input_id + i) []) s)))"

definition psp_setup_init_b :: "group_mem \<Rightarrow> psp_active \<Rightarrow> ('d, 'c) ppu \<Rightarrow> ('d, 'c) ppu res" where
  "psp_setup_init_b gm d s = (let f = p_f d; ids = psp_id d; deps = psp_id d + psp_cmds d in
     rbind (psp_clear d 0 s) (\<lambda>s.
     rbind (psp_setup_run gm d 0 (if p_groups_left d = 1 then p_last_iters d else pp_group_iters f) ids deps s) (\<lambda>s.
     if p_groups_left d \<noteq> 1
     then psp_setup_input gm d 0 (if p_groups_left d = 2 then p_last_iters d else pp_group_iters f) (ids + 1) (deps + 1) deps s
     else Inr s)))"

definition psp_ids :: "psp_active \<Rightarrow> nat \<Rightarrow> nat" where
  "psp_ids d slot = psp_id d + slot * psp_cmds d"

definition psp_deps :: "psp_active \<Rightarrow> nat \<Rightarrow> nat" where
  "psp_deps d slot = psp_id d + (psp_cmds d - slot * psp_cmds d)"

definition psp_setup_steady :: "group_mem \<Rightarrow> psp_active \<Rightarrow> nat \<Rightarrow> ('d, 'c) ppu \<Rightarrow> ('d, 'c) ppu res" where
  "psp_setup_steady gm d slot s = (let g = pp_group_iters (p_f d); ids = psp_ids d slot; deps = psp_deps d slot in
     rbind (if slot = 1 then rbind (psp_clear d slot s) (\<lambda>s. rbind (psp_setup_run gm d slot g ids deps s)
         (psp_setup_input gm d slot (if p_groups_left d = 3 then p_last_iters d else g) (ids + 1) (deps + 1) deps))
       else Inr s)
     (psp_setup_output gm d slot g (ids + 1 + psp_inputs d) (deps + 1 + psp_inputs d) deps))"

definition psp_setup_cleanup_a :: "group_mem \<Rightarrow> psp_active \<Rightarrow> nat \<Rightarrow> ('d, 'c) ppu \<Rightarrow> ('d, 'c) ppu res" where
  "psp_setup_cleanup_a gm d slot s = (let ids = psp_ids d slot; deps = psp_deps d slot in
     rbind (psp_clear d slot s) (\<lambda>s. rbind (psp_setup_run gm d slot (p_last_iters d) ids deps s)
       (psp_setup_output gm d slot (pp_group_iters (p_f d)) (ids + 1 + psp_inputs d) (deps + 1 + psp_inputs d) deps)))"

definition psp_setup_cleanup_b :: "group_mem \<Rightarrow> psp_active \<Rightarrow> nat \<Rightarrow> ('d, 'c) ppu \<Rightarrow> ('d, 'c) ppu res" where
  "psp_setup_cleanup_b gm d slot s = (let ids = psp_ids d slot; deps = psp_deps d slot in
     rbind (psp_clear d slot s) (\<lambda>s.
     rbind (if p_unload d then psp_stub d slot (\<lambda>g. spu_filter_unload (lsa_start s) 0 (p_filt_cb d) (gm_old gm) g ids [deps]) s
       else if p_load d then psp_stub d slot (\<lambda>g. spu_filter_detach_all (lsa_start s) 0 (p_filt_cb d) (gm_old gm) g ids [deps]) s
       else Inr s)
     (psp_setup_output gm d slot (p_last_iters d) (ids + 1 + psp_inputs d) (deps + 1 + psp_inputs d) deps)))"

text \<open>The transfers of a group come right after its run command.\<close>

definition psp_adjust_input :: "psp_active \<Rightarrow> nat \<Rightarrow> ('d, 'c) ppu \<Rightarrow> ('d, 'c) ppu res" where
  "psp_adjust_input d slot = rfold (\<lambda>i s. rbind (index_res (pp_inputs (p_f d)) i) (\<lambda>x.
     psp_stub d slot (on_cmd (1 + i) (set_in_bytes (p_last_iters d * pi_pop x))) s)) [0..<psp_inputs d]"

section \<open>Transfers on the PPU\<close>

definition psp_all_iters :: "psp_active \<Rightarrow> u32" where
  "psp_all_iters d = (p_groups_left d - 1) * pp_group_iters (p_f d) + p_last_iters d"

definition psp_start_input :: "psp_active \<Rightarrow> ('d, 'c) ppu \<Rightarrow> ('d, 'c) ppu res" where
  "psp_start_input d = rfold (\<lambda>i s. rbind (index_res (pp_inputs (p_f d)) i) (\<lambda>x. rbind (index_res (p_inputs d) i) (\<lambda>t.
     dt_out_front_ex (pt_buf t) (p_spu_id d) (pt_data t) (pi_peek_extra x + psp_all_iters d * pi_pop x) s))) [0..<psp_inputs d]"

definition psp_start_output :: "psp_active \<Rightarrow> ('d, 'c) ppu \<Rightarrow> ('d, 'c) ppu res" where
  "psp_start_output d = rfold (\<lambda>i s. rbind (index_res (pp_outputs (p_f d)) i) (\<lambda>x. rbind (index_res (p_outputs d) i) (\<lambda>t.
     dt_in_back_ex (pt_buf t) (p_spu_id d) (pt_data t) (psp_all_iters d * po_push x) s))) [0..<psp_outputs d]"

definition psp_finish_output :: "psp_active \<Rightarrow> ('d, 'c) ppu \<Rightarrow> ('d, 'c) ppu res" where
  "psp_finish_output d s = rbind (rfold (\<lambda>i s. rbind (index_res (p_outputs d) i) (\<lambda>t.
       finish_dt_in_back_ex_head (pt_buf t) (pp_data_parallel (p_f d)) s)) [0..<psp_outputs d] s)
     (\<lambda>s. if pp_data_parallel (p_f d)
       then rfold (\<lambda>i s. rbind (index_res (p_outputs d) i) (\<lambda>t. finish_dt_in_back_ex_tail (pt_buf t) s)) [0..<psp_outputs d] s
       else Inr s)"

definition psp_done_filter :: "psp_active \<Rightarrow> ('d, 'c) ppu \<Rightarrow> ('d, 'c) ppu res" where
  "psp_done_filter d s = rbind (if pp_data_parallel (p_f d) then Inr s
       else rfold (\<lambda>i s. rbind (index_res (pp_inputs (p_f d)) i) (\<lambda>x. rbind (index_res (p_inputs d) i) (\<lambda>t.
         upd_buf (pt_buf t) (buf_inc_head (- pi_peek_extra x)) s))) [0..<psp_inputs d] s) (\<lambda>s.
     rbind (psp_group d 0) (\<lambda>(g0, _). rbind (spu_free_int_group (p_spu_id d) g0 s) (\<lambda>s.
     rbind (psp_group d 1) (\<lambda>(g1, _). spu_free_int_group (p_spu_id d) g1 s))))"

section \<open>Processing completions\<close>

definition psp_init_a :: "group_mem \<Rightarrow> psp_active \<Rightarrow> ('d, 'c) ppu \<Rightarrow> (psp_active \<times> ('d, 'c) ppu) res" where
  "psp_init_a gm d s = rbind (if p_groups_left d = 1
       then rbind (psp_setup_cleanup_b gm d 1 s) (\<lambda>s. rbind (psp_short_cleanup_mask d) (\<lambda>m.
         Inr (d\<lparr>p_phase := PSP_CLEANUP, p_waiting := m\<rparr>, s)))
       else rbind (if p_groups_left d = 2 then psp_setup_cleanup_a gm d 1 s else psp_setup_steady gm d 1 s) (\<lambda>s.
         rbind (psp_init_b_mask d) (\<lambda>m. Inr (d\<lparr>p_phase := PSP_INIT_B, p_waiting := m\<rparr>, s)))) (\<lambda>(d, s).
     rbind (psp_issue_group d 1 s) (\<lambda>s. Inr (d, s)))"

definition psp_init_b :: "group_mem \<Rightarrow> psp_active \<Rightarrow> ('d, 'c) ppu \<Rightarrow> (psp_active \<times> ('d, 'c) ppu) res" where
  "psp_init_b gm d s = rbind (if p_groups_left d \<noteq> 2 then psp_setup_steady gm d 0 s else Inr s) (\<lambda>s.
     rbind (psp_steady_0_mask d) (\<lambda>m.
       Inr (d\<lparr>p_cur_group := 0, p_groups_left := p_groups_left d - 1, p_phase := PSP_STEADY, p_waiting := m\<rparr>, s)))"

definition psp_steady :: "group_mem \<Rightarrow> psp_active \<Rightarrow> ('d, 'c) ppu \<Rightarrow> (psp_active \<times> ('d, 'c) ppu) res" where
  "psp_steady gm d s = (let d = d\<lparr>p_groups_left := p_groups_left d - 1, p_waiting := p_waiting d XOR p_cmd_mask d\<rparr> in
     rbind (if p_groups_left d = 2
       then rbind (if p_last_iters d \<noteq> pp_group_iters (p_f d) then psp_adjust_input d (p_cur_group d) s else Inr s) (\<lambda>s. Inr (d, s))
       else if p_groups_left d = 1 then rbind (psp_setup_cleanup_a gm d (p_cur_group d) s) (\<lambda>s. Inr (d, s))
       else if p_groups_left d = 0 then rbind (psp_setup_cleanup_b gm d (p_cur_group d) s) (\<lambda>s.
         rbind (psp_cleanup_mask d (p_cur_group d)) (\<lambda>m. Inr (d\<lparr>p_phase := PSP_CLEANUP, p_waiting := m\<rparr>, s)))
       else Inr (d, s)) (\<lambda>(d, s).
     rbind (psp_issue_group d (p_cur_group d) s) (\<lambda>s. Inr (d\<lparr>p_cur_group := p_cur_group d XOR 1\<rparr>, s))))"

text \<open>One turn of the loop: the first component says whether the operation is done.\<close>

definition psp_phase :: "group_mem \<Rightarrow> psp_active \<Rightarrow> ('d, 'c) ppu \<Rightarrow> (bool \<times> psp_active \<times> ('d, 'c) ppu) res" where
  "psp_phase gm d s = (let d = d\<lparr>p_completed := p_completed d AND NOT (p_waiting d)\<rparr>; again = (\<lambda>r. rbind r (\<lambda>x. Inr (False, x))) in
     if p_phase d = PSP_ALLOC
     then again (rbind (psp_start_input d s) (\<lambda>s. rbind (psp_issue_group d 1 s) (\<lambda>s. rbind (psp_load_mask d) (\<lambda>m.
       Inr (d\<lparr>p_phase := PSP_LOAD, p_waiting := m\<rparr>, s)))))
     else if p_phase d = PSP_LOAD
     then again (rbind (psp_start_output d s) (\<lambda>s. rbind (psp_setup_init_b gm d s) (\<lambda>s. rbind (psp_issue_group d 0 s) (\<lambda>s.
       rbind (psp_init_a_mask d) (\<lambda>m. Inr (d\<lparr>p_phase := PSP_INIT_A, p_waiting := m\<rparr>, s))))))
     else if p_phase d = PSP_INIT_A then again (psp_init_a gm d s)
     else if p_phase d = PSP_INIT_B then again (rbind (psp_init_b gm d s) (\<lambda>(d, s). psp_steady gm d s))
     else if p_phase d = PSP_STEADY then again (psp_steady gm d s)
     else if p_phase d = PSP_CLEANUP then rbind (psp_finish_output d s) (\<lambda>s. rbind (psp_done_filter d s) (\<lambda>s. Inr (True, d, s)))
     else Inl Unreached)"

fun psp_loop :: "group_mem \<Rightarrow> nat \<Rightarrow> psp_active \<Rightarrow> ('d, 'c) ppu \<Rightarrow> (bool \<times> psp_active \<times> ('d, 'c) ppu) res" where
  "psp_loop gm 0 d s = Inl OutOfFuel"
| "psp_loop gm (Suc n) d s =
     (if p_completed d AND p_waiting d \<noteq> p_waiting d then Inr (False, d, s)
      else rbind (psp_phase gm d s) (\<lambda>(finished, d, s). if finished then Inr (True, d, s) else psp_loop gm n d s))"

definition ext_psp_handler :: "group_mem \<Rightarrow> nat \<Rightarrow> nat \<Rightarrow> u32 \<Rightarrow> ('e, 'c) psp_ppu \<Rightarrow> (bool \<times> ('e, 'c) psp_ppu) res" where
  "ext_psp_handler gm n a ids s = rbind (get_psp a s) (\<lambda>d.
     rbind (psp_loop gm n (d\<lparr>p_completed := p_completed d OR ids\<rparr>) s) (\<lambda>(finished, d, s).
     rbind (put_psp a d s) (\<lambda>s. Inr (finished, s))))"

section \<open>Starting an operation\<close>

text \<open>Where the tapes go in the local store, and the buffers a data-parallel filter copies.\<close>

definition psp_place_input :: "psp_params \<Rightarrow> nat list \<Rightarrow> u32 \<Rightarrow> nat \<Rightarrow> u32 \<times> psp_active \<times> ('d, 'c) ppu \<Rightarrow> (u32 \<times> psp_active \<times> ('d, 'c) ppu) res" where
  "psp_place_input f ps iters i = (\<lambda>(start, d, s). rbind (index_res (pp_inputs f) i) (\<lambda>x. rbind (index_res (p_inputs d) i) (\<lambda>t.
     rbind (index_res ps i) (\<lambda>p.
     rbind (if pp_data_parallel f
       then rbind (get_pbuf p s) (\<lambda>b. rbind (upd_buf (pt_instance t) (\<lambda>c. duplicate_buffer c b) s) (\<lambda>s.
         rbind (upd_buf p (buf_inc_head (iters * pi_pop x)) s) (\<lambda>s. Inr (pt_instance t, s))))
       else Inr (p, s)) (\<lambda>(q, s).
     Inr (start + (pi_size x + CACHE_SIZE), d\<lparr>p_inputs := (p_inputs d)[i := t\<lparr>pt_data := start, pt_buf := q\<rparr>]\<rparr>, s))))))"

definition psp_place_output :: "psp_params \<Rightarrow> nat list \<Rightarrow> u32 \<Rightarrow> nat \<Rightarrow> u32 \<times> psp_active \<times> ('d, 'c) ppu \<Rightarrow> (u32 \<times> psp_active \<times> ('d, 'c) ppu) res" where
  "psp_place_output f ps iters i = (\<lambda>(start, d, s). rbind (index_res (pp_outputs f) i) (\<lambda>x. rbind (index_res (p_outputs d) i) (\<lambda>t.
     rbind (index_res ps i) (\<lambda>p.
     rbind (if pp_data_parallel f
       then rbind (get_pbuf p s) (\<lambda>b. rbind (upd_buf (pt_instance t) (\<lambda>c. duplicate_buffer c b) s) (\<lambda>s.
         rbind (upd_buf p (buf_inc_tail (iters * po_push x)) s) (\<lambda>s. Inr (pt_instance t, s))))
       else Inr (p, s)) (\<lambda>(q, s).
     Inr (start + (po_size x + CACHE_SIZE), d\<lparr>p_outputs := (p_outputs d)[i := t\<lparr>pt_data := start, pt_buf := q\<rparr>]\<rparr>, s))))))"

definition new_psp :: "psp_layout \<Rightarrow> psp_params \<Rightarrow> u32 \<Rightarrow> u32 \<Rightarrow> psp_active \<Rightarrow> psp_active res" where
  "new_psp l f iters m d0 = rbind (udiv_res (iters - 1) (pp_group_iters f)) (\<lambda>q. Inr (d0\<lparr>p_spu_id := pl_spu_id l, p_f := f,
     p_group_cmds := 1 + pp_num_inputs f + pp_num_outputs f, p_cmd_mask := m, p_load := pl_load l,
     p_unload := (pl_load l \<and> (SPU_STATS_ENABLE \<noteq> 0 \<or> state_size (pl_desc l) \<noteq> 0 \<and> \<not> pp_data_parallel f)),
     p_groups_left := q + 1, p_last_iters := (iters - 1) mod pp_group_iters f + 1, p_filt_cb := pl_filt_cb l, p_cmd_id := pl_cmd_id l\<rparr>))"

text \<open>
  \<open>al\<close> is the allocator's answer and \<open>d0\<close> what the memory held: the instances of the buffers are part of it,
  and \<open>d0\<close> names them.  \<open>code\<close> runs the callback of an operation with nothing to do.
\<close>

definition ext_ppu_spu_ppu :: "(ext_spu_data + (psp_active + 'e), 'c) lib_code \<Rightarrow> group_mem \<Rightarrow> psp_active \<Rightarrow> nat option \<Rightarrow> psp_layout \<Rightarrow> psp_params
    \<Rightarrow> nat list \<Rightarrow> nat list \<Rightarrow> u32 \<Rightarrow> nat \<Rightarrow> u32 \<Rightarrow> ('e, 'c) psp_ppu \<Rightarrow> ('e, 'c) psp_ppu res" where
  "ext_ppu_spu_ppu code gm d0 al l f in_bufs out_bufs iters cb tag s = (if iters = 0 then run_generic code cb tag s
     else let i = pl_spu_id l; n = 1 + pp_num_inputs f + pp_num_outputs f in
     ensure CheckFail (pp_num_inputs f + pp_num_outputs f \<le> EXT_PSP_MAX_TAPES \<and> pl_cmd_id l \<le> of_nat SPU_MAX_COMMANDS - n * 2 \<and>
       pl_cmd_data l AND CACHE_MASK = 0)
     (rbind (mask_at (unat (n * 2)) (unat (pl_cmd_id l))) (\<lambda>m.
      rbind (spu_new_ext_op al i m EXT_PSP_HANDLER cb tag (Inr (Inl d0)) s) (\<lambda>(a, s).
      rbind (new_psp l f iters m d0) (\<lambda>d.
      rbind (rfold (psp_place_input f in_bufs iters) [0..<psp_inputs d] (pl_in_start l + CACHE_SIZE, d, s)) (\<lambda>(_, d, s).
      rbind (rfold (psp_place_output f out_bufs iters) [0..<psp_outputs d] (pl_out_start l + CACHE_SIZE, d, s)) (\<lambda>(_, d, s).
      rbind (spu_new_int_group i s) (\<lambda>(g0, s). rbind (spu_new_int_group i s) (\<lambda>(g1, s).
      let d = d\<lparr>p_groups := [(g0, pl_cmd_data l), (g1, pl_cmd_data l + p_group_cmds d * 64)]\<rparr> in
      rbind (psp_setup_load gm d l s) (\<lambda>s. rbind (psp_issue_group d 0 s) (\<lambda>s. rbind (psp_setup_init_a gm d s) (\<lambda>s.
      rbind (psp_alloc_mask d) (\<lambda>m. put_psp a (d\<lparr>p_phase := PSP_ALLOC, p_waiting := m, p_completed := 0\<rparr>) s)))))))))))))"

definition ext_ppu_spu_ppu_ex :: "(ext_spu_data + (psp_active + 'e), 'c) lib_code \<Rightarrow> group_mem \<Rightarrow> psp_active \<Rightarrow> nat option \<Rightarrow> psp_layout \<Rightarrow> psp_params
    \<Rightarrow> nat list \<Rightarrow> nat list \<Rightarrow> u32 \<Rightarrow> nat \<Rightarrow> u32 \<Rightarrow> ('e, 'c) psp_ppu \<Rightarrow> ('e, 'c) psp_ppu res" where
  "ext_ppu_spu_ppu_ex code gm d0 al l f = ext_ppu_spu_ppu code gm d0 al l (f\<lparr>pp_loop_iters := 1\<rparr>)"

end
