(* ===== verification/Ds_Sched.thy ===== *)
theory Ds_Sched
  imports Ds_Commands
begin

text \<open>
  The dynamic scheduler of the Cell library (\<open>library/cell/ds/dssched.c\<close>): how many iterations of a filter
  to run next, which filter is best, and giving filters to SPUs.
\<close>

section \<open>Iterations and metrics\<close>

definition umod_res :: "u32 \<Rightarrow> u32 \<Rightarrow> u32 res" where
  "umod_res a b = ensure DivideByZero (b \<noteq> 0) (Inr (a mod b))"

definition get_schedule_iters :: "ds_filter \<Rightarrow> bool \<Rightarrow> u32 res" where
  "get_schedule_iters f current = (let min_iters = 3 * df_group_iters f; max_iters = 2 * min_iters in
     if df_incomplete f = 0 \<and> df_avail f = df_in_avail f then Inr (min (df_avail f) max_iters)
     else let min_iters = (if current then 2 * df_group_iters f else min_iters) in
       if df_avail f \<le> min_iters then Inr (df_avail f)
       else if df_avail f \<ge> max_iters then Inr max_iters
       else rbind (umod_res (df_avail f) (df_group_iters f)) (\<lambda>r. Inr (df_avail f - r)))"

definition get_filter_metric :: "ds_filter \<Rightarrow> bool \<Rightarrow> u32 res" where
  "get_filter_metric f current = (if df_avail f = 0 then Inr 0
     else rbind (udiv_res (df_avail f) (df_group_iters f)) (\<lambda>q. Inr ((q + 1) * (if current then 2 else 1))))"

text \<open>The first filter with the greatest metric, among those that may be put on another SPU.\<close>

definition candidate :: "nat option \<Rightarrow> nat \<Rightarrow> ds_filter \<Rightarrow> bool" where
  "candidate reserved fa f \<longleftrightarrow> reserved \<noteq> Some fa \<and> (df_active f = 0 \<or> df_data_parallel f)"

definition better :: "nat option \<Rightarrow> 'd ds_ppu \<Rightarrow> nat \<Rightarrow> nat option \<times> u32 \<Rightarrow> (nat option \<times> u32) res" where
  "better reserved s fa = (\<lambda>best. rbind (get_flt fa s) (\<lambda>f. if candidate reserved fa f
     then rbind (get_filter_metric f False) (\<lambda>m. Inr (if m > snd best then (Some fa, m) else best)) else Inr best))"

definition find_best_filter :: "nat option \<Rightarrow> 'd ds_ppu \<Rightarrow> (nat option \<times> u32) res" where
  "find_best_filter reserved s = rfold (better reserved s) [0..<length (ds_filters (client s))] (None, 0)"

section \<open>Giving filters to SPUs\<close>

definition schedule_best :: "group_mem \<Rightarrow> nat \<Rightarrow> nat option \<times> u32 \<Rightarrow> 'd ds_ppu \<Rightarrow> 'd ds_ppu res" where
  "schedule_best gm i best s = (if snd best = 0 then Inr s
     else rbind (deref (fst best)) (\<lambda>fa. rbind (get_flt fa s) (\<lambda>f. rbind (get_schedule_iters f False) (\<lambda>n.
       if n \<noteq> 0 then schedule_filter gm i fa n s else Inr s))))"

definition schedule_free_spu :: "group_mem \<Rightarrow> nat \<Rightarrow> nat option \<Rightarrow> 'd ds_ppu \<Rightarrow> 'd ds_ppu res" where
  "schedule_free_spu gm i reserved s = rbind (get_sp i s) (\<lambda>u. ensure CheckFail (sp_current u = None)
     (rbind (find_best_filter reserved s) (\<lambda>best. schedule_best gm i best s)))"

definition schedule_all_free_spu :: "group_mem \<Rightarrow> nat option \<Rightarrow> 'd ds_ppu \<Rightarrow> 'd ds_ppu res" where
  "schedule_all_free_spu gm reserved s = rfold (\<lambda>i s. rbind (get_sp i s) (\<lambda>u.
     if sp_current u = None then schedule_free_spu gm i reserved s else Inr s)) [0..<ds_num_spu (client s)] s"

text \<open>
  What comes after the filter that runs on an SPU: more iterations of it, which are the result, or
  another filter.  A filter with a later instance elsewhere is not extended.
\<close>

definition schedule_spu_next :: "group_mem \<Rightarrow> nat \<Rightarrow> nat option \<Rightarrow> nat \<Rightarrow> 'd ds_ppu \<Rightarrow> (u32 \<times> 'd ds_ppu) res" where
  "schedule_spu_next gm i current inst s =
     rbind (case current of None \<Rightarrow> Inr False | Some fa \<Rightarrow> rbind (get_flt fa s) (\<lambda>f. Inr (df_data_parallel f))) (\<lambda>dp.
     let reserved = (if current = None \<or> dp then None else current) in
     rbind (if ds_num_free (client s) \<noteq> 0 then schedule_all_free_spu gm reserved s else Inr s) (\<lambda>s.
     rbind (if current \<noteq> None \<and> dp then rbind (get_dp inst s) (\<lambda>x. Inr (if dp_next x \<noteq> None then None else current))
       else Inr current) (\<lambda>current.
     rbind (find_best_filter current s) (\<lambda>best.
     case current of
       None \<Rightarrow> rbind (schedule_best gm i best s) (\<lambda>s. Inr (0, s))
     | Some fa \<Rightarrow> rbind (get_flt fa s) (\<lambda>f. rbind (get_filter_metric f True) (\<lambda>m.
         if m \<ge> snd best then (if m = 0 then Inr (0, s) else rbind (get_schedule_iters f True) (\<lambda>n. Inr (n, s)))
         else rbind (schedule_best gm i best s) (\<lambda>s. Inr (0, s))))))))"

end
