(* ===== verification/Ds_Run.thy ===== *)
theory Ds_Run
  imports Ds_Sched
begin

text \<open>
  The dynamic scheduler of the Cell library (\<open>library/cell/ds/dsrun.c\<close>): what is done when commands of a
  filter have completed.  \<open>n\<close> bounds the walks up and down the trees of channels.
\<close>

section \<open>Transfers on the PPU's side\<close>

definition mod_af :: "nat \<Rightarrow> nat \<Rightarrow> (active \<Rightarrow> active) \<Rightarrow> 'd ds_ppu \<Rightarrow> 'd ds_ppu res" where
  "mod_af i k g s = rbind (get_af i k s) (\<lambda>a. put_af i k (g a) s)"

definition with_af :: "nat \<Rightarrow> nat \<Rightarrow> (active \<Rightarrow> ds_filter \<Rightarrow> 'd ds_ppu \<Rightarrow> 'b res) \<Rightarrow> 'd ds_ppu \<Rightarrow> 'b res" where
  "with_af i k g s = rbind (get_af i k s) (\<lambda>a. rbind (get_flt (a_f a) s) (\<lambda>f. g a f s))"

definition start_input :: "nat \<Rightarrow> nat \<Rightarrow> bool \<Rightarrow> 'd ds_ppu \<Rightarrow> 'd ds_ppu res" where
  "start_input i k first = with_af i k (\<lambda>a f s. ensure CheckFail (a_groups_left a \<noteq> 0)
     (rbind (put_af i k (a\<lparr>a_in_left := a_groups_left a\<rparr>) s) (\<lambda>s.
      let iters = (a_groups_left a - 1) * df_group_iters f + a_last_iters a in
      rfold (\<lambda>j s. rbind (index_res (df_inputs f) j) (\<lambda>x. rbind (get_ch x s) (\<lambda>c. rbind (index_res (a_inputs a) j) (\<lambda>t.
        dt_out_front_ex (at_buf t) (a_spu_id a) (at_data t) ((if first then ch_peek_extra c else 0) + iters * ch_pop c) s))))
        [0..<n_inputs f] s)))"

definition start_output :: "nat \<Rightarrow> nat \<Rightarrow> u32 \<Rightarrow> 'd ds_ppu \<Rightarrow> 'd ds_ppu res" where
  "start_output i k groups_left = with_af i k (\<lambda>a f s. ensure CheckFail (groups_left \<noteq> - 2)
     (rbind (put_af i k (a\<lparr>a_out_left := groups_left + 2, a_done_ua_out := False\<rparr>) s) (\<lambda>s.
      let iters = (groups_left + 2 - 1) * df_group_iters f + a_last_iters a in
      rfold (\<lambda>j s. rbind (index_res (df_outputs f) j) (\<lambda>x. rbind (get_ch x s) (\<lambda>c. rbind (index_res (a_outputs a) j) (\<lambda>t.
        dt_in_back_ex (at_buf t) (a_spu_id a) (at_data t) (iters * ch_push c) s))))
        [0..<n_outputs f] s)))"

text \<open>The bytes of the first quadword of the outputs are put in place once.\<close>

definition finish_heads :: "nat \<Rightarrow> nat \<Rightarrow> 'd ds_ppu \<Rightarrow> 'd ds_ppu res" where
  "finish_heads i k = with_af i k (\<lambda>a f s. if a_done_ua_out a then Inr s
     else rbind (rfold (\<lambda>j s. rbind (index_res (a_outputs a) j) (\<lambda>t. finish_dt_in_back_ex_head (at_buf t) (df_data_parallel f) s))
       [0..<n_outputs f] s) (mod_af i k (\<lambda>a. a\<lparr>a_done_ua_out := True\<rparr>)))"

definition finish_output :: "nat \<Rightarrow> nat \<Rightarrow> 'd ds_ppu \<Rightarrow> 'd ds_ppu res" where
  "finish_output i k s = rbind (finish_heads i k s) (with_af i k (\<lambda>a f s. if df_data_parallel f
     then rfold (\<lambda>j s. rbind (index_res (a_outputs a) j) (\<lambda>t. finish_dt_in_back_ex_tail (at_buf t) s)) [0..<n_outputs f] s
     else Inr s))"

section \<open>Reporting iterations to the channels\<close>

definition free_inputs :: "nat \<Rightarrow> ds_filter \<Rightarrow> u32 \<Rightarrow> 'd ds_ppu \<Rightarrow> 'd ds_ppu res" where
  "free_inputs n f iters = rfold (\<lambda>j s. rbind (index_res (df_inputs f) j) (\<lambda>x. rbind (get_ch x s) (\<lambda>c.
     update_up_channel_free n x (iters * ch_pop c) s))) [0..<n_inputs f]"

definition fill_outputs :: "nat \<Rightarrow> ds_filter \<Rightarrow> u32 \<Rightarrow> 'd ds_ppu \<Rightarrow> 'd ds_ppu res" where
  "fill_outputs n f iters = rfold (\<lambda>j s. rbind (index_res (df_outputs f) j) (\<lambda>x. rbind (get_ch x s) (\<lambda>c.
     update_down_channel_used n x (iters * ch_push c) s))) [0..<n_outputs f]"

text \<open>An instance of a data-parallel filter reports at once only when it is the oldest.\<close>

definition update_dp_input :: "nat \<Rightarrow> nat \<Rightarrow> nat \<Rightarrow> u32 \<Rightarrow> bool \<Rightarrow> 'd ds_ppu \<Rightarrow> 'd ds_ppu res" where
  "update_dp_input n fa p iters wait s = rbind (get_flt fa s) (\<lambda>f. rbind (get_dp p s) (\<lambda>x. let iters = iters + dp_in x in
     if \<not> wait \<and> df_instances f = Some p then rbind (free_inputs n f iters s) (upd_dp p (\<lambda>x. x\<lparr>dp_in := 0\<rparr>))
     else upd_dp p (\<lambda>x. x\<lparr>dp_in := iters\<rparr>) s))"

definition update_dp_output :: "nat \<Rightarrow> nat \<Rightarrow> nat \<Rightarrow> u32 \<Rightarrow> bool \<Rightarrow> 'd ds_ppu \<Rightarrow> 'd ds_ppu res" where
  "update_dp_output n fa p iters wait s = rbind (get_flt fa s) (\<lambda>f. rbind (get_dp p s) (\<lambda>x. let iters = iters + dp_out x in
     if \<not> wait \<and> df_instances f = Some p then rbind (fill_outputs n f iters s) (upd_dp p (\<lambda>x. x\<lparr>dp_out := 0\<rparr>))
     else upd_dp p (\<lambda>x. x\<lparr>dp_out := iters\<rparr>) s))"

definition update_input_channels :: "nat \<Rightarrow> nat \<Rightarrow> nat \<Rightarrow> 'd ds_ppu \<Rightarrow> 'd ds_ppu res" where
  "update_input_channels n i k = with_af i k (\<lambda>a f s. if a_done_in a = 0 then Inr s
     else let iters = (a_done_in a - 1) * df_group_iters f + (if a_groups_left a = 0 then a_last_iters a else df_group_iters f) in
       rbind (put_af i k (a\<lparr>a_done_in := 0\<rparr>) s) (\<lambda>s.
       if df_data_parallel f then update_dp_input n (a_f a) (a_instance a) iters (a_groups_left a = 0) s
       else free_inputs n f iters s))"

text \<open>
  How many iterations of output to report: \<open>None\<close> when all of it may still be in the SPU's buffers.
  The second component is what stays unreported.
\<close>

definition reported_output :: "active \<Rightarrow> ds_filter \<Rightarrow> bool \<Rightarrow> u32 option \<times> u32 \<times> u32" where
  "reported_output a f buffered =
     (if a_done_out a = 0
      then (if buffered \<or> a_out_buffered a = 0 then (None, a_out_buffered a, 0) else (Some (a_out_buffered a), 0, 0))
      else let iters = a_out_buffered a + (a_done_out a - 1) * df_group_iters f +
          (if a_groups_left a = - 2 then a_last_iters a else df_group_iters f) in
        if buffered
        then (if iters \<le> df_out_buffered f then (None, iters, 0) else (Some (iters - df_out_buffered f), df_out_buffered f, 0))
        else (Some iters, 0, 0))"

definition update_output_channels :: "nat \<Rightarrow> nat \<Rightarrow> nat \<Rightarrow> bool \<Rightarrow> 'd ds_ppu \<Rightarrow> 'd ds_ppu res" where
  "update_output_channels n i k buffered = with_af i k (\<lambda>a f s. let done = (a_groups_left a = - 2) in
     ensure CheckFail (\<not> done \<or> \<not> buffered)
     (case reported_output a f buffered of (r, left, done_out) \<Rightarrow>
       rbind (put_af i k (a\<lparr>a_out_buffered := left, a_done_out := done_out\<rparr>) s) (\<lambda>s.
       case r of None \<Rightarrow> Inr s
       | Some iters \<Rightarrow> rbind (finish_heads i k s) (\<lambda>s.
           if df_data_parallel f then update_dp_output n (a_f a) (a_instance a) iters done s
           else fill_outputs n f iters s))))"

section \<open>Instances that finish out of order\<close>

text \<open>The finished instances after and before this one give it their iterations.\<close>

fun merge_next :: "nat \<Rightarrow> nat option \<Rightarrow> u32 \<Rightarrow> u32 \<Rightarrow> 'd ds_ppu \<Rightarrow> (nat option \<times> u32 \<times> u32 \<times> 'd ds_ppu) res" where
  "merge_next 0 p ins outs s = Inl OutOfFuel"
| "merge_next (Suc m) p ins outs s = (case p of None \<Rightarrow> Inr (None, ins, outs, s)
     | Some q \<Rightarrow> rbind (get_dp q s) (\<lambda>x. if \<not> dp_done x then Inr (p, ins, outs, s)
         else rbind (free_dp_instance q s) (merge_next m (dp_next x) (ins + dp_in x) (outs + dp_out x))))"

fun merge_prev :: "nat \<Rightarrow> nat option \<Rightarrow> u32 \<Rightarrow> u32 \<Rightarrow> 'd ds_ppu \<Rightarrow> (nat option \<times> u32 \<times> u32 \<times> 'd ds_ppu) res" where
  "merge_prev 0 p ins outs s = Inl OutOfFuel"
| "merge_prev (Suc m) p ins outs s = rbind (deref p) (\<lambda>q. rbind (get_dp q s) (\<lambda>x. if \<not> dp_done x then Inr (p, ins, outs, s)
     else rbind (free_dp_instance q s) (merge_prev m (dp_prev x) (ins + dp_in x) (outs + dp_out x))))"

definition join_next :: "nat \<Rightarrow> nat \<Rightarrow> u32 \<Rightarrow> u32 \<Rightarrow> 'd ds_ppu \<Rightarrow> (nat option \<times> u32 \<times> u32 \<times> 'd ds_ppu) res" where
  "join_next fa p ins outs s = rbind (get_dp p s) (\<lambda>x. if dp_next x = None then Inr (None, ins, outs, s)
     else rbind (merge_next (Suc (length (ds_dp (client s)))) (dp_next x) ins outs s) (\<lambda>(nx, ins, outs, s).
       rbind (upd_dp p (\<lambda>x. x\<lparr>dp_next := nx\<rparr>) s) (\<lambda>s. case nx of
           None \<Rightarrow> rbind (upd_flt fa (\<lambda>f. f\<lparr>df_last := Some p\<rparr>) s) (\<lambda>s. Inr (None, ins, outs, s))
         | Some q \<Rightarrow> rbind (upd_dp q (\<lambda>y. y\<lparr>dp_prev := Some p\<rparr>) s) (\<lambda>s. rbind (get_dp q s) (\<lambda>y.
             rbind (upd_dp q (\<lambda>y. y\<lparr>dp_in := 0, dp_out := 0\<rparr>) s) (\<lambda>s. Inr (nx, ins + dp_in y, outs + dp_out y, s)))))))"

definition join_prev :: "nat \<Rightarrow> u32 \<Rightarrow> u32 \<Rightarrow> 'd ds_ppu \<Rightarrow> 'd ds_ppu res" where
  "join_prev p ins outs s = rbind (get_dp p s) (\<lambda>x. rbind (deref (dp_prev x)) (\<lambda>q. rbind (get_dp q s) (\<lambda>y.
     rbind (if \<not> dp_done y then Inr (ins, outs, s)
       else rbind (merge_prev (Suc (length (ds_dp (client s)))) (Some q) ins outs s) (\<lambda>(pr, ins, outs, s).
         rbind (upd_dp p (\<lambda>x. x\<lparr>dp_prev := pr\<rparr>) s) (\<lambda>s. rbind (deref pr) (\<lambda>q. rbind (upd_dp q (\<lambda>y. y\<lparr>dp_next := Some p\<rparr>) s) (\<lambda>s.
           Inr (ins, outs, s)))))) (\<lambda>(ins, outs, s).
     upd_dp p (\<lambda>x. x\<lparr>dp_in := ins, dp_out := outs, dp_done := True\<rparr>) s))))"

definition done_dp_instance :: "nat \<Rightarrow> nat \<Rightarrow> nat \<Rightarrow> 'd ds_ppu \<Rightarrow> 'd ds_ppu res" where
  "done_dp_instance n fa p s = rbind (get_dp p s) (\<lambda>x. ensure CheckFail (dp_in x \<noteq> 0 \<and> dp_out x \<noteq> 0)
     (rbind (join_next fa p (dp_in x) (dp_out x) s) (\<lambda>(nx, ins, outs, s). rbind (get_flt fa s) (\<lambda>f.
      if df_instances f = Some p
      then rbind (free_inputs n f ins s) (\<lambda>s. rbind (fill_outputs n f outs s) (\<lambda>s.
        rbind (upd_flt fa (\<lambda>f. f\<lparr>df_instances := nx\<rparr>) s) (\<lambda>s.
        rbind (case nx of None \<Rightarrow> upd_flt fa (\<lambda>f. f\<lparr>df_last := None\<rparr>) s
          | Some q \<Rightarrow> upd_dp q (\<lambda>y. y\<lparr>dp_prev := None\<rparr>) s) (free_dp_instance p))))
      else rbind (deref (df_instances f)) (\<lambda>h. rbind (get_dp h s) (\<lambda>y. ensure CheckFail (\<not> dp_done y)
        (join_prev p ins outs s)))))))"

section \<open>More iterations\<close>

definition extend_run :: "nat \<Rightarrow> nat \<Rightarrow> u32 \<Rightarrow> 'd ds_ppu \<Rightarrow> 'd ds_ppu res" where
  "extend_run i k iters = with_af i k (\<lambda>a f s.
     rbind (if a_last_iters a = df_group_iters f
       then (if df_data_parallel f then rbind (get_dp (a_instance a) s) (\<lambda>x. Inr (dp_next x = None)) else Inr True)
       else Inr False) (\<lambda>ok.
     ensure CheckFail ok (ensure CheckFail (df_avail f \<ge> iters)
     (rbind (udiv_res (iters - 1) (df_group_iters f)) (\<lambda>q.
      rbind (upd_flt (a_f a) (take_iters iters) s) (\<lambda>s.
      rbind (put_af i k (a\<lparr>a_groups_left := a_groups_left a + (q + 1), a_last_iters := (iters - 1) mod df_group_iters f + 1\<rparr>) s) (\<lambda>s.
      rbind (rfold (\<lambda>j s. rbind (index_res (df_inputs f) j) (\<lambda>x. rbind (get_ch x s) (\<lambda>c. let n = iters * ch_pop c in
        rbind (safe_dec (ch_used c) n) (\<lambda>u. let s = put_ch x (c\<lparr>ch_used := u\<rparr>) s in
        if df_data_parallel f
        then rbind (upd_buf (ch_buf c) (buf_inc_head n) s) (\<lambda>s. rbind (get_pbuf (ch_buf c) s) (\<lambda>b.
          rbind (index_res (a_inputs a) j) (\<lambda>t. upd_buf (at_instance t) (buf_set_tail (b_tail b)) s)))
        else Inr s)))) [0..<n_inputs f] s)
      (rfold (\<lambda>j s. rbind (index_res (df_outputs f) j) (\<lambda>x. rbind (get_ch x s) (\<lambda>c. let n = iters * ch_push c in
        rbind (safe_dec (ch_free c) n) (\<lambda>u. let s = put_ch x (c\<lparr>ch_free := u\<rparr>) s in
        if df_data_parallel f
        then rbind (upd_buf (ch_buf c) (buf_inc_tail n) s) (\<lambda>s. rbind (get_pbuf (ch_buf c) s) (\<lambda>b.
          rbind (index_res (a_outputs a) j) (\<lambda>t. upd_buf (at_instance t) (buf_set_head (b_head b)) s)))
        else Inr s)))) [0..<n_outputs f]))))))))"

section \<open>One phase\<close>

text \<open>
  What a phase does once its commands have completed: stop, look again, or the filter is done.
\<close>

datatype phase_end = Stop | Again | Filter_Done

definition phase_alloc :: "group_mem \<Rightarrow> nat \<Rightarrow> nat \<Rightarrow> bool \<Rightarrow> 'd ds_ppu \<Rightarrow> (phase_end \<times> 'd ds_ppu) res" where
  "phase_alloc gm i k current = with_af i k (\<lambda>a f s. rbind (get_sp i s) (\<lambda>u.
     if \<not> current \<and> \<not> sp_run_issued u then rbind (put_af i k (a\<lparr>a_waiting := 0\<rparr>) s) (\<lambda>s. Inr (Stop, s))
     else rbind (if current then Inr s
       else rbind (af_stub a 1 (on_cmd 0 (set_deps [sp_run_id u])) s) (upd_sp i (\<lambda>u. u\<lparr>sp_run_issued := False\<rparr>))) (\<lambda>s.
     rbind (start_input i k True s) (\<lambda>s. rbind (ds_issue_group a 1 s) (\<lambda>s. rbind (get_load_mask a f) (\<lambda>m.
     rbind (mod_af i k (\<lambda>a. a\<lparr>a_phase := DS_LOAD, a_waiting := m\<rparr>) s) (\<lambda>s. Inr (Again, s))))))))"

definition phase_load :: "group_mem \<Rightarrow> nat \<Rightarrow> nat \<Rightarrow> 'd ds_ppu \<Rightarrow> 'd ds_ppu res" where
  "phase_load gm i k = with_af i k (\<lambda>a f s. rbind (setup_init_b gm a f s) (\<lambda>s. rbind (ds_issue_group a 0 s) (\<lambda>s.
     rbind (get_init_a_mask a f) (\<lambda>m. put_af i k (a\<lparr>a_phase := DS_INIT_A, a_waiting := m\<rparr>) s))))"

definition ds_phase_init_a :: "group_mem \<Rightarrow> nat \<Rightarrow> nat \<Rightarrow> 'd ds_ppu \<Rightarrow> 'd ds_ppu res" where
  "ds_phase_init_a gm i k s = rbind (mod_af i k (\<lambda>a. a\<lparr>a_done_in := a_done_in a + 1\<rparr>) s) (\<lambda>s. rbind (get_af i k s) (\<lambda>a.
     rbind (start_output i k (a_groups_left a - 2) s) (with_af i k (\<lambda>a f s.
     rbind (if a_groups_left a = 1
       then rbind (setup_cleanup_b gm a f 1 s) (\<lambda>s. rbind (get_short_cleanup_mask a f) (\<lambda>m.
         put_af i k (a\<lparr>a_phase := DS_CLEANUP_B, a_waiting := m\<rparr>) s))
       else rbind (if a_groups_left a = 2 then setup_cleanup_a gm a f 1 s else setup_steady gm a f 1 s) (\<lambda>s.
         rbind (get_init_b_mask a f) (\<lambda>m. put_af i k (a\<lparr>a_phase := DS_INIT_B, a_waiting := m\<rparr>) s)))
     (ds_issue_group a 1)))))"

definition ds_phase_init_b :: "group_mem \<Rightarrow> nat \<Rightarrow> nat \<Rightarrow> 'd ds_ppu \<Rightarrow> 'd ds_ppu res" where
  "ds_phase_init_b gm i k = with_af i k (\<lambda>a f s. rbind (if a_groups_left a \<noteq> 2 then setup_steady gm a f 0 s else Inr s) (\<lambda>s.
     rbind (get_steady_0_mask a f) (\<lambda>m. rbind (shl m (group_cmds a)) (\<lambda>m'.
       put_af i k (a\<lparr>a_cur_group := 0, a_groups_left := a_groups_left a - 1, a_in_left := a_in_left a - 1,
         a_out_left := a_out_left a + 1, a_done_out := a_done_out a - 1, a_phase := DS_STEADY, a_waiting := m, a_cmd_mask := m OR m'\<rparr>) s))))"

text \<open>Near the end of its run the current filter reports, and the SPU's next work is chosen.\<close>

definition near_end :: "group_mem \<Rightarrow> nat \<Rightarrow> nat \<Rightarrow> nat \<Rightarrow> bool \<Rightarrow> 'd ds_ppu \<Rightarrow> 'd ds_ppu res" where
  "near_end gm n i k current = with_af i k (\<lambda>a f s.
     if current \<and> \<not> a_updated a \<and> (a_groups_left a = 2 \<or> a_groups_left a = 1)
     then rbind (update_input_channels n i k s) (\<lambda>s. rbind (update_output_channels n i k True s) (\<lambda>s.
       rbind (mod_af i k (\<lambda>a. a\<lparr>a_updated := True\<rparr>) s) (\<lambda>s. rbind (get_sp i s) (\<lambda>u.
       if \<not> df_exclusive f \<and> sp_next u = None
       then rbind (get_af i k s) (\<lambda>a.
         rbind (schedule_spu_next gm i (if a_last_iters a = df_group_iters f then Some (a_f a) else None) (a_instance a) s) (\<lambda>(more, s).
         if more \<noteq> 0
         then rbind (get_sp i s) (\<lambda>u. ensure CheckFail (sp_next u = None)
           (rbind (extend_run i k more s) (mod_af i k (\<lambda>a. a\<lparr>a_updated := False\<rparr>))))
         else Inr s))
       else Inr s))))
     else Inr s)"

definition steady_transfers :: "nat \<Rightarrow> nat \<Rightarrow> 'd ds_ppu \<Rightarrow> 'd ds_ppu res" where
  "steady_transfers i k s = rbind (mod_af i k (\<lambda>a. a\<lparr>a_in_left := a_in_left a - 1\<rparr>) s) (\<lambda>s. rbind (get_af i k s) (\<lambda>a.
     rbind (if a_in_left a = 0 \<and> a_groups_left a \<noteq> 0 then start_input i k False s else Inr s) (\<lambda>s.
     rbind (mod_af i k (\<lambda>a. a\<lparr>a_out_left := a_out_left a - 1\<rparr>) s) (\<lambda>s. rbind (get_af i k s) (\<lambda>a.
     if a_out_left a = 0 then rbind (finish_output i k s) (start_output i k (a_groups_left a)) else Inr s)))))"

definition ds_steady_group :: "group_mem \<Rightarrow> nat \<Rightarrow> nat \<Rightarrow> bool \<Rightarrow> 'd ds_ppu \<Rightarrow> 'd ds_ppu res" where
  "ds_steady_group gm i k current = with_af i k (\<lambda>a f s.
     if a_groups_left a = 2 then (if a_last_iters a \<noteq> df_group_iters f then adjust_input a f (a_cur_group a) s else Inr s)
     else if a_groups_left a = 1 then rbind (setup_cleanup_a gm a f (a_cur_group a) s) (\<lambda>s. rbind (get_sp i s) (\<lambda>u.
       if current \<and> sp_next u \<noteq> None
       then upd_sp i (\<lambda>u. u\<lparr>sp_run_id := id_start a + a_cur_group a * group_cmds a, sp_run_issued := True\<rparr>) s else Inr s))
     else if a_groups_left a = 0 then rbind (setup_cleanup_b gm a f (a_cur_group a) s) (\<lambda>s.
       rbind (get_cleanup_a_mask a f (a_cur_group a XOR 1)) (\<lambda>m. rbind (get_cleanup_b_mask a f (a_cur_group a)) (\<lambda>mb.
       rbind (if a_out_left a = 2 then put_af i k (a\<lparr>a_phase := DS_CLEANUP_B, a_waiting := m OR mb\<rparr>) s
         else ensure CheckFail (a_out_left a = 1) (put_af i k (a\<lparr>a_phase := DS_CLEANUP_A, a_waiting := m\<rparr>) s))
       (mod_af i k (\<lambda>a. a\<lparr>a_done_out := a_done_out a + 1\<rparr>)))))
     else Inr s)"

definition ds_phase_steady :: "group_mem \<Rightarrow> nat \<Rightarrow> nat \<Rightarrow> nat \<Rightarrow> bool \<Rightarrow> 'd ds_ppu \<Rightarrow> 'd ds_ppu res" where
  "ds_phase_steady gm n i k current s =
     rbind (mod_af i k (\<lambda>a. a\<lparr>a_groups_left := a_groups_left a - 1, a_done_in := a_done_in a + 1, a_done_out := a_done_out a + 1\<rparr>) s) (\<lambda>s.
     rbind (near_end gm n i k current s) (\<lambda>s.
     rbind (steady_transfers i k s) (\<lambda>s.
     rbind (mod_af i k (\<lambda>a. a\<lparr>a_waiting := a_waiting a XOR a_cmd_mask a\<rparr>) s) (\<lambda>s.
     rbind (ds_steady_group gm i k current s) (\<lambda>s. rbind (get_af i k s) (\<lambda>a.
     rbind (ds_issue_group a (a_cur_group a) s) (mod_af i k (\<lambda>a. a\<lparr>a_cur_group := a_cur_group a XOR 1\<rparr>))))))))"

definition phase_cleanup_a :: "nat \<Rightarrow> nat \<Rightarrow> 'd ds_ppu \<Rightarrow> 'd ds_ppu res" where
  "phase_cleanup_a i k = with_af i k (\<lambda>a f s. ensure CheckFail (a_groups_left a = 0)
     (rbind (finish_output i k s) (\<lambda>s. rbind (start_output i k (- 1) s) (\<lambda>s. rbind (get_cleanup_b_mask a f (a_cur_group a XOR 1)) (\<lambda>m.
       mod_af i k (\<lambda>a. a\<lparr>a_phase := DS_CLEANUP_B, a_waiting := m\<rparr>) s)))))"

definition phase_cleanup_b :: "nat \<Rightarrow> nat \<Rightarrow> nat \<Rightarrow> 'd ds_ppu \<Rightarrow> 'd ds_ppu res" where
  "phase_cleanup_b n i k s = rbind (finish_output i k s) (\<lambda>s.
     rbind (mod_af i k (\<lambda>a. a\<lparr>a_done_out := a_done_out a + 1, a_groups_left := 0\<rparr>) s) (\<lambda>s.
     rbind (update_input_channels n i k s) (\<lambda>s. rbind (mod_af i k (\<lambda>a. a\<lparr>a_groups_left := - 2\<rparr>) s)
       (update_output_channels n i k False))))"

definition run_phase :: "group_mem \<Rightarrow> nat \<Rightarrow> nat \<Rightarrow> nat \<Rightarrow> bool \<Rightarrow> 'd ds_ppu \<Rightarrow> (phase_end \<times> 'd ds_ppu) res" where
  "run_phase gm n i k current s = rbind (get_af i k s) (\<lambda>a. let again = (\<lambda>r. rbind r (\<lambda>s. Inr (Again, s))) in
     if a_phase a = DS_WAITING then (if \<not> current then Inr (Stop, s) else again (start_filter gm i k s))
     else if a_phase a = DS_ALLOC then phase_alloc gm i k current s
     else if a_phase a = DS_LOAD then again (phase_load gm i k s)
     else if a_phase a = DS_INIT_A then again (ds_phase_init_a gm i k s)
     else if a_phase a = DS_INIT_B then again (rbind (ds_phase_init_b gm i k s) (ds_phase_steady gm n i k current))
     else if a_phase a = DS_STEADY then again (ds_phase_steady gm n i k current s)
     else if a_phase a = DS_CLEANUP_A then again (phase_cleanup_a i k s)
     else if a_phase a = DS_CLEANUP_B then rbind (phase_cleanup_b n i k s) (\<lambda>s. Inr (Filter_Done, s))
     else Inl Unreached)"

section \<open>Completions\<close>

text \<open>\<open>done_filter\<close> up to the promotion of the next filter.\<close>

definition retire :: "nat \<Rightarrow> nat \<Rightarrow> nat \<Rightarrow> 'd ds_ppu \<Rightarrow> 'd ds_ppu res" where
  "retire n i k = with_af i k (\<lambda>a f s.
     rbind (if df_data_parallel f then done_dp_instance n (a_f a) (a_instance a) s
       else rfold (\<lambda>j s. rbind (index_res (df_inputs f) j) (\<lambda>x. rbind (get_ch x s) (\<lambda>c.
         upd_buf (ch_buf c) (buf_inc_head (- ch_peek_extra c)) s))) [0..<n_inputs f] s) (\<lambda>s.
     rbind (upd_flt (a_f a) (\<lambda>f. f\<lparr>df_active := df_active f - 1\<rparr>) s) (\<lambda>s. rbind (get_flt (a_f a) s) (\<lambda>f.
       if df_active f = 0 then update_filter_done n (a_f a) s else Inr s))))"

definition reuse_slots :: "ds_spu \<Rightarrow> ds_spu" where
  "reuse_slots u = u\<lparr>sp_next := None, sp_next_filt := sp_next_filt u XOR 1, sp_buf_slot := next_buf_slot (sp_buf_slot u),
     sp_filt_slot := sp_filt_slot u XOR 1, sp_cmd_slot := sp_cmd_slot u XOR 1, sp_id_slot := sp_id_slot u XOR 1,
     sp_group_slot := sp_group_slot u XOR 1\<rparr>"

definition spu_is_free :: "group_mem \<Rightarrow> nat \<Rightarrow> 'd ds_ppu \<Rightarrow> 'd ds_ppu res" where
  "spu_is_free gm i s = (let free = ds_num_free (client s); s = upd_client (\<lambda>x. x\<lparr>ds_num_free := free + 1\<rparr>) s in
     if free = 0 then schedule_free_spu gm i None s else schedule_all_free_spu gm None s)"

fun ds_handle_complete :: "group_mem \<Rightarrow> nat \<Rightarrow> nat \<Rightarrow> nat \<Rightarrow> nat \<Rightarrow> bool \<Rightarrow> 'd ds_ppu \<Rightarrow> 'd ds_ppu res" where
  "ds_handle_complete gm n 0 i k current s = Inl OutOfFuel"
| "ds_handle_complete gm n (Suc m) i k current s = rbind (get_af i k s) (\<lambda>a. rbind (spu_get_completed (a_spu_id a) s) (\<lambda>c.
     if c AND a_waiting a = a_waiting a
     then rbind (spu_ack_completed (a_spu_id a) (a_waiting a) s) (\<lambda>s. rbind (run_phase gm n i k current s) (\<lambda>(r, s). case r of
         Stop \<Rightarrow> Inr s
       | Again \<Rightarrow> ds_handle_complete gm n m i k current s
       | Filter_Done \<Rightarrow> rbind (retire n i k s) (\<lambda>s.
           if current
           then rbind (upd_sp i (\<lambda>u. u\<lparr>sp_current := sp_next u, sp_next := None, sp_run_issued := False\<rparr>) s) (\<lambda>s. rbind (get_sp i s) (\<lambda>u.
             case sp_current u of
               Some k' \<Rightarrow> ds_handle_complete gm n m i k' True s
             | None \<Rightarrow> spu_is_free gm i s))
           else rbind (upd_sp i reuse_slots s) (\<lambda>s. rbind (schedule_spu_next gm i None 0 s) (\<lambda>(_, s). Inr s)))))
     else rbind (get_sp i s) (\<lambda>u. if \<not> current then Inr s else (case sp_next u of
         None \<Rightarrow> Inr s
       | Some k' \<Rightarrow> ds_handle_complete gm n m i k' False s))))"

definition spu_cb :: "group_mem \<Rightarrow> nat \<Rightarrow> nat \<Rightarrow> nat \<Rightarrow> 'd ds_ppu \<Rightarrow> 'd ds_ppu res" where
  "spu_cb gm n m i s = rbind (get_sp i s) (\<lambda>u. case sp_current u of None \<Rightarrow> Inl CheckFail
     | Some k \<Rightarrow> ds_handle_complete gm n m i k True s)"

end
