(* ===== verification/Ds_View.thy ===== *)
theory Ds_View
  imports Ds_Run
begin

text \<open>
  What the dynamic scheduler keeps fixed while it handles completions (\<open>library/cell/ds/dsrun.c\<close>,
  \<open>dssched.c\<close>): the stream graph, and which filter has which slots of which SPU.  The lemmas follow the
  code, a function at a time, in the style of weakest preconditions: \<open>vr r Q\<close> says that \<open>r\<close> is a fault or
  has a value for which \<open>Q\<close> holds.
\<close>

section \<open>Results that are right\<close>

definition vr :: "'a res \<Rightarrow> ('a \<Rightarrow> bool) \<Rightarrow> bool" where
  "vr r Q \<longleftrightarrow> (\<forall>x. r = Inr x \<longrightarrow> Q x)"

named_theorems vr "results of the functions of the scheduler"

lemma vr_simps [simp]:
  "vr (Inr x) Q \<longleftrightarrow> Q x" "vr (Inl e) Q" "vr (rbind r f) Q \<longleftrightarrow> vr r (\<lambda>y. vr (f y) Q)" "vr (ensure e c m) Q \<longleftrightarrow> (c \<longrightarrow> vr m Q)"
  "vr (if c then m else m') Q \<longleftrightarrow> (c \<longrightarrow> vr m Q) \<and> (\<not> c \<longrightarrow> vr m' Q)" "vr (deref p) R \<longleftrightarrow> (\<forall>z. p = Some z \<longrightarrow> R z)"
  by (auto simp: vr_def rbind_def ensure_def deref_def split: sum.splits option.splits)

lemma vr_mono: "vr m P \<Longrightarrow> (\<And>x. P x \<Longrightarrow> Q x) \<Longrightarrow> vr m Q"
  by (auto simp: vr_def)

lemma vr_any: "(\<And>x. Q x) \<Longrightarrow> vr m Q"
  by (simp add: vr_def)

lemma vr_pairs: "vr m P \<Longrightarrow> (\<And>x y. P (x, y) \<Longrightarrow> Q (x, y)) \<Longrightarrow> vr m Q"
  by (auto simp: vr_def)

lemma vr_index [vr]: "(i < length xs \<Longrightarrow> Q (xs ! i)) \<Longrightarrow> vr (index_res xs i) Q"
  by (simp add: vr_def index_res_def)

lemma vr_rfold: "P s \<Longrightarrow> (\<And>x s. P s \<Longrightarrow> vr (f x s) P) \<Longrightarrow> vr (rfold f xs s) P"
proof (induction xs arbitrary: s)
  case (Cons x xs)
  have "vr (f x s) (\<lambda>y. vr (rfold f xs y) P)" by (rule vr_mono [OF Cons.prems(2) [OF Cons.prems(1)]]) (rule Cons.IH [OF _ Cons.prems(2)])
  then show ?case by simp
qed simp

section \<open>The view\<close>

definition flt_view :: "ds_filter \<Rightarrow> (nat list \<times> nat list \<times> filter_desc) \<times> bool \<times> bool \<times> u32" where
  "flt_view f = (df_static f, df_exclusive f, df_data_parallel f, df_group_iters f)"

definition af_view :: "active \<Rightarrow> nat \<times> nat \<times> u32 \<times> u32 \<times> u32 \<times> nat" where
  "af_view a = (a_spu_id a, a_f a, a_filt_cb a, a_cmd_data a, a_cmd_id a, a_cmd_group a)"

record sp_view =
  v_current :: "nat option"
  v_next :: "nat option"
  v_next_filt :: nat
  v_start :: "u32 \<times> u32"
  v_slots :: "u32 \<times> u32 \<times> u32 \<times> nat"
  v_filters :: "(nat \<times> nat \<times> u32 \<times> u32 \<times> u32 \<times> nat) list"

definition sp_view_of :: "ds_spu \<Rightarrow> sp_view" where
  "sp_view_of u = \<lparr>v_current = sp_current u, v_next = sp_next u, v_next_filt = sp_next_filt u, v_start = (sp_filter_start u, sp_cmd_start u),
     v_slots = (sp_filt_slot u, sp_cmd_slot u, sp_id_slot u, sp_group_slot u), v_filters = map af_view (sp_filters u)\<rparr>"

record ds_view =
  v_graph :: "(nat option \<times> nat option \<times> u32 \<times> u32 \<times> u32 \<times> nat option \<times> u32 \<times> nat option \<times> nat) list"
  v_flts :: "((nat list \<times> nat list \<times> filter_desc) \<times> bool \<times> bool \<times> u32) list"
  v_spus :: "sp_view list"
  v_num_spu :: nat

definition view :: "('d, ds_state) ppu \<Rightarrow> ds_view" where
  "view s = (let x = client s in \<lparr>v_graph = map ch_static (ds_channels x), v_flts = map flt_view (ds_filters x),
     v_spus = map sp_view_of (ds_spus x), v_num_spu = ds_num_spu x\<rparr>)"

lemma view_client: "client s = client t \<Longrightarrow> view s = view t"
  by (simp add: view_def)

lemma ch_static_upd [simp]:
  "ch_static (c\<lparr>ch_used := u\<rparr>) = ch_static c" "ch_static (c\<lparr>ch_free := u\<rparr>) = ch_static c" "ch_static (c\<lparr>ch_waiting := u\<rparr>) = ch_static c"
  by (simp_all add: ch_static_def)

lemma flt_view_upd [simp]:
  "flt_view (f\<lparr>df_incomplete := n\<rparr>) = flt_view f" "flt_view (f\<lparr>df_active := n\<rparr>) = flt_view f" "flt_view (f\<lparr>df_instances := p\<rparr>) = flt_view f"
  "flt_view (f\<lparr>df_last := p\<rparr>) = flt_view f" "flt_view (set_in_avail n f) = flt_view f" "flt_view (set_out_avail n f) = flt_view f"
  "flt_view (take_iters n f) = flt_view f"
  by (simp_all add: flt_view_def df_static_def set_in_avail_def set_out_avail_def take_iters_def)

lemma same_entry: "i < length xs \<Longrightarrow> f x = f (xs ! i) \<Longrightarrow> map f (xs[i := x]) = map f xs"
  by (metis list_update_id map_update)

lemma view_put_bufs [simp]:
  "view (put_pbuf p b s) = view s" "view (put_spu i u s) = view s" "view (s\<lparr>back_dtcb := d\<rparr>) = view s" "view (s\<lparr>front_dtcb := d\<rparr>) = view s"
  "view (s\<lparr>pmem := m\<rparr>) = view s"
  "view (upd_client (\<lambda>x. x\<lparr>ds_incomplete := g x\<rparr>) s) = view s" "view (upd_client (\<lambda>x. x\<lparr>ds_num_free := g x\<rparr>) s) = view s"
  "view (upd_client (\<lambda>x. x\<lparr>ds_dp := g' x\<rparr>) s) = view s" "view (upd_client (\<lambda>x. x\<lparr>ds_next_dp := p'\<rparr>) s) = view s"
  by (simp_all add: view_def put_pbuf_def put_spu_def upd_client_def Let_def)

section \<open>Reading and writing\<close>

definition ch_is :: "nat \<Rightarrow> channel \<Rightarrow> ds_view \<Rightarrow> bool" where
  "ch_is a c w \<longleftrightarrow> a < length (v_graph w) \<and> v_graph w ! a = ch_static c"

definition flt_is :: "nat \<Rightarrow> ds_filter \<Rightarrow> ds_view \<Rightarrow> bool" where
  "flt_is a f w \<longleftrightarrow> a < length (v_flts w) \<and> v_flts w ! a = flt_view f"

definition sp_is :: "nat \<Rightarrow> ds_spu \<Rightarrow> ds_view \<Rightarrow> bool" where
  "sp_is i u w \<longleftrightarrow> i < length (v_spus w) \<and> v_spus w ! i = sp_view_of u"

definition af_is :: "nat \<Rightarrow> nat \<Rightarrow> active \<Rightarrow> ds_view \<Rightarrow> bool" where
  "af_is i k a w \<longleftrightarrow> i < length (v_spus w) \<and> k < length (v_filters (v_spus w ! i)) \<and> v_filters (v_spus w ! i) ! k = af_view a"

lemma vr_get_ch [vr]: "(\<And>c. ch_is a c (view s) \<Longrightarrow> Q c) \<Longrightarrow> vr (get_ch a s) Q"
  by (auto simp: get_ch_def vr_def res_simps ch_is_def view_def Let_def)

lemma vr_get_flt [vr]: "(\<And>f. flt_is a f (view s) \<Longrightarrow> Q f) \<Longrightarrow> vr (get_flt a s) Q"
  by (auto simp: get_flt_def vr_def res_simps flt_is_def view_def Let_def)

lemma vr_get_sp [vr]: "(\<And>u. sp_is i u (view s) \<Longrightarrow> Q u) \<Longrightarrow> vr (get_sp i s) Q"
  by (auto simp: get_sp_def vr_def res_simps sp_is_def view_def Let_def)

lemma vr_get_af [vr]: "(\<And>a. af_is i k a (view s) \<Longrightarrow> Q a) \<Longrightarrow> vr (get_af i k s) Q"
  by (auto simp: get_af_def get_sp_def vr_def res_simps af_is_def view_def Let_def sp_view_of_def)

lemma view_put_ch [simp]: "ch_is a c (view s) \<Longrightarrow> view (put_ch a c s) = view s"
  by (auto simp: view_def put_ch_def upd_client_def Let_def ch_is_def intro!: same_entry)

lemma view_put_flt [simp]: "flt_is a f (view s) \<Longrightarrow> view (put_flt a f s) = view s"
  by (auto simp: view_def put_flt_def upd_client_def Let_def flt_is_def intro!: same_entry)

lemma view_put_sp [simp]: "sp_is i u (view s) \<Longrightarrow> view (put_sp i u s) = view s"
  by (auto simp: view_def put_sp_def upd_client_def Let_def sp_is_def intro!: same_entry)

text \<open>A lemma that a function keeps the view is used for whatever comes after it.\<close>

lemma vr_fold [vr]:
  assumes "\<And>x s'. view s' = view s \<Longrightarrow> vr (f x s') (\<lambda>t. view t = view s)" "\<And>s'. view s' = view s \<Longrightarrow> Q s'"
  shows "vr (rfold f xs s) Q"
  by (rule vr_mono [OF vr_rfold [where P = "\<lambda>t. view t = view s"] assms(2)]) (simp_all add: assms(1))

lemma vr_fold_pair [vr]:
  assumes "\<And>x y s'. view s' = view s \<Longrightarrow> vr (f x (y, s')) (\<lambda>t. view (snd t) = view s)" "\<And>y s'. view s' = view s \<Longrightarrow> Q (y, s')"
  shows "vr (rfold f xs (y0, s)) Q"
proof (rule vr_mono)
  show "vr (rfold f xs (y0, s)) (\<lambda>t. view (snd t) = view s)" by (rule vr_rfold) (use assms(1) in auto)
  show "Q x" if "view (snd x) = view s" for x using assms(2) [OF that, of "fst x"] by simp
qed

lemma is_upd [simp]:
  "ch_is a (c\<lparr>ch_used := n\<rparr>) w = ch_is a c w" "ch_is a (c\<lparr>ch_free := n\<rparr>) w = ch_is a c w" "ch_is a (c\<lparr>ch_waiting := n\<rparr>) w = ch_is a c w"
  "flt_is b (f\<lparr>df_incomplete := n\<rparr>) w = flt_is b f w" "flt_is b (f\<lparr>df_active := n\<rparr>) w = flt_is b f w"
  "flt_is b (f\<lparr>df_instances := p\<rparr>) w = flt_is b f w" "flt_is b (f\<lparr>df_last := p\<rparr>) w = flt_is b f w"
  "flt_is b (set_in_avail n f) w = flt_is b f w" "flt_is b (set_out_avail n f) w = flt_is b f w" "flt_is b (take_iters n f) w = flt_is b f w"
  by (simp_all add: ch_is_def flt_is_def)


section \<open>The PPU library\<close>

lemma on_group_view [THEN vr_mono, vr]: "vr (on_group i gid f s) (\<lambda>t. view t = view s)"
  by (auto simp: vr_def on_group_def res_simps)

lemma spu_new_group_view [THEN vr_mono, vr]: "vr (spu_new_group i gid s) (\<lambda>t. view t = view s)"
  by (auto simp: spu_new_group_def intro!: vr)

lemma spu_issue_group_view [THEN vr_mono, vr]: "vr (spu_issue_group i gid da s) (\<lambda>t. view t = view s)"
  by (auto simp: vr_def spu_issue_group_def res_simps)

lemma spu_ack_completed_view [THEN vr_mono, vr]: "vr (spu_ack_completed i ids s) (\<lambda>t. view t = view s)"
  by (auto simp: vr_def spu_ack_completed_def res_simps)

lemma on_data_view [THEN vr_mono, vr]: "vr (on_data a f s) (\<lambda>t. view t = view s)"
  by (auto simp: vr_def on_data_def res_simps)

lemma dtcb_view [THEN vr_mono, vr]: "vr (write_back_dtcb i da v s) (\<lambda>t. view t = view s)" "vr (write_front_dtcb i da v s) (\<lambda>t. view t = view s)"
  by (auto simp: vr_def write_back_dtcb_def write_front_dtcb_def res_simps)

lemma vr_values [vr]:
  "(\<And>x. R x) \<Longrightarrow> vr (get_pbuf p s) R" "(\<And>x. R' x) \<Longrightarrow> vr (vec_lvlx n m) R'" "(\<And>x. R' x) \<Longrightarrow> vr (vec_lvrx n m) R'"
  "(\<And>x. S x) \<Longrightarrow> vr (spu_get_group i gid s) S" "(\<And>x. U x) \<Longrightarrow> vr (get_dp d s') U" "(\<And>x. V x) \<Longrightarrow> vr (spu_get_completed i s) V"
  by (simp_all add: vr_def)

lemma upd_buf_view [THEN vr_mono, vr]: "vr (upd_buf p g s) (\<lambda>t. view t = view s)"
  by (auto simp: upd_buf_def intro!: vr)

lemma dt_out_front_ex_view [THEN vr_mono, vr]: "vr (dt_out_front_ex buf i da n s) (\<lambda>t. view t = view s)"
  by (auto simp: dt_out_front_ex_def Let_def intro!: vr)

lemma dt_in_back_ex_view [THEN vr_mono, vr]: "vr (dt_in_back_ex buf i da n s) (\<lambda>t. view t = view s)"
  by (auto simp: dt_in_back_ex_def Let_def intro!: vr)

lemma finish_head_view [THEN vr_mono, vr]: "vr (finish_dt_in_back_ex_head buf b s) (\<lambda>t. view t = view s)"
  by (auto simp: finish_dt_in_back_ex_head_def store_ua_head_def Let_def intro!: vr)

lemma finish_tail_view [THEN vr_mono, vr]: "vr (finish_dt_in_back_ex_tail buf s) (\<lambda>t. view t = view s)"
  by (auto simp: finish_dt_in_back_ex_tail_def Let_def intro!: vr)


section \<open>Fields\<close>

lemma af_view_upd [simp]:
  "af_view (a\<lparr>a_inputs := xs\<rparr>) = af_view a" "af_view (a\<lparr>a_outputs := xs\<rparr>) = af_view a" "af_view (a\<lparr>a_group_cmds := n\<rparr>) = af_view a"
  "af_view (a\<lparr>a_group_data := n\<rparr>) = af_view a" "af_view (a\<lparr>a_groups_left := n\<rparr>) = af_view a" "af_view (a\<lparr>a_last_iters := n\<rparr>) = af_view a"
  "af_view (a\<lparr>a_in_left := n\<rparr>) = af_view a" "af_view (a\<lparr>a_out_left := n\<rparr>) = af_view a" "af_view (a\<lparr>a_done_ua_out := b\<rparr>) = af_view a"
  "af_view (a\<lparr>a_done_in := n\<rparr>) = af_view a" "af_view (a\<lparr>a_done_out := n\<rparr>) = af_view a" "af_view (a\<lparr>a_out_buffered := n\<rparr>) = af_view a"
  "af_view (a\<lparr>a_updated := b\<rparr>) = af_view a" "af_view (a\<lparr>a_cur_group := k\<rparr>) = af_view a" "af_view (a\<lparr>a_cmd_mask := n\<rparr>) = af_view a"
  "af_view (a\<lparr>a_phase := k\<rparr>) = af_view a" "af_view (a\<lparr>a_waiting := n\<rparr>) = af_view a" "af_view (a\<lparr>a_instance := k\<rparr>) = af_view a"
  by (simp_all add: af_view_def)

lemma af_is_upd [simp]: "af_view a' = af_view a \<Longrightarrow> af_is i k a w \<Longrightarrow> af_is i k a' w"
  by (simp add: af_is_def)

lemma upd_ch_view [vr]:
  assumes "\<And>c. ch_static (f c) = ch_static c" "\<And>s'. view s' = view s \<Longrightarrow> Q s'"
  shows "vr (upd_ch a f s) Q"
proof -
  have "ch_is a (f c) w = ch_is a c w" for c w by (simp add: ch_is_def assms(1))
  then show ?thesis by (auto simp: upd_ch_def intro!: vr assms(2))
qed

lemma upd_flt_view [vr]:
  assumes "\<And>f. flt_view (g f) = flt_view f" "\<And>s'. view s' = view s \<Longrightarrow> Q s'"
  shows "vr (upd_flt a g s) Q"
proof -
  have "flt_is a (g f) w = flt_is a f w" for f w by (simp add: flt_is_def assms(1))
  then show ?thesis by (auto simp: upd_flt_def intro!: vr assms(2))
qed

lemma upd_sp_view [vr]:
  assumes "\<And>u. sp_view_of (g u) = sp_view_of u" "\<And>s'. view s' = view s \<Longrightarrow> Q s'"
  shows "vr (upd_sp i g s) Q"
proof -
  have "sp_is i (g u) w = sp_is i u w" for u w by (simp add: sp_is_def assms(1))
  then show ?thesis by (auto simp: upd_sp_def intro!: vr assms(2))
qed

lemma sp_view_upd [simp]:
  "sp_view_of (u\<lparr>sp_run_issued := b\<rparr>) = sp_view_of u" "sp_view_of (u\<lparr>sp_run_id := n\<rparr>) = sp_view_of u" "sp_view_of (u\<lparr>sp_buf_slot := k\<rparr>) = sp_view_of u"
  by (simp_all add: sp_view_of_def)

lemma put_af_view [vr]:
  assumes "af_is i k a (view s)" "\<And>s'. view s' = view s \<Longrightarrow> Q s'"
  shows "vr (put_af i k a s) Q"
proof -
  have "sp_is i (u\<lparr>sp_filters := (sp_filters u)[k := a]\<rparr>) (view s)" if "sp_is i u (view s)" for u
  proof -
    have "map af_view ((sp_filters u)[k := a]) = map af_view (sp_filters u)"
      using assms(1) that by (intro same_entry) (auto simp: af_is_def sp_is_def sp_view_of_def)
    then show ?thesis using that by (simp add: sp_is_def sp_view_of_def)
  qed
  then show ?thesis by (auto simp: put_af_def upd_sp_def intro!: vr assms(2))
qed

lemma mod_af_view [vr]:
  assumes "\<And>a. af_view (g a) = af_view a" "\<And>s'. view s' = view s \<Longrightarrow> Q s'"
  shows "vr (mod_af i k g s) Q"
  by (auto simp: mod_af_def intro!: vr assms(2)) (simp add: assms(1) af_is_def)

lemma with_af_vr [vr]:
  assumes "\<And>a f. af_is i k a (view s) \<Longrightarrow> flt_is (a_f a) f (view s) \<Longrightarrow> vr (g a f s) Q"
  shows "vr (with_af i k g s) Q"
  by (auto simp: with_af_def intro!: vr assms)

lemma dp_view [vr]:
  "(\<And>s'. view s' = view s \<Longrightarrow> Q s') \<Longrightarrow> vr (upd_dp p g s) Q"
  "(\<And>s'. view s' = view s \<Longrightarrow> Q s') \<Longrightarrow> vr (free_dp_instance p s) Q"
  "(\<And>q s'. view s' = view s \<Longrightarrow> R (q, s')) \<Longrightarrow> vr (new_dp_instance s) R"
  by (auto simp: upd_dp_def free_dp_instance_def new_dp_instance_def split: option.splits intro!: vr)

section \<open>Channels\<close>

lemma channel_values [vr]:
  "(\<And>x. Q x) \<Longrightarrow> vr (used_less_peek c) Q" "(\<And>x. R x) \<Longrightarrow> vr (udiv_res m n) R" "(\<And>x. Q x) \<Longrightarrow> vr (least_input_iters f s) Q"
  "(\<And>x. R x) \<Longrightarrow> vr (least_output_iters f s) R" "(\<And>x. R x) \<Longrightarrow> vr (least_dup_free d k s) R" "(\<And>x. R x) \<Longrightarrow> vr (safe_dec m n) R"
  by (simp_all add: vr_def)

lemma update_filter_input_view [THEN vr_mono, vr]: "vr (update_filter_input a s) (\<lambda>t. view t = view s)"
  by (auto simp: update_filter_input_def intro!: vr)

lemma update_filter_output_view [THEN vr_mono, vr]: "vr (update_filter_output a s) (\<lambda>t. view t = view s)"
  by (auto simp: update_filter_output_def intro!: vr)

lemma new_input_view [THEN vr_mono, vr]: "vr (new_input c s) (\<lambda>t. view t = view s)"
  by (auto simp: new_input_def split: option.splits intro!: vr)

lemma new_output_view [THEN vr_mono, vr]: "vr (new_output c s) (\<lambda>t. view t = view s)"
  by (auto simp: new_output_def split: option.splits intro!: vr)

lemma leaf_used_view [THEN vr_mono, vr]: "vr (leaf_used a n s) (\<lambda>t. view t = view s)"
  by (auto simp: leaf_used_def init_leaf_used_def Let_def intro!: vr)

lemma each_leaf_view: "(\<And>a s. vr (g a s) (\<lambda>t. view t = view s)) \<Longrightarrow> vr (each_leaf g k a s) (\<lambda>t. view t = view s)"
proof (induction k arbitrary: a s)
  case (Suc k)
  note rec = Suc.IH [OF Suc.prems, THEN vr_mono]
  show ?case by (auto split: option.splits intro!: vr rec Suc.prems)
qed simp

lemma update_down_view [THEN vr_mono, vr]: "vr (update_down_channel_used k a n s) (\<lambda>t. view t = view s)"
  unfolding update_down_channel_used_def by (rule each_leaf_view) (auto intro!: vr)

lemma take_dup_free_view [THEN vr_mono, vr]: "vr (take_dup_free p d k m s) (\<lambda>t. view t = view s)"
  by (auto simp: take_dup_free_def Let_def intro!: vr)

lemma up_loop_view [THEN vr_pairs, vr]: "vr (up_loop k a n s) (\<lambda>(r, t). view t = view s)"
proof (induction k arbitrary: a n s)
  case (Suc k)
  note rec = Suc.IH [THEN vr_pairs]
  show ?case by (auto simp: Let_def split: option.splits intro!: vr rec)
qed simp

lemma update_up_view [THEN vr_mono, vr]: "vr (update_up_channel_free k a n s) (\<lambda>t. view t = view s)"
  by (auto simp: update_up_channel_free_def root_free_def Let_def split: option.splits intro!: vr)

lemma filter_done_view:
  "vr (update_filter_done k a s) (\<lambda>t. view t = view s)" "vr (update_down_filter_incomplete k b s) (\<lambda>t. view t = view s)"
proof (induction k arbitrary: a b s)
  case (Suc k)
  note rec = Suc.IH [THEN vr_mono]
  { case 1 show ?case by (auto intro!: vr rec) }
  { case 2 show ?case by (auto simp: Let_def split: option.splits intro!: vr rec) }
qed simp_all

lemmas update_filter_done_view [vr] = filter_done_view(1) [THEN vr_mono]


section \<open>Commands\<close>

lemma masks_vr [vr]:
  "(\<And>x. Q x) \<Longrightarrow> vr (shl w n) Q" "(\<And>x. Q x) \<Longrightarrow> vr (get_alloc_mask a f) Q" "(\<And>x. Q x) \<Longrightarrow> vr (get_load_mask a f) Q"
  "(\<And>x. Q x) \<Longrightarrow> vr (get_init_a_mask a f) Q" "(\<And>x. Q x) \<Longrightarrow> vr (get_init_b_mask a f) Q" "(\<And>x. Q x) \<Longrightarrow> vr (get_steady_0_mask a f) Q"
  "(\<And>x. Q x) \<Longrightarrow> vr (get_cleanup_a_mask a f k) Q" "(\<And>x. Q x) \<Longrightarrow> vr (get_cleanup_b_mask a f k) Q"
  "(\<And>x. Q x) \<Longrightarrow> vr (get_short_cleanup_mask a f) Q"
  by (simp_all add: vr_def)

lemma ds_issue_group_view [THEN vr_mono, vr]: "vr (ds_issue_group a k s) (\<lambda>t. view t = view s)"
  by (auto simp: ds_issue_group_def intro!: vr)

lemma af_stub_view [THEN vr_mono, vr]: "vr (af_stub a k g s) (\<lambda>t. view t = view s)"
  by (auto simp: af_stub_def intro!: vr)

lemma setup_parts_view [THEN vr_mono, vr]:
  "vr (ds_setup_run gm a f k n c d s) (\<lambda>t. view t = view s)" "vr (ds_setup_input gm a f k n c d r s) (\<lambda>t. view t = view s)"
  "vr (ds_setup_output gm a f k n c d r s) (\<lambda>t. view t = view s)"
  by (auto simp: ds_setup_run_def ds_setup_input_def ds_setup_output_def intro!: vr)

lemma setup_view [THEN vr_mono, vr]:
  "vr (setup_load gm a f s) (\<lambda>t. view t = view s)" "vr (setup_init_a gm a f s) (\<lambda>t. view t = view s)" "vr (setup_init_b gm a f s) (\<lambda>t. view t = view s)"
  "vr (setup_steady gm a f k s) (\<lambda>t. view t = view s)" "vr (setup_cleanup_a gm a f k s) (\<lambda>t. view t = view s)"
  "vr (setup_cleanup_b gm a f k s) (\<lambda>t. view t = view s)" "vr (adjust_input a f k s) (\<lambda>t. view t = view s)"
  by (auto simp: setup_load_def setup_init_a_def setup_init_b_def setup_steady_def setup_cleanup_a_def setup_cleanup_b_def adjust_input_def
     Let_def intro!: vr)

section \<open>Transfers and reports\<close>

lemma start_view [THEN vr_mono, vr]:
  "vr (start_input i k b s) (\<lambda>t. view t = view s)" "vr (start_output i k n s) (\<lambda>t. view t = view s)"
  by (auto simp: start_input_def start_output_def Let_def intro!: vr)

lemma finish_view [THEN vr_mono, vr]:
  "vr (finish_heads i k s) (\<lambda>t. view t = view s)" "vr (finish_output i k s) (\<lambda>t. view t = view s)"
proof -
  show heads: "vr (finish_heads i k s) (\<lambda>t. view t = view s)" for s :: "('c, ds_state) ppu"
    by (auto simp: finish_heads_def intro!: vr)
  show "vr (finish_output i k s) (\<lambda>t. view t = view s)" by (auto simp: finish_output_def intro!: vr heads [THEN vr_mono])
qed

lemma report_view [THEN vr_mono, vr]:
  "vr (free_inputs n f m s) (\<lambda>t. view t = view s)" "vr (fill_outputs n f m s) (\<lambda>t. view t = view s)"
  by (auto simp: free_inputs_def fill_outputs_def intro!: vr)

lemma update_dp_view [THEN vr_mono, vr]:
  "vr (update_dp_input n a p m b s) (\<lambda>t. view t = view s)" "vr (update_dp_output n a p m b s) (\<lambda>t. view t = view s)"
  by (auto simp: update_dp_input_def update_dp_output_def Let_def intro!: vr)

lemma update_channels_view [THEN vr_mono, vr]:
  "vr (update_input_channels n i k s) (\<lambda>t. view t = view s)" "vr (update_output_channels n i k b s) (\<lambda>t. view t = view s)"
  by (auto simp: update_input_channels_def update_output_channels_def Let_def split: prod.splits option.splits intro!: vr)

section \<open>Instances\<close>

lemma merge_next_view [THEN vr_mono]: "vr (merge_next m p a b s) (\<lambda>(_, _, _, t). view t = view s)"
proof (induction m arbitrary: p a b s)
  case (Suc m)
  note rec = Suc.IH [THEN vr_mono]
  show ?case by (auto split: option.splits intro!: vr rec)
qed simp

lemma merge_prev_view [THEN vr_mono]: "vr (merge_prev m p a b s) (\<lambda>(_, _, _, t). view t = view s)"
proof (induction m arbitrary: p a b s)
  case (Suc m)
  note rec = Suc.IH [THEN vr_mono]
  show ?case by (auto intro!: vr rec)
qed simp

lemma join_next_view [THEN vr_mono]: "vr (join_next a p m n s) (\<lambda>(_, _, _, t). view t = view s)"
  by (auto simp: join_next_def split: option.splits intro!: vr merge_next_view)

lemma join_prev_view [THEN vr_mono, vr]: "vr (join_prev p m n s) (\<lambda>t. view t = view s)"
  by (auto simp: join_prev_def intro!: vr merge_prev_view)

lemma done_dp_instance_view [THEN vr_mono, vr]: "vr (done_dp_instance n a p s) (\<lambda>t. view t = view s)"
  by (auto simp: done_dp_instance_def split: option.splits intro!: vr join_next_view)


section \<open>Phases\<close>

lemma extend_run_view [THEN vr_mono, vr]: "vr (extend_run i k n s) (\<lambda>t. view t = view s)"
  by (auto simp: extend_run_def Let_def intro!: vr)

lemma start_filter_view [THEN vr_mono, vr]: "vr (start_filter gm i k s) (\<lambda>t. view t = view s)"
  by (auto simp: start_filter_def intro!: vr)

lemma phases_view [THEN vr_mono, vr]:
  "vr (phase_load gm i k s) (\<lambda>t. view t = view s)" "vr (ds_phase_init_a gm i k s) (\<lambda>t. view t = view s)"
  "vr (ds_phase_init_b gm i k s) (\<lambda>t. view t = view s)" "vr (steady_transfers i k s) (\<lambda>t. view t = view s)"
  "vr (ds_steady_group gm i k b s) (\<lambda>t. view t = view s)" "vr (phase_cleanup_a i k s) (\<lambda>t. view t = view s)"
  "vr (phase_cleanup_b n i k s) (\<lambda>t. view t = view s)" "vr (retire n i k s) (\<lambda>t. view t = view s)"
  by (auto simp: phase_load_def ds_phase_init_a_def ds_phase_init_b_def steady_transfers_def ds_steady_group_def phase_cleanup_a_def
     phase_cleanup_b_def retire_def intro!: vr)

lemma phase_alloc_view [THEN vr_pairs, vr]: "vr (phase_alloc gm i k b s) (\<lambda>(_, t). view t = view s)"
  by (auto simp: phase_alloc_def intro!: vr)

end
