(* ===== verification/Ds_Slots.thy ===== *)
theory Ds_Slots
  imports Ds_View
begin

text \<open>
  The slots of an SPU (\<open>library/cell/ds/dsrun.c\<close>): two filters may be on an SPU at a time, the one that
  runs and the one that is loaded next, and no slot is given to both.
\<close>

section \<open>The invariant\<close>

type_synonym slots = "u32 \<times> u32 \<times> u32 \<times> nat"
type_synonym placed = "nat \<times> nat \<times> u32 \<times> u32 \<times> u32 \<times> nat"

fun other_slots :: "slots \<Rightarrow> slots" where
  "other_slots (fs, ds, cs, gs) = (fs XOR 1, ds XOR 1, cs XOR 1, gs XOR 1)"

fun slots_small :: "slots \<Rightarrow> bool" where
  "slots_small (fs, ds, cs, gs) \<longleftrightarrow> (fs = 0 \<or> fs = 1) \<and> (ds = 0 \<or> ds = 1) \<and> (cs = 0 \<or> cs = 1) \<and> (gs = 0 \<or> gs = 1)"

fun has_slots :: "u32 \<times> u32 \<Rightarrow> slots \<Rightarrow> placed \<Rightarrow> bool" where
  "has_slots (filters, cmds) (fs, ds, cs, gs) (i, f, cb, da, cid, gid) \<longleftrightarrow>
     cb = filters + fs * DS_SPU_FILTER_SLOT_SIZE \<and> da = cmds + ds * DS_SPU_CMD_DATA_SLOT_SIZE \<and> cid = 0 + cs * 16 \<and> gid = 28 + gs * 2"

definition filter_of :: "placed \<Rightarrow> nat" where
  "filter_of p = fst (snd p)"

definition exclusive_in :: "ds_view \<Rightarrow> nat \<Rightarrow> bool" where
  "exclusive_in w fa \<longleftrightarrow> fst (snd (v_flts w ! fa))"

text \<open>
  The slots to be given next are those the running filter does not have, or, when there is a next filter,
  those the running filter has.  An exclusive filter has the SPU to itself.
\<close>

definition spu_slots_ok :: "(nat \<Rightarrow> bool) \<Rightarrow> sp_view \<Rightarrow> bool" where
  "spu_slots_ok ex v \<longleftrightarrow> length (v_filters v) = 2 \<and> v_next_filt v < 2 \<and> slots_small (v_slots v) \<and>
     (case v_current v of None \<Rightarrow> v_next v = None
      | Some k \<Rightarrow> k < 2 \<and> (case v_next v of
           None \<Rightarrow> v_next_filt v = k XOR 1 \<and>
             (ex (filter_of (v_filters v ! k)) \<or> has_slots (v_start v) (other_slots (v_slots v)) (v_filters v ! k))
         | Some k' \<Rightarrow> k' = k XOR 1 \<and> v_next_filt v = k \<and> \<not> ex (filter_of (v_filters v ! k)) \<and>
             has_slots (v_start v) (v_slots v) (v_filters v ! k) \<and> has_slots (v_start v) (other_slots (v_slots v)) (v_filters v ! k')))"

definition slots_ok :: "('d, ds_state) ppu \<Rightarrow> bool" where
  "slots_ok s \<longleftrightarrow> (\<forall>v\<in>set (v_spus (view s)). spu_slots_ok (exclusive_in (view s)) v)"

lemma slots_ok_nth: "slots_ok s \<longleftrightarrow> (\<forall>i<length (v_spus (view s)). spu_slots_ok (exclusive_in (view s)) (v_spus (view s) ! i))"
  by (simp add: slots_ok_def all_set_conv_all_nth)

lemma slots_ok_view: "view t = view s \<Longrightarrow> slots_ok t = slots_ok s"
  by (simp add: slots_ok_def)

text \<open>What scheduling leaves alone: filters that run go on running where they are.\<close>

definition still_running :: "ds_view \<Rightarrow> ds_view \<Rightarrow> bool" where
  "still_running w w' \<longleftrightarrow> v_flts w' = v_flts w \<and> v_graph w' = v_graph w \<and> length (v_spus w') = length (v_spus w) \<and>
     (\<forall>i k. v_current (v_spus w ! i) = Some k \<longrightarrow> v_current (v_spus w' ! i) = Some k \<and> v_filters (v_spus w' ! i) ! k = v_filters (v_spus w ! i) ! k) \<and>
     (\<forall>i k. v_next (v_spus w ! i) = Some k \<longrightarrow> v_next (v_spus w' ! i) = Some k)"

lemma still_running_refl [simp]: "still_running w w"
  by (simp add: still_running_def)

lemma still_running_trans: "still_running w w' \<Longrightarrow> still_running w' w'' \<Longrightarrow> still_running w w''"
  by (simp add: still_running_def)

lemma exclusive_still: "still_running w w' \<Longrightarrow> exclusive_in w' = exclusive_in w"
  by (auto simp: still_running_def exclusive_in_def)

section \<open>Putting a filter on an SPU\<close>

definition on_spu :: "nat \<Rightarrow> (sp_view \<Rightarrow> sp_view) \<Rightarrow> ds_view \<Rightarrow> ds_view" where
  "on_spu i g w = w\<lparr>v_spus := (v_spus w)[i := g (v_spus w ! i)]\<rparr>"

definition claimed :: "nat \<Rightarrow> sp_view \<Rightarrow> sp_view" where
  "claimed fa v = (let k = v_next_filt v in v\<lparr>v_next_filt := k XOR 1,
     v_current := (if v_current v = None then Some k else v_current v), v_next := (if v_current v = None then None else Some k),
     v_filters := (v_filters v)[k := (case v_filters v ! k of (i, _, p) \<Rightarrow> (i, fa, p))]\<rparr>)"

definition hosts :: "ds_view \<Rightarrow> nat \<Rightarrow> bool" where
  "hosts w i \<longleftrightarrow> (\<forall>k. v_current (v_spus w ! i) = Some k \<longrightarrow> \<not> exclusive_in w (filter_of (v_filters (v_spus w ! i) ! k)))"

lemma view_put_spu_state:
  "i < length (ds_spus (client s)) \<Longrightarrow> view (put_sp i u s) = on_spu i (\<lambda>_. sp_view_of u) (view s)"
  by (simp add: view_def put_sp_def upd_client_def on_spu_def map_update Let_def)

lemma view_put_flt_state:
  "view (put_flt a f s) = (view s)\<lparr>v_flts := (v_flts (view s))[a := flt_view f]\<rparr>"
  by (simp add: view_def put_flt_def upd_client_def map_update Let_def)

lemma claim_view:
  "vr (claim_spu i fa n s) (\<lambda>(k, t). let v = v_spus (view s) ! i in view t = on_spu i (claimed fa) (view s) \<and> i < length (v_spus (view s)) \<and>
     k = v_next_filt v \<and> k < length (v_filters v) \<and> v_next v = None \<and> (v_current v \<noteq> None \<longrightarrow> \<not> exclusive_in (view s) fa))"
proof -
  have "view t = on_spu i (claimed fa) (view s) \<and> i < length (v_spus (view s)) \<and>
     k = v_next_filt (v_spus (view s) ! i) \<and> k < length (v_filters (v_spus (view s) ! i)) \<and> v_next (v_spus (view s) ! i) = None \<and>
     (v_current (v_spus (view s) ! i) \<noteq> None \<longrightarrow> \<not> exclusive_in (view s) fa)" if c: "claim_spu i fa n s = Inr (k, t)" for k t
  proof -
    obtain u f where u: "get_sp i s = Inr u" "get_flt fa s = Inr f" using c by (auto simp: claim_spu_def res_simps)
    have ui: "i < length (ds_spus (client s))" "u = ds_spus (client s) ! i" using u(1) by (auto simp: get_sp_def res_simps)
    have fi: "fa < length (ds_filters (client s))" "f = ds_filters (client s) ! fa" using u(2) by (auto simp: get_flt_def res_simps)
    have v: "v_spus (view s) ! i = sp_view_of u" "v_flts (view s) ! fa = flt_view f" "length (v_spus (view s)) = length (ds_spus (client s))"
      using ui fi by (simp_all add: view_def Let_def)
    have same: "(v_flts (view s))[fa := flt_view f] = v_flts (view s)" using v(2) by (metis list_update_id)
    have entry: "fst (snd (flt_view f)) = df_exclusive f" by (simp add: flt_view_def)
    obtain p where p: "sp_filters u ! sp_next_filt u = p" by simp
    have "af_view (p\<lparr>a_f := fa, a_groups_left := q, a_last_iters := l, a_done_in := 0, a_done_out := 0, a_updated := False\<rparr>) =
        (case af_view p of (i, _, x) \<Rightarrow> (i, fa, x))" for q l by (simp add: af_view_def)
    then show ?thesis
      using c u ui fi v same p entry
      by (auto simp: claim_spu_def res_simps Let_def view_put_spu_state view_put_flt_state on_spu_def claimed_def sp_view_of_def map_update
          exclusive_in_def udiv_res_def split: if_splits)
  qed
  then show ?thesis by (auto simp: vr_def Let_def)
qed


lemma place_filter_vr:
  "vr (place_filter f start u a) (\<lambda>(u', a'). sp_view_of u' = (sp_view_of u)\<lparr>v_slots := (if df_exclusive f then v_slots (sp_view_of u)
       else other_slots (v_slots (sp_view_of u)))\<rparr> \<and> filter_of (af_view a') = a_f a \<and>
     (\<not> df_exclusive f \<longrightarrow> has_slots (v_start (sp_view_of u)) (v_slots (sp_view_of u)) (af_view a')))"
  by (auto simp: vr_def place_filter_def res_simps Let_def get_spu_filter_slot_def get_spu_cmd_data_slot_def get_spu_cmd_id_slot_def
      get_spu_cmd_group_slot_def sp_view_of_def af_view_def filter_of_def)

lemma put_placed:
  assumes "sp_is i u0 (view s)"
  shows "vr (put_af i k a (put_sp i u s)) (\<lambda>t. view t = on_spu i (\<lambda>_. (sp_view_of u)\<lparr>v_filters := (v_filters (sp_view_of u))[k := af_view a]\<rparr>) (view s))"
proof -
  have i: "i < length (ds_spus (client s))" using assms by (simp add: sp_is_def view_def Let_def)
  have eq: "put_af i k a (put_sp i u s) = Inr (put_sp i (u\<lparr>sp_filters := (sp_filters u)[k := a]\<rparr>) s)"
    using i by (simp add: put_af_def upd_sp_def get_sp_def put_sp_def upd_client_def)
  show ?thesis unfolding eq using i by (simp add: view_put_spu_state sp_view_of_def map_update)
qed

lemma add_instance_view [THEN vr_pairs, vr]: "vr (add_instance a s) (\<lambda>(_, t). view t = view s)"
  by (auto simp: add_instance_def split: option.splits intro!: vr)

lemma next_buffers_view [THEN vr_pairs, vr]: "vr (next_buffers i f n s) (\<lambda>(_, t). view t = view s)"
proof -
  have "sp_is i (snd (get_spu_buffer_slot u)) w = sp_is i u w" for u w by (simp add: sp_is_def get_spu_buffer_slot_def)
  then show ?thesis by (auto simp: next_buffers_def Let_def split: prod.splits intro!: vr) (metis snd_conv view_put_sp)
qed

lemma schedule_tape_view [THEN vr_mono, vr]:
  "vr (schedule_input i k f n j (m, s)) (\<lambda>t. view (snd t) = view s)" "vr (schedule_output i k f n j (m, s)) (\<lambda>t. view (snd t) = view s)"
  by (auto simp: schedule_input_def schedule_output_def Let_def intro!: vr)

definition given :: "nat \<Rightarrow> bool \<Rightarrow> placed \<Rightarrow> sp_view \<Rightarrow> sp_view" where
  "given fa ex p v = (claimed fa v)\<lparr>v_slots := (if ex then v_slots v else other_slots (v_slots v)), v_filters := (v_filters v)[v_next_filt v := p]\<rparr>"

definition may_give :: "nat \<Rightarrow> nat \<Rightarrow> placed \<Rightarrow> ds_view \<Rightarrow> bool" where
  "may_give i fa p w \<longleftrightarrow> (let v = v_spus w ! i in i < length (v_spus w) \<and> v_next_filt v < length (v_filters v) \<and> v_next v = None \<and>
     filter_of p = fa \<and> (if exclusive_in w fa then v_current v = None else has_slots (v_start v) (v_slots v) p))"

lemma load_and_start:
  assumes G: "\<forall>t t'. view t' = view t \<longrightarrow> G t' = G t" and r: "vr r G"
  shows "vr (rbind r (\<lambda>s. rbind (setup_load gm a f s) (\<lambda>s. if c then start_filter gm i k s
     else rbind (get_af i k s) (\<lambda>a. put_af i k (a\<lparr>a_phase := DS_WAITING, a_waiting := 0\<rparr>) s)))) G"
  unfolding vr_simps(3)
proof (rule vr_mono [OF r])
  fix s assume s: "G s"
  have "G t" if "view t = view s" for t using G s that by blast
  then show "vr (setup_load gm a f s) (\<lambda>s. vr (if c then start_filter gm i k s
     else rbind (get_af i k s) (\<lambda>a. put_af i k (a\<lparr>a_phase := DS_WAITING, a_waiting := 0\<rparr>) s)) G)"
    by - (rule setup_view, simp, intro conjI impI vr, simp_all)
qed

lemma until_settled:
  assumes "\<forall>s f start. view s = view t \<and> flt_is fa f (view t) \<longrightarrow> vr (settle_filter gm i k f start s) G"
  shows "vr (rbind (get_flt fa t) (\<lambda>f.
     rbind (if df_data_parallel f then rbind (add_instance fa t) (\<lambda>(p, s). rbind (get_af i k s) (\<lambda>a. put_af i k (a\<lparr>a_instance := p\<rparr>) s))
       else Inr t) (\<lambda>s.
     rbind (next_buffers i f 0 s) (\<lambda>(start, s).
     rbind (rfold (schedule_input i k f n) [0..<n_inputs f] (start, s)) (\<lambda>(start, s).
     rbind (next_buffers i f start s) (\<lambda>(start, s).
     rbind (rfold (schedule_output i k f n) [0..<n_outputs f] (start, s)) (\<lambda>(start, s). settle_filter gm i k f start s))))))) G"
  by (auto intro!: vr assms [THEN spec, THEN spec, THEN spec, THEN mp])

lemma schedule_filter_view:
  "vr (schedule_filter gm i fa n s) (\<lambda>t. \<exists>p. may_give i fa p (view s) \<and> view t = on_spu i (given fa (exclusive_in (view s) fa) p) (view s))"
proof -
  define G where "G t \<longleftrightarrow> (\<exists>p. may_give i fa p (view s) \<and> view t = on_spu i (given fa (exclusive_in (view s) fa) p) (view s))" for t :: "('a, ds_state) ppu"
  have G: "\<forall>t t'. view t' = view t \<longrightarrow> G t' = G t" by (simp add: G_def)
  define v where "v = v_spus (view s) ! i"
  have rest: "vr (settle_filter gm i k f start s3) G"
    if w: "view s3 = on_spu i (claimed fa) (view s)" "i < length (v_spus (view s))" "k = v_next_filt v" "k < length (v_filters v)" "v_next v = None"
        "v_current v \<noteq> None \<longrightarrow> \<not> exclusive_in (view s) fa" and f: "flt_is fa f (view s3)" for f start k s3
  proof -
    have uv: "sp_view_of u = claimed fa v" if "sp_is i u (view s3)" for u using that w(2) by (simp add: sp_is_def w(1) on_spu_def v_def)
    have av: "a_f a = fa" if "af_is i k a (view s3)" for a using that w(2,3,4) by (auto simp: af_is_def w(1) on_spu_def claimed_def v_def Let_def af_view_def split: prod.splits)
    have ex: "df_exclusive f = exclusive_in (view s) fa" using f by (simp add: flt_is_def w(1) on_spu_def exclusive_in_def flt_view_def)
    have put: "vr (put_af i k (a'\<lparr>a_group_cmds := c, a_group_data := c'\<rparr>) (put_sp i u' s3)) G" if u: "sp_is i u (view s3)"
      and "sp_view_of u' = (sp_view_of u)\<lparr>v_slots := (if df_exclusive f then v_slots (sp_view_of u) else other_slots (v_slots (sp_view_of u)))\<rparr>"
        "filter_of (af_view a') = fa" "\<not> df_exclusive f \<longrightarrow> has_slots (v_start (sp_view_of u)) (v_slots (sp_view_of u)) (af_view a')" for u u' a' c c'
    proof (rule put_placed [OF u, THEN vr_mono])
      fix t :: "('a, ds_state) ppu"
      assume t: "view t = on_spu i (\<lambda>_. (sp_view_of u')\<lparr>v_filters := (v_filters (sp_view_of u'))[k := af_view (a'\<lparr>a_group_cmds := c, a_group_data := c'\<rparr>)]\<rparr>) (view s3)"
      show "G t"
        unfolding G_def by (rule exI [of _ "af_view a'"])
          (use t that w ex uv in \<open>auto simp: may_give_def Let_def on_spu_def given_def claimed_def v_def\<close>)
    qed
    show ?thesis
      unfolding settle_filter_def vr_simps(3)
    proof (intro vr_get_sp vr_get_af)
      fix u a assume u: "sp_is i u (view s3)" and a: "af_is i k a (view s3)"
      show "vr (place_filter f start u (a\<lparr>a_out_buffered := 0\<rparr>)) (\<lambda>y. vr (case y of (u, a) \<Rightarrow>
        let cmds = 1 + of_nat (n_inputs f) + of_nat (n_outputs f); a = a\<lparr>a_group_cmds := cmds, a_group_data := cmds * 64\<rparr> in
        rbind (put_af i k a (put_sp i u s3)) (\<lambda>s. rbind (setup_load gm a f s) (\<lambda>s.
        if \<not> df_exclusive f \<or> sp_next u = None then start_filter gm i k s
        else rbind (get_af i k s) (\<lambda>a. put_af i k (a\<lparr>a_phase := DS_WAITING, a_waiting := 0\<rparr>) s)))) G)"
      proof (rule place_filter_vr [THEN vr_mono], clarify)
        fix u' a'
        assume "sp_view_of u' = (sp_view_of u)\<lparr>v_slots := (if df_exclusive f then v_slots (sp_view_of u) else other_slots (v_slots (sp_view_of u)))\<rparr>"
          "filter_of (af_view a') = a_f (a\<lparr>a_out_buffered := 0\<rparr>)"
          "\<not> df_exclusive f \<longrightarrow> has_slots (v_start (sp_view_of u)) (v_slots (sp_view_of u)) (af_view a')"
        then show "vr (let cmds = 1 + of_nat (n_inputs f) + of_nat (n_outputs f); a = a'\<lparr>a_group_cmds := cmds, a_group_data := cmds * 64\<rparr> in
          rbind (put_af i k a (put_sp i u' s3)) (\<lambda>s. rbind (setup_load gm a f s) (\<lambda>s.
          if \<not> df_exclusive f \<or> sp_next u' = None then start_filter gm i k s
          else rbind (get_af i k s) (\<lambda>a. put_af i k (a\<lparr>a_phase := DS_WAITING, a_waiting := 0\<rparr>) s)))) G"
          unfolding Let_def by (intro load_and_start [OF G] put [OF u]) (simp_all add: av [OF a])
      qed
    qed
  qed
  have "vr (schedule_filter gm i fa n s) G"
    unfolding schedule_filter_def vr_simps(3) [of "claim_spu i fa n s"]
  proof (rule claim_view [THEN vr_mono], clarify, rule until_settled, clarify)
    fix k f start and t s3 :: "('a, ds_state) ppu"
    assume c: "let v = v_spus (view s) ! i in view t = on_spu i (claimed fa) (view s) \<and> i < length (v_spus (view s)) \<and>
       k = v_next_filt v \<and> k < length (v_filters v) \<and> v_next v = None \<and> (v_current v \<noteq> None \<longrightarrow> \<not> exclusive_in (view s) fa)"
      and s3: "view s3 = view t" "flt_is fa f (view t)"
    show "vr (settle_filter gm i k f start s3) G"
      by (rule rest) (use c s3 in \<open>simp_all add: Let_def v_def\<close>)
  qed
  moreover have "G = (\<lambda>t. \<exists>p. may_give i fa p (view s) \<and> view t = on_spu i (given fa (exclusive_in (view s) fa) p) (view s))"
    by (rule ext) (simp only: G_def)
  ultimately show ?thesis by (simp only:)
qed

section \<open>Scheduling keeps the invariant\<close>

lemma flip_flip [simp]: "other_slots (other_slots x) = x"
  by (cases x) (simp add: xor.assoc)

lemma flip_small [simp]: "slots_small (other_slots x) = slots_small x"
proof -
  have w: "a XOR 1 = b \<longleftrightarrow> a = b XOR 1" for a b :: u32 by (auto simp: xor.assoc)
  have n: "a XOR Suc 0 = b \<longleftrightarrow> a = b XOR Suc 0" for a b :: nat by (auto simp: xor.assoc)
  show ?thesis by (cases x) (auto simp: w n)
qed

lemma xor_two: "k < 2 \<Longrightarrow> k XOR 1 < 2 \<and> k XOR 1 \<noteq> k \<and> (k XOR 1) XOR 1 = (k :: nat)"
  by (auto simp: less_2_cases_iff)

lemma given_ok:
  assumes v: "spu_slots_ok ex v" and c: "\<forall>k. v_current v = Some k \<longrightarrow> \<not> ex (filter_of (v_filters v ! k))" and n: "v_next v = None"
    and p: "filter_of p = fa" "if ex fa then v_current v = None else has_slots (v_start v) (v_slots v) p"
  shows "spu_slots_ok ex (given fa (ex fa) p v)"
    and "v_current v = Some k \<Longrightarrow> v_current (given fa (ex fa) p v) = Some k \<and> v_filters (given fa (ex fa) p v) ! k = v_filters v ! k"
proof -
  have v': "length (v_filters v) = 2" "v_next_filt v < 2" "slots_small (v_slots v)" using v by (simp_all add: spu_slots_ok_def)
  note flip = xor_two [OF v'(2)]
  have cur: "k < 2 \<and> v_next_filt v = k XOR 1 \<and> has_slots (v_start v) (other_slots (v_slots v)) (v_filters v ! k) \<and> v_next_filt v \<noteq> k" if "v_current v = Some k" for k
    using v c n that xor_two [of k] by (auto simp: spu_slots_ok_def)
  show "spu_slots_ok ex (given fa (ex fa) p v)"
  proof (cases "v_current v")
    case None
    then show ?thesis using v' flip n p by (auto simp: spu_slots_ok_def given_def claimed_def Let_def)
  next
    case (Some k)
    then have k: "k < 2" "v_next_filt v = k XOR 1" "k XOR 1 \<noteq> k" "k XOR 1 < 2" "(k XOR 1) XOR 1 = k"
      "has_slots (v_start v) (other_slots (v_slots v)) (v_filters v ! k)" "\<not> ex (filter_of (v_filters v ! k))"
      using cur [OF Some] xor_two [of k] c by auto
    have "\<not> ex fa" "has_slots (v_start v) (v_slots v) p" using p(2) Some by (auto split: if_splits)
    then show ?thesis using v' n Some k by (simp add: spu_slots_ok_def given_def claimed_def Let_def)
  qed
  show "v_current v = Some k \<Longrightarrow> v_current (given fa (ex fa) p v) = Some k \<and> v_filters (given fa (ex fa) p v) ! k = v_filters v ! k"
    using cur [of k] by (simp add: given_def claimed_def Let_def)
qed

definition scheduled :: "('d, ds_state) ppu \<Rightarrow> ('d, ds_state) ppu \<Rightarrow> bool" where
  "scheduled s t \<longleftrightarrow> slots_ok t \<and> still_running (view s) (view t)"

lemma schedule_filter_slots:
  assumes s: "slots_ok s" "hosts (view s) i"
  shows "vr (schedule_filter gm i fa n s) (scheduled s)"
proof (rule schedule_filter_view [THEN vr_mono], clarify)
  fix t :: "('a, ds_state) ppu" and p
  assume p: "may_give i fa p (view s)" and t: "view t = on_spu i (given fa (exclusive_in (view s) fa) p) (view s)"
  let ?v = "v_spus (view s) ! i"
  have i: "i < length (v_spus (view s))" and m: "v_next ?v = None" "filter_of p = fa"
    "if exclusive_in (view s) fa then v_current ?v = None else has_slots (v_start ?v) (v_slots ?v) p"
    using p by (simp_all add: may_give_def Let_def)
  have ok: "spu_slots_ok (exclusive_in (view s)) ?v" using s(1) i by (simp add: slots_ok_nth)
  have c: "\<forall>k. v_current ?v = Some k \<longrightarrow> \<not> exclusive_in (view s) (filter_of (v_filters ?v ! k))" using s(2) by (simp add: hosts_def)
  note g = given_ok [OF ok c m]
  have "exclusive_in (view t) = exclusive_in (view s)" by (rule ext) (simp add: t on_spu_def exclusive_in_def)
  then have "slots_ok t" using s(1) g(1) i by (auto simp: slots_ok_nth t on_spu_def nth_list_update)
  moreover have "still_running (view s) (view t)"
    using g(2) i m(1) by (auto simp: still_running_def t on_spu_def nth_list_update)
  ultimately show "scheduled s t" by (simp add: scheduled_def)
qed

lemma scheduled_trans: "scheduled s t \<Longrightarrow> scheduled t t' \<Longrightarrow> scheduled s t'"
  by (auto simp: scheduled_def intro: still_running_trans)

lemma scheduled_view: "slots_ok s \<Longrightarrow> view t = view s \<Longrightarrow> scheduled s t"
  by (metis scheduled_def slots_ok_view still_running_refl)

lemma hosts_still:
  assumes "still_running w w'" "v_current (v_spus w ! i) = Some k" "hosts w i"
  shows "hosts w' i"
  using assms by (simp add: still_running_def hosts_def exclusive_in_def)

lemma find_best_filter_vr [vr]:
  "(\<And>x. Q x) \<Longrightarrow> vr (find_best_filter c s) Q" "(\<And>x. R x) \<Longrightarrow> vr (get_filter_metric f b) R" "(\<And>x. R x) \<Longrightarrow> vr (get_schedule_iters f b) R"
  by (simp_all add: vr_def)

lemma schedule_best_slots:
  "slots_ok s \<Longrightarrow> hosts (view s) i \<Longrightarrow> vr (schedule_best gm i best s) (scheduled s)"
  by (auto simp: schedule_best_def intro!: vr scheduled_view schedule_filter_slots)

lemma hosts_free: "v_current (v_spus w ! i) = None \<Longrightarrow> hosts w i"
  by (simp add: hosts_def)

lemma schedule_free_spu_slots: "slots_ok s \<Longrightarrow> vr (schedule_free_spu gm i reserved s) (scheduled s)"
  by (auto simp: schedule_free_spu_def sp_is_def sp_view_of_def intro!: vr schedule_best_slots hosts_free)

lemma schedule_all_free_spu_slots: "slots_ok s \<Longrightarrow> vr (schedule_all_free_spu gm reserved s) (scheduled s)"
  unfolding schedule_all_free_spu_def
  by (rule vr_rfold)
    (auto simp: scheduled_view intro!: vr intro: scheduled_view scheduled_trans schedule_free_spu_slots [THEN vr_mono] simp: scheduled_def [THEN iffD1])

lemma schedule_spu_next_slots:
  assumes s: "slots_ok s" and c: "v_current (v_spus (view s) ! i) = Some k" "hosts (view s) i"
  shows "vr (schedule_spu_next gm i current p s) (\<lambda>(_, t). scheduled s t)"
proof -
  have best: "vr (schedule_best gm i best t) (\<lambda>t'. scheduled s t')" if "scheduled s t" for best t
  proof (rule vr_mono)
    show "vr (schedule_best gm i best t) (scheduled t)"
      by (rule schedule_best_slots) (use that c in \<open>auto simp: scheduled_def intro: hosts_still\<close>)
  qed (rule scheduled_trans [OF that])
  have free: "vr (schedule_all_free_spu gm r s) Q" if "\<And>t. scheduled s t \<Longrightarrow> Q t" for r and Q :: "('a, ds_state) ppu \<Rightarrow> bool"
    using schedule_all_free_spu_slots [OF s] that by (rule vr_mono)
  have same: "scheduled s s" using s by (simp add: scheduled_def)
  show ?thesis
    by (auto simp: schedule_spu_next_def Let_def split: option.splits if_splits intro!: vr free best same)
qed

section \<open>Completions keep the invariant\<close>

lemma scheduled_same: "scheduled s t \<Longrightarrow> view t' = view t \<Longrightarrow> scheduled s t'"
  by (metis scheduled_def slots_ok_view)

lemma scheduled_from: "scheduled t t' \<Longrightarrow> view t = view s \<Longrightarrow> scheduled s t'"
  by (simp add: scheduled_def)

lemma not_exclusive_hosts:
  "af_is i k a w \<Longrightarrow> flt_is (a_f a) f w \<Longrightarrow> \<not> df_exclusive f \<Longrightarrow> v_current (v_spus w ! i) = Some k \<Longrightarrow> hosts w i"
  by (simp add: hosts_def af_is_def flt_is_def exclusive_in_def filter_of_def af_view_def flt_view_def)

lemma near_end_slots:
  assumes s: "slots_ok s" and c: "current \<Longrightarrow> v_current (v_spus (view s) ! i) = Some k"
  shows "vr (near_end gm n i k current s) (scheduled s)"
proof -
  have next': "vr (schedule_spu_next gm i current p t) (\<lambda>(_, t'). scheduled s t')"
    if "view t = view s" "hosts (view s) i" "v_current (v_spus (view s) ! i) = Some k" for t current p
  proof (rule vr_mono)
    show "vr (schedule_spu_next gm i current p t) (\<lambda>(_, t'). scheduled t t')"
      using that s slots_ok_view [of t s] by (intro schedule_spu_next_slots) simp_all
  qed (use that in \<open>auto intro: scheduled_from\<close>)
  note next'' = next' [THEN vr_mono]
  have same: "scheduled s t" if "view t = view s" for t using that s by (rule scheduled_view [rotated])
  show ?thesis
    by (auto simp: near_end_def split: option.splits intro!: vr next'')
      (blast intro: not_exclusive_hosts c same scheduled_same)+
qed

lemma ds_phase_steady_slots:
  assumes s: "slots_ok s" and c: "current \<Longrightarrow> v_current (v_spus (view s) ! i) = Some k"
  shows "vr (ds_phase_steady gm n i k current s) (scheduled s)"
proof -
  have "vr (near_end gm n i k current t) (scheduled s)" if "view t = view s" for t
    by (rule vr_mono [OF near_end_slots]) (use that s c slots_ok_view [of t s] in \<open>auto intro: scheduled_from\<close>)
  note near = this [THEN vr_mono]
  show ?thesis by (auto simp: ds_phase_steady_def intro!: vr near) (blast intro: scheduled_same)
qed

lemma run_phase_slots:
  assumes s: "slots_ok s" and c: "current \<Longrightarrow> v_current (v_spus (view s) ! i) = Some k"
  shows "vr (run_phase gm n i k current s) (\<lambda>(_, t). scheduled s t)"
proof -
  have "vr (ds_phase_steady gm n i k current t) (scheduled s)" if "view t = view s" for t
    by (rule vr_mono [OF ds_phase_steady_slots]) (use that s c slots_ok_view [of t s] in \<open>auto intro: scheduled_from\<close>)
  note steady = this [THEN vr_mono]
  have same: "scheduled s t" if "view t = view s" for t using that s by (rule scheduled_view [rotated])
  show ?thesis by (auto simp: run_phase_def Let_def intro!: vr steady) (blast intro: same)+
qed

definition ds_advanced :: "('d, ds_state) ppu \<Rightarrow> ('d, ds_state) ppu \<Rightarrow> bool" where
  "ds_advanced s t \<longleftrightarrow> slots_ok t \<and> v_flts (view t) = v_flts (view s) \<and> v_graph (view t) = v_graph (view s) \<and>
     length (v_spus (view t)) = length (v_spus (view s))"

lemma ds_advanced_trans: "ds_advanced s t \<Longrightarrow> ds_advanced t t' \<Longrightarrow> ds_advanced s t'"
  by (simp add: ds_advanced_def)

lemma scheduled_ds_advanced: "scheduled s t \<Longrightarrow> ds_advanced s t"
  by (simp add: scheduled_def ds_advanced_def still_running_def)

lemma ds_advanced_put_sp:
  assumes s: "slots_ok s" "sp_is i u (view s)" and v: "spu_slots_ok (exclusive_in (view s)) (sp_view_of u')"
  shows "ds_advanced s (put_sp i u' s)" "view (put_sp i u' s) = on_spu i (\<lambda>_. sp_view_of u') (view s)"
proof -
  have i: "i < length (ds_spus (client s))" using s(2) by (simp add: sp_is_def view_def Let_def)
  show p: "view (put_sp i u' s) = on_spu i (\<lambda>_. sp_view_of u') (view s)" by (rule view_put_spu_state [OF i])
  have "exclusive_in (on_spu i (\<lambda>_. sp_view_of u') (view s)) = exclusive_in (view s)" by (rule ext) (simp add: on_spu_def exclusive_in_def)
  then show "ds_advanced s (put_sp i u' s)"
    using s v by (auto simp: ds_advanced_def slots_ok_nth p on_spu_def nth_list_update sp_is_def)
qed

text \<open>The next filter becomes the one that runs, or is done before it.\<close>

lemma promote_ok:
  assumes "spu_slots_ok ex v"
  shows "spu_slots_ok ex (v\<lparr>v_current := v_next v, v_next := None\<rparr>)"
proof (cases "v_next v")
  case None
  then show ?thesis using assms by (simp add: spu_slots_ok_def)
next
  case (Some k')
  then obtain k where "v_current v = Some k" using assms by (auto simp: spu_slots_ok_def split: option.splits)
  then show ?thesis using assms Some xor_two [of k] by (auto simp: spu_slots_ok_def)
qed

lemma reuse_ok:
  assumes "spu_slots_ok ex v" "v_next v = Some k'"
  shows "spu_slots_ok ex (v\<lparr>v_next := None, v_next_filt := v_next_filt v XOR 1, v_slots := other_slots (v_slots v)\<rparr>)"
    and "\<exists>k. v_current v = Some k \<and> \<not> ex (filter_of (v_filters v ! k))"
proof -
  obtain k where "v_current v = Some k" using assms by (auto simp: spu_slots_ok_def split: option.splits)
  then show "spu_slots_ok ex (v\<lparr>v_next := None, v_next_filt := v_next_filt v XOR 1, v_slots := other_slots (v_slots v)\<rparr>)"
      "\<exists>k. v_current v = Some k \<and> \<not> ex (filter_of (v_filters v ! k))"
    using assms xor_two [of k] by (simp_all add: spu_slots_ok_def)
qed

lemma promote_view: "sp_view_of (u\<lparr>sp_current := sp_next u, sp_next := None, sp_run_issued := False\<rparr>) = (sp_view_of u)\<lparr>v_current := v_next (sp_view_of u), v_next := None\<rparr>"
  by (simp add: sp_view_of_def)

lemma reuse_view: "sp_view_of (reuse_slots u) = (let v = sp_view_of u in v\<lparr>v_next := None, v_next_filt := v_next_filt v XOR 1, v_slots := other_slots (v_slots v)\<rparr>)"
  by (simp add: sp_view_of_def reuse_slots_def)

lemma handle_step:
  "vr (upd_sp i g s) Q \<longleftrightarrow> (\<forall>u. get_sp i s = Inr u \<longrightarrow> Q (put_sp i (g u) s))"
  by (auto simp: upd_sp_def vr_def res_simps)

lemma get_sp_is: "get_sp i s = Inr u \<longleftrightarrow> i < length (ds_spus (client s)) \<and> u = ds_spus (client s) ! i"
  by (auto simp: get_sp_def res_simps)

lemma sp_is_get: "get_sp i s = Inr u \<Longrightarrow> sp_is i u (view s)"
  by (simp add: get_sp_is sp_is_def view_def Let_def)

lemma promoted:
  assumes s: "slots_ok s" "v_current (v_spus (view s) ! i) = Some k" and g: "get_sp i s = Inr u"
  defines "t \<equiv> put_sp i (u\<lparr>sp_current := sp_next u, sp_next := None, sp_run_issued := False\<rparr>) s"
  shows "ds_advanced s t" "get_sp i t = Inr u' \<Longrightarrow> sp_current u' = Some k' \<Longrightarrow> v_current (v_spus (view t) ! i) = Some k'"
proof -
  note u = sp_is_get [OF g]
  have "spu_slots_ok (exclusive_in (view s)) (sp_view_of u)" using s(1) u by (auto simp: slots_ok_nth sp_is_def)
  then show "ds_advanced s t" unfolding t_def by (intro ds_advanced_put_sp [OF s(1) u]) (simp only: promote_view promote_ok)
  show "v_current (v_spus (view t) ! i) = Some k'" if "get_sp i t = Inr u'" "sp_current u' = Some k'"
    using sp_is_get [OF that(1)] that(2) by (simp add: sp_is_def sp_view_of_def)
qed

lemma reused:
  assumes s: "slots_ok s" "v_next (v_spus (view s) ! i) = Some k'" and g: "get_sp i s = Inr u"
  shows "ds_advanced s (put_sp i (reuse_slots u) s) \<and> (\<exists>k. v_current (v_spus (view (put_sp i (reuse_slots u) s)) ! i) = Some k) \<and>
     hosts (view (put_sp i (reuse_slots u) s)) i"
proof -
  note u = sp_is_get [OF g]
  have ok: "spu_slots_ok (exclusive_in (view s)) (sp_view_of u)" and n: "v_next (sp_view_of u) = Some k'" "i < length (v_spus (view s))"
    using s u by (auto simp: slots_ok_nth sp_is_def)
  note put = ds_advanced_put_sp [OF s(1) u, of "reuse_slots u"]
  obtain k where k: "v_current (sp_view_of u) = Some k" "\<not> exclusive_in (view s) (filter_of (v_filters (sp_view_of u) ! k))"
    using reuse_ok(2) [OF ok n(1)] by blast
  have "spu_slots_ok (exclusive_in (view s)) (sp_view_of (reuse_slots u))"
    using reuse_ok(1) [OF ok n(1)] by (simp only: reuse_view Let_def)
  note put = put [OF this]
  have "v_spus (view (put_sp i (reuse_slots u) s)) ! i = sp_view_of (reuse_slots u)" "v_flts (view (put_sp i (reuse_slots u) s)) = v_flts (view s)"
    using put(2) n(2) by (simp_all add: on_spu_def)
  then show ?thesis using put(1) k by (simp add: hosts_def exclusive_in_def reuse_view Let_def)
qed

lemma ds_advanced_refl: "slots_ok s \<Longrightarrow> view t = view s \<Longrightarrow> ds_advanced s t"
  by (blast intro: scheduled_ds_advanced scheduled_view)

lemma spu_is_free_slots: "slots_ok s \<Longrightarrow> vr (spu_is_free gm i s) (ds_advanced s)"
proof -
  assume s: "slots_ok s"
  have t: "slots_ok t" if "view t = view s" for t
    using that s slots_ok_view [of t s] by simp
  show ?thesis
    by (auto simp: spu_is_free_def Let_def intro!: schedule_free_spu_slots [THEN vr_mono] schedule_all_free_spu_slots [THEN vr_mono] t
      intro: scheduled_from [THEN scheduled_ds_advanced])
qed

lemma ds_handle_complete_slots:
  assumes "slots_ok s" "if current then v_current (v_spus (view s) ! i) = Some k else v_next (v_spus (view s) ! i) = Some k"
  shows "vr (ds_handle_complete gm n m i k current s) (ds_advanced s)"
  using assms
proof (induction m arbitrary: k current s)
  case (Suc m)
  have rec: "vr (ds_handle_complete gm n m i k' b t) (ds_advanced s)"
    if "ds_advanced s t" "if b then v_current (v_spus (view t) ! i) = Some k' else v_next (v_spus (view t) ! i) = Some k'" for k' b t
    by (rule vr_mono [OF Suc.IH]) (use that in \<open>auto simp: ds_advanced_def\<close>)
  have stay: "(if current then v_current (v_spus (view t) ! i) = Some k else v_next (v_spus (view t) ! i) = Some k) \<and> slots_ok t"
    if "scheduled s t" for t using that Suc.prems(2) by (auto simp: scheduled_def still_running_def split: if_splits)
  have promote: "vr (upd_sp i (\<lambda>u. u\<lparr>sp_current := sp_next u, sp_next := None, sp_run_issued := False\<rparr>) t) (\<lambda>s'. vr (get_sp i s') (\<lambda>u.
      vr (case sp_current u of Some k' \<Rightarrow> ds_handle_complete gm n m i k' True s' | None \<Rightarrow> spu_is_free gm i s') (ds_advanced s)))"
    if t: "scheduled s t" and current for t
  proof -
    have cur: "slots_ok t" "v_current (v_spus (view t) ! i) = Some k" using stay [OF t] \<open>current\<close> by simp_all
    have free: "vr (spu_is_free gm i t') (ds_advanced s)" if "ds_advanced t t'" for t'
      by (rule vr_mono [OF spu_is_free_slots]) (use that scheduled_ds_advanced [OF t] in \<open>auto simp: ds_advanced_def\<close>)
    show ?thesis
      unfolding handle_step
      by (auto simp: vr_def [of "get_sp i _"] split: option.splits intro!: free rec promoted [OF cur] scheduled_ds_advanced [OF t, THEN ds_advanced_trans])
  qed
  have reuse: "vr (upd_sp i reuse_slots t) (\<lambda>s'. vr (schedule_spu_next gm i None 0 s') (\<lambda>(_, t'). ds_advanced s t'))"
    if t: "scheduled s t" and "\<not> current" for t
  proof -
    have nxt: "slots_ok t" "v_next (v_spus (view t) ! i) = Some k" using stay [OF t] \<open>\<not> current\<close> by simp_all
    show ?thesis
      unfolding handle_step
    proof (intro allI impI)
      fix u assume "get_sp i t = Inr u"
      note r = reused [OF nxt this]
      then obtain j where j: "v_current (v_spus (view (put_sp i (reuse_slots u) t)) ! i) = Some j" by blast
      have "vr (schedule_spu_next gm i None 0 (put_sp i (reuse_slots u) t)) (\<lambda>(_, t'). scheduled (put_sp i (reuse_slots u) t) t')"
        by (rule schedule_spu_next_slots) (use r j in \<open>auto simp: ds_advanced_def\<close>)
      then show "vr (schedule_spu_next gm i None 0 (put_sp i (reuse_slots u) t)) (\<lambda>(_, t'). ds_advanced s t')"
        by (rule vr_mono) (use r in \<open>auto intro: scheduled_ds_advanced [OF t, THEN ds_advanced_trans] ds_advanced_trans scheduled_ds_advanced\<close>)
    qed
  qed
  have phase: "vr (run_phase gm n i k current t) (\<lambda>(_, t'). scheduled s t')" if "view t = view s" for t
    by (rule vr_mono [OF run_phase_slots])
      (use that Suc.prems slots_ok_view [of t s] in \<open>auto intro: scheduled_from split: if_splits\<close>)
  have cont: "vr (ds_handle_complete gm n m i k current t) (ds_advanced s)" if "scheduled s t" for t
    by (rule rec) (use stay [OF that] scheduled_ds_advanced [OF that] in auto)
  have after: "vr (retire n i k t) Q" if "scheduled s t" "\<And>t'. scheduled s t' \<Longrightarrow> Q t'" for t and Q :: "('a, ds_state) ppu \<Rightarrow> bool"
    by (intro vr that(2)) (rule scheduled_same [OF that(1)])
  have waits: "vr (get_sp i s) (\<lambda>u. vr (if \<not> current then Inr s else (case sp_next u of None \<Rightarrow> Inr s
      | Some k' \<Rightarrow> ds_handle_complete gm n m i k' False s)) (ds_advanced s))"
    using Suc.prems(1)
    by (auto simp: sp_is_def sp_view_of_def split: option.splits intro!: vr rec ds_advanced_refl)
  have ends: "vr (case r of Stop \<Rightarrow> Inr t | Again \<Rightarrow> ds_handle_complete gm n m i k current t
     | Filter_Done \<Rightarrow> rbind (retire n i k t) (\<lambda>s.
         if current
         then rbind (upd_sp i (\<lambda>u. u\<lparr>sp_current := sp_next u, sp_next := None, sp_run_issued := False\<rparr>) s) (\<lambda>s. rbind (get_sp i s) (\<lambda>u.
           case sp_current u of Some k' \<Rightarrow> ds_handle_complete gm n m i k' True s | None \<Rightarrow> spu_is_free gm i s))
         else rbind (upd_sp i reuse_slots s) (\<lambda>s. rbind (schedule_spu_next gm i None 0 s) (\<lambda>(_, s). Inr s)))) (ds_advanced s)"
    if t: "scheduled s t" for r t
  proof (cases r)
    case Filter_Done
    have "vr (if current
         then rbind (upd_sp i (\<lambda>u. u\<lparr>sp_current := sp_next u, sp_next := None, sp_run_issued := False\<rparr>) t') (\<lambda>s. rbind (get_sp i s) (\<lambda>u.
           case sp_current u of Some k' \<Rightarrow> ds_handle_complete gm n m i k' True s | None \<Rightarrow> spu_is_free gm i s))
         else rbind (upd_sp i reuse_slots t') (\<lambda>s. rbind (schedule_spu_next gm i None 0 s) (\<lambda>(_, s). Inr s))) (ds_advanced s)"
      if "scheduled s t'" for t'
      using promote [OF that] reuse [OF that] by (auto simp: case_prod_unfold)
    then show ?thesis unfolding Filter_Done phase_end.case vr_simps(3) by (rule after [OF t])
  qed (use t cont in \<open>simp_all add: scheduled_ds_advanced\<close>)
  have poll: "vr (rbind (spu_ack_completed b c s) (\<lambda>s. rbind (run_phase gm n i k current s) g)) (ds_advanced s)"
    if "\<And>r t. scheduled s t \<Longrightarrow> vr (g (r, t)) (ds_advanced s)" for b c g
    by (auto intro!: vr phase [THEN vr_mono] that)
  show ?case
    unfolding ds_handle_complete.simps vr_simps(3) [of "get_af i k s"] vr_simps(3) [of "spu_get_completed _ s"] vr_simps(5) [of "_ AND _ = _"]
    using poll [of "\<lambda>(r, s). case r of Stop \<Rightarrow> Inr s | Again \<Rightarrow> ds_handle_complete gm n m i k current s
     | Filter_Done \<Rightarrow> rbind (retire n i k s) (\<lambda>s.
         if current
         then rbind (upd_sp i (\<lambda>u. u\<lparr>sp_current := sp_next u, sp_next := None, sp_run_issued := False\<rparr>) s) (\<lambda>s. rbind (get_sp i s) (\<lambda>u.
           case sp_current u of Some k' \<Rightarrow> ds_handle_complete gm n m i k' True s | None \<Rightarrow> spu_is_free gm i s))
         else rbind (upd_sp i reuse_slots s) (\<lambda>s. rbind (schedule_spu_next gm i None 0 s) (\<lambda>(_, s). Inr s)))"] ends waits
    by (intro vr conjI impI) (simp_all only: prod.case vr_simps(3))
qed simp

end
