(* ===== verification/Ds_Group.thy ===== *)
theory Ds_Group
  imports Ds_Sizing
begin

text \<open>
  The group sizes of the dynamic scheduler (\<open>library/cell/ds/ds.c\<close>): the search ends, what it finds size_fits,
  and one iteration more does not.
\<close>

section \<open>Powers of two\<close>

lemma top_bit:
  fixes b :: u32
  assumes "b \<noteq> 0"
  shows "\<exists>p<32. count_ms_zeros b = Inr (of_nat (31 - p)) \<and> 2 ^ p \<le> unat b \<and> unat b < 2 ^ Suc p"
proof -
  let ?A = "{i. bit b i}"
  have fin: "finite ?A" by (rule finite_subset [of _ "{..<32}"]) (auto dest: bit_imp_le_length)
  have ne: "?A \<noteq> {}"
  proof
    assume "?A = {}"
    then have "b = 0" by (intro bit_eqI) auto
    then show False using assms by simp
  qed
  define p where "p = Max ?A"
  have p: "bit b p" "\<And>i. p < i \<Longrightarrow> \<not> bit b i"
    using Max_in [OF fin ne] Max_ge [OF fin] by (auto simp: p_def leD)
  then have p32: "p < 32" by (auto dest: bit_imp_le_length)
  have "[0..<32] = [0..<p] @ p # [Suc p..<32]"
    using p32 upt_add_eq_append [of 0 p "32 - p"] by (simp add: upt_conv_Cons)
  then have "rev [0..<32] = rev [Suc p..<32] @ p # rev [0..<p]" by simp
  then have "takeWhile (\<lambda>i. \<not> bit b i) (rev [0..<32]) = rev [Suc p..<32]"
    using p by (subst \<open>rev [0..<32] = _\<close>, subst takeWhile_append2) auto
  then have "count_ms_zeros b = Inr (of_nat (31 - p))" using assms by (simp add: count_ms_zeros_def)
  moreover have "unat b < 2 ^ Suc p"
  proof -
    have "take_bit (Suc p) b = b" 
    proof (rule bit_eqI)
      fix i
      show "bit (take_bit (Suc p) b) i = bit b i" using p(2) [of i] by (cases "p < i") (simp_all add: bit_take_bit_iff)
    qed
    then have "unat b = take_bit (Suc p) (unat b)" by (metis unsigned_take_bit_eq)
    then show ?thesis by (metis take_bit_nat_less_exp)
  qed
  moreover have "2 ^ p \<le> unat b"
  proof (rule ccontr)
    assume "\<not> 2 ^ p \<le> unat b"
    then have "take_bit p (unat b) = unat b" by (simp add: take_bit_nat_eq_self)
    then have "take_bit p b = b" by (metis unsigned_take_bit_eq unsigned_word_eqI)
    then show False using p(1) by (metis bit_take_bit_iff less_irrefl)
  qed
  ultimately show ?thesis using p32 by blast
qed

lemma next_power_2_ok:
  assumes "2 \<le> unat a" "unat a \<le> 2 ^ 31"
  shows "\<exists>e\<le>31. next_power_2 a = Inr (2 ^ e) \<and> unat a \<le> 2 ^ e \<and> 2 ^ e < 2 * unat a"
proof -
  have b: "unat (a - 1) = unat a - 1" using assms by (intro unat_minus_one) auto
  have "a - 1 \<noteq> 0"
  proof
    assume "a - 1 = 0"
    then have "unat (a - 1) = 0" by simp
    then show False using b assms by linarith
  qed
  then obtain p where p: "p < 32" "count_ms_zeros (a - 1) = Inr (of_nat (31 - p))" "2 ^ p \<le> unat a - 1" "unat a - 1 < 2 ^ Suc p"
    using top_bit [of "a - 1"] b by auto
  have "(2 :: nat) ^ p < 2 ^ 31" using p(3) assms by linarith
  then have p31: "p < 31" by (rule power_less_imp_less_exp [rotated]) simp
  have z: "(of_nat (31 - p) :: u32) - 1 = of_nat (30 - p)"
  proof -
    have "31 - p = Suc (30 - p)" using p31 by simp
    then show ?thesis by simp
  qed
  have u: "unat (of_nat (30 - p) :: u32) = 30 - p" by (rule unat_of_nat_small) simp
  have "drop_bit (30 - p) (0x80000000 :: u32) = 2 ^ Suc p"
  proof -
    have "unat (drop_bit (30 - p) (0x80000000 :: u32)) = 2 ^ 31 div 2 ^ (30 - p)"
      by (simp only: unat_drop_bit_eq) (simp add: drop_bit_eq_div)
    also have "(2 :: nat) ^ 31 = 2 ^ Suc p * 2 ^ (30 - p)" using p31 by (simp flip: power_add)
    also have "\<dots> div 2 ^ (30 - p) = (2 :: nat) ^ Suc p" by simp
    also have "\<dots> = unat (of_nat (2 ^ Suc p) :: u32)"
    proof (rule unat_of_nat_small [symmetric])
      show "2 ^ Suc p < (2 :: nat) ^ 32" by (rule power_strict_increasing) (use p31 in simp_all)
    qed
    finally show ?thesis by (metis of_nat_numeral of_nat_power unsigned_word_eqI)
  qed
  then have "next_power_2 a = Inr (2 ^ Suc p)"
    using p(2) z u less_eq_Suc_le by (simp add: next_power_2_def Let_def word_less_nat_alt ensure_def)
  moreover have "unat a \<le> 2 ^ Suc p" "2 ^ Suc p < 2 * unat a" using p(3,4) assms by auto
  ultimately show ?thesis using p31 by (intro exI [of _ "Suc p"]) simp
qed


section \<open>The two loops\<close>

definition size_fits :: "(u32 \<Rightarrow> u32 res) \<Rightarrow> u32 \<Rightarrow> u32 \<Rightarrow> bool" where
  "size_fits tot max_size k \<longleftrightarrow> (case tot k of Inl _ \<Rightarrow> False | Inr t \<Rightarrow> t \<le> max_size)"

lemma power_2_word: "e < 32 \<Longrightarrow> unat (2 ^ e :: u32) = 2 ^ e"
proof -
  assume "e < 32"
  then have "(2 :: nat) ^ e < 2 ^ 32" by (intro power_strict_increasing) simp_all
  then have "unat (of_nat (2 ^ e) :: u32) = 2 ^ e" by (rule unat_of_nat_small)
  then show ?thesis by simp
qed

lemma double_loop_ok:
  assumes "m < 32" "\<And>e. e \<le> m \<Longrightarrow> \<exists>t. tot (2 ^ e) = Inr t" "\<And>e. e < m \<Longrightarrow> size_fits tot mx (2 ^ e)" "\<not> size_fits tot mx (2 ^ m)"
  shows "e \<le> m \<Longrightarrow> m - e < n \<Longrightarrow> double_loop n tot mx (2 ^ e) = Inr (2 ^ m)"
proof (induction n arbitrary: e)
  case 0
  then show ?case by simp
next
  case (Suc n)
  obtain t where t: "tot (2 ^ e) = Inr t" using assms(2) Suc.prems(1) by blast
  show ?case
  proof (cases "e = m")
    case True
    then show ?thesis using t assms(4) by (simp add: size_fits_def)
  next
    case False
    then have "t \<le> mx" using assms(3) [of e] t Suc.prems(1) by (simp add: size_fits_def)
    moreover have "push_bit 1 (2 ^ e :: u32) = 2 ^ Suc e" by (simp add: push_bit_eq_mult mult.commute)
    ultimately show ?thesis using t Suc.IH [of "Suc e"] Suc.prems False by (simp del: power_Suc)
  qed
qed

lemma midpoint:
  fixes i j :: u32
  assumes "unat i < unat j" "unat j < 2 ^ 31"
  shows "unat (drop_bit 1 (i + j + 1)) = (unat i + unat j + 1) div 2"
proof -
  have 1: "unat (i + j) = unat i + unat j" using assms by (simp add: unat_word_ariths)
  have "unat (i + j + 1) = unat i + unat j + 1" using assms by (simp add: unat_word_ariths(1) [of "i + j"] 1)
  then show ?thesis by (simp only: unat_drop_bit_eq) (simp add: drop_bit_eq_div)
qed

lemma bisect_loop_ok:
  assumes "\<And>k. unat i0 < unat k \<Longrightarrow> unat k \<le> unat j0 \<Longrightarrow> \<exists>t. tot k = Inr t" "unat j0 < 2 ^ 31"
  shows "unat i0 \<le> unat i \<Longrightarrow> unat i \<le> unat j \<Longrightarrow> unat j \<le> unat j0 \<Longrightarrow> unat j - unat i < 2 ^ n \<Longrightarrow>
    size_fits tot mx i \<Longrightarrow> \<not> size_fits tot mx (j + 1) \<Longrightarrow>
    \<exists>r. bisect_loop (Suc n) tot mx i j = Inr r \<and> size_fits tot mx r \<and> \<not> size_fits tot mx (r + 1) \<and> unat i \<le> unat r \<and> unat r \<le> unat j"
proof (induction n arbitrary: i j)
  case 0
  then have "i = j" by (simp add: word_unat_eq_iff)
  then show ?case using 0 by simp
next
  case (Suc n)
  show ?case
  proof (cases "i = j")
    case True
    then show ?thesis using Suc.prems by simp
  next
    case False
    then have lt: "unat i < unat j" using Suc.prems(2) by (metis nat_less_le word_unat_eq_iff)
    define k where "k = drop_bit 1 (i + j + 1)"
    have step: "bisect_loop (Suc (Suc n)) tot mx i j = rbind (tot k) (\<lambda>t.
        if t \<le> mx then bisect_loop (Suc n) tot mx k j else bisect_loop (Suc n) tot mx i (k - 1))"
      by (subst bisect_loop.simps(2)) (simp only: False if_False Let_def k_def)
    have k: "unat k = (unat i + unat j + 1) div 2"
      unfolding k_def by (rule midpoint [OF lt]) (use Suc.prems(3) assms(2) in linarith)
    then have kb: "unat i < unat k" "unat k \<le> unat j" using lt by linarith+
    obtain t where t: "tot k = Inr t" using assms(1) [of k] kb Suc.prems(1,3) by fastforce
    have k1: "unat (k - 1) = unat k - 1" by (rule unat_minus_one) (use kb(1) in auto)
    show ?thesis
    proof (cases "t \<le> mx")
      case True
      have "unat j - unat k < 2 ^ n" using Suc.prems(4) k lt by simp
      then obtain r where "bisect_loop (Suc n) tot mx k j = Inr r" "size_fits tot mx r" "\<not> size_fits tot mx (r + 1)" "unat k \<le> unat r" "unat r \<le> unat j"
        using Suc.IH [of k j] Suc.prems kb t True by (auto simp: size_fits_def simp del: bisect_loop.simps)
      then show ?thesis using t True step kb(1) by (auto simp del: bisect_loop.simps)
    next
      case neg: False
      have "unat (k - 1) - unat i < 2 ^ n" using Suc.prems(4) k k1 lt by simp
      moreover have "\<not> size_fits tot mx (k - 1 + 1)" using t neg by (simp add: size_fits_def)
      moreover have "unat i \<le> unat (k - 1)" "unat (k - 1) \<le> unat j0" using kb k1 Suc.prems(3) by linarith+
      ultimately obtain r where "bisect_loop (Suc n) tot mx i (k - 1) = Inr r" "size_fits tot mx r" "\<not> size_fits tot mx (r + 1)"
        "unat i \<le> unat r" "unat r \<le> unat (k - 1)"
        using Suc.IH [of i "k - 1"] Suc.prems(1,5) by blast
      then show ?thesis using t neg step kb k1 by (auto simp del: bisect_loop.simps)
    qed
  qed
qed

text \<open>Where the sizes are defined as far as they are looked at, the search ends at a boundary.\<close>

lemma max_iters_boundary:
  assumes some: "\<not> size_fits tot mx (2 ^ M)" "M < 32"
    and total: "\<And>e k. e \<le> M \<Longrightarrow> (\<And>e'. e' < e \<Longrightarrow> size_fits tot mx (2 ^ e')) \<Longrightarrow> 0 < unat k \<Longrightarrow> unat k \<le> 2 ^ e \<Longrightarrow> \<exists>t. tot k = Inr t"
  shows "\<exists>r. max_iters_loops tot mx = Inr r \<and> (r = 0 \<or> size_fits tot mx r) \<and> (\<exists>t>mx. tot (r + 1) = Inr t)"
proof -
  define m where "m = (LEAST e. \<not> size_fits tot mx (2 ^ e))"
  have m: "\<not> size_fits tot mx (2 ^ m)" "\<And>e. e < m \<Longrightarrow> size_fits tot mx (2 ^ e)" "m \<le> M"
    using LeastI [of "\<lambda>e. \<not> size_fits tot mx (2 ^ e)", OF some(1)] not_less_Least Least_le [of "\<lambda>e. \<not> size_fits tot mx (2 ^ e)", OF some(1)]
    unfolding m_def by blast+
  have m32: "m < 32" using m(3) some(2) by simp
  have def: "\<exists>t. tot k = Inr t" if "0 < unat k" "unat k \<le> 2 ^ m" for k using total [OF m(3,2)] that by blast
  have "double_loop 33 tot mx (2 ^ 0) = Inr (2 ^ m)"
  proof (rule double_loop_ok [OF m32 _ m(2) m(1)])
    fix e assume "e \<le> m"
    then have "unat (2 ^ e :: u32) = 2 ^ e" "(2 :: nat) ^ e \<le> 2 ^ m" using m32 by (simp_all add: power_2_word power_increasing)
    then show "\<exists>t. tot (2 ^ e) = Inr t" by (intro def) simp_all
  qed (use m32 in simp_all)
  then have eq: "max_iters_loops tot mx = (if (2 :: u32) ^ m = 1 then Inr 0 else bisect_loop 33 tot mx (drop_bit 1 (2 ^ m)) (2 ^ m - 1))"
    by (simp add: max_iters_loops_def)
  show ?thesis
  proof (cases m)
    case 0
    then show ?thesis using eq m(1) def [of 1] by (auto simp: size_fits_def)
  next
    case (Suc e)
    let ?i = "2 ^ e :: u32" and ?j = "2 ^ m - 1 :: u32"
    have i: "drop_bit 1 (2 ^ m :: u32) = ?i"
    proof -
      have "unat (drop_bit 1 (2 ^ m :: u32)) = unat ?i"
        using power_2_word [of m] power_2_word [of e] m32 Suc by (simp only: unat_drop_bit_eq) (simp add: drop_bit_eq_div)
      then show ?thesis by (rule unsigned_word_eqI)
    qed
    have u: "unat ?i = 2 ^ e" "unat (2 ^ m :: u32) = 2 ^ m" using m32 Suc by (simp_all add: power_2_word del: power_Suc)
    have ne: "(2 :: u32) ^ m \<noteq> 1" "(2 :: u32) ^ m \<noteq> 0"
    proof -
      have "(2 :: nat) \<le> 2 ^ m" using Suc by simp
      then have "unat (2 ^ m :: u32) \<noteq> 1" "unat (2 ^ m :: u32) \<noteq> 0" unfolding u(2) by linarith+
      then show "(2 :: u32) ^ m \<noteq> 1" "(2 :: u32) ^ m \<noteq> 0" by (metis unsigned_1, metis unsigned_0)
    qed
    have j: "unat ?j = 2 ^ m - 1" using unat_minus_one [OF ne(2)] u(2) by simp
    have le: "(2 :: nat) ^ m \<le> 2 ^ 31" using m32 by (intro power_increasing) simp_all
    obtain r where r: "bisect_loop (Suc 32) tot mx ?i ?j = Inr r" "size_fits tot mx r" "\<not> size_fits tot mx (r + 1)" "unat r \<le> unat ?j"
    proof -
      have "unat ?i \<le> unat ?j" "unat ?j < 2 ^ 31" "unat ?j - unat ?i < 2 ^ 32" using u(1) j le Suc by auto
      moreover have "\<exists>t. tot k = Inr t" if "unat ?i < unat k" "unat k \<le> unat ?j" for k
        by (rule def) (use that j in linarith)+
      moreover have "size_fits tot mx ?i" "\<not> size_fits tot mx (?j + 1)" using m(1,2) Suc by simp_all
      ultimately show ?thesis using bisect_loop_ok [of ?i ?j tot ?i ?j 32 mx] that by blast
    qed
    have "(0 :: nat) < 2 ^ m" by simp
    then have "unat r + 1 \<le> 2 ^ m" using r(4) j by linarith
    moreover from this have "unat (r + 1) = unat r + 1" using le by (simp add: unat_word_ariths)
    ultimately obtain t where "tot (r + 1) = Inr t" using def [of "r + 1"] by auto
    then show ?thesis using eq ne(1) i r by (auto simp: size_fits_def not_le)
  qed
qed

section \<open>Tapes\<close>

text \<open>A tape with fixed size \<open>b\<close> and rate \<open>p\<close>: its buffer holds two groups, rounded up.\<close>

definition tape_size_ok :: "(u32 \<Rightarrow> u32 res) \<Rightarrow> nat \<Rightarrow> nat \<Rightarrow> bool" where
  "tape_size_ok z b p \<longleftrightarrow> p \<noteq> 0 \<and> b + 2 * p + 128 \<le> 2 ^ 27 \<and>
     (\<forall>k. 0 < unat k \<longrightarrow> b + 2 * (p * unat k) + 128 \<le> 2 ^ 27 \<longrightarrow> (\<exists>e\<le>27. z k = Inr (2 ^ e) \<and> b + 2 * (p * unat k) \<le> 2 ^ e))"

lemma unat_mult_small: "unat a * unat b < 2 ^ 32 \<Longrightarrow> unat (a * b) = unat a * unat b" for a b :: u32
  by (simp add: unat_word_ariths)

lemma power_less_pow: "(2 :: nat) ^ e < 2 ^ n \<Longrightarrow> e < n"
  using power_less_imp_less_exp [of "2 :: nat" e n] by simp

lemma size_bounds: "0 < p \<Longrightarrow> x \<le> 127 \<Longrightarrow> b + 2 * p + 128 \<le> 2 ^ 27 \<Longrightarrow> 2 \<le> b + 2 * p + x \<and> b + 2 * p + x + 1 \<le> 2 ^ 31" for p :: nat
  by simp

lemma in_buf_size_ok:
  assumes "ch_pop c \<noteq> 0" "unat (ch_in_size c) + 2 * unat (ch_pop c) + 128 \<le> 2 ^ 27"
  shows "tape_size_ok (in_buf_size c) (unat (ch_in_size c)) (unat (ch_pop c))"
  unfolding tape_size_ok_def
proof (intro conjI allI impI)
  show "unat (ch_pop c) \<noteq> 0" using assms(1) by (simp add: unat_eq_zero)
  fix k :: u32 assume k: "0 < unat k" "unat (ch_in_size c) + 2 * (unat (ch_pop c) * unat k) + 128 \<le> 2 ^ 27"
  let ?p = "unat (ch_pop c) * unat k" and ?x = "if ch_pop c * k \<ge> CACHE_SIZE then 0 else CACHE_MASK"
  have p: "unat (ch_pop c * k) = ?p" by (rule unat_mult_small) (use k(2) in simp)
  have "unat (ch_pop c * k * 2) = ?p * 2" using unat_mult_small [of "ch_pop c * k" 2] p k(2) by (simp add: mult.commute)
  then have s1: "unat (ch_in_size c + ch_pop c * k * 2) = unat (ch_in_size c) + 2 * ?p" using k(2) by (simp add: unat_word_ariths)
  have x: "unat ?x \<le> 127" "?p < 128 \<Longrightarrow> unat ?x = 127" using p by (auto simp: CACHE_SIZE_def CACHE_MASK_def word_le_nat_alt)
  have a: "unat (ch_in_size c + ch_pop c * k * 2 + ?x) = unat (ch_in_size c) + 2 * ?p + unat ?x"
    using s1 x(1) k(2) by (simp add: unat_word_ariths(1) [of "ch_in_size c + ch_pop c * k * 2"])
  have p0: "0 < ?p" using k(1) assms(1) by (simp add: unat_gt_0)
  have bounds: "2 \<le> unat (ch_in_size c) + 2 * ?p + unat ?x" "unat (ch_in_size c) + 2 * ?p + unat ?x \<le> 2 ^ 31"
    using size_bounds [OF p0 x(1) k(2)] by linarith+
  have "\<exists>e\<le>31. next_power_2 (ch_in_size c + ch_pop c * k * 2 + ?x) = Inr (2 ^ e) \<and>
      unat (ch_in_size c) + 2 * ?p + unat ?x \<le> 2 ^ e \<and> 2 ^ e < 2 * (unat (ch_in_size c) + 2 * ?p + unat ?x)"
    unfolding a [symmetric] by (rule next_power_2_ok) (simp_all only: a bounds)
  then obtain e where e: "next_power_2 (ch_in_size c + ch_pop c * k * 2 + ?x) = Inr (2 ^ e)"
    "unat (ch_in_size c) + 2 * ?p + unat ?x \<le> 2 ^ e" "2 ^ e < 2 * (unat (ch_in_size c) + 2 * ?p + unat ?x)" by blast
  have "(2 :: nat) ^ e < 2 ^ 28" using e(3) x(1) k(2) by simp
  then have "e \<le> 27" using power_less_pow [of e 28] by simp
  then show "\<exists>e\<le>27. in_buf_size c k = Inr (2 ^ e) \<and> unat (ch_in_size c) + 2 * ?p \<le> 2 ^ e"
    using e by (intro exI [of _ e]) (simp add: in_buf_size_def Let_def)
qed (use assms(2) in simp)

lemma out_buf_size_ok:
  assumes "ch_push c \<noteq> 0" "unat (ch_out_size c) + 2 * unat (ch_push c) + 128 \<le> 2 ^ 27"
  shows "tape_size_ok (out_buf_size c) (unat (ch_out_size c)) (unat (ch_push c))"
  unfolding tape_size_ok_def
proof (intro conjI allI impI)
  show "unat (ch_push c) \<noteq> 0" using assms(1) by (simp add: unat_eq_zero)
  fix k :: u32 assume k: "0 < unat k" "unat (ch_out_size c) + 2 * (unat (ch_push c) * unat k) + 128 \<le> 2 ^ 27"
  let ?p = "unat (ch_push c) * unat k" and ?x = "if ch_push c * k \<ge> CACHE_SIZE + QWORD_MASK then 0 else CACHE_MASK"
  have p: "unat (ch_push c * k) = ?p" by (rule unat_mult_small) (use k(2) in simp)
  have p2: "unat (ch_push c * k * 2) = ?p * 2" using unat_mult_small [of "ch_push c * k" 2] p k(2) by (simp add: mult.commute)
  have x: "unat ?x \<le> 127" by (auto simp: CACHE_MASK_def)
  have "unat (out_max_buffered c k) = unat (ch_out_size c) + unat ?x"
    using x k(2) by (simp add: out_max_buffered_def unat_word_ariths)
  then have m: "unat (ch_push c * k * 2 + out_max_buffered c k) = 2 * ?p + (unat (ch_out_size c) + unat ?x)"
    using p2 x k(2) by (simp add: unat_word_ariths(1) [of "ch_push c * k * 2"])
  have a: "unat (ch_push c * k * 2 + out_max_buffered c k + 1) = 2 * ?p + (unat (ch_out_size c) + unat ?x) + 1"
    using m x k(2) by (simp add: unat_word_ariths(1) [of "ch_push c * k * 2 + out_max_buffered c k"])
  have p0: "0 < ?p" using k(1) assms(1) by (simp add: unat_gt_0)
  have bounds: "2 \<le> 2 * ?p + (unat (ch_out_size c) + unat ?x) + 1" "2 * ?p + (unat (ch_out_size c) + unat ?x) + 1 \<le> 2 ^ 31"
    using size_bounds [OF p0 x k(2)] by linarith+
  have "\<exists>e\<le>31. next_power_2 (ch_push c * k * 2 + out_max_buffered c k + 1) = Inr (2 ^ e) \<and>
      2 * ?p + (unat (ch_out_size c) + unat ?x) + 1 \<le> 2 ^ e \<and> 2 ^ e < 2 * (2 * ?p + (unat (ch_out_size c) + unat ?x) + 1)"
    unfolding a [symmetric] by (rule next_power_2_ok) (simp_all only: a bounds)
  then obtain e where e: "out_buf_size c k = Inr (2 ^ e)"
    "2 * ?p + (unat (ch_out_size c) + unat ?x) + 1 \<le> 2 ^ e" "2 ^ e < 2 * (2 * ?p + (unat (ch_out_size c) + unat ?x) + 1)"
    by (auto simp: out_buf_size_def)
  have "(2 :: nat) ^ e < 2 ^ 28" using e(3) x k(2) by simp
  then have "e \<le> 27" using power_less_pow [of e 28] by simp
  then show "\<exists>e\<le>27. out_buf_size c k = Inr (2 ^ e) \<and> unat (ch_out_size c) + 2 * ?p \<le> 2 ^ e"
    using e by (intro exI [of _ e]) simp
qed (use assms(2) in simp)

section \<open>The sizes of all tapes\<close>

definition sum_sizes :: "(u32 \<Rightarrow> u32 res) list \<Rightarrow> u32 \<Rightarrow> u32 res" where
  "sum_sizes zs k = rfold (\<lambda>z t. rbind (z k) (\<lambda>n. Inr (t + n))) zs 0"

lemma sum_from:
  fixes t0 :: u32
  assumes "\<forall>z\<in>set zs. \<exists>n. z k = Inr n \<and> unat n \<le> 2 ^ 27" "unat t0 + length zs * 2 ^ 27 < 2 ^ 32"
  shows "\<exists>t. rfold (\<lambda>z t. rbind (z k) (\<lambda>n. Inr (t + n))) zs t0 = Inr t \<and> unat t0 \<le> unat t \<and>
    (\<forall>z\<in>set zs. \<forall>n. z k = Inr n \<longrightarrow> unat n \<le> unat t)"
  using assms
proof (induction zs arbitrary: t0)
  case Nil
  then show ?case by simp
next
  case (Cons z zs)
  obtain n where n: "z k = Inr n" "unat n \<le> 2 ^ 27" using Cons.prems(1) by auto
  have "unat t0 + unat n < 2 ^ 32" using n(2) Cons.prems(2) by simp
  then have u: "unat (t0 + n) = unat t0 + unat n" by (simp add: unat_word_ariths)
  have "unat (t0 + n) + length zs * 2 ^ 27 < 2 ^ 32" using u n(2) Cons.prems(2) by simp
  then obtain t where "rfold (\<lambda>z t. rbind (z k) (\<lambda>n. Inr (t + n))) zs (t0 + n) = Inr t" "unat (t0 + n) \<le> unat t"
    "\<forall>z\<in>set zs. \<forall>n. z k = Inr n \<longrightarrow> unat n \<le> unat t"
    using Cons.IH [of "t0 + n"] Cons.prems(1) by auto
  then show ?case using n(1) u by auto
qed

lemma sum_sizes_ok:
  assumes "\<forall>z\<in>set zs. \<exists>n. z k = Inr n \<and> unat n \<le> 2 ^ 27" "length zs \<le> 30"
  shows "\<exists>t. sum_sizes zs k = Inr t \<and> (\<forall>z\<in>set zs. \<forall>n. z k = Inr n \<longrightarrow> unat n \<le> unat t)"
  using sum_from [of zs k 0, OF assms(1)] assms(2) by (auto simp: sum_sizes_def)

lemma tapes_boundary:
  assumes zs: "zs \<noteq> []" "length zs \<le> 30" "\<And>z. z \<in> set zs \<Longrightarrow> \<exists>b p. tape_size_ok z b p" and mx: "unat mx \<le> 2 ^ 17"
  shows "\<exists>r. max_iters_loops (sum_sizes zs) mx = Inr r \<and> (r = 0 \<or> size_fits (sum_sizes zs) mx r) \<and> (\<exists>t>mx. sum_sizes zs (r + 1) = Inr t)"
proof -
  let ?fits = "size_fits (sum_sizes zs) mx"
  obtain b p where bp: "\<And>z. z \<in> set zs \<Longrightarrow> tape_size_ok z (b z) (p z)" using zs(3) by metis
  have sized: "\<exists>n. z k = Inr n \<and> unat n \<le> 2 ^ 27 \<and> b z + 2 * (p z * unat k) \<le> unat n"
    if zk: "z \<in> set zs" "0 < unat k" "b z + 2 * (p z * unat k) + 128 \<le> 2 ^ 27" for z and k :: u32
  proof -
    obtain e where e: "e \<le> 27" "z k = Inr (2 ^ e)" "b z + 2 * (p z * unat k) \<le> 2 ^ e"
      using bp [OF zk(1)] zk(2,3) unfolding tape_size_ok_def by blast
    moreover have "unat (2 ^ e :: u32) = 2 ^ e" using e(1) by (simp add: power_2_word)
    moreover have "(2 :: nat) ^ e \<le> 2 ^ 27" using e(1) by (intro power_increasing) simp_all
    ultimately show ?thesis by simp
  qed
  have pow: "unat (2 ^ e :: u32) = 2 ^ e" if "e \<le> 17" for e using that by (simp add: power_2_word)
  have bound: "e \<le> 17 \<Longrightarrow> (\<And>e'. e' < e \<Longrightarrow> ?fits (2 ^ e')) \<Longrightarrow> z \<in> set zs \<Longrightarrow> b z + 2 * (p z * 2 ^ e) + 128 \<le> 2 ^ 27" for e z
  proof (induction e arbitrary: z)
    case 0
    then show ?case using bp [OF \<open>z \<in> set zs\<close>] by (simp add: tape_size_ok_def)
  next
    case (Suc e)
    have all: "\<exists>n. z k = Inr n \<and> unat n \<le> 2 ^ 27 \<and> b z + 2 * (p z * unat k) \<le> unat n" if "z \<in> set zs" "k = 2 ^ e" for z k
      by (rule sized) (use Suc.IH [OF _ _ that(1)] Suc.prems(1,2) that pow [of e] in auto)
    then obtain t where t: "sum_sizes zs (2 ^ e) = Inr t" "\<forall>z\<in>set zs. \<forall>n. z (2 ^ e) = Inr n \<longrightarrow> unat n \<le> unat t"
      using sum_sizes_ok [OF _ zs(2), of "2 ^ e"] all by blast
    have "unat t \<le> 2 ^ 17" using Suc.prems(2) [of e] t(1) mx by (simp add: size_fits_def word_le_nat_alt)
    moreover obtain n where "z (2 ^ e) = Inr n" "b z + 2 * (p z * 2 ^ e) \<le> unat n"
      using all [OF Suc.prems(3) refl] pow [of e] Suc.prems(1) by auto
    ultimately have "b z + 2 * (p z * 2 ^ e) \<le> 2 ^ 17" using t(2) Suc.prems(3) by fastforce
    then show ?case by simp
  qed
  have defined: "\<exists>t. sum_sizes zs k = Inr t" "z \<in> set zs \<Longrightarrow> \<exists>n t. z k = Inr n \<and> b z + 2 * (p z * unat k) \<le> unat n \<and> sum_sizes zs k = Inr t \<and> unat n \<le> unat t"
    if "e \<le> 17" "\<And>e'. e' < e \<Longrightarrow> ?fits (2 ^ e')" "0 < unat k" "unat k \<le> 2 ^ e" for e k z
  proof -
    have all: "\<exists>n. z k = Inr n \<and> unat n \<le> 2 ^ 27 \<and> b z + 2 * (p z * unat k) \<le> unat n" if "z \<in> set zs" for z
    proof (rule sized [OF that \<open>0 < unat k\<close>])
      have "p z * unat k \<le> p z * 2 ^ e" using \<open>unat k \<le> 2 ^ e\<close> by simp
      then show "b z + 2 * (p z * unat k) + 128 \<le> 2 ^ 27" using bound [OF \<open>e \<le> 17\<close> \<open>\<And>e'. e' < e \<Longrightarrow> ?fits (2 ^ e')\<close> that] by linarith
    qed
    then obtain t where "sum_sizes zs k = Inr t" "\<forall>z\<in>set zs. \<forall>n. z k = Inr n \<longrightarrow> unat n \<le> unat t"
      using sum_sizes_ok [OF _ zs(2), of k] all by blast
    then show "\<exists>t. sum_sizes zs k = Inr t" "z \<in> set zs \<Longrightarrow> \<exists>n t. z k = Inr n \<and> b z + 2 * (p z * unat k) \<le> unat n \<and> sum_sizes zs k = Inr t \<and> unat n \<le> unat t"
      using all by blast+
  qed
  have "\<exists>M\<le>17. \<not> ?fits (2 ^ M)"
  proof (rule ccontr)
    assume "\<not> ?thesis"
    then have f: "\<And>e. e \<le> 17 \<Longrightarrow> ?fits (2 ^ e)" by blast
    obtain z where z: "z \<in> set zs" using zs(1) by (meson hd_in_set)
    have "\<exists>n t. z (2 ^ 17) = Inr n \<and> b z + 2 * (p z * unat (2 ^ 17 :: u32)) \<le> unat n \<and> sum_sizes zs (2 ^ 17) = Inr t \<and> unat n \<le> unat t"
      by (rule defined(2) [OF _ f _ _ z, of 17]) simp_all
    then obtain n t :: u32 where n: "b z + 2 * (p z * unat (2 ^ 17 :: u32)) \<le> unat n" "sum_sizes zs (2 ^ 17) = Inr t" "unat n \<le> unat t" by blast
    have "unat t \<le> 2 ^ 17" using f [of 17] n(2) mx by (simp add: size_fits_def word_le_nat_alt)
    moreover have "1 \<le> p z" using bp [OF z] by (simp add: tape_size_ok_def)
    ultimately show False using n(1,3) by simp
  qed
  then obtain M where M: "M \<le> 17" "\<not> ?fits (2 ^ M)" by blast
  show ?thesis
  proof -
    have "\<exists>t. sum_sizes zs k = Inr t" if "e \<le> M" "\<And>e'. e' < e \<Longrightarrow> ?fits (2 ^ e')" "0 < unat k" "unat k \<le> 2 ^ e" for e k
      by (rule defined(1) [OF _ that(2,3,4)]) (use that(1) M(1) in simp)
    then show ?thesis using max_iters_boundary [OF M(2)] M(1) by fastforce
  qed
qed

section \<open>The search for a filter\<close>

definition tape_sizes :: "channel list \<Rightarrow> ds_filter \<Rightarrow> bool \<Rightarrow> bool \<Rightarrow> (u32 \<Rightarrow> u32 res) list" where
  "tape_sizes chs f inputs outputs =
     (if inputs then map (\<lambda>i. in_buf_size (chs ! (df_inputs f ! i))) [0..<n_inputs f] else []) @
     (if outputs then map (\<lambda>i. out_buf_size (chs ! (df_outputs f ! i))) [0..<n_outputs f] else [])"

definition group_tapes_ok :: "channel list \<Rightarrow> ds_filter \<Rightarrow> bool" where
  "group_tapes_ok chs f \<longleftrightarrow> n_inputs f \<le> 15 \<and> n_outputs f \<le> 15 \<and>
     (\<forall>i<n_inputs f. i < length (df_inputs f) \<and> df_inputs f ! i < length chs \<and> ch_pop (chs ! (df_inputs f ! i)) \<noteq> 0 \<and>
        unat (ch_in_size (chs ! (df_inputs f ! i))) + 2 * unat (ch_pop (chs ! (df_inputs f ! i))) + 128 \<le> 2 ^ 27) \<and>
     (\<forall>i<n_outputs f. i < length (df_outputs f) \<and> df_outputs f ! i < length chs \<and> ch_push (chs ! (df_outputs f ! i)) \<noteq> 0 \<and>
        unat (ch_out_size (chs ! (df_outputs f ! i))) + 2 * unat (ch_push (chs ! (df_outputs f ! i))) + 128 \<le> 2 ^ 27)"

lemma rfold_sum_shift:
  "rfold (\<lambda>z t. rbind (g z) (\<lambda>n. Inr (t + n))) zs t0 = rbind (rfold (\<lambda>z t. rbind (g z) (\<lambda>n. Inr (t + n))) zs 0) (\<lambda>t. Inr (t0 + t))"
  for t0 :: u32
proof (induction zs arbitrary: t0)
  case Nil
  then show ?case by simp
next
  case (Cons z zs)
  show ?case
  proof (cases "g z")
    case (Inl e)
    then show ?thesis by simp
  next
    case (Inr n)
    show ?thesis using Cons.IH [of "t0 + n"] Cons.IH [of n] Inr by (simp add: rbind_assoc add.assoc)
  qed
qed

lemma sum_sizes_append:
  "sum_sizes (xs @ ys) k = rbind (sum_sizes xs k) (\<lambda>t1. rbind (sum_sizes ys k) (\<lambda>t2. Inr (t1 + t2)))"
  unfolding sum_sizes_def rfold_append
  by (rule arg_cong [where f = "rbind _"], rule ext) (rule rfold_sum_shift)

lemma rfold_const_state:
  assumes "\<And>i t. i \<in> set xs \<Longrightarrow> g i (t, s) = rbind (h i) (\<lambda>n. Inr (t + n, s))"
  shows "rfold g xs (t0, s) = rbind (rfold (\<lambda>i t. rbind (h i) (\<lambda>n. Inr (t + n))) xs t0) (\<lambda>t. Inr (t, s))"
  using assms
proof (induction xs arbitrary: t0)
  case Nil
  then show ?case by simp
next
  case (Cons x xs)
  then show ?case by (cases "h x") simp_all
qed

lemma buffering_total_eq:
  assumes "group_tapes_ok (ds_channels (client s)) f"
  shows "buffering_total fa f inputs outputs s k = sum_sizes (tape_sizes (ds_channels (client s)) f inputs outputs) k"
proof -
  let ?chs = "ds_channels (client s)"
  have i: "calc_input_buffering f k False s = rbind (sum_sizes (map (\<lambda>i. in_buf_size (?chs ! (df_inputs f ! i))) [0..<n_inputs f]) k) (\<lambda>t. Inr (t, s))"
    unfolding calc_input_buffering_def sum_sizes_def rfold_map
    by (rule rfold_const_state) (use assms in \<open>simp add: group_tapes_ok_def get_ch_in\<close>)
  have "rfold (\<lambda>i (tot, buffering, s). rbind (index_res (df_outputs f) i) (\<lambda>a. rbind (get_ch a s) (\<lambda>c.
       rbind (out_buf_size c k) (\<lambda>n.
         if False then rbind (udiv_res (out_max_buffered c k + (ch_push c - 1)) (ch_push c)) (\<lambda>q.
           Inr (tot + n, max buffering q, put_ch a (c\<lparr>ch_out_size := n\<rparr>) s))
         else Inr (tot + n, buffering, s)))))
       [0..<n_outputs f] (0, 0, s) = rbind (sum_sizes (map (\<lambda>i. out_buf_size (?chs ! (df_outputs f ! i))) [0..<n_outputs f]) k) (\<lambda>t. Inr (t, 0, s))"
    unfolding sum_sizes_def rfold_map
    by (rule rfold_const_state) (use assms in \<open>simp add: group_tapes_ok_def get_ch_in\<close>)
  then have o: "calc_output_buffering fa f k False s = rbind (sum_sizes (map (\<lambda>i. out_buf_size (?chs ! (df_outputs f ! i))) [0..<n_outputs f]) k) (\<lambda>t. Inr (t, s))"
    unfolding calc_output_buffering_def by (simp add: rbind_assoc)
  have e: "sum_sizes [] k = Inr 0" by (simp add: sum_sizes_def)
  show ?thesis
    unfolding buffering_total_def tape_sizes_def sum_sizes_append i o by (simp add: rbind_assoc e)
qed

lemma max_iters_for_filter:
  assumes ok: "group_tapes_ok (ds_channels (client s)) f" and mx: "unat mx \<le> 2 ^ 17"
    and some: "inputs \<and> n_inputs f \<noteq> 0 \<or> outputs \<and> n_outputs f \<noteq> 0"
  shows "\<exists>r. calc_max_iters fa f inputs outputs mx s = Inr r \<and> (r = 0 \<or> size_fits (buffering_total fa f inputs outputs s) mx r) \<and>
    (\<exists>t>mx. buffering_total fa f inputs outputs s (r + 1) = Inr t)"
proof -
  let ?zs = "tape_sizes (ds_channels (client s)) f inputs outputs"
  have eq: "buffering_total fa f inputs outputs s = sum_sizes ?zs" by (rule ext) (rule buffering_total_eq [OF ok])
  have ne: "?zs \<noteq> []" using some by (auto simp: tape_sizes_def)
  have len: "length ?zs \<le> 30" using ok by (auto simp: tape_sizes_def group_tapes_ok_def)
  have sized: "\<exists>b p. tape_size_ok z b p" if "z \<in> set ?zs" for z
  proof -
    from that consider i where "i < n_inputs f" "z = in_buf_size (ds_channels (client s) ! (df_inputs f ! i))"
      | i where "i < n_outputs f" "z = out_buf_size (ds_channels (client s) ! (df_outputs f ! i))"
      by (auto simp: tape_sizes_def split: if_splits)
    then show ?thesis
    proof cases
      case 1
      then show ?thesis using in_buf_size_ok [of "ds_channels (client s) ! (df_inputs f ! i)"] ok unfolding group_tapes_ok_def by blast
    next
      case 2
      then show ?thesis using out_buf_size_ok [of "ds_channels (client s) ! (df_outputs f ! i)"] ok unfolding group_tapes_ok_def by blast
    qed
  qed
  have "calc_max_iters fa f inputs outputs mx s = max_iters_loops (sum_sizes ?zs) mx"
    using some eq by (auto simp: calc_max_iters_def)
  then show ?thesis using tapes_boundary [OF ne len sized mx] unfolding eq by simp
qed

end
