(* ===== verification/Ds_Init.thy ===== *)
theory Ds_Init
  imports Ds_Run
begin

text \<open>
  The dynamic scheduler of the Cell library (\<open>library/cell/ds/ds.c\<close>, \<open>ds.h\<close>, \<open>dsrun.c\<close>): setting up the channels,
  running filters on the PPU before the SPUs start, and the run itself.  Work functions and initialisation
  functions of the program, the allocator and the SPUs are parameters.
\<close>

section \<open>Channels\<close>

definition link_duplicates :: "'d ds_ppu \<Rightarrow> 'd ds_ppu res" where
  "link_duplicates s = (let n = length (ds_channels (client s)) in
     rbind (rfold (\<lambda>i. upd_ch i (\<lambda>c. c\<lparr>ch_parent := None\<rparr>)) [0..<n] s)
       (rfold (\<lambda>i s. rbind (get_ch i s) (\<lambda>c. rfold (\<lambda>j s. rbind (deref (ch_dups c)) (\<lambda>d.
         upd_ch (d + j) (\<lambda>x. x\<lparr>ch_parent := Some i\<rparr>) s)) [0..<unat (ch_num_dups c)] s)) [0..<n]))"

definition round_up_cache :: "u32 \<Rightarrow> u32" where
  "round_up_cache n = (n + CACHE_MASK) AND NOT CACHE_MASK"

definition size_channels :: "u32 \<times> 'd ds_ppu \<Rightarrow> (u32 \<times> 'd ds_ppu) res" where
  "size_channels = (\<lambda>(tot, s). rfold (\<lambda>i (tot, s). rbind (get_ch i s) (\<lambda>c. if ch_parent c = None
     then let n = round_up_cache (ch_size c) in Inr (tot + n, put_ch i (c\<lparr>ch_size := n\<rparr>) s) else Inr (tot, s)))
     [0..<length (ds_channels (client s))] (tot, s))"

text \<open>Every duplicate shares the buffer of its source and starts with nothing used and nothing free.\<close>

fun init_channel_duplicates :: "nat \<Rightarrow> nat \<Rightarrow> nat \<Rightarrow> 'd ds_ppu \<Rightarrow> 'd ds_ppu res" where
  "init_channel_duplicates 0 a src s = Inl OutOfFuel"
| "init_channel_duplicates (Suc k) a src s = rbind (upd_ch a (\<lambda>c. c\<lparr>ch_source := src\<rparr>) s) (\<lambda>s. rbind (get_ch a s) (\<lambda>c.
     case ch_dups c of None \<Rightarrow> Inr s
     | Some d \<Rightarrow> rfold (\<lambda>i s. rbind (get_ch (d + i) s) (\<lambda>x. rbind (get_ch src s) (\<lambda>r. rbind (get_pbuf (ch_buf r) s) (\<lambda>b.
         rbind (upd_buf (ch_buf x) (\<lambda>t. duplicate_buffer t b) s) (\<lambda>s.
           init_channel_duplicates k (d + i) src (put_ch (d + i) (x\<lparr>ch_used := 0, ch_free := 0\<rparr>) s))))))
         [0..<unat (ch_num_dups c)] (put_ch a (c\<lparr>ch_waiting := ch_num_dups c\<rparr>) s)))"

text \<open>The buffers lie one after the other in the memory that was allocated, which holds \<open>junk\<close>; \<open>init_buffer\<close> never has to
  allocate.\<close>

definition init_channel :: "(nat \<Rightarrow> byte) \<Rightarrow> nat \<Rightarrow> nat \<Rightarrow> nat \<times> 'd ds_ppu \<Rightarrow> (nat \<times> 'd ds_ppu) res" where
  "init_channel junk k i = (\<lambda>(data, s). rbind (get_ch i s) (\<lambda>c. if ch_parent c \<noteq> None then Inr (data, s)
     else rbind (get_pbuf (ch_buf c) s) (\<lambda>b. rbind (init_buffer (\<lambda>_. None) b (Some data) (ch_size c) (\<not> ch_non_circular c) 0) (\<lambda>b.
       let s = put_pbuf (ch_buf c) b s;
         s = s\<lparr>pmem := (pmem s)\<lparr>datas := (datas (pmem s))(data \<mapsto> map junk [data..<data + unat (ch_size c)])\<rparr>\<rparr>;
         s = put_ch i (c\<lparr>ch_used := 0, ch_free := ch_size c - (if ch_non_circular c then 0 else QWORD_MASK)\<rparr>) s in
       rbind (init_channel_duplicates k i i s) (\<lambda>s. Inr (data + unat (ch_size c), s))))))"

text \<open>\<open>mem\<close> is what the allocator returns, \<open>lib\<close> is \<open>spulib_init\<close>; the result says whether the program goes on.\<close>

definition ds_init :: "(u32 \<Rightarrow> nat option) \<Rightarrow> (nat \<Rightarrow> byte) \<Rightarrow> ('d ds_ppu \<Rightarrow> (bool \<times> 'd ds_ppu) res) \<Rightarrow> nat \<Rightarrow> 'd ds_ppu \<Rightarrow> (bool \<times> 'd ds_ppu) res" where
  "ds_init mem junk lib k s = rbind (link_duplicates s) (\<lambda>s. rbind (size_channels (0, s)) (\<lambda>(tot, s).
     case mem tot of None \<Rightarrow> Inr (False, s)
     | Some data \<Rightarrow> rbind (rfold (init_channel junk k) [0..<length (ds_channels (client s))] (data, s)) (\<lambda>(_, s). lib s)))"

section \<open>Filters\<close>

definition incomplete_inputs :: "ds_filter \<Rightarrow> 'd ds_ppu \<Rightarrow> u32 res" where
  "incomplete_inputs f s = rfold (\<lambda>j m. rbind (index_res (df_inputs f) j) (\<lambda>x. rbind (get_ch x s) (\<lambda>c. rbind (get_ch (ch_source c) s) (\<lambda>r.
     Inr (if ch_out_f r = None then m - 1 else m))))) [0..<n_inputs f] (of_nat (n_inputs f))"

definition init_filter :: "nat \<Rightarrow> 'd ds_ppu \<Rightarrow> 'd ds_ppu res" where
  "init_filter fa s = rbind (get_flt fa s) (\<lambda>f. rbind (incomplete_inputs f s) (\<lambda>m.
     rbind (if n_inputs f + n_outputs f > 7 then Inr True
       else rbind (cmd_get_filt_cb_size (num_inputs (df_desc f)) (num_outputs (df_desc f)) (state_size (df_desc f))) (\<lambda>n.
         Inr (n > DS_SPU_FILTER_SLOT_SIZE))) (\<lambda>excl.
     rbind (calc_filter_buffering fa (put_flt fa (f\<lparr>df_incomplete := m, df_exclusive := excl\<rparr>) s)) (\<lambda>s.
     rbind (if n_outputs f = 0 then upd_flt fa (\<lambda>f. f\<lparr>df_out_avail := UINT32_MAX\<rparr>) s else Inr s)
       (upd_flt fa (\<lambda>f. f\<lparr>df_visited := False\<rparr>))))))"

definition ds_init_2 :: "nat \<Rightarrow> 'd ds_ppu \<Rightarrow> 'd ds_ppu res" where
  "ds_init_2 k s = (let n = length (ds_filters (client s)) in
     rbind (rfold init_filter [0..<n] s) (\<lambda>s. rbind (update_all_filters s) (\<lambda>s.
       rfold (init_update_filter_done k) [0..<n] (upd_client (\<lambda>x. x\<lparr>ds_incomplete := of_nat n\<rparr>) s))))"

section \<open>Running filters on the PPU\<close>

type_synonym 'd runner = "nat option \<Rightarrow> 'd ds_ppu \<Rightarrow> 'd ds_ppu res"

text \<open>A work function reads and writes channels, which may run the filters upstream: it is given the means to.\<close>

type_synonym 'd work_code = "nat \<Rightarrow> 'd runner \<Rightarrow> ds_filter \<Rightarrow> 'd ds_ppu \<Rightarrow> 'd ds_ppu res"

primrec init_run_filter :: "'d work_code \<Rightarrow> nat \<Rightarrow> 'd runner" where
  "init_run_filter work 0 = (\<lambda>fa s. Inl OutOfFuel)"
| "init_run_filter work (Suc k) = (\<lambda>fa s. case fa of None \<Rightarrow> Inl CheckFail
     | Some a \<Rightarrow> rbind (get_flt a s) (\<lambda>f. ensure CheckFail (\<not> df_visited f)
         (let f = f\<lparr>df_visited := True\<rparr>; s = put_flt a f s in
          rbind (if df_done_prework f then work (df_ppu_work f) (init_run_filter work k) f s
            else rbind (deref (df_ppu_prework f)) (\<lambda>w. rbind (work w (init_run_filter work k) f s)
              (upd_flt a (\<lambda>f. f\<lparr>df_done_prework := True\<rparr>))))
            (upd_flt a (\<lambda>f. f\<lparr>df_visited := False\<rparr>)))))"

fun channel_gen_data :: "'d runner \<Rightarrow> nat \<Rightarrow> nat \<Rightarrow> u32 \<Rightarrow> 'd ds_ppu \<Rightarrow> 'd ds_ppu res" where
  "channel_gen_data run 0 x n s = Inl OutOfFuel"
| "channel_gen_data run (Suc m) x n s = rbind (get_ch x s) (\<lambda>c. if ch_used c < n
     then rbind (get_ch (ch_source c) s) (\<lambda>r. rbind (run (ch_out_f r) s) (channel_gen_data run m x n))
     else Inr s)"

definition channel_peek_addr :: "'d runner \<Rightarrow> nat \<Rightarrow> nat \<Rightarrow> u32 \<Rightarrow> u32 \<Rightarrow> 'd ds_ppu \<Rightarrow> ((nat \<times> u32) \<times> 'd ds_ppu) res" where
  "channel_peek_addr run m x sz n s = rbind (channel_gen_data run m x ((n + 1) * sz) s) (\<lambda>s. rbind (get_ch x s) (\<lambda>c.
     rbind (get_pbuf (ch_buf c) s) (\<lambda>b. Inr ((b_data b, (b_head b + n * sz) AND b_mask b), s))))"

definition channel_pop :: "'d runner \<Rightarrow> nat \<Rightarrow> nat \<Rightarrow> nat \<Rightarrow> u32 \<Rightarrow> 'd ds_ppu \<Rightarrow> 'd ds_ppu res" where
  "channel_pop run m k x n s = rbind (channel_gen_data run m x n s) (\<lambda>s. rbind (get_ch x s) (\<lambda>c.
     rbind (upd_buf (ch_buf c) (buf_inc_head n) s) (\<lambda>s. rbind (safe_dec (ch_used c) n) (\<lambda>u.
       init_update_up_channel_free k x n (put_ch x (c\<lparr>ch_used := u\<rparr>) s)))))"

definition channel_push_addr :: "nat \<Rightarrow> u32 \<Rightarrow> 'd ds_ppu \<Rightarrow> (nat \<times> u32) res" where
  "channel_push_addr x n s = rbind (get_ch x s) (\<lambda>c. ensure CheckFail (ch_free c \<ge> n) (rbind (get_pbuf (ch_buf c) s) (\<lambda>b.
     Inr (b_data b, b_tail b))))"

definition channel_after_push :: "nat \<Rightarrow> nat \<Rightarrow> u32 \<Rightarrow> 'd ds_ppu \<Rightarrow> 'd ds_ppu res" where
  "channel_after_push k x n s = rbind (get_ch x s) (\<lambda>c. rbind (safe_dec (ch_free c) n) (\<lambda>u.
     rbind (upd_buf (ch_buf c) (buf_inc_tail n) (put_ch x (c\<lparr>ch_free := u\<rparr>) s)) (init_update_down_channel_used k x n)))"

definition ds_prework :: "(nat \<Rightarrow> 'd ds_ppu \<Rightarrow> 'd ds_ppu res) \<Rightarrow> 'd work_code \<Rightarrow> nat \<Rightarrow> 'd ds_ppu \<Rightarrow> 'd ds_ppu res" where
  "ds_prework init work k s = (let n = length (ds_filters (client s)) in
     rbind (rfold (\<lambda>i s. rbind (get_flt i s) (\<lambda>f. rbind (case df_ppu_init f of None \<Rightarrow> Inr s | Some g \<Rightarrow> init g s)
         (upd_flt i (\<lambda>f. f\<lparr>df_done_prework := (df_ppu_prework f = None), df_visited := False\<rparr>)))) [0..<n] s)
       (rfold (\<lambda>i s. rbind (get_flt i s) (\<lambda>f. if \<not> df_done_prework f then init_run_filter work k (Some i) s else Inr s)) [0..<n]))"

section \<open>Initialisation functions on the SPUs\<close>

definition each_spu :: "(nat \<Rightarrow> 'd ds_ppu \<Rightarrow> 'd ds_ppu res) \<Rightarrow> 'd ds_ppu \<Rightarrow> 'd ds_ppu res" where
  "each_spu g s = rfold g [0..<ds_num_spu (client s)] s"

text \<open>\<open>wait\<close> is \<open>spulib_wait\<close>; a full group of 32 commands is issued at once.\<close>

definition spu_init_func :: "spu_cmd \<Rightarrow> (nat \<Rightarrow> u32 \<Rightarrow> 'd ds_ppu \<Rightarrow> 'd ds_ppu res) \<Rightarrow> nat \<Rightarrow> nat \<times> 'd ds_ppu \<Rightarrow> (nat \<times> 'd ds_ppu) res" where
  "spu_init_func old wait i = (\<lambda>(n, s). rbind (get_flt i s) (\<lambda>f. if df_spu_init f = 0 then Inr (n, s)
     else rbind (each_spu (\<lambda>j s. on_group j 0 (\<lambda>g. spu_call_func (df_spu_init f) old g n []) s) s) (\<lambda>s.
       if n + 1 = 32
       then rbind (each_spu (\<lambda>j. spu_issue_group j 0 0) s) (\<lambda>s.
         rbind (each_spu (\<lambda>j s. rbind (wait j 0xffffffff s) (spu_new_group j 0)) s) (\<lambda>s. Inr (0, s)))
       else Inr (n + 1, s))))"

definition ds_spu_init_funcs :: "spu_cmd \<Rightarrow> (nat \<Rightarrow> u32 \<Rightarrow> 'd ds_ppu \<Rightarrow> 'd ds_ppu res) \<Rightarrow> 'd ds_ppu \<Rightarrow> 'd ds_ppu res" where
  "ds_spu_init_funcs old wait s =
     rbind (each_spu (\<lambda>i s. rbind (spu_new_group i 0 s) (on_group i 0 (\<lambda>g. spu_null old g 0 []))) s) (\<lambda>s.
     rbind (rfold (spu_init_func old wait) [0..<length (ds_filters (client s))] (SPU_STATS_ENABLE, s)) (\<lambda>(n, s).
     if n \<noteq> 0
     then rbind (get_mask n) (\<lambda>m. rbind (each_spu (\<lambda>i. spu_issue_group i 0 0) s) (each_spu (\<lambda>i. wait i m)))
     else Inr s))"

section \<open>The run\<close>

definition run_init :: "'d ds_ppu \<Rightarrow> 'd ds_ppu res" where
  "run_init s =
     rbind (rfold (\<lambda>i. upd_flt i (\<lambda>f. f\<lparr>df_active := 0, df_instances := None, df_last := None\<rparr>)) [0..<length (ds_filters (client s))] s) (\<lambda>s.
     rbind (rfold (\<lambda>i. upd_dp i (\<lambda>x. x\<lparr>dp_next := Some (i + 1)\<rparr>)) [0..<length (ds_dp (client s)) - 1] s) (\<lambda>s.
     rfold (\<lambda>i s. rbind (get_sp i s) (\<lambda>u. rbind (index_res (sp_filters u) 0) (\<lambda>a. rbind (index_res (sp_filters u) 1) (\<lambda>b.
         Inr (put_sp i (u\<lparr>sp_id := i, sp_filters := (sp_filters u)[0 := a\<lparr>a_spu_id := i\<rparr>, 1 := b\<lparr>a_spu_id := i\<rparr>],
           sp_buffer_start := 0, sp_filter_start := 3 * DS_SPU_BUFFER_SLOT_SIZE,
           sp_cmd_start := 3 * DS_SPU_BUFFER_SLOT_SIZE + 2 * DS_SPU_FILTER_SLOT_SIZE\<rparr>) s)))))
       [0..<ds_num_spu (client s)]
       (upd_client (\<lambda>x. x\<lparr>ds_next_dp := Some 0, ds_num_free := of_nat (ds_num_spu x)\<rparr>) s)))"

text \<open>The checks at the end; those that only print a message are a list of channels here.\<close>

definition expected_free :: "channel \<Rightarrow> u32 \<Rightarrow> u32" where
  "expected_free c avail = (if ch_parent c = None then (if ch_in_f c = None then avail - ch_used c else avail) else 0)"

definition channel_done_check :: "nat \<Rightarrow> nat list \<Rightarrow> 'd ds_ppu \<Rightarrow> nat list res" where
  "channel_done_check i msgs s = rbind (get_ch i s) (\<lambda>c. rbind (get_ch (ch_source c) s) (\<lambda>r.
     let avail = ch_size r - (if ch_non_circular r then 0 else QWORD_MASK) in
     ensure CheckFail (ch_dups c \<noteq> None \<longrightarrow> ch_used c = 0)
     (Inr (msgs @ (if ch_dups c = None \<and> ch_used c \<noteq> (if ch_in_f c = None then avail - ch_free r else 0) then [i] else []) @
        (if ch_free c \<noteq> expected_free c avail then [i] else []) @
        (if ch_dups c \<noteq> None \<and> ch_waiting c \<noteq> ch_num_dups c then [i] else [])))))"

definition run_done_check :: "'d ds_ppu \<Rightarrow> nat list res" where
  "run_done_check s = ensure CheckFail (ds_num_free (client s) = of_nat (ds_num_spu (client s)))
     (ensure CheckFail (\<forall>f\<in>set (ds_filters (client s)). df_incomplete f = 0 \<and> df_active f = 0 \<and> df_avail f = 0 \<and>
        df_in_avail f = 0 \<and> df_instances f = None \<and> df_last f = None)
     (rfold (\<lambda>i msgs. channel_done_check i msgs s) [0..<length (ds_channels (client s))] []))"

text \<open>\<open>env t\<close> is what the SPUs have done before poll number \<open>t\<close>; callback 0 is \<open>spu_cb\<close>.\<close>

definition DS_SPU_CB :: nat where "DS_SPU_CB = 0"

definition ds_code :: "group_mem \<Rightarrow> nat \<Rightarrow> nat \<Rightarrow> ('d, ds_state) lib_code \<Rightarrow> ('d, ds_state) lib_code" where
  "ds_code gm n m code = code\<lparr>run_complete := (\<lambda>cb i new all s. if cb = DS_SPU_CB then spu_cb gm n m i s else Inl Unreached)\<rparr>"

text \<open>
  \<open>spulib_poll_while\<close>: the condition is looked at again only after a poll that found a message; until
  then \<open>polled\<close> is false.
\<close>

fun poll_while_incomplete :: "('d, ds_state) lib_code \<Rightarrow> (nat \<Rightarrow> 'd ds_ppu \<Rightarrow> 'd ds_ppu) \<Rightarrow> nat \<Rightarrow> nat \<Rightarrow> nat \<Rightarrow> bool \<Rightarrow> 'd ds_ppu \<Rightarrow> 'd ds_ppu res" where
  "poll_while_incomplete code env n 0 t polled s = Inl OutOfFuel"
| "poll_while_incomplete code env n (Suc k) t polled s = (if polled \<and> ds_incomplete (client s) = 0 then Inr s
     else rbind (spulib_poll code n (env t s)) (\<lambda>(polled, s). poll_while_incomplete code env n k (Suc t) polled s))"

text \<open>The set-up, the functions the SPUs run first and the first scheduling; then the poll loop.\<close>

definition ds_begin :: "group_mem \<Rightarrow> (nat \<Rightarrow> u32 \<Rightarrow> 'd ds_ppu \<Rightarrow> 'd ds_ppu res) \<Rightarrow> 'd ds_ppu \<Rightarrow> 'd ds_ppu res" where
  "ds_begin gm wait s = rbind (run_init s) (\<lambda>s. rbind (ds_spu_init_funcs (gm_old gm) wait s) (\<lambda>s.
     rbind (spulib_set_all_spu_complete_cb (Some DS_SPU_CB) s) (schedule_all_free_spu gm None)))"

definition ds_schedule :: "group_mem \<Rightarrow> nat \<Rightarrow> nat \<Rightarrow> (nat \<Rightarrow> u32 \<Rightarrow> 'd ds_ppu \<Rightarrow> 'd ds_ppu res) \<Rightarrow> ('d, ds_state) lib_code \<Rightarrow>
    (nat \<Rightarrow> 'd ds_ppu \<Rightarrow> 'd ds_ppu) \<Rightarrow> nat \<Rightarrow> 'd ds_ppu \<Rightarrow> 'd ds_ppu res" where
  "ds_schedule gm n m wait code env polls s =
     rbind (ds_begin gm wait s) (poll_while_incomplete (ds_code gm n m code) env n polls 0 True)"

definition ds_run :: "group_mem \<Rightarrow> nat \<Rightarrow> nat \<Rightarrow> nat \<Rightarrow> (nat \<Rightarrow> 'd ds_ppu \<Rightarrow> 'd ds_ppu res) \<Rightarrow> 'd work_code \<Rightarrow>
    (nat \<Rightarrow> u32 \<Rightarrow> 'd ds_ppu \<Rightarrow> 'd ds_ppu res) \<Rightarrow> ('d ds_ppu \<Rightarrow> 'd ds_ppu res) \<Rightarrow> ('d, ds_state) lib_code \<Rightarrow> (nat \<Rightarrow> 'd ds_ppu \<Rightarrow> 'd ds_ppu) \<Rightarrow>
    nat \<Rightarrow> 'd ds_ppu \<Rightarrow> (nat list \<times> 'd ds_ppu) res" where
  "ds_run gm n m k init work wait print_stats code env polls s =
     rbind (ds_prework init work k s) (\<lambda>s. rbind (ds_init_2 n s) (\<lambda>s. rbind (ds_schedule gm n m wait code env polls s) (\<lambda>s.
     rbind (spulib_set_all_spu_complete_cb None s) (\<lambda>s. rbind (print_stats s) (\<lambda>s.
     rbind (run_done_check s) (\<lambda>msgs. Inr (msgs, s)))))))"

end
