(* ===== verification/Ds_Accounting.thy ===== *)
theory Ds_Accounting
  imports Ds_Group Ds_Init
begin

text \<open>
  What the scheduler of the Cell library knows of its channels: the properties of writes and reads through
  duplicate splitters and of the size of a group (\<open>library/cell/ds/dssched.c\<close>, \<open>ds.c\<close>).
\<close>

section \<open>A small graph\<close>

text \<open>
  Filter 0 writes channel 0, which is duplicated to channel 1, read by filter 1, and to channel 2,
  which is duplicated again to channels 3 and 4, the two inputs of filter 2.  Of 20 bytes written,
  channel 1 has read 16, channel 3 has read 8 and channel 4 none.
\<close>

definition demo_buffer :: buffer_cb where
  "demo_buffer = \<lparr>ihead = 0, otail = 0, front_action = 0, back_action = 0, dt_active = 0, b_mask = 127, b_head = 0, b_tail = 0, b_data = 0,
     in_back_buffered_bytes = 0, out_front_buffered_bytes = 0, front_in_dtcb = \<lparr>dtcb_head = 0, dtcb_tail = 0, dtcb_ack = 0\<rparr>,
     back_in_dtcb = \<lparr>dtcb_head = 0, dtcb_tail = 0, dtcb_ack = 0\<rparr>\<rparr>"

definition demo_channel :: channel where
  "demo_channel = \<lparr>ch_out_f = None, ch_push = 8, ch_out_size = 0, ch_in_f = None, ch_pop = 4, ch_peek_extra = 0, ch_in_size = 0,
     ch_size = 128, ch_non_circular = False, ch_dups = None, ch_num_dups = 0, ch_used = 0, ch_free = 0, ch_source = 0,
     ch_parent = None, ch_waiting = 0, ch_buf = 0\<rparr>"

definition demo_filter :: "nat list \<Rightarrow> nat list \<Rightarrow> u32 \<Rightarrow> u32 \<Rightarrow> ds_filter" where
  "demo_filter ins outs in_avail out_avail = \<lparr>df_inputs = ins, df_outputs = outs,
     df_desc = \<lparr>work_func = 0, fparam = 0, state_size = 0, state_addr = 0, num_inputs = of_nat (length ins), num_outputs = of_nat (length outs)\<rparr>,
     df_data_parallel = False, df_ppu_init = None, df_ppu_prework = None, df_ppu_work = 0, df_spu_init = 0, df_exclusive = False,
     df_group_iters = 4, df_loop_iters = 1, df_out_buffered = 0, df_visited = False, df_done_prework = True, df_incomplete = 1, df_active = 0,
     df_avail = min in_avail out_avail, df_in_avail = in_avail, df_out_avail = out_avail, df_instances = None, df_last = None\<rparr>"

definition demo_channels :: "channel list" where
  "demo_channels =
    [demo_channel\<lparr>ch_out_f := Some 0, ch_dups := Some 1, ch_num_dups := 2, ch_free := 92, ch_waiting := 1\<rparr>,
     demo_channel\<lparr>ch_in_f := Some 1, ch_used := 4, ch_free := 16, ch_parent := Some 0, ch_buf := 1\<rparr>,
     demo_channel\<lparr>ch_dups := Some 3, ch_num_dups := 2, ch_parent := Some 0, ch_waiting := 1, ch_buf := 2\<rparr>,
     demo_channel\<lparr>ch_in_f := Some 2, ch_pop := 8, ch_peek_extra := 4, ch_used := 12, ch_free := 8, ch_parent := Some 2, ch_buf := 3\<rparr>,
     demo_channel\<lparr>ch_in_f := Some 2, ch_used := 20, ch_parent := Some 2, ch_buf := 4\<rparr>]"

definition demo_sched :: ds_state where
  "demo_sched = \<lparr>ds_filters = [demo_filter [] [0] 100 11, demo_filter [1] [] 1 0xffffffff, demo_filter [3, 4] [] 1 0xffffffff],
     ds_channels = demo_channels, ds_num_spu = 0, ds_incomplete = 3, ds_num_free = 0, ds_spus = [], ds_dp = [], ds_next_dp = None\<rparr>"

definition demo_ds :: "unit ds_ppu" where
  "demo_ds = \<lparr>spus = [], op_heap = Map.empty, pmem = \<lparr>bufs = (\<lambda>_. Some demo_buffer), datas = Map.empty\<rparr>, ua_head = (\<lambda>_. []),
     ua_tail = (\<lambda>_. []), front_dtcb = (\<lambda>_ _. (0, 0)), back_dtcb = (\<lambda>_ _. (0, 0)), next_poll = 0, client = demo_sched\<rparr>"

definition demo_tree :: dtree where
  "demo_tree = Node 0 [Leaf 1, Node 2 [Leaf 3, Leaf 4]]"

definition demo_read :: "nat \<Rightarrow> nat" where
  "demo_read x = (if x = 1 then 16 else if x = 3 then 8 else 0)"

lemmas demo_ds_defs = demo_ds_def demo_sched_def demo_channels_def demo_filter_def demo_channel_def demo_tree_def demo_read_def

lemma demo_channels_demo: "ds_channels (client demo_ds) = demo_channels"
  by (simp add: demo_ds_def demo_sched_def)

lemma below_two: "(\<forall>i<2. P i) \<longleftrightarrow> P 0 \<and> P (1 :: nat)" "(\<exists>i<2. P i) \<longleftrightarrow> P 0 \<or> P (1 :: nat)" "{..<2} = {0, 1 :: nat}"
  by (auto simp: less_2_cases_iff)

lemma demo_graph: "ds_graph_ok (client demo_ds)"
  by (simp add: demo_ds_defs ds_graph_ok_def reads_ok_def writes_ok_def All_less_Suc Ex_less_Suc below_two n_inputs_def n_outputs_def small_def)

lemma demo_avail: "ds_avail_ok (client demo_ds)"
  by (simp add: demo_ds_defs ds_avail_ok_def avail_exact_def in_min_def out_min_def in_iters_def out_iters_def n_inputs_def n_outputs_def
     lessThan_Suc below_two)

lemma demo_used: "used_small (client demo_ds)"
  by (simp add: demo_ds_defs used_small_def small_def)

lemma demo_bufs: "bufs_there demo_ds"
  by (simp add: demo_ds_defs bufs_there_def)

lemma demo_tree_at: "tree_at (ds_channels (client demo_ds)) demo_tree"
  by (simp add: demo_ds_defs All_less_Suc below_two)

lemma demo_free: "free_ok (ds_channels (client demo_ds)) demo_read demo_tree"
  by (simp add: demo_ds_defs)


section \<open>Writes and reads\<close>

text \<open>C6: Bytes that a filter writes to a channel, whose duplicates form a tree of any shape, are counted once at
  every leaf and at no other channel.  The tail of a buffer control block moves on by the bytes once for each leaf that is
  a duplicate and owns the block, so exactly once where every channel has its own, and every other control block, the block of
  a leaf that is no duplicate included, and all data are left alone.  Nothing fails, the graph is left alone,
  and of every filter the iterations that may run are again exactly what its channels allow.\<close>

theorem written_bytes_reach_every_leaf:
  assumes "ds_graph_ok (client s)" "ds_avail_ok (client s)" "used_small (client s)" "bufs_there s"
    and "tree_at (ds_channels (client s)) t" "distinct (leaves t)" "depth t \<le> k"
    and "\<And>a. a \<in> set (leaves t) \<Longrightarrow> unat (ch_used (ds_channels (client s) ! a)) + unat n < 2 ^ 31"
  shows "\<exists>s'. update_down_channel_used k (tree_root t) n s = Inr s' \<and>
    (\<forall>a. unat (ch_used (ds_channels (client s') ! a)) = unat (ch_used (ds_channels (client s) ! a)) + (if a \<in> set (leaves t) then unat n else 0)) \<and>
    (\<forall>a. ch_free (ds_channels (client s') ! a) = ch_free (ds_channels (client s) ! a)) \<and>
    (\<forall>p. bufs (pmem s') p = map_option (buf_inc_tail n ^^ card (own_leaves (ds_channels (client s)) (leaves t) p)) (bufs (pmem s) p)) \<and>
    datas (pmem s') = datas (pmem s) \<and> same_setup (client s') (client s) \<and> ds_avail_ok (client s')"
proof -
  let ?chs = "ds_channels (client s)"
  have sum: "uint (ch_used (?chs ! a)) + uint n < 2 ^ 31" if "a \<in> set (leaves t)" for a
  proof -
    have "int (unat (ch_used (?chs ! a)) + unat n) < int (2 ^ 31)" using assms(8) [OF that] by (simp only: of_nat_less_iff)
    then show ?thesis by simp
  qed
  obtain s' where s': "update_down_channel_used k (tree_root t) n s = Inr s'" "ds_channels (client s') = bump n (leaves t) ?chs"
    "same_setup (client s') (client s)" "ds_avail_ok (client s')"
    using write_reaches_leaves [OF assms(1-7) sum] by blast
  have "unat (ch_used (bump n (leaves t) ?chs ! a)) = unat (ch_used (?chs ! a)) + (if a \<in> set (leaves t) then unat n else 0) \<and>
      ch_free (bump n (leaves t) ?chs ! a) = ch_free (?chs ! a)" for a
  proof (cases "a < length ?chs")
    case True
    then show ?thesis using unat_add_small [of "ch_used (?chs ! a)" n] sum [of a] by (auto simp: bump_def)
  next
    case False
    then show ?thesis using leaves_at [OF assms(5), of a] nth_beyond [of ?chs a] nth_beyond [of "bump n (leaves t) ?chs" a]
      by (auto simp: bump_def)
  qed
  then show ?thesis using s' write_moves_tails [OF assms(5-7) s'(1)] by auto
qed

theorem written_bytes_reach_every_leaf_witness:
  "\<exists>s'. update_down_channel_used 3 0 16 demo_ds = Inr s' \<and> unat (ch_used (ds_channels (client s') ! 1)) = 20 \<and>
    unat (ch_used (ds_channels (client s') ! 2)) = 0 \<and> unat (ch_used (ds_channels (client s') ! 4)) = 36 \<and> ds_avail_ok (client s') \<and>
    map_option b_tail (bufs (pmem s') 4) = Some 16 \<and> map_option b_tail (bufs (pmem s') 2) = Some 0"
proof -
  have b: "unat (ch_used (ds_channels (client demo_ds) ! a)) + unat (16 :: u32) < 2 ^ 31" if "a \<in> set (leaves demo_tree)" for a
  proof -
    have "ch_used (ds_channels (client demo_ds) ! a) \<le> 20" using that by (auto simp: demo_ds_defs)
    then have "unat (ch_used (ds_channels (client demo_ds) ! a)) \<le> unat (20 :: u32)" by (simp only: word_le_nat_alt)
    then show ?thesis by simp
  qed
  have d: "distinct (leaves demo_tree)" "depth demo_tree \<le> 3" by (simp_all add: demo_tree_def)
  obtain s' where s': "update_down_channel_used 3 (tree_root demo_tree) 16 demo_ds = Inr s'" and
    used: "\<And>a. unat (ch_used (ds_channels (client s') ! a)) =
      unat (ch_used (ds_channels (client demo_ds) ! a)) + (if a \<in> set (leaves demo_tree) then unat (16 :: u32) else 0)" and
    ok: "ds_avail_ok (client s')" and
    tails: "\<And>p. bufs (pmem s') p = map_option (buf_inc_tail 16 ^^ card (own_leaves (ds_channels (client demo_ds)) (leaves demo_tree) p)) (bufs (pmem demo_ds) p)"
    using written_bytes_reach_every_leaf [OF demo_graph demo_avail demo_used demo_bufs demo_tree_at d b] by blast
  have "own_leaves (ds_channels (client demo_ds)) (leaves demo_tree) 4 = {4}" "own_leaves (ds_channels (client demo_ds)) (leaves demo_tree) 2 = {}"
    by (auto simp: own_leaves_def demo_ds_defs)
  then have "map_option b_tail (bufs (pmem s') 4) = Some 16" "map_option b_tail (bufs (pmem s') 2) = Some 0"
    unfolding tails by (simp_all add: demo_ds_def demo_buffer_def buf_inc_tail_def Let_def)
  then show ?thesis using s' ok used [of 1] used [of 2] used [of 4] by (simp add: demo_ds_defs)
qed

lemma leaves_not_empty: "free_ok chs L t \<Longrightarrow> leaves t \<noteq> []"
  by (induction t) (auto simp: list_all_iff)

lemma freed_is_least: "free_ok chs L t \<Longrightarrow> bytes_freed M t = Min (M ` set (leaves t))"
proof (induction t)
  case (Node a ts)
  let ?S = "\<lambda>t. M ` set (leaves t)"
  have ts: "ts \<noteq> []" and sub: "\<And>t. t \<in> set ts \<Longrightarrow> free_ok chs L t" using Node.prems by (auto simp: list_all_iff)
  have ne: "\<And>t. t \<in> set ts \<Longrightarrow> leaves t \<noteq> []" using leaves_not_empty sub by blast
  have "bytes_freed M (Node a ts) = Min ((\<lambda>t. Min (?S t)) ` set ts)" using Node.IH sub by (auto intro!: arg_cong [where f = Min])
  also have "\<dots> = Min (\<Union> (?S ` set ts))"
  proof (rule antisym)
    show "Min ((\<lambda>t. Min (?S t)) ` set ts) \<le> Min (\<Union> (?S ` set ts))"
      using ts ne by (subst Min_ge_iff) (auto simp: Min_le_iff intro!: bexI)
    show "Min (\<Union> (?S ` set ts)) \<le> Min ((\<lambda>t. Min (?S t)) ` set ts)"
      using ts ne by (subst Min_ge_iff) (auto intro!: Min_le)
  qed
  finally show ?case by (simp add: image_UN image_Union)
qed simp

text \<open>C5: When a leaf of a tree of duplicates has read some more, the walk up the tree makes free at the root exactly as many
  bytes as the slowest reader of the whole tree has advanced, and no byte that some reader has not read yet; the
  bookkeeping inside the tree again says how far ahead each duplicate is; nothing fails, and of every filter the
  iterations that may run are exactly what its channels allow.\<close>

theorem read_bytes_are_freed_at_the_root:
  assumes "n \<noteq> 0" "L' = L(x := L x + unat n)"
    and "ds_graph_ok (client s)" "ds_avail_ok (client s)" "bufs_there s" "dups_ok (ds_channels (client s))"
    and "tree_at (ds_channels (client s)) t" "distinct (nodes t)" "free_ok (ds_channels (client s)) L t" "x \<in> set (leaves t)"
      "ch_parent (ds_channels (client s) ! tree_root t) = None" "depth t \<le> k"
    and "L' x < bytes_freed L t + 2 ^ 32"
      "unat (ch_free (ds_channels (client s) ! tree_root t)) + (bytes_freed L' t - bytes_freed L t) < 2 ^ 32"
  shows "\<exists>s'. update_up_channel_free k x n s = Inr s' \<and> free_ok (ds_channels (client s')) L' t \<and>
    int (unat (ch_free (ds_channels (client s') ! tree_root t))) - int (unat (ch_free (ds_channels (client s) ! tree_root t))) =
      int (Min (L' ` set (leaves t))) - int (Min (L ` set (leaves t))) \<and>
    same_setup (client s') (client s) \<and> ds_avail_ok (client s')"
proof -
  obtain s' where s': "update_up_channel_free k x n s = Inr s'" "free_ok (ds_channels (client s')) L' t"
    "unat (ch_free (ds_channels (client s') ! tree_root t)) + bytes_freed L t = unat (ch_free (ds_channels (client s) ! tree_root t)) + bytes_freed L' t"
    "same_setup (client s') (client s)" "ds_avail_ok (client s')"
    using read_frees_root [OF assms] by blast
  have "int (unat (ch_free (ds_channels (client s') ! tree_root t))) - int (unat (ch_free (ds_channels (client s) ! tree_root t))) =
      int (bytes_freed L' t) - int (bytes_freed L t)" using s'(3) by linarith
  then show ?thesis using s' unfolding freed_is_least [OF assms(9)] by blast
qed

theorem read_bytes_are_freed_at_the_root_witness:
  "\<exists>s'. update_up_channel_free 3 4 12 demo_ds = Inr s' \<and> unat (ch_free (ds_channels (client s') ! 0)) = 100 \<and> ds_avail_ok (client s')"
proof -
  let ?L' = "demo_read(4 := demo_read 4 + unat (12 :: u32))"
  have o: "dups_ok (ds_channels (client demo_ds))" by (simp add: dups_ok_def demo_ds_defs)
  have t: "distinct (nodes demo_tree)" "4 \<in> set (leaves demo_tree)" "ch_parent (ds_channels (client demo_ds) ! tree_root demo_tree) = None"
    "depth demo_tree \<le> 3" by (simp_all add: demo_ds_defs)
  have b: "?L' 4 < bytes_freed demo_read demo_tree + 2 ^ 32"
    "unat (ch_free (ds_channels (client demo_ds) ! tree_root demo_tree)) + (bytes_freed ?L' demo_tree - bytes_freed demo_read demo_tree) < 2 ^ 32"
    by (simp_all add: demo_ds_defs)
  have n: "(12 :: u32) \<noteq> 0" by simp
  obtain s' where s': "update_up_channel_free 3 4 12 demo_ds = Inr s'" "ds_avail_ok (client s')" and
    f: "int (unat (ch_free (ds_channels (client s') ! tree_root demo_tree))) - int (unat (ch_free (ds_channels (client demo_ds) ! tree_root demo_tree))) =
      int (Min (?L' ` set (leaves demo_tree))) - int (Min (demo_read ` set (leaves demo_tree)))"
    using read_bytes_are_freed_at_the_root [OF n refl demo_graph demo_avail demo_bufs o demo_tree_at t(1) demo_free t(2-4) b] by blast
  have "int (unat (ch_free (ds_channels (client s') ! 0))) = 100" using f by (simp add: demo_ds_defs)
  then have "unat (ch_free (ds_channels (client s') ! 0)) = 100" by linarith
  then show ?thesis using s' by blast
qed


section \<open>The size of a group\<close>



section \<open>An active filter\<close>

definition demo_active :: active where
  "demo_active = \<lparr>a_spu_id = 0, a_f = 0, a_inputs = replicate 2 \<lparr>at_data = 0, at_buf = 0, at_instance = 0\<rparr>,
     a_outputs = [\<lparr>at_data = 0, at_buf = 0, at_instance = 0\<rparr>], a_filt_cb = 0, a_cmd_data = 0, a_cmd_id = 0, a_cmd_group = 28,
     a_group_cmds = 4, a_group_data = 256, a_groups_left = 1, a_last_iters = 31, a_in_left = 0, a_out_left = 0, a_done_ua_out = False,
     a_done_in = 0, a_done_out = 0, a_out_buffered = 0, a_updated = False, a_cur_group = 0, a_cmd_mask = 0, a_phase = 0, a_waiting = 0,
     a_instance = 0\<rparr>"

end
