(* ===== verification/Ds_Polls.thy ===== *)
theory Ds_Polls
  imports Ds_Slots Ds_Accounting
begin

text \<open>
  The scheduler under the Cell library's poll (\<open>library/cell/ds/dsrun.c\<close>, \<open>library/cell/src/ppu/spulib.c\<close>): a
  completion message ends in the scheduler's callback, and whatever that does keeps the slots of every SPU apart.
\<close>

section \<open>The library around the scheduler\<close>

text \<open>Handlers of operations and callbacks of transfers that leave the scheduler's state alone.\<close>

definition quiet :: "('d, ds_state) lib_code \<Rightarrow> bool" where
  "quiet code \<longleftrightarrow> (\<forall>h a w s b t. run_op code h a w s = Inr (b, t) \<longrightarrow> client t = client s) \<and>
     (\<forall>h tag s t. run_generic code h tag s = Inr t \<longrightarrow> client t = client s)"

lemma quiet_vr:
  assumes "quiet code" "view s = view s0" "\<And>t. view t = view s0 \<Longrightarrow> Q t" "\<And>b t. view t = view s0 \<Longrightarrow> R (b, t)"
  shows "vr (run_generic code h tag s) Q" "vr (run_op code h a w s) R"
proof -
  have "view t = view s0" if "run_generic code h tag s = Inr t" for t
    using that assms(1,2) view_client [of t s] by (auto simp: quiet_def)
  then show "vr (run_generic code h tag s) Q" using assms(3) by (simp add: vr_def)
  have "view t = view s0" if "run_op code h a w s = Inr (b, t)" for b t
    using that assms(1,2) view_client [of t s] unfolding quiet_def by metis
  then show "vr (run_op code h a w s) R" using assms(4) by (auto simp: vr_def)
qed

lemma spu_values [vr]: "(\<And>u. Q u) \<Longrightarrow> vr (get_spu i s) Q" "(\<And>u. P u) \<Longrightarrow> vr (load_op i r s) P"
  by (simp_all add: vr_def)

lemma view_heap [simp]: "view (s\<lparr>op_heap := h\<rparr>) = view s" "view (s\<lparr>next_poll := n\<rparr>) = view s" "view (s\<lparr>ua_head := f\<rparr>) = view s"
  by (simp_all add: view_def)

lemma upd_spu_view [vr]: "(\<And>s'. view s' = view s \<Longrightarrow> Q s') \<Longrightarrow> vr (upd_spu i f s) Q"
  by (auto simp: upd_spu_def intro!: vr)

lemma store_op_view [THEN vr_mono, vr]: "vr (store_op i r p s) (\<lambda>t. view t = view s)"
  by (auto simp: store_op_def split: op_ref.splits intro!: vr)

lemma ppu_finish_dt_view [THEN vr_mono, vr]: "vr (ppu_finish_dt c s) (\<lambda>t. view t = view s)"
  by (auto simp: ppu_finish_dt_def ppu_finish_dt_in_back_def ppu_finish_dt_out_front_def store_ua_head_def intro!: vr)

lemma finish_waiting_view:
  assumes "quiet code"
  shows "vr (finish_waiting code i w c s) (\<lambda>t. view t = view s)"
  by (auto simp: finish_waiting_def split: option.splits intro!: vr quiet_vr [OF assms])

lemma finish_all_waiting_view:
  assumes "quiet code"
  shows "vr (finish_all_waiting code i w d s) (\<lambda>t. view t = view s)"
  using assms
proof (induction code i w d s rule: finish_all_waiting.induct)
  case (1 code i w d s)
  have step: "view t = view s" if "finish_waiting code i w c s = Inr t" for c t
    using finish_waiting_view [OF 1(2)] that by (simp add: vr_def)
  show ?case
    by (subst finish_all_waiting.simps) (use 1(1) [OF _ _ 1(2)] in \<open>auto simp: vr_def step split: sum.splits\<close>)
qed

lemma dispatch_ops_view:
  assumes "quiet code"
  shows "vr (dispatch_ops code n i r w s) (\<lambda>(_, t). view t = view s)"
proof (induction n arbitrary: r w s)
  case (Suc n)
  note rec = Suc.IH [THEN vr_pairs]
  show ?case by (auto simp: Let_def split: option.splits intro!: vr quiet_vr [OF assms] rec)
qed simp

lemma ds_code_quiet: "quiet code \<Longrightarrow> quiet (ds_code gm n m code)"
  by (simp add: quiet_def ds_code_def)

lemma spu_cb_slots: "slots_ok s \<Longrightarrow> vr (spu_cb gm n m i s) (ds_advanced s)"
  by (auto simp: spu_cb_def sp_is_def sp_view_of_def split: option.splits intro!: vr ds_handle_complete_slots)

lemma spu_report_complete_slots:
  assumes "slots_ok s"
  shows "vr (spu_report_complete (ds_code gm n m code) i w s) (ds_advanced s)"
proof -
  have cb: "vr (spu_cb gm n m i t) (ds_advanced s)" if "view t = view s" for t
    by (rule vr_mono [OF spu_cb_slots]) (use that assms slots_ok_view [of t s] in \<open>auto simp: ds_advanced_def\<close>)
  show ?thesis
    using assms by (auto simp: spu_report_complete_def ds_code_def split: option.splits intro!: vr cb ds_advanced_refl)
qed

lemma spu_handle_internal_view: "quiet code \<Longrightarrow> vr (spu_handle_internal_complete code k i w s) (\<lambda>t. view t = view s)"
  by (auto simp: spu_handle_internal_complete_def intro!: vr dispatch_ops_view [THEN vr_mono])

lemma spu_handle_complete_slots:
  assumes "slots_ok s" "quiet code"
  shows "vr (spu_handle_complete (ds_code gm n m code) k i w s) (ds_advanced s)"
proof -
  have rep: "vr (spu_report_complete (ds_code gm n m code) i w t) (ds_advanced s)" if "view t = view s" for t w
    by (rule vr_mono [OF spu_report_complete_slots]) (use that assms slots_ok_view [of t s] in \<open>auto simp: ds_advanced_def\<close>)
  note q = ds_code_quiet [OF assms(2)]
  show ?thesis
    by (auto simp: spu_handle_complete_def Let_def intro!: vr rep finish_all_waiting_view [OF q, THEN vr_mono] spu_handle_internal_view [OF q, THEN vr_mono])
qed

lemma poll_loop_slots:
  assumes "slots_ok s" "quiet code"
  shows "vr (poll_loop (ds_code gm n m code) k j i s) (\<lambda>(_, t). ds_advanced s t)"
proof (induction j arbitrary: i)
  case (Suc j)
  have done': "ds_advanced s (t\<lparr>next_poll := x\<rparr>)" if "ds_advanced s t" for t x using that
    by (simp add: ds_advanced_def slots_ok_def)
  have handle: "vr (spu_handle_complete (ds_code gm n m code) k i w t) (ds_advanced s)" if "view t = view s" for t w
    by (rule vr_mono [OF spu_handle_complete_slots [OF _ assms(2)]]) (use that assms slots_ok_view [of t s] in \<open>auto simp: ds_advanced_def\<close>)
  have read: "vr (read_out_mbox i s) (\<lambda>(_, t). view t = view s)"
    by (auto simp: read_out_mbox_def split: option.splits intro!: vr)
  show ?case
    using assms(1) Suc.IH by (auto intro!: vr read [THEN vr_mono] handle [THEN vr_mono] done' ds_advanced_refl)
qed simp

lemma spulib_poll_slots:
  "slots_ok s \<Longrightarrow> quiet code \<Longrightarrow> vr (spulib_poll (ds_code gm n m code) k s) (\<lambda>(_, t). ds_advanced s t)"
  by (simp add: spulib_poll_def poll_loop_slots)

section \<open>What the invariant says\<close>

text \<open>The control blocks, command data, command IDs and command groups of two filters on one SPU.\<close>

definition slots_apart :: "ds_spu \<Rightarrow> active \<Rightarrow> active \<Rightarrow> bool" where
  "slots_apart u a b \<longleftrightarrow> {a_filt_cb a, a_filt_cb b} = {sp_filter_start u, sp_filter_start u + DS_SPU_FILTER_SLOT_SIZE} \<and>
     {a_cmd_data a, a_cmd_data b} = {sp_cmd_start u, sp_cmd_start u + DS_SPU_CMD_DATA_SLOT_SIZE} \<and>
     {a_cmd_id a, a_cmd_id b} = {0, 16} \<and> {a_cmd_group a, a_cmd_group b} = {28, 30}"

definition spu_wf :: "ds_spu \<Rightarrow> bool" where
  "spu_wf u \<longleftrightarrow> length (sp_filters u) = 2 \<and> sp_next_filt u < 2 \<and> {sp_filt_slot u, sp_cmd_slot u, sp_id_slot u} \<subseteq> {0, 1} \<and> sp_group_slot u < 2 \<and>
     (\<forall>k. sp_current u = Some k \<longrightarrow> k < 2) \<and> (\<forall>k. sp_next u = Some k \<longrightarrow> k < 2 \<and> sp_current u \<noteq> None \<and> sp_current u \<noteq> Some k)"

lemma slot_pair: "x = 0 \<or> x = 1 \<Longrightarrow> {b + x * n, b + (x XOR 1) * n} = {b, b + (n :: u32)}"
  by auto

lemma has_slots_apart:
  assumes "slots_small sl" "has_slots (sp_filter_start u, sp_cmd_start u) sl (af_view a)" "has_slots (sp_filter_start u, sp_cmd_start u) (other_slots sl) (af_view b)"
  shows "slots_apart u a b"
proof -
  obtain fs ds cs gs where sl: "sl = (fs, ds, cs, gs)" by (cases sl)
  have small: "fs = 0 \<or> fs = 1" "ds = 0 \<or> ds = 1" "cs = 0 \<or> cs = 1" and gs: "gs = 0 \<or> gs = 1" using assms(1) by (simp_all add: sl)
  have "{28 + gs * 2, 28 + (gs XOR 1) * 2} = {28, 30}" using gs by auto
  moreover have "{0 + cs * 16, 0 + (cs XOR 1) * 16} = {0, 16}" using slot_pair [OF small(3), of 0 16] by simp
  moreover have "a_filt_cb a = sp_filter_start u + fs * DS_SPU_FILTER_SLOT_SIZE" "a_filt_cb b = sp_filter_start u + (fs XOR 1) * DS_SPU_FILTER_SLOT_SIZE"
      "a_cmd_data a = sp_cmd_start u + ds * DS_SPU_CMD_DATA_SLOT_SIZE" "a_cmd_data b = sp_cmd_start u + (ds XOR 1) * DS_SPU_CMD_DATA_SLOT_SIZE"
      "a_cmd_id a = 0 + cs * 16" "a_cmd_id b = 0 + (cs XOR 1) * 16" "a_cmd_group a = 28 + gs * 2" "a_cmd_group b = 28 + (gs XOR 1) * 2"
    using assms(2,3) by (simp_all add: sl af_view_def)
  ultimately show ?thesis unfolding slots_apart_def by (simp only: slot_pair [OF small(1)] slot_pair [OF small(2)])
qed

lemma slots_ok_spu:
  assumes "slots_ok s" "u \<in> set (ds_spus (client s))"
  shows "spu_slots_ok (exclusive_in (view s)) (sp_view_of u)"
  using assms by (simp add: slots_ok_def view_def Let_def)

lemma slots_ok_apart:
  assumes "slots_ok s" "u \<in> set (ds_spus (client s))" "sp_current u = Some j" "sp_next u = Some k"
  shows "slots_apart u (sp_filters u ! j) (sp_filters u ! k)" "\<not> exclusive_in (view s) (a_f (sp_filters u ! j))"
proof -
  note ok = slots_ok_spu [OF assms(1,2)]
  have "v_current (sp_view_of u) = Some j" "v_next (sp_view_of u) = Some k" using assms(3,4) by (simp_all add: sp_view_of_def)
  then have c: "length (v_filters (sp_view_of u)) = 2" "slots_small (v_slots (sp_view_of u))" "j < 2" "k = j XOR 1"
      "\<not> exclusive_in (view s) (filter_of (v_filters (sp_view_of u) ! j))"
      "has_slots (v_start (sp_view_of u)) (v_slots (sp_view_of u)) (v_filters (sp_view_of u) ! j)"
      "has_slots (v_start (sp_view_of u)) (other_slots (v_slots (sp_view_of u))) (v_filters (sp_view_of u) ! k)"
    using ok by (auto simp: spu_slots_ok_def)
  have l: "j < length (sp_filters u)" "k < length (sp_filters u)" using c(1,3,4) xor_two [OF c(3)] by (simp_all add: sp_view_of_def)
  then have f: "v_filters (sp_view_of u) ! j = af_view (sp_filters u ! j)" "v_filters (sp_view_of u) ! k = af_view (sp_filters u ! k)"
      "v_start (sp_view_of u) = (sp_filter_start u, sp_cmd_start u)"
    by (simp_all add: sp_view_of_def)
  show "slots_apart u (sp_filters u ! j) (sp_filters u ! k)" by (rule has_slots_apart [OF c(2)]) (use c(6,7) f in simp_all)
  show "\<not> exclusive_in (view s) (a_f (sp_filters u ! j))" using c(5) f by (simp add: filter_of_def af_view_def)
qed

lemma slots_ok_wf:
  assumes "slots_ok s" "u \<in> set (ds_spus (client s))"
  shows "spu_wf u"
proof -
  note ok = slots_ok_spu [OF assms]
  have base: "length (sp_filters u) = 2" "sp_next_filt u < 2" "{sp_filt_slot u, sp_cmd_slot u, sp_id_slot u} \<subseteq> {0, 1}" "sp_group_slot u < 2"
    using ok by (auto simp: spu_slots_ok_def sp_view_of_def)
  show ?thesis
  proof (cases "sp_current u")
    case None
    then have "sp_next u = None" using ok by (simp add: spu_slots_ok_def sp_view_of_def)
    then show ?thesis using None base by (simp add: spu_wf_def)
  next
    case (Some k)
    then have "k < 2" "sp_next u = None \<or> sp_next u = Some (k XOR 1)"
      using ok by (auto simp: spu_slots_ok_def sp_view_of_def split: option.splits)
    then show ?thesis using Some base xor_two [of k] by (auto simp: spu_wf_def)
  qed
qed

section \<open>Starting\<close>

text \<open>The SPU records before the first run: the code leaves them as they are loaded, all zero.\<close>

definition spu_fresh :: "ds_spu \<Rightarrow> bool" where
  "spu_fresh u \<longleftrightarrow> length (sp_filters u) = 2 \<and> sp_current u = None \<and> sp_next u = None \<and> sp_next_filt u = 0 \<and> sp_filt_slot u = 0 \<and>
     sp_cmd_slot u = 0 \<and> sp_id_slot u = 0 \<and> sp_group_slot u = 0"

definition all_fresh :: "'d ds_ppu \<Rightarrow> bool" where
  "all_fresh s \<longleftrightarrow> (\<forall>u\<in>set (ds_spus (client s)). spu_fresh u)"

lemma fresh_slots_ok: "all_fresh s \<Longrightarrow> slots_ok s"
  by (auto simp: all_fresh_def slots_ok_def view_def Let_def spu_fresh_def spu_slots_ok_def sp_view_of_def)

lemma fresh_same: "ds_spus (client t) = ds_spus (client s) \<Longrightarrow> all_fresh s \<Longrightarrow> all_fresh t"
  by (simp add: all_fresh_def)

lemma run_init_fresh:
  assumes "all_fresh s"
  shows "vr (run_init s) all_fresh"
proof -
  have 1: "vr (upd_flt i g t) all_fresh" if "all_fresh t" for i g t
    using that by (auto simp: vr_def upd_flt_def res_simps put_flt_def upd_client_def all_fresh_def)
  have 2: "vr (upd_dp i g t) all_fresh" if "all_fresh t" for i g t
    using that by (auto simp: vr_def upd_dp_def res_simps upd_client_def all_fresh_def)
  have 3: "all_fresh (upd_client (\<lambda>x. x\<lparr>ds_next_dp := p, ds_num_free := g x\<rparr>) t)" if "all_fresh t" for p g t
    using that by (simp add: all_fresh_def upd_client_def)
  have 4: "vr (rfold (\<lambda>i s. rbind (get_sp i s) (\<lambda>u. rbind (index_res (sp_filters u) 0) (\<lambda>a. rbind (index_res (sp_filters u) 1) (\<lambda>b.
         Inr (put_sp i (u\<lparr>sp_id := i, sp_filters := (sp_filters u)[0 := a\<lparr>a_spu_id := i\<rparr>, 1 := b\<lparr>a_spu_id := i\<rparr>],
           sp_buffer_start := 0, sp_filter_start := 3 * DS_SPU_BUFFER_SLOT_SIZE,
           sp_cmd_start := 3 * DS_SPU_BUFFER_SLOT_SIZE + 2 * DS_SPU_FILTER_SLOT_SIZE\<rparr>) s)))))
       xs t) all_fresh" if "all_fresh t" for xs and t :: "('b, ds_state) ppu"
  proof (rule vr_rfold [where P = all_fresh, OF that])
    fix i and t :: "('b, ds_state) ppu" assume "all_fresh t"
    then show "vr (rbind (get_sp i t) (\<lambda>u. rbind (index_res (sp_filters u) 0) (\<lambda>a. rbind (index_res (sp_filters u) 1) (\<lambda>b.
         Inr (put_sp i (u\<lparr>sp_id := i, sp_filters := (sp_filters u)[0 := a\<lparr>a_spu_id := i\<rparr>, 1 := b\<lparr>a_spu_id := i\<rparr>],
           sp_buffer_start := 0, sp_filter_start := 3 * DS_SPU_BUFFER_SLOT_SIZE,
           sp_cmd_start := 3 * DS_SPU_BUFFER_SLOT_SIZE + 2 * DS_SPU_FILTER_SLOT_SIZE\<rparr>) t))))) all_fresh"
      by (auto simp: vr_def res_simps get_sp_is put_sp_def upd_client_def all_fresh_def spu_fresh_def dest!: subsetD [OF set_update_subset_insert])
  qed
  have 5: "vr (rfold (\<lambda>i. upd_flt i g) xs t) all_fresh" "vr (rfold (\<lambda>i. upd_dp i (h i)) xs t) all_fresh" if "all_fresh t" for g h xs t
    by (rule vr_rfold [where P = all_fresh, OF that], erule 1, rule vr_rfold [where P = all_fresh, OF that], erule 2)
  show ?thesis
    unfolding run_init_def vr_simps(3)
    by (rule vr_mono [OF 5(1) [OF assms]], rule vr_mono [OF 5(2)], assumption) (intro 4 3)
qed

lemma each_spu_view [vr]:
  assumes "\<And>i s'. view s' = view s \<Longrightarrow> vr (g i s') (\<lambda>t. view t = view s)" "\<And>s'. view s' = view s \<Longrightarrow> Q s'"
  shows "vr (each_spu g s) Q"
  unfolding each_spu_def by (rule vr_fold [OF assms])

lemma spu_init_func_view:
  assumes "\<And>i w s. vr (wait i w s) (\<lambda>t. view t = view s)"
  shows "vr (spu_init_func old wait i (n, s)) (\<lambda>t. view (snd t) = view s)"
  by (auto simp: spu_init_func_def intro!: vr assms [THEN vr_mono])

lemma ds_spu_init_funcs_view:
  assumes "\<And>i w s. vr (wait i w s) (\<lambda>t. view t = view s)"
  shows "vr (ds_spu_init_funcs old wait s) (\<lambda>t. view t = view s)"
proof -
  have "vr (get_mask n) Q" if "\<And>x. Q x" for n Q using that by (simp add: vr_def)
  note get_mask = this
  show ?thesis
    by (auto simp: ds_spu_init_funcs_def intro!: vr get_mask spu_init_func_view [THEN vr_mono] assms [THEN vr_mono])
qed

lemma set_cb_view [THEN vr_mono, vr]: "vr (spulib_set_all_spu_complete_cb cb s) (\<lambda>t. view t = view s)"
  by (auto simp: spulib_set_all_spu_complete_cb_def intro!: vr)

section \<open>A run\<close>

text \<open>One filter, its whole input in the buffer, and an SPU that completes what the scheduler waits for.\<close>

definition run_info :: spu_info where
  "run_info = \<lparr>i_data_start = 8192, i_data_size = 0, i_data_addr = 0,
     i_groups = map (\<lambda>g. \<lparr>g_spu_id = 0, g_gid = g, g_size = 0, g_cmds = []\<rparr>) [0..<40],
     i_next_free = (\<lambda>g. None), i_free_group = None, i_internal = 0, i_completed = 0, i_issued = 0,
     i_dt_waiting = [], i_dt_mask = 0, i_complete_cb = None, i_dt_cb = None, i_ops = None, i_in_mbox = [], i_out_mbox = None\<rparr>"

definition zero_spu :: ds_spu where
  "zero_spu = \<lparr>sp_id = 0, sp_filters = replicate 2 (demo_active\<lparr>a_inputs := replicate 2 \<lparr>at_data = 0, at_buf = 0, at_instance = 0\<rparr>\<rparr>), sp_current = None,
     sp_next = None, sp_next_filt = 0, sp_buffer_start = 0, sp_filter_start = 0, sp_cmd_start = 0, sp_buf_slot = 0, sp_filt_slot = 0, sp_cmd_slot = 0,
     sp_id_slot = 0, sp_group_slot = 0, sp_run_issued = False, sp_run_id = 0\<rparr>"

definition zero_mem :: group_mem where
  "zero_mem = \<lparr>gm_old = \<lparr>c_type = 0, c_id = 0, num_back_deps = 0, num_forward_deps = 0, c_next = 0, c_deps = replicate 15 0, c_body = No_Params\<rparr>,
     gm_in = \<lparr>di_buf_data = 0, di_src_buf_data = 0, di_src_buf = None, di_src_buf_mask = 0, di_num_bytes = 0, di_state = 0, di_tag = 0, di_copy_bytes = 0,
       di_src_head = 0, di_ua_bytes = 0\<rparr>,
     gm_out = \<lparr>do_buf_data = 0, do_dest_buf_data = 0, do_num_bytes = 0, do_state = 0, do_tag = 0, do_out_head = 0, do_out_tail = 0\<rparr>,
     gm_out_ppu = \<lparr>dp_buf_data = 0, dp_dest_buf_data = 0, dp_dest_buf = 0, dp_dest_buf_mask = 0, dp_num_bytes = 0, dp_tail_overlaps = False, dp_state = 0,
       dp_tag = 0, dp_dest_tail = 0, dp_copy_bytes = 0, dp_tail_ua_bytes = 0\<rparr>\<rparr>"

definition run_ds :: "unit ds_ppu" where
  "run_ds = demo_ds\<lparr>spus := replicate 6 run_info,
     pmem := \<lparr>bufs = (\<lambda>b. Some (let t = (if even b then 64 else 0) in demo_buffer\<lparr>b_mask := 255, b_tail := t, otail := t\<rparr>)), datas = Map.empty\<rparr>,
     client := demo_sched\<lparr>ds_filters := map (\<lambda>i. (demo_filter [i] [i + 1] 16 30)\<lparr>df_incomplete := 0\<rparr>) [0, 2],
       ds_channels := map (\<lambda>c. c\<lparr>ch_size := 256\<rparr>) [
         demo_channel\<lparr>ch_in_f := Some 0, ch_used := 64, ch_free := 177, ch_in_size := 1024\<rparr>,
         demo_channel\<lparr>ch_out_f := Some 0, ch_free := 241, ch_source := 1, ch_buf := 1, ch_out_size := 1024\<rparr>,
         demo_channel\<lparr>ch_in_f := Some 1, ch_used := 64, ch_free := 177, ch_in_size := 1024, ch_source := 2, ch_buf := 2\<rparr>,
         demo_channel\<lparr>ch_out_f := Some 1, ch_free := 241, ch_source := 3, ch_buf := 3, ch_out_size := 1024\<rparr>],
       ds_num_spu := 1, ds_incomplete := 2, ds_spus := [zero_spu]\<rparr>\<rparr>"

definition spu_done :: "nat \<Rightarrow> u32 \<Rightarrow> unit ds_ppu \<Rightarrow> unit ds_ppu res" where
  "spu_done i w = upd_spu i (\<lambda>u. u\<lparr>i_issued := i_issued u AND NOT w, i_in_mbox := []\<rparr>)"

definition finishing :: "nat \<Rightarrow> unit ds_ppu \<Rightarrow> unit ds_ppu" where
  "finishing t s = (case sp_current (ds_spus (client s) ! 0) of None \<Rightarrow> s
     | Some k \<Rightarrow> s\<lparr>spus := (spus s)[0 := (spus s ! 0)\<lparr>i_in_mbox := [], i_out_mbox := Some (a_waiting (sp_filters (ds_spus (client s) ! 0) ! k))\<rparr>]\<rparr>)"

definition quiet_code :: "(unit, ds_state) lib_code" where
  "quiet_code = \<lparr>run_op = (\<lambda>_ _ _ s. Inr (False, s)), run_generic = (\<lambda>_ _. Inr), run_complete = (\<lambda>_ _ _ _. Inr)\<rparr>"

definition placed_at :: "nat \<Rightarrow> u32 \<Rightarrow> nat \<Rightarrow> u32 \<Rightarrow> active" where
  "placed_at a n phase waiting = demo_active\<lparr>a_f := a, a_filt_cb := 101376 + n * 16384, a_cmd_data := 134144 + n * 1024, a_cmd_id := n * 16,
     a_cmd_group := 28 + 2 * a, a_phase := phase, a_waiting := waiting\<rparr>"

text \<open>Filter 0 runs, filter 1 waits for the allocation of its buffers, which the SPU has just reported.\<close>

definition busy_ds :: "unit ds_ppu" where
  "busy_ds = run_ds\<lparr>spus := replicate 6 (run_info\<lparr>i_complete_cb := Some DS_SPU_CB, i_issued := 0x10007, i_out_mbox := Some 0x10000\<rparr>),
     client := (client run_ds)\<lparr>ds_spus := [zero_spu\<lparr>sp_filters := [placed_at 0 0 DS_STEADY 7, placed_at 1 1 DS_ALLOC 0x10000], sp_current := Some 0,
       sp_next := Some 1, sp_filter_start := 101376, sp_cmd_start := 134144\<rparr>]\<rparr>\<rparr>"

section \<open>Properties\<close>

text \<open>C7: a poll of the library, whatever message it finds and whatever the scheduler then does, leaves the slots of every SPU apart
  when they were: two filters on an SPU have the two control blocks, the two areas for commands, the command IDs from 0 and from 16
  and the command groups from 28 and from 30, one each, and the one that runs is not exclusive.  The graph stays as it is.
  Handlers of operations and callbacks of transfers are assumed to leave the scheduler's state alone.\<close>

theorem polls_keep_slots_apart:
  assumes "slots_ok s" "quiet code" "spulib_poll (ds_code gm n m code) k s = Inr (b, s')"
  shows "slots_ok s' \<and> map ch_static (ds_channels (client s')) = map ch_static (ds_channels (client s)) \<and>
    length (ds_spus (client s')) = length (ds_spus (client s)) \<and>
    (\<forall>u\<in>set (ds_spus (client s')). \<forall>i j. sp_current u = Some i \<and> sp_next u = Some j \<longrightarrow>
      slots_apart u (sp_filters u ! i) (sp_filters u ! j) \<and> (\<forall>f. get_flt (a_f (sp_filters u ! i)) s' = Inr f \<longrightarrow> \<not> df_exclusive f))"
proof -
  have adv: "ds_advanced s s'" using spulib_poll_slots [OF assms(1,2)] assms(3) by (auto simp: vr_def)
  then have ok: "slots_ok s'" by (simp add: ds_advanced_def)
  have ex: "exclusive_in (view s') a = df_exclusive f" if "get_flt a s' = Inr f" for a f
    using that by (auto simp: get_flt_def res_simps exclusive_in_def view_def Let_def flt_view_def)
  show ?thesis
  proof (intro conjI ballI allI impI)
    show "map ch_static (ds_channels (client s')) = map ch_static (ds_channels (client s))" "length (ds_spus (client s')) = length (ds_spus (client s))"
      using adv by (simp_all add: ds_advanced_def view_def Let_def)
  qed (use ok slots_ok_apart [OF ok] ex in blast)+
qed

lemma busy_slots: "slots_ok busy_ds"
  by (simp add: slots_ok_def view_def Let_def busy_ds_def spu_slots_ok_def sp_view_of_def zero_spu_def placed_at_def demo_active_def af_view_def
    exclusive_in_def flt_view_def run_ds_def demo_ds_defs filter_of_def DS_SPU_FILTER_SLOT_SIZE_def DS_SPU_CMD_DATA_SLOT_SIZE_def)

lemma idle_quiet: "quiet quiet_code"
  by (simp add: quiet_def quiet_code_def)

theorem polls_keep_slots_apart_witness:
  "\<exists>b s'. spulib_poll (ds_code zero_mem 4 20 quiet_code) 3 busy_ds = Inr (b, s') \<and> b \<and> a_waiting (sp_filters (ds_spus (client s') ! 0) ! 1) = 0 \<and>
     slots_ok s' \<and> length (ds_spus (client s')) = 1"
proof -
  have "case spulib_poll (ds_code zero_mem 4 20 quiet_code) 3 busy_ds of Inr (b, s) \<Rightarrow> b \<and> a_waiting (sp_filters (ds_spus (client s) ! 0) ! 1) = 0 | Inl _ \<Rightarrow> False"
    by code_simp
  then obtain b s' where poll: "spulib_poll (ds_code zero_mem 4 20 quiet_code) 3 busy_ds = Inr (b, s')" and r: "b" "a_waiting (sp_filters (ds_spus (client s') ! 0) ! 1) = 0"
    by (auto split: sum.splits)
  have "length (ds_spus (client busy_ds)) = 1" by (simp add: busy_ds_def)
  then show ?thesis using polls_keep_slots_apart [OF busy_slots idle_quiet poll] poll r by auto
qed

text \<open>
  The states of a run: after the set-up of \<open>ds_run\<close> and the first scheduling, the SPUs, the memory and everything else but
  the scheduler's state may change at any time (\<open>env\<close>), and the poll loop polls, with whatever result.
\<close>

inductive ds_reachable :: "group_mem \<Rightarrow> (nat \<Rightarrow> u32 \<Rightarrow> 'd ds_ppu \<Rightarrow> 'd ds_ppu res) \<Rightarrow> ('d, ds_state) lib_code \<Rightarrow> 'd ds_ppu \<Rightarrow> 'd ds_ppu \<Rightarrow> bool"
  for gm wait code s0 where
  start: "ds_begin gm wait s0 = Inr s \<Longrightarrow> ds_reachable gm wait code s0 s"
| env: "\<lbrakk>ds_reachable gm wait code s0 s; client t = client s\<rbrakk> \<Longrightarrow> ds_reachable gm wait code s0 t"
| poll: "\<lbrakk>ds_reachable gm wait code s0 s; spulib_poll (ds_code gm n m code) k s = Inr (b, t)\<rbrakk> \<Longrightarrow> ds_reachable gm wait code s0 t"

lemma ds_begin_slots:
  assumes "all_fresh s" "\<And>i w s t. wait i w s = Inr t \<Longrightarrow> client t = client s"
  shows "vr (ds_begin gm wait s) slots_ok"
proof -
  have wait: "vr (wait i w s) (\<lambda>t. view t = view s)" for i w s using assms(2) by (auto simp: vr_def intro: view_client)
  have sched: "vr (schedule_all_free_spu gm None t) slots_ok" if "slots_ok t" for t
    by (rule vr_mono [OF schedule_all_free_spu_slots [OF that]]) (simp add: scheduled_def)
  have begun: "vr (ds_spu_init_funcs (gm_old gm) wait t) (\<lambda>t. vr (spulib_set_all_spu_complete_cb (Some DS_SPU_CB) t) (\<lambda>t.
      vr (schedule_all_free_spu gm None t) slots_ok))" if "slots_ok t" for t
    by (rule vr_mono [OF ds_spu_init_funcs_view [OF wait]]) (use that slots_ok_view in \<open>auto intro!: vr sched\<close>)
  show ?thesis
    unfolding ds_begin_def vr_simps(3) by (rule vr_mono [OF run_init_fresh [OF assms(1)]]) (intro begun fresh_slots_ok)
qed

lemma ds_reachable_slots:
  assumes "ds_reachable gm wait code s t" "all_fresh s" "quiet code" "\<And>i w s t. wait i w s = Inr t \<Longrightarrow> client t = client s"
  shows "slots_ok t"
  using assms(1)
proof (induction rule: ds_reachable.induct)
  case (start t)
  then show ?case using ds_begin_slots [OF assms(2,4), where gm = gm] by (simp add: vr_def)
next
  case (env u t)
  then show ?case using slots_ok_view [of t u] view_client [of t u] by simp
next
  case (poll u n m k b t)
  then show ?case using spulib_poll_slots [OF poll.IH assms(3), where gm = gm and n = n and m = m and k = k] by (simp add: vr_def ds_advanced_def)
qed

text \<open>What \<open>ds_schedule\<close> returns is one of these states, whatever the bounds of its loops.\<close>

lemma poll_while_reachable:
  assumes "ds_reachable gm wait code s0 s" "\<And>t s. client (env t s) = client s" "poll_while_incomplete (ds_code gm n m code) env n k t p s = Inr s'"
  shows "ds_reachable gm wait code s0 s'"
  using assms(1,3)
proof (induction k arbitrary: t p s)
  case (Suc k)
  show ?case
  proof (cases "p \<and> ds_incomplete (client s) = 0")
    case False
    then obtain b u where u: "spulib_poll (ds_code gm n m code) n (env t s) = Inr (b, u)"
      "poll_while_incomplete (ds_code gm n m code) env n k (Suc t) b u = Inr s'"
      using Suc.prems(2) by (auto simp: res_simps)
    have "ds_reachable gm wait code s0 (env t s)" using Suc.prems(1) assms(2) by (rule ds_reachable.env)
    from Suc.IH [OF ds_reachable.poll [OF this u(1)] u(2)] show ?thesis .
  qed (use Suc.prems in auto)
qed simp

lemma ds_schedule_reachable:
  assumes "\<And>t s. client (env t s) = client s" "ds_schedule gm n m wait code env polls s = Inr s'"
  shows "ds_reachable gm wait code s s'"
proof -
  obtain u where "ds_begin gm wait s = Inr u" "poll_while_incomplete (ds_code gm n m code) env n polls 0 True u = Inr s'"
    using assms(2) by (auto simp: ds_schedule_def res_simps)
  then show ?thesis using poll_while_reachable [OF ds_reachable.start, where env = env, OF _ assms(1)] by blast
qed

text \<open>C8: in every state of a run that starts with SPU records that are all zero, as the code is loaded, they are well formed: two active
  filters, slots 0 or 1, \<open>current\<close> and \<open>next\<close> different and in range, and no \<open>next\<close> without \<open>current\<close>; and the slots of two filters on an
  SPU are apart.  That holds after the first scheduling and after every poll, with or without a message, of a run of any length, ended or not, and
  what \<open>ds_schedule\<close> returns is one of these states.  What the SPUs do between polls, waiting for them during the set-up, and
  the handlers of other operations are assumed to leave the scheduler's state alone.\<close>

theorem run_states_well_formed:
  assumes "all_fresh s" "quiet code" "\<And>i w s t. wait i w s = Inr t \<Longrightarrow> client t = client s"
    and "ds_reachable gm wait code s t"
  shows "(\<forall>u\<in>set (ds_spus (client t)). spu_wf u) \<and> slots_ok t \<and>
    (\<forall>env n m polls s'. (\<forall>t s. client (env t s) = client s) \<and> ds_schedule gm n m wait code env polls s = Inr s' \<longrightarrow>
      ds_reachable gm wait code s s')"
proof -
  have "slots_ok t" using ds_reachable_slots [OF assms(4,1,2,3)] .
  then show ?thesis using slots_ok_wf ds_schedule_reachable [where s = s and gm = gm and wait = wait and code = code] by blast
qed

text \<open>Polls before each of which the SPU completes what the scheduler waits for.\<close>

primrec finish_polls :: "nat \<Rightarrow> unit ds_ppu \<Rightarrow> unit ds_ppu res" where
  "finish_polls 0 s = Inr s"
| "finish_polls (Suc k) s = rbind (spulib_poll (ds_code zero_mem 3 20 quiet_code) 3 (finishing 0 s)) (\<lambda>(b, t). ensure Unreached b (finish_polls k t))"

lemma finishing_client: "client (finishing t s) = client s"
  by (simp add: finishing_def split: option.splits)

lemma finish_polls_reachable:
  "ds_reachable zero_mem wait quiet_code s0 s \<Longrightarrow> finish_polls k s = Inr t \<Longrightarrow> ds_reachable zero_mem wait quiet_code s0 t"
proof (induction k arbitrary: s)
  case (Suc k)
  then obtain b u where u: "spulib_poll (ds_code zero_mem 3 20 quiet_code) 3 (finishing 0 s) = Inr (b, u)" "finish_polls k u = Inr t"
    by (auto simp: res_simps)
  show ?case by (rule Suc.IH [OF ds_reachable.poll [OF ds_reachable.env [OF Suc.prems(1) finishing_client] u(1)] u(2)])
qed simp

text \<open>Two polls after the start the SPU has allocated the buffers of filter 0 and loaded it, and its first input is on its way.\<close>

theorem run_states_well_formed_witness:
  "\<exists>s t. ds_begin zero_mem spu_done run_ds = Inr s \<and> finish_polls 2 s = Inr t \<and> sp_current (ds_spus (client t) ! 0) = Some 0 \<and>
     a_phase (sp_filters (ds_spus (client s) ! 0) ! 0) = DS_ALLOC \<and> a_phase (sp_filters (ds_spus (client t) ! 0) ! 0) = DS_INIT_A \<and>
     slots_ok t \<and> (\<forall>u\<in>set (ds_spus (client t)). spu_wf u)"
proof -
  have "case ds_begin zero_mem spu_done run_ds of Inr s \<Rightarrow> a_phase (sp_filters (ds_spus (client s) ! 0) ! 0) = DS_ALLOC \<and>
      (case finish_polls 2 s of Inr t \<Rightarrow> sp_current (ds_spus (client t) ! 0) = Some 0 \<and> a_phase (sp_filters (ds_spus (client t) ! 0) ! 0) = DS_INIT_A
       | Inl _ \<Rightarrow> False) | Inl _ \<Rightarrow> False"
    by code_simp
  then obtain s t where s: "ds_begin zero_mem spu_done run_ds = Inr s" and t: "finish_polls 2 s = Inr t" and
    r: "sp_current (ds_spus (client t) ! 0) = Some 0" "a_phase (sp_filters (ds_spus (client s) ! 0) ! 0) = DS_ALLOC"
      "a_phase (sp_filters (ds_spus (client t) ! 0) ! 0) = DS_INIT_A"
    by (auto split: sum.splits)
  have "all_fresh run_ds" by (simp add: all_fresh_def run_ds_def spu_fresh_def zero_spu_def)
  moreover have "client t = client s" if "spu_done i w s = Inr t" for i w s t
    using that by (auto simp: spu_done_def upd_spu_def put_spu_def res_simps)
  moreover have "ds_reachable zero_mem spu_done quiet_code run_ds t" by (rule finish_polls_reachable [OF ds_reachable.start [OF s] t])
  ultimately show ?thesis using run_states_well_formed [OF _ idle_quiet, of run_ds spu_done zero_mem t] s t r by blast
qed

end
