(* ===== verification/Psp_Ids.thy ===== *)
theory Psp_Ids
  imports Ext_Psp Ds_Polls
begin

text \<open>
  The command IDs of the operation with several tapes (\<open>library/cell/src/ppu/extpsp.c\<close>): the operation only
  ever waits for its own, with at most 14 tapes the masks are defined, and with 15 they are not.
\<close>

section \<open>Masks of consecutive IDs\<close>

definition bits_in :: "nat \<Rightarrow> nat \<Rightarrow> u32 \<Rightarrow> bool" where
  "bits_in lo hi w \<longleftrightarrow> (\<forall>i. bit w i \<longrightarrow> lo \<le> i \<and> i < hi)"

lemma bits_in_or: "bits_in lo hi v \<Longrightarrow> bits_in lo hi w \<Longrightarrow> bits_in lo hi (v OR w)"
  by (auto simp: bits_in_def bit_simps)

lemma bits_in_xor: "bits_in lo hi v \<Longrightarrow> bits_in lo hi w \<Longrightarrow> bits_in lo hi (v XOR w)"
  by (auto simp: bits_in_def bit_simps)

lemma bits_in_one: "lo = 0 \<Longrightarrow> 0 < hi \<Longrightarrow> bits_in lo hi 1"
  by (auto simp: bits_in_def bit_simps)

lemma bits_in_zero: "bits_in lo hi 0"
  by (simp add: bits_in_def)

lemma bits_in_mono: "bits_in lo hi w \<Longrightarrow> lo' \<le> lo \<Longrightarrow> hi \<le> hi' \<Longrightarrow> bits_in lo' hi' w"
  by (fastforce simp: bits_in_def)

lemma get_mask_small: "n < 32 \<Longrightarrow> get_mask n = Inr (mask n)"
  by (simp add: get_mask_def shl_def ensure_def mask_eq_exp_minus_1 push_bit_eq_mult)

lemma bits_in_mask: "bits_in 0 n (mask n)"
  by (simp add: bits_in_def bit_mask_iff)

lemma shl_in: "bits_in lo hi w \<Longrightarrow> k < 32 \<Longrightarrow> lo' \<le> lo + k \<Longrightarrow> hi + k \<le> hi' \<Longrightarrow> \<exists>w'. shl w k = Inr w' \<and> bits_in lo' hi' w'"
  by (force simp: shl_def ensure_def bits_in_def bit_push_bit_iff)

lemma mask_at_in: "n < 32 \<Longrightarrow> k < 32 \<Longrightarrow> lo \<le> k \<Longrightarrow> k + n \<le> hi \<Longrightarrow> \<exists>w. mask_at n k = Inr w \<and> bits_in lo hi w"
  using shl_in [OF bits_in_mask, of k lo n hi] by (simp add: mask_at_def get_mask_small add.commute)

section \<open>The IDs an operation waits for\<close>

definition psp_owns :: "psp_active \<Rightarrow> u32 \<Rightarrow> bool" where
  "psp_owns d = bits_in (psp_id d) (psp_id d + 2 * psp_cmds d)"

definition psp_sized :: "psp_active \<Rightarrow> bool" where
  "psp_sized d \<longleftrightarrow> psp_cmds d = 1 + psp_inputs d + psp_outputs d \<and> 1 < psp_cmds d \<and> psp_cmds d < 16 \<and> psp_id d + 2 * psp_cmds d \<le> 32"

lemma psp_masks_total:
  assumes d: "psp_sized d"
  shows "\<exists>w. psp_alloc_mask d = Inr w \<and> psp_owns d w" "\<exists>w. psp_init_a_mask d = Inr w \<and> psp_owns d w"
    "\<exists>w. psp_init_b_mask d = Inr w \<and> psp_owns d w" "\<exists>w. psp_steady_0_mask d = Inr w \<and> psp_owns d w"
  using d unfolding psp_sized_def psp_owns_def psp_alloc_mask_def psp_init_a_mask_def psp_init_b_mask_def psp_steady_0_mask_def
  by (auto intro!: mask_at_in)

lemma psp_load_mask_total:
  assumes d: "psp_sized d"
  shows "\<exists>w. psp_load_mask d = Inr w \<and> psp_owns d w"
proof -
  have n: "psp_cmds d < 32" and id: "psp_id d < 32" using d by (auto simp: psp_sized_def)
  obtain y where y: "mask_at (psp_outputs d) (1 + psp_inputs d + psp_cmds d) = Inr y" "bits_in 0 (2 * psp_cmds d) y"
    using mask_at_in [of "psp_outputs d" "1 + psp_inputs d + psp_cmds d" 0 "2 * psp_cmds d"] d by (auto simp: psp_sized_def)
  have "bits_in 0 (2 * psp_cmds d) ((mask (psp_cmds d) XOR (if p_load d then 0 else 1)) OR y)"
    using d y(2) by (auto simp: psp_sized_def intro!: bits_in_or bits_in_xor bits_in_one bits_in_zero bits_in_mono [OF bits_in_mask])
  from shl_in [OF this id, of "psp_id d" "psp_id d + 2 * psp_cmds d"] show ?thesis
    using y(1) by (simp add: psp_load_mask_def get_mask_small [OF n] psp_owns_def)
qed

lemma psp_cleanup_masks_total:
  assumes d: "psp_sized d" and slot: "slot < 2"
  shows "\<exists>w. psp_cleanup_a_mask d slot = Inr w \<and> psp_owns d w" "\<exists>w. psp_cleanup_b_mask d slot = Inr w \<and> psp_owns d w"
proof -
  obtain x where x: "mask_at (psp_outputs d) (1 + psp_inputs d) = Inr x" "bits_in 0 (psp_cmds d) x"
    using mask_at_in [of "psp_outputs d" "1 + psp_inputs d" 0 "psp_cmds d"] d by (auto simp: psp_sized_def)
  have k: "psp_id d + slot * psp_cmds d < 32" "psp_cmds d + (psp_id d + slot * psp_cmds d) \<le> psp_id d + 2 * psp_cmds d"
    using d slot by (auto simp: psp_sized_def less_2_cases_iff)
  have one: "bits_in 0 (psp_cmds d) 1" using d by (auto simp: psp_sized_def intro: bits_in_one)
  note shift = shl_in [OF _ k(1) _ k(2), of 0 _ "psp_id d"]
  show "\<exists>w. psp_cleanup_a_mask d slot = Inr w \<and> psp_owns d w"
    using shift [OF bits_in_or [OF one x(2)]] x(1) by (simp add: psp_cleanup_a_mask_def psp_owns_def)
  show "\<exists>w. psp_cleanup_b_mask d slot = Inr w \<and> psp_owns d w"
    using shift [OF bits_in_or [OF x(2) one]] shift [OF x(2)] x(1) by (simp add: psp_cleanup_b_mask_def psp_owns_def)
qed

lemma psp_cleanup_mask_total:
  assumes d: "psp_sized d"
  shows "slot < 2 \<Longrightarrow> \<exists>w. psp_cleanup_mask d slot = Inr w \<and> psp_owns d w" "\<exists>w. psp_short_cleanup_mask d = Inr w \<and> psp_owns d w"
proof -
  show "\<exists>w. psp_cleanup_mask d slot = Inr w \<and> psp_owns d w" if slot: "slot < 2"
  proof -
    have "slot XOR 1 < 2" using slot by (auto simp: less_2_cases_iff)
    then obtain x y where "psp_cleanup_a_mask d (slot XOR 1) = Inr x" "psp_owns d x" "psp_cleanup_b_mask d slot = Inr y" "psp_owns d y"
      using psp_cleanup_masks_total [OF d] slot by blast
    then show ?thesis by (simp add: psp_cleanup_mask_def psp_owns_def bits_in_or)
  qed
  obtain y where y: "psp_cleanup_b_mask d 1 = Inr y" "psp_owns d y" using psp_cleanup_masks_total(2) [OF d, of 1] by auto
  obtain x where "shl 1 (psp_id d) = Inr x" "psp_owns d x"
    using shl_in [OF bits_in_one [OF refl, of 1], of "psp_id d" "psp_id d" "psp_id d + 2 * psp_cmds d"] d by (auto simp: psp_sized_def psp_owns_def)
  then show "\<exists>w. psp_short_cleanup_mask d = Inr w \<and> psp_owns d w" using y by (simp add: psp_short_cleanup_mask_def psp_owns_def bits_in_or)
qed

section \<open>The phases\<close>

definition psp_ok :: "psp_active \<Rightarrow> bool" where
  "psp_ok d \<longleftrightarrow> psp_sized d \<and> psp_owns d (p_cmd_mask d) \<and> psp_owns d (p_waiting d) \<and> (p_phase d = PSP_STEADY \<longrightarrow> p_cur_group d < 2)"

text \<open>What never changes once an operation has started.\<close>

definition psp_same :: "psp_active \<Rightarrow> psp_active \<Rightarrow> bool" where
  "psp_same d d' \<longleftrightarrow> p_cmd_id d' = p_cmd_id d \<and> p_group_cmds d' = p_group_cmds d"

definition psp_kept :: "psp_active \<Rightarrow> psp_active \<Rightarrow> bool" where
  "psp_kept d d' \<longleftrightarrow> psp_ok d' \<and> psp_same d d'"

lemma psp_sized_upd [simp]:
  "psp_sized (d\<lparr>p_waiting := w\<rparr>) = psp_sized d" "psp_sized (d\<lparr>p_phase := k\<rparr>) = psp_sized d" "psp_sized (d\<lparr>p_groups_left := n\<rparr>) = psp_sized d"
  "psp_sized (d\<lparr>p_cur_group := k\<rparr>) = psp_sized d" "psp_sized (d\<lparr>p_completed := w\<rparr>) = psp_sized d" "psp_sized (d\<lparr>p_groups := gs\<rparr>) = psp_sized d"
  by (simp_all add: psp_sized_def psp_cmds_def psp_id_def psp_inputs_def psp_outputs_def)

lemma psp_owns_upd [simp]:
  "psp_owns (d\<lparr>p_waiting := w\<rparr>) = psp_owns d" "psp_owns (d\<lparr>p_phase := k\<rparr>) = psp_owns d" "psp_owns (d\<lparr>p_groups_left := n\<rparr>) = psp_owns d"
  "psp_owns (d\<lparr>p_cur_group := k\<rparr>) = psp_owns d" "psp_owns (d\<lparr>p_completed := w\<rparr>) = psp_owns d" "psp_owns (d\<lparr>p_groups := gs\<rparr>) = psp_owns d"
  by (simp_all add: psp_owns_def psp_cmds_def psp_id_def)

lemma vrI: "(\<And>x. r = Inr x \<Longrightarrow> Q x) \<Longrightarrow> vr r Q"
  by (simp add: vr_def)

lemma vr_mask: "\<exists>w. r = Inr w \<and> psp_owns d w \<Longrightarrow> (\<And>w. psp_owns d w \<Longrightarrow> Q w) \<Longrightarrow> vr r Q"
  by (auto simp: vr_def)

lemmas vr_psp_masks = psp_masks_total [THEN vr_mask] psp_load_mask_total [THEN vr_mask] psp_cleanup_mask_total(2) [THEN vr_mask]

text \<open>The functions that build and issue commands give any state.\<close>

lemma psp_states:
  assumes "\<And>t. Q t"
  shows "vr (psp_start_input d s) Q" "vr (psp_start_output d s) Q" "vr (psp_issue_group d k s) Q" "vr (psp_setup_init_b gm d s) Q"
    "vr (psp_setup_steady gm d k s) Q" "vr (psp_setup_cleanup_a gm d k s) Q" "vr (psp_setup_cleanup_b gm d k s) Q" "vr (psp_adjust_input d k s) Q"
    "vr (psp_finish_output d s) Q" "vr (psp_done_filter d s) Q" "vr (psp_setup_load gm d l s) Q" "vr (psp_setup_init_a gm d s) Q"
  using assms by (simp_all add: vr_def)

lemma psp_init_a_ok:
  assumes "psp_ok d"
  shows "vr (psp_init_a gm d s) (\<lambda>(d', _). psp_kept d d')"
  using assms
  by (auto simp: psp_init_a_def psp_kept_def psp_ok_def psp_same_def psp_phase_defs intro!: vr_psp_masks psp_states)

lemma psp_init_b_ok:
  assumes "psp_ok d"
  shows "vr (psp_init_b gm d s) (\<lambda>(d', _). psp_kept d d' \<and> p_phase d' = PSP_STEADY)"
  using assms
  by (auto simp: psp_init_b_def psp_kept_def psp_ok_def psp_same_def psp_phase_defs intro!: vr_psp_masks psp_states)

lemma psp_steady_ok:
  assumes "psp_ok d" "p_phase d = PSP_STEADY"
  shows "vr (psp_steady gm d s) (\<lambda>(d', _). psp_kept d d')"
proof -
  have x: "psp_owns d (p_waiting d XOR p_cmd_mask d)" using assms(1) by (simp add: psp_ok_def psp_owns_def bits_in_xor)
  have k: "p_cur_group d < 2" "p_cur_group d XOR Suc 0 < 2" using assms by (auto simp: psp_ok_def less_2_cases_iff)
  have d: "psp_sized d" "psp_owns d (p_cmd_mask d)" using assms(1) by (simp_all add: psp_ok_def)
  have c: "\<exists>w. psp_cleanup_mask d' (p_cur_group d) = Inr w \<and> psp_owns d' w" if "psp_sized d'" for d'
    by (rule psp_cleanup_mask_total(1) [OF that k(1)])
  show ?thesis
    using assms(2) d x k
    by (auto simp: psp_steady_def Let_def psp_kept_def psp_ok_def psp_same_def psp_phase_defs intro!: psp_states vr_mask [OF c])
qed

lemma psp_kept_trans: "psp_kept d d' \<Longrightarrow> psp_kept d' d'' \<Longrightarrow> psp_kept d d''"
  by (simp add: psp_kept_def psp_same_def)

lemma psp_ok_sized: "psp_ok d \<Longrightarrow> psp_sized d"
  by (simp add: psp_ok_def)

lemma psp_phase_ok:
  assumes "psp_ok d"
  shows "vr (psp_phase gm d s) (\<lambda>(_, d', _). psp_kept d d')"
proof -
  let ?d = "d\<lparr>p_completed := p_completed d AND NOT (p_waiting d)\<rparr>"
  have no_steady: "PSP_LOAD \<noteq> PSP_STEADY" "PSP_INIT_A \<noteq> PSP_STEADY" by (simp_all add: psp_phase_defs)
  have d: "psp_ok ?d" and k: "psp_kept ?d x \<Longrightarrow> psp_kept d x" for x using assms by (simp_all add: psp_ok_def psp_kept_def psp_same_def)
  have alone: "psp_kept d ?d" using d by (simp add: psp_kept_def psp_same_def)
  have steady: "vr (psp_steady gm d' t) (\<lambda>(d', _). psp_kept d d')" if "psp_kept d d'" "p_phase d' = PSP_STEADY" for d' t
    by (rule vr_mono [OF psp_steady_ok]) (use that in \<open>auto simp: psp_kept_def psp_same_def\<close>)
  have init_a: "vr (psp_init_a gm ?d t) (\<lambda>(d', _). psp_kept d d')" for t by (rule vr_mono [OF psp_init_a_ok [OF d]]) (auto intro: k)
  have init_b: "vr (psp_init_b gm ?d t) (\<lambda>(d', _). psp_kept d d' \<and> p_phase d' = PSP_STEADY)" for t
    by (rule vr_mono [OF psp_init_b_ok [OF d]]) (auto intro: k)
  have upd: "psp_kept d (?d\<lparr>p_phase := p, p_waiting := w\<rparr>)" if "psp_owns ?d w" "p \<noteq> PSP_STEADY" for p w
    using d that by (auto simp: psp_kept_def psp_ok_def psp_same_def)
  show ?thesis
    unfolding psp_phase_def Let_def
    using psp_ok_sized [OF assms] no_steady
    by (auto intro!: psp_states vr_mask [OF psp_load_mask_total] vr_mask [OF psp_masks_total(2)] alone
        init_a [THEN vr_mono] init_b [THEN vr_mono] steady [THEN vr_mono] upd)
qed

lemma psp_loop_ok:
  fixes s :: "('d, 'c) ppu"
  assumes "psp_ok d"
  shows "vr (psp_loop gm n d s) (\<lambda>(_, d', _). psp_kept d d')"
  using assms
proof (induction n arbitrary: d s)
  case (Suc n)
  have same: "psp_kept d d" using Suc.prems by (simp add: psp_kept_def psp_same_def)
  have rec: "vr (psp_loop gm n d' t) (\<lambda>(_, d'', _). psp_kept d d'')" if "psp_kept d d'" for d' and t :: "('d, 'c) ppu"
    by (rule vr_mono [OF Suc.IH]) (use that in \<open>auto simp: psp_kept_def psp_same_def\<close>)
  show ?case by (auto intro!: psp_phase_ok [OF Suc.prems, THEN vr_mono] same rec)
qed simp

lemma ext_psp_handler_ok:
  assumes "get_psp a s = Inr d" "psp_ok d"
  shows "vr (ext_psp_handler gm n a ids s) (\<lambda>(_, t). \<exists>d'. get_psp a t = Inr d' \<and> psp_kept d d')"
proof -
  have put: "vr (put_psp a d' t) (\<lambda>t. get_psp a t = Inr d')" for d' t
    by (auto simp: vr_def put_psp_def get_psp_def res_simps)
  have loop: "vr (psp_loop gm n (d\<lparr>p_completed := w\<rparr>) t) (\<lambda>(_, d', _). psp_kept d d')" for w t
    by (rule vr_mono [OF psp_loop_ok]) (use assms(2) in \<open>auto simp: psp_ok_def psp_kept_def psp_same_def\<close>)
  show ?thesis
    using assms(1) by (auto simp: ext_psp_handler_def intro!: loop [THEN vr_mono] put [THEN vr_mono])
qed

section \<open>The start\<close>

text \<open>As many tapes as the arrays of the parameters hold.\<close>

definition psp_tapes_fit :: "psp_params \<Rightarrow> bool" where
  "psp_tapes_fit f \<longleftrightarrow> unat (pp_num_inputs f) \<le> 14 \<and> unat (pp_num_outputs f) \<le> 14 \<and> 0 < unat (pp_num_inputs f) + unat (pp_num_outputs f)"

definition psp_from :: "psp_layout \<Rightarrow> psp_params \<Rightarrow> u32 \<Rightarrow> psp_active \<Rightarrow> bool" where
  "psp_from l f m d \<longleftrightarrow> p_cmd_id d = pl_cmd_id l \<and> p_group_cmds d = 1 + pp_num_inputs f + pp_num_outputs f \<and> p_f d = f \<and> p_cmd_mask d = m"

lemma psp_from_upd [simp]:
  "psp_from l f m (d\<lparr>p_inputs := xs\<rparr>) = psp_from l f m d" "psp_from l f m (d\<lparr>p_outputs := ys\<rparr>) = psp_from l f m d"
  "psp_from l f m (d\<lparr>p_groups := gs\<rparr>) = psp_from l f m d" "psp_from l f m (d\<lparr>p_phase := k\<rparr>) = psp_from l f m d"
  "psp_from l f m (d\<lparr>p_waiting := w\<rparr>) = psp_from l f m d" "psp_from l f m (d\<lparr>p_completed := w\<rparr>) = psp_from l f m d"
  by (simp_all add: psp_from_def)

lemma psp_place_from:
  "psp_from l f m d \<Longrightarrow> vr (rfold (psp_place_input f ps n) xs (u, d, s)) (\<lambda>(_, d', _). psp_from l f m d')"
  "psp_from l f m d \<Longrightarrow> vr (rfold (psp_place_output f ps n) xs (u, d, s)) (\<lambda>(_, d', _). psp_from l f m d')"
  by (rule vr_rfold; auto simp: psp_place_input_def psp_place_output_def vr_def res_simps split: if_splits)+

lemma psp_started_ok:
  assumes n: "psp_tapes_fit f" "pp_num_inputs f + pp_num_outputs f \<le> EXT_PSP_MAX_TAPES"
    and id: "pl_cmd_id l \<le> of_nat SPU_MAX_COMMANDS - (1 + pp_num_inputs f + pp_num_outputs f) * 2"
    and m: "mask_at (unat ((1 + pp_num_inputs f + pp_num_outputs f) * 2)) (unat (pl_cmd_id l)) = Inr m" and d: "psp_from l f m d"
  shows "psp_sized d" "psp_owns d (p_cmd_mask d)"
proof -
  let ?n = "1 + pp_num_inputs f + pp_num_outputs f"
  have add: "unat (x + y) = unat x + unat y" if "unat x + unat y < 2 ^ 32" for x y :: u32
    using that by (simp add: unat_word_ariths)
  have sum: "unat (pp_num_inputs f + pp_num_outputs f) = unat (pp_num_inputs f) + unat (pp_num_outputs f)"
    using n(1) by (intro add) (simp add: psp_tapes_fit_def)
  have "unat (pp_num_inputs f + pp_num_outputs f) \<le> 15" using n(2) by (simp add: EXT_PSP_MAX_TAPES_def word_le_nat_alt)
  then have le: "unat (pp_num_inputs f) + unat (pp_num_outputs f) \<le> 15" by (simp only: sum)
  have "unat ?n = 1 + unat (pp_num_inputs f + pp_num_outputs f)"
  proof -
    have "unat (1 :: u32) + unat (pp_num_inputs f + pp_num_outputs f) < 2 ^ 32" using le sum by simp
    from add [OF this] show ?thesis by (simp only: add.assoc unat_1)
  qed
  then have one: "unat ?n = 1 + (unat (pp_num_inputs f) + unat (pp_num_outputs f))" by (simp only: sum)
  have two: "unat (?n * 2) = 2 * unat ?n" using one le by (simp add: unat_word_ariths del: unat_1)
  have small: "unat (?n * 2) < 32" using m by (auto simp: mask_at_def get_mask_def shl_def res_simps)
  have sub: "unat (32 - x) = 32 - unat x" if "unat x < 32" for x :: u32
    using that by (simp add: unat_sub word_le_nat_alt)
  have "unat (of_nat SPU_MAX_COMMANDS - ?n * 2 :: u32) = 32 - unat (?n * 2)"
    using sub [OF small] by (simp only: SPU_MAX_COMMANDS_def of_nat_numeral)
  then have room: "unat (pl_cmd_id l) + unat (?n * 2) \<le> 32" using id small by (simp add: word_le_nat_alt)
  have d': "psp_cmds d = unat ?n" "psp_id d = unat (pl_cmd_id l)" "psp_inputs d = unat (pp_num_inputs f)" "psp_outputs d = unat (pp_num_outputs f)"
    "p_cmd_mask d = m"
    using d by (simp_all add: psp_from_def psp_cmds_def psp_id_def psp_inputs_def psp_outputs_def)
  show "psp_sized d"
    unfolding psp_sized_def d' using one two small room n(1) by (auto simp: psp_tapes_fit_def)
  have "unat (pl_cmd_id l) < 32" using m by (auto simp: mask_at_def get_mask_def shl_def res_simps)
  from mask_at_in [OF small this, of "unat (pl_cmd_id l)" "unat (pl_cmd_id l) + unat (?n * 2)"]
  have "bits_in (unat (pl_cmd_id l)) (unat (pl_cmd_id l) + unat (?n * 2)) m" using m by auto
  then show "psp_owns d (p_cmd_mask d)" by (simp only: psp_owns_def d' two)
qed

lemma psp_start_ok:
  assumes f: "psp_tapes_fit f" and n: "iters \<noteq> 0"
  shows "vr (ext_ppu_spu_ppu code gm d0 (Some a) l f in_bufs out_bufs iters cb tag s) (\<lambda>t. \<exists>d. get_psp a t = Inr d \<and> psp_ok d \<and>
     p_cmd_id d = pl_cmd_id l \<and> p_group_cmds d = 1 + pp_num_inputs f + pp_num_outputs f)"
proof -
  have put: "vr (put_psp a d t) (\<lambda>t. get_psp a t = Inr d)" for d t
    by (auto simp: vr_def put_psp_def get_psp_def res_simps)
  have new_op: "vr (spu_new_ext_op (Some a) i w h cb tag x t) R" if "\<And>t. R (a, t)" for i w h x t R
    using that by (auto simp: vr_def spu_new_ext_op_def res_simps)
  have new_group: "vr (spu_new_int_group i t) R" if "\<And>g t. R (g, t)" for i t R
    using that by (auto simp: vr_def)
  have new: "vr (new_psp l f iters m d0) (psp_from l f m)" for m
    by (auto simp: vr_def new_psp_def res_simps psp_from_def)
  have alloc: "vr (psp_alloc_mask d) (\<lambda>w. \<exists>d'. d' = d\<lparr>p_phase := PSP_ALLOC, p_waiting := w, p_completed := 0\<rparr> \<and> psp_ok d' \<and>
      p_cmd_id d' = pl_cmd_id l \<and> p_group_cmds d' = 1 + pp_num_inputs f + pp_num_outputs f)"
    if "psp_from l f m d" "psp_sized d" "psp_owns d (p_cmd_mask d)" for m d
    by (rule vr_mask [OF psp_masks_total(1) [OF that(2)]]) (use that in \<open>simp add: psp_ok_def psp_from_def psp_phase_defs\<close>)
  have finish: "vr (psp_alloc_mask d) (\<lambda>w. vr (put_psp a (d\<lparr>p_phase := PSP_ALLOC, p_waiting := w, p_completed := 0\<rparr>) t) (\<lambda>t. \<exists>d. get_psp a t = Inr d \<and> psp_ok d \<and>
     p_cmd_id d = pl_cmd_id l \<and> p_group_cmds d = 1 + pp_num_inputs f + pp_num_outputs f))"
    if "psp_from l f m d" "psp_sized d" "psp_owns d (p_cmd_mask d)" for m d t
    by (rule alloc [OF that, THEN vr_mono]) (auto intro!: put [THEN vr_mono])
  show ?thesis
    unfolding ext_ppu_spu_ppu_def if_not_P [OF n] Let_def vr_simps(3,4)
  proof (intro impI, rule vrI)
    fix m
    assume c: "pp_num_inputs f + pp_num_outputs f \<le> EXT_PSP_MAX_TAPES \<and> pl_cmd_id l \<le> of_nat SPU_MAX_COMMANDS - (1 + pp_num_inputs f + pp_num_outputs f) * 2 \<and>
       pl_cmd_data l AND CACHE_MASK = 0"
      and m: "mask_at (unat ((1 + pp_num_inputs f + pp_num_outputs f) * 2)) (unat (pl_cmd_id l)) = Inr m"
    note ok = psp_started_ok [OF f c [THEN conjunct1] c [THEN conjunct2, THEN conjunct1] m]
    show "vr (spu_new_ext_op (Some a) (pl_spu_id l) m EXT_PSP_HANDLER cb tag (Inr (Inl d0)) s) (\<lambda>y. vr (case y of (a, s) \<Rightarrow>
      rbind (new_psp l f iters m d0) (\<lambda>d.
      rbind (rfold (psp_place_input f in_bufs iters) [0..<psp_inputs d] (pl_in_start l + CACHE_SIZE, d, s)) (\<lambda>(_, d, s).
      rbind (rfold (psp_place_output f out_bufs iters) [0..<psp_outputs d] (pl_out_start l + CACHE_SIZE, d, s)) (\<lambda>(_, d, s).
      rbind (spu_new_int_group (pl_spu_id l) s) (\<lambda>(g0, s). rbind (spu_new_int_group (pl_spu_id l) s) (\<lambda>(g1, s).
      rbind (psp_setup_load gm (d\<lparr>p_groups := [(g0, pl_cmd_data l), (g1, pl_cmd_data l + p_group_cmds d * 64)]\<rparr>) l s) (\<lambda>s.
      rbind (psp_issue_group (d\<lparr>p_groups := [(g0, pl_cmd_data l), (g1, pl_cmd_data l + p_group_cmds d * 64)]\<rparr>) 0 s) (\<lambda>s.
      rbind (psp_setup_init_a gm (d\<lparr>p_groups := [(g0, pl_cmd_data l), (g1, pl_cmd_data l + p_group_cmds d * 64)]\<rparr>) s) (\<lambda>s.
      rbind (psp_alloc_mask (d\<lparr>p_groups := [(g0, pl_cmd_data l), (g1, pl_cmd_data l + p_group_cmds d * 64)]\<rparr>)) (\<lambda>m.
        put_psp a (d\<lparr>p_groups := [(g0, pl_cmd_data l), (g1, pl_cmd_data l + p_group_cmds d * 64)], p_phase := PSP_ALLOC, p_waiting := m, p_completed := 0\<rparr>) s)))))))))) (\<lambda>t. \<exists>d. get_psp a t = Inr d \<and> psp_ok d \<and>
     p_cmd_id d = pl_cmd_id l \<and> p_group_cmds d = 1 + pp_num_inputs f + pp_num_outputs f))"
      by (rule new_op, simp only: prod.case vr_simps(3), rule new [THEN vr_mono], rule psp_place_from(1) [THEN vr_mono], assumption,
          clarsimp, rule psp_place_from(2) [THEN vr_mono], assumption, clarsimp)
        (intro new_group, simp only: prod.case vr_simps(3), intro new_group psp_states, simp only: prod.case vr_simps(3), intro psp_states finish, simp_all add: ok)
  qed
qed

section \<open>Calls of the handler\<close>

text \<open>Calls of the handler with completed IDs; before each, something else may happen to the library's state.\<close>

definition psp_calls :: "group_mem \<Rightarrow> nat \<Rightarrow> nat \<Rightarrow> (u32 \<times> (('e, 'c) psp_ppu \<Rightarrow> ('e, 'c) psp_ppu)) list \<Rightarrow> ('e, 'c) psp_ppu \<Rightarrow> ('e, 'c) psp_ppu res" where
  "psp_calls gm n a = rfold (\<lambda>(w, env) s. rbind (ext_psp_handler gm n a w (env s)) (\<lambda>(_, s). Inr s))"

lemma get_psp_heap: "op_heap t = op_heap s \<Longrightarrow> get_psp a t = get_psp a s"
  by (simp add: get_psp_def)

lemma psp_calls_ok:
  fixes s :: "('e, 'c) psp_ppu"
  assumes "get_psp a s = Inr d" "psp_ok d" "\<forall>(w, env)\<in>set ws. \<forall>s. op_heap (env s) = op_heap s"
  shows "vr (psp_calls gm n a ws s) (\<lambda>t. \<exists>d'. get_psp a t = Inr d' \<and> psp_kept d d')"
  using assms(3)
proof (induction ws rule: rev_induct)
  case Nil
  then show ?case using assms(1,2) by (simp add: psp_calls_def psp_kept_def psp_same_def)
next
  case (snoc x ws)
  obtain w env where x: "x = (w, env)" by (cases x)
  have env: "op_heap (env t) = op_heap t" for t using snoc.prems by (simp add: x)
  have step: "vr (rbind (ext_psp_handler gm n a w (env t)) (\<lambda>(_, s). Inr s)) (\<lambda>t. \<exists>d'. get_psp a t = Inr d' \<and> psp_kept d d')"
    if hyp: "\<exists>d'. get_psp a t = Inr d' \<and> psp_kept d d'" for t :: "('e, 'c) psp_ppu"
  proof -
    obtain d' where d': "get_psp a (env t) = Inr d'" "psp_kept d d'" using hyp get_psp_heap [OF env] by metis
    then have ok: "psp_ok d'" by (simp add: psp_kept_def)
    show ?thesis by (auto intro!: ext_psp_handler_ok [OF d'(1) ok, THEN vr_mono] intro: psp_kept_trans [OF d'(2)])
  qed
  have ih: "vr (psp_calls gm n a ws s) (\<lambda>t. \<exists>d'. get_psp a t = Inr d' \<and> psp_kept d d')" using snoc by simp
  have app: "psp_calls gm n a (ws @ [x]) s = rbind (psp_calls gm n a ws s) (\<lambda>t. rbind (ext_psp_handler gm n a w (env t)) (\<lambda>(_, s). Inr s))"
    by (auto simp: psp_calls_def x rfold_append rbind_def split: sum.splits)
  show ?case unfolding app vr_simps(3) [of "psp_calls gm n a ws s"] by (rule vr_mono [OF ih step])
qed

section \<open>A small operation\<close>

definition psp_params_of :: "u32 \<Rightarrow> u32 \<Rightarrow> psp_params" where
  "psp_params_of n m = \<lparr>pp_inputs = replicate (unat n) \<lparr>pi_pop = 4, pi_peek_extra = 0, pi_size = 1024\<rparr>,
     pp_outputs = replicate (unat m) \<lparr>po_push = 8, po_size = 1024\<rparr>, pp_num_inputs = n, pp_num_outputs = m, pp_data_parallel = False,
     pp_group_iters = 4, pp_loop_iters = 1\<rparr>"

definition psp_layout0 :: psp_layout where
  "psp_layout0 = \<lparr>pl_spu_id = 0, pl_desc = \<lparr>work_func = 0, fparam = 0, state_size = 0, state_addr = 0, num_inputs = 1, num_outputs = 1\<rparr>,
     pl_filt_cb = 65536, pl_in_start = 0, pl_out_start = 2048, pl_cmd_data = 81920, pl_cmd_id = 0, pl_load = True\<rparr>"

definition psp_memory :: psp_active where
  "psp_memory = \<lparr>p_spu_id = 0, p_f = psp_params_of 1 1, p_inputs = replicate 14 \<lparr>pt_data = 0, pt_buf = 0, pt_instance = 0\<rparr>,
     p_outputs = replicate 14 \<lparr>pt_data = 0, pt_buf = 0, pt_instance = 0\<rparr>, p_filt_cb = 0, p_cmd_id = 0, p_group_cmds = 0, p_load = False, p_unload = False,
     p_groups = [], p_groups_left = 0, p_last_iters = 0, p_cur_group = 0, p_cmd_mask = 0, p_phase = 0, p_waiting = 0, p_completed = 0\<rparr>"

definition psp_demo :: "(unit, unit) psp_ppu" where
  "psp_demo = \<lparr>spus = [run_info\<lparr>i_free_group := Some 32, i_next_free := (\<lambda>g. if g < 39 then Some (g + 1) else None)\<rparr>], op_heap = Map.empty,
     pmem = \<lparr>bufs = (\<lambda>b. Some (let t = (if b = 0 then 64 else 0) in demo_buffer\<lparr>b_mask := 255, b_tail := t, otail := t\<rparr>)), datas = Map.empty\<rparr>,
     ua_head = (\<lambda>_. []), ua_tail = (\<lambda>_. []), front_dtcb = (\<lambda>_ _. (0, 0)), back_dtcb = (\<lambda>_ _. (0, 0)), next_poll = 0, client = ()\<rparr>"

definition psp_code :: "(ext_spu_data + (psp_active + unit), unit) lib_code" where
  "psp_code = \<lparr>run_op = (\<lambda>_ _ _ s. Inr (False, s)), run_generic = (\<lambda>_ _. Inr), run_complete = (\<lambda>_ _ _ _. Inr)\<rparr>"

section \<open>The largest number of tapes\<close>

definition drain :: "(unit, unit) psp_ppu \<Rightarrow> (unit, unit) psp_ppu" where
  "drain s = s\<lparr>spus := map (\<lambda>u. u\<lparr>i_in_mbox := [], i_issued := 0\<rparr>) (spus s)\<rparr>"

section \<open>Properties\<close>

text \<open>C14: the operation with several tapes only ever waits for command IDs of its own: after it has been started, and after any calls
  of its handler with any completed IDs, the IDs it waits for lie among the two per tape, and two more for the filter, from the
  first ID that the caller gave.  So completions of other commands cannot advance it, and it cannot wait for one that is
  not its own.  What happens between the calls is assumed to leave the data of operations alone.\<close>

theorem operation_waits_for_own_ids:
  assumes "psp_tapes_fit f" "iters \<noteq> 0" "ext_ppu_spu_ppu code gm d0 (Some a) l f in_bufs out_bufs iters cb tag s = Inr s'"
    and "\<forall>(w, env)\<in>set ws. \<forall>s. op_heap (env s) = op_heap s" "psp_calls gm n a ws s' = Inr t"
  shows "\<exists>d. get_psp a t = Inr d \<and> bits_in (unat (pl_cmd_id l))
     (unat (pl_cmd_id l) + 2 * unat (1 + pp_num_inputs f + pp_num_outputs f)) (p_waiting d)"
proof -
  obtain d where d: "get_psp a s' = Inr d" "psp_ok d" and l: "p_cmd_id d = pl_cmd_id l" "p_group_cmds d = 1 + pp_num_inputs f + pp_num_outputs f"
    using psp_start_ok [OF assms(1,2)] assms(3) by (fastforce simp: vr_def)
  obtain d' where d': "get_psp a t = Inr d'" "psp_kept d d'"
    using psp_calls_ok [OF d assms(4)] assms(5) by (fastforce simp: vr_def)
  then have "psp_owns d' (p_waiting d')" "p_cmd_id d' = pl_cmd_id l" "p_group_cmds d' = 1 + pp_num_inputs f + pp_num_outputs f"
    using l by (simp_all add: psp_kept_def psp_ok_def psp_same_def)
  then have "bits_in (unat (pl_cmd_id l)) (unat (pl_cmd_id l) + 2 * unat (1 + pp_num_inputs f + pp_num_outputs f)) (p_waiting d')"
    by (simp only: psp_owns_def psp_id_def psp_cmds_def)
  then show ?thesis using d'(1) by blast
qed

theorem operation_waits_for_own_ids_witness:
  "\<exists>s' t d. ext_ppu_spu_ppu psp_code zero_mem psp_memory (Some 7) psp_layout0 (psp_params_of 1 1) [0] [1] 4 0 0 psp_demo = Inr s' \<and>
     psp_calls zero_mem 10 7 [(16, drain)] s' = Inr t \<and> get_psp 7 t = Inr d \<and> p_phase d = PSP_LOAD \<and> p_waiting d \<noteq> 0 \<and> bits_in 0 6 (p_waiting d)"
proof -
  have "case ext_ppu_spu_ppu psp_code zero_mem psp_memory (Some 7) psp_layout0 (psp_params_of 1 1) [0] [1] 4 0 0 psp_demo of
      Inr s' \<Rightarrow> (case psp_calls zero_mem 10 7 [(16, drain)] s' of Inr t \<Rightarrow> (case get_psp 7 t of Inr d \<Rightarrow> p_phase d = PSP_LOAD \<and> p_waiting d \<noteq> 0
        | Inl _ \<Rightarrow> False) | Inl _ \<Rightarrow> False) | Inl _ \<Rightarrow> False"
    by code_simp
  then obtain s' t d where r: "ext_ppu_spu_ppu psp_code zero_mem psp_memory (Some 7) psp_layout0 (psp_params_of 1 1) [0] [1] 4 0 0 psp_demo = Inr s'"
      "psp_calls zero_mem 10 7 [(16, drain)] s' = Inr t" "get_psp 7 t = Inr d" "p_phase d = PSP_LOAD" "p_waiting d \<noteq> 0"
    by (auto split: sum.splits)
  have "psp_tapes_fit (psp_params_of 1 1)" "(4 :: u32) \<noteq> 0" "\<forall>(w :: u32, env)\<in>set [(16, drain)]. \<forall>s. op_heap (env s) = op_heap s"
    by (simp_all add: psp_tapes_fit_def psp_params_of_def drain_def)
  from operation_waits_for_own_ids [OF this(1,2) r(1) this(3) r(2)] show ?thesis
    using r by (auto simp: psp_params_of_def psp_layout0_def)
qed

text \<open>C40: an error of the code: the check at the start lets 15 tapes pass, the number that \<open>EXT_PSP_MAX_TAPES\<close> promises, when the
  first command ID is 0.  A group then has 16 commands, and the mask of the IDs of two groups shifts 1 by 32, which C leaves
  undefined: no operation with 15 tapes starts.\<close>

theorem fifteen_tapes_shift_out_of_range:
  assumes "iters \<noteq> 0" "pp_num_inputs f + pp_num_outputs f = EXT_PSP_MAX_TAPES" "pl_cmd_id l = 0" "pl_cmd_data l AND CACHE_MASK = 0"
  shows "ext_ppu_spu_ppu code gm d0 al l f in_bufs out_bufs iters cb tag s = Inl OutOfBounds"
proof -
  have n: "1 + pp_num_inputs f + pp_num_outputs f = 16" using assms(2) by (simp add: EXT_PSP_MAX_TAPES_def add.assoc)
  have m: "mask_at (unat ((16 :: u32) * 2)) k = Inl OutOfBounds" for k by (simp add: mask_at_def get_mask_def shl_def ensure_def)
  have c: "pp_num_inputs f + pp_num_outputs f \<le> EXT_PSP_MAX_TAPES \<and> pl_cmd_id l \<le> of_nat SPU_MAX_COMMANDS - 16 * 2 \<and> pl_cmd_data l AND CACHE_MASK = 0"
    using assms(2-4) by (simp add: SPU_MAX_COMMANDS_def)
  show ?thesis
    unfolding ext_ppu_spu_ppu_def Let_def n m ensure_def if_not_P [OF assms(1)] if_P [OF c] by simp
qed

theorem fifteen_tapes_shift_out_of_range_witness:
  "ext_ppu_spu_ppu psp_code zero_mem psp_memory (Some 7) psp_layout0 (psp_params_of 7 8) [] [] 4 0 0 psp_demo = Inl OutOfBounds"
  by (rule fifteen_tapes_shift_out_of_range) (simp_all add: psp_params_of_def EXT_PSP_MAX_TAPES_def psp_layout0_def CACHE_MASK_def CACHE_SIZE_def)

end
