(* ===== verification/Spec2Isabelle.thy ===== *)
theory Spec2Isabelle
  imports Library_IO Run SplitJoin Spu Dt_Target Ext_Buffering Psp_Ids
begin

text \<open>
  A model of the run-time libraries of StreamIt that are written in C, and the theorems that make
  it correct.  All files are named relative to \<open>src/streams\<close>.

  \<^bold>\<open>The program.\<close>  A StreamIt program is a graph of filters joined by tapes, pipelines, splitters and
  joiners.  \<open>library/c\<close> runs such a graph in one process: contexts hold the graph, tapes are
  circular byte buffers, the main loop calls the work function of the root.  \<open>library/cell\<close> runs the
  filters on the synergistic processors (SPUs) of a Cell processor: the PPU builds groups of commands
  (\<open>src/ppu/spucmdstub.c\<close>) and posts a request; the scheduler of an SPU (\<open>src/spu/depend.c\<close>) copies
  the group in, runs each command when the commands it depends on have completed, and reports completed IDs;
  a command is a state machine that suspends itself while the memory flow controller (MFC) copies
  (\<open>src/spu/filter.c\<close>, \<open>src/spu/dt.c\<close>, \<open>src/spu/buffer.c\<close>).  The PPU library (\<open>src/ppu/spulib.c\<close>) keeps what is
  known of each SPU, polls the SPUs for completed IDs and hands them to library-handled operations; the
  input-run-output operation (\<open>src/ppu/extspu.c\<close>) is one, double-buffered over six IDs and two groups.  The dynamic
  scheduler (\<open>ds\<close>) runs a whole graph: filters joined by channels in main memory, duplicate splitters as trees of channels that
  share a buffer; it counts the iterations each filter may run, gives filters to SPUs, and drives each through the phases of its run.

  \<^bold>\<open>Theories.\<close>
  \<^item> \<open>Prelude\<close>: results that may be a fault, loops that stop at the first fault, word abbreviations.
  \<^item> \<open>Ring_Bytes\<close>, \<open>Queue_Store\<close>: byte arrays read and written through a masked index, and the
    interface of a store of queues, a locale that tapes and Cell buffers both interpret.
  \<^item> \<open>Tape\<close>, \<open>Stream_Context\<close>, \<open>SplitJoin\<close>, \<open>Stream_Connect\<close>, \<open>Run\<close>, \<open>Message\<close>, \<open>Library_IO\<close>: the files
    \<open>streamit.h\<close>, \<open>streamit_tape.c\<close>, \<open>stream_context.c\<close>, \<open>streamit_splitjoin.c\<close>, \<open>streamit_run.c\<close>,
    \<open>streamit_message.c\<close> and \<open>streamit_io.c\<close> of \<open>library/c\<close>, one definition per function or macro.
  \<^item> \<open>Cell_Buffer\<close>, \<open>Command\<close>: \<open>library/cell/src/buffer.h\<close>, \<open>ppu/buffer.c\<close>, the accesses of filter code
    (\<open>include/beginfilter.h\<close>), \<open>spucommand.h\<close> and the command stubs.
  \<^item> \<open>Depend\<close>: the scheduler of an SPU and its DMA tags.  The state is the record \<open>dep_state\<close>: the
    command table, the circular list (threaded through \<open>c_next\<close>, pointed into by \<open>dep_cur_ptr\<close> and \<open>dep_next_ptr\<close>),
    the tags and the mailboxes.  \<open>dep_step\<close> is one turn of the loop of \<open>dep_execute\<close>.
  \<^item> \<open>Scheduler\<close>: who owns which tag, the contract of a command handler (the locale \<open>command_handler\<close>),
    the step relation with the PPU and the MFC as environment, and the specification of the dependency graph.
  \<^item> \<open>Spu_Filter\<close>, \<open>Spu_Dt\<close>: the handlers of \<open>filter.c\<close>, \<open>buffer.c\<close> and \<open>dt.c\<close> over \<open>spu_state\<close>, which extends
    \<open>dep_state\<close> by the local store, and the proofs that each keeps the contract.
  \<^item> \<open>Filter_Plan\<close>, \<open>Dt_Target\<close>: what those commands do over all their turns.
  \<^item> \<open>Spu\<close>: the dispatch over all handlers, the interpretation of the contract and the reachable states.

  \<^item> \<open>Spulib\<close>, \<open>Ppu_Dt\<close>, \<open>Completion\<close>: the PPU library, \<open>spulib.h\<close>, \<open>spulibint.h\<close>, \<open>spulib.c\<close> and \<open>ppu/dt.c\<close>: the record
    \<open>ppu\<close>, groups and their issue, waiting transfers, and the processing of completion messages.
  \<^item> \<open>Ext_Spu\<close>: the input-run-output operation, one definition per function and per phase of its handler.
  \<^item> \<open>Pipeline\<close>: the contract of a plan of command groups (the locale \<open>pipeline\<close>) and what follows from it;
    \<open>Ext_Plan\<close>: the plan of an operation, which interprets it.
  \<^item> \<open>Ext_Groups\<close>, \<open>Ext_Rounds\<close>, \<open>Ext_Run\<close>, \<open>Ext_Start\<close>: the code of the operation builds the groups of the plan, its phases
    follow the rounds, a completion message is handled, and an idle SPU starts at the first round.
  \<^item> \<open>Ext_System\<close>, \<open>Ext_Buffering\<close>: the closed system of the PPU and an SPU and the theorems about it.
  \<^item> \<open>Ds\<close>, \<open>Ds_Channels\<close>, \<open>Ds_Sizing\<close>, \<open>Ds_Commands\<close>, \<open>Ds_Sched\<close>, \<open>Ds_Run\<close>, \<open>Ds_Init\<close>: the files of \<open>library/cell/ds\<close>, one
    definition per function and per phase of \<open>handle_complete\<close>.  The state \<open>ds_state\<close> is the \<open>client\<close> part of \<open>ppu\<close>; pointers to filters,
    channels and instances are indices of arrays.
  \<^item> \<open>Ds_Avail\<close>, \<open>Ds_Tree\<close>, \<open>Ds_Free\<close>, \<open>Ds_Group\<close>: what the counts of a filter and of a tree of channels mean, and that updates keep
    it; \<open>Ds_Accounting\<close>: the properties.
  \<^item> \<open>Ds_View\<close>, \<open>Ds_Slots\<close>: which filter has which slots of an SPU, followed through every function of the scheduler;
    \<open>Ds_Polls\<close>: the same under the library's poll and over a run.
  \<^item> \<open>Ext_Psp\<close>, \<open>Psp_Ids\<close>: \<open>src/ppu/extpsp.c\<close>, the operation with several tapes, and the IDs it waits for.

  \<^bold>\<open>What the theorems show.\<close>  For \<open>library/c\<close>: the block copies of a weighted splitter or joiner are the
  item loop they replace; splitters and joiners move exactly the items their weights say, and a
  round-robin split followed by the join is the identity; connecting tapes terminates and wires the whole
  graph; messages are delivered once per receiver, in order; a run with a count does that many iterations, and one
  without a count ends with a signal or overflows its counter; reading a file into a tape and writing it back is the identity.  For the SPU:
  in every reachable state the lists of the scheduler hold exactly the commands that are ready, each
  once, and no tag has two owners; completing a command and adding a group implement the abstract
  dependency graph, so a command runs only after everything it depends on; the worker resumes exactly
  the commands whose transfers are done; the filter and buffer commands never fail an assertion of the scheduler or of
  the DMA layer, and once they have a tag no check either; the turns of loading a filter, writing it back and running it, from the
  first to the one that completes the command, follow a plan that covers the state or the iterations exactly; a receiving
  buffer's tail ends where it was announced.  For an operation on an idle SPU, in every order in
  which the SPU may read, complete and report: no check or assertion of either side fails; reads, runs and
  writes stay within the two halves of the buffers; it ends within a bounded number of steps, each iteration done
  once, everything it took returned.  There the SPU is the abstract dependency graph that the scheduler is shown to implement: it reads,
  completes and reports commands, and the checks inside its handlers are the subject of the theorems above.  For the dynamic scheduler: bytes written reach every reader of a channel, and the reader's own control block of the buffer, once; bytes
  are free for the writer exactly when the slowest reader has read them, and the iterations a filter may run are exactly
  what its channels allow; the search for a group size ends at a boundary; in every state of a run two filters on an SPU do not share a control block,
  command IDs, command groups or room for commands.  An operation with several tapes waits only for its own IDs.  Some theorems show
  faults of the code: parameters of a message freed twice, the queue lost when a handler sends, the counter of an endless run, an oversized transfer of \<open>load_data\<close>,
  and a shift out of range with fifteen tapes.

  \<^bold>\<open>Conventions.\<close>  \<open>'a res\<close> is a fault or a value; each \<open>assert\<close>, \<open>check\<close>, \<open>unreached\<close> and undefined access is
  a fault.  The Cell library is modelled with \<open>CHECK\<close>, \<open>CHECK_PARAMS\<close> and \<open>DT_ALLOW_UNALIGNED\<close> on and
  \<open>DT_AUTO_ADJUST_POINTERS\<close> off, as its \<open>defs.h\<close> sets them.  Machine integers are words of their width;
  the \<open>int\<close> positions and rates of the tapes are integers, and the product that gives a tape's size faults when it
  overflows.  Recursion over a stream graph has fuel, and the theorem states how much is enough; so have
  the loops of \<open>spu_handle_internal_complete\<close> (two turns do for one operation) and of \<open>ext_spu_handler\<close> (seven do: each
  turn uses up one of six IDs) and the polling loops, which wait for the SPUs.  In the dynamic scheduler the walks along a tree of
  channels have its depth as fuel, the walks along the instances of a filter their number, the doubling of a group size 33 turns, as
  a 32-bit size is 0 after 32, \<open>ds_handle_complete\<close> and \<open>psp_loop\<close> a number of phases, and the work functions that run filters upstream a depth;
  all other recursion is proved to terminate.

  \<^bold>\<open>Parameters.\<close>  Work functions, message handlers and functions called by a command are the user's:
  they are arguments of the definitions, or fields of \<open>spu_code\<close>.  The MFC and the mailboxes are hardware:
  \<open>env_step\<close> says how they and the PPU may change the state between two turns.

  \<^bold>\<open>Where the model is narrower than the code.\<close>  \<open>dep_add_command\<close> stores pointers into the local store's area for groups; the command table
  of \<open>dep_state\<close> holds copies of the commands, so a later transfer into that area cannot change a pending command, which the PPU must not do.  Likewise
  \<open>env_step\<close> lets the MFC store only commands as a group has them (with no tag of their own and with dependency lists of the right length).  A group keeps its commands as a
  list and a size instead of an end pointer; \<open>layout\<close> puts the list at consecutive addresses, so that commands lie one behind the other holds by
  construction, and \<open>walk_group\<close> is the loop of \<open>run_req_handler\<close> over such an area.  In \<open>Ext_System\<close> the handlers of the SPU's commands do not appear.

  \<^bold>\<open>Not modelled.\<close>  Statistics and printing; floating-point transforms (\<open>streamit_fft.c\<close>); start-up code.
  The C++ libraries (\<open>cluster\<close>, \<open>fixed_point\<close>), the compiler, which
  is Java, and the benchmarks and generated programs under \<open>apps\<close> are outside the model.
\<close>

end
